(* ===== verification/Prelude.thy ===== *)
theory Prelude
  imports Main "HOL-Library.Multiset" "HOL-Library.Char_ord" "HOL-Library.List_Lexorder"
    "HOL-Library.Word"
begin

text \<open>
  What every component of the development shares: Rust's fixed-width integers read as
  naturals with the saturation and wrap-around written out, \<open>Result\<close> with a third outcome
  for a panic, \<open>Ordering\<close> and comparators, the stable \<open>sort_by\<close> of slices,
  \<open>BTreeMap\<close> as a key-ordered association list, \<open>Duration\<close>, and the lemmas about
  them that the component proofs use. None of this is code of the repository: it is the
  part of the Rust language and standard library the repository uses.
\<close>

named_theorems res_simps "how results and panics propagate"
named_theorems u64_simps "saturating and wrapping arithmetic on u64"

section \<open>Integers\<close>

type_synonym u16 = nat
type_synonym u32 = nat
type_synonym u64 = nat
type_synonym usize = nat
type_synonym i8 = int
type_synonym i64 = int

text \<open>\<open>Vec<u8>\<close>: a character is a byte.\<close>

type_synonym bytes = string

definition u64_max :: u64 where
  "u64_max = 2 ^ 64 - 1"

definition i8_max :: i8 where
  "i8_max = 127"

definition saturating_add :: "u64 \<Rightarrow> u64 \<Rightarrow> u64" where
  "saturating_add a b = min (a + b) u64_max"

definition saturating_sub :: "u64 \<Rightarrow> u64 \<Rightarrow> u64" where
  "saturating_sub a b = a - b"

text \<open>The increment of a release build: it wraps.\<close>

definition wrapping_incr :: "u64 \<Rightarrow> u64" where
  "wrapping_incr a = (if a = u64_max then 0 else a + 1)"

lemma saturating_add_le_max [simp]: "saturating_add a b \<le> u64_max"
  by (simp add: saturating_add_def)

lemma saturating_add_mono [u64_simps]:
  "a \<le> a' \<Longrightarrow> b \<le> b' \<Longrightarrow> saturating_add a b \<le> saturating_add a' b'"
  by (auto simp: saturating_add_def)

lemma saturating_add_ge_left [u64_simps]: "a \<le> u64_max \<Longrightarrow> a \<le> saturating_add a b"
  by (simp add: saturating_add_def)

lemma saturating_add_exact [u64_simps]: "a + b \<le> u64_max \<Longrightarrow> saturating_add a b = a + b"
  by (simp add: saturating_add_def)

section \<open>Results\<close>

text \<open>
  \<open>Result<T, E>\<close>; \<open>Panic\<close> is the outcome of \<open>unreachable!\<close>, \<open>expect\<close> and of
  arithmetic that overflows under debug assertions.
\<close>

datatype ('e, 'a) res = Ok 'a | Err 'e | Panic

primrec and_then :: "('e, 'a) res \<Rightarrow> ('a \<Rightarrow> ('e, 'b) res) \<Rightarrow> ('e, 'b) res" where
  "and_then (Ok x) k = k x"
| "and_then (Err e) k = Err e"
| "and_then Panic k = Panic"

primrec map_err :: "('e \<Rightarrow> 'f) \<Rightarrow> ('e, 'a) res \<Rightarrow> ('f, 'a) res" where
  "map_err g (Ok x) = Ok x"
| "map_err g (Err e) = Err (g e)"
| "map_err g Panic = Panic"

primrec is_ok :: "('e, 'a) res \<Rightarrow> bool" where
  "is_ok (Ok x) = True"
| "is_ok (Err e) = False"
| "is_ok Panic = False"

lemma and_then_Ok_iff [res_simps]:
  "and_then r k = Ok y \<longleftrightarrow> (\<exists>x. r = Ok x \<and> k x = Ok y)"
  by (cases r) auto

lemma and_then_Panic_iff [res_simps]:
  "and_then r k = Panic \<longleftrightarrow> r = Panic \<or> (\<exists>x. r = Ok x \<and> k x = Panic)"
  by (cases r) auto

lemma and_then_Err_iff [res_simps]:
  "and_then r k = Err e \<longleftrightarrow> r = Err e \<or> (\<exists>x. r = Ok x \<and> k x = Err e)"
  by (cases r) auto

lemma map_err_Ok_iff [res_simps]: "map_err g r = Ok x \<longleftrightarrow> r = Ok x"
  by (cases r) auto

lemma map_err_Panic_iff [res_simps]: "map_err g r = Panic \<longleftrightarrow> r = Panic"
  by (cases r) auto

text \<open>A \<open>for\<close> loop whose body is a check that may return early.\<close>

fun for_each :: "('a \<Rightarrow> ('e, unit) res) \<Rightarrow> 'a list \<Rightarrow> ('e, unit) res" where
  "for_each f [] = Ok ()"
| "for_each f (x # xs) = and_then (f x) (\<lambda>_. for_each f xs)"

lemma for_each_Ok_iff [res_simps]: "for_each f xs = Ok () \<longleftrightarrow> (\<forall>x\<in>set xs. f x = Ok ())"
  by (induction xs) (auto simp: res_simps)

lemma for_each_not_Panic: "(\<And>x. x \<in> set xs \<Longrightarrow> f x \<noteq> Panic) \<Longrightarrow> for_each f xs \<noteq> Panic"
  by (induction xs) (auto simp: res_simps)

text \<open>\<open>collect::<Result<Vec<_>, _>>()\<close>: the values in order, or the first error.\<close>

fun collect_res :: "('a \<Rightarrow> ('e, 'b) res) \<Rightarrow> 'a list \<Rightarrow> ('e, 'b list) res" where
  "collect_res f [] = Ok []"
| "collect_res f (x # xs) =
     and_then (f x) (\<lambda>y. and_then (collect_res f xs) (\<lambda>ys. Ok (y # ys)))"

lemma collect_res_Ok_iff:
  "collect_res f xs = Ok ys \<longleftrightarrow> list_all2 (\<lambda>x y. f x = Ok y) xs ys"
  by (induction xs arbitrary: ys) (auto simp: res_simps list_all2_Cons1)

lemma collect_res_not_Panic: "(\<And>x. x \<in> set xs \<Longrightarrow> f x \<noteq> Panic) \<Longrightarrow> collect_res f xs \<noteq> Panic"
  by (induction xs) (auto simp: res_simps)

text \<open>\<open>Iterator::position\<close>.\<close>

fun position :: "('a \<Rightarrow> bool) \<Rightarrow> 'a list \<Rightarrow> nat option" where
  "position p [] = None"
| "position p (x # xs) = (if p x then Some 0 else map_option Suc (position p xs))"

lemma position_Some: "position P xs = Some i \<Longrightarrow> i < length xs \<and> P (xs ! i)"
  by (induction xs arbitrary: i) (auto split: if_splits)

section \<open>Ordering, comparators and the stable sort\<close>

datatype ordering = Less | Equal | Greater

primrec ord_reverse :: "ordering \<Rightarrow> ordering" where
  "ord_reverse Less = Greater"
| "ord_reverse Equal = Equal"
| "ord_reverse Greater = Less"

definition then_with :: "ordering \<Rightarrow> ordering \<Rightarrow> ordering" where
  "then_with a b = (if a = Equal then b else a)"

definition cmp_on :: "('a \<Rightarrow> 'b::linorder) \<Rightarrow> 'a \<Rightarrow> 'a \<Rightarrow> ordering" where
  "cmp_on f x y = (if f x < f y then Less else if f x = f y then Equal else Greater)"

fun insert_by :: "('a \<Rightarrow> 'a \<Rightarrow> ordering) \<Rightarrow> 'a \<Rightarrow> 'a list \<Rightarrow> 'a list" where
  "insert_by cmp x [] = [x]"
| "insert_by cmp x (y # ys) =
     (if cmp x y = Greater then y # insert_by cmp x ys else x # y # ys)"

text \<open>
  \<open>slice::sort_by\<close>: stable. Insertion sort stands for the library's merge sort; for a
  comparator that is a total preorder the stable sorted permutation is unique
  (\<open>stable_sort_unique\<close>), so the algorithm does not matter.
\<close>

definition sort_by :: "('a \<Rightarrow> 'a \<Rightarrow> ordering) \<Rightarrow> 'a list \<Rightarrow> 'a list" where
  "sort_by cmp xs = foldr (insert_by cmp) xs []"

lemma ord_reverse_simps [simp]:
  "ord_reverse a = Less \<longleftrightarrow> a = Greater" "ord_reverse a = Equal \<longleftrightarrow> a = Equal"
  "ord_reverse a = Greater \<longleftrightarrow> a = Less"
  by (cases a; simp)+

lemma mset_insert_by [simp]: "mset (insert_by cmp x xs) = add_mset x (mset xs)"
  by (induction xs) auto

lemma mset_sort_by [simp]: "mset (sort_by cmp xs) = mset xs"
  by (induction xs) (auto simp: sort_by_def)

lemma set_insert_by [simp]: "set (insert_by cmp x xs) = insert x (set xs)"
  by (metis mset_insert_by set_mset_add_mset_insert set_mset_mset)

lemma set_sort_by [simp]: "set (sort_by cmp xs) = set xs"
  by (metis mset_sort_by set_mset_mset)

lemma length_sort_by [simp]: "length (sort_by cmp xs) = length xs"
  by (metis mset_sort_by size_mset)

lemma sort_by_Nil_iff [simp]: "sort_by cmp xs = [] \<longleftrightarrow> xs = []"
  by (metis length_0_conv length_sort_by)

lemma sort_by_simps [simp]:
  "sort_by cmp [] = []" "sort_by cmp (x # xs) = insert_by cmp x (sort_by cmp xs)"
  by (simp_all add: sort_by_def)

text \<open>
  The contract \<open>sort_by\<close> documents for its comparator: a total preorder. Every comparator
  closure of the repository is interpreted against it.
\<close>

locale comparator =
  fixes cmp :: "'a \<Rightarrow> 'a \<Rightarrow> ordering"
  assumes flip: "cmp y x = ord_reverse (cmp x y)"
    and le_trans: "cmp x y \<noteq> Greater \<Longrightarrow> cmp y z \<noteq> Greater \<Longrightarrow> cmp x z \<noteq> Greater"
begin

lemma refl_equal: "cmp x x = Equal"
  using flip [of x x] by (cases "cmp x x") auto

lemma le_total: "cmp x y \<noteq> Greater \<or> cmp y x \<noteq> Greater"
  using flip [of x y] by (cases "cmp x y") auto

lemma greater_flip: "cmp x y = Greater \<Longrightarrow> cmp y x = Less"
  using flip [of y x] by simp

lemma insert_by_sorted:
  "sorted_wrt (\<lambda>a b. cmp a b \<noteq> Greater) xs \<Longrightarrow>
   sorted_wrt (\<lambda>a b. cmp a b \<noteq> Greater) (insert_by cmp x xs)"
proof (induction xs)
  case (Cons y ys)
  show ?case
  proof (cases "cmp x y = Greater")
    case True
    then have "cmp y x \<noteq> Greater" by (simp add: greater_flip)
    with True Cons show ?thesis by auto
  next
    case False
    have "cmp x z \<noteq> Greater" if "z \<in> set ys" for z
      using that False Cons.prems le_trans [of x y z] by simp
    with False Cons show ?thesis by simp
  qed
qed simp

lemma sort_by_sorted: "sorted_wrt (\<lambda>a b. cmp a b \<noteq> Greater) (sort_by cmp xs)"
  by (induction xs) (auto intro: insert_by_sorted)

lemma sort_by_head_least:
  assumes "sort_by cmp xs = y # ys" and "x \<in> set xs"
  shows "cmp y x \<noteq> Greater"
proof -
  have "sorted_wrt (\<lambda>a b. cmp a b \<noteq> Greater) (y # ys)"
    using sort_by_sorted [of xs] assms(1) by simp
  moreover have "x \<in> set (y # ys)"
    using assms set_sort_by [of cmp xs] by simp
  ultimately show ?thesis by (auto simp: refl_equal)
qed

lemma equal_greater: "cmp z x = Equal \<Longrightarrow> cmp x y = Greater \<Longrightarrow> cmp z y = Greater"
  using flip [of z x] le_trans [of x z y] by auto

lemma insert_by_filter_equal:
  "filter (\<lambda>y. cmp z y = Equal) (insert_by cmp x xs) =
     (if cmp z x = Equal then x # filter (\<lambda>y. cmp z y = Equal) xs
      else filter (\<lambda>y. cmp z y = Equal) xs)"
proof (induction xs)
  case (Cons y ys)
  then show ?case by (auto dest: equal_greater)
qed simp

lemma sort_by_stable:
  "filter (\<lambda>y. cmp z y = Equal) (sort_by cmp xs) = filter (\<lambda>y. cmp z y = Equal) xs"
  by (induction xs) (auto simp: insert_by_filter_equal)

lemma sorted_stable_eq:
  assumes "sorted_wrt (\<lambda>a b. cmp a b \<noteq> Greater) xs" "sorted_wrt (\<lambda>a b. cmp a b \<noteq> Greater) ys"
    and "\<And>z. filter (\<lambda>y. cmp z y = Equal) xs = filter (\<lambda>y. cmp z y = Equal) ys"
  shows "xs = ys"
  using assms
proof (induction xs arbitrary: ys)
  case Nil
  then show ?case
  proof (cases ys)
    case (Cons y ys')
    with Nil.prems(3) [of y] show ?thesis by (simp add: refl_equal)
  qed simp
next
  case (Cons x xs)
  have mem: "a \<in> set ys \<longleftrightarrow> a \<in> set (x # xs)" for a
  proof -
    have "a \<in> set (filter (\<lambda>y. cmp a y = Equal) (x # xs)) \<longleftrightarrow>
        a \<in> set (filter (\<lambda>y. cmp a y = Equal) ys)"
      by (simp only: Cons.prems(3))
    then show ?thesis by (auto simp: refl_equal simp del: filter.simps)
  qed
  obtain y ys' where ys: "ys = y # ys'" using mem [of x] by (cases ys) auto
  have "cmp x y \<noteq> Greater" using mem [of y] Cons.prems(1) ys refl_equal by auto
  moreover have "cmp y x \<noteq> Greater" using mem [of x] Cons.prems(2) ys refl_equal by auto
  ultimately have "cmp x y = Equal" using flip [of y x] by (cases "cmp x y") auto
  then have "y = x" using Cons.prems(3) [of x] ys refl_equal by simp
  have "filter (\<lambda>b. cmp z b = Equal) xs = filter (\<lambda>b. cmp z b = Equal) ys'" for z
    using Cons.prems(3) [of z] ys \<open>y = x\<close> by (simp split: if_splits)
  then have "xs = ys'" using Cons.IH Cons.prems(1,2) ys by simp
  with ys \<open>y = x\<close> show ?case by simp
qed

lemma stable_sort_unique:
  assumes "sorted_wrt (\<lambda>a b. cmp a b \<noteq> Greater) ys"
    and "\<And>z. filter (\<lambda>y. cmp z y = Equal) ys = filter (\<lambda>y. cmp z y = Equal) xs"
  shows "ys = sort_by cmp xs"
  by (rule sorted_stable_eq) (simp_all add: assms sort_by_sorted sort_by_stable)

lemma equal_equal: "cmp z x = Equal \<Longrightarrow> cmp z y = Equal \<Longrightarrow> cmp x y = Equal"
proof -
  assume xy: "cmp z x = Equal" "cmp z y = Equal"
  have "cmp x z = Equal" "cmp y z = Equal" using xy flip [of x z] flip [of y z] by simp_all
  then have "cmp x y \<noteq> Greater" "cmp y x \<noteq> Greater" using xy le_trans [of x z y] le_trans [of y z x] by simp_all
  then show ?thesis using flip [of y x] by (cases "cmp x y") simp_all
qed

lemma sort_by_mset_unique:
  assumes "mset xs = mset ys"
    and inj: "\<And>a b. a \<in> set xs \<Longrightarrow> b \<in> set xs \<Longrightarrow> cmp a b = Equal \<Longrightarrow> a = b"
  shows "sort_by cmp xs = sort_by cmp ys"
proof (rule sorted_stable_eq)
  fix z
  let ?P = "\<lambda>y. cmp z y = Equal"
  have set_eq: "set ys = set xs" using assms(1) by (metis set_mset_mset)
  have same: "a = b" if "a \<in> set (filter ?P xs)" "b \<in> set (filter ?P xs)" for a b
    using that inj [of a b] equal_equal [of z a b] by simp
  have m: "mset (filter ?P xs) = mset (filter ?P ys)" using assms(1) by simp
  show "filter ?P (sort_by cmp xs) = filter ?P (sort_by cmp ys)"
  proof (cases "filter ?P xs")
    case Nil
    then have "filter ?P ys = []" using m by (metis mset_zero_iff)
    with Nil show ?thesis by (simp only: sort_by_stable)
  next
    case (Cons c cs)
    then have c: "\<forall>y \<in> set (filter ?P xs). y = c" using same [of _ c] by (metis list.set_intros(1))
    moreover have "set (filter ?P ys) = set (filter ?P xs)" using set_eq by simp
    ultimately have "filter ?P xs = replicate (length (filter ?P xs)) c"
      "filter ?P ys = replicate (length (filter ?P ys)) c"
      by (metis replicate_length_same)+
    moreover have "length (filter ?P xs) = length (filter ?P ys)" using m by (metis size_mset)
    ultimately show ?thesis by (metis sort_by_stable)
  qed
qed (rule sort_by_sorted)+

end

lemma comparator_cmp_on: "comparator (cmp_on f)"
proof
  fix x y :: 'a
  show "cmp_on f y x = ord_reverse (cmp_on f x y)"
    by (cases "f x" "f y" rule: linorder_cases) (auto simp: cmp_on_def)
next
  fix x y z :: 'a
  assume "cmp_on f x y \<noteq> Greater" "cmp_on f y z \<noteq> Greater"
  then have "f x \<le> f y" "f y \<le> f z" by (auto simp: cmp_on_def split: if_splits)
  then show "cmp_on f x z \<noteq> Greater" by (auto simp: cmp_on_def)
qed

lemma comparator_then_with:
  assumes "comparator c" and "comparator d"
  shows "comparator (\<lambda>x y. then_with (c x y) (d x y))"
proof -
  note c = comparator.flip [OF assms(1)] comparator.le_trans [OF assms(1)]
  note d = comparator.flip [OF assms(2)] comparator.le_trans [OF assms(2)]
  show ?thesis
  proof
    fix x y
    show "then_with (c y x) (d y x) = ord_reverse (then_with (c x y) (d x y))"
      using c(1) [of y x] d(1) [of y x] by (auto simp: then_with_def)
  next
    fix x y z
    assume xy: "then_with (c x y) (d x y) \<noteq> Greater"
      and yz: "then_with (c y z) (d y z) \<noteq> Greater"
    then have cle: "c x y \<noteq> Greater" "c y z \<noteq> Greater"
      by (auto simp: then_with_def split: if_splits)
    then have le: "c x z \<noteq> Greater" by (rule c(2))
    have "d x z \<noteq> Greater" if eq: "c x z = Equal"
    proof -
      have zx: "c z x \<noteq> Greater" using eq c(1) [of z x] by simp
      have "c y x \<noteq> Greater" "c z y \<noteq> Greater"
        using c(2) [OF cle(2) zx] c(2) [OF zx cle(1)] by blast+
      then have "c x y = Equal" "c y z = Equal"
        using c(1) [of y x] c(1) [of z y] cle by (cases "c x y"; cases "c y z"; simp)+
      then have "d x y \<noteq> Greater" "d y z \<noteq> Greater"
        using xy yz by (simp_all add: then_with_def)
      then show ?thesis by (rule d(2))
    qed
    with le show "then_with (c x z) (d x z) \<noteq> Greater"
      by (auto simp: then_with_def)
  qed
qed

lemma comparator_contramap:
  assumes "comparator c"
  shows "comparator (\<lambda>x y. c (g x) (g y))"
proof
  fix x y
  show "c (g y) (g x) = ord_reverse (c (g x) (g y))"
    by (rule comparator.flip [OF assms])
next
  fix x y z
  assume "c (g x) (g y) \<noteq> Greater" "c (g y) (g z) \<noteq> Greater"
  then show "c (g x) (g z) \<noteq> Greater" by (rule comparator.le_trans [OF assms])
qed

section \<open>BTreeMap\<close>

text \<open>A map iterated in ascending key order: an association list whose keys are sorted.\<close>

type_synonym ('k, 'v) btree = "('k \<times> 'v) list"

fun btree_insert :: "'k::linorder \<Rightarrow> 'v \<Rightarrow> ('k, 'v) btree \<Rightarrow> ('k, 'v) btree" where
  "btree_insert k v [] = [(k, v)]"
| "btree_insert k v ((k', v') # kvs) =
     (if k < k' then (k, v) # (k', v') # kvs
      else if k = k' then (k, v) # kvs
      else (k', v') # btree_insert k v kvs)"

definition btree_get :: "('k, 'v) btree \<Rightarrow> 'k \<Rightarrow> 'v option" where
  "btree_get m k = map_of m k"

definition btree_ok :: "('k::linorder, 'v) btree \<Rightarrow> bool" where
  "btree_ok m = sorted_wrt (<) (map fst m)"

lemma btree_get_insert [simp]:
  "btree_get (btree_insert k v m) k' = (if k' = k then Some v else btree_get m k')"
  by (induction m) (auto simp: btree_get_def)

lemma set_btree_insert_keys: "fst ` set (btree_insert k v m) = insert k (fst ` set m)"
  by (induction k v m rule: btree_insert.induct) auto

lemma btree_ok_insert: "btree_ok m \<Longrightarrow> btree_ok (btree_insert k v m)"
proof (induction m)
  case (Cons a m)
  obtain k' v' where a: "a = (k', v')" by (cases a)
  from Cons a have "\<forall>x \<in> fst ` set m. k' < x" by (auto simp: btree_ok_def)
  with Cons a show ?case
    using set_btree_insert_keys [of k v m] by (fastforce simp: btree_ok_def)
qed (simp add: btree_ok_def)

lemma btree_get_Nil [simp]: "btree_get [] k = None"
  by (simp add: btree_get_def)

section \<open>Duration\<close>

datatype Duration = Duration (secs: u64) (nanos: u32)

definition from_millis :: "u64 \<Rightarrow> Duration" where
  "from_millis ms = Duration (ms div 1000) (ms mod 1000 * 1000000)"

definition from_secs :: "u64 \<Rightarrow> Duration" where
  "from_secs s = Duration s 0"

definition duration_cmp :: "Duration \<Rightarrow> Duration \<Rightarrow> ordering" where
  "duration_cmp a b = then_with (cmp_on secs a b) (cmp_on nanos a b)"

definition duration_less :: "Duration \<Rightarrow> Duration \<Rightarrow> bool" where
  "duration_less a b = (duration_cmp a b = Less)"

definition duration_nanos :: "Duration \<Rightarrow> nat" where
  "duration_nanos d = secs d * 10 ^ 9 + nanos d"

lemma comparator_duration: "comparator duration_cmp"
  unfolding duration_cmp_def by (intro comparator_then_with comparator_cmp_on)

interpretation duration: comparator duration_cmp
  by (rule comparator_duration)

text \<open>With the nanosecond part below a second, the derived order is the order of lengths.\<close>

lemma duration_less_iff:
  assumes "nanos a < 10 ^ 9" and "nanos b < 10 ^ 9"
  shows "duration_less a b \<longleftrightarrow> duration_nanos a < duration_nanos b"
proof (cases "secs a" "secs b" rule: linorder_cases)
  case less
  then have "duration_nanos a < duration_nanos b"
    using assms by (simp add: duration_nanos_def)
  with less show ?thesis by (simp add: duration_less_def duration_cmp_def then_with_def cmp_on_def)
next
  case equal
  then show ?thesis
    by (auto simp: duration_less_def duration_cmp_def then_with_def cmp_on_def duration_nanos_def)
next
  case greater
  then have "\<not> duration_nanos a < duration_nanos b"
    using assms by (simp add: duration_nanos_def)
  with greater show ?thesis
    by (simp add: duration_less_def duration_cmp_def then_with_def cmp_on_def)
qed

lemma duration_nanos_from_millis: "duration_nanos (from_millis ms) = ms * 10 ^ 6"
proof -
  have "1000 * (ms div 1000) + ms mod 1000 = ms" by simp
  then have "ms div 1000 * 1000000000 + ms mod 1000 * 1000000 = ms * 1000000" by linarith
  then show ?thesis by (simp add: duration_nanos_def from_millis_def)
qed

end
