(* ===== verification/Fs_Trust.thy ===== *)
theory Fs_Trust
  imports Prelude
begin

text \<open>
  The strict-mode trust walk of \<open>crates/store/src/fs_trust.rs\<close>, which guards every document
  the root daemon reads: the lexical chain of components from the leaf to the trust root,
  then two passes over it, symlink/type/mode first and ownership second. The file system is
  the function \<open>lstat\<close> from paths to what \<open>symlink_metadata\<close> answers. Paths are read the
  way \<open>std::path\<close> reads them: repeated separators and inner \<open>.\<close> components vanish.
  \<open>trust_walk_sound\<close> and \<open>trust_walk_complete\<close> pin what an accepted path satisfies.
\<close>

section \<open>Paths\<close>

datatype component = RootDir | CurDir | ParentDir | Normal string

type_synonym path = "component list"

fun split_slash :: "string \<Rightarrow> string list" where
  "split_slash [] = [[]]"
| "split_slash (c # cs) =
     (if c = CHR ''/'' then [] # split_slash cs
      else (case split_slash cs of [] \<Rightarrow> [[c]] | w # ws \<Rightarrow> (c # w) # ws))"

definition to_component :: "string \<Rightarrow> component" where
  "to_component w = (if w = ''..'' then ParentDir else Normal w)"

text \<open>\<open>Path::components\<close>: a leading \<open>.\<close> of a relative path is kept, every other one is not.\<close>

definition components :: "string \<Rightarrow> path" where
  "components s =
     (let ws = split_slash s;
          body = map to_component (filter (\<lambda>w. w \<noteq> [] \<and> w \<noteq> ''.'') ws)
      in if s \<noteq> [] \<and> hd s = CHR ''/'' then RootDir # body
         else if ws \<noteq> [] \<and> hd ws = ''.'' then CurDir # body
         else body)"

definition is_absolute :: "path \<Rightarrow> bool" where
  "is_absolute p = (p \<noteq> [] \<and> hd p = RootDir)"

text \<open>\<open>Path::ancestors\<close>: the path, then its parents up to the root directory.\<close>

function ancestors :: "path \<Rightarrow> path list" where
  "ancestors p = (if p = [] \<or> p = [RootDir] then [p] else p # ancestors (butlast p))"
  by pat_completeness auto
termination
  by (relation "measure length") (auto simp: neq_Nil_conv)

declare ancestors.simps [simp del]

section \<open>The walk\<close>

record Metadata =
  is_symlink :: bool
  is_file :: bool
  is_dir :: bool
  mode :: u32
  uid :: u32
  gid :: u32

datatype lstat_result = Stat Metadata | NotFound | StatError string

datatype MissingLeaf = Reject | Allow

datatype FsTrustError =
    Symlink path
  | GroupWorldWritable path u32
  | NotRootOwned path u32 u32
  | NotARegularFile path
  | NotADirectory path
  | NotAbsolute path
  | RelativeComponent path
  | NotUnderTrustRoot path path
  | TrustIo path

definition ROOT_UID :: u32 where "ROOT_UID = 0"

definition ROOT_GID :: u32 where "ROOT_GID = 0"

text \<open>The bits \<open>0o022\<close> of the permission bits: group write and world write.\<close>

definition writable_beyond_owner :: "u32 \<Rightarrow> bool" where
  "writable_beyond_owner m = (m div 16 mod 2 = 1 \<or> m div 2 mod 2 = 1)"

fun take_to_root :: "path \<Rightarrow> path list \<Rightarrow> path list option" where
  "take_to_root root [] = None"
| "take_to_root root (a # as) =
     (if a = root then Some [a]
      else (case take_to_root root as of None \<Rightarrow> None | Some c \<Rightarrow> Some (a # c)))"

definition component_chain :: "path \<Rightarrow> path \<Rightarrow> (FsTrustError, path list) res" where
  "component_chain p trust_root =
     (if \<not> is_absolute p then Err (NotAbsolute p)
      else if \<not> is_absolute trust_root then Err (NotAbsolute trust_root)
      else if CurDir \<in> set p \<or> ParentDir \<in> set p then Err (RelativeComponent p)
      else (case take_to_root trust_root (ancestors p) of
          Some chain \<Rightarrow> Ok chain
        | None \<Rightarrow> Err (NotUnderTrustRoot p trust_root)))"

definition check_component :: "bool \<Rightarrow> path \<Rightarrow> Metadata \<Rightarrow> (FsTrustError, unit) res" where
  "check_component leaf c meta =
     (if is_symlink meta then Err (Symlink c)
      else if leaf \<and> \<not> is_file meta then Err (NotARegularFile c)
      else if \<not> leaf \<and> \<not> is_dir meta then Err (NotADirectory c)
      else if writable_beyond_owner (mode meta mod 512)
        then Err (GroupWorldWritable c (mode meta mod 512))
      else Ok ())"

fun inspect_pass ::
  "(path \<Rightarrow> lstat_result) \<Rightarrow> MissingLeaf \<Rightarrow> bool \<Rightarrow> path list \<Rightarrow>
   (FsTrustError, (path \<times> Metadata option) list) res" where
  "inspect_pass lstat ml leaf [] = Ok []"
| "inspect_pass lstat ml leaf (c # cs) =
     (case lstat c of
        Stat meta \<Rightarrow>
          and_then (check_component leaf c meta) (\<lambda>_.
          and_then (inspect_pass lstat ml False cs) (\<lambda>rest. Ok ((c, Some meta) # rest)))
      | NotFound \<Rightarrow>
          (if ml = Allow
           then and_then (inspect_pass lstat ml False cs) (\<lambda>rest. Ok ((c, None) # rest))
           else Err (TrustIo c))
      | StatError e \<Rightarrow> Err (TrustIo c))"

fun ownership_pass :: "(path \<times> Metadata option) list \<Rightarrow> (FsTrustError, unit) res" where
  "ownership_pass [] = Ok ()"
| "ownership_pass ((c, meta) # rest) =
     (case meta of
        Some m \<Rightarrow> (if uid m \<noteq> ROOT_UID \<or> gid m \<noteq> ROOT_GID
          then Err (NotRootOwned c (uid m) (gid m)) else ownership_pass rest)
      | None \<Rightarrow> ownership_pass rest)"

definition verify_trusted_path ::
  "(path \<Rightarrow> lstat_result) \<Rightarrow> path \<Rightarrow> path \<Rightarrow> MissingLeaf \<Rightarrow> (FsTrustError, unit) res" where
  "verify_trusted_path lstat p trust_root ml =
     and_then (component_chain p trust_root) (\<lambda>chain.
     and_then (inspect_pass lstat ml True chain) ownership_pass)"

section \<open>What the chain is\<close>

lemma ancestors_root [simp]: "ancestors [RootDir] = [[RootDir]]"
  by (simp add: ancestors.simps)

lemma hd_ancestors: "hd (ancestors p) = p" and ancestors_nonempty [simp]: "ancestors p \<noteq> []"
  by (simp_all add: ancestors.simps [of p])

text \<open>The ancestors of an absolute path are its nonempty prefixes, longest first.\<close>

lemma ancestors_snoc: "q \<noteq> [] \<Longrightarrow> ancestors (q @ [x]) = (q @ [x]) # ancestors q"
  by (subst ancestors.simps) (cases q, auto)

lemma ancestors_eq:
  "is_absolute p \<Longrightarrow> ancestors p = map (\<lambda>i. take (length p - i) p) [0..<length p]"
proof (induction p rule: rev_induct)
  case Nil
  then show ?case by (simp add: is_absolute_def)
next
  case (snoc x q)
  show ?case
  proof (cases "q = []")
    case True
    with snoc.prems show ?thesis by (simp add: is_absolute_def)
  next
    case False
    with snoc.prems have "is_absolute q" by (simp add: is_absolute_def)
    then have "ancestors (q @ [x]) = (q @ [x]) # map (\<lambda>i. take (length q - i) q) [0..<length q]"
      using False snoc.IH by (simp add: ancestors_snoc)
    moreover have "map (\<lambda>i. take (length q - i) q) [0..<length q] =
        map (\<lambda>i. take (length (q @ [x]) - i) (q @ [x])) [1..<Suc (length q)]"
      by (rule nth_equalityI) (simp_all del: upt_Suc)
    moreover have "[0..<length (q @ [x])] = 0 # [1..<Suc (length q)]"
      by (subst upt_conv_Cons) simp_all
    ultimately show ?thesis by (simp del: upt_Suc)
  qed
qed

lemma take_to_root_Some:
  "take_to_root root as = Some c \<Longrightarrow> \<exists>rest. as = c @ rest \<and> c \<noteq> [] \<and> last c = root \<and> root \<notin> set (butlast c)"
  by (induction as arbitrary: c) (auto split: if_splits option.splits)

lemma take_to_root_None: "take_to_root root as = None \<longleftrightarrow> root \<notin> set as"
  by (induction as) (auto split: option.splits)

lemma component_chain_not_Panic [simp]: "component_chain p r \<noteq> Panic"
  by (simp add: component_chain_def split: option.splits)

lemma component_chain_OkD:
  assumes "component_chain p r = Ok chain"
  shows "\<exists>k. 0 < k \<and> k \<le> length p \<and> r = take k p \<and>
    chain = map (\<lambda>i. take (length p - i) p) [0..<Suc (length p - k)]"
proof -
  let ?n = "length p" and ?m = "length chain"
  from assms have abs: "is_absolute p" and t: "take_to_root r (ancestors p) = Some chain"
    by (auto simp: component_chain_def split: if_splits option.splits)
  from take_to_root_Some [OF t] obtain rest
    where c: "ancestors p = chain @ rest" "chain \<noteq> []" "last chain = r" by blast
  from c(1) have "chain = take ?m (map (\<lambda>i. take (?n - i) p) [0..<?n])"
    using ancestors_eq [OF abs] by simp
  moreover have le: "?m \<le> ?n" using arg_cong [OF c(1), of length] ancestors_eq [OF abs] by simp
  ultimately have chain: "chain = map (\<lambda>i. take (?n - i) p) [0..<?m]"
    by (simp add: take_map)
  have pos: "0 < ?m" using c(2) by simp
  have "r = take (?n - (?m - 1)) p"
    using c(2,3) chain pos by (metis (no_types, lifting) add_0 diff_less last_conv_nth length_map
        length_upt minus_nat.diff_0 nth_map nth_upt zero_less_one)
  moreover obtain m' where m': "?m = Suc m'" using pos by (cases ?m) auto
  ultimately have "0 < ?n - m' \<and> ?n - m' \<le> ?n \<and> r = take (?n - m') p \<and> Suc (?n - (?n - m')) = ?m"
    using le by auto
  with chain show ?thesis by metis
qed

lemma component_chain_OkI:
  assumes "is_absolute p" "CurDir \<notin> set p" "ParentDir \<notin> set p" "0 < k" "k \<le> length p"
  shows "\<exists>chain. component_chain p (take k p) = Ok chain"
proof -
  have "is_absolute (take k p)" using assms(1,4) by (simp add: is_absolute_def)
  moreover have "take k p \<in> set (ancestors p)"
    using assms(4,5) by (auto simp: ancestors_eq [OF assms(1)] intro!: image_eqI [of _ _ "length p - k"])
  then have "take_to_root (take k p) (ancestors p) \<noteq> None" by (simp add: take_to_root_None)
  ultimately show ?thesis using assms by (auto simp: component_chain_def)
qed

section \<open>What the passes establish\<close>

text \<open>The four rules of the module's documentation for one component that exists.\<close>

definition component_trusted :: "bool \<Rightarrow> Metadata \<Rightarrow> bool" where
  "component_trusted leaf meta \<longleftrightarrow>
     \<not> is_symlink meta \<and> (if leaf then is_file meta else is_dir meta) \<and>
     \<not> writable_beyond_owner (mode meta mod 512) \<and> uid meta = 0 \<and> gid meta = 0"

definition lstat_trusted :: "MissingLeaf \<Rightarrow> bool \<Rightarrow> lstat_result \<Rightarrow> bool" where
  "lstat_trusted ml leaf r =
     (case r of Stat meta \<Rightarrow> component_trusted leaf meta | NotFound \<Rightarrow> ml = Allow | StatError e \<Rightarrow> False)"

lemma check_component_Ok_iff:
  "check_component leaf c meta = Ok () \<longleftrightarrow>
   \<not> is_symlink meta \<and> (if leaf then is_file meta else is_dir meta) \<and>
   \<not> writable_beyond_owner (mode meta mod 512)"
  by (simp add: check_component_def)

lemma check_component_not_Panic [simp]: "check_component leaf c meta \<noteq> Panic"
  by (simp add: check_component_def)

lemma passes_Ok_iff:
  "and_then (inspect_pass lstat ml leaf cs) ownership_pass = Ok () \<longleftrightarrow>
   (cs = [] \<or> lstat_trusted ml leaf (lstat (hd cs)) \<and>
     and_then (inspect_pass lstat ml False (tl cs)) ownership_pass = Ok ())"
proof (cases cs)
  case (Cons c cs')
  then show ?thesis
    by (cases "lstat c")
      (auto simp: res_simps lstat_trusted_def component_trusted_def check_component_Ok_iff
        ROOT_UID_def ROOT_GID_def split: if_splits)
qed simp

lemma inner_passes_Ok_iff:
  "and_then (inspect_pass lstat ml False cs) ownership_pass = Ok () \<longleftrightarrow>
   (\<forall>c\<in>set cs. lstat_trusted ml False (lstat c))"
proof (induction cs)
  case Nil
  then show ?case by (simp add: passes_Ok_iff)
next
  case (Cons c cs)
  then show ?case by (simp add: passes_Ok_iff [of lstat ml False "c # cs"] del: inspect_pass.simps)
qed

lemma verify_Ok_iff_chain:
  assumes "component_chain p r = Ok chain" and "chain \<noteq> []"
  shows "verify_trusted_path lstat p r ml = Ok () \<longleftrightarrow>
    lstat_trusted ml True (lstat (hd chain)) \<and>
    (\<forall>c\<in>set (tl chain). lstat_trusted ml False (lstat c))"
  using assms
  by (simp add: verify_trusted_path_def passes_Ok_iff [of lstat ml True] inner_passes_Ok_iff)

lemma verify_Ok_iff_prefixes:
  assumes "component_chain p r = Ok chain" and "r = take k p" and "0 < k" and "k \<le> length p"
  shows "verify_trusted_path lstat p r ml = Ok () \<longleftrightarrow>
    (\<forall>j. k \<le> j \<and> j \<le> length p \<longrightarrow> lstat_trusted ml (j = length p) (lstat (take j p)))"
proof -
  let ?n = "length p"
  from component_chain_OkD [OF assms(1)] obtain k' where k': "0 < k'" "k' \<le> ?n" "r = take k' p"
    and c: "chain = map (\<lambda>i. take (?n - i) p) [0..<Suc (?n - k')]" by blast
  have "length (take k p) = length (take k' p)" using assms(2) k'(3) by simp
  then have "k' = k" using assms(4) k'(2) by simp
  have c': "chain = p # map (\<lambda>i. take (?n - i) p) [1..<Suc (?n - k)]"
    unfolding c \<open>k' = k\<close> by (subst upt_conv_Cons) auto
  have tl: "set (tl chain) = (\<lambda>j. take j p) ` {k..<?n}"
  proof -
    have "(\<lambda>i. ?n - i) ` {1..<Suc (?n - k)} = {k..<?n}"
    proof
      show "{k..<?n} \<subseteq> (\<lambda>i. ?n - i) ` {1..<Suc (?n - k)}"
      proof
        fix j assume "j \<in> {k..<?n}"
        then have "j = ?n - (?n - j)" "?n - j \<in> {1..<Suc (?n - k)}" by auto
        then show "j \<in> (\<lambda>i. ?n - i) ` {1..<Suc (?n - k)}" by (rule image_eqI)
      qed
    qed (use assms(4) in auto)
    then have "(\<lambda>j. take j p) ` (\<lambda>i. ?n - i) ` {1..<Suc (?n - k)} = (\<lambda>j. take j p) ` {k..<?n}"
      by simp
    then show ?thesis by (simp add: c' image_image del: upt_Suc)
  qed
  have "verify_trusted_path lstat p r ml = Ok () \<longleftrightarrow>
    lstat_trusted ml True (lstat p) \<and> (\<forall>j\<in>{k..<?n}. lstat_trusted ml False (lstat (take j p)))"
  proof -
    have "chain \<noteq> []" "hd chain = p" by (simp_all add: c')
    then show ?thesis using verify_Ok_iff_chain [OF assms(1), of lstat ml] tl by simp
  qed
  also have "\<dots> \<longleftrightarrow> (\<forall>j. k \<le> j \<and> j \<le> ?n \<longrightarrow> lstat_trusted ml (j = ?n) (lstat (take j p)))"
    (is "?A \<longleftrightarrow> ?B")
  proof
    assume A: ?A
    show ?B
    proof (intro allI impI)
      fix j assume "k \<le> j \<and> j \<le> ?n"
      with A show "lstat_trusted ml (j = ?n) (lstat (take j p))" by (cases "j = ?n") auto
    qed
  next
    assume B: ?B
    have "lstat_trusted ml True (lstat p)" using B [rule_format, of ?n] assms(4) by simp
    moreover have "lstat_trusted ml False (lstat (take j p))" if "j \<in> {k..<?n}" for j
      using B [rule_format, of j] that by simp
    ultimately show ?A by blast
  qed
  finally show ?thesis .
qed

lemma inspect_pass_not_Panic: "inspect_pass lstat ml leaf cs \<noteq> Panic"
  by (induction lstat ml leaf cs rule: inspect_pass.induct)
    (auto simp: res_simps split: lstat_result.splits)

lemma ownership_pass_not_Panic: "ownership_pass xs \<noteq> Panic"
  by (induction xs rule: ownership_pass.induct) (auto split: option.splits)

section \<open>Properties\<close>

text \<open>
  The trust walk accepts a path exactly when the path is absolute and free of relative
  components, runs through the trust root, and every component from the trust root down to
  the leaf is a real file (the leaf) or directory (the rest), not a link, not writable by
  group or world, and owned by root, where a component that does not exist passes only under
  \<open>MissingLeaf::Allow\<close> and one that cannot be inspected never does.
\<close>

theorem verify_trusted_path_iff:
  "verify_trusted_path lstat p root ml = Ok () \<longleftrightarrow>
     is_absolute p \<and> CurDir \<notin> set p \<and> ParentDir \<notin> set p \<and>
     (\<exists>k. 0 < k \<and> k \<le> length p \<and> root = take k p \<and>
       (\<forall>j. k \<le> j \<and> j \<le> length p \<longrightarrow> lstat_trusted ml (j = length p) (lstat (take j p))))"
  (is "?L \<longleftrightarrow> ?R")
proof
  assume L: ?L
  then obtain chain where chain: "component_chain p root = Ok chain"
    by (auto simp: verify_trusted_path_def res_simps)
  from component_chain_OkD [OF chain] obtain k where k: "0 < k" "k \<le> length p" "root = take k p"
    by blast
  have "\<forall>j. k \<le> j \<and> j \<le> length p \<longrightarrow> lstat_trusted ml (j = length p) (lstat (take j p))"
    using L verify_Ok_iff_prefixes [OF chain k(3,1,2)] by blast
  moreover have "is_absolute p \<and> CurDir \<notin> set p \<and> ParentDir \<notin> set p"
    using chain by (auto simp: component_chain_def split: if_splits)
  ultimately show ?R using k by blast
next
  assume R: ?R
  then obtain k where k: "0 < k" "k \<le> length p" "root = take k p"
    and all: "\<forall>j. k \<le> j \<and> j \<le> length p \<longrightarrow> lstat_trusted ml (j = length p) (lstat (take j p))"
    by blast
  from R k obtain chain where "component_chain p root = Ok chain"
    using component_chain_OkI by blast
  then show ?L using all verify_Ok_iff_prefixes [OF _ k(3,1,2)] by blast
qed

definition root_owned_tree :: "path \<Rightarrow> lstat_result" where
  "root_owned_tree p =
     Stat \<lparr>is_symlink = False, is_file = (length p = 3), is_dir = (length p < 3),
       mode = 420, uid = 0, gid = 0\<rparr>"

theorem verify_trusted_path_iff_witness:
  "verify_trusted_path root_owned_tree (components ''/etc/pw'') [RootDir] Reject = Ok () \<and>
   verify_trusted_path (root_owned_tree([RootDir, Normal ''etc''] := StatError ''EACCES''))
     (components ''/etc/pw'') [RootDir] Allow \<noteq> Ok ()"
proof -
  have p: "components ''/etc/pw'' = [RootDir, Normal ''etc'', Normal ''pw'']"
    by (simp add: components_def to_component_def)
  have "lstat_trusted Reject (j = length (components ''/etc/pw''))
      (root_owned_tree (take j (components ''/etc/pw'')))"
    if "1 \<le> j \<and> j \<le> length (components ''/etc/pw'')" for j
  proof -
    have "j = 1 \<or> j = 2 \<or> j = 3" using that by (auto simp: p)
    then show ?thesis unfolding p
    by (elim disjE) (simp_all add: lstat_trusted_def component_trusted_def root_owned_tree_def
        writable_beyond_owner_def)
  qed
  moreover have "is_absolute (components ''/etc/pw'') \<and> CurDir \<notin> set (components ''/etc/pw'') \<and>
      ParentDir \<notin> set (components ''/etc/pw'') \<and> 1 \<le> length (components ''/etc/pw'') \<and>
      [RootDir] = take 1 (components ''/etc/pw'')"
    by (simp add: p is_absolute_def)
  ultimately have "verify_trusted_path root_owned_tree (components ''/etc/pw'') [RootDir] Reject = Ok ()"
    unfolding verify_trusted_path_iff by (metis zero_less_one)
  moreover have "verify_trusted_path (root_owned_tree([RootDir, Normal ''etc''] := StatError ''EACCES''))
     (components ''/etc/pw'') [RootDir] Allow \<noteq> Ok ()"
  proof -
    let ?l = "root_owned_tree([RootDir, Normal ''etc''] := StatError ''EACCES'')"
    have k1: "k = 1" if "[RootDir] = take k (components ''/etc/pw'')" "0 < k" for k
      using that by (auto simp: p take_Cons' split: if_splits)
    show ?thesis
    proof
      assume "verify_trusted_path ?l (components ''/etc/pw'') [RootDir] Allow = Ok ()"
      then obtain k where "0 < k" "[RootDir] = take k (components ''/etc/pw'')"
        and all: "\<forall>j. k \<le> j \<and> j \<le> length (components ''/etc/pw'') \<longrightarrow> lstat_trusted Allow
          (j = length (components ''/etc/pw'')) (?l (take j (components ''/etc/pw'')))"
        unfolding verify_trusted_path_iff by blast
      then have "k = 1" using k1 by blast
      then show False using all [rule_format, of 2] by (simp add: p lstat_trusted_def)
    qed
  qed
  ultimately show ?thesis by blast
qed

lemma split_slash_nonempty [simp]: "split_slash s \<noteq> []"
  by (induction s) (auto split: list.splits)

lemma split_slash_append:
  "split_slash (p @ CHR ''/'' # q) = split_slash p @ split_slash q"
  by (induction p) (auto split: list.splits simp: split_slash_nonempty)

text \<open>
  A \<open>.\<close> component of an absolute path is normalised away before the walk can see it:
  the path with it gets the verdict of the path without it, so the walk cannot
  reject it, and no absolute path has a \<open>CurDir\<close> component at all. The error text says
  such paths are rejected.
\<close>

theorem dot_component_not_seen:
  assumes "p \<noteq> []" and "hd p = CHR ''/''"
  shows "verify_trusted_path lstat (components (p @ ''/./'' @ q)) root ml =
      verify_trusted_path lstat (components (p @ ''/'' @ q)) root ml \<and>
    CurDir \<notin> set (components p)"
proof
  have "split_slash (p @ ''/./'' @ q) = split_slash p @ ''.'' # split_slash q"
    using split_slash_append [of p "CHR ''.'' # CHR ''/'' # q"]
      split_slash_append [of "''.''" q] by simp
  moreover have "split_slash (p @ ''/'' @ q) = split_slash p @ split_slash q"
    using split_slash_append [of p q] by simp
  ultimately have "components (p @ ''/./'' @ q) = components (p @ ''/'' @ q)"
    using assms by (simp add: components_def Let_def)
  then show "verify_trusted_path lstat (components (p @ ''/./'' @ q)) root ml =
      verify_trusted_path lstat (components (p @ ''/'' @ q)) root ml" by simp
  show "CurDir \<notin> set (components p)"
    using assms by (auto simp: components_def Let_def to_component_def split: if_splits)
qed

theorem dot_component_not_seen_witness:
  "verify_trusted_path root_owned_tree (components ''/etc/./pw'') [RootDir] Reject =
     verify_trusted_path root_owned_tree (components ''/etc/pw'') [RootDir] Reject \<and>
   CurDir \<notin> set (components ''/etc'')"
  using dot_component_not_seen [of "''/etc''" root_owned_tree "''pw''" "[RootDir]" Reject] by simp

end
