(* ===== verification/Atomic_Store.thy ===== *)
theory Atomic_Store
  imports Fs_Trust
begin

text \<open>
  The write protocol that the catalog cache and the deadline store share
  (\<open>CatalogCache::store\<close>, \<open>DeadlineStore::save\<close>): create the directory, write a sibling
  temporary file, fsync it, rename it over the document. The disk is the document's content
  and the temporary's; every system call's failure is an input. \<open>atomic_write\<close> is one whole
  call, \<open>atomic_write_states\<close> the disk states a crash can leave behind. The locale
  \<open>durable_document\<close> is what a client of a store relies on; both stores interpret it.
\<close>

record doc_file =
  df_content :: "bytes option"
  df_temp :: "bytes option"

datatype mkdir_result = MkdirOk | MkdirExists | MkdirErr string

record write_io =
  io_mkdir :: mkdir_result
  io_open :: "string option"
  io_write :: "string option"
  io_written :: nat
  io_sync :: "string option"
  io_rename :: "string option"

text \<open>\<open>create_cache_dir\<close>: an existing directory is accepted as it is.\<close>

definition create_cache_dir :: "mkdir_result \<Rightarrow> (string, unit) res" where
  "create_cache_dir r =
     (case r of MkdirOk \<Rightarrow> Ok () | MkdirExists \<Rightarrow> Ok () | MkdirErr e \<Rightarrow> Err e)"

definition atomic_write :: "write_io \<Rightarrow> bytes \<Rightarrow> doc_file \<Rightarrow> (string, unit) res \<times> doc_file" where
  "atomic_write io bs f =
     (case create_cache_dir (io_mkdir io) of
        Err e \<Rightarrow> (Err e, f)
      | Panic \<Rightarrow> (Panic, f)
      | Ok _ \<Rightarrow>
        (case io_open io of
           Some e \<Rightarrow> (Err e, f)
         | None \<Rightarrow>
           (case io_write io of
              Some e \<Rightarrow> (Err e, f\<lparr>df_temp := Some (take (io_written io) bs)\<rparr>)
            | None \<Rightarrow>
              (case io_sync io of
                 Some e \<Rightarrow> (Err e, f\<lparr>df_temp := Some bs\<rparr>)
               | None \<Rightarrow>
                 (case io_rename io of
                    Some e \<Rightarrow> (Err e, f\<lparr>df_temp := Some bs\<rparr>)
                  | None \<Rightarrow> (Ok (), \<lparr>df_content = Some bs, df_temp = None\<rparr>))))))"

text \<open>The disk after each system call of a call that succeeds in all of them.\<close>

definition atomic_write_states :: "nat list \<Rightarrow> bytes \<Rightarrow> doc_file \<Rightarrow> doc_file list" where
  "atomic_write_states writes bs f =
     [f, f\<lparr>df_temp := Some []\<rparr>] @ map (\<lambda>n. f\<lparr>df_temp := Some (take n bs)\<rparr>) writes @
     [f\<lparr>df_temp := Some bs\<rparr>, \<lparr>df_content = Some bs, df_temp = None\<rparr>]"

text \<open>\<open>std::fs::read\<close>: a missing file is told apart from every other failure.\<close>

datatype read_result = ReadOk bytes | ReadNotFound | ReadErr string

definition fs_read :: "string option \<Rightarrow> doc_file \<Rightarrow> read_result" where
  "fs_read fault f =
     (case fault of
        Some e \<Rightarrow> ReadErr e
      | None \<Rightarrow> (case df_content f of None \<Rightarrow> ReadNotFound | Some bs \<Rightarrow> ReadOk bs))"

lemma create_cache_dir_not_Panic [simp]: "create_cache_dir r \<noteq> Panic"
  by (simp add: create_cache_dir_def split: mkdir_result.splits)

lemma atomic_write_Ok:
  "fst (atomic_write io bs f) = Ok () \<Longrightarrow> df_content (snd (atomic_write io bs f)) = Some bs"
  by (auto simp: atomic_write_def split: res.splits option.splits)

lemma atomic_write_not_Ok:
  "fst (atomic_write io bs f) \<noteq> Ok () \<Longrightarrow> df_content (snd (atomic_write io bs f)) = df_content f"
  by (auto simp: atomic_write_def split: res.splits option.splits)

lemma atomic_write_not_Panic: "fst (atomic_write io bs f) \<noteq> Panic"
  by (auto simp: atomic_write_def split: res.splits option.splits)

lemma atomic_write_crash:
  "g \<in> set (atomic_write_states ws bs f) \<Longrightarrow> df_content g = df_content f \<or> df_content g = Some bs"
  by (auto simp: atomic_write_states_def)

text \<open>
  The contract of a durable document: a save that succeeds leaves exactly the encoded
  document, one that fails leaves the previous one.
\<close>

locale durable_document =
  fixes save :: "write_io \<Rightarrow> 'd \<Rightarrow> doc_file \<Rightarrow> ('e, unit) res \<times> doc_file"
    and encoded :: "'d \<Rightarrow> bytes"
  assumes save_Ok: "fst (save io d f) = Ok () \<Longrightarrow> df_content (snd (save io d f)) = Some (encoded d)"
    and save_not_Ok: "fst (save io d f) \<noteq> Ok () \<Longrightarrow> df_content (snd (save io d f)) = df_content f"
begin

fun save_all :: "(write_io \<times> 'd) list \<Rightarrow> doc_file \<Rightarrow> doc_file" where
  "save_all [] f = f"
| "save_all ((io, d) # rest) f = save_all rest (snd (save io d f))"

text \<open>After any run of saves the content is the first one or that of some document saved.\<close>

lemma save_all_content:
  "df_content (save_all ios f) \<in> insert (df_content f) (Some ` encoded ` snd ` set ios)"
proof (induction ios arbitrary: f)
  case (Cons x ios)
  obtain io d where x: "x = (io, d)" by (cases x)
  have "df_content (snd (save io d f)) \<in> {df_content f, Some (encoded d)}"
    using save_Ok [of io d f] save_not_Ok [of io d f] by (cases "fst (save io d f) = Ok ()") auto
  with Cons.IH [of "snd (save io d f)"] x show ?case by auto
qed simp

end

end
