(* ===== verification/Float32.thy ===== *)
theory Float32
  imports Prelude
begin

text \<open>
  Rust's \<open>f32\<close> (IEEE 754 binary32, round to nearest even), executable. A value is its bit
  pattern, split into the sign bit and the low 31 bits: below \<open>f32_inf_mag\<close> the value is
  finite, at it infinite, above it a NaN. Every finite value is a whole number of units of
  \<open>2 ^ -149\<close>, so all exact intermediate results are integer ratios and one rounding
  function serves addition, multiplication, division and conversion. The payload of a NaN
  result is not specified by Rust; the model takes the canonical quiet NaN. The lemmas show
  that rounding is exact on representable values and monotone, which is what the ranking
  proofs use.
\<close>

section \<open>Values\<close>

datatype f32 = F32 (f32_neg: bool) (f32_mag: nat)

definition f32_inf_mag :: nat where
  "f32_inf_mag = 255 * 2 ^ 23"

definition f32_nan :: f32 where
  "f32_nan = F32 False (f32_inf_mag + 2 ^ 22)"

definition f32_is_nan :: "f32 \<Rightarrow> bool" where
  "f32_is_nan a = (f32_inf_mag < f32_mag a)"

definition f32_is_finite :: "f32 \<Rightarrow> bool" where
  "f32_is_finite a = (f32_mag a < f32_inf_mag)"

definition f32_is_inf :: "f32 \<Rightarrow> bool" where
  "f32_is_inf a = (f32_mag a = f32_inf_mag)"

text \<open>The magnitude of a finite value in units of \<open>2 ^ -149\<close>.\<close>

definition mag_units :: "nat \<Rightarrow> nat" where
  "mag_units m =
     (if m < 2 ^ 23 then m else (2 ^ 23 + m mod 2 ^ 23) * 2 ^ (m div 2 ^ 23 - 1))"

definition f32_units :: "f32 \<Rightarrow> int" where
  "f32_units a = (if f32_neg a then - int (mag_units (f32_mag a)) else int (mag_units (f32_mag a)))"

section \<open>Rounding\<close>

fun bit_length :: "nat \<Rightarrow> nat" where
  "bit_length n = (if n = 0 then 0 else Suc (bit_length (n div 2)))"

declare bit_length.simps [simp del]

definition round_even :: "nat \<Rightarrow> nat \<Rightarrow> nat" where
  "round_even num den =
     (let q = num div den; r = num mod den
      in if den < 2 * r \<or> (2 * r = den \<and> odd q) then q + 1 else q)"

text \<open>The nearest magnitude to \<open>num / den\<close> units; ties to even, overflow to infinity.\<close>

definition round_mag :: "nat \<Rightarrow> nat \<Rightarrow> nat" where
  "round_mag num den =
     (let k = bit_length (num div den) - 24
      in min (k * 2 ^ 23 + round_even num (den * 2 ^ k)) f32_inf_mag)"

section \<open>Operations\<close>

definition f32_zero :: f32 where
  "f32_zero = F32 False 0"

definition f32_MAX :: f32 where
  "f32_MAX = F32 False (f32_inf_mag - 1)"

definition f32_of_nat :: "nat \<Rightarrow> f32" where
  "f32_of_nat n = F32 False (round_mag (n * 2 ^ 149) 1)"

definition f32_of_int :: "int \<Rightarrow> f32" where
  "f32_of_int i = F32 (i < 0) (round_mag (nat \<bar>i\<bar> * 2 ^ 149) 1)"

text \<open>A decimal literal \<open>num / den\<close>.\<close>

definition f32_lit :: "nat \<Rightarrow> nat \<Rightarrow> f32" where
  "f32_lit num den = F32 False (round_mag (num * 2 ^ 149) den)"

definition f32_add :: "f32 \<Rightarrow> f32 \<Rightarrow> f32" where
  "f32_add a b =
     (if f32_is_nan a \<or> f32_is_nan b then f32_nan
      else if f32_is_inf a then (if f32_is_inf b \<and> f32_neg a \<noteq> f32_neg b then f32_nan else a)
      else if f32_is_inf b then b
      else let s = f32_units a + f32_units b
        in if s = 0 then F32 (f32_neg a \<and> f32_neg b) 0
           else F32 (s < 0) (round_mag (nat \<bar>s\<bar>) 1))"

definition f32_sub :: "f32 \<Rightarrow> f32 \<Rightarrow> f32" where
  "f32_sub a b = f32_add a (F32 (\<not> f32_neg b) (f32_mag b))"

definition f32_mul :: "f32 \<Rightarrow> f32 \<Rightarrow> f32" where
  "f32_mul a b =
     (let s = (f32_neg a \<noteq> f32_neg b)
      in if f32_is_nan a \<or> f32_is_nan b then f32_nan
         else if f32_is_inf a \<or> f32_is_inf b then
           (if f32_mag a = 0 \<or> f32_mag b = 0 then f32_nan else F32 s f32_inf_mag)
         else F32 s (round_mag (mag_units (f32_mag a) * mag_units (f32_mag b)) (2 ^ 149)))"

definition f32_div :: "f32 \<Rightarrow> f32 \<Rightarrow> f32" where
  "f32_div a b =
     (let s = (f32_neg a \<noteq> f32_neg b)
      in if f32_is_nan a \<or> f32_is_nan b then f32_nan
         else if f32_is_inf a then (if f32_is_inf b then f32_nan else F32 s f32_inf_mag)
         else if f32_is_inf b then F32 s 0
         else if f32_mag b = 0 then (if f32_mag a = 0 then f32_nan else F32 s f32_inf_mag)
         else F32 s (round_mag (mag_units (f32_mag a) * 2 ^ 149) (mag_units (f32_mag b))))"

text \<open>Order of values: both zeros equal, no NaN.\<close>

definition f32_value_key :: "f32 \<Rightarrow> int" where
  "f32_value_key a = (if f32_neg a then - int (f32_mag a) else int (f32_mag a))"

definition f32_gt :: "f32 \<Rightarrow> f32 \<Rightarrow> bool" where
  "f32_gt a b = (\<not> f32_is_nan a \<and> \<not> f32_is_nan b \<and> f32_value_key b < f32_value_key a)"

definition f32_ge :: "f32 \<Rightarrow> f32 \<Rightarrow> bool" where
  "f32_ge a b = (\<not> f32_is_nan a \<and> \<not> f32_is_nan b \<and> f32_value_key b \<le> f32_value_key a)"

definition f32_max :: "f32 \<Rightarrow> f32 \<Rightarrow> f32" where
  "f32_max a b = (if f32_is_nan a then b else if f32_is_nan b then a
     else if f32_gt b a then b else a)"

text \<open>\<open>f32::total_cmp\<close>: the bit patterns as sign-magnitude integers, -0 below +0.\<close>

definition f32_total_key :: "f32 \<Rightarrow> int" where
  "f32_total_key a = (if f32_neg a then - 1 - int (f32_mag a) else int (f32_mag a))"

definition f32_total_cmp :: "f32 \<Rightarrow> f32 \<Rightarrow> ordering" where
  "f32_total_cmp = cmp_on f32_total_key"

text \<open>\<open>Duration::as_secs_f32\<close>.\<close>

definition as_secs_f32 :: "Duration \<Rightarrow> f32" where
  "as_secs_f32 d = f32_add (f32_of_nat (secs d)) (f32_div (f32_of_nat (nanos d)) (f32_of_nat 1000000000))"

section \<open>Rounding is exact and monotone\<close>

lemma bit_length_0 [simp]: "bit_length 0 = 0"
  by (simp add: bit_length.simps)

lemma bit_length_pos: "0 < n \<Longrightarrow> bit_length n = Suc (bit_length (n div 2))"
  by (simp add: bit_length.simps)

lemma less_pow_bit_length: "n < 2 ^ bit_length n"
proof (induction n rule: bit_length.induct)
  case (1 n)
  then show ?case by (cases "n = 0") (auto simp: bit_length_pos)
qed

lemma pow_bit_length_le: "0 < n \<Longrightarrow> 2 ^ (bit_length n - 1) \<le> n"
proof (induction n rule: bit_length.induct)
  case (1 n)
  show ?case
  proof (cases "n div 2 = 0")
    case True
    with "1.prems" show ?thesis by (simp add: bit_length_pos)
  next
    case False
    then obtain m where m: "bit_length (n div 2) = Suc m" by (auto simp: bit_length_pos)
    from False "1" have "2 ^ (bit_length (n div 2) - 1) \<le> n div 2" by simp
    with m "1.prems" show ?thesis by (simp add: bit_length_pos)
  qed
qed

lemma bit_length_mono: "m \<le> n \<Longrightarrow> bit_length m \<le> bit_length n"
proof (induction n arbitrary: m rule: bit_length.induct)
  case (1 n)
  then have "bit_length (m div 2) \<le> bit_length (n div 2)" if "0 < m"
    using that by (auto intro: div_le_mono)
  with "1.prems" show ?case by (cases "m = 0"; cases "n = 0") (auto simp: bit_length_pos)
qed

lemma bit_length_unique: "2 ^ k \<le> n \<Longrightarrow> n < 2 ^ Suc k \<Longrightarrow> bit_length n = Suc k"
proof (induction k arbitrary: n)
  case 0
  then have "n = 1" by simp
  then show ?case by (simp add: bit_length_pos)
next
  case (Suc k)
  have "bit_length (n div 2) = Suc k" using Suc.prems by (intro Suc.IH) auto
  moreover have "0 < n" using Suc.prems(1) by (cases n) auto
  ultimately show ?case by (simp add: bit_length_pos)
qed

lemma round_even_ge: "num div den \<le> round_even num den"
  by (simp add: round_even_def Let_def)

lemma round_even_le: "round_even num den \<le> num div den + 1"
  by (simp add: round_even_def Let_def)

lemma round_even_exact: "0 < den \<Longrightarrow> round_even (n * den) den = n"
  by (simp add: round_even_def)

lemma round_even_mono: "a \<le> b \<Longrightarrow> round_even a den \<le> round_even b den"
proof -
  assume le: "a \<le> b"
  show ?thesis
  proof (cases "a div den < b div den")
    case True
    then have "round_even a den \<le> b div den" using round_even_le [of a den] by simp
    then show ?thesis using round_even_ge [of b den] by simp
  next
    case False
    with div_le_mono [OF le, of den] have q: "a div den = b div den" by simp
    then have "a mod den \<le> b mod den"
      using le by (metis add_le_cancel_left div_mult_mod_eq)
    with q show ?thesis by (auto simp: round_even_def Let_def)
  qed
qed

lemma round_mag_le_inf: "round_mag num den \<le> f32_inf_mag"
  by (simp add: round_mag_def Let_def)

lemma round_even_upper:
  assumes "0 < den"
  shows "round_even num (den * 2 ^ (bit_length (num div den) - 24)) \<le> 2 ^ 24"
proof -
  let ?bl = "bit_length (num div den)"
  have "num div den < 2 ^ (24 + (?bl - 24))"
    using less_pow_bit_length [of "num div den"]
    by (rule order_less_le_trans) (simp add: power_increasing)
  then have "num div den div 2 ^ (?bl - 24) < 2 ^ 24"
    by (simp add: less_mult_imp_div_less power_add)
  then show ?thesis using round_even_le [of num "den * 2 ^ (?bl - 24)"] by (simp add: div_mult2_eq)
qed

lemma round_even_lower:
  assumes "24 < bit_length (num div den)"
  shows "2 ^ 23 \<le> round_even num (den * 2 ^ (bit_length (num div den) - 24))"
proof -
  let ?bl = "bit_length (num div den)"
  have "0 < num div den" using assms by (cases "num div den") auto
  then have "2 ^ (?bl - 1) \<le> num div den" by (rule pow_bit_length_le)
  moreover have "(2::nat) ^ (?bl - 1) = 2 ^ 23 * 2 ^ (?bl - 24)"
  proof -
    have "?bl - 1 = 23 + (?bl - 24)" using assms by simp
    then show ?thesis by (simp only: power_add)
  qed
  ultimately have "2 ^ 23 \<le> num div den div 2 ^ (?bl - 24)"
    by (metis div_le_mono nonzero_mult_div_cancel_right power_not_zero zero_neq_numeral)
  then show ?thesis using round_even_ge [of num "den * 2 ^ (?bl - 24)"] by (simp add: div_mult2_eq)
qed

lemma round_mag_mono:
  assumes "a \<le> b" and "0 < den"
  shows "round_mag a den \<le> round_mag b den"
proof -
  let ?ka = "bit_length (a div den) - 24" and ?kb = "bit_length (b div den) - 24"
  have k: "?ka \<le> ?kb"
    using assms(1) by (simp add: bit_length_mono div_le_mono diff_le_mono)
  have "?ka * 2 ^ 23 + round_even a (den * 2 ^ ?ka) \<le> ?kb * 2 ^ 23 + round_even b (den * 2 ^ ?kb)"
  proof (cases "?ka = ?kb")
    case True
    then show ?thesis using round_even_mono [OF assms(1)] by simp
  next
    case False
    with k have lt: "?ka < ?kb" by simp
    then have "2 ^ 23 \<le> round_even b (den * 2 ^ ?kb)" by (intro round_even_lower) simp
    moreover have "round_even a (den * 2 ^ ?ka) \<le> 2 ^ 24"
      using assms(2) by (rule round_even_upper)
    moreover have "Suc ?ka * 2 ^ 23 \<le> ?kb * 2 ^ 23" using lt by (intro mult_le_mono) auto
    ultimately show ?thesis by simp
  qed
  then show ?thesis by (auto simp: round_mag_def Let_def)
qed

lemma round_mag_exact:
  assumes "m < f32_inf_mag"
  shows "round_mag (mag_units m) 1 = m"
proof (cases "m < 2 ^ 23")
  case True
  then have "bit_length m \<le> bit_length (2 ^ 23 - 1)" by (intro bit_length_mono) simp
  also have "bit_length (2 ^ 23 - 1) = Suc 22" by (rule bit_length_unique) simp_all
  finally have "bit_length m - 24 = 0" by simp
  with True assms show ?thesis
    using round_even_exact [of 1 m] by (simp add: round_mag_def mag_units_def Let_def)
next
  case False
  let ?F = "m mod 2 ^ 23" and ?e = "m div 2 ^ 23 - 1"
  have E: "0 < m div 2 ^ 23" using False by (simp add: div_greater_zero_iff)
  have u: "mag_units m = (2 ^ 23 + ?F) * 2 ^ ?e" using False by (simp add: mag_units_def)
  have F: "?F < 2 ^ 23" by simp
  have "bit_length (mag_units m) = Suc (23 + ?e)"
  proof (rule bit_length_unique)
    show "2 ^ (23 + ?e) \<le> mag_units m" by (simp add: u power_add)
    have "2 ^ 23 + ?F < 2 ^ 24" using F by simp
    then have "(2 ^ 23 + ?F) * 2 ^ ?e < 2 ^ 24 * 2 ^ ?e" by (rule mult_strict_right_mono) simp
    then show "mag_units m < 2 ^ Suc (23 + ?e)" by (simp add: u power_add)
  qed
  then have "bit_length (mag_units m) - 24 = ?e" by simp
  moreover have "round_even (mag_units m) (2 ^ ?e) = 2 ^ 23 + ?F"
    unfolding u by (rule round_even_exact) simp
  moreover have "?e * 2 ^ 23 + (2 ^ 23 + ?F) = m"
  proof -
    have "?e * 2 ^ 23 + 2 ^ 23 = m div 2 ^ 23 * 2 ^ 23"
      using E by (cases "m div 2 ^ 23") auto
    then show ?thesis using div_mult_mod_eq [of m "2 ^ 23"] by linarith
  qed
  ultimately show ?thesis using assms by (simp add: round_mag_def Let_def)
qed

lemmas round_mag_exact_Suc = round_mag_exact [unfolded One_nat_def]

lemma mag_units_mono:
  assumes "m \<le> n" and "n < f32_inf_mag"
  shows "mag_units m \<le> mag_units n"
proof (rule ccontr)
  assume "\<not> mag_units m \<le> mag_units n"
  then have "round_mag (mag_units n) 1 \<le> round_mag (mag_units m) 1"
    by (intro round_mag_mono) simp_all
  then have "n \<le> m" using assms by (simp add: round_mag_exact_Suc)
  with assms \<open>\<not> mag_units m \<le> mag_units n\<close> show False by simp
qed

lemma mag_units_0 [simp]: "mag_units 0 = 0"
  by (simp add: mag_units_def)

lemma mag_units_pos: "0 < m \<Longrightarrow> 0 < mag_units m"
  by (simp add: mag_units_def)

lemma round_mag_0 [simp]: "round_mag 0 den = 0"
  by (simp add: round_mag_def round_even_def)

section \<open>Values that are zero or more\<close>

text \<open>
  The ranking terms are sums and products of values that are not negative and not NaN.
  On those the operations keep the sign and the absence of NaN, and are monotone in the
  order of \<open>total_cmp\<close>, which is the order of magnitudes.
\<close>

definition f32_nonneg :: "f32 \<Rightarrow> bool" where
  "f32_nonneg a = (\<not> f32_neg a \<and> f32_mag a \<le> f32_inf_mag)"

lemma f32_nonnegD: "f32_nonneg a \<Longrightarrow> \<not> f32_neg a \<and> \<not> f32_is_nan a"
  by (simp add: f32_nonneg_def f32_is_nan_def)

lemma f32_nonneg_round [simp]: "f32_nonneg (F32 False (round_mag n d))"
  by (simp add: f32_nonneg_def round_mag_le_inf)

lemma f32_nonneg_zero [simp]: "f32_nonneg f32_zero"
  by (simp add: f32_nonneg_def f32_zero_def)

lemma f32_nonneg_of_nat [simp]: "f32_nonneg (f32_of_nat n)"
  by (simp add: f32_of_nat_def)

lemma f32_nonneg_of_int: "0 \<le> i \<Longrightarrow> f32_nonneg (f32_of_int i)"
  by (simp add: f32_of_int_def)

lemma f32_total_cmp_nonneg:
  "f32_nonneg a \<Longrightarrow> f32_nonneg b \<Longrightarrow>
   f32_total_cmp a b \<noteq> Greater \<longleftrightarrow> f32_mag a \<le> f32_mag b"
  by (auto simp: f32_total_cmp_def cmp_on_def f32_total_key_def f32_nonneg_def)

lemma f32_add_nonneg_eq:
  assumes "f32_nonneg a" and "f32_nonneg b"
  shows "f32_add a b =
    (if f32_is_finite a \<and> f32_is_finite b
     then F32 False (round_mag (mag_units (f32_mag a) + mag_units (f32_mag b)) 1)
     else F32 False f32_inf_mag)"
proof (cases "f32_is_finite a \<and> f32_is_finite b")
  case True
  then have "\<not> f32_is_nan a \<and> \<not> f32_is_nan b \<and> \<not> f32_is_inf a \<and> \<not> f32_is_inf b"
    by (simp add: f32_is_finite_def f32_is_nan_def f32_is_inf_def)
  moreover have "f32_units a + f32_units b = int (mag_units (f32_mag a) + mag_units (f32_mag b))"
    using assms by (simp add: f32_units_def f32_nonneg_def)
  moreover have "\<not> f32_neg a" using assms by (simp add: f32_nonneg_def)
  ultimately show ?thesis using True
    by (simp add: f32_add_def Let_def nat_add_distrib del: of_nat_add)
next
  case False
  then have "f32_is_inf a \<or> f32_is_inf b"
    using assms by (auto simp: f32_is_finite_def f32_is_inf_def f32_nonneg_def)
  with False assms show ?thesis
    by (cases a; cases b)
      (auto simp: f32_add_def f32_is_nan_def f32_is_inf_def f32_nonneg_def f32_is_finite_def)
qed

lemma f32_nonneg_add: "f32_nonneg a \<Longrightarrow> f32_nonneg b \<Longrightarrow> f32_nonneg (f32_add a b)"
  by (simp add: f32_add_nonneg_eq f32_nonneg_def round_mag_le_inf)

lemma f32_add_mono:
  assumes "f32_nonneg a" "f32_nonneg a'" "f32_nonneg b" "f32_nonneg b'"
    and "f32_mag a \<le> f32_mag a'" "f32_mag b \<le> f32_mag b'"
  shows "f32_mag (f32_add a b) \<le> f32_mag (f32_add a' b')"
proof (cases "f32_is_finite a' \<and> f32_is_finite b'")
  case True
  then have "f32_is_finite a \<and> f32_is_finite b"
    using assms(5,6) by (auto simp: f32_is_finite_def)
  moreover have "mag_units (f32_mag a) \<le> mag_units (f32_mag a')"
    and "mag_units (f32_mag b) \<le> mag_units (f32_mag b')"
    using True assms(5,6) by (auto simp: f32_is_finite_def intro: mag_units_mono)
  ultimately show ?thesis
    using True assms by (simp add: f32_add_nonneg_eq) (intro round_mag_mono, simp_all)
next
  case False
  then show ?thesis using assms by (auto simp: f32_add_nonneg_eq round_mag_le_inf)
qed

lemma f32_add_zero:
  assumes "f32_nonneg a"
  shows "f32_add a f32_zero = a"
proof (cases "f32_is_finite a")
  case True
  then have "round_mag (mag_units (f32_mag a)) 1 = f32_mag a"
    by (intro round_mag_exact) (simp add: f32_is_finite_def)
  with True assms show ?thesis
    by (cases a) (simp add: f32_add_nonneg_eq, simp add: f32_zero_def f32_nonneg_def
        f32_is_finite_def f32_inf_mag_def)
next
  case False
  with assms show ?thesis
    by (cases a) (simp add: f32_add_nonneg_eq, simp add: f32_nonneg_def f32_is_finite_def)
qed

lemma f32_mul_finite_eq:
  assumes "f32_nonneg a" "f32_nonneg b" "f32_is_finite a" "f32_is_finite b"
  shows "f32_mul a b =
    F32 False (round_mag (mag_units (f32_mag a) * mag_units (f32_mag b)) (2 ^ 149))"
  using assms
  by (simp add: f32_mul_def f32_nonneg_def f32_is_finite_def f32_is_nan_def f32_is_inf_def)

lemma f32_div_finite_eq:
  assumes "f32_nonneg a" "f32_nonneg b" "f32_is_finite a" "f32_is_finite b" "f32_mag b \<noteq> 0"
  shows "f32_div a b =
    F32 False (round_mag (mag_units (f32_mag a) * 2 ^ 149) (mag_units (f32_mag b)))"
  using assms
  by (simp add: f32_div_def f32_nonneg_def f32_is_finite_def f32_is_nan_def f32_is_inf_def)

lemma f32_mul_mono:
  assumes "f32_nonneg w" "f32_is_finite w" "f32_nonneg a" "f32_nonneg b" "f32_is_finite b"
    and "f32_mag a \<le> f32_mag b"
  shows "f32_mag (f32_mul w a) \<le> f32_mag (f32_mul w b)"
proof -
  have a: "f32_is_finite a" using assms(5,6) by (simp add: f32_is_finite_def)
  have "mag_units (f32_mag a) \<le> mag_units (f32_mag b)"
    using assms(5,6) by (simp add: f32_is_finite_def mag_units_mono)
  then show ?thesis
    using assms a by (simp add: f32_mul_finite_eq round_mag_mono)
qed

lemma f32_div_mono:
  assumes "f32_nonneg d" "f32_is_finite d" "f32_mag d \<noteq> 0"
    and "f32_nonneg a" "f32_nonneg b" "f32_is_finite b" "f32_mag a \<le> f32_mag b"
  shows "f32_mag (f32_div a d) \<le> f32_mag (f32_div b d)"
proof -
  have a: "f32_is_finite a" using assms(6,7) by (simp add: f32_is_finite_def)
  have "mag_units (f32_mag a) \<le> mag_units (f32_mag b)"
    using assms(6,7) by (simp add: f32_is_finite_def mag_units_mono)
  then show ?thesis
    using assms a by (simp add: f32_div_finite_eq round_mag_mono mag_units_pos)
qed

lemma f32_nonneg_mul:
  "f32_nonneg a \<Longrightarrow> f32_nonneg b \<Longrightarrow> f32_is_finite a \<Longrightarrow> f32_is_finite b \<Longrightarrow>
   f32_nonneg (f32_mul a b)"
  by (simp add: f32_mul_finite_eq)

lemma f32_nonneg_div:
  "f32_nonneg a \<Longrightarrow> f32_nonneg b \<Longrightarrow> f32_is_finite a \<Longrightarrow> f32_is_finite b \<Longrightarrow> f32_mag b \<noteq> 0 \<Longrightarrow>
   f32_nonneg (f32_div a b)"
  by (simp add: f32_div_finite_eq)

lemma f32_of_int_mono: "0 \<le> i \<Longrightarrow> i \<le> j \<Longrightarrow> f32_mag (f32_of_int i) \<le> f32_mag (f32_of_int j)"
  by (simp add: f32_of_int_def round_mag_mono)

lemma comparator_total_cmp: "comparator f32_total_cmp"
  unfolding f32_total_cmp_def by (rule comparator_cmp_on)

interpretation f32_total: comparator f32_total_cmp
  by (rule comparator_total_cmp)

section \<open>Finiteness of the values the rankings build\<close>

lemma round_even_scale: "0 < d \<Longrightarrow> round_even (d * x) (d * y) = round_even x y"
proof -
  assume d: "0 < d"
  have "d * y < 2 * (d * (x mod y)) \<longleftrightarrow> y < 2 * (x mod y)"
    using d by (metis mult.left_commute nat_mult_less_cancel_disj)
  moreover have "2 * (d * (x mod y)) = d * y \<longleftrightarrow> 2 * (x mod y) = y"
    using d by (metis mult.left_commute nat_mult_eq_cancel_disj less_numeral_extra(3))
  ultimately show ?thesis
    using d by (simp add: round_even_def Let_def mult_mod_right [symmetric])
qed

lemma round_mag_scale: "0 < d \<Longrightarrow> round_mag (d * x) d = round_mag x 1"
  using round_even_scale [of d x "2 ^ k" for k] by (simp add: round_mag_def Let_def)

lemma f32_of_nat_pow2:
  assumes "k < 128"
  shows "f32_of_nat (2 ^ k) = F32 False ((127 + k) * 2 ^ 23)"
proof -
  have m: "mag_units ((127 + k) * 2 ^ 23) = 2 ^ k * 2 ^ 149"
  proof -
    have "23 + (126 + k) = k + 149" by simp
    then have "(2::nat) ^ 23 * 2 ^ (126 + k) = 2 ^ k * 2 ^ 149" by (metis power_add)
    moreover have "(2::nat) ^ 23 \<le> (127 + k) * 2 ^ 23" by simp
    ultimately show ?thesis by (simp add: mag_units_def add.commute)
  qed
  have "(127 + k) * 2 ^ 23 < f32_inf_mag" using assms by (simp add: f32_inf_mag_def)
  from round_mag_exact [OF this] show ?thesis unfolding m f32_of_nat_def by simp
qed

lemma f32_of_nat_mono: "m \<le> n \<Longrightarrow> f32_mag (f32_of_nat m) \<le> f32_mag (f32_of_nat n)"
  by (simp add: f32_of_nat_def round_mag_mono)

lemma f32_of_nat_u64:
  assumes "n < 2 ^ 64"
  shows "f32_mag (f32_of_nat n) \<le> 191 * 2 ^ 23" "f32_is_finite (f32_of_nat n)"
proof -
  show "f32_mag (f32_of_nat n) \<le> 191 * 2 ^ 23"
    using f32_of_nat_mono [of n "2 ^ 64"] f32_of_nat_pow2 [of 64] assms by simp
  then show "f32_is_finite (f32_of_nat n)" by (simp add: f32_is_finite_def f32_inf_mag_def)
qed

lemma f32_of_nat_pos: "0 < n \<Longrightarrow> 0 < f32_mag (f32_of_nat n)"
  using f32_of_nat_mono [of 1 n] f32_of_nat_pow2 [of 0] by simp

lemma f32_one: "f32_of_nat 1 = F32 False 1065353216"
  using f32_of_nat_pow2 [of 0] by simp

lemmas f32_one_Suc = f32_one [unfolded One_nat_def]

lemma mag_units_one: "mag_units 1065353216 = 2 ^ 149"
  by (simp add: mag_units_def)

lemma f32_div_le_one:
  assumes "f32_nonneg a" "f32_nonneg b" "f32_is_finite b" "f32_mag b \<noteq> 0" "f32_mag a \<le> f32_mag b"
  shows "f32_nonneg (f32_div a b)" "f32_mag (f32_div a b) \<le> 1065353216"
proof -
  have a: "f32_is_finite a" using assms by (simp add: f32_is_finite_def)
  show "f32_nonneg (f32_div a b)" using assms a by (intro f32_nonneg_div) auto
  have u: "0 < mag_units (f32_mag b)" using assms by (simp add: mag_units_pos)
  have "f32_mag (f32_div b b) = f32_mag (f32_of_nat 1)"
    using assms round_mag_scale [OF u, of "2 ^ 149"] by (simp add: f32_div_finite_eq f32_of_nat_def)
  moreover have "f32_mag (f32_div a b) \<le> f32_mag (f32_div b b)"
    using assms by (intro f32_div_mono) auto
  ultimately show "f32_mag (f32_div a b) \<le> 1065353216" by (simp add: f32_one_Suc)
qed

definition duration_ok :: "Duration \<Rightarrow> bool" where
  "duration_ok d \<longleftrightarrow> secs d < 2 ^ 64 \<and> nanos d < 10 ^ 9"

lemma as_secs_f32_ok:
  assumes "duration_ok d"
  shows "f32_nonneg (as_secs_f32 d)" "f32_is_finite (as_secs_f32 d)"
proof -
  let ?q = "f32_div (f32_of_nat (nanos d)) (f32_of_nat 1000000000)"
  have q: "f32_nonneg ?q" "f32_mag ?q \<le> 1065353216"
    using assms f32_of_nat_pos [of 1000000000] f32_of_nat_mono [of "nanos d" 1000000000]
    by (auto intro!: f32_div_le_one f32_of_nat_u64 simp: duration_ok_def)
  then show nn: "f32_nonneg (as_secs_f32 d)" by (simp add: as_secs_f32_def f32_nonneg_add)
  let ?B = "F32 False 1602224128"
  have "f32_mag (as_secs_f32 d) \<le> f32_mag (f32_add ?B ?B)"
    unfolding as_secs_f32_def using assms q f32_of_nat_u64 [of "secs d"]
    by (intro f32_add_mono) (simp_all add: duration_ok_def, simp_all add: f32_nonneg_def f32_inf_mag_def)
  also have "f32_add ?B ?B = f32_of_nat (2 ^ 65)"
  proof -
    have "mag_units 1602224128 = 2 ^ 64 * 2 ^ 149" by (simp add: mag_units_def)
    then show ?thesis
      by (simp add: f32_add_nonneg_eq f32_nonneg_def f32_is_finite_def f32_inf_mag_def f32_of_nat_def)
  qed
  finally show "f32_is_finite (as_secs_f32 d)"
    using f32_of_nat_pow2 [of 65] by (simp add: f32_is_finite_def f32_inf_mag_def)
qed

text \<open>\<open>1.0 - r\<close> for a ratio \<open>r\<close>: antitone, and again a ratio.\<close>

lemma f32_one_minus_eq:
  assumes "f32_nonneg r" "f32_mag r \<le> 1065353216"
  shows "f32_sub (f32_of_nat 1) r = F32 False (round_mag (2 ^ 149 - mag_units (f32_mag r)) 1)"
proof -
  have le: "mag_units (f32_mag r) \<le> 2 ^ 149"
    using mag_units_mono [OF assms(2)] unfolding mag_units_one by (simp add: f32_inf_mag_def)
  then have d: "int (2 ^ 149) - int (mag_units (f32_mag r)) = int (2 ^ 149 - mag_units (f32_mag r))"
    by (rule of_nat_diff [symmetric])
  show ?thesis
  proof (cases "2 ^ 149 - mag_units (f32_mag r) = 0")
    case True
    with le have "mag_units (f32_mag r) = 2 ^ 149" by simp
    with assms mag_units_one show ?thesis
      by (simp add: f32_sub_def f32_one_Suc f32_add_def f32_is_nan_def f32_is_inf_def f32_inf_mag_def
          f32_units_def Let_def f32_nonneg_def)
  next
    case False
    with d le assms mag_units_one show ?thesis
      by (simp add: f32_sub_def f32_one_Suc f32_add_def f32_is_nan_def f32_is_inf_def f32_inf_mag_def
          f32_units_def Let_def f32_nonneg_def del: of_nat_diff)
  qed
qed

lemma f32_one_minus_antitone:
  assumes "f32_nonneg r" "f32_nonneg r'" "f32_mag r' \<le> f32_mag r" "f32_mag r \<le> 1065353216"
  shows "f32_mag (f32_sub (f32_of_nat 1) r) \<le> f32_mag (f32_sub (f32_of_nat 1) r')"
proof -
  have "mag_units (f32_mag r') \<le> mag_units (f32_mag r)"
    using assms by (intro mag_units_mono) (auto simp: f32_inf_mag_def)
  moreover have "f32_mag r' \<le> 1065353216" using assms by simp
  ultimately show ?thesis
    using assms by (simp add: f32_one_minus_eq [unfolded One_nat_def] round_mag_mono diff_le_mono2)
qed

lemma f32_one_minus_ok:
  assumes "f32_nonneg r" "f32_mag r \<le> 1065353216"
  shows "f32_nonneg (f32_sub (f32_of_nat 1) r)" "f32_is_finite (f32_sub (f32_of_nat 1) r)"
proof -
  show "f32_nonneg (f32_sub (f32_of_nat 1) r)" by (simp only: f32_one_minus_eq [OF assms] f32_nonneg_round)
  have "round_mag (2 ^ 149 - mag_units (f32_mag r)) 1 \<le> round_mag (2 ^ 149) 1"
    by (rule round_mag_mono) simp_all
  also have "round_mag (2 ^ 149) 1 = 1065353216" using f32_one by (simp add: f32_of_nat_def)
  finally show "f32_is_finite (f32_sub (f32_of_nat 1) r)"
    unfolding f32_one_minus_eq [OF assms] by (simp add: f32_is_finite_def f32_inf_mag_def)
qed

text \<open>\<open>f32::max\<close> over a list of such values: the largest magnitude.\<close>

lemma foldl_f32_max:
  assumes "f32_nonneg a" and "list_all f32_nonneg xs"
  shows "f32_nonneg (foldl f32_max a xs) \<and> f32_mag (foldl f32_max a xs) = Max (f32_mag ` set (a # xs))"
  using assms
proof (induction xs arbitrary: a)
  case Nil
  then show ?case by simp
next
  case (Cons x xs)
  have m: "f32_nonneg (f32_max a x) \<and> f32_mag (f32_max a x) = max (f32_mag a) (f32_mag x)"
    using Cons.prems by (auto simp: f32_max_def f32_nonneg_def f32_is_nan_def f32_gt_def f32_value_key_def)
  then have "Max (f32_mag ` set (f32_max a x # xs)) = Max (f32_mag ` set (a # x # xs))"
    by (simp add: max.assoc flip: Max_insert) (cases "xs = []"; simp add: max.assoc)
  then show ?case using Cons.IH [of "f32_max a x"] Cons.prems m by simp
qed

lemma f32_nonneg_eqI: "f32_nonneg a \<Longrightarrow> f32_nonneg b \<Longrightarrow> f32_mag a = f32_mag b \<Longrightarrow> a = b"
  by (cases a; cases b) (simp add: f32_nonneg_def)

end
