(* ===== verification/Catalog.thy ===== *)
theory Catalog
  imports Atomic_Store Float32
begin

unbundle bit_operations_syntax

text \<open>
  The server catalog of \<open>crates/store/src/catalog.rs\<close>: the document model with every wire
  field, the feature bits, the value-domain validation, \<open>CatalogDocument::from_bytes\<close>, and
  the strict-loaded on-disk cache. The JSON library is a parameter (\<open>parse\<close> and
  \<open>render\<close>, the two directions of \<open>serde_json\<close> on the types of this file); error texts are
  the data they interpolate. \<open>from_bytes_Ok_iff\<close> says what a loaded catalog satisfies, and
  \<open>catalog_ok\<close> is that well-formedness as the other components use it.
\<close>

section \<open>The document\<close>

definition MAX_CATALOG_BYTES :: usize where
  "MAX_CATALOG_BYTES = 16 * 2 ^ 20"

definition MAX_LOGICAL_SERVERS :: usize where
  "MAX_LOGICAL_SERVERS = 16384"

definition MAX_PHYSICAL_SERVERS_TOTAL :: usize where
  "MAX_PHYSICAL_SERVERS_TOTAL = 262144"

definition CATALOG_CACHE_SCHEMA_VERSION :: u32 where
  "CATALOG_CACHE_SCHEMA_VERSION = 1"

datatype catalog_drift =
    ParseDrift string
  | StatusDrift usize i8
  | TierDrift usize i8
  | LoadDrift usize i8
  | PhysicalStatusDrift usize usize i8

datatype CatalogError =
    TooLarge usize
  | TooManyServers usize usize
  | Api i64 string
  | Malformed catalog_drift

record ResponseMetadata =
  list_is_truncated :: bool

record ApiErrorAction =
  action_code :: "string option"
  action_name :: "string option"
  category :: "string option"
  url :: "string option"

record ApiErrorDetails =
  actions :: "ApiErrorAction list option"
  description :: "string option"
  title :: "string option"
  body_text :: "string option"
  hint_with_markdown :: "string option"
  human_verification_methods :: "string list option"
  human_verification_token :: "string option"

record StatusReference =
  sr_index :: u64
  cost :: u64
  penalty :: "64 word"

record ServerLocation =
  latitude :: f32
  longitude :: f32

record LegacyLocation =
  lat :: f32
  long :: f32

record ProtocolEndpoint =
  ipv4 :: string
  ports :: "u16 list option"

record EntryPerProtocol =
  wireguard_udp :: "ProtocolEndpoint option"
  wireguard_tcp :: "ProtocolEndpoint option"
  wireguard_tls :: "ProtocolEndpoint option"
  openvpn_udp :: "ProtocolEndpoint option"
  openvpn_tcp :: "ProtocolEndpoint option"

record PhysicalServer =
  ps_id :: "string option"
  entry_ip :: "string option"
  exit_ip :: "string option"
  ps_domain :: string
  ps_status :: i8
  ps_label :: "string option"
  x25519_public_key :: "string option"
  signature :: "string option"
  generation :: "string option"
  services_down_reason :: "string option"
  entry_per_protocol :: "EntryPerProtocol option"

type_synonym ServerFeatures = "64 word"

record LogicalServer =
  ls_id :: string
  ls_name :: string
  city :: "string option"
  state :: "string option"
  entry_country :: string
  exit_country :: string
  ls_domain :: "string option"
  tier :: i8
  features :: ServerFeatures
  status :: "i8 option"
  load :: "i8 option"
  score :: "f32 option"
  host_country :: "string option"
  gateway_name :: "string option"
  ls_translations :: "(string, string option) btree option"
  status_reference :: "StatusReference option"
  entry_location :: "ServerLocation option"
  exit_location :: "ServerLocation option"
  location :: "LegacyLocation option"
  servers :: "PhysicalServer list"

record CatalogDocument =
  code :: i64
  error :: "string option"
  details :: "ApiErrorDetails option"
  status_id :: string
  response_metadata :: "ResponseMetadata option"
  logical_servers :: "LogicalServer list"

section \<open>Accessors\<close>

definition SECURE_CORE :: "64 word" where "SECURE_CORE = push_bit 0 1"
definition TOR :: "64 word" where "TOR = push_bit 1 1"
definition P2P :: "64 word" where "P2P = push_bit 2 1"
definition STREAMING :: "64 word" where "STREAMING = push_bit 3 1"
definition IPV6 :: "64 word" where "IPV6 = push_bit 4 1"
definition RESTRICTED :: "64 word" where "RESTRICTED = push_bit 5 1"

definition has :: "ServerFeatures \<Rightarrow> 64 word \<Rightarrow> bool" where
  "has f b = (f AND b \<noteq> 0)"

definition secure_core :: "ServerFeatures \<Rightarrow> bool" where "secure_core f = has f SECURE_CORE"
definition tor :: "ServerFeatures \<Rightarrow> bool" where "tor f = has f TOR"
definition p2p :: "ServerFeatures \<Rightarrow> bool" where "p2p f = has f P2P"
definition streaming :: "ServerFeatures \<Rightarrow> bool" where "streaming f = has f STREAMING"
definition ipv6 :: "ServerFeatures \<Rightarrow> bool" where "ipv6 f = has f IPV6"
definition restricted :: "ServerFeatures \<Rightarrow> bool" where "restricted f = has f RESTRICTED"

definition ls_is_online :: "LogicalServer \<Rightarrow> bool option" where
  "ls_is_online s = map_option (\<lambda>x. x = 1) (status s)"

definition is_secure_core_route :: "LogicalServer \<Rightarrow> bool" where
  "is_secure_core_route s = (entry_country s \<noteq> exit_country s)"

definition is_gateway :: "LogicalServer \<Rightarrow> bool" where
  "is_gateway s = (gateway_name s \<noteq> None)"

definition ps_is_online :: "PhysicalServer \<Rightarrow> bool" where
  "ps_is_online p = (ps_status p = 1)"

section \<open>Validation\<close>

fun validate_physicals :: "usize \<Rightarrow> usize \<Rightarrow> PhysicalServer list \<Rightarrow> (CatalogError, unit) res" where
  "validate_physicals i j [] = Ok ()"
| "validate_physicals i j (p # ps) =
     (if ps_status p \<noteq> 0 \<and> ps_status p \<noteq> 1
      then Err (Malformed (PhysicalStatusDrift i j (ps_status p)))
      else validate_physicals i (j + 1) ps)"

definition validate_logical :: "usize \<Rightarrow> LogicalServer \<Rightarrow> (CatalogError, unit) res" where
  "validate_logical i s =
     and_then
       (case status s of
          Some st \<Rightarrow> if st \<noteq> 0 \<and> st \<noteq> 1 then Err (Malformed (StatusDrift i st)) else Ok ()
        | None \<Rightarrow> Ok ()) (\<lambda>_.
     and_then
       (if \<not> (0 \<le> tier s \<and> tier s \<le> 3) then Err (Malformed (TierDrift i (tier s))) else Ok ()) (\<lambda>_.
     and_then
       (case load s of
          Some l \<Rightarrow> if \<not> (0 \<le> l \<and> l \<le> 100) then Err (Malformed (LoadDrift i l)) else Ok ()
        | None \<Rightarrow> Ok ()) (\<lambda>_.
     validate_physicals i 0 (servers s))))"

fun validate_logicals :: "usize \<Rightarrow> LogicalServer list \<Rightarrow> (CatalogError, unit) res" where
  "validate_logicals i [] = Ok ()"
| "validate_logicals i (s # ss) = and_then (validate_logical i s) (\<lambda>_. validate_logicals (i + 1) ss)"

definition validate_value_domains :: "CatalogDocument \<Rightarrow> (CatalogError, unit) res" where
  "validate_value_domains doc = validate_logicals 0 (logical_servers doc)"

definition physical_count :: "CatalogDocument \<Rightarrow> usize" where
  "physical_count doc = sum_list (map (\<lambda>s. length (servers s)) (logical_servers doc))"

definition from_bytes ::
  "(bytes \<Rightarrow> string + CatalogDocument) \<Rightarrow> bytes \<Rightarrow> (CatalogError, CatalogDocument) res" where
  "from_bytes parse body =
     (if MAX_CATALOG_BYTES < length body then Err (TooLarge (length body))
      else case parse body of
          Inl e \<Rightarrow> Err (Malformed (ParseDrift e))
        | Inr doc \<Rightarrow>
            if code doc \<noteq> 1000
            then Err (Api (code doc) (case error doc of Some e \<Rightarrow> e | None \<Rightarrow> []))
            else if MAX_LOGICAL_SERVERS < length (logical_servers doc) \<or>
                MAX_PHYSICAL_SERVERS_TOTAL < physical_count doc
            then Err (TooManyServers (length (logical_servers doc)) (physical_count doc))
            else and_then (validate_value_domains doc) (\<lambda>_. Ok doc))"

section \<open>The cache\<close>

record CachedCatalog =
  cc_schema_version :: u32
  cc_etag :: "string option"
  cc_fetched_unix :: u64
  cc_body :: bytes

datatype cache_malformed = CacheCodec string | CacheSchema u32 | CacheBody CatalogError

datatype CatalogCacheError =
    CacheIo string
  | CacheFsTrust FsTrustError
  | CacheTooLarge usize
  | CacheMalformed cache_malformed

text \<open>\<open>serde_json\<close> on the types of this module.\<close>

record catalog_codec =
  parse_doc :: "bytes \<Rightarrow> string + CatalogDocument"
  parse_cached :: "bytes \<Rightarrow> string + CachedCatalog"
  render_cached :: "CachedCatalog \<Rightarrow> string + bytes"

definition cache_load_validated ::
  "catalog_codec \<Rightarrow> string option \<Rightarrow> doc_file \<Rightarrow> (CatalogCacheError, CachedCatalog option) res" where
  "cache_load_validated codec fault f =
     (case fs_read fault f of
        ReadNotFound \<Rightarrow> Ok None
      | ReadErr e \<Rightarrow> Err (CacheIo e)
      | ReadOk bs \<Rightarrow>
          if MAX_CATALOG_BYTES < length bs then Err (CacheTooLarge (length bs))
          else case parse_cached codec bs of
              Inl e \<Rightarrow> Err (CacheMalformed (CacheCodec e))
            | Inr cached \<Rightarrow>
                if cc_schema_version cached \<noteq> CATALOG_CACHE_SCHEMA_VERSION
                then Err (CacheMalformed (CacheSchema (cc_schema_version cached)))
                else and_then
                  (map_err (\<lambda>e. CacheMalformed (CacheBody e))
                    (from_bytes (parse_doc codec) (cc_body cached)))
                  (\<lambda>_. Ok (Some cached)))"

definition cache_load_strict ::
  "catalog_codec \<Rightarrow> (path \<Rightarrow> lstat_result) \<Rightarrow> path \<Rightarrow> path \<Rightarrow> string option \<Rightarrow> doc_file \<Rightarrow>
   (CatalogCacheError, CachedCatalog option) res" where
  "cache_load_strict codec lstat p trust_root fault f =
     and_then (map_err CacheFsTrust (verify_trusted_path lstat p trust_root Allow))
       (\<lambda>_. cache_load_validated codec fault f)"

definition cache_store ::
  "catalog_codec \<Rightarrow> write_io \<Rightarrow> CachedCatalog \<Rightarrow> doc_file \<Rightarrow>
   (CatalogCacheError, unit) res \<times> doc_file" where
  "cache_store codec io doc f =
     (if MAX_CATALOG_BYTES < length (cc_body doc) then (Err (CacheTooLarge (length (cc_body doc))), f)
      else case render_cached codec doc of
          Inl e \<Rightarrow> (Err (CacheMalformed (CacheCodec e)), f)
        | Inr bs \<Rightarrow>
            if MAX_CATALOG_BYTES < length bs then (Err (CacheTooLarge (length bs)), f)
            else apfst (map_err CacheIo) (atomic_write io bs f))"

definition refresh_freshness ::
  "catalog_codec \<Rightarrow> write_io \<Rightarrow> CachedCatalog \<Rightarrow> u64 \<Rightarrow> doc_file \<Rightarrow>
   (CatalogCacheError, CachedCatalog) res \<times> doc_file" where
  "refresh_freshness codec io current fetched f =
     (let updated = current\<lparr>cc_fetched_unix := fetched\<rparr>
      in apfst (\<lambda>r. and_then r (\<lambda>_. Ok updated)) (cache_store codec io updated f))"

section \<open>What validation establishes\<close>

definition server_ok :: "LogicalServer \<Rightarrow> bool" where
  "server_ok s \<longleftrightarrow>
     (status s = None \<or> status s = Some 0 \<or> status s = Some 1) \<and>
     0 \<le> tier s \<and> tier s \<le> 3 \<and>
     (case load s of None \<Rightarrow> True | Some l \<Rightarrow> 0 \<le> l \<and> l \<le> 100) \<and>
     list_all (\<lambda>p. ps_status p = 0 \<or> ps_status p = 1) (servers s)"

definition catalog_ok :: "CatalogDocument \<Rightarrow> bool" where
  "catalog_ok doc \<longleftrightarrow>
     code doc = 1000 \<and> length (logical_servers doc) \<le> MAX_LOGICAL_SERVERS \<and>
     physical_count doc \<le> MAX_PHYSICAL_SERVERS_TOTAL \<and> list_all server_ok (logical_servers doc)"

lemma validate_physicals_Ok_iff:
  "validate_physicals i j ps = Ok () \<longleftrightarrow> list_all (\<lambda>p. ps_status p = 0 \<or> ps_status p = 1) ps"
  by (induction i j ps rule: validate_physicals.induct) auto

lemma validate_logical_Ok_iff: "validate_logical i s = Ok () \<longleftrightarrow> server_ok s"
  by (auto simp: validate_logical_def server_ok_def res_simps validate_physicals_Ok_iff
      split: option.splits if_splits)

lemma validate_logicals_Ok_iff: "validate_logicals i ss = Ok () \<longleftrightarrow> list_all server_ok ss"
  by (induction i ss rule: validate_logicals.induct) (auto simp: res_simps validate_logical_Ok_iff)

lemma validate_physicals_not_Panic [simp]: "validate_physicals i j ps \<noteq> Panic"
  by (induction i j ps rule: validate_physicals.induct) auto

lemma validate_logicals_not_Panic [simp]: "validate_logicals i ss \<noteq> Panic"
  by (induction i ss rule: validate_logicals.induct)
    (auto simp: res_simps validate_logical_def split: option.splits if_splits)

lemma from_bytes_not_Panic: "from_bytes parse body \<noteq> Panic"
  by (auto simp: from_bytes_def validate_value_domains_def res_simps split: sum.splits)

lemma from_bytes_Ok_conv:
  "from_bytes parse body = Ok doc \<longleftrightarrow>
   length body \<le> MAX_CATALOG_BYTES \<and> parse body = Inr doc \<and> catalog_ok doc"
  by (auto simp: from_bytes_def catalog_ok_def validate_value_domains_def res_simps
      validate_logicals_Ok_iff split: sum.splits if_splits)

lemma server_okD:
  assumes "catalog_ok doc" and "s \<in> set (logical_servers doc)"
  shows "server_ok s"
  using assms by (simp add: catalog_ok_def list_all_iff)

section \<open>The cache as a durable document\<close>

definition cached_bytes :: "catalog_codec \<Rightarrow> CachedCatalog \<Rightarrow> bytes" where
  "cached_bytes codec doc = (case render_cached codec doc of Inr bs \<Rightarrow> bs | Inl e \<Rightarrow> [])"

lemma cache_store_Ok:
  assumes "fst (cache_store codec io doc f) = Ok ()"
  shows "df_content (snd (cache_store codec io doc f)) = Some (cached_bytes codec doc) \<and>
    render_cached codec doc = Inr (cached_bytes codec doc) \<and>
    length (cached_bytes codec doc) \<le> MAX_CATALOG_BYTES"
  using assms atomic_write_Ok
  by (auto simp: cache_store_def cached_bytes_def res_simps split: if_splits sum.splits)

lemma cache_store_not_Ok:
  assumes "fst (cache_store codec io doc f) \<noteq> Ok ()"
  shows "df_content (snd (cache_store codec io doc f)) = df_content f"
  using assms atomic_write_not_Ok
  by (auto simp: cache_store_def res_simps split: if_splits sum.splits)

interpretation catalog_cache: durable_document "cache_store codec" "cached_bytes codec" for codec
  by unfold_locales (simp_all add: cache_store_Ok cache_store_not_Ok)

definition cache_codec_faithful :: "catalog_codec \<Rightarrow> bool" where
  "cache_codec_faithful codec \<longleftrightarrow>
     (\<forall>doc bs. render_cached codec doc = Inr bs \<longrightarrow> parse_cached codec bs = Inr doc)"

definition cached_ok :: "catalog_codec \<Rightarrow> CachedCatalog \<Rightarrow> bool" where
  "cached_ok codec doc \<longleftrightarrow>
     cc_schema_version doc = CATALOG_CACHE_SCHEMA_VERSION \<and>
     (\<exists>cat. from_bytes (parse_doc codec) (cc_body doc) = Ok cat)"

lemma cache_load_stored:
  assumes "render_cached codec doc = Inr (cached_bytes codec doc) \<Longrightarrow> parse_cached codec (cached_bytes codec doc) = Inr doc"
    and "cached_ok codec doc" and stored: "fst (cache_store codec io doc f) = Ok ()"
  shows "cache_load_validated codec None (snd (cache_store codec io doc f)) = Ok (Some doc)"
  using cache_store_Ok [OF stored] assms(1,2)
  by (auto simp: cache_load_validated_def fs_read_def cached_ok_def)

lemma cache_load_unstored:
  assumes "fst (cache_store codec io doc f) \<noteq> Ok ()"
  shows "cache_load_validated codec fault (snd (cache_store codec io doc f)) = cache_load_validated codec fault f"
  unfolding cache_load_validated_def fs_read_def cache_store_not_Ok [OF assms] ..

lemma cache_load_ok_doc:
  "cache_load_validated codec fault f = Ok (Some doc) \<Longrightarrow> cached_ok codec doc"
  by (auto simp: cache_load_validated_def cached_ok_def res_simps split: read_result.splits if_splits sum.splits)

section \<open>Properties\<close>

text \<open>
  A body is accepted exactly when it is within the size cap, parses, carries code 1000,
  keeps both server-count caps, and every server's status, tier, load and physical statuses
  lie in the recorded domains: nothing outside the domains is ever cached or served.
\<close>

theorem from_bytes_accepts_iff:
  "from_bytes parse body = Ok doc \<longleftrightarrow>
   length body \<le> MAX_CATALOG_BYTES \<and> parse body = Inr doc \<and> code doc = 1000 \<and>
   length (logical_servers doc) \<le> MAX_LOGICAL_SERVERS \<and>
   physical_count doc \<le> MAX_PHYSICAL_SERVERS_TOTAL \<and>
   list_all (\<lambda>s. status s \<in> {None, Some 0, Some 1} \<and> tier s \<in> {0..3} \<and>
     load s \<in> insert None (Some ` {0..100}) \<and>
     list_all (\<lambda>p. ps_status p \<in> {0, 1}) (servers s)) (logical_servers doc)"
proof -
  have "server_ok = (\<lambda>s. status s \<in> {None, Some 0, Some 1} \<and> tier s \<in> {0..3} \<and>
      load s \<in> insert None (Some ` {0..100}) \<and> list_all (\<lambda>p. ps_status p \<in> {0, 1}) (servers s))"
    by (auto simp: server_ok_def fun_eq_iff split: option.splits)
  then show ?thesis unfolding from_bytes_Ok_conv catalog_ok_def by (simp only:)
qed

text \<open>
  What the cache stores it loads back: after a store that succeeds, the loader returns
  the same document, provided the JSON library reads back what it wrote for that document,
  the document carries the current schema version and its body is a valid catalog. In
  particular no store writes a file the loader's size cap would refuse.
\<close>

theorem cache_store_load:
  assumes codec: "\<And>bs. render_cached codec doc = Inr bs \<Longrightarrow> parse_cached codec bs = Inr doc"
    and version: "cc_schema_version doc = CATALOG_CACHE_SCHEMA_VERSION"
    and body: "from_bytes (parse_doc codec) (cc_body doc) = Ok cat"
    and stored: "fst (cache_store codec io doc f) = Ok ()"
  shows "cache_load_validated codec None (snd (cache_store codec io doc f)) = Ok (Some doc)"
  by (rule cache_load_stored [OF codec _ stored]) (use version body in \<open>simp_all add: cached_ok_def\<close>)

definition empty_catalog :: CatalogDocument where
  "empty_catalog = \<lparr>code = 1000, error = None, details = None, status_id = [],
     response_metadata = None, logical_servers = []\<rparr>"

definition sample_cached :: CachedCatalog where
  "sample_cached = \<lparr>cc_schema_version = 1, cc_etag = Some ''v1'', cc_fetched_unix = 100, cc_body = ''{}''\<rparr>"

definition sample_codec :: catalog_codec where
  "sample_codec = \<lparr>parse_doc = (\<lambda>_. Inr empty_catalog), parse_cached = (\<lambda>_. Inr sample_cached),
     render_cached = (\<lambda>_. Inr ''{cached}'')\<rparr>"

definition all_io_ok :: write_io where
  "all_io_ok = \<lparr>io_mkdir = MkdirExists, io_open = None, io_write = None, io_written = 0,
     io_sync = None, io_rename = None\<rparr>"

theorem cache_store_load_witness:
  "cache_load_validated sample_codec None
     (snd (cache_store sample_codec all_io_ok sample_cached \<lparr>df_content = None, df_temp = None\<rparr>)) =
   Ok (Some sample_cached)"
proof (rule cache_store_load)
  show "cc_schema_version sample_cached = CATALOG_CACHE_SCHEMA_VERSION"
    by (simp add: sample_cached_def CATALOG_CACHE_SCHEMA_VERSION_def)
  show "from_bytes (parse_doc sample_codec) (cc_body sample_cached) = Ok empty_catalog"
    by (simp add: from_bytes_Ok_conv sample_codec_def sample_cached_def catalog_ok_def
        empty_catalog_def physical_count_def MAX_CATALOG_BYTES_def)
  show "fst (cache_store sample_codec all_io_ok sample_cached \<lparr>df_content = None, df_temp = None\<rparr>) = Ok ()"
    by (simp add: cache_store_def sample_codec_def sample_cached_def all_io_ok_def
        atomic_write_def create_cache_dir_def MAX_CATALOG_BYTES_def)
qed (simp add: sample_codec_def)

end
