(* ===== verification/Selection_Types.thy ===== *)
theory Selection_Types
  imports Catalog
begin

text \<open>
  The vocabulary of \<open>crates/core/src/selection.rs\<close>: targets, ranking policies and their
  input schemas (\<open>RankingPolicy::parse\<close>, \<open>WeightedSignals::from_pairs\<close>), constraints, the
  context the caller composes, filter stages with their evaluation order, the elimination
  report, scoring signals and the error type. Error texts are the data they interpolate.
  The lemmas here are about the input schemas: what they accept is finite, not negative,
  unambiguous, and never a throughput signal.
\<close>

section \<open>Requests\<close>

type_synonym LatencyTable = "(string, Duration) btree"

definition FORBIDDEN_RANKING_SIGNALS :: "string list" where
  "FORBIDDEN_RANKING_SIGNALS = [''speed'', ''estimated-speed'', ''estimated-throughput'']"

datatype Target =
    Fastest
  | Country string
  | Countries "string list"
  | State string
  | City string
  | Server string
  | Gateway string
  | SecureCore "string option" "string option"

record WeightedSignals =
  ws_load :: f32
  ws_latency :: f32
  ws_stability :: f32
  ws_feature_match :: f32
  ws_history :: f32

datatype RankingPolicy =
    Official
  | Balanced WeightedSignals
  | LowestLoad
  | Latency
  | Random

datatype FeatureConstraint = P2p | Tor | SecureCoreBit | Streaming | Ipv6 | PortForwarding

datatype ProtocolConstraint = WireguardUdp | WireguardTcp | Stealth

record Constraints =
  excluded_countries :: "string list"
  excluded_states :: "string list"
  excluded_cities :: "string list"
  excluded_servers :: "string list"
  excluded_entry_countries :: "string list"
  excluded_exit_countries :: "string list"
  exclude_physical_country :: bool
  physical_country :: "string option"
  required_features :: "FeatureConstraint list"
  optional_features :: "FeatureConstraint list"
  required_protocol :: "ProtocolConstraint option"

definition Constraints_default :: Constraints where
  "Constraints_default = \<lparr>excluded_countries = [], excluded_states = [], excluded_cities = [],
     excluded_servers = [], excluded_entry_countries = [], excluded_exit_countries = [],
     exclude_physical_country = False, physical_country = None, required_features = [],
     optional_features = [], required_protocol = None\<rparr>"

record SelectionRequest =
  target :: Target
  policy :: RankingPolicy
  constraints :: Constraints

record SelectionContext =
  latency :: LatencyTable
  account_tier :: "i8 option"
  port_forwarding_entitled :: "bool option"
  port_forwarding_capable :: "string list option"
  random_entropy :: "64 word option"

definition SelectionContext_default :: SelectionContext where
  "SelectionContext_default = \<lparr>latency = [], account_tier = None, port_forwarding_entitled = None,
     port_forwarding_capable = None, random_entropy = None\<rparr>"

section \<open>Stages and reports\<close>

datatype FilterStage =
    AccountTier
  | UnknownStatus
  | Offline
  | AllPhysicalsOffline
  | AbsentFromCatalog
  | ServerType
  | TargetGeography
  | PhysicalCountryExclusion
  | ExcludedCountry
  | ExcludedEntryCountry
  | ExcludedExitCountry
  | ExcludedState
  | ExcludedCity
  | ExcludedServer
  | RequiredFeatures
  | ProtocolCompatibility
  | LoadNotExposed
  | NoLatencyObservation

definition STAGES :: "(FilterStage \<times> string) list" where
  "STAGES =
    [(AccountTier, ''account-tier''),
     (UnknownStatus, ''unknown-status''),
     (Offline, ''offline''),
     (AllPhysicalsOffline, ''all-physicals-offline''),
     (AbsentFromCatalog, ''absent-from-catalog''),
     (ServerType, ''server-type''),
     (TargetGeography, ''target-geography''),
     (PhysicalCountryExclusion, ''physical-country-exclusion''),
     (ExcludedCountry, ''excluded-country''),
     (ExcludedEntryCountry, ''excluded-entry-country''),
     (ExcludedExitCountry, ''excluded-exit-country''),
     (ExcludedState, ''excluded-state''),
     (ExcludedCity, ''excluded-city''),
     (ExcludedServer, ''excluded-server''),
     (RequiredFeatures, ''required-features''),
     (ProtocolCompatibility, ''protocol-compatibility''),
     (LoadNotExposed, ''load-not-exposed''),
     (NoLatencyObservation, ''no-latency-observation'')]"

definition ordinal :: "FilterStage \<Rightarrow> ('e, usize) res" where
  "ordinal st = (case position (\<lambda>(s, _). s = st) STAGES of Some k \<Rightarrow> Ok k | None \<Rightarrow> Panic)"

definition label :: "FilterStage \<Rightarrow> ('e, string) res" where
  "label st = (case find (\<lambda>(s, _). s = st) STAGES of Some (_, l) \<Rightarrow> Ok l | None \<Rightarrow> Panic)"

record EliminationReport =
  considered :: usize
  survivors :: usize
  stages :: "(FilterStage \<times> usize) list"

fun add_tally :: "FilterStage \<Rightarrow> usize \<Rightarrow> (FilterStage \<times> usize) list \<Rightarrow> (FilterStage \<times> usize) list" where
  "add_tally st n [] = []"
| "add_tally st n ((slot, tally) # rest) =
     (if slot = st then (slot, tally + n) # rest else (slot, tally) # add_tally st n rest)"

record WeightedBreakdown =
  load_term :: f32
  latency_term :: f32
  stability_term :: f32
  feature_match_term :: f32
  history_term :: f32
  total :: f32

record ScoringSignals =
  proton_score :: "f32 option"
  sig_load :: "i8 option"
  sig_latency :: "Duration option"
  weighted :: "WeightedBreakdown option"

definition catalog_only :: "LogicalServer \<Rightarrow> ScoringSignals" where
  "catalog_only s = \<lparr>proton_score = score s, sig_load = load s, sig_latency = None, weighted = None\<rparr>"

record RankedCandidate =
  server :: LogicalServer
  signals :: ScoringSignals

record SelectionOutcome =
  ranked :: "RankedCandidate list"
  report :: EliminationReport

datatype weights_fault =
    WeightNotUsable string f32
  | UnknownWeightKey string
  | DuplicateWeightKey string
  | HandBuiltWeights
  | WeightedTotalOverflow

datatype SelectionError =
    UnsupportedRankingSignal string
  | InvalidRankingMode string
  | InvalidWeights weights_fault
  | InvalidCountry string
  | OfficialScoreUnavailable usize usize
  | PhysicalCountryRequired
  | LatencyDataUnavailable f32
  | RandomEntropyRequired
  | RequiresEntitlementComposition
  | ConstraintsNotSatisfied EliminationReport
  | ExactServerUnavailable string FilterStage
  | StandardFleetFeatureContradiction
  | SecureCoreEntryEqualsExit string
  | SecureCoreOnlyConstraints

definition charge :: "FilterStage \<Rightarrow> usize \<Rightarrow> EliminationReport \<Rightarrow> (SelectionError, EliminationReport) res" where
  "charge st n rep =
     (if n = 0 then Ok rep
      else if survivors rep < n then Panic
      else Ok (rep\<lparr>stages := add_tally st n (stages rep), survivors := survivors rep - n\<rparr>))"

section \<open>Input schemas\<close>

definition WeightedSignals_DEFAULT :: WeightedSignals where
  "WeightedSignals_DEFAULT = \<lparr>ws_load = f32_lit 40 100, ws_latency = f32_lit 40 100,
     ws_stability = f32_lit 15 100, ws_feature_match = f32_lit 5 100, ws_history = f32_lit 0 100\<rparr>"

definition DEFAULT_ZEROED :: WeightedSignals where
  "DEFAULT_ZEROED = \<lparr>ws_load = f32_zero, ws_latency = f32_zero, ws_stability = f32_zero,
     ws_feature_match = f32_zero, ws_history = f32_zero\<rparr>"

definition ranking_policy_parse :: "string \<Rightarrow> (SelectionError, RankingPolicy) res" where
  "ranking_policy_parse m =
     (if m = ''official'' then Ok Official
      else if m = ''balanced'' then Ok (Balanced WeightedSignals_DEFAULT)
      else if m = ''load'' then Ok LowestLoad
      else if m = ''latency'' then Ok Latency
      else if m \<in> set FORBIDDEN_RANKING_SIGNALS then Err (UnsupportedRankingSignal m)
      else Err (InvalidRankingMode m))"

definition set_weight :: "string \<Rightarrow> f32 \<Rightarrow> WeightedSignals \<Rightarrow> WeightedSignals option" where
  "set_weight key v w =
     (if key = ''load'' then Some (w\<lparr>ws_load := v\<rparr>)
      else if key = ''latency'' then Some (w\<lparr>ws_latency := v\<rparr>)
      else if key = ''stability'' then Some (w\<lparr>ws_stability := v\<rparr>)
      else if key = ''feature_match'' then Some (w\<lparr>ws_feature_match := v\<rparr>)
      else if key = ''history'' then Some (w\<lparr>ws_history := v\<rparr>)
      else None)"

definition weight_usable :: "f32 \<Rightarrow> bool" where
  "weight_usable v = (f32_is_finite v \<and> f32_ge v f32_zero)"

fun from_pairs_loop ::
  "(string \<times> f32) list \<Rightarrow> string list \<Rightarrow> WeightedSignals \<Rightarrow> (SelectionError, WeightedSignals) res" where
  "from_pairs_loop [] seen out = Ok out"
| "from_pairs_loop ((key, v) # rest) seen out =
     (if key \<in> set FORBIDDEN_RANKING_SIGNALS then Err (UnsupportedRankingSignal key)
      else if \<not> weight_usable v then Err (InvalidWeights (WeightNotUsable key v))
      else case set_weight key v out of
          None \<Rightarrow> Err (InvalidWeights (UnknownWeightKey key))
        | Some out' \<Rightarrow>
            if key \<in> set seen then Err (InvalidWeights (DuplicateWeightKey key))
            else from_pairs_loop rest (seen @ [key]) out')"

definition from_pairs :: "(string \<times> f32) list \<Rightarrow> (SelectionError, WeightedSignals) res" where
  "from_pairs pairs = from_pairs_loop pairs [] DEFAULT_ZEROED"

definition weights_is_valid :: "WeightedSignals \<Rightarrow> bool" where
  "weights_is_valid w =
     list_all weight_usable [ws_load w, ws_latency w, ws_stability w, ws_feature_match w, ws_history w]"

section \<open>Stage order\<close>

lemma ordinal_total: "\<exists>k < length STAGES. (ordinal st :: ('e, usize) res) = Ok k \<and> fst (STAGES ! k) = st"
  by (cases st) (simp_all add: ordinal_def STAGES_def)

lemma ordinal_Ok_iff:
  "(ordinal st :: ('e, usize) res) = Ok k \<longleftrightarrow> k < length STAGES \<and> fst (STAGES ! k) = st"
proof -
  obtain k' where k': "k' < length STAGES" "(ordinal st :: ('e, usize) res) = Ok k'" "fst (STAGES ! k') = st"
    using ordinal_total by blast
  have "distinct (map fst STAGES)" by (simp add: STAGES_def)
  then have "k = k'" if "k < length STAGES" "fst (STAGES ! k) = st"
    using that k' by (metis distinct_map distinct_conv_nth length_map nth_map)
  with k' show ?thesis by auto
qed

section \<open>What the weight schema accepts\<close>

lemma set_weight_known:
  "set_weight key v w = Some w' \<Longrightarrow>
   key \<in> {''load'', ''latency'', ''stability'', ''feature_match'', ''history''}"
  by (auto simp: set_weight_def split: if_splits)

lemma set_weight_valid:
  "set_weight key v w = Some w' \<Longrightarrow> weight_usable v \<Longrightarrow> weights_is_valid w \<Longrightarrow> weights_is_valid w'"
  by (auto simp: set_weight_def weights_is_valid_def split: if_splits)

lemma DEFAULT_ZEROED_valid: "weights_is_valid DEFAULT_ZEROED"
  by (simp add: weights_is_valid_def DEFAULT_ZEROED_def weight_usable_def f32_is_finite_def
      f32_ge_def f32_zero_def f32_inf_mag_def f32_is_nan_def)

lemma from_pairs_loop_Ok:
  assumes "from_pairs_loop pairs seen out = Ok w" and "weights_is_valid out"
  shows "weights_is_valid w \<and> distinct (map fst pairs) \<and> set (map fst pairs) \<inter> set seen = {} \<and>
    (\<forall>(key, v) \<in> set pairs. key \<notin> set FORBIDDEN_RANKING_SIGNALS \<and> weight_usable v)"
  using assms
proof (induction pairs seen out rule: from_pairs_loop.induct)
  case (2 key v rest seen out)
  from "2.prems"(1) obtain out' where out': "set_weight key v out = Some out'"
    and ok: "key \<notin> set FORBIDDEN_RANKING_SIGNALS" "weight_usable v" "key \<notin> set seen"
    and rec: "from_pairs_loop rest (seen @ [key]) out' = Ok w"
    by (auto split: if_splits option.splits)
  have "weights_is_valid out'" using set_weight_valid [OF out'] ok "2.prems"(2) by blast
  with "2.IH" [OF _ _ out'] ok rec show ?case by auto
qed simp

lemma from_pairs_valid: "from_pairs pairs = Ok w \<Longrightarrow> weights_is_valid w"
  unfolding from_pairs_def using from_pairs_loop_Ok [OF _ DEFAULT_ZEROED_valid] by blast

lemma from_pairs_not_Panic: "from_pairs_loop pairs seen out \<noteq> Panic"
  by (induction pairs seen out rule: from_pairs_loop.induct) (auto split: option.splits)

text \<open>
  The weight schema accepts only weights that can rank: every accepted set is finite and
  not negative (so no comparison downstream meets a NaN), its keys are pairwise distinct
  known names, and no accepted pair, nor any accepted ranking mode, is a throughput signal.
\<close>

theorem weight_schema_sound:
  assumes "from_pairs pairs = Ok w"
  shows "weights_is_valid w \<and> distinct (map fst pairs) \<and>
    set (map fst pairs) \<inter> set FORBIDDEN_RANKING_SIGNALS = {} \<and>
    (\<forall>m. m \<in> set FORBIDDEN_RANKING_SIGNALS \<longrightarrow>
      ranking_policy_parse m = Err (UnsupportedRankingSignal m))"
  using assms from_pairs_loop_Ok [OF _ DEFAULT_ZEROED_valid, of pairs "[]" w]
  by (auto simp: from_pairs_def ranking_policy_parse_def FORBIDDEN_RANKING_SIGNALS_def)

theorem weight_schema_sound_witness:
  "from_pairs [(''load'', F32 False 1056964608), (''latency'', F32 False 0)] =
     Ok (DEFAULT_ZEROED\<lparr>ws_load := F32 False 1056964608\<rparr>) \<and>
   weights_is_valid (DEFAULT_ZEROED\<lparr>ws_load := F32 False 1056964608\<rparr>)"
proof -
  have h: "from_pairs [(''load'', F32 False 1056964608), (''latency'', F32 False 0)] =
     Ok (DEFAULT_ZEROED\<lparr>ws_load := F32 False 1056964608\<rparr>)"
    by (simp add: from_pairs_def DEFAULT_ZEROED_def FORBIDDEN_RANKING_SIGNALS_def weight_usable_def
        f32_is_finite_def f32_inf_mag_def f32_ge_def f32_is_nan_def f32_value_key_def f32_zero_def
        set_weight_def)
  then show ?thesis using weight_schema_sound [OF h] by blast
qed

end
