(* ===== verification/Selection_Filter.thy ===== *)
theory Selection_Filter
  imports Selection_Types
begin

text \<open>
  The hard-filter pipeline of \<open>crates/core/src/selection.rs\<close>: request validation, the eight
  stages in the order \<open>eliminating_stage\<close> chains them, the loop of \<open>filter_candidates\<close> with
  its per-stage counters, and the exact-target diagnosis. A stage's \<open>unreachable!\<close> arm is
  the outcome \<open>Panic\<close>. The declarative counterpart is \<open>eligible\<close>; the pipeline refines it
  (\<open>eliminating_stage_refines\<close>), never panics on a validated catalog, and its report accounts
  for every server.
\<close>

section \<open>Targets and request validation\<close>

definition is_exact :: "Target \<Rightarrow> bool" where
  "is_exact t = (case t of Server _ \<Rightarrow> True | Gateway _ \<Rightarrow> True | _ \<Rightarrow> False)"

definition exact_name :: "Target \<Rightarrow> string option" where
  "exact_name t = (case t of Server n \<Rightarrow> Some n | Gateway n \<Rightarrow> Some n | _ \<Rightarrow> None)"

definition matches_exact :: "Target \<Rightarrow> LogicalServer \<Rightarrow> bool" where
  "matches_exact t s =
     (case t of
        Server n \<Rightarrow> ls_name s = n
      | Gateway n \<Rightarrow> gateway_name s = Some n
      | _ \<Rightarrow> False)"

definition is_secure_core_target :: "Target \<Rightarrow> bool" where
  "is_secure_core_target t = (case t of SecureCore _ _ \<Rightarrow> True | _ \<Rightarrow> False)"

definition is_ascii_uppercase :: "char \<Rightarrow> bool" where
  "is_ascii_uppercase c = (CHR ''A'' \<le> c \<and> c \<le> CHR ''Z'')"

definition validate_country :: "string \<Rightarrow> (SelectionError, unit) res" where
  "validate_country cc =
     (if length cc = 2 \<and> list_all is_ascii_uppercase cc then Ok () else Err (InvalidCountry cc))"

definition validate_opt_country :: "string option \<Rightarrow> (SelectionError, unit) res" where
  "validate_opt_country c = (case c of Some cc \<Rightarrow> validate_country cc | None \<Rightarrow> Ok ())"

definition validate_target_countries :: "Target \<Rightarrow> (SelectionError, unit) res" where
  "validate_target_countries t =
     (case t of
        Country cc \<Rightarrow> validate_country cc
      | Countries ccs \<Rightarrow> for_each validate_country ccs
      | SecureCore entry exit \<Rightarrow>
          and_then (validate_opt_country entry) (\<lambda>_.
          and_then (validate_opt_country exit) (\<lambda>_.
          case (entry, exit) of
            (Some e, Some x) \<Rightarrow> if e = x then Err (SecureCoreEntryEqualsExit e) else Ok ()
          | _ \<Rightarrow> Ok ()))
      | _ \<Rightarrow> Ok ())"

definition validate_request_countries :: "SelectionRequest \<Rightarrow> (SelectionError, unit) res" where
  "validate_request_countries req =
     and_then (validate_target_countries (target req)) (\<lambda>_.
     and_then (for_each validate_country (excluded_countries (constraints req))) (\<lambda>_.
     and_then (for_each validate_country (excluded_entry_countries (constraints req))) (\<lambda>_.
     and_then (for_each validate_country (excluded_exit_countries (constraints req))) (\<lambda>_.
     validate_opt_country (physical_country (constraints req))))))"

definition to_ascii_lowercase :: "char \<Rightarrow> char" where
  "to_ascii_lowercase c =
     (if is_ascii_uppercase c then char_of ((of_char c :: nat) + 32) else c)"

definition eq_ignore_ascii_case :: "string \<Rightarrow> string \<Rightarrow> bool" where
  "eq_ignore_ascii_case a b = (map to_ascii_lowercase a = map to_ascii_lowercase b)"

definition eq_fold :: "string option \<Rightarrow> string \<Rightarrow> bool" where
  "eq_fold v wanted = (case v of Some a \<Rightarrow> eq_ignore_ascii_case a wanted | None \<Rightarrow> False)"

section \<open>The stages\<close>

type_synonym stage_verdict = "(SelectionError, FilterStage option) res"

definition is_standard_fleet :: "LogicalServer \<Rightarrow> bool" where
  "is_standard_fleet s =
     (\<not> is_gateway s \<and> \<not> is_secure_core_route s \<and> \<not> secure_core (features s))"

definition is_secure_core_fleet :: "LogicalServer \<Rightarrow> bool" where
  "is_secure_core_fleet s =
     (\<not> is_gateway s \<and> (is_secure_core_route s \<or> secure_core (features s)))"

definition account_tier_stage :: "LogicalServer \<Rightarrow> SelectionContext \<Rightarrow> FilterStage option" where
  "account_tier_stage s ctx =
     (case account_tier ctx of
        Some t \<Rightarrow> if t < tier s then Some AccountTier else None
      | None \<Rightarrow> None)"

definition online_stage :: "LogicalServer \<Rightarrow> stage_verdict" where
  "online_stage s =
     (case status s of
        None \<Rightarrow> Ok (Some UnknownStatus)
      | Some st \<Rightarrow>
          if st = 0 then Ok (Some Offline)
          else if st = 1 then
            (if list_ex ps_is_online (servers s) then Ok None else Ok (Some AllPhysicalsOffline))
          else Panic)"

definition standard_stage :: "LogicalServer \<Rightarrow> Target \<Rightarrow> stage_verdict" where
  "standard_stage s t =
     (if \<not> is_standard_fleet s then Ok (Some ServerType)
      else and_then
        (case t of
           Fastest \<Rightarrow> Ok False
         | Country cc \<Rightarrow> Ok (exit_country s \<noteq> cc)
         | Countries ccs \<Rightarrow> Ok (exit_country s \<notin> set ccs)
         | State n \<Rightarrow> Ok (\<not> eq_fold (state s) n)
         | City n \<Rightarrow> Ok (\<not> eq_fold (city s) n)
         | Server _ \<Rightarrow> Panic
         | Gateway _ \<Rightarrow> Panic
         | SecureCore _ _ \<Rightarrow> Panic)
        (\<lambda>miss. Ok (if miss then Some TargetGeography else None)))"

definition secure_core_stage :: "LogicalServer \<Rightarrow> Target \<Rightarrow> stage_verdict" where
  "secure_core_stage s t =
     (if \<not> is_secure_core_fleet s then Ok (Some ServerType)
      else case t of
          SecureCore entry exit \<Rightarrow>
            (let exit_miss = (case exit of Some wanted \<Rightarrow> exit_country s \<noteq> wanted | None \<Rightarrow> False);
                 entry_miss = (case entry of Some wanted \<Rightarrow> entry_country s \<noteq> wanted | None \<Rightarrow> False);
                 not_a_route = (\<not> is_secure_core_route s)
             in Ok (if exit_miss \<or> entry_miss \<or> not_a_route then Some TargetGeography else None))
        | _ \<Rightarrow> Panic)"

definition target_stage :: "LogicalServer \<Rightarrow> Target \<Rightarrow> stage_verdict" where
  "target_stage s t =
     (if is_exact t then Ok (if matches_exact t s then None else Some TargetGeography)
      else if is_secure_core_target t then secure_core_stage s t
      else standard_stage s t)"

definition physical_country_stage :: "LogicalServer \<Rightarrow> Constraints \<Rightarrow> FilterStage option" where
  "physical_country_stage s c =
     (if exclude_physical_country c
      then (case physical_country c of
          Some cc \<Rightarrow> if cc = exit_country s then Some PhysicalCountryExclusion else None
        | None \<Rightarrow> None)
      else None)"

definition exclusion_stage :: "LogicalServer \<Rightarrow> Constraints \<Rightarrow> FilterStage option" where
  "exclusion_stage s c =
     (if exit_country s \<in> set (excluded_countries c) then Some ExcludedCountry
      else if list_ex (eq_fold (state s)) (excluded_states c) then Some ExcludedState
      else if list_ex (eq_fold (city s)) (excluded_cities c) then Some ExcludedCity
      else if ls_name s \<in> set (excluded_servers c) then Some ExcludedServer
      else None)"

definition secure_core_exclusion_stage :: "LogicalServer \<Rightarrow> Constraints \<Rightarrow> FilterStage option" where
  "secure_core_exclusion_stage s c =
     (if entry_country s \<in> set (excluded_entry_countries c) then Some ExcludedEntryCountry
      else if exit_country s \<in> set (excluded_exit_countries c) then Some ExcludedExitCountry
      else None)"

definition catalog_feature_holds :: "LogicalServer \<Rightarrow> FeatureConstraint \<Rightarrow> bool" where
  "catalog_feature_holds s f =
     (case f of
        P2p \<Rightarrow> p2p (features s)
      | Tor \<Rightarrow> tor (features s)
      | SecureCoreBit \<Rightarrow> secure_core (features s)
      | Streaming \<Rightarrow> streaming (features s)
      | Ipv6 \<Rightarrow> ipv6 (features s)
      | PortForwarding \<Rightarrow> False)"

definition pf_holds_for :: "LogicalServer \<Rightarrow> SelectionContext \<Rightarrow> bool" where
  "pf_holds_for s ctx =
     ((case port_forwarding_entitled ctx of Some b \<Rightarrow> b | None \<Rightarrow> False) \<and>
      (case port_forwarding_capable ctx of Some ids \<Rightarrow> ls_id s \<in> set ids | None \<Rightarrow> False))"

definition feature_holds :: "LogicalServer \<Rightarrow> FeatureConstraint \<Rightarrow> SelectionContext \<Rightarrow> bool" where
  "feature_holds s f ctx =
     (case f of PortForwarding \<Rightarrow> pf_holds_for s ctx | other \<Rightarrow> catalog_feature_holds s other)"

definition required_features_stage ::
  "LogicalServer \<Rightarrow> Constraints \<Rightarrow> SelectionContext \<Rightarrow> FilterStage option" where
  "required_features_stage s c ctx =
     (if list_ex (\<lambda>f. \<not> feature_holds s f ctx) (required_features c)
      then Some RequiredFeatures else None)"

definition protocol_holds :: "LogicalServer \<Rightarrow> ProtocolConstraint \<Rightarrow> bool" where
  "protocol_holds s required =
     list_ex (\<lambda>p. case entry_per_protocol p of
         None \<Rightarrow> False
       | Some m \<Rightarrow>
           (case required of
              WireguardUdp \<Rightarrow> wireguard_udp m \<noteq> None
            | WireguardTcp \<Rightarrow> wireguard_tcp m \<noteq> None
            | Stealth \<Rightarrow> wireguard_tls m \<noteq> None))
       (filter ps_is_online (servers s))"

definition protocol_stage :: "LogicalServer \<Rightarrow> Constraints \<Rightarrow> FilterStage option" where
  "protocol_stage s c =
     (case required_protocol c of
        Some required \<Rightarrow> if \<not> protocol_holds s required then Some ProtocolCompatibility else None
      | None \<Rightarrow> None)"

text \<open>\<open>Option::or_else\<close> on a verdict: the next stage runs only when this one lets through.\<close>

definition stage_or :: "stage_verdict \<Rightarrow> stage_verdict \<Rightarrow> stage_verdict" where
  "stage_or a b = (case a of Ok None \<Rightarrow> b | _ \<Rightarrow> a)"

definition eliminating_stage ::
  "LogicalServer \<Rightarrow> SelectionRequest \<Rightarrow> SelectionContext \<Rightarrow> stage_verdict" where
  "eliminating_stage s req ctx =
     stage_or (Ok (account_tier_stage s ctx))
    (stage_or (online_stage s)
    (stage_or (target_stage s (target req))
    (stage_or (Ok (physical_country_stage s (constraints req)))
    (stage_or (Ok (exclusion_stage s (constraints req)))
    (stage_or (Ok (secure_core_exclusion_stage s (constraints req)))
    (stage_or (Ok (required_features_stage s (constraints req) ctx))
              (Ok (protocol_stage s (constraints req)))))))))"

section \<open>The pipeline\<close>

definition needs_port_forwarding_composition :: "SelectionRequest \<Rightarrow> bool" where
  "needs_port_forwarding_composition req =
     list_ex (\<lambda>f. f = PortForwarding)
       (required_features (constraints req) @ optional_features (constraints req))"

fun filter_loop ::
  "SelectionRequest \<Rightarrow> SelectionContext \<Rightarrow> LogicalServer list \<Rightarrow> usize list \<Rightarrow> LogicalServer list \<Rightarrow>
   (SelectionError, usize list \<times> LogicalServer list) res" where
  "filter_loop req ctx [] counts surv = Ok (counts, surv)"
| "filter_loop req ctx (s # ss) counts surv =
     and_then (eliminating_stage s req ctx) (\<lambda>v.
       case v of
         Some st \<Rightarrow> and_then (ordinal st) (\<lambda>k.
           filter_loop req ctx ss (counts[k := counts ! k + 1]) surv)
       | None \<Rightarrow> filter_loop req ctx ss counts (surv @ [s]))"

definition check_request :: "SelectionRequest \<Rightarrow> SelectionContext \<Rightarrow> (SelectionError, unit) res" where
  "check_request req ctx =
     and_then (validate_request_countries req) (\<lambda>_.
     if \<not> is_secure_core_target (target req) \<and>
        (excluded_entry_countries (constraints req) \<noteq> [] \<or>
         excluded_exit_countries (constraints req) \<noteq> [])
     then Err SecureCoreOnlyConstraints
     else if \<not> is_exact (target req) \<and> \<not> is_secure_core_target (target req) \<and>
        SecureCoreBit \<in> set (required_features (constraints req))
     then Err StandardFleetFeatureContradiction
     else if exclude_physical_country (constraints req) \<and> physical_country (constraints req) = None
     then Err PhysicalCountryRequired
     else if needs_port_forwarding_composition req \<and>
        (port_forwarding_entitled ctx = None \<or>
         port_forwarding_entitled ctx = Some True \<and> port_forwarding_capable ctx = None)
     then Err RequiresEntitlementComposition
     else Ok ())"

definition exact_refusal ::
  "LogicalServer list \<Rightarrow> SelectionRequest \<Rightarrow> SelectionContext \<Rightarrow> (SelectionError, 'a) res" where
  "exact_refusal ss req ctx =
     (let name = (case exact_name (target req) of Some n \<Rightarrow> n | None \<Rightarrow> [])
      in case find (matches_exact (target req)) ss of
          None \<Rightarrow> Err (ExactServerUnavailable name AbsentFromCatalog)
        | Some m \<Rightarrow> and_then (eliminating_stage m req ctx) (\<lambda>v.
            Err (ExactServerUnavailable name (case v of Some st \<Rightarrow> st | None \<Rightarrow> AbsentFromCatalog))))"

definition filter_candidates ::
  "CatalogDocument \<Rightarrow> SelectionRequest \<Rightarrow> SelectionContext \<Rightarrow>
   (SelectionError, LogicalServer list \<times> EliminationReport) res" where
  "filter_candidates catalog req ctx =
     and_then (check_request req ctx) (\<lambda>_.
     and_then (filter_loop req ctx (logical_servers catalog) (replicate (length STAGES) 0) [])
       (\<lambda>(counts, surv).
         if is_exact (target req) \<and> surv = []
         then exact_refusal (logical_servers catalog) req ctx
         else Ok (surv,
           \<lparr>considered = length (logical_servers catalog), survivors = length surv,
             stages = zip (map fst STAGES) counts\<rparr>)))"


section \<open>The declarative eligibility\<close>

text \<open>
  What FR-23P asks of a candidate, stated once per requirement and without an order: the
  specification the staged pipeline refines.
\<close>

definition in_scope :: "Target \<Rightarrow> LogicalServer \<Rightarrow> bool" where
  "in_scope t s \<longleftrightarrow>
     (case t of
        Server n \<Rightarrow> ls_name s = n
      | Gateway n \<Rightarrow> gateway_name s = Some n
      | SecureCore entry exit \<Rightarrow>
          gateway_name s = None \<and> entry_country s \<noteq> exit_country s \<and>
          entry \<in> {None, Some (entry_country s)} \<and> exit \<in> {None, Some (exit_country s)}
      | _ \<Rightarrow> gateway_name s = None \<and> entry_country s = exit_country s \<and>
          \<not> secure_core (features s) \<and>
          (case t of
             Country cc \<Rightarrow> exit_country s = cc
           | Countries ccs \<Rightarrow> exit_country s \<in> set ccs
           | State n \<Rightarrow> (\<exists>x. state s = Some x \<and> eq_ignore_ascii_case x n)
           | City n \<Rightarrow> (\<exists>x. city s = Some x \<and> eq_ignore_ascii_case x n)
           | _ \<Rightarrow> True))"

definition connectable :: "LogicalServer \<Rightarrow> bool" where
  "connectable s \<longleftrightarrow> status s = Some 1 \<and> (\<exists>p \<in> set (servers s). ps_status p = 1)"

definition not_excluded :: "LogicalServer \<Rightarrow> Constraints \<Rightarrow> bool" where
  "not_excluded s c \<longleftrightarrow>
     (exclude_physical_country c \<longrightarrow> physical_country c \<noteq> Some (exit_country s)) \<and>
     exit_country s \<notin> set (excluded_countries c) \<union> set (excluded_exit_countries c) \<and>
     entry_country s \<notin> set (excluded_entry_countries c) \<and>
     ls_name s \<notin> set (excluded_servers c) \<and>
     (\<forall>x. state s = Some x \<longrightarrow> (\<forall>n \<in> set (excluded_states c). \<not> eq_ignore_ascii_case x n)) \<and>
     (\<forall>x. city s = Some x \<longrightarrow> (\<forall>n \<in> set (excluded_cities c). \<not> eq_ignore_ascii_case x n))"

definition eligible :: "LogicalServer \<Rightarrow> SelectionRequest \<Rightarrow> SelectionContext \<Rightarrow> bool" where
  "eligible s req ctx \<longleftrightarrow>
     (\<forall>t. account_tier ctx = Some t \<longrightarrow> tier s \<le> t) \<and> connectable s \<and>
     in_scope (target req) s \<and> not_excluded s (constraints req) \<and>
     (\<forall>f \<in> set (required_features (constraints req)). feature_holds s f ctx) \<and>
     (\<forall>r. required_protocol (constraints req) = Some r \<longrightarrow> protocol_holds s r)"

section \<open>The pipeline refines it\<close>

named_theorems stage_passes "when a stage lets a candidate through"

lemma stage_or_Ok_None [stage_passes]: "stage_or a b = Ok None \<longleftrightarrow> a = Ok None \<and> b = Ok None"
  by (auto simp: stage_or_def split: res.splits option.splits)

lemma stage_or_Panic: "stage_or a b = Panic \<longleftrightarrow> a = Panic \<or> a = Ok None \<and> b = Panic"
  by (auto simp: stage_or_def split: res.splits option.splits)

lemma stage_or_Err: "stage_or a b = Err e \<longleftrightarrow> a = Err e \<or> a = Ok None \<and> b = Err e"
  by (auto simp: stage_or_def split: res.splits option.splits)

lemma account_tier_passes [stage_passes]:
  "account_tier_stage s ctx = None \<longleftrightarrow> (\<forall>t. account_tier ctx = Some t \<longrightarrow> tier s \<le> t)"
  by (auto simp: account_tier_stage_def split: option.splits)

lemma online_passes [stage_passes]: "online_stage s = Ok None \<longleftrightarrow> connectable s"
  by (auto simp: online_stage_def connectable_def ps_is_online_def list_ex_iff split: option.splits)

lemma standard_passes:
  assumes "\<not> is_exact t" and "\<not> is_secure_core_target t"
  shows "standard_stage s t = Ok None \<longleftrightarrow> in_scope t s"
  using assms
  by (cases t) (auto simp: standard_stage_def in_scope_def is_standard_fleet_def is_gateway_def
      is_secure_core_route_def is_exact_def is_secure_core_target_def eq_fold_def split: option.splits)

lemma secure_core_passes:
  assumes "is_secure_core_target t"
  shows "secure_core_stage s t = Ok None \<longleftrightarrow> in_scope t s"
  using assms
  by (cases t) (auto simp: secure_core_stage_def in_scope_def is_secure_core_fleet_def is_gateway_def
      is_secure_core_route_def is_secure_core_target_def Let_def split: option.splits)

lemma exact_passes: "is_exact t \<Longrightarrow> matches_exact t s \<longleftrightarrow> in_scope t s"
  by (cases t) (auto simp: is_exact_def matches_exact_def in_scope_def)

lemma target_passes [stage_passes]: "target_stage s t = Ok None \<longleftrightarrow> in_scope t s"
  by (auto simp: target_stage_def standard_passes secure_core_passes exact_passes)

lemma exclusions_pass:
  "physical_country_stage s c = None \<and> exclusion_stage s c = None \<and>
   secure_core_exclusion_stage s c = None \<longleftrightarrow> not_excluded s c"
  by (cases "state s"; cases "city s")
    (auto simp: physical_country_stage_def exclusion_stage_def secure_core_exclusion_stage_def
      not_excluded_def eq_fold_def list_ex_iff split: option.splits if_splits)

lemma required_features_pass [stage_passes]:
  "required_features_stage s c ctx = None \<longleftrightarrow> (\<forall>f \<in> set (required_features c). feature_holds s f ctx)"
  by (auto simp: required_features_stage_def list_ex_iff)

lemma protocol_passes [stage_passes]:
  "protocol_stage s c = None \<longleftrightarrow> (\<forall>r. required_protocol c = Some r \<longrightarrow> protocol_holds s r)"
  by (auto simp: protocol_stage_def split: option.splits)

lemma eliminating_stage_refines: "eliminating_stage s req ctx = Ok None \<longleftrightarrow> eligible s req ctx"
  unfolding eliminating_stage_def eligible_def
  using exclusions_pass [of s "constraints req"] by (auto simp: stage_passes)

lemma online_not_Panic: "server_ok s \<Longrightarrow> online_stage s \<noteq> Panic"
  by (auto simp: online_stage_def server_ok_def split: option.splits)

lemma target_not_Panic: "target_stage s t \<noteq> Panic"
  by (cases t) (auto simp: target_stage_def standard_stage_def secure_core_stage_def is_exact_def
      is_secure_core_target_def Let_def)

lemma eliminating_stage_not_Panic: "server_ok s \<Longrightarrow> eliminating_stage s req ctx \<noteq> Panic"
  by (simp add: eliminating_stage_def stage_or_Panic online_not_Panic target_not_Panic)

lemma online_not_Err: "online_stage s \<noteq> Err e"
  by (auto simp: online_stage_def split: option.splits)

lemma target_not_Err: "target_stage s t \<noteq> Err e"
  by (cases t) (auto simp: target_stage_def standard_stage_def secure_core_stage_def is_exact_def
      is_secure_core_target_def Let_def res_simps)

lemma eliminating_stage_not_Err: "eliminating_stage s req ctx \<noteq> Err e"
  by (simp add: eliminating_stage_def stage_or_Err online_not_Err target_not_Err)

lemma eliminating_stage_cases:
  assumes "server_ok s"
  obtains "eligible s req ctx" "eliminating_stage s req ctx = Ok None"
  | st where "\<not> eligible s req ctx" "eliminating_stage s req ctx = Ok (Some st)"
proof (cases "eliminating_stage s req ctx")
  case (Ok v)
  then show thesis using that eliminating_stage_refines [of s req ctx] by (cases v) auto
next
  case (Err e)
  then show thesis by (simp add: eliminating_stage_not_Err)
next
  case Panic
  with assms show thesis by (simp add: eliminating_stage_not_Panic)
qed

section \<open>The loop and its report\<close>

definition eliminated_at ::
  "SelectionRequest \<Rightarrow> SelectionContext \<Rightarrow> FilterStage \<Rightarrow> LogicalServer list \<Rightarrow> nat" where
  "eliminated_at req ctx st ss =
     length (filter (\<lambda>s. eliminating_stage s req ctx = Ok (Some st)) ss)"

definition report_balanced :: "EliminationReport \<Rightarrow> bool" where
  "report_balanced rep \<longleftrightarrow>
     map fst (stages rep) = map fst STAGES \<and>
     considered rep = survivors rep + sum_list (map snd (stages rep))"

lemma sum_list_incr:
  "k < length xs \<Longrightarrow> sum_list (xs[k := xs ! k + 1]) = sum_list xs + (1 :: nat)"
  by (induction xs arbitrary: k) (auto split: nat.splits)

lemma filter_loop_total:
  assumes "list_all server_ok ss" and "length counts = length STAGES"
  shows "\<exists>counts'. filter_loop req ctx ss counts surv =
      Ok (counts', surv @ filter (\<lambda>s. eligible s req ctx) ss) \<and>
    length counts' = length STAGES \<and>
    sum_list counts' + length (filter (\<lambda>s. eligible s req ctx) ss) = sum_list counts + length ss \<and>
    (\<forall>k < length STAGES. counts' ! k = counts ! k + eliminated_at req ctx (fst (STAGES ! k)) ss)"
  using assms
proof (induction ss arbitrary: counts surv)
  case Nil
  then show ?case by (simp add: eliminated_at_def)
next
  case (Cons s ss)
  from Cons.prems(1) have "server_ok s" by simp
  then show ?case
  proof (cases rule: eliminating_stage_cases [where req = req and ctx = ctx])
    case 1
    then show ?thesis
      using Cons.IH [of counts "surv @ [s]"] Cons.prems by (auto simp: eliminated_at_def)
  next
    case (2 st)
    obtain k where k: "k < length STAGES" "fst (STAGES ! k) = st"
      "(ordinal st :: (SelectionError, usize) res) = Ok k"
      using ordinal_total [of st] by blast
    have other: "fst (STAGES ! j) = st \<longleftrightarrow> j = k" if "j < length STAGES" for j
    proof -
      have "(ordinal st :: (SelectionError, usize) res) = Ok j \<longleftrightarrow>
          j < length STAGES \<and> fst (STAGES ! j) = st" by (rule ordinal_Ok_iff)
      with k(3) that show ?thesis by auto
    qed
    let ?c = "counts[k := counts ! k + 1]"
    from Cons.IH [of ?c surv] Cons.prems obtain counts' where
      c: "filter_loop req ctx ss ?c surv = Ok (counts', surv @ filter (\<lambda>s. eligible s req ctx) ss)"
        "length counts' = length STAGES"
        "sum_list counts' + length (filter (\<lambda>s. eligible s req ctx) ss) = sum_list ?c + length ss"
        "\<forall>j < length STAGES. counts' ! j = ?c ! j + eliminated_at req ctx (fst (STAGES ! j)) ss"
      by auto
    have "counts' ! j = counts ! j + eliminated_at req ctx (fst (STAGES ! j)) (s # ss)"
      if "j < length STAGES" for j
      using c(4) that Cons.prems(2) k(1) 2(2) other [OF that]
      by (cases "j = k") (auto simp: eliminated_at_def)
    moreover have "sum_list ?c = sum_list counts + 1"
      using sum_list_incr k(1) Cons.prems(2) by simp
    ultimately show ?thesis using 2 c k by auto
  qed
qed

lemma filter_loop_eq:
  assumes "list_all server_ok ss"
  shows "\<exists>counts. filter_loop req ctx ss (replicate (length STAGES) 0) [] =
      Ok (counts, filter (\<lambda>s. eligible s req ctx) ss) \<and>
    sum_list counts + length (filter (\<lambda>s. eligible s req ctx) ss) = length ss \<and>
    counts = map (\<lambda>(st, _). eliminated_at req ctx st ss) STAGES"
proof -
  obtain counts where c: "filter_loop req ctx ss (replicate (length STAGES) 0) [] =
      Ok (counts, filter (\<lambda>s. eligible s req ctx) ss)" "length counts = length STAGES"
    "sum_list counts + length (filter (\<lambda>s. eligible s req ctx) ss) = length ss"
    "\<forall>k < length STAGES. counts ! k = eliminated_at req ctx (fst (STAGES ! k)) ss"
    using filter_loop_total [OF assms, of "replicate (length STAGES) 0" req ctx "[]"]
    by (auto simp: sum_list_replicate)
  have "counts = map (\<lambda>(st, _). eliminated_at req ctx st ss) STAGES"
    by (rule nth_equalityI) (simp_all add: c split_beta)
  with c show ?thesis by blast
qed

definition filter_report :: "LogicalServer list \<Rightarrow> SelectionRequest \<Rightarrow> SelectionContext \<Rightarrow> EliminationReport" where
  "filter_report ss req ctx =
     \<lparr>considered = length ss, survivors = length (filter (\<lambda>s. eligible s req ctx) ss),
      stages = map (\<lambda>(st, _). (st, eliminated_at req ctx st ss)) STAGES\<rparr>"

lemma filter_report_balanced:
  assumes "list_all server_ok ss"
  shows "report_balanced (filter_report ss req ctx)"
  using filter_loop_eq [OF assms, of req ctx]
  by (auto simp: report_balanced_def filter_report_def comp_def split_beta')

lemma zip_map_STAGES: "zip (map fst STAGES) (map (\<lambda>(st, _). g st) STAGES) = map (\<lambda>(st, _). (st, g st)) STAGES"
  by (simp add: zip_map_map zip_same_conv_map split_beta)

text \<open>On a validated catalog the loop disappears: the pipeline is the checks and one filter.\<close>

lemma filter_candidates_eq:
  assumes "catalog_ok catalog"
  shows "filter_candidates catalog req ctx =
    (let ss = logical_servers catalog; surv = filter (\<lambda>s. eligible s req ctx) ss
     in and_then (check_request req ctx) (\<lambda>_.
        if is_exact (target req) \<and> surv = [] then exact_refusal ss req ctx
        else Ok (surv, filter_report ss req ctx)))"
proof -
  have "list_all server_ok (logical_servers catalog)" using assms by (simp add: catalog_ok_def)
  from filter_loop_eq [OF this, of req ctx] show ?thesis
    by (auto simp: filter_candidates_def filter_report_def Let_def zip_map_STAGES)
qed

lemma check_request_not_Panic [simp]: "check_request req ctx \<noteq> Panic"
proof -
  have v: "validate_country cc \<noteq> Panic" for cc by (simp add: validate_country_def)
  then have "validate_opt_country c \<noteq> Panic" for c
    by (simp add: validate_opt_country_def split: option.splits)
  with v show ?thesis
    by (auto simp: check_request_def validate_request_countries_def validate_target_countries_def
        res_simps for_each_not_Panic split: Target.splits option.splits)
qed

text \<open>
  The diagnosis of an exact target that found no one: the first server of that name is
  named with the stage that eliminated it, and that stage is never the geography.
\<close>

lemma exact_refusal_cases:
  assumes "list_all server_ok ss" and "is_exact (target req)"
    and "filter (\<lambda>s. eligible s req ctx) ss = []"
  obtains "\<forall>s \<in> set ss. \<not> in_scope (target req) s"
    "exact_refusal ss req ctx =
       (Err (ExactServerUnavailable (the (exact_name (target req))) AbsentFromCatalog) :: (SelectionError, 'a) res)"
  | s st where "s \<in> set ss" "in_scope (target req) s"
    "eliminating_stage s req ctx = Ok (Some st)"
    "exact_refusal ss req ctx =
       (Err (ExactServerUnavailable (the (exact_name (target req))) st) :: (SelectionError, 'a) res)"
proof -
  obtain n where n: "exact_name (target req) = Some n"
    using assms(2) by (auto simp: is_exact_def exact_name_def split: Target.splits)
  show thesis
  proof (cases "find (matches_exact (target req)) ss")
    case None
    then have "\<forall>s \<in> set ss. \<not> in_scope (target req) s"
      using assms(2) by (auto simp: find_None_iff exact_passes)
    then show thesis using that(1) n None by (simp add: exact_refusal_def)
  next
    case (Some m)
    then have m: "m \<in> set ss" "matches_exact (target req) m" by (auto simp: find_Some_iff)
    then have "server_ok m" "\<not> eligible m req ctx"
      using assms(1,3) by (auto simp: list_all_iff filter_empty_conv)
    then obtain st where "eliminating_stage m req ctx = Ok (Some st)"
      by (cases rule: eliminating_stage_cases [where req = req and ctx = ctx]) auto
    with m n Some assms(2) that(2) show thesis by (simp add: exact_refusal_def exact_passes)
  qed
qed

lemma filter_candidates_not_Panic:
  assumes "catalog_ok catalog"
  shows "filter_candidates catalog req ctx \<noteq> Panic"
proof -
  have ok: "list_all server_ok (logical_servers catalog)" using assms by (simp add: catalog_ok_def)
  have "exact_refusal (logical_servers catalog) req ctx \<noteq>
      (Panic :: (SelectionError, LogicalServer list \<times> EliminationReport) res)"
    if "is_exact (target req)" "filter (\<lambda>s. eligible s req ctx) (logical_servers catalog) = []"
    using exact_refusal_cases [OF ok that, where ?'a = "LogicalServer list \<times> EliminationReport"]
    by (metis res.distinct(5))
  then show ?thesis
    using filter_candidates_eq [OF assms, of req ctx] by (auto simp: Let_def res_simps)
qed

lemma filter_candidates_Ok:
  assumes "catalog_ok catalog" and "filter_candidates catalog req ctx = Ok (cs, rep)"
  shows "check_request req ctx = Ok () \<and>
    cs = filter (\<lambda>s. eligible s req ctx) (logical_servers catalog) \<and>
    rep = filter_report (logical_servers catalog) req ctx \<and> (is_exact (target req) \<longrightarrow> cs \<noteq> [])"
proof -
  have ok: "list_all server_ok (logical_servers catalog)" using assms by (simp add: catalog_ok_def)
  have "exact_refusal (logical_servers catalog) req ctx \<noteq>
      (Ok (cs, rep) :: (SelectionError, LogicalServer list \<times> EliminationReport) res)"
    if "is_exact (target req)" "filter (\<lambda>s. eligible s req ctx) (logical_servers catalog) = []"
    using exact_refusal_cases [OF ok that, where ?'a = "LogicalServer list \<times> EliminationReport"]
    by (metis res.distinct(1))
  then show ?thesis
    using assms(2) filter_candidates_eq [OF assms(1), of req ctx]
    by (auto simp: Let_def res_simps split: if_splits)
qed

end
