(* ===== verification/Selection_Rank.thy ===== *)
theory Selection_Rank
  imports Selection_Filter
begin

text \<open>
  The policy stage of \<open>crates/core/src/selection.rs\<close>: the five rankings, the seeded draw
  and shuffle of the random policy, and \<open>select\<close> itself. A \<open>&mut EliminationReport\<close> is an
  argument and a result; a comparator whose closure has an \<open>unreachable!\<close> arm is sorted by
  \<open>checked_sort_by\<close>, which panics when the arm would run. The contract all five rankings keep
  is the locale \<open>ranking\<close>, interpreted on each of them and on the dispatch of \<open>select\<close>.
\<close>

section \<open>Official, latency and load\<close>

definition unwrap_or :: "'a option \<Rightarrow> 'a \<Rightarrow> 'a" where
  "unwrap_or v d = (case v of Some x \<Rightarrow> x | None \<Rightarrow> d)"

definition ranked_catalog_only :: "LogicalServer \<Rightarrow> RankedCandidate" where
  "ranked_catalog_only s = \<lparr>server = s, signals = catalog_only s\<rparr>"

definition official_cmp :: "RankedCandidate \<Rightarrow> RankedCandidate \<Rightarrow> ordering" where
  "official_cmp a b =
     then_with
       (then_with (f32_total_cmp (unwrap_or (score (server a)) f32_MAX) (unwrap_or (score (server b)) f32_MAX))
         (cmp_on (\<lambda>x. unwrap_or (load (server x)) i8_max) a b))
       (cmp_on (\<lambda>x. ls_id (server x)) a b)"

definition rank_official :: "LogicalServer list \<Rightarrow> (SelectionError, RankedCandidate list) res" where
  "rank_official candidates =
     (let lacking = length (filter (\<lambda>s. score s = None) candidates)
      in if lacking > 0 then Err (OfficialScoreUnavailable lacking (length candidates))
         else Ok (sort_by official_cmp (map ranked_catalog_only candidates)))"

definition checked_sort_by ::
  "('a \<Rightarrow> bool) \<Rightarrow> ('a \<Rightarrow> 'a \<Rightarrow> ordering) \<Rightarrow> 'a list \<Rightarrow> (SelectionError, 'a list) res" where
  "checked_sort_by reachable cmp xs =
     (if length xs \<le> 1 \<or> list_all reachable xs then Ok (sort_by cmp xs) else Panic)"

definition latency_cmp :: "RankedCandidate \<Rightarrow> RankedCandidate \<Rightarrow> ordering" where
  "latency_cmp a b =
     then_with (duration_cmp (the (sig_latency (signals a))) (the (sig_latency (signals b))))
       (cmp_on (\<lambda>x. ls_id (server x)) a b)"

fun latency_loop ::
  "LatencyTable \<Rightarrow> LogicalServer list \<Rightarrow> RankedCandidate list \<Rightarrow> usize \<Rightarrow> RankedCandidate list \<times> usize" where
  "latency_loop table [] rk missing = (rk, missing)"
| "latency_loop table (s # ss) rk missing =
     (case btree_get table (ls_id s) of
        Some rtt \<Rightarrow> latency_loop table ss
          (rk @ [\<lparr>server = s, signals = \<lparr>proton_score = score s, sig_load = load s,
             sig_latency = Some rtt, weighted = None\<rparr>\<rparr>]) missing
      | None \<Rightarrow> latency_loop table ss rk (missing + 1))"

definition rank_lowest_latency ::
  "LogicalServer list \<Rightarrow> SelectionContext \<Rightarrow> EliminationReport \<Rightarrow>
   (SelectionError, RankedCandidate list \<times> EliminationReport) res" where
  "rank_lowest_latency candidates ctx rep =
     (if latency ctx = [] then Err (LatencyDataUnavailable (f32_of_nat 1))
      else let (rk, missing) = latency_loop (latency ctx) candidates [] 0
        in and_then (charge NoLatencyObservation missing rep) (\<lambda>rep'.
           and_then (checked_sort_by (\<lambda>x. sig_latency (signals x) \<noteq> None) latency_cmp rk)
             (\<lambda>sorted. Ok (sorted, rep'))))"

definition load_cmp :: "RankedCandidate \<Rightarrow> RankedCandidate \<Rightarrow> ordering" where
  "load_cmp a b =
     then_with (cmp_on (\<lambda>x. unwrap_or (load (server x)) i8_max) a b)
       (cmp_on (\<lambda>x. ls_id (server x)) a b)"

fun load_loop ::
  "LogicalServer list \<Rightarrow> RankedCandidate list \<Rightarrow> usize \<Rightarrow> RankedCandidate list \<times> usize" where
  "load_loop [] rk missing = (rk, missing)"
| "load_loop (s # ss) rk missing =
     (case load s of
        Some _ \<Rightarrow> load_loop ss (rk @ [ranked_catalog_only s]) missing
      | None \<Rightarrow> load_loop ss rk (missing + 1))"

definition rank_lowest_load ::
  "LogicalServer list \<Rightarrow> EliminationReport \<Rightarrow>
   (SelectionError, RankedCandidate list \<times> EliminationReport) res" where
  "rank_lowest_load candidates rep =
     (let (rk, missing) = load_loop candidates [] 0
      in and_then (charge LoadNotExposed missing rep) (\<lambda>rep'. Ok (sort_by load_cmp rk, rep')))"

section \<open>Random\<close>

text \<open>\<open>SeededDraw\<close>: the state is the word; \<open>wrapping_mul\<close> and \<open>wrapping_add\<close> are the word operations.\<close>

type_synonym SeededDraw = "64 word"

definition next_u64 :: "SeededDraw \<Rightarrow> 64 word \<times> SeededDraw" where
  "next_u64 r =
     (let r' = r * 6364136223846793005 + 1442695040888963407;
          z1 = xor r' (drop_bit 30 r') * 0xbf58476d1ce4e5b9;
          z2 = xor z1 (drop_bit 27 z1) * 0x94d049bb133111eb
      in (xor z2 (drop_bit 31 z2), r'))"

definition below :: "SeededDraw \<Rightarrow> 64 word \<Rightarrow> (SelectionError, 64 word \<times> SeededDraw) res" where
  "below r bound =
     (if bound = 0 then Panic else let (v, r') = next_u64 r in Ok (v mod bound, r'))"

definition swap_items :: "'a list \<Rightarrow> usize \<Rightarrow> usize \<Rightarrow> (SelectionError, 'a list) res" where
  "swap_items xs i j =
     (if i < length xs \<and> j < length xs then Ok (xs[i := xs ! j, j := xs ! i]) else Panic)"

fun fisher_yates_from :: "nat \<Rightarrow> 'a list \<Rightarrow> SeededDraw \<Rightarrow> (SelectionError, 'a list \<times> SeededDraw) res" where
  "fisher_yates_from 0 items r = Ok (items, r)"
| "fisher_yates_from (Suc i) items r =
     and_then (below r (of_nat (Suc i) + 1)) (\<lambda>(k, r').
     and_then (swap_items items (Suc i) (unat k)) (\<lambda>items'.
     fisher_yates_from i items' r'))"

definition fisher_yates :: "'a list \<Rightarrow> SeededDraw \<Rightarrow> (SelectionError, 'a list \<times> SeededDraw) res" where
  "fisher_yates items r = fisher_yates_from (length items - 1) items r"

fun group_by_country ::
  "LogicalServer list \<Rightarrow> (string, LogicalServer list) btree \<Rightarrow> (string, LogicalServer list) btree" where
  "group_by_country [] m = m"
| "group_by_country (s # ss) m =
     group_by_country ss
       (btree_insert (exit_country s) (unwrap_or (btree_get m (exit_country s)) [] @ [s]) m)"

fun shuffle_groups ::
  "(string \<times> LogicalServer list) list \<Rightarrow> SeededDraw \<Rightarrow> RankedCandidate list \<Rightarrow>
   (SelectionError, RankedCandidate list) res" where
  "shuffle_groups [] r rk = Ok rk"
| "shuffle_groups ((_, ss) # rest) r rk =
     and_then (fisher_yates ss r) (\<lambda>(ss', r').
     shuffle_groups rest r' (rk @ map ranked_catalog_only ss'))"

definition rank_random :: "LogicalServer list \<Rightarrow> 64 word \<Rightarrow> (SelectionError, RankedCandidate list) res" where
  "rank_random candidates entropy =
     and_then (fisher_yates (group_by_country candidates []) entropy) (\<lambda>(countries, r).
     shuffle_groups countries r [])"

section \<open>Balanced\<close>

definition optional_match_ratio ::
  "LogicalServer \<Rightarrow> FeatureConstraint list \<Rightarrow> SelectionContext \<Rightarrow> f32" where
  "optional_match_ratio s optional ctx =
     (if optional = [] then f32_of_nat 1
      else f32_div (f32_of_nat (length (filter (\<lambda>f. feature_holds s f ctx) optional)))
        (f32_of_nat (length optional)))"

fun balanced_pool ::
  "WeightedSignals \<Rightarrow> LatencyTable \<Rightarrow> LogicalServer list \<Rightarrow> LogicalServer list \<Rightarrow> usize \<Rightarrow> usize \<Rightarrow>
   LogicalServer list \<times> usize \<times> usize" where
  "balanced_pool w table [] pool no_load no_latency = (pool, no_load, no_latency)"
| "balanced_pool w table (s # ss) pool no_load no_latency =
     (if f32_gt (ws_load w) f32_zero \<and> load s = None
      then balanced_pool w table ss pool (no_load + 1) no_latency
      else if f32_gt (ws_latency w) f32_zero \<and> btree_get table (ls_id s) = None
      then balanced_pool w table ss pool no_load (no_latency + 1)
      else balanced_pool w table ss (pool @ [s]) no_load no_latency)"

definition max_latency :: "LatencyTable \<Rightarrow> LogicalServer list \<Rightarrow> f32" where
  "max_latency table pool =
     foldl f32_max f32_zero
       (map as_secs_f32 (List.map_filter (\<lambda>s. btree_get table (ls_id s)) pool))"

definition load_component :: "WeightedSignals \<Rightarrow> LogicalServer \<Rightarrow> f32" where
  "load_component w s =
     (if f32_gt (ws_load w) f32_zero
      then f32_mul (ws_load w) (f32_div (f32_of_int (unwrap_or (load s) 0)) (f32_of_nat 100))
      else f32_zero)"

definition latency_component :: "WeightedSignals \<Rightarrow> f32 \<Rightarrow> Duration option \<Rightarrow> f32" where
  "latency_component w maxl observed =
     (case observed of
        Some l \<Rightarrow> if f32_gt (ws_latency w) f32_zero \<and> f32_gt maxl f32_zero
          then f32_mul (ws_latency w) (f32_div (as_secs_f32 l) maxl) else f32_zero
      | None \<Rightarrow> f32_zero)"

definition balanced_breakdown ::
  "WeightedSignals \<Rightarrow> SelectionRequest \<Rightarrow> SelectionContext \<Rightarrow> f32 \<Rightarrow> LogicalServer \<Rightarrow> WeightedBreakdown" where
  "balanced_breakdown w req ctx maxl s =
     (let load_t = load_component w s;
          latency_t = latency_component w maxl (btree_get (latency ctx) (ls_id s));
          ratio = optional_match_ratio s (optional_features (constraints req)) ctx;
          feature_t = f32_mul (ws_feature_match w) (f32_sub (f32_of_nat 1) ratio);
          stability_t = f32_zero;
          history_t = f32_zero
      in \<lparr>load_term = load_t, latency_term = latency_t, stability_term = stability_t,
          feature_match_term = feature_t, history_term = history_t,
          total = f32_add (f32_add (f32_add (f32_add load_t latency_t) stability_t) feature_t) history_t\<rparr>)"

definition balanced_candidate ::
  "WeightedSignals \<Rightarrow> SelectionRequest \<Rightarrow> SelectionContext \<Rightarrow> f32 \<Rightarrow> LogicalServer \<Rightarrow>
   (SelectionError, RankedCandidate) res" where
  "balanced_candidate w req ctx maxl s =
     (let b = balanced_breakdown w req ctx maxl s
      in if \<not> f32_is_finite (total b) then Err (InvalidWeights WeightedTotalOverflow)
         else Ok \<lparr>server = s, signals = \<lparr>proton_score = score s, sig_load = load s,
           sig_latency = btree_get (latency ctx) (ls_id s), weighted = Some b\<rparr>\<rparr>)"

definition balanced_cmp :: "RankedCandidate \<Rightarrow> RankedCandidate \<Rightarrow> ordering" where
  "balanced_cmp a b =
     then_with (f32_total_cmp (total (the (weighted (signals a)))) (total (the (weighted (signals b)))))
       (cmp_on (\<lambda>x. ls_id (server x)) a b)"

definition rank_balanced ::
  "LogicalServer list \<Rightarrow> WeightedSignals \<Rightarrow> SelectionRequest \<Rightarrow> SelectionContext \<Rightarrow> EliminationReport \<Rightarrow>
   (SelectionError, RankedCandidate list \<times> EliminationReport) res" where
  "rank_balanced candidates w req ctx rep =
     (if \<not> weights_is_valid w then Err (InvalidWeights HandBuiltWeights)
      else if f32_gt (ws_latency w) f32_zero \<and> latency ctx = []
      then Err (LatencyDataUnavailable (ws_latency w))
      else let (pool, no_load, no_latency) = balanced_pool w (latency ctx) candidates [] 0 0
        in and_then (charge LoadNotExposed no_load rep) (\<lambda>rep1.
           and_then (charge NoLatencyObservation no_latency rep1) (\<lambda>rep2.
           and_then (collect_res (balanced_candidate w req ctx (max_latency (latency ctx) pool)) pool) (\<lambda>rk.
           and_then (checked_sort_by (\<lambda>x. weighted (signals x) \<noteq> None) balanced_cmp rk)
             (\<lambda>sorted. Ok (sorted, rep2))))))"

section \<open>select\<close>

definition rank_by_policy ::
  "SelectionRequest \<Rightarrow> SelectionContext \<Rightarrow> LogicalServer list \<Rightarrow> EliminationReport \<Rightarrow>
   (SelectionError, RankedCandidate list \<times> EliminationReport) res" where
  "rank_by_policy req ctx candidates rep =
     (case policy req of
        Official \<Rightarrow> and_then (rank_official candidates) (\<lambda>rk. Ok (rk, rep))
      | Latency \<Rightarrow> rank_lowest_latency candidates ctx rep
      | LowestLoad \<Rightarrow> rank_lowest_load candidates rep
      | Balanced w \<Rightarrow> rank_balanced candidates w req ctx rep
      | Random \<Rightarrow>
          (case random_entropy ctx of
             None \<Rightarrow> Err RandomEntropyRequired
           | Some e \<Rightarrow> and_then (rank_random candidates e) (\<lambda>rk. Ok (rk, rep))))"

definition select ::
  "CatalogDocument \<Rightarrow> SelectionRequest \<Rightarrow> SelectionContext \<Rightarrow> (SelectionError, SelectionOutcome) res" where
  "select catalog req ctx =
     and_then (filter_candidates catalog req ctx) (\<lambda>(candidates, rep).
     and_then
       (if is_exact (target req) \<and> length candidates = 1 \<and> policy req = Official
        then Ok (map ranked_catalog_only candidates, rep)
        else rank_by_policy req ctx candidates rep) (\<lambda>(rk, rep').
     if rk = [] then Err (ConstraintsNotSatisfied rep')
     else Ok \<lparr>ranked = rk, report = rep'\<rparr>))"

section \<open>Comparators\<close>

lemma comparator_official: "comparator official_cmp"
  unfolding official_cmp_def
  by (intro comparator_then_with comparator_cmp_on comparator_contramap [OF comparator_total_cmp])

lemma comparator_latency: "comparator latency_cmp"
  unfolding latency_cmp_def
  by (intro comparator_then_with comparator_cmp_on comparator_contramap [OF comparator_duration])

lemma comparator_load: "comparator load_cmp"
  unfolding load_cmp_def by (intro comparator_then_with comparator_cmp_on)

lemma comparator_balanced: "comparator balanced_cmp"
  unfolding balanced_cmp_def
  by (intro comparator_then_with comparator_cmp_on comparator_contramap [OF comparator_total_cmp])

interpretation official: comparator official_cmp
  by (rule comparator_official)

interpretation lowest_latency: comparator latency_cmp
  by (rule comparator_latency)

interpretation lowest_load: comparator load_cmp
  by (rule comparator_load)

interpretation balanced: comparator balanced_cmp
  by (rule comparator_balanced)

section \<open>The contract of a ranking\<close>

definition accounts_for :: "EliminationReport \<Rightarrow> usize \<Rightarrow> usize \<Rightarrow> bool" where
  "accounts_for rep total_seen n \<longleftrightarrow>
     report_balanced rep \<and> considered rep = total_seen \<and> survivors rep = n"

definition signals_truthful :: "SelectionContext \<Rightarrow> RankedCandidate \<Rightarrow> bool" where
  "signals_truthful ctx c \<longleftrightarrow>
     proton_score (signals c) = score (server c) \<and> sig_load (signals c) = load (server c) \<and>
     sig_latency (signals c) \<in> {None, btree_get (latency ctx) (ls_id (server c))}"

text \<open>
  What \<open>select\<close> relies on: a ranking never panics on a pool that fits the address space, it
  returns exactly the candidates it has the data to rank, each once and with its own
  signals, and it charges every other one to the report.
\<close>

locale ranking =
  fixes rank :: "LogicalServer list \<Rightarrow> EliminationReport \<Rightarrow>
      (SelectionError, RankedCandidate list \<times> EliminationReport) res"
    and keeps :: "LogicalServer \<Rightarrow> bool"
    and ctx :: SelectionContext
  assumes never_panics: "length cs < 2 ^ 64 \<Longrightarrow> survivors rep = length cs \<Longrightarrow> rank cs rep \<noteq> Panic"
    and permutes: "length cs < 2 ^ 64 \<Longrightarrow> rank cs rep = Ok (rk, rep') \<Longrightarrow> mset (map server rk) = mset (filter keeps cs)"
    and accounts: "length cs < 2 ^ 64 \<Longrightarrow> rank cs rep = Ok (rk, rep') \<Longrightarrow> accounts_for rep n (length cs) \<Longrightarrow>
      accounts_for rep' n (length rk)"
    and truthful: "length cs < 2 ^ 64 \<Longrightarrow> rank cs rep = Ok (rk, rep') \<Longrightarrow> list_all (signals_truthful ctx) rk"
begin

lemma set_ranked: "length cs < 2 ^ 64 \<Longrightarrow> rank cs rep = Ok (rk, rep') \<Longrightarrow> server ` set rk = {s \<in> set cs. keeps s}"
  using permutes [of cs rep rk rep'] by (metis set_filter set_map set_mset_mset)

lemma length_ranked: "length cs < 2 ^ 64 \<Longrightarrow> rank cs rep = Ok (rk, rep') \<Longrightarrow> length rk = length (filter keeps cs)"
  using permutes [of cs rep rk rep'] by (metis length_map size_mset)

lemma empty_iff: "length cs < 2 ^ 64 \<Longrightarrow> rank cs rep = Ok (rk, rep') \<Longrightarrow> rk = [] \<longleftrightarrow> (\<forall>s \<in> set cs. \<not> keeps s)"
  using length_ranked [of cs rep rk rep'] by (metis filter_empty_conv length_0_conv)

end

section \<open>Charging the report\<close>

lemma add_tally_fst [simp]: "map fst (add_tally st n ts) = map fst ts"
  by (induction st n ts rule: add_tally.induct) auto

lemma add_tally_sum:
  "st \<in> fst ` set ts \<Longrightarrow> sum_list (map snd (add_tally st n ts)) = sum_list (map snd ts) + n"
  by (induction st n ts rule: add_tally.induct) auto

lemma all_stages_listed: "st \<in> fst ` set STAGES"
  by (cases st) (simp_all add: STAGES_def)

lemma charge_accounts:
  assumes "accounts_for rep n (k + m)"
  shows "\<exists>rep'. charge st m rep = Ok rep' \<and> accounts_for rep' n k"
proof (cases "m = 0")
  case True
  with assms show ?thesis by (simp add: charge_def)
next
  case False
  have fst_eq: "map fst (stages rep) = map fst STAGES"
    using assms by (simp add: accounts_for_def report_balanced_def)
  then have "st \<in> fst ` set (stages rep)" using all_stages_listed [of st] by (metis set_map)
  with False assms fst_eq show ?thesis
    by (simp add: charge_def accounts_for_def report_balanced_def add_tally_sum)
qed

lemma charge_not_Panic: "n \<le> survivors rep \<Longrightarrow> charge st n rep \<noteq> Panic"
  by (simp add: charge_def)

lemma charge_survivors: "charge st n rep = Ok rep' \<Longrightarrow> survivors rep' = survivors rep - n"
  by (auto simp: charge_def split: if_splits)

lemma server_ranked_catalog_only [simp]: "server (ranked_catalog_only s) = s"
  by (simp add: ranked_catalog_only_def)

lemma catalog_only_truthful [simp]: "signals_truthful ctx (ranked_catalog_only s)"
  by (simp add: signals_truthful_def ranked_catalog_only_def catalog_only_def)

lemma map_server_sort_by [simp]: "mset (map server (sort_by cmp rk)) = mset (map server rk)"
  by (metis mset_map mset_sort_by)

section \<open>Official\<close>

lemma rank_official_Ok:
  "rank_official cs = Ok rk \<longleftrightarrow>
   (\<forall>s \<in> set cs. score s \<noteq> None) \<and> rk = sort_by official_cmp (map ranked_catalog_only cs)"
  by (auto simp: rank_official_def Let_def filter_empty_conv)

interpretation official: ranking
  "\<lambda>cs rep. and_then (rank_official cs) (\<lambda>rk. Ok (rk, rep))" "\<lambda>_. True" ctx for ctx
proof unfold_locales
  fix cs :: "LogicalServer list" and rep :: EliminationReport
  show "and_then (rank_official cs) (\<lambda>rk. Ok (rk, rep)) \<noteq> Panic"
    by (simp add: rank_official_def Let_def)
qed (auto simp: res_simps rank_official_Ok list_all_iff comp_def simp del: mset_map)

section \<open>Latency\<close>

definition observed :: "SelectionContext \<Rightarrow> LogicalServer \<Rightarrow> bool" where
  "observed ctx s \<longleftrightarrow> btree_get (latency ctx) (ls_id s) \<noteq> None"

definition ranked_observed :: "LatencyTable \<Rightarrow> LogicalServer \<Rightarrow> RankedCandidate" where
  "ranked_observed table s = \<lparr>server = s, signals = \<lparr>proton_score = score s, sig_load = load s,
     sig_latency = btree_get table (ls_id s), weighted = None\<rparr>\<rparr>"

lemma latency_loop_eq:
  "latency_loop table ss rk missing =
    (rk @ map (ranked_observed table) (filter (\<lambda>s. btree_get table (ls_id s) \<noteq> None) ss),
     missing + length (filter (\<lambda>s. btree_get table (ls_id s) = None) ss))"
  by (induction table ss rk missing rule: latency_loop.induct)
    (auto simp: ranked_observed_def split: option.splits)

lemma length_filter_split: "length (filter P xs) + length (filter (\<lambda>x. \<not> P x) xs) = length xs"
  by (rule sum_length_filter_compl)

lemma checked_sort_by_eq: "list_all p xs \<Longrightarrow> checked_sort_by p cmp xs = Ok (sort_by cmp xs)"
  by (simp add: checked_sort_by_def)

lemma rank_lowest_latency_eq:
  assumes "latency ctx \<noteq> []"
  shows "rank_lowest_latency cs ctx rep =
    and_then (charge NoLatencyObservation (length (filter (\<lambda>s. \<not> observed ctx s) cs)) rep)
      (\<lambda>rep'. Ok (sort_by latency_cmp (map (ranked_observed (latency ctx)) (filter (observed ctx) cs)), rep'))"
proof -
  have "list_all (\<lambda>x. sig_latency (signals x) \<noteq> None)
      (map (ranked_observed (latency ctx)) (filter (observed ctx) cs))"
    by (simp add: list_all_iff ranked_observed_def observed_def)
  note sorts = checked_sort_by_eq [OF this]
  show ?thesis
    using assms by (simp add: rank_lowest_latency_def latency_loop_eq sorts [unfolded observed_def [abs_def], simplified]
        observed_def [abs_def])
qed

interpretation lowest_latency: ranking "\<lambda>cs rep. rank_lowest_latency cs ctx rep" "observed ctx" ctx for ctx
proof unfold_locales
  fix cs :: "LogicalServer list" and rep :: EliminationReport
  assume s: "survivors rep = length cs"
  then have "charge NoLatencyObservation (length (filter (\<lambda>s. \<not> observed ctx s) cs)) rep \<noteq> Panic"
    by (intro charge_not_Panic) simp
  then show "rank_lowest_latency cs ctx rep \<noteq> Panic"
    by (cases "latency ctx = []") (simp add: rank_lowest_latency_def, simp add: rank_lowest_latency_eq res_simps)
next
  fix cs :: "LogicalServer list" and rep rep' :: EliminationReport and rk :: "RankedCandidate list"
  assume r: "rank_lowest_latency cs ctx rep = Ok (rk, rep')"
  then have "latency ctx \<noteq> []" by (auto simp: rank_lowest_latency_def)
  note eq = rank_lowest_latency_eq [OF this, of cs rep]
  have rk: "rk = sort_by latency_cmp (map (ranked_observed (latency ctx)) (filter (observed ctx) cs))"
    using r eq by (auto simp: res_simps)
  show "mset (map server rk) = mset (filter (observed ctx) cs)"
    unfolding rk map_server_sort_by by (simp add: ranked_observed_def comp_def del: mset_map)
  show "list_all (signals_truthful ctx) rk"
    by (auto simp: rk list_all_iff signals_truthful_def ranked_observed_def)
  show "accounts_for rep' n (length rk)" if "accounts_for rep n (length cs)" for n
    using charge_accounts [of rep n "length rk" "length (filter (\<lambda>s. \<not> observed ctx s) cs)"
        NoLatencyObservation] that r eq length_filter_split [of "observed ctx" cs]
    by (auto simp: res_simps rk)
qed

section \<open>Load\<close>

lemma load_loop_eq:
  "load_loop ss rk missing =
    (rk @ map ranked_catalog_only (filter (\<lambda>s. load s \<noteq> None) ss),
     missing + length (filter (\<lambda>s. \<not> load s \<noteq> None) ss))"
  by (induction ss rk missing rule: load_loop.induct) (auto split: option.splits)

lemma rank_lowest_load_eq:
  "rank_lowest_load cs rep =
    and_then (charge LoadNotExposed (length (filter (\<lambda>s. \<not> load s \<noteq> None) cs)) rep)
      (\<lambda>rep'. Ok (sort_by load_cmp (map ranked_catalog_only (filter (\<lambda>s. load s \<noteq> None) cs)), rep'))"
  by (simp add: rank_lowest_load_def load_loop_eq)

interpretation lowest_load: ranking rank_lowest_load "\<lambda>s. load s \<noteq> None" ctx for ctx
proof unfold_locales
  fix cs :: "LogicalServer list" and rep :: EliminationReport
  assume "survivors rep = length cs"
  then show "rank_lowest_load cs rep \<noteq> Panic"
    by (simp add: rank_lowest_load_eq res_simps charge_not_Panic)
next
  fix cs :: "LogicalServer list" and rep rep' :: EliminationReport and rk :: "RankedCandidate list"
  assume r: "rank_lowest_load cs rep = Ok (rk, rep')"
  then have rk: "rk = sort_by load_cmp (map ranked_catalog_only (filter (\<lambda>s. load s \<noteq> None) cs))"
    by (auto simp: rank_lowest_load_eq res_simps)
  show "mset (map server rk) = mset (filter (\<lambda>s. load s \<noteq> None) cs)"
    unfolding rk map_server_sort_by by (simp add: comp_def del: mset_map)
  show "list_all (signals_truthful ctx) rk" by (auto simp: rk list_all_iff)
  show "accounts_for rep' n (length rk)" if "accounts_for rep n (length cs)" for n
    using charge_accounts [of rep n "length rk" "length (filter (\<lambda>s. \<not> load s \<noteq> None) cs)"
        LoadNotExposed] that r length_filter_split [of "\<lambda>s. load s \<noteq> None" cs]
    by (auto simp: res_simps rk rank_lowest_load_eq)
qed

section \<open>Random\<close>

lemma below_bound:
  assumes "bound \<noteq> 0"
  shows "\<exists>k r'. below r bound = Ok (k, r') \<and> unat k < unat bound"
proof -
  obtain v r' where v: "next_u64 r = (v, r')" by (cases "next_u64 r")
  have "0 < unat bound" using assms by (simp add: unat_gt_0)
  then have "unat (v mod bound) < unat bound" by (simp add: unat_mod)
  with assms v show ?thesis by (simp add: below_def)
qed

lemma swap_items_mset:
  assumes "i < length xs" and "j < length xs"
  shows "\<exists>ys. swap_items xs i j = Ok ys \<and> mset ys = mset xs"
  using assms mset_swap [of j xs i] by (simp add: swap_items_def)

lemma fisher_yates_from_permutes:
  assumes "i < length items" and "length items < 2 ^ 64"
  shows "\<exists>ys r'. fisher_yates_from i items r = Ok (ys, r') \<and> mset ys = mset items"
  using assms
proof (induction i arbitrary: items r)
  case (Suc i)
  let ?b = "of_nat (Suc i) + 1 :: 64 word"
  have "?b = of_nat (Suc (Suc i))" by simp
  moreover have "Suc (Suc i) < 2 ^ LENGTH(64)" using Suc.prems by simp
  ultimately have unat_b: "unat ?b = Suc (Suc i)" by (metis mod_less unat_of_nat)
  then have "?b \<noteq> 0" by (metis nat.distinct(1) unat_0)
  from below_bound [OF this, of r] unat_b obtain k r' where
    k: "below r ?b = Ok (k, r')" "unat k < Suc (Suc i)" by auto
  then obtain ys where ys: "swap_items items (Suc i) (unat k) = Ok ys" "mset ys = mset items"
    using swap_items_mset [of "Suc i" items "unat k"] Suc.prems by auto
  then have "length ys = length items" by (metis size_mset)
  then show ?case using Suc.IH [of ys r'] Suc.prems k ys by auto
qed simp

lemma fisher_yates_permutes:
  assumes "length items < 2 ^ 64"
  shows "\<exists>ys r'. fisher_yates items r = Ok (ys, r') \<and> mset ys = mset items"
proof (cases "items = []")
  case False
  then show ?thesis
    using fisher_yates_from_permutes [of "length items - 1" items r] assms by (simp add: fisher_yates_def)
qed (simp add: fisher_yates_def)

definition group_ok :: "string \<times> LogicalServer list \<Rightarrow> bool" where
  "group_ok g \<longleftrightarrow> snd g \<noteq> [] \<and> list_all (\<lambda>s. exit_country s = fst g) (snd g)"

lemma btree_get_below: "btree_ok ((k', v) # m) \<Longrightarrow> k < k' \<Longrightarrow> btree_get ((k', v) # m) k = None"
  by (auto simp: btree_ok_def btree_get_def map_of_eq_None_iff)

lemma btree_push_mset:
  "btree_ok m \<Longrightarrow>
   mset (concat (map snd (btree_insert k (unwrap_or (btree_get m k) [] @ [s]) m))) =
   add_mset s (mset (concat (map snd m)))"
proof (induction m)
  case (Cons a m)
  obtain k' v' where a: "a = (k', v')" by (cases a)
  have ok: "btree_ok m" using Cons.prems by (simp add: btree_ok_def)
  consider "k < k'" | "k = k'" | "k' < k" by force
  then show ?case
  proof cases
    case 1
    then show ?thesis using btree_get_below [of k' v' m k] Cons.prems a by (simp add: unwrap_or_def)
  next
    case 2
    then show ?thesis by (simp add: a btree_get_def unwrap_or_def)
  next
    case 3
    then have "btree_get (a # m) k = btree_get m k" and "\<not> k < k'" and "k \<noteq> k'"
      by (auto simp: a btree_get_def)
    with Cons.IH [OF ok] a show ?thesis by simp
  qed
qed (simp add: unwrap_or_def)

lemma btree_insert_set: "set (btree_insert k v m) \<subseteq> insert (k, v) (set m)"
  by (induction m) (auto split: if_splits)

lemma btree_insert_length: "length (btree_insert k v m) \<le> Suc (length m)"
  by (induction m) auto

lemma group_by_country_ok:
  assumes "btree_ok m" and "list_all group_ok m"
  shows "btree_ok (group_by_country ss m) \<and> list_all group_ok (group_by_country ss m) \<and>
    mset (concat (map snd (group_by_country ss m))) = mset ss + mset (concat (map snd m)) \<and>
    length (group_by_country ss m) \<le> length ss + length m"
  using assms
proof (induction ss m rule: group_by_country.induct)
  case (2 s ss m)
  let ?v = "unwrap_or (btree_get m (exit_country s)) [] @ [s]"
  let ?m = "btree_insert (exit_country s) ?v m"
  have "group_ok (exit_country s, g)" if "btree_get m (exit_country s) = Some g" for g
    using that "2.prems"(2) by (auto simp: btree_get_def list_all_iff dest!: map_of_SomeD)
  then have "group_ok (exit_country s, ?v)"
    by (cases "btree_get m (exit_country s)") (auto simp: unwrap_or_def group_ok_def)
  then have "list_all group_ok ?m"
    using "2.prems"(2) btree_insert_set [of "exit_country s" ?v m] by (auto simp: list_all_iff)
  moreover have "btree_ok ?m" using "2.prems"(1) by (rule btree_ok_insert)
  ultimately show ?case
    using "2.IH" btree_push_mset [OF "2.prems"(1), of "exit_country s" s]
      btree_insert_length [of "exit_country s" ?v m]
    by (simp del: map_concat)
qed simp

lemma shuffle_groups_blocks:
  assumes "list_all (\<lambda>(c, g). length g < 2 ^ 64) gs"
  shows "\<exists>blocks. shuffle_groups gs r rk = Ok (rk @ map ranked_catalog_only (concat blocks)) \<and>
    list_all2 (\<lambda>(c, g) b. mset b = mset g) gs blocks"
  using assms
proof (induction gs arbitrary: r rk)
  case (Cons a gs)
  obtain c g where a: "a = (c, g)" by (cases a)
  with Cons.prems obtain b r' where b: "fisher_yates g r = Ok (b, r')" "mset b = mset g"
    using fisher_yates_permutes [of g r] by auto
  from Cons.IH [of r' "rk @ map ranked_catalog_only b"] Cons.prems obtain blocks where
    "shuffle_groups gs r' (rk @ map ranked_catalog_only b) =
       Ok ((rk @ map ranked_catalog_only b) @ map ranked_catalog_only (concat blocks))"
    "list_all2 (\<lambda>(c, g) b. mset b = mset g) gs blocks"
    by auto
  with a b show ?case by (intro exI [of _ "b # blocks"]) simp
qed simp

text \<open>The result is the country blocks, one after the other, each country once.\<close>

definition country_blocks :: "(string \<times> LogicalServer list) list \<Rightarrow> bool" where
  "country_blocks gs \<longleftrightarrow> distinct (map fst gs) \<and> list_all group_ok gs"

lemma list_all2_mset_concat:
  "list_all2 (\<lambda>(c, g) b. mset b = mset g) gs blocks \<Longrightarrow>
   mset (concat blocks) = mset (concat (map snd gs))"
  by (induction rule: list_all2_induct) (auto split: prod.splits)

lemma group_ok_cong: "mset b = mset g \<Longrightarrow> group_ok (c, g) \<Longrightarrow> group_ok (c, b)"
  using mset_eq_setD by (fastforce simp: group_ok_def list_all_iff)

lemma blocks_country_blocks:
  assumes "list_all2 (\<lambda>(c, g) b. mset b = mset g) gs blocks" and "country_blocks gs"
  shows "country_blocks (zip (map fst gs) blocks) \<and> map snd (zip (map fst gs) blocks) = blocks"
proof -
  have len: "length gs = length blocks" using assms(1) by (rule list_all2_lengthD)
  have "list_all group_ok (zip (map fst gs) blocks)"
    using assms by (induction rule: list_all2_induct) (auto simp: country_blocks_def intro: group_ok_cong)
  with len assms(2) show ?thesis by (simp add: country_blocks_def)
qed

lemma mset_concat_snd:
  "mset (concat (map snd gs)) = sum_mset (image_mset (\<lambda>g. mset (snd g)) (mset gs))"
  by (induction gs) auto

lemma rank_random_blocks:
  assumes "length cs < 2 ^ 64"
  shows "\<exists>gs. rank_random cs e = Ok (map ranked_catalog_only (concat (map snd gs))) \<and>
    country_blocks gs \<and> mset (concat (map snd gs)) = mset cs"
proof -
  let ?g = "group_by_country cs []"
  have g: "btree_ok ?g" "list_all group_ok ?g" "mset (concat (map snd ?g)) = mset cs" "length ?g \<le> length cs"
    using group_by_country_ok [of "[]" cs] by (simp_all add: btree_ok_def)
  obtain gs r where gs: "fisher_yates ?g e = Ok (gs, r)" "mset gs = mset ?g"
    using fisher_yates_permutes [of ?g e] g(4) assms by force
  have "distinct (map fst ?g)" using g(1) by (simp add: btree_ok_def strict_sorted_iff)
  then have cb: "country_blocks gs"
    using gs(2) g(2) mset_eq_setD [OF gs(2)]
    by (metis (no_types, lifting) country_blocks_def list_all_iff mset_map mset_eq_imp_distinct_iff)
  have mc: "mset (concat (map snd gs)) = mset cs"
    using gs(2) g(3) by (simp only: mset_concat_snd)
  have "length g < 2 ^ 64" if "(c, g) \<in> set gs" for c g
  proof -
    have "mset g \<subseteq># mset (concat (map snd gs))"
      using that by (induction gs) (auto intro: subset_mset.add_increasing subset_mset.add_increasing2)
    then have "length g \<le> length cs" using mc by (metis size_mset size_mset_mono)
    with assms show ?thesis by simp
  qed
  then have "list_all (\<lambda>(c, g). length g < 2 ^ 64) gs" by (auto simp: list_all_iff)
  from shuffle_groups_blocks [OF this, of r "[]"] obtain blocks where
    b: "shuffle_groups gs r [] = Ok (map ranked_catalog_only (concat blocks))"
      "list_all2 (\<lambda>(c, g) b. mset b = mset g) gs blocks" by auto
  with blocks_country_blocks [OF b(2) cb] gs(1) list_all2_mset_concat [OF b(2)] mc show ?thesis
    by (intro exI [of _ "zip (map fst gs) blocks"]) (simp add: rank_random_def)
qed

interpretation random: ranking
  "\<lambda>cs rep. and_then (rank_random cs e) (\<lambda>rk. Ok (rk, rep))" "\<lambda>_. True" ctx for e ctx
proof unfold_locales
  fix cs :: "LogicalServer list" and rep :: EliminationReport
  assume "length cs < 2 ^ 64"
  then show "and_then (rank_random cs e) (\<lambda>rk. Ok (rk, rep)) \<noteq> Panic"
    using rank_random_blocks [of cs e] by auto
  fix rk rep'
  assume "and_then (rank_random cs e) (\<lambda>rk. Ok (rk, rep)) = Ok (rk, rep')"
  then have r: "rank_random cs e = Ok rk" "rep' = rep" by (simp_all add: res_simps)
  from rank_random_blocks [OF \<open>length cs < 2 ^ 64\<close>, of e] r(1)
  obtain gs :: "(string \<times> LogicalServer list) list" where
    gs: "rk = map ranked_catalog_only (concat (map snd gs))" "mset (concat (map snd gs)) = mset cs"
    by auto
  note rk = gs r(2)
  show m: "mset (map server rk) = mset (filter (\<lambda>_. True) cs)"
    using rk by (simp add: comp_def del: mset_map map_concat)
  show "list_all (signals_truthful ctx) rk" by (auto simp: rk list_all_iff)
  have "length rk = length cs" using m by (metis filter_True length_map size_mset)
  then show "accounts_for rep' n (length rk)" if "accounts_for rep n (length cs)" for n
    using that rk by simp
qed

section \<open>Balanced\<close>

definition balanced_keeps :: "WeightedSignals \<Rightarrow> SelectionContext \<Rightarrow> LogicalServer \<Rightarrow> bool" where
  "balanced_keeps w ctx s \<longleftrightarrow>
     (f32_gt (ws_load w) f32_zero \<longrightarrow> load s \<noteq> None) \<and>
     (f32_gt (ws_latency w) f32_zero \<longrightarrow> observed ctx s)"

lemma balanced_pool_eq:
  assumes "balanced_pool w (latency ctx) ss pool no_load no_latency = (pool', no_load', no_latency')"
  shows "pool' = pool @ filter (balanced_keeps w ctx) ss \<and>
    no_load' + no_latency' = no_load + no_latency + length (filter (\<lambda>s. \<not> balanced_keeps w ctx s) ss)"
  using assms
  by (induction w "latency ctx" ss pool no_load no_latency rule: balanced_pool.induct)
    (auto simp: balanced_keeps_def observed_def split: if_splits)

lemma balanced_candidate_Ok:
  "balanced_candidate w req ctx maxl s = Ok c \<Longrightarrow>
   server c = s \<and> signals_truthful ctx c \<and> weighted (signals c) \<noteq> None"
  by (auto simp: balanced_candidate_def signals_truthful_def Let_def split: if_splits)

lemma balanced_collect:
  assumes "collect_res (balanced_candidate w req ctx maxl) pool = Ok rk"
  shows "map server rk = pool \<and> list_all (signals_truthful ctx) rk \<and>
    list_all (\<lambda>x. weighted (signals x) \<noteq> None) rk"
  using assms unfolding collect_res_Ok_iff
  by (induction rule: list_all2_induct) (auto dest: balanced_candidate_Ok)

lemma rank_balanced_Ok:
  assumes "rank_balanced cs w req ctx rep = Ok (rk, rep')"
  obtains no_load no_latency rep1 scored where
    "weights_is_valid w" "no_load + no_latency = length (filter (\<lambda>s. \<not> balanced_keeps w ctx s) cs)"
    "charge LoadNotExposed no_load rep = Ok rep1" "charge NoLatencyObservation no_latency rep1 = Ok rep'"
    "collect_res (balanced_candidate w req ctx (max_latency (latency ctx) (filter (balanced_keeps w ctx) cs)))
       (filter (balanced_keeps w ctx) cs) = Ok scored"
    "rk = sort_by balanced_cmp scored"
proof -
  obtain pool nl nt where p: "balanced_pool w (latency ctx) cs [] 0 0 = (pool, nl, nt)"
    by (cases "balanced_pool w (latency ctx) cs [] 0 0") auto
  note pool = balanced_pool_eq [OF p, simplified]
  show thesis
    using assms p pool that
    by (auto simp: rank_balanced_def res_simps checked_sort_by_def split: if_splits)
qed

lemma rank_balanced_not_Panic:
  assumes "survivors rep = length cs"
  shows "rank_balanced cs w req ctx rep \<noteq> Panic"
proof -
  obtain pool nl nt where p: "balanced_pool w (latency ctx) cs [] 0 0 = (pool, nl, nt)"
    by (cases "balanced_pool w (latency ctx) cs [] 0 0") auto
  have n: "nl + nt \<le> survivors rep" using balanced_pool_eq [OF p] assms by simp
  have "collect_res (balanced_candidate w req ctx maxl) pool \<noteq> Panic" for maxl
    by (rule collect_res_not_Panic) (simp add: balanced_candidate_def Let_def)
  moreover have "checked_sort_by (\<lambda>x. weighted (signals x) \<noteq> None) balanced_cmp rk \<noteq> Panic"
    if "collect_res (balanced_candidate w req ctx maxl) pool = Ok rk" for maxl rk
    using balanced_collect [OF that] by (simp add: checked_sort_by_def)
  moreover have "charge NoLatencyObservation nt rep1 \<noteq> Panic" if "charge LoadNotExposed nl rep = Ok rep1" for rep1
    using charge_survivors [OF that] n by (intro charge_not_Panic) simp
  moreover have "charge LoadNotExposed nl rep \<noteq> Panic" using n by (intro charge_not_Panic) simp
  ultimately show ?thesis using p by (auto simp: rank_balanced_def res_simps)
qed

interpretation balanced: ranking
  "\<lambda>cs rep. rank_balanced cs w req ctx rep" "balanced_keeps w ctx" ctx for w req ctx
proof unfold_locales
  fix cs :: "LogicalServer list" and rep :: EliminationReport
  assume "survivors rep = length cs"
  then show "rank_balanced cs w req ctx rep \<noteq> Panic" by (rule rank_balanced_not_Panic)
next
  fix cs :: "LogicalServer list" and rep rep' :: EliminationReport and rk :: "RankedCandidate list"
  assume "rank_balanced cs w req ctx rep = Ok (rk, rep')"
  then obtain nl nt rep1 scored where
    n: "nl + nt = length (filter (\<lambda>s. \<not> balanced_keeps w ctx s) cs)"
    and c: "charge LoadNotExposed nl rep = Ok rep1" "charge NoLatencyObservation nt rep1 = Ok rep'"
    and sc: "collect_res (balanced_candidate w req ctx (max_latency (latency ctx) (filter (balanced_keeps w ctx) cs)))
       (filter (balanced_keeps w ctx) cs) = Ok scored" and rk: "rk = sort_by balanced_cmp scored"
    by (rule rank_balanced_Ok)
  note col = balanced_collect [OF sc]
  show "mset (map server rk) = mset (filter (balanced_keeps w ctx) cs)"
    unfolding rk map_server_sort_by by (simp only: col)
  show "list_all (signals_truthful ctx) rk" using col by (simp add: rk list_all_iff)
  fix n
  assume a: "accounts_for rep n (length cs)"
  have "length rk = length (filter (balanced_keeps w ctx) cs)"
    using col by (metis rk length_map length_sort_by)
  then have "length cs = length rk + nt + nl"
    using n length_filter_split [of "balanced_keeps w ctx" cs] by simp
  then show "accounts_for rep' n (length rk)"
    using a c charge_accounts [of rep n "length rk + nt" nl LoadNotExposed]
      charge_accounts [of rep1 n "length rk" nt NoLatencyObservation] by auto
qed

section \<open>The dispatch\<close>

definition policy_keeps :: "RankingPolicy \<Rightarrow> SelectionContext \<Rightarrow> LogicalServer \<Rightarrow> bool" where
  "policy_keeps p ctx s =
     (case p of
        Official \<Rightarrow> True
      | Latency \<Rightarrow> observed ctx s
      | LowestLoad \<Rightarrow> load s \<noteq> None
      | Balanced w \<Rightarrow> balanced_keeps w ctx s
      | Random \<Rightarrow> True)"

lemma ranking_random_dispatch:
  "ranking (\<lambda>cs rep. case random_entropy ctx of None \<Rightarrow> Err RandomEntropyRequired
     | Some e \<Rightarrow> and_then (rank_random cs e) (\<lambda>rk. Ok (rk, rep))) (\<lambda>_. True) ctx"
proof (cases "random_entropy ctx")
  case None
  then show ?thesis by unfold_locales simp_all
next
  case (Some e)
  then show ?thesis using random.ranking_axioms [of e ctx] by simp
qed

interpretation by_policy: ranking "rank_by_policy req ctx" "policy_keeps (policy req) ctx" ctx for req ctx
proof (cases "policy req")
  case Official
  then show "ranking (rank_by_policy req ctx) (policy_keeps (policy req) ctx) ctx"
    using official.ranking_axioms [of ctx] by (simp add: rank_by_policy_def [abs_def] policy_keeps_def [abs_def])
next
  case (Balanced w)
  then show "ranking (rank_by_policy req ctx) (policy_keeps (policy req) ctx) ctx"
    using balanced.ranking_axioms [of w req ctx] by (simp add: rank_by_policy_def [abs_def] policy_keeps_def [abs_def])
next
  case LowestLoad
  then show "ranking (rank_by_policy req ctx) (policy_keeps (policy req) ctx) ctx"
    using lowest_load.ranking_axioms [of ctx] by (simp add: rank_by_policy_def [abs_def] policy_keeps_def [abs_def])
next
  case Latency
  then show "ranking (rank_by_policy req ctx) (policy_keeps (policy req) ctx) ctx"
    using lowest_latency.ranking_axioms [of ctx] by (simp add: rank_by_policy_def [abs_def] policy_keeps_def [abs_def])
next
  case Random
  then show "ranking (rank_by_policy req ctx) (policy_keeps (policy req) ctx) ctx"
    using ranking_random_dispatch [of ctx] by (simp add: rank_by_policy_def [abs_def] policy_keeps_def [abs_def])
qed

end
