(* ===== verification/Selection.thy ===== *)
theory Selection
  imports Selection_Rank
begin

text \<open>
  The correctness of \<open>select\<close> in \<open>crates/core/src/selection.rs\<close>, over the pipeline of
  \<open>Selection_Filter\<close> and the ranking contract of \<open>Selection_Rank\<close>: what is returned, in which
  order, what the report says, and what every refusal means.
\<close>

section \<open>A small catalog\<close>

definition demo_physical :: PhysicalServer where
  "demo_physical = \<lparr>ps_id = None, entry_ip = None, exit_ip = None, ps_domain = ''d'', ps_status = 1,
     ps_label = None, x25519_public_key = None, signature = None, generation = None,
     services_down_reason = None, entry_per_protocol = None\<rparr>"

definition demo_server :: "string \<Rightarrow> string \<Rightarrow> i8 \<Rightarrow> i8 \<Rightarrow> LogicalServer" where
  "demo_server n cc st l = \<lparr>ls_id = n, ls_name = n, city = None, state = None, entry_country = cc,
     exit_country = cc, ls_domain = None, tier = 2, features = 0, status = Some st, load = Some l,
     score = Some (F32 False 0), host_country = None, gateway_name = None, ls_translations = None,
     status_reference = None, entry_location = None, exit_location = None, location = None,
     servers = [demo_physical]\<rparr>"

definition demo_catalog :: CatalogDocument where
  "demo_catalog = \<lparr>code = 1000, error = None, details = None, status_id = [], response_metadata = None,
     logical_servers = [demo_server ''US#1'' ''US'' 1 40, demo_server ''CH#1'' ''CH'' 1 20,
       demo_server ''CH#2'' ''CH'' 0 10]\<rparr>"

definition demo_request :: "Target \<Rightarrow> RankingPolicy \<Rightarrow> SelectionRequest" where
  "demo_request t p = \<lparr>target = t, policy = p, constraints = Constraints_default\<rparr>"

definition demo_outcome :: SelectionOutcome where
  "demo_outcome =
     \<lparr>ranked = map ranked_catalog_only [demo_server ''CH#1'' ''CH'' 1 20, demo_server ''US#1'' ''US'' 1 40],
      report = filter_report (logical_servers demo_catalog) (demo_request Fastest Official) SelectionContext_default\<rparr>"

lemmas demo_defs = demo_physical_def demo_server_def demo_catalog_def demo_request_def
  SelectionContext_default_def Constraints_default_def

lemma demo_catalog_ok: "catalog_ok demo_catalog"
  by (simp add: catalog_ok_def demo_defs server_ok_def physical_count_def MAX_LOGICAL_SERVERS_def
      MAX_PHYSICAL_SERVERS_TOTAL_def)

lemmas check_defs = check_request_def validate_request_countries_def validate_target_countries_def validate_opt_country_def
  is_secure_core_target_def is_exact_def needs_port_forwarding_composition_def

lemma demo_check: "check_request (demo_request Fastest p) ctx = Ok ()"
  by (simp add: check_defs demo_defs)

lemma demo_eligible:
  "eligible (demo_server n cc st l) (demo_request Fastest p) SelectionContext_default \<longleftrightarrow> st = 1"
  by (simp add: eligible_def demo_defs connectable_def in_scope_def secure_core_def has_def not_excluded_def)

lemma demo_filter:
  "filter_candidates demo_catalog (demo_request Fastest p) SelectionContext_default =
   Ok ([demo_server ''US#1'' ''US'' 1 40, demo_server ''CH#1'' ''CH'' 1 20],
     filter_report (logical_servers demo_catalog) (demo_request Fastest p) SelectionContext_default)"
  unfolding filter_candidates_eq [OF demo_catalog_ok]
  by (simp add: demo_check demo_catalog_def demo_eligible)

lemma demo_select:
  "select demo_catalog (demo_request Fastest Official) SelectionContext_default = Ok demo_outcome"
  unfolding select_def demo_filter demo_outcome_def
  by (simp add: demo_request_def is_exact_def rank_by_policy_def rank_official_def demo_server_def
      official_cmp_def ranked_catalog_only_def unwrap_or_def then_with_def f32_total_cmp_def cmp_on_def)
section \<open>What select returns\<close>

text \<open>The answer set: eligible, and rankable by the requested policy.\<close>

definition answers :: "CatalogDocument \<Rightarrow> SelectionRequest \<Rightarrow> SelectionContext \<Rightarrow> LogicalServer list" where
  "answers catalog req ctx =
     filter (\<lambda>s. eligible s req ctx \<and> policy_keeps (policy req) ctx s) (logical_servers catalog)"

lemma catalog_length: "catalog_ok catalog \<Longrightarrow> length (filter P (logical_servers catalog)) < 2 ^ 64"
  by (rule le_less_trans [OF length_filter_le]) (simp add: catalog_ok_def MAX_LOGICAL_SERVERS_def)

lemma filter_report_accounts:
  assumes "catalog_ok catalog"
  shows "accounts_for (filter_report (logical_servers catalog) req ctx) (length (logical_servers catalog))
    (length (filter (\<lambda>s. eligible s req ctx) (logical_servers catalog)))"
  using assms filter_report_balanced [of "logical_servers catalog" req ctx]
  by (simp add: accounts_for_def catalog_ok_def) (simp add: filter_report_def)

text \<open>The ranking step of \<open>select\<close>, shortcut included, keeps the contract of a ranking.\<close>

definition rank_step ::
  "SelectionRequest \<Rightarrow> SelectionContext \<Rightarrow> LogicalServer list \<Rightarrow> EliminationReport \<Rightarrow>
   (SelectionError, RankedCandidate list \<times> EliminationReport) res" where
  "rank_step req ctx candidates rep =
     (if is_exact (target req) \<and> length candidates = 1 \<and> policy req = Official
      then Ok (map ranked_catalog_only candidates, rep)
      else rank_by_policy req ctx candidates rep)"

lemma select_rank_step:
  "select catalog req ctx =
     and_then (filter_candidates catalog req ctx) (\<lambda>(candidates, rep).
     and_then (rank_step req ctx candidates rep) (\<lambda>(rk, rep').
     if rk = [] then Err (ConstraintsNotSatisfied rep') else Ok \<lparr>ranked = rk, report = rep'\<rparr>))"
  by (simp add: select_def rank_step_def)

interpretation step: ranking "rank_step req ctx" "policy_keeps (policy req) ctx" ctx for req ctx
proof unfold_locales
  fix cs :: "LogicalServer list" and rep :: EliminationReport
  assume len: "length cs < 2 ^ 64"
  show "rank_step req ctx cs rep \<noteq> Panic" if "survivors rep = length cs"
    using that by_policy.never_panics [OF len, of rep req ctx] by (simp add: rank_step_def)
  fix rep' :: EliminationReport and rk :: "RankedCandidate list"
  assume r: "rank_step req ctx cs rep = Ok (rk, rep')"
  show "mset (map server rk) = mset (filter (policy_keeps (policy req) ctx) cs)"
    using r by_policy.permutes [OF len, of req ctx rep rk rep']
    by (auto simp: rank_step_def policy_keeps_def comp_def simp del: mset_map split: if_splits)
  show "accounts_for rep' n (length rk)" if "accounts_for rep n (length cs)" for n
    using r that by_policy.accounts [OF len, of req ctx rep rk rep' n] by (auto simp: rank_step_def split: if_splits)
  show "list_all (signals_truthful ctx) rk"
    using r by_policy.truthful [OF len, of req ctx rep rk rep']
    by (auto simp: rank_step_def list_all_iff split: if_splits)
qed

lemma select_Ok_cases:
  assumes "catalog_ok catalog" and "select catalog req ctx = Ok out"
  obtains "check_request req ctx = Ok ()" "ranked out \<noteq> []"
    "rank_step req ctx (filter (\<lambda>s. eligible s req ctx) (logical_servers catalog))
       (filter_report (logical_servers catalog) req ctx) = Ok (ranked out, report out)"
    "mset (map server (ranked out)) = mset (answers catalog req ctx)"
proof -
  from assms(2) obtain cs rep rk rep' where
    f: "filter_candidates catalog req ctx = Ok (cs, rep)"
    and r: "rank_step req ctx cs rep = Ok (rk, rep')" "rk \<noteq> []" "out = \<lparr>ranked = rk, report = rep'\<rparr>"
    by (auto simp: select_rank_step res_simps split: if_splits)
  note fc = filter_candidates_Ok [OF assms(1) f]
  then have "mset (map server rk) = mset (answers catalog req ctx)"
    using step.permutes [OF _ r(1)] catalog_length [OF assms(1)]
    by (auto simp: answers_def conj_commute)
  with fc r that show thesis by auto
qed

lemma ranked_set:
  assumes "catalog_ok catalog" and "select catalog req ctx = Ok out"
  shows "server ` set (ranked out) = set (answers catalog req ctx)"
  using assms by (rule select_Ok_cases) (metis set_map set_mset_mset)

lemma select_not_Panic:
  assumes "catalog_ok catalog"
  shows "select catalog req ctx \<noteq> Panic"
proof -
  have "rank_step req ctx cs rep \<noteq> Panic" if "filter_candidates catalog req ctx = Ok (cs, rep)" for cs rep
    using filter_candidates_Ok [OF assms that] catalog_length [OF assms]
    by (intro step.never_panics) (auto simp: filter_report_def)
  then show ?thesis
    using filter_candidates_not_Panic [OF assms] by (auto simp: select_rank_step res_simps split: if_splits)
qed

lemma validate_country_Err: "validate_country cc = Err e \<Longrightarrow> e = InvalidCountry cc"
  by (simp add: validate_country_def split: if_splits)

lemma for_each_country_Err: "for_each validate_country ccs = Err e \<Longrightarrow> \<exists>cc. e = InvalidCountry cc"
  by (induction ccs) (auto simp: res_simps dest: validate_country_Err)

lemma validate_opt_country_Err: "validate_opt_country c = Err e \<Longrightarrow> \<exists>cc. e = InvalidCountry cc"
  by (auto simp: validate_opt_country_def dest: validate_country_Err split: option.splits)

lemma validate_target_Err:
  "validate_target_countries t = Err e \<Longrightarrow> \<exists>cc. e = InvalidCountry cc \<or> e = SecureCoreEntryEqualsExit cc"
  by (auto simp: validate_target_countries_def res_simps
      dest: validate_country_Err for_each_country_Err validate_opt_country_Err
      split: Target.splits option.splits if_splits)

lemma check_request_Err:
  assumes "check_request req ctx = Err e"
  shows "e \<noteq> ConstraintsNotSatisfied rep" "e \<noteq> ExactServerUnavailable n st"
  using assms
  by (auto simp: check_request_def validate_request_countries_def res_simps
      dest: validate_target_Err validate_opt_country_Err for_each_country_Err split: if_splits)

lemma check_request_not_exact: "check_request req ctx \<noteq> Err (ExactServerUnavailable n st)"
  using check_request_Err(2) by blast

lemma filter_candidates_Err_not_constraints:
  assumes "catalog_ok catalog"
  shows "filter_candidates catalog req ctx \<noteq> Err (ConstraintsNotSatisfied rep)"
proof -
  have ok: "list_all server_ok (logical_servers catalog)" using assms by (simp add: catalog_ok_def)
  have "exact_refusal (logical_servers catalog) req ctx \<noteq>
      (Err (ConstraintsNotSatisfied rep) :: (SelectionError, LogicalServer list \<times> EliminationReport) res)"
    if "is_exact (target req)" "filter (\<lambda>s. eligible s req ctx) (logical_servers catalog) = []"
    by (rule exact_refusal_cases [OF ok that, where ?'a = "LogicalServer list \<times> EliminationReport"]) auto
  then show ?thesis
    using filter_candidates_eq [OF assms, of req ctx] check_request_Err(1)
    by (auto simp: Let_def res_simps)
qed

lemma charge_not_Err: "charge st n rep \<noteq> Err e"
  by (simp add: charge_def)

lemma fisher_yates_from_not_Err: "fisher_yates_from i items r \<noteq> Err e"
  by (induction i items r rule: fisher_yates_from.induct)
    (auto simp: res_simps below_def swap_items_def split: if_splits prod.splits)

lemma shuffle_groups_not_Err: "shuffle_groups gs r rk \<noteq> Err e"
  by (induction gs r rk rule: shuffle_groups.induct)
    (auto simp: res_simps fisher_yates_def fisher_yates_from_not_Err)

lemma rank_random_not_Err: "rank_random cs s \<noteq> Err e"
  by (auto simp: rank_random_def res_simps fisher_yates_def fisher_yates_from_not_Err shuffle_groups_not_Err)

lemma balanced_collect_Err:
  "collect_res (balanced_candidate w req ctx maxl) pool = Err e \<Longrightarrow> e = InvalidWeights WeightedTotalOverflow"
  by (induction pool) (auto simp: res_simps balanced_candidate_def Let_def split: if_splits)

lemma rank_step_Err:
  assumes "rank_step req ctx cs rep = Err e"
  shows "e \<noteq> ConstraintsNotSatisfied rep'" "e \<noteq> ExactServerUnavailable n st"
  using assms
  by (auto simp: rank_step_def rank_by_policy_def rank_official_def rank_lowest_latency_def
      rank_lowest_load_def rank_balanced_def res_simps charge_not_Err checked_sort_by_def
      rank_random_not_Err Let_def dest: balanced_collect_Err
      split: if_splits RankingPolicy.splits prod.splits option.splits)

lemma answers_iff:
  "s \<in> set (answers catalog req ctx) \<longleftrightarrow>
   s \<in> set (logical_servers catalog) \<and> eligible s req ctx \<and> policy_keeps (policy req) ctx s"
  by (auto simp: answers_def)

section \<open>Properties\<close>

text \<open>
  C2. \<open>select\<close> returns exactly the answer set: every catalog server that is eligible under the
  request (tier, online, target, exclusions, features, protocol) and that the policy has the
  data to rank, each exactly as often as the catalog lists it, and at least one. Every
  signal it reports is the server's own score and load and the table's own latency.
\<close>

theorem select_exact_answer:
  assumes "catalog_ok catalog" and "select catalog req ctx = Ok out"
  shows "ranked out \<noteq> [] \<and>
    mset (map server (ranked out)) =
      mset (filter (\<lambda>s. eligible s req ctx \<and> policy_keeps (policy req) ctx s) (logical_servers catalog)) \<and>
    list_all (signals_truthful ctx) (ranked out)"
  using assms(1,2)
proof (rule select_Ok_cases)
  assume "rank_step req ctx (filter (\<lambda>s. eligible s req ctx) (logical_servers catalog))
      (filter_report (logical_servers catalog) req ctx) = Ok (ranked out, report out)"
  from step.truthful [OF _ this] catalog_length [OF assms(1)]
  have "list_all (signals_truthful ctx) (ranked out)" by simp
  moreover assume "ranked out \<noteq> []" "mset (map server (ranked out)) = mset (answers catalog req ctx)"
  ultimately show ?thesis by (simp add: answers_def)
qed

theorem select_exact_answer_witness:
  "select demo_catalog (demo_request Fastest Official) SelectionContext_default = Ok demo_outcome \<and>
   mset (map server (ranked demo_outcome)) =
     {#demo_server ''US#1'' ''US'' 1 40, demo_server ''CH#1'' ''CH'' 1 20#}"
  using select_exact_answer [OF demo_catalog_ok demo_select] demo_select
  by (simp add: demo_catalog_def demo_eligible) (simp add: demo_request_def policy_keeps_def)

text \<open>
  C13. No request, context or server data makes \<open>select\<close> panic on a validated catalog: every
  \<open>unreachable!\<close> arm, counter subtraction, modulus and swap on its path is safe.
\<close>

theorem select_never_panics:
  assumes "catalog_ok catalog"
  shows "select catalog req ctx \<noteq> Panic"
  using assms by (rule select_not_Panic)

theorem select_never_panics_witness:
  "select demo_catalog (demo_request (Server ''CH#2'') Random) SelectionContext_default \<noteq> Panic"
  by (rule select_never_panics [OF demo_catalog_ok])

text \<open>
  The report accounts for the whole catalog: it lists the stages in evaluation order, and
  the servers considered are the ones ranked plus those charged to a stage, one stage each.
\<close>

theorem select_report_accounts:
  assumes "catalog_ok catalog" and "select catalog req ctx = Ok out"
  shows "considered (report out) = length (logical_servers catalog) \<and>
    survivors (report out) = length (ranked out) \<and>
    map fst (stages (report out)) = map fst STAGES \<and>
    considered (report out) = length (ranked out) + sum_list (map snd (stages (report out)))"
  using assms
proof (rule select_Ok_cases)
  assume r: "rank_step req ctx (filter (\<lambda>s. eligible s req ctx) (logical_servers catalog))
      (filter_report (logical_servers catalog) req ctx) = Ok (ranked out, report out)"
  from step.accounts [OF catalog_length r filter_report_accounts] assms(1) show ?thesis
    by (simp add: accounts_for_def report_balanced_def)
qed

theorem select_report_accounts_witness:
  "select demo_catalog (demo_request Fastest Official) SelectionContext_default = Ok demo_outcome \<and>
   considered (report demo_outcome) = 3 \<and>
   3 = length (ranked demo_outcome) + sum_list (map snd (stages (report demo_outcome)))"
proof -
  have "length (logical_servers demo_catalog) = 3" by (simp add: demo_catalog_def)
  with select_report_accounts [OF demo_catalog_ok demo_select] demo_select show ?thesis by metis
qed

lemma exact_refusal_stage:
  assumes "list_all server_ok ss" and "is_exact (target req)"
    and "filter (\<lambda>s. eligible s req ctx) ss = []"
    and "exact_refusal ss req ctx = (Err (ExactServerUnavailable n st) :: (SelectionError, 'a) res)"
  shows "case find (matches_exact (target req)) ss of
      None \<Rightarrow> st = AbsentFromCatalog | Some s \<Rightarrow> eliminating_stage s req ctx = Ok (Some st)"
proof (cases "find (matches_exact (target req)) ss")
  case None
  with assms(4) show ?thesis by (simp add: exact_refusal_def)
next
  case (Some m)
  then have "m \<in> set ss" by (auto simp: find_Some_iff)
  then have "server_ok m" "\<not> eligible m req ctx"
    using assms(1,3) by (auto simp: list_all_iff filter_empty_conv)
  then obtain st' where "eliminating_stage m req ctx = Ok (Some st')"
    by (cases rule: eliminating_stage_cases [where req = req and ctx = ctx]) auto
  with assms(4) Some show ?thesis by (simp add: exact_refusal_def)
qed

text \<open>
  An empty-handed refusal is honest: when \<open>select\<close> reports that the constraints are not
  satisfied, no server of the catalog is both eligible and rankable, and the report still
  accounts for every one of them.
\<close>

theorem select_refusal_honest:
  assumes "catalog_ok catalog" and "select catalog req ctx = Err (ConstraintsNotSatisfied rep)"
  shows "(\<forall>s \<in> set (logical_servers catalog). \<not> (eligible s req ctx \<and> policy_keeps (policy req) ctx s)) \<and>
    survivors rep = 0 \<and> considered rep = length (logical_servers catalog) \<and>
    considered rep = sum_list (map snd (stages rep))"
proof -
  let ?cs = "filter (\<lambda>s. eligible s req ctx) (logical_servers catalog)"
  have "rank_step req ctx cs rep0 \<noteq> Err (ConstraintsNotSatisfied rep)" for cs rep0
    using rank_step_Err(1) by blast
  then have "\<exists>cs rep0. filter_candidates catalog req ctx = Ok (cs, rep0) \<and> rank_step req ctx cs rep0 = Ok ([], rep)"
    using assms(2) filter_candidates_Err_not_constraints [OF assms(1)]
    by (auto simp: select_rank_step res_simps split: if_splits)
  then have r: "rank_step req ctx ?cs (filter_report (logical_servers catalog) req ctx) = Ok ([], rep)"
    using filter_candidates_Ok [OF assms(1)] by blast
  from step.empty_iff [OF catalog_length r] assms(1)
  have "\<forall>s \<in> set ?cs. \<not> policy_keeps (policy req) ctx s" by simp
  moreover have "accounts_for rep (length (logical_servers catalog)) 0"
    using step.accounts [OF catalog_length r filter_report_accounts] assms(1) by simp
  ultimately show ?thesis by (auto simp: accounts_for_def report_balanced_def)
qed

theorem select_refusal_honest_witness:
  "\<exists>rep. select demo_catalog (demo_request (Country ''DE'') Official) SelectionContext_default =
      Err (ConstraintsNotSatisfied rep) \<and> sum_list (map snd (stages rep)) = 3"
proof -
  let ?rep = "filter_report (logical_servers demo_catalog) (demo_request (Country ''DE'') Official) SelectionContext_default"
  have "filter_candidates demo_catalog (demo_request (Country ''DE'') Official) SelectionContext_default = Ok ([], ?rep)"
    unfolding filter_candidates_eq [OF demo_catalog_ok]
    by (simp add: check_defs demo_defs validate_country_def is_ascii_uppercase_def less_eq_char_def
        eligible_def in_scope_def)
  then have s: "select demo_catalog (demo_request (Country ''DE'') Official) SelectionContext_default =
      Err (ConstraintsNotSatisfied ?rep)"
    by (simp add: select_def rank_by_policy_def rank_official_def demo_request_def)
  from select_refusal_honest [OF demo_catalog_ok s] s show ?thesis
    by (auto simp: demo_catalog_def)
qed

text \<open>
  An exact target never falls back. What is returned for it is the named server or
  gateway and nothing else; and when it is refused, the refusal carries the requested name
  and either says it is absent, and then no server of the catalog bears it, or names the
  stage that eliminated the first server that bears it.
\<close>

theorem exact_target_never_falls_back:
  assumes "catalog_ok catalog" and "is_exact (target req)"
  shows "(\<forall>out. select catalog req ctx = Ok out \<longrightarrow>
      (\<forall>c \<in> set (ranked out). matches_exact (target req) (server c))) \<and>
    (\<forall>n st. select catalog req ctx = Err (ExactServerUnavailable n st) \<longrightarrow>
      exact_name (target req) = Some n \<and>
      (case find (matches_exact (target req)) (logical_servers catalog) of
         None \<Rightarrow> st = AbsentFromCatalog
       | Some s \<Rightarrow> eliminating_stage s req ctx = Ok (Some st)))"
proof (intro conjI allI impI ballI)
  fix out c
  assume "select catalog req ctx = Ok out" and "c \<in> set (ranked out)"
  then have "eligible (server c) req ctx" using ranked_set [OF assms(1)] answers_iff by blast
  then show "matches_exact (target req) (server c)" using assms(2) by (simp add: exact_passes eligible_def)
next
  fix n st
  assume sel: "select catalog req ctx = Err (ExactServerUnavailable n st)"
  have "rank_step req ctx cs rep \<noteq> Err (ExactServerUnavailable n st)" for cs rep
    using rank_step_Err(2) by blast
  with sel have "filter_candidates catalog req ctx = Err (ExactServerUnavailable n st)"
    by (auto simp: select_rank_step res_simps split: if_splits)
  then have x: "exact_refusal (logical_servers catalog) req ctx =
      (Err (ExactServerUnavailable n st) :: (SelectionError, LogicalServer list \<times> EliminationReport) res)"
    and none: "filter (\<lambda>s. eligible s req ctx) (logical_servers catalog) = []"
    using filter_candidates_eq [OF assms(1), of req ctx] check_request_not_exact
    by (auto simp: Let_def res_simps split: if_splits)
  have ok: "list_all server_ok (logical_servers catalog)" using assms(1) by (simp add: catalog_ok_def)
  show "exact_name (target req) = Some n"
    using x assms(2)
    by (auto simp: exact_refusal_def is_exact_def exact_name_def res_simps eliminating_stage_not_Err
        split: option.splits Target.splits)
  show "case find (matches_exact (target req)) (logical_servers catalog) of
      None \<Rightarrow> st = AbsentFromCatalog | Some s \<Rightarrow> eliminating_stage s req ctx = Ok (Some st)"
    using exact_refusal_stage [OF ok assms(2) none x] .
qed

theorem exact_target_never_falls_back_witness:
  "select demo_catalog (demo_request (Server ''CH#2'') Official) SelectionContext_default =
     Err (ExactServerUnavailable ''CH#2'' Offline) \<and>
   eliminating_stage (demo_server ''CH#2'' ''CH'' 0 10) (demo_request (Server ''CH#2'') Official)
     SelectionContext_default = Ok (Some Offline)"
proof -
  let ?req = "demo_request (Server ''CH#2'') Official"
  have f: "find (matches_exact (target ?req)) (logical_servers demo_catalog) = Some (demo_server ''CH#2'' ''CH'' 0 10)"
    by (simp add: demo_defs matches_exact_def)
  have "eliminating_stage (demo_server ''CH#2'' ''CH'' 0 10) ?req SelectionContext_default = Ok (Some Offline)"
    by (simp add: eliminating_stage_def account_tier_stage_def online_stage_def stage_or_def demo_defs)
  with f have s: "select demo_catalog ?req SelectionContext_default = Err (ExactServerUnavailable ''CH#2'' Offline)"
    unfolding select_def filter_candidates_eq [OF demo_catalog_ok]
    by (simp add: exact_refusal_def Let_def)
      (simp add: check_defs demo_defs exact_name_def eligible_def in_scope_def connectable_def)
  have "is_exact (target ?req)" by (simp add: demo_request_def is_exact_def)
  from exact_target_never_falls_back [OF demo_catalog_ok this] s f show ?thesis by fastforce
qed

text \<open>
  The staged pipeline refines the declarative eligibility: on a validated catalog,
  \<open>filter_candidates\<close> is its up-front checks followed by one filter, and its report counts,
  for every stage, exactly the servers that stage eliminated.
\<close>

theorem filter_candidates_refines:
  assumes "catalog_ok catalog"
  shows "filter_candidates catalog req ctx =
    and_then (check_request req ctx) (\<lambda>_.
      let ss = logical_servers catalog; surv = filter (\<lambda>s. eligible s req ctx) ss
      in if is_exact (target req) \<and> surv = [] then exact_refusal ss req ctx
         else Ok (surv, \<lparr>considered = length ss, survivors = length surv,
           stages = map (\<lambda>(st, _). (st, length (filter (\<lambda>s. eliminating_stage s req ctx = Ok (Some st)) ss)))
             STAGES\<rparr>))"
  using filter_candidates_eq [OF assms, of req ctx]
  by (simp add: Let_def filter_report_def eliminated_at_def)

theorem filter_candidates_refines_witness:
  "\<exists>rep. filter_candidates demo_catalog (demo_request Fastest Official) SelectionContext_default =
     Ok ([demo_server ''US#1'' ''US'' 1 40, demo_server ''CH#1'' ''CH'' 1 20], rep) \<and> considered rep = 3"
  using filter_candidates_refines [OF demo_catalog_ok, of "demo_request Fastest Official" SelectionContext_default]
  by (simp add: demo_check demo_catalog_def demo_eligible Let_def)

text \<open>
  The hard requirements hold for everything returned: with the physical country excluded
  that country is known and no returned server exits in it; with port forwarding required
  the account is entitled and the capability source names each returned server; and a
  Secure Core target returns only real routes, entering and leaving in different countries.
\<close>

theorem select_hard_requirements:
  assumes "catalog_ok catalog" and "select catalog req ctx = Ok out" and "c \<in> set (ranked out)"
  shows "(exclude_physical_country (constraints req) \<longrightarrow>
      (\<exists>pc. physical_country (constraints req) = Some pc \<and> exit_country (server c) \<noteq> pc)) \<and>
    (PortForwarding \<in> set (required_features (constraints req)) \<longrightarrow>
      port_forwarding_entitled ctx = Some True \<and>
      (\<exists>ids. port_forwarding_capable ctx = Some ids \<and> ls_id (server c) \<in> set ids)) \<and>
    (is_secure_core_target (target req) \<longrightarrow> entry_country (server c) \<noteq> exit_country (server c))"
proof -
  have e: "eligible (server c) req ctx" using ranked_set [OF assms(1,2)] assms(3) answers_iff by blast
  have chk: "check_request req ctx = Ok ()" using assms(1,2) by (rule select_Ok_cases)
  have "physical_country (constraints req) \<noteq> None" if "exclude_physical_country (constraints req)"
    using chk that by (auto simp: check_request_def res_simps split: if_splits)
  moreover have "feature_holds (server c) PortForwarding ctx"
    if "PortForwarding \<in> set (required_features (constraints req))"
    using e that by (simp add: eligible_def)
  moreover have "entry_country (server c) \<noteq> exit_country (server c)" if "is_secure_core_target (target req)"
    using e that by (auto simp: eligible_def in_scope_def is_secure_core_target_def split: Target.splits)
  ultimately show ?thesis
    using e by (auto simp: eligible_def not_excluded_def feature_holds_def pf_holds_for_def split: option.splits)
qed

definition demo_private_request :: SelectionRequest where
  "demo_private_request = (demo_request Fastest Official)\<lparr>constraints :=
     Constraints_default\<lparr>exclude_physical_country := True, physical_country := Some ''CH''\<rparr>\<rparr>"

theorem select_hard_requirements_witness:
  "\<exists>out c. select demo_catalog demo_private_request SelectionContext_default = Ok out \<and>
     c \<in> set (ranked out) \<and> exit_country (server c) \<noteq> ''CH''"
proof -
  let ?us = "demo_server ''US#1'' ''US'' 1 40"
  have e: "eligible (demo_server n cc st l) demo_private_request SelectionContext_default \<longleftrightarrow> st = 1 \<and> cc \<noteq> ''CH''"
    for n cc st l
    by (auto simp: eligible_def demo_defs demo_private_request_def connectable_def in_scope_def secure_core_def
        has_def not_excluded_def)
  have chk: "check_request demo_private_request SelectionContext_default = Ok ()"
    by (simp add: check_defs demo_defs demo_private_request_def validate_country_def is_ascii_uppercase_def
        less_eq_char_def)
  have "filter_candidates demo_catalog demo_private_request SelectionContext_default =
      Ok ([?us], filter_report (logical_servers demo_catalog) demo_private_request SelectionContext_default)"
    unfolding filter_candidates_eq [OF demo_catalog_ok] by (simp add: chk demo_catalog_def e Let_def)
  then obtain out where s: "select demo_catalog demo_private_request SelectionContext_default = Ok out"
    and "ranked out = [ranked_catalog_only ?us]"
    by (simp add: select_def rank_by_policy_def rank_official_def demo_private_request_def demo_request_def
        demo_server_def)
  with select_hard_requirements [OF demo_catalog_ok s, of "ranked_catalog_only ?us"] show ?thesis
    by (intro exI [of _ out] exI [of _ "ranked_catalog_only ?us"])
      (simp add: demo_private_request_def)
qed

end
