(* ===== verification/Selection_Order.thy ===== *)
theory Selection_Order
  imports Selection
begin

text \<open>
  The order of what \<open>select\<close> returns: each deterministic policy's list is in the order the
  policy promises, stated without the comparators, and does not depend on the order of the catalog, the balanced model respects
  dominance in exact binary32 arithmetic, and the random policy deals whole countries.
\<close>

section \<open>Sortedness\<close>

definition policy_cmp :: "RankingPolicy \<Rightarrow> RankedCandidate \<Rightarrow> RankedCandidate \<Rightarrow> ordering" where
  "policy_cmp p =
     (case p of
        Official \<Rightarrow> official_cmp
      | Latency \<Rightarrow> latency_cmp
      | LowestLoad \<Rightarrow> load_cmp
      | Balanced w \<Rightarrow> balanced_cmp
      | Random \<Rightarrow> (\<lambda>_ _. Equal))"

lemma comparator_policy: "comparator (policy_cmp p)"
proof (cases p)
  case Random
  then show ?thesis by unfold_locales (simp_all add: policy_cmp_def)
qed (simp_all add: policy_cmp_def comparator_official comparator_latency comparator_load comparator_balanced)

interpretation policy_order: comparator "policy_cmp p" for p
  by (rule comparator_policy)

text \<open>The candidate a policy builds from a server; only the balanced one looks at the pool.\<close>

definition candidate_of ::
  "SelectionRequest \<Rightarrow> SelectionContext \<Rightarrow> LogicalServer list \<Rightarrow> LogicalServer \<Rightarrow> RankedCandidate" where
  "candidate_of req ctx pool s =
     (case policy req of
        Latency \<Rightarrow> ranked_observed (latency ctx) s
      | Balanced w \<Rightarrow> \<lparr>server = s, signals = \<lparr>proton_score = score s, sig_load = load s,
          sig_latency = btree_get (latency ctx) (ls_id s),
          weighted = Some (balanced_breakdown w req ctx (max_latency (latency ctx) pool) s)\<rparr>\<rparr>
      | _ \<Rightarrow> ranked_catalog_only s)"

lemma server_candidate_of [simp]: "server (candidate_of req ctx pool s) = s"
  by (simp add: candidate_of_def ranked_observed_def split: RankingPolicy.splits)

lemma collect_balanced_eq:
  "collect_res (balanced_candidate w req ctx (max_latency (latency ctx) pool)) ss = Ok rk \<Longrightarrow>
   policy req = Balanced w \<Longrightarrow> rk = map (candidate_of req ctx pool) ss"
  unfolding collect_res_Ok_iff
  by (induction rule: list_all2_induct)
    (auto simp: balanced_candidate_def candidate_of_def Let_def split: if_splits)

lemma rank_step_shape:
  assumes "rank_step req ctx cs rep = Ok (rk, rep')" and "policy req \<noteq> Random"
  shows "rk = sort_by (policy_cmp (policy req))
    (map (candidate_of req ctx (filter (policy_keeps (policy req) ctx) cs)) (filter (policy_keeps (policy req) ctx) cs))"
proof (cases "is_exact (target req) \<and> length cs = 1 \<and> policy req = Official")
  case True
  with assms(1) obtain c where "cs = [c]" "rk = map ranked_catalog_only cs"
    by (auto simp: rank_step_def length_Suc_conv)
  with True show ?thesis by (simp add: policy_keeps_def [abs_def] candidate_of_def [abs_def])
next
  case False
  with assms(1) have r: "rank_by_policy req ctx cs rep = Ok (rk, rep')"
    by (auto simp: rank_step_def split: if_splits)
  show ?thesis
  proof (cases "policy req")
    case Official
    with r show ?thesis
      by (auto simp: rank_by_policy_def policy_cmp_def res_simps rank_official_Ok policy_keeps_def [abs_def] candidate_of_def [abs_def])
  next
    case (Balanced w)
    with r have "rank_balanced cs w req ctx rep = Ok (rk, rep')" by (simp add: rank_by_policy_def)
    with Balanced show ?thesis
      by (auto simp: policy_cmp_def policy_keeps_def [abs_def] dest: collect_balanced_eq elim!: rank_balanced_Ok)
  next
    case LowestLoad
    with r show ?thesis
      by (auto simp: rank_by_policy_def policy_cmp_def res_simps rank_lowest_load_eq policy_keeps_def [abs_def] candidate_of_def [abs_def])
  next
    case Latency
    with r have l: "rank_lowest_latency cs ctx rep = Ok (rk, rep')" by (simp add: rank_by_policy_def)
    then have "latency ctx \<noteq> []" by (auto simp: rank_lowest_latency_def)
    with l Latency show ?thesis
      by (auto simp: policy_cmp_def res_simps rank_lowest_latency_eq policy_keeps_def [abs_def] candidate_of_def [abs_def])
  next
    case Random
    with assms(2) show ?thesis by simp
  qed
qed

lemma rank_step_sorted:
  assumes "rank_step req ctx cs rep = Ok (rk, rep')" and "policy req \<noteq> Random"
  shows "sorted_wrt (\<lambda>a b. policy_cmp (policy req) a b \<noteq> Greater) rk"
  unfolding rank_step_shape [OF assms] by (rule policy_order.sort_by_sorted)

text \<open>
  What each policy promises of two candidates, the first before the second, written down without
  the comparators. A score or a total is ordered by the total order of binary32, a latency by its
  seconds and then its nanoseconds; the logical id decides last. The balanced total is the one of the
  weighted breakdown, with \<open>m\<close> the greatest latency of the servers ranked.
\<close>

definition ranked_before :: "SelectionRequest \<Rightarrow> SelectionContext \<Rightarrow> f32 \<Rightarrow> RankedCandidate \<Rightarrow> RankedCandidate \<Rightarrow> bool" where
  "ranked_before req ctx m a b \<longleftrightarrow>
     (case policy req of
        Official \<Rightarrow> (\<exists>x y. score (server a) = Some x \<and> score (server b) = Some y \<and>
          (f32_total_key x < f32_total_key y \<or> f32_total_key x = f32_total_key y \<and>
            (let u = (case load (server a) of Some l \<Rightarrow> l | None \<Rightarrow> 127); v = (case load (server b) of Some l \<Rightarrow> l | None \<Rightarrow> 127)
             in u < v \<or> u = v \<and> ls_id (server a) \<le> ls_id (server b))))
      | Latency \<Rightarrow> (\<exists>x y. btree_get (latency ctx) (ls_id (server a)) = Some x \<and> btree_get (latency ctx) (ls_id (server b)) = Some y \<and>
          (secs x < secs y \<or> secs x = secs y \<and> (nanos x < nanos y \<or>
            nanos x = nanos y \<and> ls_id (server a) \<le> ls_id (server b))))
      | LowestLoad \<Rightarrow> (\<exists>x y. load (server a) = Some x \<and> load (server b) = Some y \<and>
          (x < y \<or> x = y \<and> ls_id (server a) \<le> ls_id (server b)))
      | Balanced w \<Rightarrow>
          (let x = total (balanced_breakdown w req ctx m (server a)); y = total (balanced_breakdown w req ctx m (server b))
           in f32_total_key x < f32_total_key y \<or> f32_total_key x = f32_total_key y \<and> ls_id (server a) \<le> ls_id (server b))
      | Random \<Rightarrow> True)"

lemma cmp_on_not_Greater: "cmp_on f a b \<noteq> Greater \<longleftrightarrow> f a \<le> f b"
  by (auto simp: cmp_on_def)

lemma then_with_not_Greater:
  "then_with (cmp_on f a b) c \<noteq> Greater \<longleftrightarrow> f a < f b \<or> f a = f b \<and> c \<noteq> Greater"
  by (simp add: then_with_def cmp_on_def)

lemma then_with_assoc: "then_with (then_with a b) c = then_with a (then_with b c)"
  by (simp add: then_with_def)

lemmas order_unfold = f32_total_cmp_def duration_cmp_def then_with_assoc then_with_not_Greater cmp_on_not_Greater

lemma policy_cmp_ranked_before:
  assumes "a = candidate_of req ctx pool s" and "b = candidate_of req ctx pool t"
    and "policy_keeps (policy req) ctx s" and "policy_keeps (policy req) ctx t"
    and "policy req = Official \<Longrightarrow> score s \<noteq> None \<and> score t \<noteq> None"
    and "policy_cmp (policy req) a b \<noteq> Greater"
  shows "ranked_before req ctx (max_latency (latency ctx) pool) a b"
proof (cases "policy req")
  case Official
  with assms show ?thesis
    by (auto simp: policy_cmp_def official_cmp_def ranked_before_def order_unfold unwrap_or_def i8_max_def Let_def
        cmp_on_def then_with_def candidate_of_def split: option.splits if_splits)
next
  case (Balanced w)
  with assms show ?thesis
    by (auto simp: policy_cmp_def balanced_cmp_def ranked_before_def Let_def candidate_of_def f32_total_cmp_def
        cmp_on_def then_with_def split: if_splits)
next
  case Latency
  with assms show ?thesis
    by (auto simp: policy_cmp_def latency_cmp_def ranked_before_def order_unfold policy_keeps_def observed_def candidate_of_def
        ranked_observed_def)
next
  case LowestLoad
  with assms show ?thesis
    by (auto simp: policy_cmp_def load_cmp_def ranked_before_def order_unfold policy_keeps_def unwrap_or_def candidate_of_def)
qed (simp add: ranked_before_def)

lemma rank_step_scores:
  assumes "rank_step req ctx cs rep = Ok (rk, rep')" and "policy req = Official"
  shows "length rk = 1 \<or> (\<forall>s\<in>set cs. score s \<noteq> None)"
proof (cases "is_exact (target req) \<and> length cs = 1 \<and> policy req = Official")
  case True
  with assms(1) show ?thesis by (auto simp: rank_step_def)
next
  case False
  with assms have "rank_by_policy req ctx cs rep = Ok (rk, rep')" by (auto simp: rank_step_def split: if_splits)
  with assms(2) show ?thesis by (auto simp: rank_by_policy_def res_simps rank_official_Ok)
qed

lemma rank_step_ranked_before:
  assumes "rank_step req ctx cs rep = Ok (rk, rep')" and "policy req \<noteq> Random"
  shows "sorted_wrt (ranked_before req ctx (max_latency (latency ctx) (filter (policy_keeps (policy req) ctx) cs))) rk"
proof (cases "length rk = 1")
  case True
  then show ?thesis by (auto simp: length_Suc_conv)
next
  case False
  let ?pool = "filter (policy_keeps (policy req) ctx) cs"
  have "set rk = candidate_of req ctx ?pool ` set ?pool" unfolding rank_step_shape [OF assms] by simp
  then have img: "\<exists>s\<in>set ?pool. a = candidate_of req ctx ?pool s" if "a \<in> set rk" for a using that by auto
  have sc: "score s \<noteq> None" if "policy req = Official" "s \<in> set ?pool" for s
    using rank_step_scores [OF assms(1)] False that by auto
  have "ranked_before req ctx (max_latency (latency ctx) ?pool) a b"
    if ab: "a \<in> set rk" "b \<in> set rk" "policy_cmp (policy req) a b \<noteq> Greater" for a b
  proof -
    obtain s t where "s \<in> set ?pool" "t \<in> set ?pool" "a = candidate_of req ctx ?pool s" "b = candidate_of req ctx ?pool t"
      using img ab(1,2) by blast
    with sc ab(3) show ?thesis by (intro policy_cmp_ranked_before [of a req ctx ?pool s b t]) auto
  qed
  from sorted_wrt_mono_rel [OF this rank_step_sorted [OF assms]] show ?thesis .
qed

section \<open>Random\<close>

text \<open>
  The random policy deals whole countries: the list is the answer set in blocks, one
  non-empty block per exit country and no country twice, whatever the entropy. The first
  server is thus the head of the first country's shuffled block, and the rest of the list
  is a full continuation.
\<close>

theorem random_deals_country_blocks:
  assumes "catalog_ok catalog" and "select catalog req ctx = Ok out" and "policy req = Random"
  shows "\<exists>gs. map server (ranked out) = concat (map snd gs) \<and> distinct (map fst gs) \<and>
    list_all (\<lambda>(cc, ss). ss \<noteq> [] \<and> list_all (\<lambda>s. exit_country s = cc) ss) gs \<and>
    mset (map server (ranked out)) = mset (filter (\<lambda>s. eligible s req ctx) (logical_servers catalog))"
  using assms(1,2)
proof (rule select_Ok_cases)
  let ?cs = "filter (\<lambda>s. eligible s req ctx) (logical_servers catalog)"
  assume "rank_step req ctx ?cs (filter_report (logical_servers catalog) req ctx) = Ok (ranked out, report out)"
  then obtain e where "rank_random ?cs e = Ok (ranked out)"
    using assms(3) by (auto simp: rank_step_def rank_by_policy_def res_simps split: option.splits)
  moreover obtain gs where "rank_random ?cs e = Ok (map ranked_catalog_only (concat (map snd gs)))"
    "country_blocks gs" "mset (concat (map snd gs)) = mset ?cs"
    using rank_random_blocks [OF catalog_length [OF assms(1)]] by blast
  ultimately have rk: "ranked out = map ranked_catalog_only (concat (map snd gs))" by simp
  have "group_ok = (\<lambda>(cc, ss). ss \<noteq> [] \<and> list_all (\<lambda>s. exit_country s = cc) ss)"
    by (simp add: group_ok_def fun_eq_iff)
  with \<open>country_blocks gs\<close> have gs: "list_all (\<lambda>(cc, ss). ss \<noteq> [] \<and> list_all (\<lambda>s. exit_country s = cc) ss) gs"
    "distinct (map fst gs)" by (simp_all only: country_blocks_def)
  have cat: "map server (ranked out) = concat (map snd gs)"
    unfolding rk by (simp add: comp_def del: map_concat)
  show ?thesis
    by (intro exI [of _ gs] conjI) (simp_all only: gs cat \<open>mset (concat (map snd gs)) = mset ?cs\<close>)
qed

theorem random_deals_country_blocks_witness:
  "\<exists>(gs :: (string \<times> LogicalServer list) list) out.
     select demo_catalog (demo_request Fastest Random) (SelectionContext_default\<lparr>random_entropy := Some 7\<rparr>) = Ok out \<and>
     map server (ranked out) = concat (map snd gs) \<and> distinct (map fst gs)"
proof -
  let ?ctx = "SelectionContext_default\<lparr>random_entropy := Some 7\<rparr>" and ?req = "demo_request Fastest Random"
  have e: "eligible (demo_server n cc st l) ?req ?ctx \<longleftrightarrow> st = 1" for n cc st l
    by (simp add: eligible_def demo_defs connectable_def in_scope_def secure_core_def has_def not_excluded_def)
  obtain rk where rk: "rank_random [demo_server ''US#1'' ''US'' 1 40, demo_server ''CH#1'' ''CH'' 1 20] 7 = Ok rk"
    "mset (map server rk) = {#demo_server ''US#1'' ''US'' 1 40, demo_server ''CH#1'' ''CH'' 1 20#}"
    using rank_random_blocks [of "[demo_server ''US#1'' ''US'' 1 40, demo_server ''CH#1'' ''CH'' 1 20]" 7]
    by (auto simp: comp_def)
  have "rk \<noteq> []" using rk(2) by auto
  have f: "filter_candidates demo_catalog ?req ?ctx =
      Ok ([demo_server ''US#1'' ''US'' 1 40, demo_server ''CH#1'' ''CH'' 1 20],
        filter_report (logical_servers demo_catalog) ?req ?ctx)"
    unfolding filter_candidates_eq [OF demo_catalog_ok] by (simp add: demo_check demo_catalog_def e)
  from rk(1) \<open>rk \<noteq> []\<close> obtain out where s: "select demo_catalog ?req ?ctx = Ok out"
    unfolding select_def f by (simp add: is_exact_def demo_request_def rank_by_policy_def)
  moreover have "policy ?req = Random" by (simp add: demo_request_def)
  ultimately show ?thesis using random_deals_country_blocks [OF demo_catalog_ok s] by blast
qed

section \<open>Totals of the balanced model\<close>

lemma f32_gt_zero: "f32_gt v f32_zero \<Longrightarrow> f32_is_finite v \<Longrightarrow> f32_nonneg v"
  by (auto simp: f32_gt_def f32_value_key_def f32_zero_def f32_nonneg_def f32_is_finite_def split: if_splits)

lemma weight_usable_cases:
  assumes "weight_usable v"
  obtains "f32_nonneg v" "f32_is_finite v" | "v = F32 True 0"
  using assms
  by (cases v) (auto simp: weight_usable_def f32_ge_def f32_value_key_def f32_zero_def f32_nonneg_def
      f32_is_finite_def split: if_splits)

lemma f32_add_neg_zero: "f32_nonneg a \<Longrightarrow> f32_add a (F32 True 0) = a"
proof (cases "f32_is_finite a")
  case True
  assume nn: "f32_nonneg a"
  then have "round_mag (mag_units (f32_mag a)) 1 = f32_mag a"
    using True by (intro round_mag_exact) (simp add: f32_is_finite_def)
  moreover have "f32_mag a = 0" if "mag_units (f32_mag a) = 0"
    using that mag_units_pos [of "f32_mag a"] by (cases "f32_mag a") auto
  ultimately show ?thesis
    using True nn by (cases a) (auto simp: f32_add_def f32_is_nan_def f32_is_inf_def f32_is_finite_def
        f32_nonneg_def f32_units_def Let_def f32_inf_mag_def)
next
  case False
  assume "f32_nonneg a"
  with False show ?thesis
    by (cases a) (auto simp: f32_add_def f32_is_nan_def f32_is_inf_def f32_is_finite_def f32_nonneg_def f32_inf_mag_def)
qed

lemma ratio_finite: "f32_mag q \<le> 1065353216 \<Longrightarrow> f32_is_finite q"
  by (simp add: f32_is_finite_def f32_inf_mag_def)

lemma load_component_nonneg_mono:
  assumes "weights_is_valid w" "0 \<le> unwrap_or (load a) 0" "unwrap_or (load a) 0 \<le> unwrap_or (load b) 0"
    "unwrap_or (load b) 0 \<le> 100"
  shows "f32_nonneg (load_component w a)" "f32_nonneg (load_component w b)"
    "f32_mag (load_component w a) \<le> f32_mag (load_component w b)"
proof -
  let ?q = "\<lambda>s. f32_div (f32_of_int (unwrap_or (load s) 0)) (f32_of_nat 100)"
  have h: "f32_nonneg (f32_of_nat 100)" "f32_is_finite (f32_of_nat 100)" "f32_mag (f32_of_nat 100) \<noteq> 0"
    using f32_of_nat_pos [of 100] by (auto intro: f32_of_nat_u64)
  have le: "f32_mag (f32_of_int i) \<le> f32_mag (f32_of_nat 100)" if "0 \<le> i" "i \<le> 100" for i
    using f32_of_int_mono [OF that] by (simp add: f32_of_int_def f32_of_nat_def)
  have q: "f32_nonneg (?q s)" "f32_mag (?q s) \<le> 1065353216" if "s \<in> {a, b}" for s
    using that assms by (auto intro!: f32_div_le_one f32_nonneg_of_int h le)
  have fb: "f32_is_finite (f32_of_int (unwrap_or (load b) 0))"
    using h(2) le [of "unwrap_or (load b) 0"] assms by (simp add: f32_is_finite_def)
  have qm: "f32_mag (?q a) \<le> f32_mag (?q b)"
    by (rule f32_div_mono [OF h]) (use assms fb in \<open>simp_all add: f32_nonneg_of_int f32_of_int_mono\<close>)
  have "f32_nonneg (load_component w a) \<and> f32_nonneg (load_component w b) \<and>
    f32_mag (load_component w a) \<le> f32_mag (load_component w b)"
  proof (cases "f32_gt (ws_load w) f32_zero")
    case True
    then have "f32_nonneg (ws_load w)" "f32_is_finite (ws_load w)"
      using assms(1) f32_gt_zero by (auto simp: weights_is_valid_def weight_usable_def)
    with True q qm show ?thesis
      by (simp add: load_component_def f32_nonneg_mul f32_mul_mono ratio_finite)
  qed (simp add: load_component_def)
  then show "f32_nonneg (load_component w a)" "f32_nonneg (load_component w b)"
    "f32_mag (load_component w a) \<le> f32_mag (load_component w b)" by auto
qed

lemma latency_component_nonneg_mono:
  assumes "weights_is_valid w" "f32_nonneg maxl" "f32_is_finite maxl"
    and "\<And>l. la = Some l \<Longrightarrow> duration_ok l \<and> f32_mag (as_secs_f32 l) \<le> f32_mag maxl"
    and "\<And>l. lb = Some l \<Longrightarrow> duration_ok l \<and> f32_mag (as_secs_f32 l) \<le> f32_mag maxl"
    and "f32_gt (ws_latency w) f32_zero \<Longrightarrow> la \<noteq> None \<and> lb \<noteq> None \<and>
      f32_mag (as_secs_f32 (the la)) \<le> f32_mag (as_secs_f32 (the lb))"
  shows "f32_nonneg (latency_component w maxl la)" "f32_nonneg (latency_component w maxl lb)"
    "f32_mag (latency_component w maxl la) \<le> f32_mag (latency_component w maxl lb)"
proof -
  have "f32_nonneg (latency_component w maxl la) \<and> f32_nonneg (latency_component w maxl lb) \<and>
    f32_mag (latency_component w maxl la) \<le> f32_mag (latency_component w maxl lb)"
  proof (cases "f32_gt (ws_latency w) f32_zero \<and> f32_gt maxl f32_zero")
    case False
    then show ?thesis by (auto simp: latency_component_def split: option.splits)
  next
    case True
    with assms(6) obtain l m where lm: "la = Some l" "lb = Some m"
      "f32_mag (as_secs_f32 l) \<le> f32_mag (as_secs_f32 m)" by auto
    have z: "f32_mag maxl \<noteq> 0" using True by (auto simp: f32_gt_def f32_value_key_def f32_zero_def split: if_splits)
    have w: "f32_nonneg (ws_latency w)" "f32_is_finite (ws_latency w)"
      using assms(1) True f32_gt_zero by (auto simp: weights_is_valid_def weight_usable_def)
    have d: "duration_ok l" "duration_ok m" "f32_mag (as_secs_f32 l) \<le> f32_mag maxl"
      "f32_mag (as_secs_f32 m) \<le> f32_mag maxl" using assms(4,5) lm by auto
    note nn = as_secs_f32_ok [OF d(1)] as_secs_f32_ok [OF d(2)]
    have q: "f32_nonneg (f32_div (as_secs_f32 x) maxl)" "f32_is_finite (f32_div (as_secs_f32 x) maxl)"
      if "x \<in> {l, m}" for x
      using that d nn assms(2,3) z by (auto intro!: f32_div_le_one ratio_finite)
    have "f32_mag (f32_div (as_secs_f32 l) maxl) \<le> f32_mag (f32_div (as_secs_f32 m) maxl)"
      using nn assms(2,3) z lm(3) by (intro f32_div_mono) auto
    with True lm w q show ?thesis
      by (auto simp: latency_component_def intro!: f32_nonneg_mul f32_mul_mono)
  qed
  then show "f32_nonneg (latency_component w maxl la)" "f32_nonneg (latency_component w maxl lb)"
    "f32_mag (latency_component w maxl la) \<le> f32_mag (latency_component w maxl lb)" by auto
qed

definition features_held :: "LogicalServer \<Rightarrow> SelectionRequest \<Rightarrow> SelectionContext \<Rightarrow> nat" where
  "features_held s req ctx =
     length (filter (\<lambda>f. feature_holds s f ctx) (optional_features (constraints req)))"

lemma optional_match_ratio_ok:
  assumes "length (optional_features (constraints req)) < 2 ^ 64"
  shows "f32_nonneg (optional_match_ratio s (optional_features (constraints req)) ctx)"
    "f32_mag (optional_match_ratio s (optional_features (constraints req)) ctx) \<le> 1065353216"
    "features_held s req ctx \<le> features_held s' req ctx \<Longrightarrow>
       f32_mag (optional_match_ratio s (optional_features (constraints req)) ctx) \<le>
       f32_mag (optional_match_ratio s' (optional_features (constraints req)) ctx)"
proof -
  let ?opt = "optional_features (constraints req)"
  have "f32_nonneg (optional_match_ratio s ?opt ctx) \<and> f32_mag (optional_match_ratio s ?opt ctx) \<le> 1065353216 \<and>
    (features_held s req ctx \<le> features_held s' req ctx \<longrightarrow>
      f32_mag (optional_match_ratio s ?opt ctx) \<le> f32_mag (optional_match_ratio s' ?opt ctx))"
  proof (cases "?opt = []")
    case True
    then show ?thesis by (simp add: optional_match_ratio_def f32_one_Suc f32_nonneg_def f32_inf_mag_def)
  next
    case False
    then have n: "f32_mag (f32_of_nat (length ?opt)) \<noteq> 0" using f32_of_nat_pos [of "length ?opt"] by simp
    have held: "features_held x req ctx \<le> length ?opt" for x by (simp add: features_held_def)
    then have le: "f32_mag (f32_of_nat (features_held x req ctx)) \<le> f32_mag (f32_of_nat (length ?opt))" for x
      by (rule f32_of_nat_mono)
    have fin: "f32_is_finite (f32_of_nat (length ?opt))" "f32_is_finite (f32_of_nat (features_held x req ctx))" for x
      using f32_of_nat_u64(2) [OF assms] le [of x] by (simp_all add: f32_is_finite_def)
    show ?thesis
      using False n le fin held
      by (auto simp: optional_match_ratio_def features_held_def [symmetric]
          intro!: f32_div_le_one f32_div_mono f32_of_nat_mono)
  qed
  then show "f32_nonneg (optional_match_ratio s ?opt ctx)" "f32_mag (optional_match_ratio s ?opt ctx) \<le> 1065353216"
    "features_held s req ctx \<le> features_held s' req ctx \<Longrightarrow>
       f32_mag (optional_match_ratio s ?opt ctx) \<le> f32_mag (optional_match_ratio s' ?opt ctx)" by auto
qed

definition latencies_ok :: "SelectionContext \<Rightarrow> bool" where
  "latencies_ok ctx \<longleftrightarrow> list_all (\<lambda>(_, d). duration_ok d) (latency ctx)"

lemma latencies_okD: "latencies_ok ctx \<Longrightarrow> btree_get (latency ctx) k = Some d \<Longrightarrow> duration_ok d"
  by (auto simp: latencies_ok_def btree_get_def list_all_iff dest!: map_of_SomeD)

lemma max_latency_ok:
  assumes "latencies_ok ctx"
  shows "f32_nonneg (max_latency (latency ctx) pool)" "f32_is_finite (max_latency (latency ctx) pool)"
    "s \<in> set pool \<Longrightarrow> btree_get (latency ctx) (ls_id s) = Some d \<Longrightarrow>
       f32_mag (as_secs_f32 d) \<le> f32_mag (max_latency (latency ctx) pool)"
proof -
  let ?ds = "List.map_filter (\<lambda>s. btree_get (latency ctx) (ls_id s)) pool"
  let ?xs = "map as_secs_f32 ?ds"
  have ok: "duration_ok d" if "d \<in> set ?ds" for d
    using that latencies_okD [OF assms] by (auto simp: List.map_filter_def)
  then have "list_all f32_nonneg ?xs" by (auto simp: list_all_iff as_secs_f32_ok)
  from foldl_f32_max [OF f32_nonneg_zero this] have m: "f32_nonneg (max_latency (latency ctx) pool)"
    "f32_mag (max_latency (latency ctx) pool) = Max (f32_mag ` set (f32_zero # ?xs))"
    by (simp_all add: max_latency_def)
  show "f32_nonneg (max_latency (latency ctx) pool)" by (rule m)
  have "Max (f32_mag ` set (f32_zero # ?xs)) \<in> f32_mag ` set (f32_zero # ?xs)" by (intro Max_in) auto
  moreover have "f32_is_finite x" if "x \<in> set (f32_zero # ?xs)" for x
    using that ok as_secs_f32_ok(2) by (auto simp: f32_is_finite_def f32_zero_def f32_inf_mag_def)
  ultimately show "f32_is_finite (max_latency (latency ctx) pool)"
    using m(2) by (auto simp: f32_is_finite_def simp del: list.set)
  show "f32_mag (as_secs_f32 d) \<le> f32_mag (max_latency (latency ctx) pool)"
    if "s \<in> set pool" "btree_get (latency ctx) (ls_id s) = Some d"
  proof -
    have "d \<in> set ?ds" using that by (force simp: List.map_filter_def)
    then show ?thesis unfolding m(2) by (intro Max_ge) auto
  qed
qed

lemma balanced_total_mono:
  assumes "weights_is_valid w" "f32_nonneg la" "f32_nonneg lb" "f32_mag la \<le> f32_mag lb"
    and "f32_nonneg r" "f32_nonneg r'" "f32_mag r' \<le> f32_mag r" "f32_mag r \<le> 1065353216"
  shows "f32_total_cmp
    (f32_add (f32_add (f32_add la f32_zero) (f32_mul (ws_feature_match w) (f32_sub (f32_of_nat 1) r))) f32_zero)
    (f32_add (f32_add (f32_add lb f32_zero) (f32_mul (ws_feature_match w) (f32_sub (f32_of_nat 1) r'))) f32_zero) \<noteq> Greater"
proof -
  have r': "f32_mag r' \<le> 1065353216" using assms by simp
  have x: "f32_nonneg (f32_sub (f32_of_nat 1) r)" "f32_is_finite (f32_sub (f32_of_nat 1) r)"
    "f32_nonneg (f32_sub (f32_of_nat 1) r')" "f32_is_finite (f32_sub (f32_of_nat 1) r')"
    "f32_mag (f32_sub (f32_of_nat 1) r) \<le> f32_mag (f32_sub (f32_of_nat 1) r')"
    using f32_one_minus_ok assms r' f32_one_minus_antitone by blast+
  have wu: "weight_usable (ws_feature_match w)" using assms(1) by (simp add: weights_is_valid_def)
  show ?thesis
    using wu
  proof (cases rule: weight_usable_cases)
    case 1
    let ?f = "\<lambda>y. f32_mul (ws_feature_match w) y"
    have f: "f32_nonneg (?f (f32_sub (f32_of_nat 1) r))" "f32_nonneg (?f (f32_sub (f32_of_nat 1) r'))"
      "f32_mag (?f (f32_sub (f32_of_nat 1) r)) \<le> f32_mag (?f (f32_sub (f32_of_nat 1) r'))"
      by (intro f32_nonneg_mul f32_mul_mono 1 x)+
    then have "f32_mag (f32_add la (?f (f32_sub (f32_of_nat 1) r))) \<le> f32_mag (f32_add lb (?f (f32_sub (f32_of_nat 1) r')))"
      using assms by (intro f32_add_mono)
    with assms f show ?thesis by (simp only: f32_add_zero f32_nonneg_add f32_total_cmp_nonneg)
  next
    case 2
    have z: "f32_mul (F32 True 0) y = F32 True 0" if "f32_nonneg y" "f32_is_finite y" for y
      using that by (simp add: f32_mul_def f32_nonneg_def f32_is_finite_def f32_is_nan_def f32_is_inf_def
          f32_inf_mag_def)
    show ?thesis unfolding 2 z [OF x(1,2)] z [OF x(3,4)]
      using assms by (simp add: f32_add_zero f32_add_neg_zero f32_total_cmp_nonneg)
  qed
qed

definition weighted_total :: "RankedCandidate \<Rightarrow> f32" where
  "weighted_total c = total (the (weighted (signals c)))"

lemma balanced_ranked_total:
  assumes "rank_balanced cs w req ctx rep = Ok (rk, rep')" and "c \<in> set rk"
  shows "weights_is_valid w" "server c \<in> set cs" "balanced_keeps w ctx (server c)"
    "weighted_total c = total (balanced_breakdown w req ctx
       (max_latency (latency ctx) (filter (balanced_keeps w ctx) cs)) (server c))"
proof -
  let ?pool = "filter (balanced_keeps w ctx) cs"
  from assms(1) obtain scored where v: "weights_is_valid w"
    and sc: "collect_res (balanced_candidate w req ctx (max_latency (latency ctx) ?pool)) ?pool = Ok scored"
    and rk: "rk = sort_by balanced_cmp scored" by (rule rank_balanced_Ok)
  show "weights_is_valid w" by (rule v)
  from assms(2) have c: "c \<in> set scored" by (simp add: rk)
  have "server ` set scored = set ?pool" using balanced_collect [OF sc] by (metis set_map)
  with c have "server c \<in> set ?pool" by blast
  then show "server c \<in> set cs" "balanced_keeps w ctx (server c)" by auto
  from c obtain i where i: "i < length scored" "scored ! i = c" by (auto simp: in_set_conv_nth)
  from list_all2_nthD2 [OF sc [unfolded collect_res_Ok_iff] i(1)] i(2)
  have "balanced_candidate w req ctx (max_latency (latency ctx) ?pool) (?pool ! i) = Ok c" by simp
  then show "weighted_total c = total (balanced_breakdown w req ctx (max_latency (latency ctx) ?pool) (server c))"
    by (auto simp: balanced_candidate_def weighted_total_def Let_def split: if_splits)
qed

lemma server_ok_load: "server_ok s \<Longrightarrow> 0 \<le> unwrap_or (load s) 0 \<and> unwrap_or (load s) 0 \<le> 100"
  by (simp add: server_ok_def unwrap_or_def split: option.splits)

lemma balanced_dominance:
  assumes r: "rank_balanced cs w req ctx rep = Ok (rk, rep')" "a \<in> set rk" "b \<in> set rk"
    and ok: "latencies_ok ctx" "length (optional_features (constraints req)) < 2 ^ 64"
      "server_ok (server a)" "server_ok (server b)"
    and load: "unwrap_or (load (server a)) 0 \<le> unwrap_or (load (server b)) 0"
    and lat: "\<And>x y. btree_get (latency ctx) (ls_id (server a)) = Some x \<Longrightarrow>
        btree_get (latency ctx) (ls_id (server b)) = Some y \<Longrightarrow>
        f32_total_cmp (as_secs_f32 x) (as_secs_f32 y) \<noteq> Greater"
    and feat: "features_held (server b) req ctx \<le> features_held (server a) req ctx"
  shows "f32_total_cmp (weighted_total a) (weighted_total b) \<noteq> Greater"
proof -
  let ?pool = "filter (balanced_keeps w ctx) cs"
  let ?maxl = "max_latency (latency ctx) ?pool"
  let ?get = "\<lambda>c. btree_get (latency ctx) (ls_id (server c))"
  note ra = balanced_ranked_total [OF r(1,2)] and rb = balanced_ranked_total [OF r(1,3)]
  have pool: "server a \<in> set ?pool" "server b \<in> set ?pool" using ra rb by auto
  have obs: "duration_ok l \<and> f32_mag (as_secs_f32 l) \<le> f32_mag ?maxl" if "?get c = Some l" "c \<in> {a, b}" for c l
    using that pool latencies_okD [OF ok(1)] max_latency_ok(3) [OF ok(1)] by blast
  have both: "?get a \<noteq> None \<and> ?get b \<noteq> None \<and>
      f32_mag (as_secs_f32 (the (?get a))) \<le> f32_mag (as_secs_f32 (the (?get b)))"
    if "f32_gt (ws_latency w) f32_zero"
  proof -
    from that ra(3) rb(3) obtain x y where xy: "?get a = Some x" "?get b = Some y"
      by (auto simp: balanced_keeps_def observed_def)
    then have "f32_nonneg (as_secs_f32 x)" "f32_nonneg (as_secs_f32 y)" using obs as_secs_f32_ok(1) by auto
    with xy lat [OF xy] show ?thesis by (simp add: f32_total_cmp_nonneg)
  qed
  have L: "f32_nonneg (load_component w (server a))" "f32_nonneg (load_component w (server b))"
    "f32_mag (load_component w (server a)) \<le> f32_mag (load_component w (server b))"
    using load_component_nonneg_mono [OF ra(1) _ load] server_ok_load [OF ok(3)] server_ok_load [OF ok(4)]
    by blast+
  have T: "f32_nonneg (latency_component w ?maxl (?get a))" "f32_nonneg (latency_component w ?maxl (?get b))"
    "f32_mag (latency_component w ?maxl (?get a)) \<le> f32_mag (latency_component w ?maxl (?get b))"
    using latency_component_nonneg_mono [OF ra(1) max_latency_ok(1,2) [OF ok(1), of ?pool], of "?get a" "?get b"] obs both
    by blast+
  have LT: "f32_nonneg (f32_add (load_component w (server a)) (latency_component w ?maxl (?get a)))"
    "f32_nonneg (f32_add (load_component w (server b)) (latency_component w ?maxl (?get b)))"
    "f32_mag (f32_add (load_component w (server a)) (latency_component w ?maxl (?get a))) \<le>
     f32_mag (f32_add (load_component w (server b)) (latency_component w ?maxl (?get b)))"
    by (intro f32_nonneg_add f32_add_mono L T)+
  show ?thesis
    unfolding ra(4) rb(4) balanced_breakdown_def Let_def
    using balanced_total_mono [OF ra(1) LT optional_match_ratio_ok(1) [OF ok(2)] optional_match_ratio_ok(1) [OF ok(2)]
        optional_match_ratio_ok(3) [OF ok(2) feat] optional_match_ratio_ok(2) [OF ok(2)]]
    by simp
qed

section \<open>Independence of the catalog order\<close>

lemma max_latency_perm:
  assumes "latencies_ok ctx" and "mset p = mset q"
  shows "max_latency (latency ctx) p = max_latency (latency ctx) q"
proof (rule f32_nonneg_eqI)
  let ?xs = "\<lambda>p. map as_secs_f32 (List.map_filter (\<lambda>s. btree_get (latency ctx) (ls_id s)) p)"
  have nn: "list_all f32_nonneg (?xs r)" for r
    using latencies_okD [OF assms(1)] by (auto simp: list_all_iff List.map_filter_def as_secs_f32_ok)
  have "set (?xs p) = set (?xs q)"
    using mset_eq_setD [OF assms(2)] by (simp add: List.map_filter_def)
  then have "f32_mag ` set (f32_zero # ?xs p) = f32_mag ` set (f32_zero # ?xs q)" by simp
  then show "f32_mag (max_latency (latency ctx) p) = f32_mag (max_latency (latency ctx) q)"
    using foldl_f32_max [OF f32_nonneg_zero nn, of p] foldl_f32_max [OF f32_nonneg_zero nn, of q]
    by (simp only: max_latency_def)
qed (simp_all add: max_latency_ok [OF assms(1)])

lemma candidate_of_perm:
  assumes "latencies_ok ctx" and "mset p = mset q"
  shows "candidate_of req ctx p = candidate_of req ctx q"
  unfolding candidate_of_def [abs_def] max_latency_perm [OF assms] ..

lemma policy_cmp_Equal_id: "p \<noteq> Random \<Longrightarrow> policy_cmp p a b = Equal \<Longrightarrow> ls_id (server a) = ls_id (server b)"
  by (cases p) (auto simp: policy_cmp_def official_cmp_def latency_cmp_def load_cmp_def balanced_cmp_def
      then_with_def cmp_on_def split: if_splits)


text \<open>
  The answer does not depend on the order in which the catalog lists its servers: for
  catalogs with the same servers and distinct logical ids, every policy but the random one
  returns the same list, signals included.
\<close>

theorem select_order_independent:
  assumes "catalog_ok c1" "catalog_ok c2" and perm: "mset (logical_servers c1) = mset (logical_servers c2)"
    and ids: "distinct (map ls_id (logical_servers c1))" and "policy req \<noteq> Random" and "latencies_ok ctx"
    and s1: "select c1 req ctx = Ok o1" and s2: "select c2 req ctx = Ok o2"
  shows "ranked o1 = ranked o2"
proof -
  let ?p = "\<lambda>c. filter (policy_keeps (policy req) ctx) (filter (\<lambda>s. eligible s req ctx) (logical_servers c))"
  have r1: "ranked o1 = sort_by (policy_cmp (policy req)) (map (candidate_of req ctx (?p c1)) (?p c1))"
    using assms(1) s1 by (rule select_Ok_cases) (erule rank_step_shape [OF _ assms(5)])
  have r2: "ranked o2 = sort_by (policy_cmp (policy req)) (map (candidate_of req ctx (?p c2)) (?p c2))"
    using assms(2) s2 by (rule select_Ok_cases) (erule rank_step_shape [OF _ assms(5)])
  have m: "mset (?p c1) = mset (?p c2)" using perm by simp
  then have "candidate_of req ctx (?p c1) = candidate_of req ctx (?p c2)"
    by (rule candidate_of_perm [OF assms(6)])
  then have "mset (map (candidate_of req ctx (?p c1)) (?p c1)) = mset (map (candidate_of req ctx (?p c2)) (?p c2))"
    using m by (metis mset_map)
  then show ?thesis unfolding r1 r2
  proof (rule policy_order.sort_by_mset_unique)
    fix a b
    assume ab: "a \<in> set (map (candidate_of req ctx (?p c1)) (?p c1))" "b \<in> set (map (candidate_of req ctx (?p c1)) (?p c1))"
      and "policy_cmp (policy req) a b = Equal"
    then have "ls_id (server a) = ls_id (server b)" using policy_cmp_Equal_id [OF assms(5)] by blast
    moreover have "server a \<in> set (logical_servers c1)" "server b \<in> set (logical_servers c1)" using ab by auto
    ultimately have "server a = server b" using ids by (metis distinct_map inj_onD)
    with ab show "a = b" by auto
  qed
qed

definition demo_catalog_reversed :: CatalogDocument where
  "demo_catalog_reversed = demo_catalog\<lparr>logical_servers := rev (logical_servers demo_catalog)\<rparr>"

lemma demo_reversed_ok: "catalog_ok demo_catalog_reversed"
  using demo_catalog_ok
  by (simp add: demo_catalog_reversed_def catalog_ok_def physical_count_def list_all_iff flip: rev_map)

lemma demo_select_reversed:
  "\<exists>rep. select demo_catalog_reversed (demo_request Fastest Official) SelectionContext_default =
     Ok \<lparr>ranked = ranked demo_outcome, report = rep\<rparr>"
proof -
  have f: "filter_candidates demo_catalog_reversed (demo_request Fastest Official) SelectionContext_default =
      Ok ([demo_server ''CH#1'' ''CH'' 1 20, demo_server ''US#1'' ''US'' 1 40],
        filter_report (logical_servers demo_catalog_reversed) (demo_request Fastest Official) SelectionContext_default)"
    unfolding filter_candidates_eq [OF demo_reversed_ok]
    by (simp add: demo_check demo_eligible demo_catalog_def demo_catalog_reversed_def Let_def)
  show ?thesis
    unfolding select_def f demo_outcome_def
    by (simp add: demo_request_def is_exact_def rank_by_policy_def rank_official_def demo_server_def
      official_cmp_def ranked_catalog_only_def unwrap_or_def then_with_def f32_total_cmp_def cmp_on_def)
qed

theorem select_order_independent_witness:
  "\<exists>o2. select demo_catalog_reversed (demo_request Fastest Official) SelectionContext_default = Ok o2 \<and>
    ranked demo_outcome = ranked o2"
proof -
  obtain o2 where s2: "select demo_catalog_reversed (demo_request Fastest Official) SelectionContext_default = Ok o2"
    using demo_select_reversed by blast
  have "ranked demo_outcome = ranked o2"
    by (rule select_order_independent [OF demo_catalog_ok demo_reversed_ok _ _ _ _ demo_select s2])
      (simp_all add: demo_catalog_reversed_def demo_catalog_def demo_server_def demo_request_def
        SelectionContext_default_def latencies_ok_def)
  with s2 show ?thesis by blast
qed

section \<open>Dominance under the balanced model\<close>

text \<open>
  The balanced model respects dominance in the arithmetic it is computed in: when one
  ranked candidate has no more load, no more measured latency and at least as many of the
  optional features as another, its weighted total is not greater, for every valid weight
  set, with all roundings of binary32 accounted for.
\<close>

theorem balanced_respects_dominance:
  assumes "catalog_ok catalog" "select catalog req ctx = Ok out" "policy req = Balanced w"
    and "a \<in> set (ranked out)" "b \<in> set (ranked out)"
    and "latencies_ok ctx" "length (optional_features (constraints req)) < 2 ^ 64"
    and "unwrap_or (load (server a)) 0 \<le> unwrap_or (load (server b)) 0"
    and "\<And>x y. btree_get (latency ctx) (ls_id (server a)) = Some x \<Longrightarrow>
        btree_get (latency ctx) (ls_id (server b)) = Some y \<Longrightarrow>
        f32_total_cmp (as_secs_f32 x) (as_secs_f32 y) \<noteq> Greater"
    and "features_held (server b) req ctx \<le> features_held (server a) req ctx"
  shows "f32_total_cmp (weighted_total a) (weighted_total b) \<noteq> Greater"
proof -
  let ?cs = "filter (\<lambda>s. eligible s req ctx) (logical_servers catalog)"
  have "rank_step req ctx ?cs (filter_report (logical_servers catalog) req ctx) = Ok (ranked out, report out)"
    using assms(1,2) by (rule select_Ok_cases)
  then have r: "rank_balanced ?cs w req ctx (filter_report (logical_servers catalog) req ctx) = Ok (ranked out, report out)"
    using assms(3) by (simp add: rank_step_def rank_by_policy_def)
  have "server c \<in> set (logical_servers catalog)" if "c \<in> set (ranked out)" for c
    using balanced_ranked_total(2) [OF r that] by simp
  then have "server_ok (server a)" "server_ok (server b)" using assms(1,4,5) server_okD by blast+
  with balanced_dominance [OF r assms(4,5,6,7) _ _ assms(8,9,10)] show ?thesis by blast
qed

definition demo_weights :: WeightedSignals where
  "demo_weights = DEFAULT_ZEROED\<lparr>ws_load := F32 False 1065353216\<rparr>"

lemma demo_weights_valid: "weights_is_valid demo_weights"
  by (simp add: weights_is_valid_def demo_weights_def DEFAULT_ZEROED_def weight_usable_def f32_is_finite_def
      f32_ge_def f32_zero_def f32_inf_mag_def f32_is_nan_def f32_value_key_def)

lemma demo_load_component:
  assumes "0 \<le> l" "l \<le> 100"
  shows "f32_nonneg (load_component demo_weights (demo_server n cc st l))"
    "f32_is_finite (load_component demo_weights (demo_server n cc st l))"
proof -
  let ?q = "f32_div (f32_of_int l) (f32_of_nat 100)" and ?w = "F32 False 1065353216"
  have h: "f32_is_finite (f32_of_nat 100)" "f32_mag (f32_of_nat 100) \<noteq> 0"
    using f32_of_nat_pos [of 100] by (auto intro: f32_of_nat_u64)
  have "f32_mag (f32_of_int l) \<le> f32_mag (f32_of_nat 100)"
    using f32_of_int_mono [OF assms] by (simp add: f32_of_int_def f32_of_nat_def)
  then have q: "f32_nonneg ?q" "f32_mag ?q \<le> 1065353216"
    using h assms by (auto intro!: f32_div_le_one f32_nonneg_of_int)
  have w: "f32_nonneg ?w" "f32_is_finite ?w" by (simp_all add: f32_nonneg_def f32_is_finite_def f32_inf_mag_def)
  have "f32_mag (f32_mul ?w ?q) \<le> f32_mag (f32_mul ?w ?w)" using q w by (intro f32_mul_mono) simp_all
  also have "f32_mul ?w ?w = f32_of_nat 1"
    using w round_mag_scale [of "2 ^ 149" "2 ^ 149"] mag_units_one by (simp add: f32_mul_finite_eq f32_of_nat_def)
  finally have "f32_is_finite (f32_mul ?w ?q)" by (intro ratio_finite) (simp add: f32_one_Suc)
  moreover have "load_component demo_weights (demo_server n cc st l) = f32_mul ?w ?q"
    by (simp add: load_component_def demo_weights_def demo_server_def unwrap_or_def f32_gt_def f32_is_nan_def
        f32_value_key_def f32_zero_def f32_inf_mag_def)
  ultimately show "f32_nonneg (load_component demo_weights (demo_server n cc st l))"
    "f32_is_finite (load_component demo_weights (demo_server n cc st l))"
    using q w by (auto intro: f32_nonneg_mul ratio_finite)
qed

lemma demo_total:
  assumes "0 \<le> l" "l \<le> 100"
  shows "f32_is_finite (total (balanced_breakdown demo_weights (demo_request Fastest p) SelectionContext_default maxl
     (demo_server n cc st l)))"
proof -
  have one: "f32_nonneg (f32_of_nat 1)" "f32_mag (f32_of_nat 1) \<le> 1065353216"
    by (simp_all add: f32_one_Suc f32_nonneg_def f32_inf_mag_def)
  have "f32_mul f32_zero (f32_sub (f32_of_nat 1) (f32_of_nat 1)) = f32_zero"
    using f32_mul_finite_eq [OF f32_nonneg_zero f32_one_minus_ok(1) [OF one] _ f32_one_minus_ok(2) [OF one]]
    by (simp add: f32_zero_def f32_is_finite_def f32_inf_mag_def)
  then show ?thesis
    using demo_load_component [OF assms, of n cc st]
    by (simp add: balanced_breakdown_def latency_component_def optional_match_ratio_def demo_request_def
        SelectionContext_default_def Constraints_default_def f32_add_zero)
      (simp add: demo_weights_def DEFAULT_ZEROED_def f32_add_zero Let_def)
qed

theorem balanced_respects_dominance_witness:
  "\<exists>out a b. select demo_catalog (demo_request Fastest (Balanced demo_weights)) SelectionContext_default = Ok out \<and>
     a \<in> set (ranked out) \<and> b \<in> set (ranked out) \<and>
     load (server a) = Some 20 \<and> load (server b) = Some 40 \<and>
     f32_total_cmp (weighted_total a) (weighted_total b) \<noteq> Greater"
proof -
  let ?req = "demo_request Fastest (Balanced demo_weights)" and ?ctx = "SelectionContext_default"
  let ?us = "demo_server ''US#1'' ''US'' 1 40" and ?ch = "demo_server ''CH#1'' ''CH'' 1 20"
  have pool: "balanced_pool demo_weights (latency ?ctx) [?us, ?ch] [] 0 0 = ([?us, ?ch], 0, 0)"
    by (simp add: demo_server_def demo_weights_def DEFAULT_ZEROED_def f32_gt_def f32_zero_def)
  have c: "\<exists>x. balanced_candidate demo_weights ?req ?ctx maxl (demo_server n cc 1 l) = Ok x"
    if "0 \<le> l" "l \<le> 100" for maxl n cc l
    using demo_total [OF that] by (simp add: balanced_candidate_def Let_def)
  obtain x y where xy: "collect_res (balanced_candidate demo_weights ?req ?ctx (max_latency (latency ?ctx) [?us, ?ch])) [?us, ?ch]
      = Ok [x, y]"
    using c [of 40 "max_latency (latency ?ctx) [?us, ?ch]" "''US#1''" "''US''"]
      c [of 20 "max_latency (latency ?ctx) [?us, ?ch]" "''CH#1''" "''CH''"] by auto
  note col = balanced_collect [OF xy]
  have "\<not> f32_gt (ws_latency demo_weights) f32_zero"
    by (simp add: demo_weights_def DEFAULT_ZEROED_def f32_gt_def)
  then obtain rep where r: "rank_balanced [?us, ?ch] demo_weights ?req ?ctx (filter_report (logical_servers demo_catalog) ?req ?ctx) =
      Ok (sort_by balanced_cmp [x, y], rep)"
    using pool xy col by (simp add: rank_balanced_def demo_weights_valid charge_def checked_sort_by_def)
  then have "select demo_catalog ?req ?ctx = Ok \<lparr>ranked = sort_by balanced_cmp [x, y], report = rep\<rparr>" (is "_ = Ok ?out")
    unfolding select_def demo_filter by (simp add: demo_request_def is_exact_def rank_by_policy_def)
  moreover have "x \<in> set (ranked ?out)" "y \<in> set (ranked ?out)" by simp_all
  moreover have "load (server y) = Some 20" "load (server x) = Some 40"
    "features_held (server x) ?req ?ctx \<le> features_held (server y) ?req ?ctx"
    using col by (simp_all add: demo_server_def features_held_def demo_request_def Constraints_default_def)
  moreover have "latencies_ok ?ctx" "btree_get (latency ?ctx) k = None" "policy ?req = Balanced demo_weights"
    "optional_features (constraints ?req) = []" for k
    by (simp_all add: latencies_ok_def SelectionContext_default_def demo_request_def Constraints_default_def)
  ultimately show ?thesis
    using balanced_respects_dominance [OF demo_catalog_ok, of ?req ?ctx ?out demo_weights y x]
    by (intro exI [of _ ?out] exI [of _ y] exI [of _ x]) (simp add: unwrap_or_def)
qed

section \<open>The order of the answer\<close>

text \<open>No worse in every signal the balanced policy weighs: load, measured latency, optional features.\<close>

definition no_worse :: "SelectionRequest \<Rightarrow> SelectionContext \<Rightarrow> LogicalServer \<Rightarrow> LogicalServer \<Rightarrow> bool" where
  "no_worse req ctx s t \<longleftrightarrow>
     (case load s of Some l \<Rightarrow> l | None \<Rightarrow> 0) \<le> (case load t of Some l \<Rightarrow> l | None \<Rightarrow> 0) \<and>
     (\<forall>x y. btree_get (latency ctx) (ls_id s) = Some x \<longrightarrow> btree_get (latency ctx) (ls_id t) = Some y \<longrightarrow>
        f32_total_key (as_secs_f32 x) \<le> f32_total_key (as_secs_f32 y)) \<and>
     features_held t req ctx \<le> features_held s req ctx"

lemma balanced_total_order:
  assumes "catalog_ok catalog" "select catalog req ctx = Ok out" "policy req = Balanced w" "latencies_ok ctx"
    "length (optional_features (constraints req)) < 2 ^ 64" "a \<in> set (ranked out)" "b \<in> set (ranked out)"
    "no_worse req ctx (server a) (server b)"
    "m = max_latency (latency ctx) (filter (policy_keeps (policy req) ctx) (filter (\<lambda>s. eligible s req ctx) (logical_servers catalog)))"
  shows "f32_total_key (total (balanced_breakdown w req ctx m (server a))) \<le> f32_total_key (total (balanced_breakdown w req ctx m (server b)))"
proof -
  let ?cs = "filter (\<lambda>s. eligible s req ctx) (logical_servers catalog)"
  have "rank_step req ctx ?cs (filter_report (logical_servers catalog) req ctx) = Ok (ranked out, report out)"
    using assms(1,2) by (rule select_Ok_cases)
  then have r: "rank_balanced ?cs w req ctx (filter_report (logical_servers catalog) req ctx) = Ok (ranked out, report out)"
    using assms(3) by (simp add: rank_step_def rank_by_policy_def)
  have "policy_keeps (policy req) ctx = balanced_keeps w ctx" using assms(3) by (simp add: policy_keeps_def fun_eq_iff)
  then have tot: "weighted_total c = total (balanced_breakdown w req ctx m (server c))" if "c \<in> set (ranked out)" for c
    using balanced_ranked_total(4) [OF r that] assms(9) by simp
  have "f32_total_cmp (weighted_total a) (weighted_total b) \<noteq> Greater"
    using assms(8)
    by (intro balanced_respects_dominance [OF assms(1-3,6,7,4,5)])
      (auto simp: no_worse_def unwrap_or_def f32_total_cmp_def cmp_on_not_Greater split: option.splits)
  then show ?thesis by (simp add: tot [OF assms(6)] tot [OF assms(7)] f32_total_cmp_def cmp_on_not_Greater)
qed

text \<open>
  C6. The list is in the order the policy promises, for every policy but the random one. Official:
  by catalog score ascending, then by load (a missing one last), then by id, every score present
  unless the answer is a single server. Lowest load: by load ascending, every load present, then by
  id. Latency: by measured latency ascending, every server measured, then by id. Balanced: by
  weighted total ascending, then by id; and there, with well-formed latencies and fewer than
  \<open>2 ^ 64\<close> optional features, a server that is no worse than another in load, latency and optional
  features has no greater total, whatever the valid weights. So the first server is a best one.
\<close>

theorem select_in_policy_order:
  assumes "catalog_ok catalog" and "select catalog req ctx = Ok out" and "policy req \<noteq> Random"
    and "m = max_latency (latency ctx) (filter (policy_keeps (policy req) ctx) (filter (\<lambda>s. eligible s req ctx) (logical_servers catalog)))"
  shows "sorted_wrt (ranked_before req ctx m) (ranked out) \<and>
    (\<forall>w. policy req = Balanced w \<longrightarrow> latencies_ok ctx \<longrightarrow> length (optional_features (constraints req)) < 2 ^ 64 \<longrightarrow>
      (\<forall>a\<in>set (ranked out). \<forall>b\<in>set (ranked out). no_worse req ctx (server a) (server b) \<longrightarrow>
        f32_total_key (total (balanced_breakdown w req ctx m (server a))) \<le>
        f32_total_key (total (balanced_breakdown w req ctx m (server b)))))"
proof
  show "sorted_wrt (ranked_before req ctx m) (ranked out)"
    unfolding assms(4) using assms(1,2) by (rule select_Ok_cases) (erule rank_step_ranked_before [OF _ assms(3)])
qed (blast intro: balanced_total_order [OF assms(1,2) _ _ _ _ _ _ assms(4)])

theorem select_in_policy_order_witness:
  "length (ranked demo_outcome) = 2 \<and>
   (\<exists>m. sorted_wrt (ranked_before (demo_request Fastest Official) SelectionContext_default m) (ranked demo_outcome))"
proof
  show "length (ranked demo_outcome) = 2" by (simp add: demo_outcome_def)
  have "policy (demo_request Fastest Official) \<noteq> Random" by (simp add: demo_request_def)
  from select_in_policy_order [OF demo_catalog_ok demo_select this refl]
  show "\<exists>m. sorted_wrt (ranked_before (demo_request Fastest Official) SelectionContext_default m) (ranked demo_outcome)" by blast
qed

end
