(* ===== verification/Deadlines.thy ===== *)
theory Deadlines
  imports Catalog
begin

text \<open>
  The scheduler's persisted document of \<open>crates/store/src/deadlines.rs\<close> and its store:
  strict load (trust walk, size cap, schema version) and atomic save. The JSON library is
  the parameter \<open>deadline_codec\<close>. The store interprets \<open>durable_document\<close>, and with a codec
  that reads back what it wrote, a save that succeeds is what the next start loads.
\<close>

definition DEADLINES_SCHEMA_VERSION :: u32 where
  "DEADLINES_SCHEMA_VERSION = 1"

definition MAX_DEADLINES_BYTES :: usize where
  "MAX_DEADLINES_BYTES = 4 * 1024"

datatype IntervalSource = Configured | ThreeHourFloor | ProtonLifetime | RetryAfter

record SchedulerDeadlines =
  dl_schema_version :: u32
  last_request_unix :: "u64 option"
  last_success_unix :: "u64 option"
  next_eligible_unix :: "u64 option"
  next_eligible_source :: "IntervalSource option"
  wall_high_water_unix :: u64
  suppression_until_unix :: "u64 option"
  automatic_refresh_count :: u64
  manual_refresh_count :: u64

definition SchedulerDeadlines_default :: SchedulerDeadlines where
  "SchedulerDeadlines_default =
     \<lparr>dl_schema_version = DEADLINES_SCHEMA_VERSION, last_request_unix = None, last_success_unix = None,
      next_eligible_unix = None, next_eligible_source = None, wall_high_water_unix = 0,
      suppression_until_unix = None, automatic_refresh_count = 0, manual_refresh_count = 0\<rparr>"

datatype deadline_malformed = DeadlineCodec string | DeadlineSchema u32

datatype DeadlineStoreError =
    DeadlineIo string
  | DeadlineFsTrust FsTrustError
  | DeadlineTooLarge usize
  | DeadlineMalformed deadline_malformed

text \<open>\<open>serde_json\<close> on the document.\<close>

record deadline_codec =
  parse_deadlines :: "bytes \<Rightarrow> string + SchedulerDeadlines"
  render_deadlines :: "SchedulerDeadlines \<Rightarrow> string + bytes"

definition deadline_load_validated ::
  "deadline_codec \<Rightarrow> string option \<Rightarrow> doc_file \<Rightarrow> (DeadlineStoreError, SchedulerDeadlines option) res" where
  "deadline_load_validated codec fault f =
     (case fs_read fault f of
        ReadNotFound \<Rightarrow> Ok None
      | ReadErr e \<Rightarrow> Err (DeadlineIo e)
      | ReadOk bs \<Rightarrow>
          if MAX_DEADLINES_BYTES < length bs then Err (DeadlineTooLarge (length bs))
          else case parse_deadlines codec bs of
              Inl e \<Rightarrow> Err (DeadlineMalformed (DeadlineCodec e))
            | Inr doc \<Rightarrow>
                if dl_schema_version doc \<noteq> DEADLINES_SCHEMA_VERSION
                then Err (DeadlineMalformed (DeadlineSchema (dl_schema_version doc)))
                else Ok (Some doc))"

definition deadline_load_strict ::
  "deadline_codec \<Rightarrow> (path \<Rightarrow> lstat_result) \<Rightarrow> path \<Rightarrow> path \<Rightarrow> string option \<Rightarrow> doc_file \<Rightarrow>
   (DeadlineStoreError, SchedulerDeadlines option) res" where
  "deadline_load_strict codec lstat p trust_root fault f =
     and_then (map_err DeadlineFsTrust (verify_trusted_path lstat p trust_root Allow))
       (\<lambda>_. deadline_load_validated codec fault f)"

definition deadline_save ::
  "deadline_codec \<Rightarrow> write_io \<Rightarrow> SchedulerDeadlines \<Rightarrow> doc_file \<Rightarrow>
   (DeadlineStoreError, unit) res \<times> doc_file" where
  "deadline_save codec io doc f =
     (let doc' = doc\<lparr>dl_schema_version := DEADLINES_SCHEMA_VERSION\<rparr>
      in case render_deadlines codec doc' of
          Inl e \<Rightarrow> (Err (DeadlineMalformed (DeadlineCodec e)), f)
        | Inr bs \<Rightarrow>
            if MAX_DEADLINES_BYTES < length bs then (Err (DeadlineTooLarge (length bs)), f)
            else apfst (map_err DeadlineIo) (atomic_write io bs f))"

section \<open>The store as a durable document\<close>

definition deadline_bytes :: "deadline_codec \<Rightarrow> SchedulerDeadlines \<Rightarrow> bytes" where
  "deadline_bytes codec doc =
     (case render_deadlines codec (doc\<lparr>dl_schema_version := DEADLINES_SCHEMA_VERSION\<rparr>) of
        Inr bs \<Rightarrow> bs | Inl e \<Rightarrow> [])"

lemma deadline_save_Ok:
  assumes "fst (deadline_save codec io doc f) = Ok ()"
  shows "df_content (snd (deadline_save codec io doc f)) = Some (deadline_bytes codec doc) \<and>
    render_deadlines codec (doc\<lparr>dl_schema_version := DEADLINES_SCHEMA_VERSION\<rparr>) = Inr (deadline_bytes codec doc) \<and>
    length (deadline_bytes codec doc) \<le> MAX_DEADLINES_BYTES"
  using assms atomic_write_Ok
  by (auto simp: deadline_save_def deadline_bytes_def Let_def res_simps split: if_splits sum.splits)

lemma deadline_save_not_Ok:
  assumes "fst (deadline_save codec io doc f) \<noteq> Ok ()"
  shows "df_content (snd (deadline_save codec io doc f)) = df_content f"
  using assms atomic_write_not_Ok
  by (auto simp: deadline_save_def Let_def res_simps split: if_splits sum.splits)

interpretation deadline_store: durable_document "deadline_save codec" "deadline_bytes codec" for codec
  by unfold_locales (simp_all add: deadline_save_Ok deadline_save_not_Ok)

lemma deadline_save_not_Panic: "fst (deadline_save codec io doc f) \<noteq> Panic"
  by (auto simp: deadline_save_def Let_def atomic_write_def res_simps split: sum.splits res.splits option.splits)

text \<open>What the scheduler's restart relies on: the codec reads back what it wrote.\<close>

definition codec_faithful :: "deadline_codec \<Rightarrow> bool" where
  "codec_faithful codec \<longleftrightarrow>
     (\<forall>doc bs. render_deadlines codec doc = Inr bs \<longrightarrow> parse_deadlines codec bs = Inr doc)"

text \<open>What a start reads from the file: the document, or the default when there is none.\<close>

definition disk_deadlines :: "deadline_codec \<Rightarrow> doc_file \<Rightarrow> SchedulerDeadlines option" where
  "disk_deadlines codec f =
     (case deadline_load_validated codec None f of
        Ok (Some doc) \<Rightarrow> Some doc
      | Ok None \<Rightarrow> Some SchedulerDeadlines_default
      | _ \<Rightarrow> None)"

lemma deadline_load_saved:
  assumes "codec_faithful codec" and "fst (deadline_save codec io doc f) = Ok ()"
  shows "deadline_load_validated codec None (snd (deadline_save codec io doc f)) =
    Ok (Some (doc\<lparr>dl_schema_version := DEADLINES_SCHEMA_VERSION\<rparr>))"
proof -
  note saved = deadline_save_Ok [OF assms(2)]
  then have "parse_deadlines codec (deadline_bytes codec doc) =
      Inr (doc\<lparr>dl_schema_version := DEADLINES_SCHEMA_VERSION\<rparr>)"
    using assms(1) by (auto simp: codec_faithful_def)
  with saved show ?thesis by (simp add: deadline_load_validated_def fs_read_def)
qed

lemma deadline_load_unsaved:
  assumes "fst (deadline_save codec io doc f) \<noteq> Ok ()"
  shows "deadline_load_validated codec fault (snd (deadline_save codec io doc f)) =
    deadline_load_validated codec fault f"
  unfolding deadline_load_validated_def fs_read_def deadline_save_not_Ok [OF assms] ..

lemma disk_deadlines_save:
  assumes "codec_faithful codec"
  shows "disk_deadlines codec (snd (deadline_save codec io doc f)) =
    (if fst (deadline_save codec io doc f) = Ok ()
     then Some (doc\<lparr>dl_schema_version := DEADLINES_SCHEMA_VERSION\<rparr>) else disk_deadlines codec f)"
  using deadline_load_saved [OF assms] deadline_load_unsaved by (simp add: disk_deadlines_def)

text \<open>
  What the scheduler saves it finds again: with a JSON codec that reads back what it
  wrote, a save that succeeds is exactly what the next load returns, and a save that fails,
  at whichever system call, leaves what was there before. No state in between is ever read.
\<close>

theorem deadline_save_load:
  assumes "codec_faithful codec"
  shows "(fst (deadline_save codec io doc f) = Ok () \<longrightarrow>
      deadline_load_validated codec None (snd (deadline_save codec io doc f)) =
        Ok (Some (doc\<lparr>dl_schema_version := DEADLINES_SCHEMA_VERSION\<rparr>))) \<and>
    (fst (deadline_save codec io doc f) \<noteq> Ok () \<longrightarrow>
      deadline_load_validated codec fault (snd (deadline_save codec io doc f)) =
        deadline_load_validated codec fault f)"
  using deadline_load_saved [OF assms] deadline_load_unsaved by blast

definition sample_deadline_codec :: deadline_codec where
  "sample_deadline_codec =
     \<lparr>parse_deadlines = (\<lambda>bs. if bs = ''{}'' then Inr SchedulerDeadlines_default else Inl ''?''),
      render_deadlines = (\<lambda>d. if d = SchedulerDeadlines_default then Inr ''{}'' else Inl ''!'')\<rparr>"

lemma sample_codec_faithful: "codec_faithful sample_deadline_codec"
  by (auto simp: codec_faithful_def sample_deadline_codec_def)

theorem deadline_save_load_witness:
  "deadline_load_validated sample_deadline_codec None
     (snd (deadline_save sample_deadline_codec all_io_ok SchedulerDeadlines_default
       \<lparr>df_content = None, df_temp = None\<rparr>)) = Ok (Some SchedulerDeadlines_default)"
proof -
  have d: "SchedulerDeadlines_default\<lparr>dl_schema_version := DEADLINES_SCHEMA_VERSION\<rparr> = SchedulerDeadlines_default"
    by (simp add: SchedulerDeadlines_default_def)
  have "fst (deadline_save sample_deadline_codec all_io_ok SchedulerDeadlines_default
      \<lparr>df_content = None, df_temp = None\<rparr>) = Ok ()"
    by (simp add: deadline_save_def d) (simp add: sample_deadline_codec_def all_io_ok_def
        atomic_write_def create_cache_dir_def MAX_DEADLINES_BYTES_def)
  with deadline_save_load [OF sample_codec_faithful] d show ?thesis by metis
qed

end
