(* ===== verification/Scheduler_Policy.thy ===== *)
theory Scheduler_Policy
  imports Deadlines
begin

text \<open>
  The pure policy of \<open>crates/core/src/scheduler.rs\<close>: configuration with its floor, the
  greatest-of deadline, the rejection-sampled jitter, the rollback test, the confirmation
  token's encoding and the vocabulary of outcomes. Times are seconds in \<open>u64\<close>, with the
  saturation of the code. The lemmas bound every computed deadline from below.
\<close>

section \<open>Configuration\<close>

definition FRESHNESS_FLOOR_SECONDS :: u64 where
  "FRESHNESS_FLOOR_SECONDS = 3 * 60 * 60"

definition CONFIRMATION_TOKEN_TTL_SECONDS :: u64 where
  "CONFIRMATION_TOKEN_TTL_SECONDS = 300"

definition MANUAL_REFRESH_WARNING :: string where
  "MANUAL_REFRESH_WARNING =
     ''The server list is still fresh. Unnecessary refresh requests may be rate-limited by Proton or your account may be temporarily blocked from fetching server data. Confirm to refresh now anyway.''"

datatype config_fault = IntervalBelowFloor u64 | JitterCeilingOverflows

datatype SchedulerError =
    ConfigError config_fault
  | DeadlinesError DeadlineStoreError
  | CatalogCacheFailure CatalogCacheError

record SchedulerConfig =
  refresh_interval_seconds :: u64
  max_positive_jitter_seconds :: u64
  conditional_requests :: bool

definition SchedulerConfig_new :: "u64 \<Rightarrow> u64 \<Rightarrow> bool \<Rightarrow> (SchedulerError, SchedulerConfig) res" where
  "SchedulerConfig_new interval jitter conditional =
     (if interval < FRESHNESS_FLOOR_SECONDS then Err (ConfigError (IntervalBelowFloor interval))
      else if jitter = u64_max then Err (ConfigError JitterCeilingOverflows)
      else Ok \<lparr>refresh_interval_seconds = interval, max_positive_jitter_seconds = jitter,
             conditional_requests = conditional\<rparr>)"

record MetadataCacheSection =
  refresh_interval_hours :: u32
  max_positive_jitter_minutes :: u32
  mc_conditional_requests :: bool

definition from_metadata_cache :: "MetadataCacheSection \<Rightarrow> (SchedulerError, SchedulerConfig) res" where
  "from_metadata_cache section =
     SchedulerConfig_new (refresh_interval_hours section * 3600)
       (max_positive_jitter_minutes section * 60) (mc_conditional_requests section)"

section \<open>Deadlines\<close>

record DeadlineInputs =
  di_last_request_unix :: "u64 option"
  now_unix :: u64
  configured_interval_seconds :: u64
  proton_lifetime_seconds :: "u64 option"
  rate_limited :: bool
  retry_after_seconds :: "u64 option"
  jitter_seconds :: u64

record Deadline =
  d_next_eligible_unix :: u64
  d_source :: IntervalSource
  d_suppression_until_unix :: "u64 option"

definition deadline_span :: "DeadlineInputs \<Rightarrow> u64 \<times> IntervalSource" where
  "deadline_span i =
     (let (span, src) =
        (if configured_interval_seconds i > FRESHNESS_FLOOR_SECONDS
         then (configured_interval_seconds i, Configured)
         else (FRESHNESS_FLOOR_SECONDS, ThreeHourFloor))
      in case proton_lifetime_seconds i of
          Some lifetime \<Rightarrow> if lifetime > span then (lifetime, ProtonLifetime) else (span, src)
        | None \<Rightarrow> (span, src))"

definition next_deadline :: "DeadlineInputs \<Rightarrow> Deadline" where
  "next_deadline i =
     (let origin = (case di_last_request_unix i of Some t \<Rightarrow> t | None \<Rightarrow> now_unix i);
          (span, src) = deadline_span i;
          raw0 = saturating_add origin span;
          (raw, src') =
            (case retry_after_seconds i of
               Some retry_after \<Rightarrow>
                 (let retry_deadline = saturating_add (now_unix i) retry_after
                  in if retry_deadline > raw0 then (retry_deadline, RetryAfter) else (raw0, src))
             | None \<Rightarrow> (raw0, src))
      in \<lparr>d_next_eligible_unix = saturating_add raw (jitter_seconds i), d_source = src',
          d_suppression_until_unix = (if rate_limited i then Some raw else None)\<rparr>)"

text \<open>
  \<open>draw_jitter\<close>: the samples are the successive results of \<open>getrandom\<close> (\<open>None\<close> a failure);
  \<open>None\<close> as a result says the loop has not returned on these samples.
\<close>

fun jitter_loop :: "u64 \<Rightarrow> u64 \<Rightarrow> u64 option list \<Rightarrow> u64 option" where
  "jitter_loop rng limit [] = None"
| "jitter_loop rng limit (None # rest) = Some 0"
| "jitter_loop rng limit (Some v # rest) =
     (if v < limit then Some (v mod rng) else jitter_loop rng limit rest)"

definition jitter_limit :: "u64 \<Rightarrow> u64" where
  "jitter_limit rng = u64_max - u64_max mod rng"

definition draw_jitter :: "u64 \<Rightarrow> u64 option list \<Rightarrow> (unit, u64) res option" where
  "draw_jitter max_seconds samples =
     (if max_seconds = 0 then Some (Ok 0)
      else if max_seconds = u64_max then Some Panic
      else map_option Ok (jitter_loop (max_seconds + 1) (jitter_limit (max_seconds + 1)) samples))"

definition wall_rolled_back :: "u64 \<Rightarrow> u64 \<Rightarrow> u64 \<Rightarrow> u64 \<Rightarrow> bool" where
  "wall_rolled_back prev_wall prev_mono wall mono_ms = (wall < prev_wall \<and> mono_ms \<ge> prev_mono)"

section \<open>Outcomes\<close>

datatype FetchOutcome = FetchChanged "string option" bytes | FetchNotModified

datatype FetchFailure = FetchRateLimited "u64 option" | Transport string | Persistence

datatype refresh_failure =
    RevisionRejected CatalogError
  | RevisionNotUtf8
  | RevisionNotStored CatalogCacheError
  | TransportFailed string
  | PersistenceRefused

datatype RefreshOutcome =
    Changed "string option" bytes
  | NotModified
  | RateLimited "u64 option"
  | Failed refresh_failure

record RefreshReport =
  outcome :: RefreshOutcome
  coalesced :: bool
  r_next_eligible_unix :: u64
  r_suppression_until_unix :: "u64 option"

datatype AutomaticOutcome = Due RefreshReport | NotDue u64

record ConfirmationRequirement =
  catalog_age_seconds :: u64
  c_last_request_unix :: "u64 option"
  c_next_eligible_unix :: u64
  warning :: string
  confirmation_token :: string

datatype ManualOutcome =
    Refreshed RefreshReport
  | ConfirmationRequired ConfirmationRequirement
  | Suppressed u64
  | Unavailable

section \<open>The confirmation token\<close>

definition hex_digit :: "nat \<Rightarrow> char" where
  "hex_digit n = ''0123456789abcdef'' ! n"

definition hex_byte :: "nat \<Rightarrow> string" where
  "hex_byte b = [hex_digit (b div 16), hex_digit (b mod 16)]"

definition mint_confirmation_token_from :: "nat list option \<Rightarrow> string option" where
  "mint_confirmation_token_from filled = map_option (\<lambda>bs. concat (map hex_byte bs)) filled"

section \<open>What the policy guarantees\<close>

definition config_ok :: "SchedulerConfig \<Rightarrow> bool" where
  "config_ok cfg \<longleftrightarrow>
     FRESHNESS_FLOOR_SECONDS \<le> refresh_interval_seconds cfg \<and> max_positive_jitter_seconds cfg \<noteq> u64_max"

lemma SchedulerConfig_new_ok: "SchedulerConfig_new i j c = Ok cfg \<Longrightarrow> config_ok cfg"
  by (auto simp: SchedulerConfig_new_def config_ok_def split: if_splits)

definition deadline_raw :: "DeadlineInputs \<Rightarrow> u64" where
  "deadline_raw i =
     max (saturating_add (case di_last_request_unix i of Some t \<Rightarrow> t | None \<Rightarrow> now_unix i) (fst (deadline_span i)))
       (case retry_after_seconds i of Some r \<Rightarrow> saturating_add (now_unix i) r | None \<Rightarrow> 0)"

lemma deadline_span_ge_floor: "FRESHNESS_FLOOR_SECONDS \<le> fst (deadline_span i)"
  by (auto simp: deadline_span_def Let_def split: option.splits)

lemma saturating_add_ge: "min (a + b) u64_max \<le> saturating_add a b"
  by (simp add: saturating_add_def)

lemma saturating_add_mono_left: "a \<le> a' \<Longrightarrow> saturating_add a b \<le> saturating_add a' b"
  by (auto simp: saturating_add_def)

lemma next_deadline_ge_floor:
  assumes "di_last_request_unix i = Some t"
  shows "saturating_add t FRESHNESS_FLOOR_SECONDS \<le> d_next_eligible_unix (next_deadline i)"
    and "d_suppression_until_unix (next_deadline i) = Some u \<Longrightarrow>
      saturating_add t FRESHNESS_FLOOR_SECONDS \<le> u \<and> u \<le> d_next_eligible_unix (next_deadline i)"
  using assms deadline_span_ge_floor [of i]
  by (auto simp: next_deadline_def Let_def saturating_add_def split: option.splits prod.splits if_splits)

lemma jitter_loop_bound: "jitter_loop rng limit samples = Some j \<Longrightarrow> 0 < rng \<Longrightarrow> j < rng"
  by (induction rng limit samples rule: jitter_loop.induct) (auto split: if_splits)

lemma jitter_loop_returns:
  "(\<exists>s \<in> set samples. s = None \<or> (\<exists>v. s = Some v \<and> v < limit)) \<longleftrightarrow>
   (\<exists>j. jitter_loop rng limit samples = Some j)"
  by (induction rng limit samples rule: jitter_loop.induct) auto

lemma draw_jitter_le:
  "draw_jitter max_seconds samples = Some (Ok j) \<Longrightarrow> j \<le> max_seconds"
  by (auto simp: draw_jitter_def split: if_splits dest: jitter_loop_bound)

lemma draw_jitter_not_Panic:
  "max_seconds \<noteq> u64_max \<Longrightarrow> draw_jitter max_seconds samples \<noteq> Some Panic"
  by (auto simp: draw_jitter_def)

lemma jitter_limit_dvd: "rng dvd jitter_limit rng"
  by (simp add: jitter_limit_def minus_mod_eq_mult_div)

lemma jitter_limit_large:
  assumes "0 < rng" and "rng \<le> u64_max"
  shows "u64_max < 2 * jitter_limit rng"
proof -
  have "u64_max mod rng < rng" using assms by simp
  moreover have "u64_max mod rng + jitter_limit rng = u64_max" by (simp add: jitter_limit_def)
  moreover have "rng \<le> jitter_limit rng"
  proof -
    have "0 < jitter_limit rng"
      using assms by (simp add: jitter_limit_def) (metis mod_less_divisor order_less_le_trans)
    then show ?thesis using jitter_limit_dvd [of rng] by (simp add: dvd_imp_le)
  qed
  ultimately show ?thesis by linarith
qed

text \<open>Below a multiple of \<open>m\<close> every residue occurs equally often.\<close>

lemma residues_uniform:
  assumes "0 < m" and "k < m"
  shows "card {v. v < q * m \<and> v mod m = k} = (q :: nat)"
proof -
  have "{v. v < q * m \<and> v mod m = k} = (\<lambda>i. i * m + k) ` {..< q}"
  proof (intro equalityI subsetI)
    fix v
    assume "v \<in> {v. v < q * m \<and> v mod m = k}"
    then have v: "v < q * m" "v mod m = k" by auto
    then have "v div m < q" using assms by (simp add: less_mult_imp_div_less)
    moreover have "v = v div m * m + k" using v div_mult_mod_eq [of v m] by simp
    ultimately show "v \<in> (\<lambda>i. i * m + k) ` {..< q}" by blast
  next
    fix v
    assume "v \<in> (\<lambda>i. i * m + k) ` {..< q}"
    then obtain i where i: "i < q" "v = i * m + k" by auto
    then have "v < Suc i * m" using assms by simp
    also have "\<dots> \<le> q * m" using i by (intro mult_le_mono1) simp
    finally show "v \<in> {v. v < q * m \<and> v mod m = k}" using i assms by simp
  qed
  moreover have "inj_on (\<lambda>i. i * m + k) {..< q}" using assms by (auto simp: inj_on_def)
  ultimately show ?thesis by (simp add: card_image)
qed

lemma hex_digit_inj: "a < 16 \<Longrightarrow> b < 16 \<Longrightarrow> hex_digit a = hex_digit b \<Longrightarrow> a = b"
  by (auto simp: hex_digit_def less_Suc_eq numeral_eq_Suc nth_Cons')

lemma hex_byte_inj: "a < 256 \<Longrightarrow> b < 256 \<Longrightarrow> hex_byte a = hex_byte b \<Longrightarrow> a = b"
proof -
  assume lt: "a < 256" "b < 256" and eq: "hex_byte a = hex_byte b"
  have "a div 16 = b div 16" "a mod 16 = b mod 16"
    using eq lt by (auto simp: hex_byte_def intro!: hex_digit_inj)
  then show ?thesis by (metis div_mult_mod_eq)
qed

lemma hex_bytes_inj:
  "list_all (\<lambda>b. b < 256) xs \<Longrightarrow> list_all (\<lambda>b. b < 256) ys \<Longrightarrow>
   concat (map hex_byte xs) = concat (map hex_byte ys) \<Longrightarrow> xs = ys"
proof (induction xs arbitrary: ys)
  case Nil
  then show ?case by (cases ys) (auto simp: hex_byte_def)
next
  case (Cons x xs)
  then show ?case
  proof (cases ys)
    case (Cons y ys')
    have "hex_byte x = hex_byte y" "concat (map hex_byte xs) = concat (map hex_byte ys')"
      using Cons.prems(3) Cons by (simp_all add: hex_byte_def [of x] hex_byte_def [of y])
    with Cons Cons.prems Cons.IH hex_byte_inj show ?thesis by auto
  qed (auto simp: hex_byte_def)
qed

lemma deadline_span_eq:
  "fst (deadline_span i) = max (max (configured_interval_seconds i) FRESHNESS_FLOOR_SECONDS)
     (case proton_lifetime_seconds i of Some l \<Rightarrow> l | None \<Rightarrow> 0)"
  by (auto simp: deadline_span_def Let_def max_def split: option.splits)

lemma next_deadline_eq:
  "d_suppression_until_unix (next_deadline i) = (if rate_limited i then Some (deadline_raw i) else None)"
  "d_next_eligible_unix (next_deadline i) = saturating_add (deadline_raw i) (jitter_seconds i)"
  by (auto simp: next_deadline_def deadline_raw_def Let_def max_def split: option.splits prod.splits)

lemma greatest_of_nat:
  "max (min (t + max (max c f) l) m) (min r m) = min (Max {t + c, t + f, t + l, r}) (m :: nat)"
  by (simp add: max_def min_def)

section \<open>Properties of the policy\<close>

text \<open>
  The deadline is the greatest of its inputs, and never in the past: the suppression
  floor is the greatest of last request plus interval, plus three-hour floor, plus Proton
  lifetime, and now plus \<open>Retry-After\<close>, capped at the largest \<open>u64\<close>; it is set exactly for
  a rate-limited request; and the next eligibility is that plus the jitter, never before it.
\<close>

theorem next_deadline_greatest_of:
  "let origin = (case di_last_request_unix i of Some t \<Rightarrow> t | None \<Rightarrow> now_unix i);
       lifetime = (case proton_lifetime_seconds i of Some l \<Rightarrow> l | None \<Rightarrow> 0);
       retry = (case retry_after_seconds i of Some r \<Rightarrow> now_unix i + r | None \<Rightarrow> 0);
       greatest = min u64_max (Max {origin + configured_interval_seconds i,
         origin + FRESHNESS_FLOOR_SECONDS, origin + lifetime, retry})
   in d_suppression_until_unix (next_deadline i) = (if rate_limited i then Some greatest else None) \<and>
      d_next_eligible_unix (next_deadline i) = min u64_max (greatest + jitter_seconds i)"
  unfolding next_deadline_eq deadline_raw_def Let_def deadline_span_eq
  by (cases "retry_after_seconds i")
    (simp_all only: saturating_add_def greatest_of_nat greatest_of_nat [where r = 0, unfolded min_0L] option.case
      min.commute [of u64_max])

text \<open>
  The jitter is uniform and never negative: a returned draw is at most the ceiling, the
  loop returns on the first usable sample and more than half of all samples are usable, and
  every value of the range is hit by equally many usable samples. With a valid configuration
  the range never overflows.
\<close>

theorem draw_jitter_uniform:
  assumes "0 < max_seconds" and "max_seconds < u64_max"
  shows "(\<forall>j. draw_jitter max_seconds samples = Some (Ok j) \<longrightarrow> j \<le> max_seconds) \<and>
    ((\<exists>r. draw_jitter max_seconds samples = Some r) \<longleftrightarrow>
      (\<exists>s \<in> set samples. s = None \<or> (\<exists>v. s = Some v \<and> v < jitter_limit (max_seconds + 1)))) \<and>
    draw_jitter max_seconds samples \<noteq> Some Panic \<and>
    u64_max < 2 * jitter_limit (max_seconds + 1) \<and>
    (\<forall>k \<le> max_seconds. card {v. v < jitter_limit (max_seconds + 1) \<and> v mod (max_seconds + 1) = k} =
      jitter_limit (max_seconds + 1) div (max_seconds + 1))"
proof (intro conjI allI impI)
  show "(\<exists>r. draw_jitter max_seconds samples = Some r) \<longleftrightarrow>
      (\<exists>s \<in> set samples. s = None \<or> (\<exists>v. s = Some v \<and> v < jitter_limit (max_seconds + 1)))"
    unfolding jitter_loop_returns [where rng = "max_seconds + 1"] using assms by (auto simp: draw_jitter_def)
  show "u64_max < 2 * jitter_limit (max_seconds + 1)" using assms by (intro jitter_limit_large) auto
  fix k
  assume "k \<le> max_seconds"
  moreover have "jitter_limit (max_seconds + 1) div (max_seconds + 1) * (max_seconds + 1) = jitter_limit (max_seconds + 1)"
    using jitter_limit_dvd by (rule dvd_div_mult_self)
  ultimately show "card {v. v < jitter_limit (max_seconds + 1) \<and> v mod (max_seconds + 1) = k} =
      jitter_limit (max_seconds + 1) div (max_seconds + 1)"
    using residues_uniform [of "max_seconds + 1" k "jitter_limit (max_seconds + 1) div (max_seconds + 1)"] by simp
qed (use assms draw_jitter_le draw_jitter_not_Panic in auto)

theorem draw_jitter_uniform_witness:
  "draw_jitter 900 [Some 1803] = Some (Ok 1) \<and> draw_jitter 900 [Some 1803] \<noteq> Some Panic"
proof -
  have l: "1803 < jitter_limit 901" by (simp add: jitter_limit_def u64_max_def)
  have "draw_jitter 900 [Some 1803] = Some (Ok 1)" using l by (simp add: draw_jitter_def u64_max_def)
  moreover have "draw_jitter 900 [Some 1803] \<noteq> Some Panic"
    using draw_jitter_uniform [of 900 "[Some 1803]"] by (simp add: u64_max_def)
  ultimately show ?thesis by blast
qed

text \<open>
  A confirmation token is 64 characters that determine the 32 random bytes it was minted
  from, so it is never the empty echo; and a failed random source mints nothing.
\<close>

theorem confirmation_token_injective:
  assumes "length xs = 32" "length ys = 32" "list_all (\<lambda>b. b < 256) xs" "list_all (\<lambda>b. b < 256) ys"
  shows "(mint_confirmation_token_from (Some xs) = mint_confirmation_token_from (Some ys) \<longleftrightarrow> xs = ys) \<and>
    (\<exists>t. mint_confirmation_token_from (Some xs) = Some t \<and> length t = 64) \<and>
    mint_confirmation_token_from None = None"
proof -
  have "length (concat (map hex_byte zs)) = 2 * length zs" for zs by (induction zs) (auto simp: hex_byte_def)
  then show ?thesis
    using assms hex_bytes_inj [of xs ys] by (auto simp: mint_confirmation_token_from_def)
qed

theorem confirmation_token_injective_witness:
  "mint_confirmation_token_from (Some (replicate 32 0)) \<noteq> mint_confirmation_token_from (Some (replicate 32 255))"
  using confirmation_token_injective [of "replicate 32 0" "replicate 32 255"]
  by (simp add: list_all_length)

end
