(* ===== verification/Scheduler.thy ===== *)
theory Scheduler
  imports Scheduler_Policy
begin

text \<open>
  The state and operations of \<open>Scheduler\<close> in \<open>crates/core/src/scheduler.rs\<close>. The mutex-guarded
  \<open>Inner\<close> is a record; the two documents on disk are its companions. A critical section is
  one function from state to state: the decision of each door once no refresh is in flight,
  the part of \<open>lead_refresh\<close> before the fetch (\<open>lead_begin\<close>) and the part after it
  (\<open>lead_finish\<close>), between which the lock is dropped. Clock readings, the outcome of every
  system call, the fetch result, the drawn jitter and the minted token are inputs. The
  interleaving of callers is in \<open>Scheduler_Runs\<close>.
\<close>

section \<open>State\<close>

record PendingToken =
  token_value :: string
  expires_unix :: u64

record RollbackTracker =
  last_wall_seen :: u64
  last_mono_seen :: u64
  rollback_detected :: bool

record CacheState =
  cs_current :: "CachedCatalog option"

record Inner =
  persisted :: SchedulerDeadlines
  stored_etag :: "string option"
  lead_generation :: u64
  in_flight :: "u64 option"
  completed :: "(u64 \<times> RefreshReport) option"
  pending_token :: "PendingToken option"
  rollback :: RollbackTracker
  catalog_cache :: "CacheState option"
  persistence_healthy :: bool

record disk_state =
  deadlines_file :: doc_file
  cache_file :: doc_file

record codecs =
  deadlines_codec :: deadline_codec
  cache_codec :: catalog_codec

datatype RefreshKind = AutomaticKind | ManualKind

text \<open>One reading of the \<open>Clock\<close>: wall seconds and monotonic milliseconds.\<close>

record reading =
  wall_unix :: u64
  monotonic_ms :: u64

record SchedulerDiagnostics =
  diag_last_request_unix :: "u64 option"
  diag_last_success_unix :: "u64 option"
  diag_next_eligible_unix :: "u64 option"
  diag_next_eligible_source :: "IntervalSource option"
  diag_suppression_until_unix :: "u64 option"
  diag_automatic_refresh_count :: u64
  diag_manual_refresh_count :: u64
  clock_rollback_detected :: bool
  diag_catalog_age_seconds :: "u64 option"

section \<open>Construction\<close>

definition rederive_crash_pacing :: "SchedulerDeadlines \<Rightarrow> SchedulerDeadlines" where
  "rederive_crash_pacing d =
     (case last_request_unix d of
        None \<Rightarrow> d
      | Some last_request \<Rightarrow>
          (let floor_at = saturating_add last_request FRESHNESS_FLOOR_SECONDS
           in if (case next_eligible_unix d of None \<Rightarrow> True | Some next \<Rightarrow> next < floor_at)
              then d\<lparr>next_eligible_unix := Some floor_at, next_eligible_source := Some ThreeHourFloor\<rparr>
              else d))"

definition RollbackTracker_default :: RollbackTracker where
  "RollbackTracker_default = \<lparr>last_wall_seen = 0, last_mono_seen = 0, rollback_detected = False\<rparr>"

definition new_with_cache :: "SchedulerDeadlines \<Rightarrow> string option \<Rightarrow> CacheState option \<Rightarrow> Inner" where
  "new_with_cache d et cache =
     \<lparr>persisted = rederive_crash_pacing d, stored_etag = et, lead_generation = 0, in_flight = None,
      completed = None, pending_token = None, rollback = RollbackTracker_default,
      catalog_cache = cache, persistence_healthy = True\<rparr>"

record load_faults =
  deadlines_fault :: "string option"
  cache_fault :: "string option"

definition production_with_trust_root ::
  "codecs \<Rightarrow> (path \<Rightarrow> lstat_result) \<Rightarrow> path \<Rightarrow> path \<Rightarrow> load_faults \<Rightarrow> disk_state \<Rightarrow>
   (SchedulerError, Inner) res" where
  "production_with_trust_root cs lstat cache_dir trust_root faults dsk =
     and_then (map_err DeadlinesError
       (deadline_load_strict (deadlines_codec cs) lstat (cache_dir @ [Normal ''deadlines.json'']) trust_root
          (deadlines_fault faults) (deadlines_file dsk))) (\<lambda>loaded.
     and_then (map_err CatalogCacheFailure
       (cache_load_strict (cache_codec cs) lstat (cache_dir @ [Normal ''servers.json'']) trust_root
          (cache_fault faults) (cache_file dsk))) (\<lambda>current.
     Ok (new_with_cache (case loaded of Some d \<Rightarrow> d | None \<Rightarrow> SchedulerDeadlines_default)
       (Option.bind current cc_etag) (Some \<lparr>cs_current = current\<rparr>))))"

section \<open>Time\<close>

definition observe_wall :: "reading \<Rightarrow> Inner \<Rightarrow> u64" where
  "observe_wall rd inner = max (wall_unix rd) (wall_high_water_unix (persisted inner))"

definition observe_now :: "reading \<Rightarrow> Inner \<Rightarrow> u64 \<times> Inner" where
  "observe_now rd inner =
     (let t = rollback inner;
          t' = \<lparr>last_wall_seen = max (last_wall_seen t) (wall_unix rd),
            last_mono_seen = max (last_mono_seen t) (monotonic_ms rd),
            rollback_detected = (wall_rolled_back (last_wall_seen t) (last_mono_seen t) (wall_unix rd) (monotonic_ms rd)
              \<or> rollback_detected t)\<rparr>
      in (max (wall_unix rd) (wall_high_water_unix (persisted inner)), inner\<lparr>rollback := t'\<rparr>))"

definition diagnostics :: "reading \<Rightarrow> Inner \<Rightarrow> SchedulerDiagnostics" where
  "diagnostics rd inner =
     (let d = persisted inner; now = observe_wall rd inner
      in \<lparr>diag_last_request_unix = last_request_unix d, diag_last_success_unix = last_success_unix d,
          diag_next_eligible_unix = next_eligible_unix d, diag_next_eligible_source = next_eligible_source d,
          diag_suppression_until_unix = suppression_until_unix d,
          diag_automatic_refresh_count = automatic_refresh_count d,
          diag_manual_refresh_count = manual_refresh_count d,
          clock_rollback_detected = rollback_detected (rollback inner),
          diag_catalog_age_seconds = map_option (\<lambda>s. saturating_sub now s) (last_success_unix d)\<rparr>)"

definition next_due_unix :: "Inner \<Rightarrow> u64 option" where
  "next_due_unix inner = next_eligible_unix (persisted inner)"

section \<open>The two doors\<close>

text \<open>A caller that waited for generation \<open>seen\<close>: the report it joins, if it is still there.\<close>

definition joined_report :: "u64 \<Rightarrow> Inner \<Rightarrow> RefreshReport option" where
  "joined_report seen inner =
     (case completed inner of
        Some (done_gen, rep) \<Rightarrow> if done_gen = seen then Some (rep\<lparr>coalesced := True\<rparr>) else None
      | None \<Rightarrow> None)"

datatype automatic_decision = AutoNotDue u64 | AutoLead

definition automatic_decide :: "reading \<Rightarrow> Inner \<Rightarrow> automatic_decision \<times> u64 \<times> Inner" where
  "automatic_decide rd inner =
     (let (now, inner') = observe_now rd inner
      in case next_eligible_unix (persisted inner') of
          Some deadline \<Rightarrow>
            if now < deadline then (AutoNotDue deadline, now, inner')
            else (case suppression_until_unix (persisted inner') of
                Some until \<Rightarrow> if now < until then (AutoNotDue until, now, inner') else (AutoLead, now, inner')
              | None \<Rightarrow> (AutoLead, now, inner'))
        | None \<Rightarrow> (case suppression_until_unix (persisted inner') of
                Some until \<Rightarrow> if now < until then (AutoNotDue until, now, inner') else (AutoLead, now, inner')
              | None \<Rightarrow> (AutoLead, now, inner')))"

definition mint_requirement ::
  "string option \<Rightarrow> u64 \<Rightarrow> Inner \<Rightarrow> ConfirmationRequirement option \<times> Inner" where
  "mint_requirement minted now inner =
     (case minted of
        None \<Rightarrow> (None, inner)
      | Some token \<Rightarrow>
          (Some \<lparr>catalog_age_seconds =
               (case last_success_unix (persisted inner) of Some s \<Rightarrow> saturating_sub now s | None \<Rightarrow> 0),
             c_last_request_unix = last_request_unix (persisted inner),
             c_next_eligible_unix =
               max (case next_eligible_unix (persisted inner) of Some n \<Rightarrow> n | None \<Rightarrow> now)
                 (case suppression_until_unix (persisted inner) of Some u \<Rightarrow> u | None \<Rightarrow> 0),
             warning = MANUAL_REFRESH_WARNING, confirmation_token = token\<rparr>,
           inner\<lparr>pending_token := Some \<lparr>token_value = token,
             expires_unix = saturating_add now CONFIRMATION_TOKEN_TTL_SECONDS\<rparr>\<rparr>))"

definition ceremony :: "string option \<Rightarrow> u64 \<Rightarrow> Inner \<Rightarrow> ManualOutcome \<times> Inner" where
  "ceremony minted now inner =
     (case mint_requirement minted now inner of
        (Some requirement, inner') \<Rightarrow> (ConfirmationRequired requirement, inner')
      | (None, inner') \<Rightarrow> (Unavailable, inner'))"

datatype manual_decision = ManualReturn ManualOutcome | ManualLeadDue | ManualLeadConfirmed string

definition redeemable :: "string \<Rightarrow> u64 \<Rightarrow> Inner \<Rightarrow> bool" where
  "redeemable v now inner =
     (case pending_token inner of
        Some p \<Rightarrow> token_value p = v \<and> now \<le> expires_unix p
      | None \<Rightarrow> False)"

definition manual_decide ::
  "string option \<Rightarrow> string option \<Rightarrow> reading \<Rightarrow> Inner \<Rightarrow> manual_decision \<times> u64 \<times> Inner" where
  "manual_decide token minted rd inner =
     (let (now, inner') = observe_now rd inner;
          hold = (case ceremony minted now inner' of (out, inner'') \<Rightarrow> (ManualReturn out, now, inner''));
          past_suppression =
            (if (case next_eligible_unix (persisted inner') of None \<Rightarrow> True | Some deadline \<Rightarrow> now \<ge> deadline)
             then (ManualLeadDue, now, inner')
             else case token of
                 Some v \<Rightarrow>
                   if v \<noteq> [] then
                     (if redeemable v now inner'
                      then (ManualLeadConfirmed v, now, inner'\<lparr>pending_token := None\<rparr>) else hold)
                   else hold
               | None \<Rightarrow> hold)
      in case suppression_until_unix (persisted inner') of
          Some until \<Rightarrow> if now < until then (ManualReturn (Suppressed until), now, inner') else past_suppression
        | None \<Rightarrow> past_suppression)"

section \<open>Leading a refresh\<close>

text \<open>What the leader carries across the fetch, with the lock dropped.\<close>

record lead_ticket =
  ticket_generation :: u64
  ticket_kind :: RefreshKind
  started_effective :: u64
  sent_etag :: "string option"
  anchored :: bool

definition save_deadlines ::
  "codecs \<Rightarrow> write_io \<Rightarrow> SchedulerDeadlines \<Rightarrow> disk_state \<Rightarrow> bool \<times> disk_state" where
  "save_deadlines cs io d dsk =
     (case deadline_save (deadlines_codec cs) io d (deadlines_file dsk) of
        (r, f) \<Rightarrow> (is_ok r, dsk\<lparr>deadlines_file := f\<rparr>))"

text \<open>\<open>lead_refresh\<close> up to \<open>drop(guard)\<close>: the health gate, the anchor, the save before contact.\<close>

definition lead_begin ::
  "SchedulerConfig \<Rightarrow> codecs \<Rightarrow> RefreshKind \<Rightarrow> write_io \<Rightarrow> write_io \<Rightarrow> reading \<Rightarrow> Inner \<Rightarrow> disk_state \<Rightarrow>
   lead_ticket \<times> Inner \<times> disk_state" where
  "lead_begin cfg cs kind gate_io anchor_io rd inner dsk =
     (let g = wrapping_incr (lead_generation inner);
          inner1 = inner\<lparr>lead_generation := g, in_flight := Some g\<rparr>;
          (cleared, inner2, dsk2) =
            (if \<not> persistence_healthy inner1
             then (case save_deadlines cs gate_io (persisted inner1) dsk of
                 (True, dsk') \<Rightarrow> (True, inner1\<lparr>persistence_healthy := True\<rparr>, dsk')
               | (False, dsk') \<Rightarrow> (False, inner1, dsk'))
             else (True, inner1, dsk));
          (started, inner3) = observe_now rd inner2;
          d = (persisted inner3)\<lparr>last_request_unix := Some started,
            wall_high_water_unix := max (wall_high_water_unix (persisted inner3)) started\<rparr>;
          inner4 = inner3\<lparr>persisted := d\<rparr>;
          et = (if conditional_requests cfg then stored_etag inner4 else None);
          (anc, inner5, dsk5) =
            (if cleared
             then (case save_deadlines cs anchor_io (persisted inner4) dsk2 of
                 (True, dsk') \<Rightarrow> (True, inner4, dsk')
               | (False, dsk') \<Rightarrow> (False, inner4\<lparr>persistence_healthy := False\<rparr>, dsk'))
             else (False, inner4, dsk2))
      in (\<lparr>ticket_generation = g, ticket_kind = kind, started_effective = started, sent_etag = et, anchored = anc\<rparr>,
          inner5, dsk5))"

text \<open>The fetch runs only for an anchored ticket; a panicking bridge is a transport failure.\<close>

datatype fetch_result = FetchReturned "FetchFailure + FetchOutcome" | FetchPanicked

definition fetched_for :: "lead_ticket \<Rightarrow> fetch_result \<Rightarrow> FetchFailure + FetchOutcome" where
  "fetched_for tk fr =
     (if anchored tk
      then (case fr of FetchReturned r \<Rightarrow> r | FetchPanicked \<Rightarrow> Inl (Transport ''fetch bridge panicked''))
      else Inl Persistence)"

text \<open>\<open>std::str::from_utf8\<close> accepts exactly the byte strings of Unicode's well-formedness table.\<close>

definition byte_in :: "nat \<Rightarrow> nat \<Rightarrow> char \<Rightarrow> bool" where
  "byte_in lo hi c = (lo \<le> (of_char c :: nat) \<and> (of_char c :: nat) \<le> hi)"

fun utf8_valid :: "bytes \<Rightarrow> bool" where
  "utf8_valid [] = True"
| "utf8_valid (a # rest) =
     (if byte_in 0 127 a then utf8_valid rest
      else if byte_in 194 223 a then
        (case rest of b # r \<Rightarrow> byte_in 128 191 b \<and> utf8_valid r | _ \<Rightarrow> False)
      else if byte_in 224 239 a then
        (case rest of b # c # r \<Rightarrow>
           byte_in (if byte_in 224 224 a then 160 else 128) (if byte_in 237 237 a then 159 else 191) b \<and>
           byte_in 128 191 c \<and> utf8_valid r | _ \<Rightarrow> False)
      else if byte_in 240 244 a then
        (case rest of b # c # d # r \<Rightarrow>
           byte_in (if byte_in 240 240 a then 144 else 128) (if byte_in 244 244 a then 143 else 191) b \<and>
           byte_in 128 191 c \<and> byte_in 128 191 d \<and> utf8_valid r | _ \<Rightarrow> False)
      else False)"

datatype RevisionVerdict = Adopted | Unusable refresh_failure

definition adopt_fetched_revision ::
  "codecs \<Rightarrow> write_io \<Rightarrow> string option \<Rightarrow> bytes \<Rightarrow> u64 \<Rightarrow> CacheState option \<Rightarrow> disk_state \<Rightarrow>
   RevisionVerdict \<times> CacheState option \<times> disk_state" where
  "adopt_fetched_revision cs io et body fetched_unix cache dsk =
     (case from_bytes (parse_doc (cache_codec cs)) body of
        Err e \<Rightarrow> (Unusable (RevisionRejected e), cache, dsk)
      | _ \<Rightarrow>
          (case cache of
             None \<Rightarrow> (Adopted, cache, dsk)
           | Some st \<Rightarrow>
               if \<not> utf8_valid body then (Unusable RevisionNotUtf8, cache, dsk)
               else let doc = \<lparr>cc_schema_version = CATALOG_CACHE_SCHEMA_VERSION, cc_etag = et,
                        cc_fetched_unix = fetched_unix, cc_body = body\<rparr>
                 in case cache_store (cache_codec cs) io doc (cache_file dsk) of
                     (Err e, f) \<Rightarrow> (Unusable (RevisionNotStored e), cache, dsk\<lparr>cache_file := f\<rparr>)
                   | (_, f) \<Rightarrow> (Adopted, Some (st\<lparr>cs_current := Some doc\<rparr>), dsk\<lparr>cache_file := f\<rparr>)))"

text \<open>The match on the fetch result: adopt, refresh the freshness, or report the failure.\<close>

definition apply_fetched ::
  "codecs \<Rightarrow> write_io \<Rightarrow> FetchFailure + FetchOutcome \<Rightarrow> u64 \<Rightarrow> Inner \<Rightarrow> disk_state \<Rightarrow>
   RefreshOutcome \<times> Inner \<times> disk_state" where
  "apply_fetched cs io fetched now inner dsk =
     (case fetched of
        Inr (FetchChanged et body) \<Rightarrow>
          (case adopt_fetched_revision cs io et body now (catalog_cache inner) dsk of
             (Adopted, cache, dsk') \<Rightarrow>
               (Changed et body,
                inner\<lparr>catalog_cache := cache, stored_etag := et,
                  persisted := (persisted inner)\<lparr>last_success_unix := Some now\<rparr>\<rparr>, dsk')
           | (Unusable reason, cache, dsk') \<Rightarrow> (Failed reason, inner\<lparr>catalog_cache := cache\<rparr>, dsk'))
      | Inr FetchNotModified \<Rightarrow>
          (let inner' = inner\<lparr>persisted := (persisted inner)\<lparr>last_success_unix := Some now\<rparr>\<rparr>
           in case catalog_cache inner' of
               Some st \<Rightarrow>
                 (case cs_current st of
                    Some current \<Rightarrow>
                      (case refresh_freshness (cache_codec cs) io current now (cache_file dsk) of
                         (Ok updated, f) \<Rightarrow>
                           (NotModified, inner'\<lparr>catalog_cache := Some (st\<lparr>cs_current := Some updated\<rparr>)\<rparr>,
                            dsk\<lparr>cache_file := f\<rparr>)
                       | (_, f) \<Rightarrow> (NotModified, inner', dsk\<lparr>cache_file := f\<rparr>))
                  | None \<Rightarrow> (NotModified, inner', dsk))
             | None \<Rightarrow> (NotModified, inner', dsk))
      | Inl (FetchRateLimited ra) \<Rightarrow> (RateLimited ra, inner, dsk)
      | Inl (Transport m) \<Rightarrow> (Failed (TransportFailed m), inner, dsk)
      | Inl Persistence \<Rightarrow> (Failed PersistenceRefused, inner, dsk))"

definition retry_after_of :: "FetchFailure + FetchOutcome \<Rightarrow> u64 option" where
  "retry_after_of fetched = (case fetched of Inl (FetchRateLimited ra) \<Rightarrow> ra | _ \<Rightarrow> None)"

definition is_rate_limited :: "FetchFailure + FetchOutcome \<Rightarrow> bool" where
  "is_rate_limited fetched = (case fetched of Inl (FetchRateLimited _) \<Rightarrow> True | _ \<Rightarrow> False)"

definition lead_deadline :: "SchedulerConfig \<Rightarrow> lead_ticket \<Rightarrow> FetchFailure + FetchOutcome \<Rightarrow> u64 \<Rightarrow> u64 \<Rightarrow> Deadline" where
  "lead_deadline cfg tk fetched now jitter =
     next_deadline \<lparr>di_last_request_unix = Some (started_effective tk), now_unix = now,
       configured_interval_seconds = refresh_interval_seconds cfg, proton_lifetime_seconds = None,
       rate_limited = is_rate_limited fetched, retry_after_seconds = retry_after_of fetched,
       jitter_seconds = jitter\<rparr>"

definition count_refresh :: "RefreshKind \<Rightarrow> SchedulerDeadlines \<Rightarrow> SchedulerDeadlines" where
  "count_refresh kind d =
     (case kind of
        AutomaticKind \<Rightarrow> d\<lparr>automatic_refresh_count := wrapping_incr (automatic_refresh_count d)\<rparr>
      | ManualKind \<Rightarrow> d\<lparr>manual_refresh_count := wrapping_incr (manual_refresh_count d)\<rparr>)"

definition keep_greater :: "u64 option \<Rightarrow> u64 option \<Rightarrow> u64 option" where
  "keep_greater old new =
     (case old of
        Some existing \<Rightarrow> Some (max existing (case new of Some u \<Rightarrow> u | None \<Rightarrow> 0))
      | None \<Rightarrow> new)"

text \<open>\<open>lead_refresh\<close> from the second lock: deadlines, the outcome, the save, the publication.\<close>

definition lead_finish ::
  "SchedulerConfig \<Rightarrow> codecs \<Rightarrow> lead_ticket \<Rightarrow> fetch_result \<Rightarrow> reading \<Rightarrow> u64 \<Rightarrow> write_io \<Rightarrow> write_io \<Rightarrow>
   Inner \<Rightarrow> disk_state \<Rightarrow> RefreshReport \<times> Inner \<times> disk_state" where
  "lead_finish cfg cs tk fr rd jitter cache_io post_io inner dsk =
     (let fetched = fetched_for tk fr;
          (finished, inner1) = observe_now rd inner;
          now = max finished (started_effective tk);
          deadline = lead_deadline cfg tk fetched now jitter;
          (out, inner2, dsk2) = apply_fetched cs cache_io fetched now inner1 dsk;
          d = count_refresh (ticket_kind tk) (persisted inner2);
          suppression = keep_greater (suppression_until_unix d) (d_suppression_until_unix deadline);
          next_eligible = max (d_next_eligible_unix deadline) (case suppression of Some u \<Rightarrow> u | None \<Rightarrow> 0);
          d' = d\<lparr>next_eligible_unix := Some next_eligible, next_eligible_source := Some (d_source deadline),
            suppression_until_unix := suppression,
            wall_high_water_unix := max (wall_high_water_unix d) now\<rparr>;
          inner3 = inner2\<lparr>persisted := d'\<rparr>;
          (saved, dsk3) = save_deadlines cs post_io d' dsk2;
          inner4 = (if saved then inner3 else inner3\<lparr>persistence_healthy := False\<rparr>);
          rep = \<lparr>outcome = out, coalesced = False, r_next_eligible_unix = next_eligible,
            r_suppression_until_unix = suppression\<rparr>
      in (rep, inner4\<lparr>completed := Some (ticket_generation tk, rep), in_flight := None\<rparr>, dsk3))"

section \<open>What each section does to the deadlines\<close>

definition track :: "reading \<Rightarrow> RollbackTracker \<Rightarrow> RollbackTracker" where
  "track rd t = \<lparr>last_wall_seen = max (last_wall_seen t) (wall_unix rd),
     last_mono_seen = max (last_mono_seen t) (monotonic_ms rd),
     rollback_detected = (wall_rolled_back (last_wall_seen t) (last_mono_seen t) (wall_unix rd) (monotonic_ms rd)
       \<or> rollback_detected t)\<rparr>"

lemma observe_now_eq: "observe_now rd inner = (observe_wall rd inner, inner\<lparr>rollback := track rd (rollback inner)\<rparr>)"
  by (simp add: observe_now_def observe_wall_def track_def Let_def)

lemma observe_wall_ge: "wall_high_water_unix (persisted inner) \<le> observe_wall rd inner"
  by (simp add: observe_wall_def)

definition disk_doc :: "codecs \<Rightarrow> disk_state \<Rightarrow> SchedulerDeadlines option" where
  "disk_doc cs dsk = disk_deadlines (deadlines_codec cs) (deadlines_file dsk)"

definition stamped :: "SchedulerDeadlines \<Rightarrow> SchedulerDeadlines" where
  "stamped d = d\<lparr>dl_schema_version := DEADLINES_SCHEMA_VERSION\<rparr>"

lemma stamped_fields [simp]:
  "last_request_unix (stamped d) = last_request_unix d" "next_eligible_unix (stamped d) = next_eligible_unix d"
  "wall_high_water_unix (stamped d) = wall_high_water_unix d"
  "suppression_until_unix (stamped d) = suppression_until_unix d"
  by (simp_all add: stamped_def)

lemma save_deadlines_disk:
  assumes "codec_faithful (deadlines_codec cs)" and "save_deadlines cs io d dsk = (ok, dsk')"
  shows "disk_doc cs dsk' = (if ok then Some (stamped d) else disk_doc cs dsk) \<and> cache_file dsk' = cache_file dsk"
proof -
  obtain r f where rf: "deadline_save (deadlines_codec cs) io d (deadlines_file dsk) = (r, f)" by fastforce
  with assms(2) have "ok = is_ok r" "dsk' = dsk\<lparr>deadlines_file := f\<rparr>" by (simp_all add: save_deadlines_def)
  moreover have "is_ok r \<longleftrightarrow> r = Ok ()" by (cases r) auto
  ultimately show ?thesis
    using disk_deadlines_save [OF assms(1), of io d "deadlines_file dsk"] rf by (simp add: disk_doc_def stamped_def)
qed

text \<open>The part before the fetch.\<close>

lemma lead_begin_effects:
  assumes cf: "codec_faithful (deadlines_codec cs)"
    and lb: "lead_begin cfg cs kind gio aio rd inner dsk = (tk, inner', dsk')"
  shows "in_flight inner' = Some (ticket_generation tk)"
    and "ticket_kind tk = kind" and "started_effective tk = observe_wall rd inner"
    and "persisted inner' = (persisted inner)\<lparr>last_request_unix := Some (observe_wall rd inner),
      wall_high_water_unix := observe_wall rd inner\<rparr>"
    and "pending_token inner' = pending_token inner"
    and "anchored tk \<Longrightarrow> disk_doc cs dsk' = Some (stamped (persisted inner'))"
    and "\<not> anchored tk \<Longrightarrow> disk_doc cs dsk' = disk_doc cs dsk \<or> disk_doc cs dsk' = Some (stamped (persisted inner))"
    and "persistence_healthy inner' \<Longrightarrow> anchored tk"
    and "cache_file dsk' = cache_file dsk"
proof -
  let ?g = "wrapping_incr (lead_generation inner)"
  let ?i1 = "inner\<lparr>lead_generation := ?g, in_flight := Some ?g\<rparr>"
  obtain ok1 d1 where g: "save_deadlines cs gio (persisted ?i1) dsk = (ok1, d1)" by fastforce
  note gate = save_deadlines_disk [OF cf g]
  let ?d = "(persisted inner)\<lparr>last_request_unix := Some (observe_wall rd inner),
      wall_high_water_unix := observe_wall rd inner\<rparr>"
  have hw: "max (wall_high_water_unix (persisted inner)) (observe_wall rd inner) = observe_wall rd inner"
    using observe_wall_ge [of inner rd] by simp
  let ?dsk2 = "if persistence_healthy inner then dsk else d1"
  obtain ok2 d2 where a: "save_deadlines cs aio ?d ?dsk2 = (ok2, d2)" by fastforce
  note anc = save_deadlines_disk [OF cf a]
  have ow: "observe_wall rd (inner\<lparr>lead_generation := x, in_flight := y, persistence_healthy := z\<rparr>) = observe_wall rd inner"
    "observe_wall rd (inner\<lparr>lead_generation := x, in_flight := y\<rparr>) = observe_wall rd inner" for x y z
    by (simp_all add: observe_wall_def)
  show "in_flight inner' = Some (ticket_generation tk)" "ticket_kind tk = kind"
    "started_effective tk = observe_wall rd inner" "persisted inner' = ?d" "pending_token inner' = pending_token inner"
    using lb g a hw
    by (auto simp: lead_begin_def Let_def observe_now_eq ow split: prod.splits bool.splits if_splits)
  show "anchored tk \<Longrightarrow> disk_doc cs dsk' = Some (stamped (persisted inner'))"
    "\<not> anchored tk \<Longrightarrow> disk_doc cs dsk' = disk_doc cs dsk \<or> disk_doc cs dsk' = Some (stamped (persisted inner))"
    "persistence_healthy inner' \<Longrightarrow> anchored tk" "cache_file dsk' = cache_file dsk"
    using lb g a hw gate anc
    by (auto simp: lead_begin_def Let_def observe_now_eq ow split: prod.splits bool.splits if_splits)
qed

text \<open>The match on the fetch result touches the age anchor, the revision and the cache only.\<close>

lemma adopt_keeps_deadlines:
  "adopt_fetched_revision cs io et body now cache dsk = (v, cache', dsk') \<Longrightarrow>
   deadlines_file dsk' = deadlines_file dsk"
  by (auto simp: adopt_fetched_revision_def Let_def split: res.splits option.splits if_splits prod.splits)

lemma apply_fetched_keeps:
  assumes "apply_fetched cs io fetched now inner dsk = (out, inner', dsk')"
  shows "\<exists>ls. persisted inner' = (persisted inner)\<lparr>last_success_unix := ls\<rparr>"
    and "pending_token inner' = pending_token inner" and "persistence_healthy inner' = persistence_healthy inner"
    and "deadlines_file dsk' = deadlines_file dsk"
proof -
  have "persisted inner' = persisted inner \<or>
      persisted inner' = (persisted inner)\<lparr>last_success_unix := Some now\<rparr>"
    using assms
    by (auto simp: apply_fetched_def Let_def split: sum.splits FetchOutcome.splits FetchFailure.splits
        prod.splits RevisionVerdict.splits option.splits res.splits)
  moreover have "persisted inner = (persisted inner)\<lparr>last_success_unix := last_success_unix (persisted inner)\<rparr>"
    by simp
  ultimately show "\<exists>ls. persisted inner' = (persisted inner)\<lparr>last_success_unix := ls\<rparr>" by metis
  show "pending_token inner' = pending_token inner" "persistence_healthy inner' = persistence_healthy inner"
    "deadlines_file dsk' = deadlines_file dsk"
    using assms
    by (auto simp: apply_fetched_def Let_def dest: adopt_keeps_deadlines split: sum.splits FetchOutcome.splits
        FetchFailure.splits prod.splits RevisionVerdict.splits option.splits res.splits)
qed

lemma keep_greater_ge: "keep_greater old new = x \<Longrightarrow> old = Some u \<Longrightarrow> \<exists>v. x = Some v \<and> u \<le> v"
  by (auto simp: keep_greater_def)

text \<open>The part after the fetch.\<close>

lemma lead_finish_effects:
  assumes cf: "codec_faithful (deadlines_codec cs)"
    and lf: "lead_finish cfg cs tk fr rd jitter cio pio inner dsk = (rep, inner', dsk')"
  shows "in_flight inner' = None" and "pending_token inner' = pending_token inner"
    and "last_request_unix (persisted inner') = last_request_unix (persisted inner)"
    and "wall_high_water_unix (persisted inner) \<le> wall_high_water_unix (persisted inner')"
    and "\<exists>n. next_eligible_unix (persisted inner') = Some n \<and>
      saturating_add (started_effective tk) FRESHNESS_FLOOR_SECONDS \<le> n \<and>
      (\<forall>u. suppression_until_unix (persisted inner') = Some u \<longrightarrow> u \<le> n)"
    and "\<And>u. suppression_until_unix (persisted inner) = Some u \<Longrightarrow>
      \<exists>v. suppression_until_unix (persisted inner') = Some v \<and> u \<le> v"
    and "disk_doc cs dsk' = Some (stamped (persisted inner')) \<or>
      disk_doc cs dsk' = disk_doc cs dsk \<and> \<not> persistence_healthy inner'"
proof -
  let ?f = "fetched_for tk fr" and ?now = "max (observe_wall rd inner) (started_effective tk)"
  let ?i1 = "inner\<lparr>rollback := track rd (rollback inner)\<rparr>"
  let ?dl = "lead_deadline cfg tk ?f ?now jitter"
  obtain out i2 d2 where af: "apply_fetched cs cio ?f ?now ?i1 dsk = (out, i2, d2)"
    by (cases "apply_fetched cs cio ?f ?now ?i1 dsk") auto
  obtain ls where ls: "persisted i2 = (persisted inner)\<lparr>last_success_unix := ls\<rparr>"
    using apply_fetched_keeps(1) [OF af] by auto
  let ?d = "count_refresh (ticket_kind tk) (persisted i2)"
  have cr: "last_request_unix ?d = last_request_unix (persisted inner)"
    "wall_high_water_unix ?d = wall_high_water_unix (persisted inner)"
    "suppression_until_unix ?d = suppression_until_unix (persisted inner)"
    by (simp_all add: count_refresh_def ls split: RefreshKind.splits)
  let ?s = "keep_greater (suppression_until_unix ?d) (d_suppression_until_unix ?dl)"
  let ?n = "max (d_next_eligible_unix ?dl) (case ?s of Some u \<Rightarrow> u | None \<Rightarrow> 0)"
  let ?d' = "?d\<lparr>next_eligible_unix := Some ?n, next_eligible_source := Some (d_source ?dl),
      suppression_until_unix := ?s, wall_high_water_unix := max (wall_high_water_unix ?d) ?now\<rparr>"
  obtain ok d3 where sv: "save_deadlines cs pio ?d' d2 = (ok, d3)" by fastforce
  have i': "persisted inner' = ?d'" "in_flight inner' = None" "dsk' = d3"
    "pending_token inner' = pending_token i2" "persistence_healthy inner' = (ok \<and> persistence_healthy i2)"
    using lf af sv by (auto simp: lead_finish_def Let_def observe_now_eq split: prod.splits if_splits)
  show "in_flight inner' = None" by (rule i')
  show "pending_token inner' = pending_token inner" using i'(4) apply_fetched_keeps(2) [OF af] by simp
  show "last_request_unix (persisted inner') = last_request_unix (persisted inner)" using i'(1) cr by simp
  show "wall_high_water_unix (persisted inner) \<le> wall_high_water_unix (persisted inner')" using i'(1) cr by simp
  have "saturating_add (started_effective tk) FRESHNESS_FLOOR_SECONDS \<le> d_next_eligible_unix ?dl"
    unfolding lead_deadline_def by (rule next_deadline_ge_floor) simp
  then show "\<exists>n. next_eligible_unix (persisted inner') = Some n \<and>
      saturating_add (started_effective tk) FRESHNESS_FLOOR_SECONDS \<le> n \<and>
      (\<forall>u. suppression_until_unix (persisted inner') = Some u \<longrightarrow> u \<le> n)"
    using i'(1) by auto
  show "\<exists>v. suppression_until_unix (persisted inner') = Some v \<and> u \<le> v"
    if "suppression_until_unix (persisted inner) = Some u" for u
    using i'(1) cr(3) that keep_greater_ge [OF refl, of "suppression_until_unix (persisted inner)" u] by simp
  have "disk_doc cs d2 = disk_doc cs dsk" using apply_fetched_keeps(4) [OF af] by (simp add: disk_doc_def)
  then show "disk_doc cs dsk' = Some (stamped (persisted inner')) \<or>
      disk_doc cs dsk' = disk_doc cs dsk \<and> \<not> persistence_healthy inner'"
    using save_deadlines_disk [OF cf sv] i' by (cases ok) simp_all
qed

text \<open>The decisions leave the deadlines alone.\<close>

lemma automatic_decide_effects:
  assumes "automatic_decide rd inner = (dec, now, inner')"
  shows "inner' = inner\<lparr>rollback := track rd (rollback inner)\<rparr>" "now = observe_wall rd inner"
    "dec = AutoLead \<Longrightarrow> (\<forall>n. next_eligible_unix (persisted inner) = Some n \<longrightarrow> n \<le> now) \<and>
       (\<forall>u. suppression_until_unix (persisted inner) = Some u \<longrightarrow> u \<le> now)"
  using assms
  by (auto simp: automatic_decide_def observe_now_eq Let_def split: option.splits if_splits)

lemma ceremony_effects:
  assumes "ceremony minted now inner = (out, inner')"
  shows "(\<exists>t req. minted = Some t \<and> out = ConfirmationRequired req \<and> confirmation_token req = t \<and>
      inner' = inner\<lparr>pending_token := Some \<lparr>token_value = t,
        expires_unix = saturating_add now CONFIRMATION_TOKEN_TTL_SECONDS\<rparr>\<rparr>) \<or>
    (minted = None \<and> out = Unavailable \<and> inner' = inner)"
  using assms by (auto simp: ceremony_def mint_requirement_def split: option.splits prod.splits)

lemma manual_decide_cases:
  assumes "manual_decide token minted rd inner = (dec, now, inner')"
  obtains (suppressed) u where "dec = ManualReturn (Suppressed u)"
      "inner' = inner\<lparr>rollback := track rd (rollback inner)\<rparr>"
  | (due) "dec = ManualLeadDue" "inner' = inner\<lparr>rollback := track rd (rollback inner)\<rparr>"
      "\<forall>u. suppression_until_unix (persisted inner) = Some u \<longrightarrow> u \<le> now"
      "\<forall>n. next_eligible_unix (persisted inner) = Some n \<longrightarrow> n \<le> now"
  | (confirmed) v p where "dec = ManualLeadConfirmed v" "token = Some v" "v \<noteq> []"
      "inner' = inner\<lparr>rollback := track rd (rollback inner), pending_token := None\<rparr>"
      "\<forall>u. suppression_until_unix (persisted inner) = Some u \<longrightarrow> u \<le> now"
      "pending_token inner = Some p" "token_value p = v" "now \<le> expires_unix p"
  | (held) out where "dec = ManualReturn out"
      "ceremony minted now (inner\<lparr>rollback := track rd (rollback inner)\<rparr>) = (out, inner')"
proof -
  let ?i = "inner\<lparr>rollback := track rd (rollback inner)\<rparr>"
  obtain out i2 where c: "ceremony minted (observe_wall rd inner) ?i = (out, i2)" by fastforce
  show thesis
    using assms that c
    by (auto simp: manual_decide_def observe_now_eq Let_def redeemable_def split: option.splits if_splits)
qed

lemma manual_decide_now: "manual_decide token minted rd inner = (dec, now, inner') \<Longrightarrow> now = observe_wall rd inner"
  by (auto simp: manual_decide_def observe_now_eq Let_def split: option.splits if_splits prod.splits)

lemma manual_decide_keeps:
  assumes "manual_decide token minted rd inner = (dec, now, inner')"
  shows "persisted inner' = persisted inner" "in_flight inner' = in_flight inner"
    "persistence_healthy inner' = persistence_healthy inner"
  using assms by (cases rule: manual_decide_cases; auto dest!: ceremony_effects)+

end
