(* ===== verification/Scheduler_Runs.thy ===== *)
theory Scheduler_Runs
  imports Scheduler
begin

text \<open>
  The scheduler under every interleaving: any number of callers at both doors, callers
  parked on the condition variable, one leader fetching with the lock dropped, a clock that
  reads anything, saves that fail at any system call, fetches that fail or panic, and crashes
  followed by a restart from whatever the disk holds. A step is one critical section; the
  ghost fields record every upstream contact with the time it was decided and the time it
  was anchored, and the tokens minted and redeemed.
\<close>

section \<open>The transition system\<close>

datatype door = AutoDoor | ManualDoor "string option"

datatype caller = Parked u64 door | Fetching lead_ticket

datatype contact_kind = AutomaticContact | DueContact | ConfirmedContact

record contact =
  contact_kind :: contact_kind
  decided_at :: u64
  started_at :: u64

record sys =
  inner :: Inner
  disk :: disk_state
  callers :: "nat \<Rightarrow> caller option"
  contacts :: "contact list"
  minted_tokens :: "string list"
  redeemed_tokens :: "string list"

text \<open>A caller that holds the lock with no refresh in flight and no report to join.\<close>

definition at_decision :: "sys \<Rightarrow> nat \<Rightarrow> door \<Rightarrow> bool" where
  "at_decision s tid dr \<longleftrightarrow>
     in_flight (inner s) = None \<and>
     (callers s tid = None \<or>
      (\<exists>seen. callers s tid = Some (Parked seen dr) \<and> joined_report seen (inner s) = None))"

definition start_lead :: "sys \<Rightarrow> nat \<Rightarrow> contact_kind \<Rightarrow> u64 \<Rightarrow> lead_ticket \<Rightarrow> Inner \<Rightarrow> disk_state \<Rightarrow> sys" where
  "start_lead s tid k now tk inner' dsk' =
     s\<lparr>inner := inner', disk := dsk', callers := (callers s)(tid \<mapsto> Fetching tk),
       contacts := (if anchored tk
         then \<lparr>contact_kind = k, decided_at = now, started_at = started_effective tk\<rparr> # contacts s
         else contacts s)\<rparr>"

inductive step :: "SchedulerConfig \<Rightarrow> codecs \<Rightarrow> sys \<Rightarrow> sys \<Rightarrow> bool" for cfg cs where
  park:
    "callers s tid = None \<Longrightarrow> in_flight (inner s) = Some g \<Longrightarrow>
     step cfg cs s (s\<lparr>callers := (callers s)(tid \<mapsto> Parked g dr)\<rparr>)"
| join:
    "callers s tid = Some (Parked seen dr) \<Longrightarrow> in_flight (inner s) \<noteq> Some seen \<Longrightarrow>
     joined_report seen (inner s) = Some rep \<Longrightarrow>
     step cfg cs s (s\<lparr>callers := (callers s)(tid := None)\<rparr>)"
| park_again:
    "callers s tid = Some (Parked seen dr) \<Longrightarrow> in_flight (inner s) = Some g \<Longrightarrow> g \<noteq> seen \<Longrightarrow>
     joined_report seen (inner s) = None \<Longrightarrow>
     step cfg cs s (s\<lparr>callers := (callers s)(tid \<mapsto> Parked g dr)\<rparr>)"
| automatic_not_due:
    "at_decision s tid AutoDoor \<Longrightarrow> automatic_decide rd (inner s) = (AutoNotDue u, now, inner') \<Longrightarrow>
     step cfg cs s (s\<lparr>inner := inner', callers := (callers s)(tid := None)\<rparr>)"
| automatic_lead:
    "at_decision s tid AutoDoor \<Longrightarrow> automatic_decide rd (inner s) = (AutoLead, now, inner') \<Longrightarrow>
     lead_begin cfg cs AutomaticKind gio aio rd' inner' (disk s) = (tk, inner'', dsk') \<Longrightarrow>
     step cfg cs s (start_lead s tid AutomaticContact now tk inner'' dsk')"
| manual_return:
    "at_decision s tid (ManualDoor token) \<Longrightarrow>
     manual_decide token minted rd (inner s) = (ManualReturn out, now, inner') \<Longrightarrow>
     step cfg cs s (s\<lparr>inner := inner', callers := (callers s)(tid := None),
       minted_tokens := (case out of
         ConfirmationRequired req \<Rightarrow> confirmation_token req # minted_tokens s | _ \<Rightarrow> minted_tokens s)\<rparr>)"
| manual_due:
    "at_decision s tid (ManualDoor token) \<Longrightarrow>
     manual_decide token minted rd (inner s) = (ManualLeadDue, now, inner') \<Longrightarrow>
     lead_begin cfg cs ManualKind gio aio rd' inner' (disk s) = (tk, inner'', dsk') \<Longrightarrow>
     step cfg cs s (start_lead s tid DueContact now tk inner'' dsk')"
| manual_confirmed:
    "at_decision s tid (ManualDoor token) \<Longrightarrow>
     manual_decide token minted rd (inner s) = (ManualLeadConfirmed v, now, inner') \<Longrightarrow>
     lead_begin cfg cs ManualKind gio aio rd' inner' (disk s) = (tk, inner'', dsk') \<Longrightarrow>
     step cfg cs s ((start_lead s tid ConfirmedContact now tk inner'' dsk')
       \<lparr>redeemed_tokens := v # redeemed_tokens s\<rparr>)"
| finish:
    "callers s tid = Some (Fetching tk) \<Longrightarrow>
     draw_jitter (max_positive_jitter_seconds cfg) samples = Some (Ok jitter) \<Longrightarrow>
     lead_finish cfg cs tk fr rd jitter cio pio (inner s) (disk s) = (rep, inner', dsk') \<Longrightarrow>
     step cfg cs s (s\<lparr>inner := inner', disk := dsk', callers := (callers s)(tid := None)\<rparr>)"
| crash_restart:
    "production_with_trust_root cs lstat cache_dir trust_root faults (disk s) = Ok inner' \<Longrightarrow>
     step cfg cs s (s\<lparr>inner := inner', callers := (\<lambda>_. None)\<rparr>)"

definition initial :: "codecs \<Rightarrow> sys \<Rightarrow> bool" where
  "initial cs s \<longleftrightarrow>
     (\<exists>lstat cache_dir trust_root faults.
       production_with_trust_root cs lstat cache_dir trust_root faults (disk s) = Ok (inner s)) \<and>
     callers s = (\<lambda>_. None) \<and> contacts s = [] \<and> minted_tokens s = [] \<and> redeemed_tokens s = []"

inductive reachable :: "SchedulerConfig \<Rightarrow> codecs \<Rightarrow> sys \<Rightarrow> bool" for cfg cs where
  start: "initial cs s \<Longrightarrow> reachable cfg cs s"
| run: "reachable cfg cs s \<Longrightarrow> step cfg cs s s' \<Longrightarrow> reachable cfg cs s'"

section \<open>What a start finds\<close>

lemma production_Ok:
  assumes "production_with_trust_root cs lstat cache_dir trust_root faults dsk = Ok inner'"
  shows "\<exists>d et c. disk_doc cs dsk = Some d \<and> inner' = new_with_cache d et c"
proof -
  from assms obtain loaded where
    l: "deadline_load_validated (deadlines_codec cs) (deadlines_fault faults) (deadlines_file dsk) = Ok loaded"
    and i: "\<exists>et c. inner' = new_with_cache (case loaded of Some d \<Rightarrow> d | None \<Rightarrow> SchedulerDeadlines_default) et c"
    by (auto simp: production_with_trust_root_def deadline_load_strict_def res_simps)
  have "deadlines_fault faults = None"
    using l by (cases "deadlines_fault faults") (auto simp: deadline_load_validated_def fs_read_def)
  with l have "disk_doc cs dsk = Some (case loaded of Some d \<Rightarrow> d | None \<Rightarrow> SchedulerDeadlines_default)"
    by (simp add: disk_doc_def disk_deadlines_def split: option.splits)
  with i show ?thesis by auto
qed

lemma rederive_keeps [simp]:
  "last_request_unix (rederive_crash_pacing d) = last_request_unix d"
  "wall_high_water_unix (rederive_crash_pacing d) = wall_high_water_unix d"
  "suppression_until_unix (rederive_crash_pacing d) = suppression_until_unix d"
  by (simp_all add: rederive_crash_pacing_def Let_def split: option.splits)

lemma rederive_floor:
  assumes "last_request_unix d = Some r"
  shows "\<exists>n. next_eligible_unix (rederive_crash_pacing d) = Some n \<and>
    saturating_add r FRESHNESS_FLOOR_SECONDS \<le> n"
  using assms by (auto simp: rederive_crash_pacing_def Let_def split: option.splits)

section \<open>Pacing\<close>

text \<open>A document that remembers every contact of a history.\<close>

definition remembers :: "SchedulerDeadlines \<Rightarrow> u64 set \<Rightarrow> bool" where
  "remembers d ts \<longleftrightarrow>
     (\<forall>t \<in> ts. t \<le> wall_high_water_unix d \<and> (\<exists>r. last_request_unix d = Some r \<and> t \<le> r))"

definition paces :: "SchedulerDeadlines \<Rightarrow> u64 set \<Rightarrow> bool" where
  "paces d ts \<longleftrightarrow>
     (\<forall>t \<in> ts. \<exists>n. next_eligible_unix d = Some n \<and> saturating_add t FRESHNESS_FLOOR_SECONDS \<le> n)"

definition starts :: "sys \<Rightarrow> u64 set" where
  "starts s = started_at ` set (contacts s)"

definition spaced :: "contact list \<Rightarrow> bool" where
  "spaced cts \<longleftrightarrow>
     sorted_wrt (\<lambda>newer older. contact_kind newer \<noteq> ConfirmedContact \<longrightarrow>
       saturating_add (started_at older) FRESHNESS_FLOOR_SECONDS \<le> decided_at newer) cts"

definition single_flight :: "sys \<Rightarrow> bool" where
  "single_flight s \<longleftrightarrow>
     (\<forall>tid tk. callers s tid = Some (Fetching tk) \<longrightarrow> in_flight (inner s) = Some (ticket_generation tk)) \<and>
     (\<forall>tid tid' tk tk'. callers s tid = Some (Fetching tk) \<longrightarrow> callers s tid' = Some (Fetching tk') \<longrightarrow> tid = tid') \<and>
     (\<forall>g. in_flight (inner s) = Some g \<longrightarrow> (\<exists>tid tk. callers s tid = Some (Fetching tk)))"

definition paced :: "codecs \<Rightarrow> sys \<Rightarrow> bool" where
  "paced cs s \<longleftrightarrow>
     remembers (persisted (inner s)) (starts s) \<and>
     (\<exists>d. disk_doc cs (disk s) = Some d \<and> remembers d (starts s)) \<and>
     (in_flight (inner s) = None \<longrightarrow> paces (persisted (inner s)) (starts s)) \<and>
     (\<forall>tid tk. callers s tid = Some (Fetching tk) \<longrightarrow> (\<forall>t \<in> starts s. t \<le> started_effective tk)) \<and>
     spaced (contacts s)"

lemma ghost_tokens [simp]:
  "single_flight (s\<lparr>minted_tokens := m\<rparr>) = single_flight s" "single_flight (s\<lparr>redeemed_tokens := m\<rparr>) = single_flight s"
  "paced cs (s\<lparr>minted_tokens := m\<rparr>) = paced cs s" "paced cs (s\<lparr>redeemed_tokens := m\<rparr>) = paced cs s"
  by (simp_all add: single_flight_def paced_def starts_def)

lemma remembers_mono:
  assumes "remembers d ts" and "wall_high_water_unix d \<le> wall_high_water_unix d'"
    and "\<And>r. last_request_unix d = Some r \<Longrightarrow> \<exists>r'. last_request_unix d' = Some r' \<and> r \<le> r'"
  shows "remembers d' ts"
  using assms unfolding remembers_def by (meson order_trans)

lemma remembers_insert:
  "remembers d (insert t ts) \<longleftrightarrow>
   t \<le> wall_high_water_unix d \<and> (\<exists>r. last_request_unix d = Some r \<and> t \<le> r) \<and> remembers d ts"
  by (simp add: remembers_def)

lemma remembers_stamped [simp]: "remembers (stamped d) ts = remembers d ts"
  by (simp add: remembers_def)

lemma paces_floor:
  assumes "\<forall>t \<in> ts. t \<le> r" and "next_eligible_unix d = Some n" and "saturating_add r FRESHNESS_FLOOR_SECONDS \<le> n"
  shows "paces d ts"
  unfolding paces_def using assms saturating_add_mono_left order_trans by meson

lemma starts_start_lead:
  "starts (start_lead s tid k now tk i d) =
     (if anchored tk then insert (started_effective tk) (starts s) else starts s)"
  by (simp add: starts_def start_lead_def)

lemma start_lead_single_flight:
  assumes "single_flight s" "at_decision s tid dr" "codec_faithful (deadlines_codec cs)"
    and "lead_begin cfg cs kind gio aio rd inner' (disk s) = (tk, i, d)"
  shows "single_flight (start_lead s tid k now tk i d)"
  using assms(1,2) lead_begin_effects(1) [OF assms(3,4)]
  by (auto simp: single_flight_def start_lead_def at_decision_def)

lemma start_lead_paced:
  assumes cf: "codec_faithful (deadlines_codec cs)" and p: "paced cs s" and sf: "single_flight s"
    and idle: "in_flight (inner s) = None" and same: "persisted inner' = persisted (inner s)"
    and lb: "lead_begin cfg cs kind gio aio rd inner' (disk s) = (tk, inner'', dsk')"
    and due: "k \<noteq> ConfirmedContact \<Longrightarrow> \<forall>n. next_eligible_unix (persisted (inner s)) = Some n \<longrightarrow> n \<le> now"
  shows "paced cs (start_lead s tid k now tk inner'' dsk')"
proof -
  note b = lead_begin_effects [OF cf lb]
  let ?s' = "start_lead s tid k now tk inner'' dsk'" and ?t = "started_effective tk"
  have old: "remembers (persisted (inner s)) (starts s)" using p by (simp add: paced_def)
  have hw: "wall_high_water_unix (persisted (inner s)) \<le> ?t"
    using observe_wall_ge [of inner' rd] b(3) same by simp
  then have le: "\<forall>t \<in> starts s. t \<le> ?t" using old by (force simp: remembers_def)
  have new: "persisted inner'' = (persisted (inner s))\<lparr>last_request_unix := Some ?t, wall_high_water_unix := ?t\<rparr>"
    using b(3,4) same by simp
  then have mem: "remembers (persisted inner'') (insert ?t (starts s))"
    using le by (auto simp: remembers_def)
  then have mem': "remembers (persisted inner'') (starts ?s')"
    by (auto simp: starts_start_lead remembers_def)
  have disk': "\<exists>d. disk_doc cs dsk' = Some d \<and> remembers d (starts ?s')"
  proof (cases "anchored tk")
    case True
    then show ?thesis using b(6) mem by (simp add: starts_start_lead)
  next
    case False
    then show ?thesis using b(7) p old same by (auto simp: starts_start_lead paced_def)
  qed
  have "spaced (contacts ?s')"
  proof -
    have "saturating_add (started_at c) FRESHNESS_FLOOR_SECONDS \<le> now"
      if "c \<in> set (contacts s)" "k \<noteq> ConfirmedContact" for c
    proof -
      have "started_at c \<in> starts s" using that by (simp add: starts_def)
      then obtain n where "next_eligible_unix (persisted (inner s)) = Some n"
        "saturating_add (started_at c) FRESHNESS_FLOOR_SECONDS \<le> n"
        using p idle unfolding paced_def paces_def by blast
      then show ?thesis using due [OF that(2)] by auto
    qed
    then show ?thesis using p by (auto simp: paced_def spaced_def start_lead_def)
  qed
  moreover have "in_flight (inner ?s') \<noteq> None" using b(1) by (simp add: start_lead_def)
  moreover have "\<forall>t \<in> starts ?s'. t \<le> started_effective tk'" if "callers ?s' tid' = Some (Fetching tk')" for tid' tk'
  proof (cases "tid' = tid")
    case True
    then have "tk' = tk" using that by (simp add: start_lead_def)
    then show ?thesis using le by (auto simp: starts_start_lead)
  next
    case False
    then have "callers s tid' = Some (Fetching tk')" using that by (simp add: start_lead_def)
    then show ?thesis using sf idle by (auto simp: single_flight_def)
  qed
  ultimately show ?thesis using mem' disk' unfolding paced_def by (auto simp: start_lead_def)
qed

lemma at_decision_idle: "at_decision s tid dr \<Longrightarrow> in_flight (inner s) = None"
  by (simp add: at_decision_def)

lemma restart_paced:
  assumes "production_with_trust_root cs lstat cache_dir trust_root faults (disk s) = Ok inner'" and "paced cs s"
  shows "paced cs (s\<lparr>inner := inner', callers := \<lambda>_. None\<rparr>)"
proof -
  obtain d et c where d: "disk_doc cs (disk s) = Some d" "inner' = new_with_cache d et c"
    using production_Ok [OF assms(1)] by blast
  have rem: "remembers d (starts s)" using assms(2) d by (simp add: paced_def)
  then have "remembers (rederive_crash_pacing d) (starts s)" by (simp add: remembers_def)
  moreover have "paces (rederive_crash_pacing d) (starts s)"
  proof (cases "last_request_unix d")
    case None
    with rem have "starts s = {}" by (auto simp: remembers_def)
    then show ?thesis by (simp add: paces_def)
  next
    case (Some r)
    with rem have "\<forall>t \<in> starts s. t \<le> r" by (auto simp: remembers_def)
    with rederive_floor [OF Some] paces_floor show ?thesis by blast
  qed
  ultimately show ?thesis
    using assms(2) rem d by (simp add: paced_def new_with_cache_def starts_def)
qed

lemma finish_paced:
  assumes cf: "codec_faithful (deadlines_codec cs)" and p: "paced cs s" and sf: "single_flight s"
    and c: "callers s tid = Some (Fetching tk)"
    and lf: "lead_finish cfg cs tk fr rd jitter cio pio (inner s) (disk s) = (rep, inner', dsk')"
  shows "paced cs (s\<lparr>inner := inner', disk := dsk', callers := (callers s)(tid := None)\<rparr>)"
proof -
  note f = lead_finish_effects [OF cf lf]
  have le: "\<forall>t \<in> starts s. t \<le> started_effective tk" using p c by (simp add: paced_def)
  have mem: "remembers (persisted inner') (starts s)"
    using p f(3,4) by (auto simp: paced_def elim!: remembers_mono)
  have "paces (persisted inner') (starts s)" using f(5) paces_floor [OF le] by blast
  moreover have "\<exists>d. disk_doc cs dsk' = Some d \<and> remembers d (starts s)"
    using f(7) mem p by (auto simp: paced_def)
  moreover have "\<not> (\<exists>tid' tk'. ((callers s)(tid := None)) tid' = Some (Fetching tk'))"
    using sf c by (auto simp: single_flight_def)
  ultimately show ?thesis using mem p by (auto simp: paced_def starts_def)
qed

lemma single_flight_caller:
  assumes sf: "single_flight s" and old: "\<And>tk. callers s tid \<noteq> Some (Fetching tk)"
    and new: "\<And>tk. c \<noteq> Some (Fetching tk)" and fl: "in_flight i = in_flight (inner s)"
  shows "single_flight (s\<lparr>inner := i, callers := (callers s)(tid := c)\<rparr>)"
proof -
  have eq: "((callers s)(tid := c)) t = Some (Fetching tk) \<longleftrightarrow> callers s t = Some (Fetching tk)" for t tk
    using old new by (cases "t = tid") auto
  let ?s' = "s\<lparr>inner := i, callers := (callers s)(tid := c)\<rparr>"
  have s': "callers ?s' = (callers s)(tid := c)" "inner ?s' = i" by simp_all
  show ?thesis using sf unfolding single_flight_def s' eq fl .
qed

lemma step_single_flight:
  assumes "step cfg cs s s'" and "single_flight s" and cf: "codec_faithful (deadlines_codec cs)"
  shows "single_flight s'"
  using assms
proof (cases rule: step.cases)
  case (automatic_lead tid rd now inner' gio aio rd' tk inner'' dsk')
  show ?thesis
    unfolding automatic_lead(1) using assms(2) automatic_lead(2) cf automatic_lead(4) by (rule start_lead_single_flight)
next
  case (manual_due tid token minted rd now inner' gio aio rd' tk inner'' dsk')
  show ?thesis
    unfolding manual_due(1) using assms(2) manual_due(2) cf manual_due(4) by (rule start_lead_single_flight)
next
  case (manual_confirmed tid token minted rd v now inner' gio aio rd' tk inner'' dsk')
  have "single_flight (start_lead s tid ConfirmedContact now tk inner'' dsk')"
    using assms(2) manual_confirmed(2) cf manual_confirmed(4) by (rule start_lead_single_flight)
  then show ?thesis unfolding manual_confirmed(1) by (simp only: ghost_tokens)
next
  case (finish tid tk samples jitter fr rd cio pio rep inner' dsk')
  then show ?thesis using lead_finish_effects(1) [OF cf finish(4)] assms(2) by (auto simp: single_flight_def)
next
  case (crash_restart lstat cache_dir trust_root faults inner')
  then obtain d et c where "inner' = new_with_cache d et c" using production_Ok by blast
  then show ?thesis unfolding crash_restart(1) by (simp add: single_flight_def new_with_cache_def)
next
  case (automatic_not_due tid rd u now inner')
  show ?thesis unfolding automatic_not_due(1)
    by (rule single_flight_caller [OF assms(2)])
      (use automatic_not_due automatic_decide_effects(1) [OF automatic_not_due(3)] in \<open>auto simp: at_decision_def\<close>)
next
  case (manual_return tid token minted rd out now inner')
  have "single_flight (s\<lparr>inner := inner', callers := (callers s)(tid := None)\<rparr>)"
    by (rule single_flight_caller [OF assms(2)])
      (use manual_return manual_decide_keeps(2) [OF manual_return(3)] in \<open>auto simp: at_decision_def\<close>)
  then show ?thesis unfolding manual_return(1) by (simp only: ghost_tokens)
next
  case (park tid g dr)
  then show ?thesis using single_flight_caller [OF assms(2), of tid "Some (Parked g dr)" "inner s"] by simp
next
  case (join tid seen dr rep)
  then show ?thesis using single_flight_caller [OF assms(2), of tid None "inner s"] by simp
next
  case (park_again tid seen dr g)
  then show ?thesis using single_flight_caller [OF assms(2), of tid "Some (Parked g dr)" "inner s"] by simp
qed

lemma paced_caller:
  assumes "paced cs s" and "persisted i = persisted (inner s)" "in_flight i = in_flight (inner s)"
    and "\<And>tk. c \<noteq> Some (Fetching tk)"
  shows "paced cs (s\<lparr>inner := i, callers := (callers s)(tid := c)\<rparr>)"
  using assms by (auto simp: paced_def starts_def)

lemma step_paced:
  assumes "step cfg cs s s'" and "paced cs s" "single_flight s" and cf: "codec_faithful (deadlines_codec cs)"
  shows "paced cs s'"
  using assms(1)
proof (cases rule: step.cases)
  case (automatic_lead tid rd now inner' gio aio rd' tk inner'' dsk')
  note d = automatic_decide_effects [OF automatic_lead(3)]
  show ?thesis unfolding automatic_lead(1)
    by (rule start_lead_paced [OF cf assms(2,3) at_decision_idle [OF automatic_lead(2)] _ automatic_lead(4)])
      (use d in simp_all)
next
  case (manual_due tid token minted rd now inner' gio aio rd' tk inner'' dsk')
  have "\<forall>n. next_eligible_unix (persisted (inner s)) = Some n \<longrightarrow> n \<le> now"
    using manual_due(3) by (cases rule: manual_decide_cases) auto
  then show ?thesis unfolding manual_due(1)
    by (intro start_lead_paced [OF cf assms(2,3) at_decision_idle [OF manual_due(2)]
          manual_decide_keeps(1) [OF manual_due(3)] manual_due(4)])
next
  case (manual_confirmed tid token minted rd v now inner' gio aio rd' tk inner'' dsk')
  have "paced cs (start_lead s tid ConfirmedContact now tk inner'' dsk')"
    by (rule start_lead_paced [OF cf assms(2,3) at_decision_idle [OF manual_confirmed(2)]
          manual_decide_keeps(1) [OF manual_confirmed(3)] manual_confirmed(4)]) simp
  then show ?thesis unfolding manual_confirmed(1) by (simp only: ghost_tokens)
next
  case (finish tid tk samples jitter fr rd cio pio rep inner' dsk')
  show ?thesis unfolding finish(1) by (rule finish_paced [OF cf assms(2,3) finish(2,4)])
next
  case (crash_restart lstat cache_dir trust_root faults inner')
  show ?thesis unfolding crash_restart(1) by (rule restart_paced [OF crash_restart(2) assms(2)])
next
  case (automatic_not_due tid rd u now inner')
  show ?thesis unfolding automatic_not_due(1)
    by (rule paced_caller [OF assms(2)]) (use automatic_decide_effects(1) [OF automatic_not_due(3)] in simp_all)
next
  case (manual_return tid token minted rd out now inner')
  have "paced cs (s\<lparr>inner := inner', callers := (callers s)(tid := None)\<rparr>)"
    by (rule paced_caller [OF assms(2)]) (use manual_decide_keeps [OF manual_return(3)] in simp_all)
  then show ?thesis unfolding manual_return(1) by (simp only: ghost_tokens)
next
  case (park tid g dr)
  then show ?thesis using paced_caller [OF assms(2), of "inner s" "Some (Parked g dr)" tid] by simp
next
  case (join tid seen dr rep)
  then show ?thesis using paced_caller [OF assms(2), of "inner s" None tid] by simp
next
  case (park_again tid seen dr g)
  then show ?thesis using paced_caller [OF assms(2), of "inner s" "Some (Parked g dr)" tid] by simp
qed

lemma initial_ok:
  assumes "initial cs s"
  shows "paced cs s" "single_flight s"
proof -
  obtain d et c where d: "disk_doc cs (disk s) = Some d" "inner s = new_with_cache d et c"
    using assms production_Ok unfolding initial_def by blast
  with assms show "paced cs s" "single_flight s"
    by (auto simp: initial_def paced_def starts_def remembers_def paces_def spaced_def single_flight_def
        new_with_cache_def)
qed

lemma reachable_ok:
  assumes "reachable cfg cs s" and "codec_faithful (deadlines_codec cs)"
  shows "paced cs s \<and> single_flight s"
  using assms
  by (induction rule: reachable.induct) (auto simp: initial_ok step_single_flight intro: step_paced)

end
