(* ===== verification/Scheduler_Safety.thy ===== *)
theory Scheduler_Safety
  imports Scheduler_Runs
begin

text \<open>
  What the scheduler promises Proton, over every run of \<open>Scheduler_Runs\<close>: spacing of upstream
  contacts across crashes and clock rollback, durability of the anchor and of suppression,
  single flight without a wedge, early refreshes only through a ceremony, and a cache file
  that always loads.
\<close>

section \<open>Further invariants\<close>

text \<open>While a leader fetches, the disk holds the anchor of that very request.\<close>

definition anchor_durable :: "codecs \<Rightarrow> sys \<Rightarrow> bool" where
  "anchor_durable cs s \<longleftrightarrow>
     (\<forall>tid tk. callers s tid = Some (Fetching tk) \<and> anchored tk \<longrightarrow>
       (\<exists>d. disk_doc cs (disk s) = Some d \<and> last_request_unix d = Some (started_effective tk) \<and>
         wall_high_water_unix d = started_effective tk \<and>
         suppression_until_unix d = suppression_until_unix (persisted (inner s))))"

text \<open>With a healthy store the suppression on disk is the one in memory.\<close>

definition suppression_durable :: "codecs \<Rightarrow> sys \<Rightarrow> bool" where
  "suppression_durable cs s \<longleftrightarrow>
     (persistence_healthy (inner s) \<longrightarrow>
       (\<exists>d. disk_doc cs (disk s) = Some d \<and>
         suppression_until_unix d = suppression_until_unix (persisted (inner s))))"

definition tokens_accounted :: "sys \<Rightarrow> bool" where
  "tokens_accounted s \<longleftrightarrow>
     mset (redeemed_tokens s) + (case pending_token (inner s) of Some p \<Rightarrow> {#token_value p#} | None \<Rightarrow> {#})
       \<subseteq># mset (minted_tokens s) \<and>
     length (filter (\<lambda>c. contact_kind c = ConfirmedContact) (contacts s)) \<le> length (redeemed_tokens s)"

definition disk_suppresses :: "codecs \<Rightarrow> u64 \<Rightarrow> sys \<Rightarrow> bool" where
  "disk_suppresses cs u s \<longleftrightarrow>
     (\<exists>x. suppression_until_unix (persisted (inner s)) = Some x \<and> u \<le> x) \<and>
     (\<exists>d x. disk_doc cs (disk s) = Some d \<and> suppression_until_unix d = Some x \<and> u \<le> x)"

lemmas door_cases = step.cases [consumes 1, case_names park join park_again automatic_not_due automatic_lead
  manual_return manual_due manual_confirmed finish crash_restart]

lemma idle_no_fetching: "single_flight s \<Longrightarrow> in_flight (inner s) = None \<Longrightarrow> callers s tid \<noteq> Some (Fetching tk)"
  by (auto simp: single_flight_def)

lemma start_lead_fields [simp]:
  "inner (start_lead s tid k now tk i d) = i" "disk (start_lead s tid k now tk i d) = d"
  "callers (start_lead s tid k now tk i d) = (callers s)(tid \<mapsto> Fetching tk)"
  "minted_tokens (start_lead s tid k now tk i d) = minted_tokens s"
  "redeemed_tokens (start_lead s tid k now tk i d) = redeemed_tokens s"
  by (simp_all add: start_lead_def)

lemma start_lead_anchor_durable:
  assumes "single_flight s" "in_flight (inner s) = None" "codec_faithful (deadlines_codec cs)"
    and "lead_begin cfg cs kind gio aio rd i0 (disk s) = (tk, i, d)"
  shows "anchor_durable cs (start_lead s tid k now tk i d)"
  using lead_begin_effects [OF assms(3,4)] idle_no_fetching [OF assms(1,2)]
  by (auto simp: anchor_durable_def)

lemma step_anchor_durable:
  assumes "step cfg cs s s'" and "anchor_durable cs s" "single_flight s" and cf: "codec_faithful (deadlines_codec cs)"
  shows "anchor_durable cs s'"
  using assms(1)
proof (cases rule: door_cases)
  case (automatic_lead tid rd now inner' gio aio rd' tk inner'' dsk')
  show ?thesis unfolding automatic_lead(1)
    by (rule start_lead_anchor_durable [OF assms(3) at_decision_idle [OF automatic_lead(2)] cf automatic_lead(4)])
next
  case (manual_due tid token minted rd now inner' gio aio rd' tk inner'' dsk')
  show ?thesis unfolding manual_due(1)
    by (rule start_lead_anchor_durable [OF assms(3) at_decision_idle [OF manual_due(2)] cf manual_due(4)])
next
  case (manual_confirmed tid token minted rd v now inner' gio aio rd' tk inner'' dsk')
  have "anchor_durable cs (start_lead s tid ConfirmedContact now tk inner'' dsk')"
    by (rule start_lead_anchor_durable [OF assms(3) at_decision_idle [OF manual_confirmed(2)] cf manual_confirmed(4)])
  then show ?thesis unfolding manual_confirmed(1) by (simp add: anchor_durable_def)
next
  case (finish tid tk samples jitter fr rd cio pio rep inner' dsk')
  then show ?thesis using assms(3) by (auto simp: anchor_durable_def single_flight_def)
next
  case (automatic_not_due tid rd u now inner')
  then show ?thesis using idle_no_fetching [OF assms(3) at_decision_idle] by (auto simp: anchor_durable_def)
next
  case (manual_return tid token minted rd out now inner')
  then show ?thesis using idle_no_fetching [OF assms(3) at_decision_idle] by (auto simp: anchor_durable_def)
qed (use assms(2) in \<open>auto simp: anchor_durable_def\<close>)

lemma start_lead_suppression_durable:
  assumes "codec_faithful (deadlines_codec cs)" "lead_begin cfg cs kind gio aio rd i0 (disk s) = (tk, i, d)"
  shows "suppression_durable cs (start_lead s tid k now tk i d)"
  using lead_begin_effects [OF assms] by (auto simp: suppression_durable_def)

lemma step_suppression_durable:
  assumes "step cfg cs s s'" and "suppression_durable cs s" and cf: "codec_faithful (deadlines_codec cs)"
  shows "suppression_durable cs s'"
  using assms(1)
proof (cases rule: door_cases)
  case (automatic_lead tid rd now inner' gio aio rd' tk inner'' dsk')
  show ?thesis unfolding automatic_lead(1) by (rule start_lead_suppression_durable [OF cf automatic_lead(4)])
next
  case (manual_due tid token minted rd now inner' gio aio rd' tk inner'' dsk')
  show ?thesis unfolding manual_due(1) by (rule start_lead_suppression_durable [OF cf manual_due(4)])
next
  case (manual_confirmed tid token minted rd v now inner' gio aio rd' tk inner'' dsk')
  from start_lead_suppression_durable [OF cf manual_confirmed(4)] show ?thesis
    unfolding manual_confirmed(1) by (simp add: suppression_durable_def)
next
  case (finish tid tk samples jitter fr rd cio pio rep inner' dsk')
  then show ?thesis using lead_finish_effects(7) [OF cf finish(4)] by (auto simp: suppression_durable_def)
next
  case (crash_restart lstat cache_dir trust_root faults inner')
  then show ?thesis using production_Ok [OF crash_restart(2)]
    by (auto simp: suppression_durable_def new_with_cache_def)
next
  case (automatic_not_due tid rd u now inner')
  then show ?thesis using assms(2) automatic_decide_effects(1) [OF automatic_not_due(3)]
    by (simp add: suppression_durable_def)
next
  case (manual_return tid token minted rd out now inner')
  then show ?thesis using assms(2) manual_decide_keeps [OF manual_return(3)] by (simp add: suppression_durable_def)
qed (use assms(2) in \<open>simp_all add: suppression_durable_def\<close>)

lemma step_disk_suppresses:
  assumes "step cfg cs s s'" and "disk_suppresses cs u s" and cf: "codec_faithful (deadlines_codec cs)"
  shows "disk_suppresses cs u s' \<and> (\<exists>new. contacts s' = new @ contacts s \<and> (\<forall>c \<in> set new. u \<le> decided_at c))"
proof -
  have lead: "disk_suppresses cs u (start_lead s tid k now tk i d) \<and>
      (\<exists>new. contacts (start_lead s tid k now tk i d) = new @ contacts s \<and> (\<forall>c \<in> set new. u \<le> decided_at c))"
    if lb: "lead_begin cfg cs kind gio aio rd i0 (disk s) = (tk, i, d)" and same: "persisted i0 = persisted (inner s)"
      and ge: "\<forall>x. suppression_until_unix (persisted (inner s)) = Some x \<longrightarrow> x \<le> now"
    for tid k now tk i d kind gio aio rd i0
  proof -
    have "u \<le> now" using ge assms(2) by (auto simp: disk_suppresses_def)
    then have "\<exists>new. contacts (start_lead s tid k now tk i d) = new @ contacts s \<and> (\<forall>c \<in> set new. u \<le> decided_at c)"
      by (auto simp: start_lead_def)
    moreover have "disk_suppresses cs u (start_lead s tid k now tk i d)"
      using assms(2) lead_begin_effects(4,6,7) [OF cf lb] same
      by (cases "anchored tk") (auto simp: disk_suppresses_def)
    ultimately show ?thesis by blast
  qed
  show ?thesis
    using assms(1)
  proof (cases rule: door_cases)
    case (automatic_lead tid rd now inner' gio aio rd' tk inner'' dsk')
    show ?thesis unfolding automatic_lead(1)
      by (rule lead [OF automatic_lead(4)]) (use automatic_decide_effects [OF automatic_lead(3)] in auto)
  next
    case (manual_due tid token minted rd now inner' gio aio rd' tk inner'' dsk')
    have "\<forall>x. suppression_until_unix (persisted (inner s)) = Some x \<longrightarrow> x \<le> now"
      using manual_due(3) by (cases rule: manual_decide_cases) auto
    then show ?thesis unfolding manual_due(1)
      by (rule lead [OF manual_due(4) manual_decide_keeps(1) [OF manual_due(3)]])
  next
    case (manual_confirmed tid token minted rd v now inner' gio aio rd' tk inner'' dsk')
    have "\<forall>x. suppression_until_unix (persisted (inner s)) = Some x \<longrightarrow> x \<le> now"
      using manual_confirmed(3) by (cases rule: manual_decide_cases) auto
    from lead [OF manual_confirmed(4) manual_decide_keeps(1) [OF manual_confirmed(3)] this, of tid ConfirmedContact]
    show ?thesis unfolding manual_confirmed(1) by (simp add: disk_suppresses_def)
  next
    case (finish tid tk samples jitter fr rd cio pio rep inner' dsk')
    obtain x where x: "suppression_until_unix (persisted (inner s)) = Some x" "u \<le> x"
      using assms(2) by (auto simp: disk_suppresses_def)
    then obtain y where "suppression_until_unix (persisted inner') = Some y" "u \<le> y"
      using lead_finish_effects(6) [OF cf finish(4) x(1)] by auto
    then show ?thesis
      using lead_finish_effects(7) [OF cf finish(4)] assms(2) unfolding finish(1)
      by (auto simp: disk_suppresses_def)
  next
    case (crash_restart lstat cache_dir trust_root faults inner')
    then show ?thesis using production_Ok [OF crash_restart(2)] assms(2)
      by (auto simp: disk_suppresses_def new_with_cache_def)
  next
    case (automatic_not_due tid rd x now inner')
    then show ?thesis using assms(2) automatic_decide_effects(1) [OF automatic_not_due(3)]
      by (simp add: disk_suppresses_def)
  next
    case (manual_return tid token minted rd out now inner')
    then show ?thesis using assms(2) manual_decide_keeps(1) [OF manual_return(3)] by (simp add: disk_suppresses_def)
  qed (use assms(2) in \<open>simp_all add: disk_suppresses_def\<close>)
qed

text \<open>Tokens: every redemption uses up one ceremony.\<close>

lemma start_lead_confirmed_count:
  "length (filter (\<lambda>c. contact_kind c = ConfirmedContact) (contacts (start_lead s tid k now tk i d))) \<le>
   length (filter (\<lambda>c. contact_kind c = ConfirmedContact) (contacts s)) + (if k = ConfirmedContact then 1 else 0)"
  by (simp add: start_lead_def)

lemma step_tokens_accounted:
  assumes "step cfg cs s s'" and t: "tokens_accounted s" and cf: "codec_faithful (deadlines_codec cs)"
  shows "tokens_accounted s'"
  using assms(1)
proof (cases rule: door_cases)
  case (automatic_lead tid rd now inner' gio aio rd' tk inner'' dsk')
  have "pending_token inner'' = pending_token (inner s)"
    using lead_begin_effects(5) [OF cf automatic_lead(4)] automatic_decide_effects(1) [OF automatic_lead(3)] by simp
  then show ?thesis unfolding automatic_lead(1)
    using t start_lead_confirmed_count [of s tid AutomaticContact now tk inner'' dsk']
    by (simp add: tokens_accounted_def)
next
  case (manual_due tid token minted rd now inner' gio aio rd' tk inner'' dsk')
  have "pending_token inner' = pending_token (inner s)"
    using manual_due(3) by (cases rule: manual_decide_cases) auto
  then have "pending_token inner'' = pending_token (inner s)"
    using lead_begin_effects(5) [OF cf manual_due(4)] by simp
  then show ?thesis unfolding manual_due(1)
    using t start_lead_confirmed_count [of s tid DueContact now tk inner'' dsk']
    by (simp add: tokens_accounted_def)
next
  case (manual_confirmed tid token minted rd v now inner' gio aio rd' tk inner'' dsk')
  obtain p where p: "pending_token (inner s) = Some p" "token_value p = v" "pending_token inner' = None"
    using manual_confirmed(3) by (cases rule: manual_decide_cases) auto
  then have "pending_token inner'' = None" using lead_begin_effects(5) [OF cf manual_confirmed(4)] by simp
  then show ?thesis unfolding manual_confirmed(1)
    using t p start_lead_confirmed_count [of s tid ConfirmedContact now tk inner'' dsk']
    by (simp add: tokens_accounted_def)
next
  case (finish tid tk samples jitter fr rd cio pio rep inner' dsk')
  then show ?thesis using t lead_finish_effects(2) [OF cf finish(4)] by (simp add: tokens_accounted_def)
next
  case (crash_restart lstat cache_dir trust_root faults inner')
  then obtain d et c where "inner' = new_with_cache d et c" using production_Ok by blast
  then have "pending_token inner' = None" by (simp add: new_with_cache_def)
  moreover have "mset (redeemed_tokens s) \<subseteq># mset (minted_tokens s)"
    using t by (auto simp: tokens_accounted_def dest: mset_subset_eq_add_left [THEN subset_mset.order_trans])
  ultimately show ?thesis using t unfolding crash_restart(1) by (simp add: tokens_accounted_def)
next
  case (automatic_not_due tid rd u now inner')
  then show ?thesis using t automatic_decide_effects(1) [OF automatic_not_due(3)]
    by (simp add: tokens_accounted_def)
next
  case (manual_return tid token minted rd out now inner')
  have sub: "mset (redeemed_tokens s) \<subseteq># mset (minted_tokens s)"
    using t by (auto simp: tokens_accounted_def dest: mset_subset_eq_add_left [THEN subset_mset.order_trans])
  from manual_return(3) show ?thesis
  proof (cases rule: manual_decide_cases)
    case (suppressed u)
    then show ?thesis using t unfolding manual_return(1) by (simp add: tokens_accounted_def)
  next
    case (held out')
    from ceremony_effects [OF held(2)] held(1) show ?thesis
      using t sub unfolding manual_return(1) by (auto simp: tokens_accounted_def)
  qed auto
qed (use t in \<open>simp_all add: tokens_accounted_def\<close>)

section \<open>Reachable states\<close>

lemma initial_more:
  assumes "initial cs s"
  shows "anchor_durable cs s" "suppression_durable cs s" "tokens_accounted s"
proof -
  obtain d et c where d: "disk_doc cs (disk s) = Some d" "inner s = new_with_cache d et c"
    using assms production_Ok unfolding initial_def by blast
  with assms show "anchor_durable cs s" "suppression_durable cs s" "tokens_accounted s"
    by (auto simp: initial_def anchor_durable_def suppression_durable_def tokens_accounted_def new_with_cache_def)
qed

lemma reachable_more:
  assumes "reachable cfg cs s" and cf: "codec_faithful (deadlines_codec cs)"
  shows "anchor_durable cs s \<and> suppression_durable cs s \<and> tokens_accounted s"
  using assms(1)
proof (induction rule: reachable.induct)
  case (start s)
  then show ?case using initial_more by blast
next
  case (run s s')
  then show ?case
    using step_anchor_durable [OF run(2)] step_suppression_durable [OF run(2)] step_tokens_accounted [OF run(2)]
      reachable_ok [OF run(1) cf] cf by blast
qed

lemma steps_suppress:
  assumes "(step cfg cs)\<^sup>*\<^sup>* s s'" and "disk_suppresses cs u s" and cf: "codec_faithful (deadlines_codec cs)"
  shows "disk_suppresses cs u s' \<and> (\<exists>new. contacts s' = new @ contacts s \<and> (\<forall>c \<in> set new. u \<le> decided_at c))"
  using assms(1)
proof (induction rule: rtranclp_induct)
  case base
  then show ?case using assms(2) by simp
next
  case (step y z)
  then obtain new where new: "contacts y = new @ contacts s" "\<forall>c \<in> set new. u \<le> decided_at c" by blast
  obtain newer where "contacts z = newer @ contacts y" "\<forall>c \<in> set newer. u \<le> decided_at c" "disk_suppresses cs u z"
    using step_disk_suppresses [OF step.hyps(2) _ cf] step.IH by blast
  with new show ?case by (intro conjI exI [of _ "newer @ new"]) auto
qed

section \<open>The cache file\<close>

definition cache_sound :: "codecs \<Rightarrow> CacheState option \<Rightarrow> doc_file \<Rightarrow> bool" where
  "cache_sound cs cache f \<longleftrightarrow>
     (\<exists>c. cache_load_validated (cache_codec cs) None f = Ok c) \<and>
     (\<forall>st c. cache = Some st \<and> cs_current st = Some c \<longrightarrow> cached_ok (cache_codec cs) c)"

lemma cache_store_sound:
  assumes "cache_codec_faithful codec" "cached_ok codec doc" "cache_store codec io doc f = (r, f')"
    and "\<exists>c. cache_load_validated codec None f = Ok c"
  shows "\<exists>c. cache_load_validated codec None f' = Ok c"
  using assms cache_load_stored [of codec doc io f] cache_load_unstored [of codec io doc f]
  by (cases "r = Ok ()") (auto simp: cache_codec_faithful_def)

lemma cache_store_not_Panic: "fst (cache_store codec io doc f) \<noteq> Panic"
  using atomic_write_not_Panic by (auto simp: cache_store_def res_simps split: sum.splits)

lemma adopt_sound:
  assumes cf: "cache_codec_faithful (cache_codec cs)" and old: "cache_sound cs cache (cache_file dsk)"
    and a: "adopt_fetched_revision cs io et body now cache dsk = (v, cache', dsk')"
  shows "cache_sound cs cache' (cache_file dsk')"
proof (cases "\<exists>cat. from_bytes (parse_doc (cache_codec cs)) body = Ok cat")
  case False
  then obtain e where "from_bytes (parse_doc (cache_codec cs)) body = Err e"
    using from_bytes_not_Panic by (metis res.exhaust)
  then show ?thesis using a old by (simp add: adopt_fetched_revision_def)
next
  case True
  let ?doc = "\<lparr>cc_schema_version = CATALOG_CACHE_SCHEMA_VERSION, cc_etag = et, cc_fetched_unix = now, cc_body = body\<rparr>"
  have ok: "cached_ok (cache_codec cs) ?doc" using True by (simp add: cached_ok_def)
  obtain r f where st: "cache_store (cache_codec cs) io ?doc (cache_file dsk) = (r, f)" by fastforce
  have "\<exists>c. cache_load_validated (cache_codec cs) None f = Ok c"
    using cache_store_sound [OF cf ok st] old by (simp add: cache_sound_def)
  moreover have "r \<noteq> Panic" using cache_store_not_Panic [of "cache_codec cs" io ?doc "cache_file dsk"] st by simp
  ultimately show ?thesis
    using a old True st ok
    by (auto simp: adopt_fetched_revision_def cache_sound_def Let_def split: option.splits if_splits res.splits)
qed

lemma apply_fetched_sound:
  assumes cf: "cache_codec_faithful (cache_codec cs)" and old: "cache_sound cs (catalog_cache i) (cache_file dsk)"
    and a: "apply_fetched cs io fetched now i dsk = (out, i', dsk')"
  shows "cache_sound cs (catalog_cache i') (cache_file dsk')"
proof -
  have fresh: "cache_sound cs (Some (st\<lparr>cs_current := Some u\<rparr>)) f" "cache_sound cs (catalog_cache i) f"
    if "catalog_cache i = Some st" "cs_current st = Some c" "refresh_freshness (cache_codec cs) io c now (cache_file dsk) = (r, f)"
      "r = Ok u \<or> u = c" for st c r f u
  proof -
    let ?u = "c\<lparr>cc_fetched_unix := now\<rparr>"
    note fresh_eq = that(3)
    have c: "cached_ok (cache_codec cs) c" using old that by (simp add: cache_sound_def)
    then have u: "cached_ok (cache_codec cs) ?u" by (simp add: cached_ok_def)
    obtain r0 where st: "cache_store (cache_codec cs) io ?u (cache_file dsk) = (r0, f)" "r = and_then r0 (\<lambda>_. Ok ?u)"
      using fresh_eq by (auto simp: refresh_freshness_def Let_def apfst_def map_prod_def split: prod.splits)
    have "\<exists>c. cache_load_validated (cache_codec cs) None f = Ok c"
      using cache_store_sound [OF cf u st(1)] old by (simp add: cache_sound_def)
    moreover have "u = ?u \<or> u = c" using that(4) st(2) by (auto simp: res_simps)
    ultimately show "cache_sound cs (Some (st\<lparr>cs_current := Some u\<rparr>)) f" "cache_sound cs (catalog_cache i) f"
      using c u that(1,2) by (auto simp: cache_sound_def)
  qed
  show ?thesis
  proof (cases fetched)
    case (Inl e)
    then show ?thesis using a old by (auto simp: apply_fetched_def split: FetchFailure.splits)
  next
    case (Inr ok)
    show ?thesis
    proof (cases ok)
      case (FetchChanged et body)
      then show ?thesis using a Inr adopt_sound [OF cf old]
        by (auto simp: apply_fetched_def split: prod.splits RevisionVerdict.splits)
    next
      case FetchNotModified
      then show ?thesis using a Inr old fresh
        by (auto simp: apply_fetched_def Let_def split: option.splits prod.splits res.splits)
    qed
  qed
qed

lemma lead_finish_sound:
  assumes "cache_codec_faithful (cache_codec cs)" and "cache_sound cs (catalog_cache i) (cache_file dsk)"
    and "codec_faithful (deadlines_codec cs)"
    and lf: "lead_finish cfg cs tk fr rd jitter cio pio i dsk = (rep, i', dsk')"
  shows "cache_sound cs (catalog_cache i') (cache_file dsk')"
proof -
  let ?now = "max (observe_wall rd i) (started_effective tk)" and ?i1 = "i\<lparr>rollback := track rd (rollback i)\<rparr>"
  obtain out i2 d2 where af: "apply_fetched cs cio (fetched_for tk fr) ?now ?i1 dsk = (out, i2, d2)"
    by (cases "apply_fetched cs cio (fetched_for tk fr) ?now ?i1 dsk") auto
  have s2: "cache_sound cs (catalog_cache i2) (cache_file d2)"
    using apply_fetched_sound [OF assms(1) _ af] assms(2) by simp
  obtain d' ok where sv: "save_deadlines cs pio d' d2 = (ok, dsk')" and c: "catalog_cache i' = catalog_cache i2"
    using lf af by (auto simp: lead_finish_def Let_def observe_now_eq split: prod.splits if_splits)
  then have "cache_file dsk' = cache_file d2" using save_deadlines_disk [OF assms(3) sv] by simp
  with s2 c show ?thesis by simp
qed

lemma production_cache:
  assumes "production_with_trust_root cs lstat cache_dir trust_root faults dsk = Ok i"
  shows "cache_sound cs (catalog_cache i) (cache_file dsk)"
proof -
  from assms obtain c where
    l: "cache_load_validated (cache_codec cs) (cache_fault faults) (cache_file dsk) = Ok c"
    and i: "catalog_cache i = Some \<lparr>cs_current = c\<rparr>"
    by (auto simp: production_with_trust_root_def cache_load_strict_def res_simps new_with_cache_def)
  have "cache_fault faults = None"
    using l by (cases "cache_fault faults") (auto simp: cache_load_validated_def fs_read_def)
  with l i show ?thesis by (auto simp: cache_sound_def dest: cache_load_ok_doc)
qed

lemma lead_begin_cache: "lead_begin cfg cs kind gio aio rd i dsk = (tk, i', dsk') \<Longrightarrow> catalog_cache i' = catalog_cache i"
  by (auto simp: lead_begin_def Let_def observe_now_eq split: prod.splits bool.splits if_splits)

lemma manual_decide_cache:
  "manual_decide token minted rd i = (dec, now, i') \<Longrightarrow> catalog_cache i' = catalog_cache i"
  by (erule manual_decide_cases) (auto dest!: ceremony_effects)

lemma step_cache_sound:
  assumes "step cfg cs s s'" and c: "cache_sound cs (catalog_cache (inner s)) (cache_file (disk s))"
    and cf: "codec_faithful (deadlines_codec cs)" and ccf: "cache_codec_faithful (cache_codec cs)"
  shows "cache_sound cs (catalog_cache (inner s')) (cache_file (disk s'))"
  using assms(1)
proof (cases rule: door_cases)
  case (automatic_lead tid rd now inner' gio aio rd' tk inner'' dsk')
  then show ?thesis using c lead_begin_cache [OF automatic_lead(4)] lead_begin_effects(9) [OF cf automatic_lead(4)]
      automatic_decide_effects(1) [OF automatic_lead(3)] by simp
next
  case (manual_due tid token minted rd now inner' gio aio rd' tk inner'' dsk')
  then show ?thesis using c lead_begin_cache [OF manual_due(4)] lead_begin_effects(9) [OF cf manual_due(4)]
      manual_decide_cache [OF manual_due(3)] by simp
next
  case (manual_confirmed tid token minted rd v now inner' gio aio rd' tk inner'' dsk')
  then show ?thesis using c lead_begin_cache [OF manual_confirmed(4)] lead_begin_effects(9) [OF cf manual_confirmed(4)]
      manual_decide_cache [OF manual_confirmed(3)] by simp
next
  case (finish tid tk samples jitter fr rd cio pio rep inner' dsk')
  then show ?thesis using lead_finish_sound [OF ccf c cf finish(4)] by simp
next
  case (crash_restart lstat cache_dir trust_root faults inner')
  then show ?thesis using production_cache [OF crash_restart(2)] by simp
next
  case (automatic_not_due tid rd u now inner')
  then show ?thesis using c automatic_decide_effects(1) [OF automatic_not_due(3)] by simp
next
  case (manual_return tid token minted rd out now inner')
  then show ?thesis using c manual_decide_cache [OF manual_return(3)] by simp
qed (use c in simp_all)

lemma reachable_cache_sound:
  assumes "reachable cfg cs s" and "codec_faithful (deadlines_codec cs)" and "cache_codec_faithful (cache_codec cs)"
  shows "cache_sound cs (catalog_cache (inner s)) (cache_file (disk s))"
  using assms(1)
proof (induction rule: reachable.induct)
  case (start s)
  then show ?case using production_cache unfolding initial_def by blast
next
  case (run s s')
  then show ?case using step_cache_sound [OF run(2) run(3) assms(2,3)] by blast
qed

end
