(* ===== verification/Scheduler_Props.thy ===== *)
theory Scheduler_Props
  imports Scheduler_Safety
begin

text \<open>
  The properties of the metadata scheduler, stated over every reachable state of the step
  relation of \<open>Scheduler_Runs\<close>, and one concrete run (a failed refresh, a rate-limited one, a
  third after the suppression ended, and an early manual refresh through its ceremony) that the
  witnesses apply them to.
\<close>

section \<open>A concrete run\<close>

definition at_wall :: "u64 \<Rightarrow> reading" where
  "at_wall t = \<lparr>wall_unix = t, monotonic_ms = 0\<rparr>"

definition demo_cfg :: SchedulerConfig where
  "demo_cfg = \<lparr>refresh_interval_seconds = 10800, max_positive_jitter_seconds = 0, conditional_requests = True\<rparr>"

definition demo_doc1 :: SchedulerDeadlines where
  "demo_doc1 = SchedulerDeadlines_default\<lparr>last_request_unix := Some 1000, wall_high_water_unix := 1000\<rparr>"

definition demo_doc2 :: SchedulerDeadlines where
  "demo_doc2 = demo_doc1\<lparr>automatic_refresh_count := 1, next_eligible_unix := Some 11800,
     next_eligible_source := Some ThreeHourFloor\<rparr>"

definition demo_doc3 :: SchedulerDeadlines where
  "demo_doc3 = demo_doc2\<lparr>last_request_unix := Some 20000, wall_high_water_unix := 20000\<rparr>"

definition demo_doc4 :: SchedulerDeadlines where
  "demo_doc4 = demo_doc3\<lparr>automatic_refresh_count := 2, next_eligible_unix := Some 70000,
     next_eligible_source := Some RetryAfter, suppression_until_unix := Some 70000\<rparr>"

definition demo_doc5 :: SchedulerDeadlines where
  "demo_doc5 = demo_doc4\<lparr>last_request_unix := Some 80000, wall_high_water_unix := 80000\<rparr>"

definition demo_doc6 :: SchedulerDeadlines where
  "demo_doc6 = demo_doc2\<lparr>last_request_unix := Some 2000, wall_high_water_unix := 2000\<rparr>"

definition demo_doc7 :: SchedulerDeadlines where
  "demo_doc7 = demo_doc5\<lparr>automatic_refresh_count := 3, last_success_unix := Some 80000,
     next_eligible_unix := Some 90800, next_eligible_source := Some ThreeHourFloor\<rparr>"

definition demo_codec :: deadline_codec where
  "demo_codec =
     \<lparr>parse_deadlines = (\<lambda>bs. if bs = ''1'' then Inr demo_doc1 else if bs = ''2'' then Inr demo_doc2
        else if bs = ''3'' then Inr demo_doc3 else if bs = ''4'' then Inr demo_doc4
        else if bs = ''5'' then Inr demo_doc5 else if bs = ''6'' then Inr demo_doc6
        else if bs = ''7'' then Inr demo_doc7 else Inl ''parse''),
      render_deadlines = (\<lambda>d. if d = demo_doc1 then Inr ''1'' else if d = demo_doc2 then Inr ''2''
        else if d = demo_doc3 then Inr ''3'' else if d = demo_doc4 then Inr ''4''
        else if d = demo_doc5 then Inr ''5'' else if d = demo_doc6 then Inr ''6''
        else if d = demo_doc7 then Inr ''7'' else Inl ''render'')\<rparr>"

definition demo_cached :: CachedCatalog where
  "demo_cached = sample_cached\<lparr>cc_fetched_unix := 80000\<rparr>"

definition demo_cs :: codecs where
  "demo_cs = \<lparr>deadlines_codec = demo_codec,
     cache_codec = \<lparr>parse_doc = (\<lambda>_. Inr empty_catalog), parse_cached = (\<lambda>_. Inr demo_cached),
       render_cached = (\<lambda>d. if d = demo_cached then Inr ''{cached}'' else Inl ''render'')\<rparr>\<rparr>"

definition demo_disk :: "bytes option \<Rightarrow> disk_state" where
  "demo_disk c = \<lparr>deadlines_file = \<lparr>df_content = c, df_temp = None\<rparr>, cache_file = \<lparr>df_content = None, df_temp = None\<rparr>\<rparr>"

definition demo_inner :: "SchedulerDeadlines \<Rightarrow> u64 \<Rightarrow> u64 option \<Rightarrow> (u64 \<times> RefreshReport) option \<Rightarrow> u64 \<Rightarrow> Inner" where
  "demo_inner d g fl cpl seen_wall =
     \<lparr>persisted = d, stored_etag = None, lead_generation = g, in_flight = fl, completed = cpl, pending_token = None,
      rollback = \<lparr>last_wall_seen = seen_wall, last_mono_seen = 0, rollback_detected = False\<rparr>,
      catalog_cache = Some \<lparr>cs_current = None\<rparr>, persistence_healthy = True\<rparr>"

definition demo_sys :: "Inner \<Rightarrow> disk_state \<Rightarrow> (nat \<Rightarrow> caller option) \<Rightarrow> contact list \<Rightarrow> sys" where
  "demo_sys i d c cts = \<lparr>inner = i, disk = d, callers = c, contacts = cts, minted_tokens = [], redeemed_tokens = []\<rparr>"

definition demo_ticket :: "u64 \<Rightarrow> u64 \<Rightarrow> lead_ticket" where
  "demo_ticket g t = \<lparr>ticket_generation = g, ticket_kind = AutomaticKind, started_effective = t, sent_etag = None,
     anchored = True\<rparr>"

definition demo_contact :: "u64 \<Rightarrow> contact" where
  "demo_contact t = \<lparr>contact_kind = AutomaticContact, decided_at = t, started_at = t\<rparr>"

definition demo_report :: "RefreshOutcome \<Rightarrow> u64 \<Rightarrow> u64 option \<Rightarrow> RefreshReport" where
  "demo_report oc n u = \<lparr>outcome = oc, coalesced = False, r_next_eligible_unix = n, r_suppression_until_unix = u\<rparr>"

lemmas demo_docs = demo_doc1_def demo_doc2_def demo_doc3_def demo_doc4_def demo_doc5_def demo_doc6_def demo_doc7_def
  SchedulerDeadlines_default_def   DEADLINES_SCHEMA_VERSION_def

lemma demo_codecs_faithful: "codec_faithful (deadlines_codec demo_cs)" "cache_codec_faithful (cache_codec demo_cs)"
  by (auto simp: codec_faithful_def demo_cs_def demo_codec_def cache_codec_faithful_def)

lemma demo_render:
  "render_deadlines demo_codec demo_doc1 = Inr ''1''" "render_deadlines demo_codec demo_doc2 = Inr ''2''"
  "render_deadlines demo_codec demo_doc3 = Inr ''3''" "render_deadlines demo_codec demo_doc4 = Inr ''4''"
  by (simp_all add: demo_codec_def demo_docs)

lemma demo_save:
  assumes "render_deadlines demo_codec (d\<lparr>dl_schema_version := 1\<rparr>) = Inr [c]"
  shows "save_deadlines demo_cs all_io_ok d ((demo_disk b)\<lparr>cache_file := f\<rparr>) =
      (True, (demo_disk (Some [c]))\<lparr>cache_file := f\<rparr>)"
    and "save_deadlines demo_cs all_io_ok d (demo_disk b) = (True, demo_disk (Some [c]))"
  using assms
  by (simp_all add: save_deadlines_def demo_cs_def deadline_save_def DEADLINES_SCHEMA_VERSION_def Let_def
      MAX_DEADLINES_BYTES_def all_io_ok_def atomic_write_def create_cache_dir_def demo_disk_def)

lemma demo_trusted:
  "verify_trusted_path root_owned_tree [RootDir, Normal ''c'', Normal f] [RootDir] Allow = Ok ()"
  by (simp add: verify_trusted_path_def component_chain_def is_absolute_def root_owned_tree_def
      check_component_def writable_beyond_owner_def ancestors.simps ROOT_UID_def ROOT_GID_def)

definition demo_start :: sys where
  "demo_start = demo_sys (demo_inner SchedulerDeadlines_default 0 None None 0) (demo_disk None) (\<lambda>_. None) []"

lemma demo_initial: "initial demo_cs demo_start"
proof -
  have "production_with_trust_root demo_cs root_owned_tree [RootDir, Normal ''c''] [RootDir]
      \<lparr>deadlines_fault = None, cache_fault = None\<rparr> (disk demo_start) = Ok (inner demo_start)"
    by (simp add: production_with_trust_root_def deadline_load_strict_def cache_load_strict_def demo_trusted
        demo_start_def demo_sys_def demo_disk_def deadline_load_validated_def cache_load_validated_def fs_read_def
        new_with_cache_def demo_inner_def RollbackTracker_default_def rederive_crash_pacing_def
        SchedulerDeadlines_default_def)
  then show ?thesis unfolding initial_def by (auto simp: demo_start_def demo_sys_def)
qed

definition demo_s1 :: "(nat \<Rightarrow> caller option) \<Rightarrow> sys" where
  "demo_s1 cl = demo_sys (demo_inner demo_doc1 1 (Some 1) None 1000) (demo_disk (Some ''1''))
     (cl(0 \<mapsto> Fetching (demo_ticket 1 1000))) [demo_contact 1000]"

definition demo_s2 :: "(nat \<Rightarrow> caller option) \<Rightarrow> sys" where
  "demo_s2 cl = demo_sys (demo_inner demo_doc2 1 None
       (Some (1, demo_report (Failed (TransportFailed ''down'')) 11800 None)) 1000)
     (demo_disk (Some ''2'')) cl [demo_contact 1000]"

definition demo_s3 :: "(nat \<Rightarrow> caller option) \<Rightarrow> sys" where
  "demo_s3 cl = demo_sys (demo_inner demo_doc3 2 (Some 2)
       (Some (1, demo_report (Failed (TransportFailed ''down'')) 11800 None)) 20000)
     (demo_disk (Some ''3'')) (cl(0 \<mapsto> Fetching (demo_ticket 2 20000))) [demo_contact 20000, demo_contact 1000]"

definition demo_s4 :: "(nat \<Rightarrow> caller option) \<Rightarrow> sys" where
  "demo_s4 cl = demo_sys (demo_inner demo_doc4 2 None (Some (2, demo_report (RateLimited (Some 50000)) 70000 (Some 70000))) 20000)
     (demo_disk (Some ''4'')) cl [demo_contact 20000, demo_contact 1000]"

definition demo_s5 :: sys where
  "demo_s5 = demo_sys (demo_inner demo_doc5 3 (Some 3) (Some (2, demo_report (RateLimited (Some 50000)) 70000 (Some 70000))) 80000)
     (demo_disk (Some ''5'')) [0 \<mapsto> Fetching (demo_ticket 3 80000)]
     [demo_contact 80000, demo_contact 20000, demo_contact 1000]"

lemma demo_lead_step:
  assumes i: "i = demo_inner d g None cpl w" and w: "w \<le> t" "wall_high_water_unix d \<le> t"
    and due: "\<forall>n. next_eligible_unix d = Some n \<longrightarrow> n \<le> t" "\<forall>u. suppression_until_unix d = Some u \<longrightarrow> u \<le> t"
    and d': "d' = d\<lparr>last_request_unix := Some t, wall_high_water_unix := t\<rparr>"
    and r: "render_deadlines demo_codec (d'\<lparr>dl_schema_version := 1\<rparr>) = Inr [c]" and g: "g < u64_max"
    and free: "cl 0 = None"
  shows "step demo_cfg demo_cs (demo_sys i (demo_disk b) cl cts)
    (demo_sys (demo_inner d' (Suc g) (Some (Suc g)) cpl t) (demo_disk (Some [c]))
      (cl(0 \<mapsto> Fetching (demo_ticket (Suc g) t))) (demo_contact t # cts))"
proof -
  let ?s = "demo_sys i (demo_disk b) cl cts" and ?rd = "at_wall t"
  let ?i' = "demo_inner d g None cpl t"
  have ow: "observe_wall ?rd i = t" "observe_wall ?rd ?i' = t"
    using w by (simp_all add: i observe_wall_def at_wall_def demo_inner_def)
  have tr: "i\<lparr>rollback := track ?rd (rollback i)\<rparr> = ?i'"
    using w by (simp add: i demo_inner_def track_def at_wall_def wall_rolled_back_def)
  have dec: "automatic_decide ?rd (inner ?s) = (AutoLead, t, ?i')"
    using due by (auto simp: automatic_decide_def observe_now_eq demo_sys_def ow tr Let_def split: option.splits)
      (auto simp: demo_inner_def)
  have hw: "max t (wall_high_water_unix d) = t" "max (wall_high_water_unix d) t = t" using w(2) by simp_all
  have "lead_begin demo_cfg demo_cs AutomaticKind all_io_ok all_io_ok ?rd ?i' (demo_disk b) =
      (demo_ticket (Suc g) t, demo_inner d' (Suc g) (Some (Suc g)) cpl t, demo_disk (Some [c]))"
    using demo_save(2) [OF r, of b] g
    by (simp add: lead_begin_def observe_now_eq observe_wall_def at_wall_def demo_inner_def track_def hw
        wall_rolled_back_def Let_def wrapping_incr_def d' demo_ticket_def)
  then have "step demo_cfg demo_cs ?s (start_lead ?s 0 AutomaticContact t (demo_ticket (Suc g) t)
      (demo_inner d' (Suc g) (Some (Suc g)) cpl t) (demo_disk (Some [c])))"
    by (intro automatic_lead [OF _ dec]) (simp_all add: at_decision_def demo_sys_def i demo_inner_def free)
  then show ?thesis by (simp add: start_lead_def demo_sys_def demo_contact_def demo_ticket_def)
qed


lemma demo_step1: "step demo_cfg demo_cs demo_start (demo_s1 (\<lambda>_. None))"
proof -
  have "step demo_cfg demo_cs demo_start (demo_sys (demo_inner demo_doc1 (Suc 0) (Some (Suc 0)) None 1000)
      (demo_disk (Some [CHR ''1''])) ((\<lambda>_. None)(0 \<mapsto> Fetching (demo_ticket (Suc 0) 1000))) [demo_contact 1000])"
    unfolding demo_start_def
    by (rule demo_lead_step [OF refl]) (simp_all add: demo_docs demo_codec_def u64_max_def)
  then show ?thesis by (simp add: demo_s1_def)
qed

lemma demo_step3:
  assumes "cl 0 = None"
  shows "step demo_cfg demo_cs (demo_s2 cl) (demo_s3 cl)"
proof -
  let ?c = "Some (1, demo_report (Failed (TransportFailed ''down'')) 11800 None)"
  have "step demo_cfg demo_cs (demo_s2 cl) (demo_sys (demo_inner demo_doc3 (Suc 1) (Some (Suc 1)) ?c 20000)
      (demo_disk (Some [CHR ''3''])) (cl(0 \<mapsto> Fetching (demo_ticket (Suc 1) 20000)))
      [demo_contact 20000, demo_contact 1000])"
    unfolding demo_s2_def
    by (rule demo_lead_step [OF refl]) (use assms in \<open>simp_all add: demo_docs demo_codec_def u64_max_def\<close>)
  moreover have "Suc 1 = 2" by simp
  ultimately show ?thesis unfolding demo_s3_def by metis
qed

lemma demo_count: "wrapping_incr 0 = 1" "wrapping_incr (Suc 0) = 2" "wrapping_incr 2 = 3"
  by (simp_all add: wrapping_incr_def u64_max_def)

lemmas finish_simps = lead_finish_def observe_now_eq observe_wall_def at_wall_def track_def wall_rolled_back_def Let_def
  fetched_for_def apply_fetched_def lead_deadline_def is_rate_limited_def retry_after_of_def next_deadline_def
  deadline_span_def count_refresh_def keep_greater_def saturating_add_def u64_max_def demo_count
  FRESHNESS_FLOOR_SECONDS_def demo_cfg_def demo_inner_def demo_ticket_def

lemma demo_finish1:
  "lead_finish demo_cfg demo_cs (demo_ticket 1 1000) (FetchReturned (Inl (Transport ''down''))) (at_wall 1000) 0
     all_io_ok all_io_ok (demo_inner demo_doc1 1 (Some 1) None 1000) (demo_disk (Some ''1'')) =
   (demo_report (Failed (TransportFailed ''down'')) 11800 None,
    demo_inner demo_doc2 1 None (Some (1, demo_report (Failed (TransportFailed ''down'')) 11800 None)) 1000,
    demo_disk (Some ''2''))"
  using demo_save(2) [of demo_doc2 "CHR ''2''" "Some ''1''"] demo_render(2)
  by (simp add: finish_simps demo_docs demo_report_def)

lemma demo_finish2:
  "lead_finish demo_cfg demo_cs (demo_ticket 2 20000) (FetchReturned (Inl (FetchRateLimited (Some 50000)))) (at_wall 20000) 0
     all_io_ok all_io_ok (demo_inner demo_doc3 2 (Some 2) cpl 20000) (demo_disk (Some ''3'')) =
   (demo_report (RateLimited (Some 50000)) 70000 (Some 70000),
    demo_inner demo_doc4 2 None (Some (2, demo_report (RateLimited (Some 50000)) 70000 (Some 70000))) 20000,
    demo_disk (Some ''4''))"
proof -
  have "save_deadlines demo_cs all_io_ok demo_doc4 (demo_disk (Some ''3'')) = (True, demo_disk (Some ''4''))"
    by (rule demo_save(2)) (simp add: demo_codec_def demo_docs)
  then show ?thesis by (simp add: finish_simps demo_docs demo_report_def)
qed

lemma demo_finish_step:
  assumes "lead_finish demo_cfg demo_cs tk fr rd 0 cio pio i d = (rep, i', d')"
    and "cl 0 = None"
  shows "step demo_cfg demo_cs (demo_sys i d (cl(0 \<mapsto> Fetching tk)) cts) (demo_sys i' d' cl cts)"
proof -
  let ?s = "demo_sys i d (cl(0 \<mapsto> Fetching tk)) cts"
  have "draw_jitter (max_positive_jitter_seconds demo_cfg) [] = Some (Ok 0)" by (simp add: draw_jitter_def demo_cfg_def)
  then have "step demo_cfg demo_cs ?s (?s\<lparr>inner := i', disk := d', callers := (callers ?s)(0 := None)\<rparr>)"
    by (rule finish [of ?s 0, rotated]) (use assms in \<open>simp_all add: demo_sys_def\<close>)
  moreover have "?s\<lparr>inner := i', disk := d', callers := (callers ?s)(0 := None)\<rparr> = demo_sys i' d' cl cts"
    using assms(2) by (auto simp: demo_sys_def)
  ultimately show ?thesis by simp
qed

lemma demo_step2: "cl 0 = None \<Longrightarrow> step demo_cfg demo_cs (demo_s1 cl) (demo_s2 cl)"
  unfolding demo_s1_def demo_s2_def by (rule demo_finish_step [OF demo_finish1])

lemma demo_step4: "cl 0 = None \<Longrightarrow> step demo_cfg demo_cs (demo_s3 cl) (demo_s4 cl)"
  unfolding demo_s3_def demo_s4_def by (rule demo_finish_step [OF demo_finish2])

text \<open>The same run with a second caller parked on the first refresh and never woken.\<close>

definition late_joiner :: "nat \<Rightarrow> caller option" where
  "late_joiner = (\<lambda>_. None)(1 \<mapsto> Parked 1 AutoDoor)"

lemma demo_park: "step demo_cfg demo_cs (demo_s1 (\<lambda>_. None)) (demo_s1 late_joiner)"
proof -
  let ?s = "demo_s1 (\<lambda>_. None)"
  have "step demo_cfg demo_cs ?s (?s\<lparr>callers := (callers ?s)(1 \<mapsto> Parked 1 AutoDoor)\<rparr>)"
    by (rule park) (simp_all add: demo_s1_def demo_sys_def demo_inner_def)
  moreover have "?s\<lparr>callers := (callers ?s)(1 \<mapsto> Parked 1 AutoDoor)\<rparr> = demo_s1 late_joiner"
    by (simp add: demo_s1_def demo_sys_def late_joiner_def fun_upd_twist)
  ultimately show ?thesis by simp
qed

lemma demo_run_from:
  assumes "reachable demo_cfg demo_cs (demo_s1 cl)" and "cl 0 = None"
  shows "reachable demo_cfg demo_cs (demo_s2 cl)" "reachable demo_cfg demo_cs (demo_s3 cl)"
    "reachable demo_cfg demo_cs (demo_s4 cl)"
  by (meson assms demo_step2 demo_step3 demo_step4 reachable.run)+

lemma demo_reachable1: "reachable demo_cfg demo_cs (demo_s1 (\<lambda>_. None))"
  by (rule reachable.run [OF reachable.start [OF demo_initial] demo_step1])

lemmas demo_reachable = demo_reachable1 demo_run_from [OF demo_reachable1 refl]

lemma demo_late_reachable: "reachable demo_cfg demo_cs (demo_s4 late_joiner)"
  by (rule demo_run_from(3) [OF reachable.run [OF demo_reachable1 demo_park]]) (simp add: late_joiner_def)

lemmas demo_state_defs = demo_s1_def demo_s2_def demo_s3_def demo_s4_def demo_sys_def demo_inner_def demo_disk_def
  demo_contact_def demo_ticket_def


lemma demo_next: "step demo_cfg demo_cs (demo_s4 (\<lambda>_. None)) demo_s5"
proof -
  let ?c = "Some (2, demo_report (RateLimited (Some 50000)) 70000 (Some 70000))"
  have "step demo_cfg demo_cs (demo_s4 (\<lambda>_. None)) (demo_sys (demo_inner demo_doc5 (Suc 2) (Some (Suc 2)) ?c 80000)
      (demo_disk (Some [CHR ''5''])) ((\<lambda>_. None)(0 \<mapsto> Fetching (demo_ticket (Suc 2) 80000)))
      [demo_contact 80000, demo_contact 20000, demo_contact 1000])"
    unfolding demo_s4_def
    by (rule demo_lead_step [OF refl]) (simp_all add: demo_docs demo_codec_def u64_max_def)
  moreover have "Suc 2 = 3" by simp
  ultimately show ?thesis unfolding demo_s5_def by metis
qed

text \<open>The third refresh brings a new revision, which is adopted and stored.\<close>

definition demo_s6 :: sys where
  "demo_s6 = (let rep = demo_report (Changed (Some ''v1'') ''{}'') 90800 (Some 70000) in
     demo_sys ((demo_inner demo_doc7 3 None (Some (3, rep)) 80000)
         \<lparr>stored_etag := Some ''v1'', catalog_cache := Some \<lparr>cs_current = Some demo_cached\<rparr>\<rparr>)
       ((demo_disk (Some ''7''))\<lparr>cache_file := \<lparr>df_content = Some ''{cached}'', df_temp = None\<rparr>\<rparr>)
       (\<lambda>_. None) [demo_contact 80000, demo_contact 20000, demo_contact 1000])"

lemma demo_finish3:
  "lead_finish demo_cfg demo_cs (demo_ticket 3 80000) (FetchReturned (Inr (FetchChanged (Some ''v1'') ''{}'')))
     (at_wall 80000) 0 all_io_ok all_io_ok (inner demo_s5) (disk demo_s5) =
   (demo_report (Changed (Some ''v1'') ''{}'') 90800 (Some 70000), inner demo_s6, disk demo_s6)"
proof -
  let ?f = "\<lparr>df_content = Some ''{cached}'', df_temp = None\<rparr>"
  have s: "save_deadlines demo_cs all_io_ok demo_doc7 ((demo_disk (Some ''5''))\<lparr>cache_file := ?f\<rparr>) =
      (True, (demo_disk (Some ''7''))\<lparr>cache_file := ?f\<rparr>)"
    by (rule demo_save(1)) (simp add: demo_codec_def demo_docs)
  have c: "cache_store (cache_codec demo_cs) all_io_ok demo_cached f = (Ok (), ?f)" for f
    by (simp add: cache_store_def demo_cs_def demo_cached_def sample_cached_def MAX_CATALOG_BYTES_def
        all_io_ok_def atomic_write_def create_cache_dir_def)
  have a: "adopt_fetched_revision demo_cs all_io_ok (Some ''v1'') ''{}'' 80000 (Some \<lparr>cs_current = None\<rparr>)
      (demo_disk (Some ''5'')) =
      (Adopted, Some \<lparr>cs_current = Some demo_cached\<rparr>, (demo_disk (Some ''5''))\<lparr>cache_file := ?f\<rparr>)"
    using c [of "cache_file (demo_disk (Some ''5''))"]
    by (simp add: adopt_fetched_revision_def demo_cs_def demo_cached_def sample_cached_def from_bytes_def empty_catalog_def
        MAX_CATALOG_BYTES_def MAX_LOGICAL_SERVERS_def MAX_PHYSICAL_SERVERS_TOTAL_def physical_count_def
        validate_value_domains_def CATALOG_CACHE_SCHEMA_VERSION_def byte_in_def)
  show ?thesis
    using s a by (simp add: finish_simps demo_s5_def demo_s6_def demo_sys_def demo_docs demo_report_def)
qed

lemma demo_adopted_reachable: "reachable demo_cfg demo_cs demo_s6"
proof -
  have "demo_s6 = demo_sys (inner demo_s6) (disk demo_s6) (\<lambda>_. None) (contacts demo_s5)"
    "demo_s5 = demo_sys (inner demo_s5) (disk demo_s5) [0 \<mapsto> Fetching (demo_ticket 3 80000)] (contacts demo_s5)"
    by (simp_all add: demo_s6_def demo_s5_def demo_sys_def Let_def)
  with demo_finish_step [OF demo_finish3, of "\<lambda>_. None" "contacts demo_s5"]
  have "step demo_cfg demo_cs demo_s5 demo_s6" by simp
  then show ?thesis by (rule reachable.run [OF reachable.run [OF demo_reachable(4) demo_next]])
qed

text \<open>An early manual refresh after the first contact: the ceremony, then its redemption.\<close>

definition demo_held :: sys where
  "demo_held = (let s = demo_s2 (\<lambda>_. None) in
     s\<lparr>inner := (inner s)\<lparr>rollback := \<lparr>last_wall_seen = 2000, last_mono_seen = 0, rollback_detected = False\<rparr>,
         pending_token := Some \<lparr>token_value = ''t'', expires_unix = 2300\<rparr>\<rparr>, minted_tokens := [''t'']\<rparr>)"

lemma demo_hold: "step demo_cfg demo_cs (demo_s2 (\<lambda>_. None)) demo_held"
proof -
  let ?s = "demo_s2 (\<lambda>_. None)"
  obtain req where "manual_decide None (Some ''t'') (at_wall 2000) (inner ?s) =
      (ManualReturn (ConfirmationRequired req), 2000, inner demo_held)" and "confirmation_token req = ''t''"
    by (simp add: manual_decide_def ceremony_def mint_requirement_def observe_now_eq observe_wall_def at_wall_def
        track_def wall_rolled_back_def demo_held_def demo_s2_def demo_sys_def demo_inner_def demo_docs
        saturating_add_def u64_max_def CONFIRMATION_TOKEN_TTL_SECONDS_def)
  then have "step demo_cfg demo_cs ?s (?s\<lparr>inner := inner demo_held, callers := (callers ?s)(0 := None),
      minted_tokens := [''t'']\<rparr>)"
    using manual_return [of ?s 0 None "Some ''t''" "at_wall 2000" "ConfirmationRequired req" 2000 "inner demo_held"]
    by (simp add: at_decision_def demo_s2_def demo_sys_def demo_inner_def)
  then show ?thesis by (simp add: demo_held_def demo_s2_def demo_sys_def Let_def)
qed

definition demo_confirmed :: sys where
  "demo_confirmed = (demo_sys (demo_inner demo_doc6 2 (Some 2)
       (Some (1, demo_report (Failed (TransportFailed ''down'')) 11800 None)) 2000) (demo_disk (Some ''6''))
     [0 \<mapsto> Fetching ((demo_ticket 2 2000)\<lparr>ticket_kind := ManualKind\<rparr>)]
     [\<lparr>contact_kind = ConfirmedContact, decided_at = 2000, started_at = 2000\<rparr>, demo_contact 1000])
     \<lparr>minted_tokens := [''t''], redeemed_tokens := [''t'']\<rparr>"

lemma demo_confirm: "step demo_cfg demo_cs demo_held demo_confirmed"
proof -
  let ?i = "(inner demo_held)\<lparr>pending_token := None\<rparr>" and ?tk = "(demo_ticket 2 2000)\<lparr>ticket_kind := ManualKind\<rparr>"
  have dec: "manual_decide (Some ''t'') None (at_wall 2000) (inner demo_held) = (ManualLeadConfirmed ''t'', 2000, ?i)"
    by (simp add: manual_decide_def redeemable_def observe_now_eq observe_wall_def at_wall_def Let_def
        track_def wall_rolled_back_def demo_held_def demo_s2_def demo_sys_def demo_inner_def demo_docs)
  have "save_deadlines demo_cs all_io_ok demo_doc6 (demo_disk (Some ''2'')) = (True, demo_disk (Some ''6''))"
    by (rule demo_save(2)) (simp add: demo_codec_def demo_docs)
  then have "lead_begin demo_cfg demo_cs ManualKind all_io_ok all_io_ok (at_wall 2000) ?i (disk demo_held) =
      (?tk, inner demo_confirmed, demo_disk (Some ''6''))"
    by (simp add: lead_begin_def observe_now_eq observe_wall_def at_wall_def track_def wall_rolled_back_def Let_def
        demo_held_def demo_s2_def demo_sys_def demo_inner_def demo_docs demo_count demo_ticket_def demo_confirmed_def)
  from manual_confirmed [OF _ dec this, where tid = 0]
  show ?thesis
    by (simp add: at_decision_def start_lead_def demo_held_def demo_s2_def demo_sys_def demo_inner_def
        demo_ticket_def demo_confirmed_def Let_def)
qed

lemma demo_confirmed_reachable: "reachable demo_cfg demo_cs demo_confirmed"
  by (rule reachable.run [OF reachable.run [OF demo_reachable(2) demo_hold] demo_confirm])

lemma jitter_drawn:
  assumes "config_ok cfg"
  shows "\<exists>j. draw_jitter (max_positive_jitter_seconds cfg) [None] = Some (Ok j)"
  using assms by (cases "max_positive_jitter_seconds cfg = 0") (auto simp: draw_jitter_def config_ok_def)

lemma lead_finish_reports:
  assumes "lead_finish cfg cs tk fr rd jitter cio pio i d = (rep, i', d')"
  shows "joined_report (ticket_generation tk) i' = Some (rep\<lparr>coalesced := True\<rparr>)"
  using assms by (auto simp: lead_finish_def joined_report_def Let_def split: prod.splits)

section \<open>Properties\<close>

text \<open>
  C1. Upstream contacts are paced by the three-hour floor, whatever happens: in every run,
  with any interleaving of callers, any clock readings (rollback included), any save that
  fails at any point, any fetch result and any number of crashes and restarts, a contact
  that is not a confirmed manual override is decided, on the clamped clock, no earlier than
  three hours after the anchor of every earlier contact (or at the end of time).
\<close>

theorem contacts_respect_floor:
  assumes "reachable cfg cs s" and "codec_faithful (deadlines_codec cs)"
  shows "sorted_wrt (\<lambda>newer older. contact_kind newer \<noteq> ConfirmedContact \<longrightarrow>
    min (started_at older + 10800) u64_max \<le> decided_at newer) (contacts s)"
  using reachable_ok [OF assms]
  by (simp add: paced_def spaced_def saturating_add_def FRESHNESS_FLOOR_SECONDS_def)

theorem contacts_respect_floor_witness:
  "contacts (demo_s3 (\<lambda>_. None)) = [demo_contact 20000, demo_contact 1000] \<and>
   min (started_at (demo_contact 1000) + 10800) u64_max \<le> decided_at (demo_contact 20000)"
  using contacts_respect_floor [OF demo_reachable(3) demo_codecs_faithful(1)]
  by (simp add: demo_s3_def demo_sys_def demo_contact_def)



text \<open>
  C5. A rate limit recorded by a healthy store is never outrun: from then on no contact of
  any kind, a confirmed manual override included, is decided before the suppression ends,
  through any number of crashes, restarts, rollbacks and failed saves.
\<close>

theorem suppression_never_outrun:
  assumes "reachable cfg cs s" and "codec_faithful (deadlines_codec cs)"
    and "persistence_healthy (inner s)" and "suppression_until_unix (persisted (inner s)) = Some u"
    and "(step cfg cs)\<^sup>*\<^sup>* s s'"
  shows "\<exists>new. contacts s' = new @ contacts s \<and> list_all (\<lambda>c. u \<le> decided_at c) new"
proof -
  have "suppression_durable cs s" using reachable_more [OF assms(1,2)] by simp
  then have "disk_suppresses cs u s" using assms(3,4) by (auto simp: suppression_durable_def disk_suppresses_def)
  from steps_suppress [OF assms(5) this assms(2)] show ?thesis by (auto simp: list_all_iff)
qed

theorem suppression_never_outrun_witness:
  "suppression_until_unix (persisted (inner (demo_s4 (\<lambda>_. None)))) = Some 70000 \<and>
   (\<exists>new. contacts demo_s5 = new @ contacts (demo_s4 (\<lambda>_. None)) \<and> list_all (\<lambda>c. 70000 \<le> decided_at c) new)"
  using suppression_never_outrun [OF demo_reachable(4) demo_codecs_faithful(1) _ _ r_into_rtranclp
      [where r = "step demo_cfg demo_cs", OF demo_next], of 70000]
  by (simp add: demo_s4_def demo_sys_def demo_inner_def demo_doc4_def)

text \<open>
  Single flight: at no time do two callers fetch, and the one that fetches owns the
  generation in flight.
\<close>

theorem at_most_one_fetch:
  assumes "reachable cfg cs s" and "codec_faithful (deadlines_codec cs)"
    and "callers s a = Some (Fetching tk)" and "callers s b = Some (Fetching tk')"
  shows "a = b \<and> in_flight (inner s) = Some (ticket_generation tk)"
  using reachable_ok [OF assms(1,2)] assms(3,4) unfolding single_flight_def by blast

theorem at_most_one_fetch_witness:
  "callers (demo_s3 late_joiner) 0 = Some (Fetching (demo_ticket 2 20000)) \<and>
   in_flight (inner (demo_s3 late_joiner)) = Some 2"
proof -
  have "reachable demo_cfg demo_cs (demo_s3 late_joiner)"
    by (rule demo_run_from(2) [OF reachable.run [OF demo_reachable1 demo_park]]) (simp add: late_joiner_def)
  from at_most_one_fetch [OF this demo_codecs_faithful(1), of 0 "demo_ticket 2 20000" 0 "demo_ticket 2 20000"]
  show ?thesis by (simp add: demo_s3_def demo_sys_def demo_ticket_def)
qed

text \<open>
  C39. A flight never wedges: with a valid configuration, from every reachable state with a
  refresh in flight its leader has a step that ends it, whatever the fetch returned (success,
  failure, panic, or no fetch at all), whatever the clock reads and whether or not either save
  works; the step clears the flight and publishes the report the joiners wait for.
\<close>

theorem flight_can_always_end:
  assumes "reachable cfg cs s" and "codec_faithful (deadlines_codec cs)" and "config_ok cfg"
    and "in_flight (inner s) = Some g"
  shows "\<exists>tid tk. callers s tid = Some (Fetching tk) \<and>
    (\<forall>fr rd cio pio. \<exists>j rep i' d'. lead_finish cfg cs tk fr rd j cio pio (inner s) (disk s) = (rep, i', d') \<and>
      step cfg cs s (s\<lparr>inner := i', disk := d', callers := (callers s)(tid := None)\<rparr>) \<and>
      in_flight i' = None \<and> joined_report g i' = Some (rep\<lparr>coalesced := True\<rparr>))"
proof -
  obtain tid tk where c: "callers s tid = Some (Fetching tk)" and g: "ticket_generation tk = g"
    using reachable_ok [OF assms(1,2)] assms(4) unfolding single_flight_def by fastforce
  obtain j where j: "draw_jitter (max_positive_jitter_seconds cfg) [None] = Some (Ok j)"
    using jitter_drawn [OF assms(3)] by blast
  have "\<exists>j rep i' d'. lead_finish cfg cs tk fr rd j cio pio (inner s) (disk s) = (rep, i', d') \<and>
      step cfg cs s (s\<lparr>inner := i', disk := d', callers := (callers s)(tid := None)\<rparr>) \<and>
      in_flight i' = None \<and> joined_report g i' = Some (rep\<lparr>coalesced := True\<rparr>)" for fr rd cio pio
  proof -
    obtain rep i' d' where lf: "lead_finish cfg cs tk fr rd j cio pio (inner s) (disk s) = (rep, i', d')"
      by (metis prod_cases3)
    with finish [OF c j lf] lead_finish_effects(1) [OF assms(2) lf] lead_finish_reports [OF lf] g
    show ?thesis by blast
  qed
  with c show ?thesis by blast
qed

theorem flight_can_always_end_witness:
  "\<exists>tid tk. callers (demo_s3 (\<lambda>_. None)) tid = Some (Fetching tk) \<and>
     (\<exists>j rep i' d'. lead_finish demo_cfg demo_cs tk FetchPanicked (at_wall 20001) j all_io_ok all_io_ok
         (inner (demo_s3 (\<lambda>_. None))) (disk (demo_s3 (\<lambda>_. None))) = (rep, i', d') \<and>
       in_flight i' = None)"
proof -
  have "config_ok demo_cfg" by (simp add: config_ok_def demo_cfg_def FRESHNESS_FLOOR_SECONDS_def u64_max_def)
  moreover have "in_flight (inner (demo_s3 (\<lambda>_. None))) = Some 2" by (simp add: demo_s3_def demo_sys_def demo_inner_def)
  ultimately show ?thesis
    using flight_can_always_end [OF demo_reachable(3) demo_codecs_faithful(1), of 2] by blast
qed

text \<open>
  C18. An early manual refresh needs a ceremony of its own: the redeemed tokens are a
  sub-multiset of the minted ones, so each ceremony is redeemed at most once, and there are
  never more confirmed contacts than redemptions; restarts forget outstanding tokens.
\<close>

theorem early_refresh_needs_ceremony:
  assumes "reachable cfg cs s" and "codec_faithful (deadlines_codec cs)"
  shows "mset (redeemed_tokens s) \<subseteq># mset (minted_tokens s) \<and>
    length (filter (\<lambda>c. contact_kind c = ConfirmedContact) (contacts s)) \<le> length (minted_tokens s)"
proof -
  have t: "tokens_accounted s" using reachable_more [OF assms] by simp
  then have "mset (redeemed_tokens s) \<subseteq># mset (minted_tokens s)"
    by (auto simp: tokens_accounted_def dest: mset_subset_eq_add_left [THEN subset_mset.order_trans])
  moreover then have "length (redeemed_tokens s) \<le> length (minted_tokens s)" by (metis size_mset size_mset_mono)
  ultimately show ?thesis using t by (auto simp: tokens_accounted_def)
qed

theorem early_refresh_needs_ceremony_witness:
  "redeemed_tokens demo_confirmed = [''t''] \<and> mset (redeemed_tokens demo_confirmed) \<subseteq># mset (minted_tokens demo_confirmed) \<and>
   length (filter (\<lambda>c. contact_kind c = ConfirmedContact) (contacts demo_confirmed)) \<le> length (minted_tokens demo_confirmed)"
  using early_refresh_needs_ceremony [OF demo_confirmed_reachable demo_codecs_faithful(1)]
  by (simp add: demo_confirmed_def demo_sys_def)

text \<open>
  The catalog cache on disk is never poisoned: in every run the cache file loads, so no
  fetched body, failed store or crash can leave a file that would stop the next start.
\<close>

theorem cache_always_loads:
  assumes "reachable cfg cs s" and "codec_faithful (deadlines_codec cs)" and "cache_codec_faithful (cache_codec cs)"
  shows "\<exists>c. cache_load_validated (cache_codec cs) None (cache_file (disk s)) = Ok c"
  using reachable_cache_sound [OF assms] by (simp add: cache_sound_def)

theorem cache_always_loads_witness:
  "df_content (cache_file (disk demo_s6)) = Some ''{cached}'' \<and>
   (\<exists>c. cache_load_validated (cache_codec demo_cs) None (cache_file (disk demo_s6)) = Ok c)"
  using cache_always_loads [OF demo_adopted_reachable demo_codecs_faithful]
  by (simp add: demo_s6_def demo_sys_def)

text \<open>
  A joiner can find its generation resolved without its report: a caller parked on one
  refresh and woken only after a later one completed finds \<open>completed\<close> overwritten and goes
  round the loop again. The comment in \<open>refresh_automatic\<close> calls this impossible.
\<close>

theorem late_joiner_misses_its_report:
  "\<exists>cfg cs s tid seen g rep. reachable cfg cs s \<and> callers s tid = Some (Parked seen AutoDoor) \<and>
     in_flight (inner s) = None \<and> completed (inner s) = Some (g, rep) \<and> g \<noteq> seen \<and>
     joined_report seen (inner s) = None"
proof -
  let ?s = "demo_s4 late_joiner"
  have "callers ?s 1 = Some (Parked 1 AutoDoor)" "in_flight (inner ?s) = None"
    "completed (inner ?s) = Some (2, demo_report (RateLimited (Some 50000)) 70000 (Some 70000))"
    "joined_report 1 (inner ?s) = None"
    by (simp_all add: demo_s4_def demo_sys_def demo_inner_def late_joiner_def joined_report_def)
  moreover have "(2 :: u64) \<noteq> 1" by simp
  ultimately show ?thesis using demo_late_reachable by blast
qed

end
