(* ===== verification/Rust_Text.thy ===== *)
theory Rust_Text
  imports Prelude
begin

text \<open>
  What the repository uses of Rust's \<open>str\<close>: lines, trimming, splitting at white space, numerals
  in a radix, hexadecimal formatting; and \<open>BTreeSet\<close>. A \<open>string\<close> is the list of its characters,
  for characters below 256. None of this is code of the repository.
\<close>

named_theorems text_simps "splitting and trimming text"

section \<open>White space, lines and words\<close>

definition is_whitespace :: "char \<Rightarrow> bool" where
  "is_whitespace c \<longleftrightarrow> (let n = of_char c :: nat in 9 \<le> n \<and> n \<le> 13 \<or> n = 32 \<or> n = 133 \<or> n = 160)"

definition trim_start :: "string \<Rightarrow> string" where
  "trim_start s = dropWhile is_whitespace s"

definition trim_end :: "string \<Rightarrow> string" where
  "trim_end s = rev (dropWhile is_whitespace (rev s))"

definition trim :: "string \<Rightarrow> string" where
  "trim s = trim_end (trim_start s)"

text \<open>\<open>lines\<close>: split at line feeds, a final empty piece dropped, one carriage return stripped.\<close>

fun split_on :: "'a \<Rightarrow> 'a list \<Rightarrow> 'a list list" where
  "split_on sep [] = [[]]"
| "split_on sep (c # cs) =
     (if c = sep then [] # split_on sep cs
      else case split_on sep cs of [] \<Rightarrow> [[c]] | p # ps \<Rightarrow> (c # p) # ps)"

definition strip_cr :: "string \<Rightarrow> string" where
  "strip_cr s = (if s \<noteq> [] \<and> last s = CHR 0x0D then butlast s else s)"

definition str_lines :: "string \<Rightarrow> string list" where
  "str_lines s =
     map strip_cr (let ps = split_on CHR 0x0A s in if last ps = [] then butlast ps else ps)"

text \<open>\<open>split_whitespace\<close>: the maximal runs of other characters.\<close>

function split_whitespace :: "string \<Rightarrow> string list" where
  "split_whitespace s =
     (case dropWhile is_whitespace s of
        [] \<Rightarrow> []
      | c # cs \<Rightarrow> (c # takeWhile (\<lambda>x. \<not> is_whitespace x) cs) #
          split_whitespace (dropWhile (\<lambda>x. \<not> is_whitespace x) cs))"
  by pat_completeness auto
termination
proof (relation "measure length")
  fix s x21 :: string and c
  assume "dropWhile is_whitespace s = c # x21"
  then have "Suc (length x21) \<le> length s" using length_dropWhile_le [of is_whitespace s] by simp
  moreover have "length (dropWhile (\<lambda>x. \<not> is_whitespace x) x21) \<le> length x21"
    by (rule length_dropWhile_le)
  ultimately show "(dropWhile (\<lambda>x. \<not> is_whitespace x) x21, s) \<in> measure length" by simp
qed simp

declare split_whitespace.simps [simp del]

text \<open>\<open>split_once(char::is_whitespace)\<close>.\<close>

definition split_once_whitespace :: "string \<Rightarrow> (string \<times> string) option" where
  "split_once_whitespace s =
     (case dropWhile (\<lambda>x. \<not> is_whitespace x) s of
        [] \<Rightarrow> None
      | _ # rest \<Rightarrow> Some (takeWhile (\<lambda>x. \<not> is_whitespace x) s, rest))"

fun strip_prefix :: "string \<Rightarrow> string \<Rightarrow> string option" where
  "strip_prefix [] s = Some s"
| "strip_prefix (p # ps) [] = None"
| "strip_prefix (p # ps) (c # cs) = (if p = c then strip_prefix ps cs else None)"

lemma strip_prefix_iff: "strip_prefix p s = Some r \<longleftrightarrow> s = p @ r"
  by (induction p s rule: strip_prefix.induct) auto

lemma strip_prefix_append [simp]: "strip_prefix p (p @ r) = Some r"
  by (simp add: strip_prefix_iff)

lemma split_on_nonempty [simp]: "split_on sep s \<noteq> []"
  by (induction s) (auto split: list.splits)

section \<open>Numerals\<close>

definition is_ascii_digit :: "char \<Rightarrow> bool" where
  "is_ascii_digit c \<longleftrightarrow> (let n = of_char c :: nat in 48 \<le> n \<and> n \<le> 57)"

text \<open>\<open>char::to_digit\<close>.\<close>

definition digit_value :: "char \<Rightarrow> nat option" where
  "digit_value c =
     (let n = of_char c :: nat in
      if 48 \<le> n \<and> n \<le> 57 then Some (n - 48)
      else if 97 \<le> n \<and> n \<le> 122 then Some (n - 87)
      else if 65 \<le> n \<and> n \<le> 90 then Some (n - 55) else None)"

definition to_digit :: "nat \<Rightarrow> char \<Rightarrow> nat option" where
  "to_digit radix c = (case digit_value c of Some d \<Rightarrow> if d < radix then Some d else None | None \<Rightarrow> None)"

fun digits_value :: "nat \<Rightarrow> nat \<Rightarrow> nat \<Rightarrow> string \<Rightarrow> nat option" where
  "digits_value radix limit acc [] = Some acc"
| "digits_value radix limit acc (c # cs) =
     (case to_digit radix c of
        None \<Rightarrow> None
      | Some d \<Rightarrow> if acc * radix + d \<le> limit then digits_value radix limit (acc * radix + d) cs else None)"

text \<open>
  \<open>from_str_radix\<close> of an unsigned type whose greatest value is \<open>limit\<close>: a sign alone and the
  empty text are errors, a leading plus is skipped, a minus is not a digit, overflow is an error.
\<close>

definition from_str_radix :: "nat \<Rightarrow> nat \<Rightarrow> string \<Rightarrow> nat option" where
  "from_str_radix limit radix s =
     (if s = [] \<or> s = ''+'' \<or> s = ''-'' then None
      else digits_value radix limit 0 (if hd s = CHR ''+'' then tl s else s))"

definition u32_max :: u32 where
  "u32_max = 2 ^ 32 - 1"

lemma digits_value_le: "digits_value radix limit acc s = Some n \<Longrightarrow> acc \<le> limit \<Longrightarrow> n \<le> limit"
  by (induction s arbitrary: acc) (auto split: option.splits if_splits)

lemma from_str_radix_le: "from_str_radix limit radix s = Some n \<Longrightarrow> n \<le> limit"
  by (auto simp: from_str_radix_def split: if_splits dest: digits_value_le)

text \<open>Lower-case hexadecimal, as \<open>{:x}\<close> prints one digit.\<close>

definition hex_char :: "nat \<Rightarrow> char" where
  "hex_char n = (if n < 10 then char_of (48 + n) else char_of (87 + n))"

lemma to_digit_hex_char: "n < 16 \<Longrightarrow> to_digit 16 (hex_char n) = Some n"
  by (simp add: to_digit_def digit_value_def hex_char_def Let_def)

text \<open>Decimal text, as \<open>Display\<close> prints an unsigned integer.\<close>

fun dec_text :: "nat \<Rightarrow> string" where
  "dec_text n = (if n < 10 then [hex_char n] else dec_text (n div 10) @ [hex_char (n mod 10)])"

declare dec_text.simps [simp del]

text \<open>\<open>{:0w$x}\<close> for a value below \<open>16 ^ w\<close>: the digits, the most significant first.\<close>

primrec hex_fixed :: "nat \<Rightarrow> nat \<Rightarrow> string" where
  "hex_fixed 0 n = []"
| "hex_fixed (Suc w) n = hex_char (n div 16 ^ w mod 16) # hex_fixed w n"

lemma length_hex_fixed [simp]: "length (hex_fixed w n) = w"
  by (induction w) auto

lemma digits_value_hex_fixed:
  assumes "acc * 16 ^ w + n mod 16 ^ w \<le> limit"
  shows "digits_value 16 limit acc (hex_fixed w n) = Some (acc * 16 ^ w + n mod 16 ^ w)"
  using assms
proof (induction w arbitrary: acc)
  case (Suc w)
  let ?d = "n div 16 ^ w mod 16"
  have split: "(acc * 16 + ?d) * 16 ^ w + n mod 16 ^ w = acc * 16 ^ Suc w + n mod 16 ^ Suc w"
    using mod_mult2_eq [of n "16 ^ w" 16] by (simp add: algebra_simps)
  moreover have "acc * 16 + ?d \<le> (acc * 16 + ?d) * 16 ^ w" by simp
  ultimately have "acc * 16 + ?d \<le> limit" using Suc.prems by linarith
  with Suc split show ?case by (simp add: to_digit_hex_char)
qed simp

lemma from_str_radix_hex_fixed:
  assumes "0 < w" and "n < 16 ^ w" and "n \<le> limit"
  shows "from_str_radix limit 16 (hex_fixed w n) = Some n"
proof -
  obtain v where w: "w = Suc v" using assms(1) by (cases w) auto
  have "hex_char d \<noteq> CHR ''+'' \<and> hex_char d \<noteq> CHR ''-''" if "d < 16" for d
    using to_digit_hex_char [OF that] by (auto simp: to_digit_def digit_value_def)
  then have "hex_fixed w n \<noteq> ''+''" "hex_fixed w n \<noteq> ''-''" "hd (hex_fixed w n) \<noteq> CHR ''+''"
    by (auto simp: w)
  then show ?thesis
    using digits_value_hex_fixed [of 0 w n limit] assms by (simp add: from_str_radix_def w)
qed

section \<open>Sets in ascending order\<close>

text \<open>\<open>BTreeSet\<close> as the ascending list of its elements.\<close>

fun bset_insert :: "'a::linorder \<Rightarrow> 'a list \<Rightarrow> 'a list" where
  "bset_insert x [] = [x]"
| "bset_insert x (y # ys) = (if x < y then x # y # ys else if x = y then y # ys else y # bset_insert x ys)"

definition bset_of :: "'a::linorder list \<Rightarrow> 'a list" where
  "bset_of xs = fold bset_insert xs []"

lemma set_bset_insert [simp]: "set (bset_insert x xs) = insert x (set xs)"
  by (induction xs) auto

lemma length_bset_insert: "length (bset_insert x xs) \<le> Suc (length xs)"
  by (induction xs) auto

lemma set_bset_of [simp]: "set (bset_of xs) = set xs"
proof -
  have "set (fold bset_insert xs acc) = set acc \<union> set xs" for acc
    by (induction xs arbitrary: acc) auto
  then show ?thesis by (simp add: bset_of_def)
qed

section \<open>Addresses\<close>

text \<open>\<open>std::net::IpAddr\<close>.\<close>

datatype IpAddr = IpV4 (octets: "8 word list") | IpV6 (octets: "8 word list")

section \<open>Splitting from the right\<close>

definition rsplit_once :: "char \<Rightarrow> string \<Rightarrow> (string \<times> string) option" where
  "rsplit_once c s =
     (case dropWhile (\<lambda>x. x \<noteq> c) (rev s) of
        [] \<Rightarrow> None
      | _ # r \<Rightarrow> Some (rev r, rev (takeWhile (\<lambda>x. x \<noteq> c) (rev s))))"

lemma rsplit_once_append: "c \<notin> set t \<Longrightarrow> rsplit_once c (s @ c # t) = Some (s, t)"
  by (simp add: rsplit_once_def dropWhile_append takeWhile_append)

lemma dec_text_digits: "x \<in> set (dec_text n) \<Longrightarrow> is_ascii_digit x"
proof (induction n rule: dec_text.induct)
  case (1 n)
  have "is_ascii_digit (hex_char k)" if "k < 10" for k
    using that by (simp add: is_ascii_digit_def hex_char_def)
  with 1 show ?case by (auto simp: dec_text.simps [of n] split: if_splits)
qed

lemma dec_text_nonempty [simp]: "dec_text n \<noteq> []"
  by (simp add: dec_text.simps)

end
