(* ===== verification/Net_Tables.thy ===== *)
theory Net_Tables
  imports Rust_Text
begin

text \<open>
  The routing-table plan (\<open>net/src/tables.rs\<close>): which table ids the daemon owns, decided from
  the named tables, the ids in use, the ids proven ours and the persisted mapping, before
  anything touches the host. The search for a free id is the \<open>while\<close> loop of \<open>resolve\<close> on
  32-bit ids, where running past the greatest id is a panic.
\<close>

section \<open>Kinds, assignments and the survey\<close>

definition KERNEL_RESERVED_MAX :: u32 where
  "KERNEL_RESERVED_MAX = 255"

datatype TableKind = MainTable | BypassTable | LanTable

definition ALL_KINDS :: "TableKind list" where
  "ALL_KINDS = [MainTable, BypassTable, LanTable]"

primrec preferred_id :: "TableKind \<Rightarrow> u32" where
  "preferred_id MainTable = 51820"
| "preferred_id BypassTable = 51821"
| "preferred_id LanTable = 51822"

primrec canonical_name :: "TableKind \<Rightarrow> string" where
  "canonical_name MainTable = ''protonwire-main''"
| "canonical_name BypassTable = ''protonwire-bypass''"
| "canonical_name LanTable = ''protonwire-lan''"

datatype Provenance = Preferred | Persisted | Allocated

record TableAssignment =
  ta_kind :: TableKind
  ta_id :: u32
  ta_provenance :: Provenance

record TablePlan =
  assignments :: "TableAssignment list"

text \<open>\<open>TablePlan::assignment\<close>; the \<open>expect\<close> is a panic.\<close>

definition plan_assignment :: "TablePlan \<Rightarrow> TableKind \<Rightarrow> (unit, TableAssignment) res" where
  "plan_assignment plan k =
     (case find (\<lambda>a. ta_kind a = k) (assignments plan) of Some a \<Rightarrow> Ok a | None \<Rightarrow> Panic)"

definition plan_ids :: "TablePlan \<Rightarrow> u32 list" where
  "plan_ids plan = bset_of (map ta_id (assignments plan))"

definition plan_owns :: "TablePlan \<Rightarrow> u32 \<Rightarrow> bool" where
  "plan_owns plan i \<longleftrightarrow> list_ex (\<lambda>a. ta_id a = i) (assignments plan)"

record PersistedTables =
  pt_main :: u32
  pt_bypass :: u32
  pt_lan :: u32

primrec for_kind :: "PersistedTables \<Rightarrow> TableKind \<Rightarrow> u32" where
  "for_kind pt MainTable = pt_main pt"
| "for_kind pt BypassTable = pt_bypass pt"
| "for_kind pt LanTable = pt_lan pt"

record TableSurvey =
  named :: "(u32, string) btree"
  occupied :: "u32 list"
  occupied_by_us :: "u32 list"
  sv_persisted :: "PersistedTables option"

section \<open>Reading \<open>rt_tables\<close>\<close>

definition parse_rt_tables_id :: "string \<Rightarrow> u32 option" where
  "parse_rt_tables_id txt =
     (case (case strip_prefix ''0x'' txt of Some r \<Rightarrow> Some r | None \<Rightarrow> strip_prefix ''0X'' txt) of
        Some r \<Rightarrow> from_str_radix u32_max 16 r
      | None \<Rightarrow>
        (case (case strip_prefix ''0b'' txt of Some r \<Rightarrow> Some r | None \<Rightarrow> strip_prefix ''0B'' txt) of
           Some r \<Rightarrow> from_str_radix u32_max 2 r
         | None \<Rightarrow>
             if 1 < length txt \<and> hd txt = CHR ''0'' \<and> list_all is_ascii_digit (tl txt)
             then from_str_radix u32_max 8 (tl txt)
             else from_str_radix u32_max 10 txt))"

text \<open>The entry one line of the file declares, if it declares one.\<close>

definition rt_entry :: "string \<Rightarrow> (u32 \<times> string) option" where
  "rt_entry raw =
     (let line = trim raw in
      if line = [] \<or> hd line = CHR ''#'' then None
      else case split_once_whitespace line of
          None \<Rightarrow> None
        | Some (ident, rest) \<Rightarrow>
          (case parse_rt_tables_id (trim ident) of
             None \<Rightarrow> None
           | Some i \<Rightarrow>
             (case split_whitespace rest of
                [] \<Rightarrow> None
              | name # _ \<Rightarrow> if hd name = CHR ''#'' then None else Some (i, name))))"

definition parse_rt_tables :: "string \<Rightarrow> (u32, string) btree" where
  "parse_rt_tables txt =
     fold (\<lambda>line m. case rt_entry line of Some (i, name) \<Rightarrow> btree_insert i name m | None \<Rightarrow> m)
       (str_lines txt) []"

section \<open>Resolving the plan\<close>

definition claimable :: "u32 \<Rightarrow> TableSurvey \<Rightarrow> u32 list \<Rightarrow> bool" where
  "claimable i survey claimed \<longleftrightarrow>
     KERNEL_RESERVED_MAX < i \<and> btree_get (named survey) i = None \<and>
     i \<notin> set (occupied survey) \<and> i \<notin> set claimed"

definition free_id :: "u32 \<Rightarrow> TableSurvey \<Rightarrow> u32 list \<Rightarrow> bool" where
  "free_id i survey claimed \<longleftrightarrow> claimable i survey claimed \<and> \<not> list_ex (\<lambda>k. preferred_id k = i) ALL_KINDS"

text \<open>The \<open>while\<close> loop: the next candidate until one is free; \<open>candidate += 1\<close> panics at the top.\<close>

function next_free :: "TableSurvey \<Rightarrow> u32 list \<Rightarrow> u32 \<Rightarrow> (unit, u32) res" where
  "next_free survey claimed candidate =
     (if free_id candidate survey claimed then Ok candidate
      else if u32_max \<le> candidate then Panic
      else next_free survey claimed (candidate + 1))"
  by pat_completeness auto
termination
  by (relation "measure (\<lambda>(_, _, c). u32_max - c)") auto

declare next_free.simps [simp del]

text \<open>The persisted id of a kind when it counts as evidence of ownership.\<close>

definition reclaimable :: "TableKind \<Rightarrow> TableSurvey \<Rightarrow> u32 list \<Rightarrow> PersistedTables \<Rightarrow> bool" where
  "reclaimable k survey claimed pt =
     (let i = for_kind pt k;
          occ = (i \<in> set (occupied survey));
          proven_ours = (i \<in> set (occupied_by_us survey) \<or>
            (case btree_get (named survey) i of Some name \<Rightarrow> name = canonical_name k | None \<Rightarrow> False));
          contradicted = (case btree_get (named survey) i of Some name \<Rightarrow> name \<noteq> canonical_name k | None \<Rightarrow> False);
          collides_with_sibling = list_ex (\<lambda>other. other \<noteq> k \<and> for_kind pt other = i) ALL_KINDS;
          valid = (KERNEL_RESERVED_MAX < i \<and> \<not> collides_with_sibling \<and> i \<notin> set claimed)
      in \<not> contradicted \<and> valid \<and> (\<not> occ \<or> proven_ours))"

definition resolve_fresh :: "TableKind \<Rightarrow> TableSurvey \<Rightarrow> u32 list \<Rightarrow> (unit, TableAssignment) res" where
  "resolve_fresh k survey claimed =
     (let preferred = preferred_id k in
      and_then (if claimable preferred survey claimed then Ok preferred
                else next_free survey claimed (preferred + 1))
        (\<lambda>i. Ok \<lparr>ta_kind = k, ta_id = i, ta_provenance = (if i = preferred then Preferred else Allocated)\<rparr>))"

definition resolve :: "TableKind \<Rightarrow> TableSurvey \<Rightarrow> u32 list \<Rightarrow> (unit, TableAssignment) res" where
  "resolve k survey claimed =
     (case sv_persisted survey of
        Some pt \<Rightarrow>
          if reclaimable k survey claimed pt
          then Ok \<lparr>ta_kind = k, ta_id = for_kind pt k, ta_provenance = Persisted\<rparr>
          else resolve_fresh k survey claimed
      | None \<Rightarrow> resolve_fresh k survey claimed)"

fun plan_loop :: "TableSurvey \<Rightarrow> u32 list \<Rightarrow> TableKind list \<Rightarrow> (unit, TableAssignment list) res" where
  "plan_loop survey claimed [] = Ok []"
| "plan_loop survey claimed (k # ks) =
     and_then (resolve k survey claimed)
       (\<lambda>a. and_then (plan_loop survey (bset_insert (ta_id a) claimed) ks) (\<lambda>as. Ok (a # as)))"

definition plan_tables :: "TableSurvey \<Rightarrow> (unit, TablePlan) res" where
  "plan_tables survey = and_then (plan_loop survey [] ALL_KINDS) (\<lambda>as. Ok \<lparr>assignments = as\<rparr>)"

section \<open>The search finds a free id\<close>

text \<open>The ids the search steps over.\<close>

definition taken :: "TableSurvey \<Rightarrow> u32 list \<Rightarrow> u32 set" where
  "taken survey claimed =
     fst ` set (named survey) \<union> set (occupied survey) \<union> set claimed \<union> set (map preferred_id ALL_KINDS)"

lemma free_id_iff:
  "free_id i survey claimed \<longleftrightarrow> KERNEL_RESERVED_MAX < i \<and> i \<notin> taken survey claimed"
  by (auto simp: free_id_def claimable_def taken_def list_ex_iff btree_get_def map_of_eq_None_iff)

lemma finite_taken [simp]: "finite (taken survey claimed)"
  by (simp add: taken_def)

lemma card_taken:
  "card (taken survey claimed) \<le> length (named survey) + length (occupied survey) + length claimed + 3"
proof -
  have "taken survey claimed = set (map fst (named survey) @ occupied survey @ claimed @ map preferred_id ALL_KINDS)"
    by (auto simp: taken_def)
  also have "card \<dots> \<le> length (map fst (named survey) @ occupied survey @ claimed @ map preferred_id ALL_KINDS)"
    by (rule card_length)
  finally show ?thesis by (simp add: ALL_KINDS_def)
qed

lemma next_free_Ok:
  "next_free survey claimed c = Ok i \<Longrightarrow>
   c \<le> i \<and> free_id i survey claimed \<and> (\<forall>j. c \<le> j \<and> j < i \<longrightarrow> \<not> free_id j survey claimed)"
proof (induction survey claimed c rule: next_free.induct)
  case (1 survey claimed c)
  show ?case
  proof (cases "free_id c survey claimed")
    case True
    with "1.prems" show ?thesis by (auto simp: next_free.simps [of survey claimed c])
  next
    case False
    then have "\<not> u32_max \<le> c" and "next_free survey claimed (c + 1) = Ok i"
      using "1.prems" by (auto simp: next_free.simps [of survey claimed c] split: if_splits)
    with "1.IH" False have ih: "c + 1 \<le> i" "free_id i survey claimed"
      "\<forall>j. c + 1 \<le> j \<and> j < i \<longrightarrow> \<not> free_id j survey claimed" by auto
    have "\<not> free_id j survey claimed" if "c \<le> j" "j < i" for j
      using that False ih(3) by (cases "j = c") auto
    with ih show ?thesis by auto
  qed
qed

lemma next_free_total:
  assumes "KERNEL_RESERVED_MAX < c" and "c + card {j \<in> taken survey claimed. c \<le> j} \<le> u32_max"
  shows "\<exists>i. next_free survey claimed c = Ok i \<and> i \<le> u32_max"
  using assms
proof (induction survey claimed c rule: next_free.induct)
  case (1 survey claimed c)
  show ?case
  proof (cases "free_id c survey claimed")
    case True
    with "1.prems" show ?thesis by (auto simp: next_free.simps [of survey claimed c])
  next
    case False
    let ?above = "\<lambda>c. {j \<in> taken survey claimed. c \<le> j}"
    have mem: "c \<in> taken survey claimed" using False "1.prems"(1) by (simp add: free_id_iff)
    then have "?above c = insert c (?above (c + 1))" by (auto simp: Suc_le_eq)
    moreover have "c \<notin> ?above (c + 1)" by simp
    ultimately have "card (?above c) = Suc (card (?above (c + 1)))" by (simp add: card_insert_disjoint)
    with "1.prems" have "\<not> u32_max \<le> c" "c + 1 + card (?above (c + 1)) \<le> u32_max" by auto
    with False "1.IH" "1.prems"(1) show ?thesis by (simp add: next_free.simps [of survey claimed c])
  qed
qed

section \<open>What a resolved id is\<close>

text \<open>An id outside the kernel's range that no other manager names or uses.\<close>

definition assignment_ok :: "TableSurvey \<Rightarrow> TableAssignment \<Rightarrow> bool" where
  "assignment_ok survey a \<longleftrightarrow>
     KERNEL_RESERVED_MAX < ta_id a \<and> ta_id a \<le> u32_max \<and>
     (\<forall>name. btree_get (named survey) (ta_id a) = Some name \<longrightarrow> name = canonical_name (ta_kind a)) \<and>
     (ta_id a \<in> set (occupied survey) \<longrightarrow> ta_provenance a = Persisted \<and>
        (ta_id a \<in> set (occupied_by_us survey) \<or>
         btree_get (named survey) (ta_id a) = Some (canonical_name (ta_kind a))))"

definition survey_ok :: "TableSurvey \<Rightarrow> bool" where
  "survey_ok survey \<longleftrightarrow>
     (case sv_persisted survey of None \<Rightarrow> True | Some pt \<Rightarrow> list_all (\<lambda>k. for_kind pt k \<le> u32_max) ALL_KINDS)"

lemma preferred_id_range: "KERNEL_RESERVED_MAX < preferred_id k" "preferred_id k \<le> 51822"
  by (cases k; simp add: KERNEL_RESERVED_MAX_def)+

lemma in_ALL_KINDS [simp]: "k \<in> set ALL_KINDS"
  by (cases k) (simp_all add: ALL_KINDS_def)

lemma claimable_ok: "claimable i survey claimed \<Longrightarrow> i \<le> u32_max \<Longrightarrow>
   assignment_ok survey \<lparr>ta_kind = k, ta_id = i, ta_provenance = p\<rparr> \<and> i \<notin> set claimed"
  by (auto simp: claimable_def assignment_ok_def)

lemma reclaimable_ok:
  assumes "reclaimable k survey claimed pt" and "for_kind pt k \<le> u32_max"
  shows "assignment_ok survey \<lparr>ta_kind = k, ta_id = for_kind pt k, ta_provenance = Persisted\<rparr> \<and>
    for_kind pt k \<notin> set claimed"
  using assms by (auto simp: reclaimable_def Let_def assignment_ok_def split: option.splits)

lemma resolve_fresh_ok:
  assumes "length (named survey) + length (occupied survey) + length claimed \<le> 4000000000"
  shows "\<exists>a. resolve_fresh k survey claimed = Ok a \<and> ta_kind a = k \<and> assignment_ok survey a \<and>
    ta_id a \<notin> set claimed"
proof -
  let ?p = "preferred_id k" and ?c = "preferred_id k + 1"
  have "card {j \<in> taken survey claimed. ?c \<le> j} \<le> card (taken survey claimed)" by (rule card_mono) auto
  then have "?c + card {j \<in> taken survey claimed. ?c \<le> j} \<le> u32_max"
    using card_taken [of survey claimed] assms preferred_id_range(2) [of k] by (simp add: u32_max_def)
  then obtain i where i: "next_free survey claimed ?c = Ok i" "i \<le> u32_max"
    using next_free_total [of ?c survey claimed] preferred_id_range(1) [of k] by auto
  then have "claimable i survey claimed" using next_free_Ok [OF i(1)] by (simp add: free_id_def)
  note alloc = claimable_ok [OF this i(2), of k]
  have "?p \<le> u32_max" using preferred_id_range(2) [of k] by (simp add: u32_max_def)
  with alloc i claimable_ok [of ?p survey claimed k] show ?thesis
    by (cases "claimable ?p survey claimed") (simp_all add: resolve_fresh_def Let_def)
qed

lemma resolve_ok:
  assumes "survey_ok survey" and "length (named survey) + length (occupied survey) + length claimed \<le> 4000000000"
  shows "\<exists>a. resolve k survey claimed = Ok a \<and> ta_kind a = k \<and> assignment_ok survey a \<and> ta_id a \<notin> set claimed"
proof (cases "sv_persisted survey")
  case None
  with resolve_fresh_ok [OF assms(2)] show ?thesis by (simp add: resolve_def)
next
  case (Some pt)
  then have "for_kind pt k \<le> u32_max" using assms(1) by (simp add: survey_ok_def list_all_iff)
  with Some reclaimable_ok [of k survey claimed pt] resolve_fresh_ok [OF assms(2), of k] show ?thesis
    by (cases "reclaimable k survey claimed pt") (simp_all add: resolve_def)
qed

lemma plan_loop_ok:
  assumes "survey_ok survey"
    and "length (named survey) + length (occupied survey) + length claimed + length ks \<le> 4000000000"
  shows "\<exists>as. plan_loop survey claimed ks = Ok as \<and> map ta_kind as = ks \<and> list_all (assignment_ok survey) as \<and>
    distinct (map ta_id as) \<and> set (map ta_id as) \<inter> set claimed = {}"
  using assms
proof (induction ks arbitrary: claimed)
  case (Cons k ks)
  obtain a where a: "resolve k survey claimed = Ok a" "ta_kind a = k" "assignment_ok survey a" "ta_id a \<notin> set claimed"
    using resolve_ok [of survey claimed k] Cons.prems by auto
  have "length (bset_insert (ta_id a) claimed) \<le> Suc (length claimed)" by (rule length_bset_insert)
  then obtain as where "plan_loop survey (bset_insert (ta_id a) claimed) ks = Ok as" "map ta_kind as = ks"
    "list_all (assignment_ok survey) as" "distinct (map ta_id as)"
    "set (map ta_id as) \<inter> set (bset_insert (ta_id a) claimed) = {}"
    using Cons.IH [of "bset_insert (ta_id a) claimed"] Cons.prems by auto
  with a show ?case by auto
qed simp

section \<open>Restarting\<close>

lemma resolve_reclaims:
  assumes "sv_persisted survey = Some pt" and "reclaimable k survey claimed pt"
  shows "resolve k survey claimed = Ok \<lparr>ta_kind = k, ta_id = for_kind pt k, ta_provenance = Persisted\<rparr>"
  using assms by (simp add: resolve_def)

lemma plan_loop_reclaims:
  assumes "sv_persisted survey = Some pt" and "distinct (map (for_kind pt) ks)"
    and "\<And>k. k \<in> set ks \<Longrightarrow> reclaimable k survey [] pt"
    and "set claimed \<inter> for_kind pt ` set ks = {}"
  shows "plan_loop survey claimed ks =
    Ok (map (\<lambda>k. \<lparr>ta_kind = k, ta_id = for_kind pt k, ta_provenance = Persisted\<rparr>) ks)"
  using assms
proof (induction ks arbitrary: claimed)
  case (Cons k ks)
  have "reclaimable k survey claimed pt"
    using Cons.prems(3) [of k] Cons.prems(4) by (auto simp: reclaimable_def Let_def)
  with Cons show ?case by (auto simp: resolve_reclaims)
qed simp

section \<open>Properties\<close>

text \<open>
  C36. The plan never owns foreign state: for any host survey with fewer than four billion
  entries planning succeeds, giving one id per lane, all three distinct, none in the kernel's
  range, none under another manager's name, and none in use unless the daemon's own record
  says so and the entries or the name prove it.
\<close>

theorem plan_tables_claims_nothing_foreign:
  assumes "survey_ok survey" and "length (named survey) + length (occupied survey) < 3999999997"
  shows "\<exists>plan. plan_tables survey = Ok plan \<and> map ta_kind (assignments plan) = ALL_KINDS \<and>
    distinct (map ta_id (assignments plan)) \<and>
    list_all (\<lambda>a. 255 < ta_id a \<and> ta_id a < 2 ^ 32 \<and>
      btree_get (named survey) (ta_id a) \<in> {None, Some (canonical_name (ta_kind a))} \<and>
      (ta_id a \<notin> set (occupied survey) \<or> ta_provenance a = Persisted \<and>
        (ta_id a \<in> set (occupied_by_us survey) \<or>
         btree_get (named survey) (ta_id a) = Some (canonical_name (ta_kind a))))) (assignments plan)"
proof -
  have "length (named survey) + length (occupied survey) + length ([] :: u32 list) + length ALL_KINDS \<le> 4000000000"
    using assms(2) by (simp add: ALL_KINDS_def)
  from plan_loop_ok [OF assms(1) this] obtain as where as: "plan_loop survey [] ALL_KINDS = Ok as"
    "map ta_kind as = ALL_KINDS" "list_all (assignment_ok survey) as" "distinct (map ta_id as)"
    by auto
  have "assignment_ok survey a \<Longrightarrow> 255 < ta_id a \<and> ta_id a < 2 ^ 32 \<and>
      btree_get (named survey) (ta_id a) \<in> {None, Some (canonical_name (ta_kind a))} \<and>
      (ta_id a \<notin> set (occupied survey) \<or> ta_provenance a = Persisted \<and>
        (ta_id a \<in> set (occupied_by_us survey) \<or>
         btree_get (named survey) (ta_id a) = Some (canonical_name (ta_kind a))))" for a
    by (cases "btree_get (named survey) (ta_id a)")
      (auto simp: assignment_ok_def KERNEL_RESERVED_MAX_def u32_max_def)
  with as show ?thesis by (auto simp: plan_tables_def list_all_iff)
qed

definition demo_survey :: TableSurvey where
  "demo_survey = \<lparr>named = [(51821, ''wg-quick'')], occupied = [254, 51820], occupied_by_us = [51820],
     sv_persisted = Some \<lparr>pt_main = 51820, pt_bypass = 51821, pt_lan = 51822\<rparr>\<rparr>"

definition demo_plan :: TablePlan where
  "demo_plan = \<lparr>assignments =
     [\<lparr>ta_kind = MainTable, ta_id = 51820, ta_provenance = Persisted\<rparr>,
      \<lparr>ta_kind = BypassTable, ta_id = 51823, ta_provenance = Allocated\<rparr>,
      \<lparr>ta_kind = LanTable, ta_id = 51822, ta_provenance = Persisted\<rparr>]\<rparr>"

lemma demo_plan_tables: "plan_tables demo_survey = Ok demo_plan"
  by (simp add: plan_tables_def demo_survey_def demo_plan_def ALL_KINDS_def resolve_def reclaimable_def
      resolve_fresh_def next_free.simps free_id_def claimable_def btree_get_def KERNEL_RESERVED_MAX_def
      u32_max_def Let_def)

theorem plan_tables_claims_nothing_foreign_witness:
  "\<exists>plan. plan_tables demo_survey = Ok plan \<and> distinct (map ta_id (assignments plan)) \<and>
     map ta_id (assignments plan) = [51820, 51823, 51822]"
proof -
  have "survey_ok demo_survey" "length (named demo_survey) + length (occupied demo_survey) < 3999999997"
    by (simp_all add: survey_ok_def demo_survey_def ALL_KINDS_def u32_max_def)
  from plan_tables_claims_nothing_foreign [OF this] show ?thesis
    by (auto simp: demo_plan_tables) (simp add: demo_plan_def)
qed

text \<open>
  A restart keeps its tables: when the record holds what the last plan assigned, no other
  manager has named those ids since, and whatever uses them carries the daemon's own shapes,
  planning gives every lane the id it had, as persisted. So stale state after a crash stays
  inside the ids that cleanup may touch.
\<close>

theorem plan_tables_restart:
  assumes "plan_tables survey = Ok plan" and "survey_ok survey"
    and "length (named survey) + length (occupied survey) < 3999999997"
    and "sv_persisted survey' = Some pt" and "\<forall>a\<in>set (assignments plan). for_kind pt (ta_kind a) = ta_id a"
    and "\<forall>a\<in>set (assignments plan). btree_get (named survey') (ta_id a) \<in> {None, Some (canonical_name (ta_kind a))} \<and>
      (ta_id a \<in> set (occupied survey') \<longrightarrow> ta_id a \<in> set (occupied_by_us survey'))"
  shows "plan_tables survey' = Ok \<lparr>assignments = map (\<lambda>a. a\<lparr>ta_provenance := Persisted\<rparr>) (assignments plan)\<rparr>"
proof -
  have "length (named survey) + length (occupied survey) + length ([] :: u32 list) + length ALL_KINDS \<le> 4000000000"
    using assms(3) by (simp add: ALL_KINDS_def)
  from plan_loop_ok [OF assms(2) this] assms(1)
  have p: "map ta_kind (assignments plan) = ALL_KINDS" "list_all (assignment_ok survey) (assignments plan)"
    "distinct (map ta_id (assignments plan))"
    by (auto simp: plan_tables_def)
  have ids: "map (for_kind pt) ALL_KINDS = map ta_id (assignments plan)"
    using assms(5) by (simp flip: p(1))
  then have inj: "inj_on (for_kind pt) (set ALL_KINDS)" using p(3) by (metis distinct_map)
  have r: "reclaimable k survey' [] pt" for k
  proof -
    have "k \<in> set (map ta_kind (assignments plan))" by (simp add: p(1))
    then obtain a where a: "a \<in> set (assignments plan)" "ta_kind a = k" by auto
    then have i: "for_kind pt k = ta_id a" using assms(5) by auto
    have "for_kind pt other = ta_id a \<Longrightarrow> other = k" for other
      using inj_onD [OF inj, of other k] i by simp
    moreover have "KERNEL_RESERVED_MAX < ta_id a"
      using a p(2) by (auto simp: list_all_iff assignment_ok_def)
    moreover have "btree_get (named survey') (ta_id a) \<in> {None, Some (canonical_name k)}"
      "ta_id a \<in> set (occupied survey') \<longrightarrow> ta_id a \<in> set (occupied_by_us survey')"
      using a assms(6) by auto
    ultimately show ?thesis by (auto simp: reclaimable_def i Let_def list_ex_iff)
  qed
  have "distinct (map (for_kind pt) ALL_KINDS)" using ids p(3) by simp
  from plan_loop_reclaims [OF assms(4) this] r
  have "plan_loop survey' [] ALL_KINDS =
      Ok (map (\<lambda>k. \<lparr>ta_kind = k, ta_id = for_kind pt k, ta_provenance = Persisted\<rparr>) ALL_KINDS)" by simp
  also have "map (\<lambda>k. \<lparr>ta_kind = k, ta_id = for_kind pt k, ta_provenance = Persisted\<rparr>) ALL_KINDS =
      map (\<lambda>a. a\<lparr>ta_provenance := Persisted\<rparr>) (assignments plan)"
    using assms(5) by (simp flip: p(1))
  finally show ?thesis by (simp add: plan_tables_def)
qed

theorem plan_tables_restart_witness:
  "plan_tables (demo_survey\<lparr>occupied := [51823], occupied_by_us := [51823],
     sv_persisted := Some \<lparr>pt_main = 51820, pt_bypass = 51823, pt_lan = 51822\<rparr>\<rparr>) =
   Ok \<lparr>assignments = map (\<lambda>a. a\<lparr>ta_provenance := Persisted\<rparr>) (assignments demo_plan)\<rparr>"
  by (rule plan_tables_restart [OF demo_plan_tables, where pt = "\<lparr>pt_main = 51820, pt_bypass = 51823, pt_lan = 51822\<rparr>"])
    (simp_all add: survey_ok_def demo_survey_def demo_plan_def ALL_KINDS_def u32_max_def btree_get_def)

end
