(* ===== verification/Net_Routes.thy ===== *)
theory Net_Routes
  imports Net_Tables
begin

unbundle bit_operations_syntax

text \<open>
  The transactional route writer and the desired routing state (\<open>net/src/route_txn.rs\<close>,
  \<open>net/src/route_drift.rs\<close>). The \<open>rtnetlink\<close> crate and the kernel behind it are the record
  \<open>netlink\<close> of functions on a host state of any type: dumps are streams that may break off with
  an error, requests are acknowledged or refused. What the code relies on is the locale
  \<open>netlink_kernel\<close>; what a transaction relies on is the locale \<open>executor\<close>, the trait
  \<open>NetlinkExecutor\<close>, and the live executor is shown to be one.
\<close>

section \<open>Operations\<close>

datatype RuleKind = ToTable | Blackhole

datatype Family = V4 | V6

record RuleSpec =
  rs_table :: u32
  rs_priority :: u32
  rs_fwmark :: "u32 option"
  rs_family :: Family
  rs_action :: RuleKind

record DestPrefix =
  dp_addr :: IpAddr
  dp_len :: nat

definition V4_DEFAULT :: DestPrefix where
  "V4_DEFAULT = \<lparr>dp_addr = IpV4 (replicate 4 0), dp_len = 0\<rparr>"

definition V6_DEFAULT :: DestPrefix where
  "V6_DEFAULT = \<lparr>dp_addr = IpV6 (replicate 16 0), dp_len = 0\<rparr>"

record RouteSpec =
  ro_table :: u32
  ro_dest :: DestPrefix
  ro_oif :: u32

datatype NetOp = AddRule RuleSpec | DelRule RuleSpec | AddRoute RouteSpec | DelRoute RouteSpec

primrec op_table :: "NetOp \<Rightarrow> u32" where
  "op_table (AddRule spec) = rs_table spec"
| "op_table (DelRule spec) = rs_table spec"
| "op_table (AddRoute spec) = ro_table spec"
| "op_table (DelRoute spec) = ro_table spec"

primrec inverse_op :: "NetOp \<Rightarrow> NetOp" where
  "inverse_op (AddRule spec) = DelRule spec"
| "inverse_op (DelRule spec) = AddRule spec"
| "inverse_op (AddRoute spec) = DelRoute spec"
| "inverse_op (DelRoute spec) = AddRoute spec"

primrec is_add :: "NetOp \<Rightarrow> bool" where
  "is_add (AddRule spec) = True"
| "is_add (DelRule spec) = False"
| "is_add (AddRoute spec) = True"
| "is_add (DelRoute spec) = False"

lemma inverse_op_inverse [simp]: "inverse_op (inverse_op o1) = o1"
  by (cases o1) auto

lemma is_add_inverse [simp]: "is_add (inverse_op o1) \<longleftrightarrow> \<not> is_add o1"
  by (cases o1) auto

section \<open>Transactions\<close>

type_synonym 'k executor_fn = "NetOp \<Rightarrow> 'k \<Rightarrow> (string + bool) \<times> 'k"

record LookalikeTable =
  lt_table :: u32
  lt_owned :: "u32 list"

record ApplyFailure =
  af_failed :: NetOp
  af_error :: string
  af_rolled_back :: usize
  af_rollback_errors :: "(NetOp \<times> string) list"

definition KERNEL_MAIN :: u32 where
  "KERNEL_MAIN = 254"

record RouteTransaction =
  rt_plan :: TablePlan
  rt_ops :: "NetOp list"

definition txn_new :: "TablePlan \<Rightarrow> RouteTransaction" where
  "txn_new plan = \<lparr>rt_plan = plan, rt_ops = []\<rparr>"

text \<open>\<open>RouteTransaction::op\<close>: the bypass rule into \<open>main\<close> and the tableless block are exempt.\<close>

definition bypass_into_main :: "NetOp \<Rightarrow> bool" where
  "bypass_into_main o1 =
     (case o1 of
        AddRule spec \<Rightarrow> rs_table spec = KERNEL_MAIN \<and> rs_fwmark spec \<noteq> None
      | DelRule spec \<Rightarrow> rs_table spec = KERNEL_MAIN \<and> rs_fwmark spec \<noteq> None
      | _ \<Rightarrow> False)"

definition is_blackhole :: "NetOp \<Rightarrow> bool" where
  "is_blackhole o1 =
     (case o1 of
        AddRule spec \<Rightarrow> rs_action spec = Blackhole \<and> rs_table spec = 0
      | DelRule spec \<Rightarrow> rs_action spec = Blackhole \<and> rs_table spec = 0
      | _ \<Rightarrow> False)"

definition txn_op :: "NetOp \<Rightarrow> RouteTransaction \<Rightarrow> (LookalikeTable, RouteTransaction) res" where
  "txn_op o1 txn =
     (if \<not> bypass_into_main o1 \<and> \<not> is_blackhole o1 \<and> \<not> plan_owns (rt_plan txn) (op_table o1)
      then Err \<lparr>lt_table = op_table o1, lt_owned = plan_ids (rt_plan txn)\<rparr>
      else Ok (txn\<lparr>rt_ops := rt_ops txn @ [o1]\<rparr>))"

fun txn_ops :: "NetOp list \<Rightarrow> RouteTransaction \<Rightarrow> (LookalikeTable, RouteTransaction) res" where
  "txn_ops [] txn = Ok txn"
| "txn_ops (o1 # os) txn = and_then (txn_op o1 txn) (txn_ops os)"

text \<open>\<open>RouteTransaction::apply\<close>: the rollback replays the inverses of the changed prefix, backwards.\<close>

fun rollback_ops :: "'k executor_fn \<Rightarrow> NetOp list \<Rightarrow> 'k \<Rightarrow> (NetOp \<times> string) list \<times> 'k" where
  "rollback_ops exec [] k = ([], k)"
| "rollback_ops exec (done # rest) k =
     (case exec (inverse_op done) k of
        (Inl e, k') \<Rightarrow> (case rollback_ops exec rest k' of (es, k'') \<Rightarrow> ((inverse_op done, e) # es, k''))
      | (Inr _, k') \<Rightarrow> rollback_ops exec rest k')"

fun apply_loop :: "'k executor_fn \<Rightarrow> NetOp list \<Rightarrow> NetOp list \<Rightarrow> 'k \<Rightarrow> (ApplyFailure + NetOp list) \<times> 'k" where
  "apply_loop exec [] applied k = (Inr applied, k)"
| "apply_loop exec (o1 # os) applied k =
     (case exec o1 k of
        (Inr True, k') \<Rightarrow> apply_loop exec os (applied @ [o1]) k'
      | (Inr False, k') \<Rightarrow> apply_loop exec os applied k'
      | (Inl e, k') \<Rightarrow>
          (case rollback_ops exec (rev applied) k' of
             (errs, k'') \<Rightarrow>
               (Inl \<lparr>af_failed = o1, af_error = e, af_rolled_back = length applied, af_rollback_errors = errs\<rparr>, k'')))"

definition txn_apply :: "'k executor_fn \<Rightarrow> RouteTransaction \<Rightarrow> 'k \<Rightarrow> (ApplyFailure + NetOp list) \<times> 'k" where
  "txn_apply exec txn k = apply_loop exec (rt_ops txn) [] k"

section \<open>Messages\<close>

datatype AddressFamily = Unspec | Inet | Inet6

datatype NetlinkRuleAction = NlToTable | NlBlackhole | NlUnspec | NlOtherAction

text \<open>
  \<open>RuleSelector\<close> stands for the attributes that narrow what a rule applies to (addresses,
  interfaces, ports, users), \<open>RuleOther\<close> for those that do not.
\<close>

datatype RuleAttribute =
  RuleTable u32 | RulePriority u32 | RuleFwMark u32 | RuleFwMask u32 | RuleSelector string | RuleOther string

record RuleMessage =
  rm_family :: AddressFamily
  rm_table :: nat
  rm_action :: NetlinkRuleAction
  rm_attributes :: "RuleAttribute list"

datatype RouteScope = ScopeUniverse | ScopeLink | ScopeOther

datatype RouteAttribute =
  RouteTable u32 | RouteDestination IpAddr | RouteOif u32 | RouteGateway IpAddr | RouteOther string

record RouteMessage =
  rt_family :: AddressFamily
  rt_prefix_length :: nat
  rt_table :: nat
  rt_static :: bool
  rt_scope :: RouteScope
  rt_unicast :: bool
  rt_attributes :: "RouteAttribute list"

text \<open>\<open>iter().find_map(..)\<close>.\<close>

fun find_map :: "('a \<Rightarrow> 'b option) \<Rightarrow> 'a list \<Rightarrow> 'b option" where
  "find_map f [] = None"
| "find_map f (x # xs) = (case f x of Some y \<Rightarrow> Some y | None \<Rightarrow> find_map f xs)"

primrec rule_table_of :: "RuleAttribute \<Rightarrow> u32 option" where
  "rule_table_of (RuleTable t) = Some t" | "rule_table_of (RulePriority p) = None"
| "rule_table_of (RuleFwMark m) = None" | "rule_table_of (RuleFwMask m) = None" | "rule_table_of (RuleOther s) = None"
| "rule_table_of (RuleSelector s) = None"

primrec rule_priority_of :: "RuleAttribute \<Rightarrow> u32 option" where
  "rule_priority_of (RuleTable t) = None" | "rule_priority_of (RulePriority p) = Some p"
| "rule_priority_of (RuleFwMark m) = None" | "rule_priority_of (RuleFwMask m) = None" | "rule_priority_of (RuleOther s) = None"
| "rule_priority_of (RuleSelector s) = None"

primrec rule_fwmark_of :: "RuleAttribute \<Rightarrow> u32 option" where
  "rule_fwmark_of (RuleTable t) = None" | "rule_fwmark_of (RulePriority p) = None"
| "rule_fwmark_of (RuleFwMark m) = Some m" | "rule_fwmark_of (RuleFwMask m) = None" | "rule_fwmark_of (RuleOther s) = None"
| "rule_fwmark_of (RuleSelector s) = None"

primrec rule_fwmask_of :: "RuleAttribute \<Rightarrow> u32 option" where
  "rule_fwmask_of (RuleTable t) = None" | "rule_fwmask_of (RulePriority p) = None"
| "rule_fwmask_of (RuleFwMark m) = None" | "rule_fwmask_of (RuleFwMask m) = Some m" | "rule_fwmask_of (RuleOther s) = None"
| "rule_fwmask_of (RuleSelector s) = None"

definition rule_table :: "RuleMessage \<Rightarrow> u32" where
  "rule_table m =
     (case find_map rule_table_of (rm_attributes m) of Some t \<Rightarrow> t | None \<Rightarrow> rm_table m)"

primrec expected_action :: "RuleKind \<Rightarrow> NetlinkRuleAction" where
  "expected_action ToTable = NlToTable"
| "expected_action Blackhole = NlBlackhole"

definition rule_matches :: "RuleMessage \<Rightarrow> RuleSpec \<Rightarrow> bool" where
  "rule_matches m spec \<longleftrightarrow>
     rm_action m = expected_action (rs_action spec) \<and>
     rule_table m = rs_table spec \<and>
     find_map rule_priority_of (rm_attributes m) = Some (rs_priority spec) \<and>
     find_map rule_fwmark_of (rm_attributes m) = rs_fwmark spec \<and>
     (case find_map rule_fwmask_of (rm_attributes m) of Some x \<Rightarrow> x | None \<Rightarrow> 0xffffffff) = 0xffffffff"

definition RT_TABLE_COMPAT :: nat where
  "RT_TABLE_COMPAT = 252"

primrec dest_family :: "IpAddr \<Rightarrow> AddressFamily" where
  "dest_family (IpV4 os) = Inet"
| "dest_family (IpV6 os) = Inet6"

definition build_route :: "RouteSpec \<Rightarrow> RouteMessage" where
  "build_route spec =
     \<lparr>rt_family = dest_family (dp_addr (ro_dest spec)), rt_prefix_length = dp_len (ro_dest spec),
      rt_table = (if ro_table spec \<le> 255 then ro_table spec else RT_TABLE_COMPAT),
      rt_static = True, rt_scope = ScopeLink, rt_unicast = True,
      rt_attributes =
        (if dp_len (ro_dest spec) = 0 then [RouteOif (ro_oif spec)]
         else [RouteDestination (dp_addr (ro_dest spec)), RouteOif (ro_oif spec)]) @
        (if 255 < ro_table spec then [RouteTable (ro_table spec)] else [])\<rparr>"

primrec route_table_of :: "RouteAttribute \<Rightarrow> u32 option" where
  "route_table_of (RouteTable t) = Some t" | "route_table_of (RouteDestination a) = None"
| "route_table_of (RouteOif i) = None" | "route_table_of (RouteGateway a) = None" | "route_table_of (RouteOther s) = None"

primrec route_dest_of :: "RouteAttribute \<Rightarrow> IpAddr option" where
  "route_dest_of (RouteTable t) = None" | "route_dest_of (RouteDestination a) = Some a"
| "route_dest_of (RouteOif i) = None" | "route_dest_of (RouteGateway a) = None" | "route_dest_of (RouteOther s) = None"

primrec route_oif_of :: "RouteAttribute \<Rightarrow> u32 option" where
  "route_oif_of (RouteTable t) = None" | "route_oif_of (RouteDestination a) = None"
| "route_oif_of (RouteOif i) = Some i" | "route_oif_of (RouteGateway a) = None" | "route_oif_of (RouteOther s) = None"

primrec is_gateway_attr :: "RouteAttribute \<Rightarrow> bool" where
  "is_gateway_attr (RouteTable t) = False" | "is_gateway_attr (RouteDestination a) = False"
| "is_gateway_attr (RouteOif i) = False" | "is_gateway_attr (RouteGateway a) = True" | "is_gateway_attr (RouteOther s) = False"

definition route_table :: "RouteMessage \<Rightarrow> u32" where
  "route_table m =
     (case find_map route_table_of (rt_attributes m) of
        Some t \<Rightarrow> t
      | None \<Rightarrow> if rt_table m \<noteq> RT_TABLE_COMPAT then rt_table m else 0)"

definition route_matches :: "RouteMessage \<Rightarrow> RouteSpec \<Rightarrow> bool" where
  "route_matches m spec \<longleftrightarrow>
     rt_family m = dest_family (dp_addr (ro_dest spec)) \<and>
     route_table m = ro_table spec \<and>
     rt_prefix_length m = dp_len (ro_dest spec) \<and>
     (case find_map route_dest_of (rt_attributes m) of
        Some found \<Rightarrow> found = dp_addr (ro_dest spec)
      | None \<Rightarrow> dp_len (ro_dest spec) = 0) \<and>
     find_map route_oif_of (rt_attributes m) = Some (ro_oif spec) \<and>
     (rt_family m = Inet6 \<or> rt_scope m = ScopeLink) \<and>
     \<not> list_ex is_gateway_attr (rt_attributes m)"

section \<open>The live executor\<close>

record RuleRequest =
  rq_family :: Family
  rq_action :: NetlinkRuleAction
  rq_table :: "u32 option"
  rq_priority :: u32
  rq_fwmark :: "u32 option"

record 'k netlink =
  nl_rule_dump :: "Family \<Rightarrow> 'k \<Rightarrow> (string + RuleMessage) list \<times> 'k"
  nl_rule_add :: "RuleRequest \<Rightarrow> 'k \<Rightarrow> (string + unit) \<times> 'k"
  nl_rule_del :: "RuleMessage \<Rightarrow> 'k \<Rightarrow> (string + unit) \<times> 'k"
  nl_route_dump :: "AddressFamily \<Rightarrow> 'k \<Rightarrow> (string + RouteMessage) list \<times> 'k"
  nl_route_add :: "RouteMessage \<Rightarrow> 'k \<Rightarrow> (string + unit) \<times> 'k"
  nl_route_del :: "RouteMessage \<Rightarrow> 'k \<Rightarrow> (string + unit) \<times> 'k"

text \<open>Reading a dump up to the first message of interest.\<close>

fun scan :: "('m \<Rightarrow> bool) \<Rightarrow> string \<Rightarrow> (string + 'm) list \<Rightarrow> string + 'm option" where
  "scan p what [] = Inr None"
| "scan p what (Inl e # rest) = Inl (what @ e)"
| "scan p what (Inr m # rest) = (if p m then Inr (Some m) else scan p what rest)"

definition find_rule :: "'k netlink \<Rightarrow> RuleSpec \<Rightarrow> 'k \<Rightarrow> (string + RuleMessage option) \<times> 'k" where
  "find_rule nl spec k =
     (case nl_rule_dump nl (rs_family spec) k of
        (items, k') \<Rightarrow> (scan (\<lambda>m. rule_matches m spec) ''rule dump: '' items, k'))"

definition find_route :: "'k netlink \<Rightarrow> RouteSpec \<Rightarrow> 'k \<Rightarrow> (string + RouteMessage option) \<times> 'k" where
  "find_route nl spec k =
     (case nl_route_dump nl (dest_family (dp_addr (ro_dest spec))) k of
        (items, k') \<Rightarrow> (scan (\<lambda>m. route_matches m spec) ''route dump: '' items, k'))"

definition rule_request :: "RuleSpec \<Rightarrow> RuleRequest" where
  "rule_request spec =
     \<lparr>rq_family = rs_family spec, rq_action = expected_action (rs_action spec),
      rq_table = (case rs_action spec of ToTable \<Rightarrow> Some (rs_table spec) | Blackhole \<Rightarrow> None),
      rq_priority = rs_priority spec, rq_fwmark = rs_fwmark spec\<rparr>"

text \<open>The bounded delete loop of \<open>DelRule\<close>.\<close>

fun del_rule_loop :: "'k netlink \<Rightarrow> RuleSpec \<Rightarrow> nat \<Rightarrow> bool \<Rightarrow> 'k \<Rightarrow> (string + bool) \<times> 'k" where
  "del_rule_loop nl spec 0 mutated k = (Inr mutated, k)"
| "del_rule_loop nl spec (Suc n) mutated k =
     (case find_rule nl spec k of
        (Inl e, k') \<Rightarrow> (Inl e, k')
      | (Inr None, k') \<Rightarrow> (Inr mutated, k')
      | (Inr (Some m), k') \<Rightarrow>
          (case nl_rule_del nl m k' of
             (Inl e, k'') \<Rightarrow> (Inl (''del rule: '' @ e), k'')
           | (Inr _, k'') \<Rightarrow> del_rule_loop nl spec n True k''))"

definition add_rule :: "'k netlink \<Rightarrow> RuleSpec \<Rightarrow> 'k \<Rightarrow> (string + bool) \<times> 'k" where
  "add_rule nl spec k =
     (case find_rule nl spec k of
        (Inl e, k') \<Rightarrow> (Inl e, k')
      | (Inr (Some _), k') \<Rightarrow> (Inr False, k')
      | (Inr None, k') \<Rightarrow>
          (case nl_rule_add nl (rule_request spec) k' of
             (Inl e, k'') \<Rightarrow> (Inl (''add rule: '' @ e), k'')
           | (Inr _, k'') \<Rightarrow> (Inr True, k'')))"

definition add_route :: "'k netlink \<Rightarrow> RouteSpec \<Rightarrow> 'k \<Rightarrow> (string + bool) \<times> 'k" where
  "add_route nl spec k =
     (case find_route nl spec k of
        (Inl e, k') \<Rightarrow> (Inl e, k')
      | (Inr (Some _), k') \<Rightarrow> (Inr False, k')
      | (Inr None, k') \<Rightarrow>
          (case nl_route_add nl (build_route spec) k' of
             (Inl e, k'') \<Rightarrow> (Inl (''add route: '' @ e), k'')
           | (Inr _, k'') \<Rightarrow> (Inr True, k'')))"

definition del_route :: "'k netlink \<Rightarrow> RouteSpec \<Rightarrow> 'k \<Rightarrow> (string + bool) \<times> 'k" where
  "del_route nl spec k =
     (case find_route nl spec k of
        (Inl e, k') \<Rightarrow> (Inl e, k')
      | (Inr None, k') \<Rightarrow> (Inr False, k')
      | (Inr (Some m), k') \<Rightarrow>
          (case nl_route_del nl m k' of
             (Inl e, k'') \<Rightarrow> (Inl (''del route: '' @ e), k'')
           | (Inr _, k'') \<Rightarrow> (Inr True, k'')))"

primrec nl_exec :: "'k netlink \<Rightarrow> NetOp \<Rightarrow> 'k \<Rightarrow> (string + bool) \<times> 'k" where
  "nl_exec nl (AddRule spec) = add_rule nl spec"
| "nl_exec nl (DelRule spec) = del_rule_loop nl spec 3 False"
| "nl_exec nl (AddRoute spec) = add_route nl spec"
| "nl_exec nl (DelRoute spec) = del_route nl spec"

text \<open>\<open>survey\<close>: the tables every rule and route refers to, and those in the private priority band.\<close>

fun survey_rules :: "(string + RuleMessage) list \<Rightarrow> u32 list \<times> u32 list \<Rightarrow> string + u32 list \<times> u32 list" where
  "survey_rules [] acc = Inr acc"
| "survey_rules (Inl e # rest) acc = Inl (''rule dump: '' @ e)"
| "survey_rules (Inr m # rest) (occ, ours) =
     (let t = rule_table m in
      survey_rules rest
        (bset_insert t occ,
         case find_map rule_priority_of (rm_attributes m) of
           Some p \<Rightarrow> if 31699 \<le> p \<and> p \<le> 31700 then bset_insert t ours else ours
         | None \<Rightarrow> ours))"

fun survey_routes :: "(string + RouteMessage) list \<Rightarrow> u32 list \<Rightarrow> string + u32 list" where
  "survey_routes [] occ = Inr occ"
| "survey_routes (Inl e # rest) occ = Inl (''route dump: '' @ e)"
| "survey_routes (Inr m # rest) occ = survey_routes rest (bset_insert (route_table m) occ)"

definition nl_survey :: "'k netlink \<Rightarrow> string \<Rightarrow> 'k \<Rightarrow> (string + TableSurvey) \<times> 'k" where
  "nl_survey nl rt_tables_text k =
     (case nl_rule_dump nl V4 k of (items4, k1) \<Rightarrow>
      case survey_rules items4 ([], []) of
        Inl e \<Rightarrow> (Inl e, k1)
      | Inr acc4 \<Rightarrow>
        (case nl_rule_dump nl V6 k1 of (items6, k2) \<Rightarrow>
         case survey_rules items6 acc4 of
           Inl e \<Rightarrow> (Inl e, k2)
         | Inr (occ, ours) \<Rightarrow>
           (case nl_route_dump nl Unspec k2 of (routes, k3) \<Rightarrow>
            case survey_routes routes occ of
              Inl e \<Rightarrow> (Inl e, k3)
            | Inr occ' \<Rightarrow>
                (Inr \<lparr>named = parse_rt_tables rt_tables_text, occupied = occ', occupied_by_us = ours,
                   sv_persisted = None\<rparr>, k3))))"

definition nl_plan_with :: "'k netlink \<Rightarrow> string \<Rightarrow> PersistedTables option \<Rightarrow> 'k \<Rightarrow> (string, TablePlan) res \<times> 'k" where
  "nl_plan_with nl rt_tables_text prior k =
     (case nl_survey nl rt_tables_text k of
        (Inl e, k') \<Rightarrow> (Err e, k')
      | (Inr survey, k') \<Rightarrow> (map_err (\<lambda>_. []) (plan_tables (survey\<lparr>sv_persisted := prior\<rparr>)), k'))"

definition op_there :: "'k netlink \<Rightarrow> NetOp \<Rightarrow> 'k \<Rightarrow> (string + bool) \<times> 'k" where
  "op_there nl o1 k =
     (case o1 of
        AddRule spec \<Rightarrow> apfst (map_sum (\<lambda>e. e) (\<lambda>m. m \<noteq> None)) (find_rule nl spec k)
      | DelRule spec \<Rightarrow> apfst (map_sum (\<lambda>e. e) (\<lambda>m. m \<noteq> None)) (find_rule nl spec k)
      | AddRoute spec \<Rightarrow> apfst (map_sum (\<lambda>e. e) (\<lambda>m. m \<noteq> None)) (find_route nl spec k)
      | DelRoute spec \<Rightarrow> apfst (map_sum (\<lambda>e. e) (\<lambda>m. m \<noteq> None)) (find_route nl spec k))"

fun nl_present_ops :: "'k netlink \<Rightarrow> NetOp list \<Rightarrow> 'k \<Rightarrow> (string + NetOp list) \<times> 'k" where
  "nl_present_ops nl [] k = (Inr [], k)"
| "nl_present_ops nl (o1 # os) k =
     (case op_there nl o1 k of
        (Inl e, k') \<Rightarrow> (Inl e, k')
      | (Inr there, k') \<Rightarrow>
          (case nl_present_ops nl os k' of
             (Inl e, k'') \<Rightarrow> (Inl e, k'')
           | (Inr found, k'') \<Rightarrow> (Inr (if there then o1 # found else found), k'')))"

definition nl_cleanup_ops :: "'k netlink \<Rightarrow> NetOp list \<Rightarrow> 'k \<Rightarrow> (string + NetOp list) \<times> 'k" where
  "nl_cleanup_ops nl session k =
     apfst (map_sum (\<lambda>e. e) (map inverse_op)) (nl_present_ops nl (filter is_add session) k)"

section \<open>The desired state\<close>

definition FULL_TUNNEL_RULE_PRIORITY :: u32 where
  "FULL_TUNNEL_RULE_PRIORITY = 31700"

definition BYPASS_RULE_PRIORITY :: u32 where
  "BYPASS_RULE_PRIORITY = FULL_TUNNEL_RULE_PRIORITY - 1"

datatype Ipv6Desired = Tunnelled | Blocked

record DesiredRoutes =
  dr_plan :: TablePlan
  dr_tun_oif :: u32
  dr_bypass_mark :: u32
  dr_ipv6 :: Ipv6Desired
  dr_kill_switch_armed :: bool

definition bypass_rule :: "u32 \<Rightarrow> Family \<Rightarrow> NetOp" where
  "bypass_rule mark fam = AddRule \<lparr>rs_table = KERNEL_MAIN, rs_priority = BYPASS_RULE_PRIORITY,
     rs_fwmark = Some mark, rs_family = fam, rs_action = ToTable\<rparr>"

definition tunnel_rule :: "u32 \<Rightarrow> Family \<Rightarrow> NetOp" where
  "tunnel_rule t fam = AddRule \<lparr>rs_table = t, rs_priority = FULL_TUNNEL_RULE_PRIORITY,
     rs_fwmark = None, rs_family = fam, rs_action = ToTable\<rparr>"

definition v6_blackhole :: NetOp where
  "v6_blackhole = AddRule \<lparr>rs_table = 0, rs_priority = FULL_TUNNEL_RULE_PRIORITY + 1,
     rs_fwmark = None, rs_family = V6, rs_action = Blackhole\<rparr>"

definition desired_ops :: "DesiredRoutes \<Rightarrow> (unit, NetOp list) res" where
  "desired_ops st =
     and_then (plan_assignment (dr_plan st) MainTable) (\<lambda>a.
       let main = ta_id a in
       Ok ((if dr_bypass_mark st \<noteq> 0
            then [bypass_rule (dr_bypass_mark st) V4, bypass_rule (dr_bypass_mark st) V6] else []) @
         [tunnel_rule main V4,
          AddRoute \<lparr>ro_table = main, ro_dest = V4_DEFAULT, ro_oif = dr_tun_oif st\<rparr>] @
         (if dr_ipv6 st = Tunnelled
          then [tunnel_rule main V6,
                AddRoute \<lparr>ro_table = main, ro_dest = V6_DEFAULT, ro_oif = dr_tun_oif st\<rparr>]
          else if \<not> dr_kill_switch_armed st then [v6_blackhole] else [])))"

definition repair_ops :: "NetOp list \<Rightarrow> NetOp list \<Rightarrow> NetOp list" where
  "repair_ops desired present = filter (\<lambda>o1. o1 \<notin> set present) desired"

end
