(* ===== verification/Net_Txn.thy ===== *)
theory Net_Txn
  imports Net_Routes
begin

text \<open>
  What a route transaction guarantees. The locale \<open>executor\<close> is the contract the trait
  \<open>NetlinkExecutor\<close> documents, over the multiset of objects on the host; inside it
  \<open>RouteTransaction::apply\<close> is shown to be all or nothing up to the residue it names. The locale
  \<open>netlink_kernel\<close> is what the live executor relies on from the kernel; \<open>sublocale\<close> shows that
  the live executor then keeps the contract.
\<close>

lemma filter_mset_none: "filter_mset p m = {#} \<longleftrightarrow> (\<forall>x\<in>#m. \<not> p x)"
  by (induction m) auto

lemma list_all2_left: "list_all2 p xs ys \<Longrightarrow> y \<in> set ys \<Longrightarrow> \<exists>x\<in>set xs. p x y"
  by (induction rule: list_all2_induct) auto

lemma list_all2_right: "list_all2 p xs ys \<Longrightarrow> x \<in> set xs \<Longrightarrow> \<exists>y\<in>set ys. p x y"
  by (induction rule: list_all2_induct) auto

lemma subset_single:
  assumes "g \<subseteq># {#y#}"
  shows "g = {#} \<or> g = {#y#}"
proof (cases "size g = 0")
  case False
  then have "size g \<noteq> 0" by simp
  then have "size g = size {#y#}" using size_mset_mono [OF assms] by (simp only: size_single)
  then show ?thesis using mset_subset_size [of g "{#y#}"] assms by (auto simp: subset_mset_def)
qed simp

section \<open>The executor contract\<close>

locale executor =
  fixes exec :: "'k executor_fn"
    and host :: "'k \<Rightarrow> 'o multiset"
    and matches :: "'o \<Rightarrow> NetOp \<Rightarrow> bool"
    and valid :: "NetOp \<Rightarrow> bool"
    and plain :: "'o \<Rightarrow> bool"
  assumes add_refused: "valid o1 \<Longrightarrow> exec o1 k = (Inl e, k') \<Longrightarrow> host k' = host k"
    and add_present: "valid o1 \<Longrightarrow> exec o1 k = (Inr False, k') \<Longrightarrow> host k' = host k \<and> (\<exists>x\<in>#host k. matches x o1)"
    and add_changed: "valid o1 \<Longrightarrow> exec o1 k = (Inr True, k') \<Longrightarrow>
      \<not> (\<exists>x\<in>#host k. matches x o1) \<and> (\<exists>x. matches x o1 \<and> plain x \<and> host k' = add_mset x (host k))"
    and del_only: "valid o1 \<Longrightarrow> exec (inverse_op o1) k = (r, k') \<Longrightarrow>
      \<exists>gone. host k = host k' + gone \<and> (\<forall>x\<in>#gone. matches x o1)"
    and del_done: "valid o1 \<Longrightarrow> exec (inverse_op o1) k = (Inr c, k') \<Longrightarrow>
      size {#x \<in># host k. matches x o1#} \<le> 1 \<Longrightarrow> \<not> (\<exists>x\<in>#host k'. matches x o1)"
    and unique: "valid o1 \<Longrightarrow> valid o2 \<Longrightarrow> matches x o1 \<Longrightarrow> matches x o2 \<Longrightarrow> o1 = o2"
begin

text \<open>The objects a run of additions installed, one for each operation that changed the host.\<close>

definition installs :: "'o multiset \<Rightarrow> NetOp list \<Rightarrow> 'o list \<Rightarrow> bool" where
  "installs base applied xs \<longleftrightarrow>
     list_all2 matches xs applied \<and> list_all plain xs \<and> distinct applied \<and> list_all valid applied \<and>
     (\<forall>o1\<in>set applied. \<not> (\<exists>x\<in>#base. matches x o1))"

lemma installs_Nil [simp]: "installs base [] []"
  by (simp add: installs_def)

lemma installs_single:
  assumes "installs base applied xs" and "o1 \<in> set applied"
  shows "size {#x \<in># base + mset xs. matches x o1#} \<le> 1"
  using assms
proof (induction applied arbitrary: xs)
  case (Cons o2 os)
  obtain y ys where xs: "xs = y # ys" "matches y o2" "list_all2 matches ys os"
    using Cons.prems(1) by (auto simp: installs_def list_all2_Cons2)
  have i: "installs base os ys" using Cons.prems(1) xs by (auto simp: installs_def)
  have none: "{#x \<in># base. matches x o1#} = {#}" using Cons.prems by (auto simp: installs_def filter_mset_none)
  show ?case
  proof (cases "o1 = o2")
    case True
    have "\<not> matches x o1" if x: "x \<in> set ys" for x
    proof -
      obtain o3 where "o3 \<in> set os" "matches x o3" using x list_all2_right [OF xs(3)] by auto
      then show ?thesis using unique [of o1 o3 x] Cons.prems(1) True by (auto simp: installs_def list_all_iff)
    qed
    then have "filter_mset (\<lambda>x. matches x o1) (mset ys) = {#}" by (auto simp: filter_mset_none)
    with True none xs show ?thesis by simp
  next
    case False
    then have "\<not> matches y o1"
      using unique [of o1 o2 y] Cons.prems xs by (auto simp: installs_def list_all_iff)
    moreover have "o1 \<in> set os" using False Cons.prems(2) by simp
    moreover from \<open>\<not> matches y o1\<close>
    have "{#x \<in># base + mset xs. matches x o1#} = {#x \<in># base + mset ys. matches x o1#}" using xs by simp
    ultimately show ?thesis using Cons.IH [OF i] by simp
  qed
qed simp

lemma apply_step_installs:
  assumes "installs base applied xs" and "host k = base + mset xs" and "valid o1" and "exec o1 k = (Inr True, k')"
  shows "\<exists>x. installs base (applied @ [o1]) (xs @ [x]) \<and> host k' = base + mset (xs @ [x])"
proof -
  obtain x where x: "matches x o1" "plain x" "host k' = add_mset x (host k)" and absent: "\<not> (\<exists>x\<in>#host k. matches x o1)"
    using add_changed [OF assms(3,4)] by auto
  have "o1 \<notin> set applied"
  proof
    assume "o1 \<in> set applied"
    then obtain y where "y \<in> set xs" "matches y o1"
      using assms(1) list_all2_left [of matches xs applied o1] by (auto simp: installs_def)
    with absent assms(2) show False by auto
  qed
  with assms x absent show ?thesis
    by (auto simp: installs_def intro!: exI [of _ x] list_all2_appendI)
qed

text \<open>Undoing: what stays behind is named by an error.\<close>

definition residue_named :: "'o multiset \<Rightarrow> (NetOp \<times> string) list \<Rightarrow> bool" where
  "residue_named left errs \<longleftrightarrow> (\<forall>x\<in>#left. plain x \<and> (\<exists>(undo, e)\<in>set errs. matches x (inverse_op undo)))"

lemma residue_named_mono: "residue_named left errs \<Longrightarrow> set errs \<subseteq> set errs' \<Longrightarrow> residue_named left errs'"
  unfolding residue_named_def by blast

lemma rollback_residue:
  assumes "installs base (rev undone) (rev xs)" and "host k = base + mset xs + left"
    and "\<forall>x\<in>#left. \<forall>o1\<in>set undone. \<not> matches x o1"
    and "rollback_ops exec undone k = (errs, k')"
  shows "\<exists>left'. host k' = base + left' + left \<and> residue_named left' errs"
  using assms
proof (induction undone arbitrary: xs k left errs k')
  case Nil
  then show ?case by (auto simp: installs_def residue_named_def)
next
  case (Cons o1 os)
  from Cons.prems(1) obtain y ys where xs: "xs = y # ys"
    by (cases xs) (auto simp: installs_def dest: list_all2_lengthD)
  have all: "installs base (rev os @ [o1]) (rev ys @ [y])" using Cons.prems(1) xs by simp
  have lengths: "length (rev ys) = length (rev os)"
    using all by (auto simp: installs_def dest: list_all2_lengthD)
  have parts: "matches y o1" "valid o1" "o1 \<notin> set os" "installs base (rev os) (rev ys)" "plain y"
    using all lengths by (auto simp: installs_def list_all2_append)
  obtain r k1 where ex: "exec (inverse_op o1) k = (r, k1)" by fastforce
  obtain gone where gone: "host k = host k1 + gone" "\<forall>x\<in>#gone. matches x o1"
    using del_only [OF parts(2) ex] by auto
  have "{#x \<in># left. matches x o1#} = {#}" using Cons.prems(3) by (auto simp: filter_mset_none)
  moreover have "size {#x \<in># base + mset (rev ys @ [y]). matches x o1#} \<le> 1"
    by (rule installs_single [OF all]) simp
  moreover have "host k = (base + mset (rev ys @ [y])) + left" using Cons.prems(2) xs by simp
  ultimately have le1: "size {#x \<in># host k. matches x o1#} \<le> 1"
    by (simp only: filter_union_mset add_0_right)
  have "{#x \<in># host k. matches x o1#} = {#y#} + {#x \<in># base + mset ys + left. matches x o1#}"
    using Cons.prems(2) xs parts(1) by simp
  with le1 have y: "{#x \<in># host k. matches x o1#} = {#y#}" by simp
  have "gone \<subseteq># {#x \<in># host k. matches x o1#}"
  proof -
    have "filter_mset (\<lambda>x. matches x o1) gone = gone" using gone(2) by (simp add: filter_mset_eq_conv)
    then have "filter_mset (\<lambda>x. matches x o1) (host k) = filter_mset (\<lambda>x. matches x o1) (host k1) + gone"
      using gone(1) by simp
    then show ?thesis by simp
  qed
  then have "gone \<subseteq># {#y#}" by (simp only: y)
  from subset_single [OF this] consider (same) "gone = {#}" | (removed) "gone = {#y#}" by auto
  then show ?case
  proof cases
    case same
    then have host1: "host k1 = base + mset ys + (add_mset y left)" using gone(1) Cons.prems(2) xs by simp
    show ?thesis
    proof (cases r)
      case (Inr c)
      with del_done [OF parts(2) ex [unfolded Inr] le1] host1 parts(1) show ?thesis by auto
    next
      case (Inl e)
      obtain es k2 where rb: "rollback_ops exec os k1 = (es, k2)" by fastforce
      have "\<not> matches y o2" if o2: "o2 \<in> set os" for o2
      proof
        have "valid o2" using parts(4) o2 by (simp add: installs_def list_all_iff)
        moreover assume "matches y o2"
        ultimately show False using unique [OF parts(2) _ parts(1)] parts(3) o2 by blast
      qed
      then have "\<forall>x\<in>#add_mset y left. \<forall>o2\<in>set os. \<not> matches x o2" using Cons.prems(3) by simp
      from Cons.IH [OF parts(4) host1 this rb] obtain left' where
        l: "host k2 = base + left' + add_mset y left" "residue_named left' es" by auto
      have "errs = (inverse_op o1, e) # es" "k' = k2" using Cons.prems(4) ex Inl rb by simp_all
      with l parts(1,5) show ?thesis
        by (intro exI [of _ "add_mset y left'"]) (auto simp: residue_named_def)
    qed
  next
    case removed
    then have host1: "host k1 = base + mset ys + left" using gone(1) Cons.prems(2) xs by simp
    obtain es k2 where rb: "rollback_ops exec os k1 = (es, k2)" by fastforce
    have "\<forall>x\<in>#left. \<forall>o2\<in>set os. \<not> matches x o2" using Cons.prems(3) by simp
    from Cons.IH [OF parts(4) host1 this rb] obtain left' where
      l: "host k2 = base + left' + left" "residue_named left' es" by auto
    have "k' = k2" "set es \<subseteq> set errs" using Cons.prems(4) ex rb by (auto split: sum.splits)
    with l residue_named_mono show ?thesis by blast
  qed
qed

lemma installs_present:
  assumes "installs base applied xs" and "valid o1" and "x \<in># base + mset xs" and "matches x o1"
  shows "o1 \<in> set applied \<or> (\<exists>x\<in>#base. matches x o1)"
proof (cases "x \<in># base")
  case False
  then have "x \<in> set xs" using assms(3) by simp
  then obtain o2 where o2: "o2 \<in> set applied" "matches x o2"
    using assms(1) list_all2_right [of matches xs applied x] by (auto simp: installs_def)
  then have "valid o2" using assms(1) by (simp add: installs_def list_all_iff)
  from unique [OF assms(2) this assms(4) o2(2)] o2(1) show ?thesis by simp
qed (use assms(4) in auto)

lemma apply_loop_done:
  assumes "installs base applied xs" and "host k = base + mset xs" and "list_all valid os"
    and "apply_loop exec os applied k = (Inr done, k')"
  shows "\<exists>ys. installs base done ys \<and> host k' = base + mset ys \<and> set applied \<subseteq> set done \<and>
    set done \<subseteq> set applied \<union> set os \<and> (\<forall>o1\<in>set os. o1 \<in> set done \<or> (\<exists>x\<in>#base. matches x o1))"
  using assms
proof (induction os arbitrary: applied xs k)
  case (Cons o1 os)
  obtain r k1 where ex: "exec o1 k = (r, k1)" by fastforce
  have v: "valid o1" "list_all valid os" using Cons.prems(3) by simp_all
  have "r = Inr True \<or> r = Inr False"
    using Cons.prems(4) ex by (cases r) (auto split: prod.splits)
  then show ?case
  proof
    assume r: "r = Inr True"
    obtain x where x: "installs base (applied @ [o1]) (xs @ [x])" "host k1 = base + mset (xs @ [x])"
      using apply_step_installs [OF Cons.prems(1,2) v(1) ex [unfolded r]] by auto
    have "apply_loop exec os (applied @ [o1]) k1 = (Inr done, k')" using Cons.prems(4) ex r by simp
    from Cons.IH [OF x v(2) this] show ?thesis by auto
  next
    assume r: "r = Inr False"
    have same: "host k1 = base + mset xs" and "\<exists>x\<in>#host k. matches x o1"
      using add_present [OF v(1) ex [unfolded r]] Cons.prems(2) by simp_all
    then have there: "o1 \<in> set applied \<or> (\<exists>x\<in>#base. matches x o1)"
      using installs_present [OF Cons.prems(1) v(1)] Cons.prems(2) by auto
    have "apply_loop exec os applied k1 = (Inr done, k')" using Cons.prems(4) ex r by simp
    from Cons.IH [OF Cons.prems(1) same v(2) this] there show ?thesis by auto
  qed
qed auto

lemma apply_loop_failed:
  assumes "installs base applied xs" and "host k = base + mset xs" and "list_all valid os"
    and "apply_loop exec os applied k = (Inl f, k')"
  shows "\<exists>left. host k' = base + left \<and> residue_named left (af_rollback_errors f)"
  using assms
proof (induction os arbitrary: applied xs k)
  case (Cons o1 os)
  obtain r k1 where ex: "exec o1 k = (r, k1)" by fastforce
  have v: "valid o1" "list_all valid os" using Cons.prems(3) by simp_all
  show ?case
  proof (cases r)
    case (Inl e)
    obtain errs k2 where rb: "rollback_ops exec (rev applied) k1 = (errs, k2)" by fastforce
    have "host k1 = base + mset (rev xs) + {#}" using add_refused [OF v(1) ex [unfolded Inl]] Cons.prems(2) by simp
    from rollback_residue [OF _ this _ rb] Cons.prems(1) obtain left where
      "host k2 = base + left + {#}" "residue_named left errs" by auto
    with Cons.prems(4) ex Inl rb show ?thesis by auto
  next
    case (Inr changed)
    show ?thesis
    proof (cases changed)
      case True
      obtain x where x: "installs base (applied @ [o1]) (xs @ [x])" "host k1 = base + mset (xs @ [x])"
        using apply_step_installs [OF Cons.prems(1,2) v(1)] ex Inr True by auto
      have "apply_loop exec os (applied @ [o1]) k1 = (Inl f, k')" using Cons.prems(4) ex Inr True by simp
      from Cons.IH [OF x v(2) this] show ?thesis .
    next
      case False
      then have "host k1 = base + mset xs" using add_present [OF v(1)] ex Inr Cons.prems(2) by auto
      moreover have "apply_loop exec os applied k1 = (Inl f, k')" using Cons.prems(4) ex Inr False by simp
      ultimately show ?thesis using Cons.IH [OF Cons.prems(1) _ v(2)] by blast
    qed
  qed
qed simp

text \<open>Removing: a run of deletions takes away only what matches, and everything that does.\<close>

lemma apply_deletes:
  assumes "list_all valid os" and "\<forall>o1\<in>set os. size {#x \<in># host k. matches x o1#} \<le> 1"
    and "apply_loop exec (map inverse_op os) applied k = (Inr done, k')"
  shows "host k' = {#x \<in># host k. \<not> (\<exists>o1\<in>set os. matches x o1)#}"
  using assms
proof (induction os arbitrary: applied k)
  case (Cons o1 os)
  obtain r k1 where ex: "exec (inverse_op o1) k = (r, k1)" by fastforce
  have v: "valid o1" "list_all valid os" using Cons.prems(1) by simp_all
  obtain c where r: "r = Inr c" using Cons.prems(3) ex by (cases r) (auto split: prod.splits)
  obtain gone where gone: "host k = host k1 + gone" "\<forall>x\<in>#gone. matches x o1" using del_only [OF v(1) ex] by auto
  have none: "\<forall>x\<in>#host k1. \<not> matches x o1" using del_done [OF v(1) ex [unfolded r]] Cons.prems(2) by simp
  have h1: "host k1 = {#x \<in># host k. \<not> matches x o1#}"
  proof -
    have "filter_mset (\<lambda>x. \<not> matches x o1) gone = {#}" using gone(2) by (simp add: filter_mset_none)
    moreover have "filter_mset (\<lambda>x. \<not> matches x o1) (host k1) = host k1" using none by (simp add: filter_mset_eq_conv)
    ultimately show ?thesis using gone(1) by simp
  qed
  have "size {#x \<in># host k1. matches x o2#} \<le> 1" if "o2 \<in> set os" for o2
  proof -
    have "{#x \<in># host k1. matches x o2#} \<subseteq># {#x \<in># host k. matches x o2#}"
      unfolding gone(1) by simp
    then have "size {#x \<in># host k1. matches x o2#} \<le> size {#x \<in># host k. matches x o2#}" by (rule size_mset_mono)
    with Cons.prems(2) that show ?thesis by (meson le_trans list.set_intros(2))
  qed
  moreover obtain applied' where "apply_loop exec (map inverse_op os) applied' k1 = (Inr done, k')"
    using Cons.prems(3) ex r by (cases c) auto
  ultimately have "host k' = {#x \<in># host k1. \<not> (\<exists>o1\<in>set os. matches x o1)#}" using Cons.IH v(2) by blast
  then show ?case unfolding h1 by (simp add: filter_filter_mset)
qed simp

end

section \<open>The kernel behind the live executor\<close>

primrec af_of :: "Family \<Rightarrow> AddressFamily" where
  "af_of V4 = Inet"
| "af_of V6 = Inet6"

text \<open>A dump is the messages of interest in some order, or a prefix of them broken off by an error.\<close>

definition dump_of :: "'m multiset \<Rightarrow> (string + 'm) list \<Rightarrow> bool" where
  "dump_of m items \<longleftrightarrow>
     (\<exists>ms. mset ms = m \<and> (items = map Inr ms \<or> (\<exists>n e rest. items = map Inr (take n ms) @ Inl e # rest)))"

text \<open>How the kernel reports what was requested: the attributes set, the mask the full one, no selector.\<close>

definition rule_shown :: "RuleRequest \<Rightarrow> RuleMessage \<Rightarrow> bool" where
  "rule_shown rq m \<longleftrightarrow>
     rm_family m = af_of (rq_family rq) \<and> rm_action m = rq_action rq \<and>
     rule_table m = (case rq_table rq of Some t \<Rightarrow> t | None \<Rightarrow> 0) \<and>
     find_map rule_priority_of (rm_attributes m) = Some (rq_priority rq) \<and>
     find_map rule_fwmark_of (rm_attributes m) = rq_fwmark rq \<and>
     find_map rule_fwmask_of (rm_attributes m) \<in> {None, Some 0xffffffff} \<and>
     (\<forall>s. RuleSelector s \<notin> set (rm_attributes m))"

definition route_shown :: "RouteMessage \<Rightarrow> RouteMessage \<Rightarrow> bool" where
  "route_shown sent m \<longleftrightarrow>
     rt_family m = rt_family sent \<and> rt_prefix_length m = rt_prefix_length sent \<and>
     route_table m = route_table sent \<and> (rt_family sent = Inet \<longrightarrow> rt_scope m = rt_scope sent) \<and>
     find_map route_dest_of (rt_attributes m) = find_map route_dest_of (rt_attributes sent) \<and>
     find_map route_oif_of (rt_attributes m) = find_map route_oif_of (rt_attributes sent) \<and>
     (list_ex is_gateway_attr (rt_attributes m) \<longrightarrow> list_ex is_gateway_attr (rt_attributes sent))"

locale netlink_kernel =
  fixes nl :: "'k netlink"
    and rules :: "'k \<Rightarrow> RuleMessage multiset"
    and routes :: "'k \<Rightarrow> RouteMessage multiset"
  assumes rule_dump: "nl_rule_dump nl fam k = (items, k') \<Longrightarrow>
      rules k' = rules k \<and> routes k' = routes k \<and> dump_of {#m \<in># rules k. rm_family m = af_of fam#} items"
    and route_dump: "nl_route_dump nl af k = (ritems, k') \<Longrightarrow>
      rules k' = rules k \<and> routes k' = routes k \<and> dump_of {#r \<in># routes k. af = Unspec \<or> rt_family r = af#} ritems"
    and rule_add_ok: "nl_rule_add nl rq k = (Inr u, k') \<Longrightarrow> rq_priority rq \<noteq> 0 \<Longrightarrow> rq_fwmark rq \<noteq> Some 0 \<Longrightarrow>
      routes k' = routes k \<and> (\<exists>m. rule_shown rq m \<and> rules k' = add_mset m (rules k))"
    and rule_add_refused: "nl_rule_add nl rq k = (Inl e, k') \<Longrightarrow> rules k' = rules k \<and> routes k' = routes k"
    and rule_del_ok: "nl_rule_del nl m k = (Inr u, k') \<Longrightarrow> m \<in># rules k \<Longrightarrow>
      rules k = add_mset m (rules k') \<and> routes k' = routes k"
    and rule_del_refused: "nl_rule_del nl m k = (Inl e, k') \<Longrightarrow> rules k' = rules k \<and> routes k' = routes k"
    and route_add_ok: "nl_route_add nl sent k = (Inr u, k') \<Longrightarrow>
      rules k' = rules k \<and> (\<exists>r. route_shown sent r \<and> routes k' = add_mset r (routes k))"
    and route_add_refused: "nl_route_add nl sent k = (Inl e, k') \<Longrightarrow> rules k' = rules k \<and> routes k' = routes k"
    and route_del_ok: "nl_route_del nl r k = (Inr u, k') \<Longrightarrow> r \<in># routes k \<Longrightarrow>
      rules k' = rules k \<and> routes k = add_mset r (routes k')"
    and route_del_refused: "nl_route_del nl r k = (Inl e, k') \<Longrightarrow> rules k' = rules k \<and> routes k' = routes k"

text \<open>
  The host as a multiset of objects. An object has the tuple of an addition when its family,
  table, priority, mark, mask and action, or its family, table, prefix, interface, scope and lack
  of a gateway, are those asked for; it is plain when nothing narrows it further. The two are
  written down from the attributes, not from the code's matchers, which the lemmas
  \<open>is_object_matches\<close> compare with them.
\<close>

datatype host_object = RuleObject RuleMessage | RouteObject RouteMessage

definition host_objects :: "('k \<Rightarrow> RuleMessage multiset) \<Rightarrow> ('k \<Rightarrow> RouteMessage multiset) \<Rightarrow> 'k \<Rightarrow> host_object multiset" where
  "host_objects rules routes k = image_mset RuleObject (rules k) + image_mset RouteObject (routes k)"

fun is_object :: "host_object \<Rightarrow> NetOp \<Rightarrow> bool" where
  "is_object (RuleObject m) (AddRule spec) =
     (rm_family m = (case rs_family spec of V4 \<Rightarrow> Inet | V6 \<Rightarrow> Inet6) \<and>
      rm_action m = (case rs_action spec of ToTable \<Rightarrow> NlToTable | Blackhole \<Rightarrow> NlBlackhole) \<and>
      rule_table m = rs_table spec \<and>
      find_map rule_priority_of (rm_attributes m) = Some (rs_priority spec) \<and>
      find_map rule_fwmark_of (rm_attributes m) = rs_fwmark spec \<and>
      find_map rule_fwmask_of (rm_attributes m) \<in> {None, Some 0xffffffff})"
| "is_object (RouteObject m) (AddRoute spec) =
     (rt_family m = (case dp_addr (ro_dest spec) of IpV4 _ \<Rightarrow> Inet | IpV6 _ \<Rightarrow> Inet6) \<and>
      route_table m = ro_table spec \<and>
      rt_prefix_length m = dp_len (ro_dest spec) \<and>
      (find_map route_dest_of (rt_attributes m) = Some (dp_addr (ro_dest spec)) \<or>
       find_map route_dest_of (rt_attributes m) = None \<and> dp_len (ro_dest spec) = 0) \<and>
      find_map route_oif_of (rt_attributes m) = Some (ro_oif spec) \<and>
      (rt_family m = Inet \<longrightarrow> rt_scope m = ScopeLink) \<and>
      (\<forall>a. RouteGateway a \<notin> set (rt_attributes m)))"
| "is_object _ _ = False"

primrec is_plain :: "host_object \<Rightarrow> bool" where
  "is_plain (RuleObject m) \<longleftrightarrow> (\<forall>s. RuleSelector s \<notin> set (rm_attributes m))"
| "is_plain (RouteObject m) \<longleftrightarrow> True"

lemma is_gateway_attr_iff: "is_gateway_attr a \<longleftrightarrow> (\<exists>x. a = RouteGateway x)"
  by (cases a) auto

lemma is_object_rule: "is_object (RuleObject m) (AddRule spec) \<longleftrightarrow> rm_family m = af_of (rs_family spec) \<and> rule_matches m spec"
  by (cases "rs_family spec"; cases "rs_action spec") (auto simp: rule_matches_def split: option.splits)

lemma is_object_route: "is_object (RouteObject m) (AddRoute spec) \<longleftrightarrow> route_matches m spec"
  by (cases "dp_addr (ro_dest spec)")
    (auto simp: route_matches_def list_ex_iff is_gateway_attr_iff split: option.splits)

lemmas is_object_matches = is_object_rule is_object_route

declare is_object.simps(1,2) [simp del] is_object_matches [simp]

text \<open>Additions that the kernel reports in the shape the matcher looks for.\<close>

fun valid_add :: "NetOp \<Rightarrow> bool" where
  "valid_add (AddRule spec) =
     (rs_priority spec \<noteq> 0 \<and> rs_fwmark spec \<noteq> Some 0 \<and> (rs_action spec = Blackhole \<longrightarrow> rs_table spec = 0))"
| "valid_add (AddRoute spec) =
     (ro_table spec \<noteq> RT_TABLE_COMPAT \<and>
      (dp_len (ro_dest spec) = 0 \<longrightarrow> ro_dest spec \<in> {V4_DEFAULT, V6_DEFAULT}))"
| "valid_add _ = False"

lemma af_of_inj [simp]: "af_of a = af_of b \<longleftrightarrow> a = b"
  by (cases a; cases b) auto

lemma expected_action_inj [simp]: "expected_action a = expected_action b \<longleftrightarrow> a = b"
  by (cases a; cases b) auto

lemma rule_matches_shown:
  assumes "valid_add (AddRule spec)" and "rule_shown (rule_request spec) m"
  shows "is_object (RuleObject m) (AddRule spec) \<and> is_plain (RuleObject m)"
  using assms by (auto simp: rule_shown_def rule_request_def rule_matches_def split: RuleKind.splits)

lemma route_table_build:
  assumes "ro_table spec \<noteq> RT_TABLE_COMPAT"
  shows "route_table (build_route spec) = ro_table spec"
  using assms by (auto simp: route_table_def build_route_def)

lemma route_matches_build:
  assumes "ro_table spec \<noteq> RT_TABLE_COMPAT"
  shows "route_matches (build_route spec) spec"
  using route_table_build [OF assms] by (auto simp: route_matches_def) (auto simp: build_route_def split: if_splits)

lemma route_matches_shown:
  assumes "valid_add (AddRoute spec)" and "route_shown (build_route spec) m"
  shows "is_object (RouteObject m) (AddRoute spec)"
proof -
  have "route_matches (build_route spec) spec" using assms(1) by (simp add: route_matches_build)
  with assms(2) show ?thesis
    by (cases "dp_addr (ro_dest spec)") (auto simp: route_shown_def route_matches_def)
qed

lemma rule_object_unique:
  assumes "rm_family m = af_of (rs_family a)" "rule_matches m a" "rm_family m = af_of (rs_family b)" "rule_matches m b"
  shows "a = b"
  using assms by (cases a, cases b) (auto simp: rule_matches_def)

lemma route_object_unique:
  assumes "valid_add (AddRoute a)" "valid_add (AddRoute b)" "route_matches m a" "route_matches m b"
  shows "a = b"
proof -
  have f: "ro_table a = ro_table b" "dp_len (ro_dest a) = dp_len (ro_dest b)" "ro_oif a = ro_oif b"
    "dest_family (dp_addr (ro_dest a)) = dest_family (dp_addr (ro_dest b))"
    using assms(3,4) by (auto simp: route_matches_def)
  have "ro_dest a = ro_dest b"
  proof (cases "dp_len (ro_dest a) = 0")
    case True
    with assms(1,2) f show ?thesis by (auto simp: V4_DEFAULT_def V6_DEFAULT_def)
  next
    case False
    then have "dp_addr (ro_dest a) = dp_addr (ro_dest b)"
      using assms(3,4) f(2) by (auto simp: route_matches_def split: option.splits)
    with f(2) show ?thesis by simp
  qed
  with f show ?thesis by simp
qed

lemma object_unique:
  assumes "valid_add a" "valid_add b" "is_object x a" "is_object x b"
  shows "a = b"
proof (cases x)
  case (RuleObject m)
  then obtain p q where "a = AddRule p" "b = AddRule q" using assms by (cases a; cases b) auto
  with RuleObject assms rule_object_unique [of m p q] show ?thesis by auto
next
  case (RouteObject m)
  then obtain p q where "a = AddRoute p" "b = AddRoute q" using assms by (cases a; cases b) auto
  with RouteObject assms route_object_unique [of p q m] show ?thesis by auto
qed

lemma scan_dump:
  assumes "dump_of m items"
  shows "scan p what items = Inr (Some x) \<Longrightarrow> x \<in># m \<and> p x"
    and "scan p what items = Inr None \<Longrightarrow> \<forall>x\<in>#m. \<not> p x"
proof -
  have found: "scan p what (map Inr xs @ rest) = Inr (Some x) \<Longrightarrow>
      x \<in> set xs \<and> p x \<or> scan p what rest = Inr (Some x)" for xs rest
    by (induction xs) (auto split: if_splits)
  have all: "scan p what (map Inr xs @ rest) = Inr None \<Longrightarrow>
      (\<forall>x\<in>set xs. \<not> p x) \<and> scan p what rest = Inr None" for xs rest
    by (induction xs) (auto split: if_splits)
  obtain ms where ms: "mset ms = m"
    and items: "items = map Inr ms \<or> (\<exists>n e rest. items = map Inr (take n ms) @ Inl e # rest)"
    using assms by (auto simp: dump_of_def)
  show "x \<in># m \<and> p x" if "scan p what items = Inr (Some x)"
    using items
  proof
    assume "items = map Inr ms"
    with that found [of ms "[]"] ms show ?thesis by auto
  next
    assume "\<exists>n e rest. items = map Inr (take n ms) @ Inl e # rest"
    with that found ms show ?thesis by (fastforce dest: in_set_takeD)
  qed
  show "\<forall>x\<in>#m. \<not> p x" if "scan p what items = Inr None"
    using items
  proof
    assume "items = map Inr ms"
    with that all [of ms "[]"] ms show ?thesis by auto
  next
    assume "\<exists>n e rest. items = map Inr (take n ms) @ Inl e # rest"
    with that all show ?thesis by fastforce
  qed
qed

context netlink_kernel
begin

text \<open>\<open>host\<close> is what transactions see; \<open>same\<close> says that a call left it alone.\<close>

definition same :: "'k \<Rightarrow> 'k \<Rightarrow> bool" where
  "same k k' \<longleftrightarrow> rules k' = rules k \<and> routes k' = routes k"

lemma same_host: "same k k' \<Longrightarrow> host_objects rules routes k' = host_objects rules routes k"
  by (simp add: same_def host_objects_def)

lemma find_rule_result:
  assumes "find_rule nl spec k = (r, k')"
  shows "same k k'" and "r = Inr (Some m) \<Longrightarrow> m \<in># rules k \<and> is_object (RuleObject m) (AddRule spec)"
    and "r = Inr None \<Longrightarrow> \<not> (\<exists>x\<in>#host_objects rules routes k. is_object x (AddRule spec))"
proof -
  obtain items where d: "nl_rule_dump nl (rs_family spec) k = (items, k')"
    and r: "r = scan (\<lambda>m. rule_matches m spec) ''rule dump: '' items"
    using assms by (auto simp: find_rule_def split: prod.splits)
  note dump = rule_dump [OF d, THEN conjunct2, THEN conjunct2]
  show "same k k'" using rule_dump [OF d] by (simp add: same_def)
  show "m \<in># rules k \<and> is_object (RuleObject m) (AddRule spec)" if "r = Inr (Some m)"
    using scan_dump(1) [OF dump that [unfolded r]] by simp
  show "\<not> (\<exists>x\<in>#host_objects rules routes k. is_object x (AddRule spec))" if "r = Inr None"
    using scan_dump(2) [OF dump that [unfolded r]] by (auto simp: host_objects_def)
qed

lemma find_route_result:
  assumes "find_route nl spec k = (r, k')"
  shows "same k k'" and "r = Inr (Some m) \<Longrightarrow> m \<in># routes k \<and> is_object (RouteObject m) (AddRoute spec)"
    and "r = Inr None \<Longrightarrow> \<not> (\<exists>x\<in>#host_objects rules routes k. is_object x (AddRoute spec))"
proof -
  obtain items where d: "nl_route_dump nl (dest_family (dp_addr (ro_dest spec))) k = (items, k')"
    and r: "r = scan (\<lambda>m. route_matches m spec) ''route dump: '' items"
    using assms by (auto simp: find_route_def split: prod.splits)
  note dump = route_dump [OF d, THEN conjunct2, THEN conjunct2]
  show "same k k'" using route_dump [OF d] by (simp add: same_def)
  show "m \<in># routes k \<and> is_object (RouteObject m) (AddRoute spec)" if "r = Inr (Some m)"
    using scan_dump(1) [OF dump that [unfolded r]] by simp
  show "\<not> (\<exists>x\<in>#host_objects rules routes k. is_object x (AddRoute spec))" if "r = Inr None"
    using scan_dump(2) [OF dump that [unfolded r]] by (auto simp: host_objects_def route_matches_def)
qed

lemma add_rule_effect:
  assumes "valid_add (AddRule spec)" and "add_rule nl spec k = (r, k')"
  shows "(case r of
      Inl e \<Rightarrow> host_objects rules routes k' = host_objects rules routes k
    | Inr False \<Rightarrow> host_objects rules routes k' = host_objects rules routes k \<and>
        (\<exists>x\<in>#host_objects rules routes k. is_object x (AddRule spec))
    | Inr True \<Rightarrow> \<not> (\<exists>x\<in>#host_objects rules routes k. is_object x (AddRule spec)) \<and>
        (\<exists>x. is_object x (AddRule spec) \<and> is_plain x \<and> host_objects rules routes k' = add_mset x (host_objects rules routes k)))"
proof -
  obtain f k1 where f: "find_rule nl spec k = (f, k1)" by fastforce
  note fr = find_rule_result [OF f]
  show ?thesis
  proof (cases f)
    case (Inl e)
    then show ?thesis using assms(2) f fr(1) by (auto simp: add_rule_def same_host)
  next
    case (Inr found)
    show ?thesis
    proof (cases found)
      case (Some m)
      have "r = Inr False" "k' = k1" using assms(2) f Inr Some by (simp_all add: add_rule_def)
      moreover have "RuleObject m \<in># host_objects rules routes k" "is_object (RuleObject m) (AddRule spec)"
        using fr(2) Inr Some by (auto simp: host_objects_def)
      ultimately show ?thesis using same_host [OF fr(1)] by (simp del: is_object_matches) blast
    next
      case None
      obtain a k2 where a: "nl_rule_add nl (rule_request spec) k1 = (a, k2)" by fastforce
      show ?thesis
      proof (cases a)
        case (Inl e)
        have "r = Inl (''add rule: '' @ e)" "k' = k2" using assms(2) f Inr None a Inl by (simp_all add: add_rule_def)
        moreover have "same k k2" using rule_add_refused a Inl fr(1) by (auto simp: same_def)
        ultimately show ?thesis by (simp add: same_host)
      next
        case (Inr u)
        have r: "r = Inr True" "k' = k2" using assms(2) f \<open>f = Inr found\<close> None a Inr by (simp_all add: add_rule_def)
        have "rq_priority (rule_request spec) \<noteq> 0" "rq_fwmark (rule_request spec) \<noteq> Some 0"
          using assms(1) by (simp_all add: rule_request_def)
        from rule_add_ok [OF a [unfolded Inr] this] obtain m where
          m: "rule_shown (rule_request spec) m" "rules k2 = add_mset m (rules k1)" "routes k2 = routes k1" by auto
        then have "host_objects rules routes k2 = add_mset (RuleObject m) (host_objects rules routes k)"
          using fr(1) by (simp add: host_objects_def same_def)
        with r rule_matches_shown [OF assms(1) m(1)] fr(3) \<open>f = Inr found\<close> None show ?thesis by auto
      qed
    qed
  qed
qed

lemma add_route_effect:
  assumes "valid_add (AddRoute spec)" and "add_route nl spec k = (r, k')"
  shows "(case r of
      Inl e \<Rightarrow> host_objects rules routes k' = host_objects rules routes k
    | Inr False \<Rightarrow> host_objects rules routes k' = host_objects rules routes k \<and>
        (\<exists>x\<in>#host_objects rules routes k. is_object x (AddRoute spec))
    | Inr True \<Rightarrow> \<not> (\<exists>x\<in>#host_objects rules routes k. is_object x (AddRoute spec)) \<and>
        (\<exists>x. is_object x (AddRoute spec) \<and> is_plain x \<and> host_objects rules routes k' = add_mset x (host_objects rules routes k)))"
proof -
  obtain f k1 where f: "find_route nl spec k = (f, k1)" by fastforce
  note fr = find_route_result [OF f]
  show ?thesis
  proof (cases f)
    case (Inl e)
    then show ?thesis using assms(2) f fr(1) by (auto simp: add_route_def same_host)
  next
    case (Inr found)
    show ?thesis
    proof (cases found)
      case (Some m)
      have "r = Inr False" "k' = k1" using assms(2) f Inr Some by (simp_all add: add_route_def)
      moreover have "RouteObject m \<in># host_objects rules routes k" "is_object (RouteObject m) (AddRoute spec)"
        using fr(2) Inr Some by (auto simp: host_objects_def)
      ultimately show ?thesis using same_host [OF fr(1)] by (simp del: is_object_matches) blast
    next
      case None
      obtain a k2 where a: "nl_route_add nl (build_route spec) k1 = (a, k2)" by fastforce
      show ?thesis
      proof (cases a)
        case (Inl e)
        have "r = Inl (''add route: '' @ e)" "k' = k2" using assms(2) f Inr None a Inl by (simp_all add: add_route_def)
        moreover have "same k k2" using route_add_refused a Inl fr(1) by (auto simp: same_def)
        ultimately show ?thesis by (simp add: same_host)
      next
        case (Inr u)
        have r: "r = Inr True" "k' = k2" using assms(2) f \<open>f = Inr found\<close> None a Inr by (simp_all add: add_route_def)
        from route_add_ok [OF a [unfolded Inr]] obtain m where
          m: "route_shown (build_route spec) m" "routes k2 = add_mset m (routes k1)" "rules k2 = rules k1" by auto
        then have "host_objects rules routes k2 = add_mset (RouteObject m) (host_objects rules routes k)"
          using fr(1) by (simp add: host_objects_def same_def)
        with r route_matches_shown [OF assms(1) m(1)] fr(3) \<open>f = Inr found\<close> None show ?thesis by auto
      qed
    qed
  qed
qed

lemma del_rule_only:
  assumes "del_rule_loop nl spec n c k = (r, k')"
  shows "\<exists>gone. host_objects rules routes k = host_objects rules routes k' + gone \<and>
    (\<forall>x\<in>#gone. is_object x (AddRule spec))"
  using assms
proof (induction n arbitrary: c k)
  case (Suc n)
  obtain f k1 where f: "find_rule nl spec k = (f, k1)" by fastforce
  note fr = find_rule_result [OF f]
  show ?case
  proof (cases "\<exists>m. f = Inr (Some m)")
    case False
    then have "same k k'" using Suc.prems f fr(1) by (auto split: sum.splits option.splits)
    then show ?thesis by (intro exI [of _ "{#}"]) (simp add: same_host)
  next
    case True
    then obtain m where m: "f = Inr (Some m)" "m \<in># rules k" "is_object (RuleObject m) (AddRule spec)"
      using fr(2) by blast
    obtain d k2 where d: "nl_rule_del nl m k1 = (d, k2)" by fastforce
    show ?thesis
    proof (cases d)
      case (Inl e)
      then have "same k k2" using rule_del_refused d fr(1) by (auto simp: same_def)
      with Suc.prems f m d Inl show ?thesis by (intro exI [of _ "{#}"]) (simp add: same_host)
    next
      case (Inr u)
      then have "rules k1 = add_mset m (rules k2)" "routes k2 = routes k1"
        using rule_del_ok [OF d [unfolded Inr]] fr(1) m(2) by (simp_all add: same_def)
      then have h: "host_objects rules routes k = add_mset (RuleObject m) (host_objects rules routes k2)"
        by (simp add: same_host [OF fr(1), symmetric]) (simp add: host_objects_def)
      have "del_rule_loop nl spec n True k2 = (r, k')" using Suc.prems f m d Inr by simp
      from Suc.IH [OF this] obtain gone where
        "host_objects rules routes k2 = host_objects rules routes k' + gone" "\<forall>x\<in>#gone. is_object x (AddRule spec)"
        by auto
      with h m(3) show ?thesis by (intro exI [of _ "add_mset (RuleObject m) gone"]) auto
    qed
  qed
qed (simp add: exI [of _ "{#}"])

lemma del_rule_done:
  assumes "del_rule_loop nl spec n c k = (Inr c', k')" and "1 < n"
    and "size {#x \<in># host_objects rules routes k. is_object x (AddRule spec)#} \<le> 1"
  shows "\<not> (\<exists>x\<in>#host_objects rules routes k'. is_object x (AddRule spec))"
proof -
  obtain n' where n: "n = Suc (Suc n')" using assms(2) by (cases n; cases "n - 1") auto
  obtain f k1 where f: "find_rule nl spec k = (f, k1)" by fastforce
  note fr = find_rule_result [OF f]
  show ?thesis
  proof (cases "\<exists>m. f = Inr (Some m)")
    case False
    then have "f = Inr None" "k' = k1" using assms(1) n f by (auto split: sum.splits option.splits)
    then show ?thesis using fr(3) same_host [OF fr(1)] by simp
  next
    case True
    then obtain m where m: "f = Inr (Some m)" "m \<in># rules k" "is_object (RuleObject m) (AddRule spec)"
      using fr(2) by blast
    obtain u k2 where d: "nl_rule_del nl m k1 = (Inr u, k2)"
      using assms(1) n f m(1) by (cases "nl_rule_del nl m k1") (auto split: sum.splits)
    have "rules k1 = add_mset m (rules k2)" "routes k2 = routes k1"
      using rule_del_ok [OF d] fr(1) m(2) by (simp_all add: same_def)
    then have "host_objects rules routes k = add_mset (RuleObject m) (host_objects rules routes k2)"
      by (simp add: same_host [OF fr(1), symmetric]) (simp add: host_objects_def)
    with assms(3) m(3) have none: "\<forall>x\<in>#host_objects rules routes k2. \<not> is_object x (AddRule spec)"
      by (simp add: filter_mset_none del: is_object_matches)
    have "del_rule_loop nl spec (Suc n') True k2 = (Inr c', k')" using assms(1) n f m d by simp
    from del_rule_only [OF this] none show ?thesis by auto
  qed
qed

lemma del_route_effect:
  assumes "del_route nl spec k = (r, k')"
  shows "\<exists>gone. host_objects rules routes k = host_objects rules routes k' + gone \<and>
      (\<forall>x\<in>#gone. is_object x (AddRoute spec)) \<and> (r = Inr c \<longrightarrow>
        size gone = 1 \<or> \<not> (\<exists>x\<in>#host_objects rules routes k. is_object x (AddRoute spec)))"
proof -
  obtain f k1 where f: "find_route nl spec k = (f, k1)" by fastforce
  note fr = find_route_result [OF f]
  show ?thesis
  proof (cases "\<exists>m. f = Inr (Some m)")
    case False
    then have "same k k'" "r = Inr c \<Longrightarrow> f = Inr None"
      using assms f fr(1) by (auto simp: del_route_def split: sum.splits option.splits)
    with fr(3) show ?thesis by (intro exI [of _ "{#}"]) (auto simp: same_host)
  next
    case True
    then obtain m where m: "f = Inr (Some m)" "m \<in># routes k" "is_object (RouteObject m) (AddRoute spec)"
      using fr(2) by blast
    obtain d k2 where d: "nl_route_del nl m k1 = (d, k2)" by fastforce
    show ?thesis
    proof (cases d)
      case (Inl e)
      then have "same k k2" using route_del_refused d fr(1) by (auto simp: same_def)
      with assms f m d Inl show ?thesis by (intro exI [of _ "{#}"]) (auto simp: del_route_def same_host)
    next
      case (Inr u)
      then have "routes k1 = add_mset m (routes k2)" "rules k2 = rules k1"
        using route_del_ok [OF d [unfolded Inr]] fr(1) m(2) by (simp_all add: same_def)
      then have "host_objects rules routes k = add_mset (RouteObject m) (host_objects rules routes k2)"
        by (simp add: same_host [OF fr(1), symmetric]) (simp add: host_objects_def)
      with assms f m d Inr show ?thesis by (intro exI [of _ "{#RouteObject m#}"]) (simp add: del_route_def)
    qed
  qed
qed

lemma del_route_done:
  assumes "del_route nl spec k = (Inr c, k')"
    and "size {#x \<in># host_objects rules routes k. is_object x (AddRoute spec)#} \<le> 1"
  shows "\<not> (\<exists>x\<in>#host_objects rules routes k'. is_object x (AddRoute spec))"
proof -
  let ?p = "\<lambda>x. is_object x (AddRoute spec)"
  obtain gone where g: "host_objects rules routes k = host_objects rules routes k' + gone" "\<forall>x\<in>#gone. ?p x"
    "size gone = 1 \<or> \<not> (\<exists>x\<in>#host_objects rules routes k. ?p x)"
    using del_route_effect [OF assms(1), of c] by auto
  have "filter_mset ?p gone = gone" using g(2) by (simp add: filter_mset_eq_conv)
  then have "size (filter_mset ?p (host_objects rules routes k')) + size gone \<le> 1"
    using assms(2) g(1) by simp
  with g(1,3) show ?thesis by (auto simp: filter_mset_none [symmetric])
qed

end

sublocale netlink_kernel \<subseteq> live: executor "nl_exec nl" "host_objects rules routes" is_object valid_add is_plain
proof
  fix o1 o2 :: NetOp and k k' e x c r
  assume v: "valid_add o1"
  show "host_objects rules routes k' = host_objects rules routes k" if "nl_exec nl o1 k = (Inl e, k')"
    using v that add_rule_effect [of _ k "Inl e" k'] add_route_effect [of _ k "Inl e" k'] by (cases o1) auto
  show "host_objects rules routes k' = host_objects rules routes k \<and>
      (\<exists>x\<in>#host_objects rules routes k. is_object x o1)" if "nl_exec nl o1 k = (Inr False, k')"
    using v that add_rule_effect [of _ k "Inr False" k'] add_route_effect [of _ k "Inr False" k'] by (cases o1) auto
  show "\<not> (\<exists>x\<in>#host_objects rules routes k. is_object x o1) \<and>
      (\<exists>x. is_object x o1 \<and> is_plain x \<and> host_objects rules routes k' = add_mset x (host_objects rules routes k))"
    if "nl_exec nl o1 k = (Inr True, k')"
    using v that add_rule_effect [of _ k "Inr True" k'] add_route_effect [of _ k "Inr True" k'] by (cases o1) auto
  show "\<exists>gone. host_objects rules routes k = host_objects rules routes k' + gone \<and> (\<forall>x\<in>#gone. is_object x o1)"
    if "nl_exec nl (inverse_op o1) k = (r, k')"
    using v that del_rule_only del_route_effect by (cases o1) fastforce+
  show "\<not> (\<exists>x\<in>#host_objects rules routes k'. is_object x o1)"
    if "nl_exec nl (inverse_op o1) k = (Inr c, k')" "size {#x \<in># host_objects rules routes k. is_object x o1#} \<le> 1"
    using v that del_rule_done [of _ 3 False k c k'] del_route_done [of _ k c k'] by (cases o1) simp_all
  show "o1 = o2" if "valid_add o2" "is_object x o1" "is_object x o2"
    using object_unique v that by blast
qed

section \<open>Probing and repairing\<close>

text \<open>
  An addition is there when an object of exactly its shape is; it is shadowed when a rule of its
  tuple is there that further selectors narrow, which the matchers take for it all the same.
\<close>

definition there :: "('k \<Rightarrow> RuleMessage multiset) \<Rightarrow> ('k \<Rightarrow> RouteMessage multiset) \<Rightarrow> 'k \<Rightarrow> NetOp \<Rightarrow> bool" where
  "there rules routes k o1 \<longleftrightarrow> (\<exists>x\<in>#host_objects rules routes k. is_object x o1 \<and> is_plain x)"

definition shadowed :: "('k \<Rightarrow> RuleMessage multiset) \<Rightarrow> ('k \<Rightarrow> RouteMessage multiset) \<Rightarrow> 'k \<Rightarrow> NetOp \<Rightarrow> bool" where
  "shadowed rules routes k o1 \<longleftrightarrow> (\<exists>x\<in>#host_objects rules routes k. is_object x o1 \<and> \<not> is_plain x)"

text \<open>What the code takes for present.\<close>

definition seen :: "('k \<Rightarrow> RuleMessage multiset) \<Rightarrow> ('k \<Rightarrow> RouteMessage multiset) \<Rightarrow> 'k \<Rightarrow> NetOp \<Rightarrow> bool" where
  "seen rules routes k o1 \<longleftrightarrow> (\<exists>x\<in>#host_objects rules routes k. is_object x o1)"

lemma seen_iff: "seen rules routes k o1 \<longleftrightarrow> there rules routes k o1 \<or> shadowed rules routes k o1"
  by (auto simp: seen_def there_def shadowed_def)

context netlink_kernel
begin

lemma is_executor: "executor (nl_exec nl) (host_objects rules routes) is_object valid_add is_plain"
  by (rule live.executor_axioms)

text \<open>A run of additions that succeeded, in terms of what is there.\<close>

lemma additions_done:
  assumes "list_all valid_add os" and "apply_loop (nl_exec nl) os [] k = (Inr done, k')"
  shows "(\<exists>new. host_objects rules routes k' = host_objects rules routes k + mset new \<and>
      list_all2 (\<lambda>x o1. is_object x o1 \<and> is_plain x) new done) \<and>
    distinct done \<and> set done = {o1 \<in> set os. \<not> seen rules routes k o1} \<and>
    ((\<forall>o1\<in>set os. \<not> shadowed rules routes k o1) \<longrightarrow>
      (\<forall>o1\<in>set os. there rules routes k' o1) \<and> set done = {o1 \<in> set os. \<not> there rules routes k o1})"
proof -
  let ?h = "host_objects rules routes"
  have start: "live.installs (?h k) [] []" "?h k = ?h k + mset []" by simp_all
  from live.apply_loop_done [OF start assms] obtain ys where
    y: "live.installs (?h k) done ys" "?h k' = ?h k + mset ys"
    "set done \<subseteq> set os" "\<forall>o1\<in>set os. o1 \<in> set done \<or> seen rules routes k o1"
    by (auto simp: seen_def)
  have ys: "list_all2 (\<lambda>x o1. is_object x o1 \<and> is_plain x) ys done" "distinct done"
    and absent: "\<forall>o1\<in>set done. \<not> seen rules routes k o1"
    using y(1) by (auto simp: live.installs_def seen_def list_all2_conv_all_nth list_all_length)
  have all: "set done = {o1 \<in> set os. \<not> seen rules routes k o1}" using y(3,4) absent by auto
  have "there rules routes k' o1" if "o1 \<in> set done \<or> there rules routes k o1" for o1
    using that y(2) list_all2_left [OF ys(1), of o1] by (fastforce simp: there_def)
  with y ys all show ?thesis by (auto simp: seen_iff)
qed

lemma op_there_result:
  assumes "is_add o1" and "op_there nl o1 k = (Inr b, k')"
  shows "same k k' \<and> b = seen rules routes k o1"
proof (cases o1)
  case (AddRule spec)
  obtain f where f: "find_rule nl spec k = (f, k')" "map_sum (\<lambda>e. e) (\<lambda>m. m \<noteq> None) f = Inr b"
    using assms(2) AddRule by (cases "find_rule nl spec k") (auto simp: op_there_def)
  note fr = find_rule_result [OF f(1)]
  show ?thesis
  proof (cases b)
    case True
    then obtain m where "f = Inr (Some m)" using f(2) by (cases f) auto
    then have "RuleObject m \<in># host_objects rules routes k" "is_object (RuleObject m) o1"
      using fr(2) AddRule by (auto simp: host_objects_def)
    with fr(1) True show ?thesis unfolding seen_def by blast
  next
    case False
    then have "f = Inr None" using f(2) by (cases f) auto
    with fr(1,3) False AddRule show ?thesis by (simp add: seen_def)
  qed
next
  case (AddRoute spec)
  obtain f where f: "find_route nl spec k = (f, k')" "map_sum (\<lambda>e. e) (\<lambda>m. m \<noteq> None) f = Inr b"
    using assms(2) AddRoute by (cases "find_route nl spec k") (auto simp: op_there_def)
  note fr = find_route_result [OF f(1)]
  show ?thesis
  proof (cases b)
    case True
    then obtain m where "f = Inr (Some m)" using f(2) by (cases f) auto
    then have "RouteObject m \<in># host_objects rules routes k" "is_object (RouteObject m) o1"
      using fr(2) AddRoute by (auto simp: host_objects_def)
    with fr(1) True show ?thesis unfolding seen_def by blast
  next
    case False
    then have "f = Inr None" using f(2) by (cases f) auto
    with fr(1,3) False AddRoute show ?thesis by (simp add: seen_def)
  qed
qed (use assms(1) in simp_all)

lemma seen_same: "same k k' \<Longrightarrow> seen rules routes k' = seen rules routes k"
  by (simp add: seen_def same_host fun_eq_iff)

lemma present_ops_result:
  assumes "list_all is_add os" and "nl_present_ops nl os k = (Inr found, k')"
  shows "same k k' \<and> found = filter (seen rules routes k) os"
  using assms
proof (induction os arbitrary: k found)
  case (Cons o1 os)
  obtain r1 k1 where p: "op_there nl o1 k = (r1, k1)" by fastforce
  then obtain b where b: "r1 = Inr b" using Cons.prems(2) by (cases r1) auto
  obtain r2 k2 where q: "nl_present_ops nl os k1 = (r2, k2)" by fastforce
  then obtain fs where fs: "r2 = Inr fs" using Cons.prems(2) p b by (cases r2) auto
  have r: "k2 = k'" "found = (if b then o1 # fs else fs)" using Cons.prems(2) p q b fs by auto
  have s1: "same k k1" "b = seen rules routes k o1"
    using op_there_result [of o1 k b k1] p b Cons.prems(1) by auto
  have s2: "same k1 k2" "fs = filter (seen rules routes k1) os"
    using Cons.IH [of k1 fs] q fs r(1) Cons.prems(1) by auto
  show ?case using r s1 s2 seen_same [OF s1(1)] by (auto simp: same_def)
qed (simp add: same_def)

end

section \<open>A concrete host\<close>

record demo_host =
  dh_rules :: "RuleMessage list"
  dh_routes :: "RouteMessage list"

definition demo_rule :: "RuleRequest \<Rightarrow> RuleMessage" where
  "demo_rule rq =
     \<lparr>rm_family = af_of (rq_family rq), rm_table = 0, rm_action = rq_action rq,
      rm_attributes = (case rq_table rq of Some t \<Rightarrow> [RuleTable t] | None \<Rightarrow> []) @ [RulePriority (rq_priority rq)] @
        (case rq_fwmark rq of Some m \<Rightarrow> [RuleFwMark m, RuleFwMask 0xffffffff] | None \<Rightarrow> [])\<rparr>"

text \<open>It refuses a route through the interface with index 0.\<close>

definition demo_nl :: "demo_host netlink" where
  "demo_nl =
     \<lparr>nl_rule_dump = (\<lambda>fam k. (map Inr (filter (\<lambda>m. rm_family m = af_of fam) (dh_rules k)), k)),
      nl_rule_add = (\<lambda>rq k. (Inr (), k\<lparr>dh_rules := dh_rules k @ [demo_rule rq]\<rparr>)),
      nl_rule_del = (\<lambda>m k. if m \<in> set (dh_rules k) then (Inr (), k\<lparr>dh_rules := remove1 m (dh_rules k)\<rparr>)
        else (Inl ''ENOENT'', k)),
      nl_route_dump = (\<lambda>af k. (map Inr (filter (\<lambda>m. af = Unspec \<or> rt_family m = af) (dh_routes k)), k)),
      nl_route_add = (\<lambda>m k. if RouteOif 0 \<in> set (rt_attributes m) then (Inl ''ENODEV'', k)
        else (Inr (), k\<lparr>dh_routes := dh_routes k @ [m]\<rparr>)),
      nl_route_del = (\<lambda>m k. if m \<in> set (dh_routes k) then (Inr (), k\<lparr>dh_routes := remove1 m (dh_routes k)\<rparr>)
        else (Inl ''ESRCH'', k))\<rparr>"

lemma dump_of_all: "dump_of (mset ms) (map Inr ms)"
  unfolding dump_of_def by blast

lemma demo_rule_shown: "rule_shown rq (demo_rule rq)"
  by (auto simp: rule_shown_def demo_rule_def rule_table_def split: option.splits)

interpretation demo: netlink_kernel demo_nl "\<lambda>k. mset (dh_rules k)" "\<lambda>k. mset (dh_routes k)"
  by unfold_locales
    (auto simp: demo_nl_def demo_rule_shown route_shown_def dump_of_all simp flip: mset_filter
      split: if_splits)

end
