(* ===== verification/Net_Txn_Props.thy ===== *)
theory Net_Txn_Props
  imports Net_Txn
begin

text \<open>
  The properties of route transactions on any kernel that keeps \<open>netlink_kernel\<close>, with a
  concrete host for their witnesses.
\<close>

section \<open>What the matcher does not look at\<close>

text \<open>A rule with further selectors (a source, an interface) still passes for ours.\<close>

lemma find_map_append: "find_map f (xs @ ys) = (case find_map f xs of Some y \<Rightarrow> Some y | None \<Rightarrow> find_map f ys)"
  by (induction xs) (auto split: option.splits)

lemma rule_matches_ignores_selectors:
  "rule_matches (m\<lparr>rm_attributes := rm_attributes m @ [RuleSelector selector]\<rparr>) spec \<longleftrightarrow> rule_matches m spec"
  by (simp add: rule_matches_def rule_table_def find_map_append split: option.splits)

section \<open>Properties\<close>


text \<open>The exception: an operation shadowed by such a rule is skipped, and never put there.\<close>

lemma shadowed_operation_skipped:
  assumes "netlink_kernel nl rules routes" and "list_all valid_add (rt_ops txn)"
    and "txn_apply (nl_exec nl) txn k = (Inr done, k')" and "shadowed rules routes k o1"
  shows "o1 \<notin> set done"
  using netlink_kernel.additions_done [OF assms(1,2), of k "done" k'] assms(3,4)
  by (auto simp: txn_apply_def seen_iff)

definition demo_foreign :: RuleMessage where
  "demo_foreign = \<lparr>rm_family = Inet, rm_table = 254, rm_action = NlToTable, rm_attributes = [RulePriority 32766]\<rparr>"

definition demo_k :: demo_host where
  "demo_k = \<lparr>dh_rules = [demo_foreign], dh_routes = []\<rparr>"

text \<open>The second operation is refused: no interface has index 0.\<close>

definition demo_txn :: "u32 \<Rightarrow> RouteTransaction" where
  "demo_txn oif = \<lparr>rt_plan = demo_plan, rt_ops =
     [tunnel_rule 51820 V4, AddRoute \<lparr>ro_table = 51820, ro_dest = V4_DEFAULT, ro_oif = oif\<rparr>]\<rparr>"

lemmas demo_eval = demo_txn_def demo_k_def txn_apply_def demo_nl_def add_rule_def add_route_def find_rule_def
  find_route_def rule_matches_def rule_table_def demo_foreign_def tunnel_rule_def rule_request_def build_route_def
  demo_rule_def V4_DEFAULT_def V6_DEFAULT_def FULL_TUNNEL_RULE_PRIORITY_def route_matches_def route_table_def


lemma demo_txn_valid: "list_all valid_add (rt_ops (demo_txn oif))"
  by (simp add: demo_txn_def tunnel_rule_def FULL_TUNNEL_RULE_PRIORITY_def RT_TABLE_COMPAT_def V4_DEFAULT_def)


text \<open>
  C40. Drift repair converges: probing the desired operations and applying those that are missing
  leaves the host with everything it had and exactly one new object for each desired operation
  that was missing, of its full shape, and with nothing else; so every desired operation is there
  afterwards, and a host without drift is left as it is. The host is assumed to hold no foreign
  rule with the tuple of a desired one and further selectors, which the probe takes for present.
\<close>

theorem repair_restores_desired:
  assumes "netlink_kernel nl rules routes" and "list_all valid_add desired"
    and "\<forall>o1\<in>set desired. \<not> shadowed rules routes k o1"
    and "nl_present_ops nl desired k = (Inr present, k1)"
    and "txn_apply (nl_exec nl) \<lparr>rt_plan = plan, rt_ops = repair_ops desired present\<rparr> k1 = (Inr done, k')"
  shows "list_all (there rules routes k') desired \<and>
    (\<exists>missing new. distinct missing \<and> set missing = {o1 \<in> set desired. \<not> there rules routes k o1} \<and>
      host_objects rules routes k' = host_objects rules routes k + mset new \<and>
      list_all2 (\<lambda>x o1. is_object x o1 \<and> is_plain x) new missing) \<and>
    (list_all (there rules routes k) desired \<longrightarrow>
      repair_ops desired present = [] \<and> host_objects rules routes k' = host_objects rules routes k)"
proof -
  let ?h = "host_objects rules routes" and ?m = "repair_ops desired present"
  have adds: "list_all is_add desired"
    using assms(2) by (auto simp: list_all_iff elim!: valid_add.elims)
  have p: "?h k1 = ?h k" "present = filter (seen rules routes k) desired"
    using netlink_kernel.present_ops_result [OF assms(1) adds assms(4)] netlink_kernel.same_host [OF assms(1)] by auto
  have st: "seen rules routes k o1 = there rules routes k o1" if "o1 \<in> set desired" for o1
    using assms(3) that by (simp add: seen_iff)
  have m: "set ?m = {o1 \<in> set desired. \<not> there rules routes k o1}" using p(2) st by (auto simp: repair_ops_def)
  have v: "list_all valid_add ?m" using assms(2) by (auto simp: repair_ops_def list_all_iff)
  have run: "apply_loop (nl_exec nl) ?m [] k1 = (Inr done, k')" using assms(5) by (simp add: txn_apply_def)
  have "\<forall>o1\<in>set ?m. \<not> shadowed rules routes k1 o1" using assms(3) m p(1) by (auto simp: shadowed_def)
  moreover have "there rules routes k1 = there rules routes k" using p(1) by (simp add: there_def fun_eq_iff)
  ultimately obtain new where new: "?h k' = ?h k + mset new" "list_all2 (\<lambda>x o1. is_object x o1 \<and> is_plain x) new done"
    "distinct done" "set done = set ?m" "\<forall>o1\<in>set ?m. there rules routes k' o1"
    using netlink_kernel.additions_done [OF assms(1) v run] p(1) m by auto
  have "there rules routes k' o1" if "o1 \<in> set desired" for o1
    using that new(1,5) m by (cases "there rules routes k o1") (auto simp: there_def)
  then have "list_all (there rules routes k') desired" by (simp add: list_all_iff)
  moreover have "?m = []" "?h k' = ?h k" if "list_all (there rules routes k) desired"
  proof -
    have "set ?m = {}" unfolding m using that by (auto simp: list_all_iff)
    then show "?m = []" by simp
    then show "?h k' = ?h k" using new(1,2,4) by simp
  qed
  moreover have "\<exists>missing new. distinct missing \<and> set missing = {o1 \<in> set desired. \<not> there rules routes k o1} \<and>
      ?h k' = ?h k + mset new \<and> list_all2 (\<lambda>x o1. is_object x o1 \<and> is_plain x) new missing"
    by (rule exI [of _ "done"], rule exI [of _ new]) (simp only: new(1,2,3,4) m simp_thms)
  ultimately show ?thesis by simp
qed

theorem repair_restores_desired_witness:
  "list_all (there (\<lambda>k. mset (dh_rules k)) (\<lambda>k. mset (dh_routes k))
     (snd (txn_apply (nl_exec demo_nl) (demo_txn 7) demo_k))) (rt_ops (demo_txn 7))"
proof -
  have p: "nl_present_ops demo_nl (rt_ops (demo_txn 7)) demo_k = (Inr [], demo_k)"
    by (simp add: demo_eval op_there_def)
  obtain fin k' where run: "txn_apply (nl_exec demo_nl) (demo_txn 7) demo_k = (Inr fin, k')"
    by (simp add: demo_eval)
  have "\<lparr>rt_plan = demo_plan, rt_ops = repair_ops (rt_ops (demo_txn 7)) []\<rparr> = demo_txn 7"
    by (simp add: repair_ops_def demo_txn_def)
  moreover have "\<forall>o1\<in>set (rt_ops (demo_txn 7)). \<not> shadowed (\<lambda>k. mset (dh_rules k)) (\<lambda>k. mset (dh_routes k)) demo_k o1"
    by (simp add: shadowed_def host_objects_def demo_eval)
  ultimately show ?thesis
    using repair_restores_desired [OF demo.netlink_kernel_axioms demo_txn_valid _ p, of demo_plan] run by auto
qed

end
