(* ===== verification/Kill_Switch.thy ===== *)
theory Kill_Switch
  imports Net_Routes
begin

text \<open>
  The nftables kill switch (\<open>net/src/kill_switch.rs\<close>, \<open>net/src/permanent.rs\<close>). Rules are the
  expression lists the code builds; \<open>run_chain\<close> is what the kernel does with them, a walk over
  one register, and the specification \<open>permitted\<close> (of the properties' theory) is the allowlist the
  module documents. The
  \<open>rustables\<close> crate and the kernel behind it are the record \<open>nft\<close> of functions on a host state.
\<close>

section \<open>Names, policy and ownership\<close>

definition TABLE_NAME :: string where
  "TABLE_NAME = ''protonwire''"

definition OUTPUT_CHAIN :: string where
  "OUTPUT_CHAIN = ''pw-output''"

definition MARKER_PREFIX :: string where
  "MARKER_PREFIX = ''pw-gen-''"

record LanPermit =
  lp_dest :: DestPrefix
  lp_oif :: u32

record KillSwitchPolicy =
  ks_tun_ifindex :: u32
  ks_allow_dhcp_v4 :: bool
  ks_lan_permits :: "LanPermit list"
  ks_bypass_mark :: u32

type_synonym GenerationId = u64

definition marker_chain_name :: "GenerationId \<Rightarrow> string" where
  "marker_chain_name g = MARKER_PREFIX @ hex_fixed 16 g"

definition from_chain_name :: "string \<Rightarrow> GenerationId option" where
  "from_chain_name name =
     (case strip_prefix MARKER_PREFIX name of
        None \<Rightarrow> None
      | Some hex \<Rightarrow>
          if length hex \<noteq> 16 \<or> \<not> list_all (\<lambda>c. to_digit 16 c \<noteq> None) hex then None
          else from_str_radix u64_max 16 hex)"

datatype ApplyDecision = FreshApply | ReplaceOwned GenerationId | RefuseLookalike

definition decide_live :: "GenerationId list option \<Rightarrow> GenerationId option \<Rightarrow> ApplyDecision" where
  "decide_live table_markers persisted_prior =
     (case table_markers of
        None \<Rightarrow> FreshApply
      | Some [marker] \<Rightarrow>
          (case persisted_prior of
             Some prior \<Rightarrow> if marker = prior then ReplaceOwned marker else RefuseLookalike
           | None \<Rightarrow> RefuseLookalike)
      | Some _ \<Rightarrow> RefuseLookalike)"

text \<open>The texts of the validation errors, as the data they carry.\<close>

datatype validation_fault =
    ZeroBypassMark
  | UnusableLanPermit DestPrefix
  | AmbiguousTables
  | NoTable
  | MarkerMismatch "GenerationId list"
  | RuleCount nat nat
  | OutputChainMissing
  | ProbeNotDropped
  | ProbeRuleMissing
  | TerminalDropMissing

datatype KillSwitchError = Lookalike | Netfilter string | Validation validation_fault | MissingInterface string

section \<open>Rules\<close>

datatype MetaType = MetaOif | MetaNfProto | MetaMark

datatype Payload = UdpDport | Ipv4Daddr | Ipv6Daddr

datatype VerdictKind = Accept | Drop

datatype expr =
    Meta MetaType
  | CmpEq "8 word list"
  | LoadPayload Payload
  | Bitwise "8 word list" "8 word list"
  | Counter "u64 option"
  | Immediate VerdictKind

type_synonym nft_rule = "expr list"

text \<open>\<open>u32::to_le_bytes\<close> and \<open>u16::to_be_bytes\<close>.\<close>

definition le_bytes :: "u32 \<Rightarrow> 8 word list" where
  "le_bytes n = [word_of_nat n, word_of_nat (n div 256), word_of_nat (n div 65536), word_of_nat (n div 16777216)]"

definition be_bytes16 :: "u16 \<Rightarrow> 8 word list" where
  "be_bytes16 n = [word_of_nat (n div 256), word_of_nat n]"

definition expected_rule_count :: "KillSwitchPolicy \<Rightarrow> nat" where
  "expected_rule_count pol = 2 + (if ks_allow_dhcp_v4 pol then 1 else 0) + length (ks_lan_permits pol) + 1 + 1 + 1"

definition PROBE_DESTINATION :: "8 word list" where
  "PROBE_DESTINATION = [192, 0, 2, 1]"

definition allow_oif :: "u32 \<Rightarrow> nft_rule" where
  "allow_oif ifindex = [Meta MetaOif, CmpEq (le_bytes ifindex), Immediate Accept]"

text \<open>\<open>prefix_mask\<close>: one byte of mask for each byte of the address.\<close>

definition mask_byte :: "nat \<Rightarrow> 8 word" where
  "mask_byte covered =
     (if covered = 0 then 0 else if 8 \<le> covered then 0xff else push_bit (8 - covered) 0xff)"

definition prefix_mask :: "DestPrefix \<Rightarrow> 8 word list" where
  "prefix_mask dest = map (\<lambda>i. mask_byte (dp_len dest - i * 8)) [0..<length (octets (dp_addr dest))]"

definition network_address :: "DestPrefix \<Rightarrow> 8 word list" where
  "network_address dest = map2 (AND) (octets (dp_addr dest)) (prefix_mask dest)"

definition render_lan_permit :: "LanPermit \<Rightarrow> nft_rule" where
  "render_lan_permit permit =
     [Meta MetaOif, CmpEq (le_bytes (lp_oif permit)), Meta MetaNfProto] @
     (case dp_addr (lp_dest permit) of
        IpV4 _ \<Rightarrow> [CmpEq [2], LoadPayload Ipv4Daddr]
      | IpV6 _ \<Rightarrow> [CmpEq [10], LoadPayload Ipv6Daddr]) @
     [Bitwise (prefix_mask (lp_dest permit)) (replicate (length (prefix_mask (lp_dest permit))) 0),
      CmpEq (network_address (lp_dest permit)), Immediate Accept]"

definition dhcp_rule :: nft_rule where
  "dhcp_rule = [Meta MetaNfProto, CmpEq [2], LoadPayload UdpDport, CmpEq (be_bytes16 67), Immediate Accept]"

definition bypass_mark_rule :: "u32 \<Rightarrow> nft_rule" where
  "bypass_mark_rule mark = [Meta MetaMark, CmpEq (le_bytes mark), Immediate Accept]"

definition probe_rule :: nft_rule where
  "probe_rule = [Meta MetaNfProto, CmpEq [2], LoadPayload Ipv4Daddr, CmpEq PROBE_DESTINATION, Counter None]"

definition terminal_drop :: nft_rule where
  "terminal_drop = [Counter None, Immediate Drop]"

text \<open>\<open>render_rules\<close>, with the kernel index of \<open>lo\<close> looked up by the caller.\<close>

definition render_rules :: "u32 \<Rightarrow> KillSwitchPolicy \<Rightarrow> nft_rule list" where
  "render_rules lo pol =
     [allow_oif (ks_tun_ifindex pol), allow_oif lo] @
     (if ks_allow_dhcp_v4 pol then [dhcp_rule] else []) @
     map render_lan_permit (ks_lan_permits pol) @
     [bypass_mark_rule (ks_bypass_mark pol), probe_rule, terminal_drop]"

section \<open>What the kernel does with a chain\<close>

text \<open>
  A packet as the hooks see it: output interface, family (2 is IPv4, 10 is IPv6), mark, the
  destination address of its network header, its transport protocol (17 is UDP) and its
  transport header. No rule of the switch reads the protocol; the documentation speaks of it.
\<close>

record packet =
  pk_oif :: u32
  pk_nfproto :: "8 word"
  pk_mark :: u32
  pk_daddr :: "8 word list"
  pk_l4proto :: "8 word"
  pk_transport :: "8 word list"

primrec load_meta :: "MetaType \<Rightarrow> packet \<Rightarrow> 8 word list" where
  "load_meta MetaOif p = le_bytes (pk_oif p)"
| "load_meta MetaNfProto p = [pk_nfproto p]"
| "load_meta MetaMark p = le_bytes (pk_mark p)"

text \<open>A payload that the packet is too short for ends the rule.\<close>

primrec load_payload :: "Payload \<Rightarrow> packet \<Rightarrow> 8 word list option" where
  "load_payload UdpDport p =
     (if 4 \<le> length (pk_transport p) then Some (take 2 (drop 2 (pk_transport p))) else None)"
| "load_payload Ipv4Daddr p = (if 4 \<le> length (pk_daddr p) then Some (take 4 (pk_daddr p)) else None)"
| "load_payload Ipv6Daddr p = (if 16 \<le> length (pk_daddr p) then Some (take 16 (pk_daddr p)) else None)"

datatype rule_outcome = NoMatch | PassedOver | Decided VerdictKind

text \<open>One rule: the outcome and whether a counter was passed on the way.\<close>

fun run_rule :: "nft_rule \<Rightarrow> packet \<Rightarrow> 8 word list \<Rightarrow> bool \<Rightarrow> rule_outcome \<times> bool" where
  "run_rule [] p reg counted = (PassedOver, counted)"
| "run_rule (Meta m # es) p reg counted = run_rule es p (load_meta m p) counted"
| "run_rule (CmpEq d # es) p reg counted = (if reg = d then run_rule es p reg counted else (NoMatch, counted))"
| "run_rule (LoadPayload l # es) p reg counted =
     (case load_payload l p of Some d \<Rightarrow> run_rule es p d counted | None \<Rightarrow> (NoMatch, counted))"
| "run_rule (Bitwise m x # es) p reg counted =
     run_rule es p (map2 (XOR) (map2 (AND) reg m) x) counted"
| "run_rule (Counter c # es) p reg counted = run_rule es p reg True"
| "run_rule (Immediate v # es) p reg counted = (Decided v, counted)"

text \<open>A base chain whose policy is drop: the verdict, and which rules counted the packet.\<close>

fun run_chain :: "nft_rule list \<Rightarrow> packet \<Rightarrow> VerdictKind \<times> bool list" where
  "run_chain [] p = (Drop, [])"
| "run_chain (r # rs) p =
     (case run_rule r p [] False of
        (Decided v, c) \<Rightarrow> (v, c # replicate (length rs) False)
      | (_, c) \<Rightarrow> (case run_chain rs p of (v, cs) \<Rightarrow> (v, c # cs)))"

section \<open>The live surface\<close>

record nft_table = nt_name :: "string option"   nt_handle :: nat

record nft_chain = nc_name :: "string option"   nc_handle :: nat

datatype nft_msg =
    DelTable nft_table
  | AddTable string
  | AddChain string
  | AddDropOutputChain string
  | AddNftRule nft_rule

record 'n nft =
  nft_list_tables :: "'n \<Rightarrow> string + nft_table list"
  nft_list_chains :: "nft_table \<Rightarrow> 'n \<Rightarrow> string + nft_chain list"
  nft_list_rules :: "nft_chain \<Rightarrow> 'n \<Rightarrow> string + nft_rule option list"
  nft_iface_index :: "string \<Rightarrow> 'n \<Rightarrow> string + u32"
  nft_send :: "nft_msg list \<Rightarrow> 'n \<Rightarrow> (string + unit) \<times> 'n"
  nft_send_probe :: "string \<Rightarrow> 'n \<Rightarrow> (string + unit) \<times> 'n"

definition nf :: "(string + 'a) \<Rightarrow> (KillSwitchError, 'a) res" where
  "nf r = (case r of Inl e \<Rightarrow> Err (Netfilter e) | Inr x \<Rightarrow> Ok x)"

definition tables_named_us :: "'n nft \<Rightarrow> 'n \<Rightarrow> (KillSwitchError, nft_table list) res" where
  "tables_named_us nft s =
     and_then (nf (nft_list_tables nft s)) (\<lambda>ts. Ok (filter (\<lambda>t. nt_name t = Some TABLE_NAME) ts))"

definition marker_generations :: "'n nft \<Rightarrow> nft_table \<Rightarrow> 'n \<Rightarrow> (KillSwitchError, GenerationId list) res" where
  "marker_generations nft t s =
     and_then (nf (nft_list_chains nft t s))
       (\<lambda>cs. Ok (List.map_filter (\<lambda>c. Option.bind (nc_name c) from_chain_name) cs))"

text \<open>The chains of the output chain's name, for \<open>validate\<close> and the counters.\<close>

definition output_chains :: "nft_chain list \<Rightarrow> nft_chain list" where
  "output_chains cs = filter (\<lambda>c. nc_name c = Some OUTPUT_CHAIN) cs"

fun validate_counts :: "'n nft \<Rightarrow> KillSwitchPolicy \<Rightarrow> nft_chain list \<Rightarrow> 'n \<Rightarrow> (KillSwitchError, unit) res" where
  "validate_counts nft pol [] s = Ok ()"
| "validate_counts nft pol (c # cs) s =
     and_then (nf (nft_list_rules nft c s))
       (\<lambda>rs. if length rs \<noteq> expected_rule_count pol
             then Err (Validation (RuleCount (length rs) (expected_rule_count pol)))
             else validate_counts nft pol cs s)"

definition ks_validate :: "'n nft \<Rightarrow> KillSwitchPolicy \<Rightarrow> GenerationId \<Rightarrow> 'n \<Rightarrow> (KillSwitchError, unit) res" where
  "ks_validate nft pol g s =
     and_then (tables_named_us nft s) (\<lambda>named_us.
       if 1 < length named_us then Err (Validation AmbiguousTables)
       else case named_us of
           [] \<Rightarrow> Err (Validation NoTable)
         | t # _ \<Rightarrow>
             and_then (marker_generations nft t s) (\<lambda>markers.
               if markers \<noteq> [g] then Err (Validation (MarkerMismatch markers))
               else and_then (nf (nft_list_chains nft t s)) (\<lambda>cs.
                 and_then (validate_counts nft pol (output_chains cs) s) (\<lambda>_.
                   if output_chains cs = [] then Err (Validation OutputChainMissing) else Ok ()))))"

text \<open>\<open>dropped_packets\<close>: the first counter of the first rule of the output chain without a verdict.\<close>

definition has_verdict :: "nft_rule \<Rightarrow> bool" where
  "has_verdict r \<longleftrightarrow> list_ex (\<lambda>e. case e of Immediate _ \<Rightarrow> True | _ \<Rightarrow> False) r"

definition first_counter :: "nft_rule \<Rightarrow> u64 option" where
  "first_counter r = find_map (\<lambda>e. case e of Counter n \<Rightarrow> Some (case n of Some c \<Rightarrow> c | None \<Rightarrow> 0) | _ \<Rightarrow> None) r"

definition rules_counter :: "(nft_rule \<Rightarrow> bool) \<Rightarrow> nft_rule option list \<Rightarrow> u64 option" where
  "rules_counter wanted rs =
     find_map (\<lambda>r. case r of Some es \<Rightarrow> if wanted es then first_counter es else None | None \<Rightarrow> None) rs"

fun chains_counter :: "'n nft \<Rightarrow> (nft_rule \<Rightarrow> bool) \<Rightarrow> validation_fault \<Rightarrow> nft_chain list \<Rightarrow> 'n \<Rightarrow>
    (KillSwitchError, u64) res" where
  "chains_counter nft wanted missing [] s = Err (Validation missing)"
| "chains_counter nft wanted missing (c # cs) s =
     and_then (nf (nft_list_rules nft c s))
       (\<lambda>rs. case rules_counter wanted rs of Some n \<Rightarrow> Ok n | None \<Rightarrow> chains_counter nft wanted missing cs s)"

definition table_counter :: "'n nft \<Rightarrow> (nft_rule \<Rightarrow> bool) \<Rightarrow> validation_fault \<Rightarrow> 'n \<Rightarrow> (KillSwitchError, u64) res" where
  "table_counter nft wanted missing s =
     and_then (tables_named_us nft s) (\<lambda>named_us.
       if 1 < length named_us then Err (Validation AmbiguousTables)
       else case named_us of
           [] \<Rightarrow> Err (Validation NoTable)
         | t # _ \<Rightarrow>
             and_then (nf (nft_list_chains nft t s))
               (\<lambda>cs. chains_counter nft wanted missing (output_chains cs) s))"

definition dropped_packets :: "'n nft \<Rightarrow> 'n \<Rightarrow> (KillSwitchError, u64) res" where
  "dropped_packets nft s = table_counter nft (\<lambda>es. \<not> has_verdict es) ProbeRuleMissing s"

definition terminal_drop_packets :: "'n nft \<Rightarrow> 'n \<Rightarrow> (KillSwitchError, u64) res" where
  "terminal_drop_packets nft s = table_counter nft has_verdict TerminalDropMissing s"

definition enforcement_probe :: "'n nft \<Rightarrow> string \<Rightarrow> 'n \<Rightarrow> (KillSwitchError, unit) res \<times> 'n" where
  "enforcement_probe nft uplink_ifname s =
     (case dropped_packets nft s of
        Err e \<Rightarrow> (Err e, s)
      | Panic \<Rightarrow> (Panic, s)
      | Ok before \<Rightarrow>
        (case nft_send_probe nft uplink_ifname s of
           (Inl e, s') \<Rightarrow> (Err (Netfilter e), s')
         | (Inr _, s') \<Rightarrow>
             (and_then (dropped_packets nft s')
                (\<lambda>after. if before < after then Ok () else Err (Validation ProbeNotDropped)), s')))"

text \<open>The checks and look-ups of \<open>apply\<close> before anything is sent, giving the batch.\<close>

definition lan_permit_check :: "LanPermit \<Rightarrow> (KillSwitchError, unit) res" where
  "lan_permit_check permit =
     (let width = (case dp_addr (lp_dest permit) of IpV4 _ \<Rightarrow> 32 | IpV6 _ \<Rightarrow> 128) in
      if dp_len (lp_dest permit) = 0 \<or> width < dp_len (lp_dest permit)
      then Err (Validation (UnusableLanPermit (lp_dest permit))) else Ok ())"

definition ks_batch :: "'n nft \<Rightarrow> string \<Rightarrow> KillSwitchPolicy \<Rightarrow> GenerationId \<Rightarrow> GenerationId option \<Rightarrow> 'n \<Rightarrow>
    (KillSwitchError, KillSwitchPolicy \<times> nft_msg list) res" where
  "ks_batch nft tun_ifname pol g persisted_prior s =
     (if ks_bypass_mark pol = 0 then Err (Validation ZeroBypassMark)
      else and_then (for_each lan_permit_check (ks_lan_permits pol)) (\<lambda>_.
        case nft_iface_index nft tun_ifname s of
          Inl _ \<Rightarrow> Err (MissingInterface tun_ifname)
        | Inr tun \<Rightarrow>
          (let pol' = pol\<lparr>ks_tun_ifindex := tun\<rparr> in
           and_then (tables_named_us nft s) (\<lambda>named_us.
             if 1 < length named_us then Err Lookalike
             else and_then (case named_us of [] \<Rightarrow> Ok None
                   | t # _ \<Rightarrow> and_then (marker_generations nft t s) (\<lambda>ms. Ok (Some ms))) (\<lambda>markers.
               if decide_live markers persisted_prior = RefuseLookalike then Err Lookalike
               else and_then (nf (nft_iface_index nft ''lo'' s)) (\<lambda>lo.
                 Ok (pol', (case named_us of [] \<Rightarrow> [] | t # _ \<Rightarrow> [DelTable t]) @
                   [AddTable TABLE_NAME, AddChain (marker_chain_name g), AddDropOutputChain OUTPUT_CHAIN] @
                   map AddNftRule (render_rules lo pol'))))))))"

definition ks_apply :: "'n nft \<Rightarrow> string \<Rightarrow> string \<Rightarrow> KillSwitchPolicy \<Rightarrow> GenerationId \<Rightarrow> GenerationId option \<Rightarrow> 'n \<Rightarrow>
    (KillSwitchError, unit) res \<times> 'n" where
  "ks_apply nft tun_ifname uplink_ifname pol g persisted_prior s =
     (case ks_batch nft tun_ifname pol g persisted_prior s of
        Err e \<Rightarrow> (Err e, s)
      | Panic \<Rightarrow> (Panic, s)
      | Ok (pol', batch) \<Rightarrow>
        (case nft_send nft batch s of
           (Inl e, s') \<Rightarrow> (Err (Netfilter e), s')
         | (Inr _, s') \<Rightarrow>
           (case ks_validate nft pol' g s' of
              Err e \<Rightarrow> (Err e, s')
            | Panic \<Rightarrow> (Panic, s')
            | Ok _ \<Rightarrow> enforcement_probe nft uplink_ifname s')))"

definition ks_remove :: "'n nft \<Rightarrow> GenerationId option \<Rightarrow> 'n \<Rightarrow> (KillSwitchError, unit) res \<times> 'n" where
  "ks_remove nft persisted_prior s =
     (case tables_named_us nft s of
        Err e \<Rightarrow> (Err e, s)
      | Panic \<Rightarrow> (Panic, s)
      | Ok named_us \<Rightarrow>
          if 1 < length named_us then (Err Lookalike, s)
          else case named_us of
              [] \<Rightarrow> (Ok (), s)
            | t # _ \<Rightarrow>
              (case marker_generations nft t s of
                 Err e \<Rightarrow> (Err e, s)
               | Panic \<Rightarrow> (Panic, s)
               | Ok markers \<Rightarrow>
                   if decide_live (Some markers) persisted_prior = RefuseLookalike then (Err Lookalike, s)
                   else case nft_send nft [DelTable t] s of
                       (Inl e, s') \<Rightarrow> (Err (Netfilter e), s')
                     | (Inr _, s') \<Rightarrow> (Ok (), s')))"

text \<open>\<open>apply_early_firewall\<close>: the mark is the clock's nanoseconds made odd, or a constant.\<close>

definition early_policy :: "u32 option \<Rightarrow> KillSwitchPolicy" where
  "early_policy subsec_nanos =
     \<lparr>ks_tun_ifindex = 0, ks_allow_dhcp_v4 = True, ks_lan_permits = [],
      ks_bypass_mark = (case subsec_nanos of Some n \<Rightarrow> (if even n then n + 1 else n) | None \<Rightarrow> 0x5A01)\<rparr>"

definition apply_early_firewall :: "'n nft \<Rightarrow> u32 option \<Rightarrow> GenerationId \<Rightarrow> 'n \<Rightarrow> (KillSwitchError, unit) res \<times> 'n" where
  "apply_early_firewall nft subsec_nanos g s = ks_apply nft ''lo'' ''lo'' (early_policy subsec_nanos) g None s"

definition remove_early_firewall :: "'n nft \<Rightarrow> GenerationId \<Rightarrow> 'n \<Rightarrow> (KillSwitchError, unit) res \<times> 'n" where
  "remove_early_firewall nft g s = ks_remove nft (Some g) s"

end
