(* ===== verification/Kill_Switch_Props.thy ===== *)
theory Kill_Switch_Props
  imports Kill_Switch
begin

text \<open>
  What the kill switch guarantees: the rendered chain lets exactly the documented allowlist
  through, masks and byte orders included, but for one divergence that is stated by itself (IPv4
  to port 67 over another transport than UDP); the probe counts exactly the probes that die, and
  \<open>apply\<close> and \<open>remove\<close> change nothing they cannot prove to be theirs.
\<close>

section \<open>Bytes\<close>

lemma div_mod_eq: "a mod n = b mod n \<Longrightarrow> a div n = b div n \<Longrightarrow> a = (b :: nat)"
  by (metis div_mult_mod_eq)

lemma word8_of_nat_eq: "(word_of_nat a :: 8 word) = word_of_nat b \<longleftrightarrow> a mod 256 = b mod 256"
  by (simp add: of_nat_eq_iff [symmetric] word_of_nat_eq_iff take_bit_eq_mod)

lemma le_bytes_inj:
  assumes "a < 2 ^ 32" and "b < 2 ^ 32"
  shows "le_bytes a = le_bytes b \<longleftrightarrow> a = b"
proof
  assume "le_bytes a = le_bytes b"
  then have m: "a mod 256 = b mod 256" "a div 256 mod 256 = b div 256 mod 256"
    "a div 65536 mod 256 = b div 65536 mod 256" "a div 16777216 mod 256 = b div 16777216 mod 256"
    by (simp_all add: le_bytes_def word8_of_nat_eq)
  have "a div 16777216 = b div 16777216" using m(4) assms by simp
  then have "a div 65536 div 256 = b div 65536 div 256" by (simp add: div_mult2_eq [symmetric])
  from div_mod_eq [OF m(3) this] have "a div 256 div 256 = b div 256 div 256" by (simp add: div_mult2_eq [symmetric])
  from div_mod_eq [OF m(2) this] show "a = b" by (rule div_mod_eq [OF m(1)])
qed simp

section \<open>Prefixes\<close>

text \<open>The bits of an address, the most significant first.\<close>

definition byte_bits :: "8 word \<Rightarrow> bool list" where
  "byte_bits w = map (\<lambda>j. bit w (7 - j)) [0..<8]"

definition addr_bits :: "8 word list \<Rightarrow> bool list" where
  "addr_bits ws = concat (map byte_bits ws)"

lemma length_byte_bits [simp]: "length (byte_bits w) = 8"
  by (simp add: byte_bits_def)

lemma bit_255: "bit (255 :: 8 word) j \<longleftrightarrow> j < 8"
proof -
  have "(255 :: 8 word) = mask 8" by (simp add: mask_eq_exp_minus_1)
  then show ?thesis by (simp only: bit_mask_iff) simp
qed

lemma bit_mask_byte: "bit (mask_byte n) i \<longleftrightarrow> i < 8 \<and> 8 \<le> i + n"
  using bit_255 [of i] bit_255 [of "i + n - 8"] by (auto simp: mask_byte_def bit_push_bit_iff)

lemma masked_byte_eq:
  "a AND mask_byte n = b AND mask_byte n \<longleftrightarrow> take n (byte_bits a) = take n (byte_bits b)"
proof -
  have "a AND mask_byte n = b AND mask_byte n \<longleftrightarrow> (\<forall>i<8. 8 \<le> i + n \<longrightarrow> bit a i = bit b i)"
    by (auto simp: bit_eq_iff bit_and_iff bit_mask_byte)
  also have "\<dots> \<longleftrightarrow> (\<forall>j<8. j < n \<longrightarrow> bit a (7 - j) = bit b (7 - j))"
  proof (rule iffI; intro allI impI)
    fix j :: nat
    assume "\<forall>i<8. 8 \<le> i + n \<longrightarrow> bit a i = bit b i" "j < 8" "j < n"
    then show "bit a (7 - j) = bit b (7 - j)" by simp
  next
    fix i :: nat
    assume a: "\<forall>j<8. j < n \<longrightarrow> bit a (7 - j) = bit b (7 - j)" and i: "i < 8" "8 \<le> i + n"
    then have "7 - (7 - i) = i" "7 - i < 8" "7 - i < n" by simp_all
    with a show "bit a i = bit b i" by metis
  qed
  also have "\<dots> \<longleftrightarrow> take n (byte_bits a) = take n (byte_bits b)"
    by (auto simp: list_eq_iff_nth_eq byte_bits_def)
  finally show ?thesis .
qed

definition masks :: "nat \<Rightarrow> nat \<Rightarrow> 8 word list" where
  "masks n l = map (\<lambda>i. mask_byte (n - i * 8)) [0..<l]"

lemma masks_simps [simp]: "masks n 0 = []" "masks n (Suc l) = mask_byte n # masks (n - 8) l"
proof -
  have "masks n (Suc l) = mask_byte n # map (\<lambda>i. mask_byte (n - (8 + i * 8))) [0..<l]"
    by (simp add: masks_def map_upt_Suc del: upt_Suc)
  then show "masks n (Suc l) = mask_byte n # masks (n - 8) l" by (simp add: masks_def)
qed (simp add: masks_def)

lemma length_masks [simp]: "length (masks n l) = l"
  by (simp add: masks_def)

lemma masked_address_eq:
  "length a = length b \<Longrightarrow>
   map2 (AND) a (masks n (length a)) = map2 (AND) b (masks n (length b)) \<longleftrightarrow>
   take n (addr_bits a) = take n (addr_bits b)"
proof (induction a b arbitrary: n rule: list_induct2)
  case (Cons x xs y ys)
  then show ?case by (auto simp: addr_bits_def masked_byte_eq)
qed simp

lemma map2_xor_zero: "length xs = n \<Longrightarrow> map2 (XOR) xs (replicate n (0 :: 8 word)) = xs"
  by (induction xs arbitrary: n) auto

section \<open>The allowlist\<close>

definition family_byte :: "IpAddr \<Rightarrow> 8 word" where
  "family_byte a = (case a of IpV4 _ \<Rightarrow> 2 | IpV6 _ \<Rightarrow> 10)"

text \<open>The destination shares the first \<open>len\<close> bits of the prefix.\<close>

definition in_prefix :: "packet \<Rightarrow> DestPrefix \<Rightarrow> bool" where
  "in_prefix p dest \<longleftrightarrow>
     pk_nfproto p = family_byte (dp_addr dest) \<and>
     take (dp_len dest) (addr_bits (pk_daddr p)) = take (dp_len dest) (addr_bits (octets (dp_addr dest)))"

text \<open>IPv4 to destination port 67, whatever the transport.\<close>

definition v4_port_67 :: "packet \<Rightarrow> bool" where
  "v4_port_67 p \<longleftrightarrow>
     pk_nfproto p = 2 \<and> 4 \<le> length (pk_transport p) \<and> take 2 (drop 2 (pk_transport p)) = [0, 67]"

text \<open>
  The documented allowlist: the TUN, loopback, the IPv4 DHCP bootstrap to udp/67 where it is
  allowed, the LAN permits, the bypass mark.
\<close>

definition permitted :: "u32 \<Rightarrow> KillSwitchPolicy \<Rightarrow> packet \<Rightarrow> bool" where
  "permitted lo pol p \<longleftrightarrow>
     pk_oif p = ks_tun_ifindex pol \<or> pk_oif p = lo \<or>
     (ks_allow_dhcp_v4 pol \<and> v4_port_67 p \<and> pk_l4proto p = 17) \<or>
     (\<exists>permit\<in>set (ks_lan_permits pol). pk_oif p = lp_oif permit \<and> in_prefix p (lp_dest permit)) \<or>
     pk_mark p = ks_bypass_mark pol"

text \<open>The packets on which the code departs from it: port 67 over a transport other than UDP.\<close>

definition dhcp_gap :: "KillSwitchPolicy \<Rightarrow> packet \<Rightarrow> bool" where
  "dhcp_gap pol p \<longleftrightarrow> ks_allow_dhcp_v4 pol \<and> v4_port_67 p \<and> pk_l4proto p \<noteq> 17"

definition addr_ok :: "IpAddr \<Rightarrow> bool" where
  "addr_ok a \<longleftrightarrow> length (octets a) = (case a of IpV4 _ \<Rightarrow> 4 | IpV6 _ \<Rightarrow> 16)"

definition ks_policy_ok :: "u32 \<Rightarrow> KillSwitchPolicy \<Rightarrow> bool" where
  "ks_policy_ok lo pol \<longleftrightarrow>
     lo < 2 ^ 32 \<and> ks_tun_ifindex pol < 2 ^ 32 \<and> ks_bypass_mark pol < 2 ^ 32 \<and>
     list_all (\<lambda>permit. lp_oif permit < 2 ^ 32 \<and> addr_ok (dp_addr (lp_dest permit))) (ks_lan_permits pol)"

definition packet_ok :: "packet \<Rightarrow> bool" where
  "packet_ok p \<longleftrightarrow>
     pk_oif p < 2 ^ 32 \<and> pk_mark p < 2 ^ 32 \<and>
     (pk_nfproto p = 2 \<longrightarrow> length (pk_daddr p) = 4) \<and> (pk_nfproto p = 10 \<longrightarrow> length (pk_daddr p) = 16)"

section \<open>Rules that accept or are passed over\<close>

definition accepts_when :: "nft_rule \<Rightarrow> packet \<Rightarrow> bool \<Rightarrow> bool" where
  "accepts_when r p b \<longleftrightarrow> run_rule r p [] False = (if b then (Decided Accept, False) else (NoMatch, False))"

lemma allow_oif_accepts:
  "pk_oif p < 2 ^ 32 \<Longrightarrow> i < 2 ^ 32 \<Longrightarrow> accepts_when (allow_oif i) p (pk_oif p = i)"
  by (simp add: accepts_when_def allow_oif_def le_bytes_inj)

lemma bypass_accepts:
  "pk_mark p < 2 ^ 32 \<Longrightarrow> m < 2 ^ 32 \<Longrightarrow> accepts_when (bypass_mark_rule m) p (pk_mark p = m)"
  by (simp add: accepts_when_def bypass_mark_rule_def le_bytes_inj)

lemma dhcp_accepts:
  "accepts_when dhcp_rule p (v4_port_67 p)"
  by (simp add: accepts_when_def dhcp_rule_def be_bytes16_def v4_port_67_def)

lemma lan_permit_accepts:
  assumes "packet_ok p" and "lp_oif permit < 2 ^ 32" and "addr_ok (dp_addr (lp_dest permit))"
  shows "accepts_when (render_lan_permit permit) p (pk_oif p = lp_oif permit \<and> in_prefix p (lp_dest permit))"
proof -
  let ?d = "lp_dest permit" and ?a = "octets (dp_addr (lp_dest permit))"
  have mask: "prefix_mask ?d = masks (dp_len ?d) (length ?a)" by (simp add: prefix_mask_def masks_def)
  have eq: "map2 (XOR) (map2 (AND) (pk_daddr p) (prefix_mask ?d)) (replicate (length (prefix_mask ?d)) 0) =
      network_address ?d \<longleftrightarrow> take (dp_len ?d) (addr_bits (pk_daddr p)) = take (dp_len ?d) (addr_bits ?a)"
    if len: "length (pk_daddr p) = length ?a"
  proof -
    have "map2 (XOR) (map2 (AND) (pk_daddr p) (prefix_mask ?d)) (replicate (length (prefix_mask ?d)) 0) =
        map2 (AND) (pk_daddr p) (masks (dp_len ?d) (length (pk_daddr p)))"
      using len by (simp add: mask map2_xor_zero)
    with masked_address_eq [OF len, of "dp_len ?d"] show ?thesis by (simp add: network_address_def mask)
  qed
  have oif: "le_bytes (pk_oif p) = le_bytes (lp_oif permit) \<longleftrightarrow> pk_oif p = lp_oif permit"
    using assms(1,2) by (simp add: packet_ok_def le_bytes_inj)
  show ?thesis
  proof (cases "dp_addr ?d")
    case (IpV4 os)
    have "length (pk_daddr p) = length ?a" if "pk_nfproto p = 2"
      using that assms(1,3) IpV4 by (simp add: packet_ok_def addr_ok_def)
    with IpV4 oif eq show ?thesis
      using assms(1) by (auto simp: accepts_when_def render_lan_permit_def in_prefix_def family_byte_def packet_ok_def)
  next
    case (IpV6 os)
    have "length (pk_daddr p) = length ?a" if "pk_nfproto p = 10"
      using that assms(1,3) IpV6 by (simp add: packet_ok_def addr_ok_def)
    with IpV6 oif eq show ?thesis
      using assms(1) by (auto simp: accepts_when_def render_lan_permit_def in_prefix_def family_byte_def packet_ok_def)
  qed
qed

lemma run_chain_accepting:
  assumes "list_all2 (\<lambda>r b. accepts_when r p b) rs bs"
  shows "run_chain (rs @ rest) p =
    (if True \<in> set bs then (Accept, replicate (length rs + length rest) False)
     else apsnd (\<lambda>cs. replicate (length rs) False @ cs) (run_chain rest p))"
  using assms
proof (induction rule: list_all2_induct)
  case (Cons r rs b bs)
  then show ?case by (cases "run_chain rest p") (auto simp: accepts_when_def)
qed (cases "run_chain rest p", simp)

lemma list_all2_map_same: "list_all2 p (map f xs) (map g xs) \<longleftrightarrow> (\<forall>x\<in>set xs. p (f x) (g x))"
  by (induction xs) auto

lemma run_tail:
  assumes "packet_ok p"
  shows "run_chain [probe_rule, terminal_drop] p = (Drop, [pk_nfproto p = 2 \<and> pk_daddr p = PROBE_DESTINATION, True])"
  using assms by (auto simp: probe_rule_def terminal_drop_def packet_ok_def PROBE_DESTINATION_def)

lemma run_rendered:
  assumes "ks_policy_ok lo pol" and "packet_ok p"
  shows "run_chain (render_rules lo pol) p =
    (if permitted lo pol p \<or> dhcp_gap pol p then (Accept, replicate (expected_rule_count pol) False)
     else (Drop, replicate (expected_rule_count pol - 2) False @
       [pk_nfproto p = 2 \<and> pk_daddr p = PROBE_DESTINATION, True]))"
proof -
  let ?rs = "[allow_oif (ks_tun_ifindex pol), allow_oif lo] @ (if ks_allow_dhcp_v4 pol then [dhcp_rule] else []) @
    map render_lan_permit (ks_lan_permits pol) @ [bypass_mark_rule (ks_bypass_mark pol)]"
  let ?bs = "[pk_oif p = ks_tun_ifindex pol, pk_oif p = lo] @
    (if ks_allow_dhcp_v4 pol then [v4_port_67 p] else []) @
    map (\<lambda>permit. pk_oif p = lp_oif permit \<and> in_prefix p (lp_dest permit)) (ks_lan_permits pol) @
    [pk_mark p = ks_bypass_mark pol]"
  have split: "render_rules lo pol = ?rs @ [probe_rule, terminal_drop]" by (simp add: render_rules_def)
  have lan: "list_all2 (\<lambda>r b. accepts_when r p b) (map render_lan_permit (ks_lan_permits pol))
      (map (\<lambda>permit. pk_oif p = lp_oif permit \<and> in_prefix p (lp_dest permit)) (ks_lan_permits pol))"
    using assms lan_permit_accepts [OF assms(2)] by (auto simp: list_all2_map_same ks_policy_ok_def list_all_iff)
  have ifs: "list_all2 (\<lambda>r b. accepts_when r p b) [allow_oif (ks_tun_ifindex pol), allow_oif lo]
      [pk_oif p = ks_tun_ifindex pol, pk_oif p = lo]"
    and mark: "list_all2 (\<lambda>r b. accepts_when r p b) [bypass_mark_rule (ks_bypass_mark pol)] [pk_mark p = ks_bypass_mark pol]"
    using assms by (simp_all add: ks_policy_ok_def packet_ok_def allow_oif_accepts bypass_accepts)
  have dhcp: "list_all2 (\<lambda>r b. accepts_when r p b) (if ks_allow_dhcp_v4 pol then [dhcp_rule] else [])
      (if ks_allow_dhcp_v4 pol then [v4_port_67 p] else [])"
    using dhcp_accepts [of p] by simp
  note list_all2_appendI [OF ifs list_all2_appendI [OF dhcp list_all2_appendI [OF lan mark]]]
  note run = run_chain_accepting [OF this, of "[probe_rule, terminal_drop]", folded split]
  have all: "True \<in> set ?bs \<longleftrightarrow> permitted lo pol p \<or> dhcp_gap pol p" by (auto simp: permitted_def dhcp_gap_def)
  have len: "length ?rs + length [probe_rule, terminal_drop] = expected_rule_count pol"
    "length ?rs = expected_rule_count pol - 2" by (simp_all add: expected_rule_count_def)
  obtain n where "expected_rule_count pol = Suc (Suc n)" by (simp add: expected_rule_count_def)
  then show ?thesis unfolding run all len run_tail [OF assms(2)] by simp
qed

lemma length_render_rules: "length (render_rules lo pol) = expected_rule_count pol"
  by (simp add: render_rules_def expected_rule_count_def)

section \<open>Ownership\<close>

lemma from_chain_name_marker:
  assumes "g \<le> u64_max"
  shows "from_chain_name (marker_chain_name g) = Some g"
proof -
  have "list_all (\<lambda>c. to_digit 16 c \<noteq> None) (hex_fixed w g)" for w
    by (induction w) (simp_all add: to_digit_hex_char)
  moreover have "from_str_radix u64_max 16 (hex_fixed 16 g) = Some g"
    using assms by (intro from_str_radix_hex_fixed) (simp_all add: u64_max_def)
  ultimately show ?thesis by (simp add: from_chain_name_def marker_chain_name_def)
qed

text \<open>The one table of the name, when its only marker is the recorded generation.\<close>

definition owned_table :: "'n nft \<Rightarrow> GenerationId option \<Rightarrow> 'n \<Rightarrow> nft_table \<Rightarrow> bool" where
  "owned_table nft prior s t \<longleftrightarrow>
     tables_named_us nft s = Ok [t] \<and> (\<exists>g. prior = Some g \<and> marker_generations nft t s = Ok [g])"

lemma decide_live_owned:
  "decide_live (Some ms) prior \<noteq> RefuseLookalike \<longleftrightarrow> (\<exists>g. prior = Some g \<and> ms = [g])"
  by (auto simp: decide_live_def split: list.splits option.splits)

lemma ks_batch_Ok:
  assumes "ks_batch nft tun pol g prior s = Ok (pol', batch)"
  shows "\<exists>lo i dels. nft_iface_index nft ''lo'' s = Inr lo \<and> nft_iface_index nft tun s = Inr i \<and>
    pol' = pol\<lparr>ks_tun_ifindex := i\<rparr> \<and> ks_bypass_mark pol \<noteq> 0 \<and>
    (\<forall>permit\<in>set (ks_lan_permits pol). lan_permit_check permit = Ok ()) \<and>
    (dels = [] \<and> tables_named_us nft s = Ok [] \<or> (\<exists>t. dels = [DelTable t] \<and> owned_table nft prior s t)) \<and>
    batch = dels @ [AddTable TABLE_NAME, AddChain (marker_chain_name g), AddDropOutputChain OUTPUT_CHAIN] @
      map AddNftRule (render_rules lo pol')"
proof -
  from assms obtain i where i: "nft_iface_index nft tun s = Inr i" "ks_bypass_mark pol \<noteq> 0"
    "\<forall>permit\<in>set (ks_lan_permits pol). lan_permit_check permit = Ok ()"
    by (auto simp: ks_batch_def res_simps split: if_splits sum.splits)
  with assms obtain us where us: "tables_named_us nft s = Ok us" "length us \<le> 1"
    by (auto simp: ks_batch_def res_simps Let_def not_less split: if_splits)
  show ?thesis
  proof (cases us)
    case Nil
    with assms i us show ?thesis by (auto simp: ks_batch_def res_simps nf_def Let_def split: if_splits sum.splits)
  next
    case (Cons t ts)
    then have "us = [t]" using us(2) by simp
    with assms i us show ?thesis
      by (auto simp: ks_batch_def res_simps nf_def Let_def owned_table_def decide_live_owned
          split: if_splits sum.splits)
  qed
qed

text \<open>
  What \<open>apply\<close> needs before it sends anything: a mark, usable LAN prefixes, both interfaces, and
  the name free or owned.
\<close>

definition usable_prefix :: "DestPrefix \<Rightarrow> bool" where
  "usable_prefix d \<longleftrightarrow> 0 < dp_len d \<and> dp_len d \<le> (case dp_addr d of IpV4 _ \<Rightarrow> 32 | IpV6 _ \<Rightarrow> 128)"

definition switch_ready :: "'n nft \<Rightarrow> string \<Rightarrow> KillSwitchPolicy \<Rightarrow> GenerationId option \<Rightarrow> 'n \<Rightarrow> bool" where
  "switch_ready nft tun pol prior s \<longleftrightarrow>
     ks_bypass_mark pol \<noteq> 0 \<and> list_all (\<lambda>permit. usable_prefix (lp_dest permit)) (ks_lan_permits pol) \<and>
     (\<exists>i. nft_iface_index nft tun s = Inr i) \<and> (\<exists>lo. nft_iface_index nft ''lo'' s = Inr lo) \<and>
     (tables_named_us nft s = Ok [] \<or> (\<exists>t. owned_table nft prior s t))"

lemma lan_permit_check_Ok: "lan_permit_check permit = Ok () \<longleftrightarrow> usable_prefix (lp_dest permit)"
  by (auto simp: lan_permit_check_def usable_prefix_def Let_def split: IpAddr.splits)

lemma ks_batch_ready: "switch_ready nft tun pol prior s \<Longrightarrow> \<exists>pb. ks_batch nft tun pol g prior s = Ok pb"
proof -
  assume r: "switch_ready nft tun pol prior s"
  have p: "for_each lan_permit_check (ks_lan_permits pol) = Ok ()"
    using r by (simp add: switch_ready_def list_all_iff lan_permit_check_Ok res_simps)
  obtain i lo where i: "ks_bypass_mark pol \<noteq> 0" "nft_iface_index nft tun s = Inr i" "nft_iface_index nft ''lo'' s = Inr lo"
    using r by (auto simp: switch_ready_def)
  consider "tables_named_us nft s = Ok []" | t g' where "tables_named_us nft s = Ok [t]" "prior = Some g'"
      "marker_generations nft t s = Ok [g']"
    using r by (auto simp: switch_ready_def owned_table_def)
  then show ?thesis
    by cases (simp_all add: p i ks_batch_def nf_def Let_def decide_live_def)
qed

lemma ks_batch_Ok_ready: "ks_batch nft tun pol g prior s = Ok pb \<Longrightarrow> switch_ready nft tun pol prior s"
  using ks_batch_Ok [of nft tun pol g prior s "fst pb" "snd pb"]
  by (auto simp: switch_ready_def list_all_iff lan_permit_check_Ok)

text \<open>\<open>remove\<close>: the name is free, it is not ours or cannot be read, or exactly the owned table is deleted.\<close>

lemma ks_remove_outcome:
  assumes "ks_remove nft prior u = (q, u')"
  shows "if \<exists>t. owned_table nft prior u t
    then \<exists>t sent. owned_table nft prior u t \<and> nft_send nft [DelTable t] u = (sent, u') \<and>
      q = (case sent of Inl e \<Rightarrow> Err (Netfilter e) | Inr _ \<Rightarrow> Ok ())
    else u' = u \<and> (q = Ok () \<longleftrightarrow> tables_named_us nft u = Ok [])"
proof (cases "tables_named_us nft u")
  case (Ok us)
  consider "us = []" | t where "us = [t]" | t t' ts where "us = t # t' # ts" by (metis list.exhaust)
  then show ?thesis
  proof cases
    case 2
    have "decide_live (Some [g]) (Some g) = ReplaceOwned g" for g by (simp add: decide_live_def)
    with 2 assms Ok show ?thesis
      by (auto simp: ks_remove_def owned_table_def decide_live_owned
          split: res.splits if_splits prod.splits sum.splits)
  qed (use assms Ok in \<open>auto simp: ks_remove_def owned_table_def\<close>)
qed (use assms in \<open>auto simp: ks_remove_def owned_table_def\<close>)

text \<open>What happens after the batch: its failure, a failed validation, or the probe, and nothing else.\<close>

lemma ks_apply_sent:
  assumes "ks_apply nft tun uplink pol g prior s = (r, s')" and "ks_batch nft tun pol g prior s = Ok (pol', batch)"
    and "nft_send nft batch s = (sent, s1)"
  shows "(s' = s1 \<and> (case sent of Inl e \<Rightarrow> r = Err (Netfilter e)
        | Inr _ \<Rightarrow> r \<noteq> Ok () \<and> (ks_validate nft pol' g s1 \<noteq> Ok () \<or> (\<forall>n. dropped_packets nft s1 \<noteq> Ok n)))) \<or>
    (sent = Inr () \<and> ks_validate nft pol' g s1 = Ok () \<and>
      (\<exists>before probed. dropped_packets nft s1 = Ok before \<and> nft_send_probe nft uplink s1 = (probed, s') \<and>
        (r = Ok () \<longleftrightarrow> probed = Inr () \<and> (\<exists>after. dropped_packets nft s' = Ok after \<and> before < after))))"
  using assms
  by (auto simp: ks_apply_def enforcement_probe_def res_simps split: sum.splits res.splits prod.splits if_splits)

section \<open>A concrete host\<close>

text \<open>The chains of the one \<open>protonwire\<close> table, if there is one.\<close>

type_synonym demo_chains = "(string \<times> nft_rule list) list option"

fun demo_batch :: "nft_msg list \<Rightarrow> demo_chains \<Rightarrow> demo_chains" where
  "demo_batch [] c = c"
| "demo_batch (DelTable t # ms) c = demo_batch ms None"
| "demo_batch (AddTable n # ms) c = demo_batch ms (Some [])"
| "demo_batch (AddChain n # ms) c = demo_batch ms (map_option (\<lambda>cs. cs @ [(n, [])]) c)"
| "demo_batch (AddDropOutputChain n # ms) c = demo_batch ms (map_option (\<lambda>cs. cs @ [(n, [])]) c)"
| "demo_batch (AddNftRule r # ms) c =
     demo_batch ms (map_option (\<lambda>cs. butlast cs @ [(fst (last cs), snd (last cs) @ [r])]) c)"

definition probe_packet :: "u32 \<Rightarrow> packet" where
  "probe_packet i = \<lparr>pk_oif = i, pk_nfproto = 2, pk_mark = 0, pk_daddr = PROBE_DESTINATION,
     pk_l4proto = 17, pk_transport = [156, 64, 0, 9, 0, 28, 0, 0]\<rparr>"

definition demo_index :: "string \<Rightarrow> string + u32" where
  "demo_index name = (if name = ''lo'' then Inr 1 else if name = ''eth0'' then Inr 2
     else if name = ''protonwire0'' then Inr 5 else Inl ''no such device'')"

definition bump :: "nft_rule \<Rightarrow> bool \<Rightarrow> nft_rule" where
  "bump r c = map (\<lambda>e. case e of Counter n \<Rightarrow> Counter (Some ((case n of Some k \<Rightarrow> k | None \<Rightarrow> 0) + (if c then 1 else 0))) | _ \<Rightarrow> e) r"

definition demo_probe :: "string \<Rightarrow> demo_chains \<Rightarrow> (string + unit) \<times> demo_chains" where
  "demo_probe name c =
     (case demo_index name of
        Inl e \<Rightarrow> (Inl e, c)
      | Inr i \<Rightarrow> (Inr (), map_option (map (\<lambda>(n, rs). (n, map2 bump rs (snd (run_chain rs (probe_packet i)))))) c))"

definition demo_nft :: "demo_chains nft" where
  "demo_nft =
     \<lparr>nft_list_tables = (\<lambda>c. Inr (case c of None \<Rightarrow> [] | Some _ \<Rightarrow> [\<lparr>nt_name = Some TABLE_NAME, nt_handle = 1\<rparr>])),
      nft_list_chains = (\<lambda>t c. Inr (case c of None \<Rightarrow> []
        | Some cs \<Rightarrow> map (\<lambda>i. \<lparr>nc_name = Some (fst (cs ! i)), nc_handle = i\<rparr>) [0..<length cs])),
      nft_list_rules = (\<lambda>ch c. Inr (case c of None \<Rightarrow> [] | Some cs \<Rightarrow> map Some (snd (cs ! nc_handle ch)))),
      nft_iface_index = (\<lambda>n c. demo_index n),
      nft_send = (\<lambda>b c. (Inr (), demo_batch b c)),
      nft_send_probe = demo_probe\<rparr>"

definition demo_ks_policy :: KillSwitchPolicy where
  "demo_ks_policy = \<lparr>ks_tun_ifindex = 0, ks_allow_dhcp_v4 = True,
     ks_lan_permits = [\<lparr>lp_dest = \<lparr>dp_addr = IpV4 [192, 168, 1, 0], dp_len = 24\<rparr>, lp_oif = 2\<rparr>],
     ks_bypass_mark = 51820\<rparr>"

section \<open>Properties\<close>

text \<open>
  C4. The kill switch kills: the chain \<open>render_rules\<close> builds accepts a packet exactly when the
  documented allowlist does: it leaves through the TUN or loopback, carries the bypass mark, is
  IPv4 UDP to port 67 where DHCP is allowed, or leaves through a permitted LAN interface to a
  destination that shares the permit's prefix bit for bit. Every other packet, of either family,
  is dropped. The packets of \<open>dhcp_gap\<close> (with DHCP allowed, IPv4 to port 67 over a transport other
  than UDP) are excluded: there the code departs from the documentation, as the lemma
  \<open>dhcp_rule_admits_any_transport\<close> shows. And the chain has the number of rules that \<open>validate\<close>
  expects.
\<close>

theorem kill_switch_lets_only_allowlist:
  assumes "ks_policy_ok lo pol" and "packet_ok p" and "\<not> dhcp_gap pol p"
  shows "fst (run_chain (render_rules lo pol) p) = (if permitted lo pol p then Accept else Drop) \<and>
    length (render_rules lo pol) = expected_rule_count pol"
  using run_rendered [OF assms(1,2)] assms(3) by (simp add: length_render_rules)

theorem kill_switch_lets_only_allowlist_witness:
  "fst (run_chain (render_rules 1 demo_ks_policy) ((probe_packet 2)\<lparr>pk_daddr := [192, 168, 1, 77]\<rparr>)) = Accept \<and>
   fst (run_chain (render_rules 1 demo_ks_policy) ((probe_packet 2)\<lparr>pk_daddr := [192, 168, 2, 77]\<rparr>)) = Drop"
proof -
  have gap: "\<not> dhcp_gap demo_ks_policy ((probe_packet 2)\<lparr>pk_daddr := [192, 168, c, 77]\<rparr>)" for c
    by (simp add: dhcp_gap_def v4_port_67_def probe_packet_def)
  have ok: "ks_policy_ok 1 demo_ks_policy" by (simp add: ks_policy_ok_def demo_ks_policy_def addr_ok_def)
  have "packet_ok ((probe_packet 2)\<lparr>pk_daddr := [192, 168, c, 77]\<rparr>)" for c
    by (simp add: packet_ok_def probe_packet_def)
  from kill_switch_lets_only_allowlist [OF ok this [of 1] gap] kill_switch_lets_only_allowlist [OF ok this [of 2] gap]
  show ?thesis
    by (simp add: permitted_def v4_port_67_def demo_ks_policy_def probe_packet_def in_prefix_def family_byte_def addr_bits_def
        byte_bits_def upt_rec)
qed

text \<open>
  The divergence: documented as udp/67, the DHCP rule reads two bytes of the transport header and
  no protocol, so that TCP to port 67 leaves the host by any interface.
\<close>

lemma dhcp_rule_admits_any_transport:
  assumes "ks_policy_ok lo pol" and "packet_ok p" and "dhcp_gap pol p"
  shows "fst (run_chain (render_rules lo pol) p) = Accept"
  using run_rendered [OF assms(1,2)] assms(3) by simp

lemma tcp_to_port_67_leaves:
  "\<not> permitted 1 demo_ks_policy ((probe_packet 2)\<lparr>pk_l4proto := 6, pk_transport := [156, 64, 0, 67]\<rparr>) \<and>
   fst (run_chain (render_rules 1 demo_ks_policy)
     ((probe_packet 2)\<lparr>pk_l4proto := 6, pk_transport := [156, 64, 0, 67]\<rparr>)) = Accept"
proof
  let ?p = "(probe_packet 2)\<lparr>pk_l4proto := 6, pk_transport := [156, 64, 0, 67]\<rparr>"
  show "\<not> permitted 1 demo_ks_policy ?p"
    by (simp add: permitted_def demo_ks_policy_def probe_packet_def in_prefix_def family_byte_def addr_bits_def
        byte_bits_def upt_rec PROBE_DESTINATION_def)
  show "fst (run_chain (render_rules 1 demo_ks_policy) ?p) = Accept"
    by (rule dhcp_rule_admits_any_transport)
      (simp_all add: ks_policy_ok_def packet_ok_def dhcp_gap_def v4_port_67_def demo_ks_policy_def addr_ok_def
        probe_packet_def PROBE_DESTINATION_def)
qed

text \<open>
  C35. The switch is replaced atomically and only when it is ours. When \<open>apply\<close> is not ready (no
  mark, an unusable LAN prefix, a missing interface, or a table of the name that is not the one
  table whose single marker is the generation on record) it fails and the host is as before.
  Otherwise it sends exactly one batch, which deletes at most that owned table and installs the
  complete new one, and the final state is the one right after that batch, or after that batch
  and one probe datagram: no outcome, no failed validation either, changes anything else. Success
  is reported exactly when the batch was taken, the live table validated and the probe counter
  moved. \<open>remove\<close> sends the deletion of the owned table and reports how it went, or changes nothing
  and succeeds only where no table has the name.
\<close>

theorem kill_switch_touches_only_its_own:
  assumes "ks_apply nft tun uplink pol g prior s = (r, s')" and "ks_remove nft prior u = (q, u')"
  shows "(if switch_ready nft tun pol prior s
     then \<exists>lo i dels sent s1. nft_iface_index nft ''lo'' s = Inr lo \<and> nft_iface_index nft tun s = Inr i \<and>
        (dels = [] \<and> tables_named_us nft s = Ok [] \<or> (\<exists>t. dels = [DelTable t] \<and> owned_table nft prior s t)) \<and>
        nft_send nft (dels @ [AddTable TABLE_NAME, AddChain (marker_chain_name g), AddDropOutputChain OUTPUT_CHAIN] @
          map AddNftRule (render_rules lo (pol\<lparr>ks_tun_ifindex := i\<rparr>))) s = (sent, s1) \<and>
        ((s' = s1 \<and> (case sent of Inl e \<Rightarrow> r = Err (Netfilter e)
           | Inr _ \<Rightarrow> r \<noteq> Ok () \<and> (ks_validate nft (pol\<lparr>ks_tun_ifindex := i\<rparr>) g s1 \<noteq> Ok () \<or>
               (\<forall>n. dropped_packets nft s1 \<noteq> Ok n)))) \<or>
         (sent = Inr () \<and> ks_validate nft (pol\<lparr>ks_tun_ifindex := i\<rparr>) g s1 = Ok () \<and>
          (\<exists>before probed. dropped_packets nft s1 = Ok before \<and> nft_send_probe nft uplink s1 = (probed, s') \<and>
            (r = Ok () \<longleftrightarrow> probed = Inr () \<and> (\<exists>after. dropped_packets nft s' = Ok after \<and> before < after)))))
     else r \<noteq> Ok () \<and> s' = s) \<and>
    (if \<exists>t. owned_table nft prior u t
     then \<exists>t sent. owned_table nft prior u t \<and> nft_send nft [DelTable t] u = (sent, u') \<and>
       q = (case sent of Inl e \<Rightarrow> Err (Netfilter e) | Inr _ \<Rightarrow> Ok ())
     else u' = u \<and> (q = Ok () \<longleftrightarrow> tables_named_us nft u = Ok []))"
proof (cases "switch_ready nft tun pol prior s")
  case True
  then obtain pol' batch where b: "ks_batch nft tun pol g prior s = Ok (pol', batch)"
    using ks_batch_ready [of nft tun pol prior s g] by auto
  obtain lo i dels where i: "nft_iface_index nft ''lo'' s = Inr lo" "nft_iface_index nft tun s = Inr i"
    "pol' = pol\<lparr>ks_tun_ifindex := i\<rparr>"
    "dels = [] \<and> tables_named_us nft s = Ok [] \<or> (\<exists>t. dels = [DelTable t] \<and> owned_table nft prior s t)"
    "batch = dels @ [AddTable TABLE_NAME, AddChain (marker_chain_name g), AddDropOutputChain OUTPUT_CHAIN] @
      map AddNftRule (render_rules lo pol')"
    using ks_batch_Ok [OF b] by metis
  obtain sent s1 where sent: "nft_send nft batch s = (sent, s1)" by fastforce
  note after = ks_apply_sent [OF assms(1) b sent, unfolded i(3)] and batch = sent [unfolded i(5) i(3)]
  show ?thesis
    unfolding if_P [OF True]
    by (rule conjI [OF _ ks_remove_outcome [OF assms(2)]], intro exI conjI) (fact i(1), fact i(2), fact i(4), fact batch, fact after)
next
  case False
  then have "ks_batch nft tun pol g prior s \<noteq> Ok pb" for pb using ks_batch_Ok_ready [of nft tun pol g prior s pb] by auto
  then have "r \<noteq> Ok () \<and> s' = s" using assms(1) by (auto simp: ks_apply_def split: res.splits)
  with False ks_remove_outcome [OF assms(2)] show ?thesis by simp
qed

definition demo_lookalike :: demo_chains where
  "demo_lookalike = Some [(''output'', [])]"

definition demo_armed :: demo_chains where
  "demo_armed = Some [(marker_chain_name 7, []),
     (OUTPUT_CHAIN, render_rules 1 (demo_ks_policy\<lparr>ks_tun_ifindex := 5\<rparr>))]"

lemma demo_names: "from_chain_name OUTPUT_CHAIN = None" "from_chain_name ''output'' = None"
  "from_chain_name (marker_chain_name 7) = Some 7" "marker_chain_name 7 \<noteq> OUTPUT_CHAIN"
  by (simp_all add: from_chain_name_marker u64_max_def)
    (simp_all add: from_chain_name_def marker_chain_name_def MARKER_PREFIX_def OUTPUT_CHAIN_def)

lemma demo_refuses: "ks_apply demo_nft ''protonwire0'' ''eth0'' demo_ks_policy 8 (Some 7) demo_lookalike = (Err Lookalike, demo_lookalike)"
  by (simp add: ks_apply_def ks_batch_def demo_ks_policy_def lan_permit_check_def demo_nft_def demo_index_def
      tables_named_us_def nf_def marker_generations_def demo_lookalike_def map_filter_def demo_names decide_live_def)

lemma demo_removes: "ks_remove demo_nft (Some 7) demo_armed = (Ok (), None)"
  by (simp add: ks_remove_def demo_nft_def tables_named_us_def nf_def marker_generations_def demo_armed_def
      map_filter_def demo_names decide_live_def upt_rec)

lemma demo_owned: "owned_table demo_nft (Some 7) demo_armed \<lparr>nt_name = Some TABLE_NAME, nt_handle = 1\<rparr>"
  by (simp add: owned_table_def demo_nft_def tables_named_us_def nf_def marker_generations_def demo_armed_def
      map_filter_def demo_names upt_rec)

theorem kill_switch_touches_only_its_own_witness:
  "ks_apply demo_nft ''protonwire0'' ''eth0'' demo_ks_policy 8 (Some 7) demo_lookalike = (Err Lookalike, demo_lookalike) \<and>
   (\<exists>t sent. owned_table demo_nft (Some 7) demo_armed t \<and> nft_send demo_nft [DelTable t] demo_armed = (sent, None) \<and>
      sent = Inr ())"
proof -
  have "\<exists>t. owned_table demo_nft (Some 7) demo_armed t" using demo_owned by blast
  with kill_switch_touches_only_its_own [OF demo_refuses demo_removes]
  obtain t sent where "owned_table demo_nft (Some 7) demo_armed t" "nft_send demo_nft [DelTable t] demo_armed = (sent, None)"
    "Ok () = (case sent of Inl e \<Rightarrow> Err (Netfilter e) | Inr _ \<Rightarrow> Ok ())" by auto
  with demo_refuses show ?thesis by (cases sent) auto
qed

text \<open>
  The enforcement probe is honest on an uplink and useless on loopback: the probe packet is
  dropped and counted exactly when its interface is neither the TUN nor loopback and no LAN
  permit covers it. The early-boot firewall sends its probe through \<open>lo\<close>, which its chain
  accepts, so the counter that \<open>apply\<close> waits for cannot move and the early firewall never
  reports success, although the ruleset is installed.
\<close>

theorem enforcement_probe_counts_iff:
  assumes "ks_policy_ok lo pol" and "ks_bypass_mark pol \<noteq> 0" and "i < 2 ^ 32"
  shows "((run_chain (render_rules lo pol) (probe_packet i) =
      (Drop, replicate (expected_rule_count pol - 2) False @ [True, True])) \<longleftrightarrow>
    i \<noteq> ks_tun_ifindex pol \<and> i \<noteq> lo \<and>
    list_all (\<lambda>permit. lp_oif permit \<noteq> i \<or> \<not> in_prefix (probe_packet i) (lp_dest permit)) (ks_lan_permits pol)) \<and>
    run_chain (render_rules lo ((early_policy ns)\<lparr>ks_tun_ifindex := lo\<rparr>)) (probe_packet lo) = (Accept, replicate 6 False)"
proof -
  have "packet_ok (probe_packet i)" using assms(3) by (simp add: packet_ok_def probe_packet_def PROBE_DESTINATION_def)
  note run = run_rendered [OF assms(1) this]
  have "\<not> permitted lo pol (probe_packet i) \<longleftrightarrow> i \<noteq> ks_tun_ifindex pol \<and> i \<noteq> lo \<and>
      list_all (\<lambda>permit. lp_oif permit \<noteq> i \<or> \<not> in_prefix (probe_packet i) (lp_dest permit)) (ks_lan_permits pol)"
    using assms(2) by (auto simp: permitted_def v4_port_67_def list_all_iff probe_packet_def)
  moreover have "\<not> dhcp_gap pol (probe_packet i)" by (simp add: dhcp_gap_def v4_port_67_def probe_packet_def)
  moreover have "run_chain (render_rules lo ((early_policy ns)\<lparr>ks_tun_ifindex := lo\<rparr>)) (probe_packet lo) =
      (Accept, replicate 6 False)"
    by (simp add: render_rules_def allow_oif_def early_policy_def probe_packet_def numeral_eq_Suc)
  moreover have "pk_nfproto (probe_packet i) = 2" "pk_daddr (probe_packet i) = PROBE_DESTINATION"
    by (simp_all add: probe_packet_def)
  ultimately show ?thesis unfolding run by auto
qed

theorem enforcement_probe_counts_iff_witness:
  "run_chain (render_rules 1 demo_ks_policy) (probe_packet 2) = (Drop, replicate 5 False @ [True, True]) \<and>
   run_chain (render_rules 1 ((early_policy (Some 4))\<lparr>ks_tun_ifindex := 1\<rparr>)) (probe_packet 1) = (Accept, replicate 6 False)"
proof -
  have "ks_policy_ok 1 demo_ks_policy" by (simp add: ks_policy_ok_def demo_ks_policy_def addr_ok_def)
  note e = enforcement_probe_counts_iff [OF this, of 2]
  have "expected_rule_count demo_ks_policy - 2 = 5" by (simp add: expected_rule_count_def demo_ks_policy_def)
  moreover have "ks_bypass_mark demo_ks_policy \<noteq> 0" "(2 :: nat) < 2 ^ 32" by (simp_all add: demo_ks_policy_def)
  moreover have "\<not> in_prefix (probe_packet 2) \<lparr>dp_addr = IpV4 [192, 168, 1, 0], dp_len = 24\<rparr>"
    by (simp add: in_prefix_def probe_packet_def PROBE_DESTINATION_def family_byte_def addr_bits_def byte_bits_def upt_rec)
  ultimately show ?thesis using e by (simp add: demo_ks_policy_def)
qed

end
