(* ===== verification/Net_Dns.thy ===== *)
theory Net_Dns
  imports Net_Routes
begin

text \<open>
  DNS management (\<open>net/src/dns.rs\<close>) over a small file system: names map to regular files, each
  with an inode, or to symbolic links; a new file gets an inode no file has. Every system call's
  failure and the outcome of every \<open>resolvectl\<close> command are inputs.
\<close>

section \<open>Types\<close>

datatype DnsMode = ProtonDns | CustomDns | SystemDns | NoDns

primrec dns_mode_text :: "DnsMode \<Rightarrow> string" where
  "dns_mode_text ProtonDns = ''proton''"
| "dns_mode_text CustomDns = ''custom''"
| "dns_mode_text SystemDns = ''system''"
| "dns_mode_text NoDns = ''none''"

datatype DnsRouting = ThroughVpn | BypassVpn | SystemDefault

record DnsServer =
  ds_address :: IpAddr
  ds_port :: u16

definition dns_server_new :: "IpAddr \<Rightarrow> DnsServer" where
  "dns_server_new a = \<lparr>ds_address = a, ds_port = 53\<rparr>"

record DnsConfig =
  dc_mode :: DnsMode
  dc_servers :: "DnsServer list"
  dc_routing :: DnsRouting

datatype DnsBackend = SystemdResolved | ResolvConf

definition detect_backend :: "bool \<Rightarrow> DnsBackend" where
  "detect_backend resolve_dir_exists = (if resolve_dir_exists then SystemdResolved else ResolvConf)"

section \<open>Files\<close>

type_synonym file_path = string

datatype node = Regular u64 string | Symlink file_path

record fs =
  fs_nodes :: "file_path \<Rightarrow> node option"
  fs_next :: u64

text \<open>Following links: the name, inode and content of the file a path leads to, within the kernel's limit.\<close>

fun follow :: "nat \<Rightarrow> fs \<Rightarrow> file_path \<Rightarrow> (file_path \<times> u64 \<times> string) option" where
  "follow n f p =
     (case fs_nodes f p of
        None \<Rightarrow> None
      | Some (Regular i c) \<Rightarrow> Some (p, i, c)
      | Some (Symlink q) \<Rightarrow> (case n of 0 \<Rightarrow> None | Suc m \<Rightarrow> follow m f q))"

declare follow.simps [simp del]

definition stat :: "fs \<Rightarrow> file_path \<Rightarrow> (file_path \<times> u64 \<times> string) option" where
  "stat f p = follow 40 f p"

text \<open>\<open>std::fs::write\<close>: truncate the file the path leads to, or create it at the path.\<close>

definition fs_write :: "file_path \<Rightarrow> string \<Rightarrow> fs \<Rightarrow> fs" where
  "fs_write p c f =
     (case stat f p of
        Some (q, i, _) \<Rightarrow> f\<lparr>fs_nodes := (fs_nodes f)(q \<mapsto> Regular i c)\<rparr>
      | None \<Rightarrow> f\<lparr>fs_nodes := (fs_nodes f)(p \<mapsto> Regular (fs_next f) c), fs_next := fs_next f + 1\<rparr>)"

definition fs_rename :: "file_path \<Rightarrow> file_path \<Rightarrow> fs \<Rightarrow> fs" where
  "fs_rename p q f = f\<lparr>fs_nodes := (fs_nodes f)(q := fs_nodes f p, p := None)\<rparr>"

record dns_io =
  io_lstat :: "string option"
  io_readlink :: "string option"
  io_stat :: "string option"
  io_read :: "string option"
  io_fwrite :: "string option"
  io_frename :: "string option"

section \<open>The file backend\<close>

record ResolvConfEvidence =
  rc_path :: file_path
  rc_symlink_target :: "file_path option"
  rc_original_content :: string
  rc_original_inode :: u64

datatype DnsError =
    ChangedUnderUs file_path u64 u64
  | DnsIo string
  | Resolvectl string
  | SystemResolverUnproven IpAddr
  | NetshieldWithCustomDns

definition capture_resolv_conf :: "dns_io \<Rightarrow> file_path \<Rightarrow> fs \<Rightarrow> DnsError + ResolvConfEvidence" where
  "capture_resolv_conf io p f =
     (case io_lstat io of
        Some e \<Rightarrow> Inl (DnsIo e)
      | None \<Rightarrow>
        (case fs_nodes f p of
           None \<Rightarrow> Inl (DnsIo ''not found'')
         | Some nd \<Rightarrow>
           (case (case nd of
                Regular i c \<Rightarrow> Inr (None, i)
              | Symlink q \<Rightarrow>
                  (case io_readlink io of
                     Some e \<Rightarrow> Inl (DnsIo e)
                   | None \<Rightarrow>
                     (case io_stat io of
                        Some e \<Rightarrow> Inl (DnsIo e)
                      | None \<Rightarrow> (case stat f p of None \<Rightarrow> Inl (DnsIo ''not found'') | Some (_, i, _) \<Rightarrow> Inr (Some q, i))))) of
              Inl e \<Rightarrow> Inl e
            | Inr (target, inode) \<Rightarrow>
              (case io_read io of
                 Some e \<Rightarrow> Inl (DnsIo e)
               | None \<Rightarrow>
                 (case stat f p of
                    None \<Rightarrow> Inl (DnsIo ''not found'')
                  | Some (_, _, c) \<Rightarrow>
                      Inr \<lparr>rc_path = p, rc_symlink_target = target, rc_original_content = c,
                        rc_original_inode = inode\<rparr>)))))"

text \<open>The text of an address.\<close>

definition intersperse_concat :: "string \<Rightarrow> string list \<Rightarrow> string" where
  "intersperse_concat sep xs = (case xs of [] \<Rightarrow> [] | y # ys \<Rightarrow> y @ concat (map (\<lambda>z. sep @ z) ys))"

fun hex_text :: "nat \<Rightarrow> string" where
  "hex_text n = (if n < 16 then [hex_char n] else hex_text (n div 16) @ [hex_char (n mod 16)])"

declare hex_text.simps [simp del]

fun segments :: "8 word list \<Rightarrow> nat list" where
  "segments (a # b # rest) = (unat a * 256 + unat b) # segments rest"
| "segments _ = []"

text \<open>The first longest run of zero segments: its start and length.\<close>

fun zero_run :: "nat list \<Rightarrow> nat \<Rightarrow> nat \<times> nat \<Rightarrow> nat \<times> nat \<Rightarrow> nat \<times> nat" where
  "zero_run [] i (cs, cl) (ls, ll) = (ls, ll)"
| "zero_run (x # xs) i (cs, cl) (ls, ll) =
     (if x = 0 then
        (let cs' = (if cl = 0 then i else cs); cl' = cl + 1
         in zero_run xs (i + 1) (cs', cl') (if ll < cl' then (cs', cl') else (ls, ll)))
      else zero_run xs (i + 1) (0, 0) (ls, ll))"

definition ip_text :: "IpAddr \<Rightarrow> string" where
  "ip_text a =
     (case a of
        IpV4 os \<Rightarrow> intersperse_concat ''.'' (map (\<lambda>o1. dec_text (unat o1)) os)
      | IpV6 os \<Rightarrow>
          (let sg = segments os in
           if take 6 sg = [0, 0, 0, 0, 0, 0xffff]
           then ''::ffff:'' @ intersperse_concat ''.'' (map (\<lambda>o1. dec_text (unat o1)) (drop 12 os))
           else case zero_run sg 0 (0, 0) (0, 0) of
               (start, len) \<Rightarrow>
                 if 1 < len
                 then intersperse_concat '':'' (map hex_text (take start sg)) @ ''::'' @
                   intersperse_concat '':'' (map hex_text (drop (start + len) sg))
                 else intersperse_concat '':'' (map hex_text sg)))"

definition render_resolv_conf :: "DnsServer list \<Rightarrow> string" where
  "render_resolv_conf servers =
     ''# Managed by ProtonWire '' @ [CHR 0xE2, CHR 0x80, CHR 0x94] @ '' DO NOT EDIT'' @ [CHR 0x0A] @
     concat (map (\<lambda>s. ''nameserver '' @ ip_text (ds_address s) @ [CHR 0x0A]) servers) @
     ''options edns0'' @ [CHR 0x0A]"

text \<open>\<open>Path::with_extension\<close> of a path whose last component has an extension, as \<open>resolv.conf\<close> has.\<close>

definition with_extension :: "file_path \<Rightarrow> string \<Rightarrow> file_path" where
  "with_extension p ext = rev (tl (dropWhile (\<lambda>c. c \<noteq> CHR ''.'') (rev p))) @ ''.'' @ ext"

definition apply_resolv_conf :: "dns_io \<Rightarrow> ResolvConfEvidence \<Rightarrow> DnsServer list \<Rightarrow> fs \<Rightarrow> (DnsError + unit) \<times> fs" where
  "apply_resolv_conf io evidence servers f =
     (let p = rc_path evidence; tmp = with_extension p ''protonwire.tmp'' in
      case io_fwrite io of
        Some e \<Rightarrow> (Inl (DnsIo e), f)
      | None \<Rightarrow>
        (let f' = fs_write tmp (render_resolv_conf servers) f in
         case io_frename io of
           Some e \<Rightarrow> (Inl (DnsIo e), f')
         | None \<Rightarrow> (Inr (), fs_rename tmp p f')))"

definition revert_resolv_conf :: "dns_io \<Rightarrow> ResolvConfEvidence \<Rightarrow> fs \<Rightarrow> (DnsError + unit) \<times> fs" where
  "revert_resolv_conf io evidence f =
     (let p = rc_path evidence;
          restore = (case io_fwrite io of
              Some e \<Rightarrow> (Inl (DnsIo e), f)
            | None \<Rightarrow> (Inr (), fs_write p (rc_original_content evidence) f))
      in case (if io_stat io = None then stat f p else None) of
          None \<Rightarrow> restore
        | Some (_, current_inode, _) \<Rightarrow>
            if current_inode \<noteq> rc_original_inode evidence
            then (Inl (ChangedUnderUs p (rc_original_inode evidence) current_inode), f)
            else restore)"

section \<open>The resolved backend and validation\<close>

text \<open>A command's outcome: it could not be run, or its success and what it wrote to stderr.\<close>

type_synonym command = "string list \<Rightarrow> string + bool \<times> string"

definition run_resolvectl :: "command \<Rightarrow> string list \<Rightarrow> DnsError + unit" where
  "run_resolvectl run args =
     (case run (''resolvectl'' # args) of
        Inl e \<Rightarrow> Inl (Resolvectl e)
      | Inr (success, stderr) \<Rightarrow> if success then Inr () else Inl (Resolvectl stderr))"

definition apply_resolved :: "command \<Rightarrow> string \<Rightarrow> DnsServer list \<Rightarrow> DnsError + unit" where
  "apply_resolved run link servers =
     (case run_resolvectl run ([''dns'', link] @ map (\<lambda>s. ip_text (ds_address s)) servers) of
        Inl e \<Rightarrow> Inl e
      | Inr _ \<Rightarrow> run_resolvectl run [''domain'', link, ''~.''])"

definition revert_resolved :: "command \<Rightarrow> string \<Rightarrow> DnsError + unit" where
  "revert_resolved run link = run_resolvectl run [''revert'', link]"

fun validate_system_mode :: "DnsServer list \<Rightarrow> DnsServer list \<Rightarrow> DnsError + unit" where
  "validate_system_mode [] permitted_lan = Inr ()"
| "validate_system_mode (r # rs) permitted_lan =
     (if r \<notin> set permitted_lan then Inl (SystemResolverUnproven (ds_address r))
      else validate_system_mode rs permitted_lan)"

definition validate_netshield_exclusion :: "DnsMode \<Rightarrow> bool \<Rightarrow> DnsError + unit" where
  "validate_netshield_exclusion m netshield_enabled =
     (if m = CustomDns \<and> netshield_enabled then Inl NetshieldWithCustomDns else Inr ())"

section \<open>Reverting\<close>

text \<open>Inodes in use are below the next one.\<close>

definition fs_ok :: "fs \<Rightarrow> bool" where
  "fs_ok f \<longleftrightarrow> (\<forall>p i c. fs_nodes f p = Some (Regular i c) \<longrightarrow> i < fs_next f)"

lemma follow_inode: "fs_ok f \<Longrightarrow> follow n f p = Some (q, i, c) \<Longrightarrow> i < fs_next f \<and> fs_nodes f q = Some (Regular i c)"
proof (induction n f p rule: follow.induct)
  case (1 n f p)
  then obtain nd where nd: "fs_nodes f p = Some nd" by (subst (asm) follow.simps) (auto split: option.splits)
  show ?case
  proof (cases nd)
    case (Regular i' c')
    with "1.prems" nd show ?thesis by (subst (asm) follow.simps) (auto simp: fs_ok_def)
  next
    case (Symlink r)
    with "1.prems" nd obtain m where m: "n = Suc m" "follow m f r = Some (q, i, c)"
      by (subst (asm) follow.simps) (auto split: nat.splits)
    from "1.IH" [OF nd Symlink m(1) "1.prems"(1) m(2)] show ?thesis .
  qed
qed

lemma capture_inode:
  assumes "fs_ok f" and "capture_resolv_conf io p f = Inr ev"
  shows "rc_path ev = p \<and> rc_original_inode ev < fs_next f"
proof -
  have i: "i < fs_next f" if "stat f p = Some (q, i, c)" for q i c
    using follow_inode [OF assms(1)] that by (auto simp: stat_def)
  obtain nd where nd: "fs_nodes f p = Some nd"
    using assms(2) by (auto simp: capture_resolv_conf_def split: option.splits)
  show ?thesis
  proof (cases nd)
    case (Regular j c)
    then have "j < fs_next f" using assms(1) nd by (auto simp: fs_ok_def)
    with Regular assms(2) nd show ?thesis
      by (auto simp: capture_resolv_conf_def split: option.splits)
  next
    case (Symlink q)
    with assms(2) nd i show ?thesis
      by (auto simp: capture_resolv_conf_def split: option.splits)
  qed
qed

lemma stat_missing: "fs_nodes f p = None \<Longrightarrow> stat f p = None"
  by (simp add: stat_def follow.simps [of 40])

lemma stat_regular: "fs_nodes f p = Some (Regular i c) \<Longrightarrow> stat f p = Some (p, i, c)"
  by (simp add: stat_def follow.simps [of 40])

text \<open>
  The file backend never restores the resolver it replaced: once \<open>apply_resolv_conf\<close> has
  renamed its file over the captured one, \<open>revert_resolv_conf\<close>, which compares the inode with the
  one captured before the replacement, refuses and leaves the managed file in place.
\<close>

theorem resolv_conf_revert_always_refuses:
  assumes "fs_ok f" and "capture_resolv_conf io p f = Inr ev" and "p \<noteq> with_extension p ''protonwire.tmp''"
    and "fs_nodes f (with_extension p ''protonwire.tmp'') = None"
    and "apply_resolv_conf io' ev servers f = (Inr (), f')" and "io_stat io'' = None"
  shows "revert_resolv_conf io'' ev f' = (Inl (ChangedUnderUs p (rc_original_inode ev) (fs_next f)), f') \<and>
    stat f' p = Some (p, fs_next f, render_resolv_conf servers)"
proof -
  let ?tmp = "with_extension p ''protonwire.tmp''"
  have ev: "rc_path ev = p" "rc_original_inode ev < fs_next f" using capture_inode [OF assms(1,2)] by simp_all
  have "f' = fs_rename ?tmp p (fs_write ?tmp (render_resolv_conf servers) f)"
    using assms(5) ev(1) by (auto simp: apply_resolv_conf_def Let_def split: option.splits)
  then have "fs_nodes f' p = Some (Regular (fs_next f) (render_resolv_conf servers))"
    using assms(3) stat_missing [OF assms(4)] by (simp add: fs_write_def fs_rename_def)
  note s = stat_regular [OF this]
  with ev assms(6) show ?thesis by (simp add: revert_resolv_conf_def Let_def)
qed

definition demo_fs :: fs where
  "demo_fs = \<lparr>fs_nodes = [''/etc/resolv.conf'' \<mapsto> Regular 10 ''nameserver 1.1.1.1''], fs_next = 11\<rparr>"

definition quiet_io :: dns_io where
  "quiet_io = \<lparr>io_lstat = None, io_readlink = None, io_stat = None, io_read = None, io_fwrite = None, io_frename = None\<rparr>"

theorem resolv_conf_revert_always_refuses_witness:
  "\<exists>ev f'. capture_resolv_conf quiet_io ''/etc/resolv.conf'' demo_fs = Inr ev \<and>
     apply_resolv_conf quiet_io ev [] demo_fs = (Inr (), f') \<and>
     revert_resolv_conf quiet_io ev f' = (Inl (ChangedUnderUs ''/etc/resolv.conf'' 10 11), f')"
proof -
  let ?p = "''/etc/resolv.conf''"
  have ok: "fs_ok demo_fs" by (auto simp: fs_ok_def demo_fs_def split: if_splits)
  obtain ev where ev: "capture_resolv_conf quiet_io ?p demo_fs = Inr ev" "rc_original_inode ev = 10"
    by (simp add: capture_resolv_conf_def quiet_io_def demo_fs_def stat_regular)
  obtain f' where f': "apply_resolv_conf quiet_io ev [] demo_fs = (Inr (), f')"
    by (simp add: apply_resolv_conf_def quiet_io_def Let_def)
  have "?p \<noteq> with_extension ?p ''protonwire.tmp''" "fs_nodes demo_fs (with_extension ?p ''protonwire.tmp'') = None"
    "io_stat quiet_io = None"
    by (simp_all add: with_extension_def demo_fs_def quiet_io_def)
  from resolv_conf_revert_always_refuses [OF ok ev(1) this(1,2) f' this(3)] ev f' show ?thesis
    by (auto simp: demo_fs_def)
qed

end
