(* ===== verification/Net_Session.thy ===== *)
theory Net_Session
  imports Net_Txn_Props Kill_Switch_Props Net_Dns
begin

text \<open>
  The connect and disconnect sequences (\<open>net/src/session.rs\<close>) over the three surfaces: the
  netlink host, the nftables host and the files. The properties compose the table plan, the
  kill switch and route transactions.
\<close>

section \<open>The sequences\<close>

datatype plan_fault = PlanNetlink string | PlanLookalike LookalikeTable

datatype SessionError =
    SessionKillSwitch KillSwitchError
  | SessionRoutes ApplyFailure
  | SessionNetlink string
  | SessionDns DnsError
  | MarkCollision u32
  | SessionPlan plan_fault

record ConnectInputs =
  ci_tun_ifindex :: u32
  ci_tun_ifname :: string
  ci_uplink_ifname :: string
  ci_bypass_mark :: u32
  ci_ipv6 :: Ipv6Desired
  ci_dns :: DnsConfig
  ci_generation :: GenerationId
  ci_prior_generation :: "GenerationId option"
  ci_persisted_tables :: "PersistedTables option"

record SessionState =
  ss_plan :: TablePlan
  ss_installed_ops :: "NetOp list"
  ss_dns_evidence :: "ResolvConfEvidence option"
  ss_dns_backend :: DnsBackend
  ss_generation :: GenerationId

text \<open>What the DNS phase meets: the backend, the commands, and the failures of the file calls.\<close>

record dns_env =
  de_resolve_dir :: bool
  de_run :: command
  de_io :: dns_io

definition RESOLV_CONF :: file_path where
  "RESOLV_CONF = ''/etc/resolv.conf''"

definition dns_by_file :: "dns_env \<Rightarrow> DnsServer list \<Rightarrow> fs \<Rightarrow> (DnsError + ResolvConfEvidence option) \<times> fs" where
  "dns_by_file env servers f =
     (case capture_resolv_conf (de_io env) RESOLV_CONF f of
        Inl e \<Rightarrow> (Inl e, f)
      | Inr evidence \<Rightarrow>
          (case apply_resolv_conf (de_io env) evidence servers f of
             (Inl e, f') \<Rightarrow> (Inl e, f')
           | (Inr _, f') \<Rightarrow> (Inr (Some evidence), f')))"

definition dns_phase :: "dns_env \<Rightarrow> DnsConfig \<Rightarrow> string \<Rightarrow> fs \<Rightarrow> (DnsError + ResolvConfEvidence option) \<times> fs" where
  "dns_phase env dns tun_ifname f =
     (if dc_mode dns = NoDns then (Inr None, f)
      else case detect_backend (de_resolve_dir env) of
          SystemdResolved \<Rightarrow>
            (case apply_resolved (de_run env) tun_ifname (dc_servers dns) of
               Inr _ \<Rightarrow> (Inr None, f)
             | Inl _ \<Rightarrow> dns_by_file env (dc_servers dns) f)
        | ResolvConf \<Rightarrow> dns_by_file env (dc_servers dns) f)"

type_synonym ('k, 'n) surfaces = "'k \<times> 'n \<times> fs"

definition connect_routes :: "TablePlan \<Rightarrow> ConnectInputs \<Rightarrow> DesiredRoutes" where
  "connect_routes plan inputs =
     \<lparr>dr_plan = plan, dr_tun_oif = ci_tun_ifindex inputs, dr_bypass_mark = ci_bypass_mark inputs,
      dr_ipv6 = ci_ipv6 inputs, dr_kill_switch_armed = True\<rparr>"

definition route_phase :: "'k netlink \<Rightarrow> TablePlan \<Rightarrow> ConnectInputs \<Rightarrow> 'k \<Rightarrow> (SessionError, NetOp list) res \<times> 'k" where
  "route_phase nl plan inputs k =
     (case desired_ops (connect_routes plan inputs) of
        Ok desired \<Rightarrow>
          (case txn_ops desired (txn_new plan) of
             Ok txn \<Rightarrow>
               (case txn_apply (nl_exec nl) txn k of
                  (Inr installed, k') \<Rightarrow> (Ok installed, k')
                | (Inl route_error, k') \<Rightarrow> (Err (SessionRoutes route_error), k'))
           | Err e \<Rightarrow> (Err (SessionPlan (PlanLookalike e)), k)
           | Panic \<Rightarrow> (Panic, k))
      | _ \<Rightarrow> (Panic, k))"

definition net_connect :: "'k netlink \<Rightarrow> 'n nft \<Rightarrow> dns_env \<Rightarrow> string \<Rightarrow> ConnectInputs \<Rightarrow> KillSwitchPolicy \<Rightarrow>
    ('k, 'n) surfaces \<Rightarrow> (SessionError, SessionState) res \<times> ('k, 'n) surfaces" where
  "net_connect nl nft env rt_tables_text inputs kill_policy_extras w =
     (case w of (k, s, f) \<Rightarrow>
      case nl_plan_with nl rt_tables_text (ci_persisted_tables inputs) k of
        (Err e, k1) \<Rightarrow> (Err (SessionPlan (PlanNetlink e)), k1, s, f)
      | (Panic, k1) \<Rightarrow> (Panic, k1, s, f)
      | (Ok plan, k1) \<Rightarrow>
        (case ks_apply nft (ci_tun_ifname inputs) (ci_uplink_ifname inputs)
            (kill_policy_extras\<lparr>ks_tun_ifindex := ci_tun_ifindex inputs\<rparr>)
            (ci_generation inputs) (ci_prior_generation inputs) s of
           (Err e, s1) \<Rightarrow> (Err (SessionKillSwitch e), k1, s1, f)
         | (Panic, s1) \<Rightarrow> (Panic, k1, s1, f)
         | (Ok _, s1) \<Rightarrow>
           (case route_phase nl plan inputs k1 of
              (Err (SessionRoutes e), k2) \<Rightarrow>
                (Err (SessionRoutes e), k2, snd (ks_remove nft (Some (ci_generation inputs)) s1), f)
            | (Err e, k2) \<Rightarrow> (Err e, k2, s1, f)
            | (Panic, k2) \<Rightarrow> (Panic, k2, s1, f)
            | (Ok installed, k2) \<Rightarrow>
              (case dns_phase env (ci_dns inputs) (ci_tun_ifname inputs) f of
                 (Inl e, f') \<Rightarrow> (Err (SessionDns e), k2, s1, f')
               | (Inr evidence, f') \<Rightarrow>
                   (Ok \<lparr>ss_plan = plan, ss_installed_ops = installed, ss_dns_evidence = evidence,
                      ss_dns_backend = detect_backend (de_resolve_dir env),
                      ss_generation = ci_generation inputs\<rparr>, k2, s1, f')))))"

text \<open>Both reverts are best effort; the outcome of \<open>resolvectl revert\<close> is dropped and touches no file.\<close>

definition dns_revert :: "dns_env \<Rightarrow> SessionState \<Rightarrow> string \<Rightarrow> fs \<Rightarrow> fs" where
  "dns_revert env st tun_ifname f =
     (case ss_dns_evidence st of
        Some evidence \<Rightarrow> snd (revert_resolv_conf (de_io env) evidence f)
      | None \<Rightarrow>
          if ss_dns_backend st = SystemdResolved
          then (case revert_resolved (de_run env) tun_ifname of Inl _ \<Rightarrow> f | Inr _ \<Rightarrow> f)
          else f)"

definition route_cleanup :: "'k netlink \<Rightarrow> SessionState \<Rightarrow> 'k \<Rightarrow> (SessionError, unit) res \<times> 'k" where
  "route_cleanup nl st k =
     (case nl_cleanup_ops nl (ss_installed_ops st) k of
        (Inl e, k1) \<Rightarrow> (Err (SessionNetlink e), k1)
      | (Inr cleanup, k1) \<Rightarrow>
          (case txn_ops cleanup (txn_new (ss_plan st)) of
             Ok txn \<Rightarrow>
               (case txn_apply (nl_exec nl) txn k1 of
                  (Inr _, k2) \<Rightarrow> (Ok (), k2)
                | (Inl e, k2) \<Rightarrow> (Err (SessionRoutes e), k2))
           | Err e \<Rightarrow> (Err (SessionPlan (PlanLookalike e)), k1)
           | Panic \<Rightarrow> (Panic, k1)))"

definition net_disconnect :: "'k netlink \<Rightarrow> 'n nft \<Rightarrow> dns_env \<Rightarrow> SessionState \<Rightarrow> string \<Rightarrow> bool \<Rightarrow> GenerationId option \<Rightarrow>
    ('k, 'n) surfaces \<Rightarrow> (SessionError, unit) res \<times> ('k, 'n) surfaces" where
  "net_disconnect nl nft env st tun_ifname permanent_kill_switch prior_generation w =
     (case w of (k, s, f) \<Rightarrow>
      let f' = dns_revert env st tun_ifname f in
      case route_cleanup nl st k of
        (Ok _, k') \<Rightarrow>
          if permanent_kill_switch then (Ok (), k', s, f')
          else (case ks_remove nft prior_generation s of (r, s') \<Rightarrow> (map_err SessionKillSwitch r, k', s', f'))
      | (r, k') \<Rightarrow> (r, k', s, f'))"

section \<open>The plan admits what the session asks for\<close>

lemma resolve_range: "resolve k survey claimed = Ok a \<Longrightarrow> ta_kind a = k \<and> KERNEL_RESERVED_MAX < ta_id a"
proof (cases "\<exists>pt. sv_persisted survey = Some pt \<and> reclaimable k survey claimed pt")
  case True
  then show "resolve k survey claimed = Ok a \<Longrightarrow> ?thesis"
    by (auto simp: resolve_def reclaimable_def Let_def)
next
  case False
  assume "resolve k survey claimed = Ok a"
  with False have "resolve_fresh k survey claimed = Ok a" by (auto simp: resolve_def split: option.splits if_splits)
  then show ?thesis
    using next_free_Ok [of survey claimed "preferred_id k + 1" "ta_id a"] preferred_id_range(1) [of k]
    by (auto simp: resolve_fresh_def Let_def res_simps free_id_iff split: if_splits)
qed

lemma plan_loop_range:
  "plan_loop survey claimed ks = Ok as \<Longrightarrow> map ta_kind as = ks \<and> (\<forall>a\<in>set as. KERNEL_RESERVED_MAX < ta_id a)"
proof (induction ks arbitrary: claimed as)
  case (Cons k ks)
  then obtain a as' where "resolve k survey claimed = Ok a"
    "plan_loop survey (bset_insert (ta_id a) claimed) ks = Ok as'" "as = a # as'"
    by (auto simp: res_simps)
  with Cons.IH [of _ as'] resolve_range [of k survey claimed a] show ?case by auto
qed simp

lemma plan_with_range:
  assumes "nl_plan_with nl txt prior k = (Ok plan, k1)"
  shows "map ta_kind (assignments plan) = ALL_KINDS \<and> (\<forall>a\<in>set (assignments plan). KERNEL_RESERVED_MAX < ta_id a)"
proof -
  obtain survey where "plan_tables survey = Ok plan"
    using assms by (auto simp: nl_plan_with_def res_simps split: prod.splits sum.splits)
  then show ?thesis using plan_loop_range by (auto simp: plan_tables_def res_simps)
qed

text \<open>An operation a transaction on the plan admits, with its inverse.\<close>

definition admitted :: "TablePlan \<Rightarrow> NetOp \<Rightarrow> bool" where
  "admitted plan o1 \<longleftrightarrow> bypass_into_main o1 \<or> is_blackhole o1 \<or> plan_owns plan (op_table o1)"

lemma admitted_inverse [simp]: "admitted plan (inverse_op o1) \<longleftrightarrow> admitted plan o1"
  by (cases o1) (simp_all add: admitted_def bypass_into_main_def is_blackhole_def)

lemma txn_ops_admitted:
  "list_all (admitted (rt_plan txn)) os \<Longrightarrow> txn_ops os txn = Ok (txn\<lparr>rt_ops := rt_ops txn @ os\<rparr>)"
  by (induction os arbitrary: txn) (auto simp: txn_op_def admitted_def)

lemma desired_ops_admitted:
  assumes "map ta_kind (assignments plan) = ALL_KINDS" and "\<forall>a\<in>set (assignments plan). KERNEL_RESERVED_MAX < ta_id a"
    and "dr_plan st = plan"
  shows "\<exists>os. desired_ops st = Ok os \<and> list_all (admitted plan) os \<and> list_all valid_add os"
proof -
  obtain a as where as: "assignments plan = a # as" "ta_kind a = MainTable"
    using assms(1) by (auto simp: ALL_KINDS_def Cons_eq_map_conv)
  have a: "plan_assignment plan MainTable = Ok a" by (simp add: plan_assignment_def as)
  have own: "plan_owns plan (ta_id a)" by (simp add: plan_owns_def as)
  have big: "ta_id a \<noteq> 252" using assms(2) as by (simp add: KERNEL_RESERVED_MAX_def)
  have v: "valid_add (tunnel_rule (ta_id a) fam)" "admitted plan (tunnel_rule (ta_id a) fam)"
    "m \<noteq> 0 \<Longrightarrow> valid_add (bypass_rule m fam)" "admitted plan (bypass_rule m fam)"
    "valid_add v6_blackhole" "admitted plan v6_blackhole" for fam m
    using own by (simp_all add: tunnel_rule_def bypass_rule_def v6_blackhole_def admitted_def bypass_into_main_def
        is_blackhole_def FULL_TUNNEL_RULE_PRIORITY_def BYPASS_RULE_PRIORITY_def KERNEL_MAIN_def)
  have r: "valid_add (AddRoute \<lparr>ro_table = ta_id a, ro_dest = d, ro_oif = i\<rparr>)"
    "admitted plan (AddRoute \<lparr>ro_table = ta_id a, ro_dest = d, ro_oif = i\<rparr>)" if "d \<in> {V4_DEFAULT, V6_DEFAULT}" for d i
    using own big that by (auto simp: RT_TABLE_COMPAT_def admitted_def)
  have "ta_id a \<noteq> RT_TABLE_COMPAT" using big by (simp add: RT_TABLE_COMPAT_def)
  with assms(3) a v r show ?thesis by (auto simp: desired_ops_def Let_def)
qed

lemma route_phase_cases:
  assumes "nl_plan_with nl txt prior k = (Ok plan, k1)" and "route_phase nl plan inputs k2 = (r, k3)"
  shows "\<exists>txn. rt_plan txn = plan \<and> list_all valid_add (rt_ops txn) \<and> list_all (admitted plan) (rt_ops txn) \<and>
    desired_ops (connect_routes plan inputs) = Ok (rt_ops txn) \<and>
    (case txn_apply (nl_exec nl) txn k2 of
       (Inr installed, k') \<Rightarrow> r = Ok installed \<and> k3 = k'
     | (Inl e, k') \<Rightarrow> r = Err (SessionRoutes e) \<and> k3 = k')"
proof -
  let ?st = "connect_routes plan inputs"
  obtain os where os: "desired_ops ?st = Ok os" "list_all (admitted plan) os" "list_all valid_add os"
    using desired_ops_admitted [of plan ?st] plan_with_range [OF assms(1)] by (auto simp: connect_routes_def)
  let ?txn = "(txn_new plan)\<lparr>rt_ops := os\<rparr>"
  have "txn_ops os (txn_new plan) = Ok ?txn"
    using txn_ops_admitted [of "txn_new plan" os] os(2) by (simp add: txn_new_def)
  with assms(2) os show ?thesis
    by (intro exI [of _ ?txn]) (auto simp: route_phase_def txn_new_def split: prod.splits sum.splits)
qed

section \<open>The host across the phases\<close>

context netlink_kernel
begin

lemma plan_with_same:
  assumes "nl_plan_with nl txt prior k = (r, k1)"
  shows "same k k1"
  using assms rule_dump route_dump
  by (fastforce simp: nl_plan_with_def nl_survey_def same_def split: prod.splits sum.splits)

lemma transaction_installs:
  assumes "list_all valid_add os" and "apply_loop (nl_exec nl) os [] k = (Inr fin, k')"
  shows "\<exists>ys. live.installs (host_objects rules routes k) fin ys \<and>
    host_objects rules routes k' = host_objects rules routes k + mset ys \<and> set fin \<subseteq> set os \<and>
    (\<forall>o1\<in>set os. o1 \<in> set fin \<or> seen rules routes k o1)"
  using live.apply_loop_done [OF live.installs_Nil _ assms] by (auto simp: seen_def)

lemma installs_seen:
  assumes "live.installs base fin ys" and "o1 \<in> set fin" and "host_objects rules routes k = base + mset ys + extra"
  shows "seen rules routes k o1"
proof -
  obtain y where "y \<in> set ys" "is_object y o1"
    using assms(1,2) list_all2_left [of is_object ys fin o1] by (auto simp: live.installs_def)
  with assms(3) show ?thesis by (auto simp: seen_def)
qed

text \<open>Cleaning up a session's installed operations, with foreign objects added meanwhile.\<close>

lemma cleanup_restores:
  assumes ins: "live.installs base fin ys" and host: "host_objects rules routes k = base + mset ys + foreign"
    and foreign: "\<forall>x\<in>#foreign. \<forall>o1\<in>set fin. \<not> is_object x o1"
    and adm: "list_all (admitted (ss_plan st)) fin" and st: "ss_installed_ops st = fin"
    and run: "route_cleanup nl st k = (Ok (), k')"
  shows "host_objects rules routes k' = base + foreign"
proof -
  have v: "list_all valid_add fin" using ins by (simp add: live.installs_def)
  then have adds: "list_all is_add fin" by (auto simp: list_all_iff elim!: valid_add.elims)
  have all_there: "filter (seen rules routes k) fin = fin"
    using installs_seen [OF ins _ host] by (simp add: filter_id_conv)
  have fin: "filter is_add fin = fin" using adds by (simp add: filter_id_conv list_all_iff)
  obtain res k1 where res: "nl_present_ops nl fin k = (res, k1)" by fastforce
  obtain found where "res = Inr found"
    using run res by (cases res) (auto simp: route_cleanup_def nl_cleanup_ops_def st fin)
  with res have found: "nl_present_ops nl fin k = (Inr found, k1)" by simp
  have p: "same k k1" "found = fin" using present_ops_result [OF adds found] all_there by simp_all
  have "txn_ops (map inverse_op fin) (txn_new (ss_plan st)) = Ok \<lparr>rt_plan = ss_plan st, rt_ops = map inverse_op fin\<rparr>"
    using adm by (subst txn_ops_admitted) (simp_all add: txn_new_def list_all_iff)
  then obtain gone where del: "apply_loop (nl_exec nl) (map inverse_op fin) [] k1 = (Inr gone, k')"
    using run found p(2)
    by (auto simp: route_cleanup_def nl_cleanup_ops_def st fin txn_apply_def split: prod.splits sum.splits)
  have h1: "host_objects rules routes k1 = base + mset ys + foreign" using host same_host [OF p(1)] by simp
  have "size {#x \<in># host_objects rules routes k1. is_object x o1#} \<le> 1" if "o1 \<in> set fin" for o1
  proof -
    have "{#x \<in># foreign. is_object x o1#} = {#}" using foreign that by (simp add: filter_mset_none)
    with live.installs_single [OF ins that] show ?thesis
      by (simp only: h1 filter_union_mset add_0_right)
  qed
  from live.apply_deletes [OF v _ del] this
  have h': "host_objects rules routes k' = {#x \<in># base + mset ys + foreign. \<not> (\<exists>o1\<in>set fin. is_object x o1)#}"
    by (simp add: h1)
  have "\<forall>x\<in>#mset ys. \<exists>o1\<in>set fin. is_object x o1"
    using ins list_all2_right [of is_object ys fin] by (auto simp: live.installs_def)
  then have "{#x \<in># mset ys. \<not> (\<exists>o1\<in>set fin. is_object x o1)#} = {#}" by (simp only: filter_mset_none not_not)
  moreover have "{#x \<in># base. \<not> (\<exists>o1\<in>set fin. is_object x o1)#} = base"
    using ins by (auto simp: live.installs_def filter_mset_eq_conv)
  moreover have "{#x \<in># foreign. \<not> (\<exists>o1\<in>set fin. is_object x o1)#} = foreign"
    using foreign by (simp add: filter_mset_eq_conv)
  ultimately show ?thesis unfolding h' filter_union_mset by simp
qed

lemma installs_there:
  assumes "live.installs base fin ys" and "o1 \<in> set fin" and "host_objects rules routes k = base + mset ys"
  shows "there rules routes k o1"
proof -
  have "list_all2 (\<lambda>x o1. is_object x o1 \<and> is_plain x) ys fin"
    using assms(1) by (auto simp: live.installs_def list_all2_conv_all_nth list_all_length)
  from list_all2_left [OF this assms(2)] assms(3) show ?thesis by (auto simp: there_def)
qed

text \<open>The route phase on a planned host: everything desired is there or shadowed, or only a named residue is.\<close>

lemma route_phase_outcome:
  assumes plan: "nl_plan_with nl txt prior k = (Ok plan, k1)" and run: "route_phase nl plan inputs k1 = (q, k')"
  shows "(\<exists>fin os ys. q = Ok fin \<and> desired_ops (connect_routes plan inputs) = Ok os \<and> list_all (admitted plan) fin \<and>
      set fin \<subseteq> set os \<and>
      live.installs (host_objects rules routes k) fin ys \<and>
      host_objects rules routes k' = host_objects rules routes k + mset ys \<and>
      list_all (\<lambda>o1. there rules routes k' o1 \<or> shadowed rules routes k o1) os) \<or>
    (\<exists>e left. q = Err (SessionRoutes e) \<and> host_objects rules routes k' = host_objects rules routes k + left \<and>
      live.residue_named left (af_rollback_errors e))"
proof -
  obtain txn where txn: "list_all valid_add (rt_ops txn)" "list_all (admitted plan) (rt_ops txn)"
    "desired_ops (connect_routes plan inputs) = Ok (rt_ops txn)"
    "case txn_apply (nl_exec nl) txn k1 of
       (Inr fin, k2) \<Rightarrow> q = Ok fin \<and> k' = k2 | (Inl e, k2) \<Rightarrow> q = Err (SessionRoutes e) \<and> k' = k2"
    using route_phase_cases [OF plan run] by auto
  note same = same_host [OF plan_with_same [OF plan]]
  obtain res k2 where res: "apply_loop (nl_exec nl) (rt_ops txn) [] k1 = (res, k2)" by fastforce
  show ?thesis
  proof (cases res)
    case (Inl e)
    with live.apply_loop_failed [OF live.installs_Nil _ txn(1), where base = "host_objects rules routes k1" and k = k1 and f = e and k' = k2] res txn(4) same
    show ?thesis by (auto simp: txn_apply_def)
  next
    case (Inr fin)
    obtain ys where ys: "live.installs (host_objects rules routes k) fin ys"
      "host_objects rules routes k2 = host_objects rules routes k + mset ys" "set fin \<subseteq> set (rt_ops txn)"
      "\<forall>o1\<in>set (rt_ops txn). o1 \<in> set fin \<or> seen rules routes k1 o1"
      using transaction_installs [OF txn(1) res [unfolded Inr]] same by auto
    have "there rules routes k2 o1 \<or> shadowed rules routes k o1" if "o1 \<in> set (rt_ops txn)" for o1
    proof (cases "o1 \<in> set fin")
      case True
      then show ?thesis using installs_there [OF ys(1), of o1 k2] ys(2) by simp
    next
      case False
      then have "seen rules routes k o1" using ys(4) that same by (auto simp: seen_def)
      then show ?thesis using ys(2) by (auto simp: seen_iff there_def)
    qed
    then have "list_all (\<lambda>o1. there rules routes k2 o1 \<or> shadowed rules routes k o1) (rt_ops txn)" by (simp add: list_all_iff)
    moreover have "list_all (admitted plan) fin" using txn(2) ys(3) by (auto simp: list_all_iff)
    ultimately show ?thesis using txn(3,4) res Inr ys(1,2,3) by (auto simp: txn_apply_def)
  qed
qed

end

text \<open>The switch as a session arms it.\<close>

abbreviation arm_switch :: "'n nft \<Rightarrow> ConnectInputs \<Rightarrow> KillSwitchPolicy \<Rightarrow> 'n \<Rightarrow> (KillSwitchError, unit) res \<times> 'n" where
  "arm_switch nft inputs extras s \<equiv>
     ks_apply nft (ci_tun_ifname inputs) (ci_uplink_ifname inputs) (extras\<lparr>ks_tun_ifindex := ci_tun_ifindex inputs\<rparr>)
       (ci_generation inputs) (ci_prior_generation inputs) s"

lemma net_connect_cases:
  assumes "net_connect nl nft env txt inputs extras (k, s, f) = (r, k', s', f')"
  shows "(\<exists>p. nl_plan_with nl txt (ci_persisted_tables inputs) k = (p, k') \<and> (\<forall>plan. p \<noteq> Ok plan) \<and> s' = s \<and> f' = f \<and>
      r = (case p of Err e \<Rightarrow> Err (SessionPlan (PlanNetlink e)) | _ \<Rightarrow> Panic)) \<or>
    (\<exists>plan q. nl_plan_with nl txt (ci_persisted_tables inputs) k = (Ok plan, k') \<and>
      arm_switch nft inputs extras s = (q, s') \<and> q \<noteq> Ok () \<and> f' = f \<and>
      r = (case q of Err e \<Rightarrow> Err (SessionKillSwitch e) | _ \<Rightarrow> Panic)) \<or>
    (\<exists>plan k1 s1 q. nl_plan_with nl txt (ci_persisted_tables inputs) k = (Ok plan, k1) \<and>
      arm_switch nft inputs extras s = (Ok (), s1) \<and> route_phase nl plan inputs k1 = (q, k') \<and>
      (case q of
         Ok installed \<Rightarrow> s' = s1 \<and> (case dns_phase env (ci_dns inputs) (ci_tun_ifname inputs) f of
             (Inl e, f1) \<Rightarrow> f' = f1 \<and> r = Err (SessionDns e)
           | (Inr evidence, f1) \<Rightarrow> f' = f1 \<and> r = Ok \<lparr>ss_plan = plan, ss_installed_ops = installed,
               ss_dns_evidence = evidence, ss_dns_backend = detect_backend (de_resolve_dir env),
               ss_generation = ci_generation inputs\<rparr>)
       | Err (SessionRoutes e) \<Rightarrow> r = Err (SessionRoutes e) \<and> f' = f \<and>
           (\<exists>w. ks_remove nft (Some (ci_generation inputs)) s1 = (w, s'))
       | _ \<Rightarrow> True))"
proof -
  obtain p k1 where p: "nl_plan_with nl txt (ci_persisted_tables inputs) k = (p, k1)" by fastforce
  show ?thesis
  proof (cases p)
    case (Ok plan)
    obtain q s1 where q: "arm_switch nft inputs extras s = (q, s1)" by fastforce
    show ?thesis
    proof (cases q)
      case (Ok u)
      obtain t k2 where t: "route_phase nl plan inputs k1 = (t, k2)" by fastforce
      show ?thesis
        using assms p q t \<open>p = res.Ok plan\<close> Ok
        by (intro disjI2 exI [of _ plan] exI [of _ k1] exI [of _ s1] exI [of _ t])
          (cases "ks_remove nft (Some (ci_generation inputs)) s1",
            auto simp: net_connect_def split: prod.splits res.splits SessionError.splits sum.splits)
    qed (use assms p q \<open>p = res.Ok plan\<close> in \<open>auto simp: net_connect_def\<close>)
  qed (use assms p in \<open>auto simp: net_connect_def\<close>)
qed

lemma net_connect_Ok:
  assumes "net_connect nl nft env txt inputs extras (k, s, f) = (Ok st, k', s', f')"
  shows "\<exists>plan k1 q. nl_plan_with nl txt (ci_persisted_tables inputs) k = (Ok plan, k1) \<and>
    route_phase nl plan inputs k1 = (q, k') \<and> (\<forall>e. q \<noteq> Err (SessionRoutes e)) \<and>
    (\<forall>fin. q = Ok fin \<longrightarrow> ss_plan st = plan \<and> ss_installed_ops st = fin \<and>
      dns_phase env (ci_dns inputs) (ci_tun_ifname inputs) f = (Inr (ss_dns_evidence st), f'))"
  using net_connect_cases [OF assms]
proof (elim disjE exE conjE)
  fix plan k1 s1 q
  assume "nl_plan_with nl txt (ci_persisted_tables inputs) k = (Ok plan, k1)" "route_phase nl plan inputs k1 = (q, k')"
    and "case q of
         Ok installed \<Rightarrow> s' = s1 \<and> (case dns_phase env (ci_dns inputs) (ci_tun_ifname inputs) f of
             (Inl e, f1) \<Rightarrow> f' = f1 \<and> res.Ok st = Err (SessionDns e)
           | (Inr evidence, f1) \<Rightarrow> f' = f1 \<and> res.Ok st = res.Ok \<lparr>ss_plan = plan, ss_installed_ops = installed,
               ss_dns_evidence = evidence, ss_dns_backend = detect_backend (de_resolve_dir env),
               ss_generation = ci_generation inputs\<rparr>)
       | Err (SessionRoutes e) \<Rightarrow> res.Ok st = Err (SessionRoutes e) \<and> f' = f \<and>
           (\<exists>w. ks_remove nft (Some (ci_generation inputs)) s1 = (w, s'))
       | _ \<Rightarrow> True"
  moreover obtain d f1 where "dns_phase env (ci_dns inputs) (ci_tun_ifname inputs) f = (d, f1)" by fastforce
  ultimately show ?thesis
    by (intro exI [of _ plan] exI [of _ k1] exI [of _ q]) (cases d; auto)
qed (auto split: res.splits)

text \<open>What the DNS phase of a connect leaves behind, and what the revert of a disconnect does with it.\<close>

lemma dns_phase_files:
  assumes "dns_phase env dns tun f = (Inr evidence, f1)"
  shows "case evidence of
      None \<Rightarrow> f1 = f
    | Some ev \<Rightarrow> rc_path ev = RESOLV_CONF \<and> (\<exists>q i. stat f RESOLV_CONF = Some (q, i, rc_original_content ev))"
proof -
  have "rc_path ev = RESOLV_CONF \<and> (\<exists>q i. stat f RESOLV_CONF = Some (q, i, rc_original_content ev))"
    if "capture_resolv_conf io RESOLV_CONF f = Inr ev" for io ev
    using that by (auto simp: capture_resolv_conf_def split: option.splits sum.splits node.splits)
  then show ?thesis
    using assms by (auto simp: dns_phase_def dns_by_file_def split: if_splits sum.splits prod.splits DnsBackend.splits)
qed

lemma dns_revert_files:
  "case ss_dns_evidence st of
     None \<Rightarrow> dns_revert env st tun f = f
   | Some ev \<Rightarrow> dns_revert env st tun f = f \<or>
       dns_revert env st tun f = fs_write (rc_path ev) (rc_original_content ev) f \<and>
       (io_stat (de_io env) = None \<longrightarrow>
         (case stat f (rc_path ev) of None \<Rightarrow> True | Some (_, i, _) \<Rightarrow> i = rc_original_inode ev))"
  by (auto simp: dns_revert_def revert_resolv_conf_def Let_def split: option.splits sum.splits if_splits)

section \<open>A concrete session\<close>

definition demo_inputs :: ConnectInputs where
  "demo_inputs = \<lparr>ci_tun_ifindex = 5, ci_tun_ifname = ''protonwire0'', ci_uplink_ifname = ''eth0'', ci_bypass_mark = 51820,
     ci_ipv6 = Blocked, ci_dns = \<lparr>dc_mode = NoDns, dc_servers = [], dc_routing = ThroughVpn\<rparr>, ci_generation = 7,
     ci_prior_generation = None, ci_persisted_tables = None\<rparr>"

definition demo_fresh_plan :: TablePlan where
  "demo_fresh_plan = \<lparr>assignments = map (\<lambda>k. \<lparr>ta_kind = k, ta_id = preferred_id k, ta_provenance = Preferred\<rparr>) ALL_KINDS\<rparr>"

lemma demo_plan_with: "nl_plan_with demo_nl [] None demo_k = (Ok demo_fresh_plan, demo_k)"
  by (simp add: nl_plan_with_def nl_survey_def demo_nl_def demo_k_def demo_foreign_def rule_table_def parse_rt_tables_def
     plan_tables_def ALL_KINDS_def resolve_def demo_fresh_plan_def str_lines_def map_filter_def
      resolve_fresh_def claimable_def btree_get_def KERNEL_RESERVED_MAX_def
      u32_max_def Let_def)

lemma demo_batch_rules:
  "demo_batch (map AddNftRule rs) (Some (cs @ [(n, xs)])) = Some (cs @ [(n, xs @ rs)])"
  by (induction rs arbitrary: xs) simp_all

abbreviation "demo_pol5 \<equiv> demo_ks_policy\<lparr>ks_tun_ifindex := 5\<rparr>"

lemma demo_sent: "nft_send demo_nft ([AddTable TABLE_NAME, AddChain (marker_chain_name 7), AddDropOutputChain OUTPUT_CHAIN] @
    map AddNftRule (render_rules 1 demo_pol5)) None = (Inr (), demo_armed)"
  using demo_batch_rules [of "render_rules 1 demo_pol5" "[(marker_chain_name 7, [])]" OUTPUT_CHAIN "[]"]
  by (simp add: demo_nft_def demo_armed_def)

lemma demo_batched: "ks_batch demo_nft ''protonwire0'' demo_pol5 7 None None =
    Ok (demo_pol5, [AddTable TABLE_NAME, AddChain (marker_chain_name 7), AddDropOutputChain OUTPUT_CHAIN] @
    map AddNftRule (render_rules 1 demo_pol5))"
  by (simp add: ks_batch_def demo_ks_policy_def lan_permit_check_def demo_nft_def demo_index_def
      tables_named_us_def nf_def decide_live_def Let_def)

lemma demo_validates: "ks_validate demo_nft demo_pol5 7 demo_armed = Ok ()"
  by (simp add: ks_validate_def demo_nft_def tables_named_us_def nf_def marker_generations_def demo_armed_def
      map_filter_def demo_names upt_rec output_chains_def length_render_rules del: upt_Suc)

lemma demo_dropped:
  "dropped_packets demo_nft (Some [(marker_chain_name 7, []), (OUTPUT_CHAIN, rs)]) =
     (case rules_counter (\<lambda>es. \<not> has_verdict es) (map Some rs) of
        Some n \<Rightarrow> Ok n | None \<Rightarrow> Err (Validation ProbeRuleMissing))"
  by (simp add: dropped_packets_def table_counter_def tables_named_us_def nf_def demo_nft_def upt_rec
      output_chains_def demo_names split: option.split)

lemma has_verdict_bump: "has_verdict (bump r c) = has_verdict r"
  by (induction r) (auto simp: has_verdict_def bump_def split: expr.splits)

lemma demo_verdicts: "has_verdict (allow_oif i)" "has_verdict dhcp_rule" "has_verdict (bypass_mark_rule m)"
  "has_verdict (render_lan_permit permit)" "\<not> has_verdict probe_rule"
  by (simp_all add: has_verdict_def allow_oif_def dhcp_rule_def bypass_mark_rule_def render_lan_permit_def probe_rule_def)

lemma demo_counts: "first_counter probe_rule = Some 0" "first_counter (bump probe_rule True) = Some 1"
  by (simp_all add: first_counter_def probe_rule_def bump_def)

lemma demo_probe_sent:
  "nft_send_probe demo_nft ''eth0'' (Some [(a, []), (b, rs)]) =
     (Inr (), Some [(a, []), (b, map2 bump rs (snd (run_chain rs (probe_packet 2))))])"
  by (simp add: demo_nft_def demo_probe_def demo_index_def)

lemma demo_probed: "\<exists>s1. enforcement_probe demo_nft ''eth0'' demo_armed = (Ok (), s1)"
proof -
  have rs: "render_rules 1 demo_pol5 = [allow_oif 5, allow_oif 1, dhcp_rule,
      render_lan_permit \<lparr>lp_dest = \<lparr>dp_addr = IpV4 [192, 168, 1, 0], dp_len = 24\<rparr>, lp_oif = 2\<rparr>,
      bypass_mark_rule 51820, probe_rule, terminal_drop]"
    by (simp add: render_rules_def demo_ks_policy_def)
  have ok: "ks_policy_ok 1 demo_pol5" "packet_ok (probe_packet 2)"
    by (simp_all add: ks_policy_ok_def demo_ks_policy_def addr_ok_def packet_ok_def probe_packet_def PROBE_DESTINATION_def)
  have "\<not> (permitted 1 demo_pol5 (probe_packet 2) \<or> dhcp_gap demo_pol5 (probe_packet 2))"
    by (simp add: permitted_def dhcp_gap_def v4_port_67_def demo_ks_policy_def probe_packet_def in_prefix_def family_byte_def addr_bits_def
        byte_bits_def upt_rec PROBE_DESTINATION_def)
  moreover have "expected_rule_count demo_pol5 - 2 = Suc (Suc (Suc (Suc (Suc 0))))" "pk_nfproto (probe_packet 2) = 2"
    "pk_daddr (probe_packet 2) = PROBE_DESTINATION"
    by (simp_all add: expected_rule_count_def demo_ks_policy_def probe_packet_def)
  ultimately have "snd (run_chain (render_rules 1 demo_pol5) (probe_packet 2)) =
      [False, False, False, False, False, True, True]"
    by (simp only: run_rendered [OF ok] if_False snd_conv replicate.simps append.simps simp_thms)
  then have "nft_send_probe demo_nft ''eth0'' demo_armed =
      (Inr (), Some [(marker_chain_name 7, []), (OUTPUT_CHAIN, map2 bump (render_rules 1 demo_pol5)
        [False, False, False, False, False, True, True])])"
    by (simp only: demo_armed_def demo_probe_sent)
  moreover have "dropped_packets demo_nft demo_armed = Ok 0"
    unfolding demo_armed_def demo_dropped rs by (simp add: rules_counter_def demo_verdicts demo_counts)
  moreover have "dropped_packets demo_nft (Some [(marker_chain_name 7, []), (OUTPUT_CHAIN,
      map2 bump (render_rules 1 demo_pol5) [False, False, False, False, False, True, True])]) = Ok 1"
    unfolding demo_dropped rs by (simp add: rules_counter_def demo_verdicts has_verdict_bump demo_counts)
  ultimately show ?thesis by (simp add: enforcement_probe_def)
qed

lemma demo_arms: "\<exists>s1. ks_apply demo_nft ''protonwire0'' ''eth0'' demo_pol5 7 None None = (Ok (), s1)"
  using demo_probed by (simp only: ks_apply_def demo_batched res.case prod.case demo_sent sum.case demo_validates)

abbreviation "demo_session fin \<equiv> \<lparr>ss_plan = demo_fresh_plan, ss_installed_ops = fin, ss_dns_evidence = None,
  ss_dns_backend = ResolvConf, ss_generation = 7\<rparr>"

abbreviation "demo_env \<equiv> \<lparr>de_resolve_dir = False, de_run = (\<lambda>_. Inr (True, [])), de_io = quiet_io\<rparr>"

abbreviation "demo_rules \<equiv> \<lambda>k. mset (dh_rules k)"
abbreviation "demo_routes \<equiv> \<lambda>k. mset (dh_routes k)"

lemmas demo_route_eval = connect_routes_def demo_inputs_def demo_fresh_plan_def ALL_KINDS_def desired_ops_def
  plan_assignment_def txn_new_def txn_op_def plan_owns_def bypass_rule_def v6_blackhole_def bypass_into_main_def
  is_blackhole_def demo_eval Let_def

lemma demo_up_and_down:
  "\<exists>fin k1 k3. route_phase demo_nl demo_fresh_plan demo_inputs demo_k = (Ok fin, k1) \<and>
     route_cleanup demo_nl (demo_session fin) (k1\<lparr>dh_rules := demo_foreign # dh_rules k1\<rparr>) = (Ok (), k3) \<and>
     (\<forall>o1\<in>set fin. \<not> is_object (RuleObject demo_foreign) o1)"
  by (simp add: route_phase_def route_cleanup_def nl_cleanup_ops_def op_there_def numeral_3_eq_3 del_route_def
      BYPASS_RULE_PRIORITY_def KERNEL_MAIN_def demo_route_eval)

lemma demo_connects:
  "\<exists>fin k1 k3 s1. net_connect demo_nl demo_nft demo_env [] demo_inputs demo_ks_policy (demo_k, None, demo_fs) =
       (Ok (demo_session fin), k1, s1, demo_fs) \<and>
     net_disconnect demo_nl demo_nft demo_env (demo_session fin) ''protonwire0'' True (Some 7)
       (k1\<lparr>dh_rules := demo_foreign # dh_rules k1\<rparr>, s1, demo_fs) = (Ok (), k3, s1, demo_fs) \<and>
     (\<forall>o1\<in>set fin. \<not> is_object (RuleObject demo_foreign) o1)"
proof -
  obtain fin k1 k3 where up: "route_phase demo_nl demo_fresh_plan demo_inputs demo_k = (Ok fin, k1)"
    "route_cleanup demo_nl (demo_session fin) (k1\<lparr>dh_rules := demo_foreign # dh_rules k1\<rparr>) = (Ok (), k3)"
    "\<forall>o1\<in>set fin. \<not> is_object (RuleObject demo_foreign) o1"
    using demo_up_and_down by auto
  obtain s1 where s1: "ks_apply demo_nft ''protonwire0'' ''eth0'' demo_pol5 7 None None = (Ok (), s1)"
    using demo_arms by auto
  have "dns_phase demo_env (ci_dns demo_inputs) (ci_tun_ifname demo_inputs) demo_fs = (Inr None, demo_fs)"
    by (simp add: dns_phase_def demo_inputs_def)
  moreover have "ci_tun_ifname demo_inputs = ''protonwire0''" "ci_uplink_ifname demo_inputs = ''eth0''"
    "ci_tun_ifindex demo_inputs = 5" "ci_generation demo_inputs = 7" "ci_prior_generation demo_inputs = None"
    "ci_persisted_tables demo_inputs = None"
    by (simp_all add: demo_inputs_def)
  ultimately have "net_connect demo_nl demo_nft demo_env [] demo_inputs demo_ks_policy (demo_k, None, demo_fs) =
      (Ok (demo_session fin), k1, s1, demo_fs)"
    using up(1) s1 by (simp add: net_connect_def demo_plan_with detect_backend_def)
  moreover have "net_disconnect demo_nl demo_nft demo_env (demo_session fin) ''protonwire0'' True (Some 7)
      (k1\<lparr>dh_rules := demo_foreign # dh_rules k1\<rparr>, s1, demo_fs) = (Ok (), k3, s1, demo_fs)"
    using up(2) by (simp add: net_disconnect_def dns_revert_def)
  ultimately show ?thesis using up(3) by blast
qed

section \<open>Properties\<close>

text \<open>
  C3. Connecting arms before it routes and ends in one of four ways. (1) The table plan failed:
  neither the host nor the switch nor a file is touched. (2) Arming failed: no rule, route or file
  is touched, and the switch is as the failed \<open>apply\<close> left it. Otherwise the switch was armed,
  validated and probed first, and (3) on success, and on a failure of the DNS phase, the switch
  stays as armed, the files are as the DNS phase left them, the host has lost nothing and gained
  only desired rules and routes, and each of those is there in its full shape, or shadowed
  there by a foreign rule of its tuple; or (4) the route transaction failed: the host holds what
  it held and only such objects more as a rollback error names, no file is touched, and the
  removal of the generation just armed was run, so that a table owned by that generation had its
  deletion sent. The outcome of that removal is not reported. No other outcome exists.
\<close>

theorem connect_fails_closed:
  assumes "netlink_kernel nl rules routes" and "net_connect nl nft env txt inputs extras (k, s, f) = (r, k', s', f')"
  shows "(\<exists>p. nl_plan_with nl txt (ci_persisted_tables inputs) k = (p, k') \<and> (\<forall>plan. p \<noteq> Ok plan) \<and>
      r = (case p of Err e \<Rightarrow> Err (SessionPlan (PlanNetlink e)) | _ \<Rightarrow> Panic) \<and>
      host_objects rules routes k' = host_objects rules routes k \<and> s' = s \<and> f' = f) \<or>
    (\<exists>q. arm_switch nft inputs extras s = (q, s') \<and> q \<noteq> Ok () \<and>
      r = (case q of Err e \<Rightarrow> Err (SessionKillSwitch e) | _ \<Rightarrow> Panic) \<and>
      host_objects rules routes k' = host_objects rules routes k \<and> f' = f) \<or>
    (\<exists>plan s1. arm_switch nft inputs extras s = (Ok (), s1) \<and>
      ((s' = s1 \<and>
        (case dns_phase env (ci_dns inputs) (ci_tun_ifname inputs) f of
           (Inl e, f1) \<Rightarrow> r = Err (SessionDns e) \<and> f' = f1
         | (Inr evidence, f1) \<Rightarrow> f' = f1 \<and> (\<exists>st. r = Ok st \<and> ss_plan st = plan \<and>
             ss_dns_evidence st = evidence \<and> ss_generation st = ci_generation inputs)) \<and>
        (\<exists>os new. desired_ops (connect_routes plan inputs) = Ok os \<and>
          host_objects rules routes k' = host_objects rules routes k + mset new \<and>
          list_all (\<lambda>x. is_plain x \<and> list_ex (is_object x) os) new \<and>
          list_all (\<lambda>o1. there rules routes k' o1 \<or> shadowed rules routes k o1) os)) \<or>
       (\<exists>e left w. r = Err (SessionRoutes e) \<and> f' = f \<and>
        ks_remove nft (Some (ci_generation inputs)) s1 = (w, s') \<and>
        ((\<exists>t. owned_table nft (Some (ci_generation inputs)) s1 t) \<longrightarrow>
          (\<exists>t sent. owned_table nft (Some (ci_generation inputs)) s1 t \<and> nft_send nft [DelTable t] s1 = (sent, s'))) \<and>
        host_objects rules routes k' = host_objects rules routes k + left \<and>
        (\<forall>x\<in>#left. is_plain x \<and> (\<exists>(undo, e)\<in>set (af_rollback_errors e). is_object x (inverse_op undo))))))"
proof -
  note ex = netlink_kernel.is_executor [OF assms(1)]
  note same = netlink_kernel.same_host [OF assms(1) netlink_kernel.plan_with_same [OF assms(1)]]
  from net_connect_cases [OF assms(2)] show ?thesis
  proof (elim disjE exE conjE)
    fix p
    assume "nl_plan_with nl txt (ci_persisted_tables inputs) k = (p, k')" "\<forall>plan. p \<noteq> Ok plan" "s' = s" "f' = f"
      "r = (case p of Err e \<Rightarrow> Err (SessionPlan (PlanNetlink e)) | _ \<Rightarrow> Panic)"
    with same show ?thesis by blast
  next
    fix plan q
    assume "nl_plan_with nl txt (ci_persisted_tables inputs) k = (Ok plan, k')"
      "arm_switch nft inputs extras s = (q, s')" "q \<noteq> Ok ()" "f' = f"
      "r = (case q of Err e \<Rightarrow> Err (SessionKillSwitch e) | _ \<Rightarrow> Panic)"
    with same show ?thesis by blast
  next
    fix plan k1 s1 q
    assume plan: "nl_plan_with nl txt (ci_persisted_tables inputs) k = (Ok plan, k1)"
      and armed: "arm_switch nft inputs extras s = (Ok (), s1)"
      and run: "route_phase nl plan inputs k1 = (q, k')"
      and q: "case q of
         Ok installed \<Rightarrow> s' = s1 \<and> (case dns_phase env (ci_dns inputs) (ci_tun_ifname inputs) f of
             (Inl e, f1) \<Rightarrow> f' = f1 \<and> r = Err (SessionDns e)
           | (Inr evidence, f1) \<Rightarrow> f' = f1 \<and> r = Ok \<lparr>ss_plan = plan, ss_installed_ops = installed,
               ss_dns_evidence = evidence, ss_dns_backend = detect_backend (de_resolve_dir env),
               ss_generation = ci_generation inputs\<rparr>)
       | Err (SessionRoutes e) \<Rightarrow> r = Err (SessionRoutes e) \<and> f' = f \<and>
           (\<exists>w. ks_remove nft (Some (ci_generation inputs)) s1 = (w, s'))
       | _ \<Rightarrow> True"
    from netlink_kernel.route_phase_outcome [OF assms(1) plan run] show ?thesis
    proof (elim disjE exE conjE)
      fix fin os ys
      assume fin: "q = Ok fin" and os: "desired_ops (connect_routes plan inputs) = Ok os"
        "list_all (\<lambda>o1. there rules routes k' o1 \<or> shadowed rules routes k o1) os"
        and ys: "set fin \<subseteq> set os" "executor.installs is_object valid_add is_plain (host_objects rules routes k) fin ys"
        "host_objects rules routes k' = host_objects rules routes k + mset ys"
      have dns: "s' = s1 \<and> (case dns_phase env (ci_dns inputs) (ci_tun_ifname inputs) f of
           (Inl e, f1) \<Rightarrow> r = Err (SessionDns e) \<and> f' = f1
         | (Inr evidence, f1) \<Rightarrow> f' = f1 \<and> (\<exists>st. r = Ok st \<and> ss_plan st = plan \<and>
             ss_dns_evidence st = evidence \<and> ss_generation st = ci_generation inputs))"
        using q fin by (auto split: prod.splits sum.splits)
      have "list_all (\<lambda>x. is_plain x \<and> list_ex (is_object x) os) ys"
        using ys(1,2) list_all2_right [of is_object ys fin]
        by (auto simp: executor.installs_def [OF ex] list_all_iff list_ex_iff) blast
      with os ys(3) have "\<exists>os new. desired_ops (connect_routes plan inputs) = Ok os \<and>
          host_objects rules routes k' = host_objects rules routes k + mset new \<and>
          list_all (\<lambda>x. is_plain x \<and> list_ex (is_object x) os) new \<and>
          list_all (\<lambda>o1. there rules routes k' o1 \<or> shadowed rules routes k o1) os" by blast
      with dns show ?thesis
        by (intro disjI2 exI [of _ plan] exI [of _ s1] conjI [OF armed] disjI1) simp
    next
      fix e left
      assume "q = Err (SessionRoutes e)" and l: "host_objects rules routes k' = host_objects rules routes k + left"
        "executor.residue_named is_object is_plain left (af_rollback_errors e)"
      with q obtain w where r: "r = Err (SessionRoutes e)" "f' = f"
        and w: "ks_remove nft (Some (ci_generation inputs)) s1 = (w, s')" by auto
      have "(\<exists>t. owned_table nft (Some (ci_generation inputs)) s1 t) \<longrightarrow>
          (\<exists>t sent. owned_table nft (Some (ci_generation inputs)) s1 t \<and> nft_send nft [DelTable t] s1 = (sent, s'))"
        using ks_remove_outcome [OF w] by (auto split: if_splits)
      with armed r w l(1) l(2) [unfolded executor.residue_named_def [OF ex]] show ?thesis by blast
    qed
  qed
qed

theorem connect_fails_closed_witness:
  "\<exists>fin k1 s1 os. net_connect demo_nl demo_nft demo_env [] demo_inputs demo_ks_policy (demo_k, None, demo_fs) =
       (Ok (demo_session fin), k1, s1, demo_fs) \<and>
     desired_ops (connect_routes demo_fresh_plan demo_inputs) = Ok os \<and>
     list_all (\<lambda>o1. there demo_rules demo_routes k1 o1 \<or> shadowed demo_rules demo_routes demo_k o1) os"
proof -
  obtain fin k1 s1 where c: "net_connect demo_nl demo_nft demo_env [] demo_inputs demo_ks_policy (demo_k, None, demo_fs) =
      (Ok (demo_session fin), k1, s1, demo_fs)" using demo_connects by blast
  have "dns_phase demo_env (ci_dns demo_inputs) (ci_tun_ifname demo_inputs) demo_fs = (Inr None, demo_fs)"
    by (simp add: dns_phase_def demo_inputs_def)
  with connect_fails_closed [OF demo.netlink_kernel_axioms c] c show ?thesis
    by (auto split: res.splits) (metis res.exhaust)
qed

text \<open>
  C14. Disconnecting takes the session's rules, routes and switch away again: whatever was added to
  the host between a successful connect and a successful disconnect, provided none of it has the
  tuple of an operation the session installed, is all that distinguishes the rules and routes
  afterwards from those before the connect; the kill switch is kept exactly when it is permanent,
  removed through the ownership check otherwise. Of the files: a session that did not write the
  resolver file left the files alone, and so does its disconnect; one that did write it puts back
  the content it found, at \<open>/etc/resolv.conf\<close> only, or changes nothing, and never writes over a
  file that it sees to be another than the one it captured. That the resolver is put back is not
  claimed: see \<open>resolv_conf_revert_always_refuses\<close>.
\<close>

theorem session_takes_its_own_away:
  assumes "netlink_kernel nl rules routes"
    and "net_connect nl nft env txt inputs extras (k, s, f) = (Ok st, k1, s1, f1)"
    and "host_objects rules routes k2 = host_objects rules routes k1 + foreign"
    and "\<forall>x\<in>#foreign. \<forall>o1\<in>set (ss_installed_ops st). \<not> is_object x o1"
    and "net_disconnect nl nft env' st tun permanent prior (k2, s2, f2) = (Ok (), k3, s3, f3)"
  shows "host_objects rules routes k3 = host_objects rules routes k + foreign \<and>
    (if permanent then s3 = s2 else ks_remove nft prior s2 = (Ok (), s3)) \<and>
    (case ss_dns_evidence st of
       None \<Rightarrow> f1 = f \<and> f3 = f2
     | Some ev \<Rightarrow> f3 = f2 \<or>
         (\<exists>q i. stat f RESOLV_CONF = Some (q, i, rc_original_content ev)) \<and>
         f3 = fs_write RESOLV_CONF (rc_original_content ev) f2 \<and>
         (io_stat (de_io env') = None \<longrightarrow>
           (case stat f2 RESOLV_CONF of None \<Rightarrow> True | Some (_, i, _) \<Rightarrow> i = rc_original_inode ev)))"
proof -
  obtain plan ka q where plan: "nl_plan_with nl txt (ci_persisted_tables inputs) k = (Ok plan, ka)"
    and run: "route_phase nl plan inputs ka = (q, k1)"
    and q: "\<And>fin. q = Ok fin \<Longrightarrow> ss_plan st = plan \<and> ss_installed_ops st = fin \<and>
        dns_phase env (ci_dns inputs) (ci_tun_ifname inputs) f = (Inr (ss_dns_evidence st), f1)"
      "\<And>e. q \<noteq> Err (SessionRoutes e)"
    using net_connect_Ok [OF assms(2)] by metis
  obtain fin ys where fin: "q = Ok fin" "list_all (admitted plan) fin"
    "executor.installs is_object valid_add is_plain (host_objects rules routes k) fin ys"
    "host_objects rules routes k1 = host_objects rules routes k + mset ys"
    using netlink_kernel.route_phase_outcome [OF assms(1) plan run] q(2) by blast
  have down: "route_cleanup nl st k2 = (Ok (), k3)" "if permanent then s3 = s2 else ks_remove nft prior s2 = (Ok (), s3)"
    "f3 = dns_revert env' st tun f2"
    using assms(5) by (auto simp: net_disconnect_def Let_def res_simps split: res.splits prod.splits if_splits)
  have "host_objects rules routes k2 = host_objects rules routes k + mset ys + foreign" using assms(3) fin(4) by simp
  from netlink_kernel.cleanup_restores [OF assms(1) fin(3) this _ _ _ down(1)] q(1) [OF fin(1)] fin(2) assms(4)
  have "host_objects rules routes k3 = host_objects rules routes k + foreign" by simp
  moreover note dns_phase_files [of env "ci_dns inputs" "ci_tun_ifname inputs" f "ss_dns_evidence st" f1]
    dns_revert_files [where st = st and env = env' and tun = tun and f = f2]
  ultimately show ?thesis
    using q(1) [OF fin(1)] down(2,3) by (auto split: option.splits)
qed

theorem session_takes_its_own_away_witness:
  "\<exists>fin k1 k3 s1. net_connect demo_nl demo_nft demo_env [] demo_inputs demo_ks_policy (demo_k, None, demo_fs) =
       (Ok (demo_session fin), k1, s1, demo_fs) \<and>
     net_disconnect demo_nl demo_nft demo_env (demo_session fin) ''protonwire0'' True (Some 7)
       (k1\<lparr>dh_rules := demo_foreign # dh_rules k1\<rparr>, s1, demo_fs) = (Ok (), k3, s1, demo_fs) \<and>
     host_objects demo_rules demo_routes k3 = host_objects demo_rules demo_routes demo_k + {#RuleObject demo_foreign#}"
proof -
  obtain fin k1 k3 s1 where c: "net_connect demo_nl demo_nft demo_env [] demo_inputs demo_ks_policy (demo_k, None, demo_fs) =
      (Ok (demo_session fin), k1, s1, demo_fs)"
    "net_disconnect demo_nl demo_nft demo_env (demo_session fin) ''protonwire0'' True (Some 7)
       (k1\<lparr>dh_rules := demo_foreign # dh_rules k1\<rparr>, s1, demo_fs) = (Ok (), k3, s1, demo_fs)"
    "\<forall>o1\<in>set fin. \<not> is_object (RuleObject demo_foreign) o1" using demo_connects by blast
  have "host_objects demo_rules demo_routes (k1\<lparr>dh_rules := demo_foreign # dh_rules k1\<rparr>) =
      host_objects demo_rules demo_routes k1 + {#RuleObject demo_foreign#}"
    by (simp add: host_objects_def)
  from session_takes_its_own_away [OF demo.netlink_kernel_axioms c(1) this _ c(2)] c show ?thesis by auto
qed

end
