(* ===== verification/Ipc_Frame.thy ===== *)
theory Ipc_Frame
  imports Rust_Text "HOL-Library.Sublist"
begin

text \<open>
  The length-prefixed frame codec (\<open>ipc/src/frame.rs\<close>). A reader is a script of what successive
  \<open>read\<close> calls meet: bytes, an interruption, a failure; a clock gives the reading of each
  \<open>Instant::now\<close>. The stateful reader is shown never to lose or invent a byte whatever the script,
  so that it returns exactly the frames the peer wrote.
\<close>

type_synonym byte_list = "8 word list"

definition MAX_FRAME_LEN :: nat where
  "MAX_FRAME_LEN = 1048576"

datatype io_kind = WouldBlock | TimedOut | Interrupted | WriteZero | OtherIo

datatype FrameError = TooLarge nat | Closed | Truncated | PayloadError string | FrameIo io_kind

text \<open>\<open>u32::to_be_bytes\<close> and \<open>u32::from_be_bytes\<close>.\<close>

definition to_be_bytes :: "nat \<Rightarrow> byte_list" where
  "to_be_bytes n = [word_of_nat (n div 16777216), word_of_nat (n div 65536), word_of_nat (n div 256), word_of_nat n]"

fun from_be_bytes :: "byte_list \<Rightarrow> nat" where
  "from_be_bytes [a, b, c, d] = unat a * 16777216 + unat b * 65536 + unat c * 256 + unat d"
| "from_be_bytes _ = 0"

section \<open>Readers\<close>

datatype read_event = Arrived byte_list | ReadFailed io_kind

text \<open>
  A reader with its clock: \<open>rd_now\<close> is the clock's readings and \<open>rd_tick\<close> how many were taken. A
  \<open>read\<close> into a buffer of \<open>n\<close> bytes takes at most \<open>n\<close> of the next bytes; past the script it is at
  the end of the file.
\<close>

record reader =
  rd_events :: "read_event list"
  rd_now :: "nat \<Rightarrow> u64"
  rd_tick :: nat

definition instant_now :: "reader \<Rightarrow> u64 \<times> reader" where
  "instant_now r = (rd_now r (rd_tick r), r\<lparr>rd_tick := rd_tick r + 1\<rparr>)"

definition read_some :: "nat \<Rightarrow> reader \<Rightarrow> (io_kind + byte_list) \<times> reader" where
  "read_some n r =
     (case rd_events r of
        [] \<Rightarrow> (Inr [], r)
      | Arrived bs # rest \<Rightarrow>
          (Inr (take n bs), r\<lparr>rd_events := (if length bs \<le> n then rest else Arrived (drop n bs) # rest)\<rparr>)
      | ReadFailed e # rest \<Rightarrow> (Inl e, r\<lparr>rd_events := rest\<rparr>))"

lemma read_some_measure:
  assumes "read_some n r = (Inr bs, r')"
  shows "length bs \<le> n"
  using assms by (auto simp: read_some_def split: list.splits read_event.splits)

lemma read_some_failed: "read_some n r = (Inl e, r') \<Longrightarrow> length (rd_events r') < length (rd_events r)"
  by (auto simp: read_some_def split: list.splits read_event.splits)

definition deadline_passed :: "u64 option \<Rightarrow> reader \<Rightarrow> bool \<times> reader" where
  "deadline_passed deadline r =
     (case deadline of
        None \<Rightarrow> (False, r)
      | Some d \<Rightarrow> (case instant_now r of (now, r') \<Rightarrow> (d \<le> now, r')))"

lemma deadline_passed_events: "deadline_passed dl r = (b, r') \<Longrightarrow> rd_events r' = rd_events r"
  by (auto simp: deadline_passed_def instant_now_def split: option.splits)

text \<open>
  \<open>fill\<close>: the buffer has \<open>len\<close> bytes, of which \<open>got\<close> arrived. The stateless
  \<open>read_exact_or_truncated\<close> is the same loop without a deadline, from an empty buffer.
\<close>

function (sequential) fill :: "nat \<Rightarrow> u64 option \<Rightarrow> bool \<Rightarrow> byte_list \<Rightarrow> reader \<Rightarrow> (FrameError + unit) \<times> byte_list \<times> reader" where
  "fill len deadline at_boundary got r =
     (if len \<le> length got then (Inr (), got, r)
      else case deadline_passed deadline r of
          (True, r') \<Rightarrow> (Inl (FrameIo TimedOut), got, r')
        | (False, r') \<Rightarrow>
            (case read_some (len - length got) r' of
               (Inr [], r'') \<Rightarrow> (Inl (if at_boundary \<and> got = [] then Closed else Truncated), got, r'')
             | (Inr bs, r'') \<Rightarrow> fill len deadline at_boundary (got @ bs) r''
             | (Inl Interrupted, r'') \<Rightarrow> fill len deadline at_boundary got r''
             | (Inl e, r'') \<Rightarrow> (Inl (FrameIo e), got, r'')))"
  by pat_completeness auto
termination
  by (relation "measures [\<lambda>(len, dl, b, got, r). len - length got, \<lambda>(len, dl, b, got, r). length (rd_events r)]")
    (auto dest!: sym [THEN read_some_failed] sym [THEN deadline_passed_events])

declare fill.simps [simp del]

section \<open>Frames\<close>

text \<open>\<open>FrameReader\<close>: the buffer of a stage is represented by the bytes of it that arrived.\<close>

datatype Stage = PrefixStage byte_list | PayloadStage nat byte_list

record FrameReader =
  fr_inner :: reader
  fr_stage :: Stage

definition FrameReader_new :: "reader \<Rightarrow> FrameReader" where
  "FrameReader_new r = \<lparr>fr_inner = r, fr_stage = PrefixStage []\<rparr>"

definition payload_arm :: "u64 option \<Rightarrow> nat \<Rightarrow> byte_list \<Rightarrow> reader \<Rightarrow> (FrameError + byte_list) \<times> FrameReader" where
  "payload_arm deadline len got r =
     (case fill len deadline False got r of
        (Inl e, got', r') \<Rightarrow> (Inl e, \<lparr>fr_inner = r', fr_stage = PayloadStage len got'\<rparr>)
      | (Inr _, got', r') \<Rightarrow> (Inr got', \<lparr>fr_inner = r', fr_stage = PrefixStage []\<rparr>))"

definition read_frame_deadline :: "u64 option \<Rightarrow> FrameReader \<Rightarrow> (FrameError + byte_list) \<times> FrameReader" where
  "read_frame_deadline deadline fr =
     (case fr_stage fr of
        PrefixStage got \<Rightarrow>
          (case fill 4 deadline (got = []) got (fr_inner fr) of
             (Inl e, got', r') \<Rightarrow> (Inl e, \<lparr>fr_inner = r', fr_stage = PrefixStage got'\<rparr>)
           | (Inr _, got', r') \<Rightarrow>
               (let len = from_be_bytes got' in
                if MAX_FRAME_LEN < len
                then (Inl (TooLarge len), \<lparr>fr_inner = r', fr_stage = PrefixStage []\<rparr>)
                else payload_arm deadline len [] r'))
      | PayloadStage len got \<Rightarrow> payload_arm deadline len got (fr_inner fr))"

definition read_msg_within :: "(byte_list \<Rightarrow> string + 'm) \<Rightarrow> u64 option \<Rightarrow> FrameReader \<Rightarrow> (FrameError + 'm) \<times> FrameReader" where
  "read_msg_within from_slice deadline fr =
     (case read_frame_deadline deadline fr of
        (Inl e, fr') \<Rightarrow> (Inl e, fr')
      | (Inr payload, fr') \<Rightarrow>
          (case from_slice payload of Inl e \<Rightarrow> (Inl (PayloadError e), fr') | Inr m \<Rightarrow> (Inr m, fr')))"

text \<open>The stateless \<open>read_frame\<close>: what arrived of an unfinished frame is discarded.\<close>

definition read_exact_or_truncated :: "nat \<Rightarrow> bool \<Rightarrow> reader \<Rightarrow> (FrameError + byte_list) \<times> reader" where
  "read_exact_or_truncated len at_boundary r =
     (case fill len None at_boundary [] r of
        (Inl e, _, r') \<Rightarrow> (Inl e, r')
      | (Inr _, buf, r') \<Rightarrow> (Inr buf, r'))"

definition read_frame :: "reader \<Rightarrow> (FrameError + byte_list) \<times> reader" where
  "read_frame r =
     (case read_exact_or_truncated 4 True r of
        (Inl e, r') \<Rightarrow> (Inl e, r')
      | (Inr pre, r') \<Rightarrow>
          (let len = from_be_bytes pre in
           if MAX_FRAME_LEN < len then (Inl (TooLarge len), r') else read_exact_or_truncated len False r'))"

section \<open>Writers\<close>

record 'w writer =
  w_write_all :: "byte_list \<Rightarrow> 'w \<Rightarrow> (io_kind + unit) \<times> 'w"
  w_flush :: "'w \<Rightarrow> (io_kind + unit) \<times> 'w"

definition write_msg :: "('m \<Rightarrow> string + byte_list) \<Rightarrow> 'w writer \<Rightarrow> 'm \<Rightarrow> 'w \<Rightarrow> (FrameError + unit) \<times> 'w" where
  "write_msg to_vec wr msg w =
     (case to_vec msg of
        Inl e \<Rightarrow> (Inl (PayloadError e), w)
      | Inr payload \<Rightarrow>
          if MAX_FRAME_LEN < length payload then (Inl (TooLarge (length payload)), w)
          else case w_write_all wr (to_be_bytes (length payload)) w of
              (Inl e, w1) \<Rightarrow> (Inl (FrameIo e), w1)
            | (Inr _, w1) \<Rightarrow>
                (case w_write_all wr payload w1 of
                   (Inl e, w2) \<Rightarrow> (Inl (FrameIo e), w2)
                 | (Inr _, w2) \<Rightarrow>
                     (case w_flush wr w2 of
                        (Inl e, w3) \<Rightarrow> (Inl (FrameIo e), w3)
                      | (Inr _, w3) \<Rightarrow> (Inr (), w3))))"

text \<open>
  One pass of the loop of \<open>write_all_within\<close> meets a clock reading (in nanoseconds), the answer of
  \<open>poll\<close> to a budget, and the answer of \<open>send\<close>. \<open>Sent\<close> gives how many bytes the kernel took.
\<close>

datatype poll_result = PollNone | PollReady | PollInterrupted | PollFailed

datatype send_result = Sent nat | SendAgain | SendInterrupted | SendFailed

record turn =
  tn_now :: u64
  tn_poll :: "nat \<Rightarrow> poll_result"
  tn_send :: send_result

definition poll_budget :: "u64 \<Rightarrow> u64 \<Rightarrow> nat" where
  "poll_budget deadline now = max (min ((deadline - now) div 1000000) 65535) 1"

text \<open>
  The loop: \<open>sent\<close> is what the kernel took so far. It has no value while it is still waiting for a
  turn.
\<close>

fun write_all_within :: "u64 \<Rightarrow> byte_list \<Rightarrow> turn list \<Rightarrow> byte_list \<Rightarrow> ((FrameError + unit) \<times> byte_list \<times> turn list) option" where
  "write_all_within deadline [] ts sent = Some (Inr (), sent, ts)"
| "write_all_within deadline (b # bs) [] sent = None"
| "write_all_within deadline (b # bs) (t # ts) sent =
     (if deadline \<le> tn_now t then Some (Inl (FrameIo TimedOut), sent, ts)
      else case tn_poll t (poll_budget deadline (tn_now t)) of
          PollNone \<Rightarrow> write_all_within deadline (b # bs) ts sent
        | PollInterrupted \<Rightarrow> write_all_within deadline (b # bs) ts sent
        | PollFailed \<Rightarrow> Some (Inl (FrameIo OtherIo), sent, ts)
        | PollReady \<Rightarrow>
            (case tn_send t of
               Sent n \<Rightarrow>
                 if n = 0 then Some (Inl (FrameIo WriteZero), sent, ts)
                 else write_all_within deadline (drop n (b # bs)) ts (sent @ take n (b # bs))
             | SendAgain \<Rightarrow> write_all_within deadline (b # bs) ts sent
             | SendInterrupted \<Rightarrow> write_all_within deadline (b # bs) ts sent
             | SendFailed \<Rightarrow> Some (Inl (FrameIo OtherIo), sent, ts)))"

definition write_msg_within :: "('m \<Rightarrow> string + byte_list) \<Rightarrow> 'm \<Rightarrow> u64 \<Rightarrow> turn list \<Rightarrow> ((FrameError + unit) \<times> byte_list \<times> turn list) option" where
  "write_msg_within to_vec msg deadline ts =
     (case to_vec msg of
        Inl e \<Rightarrow> Some (Inl (PayloadError e), [], ts)
      | Inr payload \<Rightarrow>
          if MAX_FRAME_LEN < length payload then Some (Inl (TooLarge (length payload)), [], ts)
          else case write_all_within deadline (to_be_bytes (length payload)) ts [] of
              Some (Inr _, sent, ts') \<Rightarrow> write_all_within deadline payload ts' sent
            | other \<Rightarrow> other)"

section \<open>The specification: the bytes of a frame\<close>

definition frame_bytes :: "byte_list \<Rightarrow> byte_list" where
  "frame_bytes payload = to_be_bytes (length payload) @ payload"

lemma length_to_be_bytes [simp]: "length (to_be_bytes n) = 4"
  by (simp add: to_be_bytes_def)

lemma from_be_to_be [simp]:
  assumes "n < 2 ^ 32"
  shows "from_be_bytes (to_be_bytes n) = n"
proof -
  have b: "unat (word_of_nat m :: 8 word) = m mod 256" for m
    by (simp add: unat_of_nat)
  have "n div 16777216 mod 256 = n div 16777216" using assms by (simp add: less_mult_imp_div_less)
  moreover have "n div 65536 = n div 16777216 * 256 + n div 65536 mod 256"
    using div_mult_mod_eq [of "n div 65536" 256] by (simp add: div_mult2_eq [symmetric])
  moreover have "n div 256 = n div 65536 * 256 + n div 256 mod 256"
    using div_mult_mod_eq [of "n div 256" 256] by (simp add: div_mult2_eq [symmetric])
  moreover have "n = n div 256 * 256 + n mod 256" by simp
  ultimately show ?thesis unfolding to_be_bytes_def from_be_bytes.simps b by linarith
qed

lemma from_be_less: "from_be_bytes bs < 2 ^ 32"
proof (cases bs rule: from_be_bytes.cases)
  case (1 a b c d)
  have u: "unat x < 256" for x :: "8 word" using unsigned_less [of x] by simp
  show ?thesis using u [of a] u [of b] u [of c] u [of d] by (simp add: 1)
qed simp_all

lemma to_be_from_be:
  assumes "length bs = 4"
  shows "to_be_bytes (from_be_bytes bs) = bs"
proof -
  obtain a b c d where bs: "bs = [a, b, c, d]" using assms by (auto simp: length_Suc_conv numeral_eq_Suc)
  have u: "unat x < 256" for x :: "8 word" using unsigned_less [of x] by simp
  let ?n = "from_be_bytes bs"
  have "?n div 16777216 = unat a" "?n div 65536 = unat a * 256 + unat b"
    "?n div 256 = unat a * 65536 + unat b * 256 + unat c"
    using u [of a] u [of b] u [of c] u [of d] by (simp_all add: bs div_nat_eqI)
  moreover have z: "(256 :: 8 word) = 0" "(65536 :: 8 word) = 0" "(16777216 :: 8 word) = 0" by simp_all
  have "x * 256 = 0" "x * 65536 = 0" "x * 16777216 = 0" for x :: "8 word" by (simp_all only: z mult_zero_right)
  ultimately show ?thesis by (simp add: to_be_bytes_def bs)
qed

text \<open>What a script will deliver, and what a frame reader has not handed out yet.\<close>

fun arriving :: "read_event list \<Rightarrow> byte_list" where
  "arriving [] = []"
| "arriving (Arrived bs # es) = bs @ arriving es"
| "arriving (ReadFailed e # es) = arriving es"

fun stage_bytes :: "Stage \<Rightarrow> byte_list" where
  "stage_bytes (PrefixStage got) = got"
| "stage_bytes (PayloadStage len got) = to_be_bytes len @ got"

fun stage_ok :: "Stage \<Rightarrow> bool" where
  "stage_ok (PrefixStage got) \<longleftrightarrow> length got \<le> 4"
| "stage_ok (PayloadStage len got) \<longleftrightarrow> len \<le> MAX_FRAME_LEN \<and> length got \<le> len"

definition unread :: "FrameReader \<Rightarrow> byte_list" where
  "unread fr = stage_bytes (fr_stage fr) @ arriving (rd_events (fr_inner fr))"

text \<open>No read returns an empty buffer before the peer closed.\<close>

definition open_until_end :: "read_event list \<Rightarrow> bool" where
  "open_until_end es \<longleftrightarrow> Arrived [] \<notin> set es"

lemma read_some_arriving:
  assumes "read_some n r = (x, r')"
  shows "(case x of Inl e \<Rightarrow> [] | Inr bs \<Rightarrow> bs) @ arriving (rd_events r') = arriving (rd_events r)"
  using assms by (auto simp: read_some_def append_eq_append_conv2 split: list.splits read_event.splits)

lemma read_some_end:
  assumes "read_some n r = (Inr [], r')" and "0 < n" and "open_until_end (rd_events r)"
  shows "rd_events r = [] \<and> r' = r"
  using assms by (auto simp: read_some_def open_until_end_def split: list.splits read_event.splits)

lemma read_some_open: "read_some n r = (x, r') \<Longrightarrow> open_until_end (rd_events r) \<Longrightarrow> open_until_end (rd_events r')"
  by (auto simp: read_some_def open_until_end_def split: list.splits read_event.splits if_splits)

lemma fill_result:
  assumes "fill len dl b got r = (x, got', r')"
  shows "got' @ arriving (rd_events r') = got @ arriving (rd_events r) \<and> (x = Inr () \<longrightarrow> len \<le> length got') \<and>
    (length got \<le> len \<longrightarrow> length got' \<le> len) \<and> (x \<noteq> Inr () \<longrightarrow> length got' < len) \<and>
    (open_until_end (rd_events r) \<longrightarrow> open_until_end (rd_events r') \<and>
      (case x of Inl (FrameIo e) \<Rightarrow> True | Inl Closed \<Rightarrow> b \<and> got' = [] \<and> rd_events r' = []
       | Inl Truncated \<Rightarrow> \<not> (b \<and> got' = []) \<and> rd_events r' = [] | Inl _ \<Rightarrow> False | Inr _ \<Rightarrow> True))"
  using assms
proof (induction len dl b got r arbitrary: x got' r' rule: fill.induct)
  case (1 len dl b got r)
  show ?case
  proof (cases "len \<le> length got")
    case True
    with "1.prems" show ?thesis by (auto simp: fill.simps)
  next
    case False
    obtain over r1 where over: "deadline_passed dl r = (over, r1)" by fastforce
    note e1 = deadline_passed_events [OF over]
    show ?thesis
    proof (cases over)
      case True
      with "1.prems" False over e1 show ?thesis by (auto simp: fill.simps)
    next
      case no: False
      obtain y r2 where y: "read_some (len - length got) r1 = (y, r2)" by fastforce
      note arr = read_some_arriving [OF y] and opn = read_some_open [OF y]
      show ?thesis
      proof (cases y)
        case (Inr bs)
        show ?thesis
        proof (cases bs)
          case Nil
          have "x = Inl (if b \<and> got = [] then Closed else Truncated)" "got' = got" "r' = r2"
            using "1.prems" False over no y Inr Nil by (auto simp: fill.simps)
          with False arr e1 Inr Nil read_some_end [of "len - length got" r1 r2] y show ?thesis by auto
        next
          case (Cons c cs)
          have "fill len dl b (got @ bs) r2 = (x, got', r')"
            using "1.prems" False over no y Inr Cons by (simp add: fill.simps)
          from "1.IH"(2) [OF False over [symmetric] _ y [symmetric]] this no Inr Cons
            read_some_measure [of "len - length got" r1 bs r2] y False arr e1 opn
          show ?thesis by auto
        qed
      next
        case (Inl e)
        show ?thesis
        proof (cases "e = Interrupted")
          case True
          have "fill len dl b got r2 = (x, got', r')"
            using "1.prems" False over no y Inl True by (simp add: fill.simps)
          from "1.IH"(1) [OF False over [symmetric] _ y [symmetric]] this no Inl True arr e1 opn False
          show ?thesis by auto
        next
          case other: False
          have "x = Inl (FrameIo e)" "got' = got" "r' = r2"
            using "1.prems" False over no y Inl other by (cases e; simp add: fill.simps)+
          with False arr e1 Inl opn show ?thesis by auto
        qed
      qed
    qed
  qed
qed

text \<open>One call: an error keeps every byte, a frame is exactly the next frame.\<close>

lemma payload_arm_result:
  assumes "payload_arm dl len got r = (x, fr')" and "len \<le> MAX_FRAME_LEN" and "length got \<le> len"
    and "open_until_end (rd_events r)"
  shows "stage_ok (fr_stage fr') \<and>
    to_be_bytes len @ got @ arriving (rd_events r) = (case x of Inl e \<Rightarrow> [] | Inr p \<Rightarrow> frame_bytes p) @ unread fr' \<and>
    open_until_end (rd_events (fr_inner fr')) \<and>
    (case x of Inl (FrameIo e) \<Rightarrow> True
     | Inl Truncated \<Rightarrow> (\<exists>n bs. unread fr' = to_be_bytes n @ bs \<and> n \<le> MAX_FRAME_LEN \<and> length bs < n)
     | Inl _ \<Rightarrow> False | Inr p \<Rightarrow> length p \<le> MAX_FRAME_LEN)"
proof -
  obtain y got' r' where f: "fill len dl False got r = (y, got', r')" by (cases "fill len dl False got r")
  note res = fill_result [OF f]
  show ?thesis
  proof (cases y)
    case (Inl e)
    with assms f res show ?thesis
      by (auto simp: payload_arm_def unread_def split: FrameError.splits)
  next
    case (Inr u)
    then have "length got' = len" using res assms(3) by auto
    with Inr assms f res show ?thesis by (auto simp: payload_arm_def unread_def frame_bytes_def)
  qed
qed

lemma read_frame_deadline_result:
  assumes "read_frame_deadline dl fr = (x, fr')" and "stage_ok (fr_stage fr)"
    and "open_until_end (rd_events (fr_inner fr))"
  shows "stage_ok (fr_stage fr') \<and>
    (case x of Inl (TooLarge n) \<Rightarrow> unread fr = to_be_bytes n @ unread fr' \<and> MAX_FRAME_LEN < n \<and> n < 2 ^ 32
     | Inl e \<Rightarrow> unread fr = unread fr' | Inr p \<Rightarrow> unread fr = frame_bytes p @ unread fr') \<and>
    open_until_end (rd_events (fr_inner fr')) \<and>
    (case x of Inl Closed \<Rightarrow> unread fr = []
     | Inl Truncated \<Rightarrow> (unread fr' \<noteq> [] \<and> length (unread fr') < 4) \<or>
         (\<exists>n bs. unread fr' = to_be_bytes n @ bs \<and> n \<le> MAX_FRAME_LEN \<and> length bs < n)
     | Inl (PayloadError e) \<Rightarrow> False | Inl _ \<Rightarrow> True | Inr p \<Rightarrow> length p \<le> MAX_FRAME_LEN)"
proof (cases "fr_stage fr")
  case (PayloadStage len got)
  then have "payload_arm dl len got (fr_inner fr) = (x, fr')" using assms(1) by (simp add: read_frame_deadline_def)
  from payload_arm_result [OF this] PayloadStage assms(2,3) show ?thesis
    by (auto simp: unread_def split: sum.splits FrameError.splits)
next
  case (PrefixStage got)
  obtain y got' r' where f: "fill 4 dl (got = []) got (fr_inner fr) = (y, got', r')"
    by (cases "fill 4 dl (got = []) got (fr_inner fr)")
  note res = fill_result [OF f]
  have un: "unread fr = got' @ arriving (rd_events r')" using res PrefixStage by (simp add: unread_def)
  show ?thesis
  proof (cases y)
    case (Inl e)
    then have "x = Inl e" "fr' = \<lparr>fr_inner = r', fr_stage = PrefixStage got'\<rparr>"
      using assms(1) PrefixStage f by (auto simp: read_frame_deadline_def)
    with Inl un res PrefixStage assms(2,3) show ?thesis
      by (auto simp: unread_def split: FrameError.splits)
  next
    case (Inr u)
    have l: "length got' = 4" using res Inr PrefixStage assms(2) by auto
    note rt = to_be_from_be [OF l]
    show ?thesis
    proof (cases "MAX_FRAME_LEN < from_be_bytes got'")
      case True
      have "from_be_bytes got' < 2 ^ 32" by (rule from_be_less)
      with True have "x = Inl (TooLarge (from_be_bytes got'))" "fr' = \<lparr>fr_inner = r', fr_stage = PrefixStage []\<rparr>"
        using assms(1) PrefixStage f Inr by (auto simp: read_frame_deadline_def)
      with True \<open>from_be_bytes got' < 2 ^ 32\<close> rt un res assms(3) show ?thesis by (auto simp: unread_def)
    next
      case False
      then have "payload_arm dl (from_be_bytes got') [] r' = (x, fr')"
        using assms(1) PrefixStage f Inr by (simp add: read_frame_deadline_def)
      from payload_arm_result [OF this] False rt un res assms(3) show ?thesis
        by (auto split: sum.splits FrameError.splits)
    qed
  qed
qed

section \<open>A sequence of calls\<close>

fun read_frames :: "u64 option list \<Rightarrow> FrameReader \<Rightarrow> (FrameError + byte_list) list \<times> FrameReader" where
  "read_frames [] fr = ([], fr)"
| "read_frames (dl # dls) fr =
     (case read_frame_deadline dl fr of (x, fr') \<Rightarrow> case read_frames dls fr' of (xs, fr'') \<Rightarrow> (x # xs, fr''))"

definition frames_of :: "(FrameError + byte_list) list \<Rightarrow> byte_list list" where
  "frames_of xs = List.map_filter (\<lambda>x. case x of Inl _ \<Rightarrow> None | Inr p \<Rightarrow> Some p) xs"

lemma frames_of_simps [simp]: "frames_of [] = []" "frames_of (Inl e # xs) = frames_of xs" "frames_of (Inr p # xs) = p # frames_of xs"
  by (simp_all add: frames_of_def map_filter_def)

text \<open>The failures of a script that end a read; an interruption is retried.\<close>

fun failures :: "read_event list \<Rightarrow> nat" where
  "failures [] = 0"
| "failures (Arrived bs # es) = failures es"
| "failures (ReadFailed e # es) = (if e = Interrupted then 0 else 1) + failures es"

definition io_failure :: "FrameError + 'a \<Rightarrow> bool" where
  "io_failure x \<longleftrightarrow> (\<exists>e. x = Inl (FrameIo e))"

lemma read_some_failures:
  "read_some n r = (x, r') \<Longrightarrow>
     failures (rd_events r) = failures (rd_events r') + (case x of Inl e \<Rightarrow> if e = Interrupted then 0 else 1 | Inr _ \<Rightarrow> 0)"
  by (auto simp: read_some_def split: list.splits read_event.splits)

lemma fill_failures:
  "fill len dl b got r = (x, got', r') \<Longrightarrow>
     failures (rd_events r') + (if dl = None \<and> io_failure x then 1 else 0) \<le> failures (rd_events r)"
proof (induction len dl b got r arbitrary: x got' r' rule: fill.induct)
  case (1 len dl b got r)
  obtain over r1 where over: "deadline_passed dl r = (over, r1)" by fastforce
  note e1 = deadline_passed_events [OF over]
  have timed: "over \<Longrightarrow> dl \<noteq> None" using over by (auto simp: deadline_passed_def split: option.splits)
  obtain y r2 where y: "read_some (len - length got) r1 = (y, r2)" by fastforce
  note fl = read_some_failures [OF y]
  consider (full) "len \<le> length got" | (late) "\<not> len \<le> length got" over
    | (read) bs where "\<not> len \<le> length got" "\<not> over" "y = Inr bs" "bs \<noteq> []"
    | (eof) "\<not> len \<le> length got" "\<not> over" "y = Inr []"
    | (again) "\<not> len \<le> length got" "\<not> over" "y = Inl Interrupted"
    | (bad) e where "\<not> len \<le> length got" "\<not> over" "y = Inl e" "e \<noteq> Interrupted"
    by (cases y) auto
  then show ?case
  proof cases
    case read
    then obtain c cs where bs: "bs = c # cs" by (cases bs) auto
    have "fill len dl b (got @ bs) r2 = (x, got', r')" using "1.prems" over y read bs by (simp add: fill.simps)
    from "1.IH"(2) [OF read(1) over [symmetric] _ y [symmetric]] this read bs fl e1 show ?thesis by auto
  next
    case again
    have "fill len dl b got r2 = (x, got', r')" using "1.prems" over y again by (simp add: fill.simps)
    from "1.IH"(1) [OF again(1) over [symmetric] _ y [symmetric]] this again fl e1 show ?thesis by auto
  next
    case bad
    have "x = Inl (FrameIo e)" "r' = r2" using "1.prems" over y bad by (cases e; simp add: fill.simps)+
    with bad fl e1 show ?thesis by (simp add: io_failure_def)
  next
    case eof
    with "1.prems" over y fl e1 show ?thesis by (auto simp: fill.simps io_failure_def split: if_splits)
  qed (use "1.prems" over e1 timed in \<open>auto simp: fill.simps io_failure_def\<close>)
qed

lemma read_frame_failures:
  assumes "read_frame_deadline dl fr = (x, fr')"
  shows "failures (rd_events (fr_inner fr')) + (if dl = None \<and> io_failure x then 1 else 0) \<le> failures (rd_events (fr_inner fr))"
proof -
  have arm: "failures (rd_events (fr_inner fr')) + (if dl = None \<and> io_failure x then 1 else 0) \<le> failures (rd_events r)"
    if "payload_arm dl len got r = (x, fr')" for len got r
    using that fill_failures [of len dl False got r]
    by (auto simp: payload_arm_def io_failure_def split: prod.splits sum.splits)
  show ?thesis
  proof (cases "fr_stage fr")
    case (PayloadStage len got)
    with assms arm show ?thesis by (simp add: read_frame_deadline_def)
  next
    case (PrefixStage got)
    obtain y got' r' where f: "fill 4 dl (got = []) got (fr_inner fr) = (y, got', r')"
      by (cases "fill 4 dl (got = []) got (fr_inner fr)")
    note fl = fill_failures [OF f]
    show ?thesis
    proof (cases y)
      case (Inl e)
      with assms PrefixStage f fl show ?thesis by (auto simp: read_frame_deadline_def io_failure_def)
    next
      case (Inr u)
      with assms PrefixStage f fl arm [of "from_be_bytes got'" "[]" r'] show ?thesis
        by (auto simp: read_frame_deadline_def io_failure_def Let_def split: if_splits)
    qed
  qed
qed

text \<open>A stream of whole frames has one reading.\<close>

lemma MAX_FRAME_LEN_less: "MAX_FRAME_LEN < 2 ^ 32"
  by (simp add: MAX_FRAME_LEN_def)

lemma to_be_inj: "to_be_bytes m @ xs = to_be_bytes n @ ys \<Longrightarrow> m < 2 ^ 32 \<Longrightarrow> n < 2 ^ 32 \<Longrightarrow> m = n \<and> xs = ys"
  by (metis append_eq_append_conv from_be_to_be length_to_be_bytes)

lemma frames_head:
  assumes "to_be_bytes n @ bs = concat (map frame_bytes ws)" and "n < 2 ^ 32" and "list_all (\<lambda>w. length w \<le> MAX_FRAME_LEN) ws"
  shows "\<exists>w ws'. ws = w # ws' \<and> n = length w \<and> bs = w @ concat (map frame_bytes ws')"
proof (cases ws)
  case Nil
  with assms(1) length_to_be_bytes [of n] show ?thesis by auto
next
  case (Cons w ws')
  with assms MAX_FRAME_LEN_less to_be_inj [of n bs "length w" "w @ concat (map frame_bytes ws')"] show ?thesis
    by (auto simp: frame_bytes_def)
qed

lemma read_written:
  assumes "read_frame_deadline dl fr = (x, fr')" and "stage_ok (fr_stage fr)" and "open_until_end (rd_events (fr_inner fr))"
    and "unread fr = concat (map frame_bytes ws)" and "list_all (\<lambda>w. length w \<le> MAX_FRAME_LEN) ws"
  shows "stage_ok (fr_stage fr') \<and> open_until_end (rd_events (fr_inner fr')) \<and>
    (x = Inl Closed \<and> ws = [] \<and> unread fr' = [] \<or> io_failure x \<and> unread fr' = concat (map frame_bytes ws) \<or>
     (\<exists>w ws'. x = Inr w \<and> ws = w # ws' \<and> unread fr' = concat (map frame_bytes ws')))"
proof -
  note res = read_frame_deadline_result [OF assms(1-3)]
  have short: "\<not> (unread fr \<noteq> [] \<and> length (unread fr) < 4)"
    using assms(4) by (cases ws) (auto simp: frame_bytes_def)
  have cut: "\<not> (unread fr = to_be_bytes n @ bs \<and> n \<le> MAX_FRAME_LEN \<and> length bs < n)" for n bs
    using frames_head [of n bs ws] assms(4,5) MAX_FRAME_LEN_less by auto
  show ?thesis
  proof (cases x)
    case (Inr p)
    then have "to_be_bytes (length p) @ p @ unread fr' = concat (map frame_bytes ws)" "length p \<le> MAX_FRAME_LEN"
      using res assms(4) by (auto simp: frame_bytes_def)
    from frames_head [OF this(1) _ assms(5)] this(2) MAX_FRAME_LEN_less res Inr show ?thesis by auto
  next
    case (Inl e)
    show ?thesis
    proof (cases e)
      case (TooLarge n)
      then have "to_be_bytes n @ unread fr' = concat (map frame_bytes ws)" "n < 2 ^ 32" "MAX_FRAME_LEN < n"
        using res Inl assms(4) by auto
      from frames_head [OF this(1,2) assms(5)] this(3) assms(5) show ?thesis by auto
    next
      case Closed
      with res Inl have "unread fr = []" "unread fr = unread fr'" by auto
      with assms(4) have e: "concat (map frame_bytes ws) = []" "unread fr' = []" by metis+
      then have "ws = []" by (cases ws) (auto simp: frame_bytes_def to_be_bytes_def)
      with res Inl Closed e show ?thesis by auto
    next
      case Truncated
      with res Inl short cut show ?thesis by auto
    qed (use res Inl assms(4) in \<open>auto simp: io_failure_def\<close>)
  qed
qed

lemma read_frames_written:
  assumes "read_frames dls fr = (xs, fr')" and "stage_ok (fr_stage fr)" and "open_until_end (rd_events (fr_inner fr))"
    and "unread fr = concat (map frame_bytes ws)" and "list_all (\<lambda>w. length w \<le> MAX_FRAME_LEN) ws"
  shows "prefix (frames_of xs) ws \<and> (\<forall>e. Inl e \<in> set xs \<longrightarrow> e = Closed \<or> (\<exists>k. e = FrameIo k)) \<and>
    (Inl Closed \<in> set xs \<longrightarrow> frames_of xs = ws) \<and>
    (list_all (\<lambda>dl. dl = None) dls \<and> Inl Closed \<notin> set xs \<longrightarrow>
      length dls \<le> length ws + failures (rd_events (fr_inner fr)))"
  using assms
proof (induction dls arbitrary: fr xs ws)
  case (Cons dl dls)
  obtain x fr1 where x: "read_frame_deadline dl fr = (x, fr1)" by fastforce
  obtain ys where ys: "read_frames dls fr1 = (ys, fr')" "xs = x # ys"
    using Cons.prems(1) x by (auto split: prod.splits)
  note one = read_written [OF x Cons.prems(2-5)] and fl = read_frame_failures [OF x]
  from one consider (closed) "x = Inl Closed" "ws = []" "unread fr1 = []"
    | (failed) "io_failure x" "unread fr1 = concat (map frame_bytes ws)"
    | (frame) w ws' where "x = Inr w" "ws = w # ws'" "unread fr1 = concat (map frame_bytes ws')" by blast
  then show ?case
  proof cases
    case closed
    with Cons.IH [OF ys(1), of "[]"] one ys(2) show ?thesis by auto
  next
    case failed
    with Cons.IH [OF ys(1), of ws] one ys(2) Cons.prems(5) fl show ?thesis by (auto simp: io_failure_def)
  next
    case frame
    with Cons.IH [OF ys(1), of ws'] one ys(2) Cons.prems(5) fl show ?thesis by auto
  qed
qed auto

lemma write_all_within_result:
  "write_all_within d buf ts sent = Some (x, sent', ts') \<Longrightarrow>
     (case x of Inr _ \<Rightarrow> sent' = sent @ buf | Inl _ \<Rightarrow> \<exists>p q. buf = p @ q \<and> q \<noteq> [] \<and> sent' = sent @ p)"
proof (induction d buf ts sent rule: write_all_within.induct)
  case (3 d b bs t ts sent)
  show ?case
  proof (cases "tn_poll t (poll_budget d (tn_now t)) = PollReady \<and> \<not> d \<le> tn_now t")
    case True
    show ?thesis
    proof (cases "tn_send t")
      case (Sent n)
      show ?thesis
      proof (cases "n = 0")
        case False
        have run: "write_all_within d (drop n (b # bs)) ts (sent @ take n (b # bs)) = Some (x, sent', ts')"
          using "3.prems" True Sent False by simp
        have IH: "case x of Inr _ \<Rightarrow> sent' = (sent @ take n (b # bs)) @ drop n (b # bs)
          | Inl _ \<Rightarrow> \<exists>p q. drop n (b # bs) = p @ q \<and> q \<noteq> [] \<and> sent' = (sent @ take n (b # bs)) @ p"
          using "3.IH" True Sent False run by auto
        show ?thesis
        proof (cases x)
          case (Inl e)
          then obtain p q where "drop n (b # bs) = p @ q" "q \<noteq> []" "sent' = (sent @ take n (b # bs)) @ p"
            using IH by auto
          then have "b # bs = (take n (b # bs) @ p) @ q" "q \<noteq> []" "sent' = sent @ (take n (b # bs) @ p)"
            using append_take_drop_id [of n "b # bs"] by simp_all
          then show ?thesis unfolding Inl sum.case by blast
        qed (use IH in simp)
      qed (use "3.prems" True Sent in auto)
    qed (use "3.prems" "3.IH" True in auto)
  qed (use "3.prems" "3.IH" in \<open>auto split: if_splits poll_result.splits\<close>)
qed auto

lemma write_all_within_returns:
  "list_ex (\<lambda>t. d \<le> tn_now t) ts \<Longrightarrow> \<exists>r. write_all_within d buf ts sent = Some r"
  by (induction d buf ts sent rule: write_all_within.induct)
    (auto split: poll_result.splits send_result.splits)

lemma write_all_within_keeps:
  "write_all_within d buf ts sent = Some (Inr (), sent', ts') \<Longrightarrow> list_ex (\<lambda>t. d \<le> tn_now t) ts \<Longrightarrow>
     list_ex (\<lambda>t. d \<le> tn_now t) ts'"
  by (induction d buf ts sent rule: write_all_within.induct)
    (auto split: poll_result.splits send_result.splits if_splits)

section \<open>Properties\<close>

text \<open>
  C16. The stateful frame reader never loses its place: whatever way the bytes arrive, in chunks,
  with interruptions, poll timeouts, failures and expired deadlines in between, the payloads it
  returns are, in order and unaltered, those the peer framed; the only errors are input/output
  failures and the clean close, which is reported only once every frame was returned; and without
  deadlines every frame is returned after at most one call per frame and per failing read.
\<close>

theorem frame_reader_returns_what_was_written:
  assumes "open_until_end es" and "arriving es = concat (map frame_bytes ws)"
    and "list_all (\<lambda>w. length w \<le> MAX_FRAME_LEN) ws"
    and "read_frames dls (FrameReader_new \<lparr>rd_events = es, rd_now = clk, rd_tick = 0\<rparr>) = (xs, fr)"
  shows "prefix (frames_of xs) ws \<and> (\<forall>e. Inl e \<in> set xs \<longrightarrow> e = Closed \<or> (\<exists>k. e = FrameIo k)) \<and>
    (Inl Closed \<in> set xs \<longrightarrow> frames_of xs = ws) \<and>
    (list_all (\<lambda>dl. dl = None) dls \<and> length ws + failures es < length dls \<longrightarrow> frames_of xs = ws)"
proof -
  have "unread (FrameReader_new \<lparr>rd_events = es, rd_now = clk, rd_tick = 0\<rparr>) = concat (map frame_bytes ws)"
    using assms(2) by (simp add: unread_def FrameReader_new_def)
  from read_frames_written [OF assms(4) _ _ this assms(3)] assms(1) show ?thesis
    by (auto simp: FrameReader_new_def)
qed

theorem frame_reader_returns_what_was_written_witness:
  "frames_of (fst (read_frames [None, None, None, None, None] (FrameReader_new
     \<lparr>rd_events = [Arrived [0, 0], ReadFailed WouldBlock, Arrived [0, 2, 7], ReadFailed Interrupted, Arrived [8, 0, 0, 0, 1, 9]],
      rd_now = (\<lambda>_. 0), rd_tick = 0\<rparr>))) = [[7, 8], [9]]"
proof -
  let ?es = "[Arrived [0, 0], ReadFailed WouldBlock, Arrived [0, 2, 7], ReadFailed Interrupted, Arrived [8, 0, 0, 0, 1, 9]] :: read_event list"
  obtain xs fr where r: "read_frames [None, None, None, None, None]
      (FrameReader_new \<lparr>rd_events = ?es, rd_now = (\<lambda>_. 0), rd_tick = 0\<rparr>) = (xs, fr)" by fastforce
  have "open_until_end ?es" "arriving ?es = concat (map frame_bytes [[7, 8], [9]])"
    "list_all (\<lambda>w. length w \<le> MAX_FRAME_LEN) ([[7, 8], [9]] :: byte_list list)"
    by (simp_all add: open_until_end_def frame_bytes_def to_be_bytes_def MAX_FRAME_LEN_def)
  from frame_reader_returns_what_was_written [OF this r] r show ?thesis by simp
qed

text \<open>
  A framed write is bounded and never torn silently: as soon as one clock reading reaches the
  deadline the call has returned, however the kernel dribbled; it returns success exactly with the
  whole frame sent, and otherwise what was sent is a proper prefix of the frame.
\<close>

theorem framed_write_is_bounded:
  assumes "list_ex (\<lambda>t. deadline \<le> tn_now t) ts"
  shows "\<exists>x sent ts'. write_msg_within to_vec msg deadline ts = Some (x, sent, ts') \<and>
    (case to_vec msg of
       Inl e \<Rightarrow> x = Inl (PayloadError e) \<and> sent = []
     | Inr payload \<Rightarrow>
         if MAX_FRAME_LEN < length payload then x = Inl (TooLarge (length payload)) \<and> sent = []
         else if x = Inr () then sent = frame_bytes payload
         else strict_prefix sent (frame_bytes payload))"
proof (cases "\<exists>payload. to_vec msg = Inr payload \<and> length payload \<le> MAX_FRAME_LEN")
  case True
  then obtain payload where p: "to_vec msg = Inr payload" "length payload \<le> MAX_FRAME_LEN" by auto
  let ?pre = "to_be_bytes (length payload)"
  obtain x sent ts' where one: "write_all_within deadline ?pre ts [] = Some (x, sent, ts')"
    using write_all_within_returns [OF assms, of ?pre "[]"] by (auto simp: split_paired_all)
  note r1 = write_all_within_result [OF one]
  show ?thesis
  proof (cases x)
    case (Inl e)
    with one p r1 show ?thesis
      by (auto simp: write_msg_within_def frame_bytes_def strict_prefix_def prefix_def)
  next
    case (Inr u)
    then have "list_ex (\<lambda>t. deadline \<le> tn_now t) ts'" using write_all_within_keeps [of deadline ?pre ts "[]" sent ts'] one assms by simp
    then obtain x2 sent2 ts2 where two: "write_all_within deadline payload ts' sent = Some (x2, sent2, ts2)"
      using write_all_within_returns [of deadline ts' payload sent] by (auto simp: split_paired_all)
    note r2 = write_all_within_result [OF two]
    from one two p r1 r2 Inr show ?thesis
      by (cases x2) (auto simp: write_msg_within_def frame_bytes_def strict_prefix_def prefix_def)
  qed
next
  case False
  then show ?thesis by (auto simp: write_msg_within_def not_le split: sum.split)
qed

theorem framed_write_is_bounded_witness:
  "\<exists>sent. strict_prefix sent (frame_bytes [7, 8, 9]) \<and>
     write_msg_within Inr [7, 8, 9] 100
       [\<lparr>tn_now = 10, tn_poll = (\<lambda>_. PollReady), tn_send = Sent 5\<rparr>, \<lparr>tn_now = 20, tn_poll = (\<lambda>_. PollReady), tn_send = Sent 1\<rparr>,
        \<lparr>tn_now = 100, tn_poll = (\<lambda>_. PollReady), tn_send = Sent 1\<rparr>] = Some (Inl (FrameIo TimedOut), sent, [])"
proof -
  let ?ts = "[\<lparr>tn_now = 10, tn_poll = (\<lambda>_. PollReady), tn_send = Sent 5\<rparr>, \<lparr>tn_now = 20, tn_poll = (\<lambda>_. PollReady), tn_send = Sent 1\<rparr>,
    \<lparr>tn_now = 100, tn_poll = (\<lambda>_. PollReady), tn_send = Sent 1\<rparr>]"
  have "list_ex (\<lambda>t. 100 \<le> tn_now t) ?ts" by simp
  from framed_write_is_bounded [OF this, of Inr "[7, 8, 9]"] show ?thesis
    by (auto simp: write_msg_within_def MAX_FRAME_LEN_def to_be_bytes_def)
qed

end
