(* ===== verification/Wire.thy ===== *)
theory Wire
  imports Rust_Text
begin

text \<open>
  The messages between the daemon and its clients (\<open>frontend-api/src/proto.rs\<close>, \<open>event.rs\<close>,
  \<open>state.rs\<close>). Their JSON encoding is derived code; the frames that carry it are in \<open>Ipc_Frame\<close>.
\<close>

section \<open>State\<close>

datatype VpnState = Disconnected | Connecting | Connected | Disconnecting

datatype NetworkIntegration = AutoIntegration | NativeIntegration | NetworkManager | Networkd

primrec vpn_state_text :: "VpnState \<Rightarrow> string" where
  "vpn_state_text Disconnected = ''disconnected''"
| "vpn_state_text Connecting = ''connecting''"
| "vpn_state_text Connected = ''connected''"
| "vpn_state_text Disconnecting = ''disconnecting''"

primrec network_integration_text :: "NetworkIntegration \<Rightarrow> string" where
  "network_integration_text AutoIntegration = ''auto''"
| "network_integration_text NativeIntegration = ''native''"
| "network_integration_text NetworkManager = ''network-manager''"
| "network_integration_text Networkd = ''networkd''"

record DaemonState =
  ds_protocol_version :: u32
  ds_daemon_version :: string
  ds_vpn_state :: VpnState
  ds_network_integration :: NetworkIntegration
  ds_active_owner_uid :: "u32 option"
  ds_latest_event_seq :: "u64 option"

definition PROTOCOL_VERSION :: u32 where
  "PROTOCOL_VERSION = 1"

section \<open>Errors\<close>

datatype RpcErrorCode =
    NotImplementedCode | InvalidParamsCode | UnsupportedProtocolCode | PermissionDeniedCode | NotAuthenticatedCode
  | EntitlementMissingCode | NoEligibleServerCode | NetworkUnavailableCode | TunnelFailedCode | KillSwitchFailedCode
  | DnsConfigFailedCode | FirewallFailedCode | SplitTunnelFailedCode | PortForwardingFailedCode | DaemonBusyCode
  | ConfigInvalidCode | CredentialBackendUnavailableCode | SecureCoreUnavailableCode | ProtocolUnavailableCode
  | UpstreamCapabilityBlockedCode | UnsupportedChallengeCode | ConfirmationRequiredCode | RateLimitedCode
  | CredentialPersistenceUnhealthyCode | InternalCode

text \<open>\<open>details\<close> is a JSON value, here its text.\<close>

record RpcError =
  re_code :: RpcErrorCode
  re_message :: string
  re_details :: "string option"

definition RpcError_new :: "RpcErrorCode \<Rightarrow> string \<Rightarrow> RpcError" where
  "RpcError_new code message = \<lparr>re_code = code, re_message = message, re_details = None\<rparr>"

section \<open>Events\<close>

datatype NoticeLevel = InfoNotice | WarningNotice | ErrorNotice

datatype CatalogRefreshResult = RefreshChanged | RefreshNotModified | RefreshFailed RpcErrorCode

datatype Event =
    StateChanged VpnState VpnState
  | Notice NoticeLevel string
  | CatalogRefreshed CatalogRefreshResult
  | AccountChanged
  | SchedulerNotice NoticeLevel string

record EventEnvelope =
  env_seq :: u64
  env_event :: Event

definition EVENT_SEQ_RESYNC_NOW :: u64 where
  "EVENT_SEQ_RESYNC_NOW = 2 ^ 64 - 1"

definition RESYNC_MARKER_INTRODUCED_IN :: u32 where
  "RESYNC_MARKER_INTRODUCED_IN = 1"

definition resync_marker_reaches :: "u32 \<Rightarrow> bool" where
  "resync_marker_reaches version \<longleftrightarrow> RESYNC_MARKER_INTRODUCED_IN \<le> version"

definition M2_EVENTS_INTRODUCED_IN :: u32 where
  "M2_EVENTS_INTRODUCED_IN = 1"

definition m2_events_reach :: "u32 \<Rightarrow> bool" where
  "m2_events_reach version \<longleftrightarrow> M2_EVENTS_INTRODUCED_IN \<le> version"

primrec event_reaches :: "u32 \<Rightarrow> Event \<Rightarrow> bool" where
  "event_reaches version (StateChanged s1 s2) \<longleftrightarrow> True"
| "event_reaches version (Notice l m) \<longleftrightarrow> True"
| "event_reaches version (CatalogRefreshed r) \<longleftrightarrow> m2_events_reach version"
| "event_reaches version AccountChanged \<longleftrightarrow> m2_events_reach version"
| "event_reaches version (SchedulerNotice l m) \<longleftrightarrow> m2_events_reach version"

section \<open>Requests\<close>

datatype ClientSurface = CliSurface | TuiSurface | GuiSurface | OtherSurface

record ClientInfo =
  cl_name :: string
  cl_version :: string
  cl_surface :: ClientSurface

text \<open>\<open>char::is_control\<close> on the characters of a \<open>string\<close>: the C0 controls, DEL and the C1 controls.\<close>

definition is_control :: "char \<Rightarrow> bool" where
  "is_control c \<longleftrightarrow> of_char c < (32 :: nat) \<or> 127 \<le> (of_char c :: nat) \<and> of_char c < (160 :: nat)"

definition clean_text :: "string \<Rightarrow> nat \<Rightarrow> string" where
  "clean_text value limit = take limit (filter (\<lambda>c. \<not> is_control c) value)"

definition sanitized :: "ClientInfo \<Rightarrow> ClientInfo" where
  "sanitized c = \<lparr>cl_name = clean_text (cl_name c) 64, cl_version = clean_text (cl_version c) 32, cl_surface = cl_surface c\<rparr>"

datatype SpecialClass = P2pClass | TorClass

datatype ConnectTarget =
    FastestTarget | RandomTarget | CountryTarget string | StateTarget string | CityTarget string | ServerTarget string
  | SpecialTarget SpecialClass | GatewayTarget string | SecureCoreTarget "string option" "string option"
  | GroupTarget string | ProfileTarget string

datatype SelectionFeature = P2pFeature | TorFeature | SecureCoreFeature | StreamingFeature | Ipv6Feature | PortForwardingFeature

datatype SelectionProtocol = WireguardUdp | WireguardTcp | Stealth

record SelectionModifiers =
  sm_by :: "string option"
  sm_physical_country :: "string option"
  sm_excluded_countries :: "string list"
  sm_excluded_states :: "string list"
  sm_excluded_cities :: "string list"
  sm_excluded_servers :: "string list"
  sm_excluded_entry_countries :: "string list"
  sm_excluded_exit_countries :: "string list"
  sm_required_features :: "SelectionFeature list"
  sm_optional_features :: "SelectionFeature list"
  sm_required_protocol :: "SelectionProtocol option"

type_synonym SecretParam = string

datatype Request =
    Ping string
  | GetState
  | Connect ConnectTarget
  | Disconnect
  | Shutdown
  | ServersList
  | ServersRefresh "string option"
  | BeginLogin SecretParam SecretParam
  | SubmitTwoFactor SecretParam
  | SubmitFidoPayload SecretParam SecretParam SecretParam "8 word list"
  | RefreshSession
  | Logout
  | SubmitCredential string SecretParam
  | GetAccount
  | Select ConnectTarget SelectionModifiers
  | GroupsList
  | GroupShow string

section \<open>Results\<close>

text \<open>
  Results other than the core's own travel through the transport unread; their payloads are one
  type parameter.
\<close>

datatype 'p RequestResult =
    Pong string
  | State DaemonState
  | Acknowledged
  | Servers "string option" "u64 option" "string option"
  | ServersRefreshed 'p
  | LoginStep 'p
  | LoginStatus 'p
  | Account 'p
  | Selected 'p
  | Groups 'p
  | Group 'p

datatype 'p Response = ResponseOk u64 "'p RequestResult" | ResponseError u64 RpcError

primrec response_id :: "'p Response \<Rightarrow> u64" where
  "response_id (ResponseOk i r) = i"
| "response_id (ResponseError i e) = i"

record HelloAck =
  ack_protocol_version :: u32
  ack_daemon_version :: string
  ack_latest_event_seq :: u64

record HelloError =
  he_supported_version :: u32
  he_reason :: string

datatype ClientMessage = Hello u32 ClientInfo | ClientRequest u64 Request

datatype 'p ServerMessage =
    HelloAckMessage HelloAck
  | HelloErrorMessage HelloError
  | ResponseMessage "'p Response"
  | EventMessage EventEnvelope

end
