(* ===== verification/Daemon_Core.thy ===== *)
theory Daemon_Core
  imports Wire
begin

text \<open>
  The daemon's state machine and request dispatch (\<open>core/src/state.rs\<close>, \<open>error.rs\<close>), the
  authorisation in front of it (\<open>ipc/src/authz.rs\<close>) and the event fan-out behind it
  (\<open>ipc/src/bus.rs\<close>).
\<close>

section \<open>Authorisation\<close>

record PeerCredentials =
  pc_uid :: u32
  pc_gid :: u32
  pc_pid :: "int option"

definition is_root :: "PeerCredentials \<Rightarrow> bool" where
  "is_root peer \<longleftrightarrow> pc_uid peer = 0"

datatype IpcRole = AnyUser | Admin

primrec required_role :: "Request \<Rightarrow> IpcRole" where
  "required_role (Ping n) = AnyUser"
| "required_role GetState = AnyUser"
| "required_role (Connect t) = AnyUser"
| "required_role Disconnect = AnyUser"
| "required_role ServersList = AnyUser"
| "required_role (ServersRefresh t) = AnyUser"
| "required_role (BeginLogin u p) = AnyUser"
| "required_role (SubmitTwoFactor c) = AnyUser"
| "required_role (SubmitFidoPayload a b c d) = AnyUser"
| "required_role RefreshSession = AnyUser"
| "required_role Logout = AnyUser"
| "required_role (SubmitCredential n v) = AnyUser"
| "required_role GetAccount = AnyUser"
| "required_role (Select t m) = AnyUser"
| "required_role GroupsList = AnyUser"
| "required_role (GroupShow i) = AnyUser"
| "required_role Shutdown = Admin"

text \<open>\<open>uid_text\<close> is the decimal text of the peer's user id in the message.\<close>

definition authorize :: "(u32 \<Rightarrow> string) \<Rightarrow> IpcRole \<Rightarrow> PeerCredentials \<Rightarrow> RpcError + unit" where
  "authorize uid_text role peer =
     (case role of
        AnyUser \<Rightarrow> Inr ()
      | Admin \<Rightarrow>
          if is_root peer then Inr ()
          else Inl (RpcError_new PermissionDeniedCode
            (''this request requires administrator (UID 0) credentials; peer UID is '' @ uid_text (pc_uid peer))))"

section \<open>The core\<close>

datatype CoreError = NotImplemented string | InvalidParams string | PermissionDenied string | Internal string

primrec into_rpc :: "CoreError \<Rightarrow> RpcError" where
  "into_rpc (NotImplemented what) = RpcError_new NotImplementedCode what"
| "into_rpc (InvalidParams m) = RpcError_new InvalidParamsCode m"
| "into_rpc (PermissionDenied m) = RpcError_new PermissionDeniedCode m"
| "into_rpc (Internal m) = RpcError_new InternalCode m"

text \<open>The parts of \<open>DaemonCore\<close> and of the state behind its mutex; of the configuration, the mode it exposes.\<close>

record DaemonCore =
  dc_version :: string
  dc_network_integration :: NetworkIntegration
  dc_seq :: u64
  dc_vpn_state :: VpnState
  dc_active_owner_uid :: "u32 option"

definition DaemonCore_new :: "string \<Rightarrow> NetworkIntegration \<Rightarrow> DaemonCore" where
  "DaemonCore_new version integration =
     \<lparr>dc_version = version, dc_network_integration = integration, dc_seq = 0, dc_vpn_state = Disconnected,
      dc_active_owner_uid = None\<rparr>"

definition latest_event_seq :: "DaemonCore \<Rightarrow> u64" where
  "latest_event_seq core = dc_seq core"

definition core_state :: "DaemonCore \<Rightarrow> DaemonState" where
  "core_state core =
     \<lparr>ds_protocol_version = PROTOCOL_VERSION, ds_daemon_version = dc_version core, ds_vpn_state = dc_vpn_state core,
      ds_network_integration = dc_network_integration core, ds_active_owner_uid = dc_active_owner_uid core,
      ds_latest_event_seq = Some (dc_seq core)\<rparr>"

primrec handle_request :: "DaemonCore \<Rightarrow> Request \<Rightarrow> RpcError + 'p RequestResult" where
  "handle_request core (Ping nonce) = Inr (Pong nonce)"
| "handle_request core GetState = Inr (State (core_state core))"
| "handle_request core (Connect t) = Inl (into_rpc (NotImplemented ''tunnel connect lands in milestone 4''))"
| "handle_request core Disconnect = Inl (into_rpc (NotImplemented ''tunnel disconnect lands in milestone 4''))"
| "handle_request core Shutdown = Inl (into_rpc (Internal ''shutdown must be handled by the daemon''))"
| "handle_request core ServersList = Inl (into_rpc (Internal ''this request surface is handled by the daemon''))"
| "handle_request core (ServersRefresh t) = Inl (into_rpc (Internal ''this request surface is handled by the daemon''))"
| "handle_request core (BeginLogin u p) = Inl (into_rpc (Internal ''this request surface is handled by the daemon''))"
| "handle_request core (SubmitTwoFactor c) = Inl (into_rpc (Internal ''this request surface is handled by the daemon''))"
| "handle_request core (SubmitFidoPayload a b c d) = Inl (into_rpc (Internal ''this request surface is handled by the daemon''))"
| "handle_request core RefreshSession = Inl (into_rpc (Internal ''this request surface is handled by the daemon''))"
| "handle_request core Logout = Inl (into_rpc (Internal ''this request surface is handled by the daemon''))"
| "handle_request core (SubmitCredential n v) = Inl (into_rpc (Internal ''this request surface is handled by the daemon''))"
| "handle_request core GetAccount = Inl (into_rpc (Internal ''this request surface is handled by the daemon''))"
| "handle_request core (Select t m) = Inl (into_rpc (Internal ''this request surface is handled by the daemon''))"
| "handle_request core GroupsList = Inl (into_rpc (Internal ''this request surface is handled by the daemon''))"
| "handle_request core (GroupShow i) = Inl (into_rpc (Internal ''this request surface is handled by the daemon''))"

text \<open>The emitters return the envelope they publish; the counter wraps at 64 bits.\<close>

definition emit_locked :: "Event \<Rightarrow> DaemonCore \<Rightarrow> EventEnvelope \<times> DaemonCore" where
  "emit_locked event core =
     (let seq = (dc_seq core + 1) mod 2 ^ 64 in (\<lparr>env_seq = seq, env_event = event\<rparr>, core\<lparr>dc_seq := seq\<rparr>))"

definition set_vpn_state :: "VpnState \<Rightarrow> DaemonCore \<Rightarrow> EventEnvelope option \<times> DaemonCore" where
  "set_vpn_state to core =
     (let from = dc_vpn_state core in
      if from = to then (None, core)
      else case emit_locked (StateChanged from to) (core\<lparr>dc_vpn_state := to\<rparr>) of (env, core') \<Rightarrow> (Some env, core'))"

definition core_notice :: "NoticeLevel \<Rightarrow> string \<Rightarrow> DaemonCore \<Rightarrow> EventEnvelope \<times> DaemonCore" where
  "core_notice level message core = emit_locked (Notice level message) core"

section \<open>The event bus\<close>

definition SESSION_QUEUE_LEN :: nat where
  "SESSION_QUEUE_LEN = 256"

definition MAX_SESSIONS :: nat where
  "MAX_SESSIONS = 64"

text \<open>A session's bounded queue with its overflow mark; \<open>se_alive\<close> is whether the receiver still exists.\<close>

record 'm SessionEntry =
  se_queue :: "'m list"
  se_alive :: bool
  se_overflowed :: bool

record 'm EventBus =
  eb_sessions :: "u64 \<Rightarrow> 'm SessionEntry option"
  eb_next_session :: u64
  eb_reserved :: nat

definition EventBus_new :: "'m EventBus" where
  "EventBus_new = \<lparr>eb_sessions = (\<lambda>_. None), eb_next_session = 0, eb_reserved = 0\<rparr>"

definition subscribe :: "'m EventBus \<Rightarrow> u64 \<times> 'm EventBus" where
  "subscribe bus =
     (eb_next_session bus,
      bus\<lparr>eb_next_session := (eb_next_session bus + 1) mod 2 ^ 64,
        eb_sessions := (eb_sessions bus)(eb_next_session bus \<mapsto> \<lparr>se_queue = [], se_alive = True, se_overflowed = False\<rparr>)\<rparr>)"

definition unsubscribe :: "u64 \<Rightarrow> 'm EventBus \<Rightarrow> 'm EventBus" where
  "unsubscribe i bus = bus\<lparr>eb_sessions := (eb_sessions bus)(i := None)\<rparr>"

text \<open>\<open>SyncSender::try_send\<close> on a session's queue.\<close>

datatype try_send_result = Queued | QueueFull | QueueDisconnected

definition try_send :: "'m \<Rightarrow> 'm SessionEntry \<Rightarrow> try_send_result \<times> 'm SessionEntry" where
  "try_send message entry =
     (if \<not> se_alive entry then (QueueDisconnected, entry)
      else if SESSION_QUEUE_LEN \<le> length (se_queue entry) then (QueueFull, entry)
      else (Queued, entry\<lparr>se_queue := se_queue entry @ [message]\<rparr>))"

text \<open>What \<open>publish\<close> does with one session: \<open>None\<close> when the subscription ends.\<close>

definition publish_to :: "'m \<Rightarrow> 'm SessionEntry \<Rightarrow> 'm SessionEntry option" where
  "publish_to message entry =
     (case try_send message entry of
        (Queued, entry') \<Rightarrow> Some entry'
      | (QueueDisconnected, entry') \<Rightarrow> None
      | (QueueFull, entry') \<Rightarrow> Some (entry'\<lparr>se_overflowed := True\<rparr>))"

definition publish :: "'m \<Rightarrow> 'm EventBus \<Rightarrow> 'm EventBus" where
  "publish message bus = bus\<lparr>eb_sessions := (\<lambda>i. Option.bind (eb_sessions bus i) (publish_to message))\<rparr>"

text \<open>\<open>try_reserve_session\<close> is two atomic steps; the second only after an overshoot.\<close>

definition reserve_add :: "'m EventBus \<Rightarrow> bool \<times> 'm EventBus" where
  "reserve_add bus = (eb_reserved bus < MAX_SESSIONS, bus\<lparr>eb_reserved := eb_reserved bus + 1\<rparr>)"

definition reserve_sub :: "'m EventBus \<Rightarrow> 'm EventBus" where
  "reserve_sub bus = bus\<lparr>eb_reserved := eb_reserved bus - 1\<rparr>"

definition try_reserve_session :: "'m EventBus \<Rightarrow> bool \<times> 'm EventBus" where
  "try_reserve_session bus =
     (case reserve_add bus of (True, bus') \<Rightarrow> (True, bus') | (False, bus') \<Rightarrow> (False, reserve_sub bus'))"

definition release_session :: "'m EventBus \<Rightarrow> 'm EventBus" where
  "release_session bus = bus\<lparr>eb_reserved := eb_reserved bus - 1\<rparr>"

end
