(* ===== verification/Event_Session.thy ===== *)
theory Event_Session
  imports Daemon_Core
begin

text \<open>
  One session's event path, as code: the daemon's session threads (\<open>ipc/src/server/session.rs\<close>),
  the client transport (\<open>ipc/src/client.rs\<close>) and the client's event cursor (\<open>client/src/lib.rs\<close>).
\<close>

section \<open>The daemon's side of a session\<close>

definition resync_marker :: EventEnvelope where
  "resync_marker = \<lparr>env_seq = EVENT_SEQ_RESYNC_NOW, env_event = Notice WarningNotice ''event queue overflowed; resynchronize''\<rparr>"

definition MAX_UNWRITTEN_MESSAGES :: nat where
  "MAX_UNWRITTEN_MESSAGES = 16"

text \<open>\<open>WriteWindow\<close>; the counter is a \<open>usize\<close> that wraps below zero on an unreserved refusal.\<close>

record WriteWindow =
  ww_unwritten :: nat
  ww_writer_gone :: bool

definition WriteWindow_new :: WriteWindow where
  "WriteWindow_new = \<lparr>ww_unwritten = 0, ww_writer_gone = False\<rparr>"

definition window_reserve :: "WriteWindow \<Rightarrow> WriteWindow" where
  "window_reserve ww = ww\<lparr>ww_unwritten := (ww_unwritten ww + 1) mod 2 ^ 64\<rparr>"

definition window_release :: "WriteWindow \<Rightarrow> WriteWindow" where
  "window_release ww = ww\<lparr>ww_unwritten := (ww_unwritten ww + 2 ^ 64 - 1) mod 2 ^ 64\<rparr>"

definition is_exhausted :: "WriteWindow \<Rightarrow> bool" where
  "is_exhausted ww \<longleftrightarrow> MAX_UNWRITTEN_MESSAGES \<le> ww_unwritten ww"

text \<open>The release of a refusal, which was never reserved, leaves the window exhausted.\<close>

lemma unreserved_release_exhausts: "is_exhausted (window_release WriteWindow_new)"
  by (simp add: is_exhausted_def window_release_def WriteWindow_new_def MAX_UNWRITTEN_MESSAGES_def)

definition note_writer_exit :: "WriteWindow \<Rightarrow> WriteWindow" where
  "note_writer_exit ww = ww\<lparr>ww_writer_gone := True\<rparr>"

text \<open>Where \<open>forward_events\<close> stands; past the gate it carries the negotiated version.\<close>

datatype 'p forwarder =
    FwdGate
  | FwdWait u32
  | FwdSend u32 "'p ServerMessage"
  | FwdCheck u32
  | FwdMark u32

definition deliverable :: "u32 \<Rightarrow> 'p ServerMessage \<Rightarrow> bool" where
  "deliverable version message =
     (case message of EventMessage env \<Rightarrow> event_reaches version (env_event env) | _ \<Rightarrow> True)"

text \<open>The body of the loop, cut at its blocking calls: receive, forward, answer the overflow mark.\<close>

definition forward_take :: "u32 \<Rightarrow> 'p ServerMessage \<Rightarrow> 'p forwarder" where
  "forward_take version message = (if deliverable version message then FwdSend version message else FwdWait version)"

definition forward_check :: "u32 \<Rightarrow> 'm SessionEntry \<Rightarrow> 'p forwarder \<times> 'm SessionEntry" where
  "forward_check version entry =
     ((if se_overflowed entry \<and> resync_marker_reaches version then FwdMark version else FwdWait version),
      entry\<lparr>se_overflowed := False\<rparr>)"

text \<open>\<open>dispatch\<close>, and one client message in \<open>serve_messages\<close> after it was read.\<close>

definition dispatch :: "(u32 \<Rightarrow> string) \<Rightarrow> (Request \<Rightarrow> RpcError + 'p RequestResult) \<Rightarrow> PeerCredentials \<Rightarrow> Request \<Rightarrow>
    RpcError + 'p RequestResult" where
  "dispatch uid_text handle peer request =
     (case authorize uid_text (required_role request) peer of
        Inl e \<Rightarrow> Inl e
      | Inr _ \<Rightarrow> handle request)"

definition hello_refusal :: "string \<Rightarrow> HelloError" where
  "hello_refusal reason = \<lparr>he_supported_version = PROTOCOL_VERSION, he_reason = reason\<rparr>"

datatype 'p served = Refused HelloError | Acked HelloAck ClientInfo | Answered "'p Response"

definition serve_message :: "(u32 \<Rightarrow> string) \<Rightarrow> PeerCredentials \<Rightarrow> DaemonCore \<Rightarrow> ClientInfo option \<Rightarrow> ClientMessage \<Rightarrow> 'p served" where
  "serve_message uid_text peer core client_info message =
     (case message of
        Hello protocol_version client \<Rightarrow>
          if client_info \<noteq> None then Refused (hello_refusal ''duplicate-hello'')
          else if PROTOCOL_VERSION < protocol_version \<or> protocol_version < 1
          then Refused (hello_refusal ''unsupported-protocol-version'')
          else Acked \<lparr>ack_protocol_version = min protocol_version PROTOCOL_VERSION,
            ack_daemon_version = dc_version core, ack_latest_event_seq = latest_event_seq core\<rparr> (sanitized client)
      | ClientRequest i request \<Rightarrow>
          if client_info = None then Refused (hello_refusal ''request-before-hello'')
          else case dispatch uid_text (handle_request core) peer request of
              Inr result \<Rightarrow> Answered (ResponseOk i result)
            | Inl error \<Rightarrow> Answered (ResponseError i error))"

section \<open>The client transport\<close>

definition PENDING_EVENTS_CAP :: nat where
  "PENDING_EVENTS_CAP = 256"

record IpcClient =
  ic_next_id :: u64
  ic_pending_events :: "EventEnvelope list"
  ic_dropped_events :: u64
  ic_unreported_drops :: u64
  ic_poisoned :: bool
  ic_ack :: HelloAck

datatype 'p received = Done "RpcError + 'p RequestResult" | KeepReading | Desynchronized

text \<open>An event read while a request is in flight.\<close>

definition buffer_event :: "EventEnvelope \<Rightarrow> IpcClient \<Rightarrow> IpcClient" where
  "buffer_event env c =
     (let c' = (if PENDING_EVENTS_CAP \<le> length (ic_pending_events c)
                then c\<lparr>ic_pending_events := tl (ic_pending_events c), ic_dropped_events := ic_dropped_events c + 1,
                       ic_unreported_drops := ic_unreported_drops c + 1\<rparr>
                else c)
      in c'\<lparr>ic_pending_events := ic_pending_events c' @ [env]\<rparr>)"

text \<open>One message in the read loop of \<open>request\<close>.\<close>

definition request_receive :: "u64 \<Rightarrow> 'p ServerMessage \<Rightarrow> IpcClient \<Rightarrow> 'p received \<times> IpcClient" where
  "request_receive i message c =
     (case message of
        ResponseMessage response \<Rightarrow>
          if response_id response = i
          then (case response of ResponseOk _ result \<Rightarrow> (Done (Inr result), c) | ResponseError _ e \<Rightarrow> (Done (Inl e), c))
          else (Desynchronized, c\<lparr>ic_poisoned := True\<rparr>)
      | EventMessage env \<Rightarrow> (KeepReading, buffer_event env c)
      | _ \<Rightarrow> (Desynchronized, c\<lparr>ic_poisoned := True\<rparr>))"

text \<open>\<open>next_event\<close> takes a buffered event first; the drops it logs are then accounted for.\<close>

definition surface_pending_drops :: "IpcClient \<Rightarrow> IpcClient" where
  "surface_pending_drops c = c\<lparr>ic_unreported_drops := 0\<rparr>"

definition pop_pending :: "IpcClient \<Rightarrow> (EventEnvelope \<times> IpcClient) option" where
  "pop_pending c =
     (case ic_pending_events c of
        [] \<Rightarrow> None
      | env # rest \<Rightarrow> Some (env, (surface_pending_drops c)\<lparr>ic_pending_events := rest\<rparr>))"

definition discard_events_through :: "u64 \<Rightarrow> IpcClient \<Rightarrow> IpcClient" where
  "discard_events_through seq c = c\<lparr>ic_pending_events := filter (\<lambda>env. seq < env_seq env) (ic_pending_events c)\<rparr>"

text \<open>\<open>handshake\<close>, once a message was read.\<close>

definition handshake_accepts :: "'p ServerMessage \<Rightarrow> HelloAck option" where
  "handshake_accepts message =
     (case message of
        HelloAckMessage ack \<Rightarrow> if ack_protocol_version ack \<le> PROTOCOL_VERSION then Some ack else None
      | _ \<Rightarrow> None)"

section \<open>The client's cursor\<close>

datatype ClientEvent = Event EventEnvelope | Resynchronized DaemonState u64

record ProtonwireClient =
  pw_ipc :: IpcClient
  pw_last_seq :: "u64 option"
  pw_hello_seq :: u64

definition checked_succ :: "u64 \<Rightarrow> u64 option" where
  "checked_succ n = (if n + 1 < 2 ^ 64 then Some (n + 1) else None)"

datatype next_action = Deliver | SkipStale | Resync "u64 option"

text \<open>What \<open>next_event\<close> does with an envelope.\<close>

definition classify :: "ProtonwireClient \<Rightarrow> EventEnvelope \<Rightarrow> next_action" where
  "classify c env =
     (if env_seq env = EVENT_SEQ_RESYNC_NOW then Resync None
      else case pw_last_seq c of
          Some lst \<Rightarrow>
            (case checked_succ lst of
               None \<Rightarrow> Resync None
             | Some expected \<Rightarrow>
                 if expected < env_seq env then Resync (Some (env_seq env))
                 else if env_seq env < expected then SkipStale
                 else Deliver)
        | None \<Rightarrow>
            (case checked_succ (pw_hello_seq c) of
               Some floor \<Rightarrow> if floor < env_seq env then Resync (Some (env_seq env)) else Deliver
             | None \<Rightarrow> Deliver))"

definition deliver :: "EventEnvelope \<Rightarrow> ProtonwireClient \<Rightarrow> ProtonwireClient" where
  "deliver env c = c\<lparr>pw_last_seq := Some (env_seq env)\<rparr>"

text \<open>\<open>resynchronize\<close>, once the snapshot arrived.\<close>

definition resync_cursor :: "u64 option \<Rightarrow> DaemonState \<Rightarrow> ProtonwireClient \<Rightarrow> u64" where
  "resync_cursor gap_seq st c =
     (let fallback = (case gap_seq of Some g \<Rightarrow> g | None \<Rightarrow> (case pw_last_seq c of Some l \<Rightarrow> l | None \<Rightarrow> 0))
      in max (case ds_latest_event_seq st of Some s \<Rightarrow> s | None \<Rightarrow> fallback) fallback)"

definition resynchronize :: "u64 option \<Rightarrow> DaemonState \<Rightarrow> ProtonwireClient \<Rightarrow> ClientEvent \<times> ProtonwireClient" where
  "resynchronize gap_seq st c =
     (let cursor = resync_cursor gap_seq st c
      in (Resynchronized st cursor,
          c\<lparr>pw_ipc := discard_events_through cursor (pw_ipc c), pw_last_seq := Some cursor\<rparr>))"

end
