(* ===== verification/Event_Runs.thy ===== *)
theory Event_Runs
  imports Event_Session
begin

text \<open>
  The event path of one session as a step relation. A step is one atomic action of one thread:
  an emitter holding the core's lock, the forwarder, the writer, the dispatcher, or the client.
  A publication into a full queue is two steps, the failed \<open>try_send\<close> and the store of the
  overflow mark, because the forwarder may run in between.
\<close>

section \<open>The world of a session\<close>

datatype purpose = ForCaller | ForResync "u64 option"

datatype client_pc = Handshaking | Idle | Awaiting u64 purpose | Stopped

text \<open>
  Beside the state of the threads: the events emitted so far (\<open>w_log\<close>), how many there were at
  the subscription (\<open>w_base\<close>), what the client was given (\<open>w_out\<close>), the state it believes in
  (\<open>w_view\<close>), and whether its buffer ever evicted a resync marker (\<open>w_evicted\<close>).
\<close>

record 'p world =
  w_core :: DaemonCore
  w_log :: "Event list"
  w_base :: nat
  w_publishing :: bool
  w_entry :: "'p ServerMessage SessionEntry"
  w_fwd :: "'p forwarder"
  w_channel :: "'p ServerMessage list"
  w_window :: WriteWindow
  w_info :: "ClientInfo option"
  w_reply :: "'p ServerMessage option"
  w_wire :: "'p ServerMessage list"
  w_requests :: "ClientMessage list"
  w_client :: ProtonwireClient
  w_pc :: client_pc
  w_out :: "ClientEvent list"
  w_view :: "VpnState option"
  w_evicted :: bool

text \<open>The VPN state an event leaves behind.\<close>

definition event_state :: "VpnState \<Rightarrow> Event \<Rightarrow> VpnState" where
  "event_state s ev = (case ev of StateChanged from to \<Rightarrow> to | _ \<Rightarrow> s)"

definition state_after :: "Event list \<Rightarrow> VpnState" where
  "state_after evs = foldl event_state Disconnected evs"

definition view_event :: "Event \<Rightarrow> VpnState option \<Rightarrow> VpnState option" where
  "view_event ev v = (case ev of StateChanged from to \<Rightarrow> Some to | _ \<Rightarrow> v)"

definition emits :: "DaemonCore \<Rightarrow> EventEnvelope \<Rightarrow> DaemonCore \<Rightarrow> bool" where
  "emits core env core' \<longleftrightarrow>
     (\<exists>to. set_vpn_state to core = (Some env, core')) \<or> (\<exists>level message. core_notice level message core = (env, core'))"

text \<open>The emitter: its \<open>try_send\<close> under the lock, then the store of the mark.\<close>

definition do_emit :: "EventEnvelope \<Rightarrow> DaemonCore \<Rightarrow> 'p world \<Rightarrow> 'p world" where
  "do_emit env core' w =
     (case try_send (EventMessage env) (w_entry w) of (res, entry') \<Rightarrow>
      w\<lparr>w_core := core', w_log := w_log w @ [env_event env], w_entry := entry', w_publishing := (res = QueueFull)\<rparr>)"

definition do_mark :: "'p world \<Rightarrow> 'p world" where
  "do_mark w = w\<lparr>w_entry := (w_entry w)\<lparr>se_overflowed := True\<rparr>, w_publishing := False\<rparr>"

text \<open>Without interruption the two steps are \<open>publish\<close> on this session.\<close>

lemma publish_in_steps:
  "se_alive (w_entry w) \<Longrightarrow>
   publish_to (EventMessage env) (w_entry w) =
     Some (w_entry (let w' = do_emit env core' w in if w_publishing w' then do_mark w' else w'))"
  by (simp add: publish_to_def do_emit_def do_mark_def try_send_def Let_def)

text \<open>The forwarder, and \<open>send_through\<close> for it and for the dispatcher; the channel is bounded like the queue.\<close>

definition send_through :: "'p ServerMessage \<Rightarrow> 'p world \<Rightarrow> 'p world" where
  "send_through m w = w\<lparr>w_channel := w_channel w @ [m], w_window := window_reserve (w_window w)\<rparr>"

definition channel_free :: "'p world \<Rightarrow> bool" where
  "channel_free w \<longleftrightarrow> length (w_channel w) < SESSION_QUEUE_LEN"

definition do_take :: "u32 \<Rightarrow> 'p ServerMessage \<Rightarrow> 'p ServerMessage list \<Rightarrow> 'p world \<Rightarrow> 'p world" where
  "do_take v m rest w = w\<lparr>w_entry := (w_entry w)\<lparr>se_queue := rest\<rparr>, w_fwd := forward_take v m\<rparr>"

definition do_check :: "u32 \<Rightarrow> 'p world \<Rightarrow> 'p world" where
  "do_check v w = (case forward_check v (w_entry w) of (fwd, entry) \<Rightarrow> w\<lparr>w_fwd := fwd, w_entry := entry\<rparr>)"

text \<open>The writer thread.\<close>

definition do_write :: "'p ServerMessage \<Rightarrow> 'p ServerMessage list \<Rightarrow> 'p world \<Rightarrow> 'p world" where
  "do_write m rest w = w\<lparr>w_channel := rest, w_wire := w_wire w @ [m], w_window := window_release (w_window w)\<rparr>"

text \<open>
  The dispatcher: a message read and served, then its answer sent; the acknowledgement opens the
  gate, a refusal takes no slot of the window. The teardown after a refusal is not modelled: no
  client of this protocol version is refused.
\<close>

definition do_serve :: "(u32 \<Rightarrow> string) \<Rightarrow> PeerCredentials \<Rightarrow> ClientMessage \<Rightarrow> ClientMessage list \<Rightarrow> 'p world \<Rightarrow> 'p world" where
  "do_serve uid_text peer m rest w =
     (case serve_message uid_text peer (w_core w) (w_info w) m of
        Refused e \<Rightarrow> w\<lparr>w_requests := rest, w_reply := Some (HelloErrorMessage e)\<rparr>
      | Acked ack info \<Rightarrow> w\<lparr>w_requests := rest, w_reply := Some (HelloAckMessage ack), w_info := Some info\<rparr>
      | Answered response \<Rightarrow> w\<lparr>w_requests := rest, w_reply := Some (ResponseMessage response)\<rparr>)"

definition do_reply :: "'p ServerMessage \<Rightarrow> 'p world \<Rightarrow> 'p world" where
  "do_reply m w =
     (case m of
        HelloErrorMessage e \<Rightarrow> w\<lparr>w_channel := w_channel w @ [m], w_reply := None\<rparr>
      | HelloAckMessage ack \<Rightarrow> (send_through m w)\<lparr>w_reply := None, w_fwd := FwdWait (ack_protocol_version ack)\<rparr>
      | _ \<Rightarrow> (send_through m w)\<lparr>w_reply := None\<rparr>)"

text \<open>The client: the handshake, an envelope in \<open>next_event\<close>, and a message during a request.\<close>

definition do_ack :: "'p ServerMessage \<Rightarrow> 'p ServerMessage list \<Rightarrow> 'p world \<Rightarrow> 'p world" where
  "do_ack m rest w =
     (case handshake_accepts m of
        Some ack \<Rightarrow>
          w\<lparr>w_wire := rest, w_pc := Idle,
            w_client := (w_client w)\<lparr>pw_ipc := (pw_ipc (w_client w))\<lparr>ic_ack := ack\<rparr>,
              pw_hello_seq := ack_latest_event_seq ack\<rparr>\<rparr>
      | None \<Rightarrow> w\<lparr>w_wire := rest, w_pc := Stopped\<rparr>)"

definition send_request :: "Request \<Rightarrow> purpose \<Rightarrow> 'p world \<Rightarrow> 'p world" where
  "send_request req why w =
     (let i = ic_next_id (pw_ipc (w_client w)) in
      w\<lparr>w_requests := w_requests w @ [ClientRequest i req], w_pc := Awaiting i why,
        w_client := (w_client w)\<lparr>pw_ipc := (pw_ipc (w_client w))\<lparr>ic_next_id := i + 1\<rparr>\<rparr>\<rparr>)"

definition do_envelope :: "EventEnvelope \<Rightarrow> 'p world \<Rightarrow> 'p world" where
  "do_envelope env w =
     (case classify (w_client w) env of
        Deliver \<Rightarrow>
          w\<lparr>w_client := deliver env (w_client w), w_out := w_out w @ [Event env],
            w_view := view_event (env_event env) (w_view w)\<rparr>
      | SkipStale \<Rightarrow> w
      | Resync gap \<Rightarrow> send_request GetState (ForResync gap) w)"

definition set_ipc :: "IpcClient \<Rightarrow> 'p world \<Rightarrow> 'p world" where
  "set_ipc ipc w = w\<lparr>w_client := (w_client w)\<lparr>pw_ipc := ipc\<rparr>\<rparr>"

definition evicts_marker :: "'p ServerMessage \<Rightarrow> IpcClient \<Rightarrow> bool" where
  "evicts_marker m ipc \<longleftrightarrow>
     (case m of EventMessage env \<Rightarrow> PENDING_EVENTS_CAP \<le> length (ic_pending_events ipc) \<and>
        env_seq (hd (ic_pending_events ipc)) = EVENT_SEQ_RESYNC_NOW | _ \<Rightarrow> False)"

definition do_finish :: "purpose \<Rightarrow> RpcError + 'p RequestResult \<Rightarrow> 'p world \<Rightarrow> 'p world" where
  "do_finish why result w =
     (case (why, result) of
        (ForResync gap, Inr (State st)) \<Rightarrow>
          (case resynchronize gap st (w_client w) of
             (out, c) \<Rightarrow> w\<lparr>w_pc := Idle, w_client := c, w_out := w_out w @ [out], w_view := Some (ds_vpn_state st)\<rparr>)
      | _ \<Rightarrow> w\<lparr>w_pc := Idle\<rparr>)"

definition do_receive :: "u64 \<Rightarrow> purpose \<Rightarrow> 'p ServerMessage \<Rightarrow> 'p ServerMessage list \<Rightarrow> 'p world \<Rightarrow> 'p world" where
  "do_receive i why m rest w =
     (case request_receive i m (pw_ipc (w_client w)) of
        (Done result, ipc) \<Rightarrow> do_finish why result (set_ipc ipc (w\<lparr>w_wire := rest\<rparr>))
      | (KeepReading, ipc) \<Rightarrow>
          (set_ipc ipc w)\<lparr>w_wire := rest, w_evicted := w_evicted w \<or> evicts_marker m (pw_ipc (w_client w))\<rparr>
      | (Desynchronized, ipc) \<Rightarrow> (set_ipc ipc w)\<lparr>w_wire := rest, w_pc := Stopped\<rparr>)"

section \<open>Steps\<close>

text \<open>
  The counter's range bounds a run: the last event of a run has a number below the reserved one.
  A request for the state needs the core's lock, which the emitter holds while it publishes.
\<close>

inductive wstep :: "(u32 \<Rightarrow> string) \<Rightarrow> PeerCredentials \<Rightarrow> 'p world \<Rightarrow> 'p world \<Rightarrow> bool"
  for uid_text peer where
  emit: "\<not> w_publishing w \<Longrightarrow> emits (w_core w) env core' \<Longrightarrow> dc_seq (w_core w) + 2 < 2 ^ 64 \<Longrightarrow>
    wstep uid_text peer w (do_emit env core' w)"
| mark: "w_publishing w \<Longrightarrow> wstep uid_text peer w (do_mark w)"
| forward_take: "w_fwd w = FwdWait v \<Longrightarrow> se_queue (w_entry w) = m # rest \<Longrightarrow> wstep uid_text peer w (do_take v m rest w)"
| forward_send: "w_fwd w = FwdSend v m \<Longrightarrow> channel_free w \<Longrightarrow>
    wstep uid_text peer w ((send_through m w)\<lparr>w_fwd := FwdCheck v\<rparr>)"
| forward_check: "w_fwd w = FwdCheck v \<Longrightarrow> wstep uid_text peer w (do_check v w)"
| forward_mark: "w_fwd w = FwdMark v \<Longrightarrow> channel_free w \<Longrightarrow>
    wstep uid_text peer w ((send_through (EventMessage resync_marker) w)\<lparr>w_fwd := FwdWait v\<rparr>)"
| write_out: "w_channel w = m # rest \<Longrightarrow> wstep uid_text peer w (do_write m rest w)"
| serve: "w_reply w = None \<Longrightarrow> w_requests w = m # rest \<Longrightarrow> w_info w = None \<or> \<not> is_exhausted (w_window w) \<Longrightarrow>
    (\<forall>i. m = ClientRequest i GetState \<longrightarrow> \<not> w_publishing w) \<Longrightarrow> wstep uid_text peer w (do_serve uid_text peer m rest w)"
| reply: "w_reply w = Some m \<Longrightarrow> channel_free w \<Longrightarrow> wstep uid_text peer w (do_reply m w)"
| ack: "w_pc w = Handshaking \<Longrightarrow> w_wire w = m # rest \<Longrightarrow> wstep uid_text peer w (do_ack m rest w)"
| pending: "w_pc w = Idle \<Longrightarrow> pop_pending (pw_ipc (w_client w)) = Some (env, ipc) \<Longrightarrow>
    wstep uid_text peer w (do_envelope env (set_ipc ipc w))"
| event: "w_pc w = Idle \<Longrightarrow> pop_pending (pw_ipc (w_client w)) = None \<Longrightarrow> w_wire w = EventMessage env # rest \<Longrightarrow>
    wstep uid_text peer w (do_envelope env (set_ipc (surface_pending_drops (pw_ipc (w_client w))) (w\<lparr>w_wire := rest\<rparr>)))"
| request: "w_pc w = Idle \<Longrightarrow> wstep uid_text peer w (send_request req ForCaller w)"
| receive: "w_pc w = Awaiting i why \<Longrightarrow> w_wire w = m # rest \<Longrightarrow> wstep uid_text peer w (do_receive i why m rest w)"
| timeout: "w_pc w = Awaiting i why \<Longrightarrow>
    wstep uid_text peer w ((set_ipc ((pw_ipc (w_client w))\<lparr>ic_poisoned := True\<rparr>) w)\<lparr>w_pc := Stopped\<rparr>)"

text \<open>A session starts when it subscribes: the daemon may have emitted any number of events before.\<close>

definition client_new :: ProtonwireClient where
  "client_new =
     \<lparr>pw_ipc = \<lparr>ic_next_id = 0, ic_pending_events = [], ic_dropped_events = 0, ic_unreported_drops = 0, ic_poisoned = False,
        ic_ack = \<lparr>ack_protocol_version = PROTOCOL_VERSION, ack_daemon_version = [], ack_latest_event_seq = 0\<rparr>\<rparr>,
      pw_last_seq = None, pw_hello_seq = 0\<rparr>"

definition world_start :: "DaemonCore \<Rightarrow> Event list \<Rightarrow> ClientInfo \<Rightarrow> 'p world" where
  "world_start core log info =
     \<lparr>w_core = core, w_log = log, w_base = length log, w_publishing = False,
      w_entry = \<lparr>se_queue = [], se_alive = True, se_overflowed = False\<rparr>, w_fwd = FwdGate, w_channel = [],
      w_window = WriteWindow_new, w_info = None, w_reply = None, w_wire = [],
      w_requests = [Hello PROTOCOL_VERSION info], w_client = client_new, w_pc = Handshaking, w_out = [],
      w_view = None, w_evicted = False\<rparr>"

text \<open>The core after the events of a log.\<close>

inductive core_after :: "string \<Rightarrow> NetworkIntegration \<Rightarrow> Event list \<Rightarrow> DaemonCore \<Rightarrow> bool" for version integration where
  "core_after version integration [] (DaemonCore_new version integration)"
| "core_after version integration log core \<Longrightarrow> emits core env core' \<Longrightarrow> dc_seq core + 2 < 2 ^ 64 \<Longrightarrow>
    core_after version integration (log @ [env_event env]) core'"

inductive wreachable :: "(u32 \<Rightarrow> string) \<Rightarrow> PeerCredentials \<Rightarrow> 'p world \<Rightarrow> bool" for uid_text peer where
  start: "core_after version integration log core \<Longrightarrow> wreachable uid_text peer (world_start core log info)"
| go: "wreachable uid_text peer w \<Longrightarrow> wstep uid_text peer w w' \<Longrightarrow> wreachable uid_text peer w'"

end
