(* ===== verification/Event_Order.thy ===== *)
theory Event_Order
  imports Event_Runs
begin

text \<open>
  The invariant of the event path: every envelope on its way is a true event, in order; the
  newest event is either known to the client, on its way, or announced by an overflow signal.
\<close>

section \<open>What is on its way\<close>

definition evs :: "'p ServerMessage list \<Rightarrow> EventEnvelope list" where
  "evs ms = List.map_filter (\<lambda>m. case m of EventMessage env \<Rightarrow> Some env | _ \<Rightarrow> None) ms"

definition ctl :: "'p ServerMessage list \<Rightarrow> 'p ServerMessage list" where
  "ctl ms = filter (\<lambda>m. case m of EventMessage env \<Rightarrow> False | _ \<Rightarrow> True) ms"

lemma evs_simps [simp]: "evs [] = []" "evs (EventMessage e # ms) = e # evs ms" "evs (ms @ ns) = evs ms @ evs ns"
  "evs (HelloAckMessage a # ms) = evs ms" "evs (HelloErrorMessage h # ms) = evs ms" "evs (ResponseMessage r # ms) = evs ms"
  by (simp_all add: evs_def map_filter_def)

lemma ctl_simps [simp]: "ctl [] = []" "ctl (EventMessage e # ms) = ctl ms" "ctl (ms @ ns) = ctl ms @ ctl ns"
  "ctl (HelloAckMessage a # ms) = HelloAckMessage a # ctl ms" "ctl (HelloErrorMessage h # ms) = HelloErrorMessage h # ctl ms"
  "ctl (ResponseMessage r # ms) = ResponseMessage r # ctl ms"
  by (simp_all add: ctl_def)

primrec in_fwd :: "'p forwarder \<Rightarrow> EventEnvelope list" where
  "in_fwd FwdGate = []"
| "in_fwd (FwdWait v) = []"
| "in_fwd (FwdSend v m) = evs [m]"
| "in_fwd (FwdCheck v) = []"
| "in_fwd (FwdMark v) = [resync_marker]"

definition stream :: "'p world \<Rightarrow> EventEnvelope list" where
  "stream w = ic_pending_events (pw_ipc (w_client w)) @ evs (w_wire w) @ evs (w_channel w) @ in_fwd (w_fwd w) @
     evs (se_queue (w_entry w))"

definition is_marker :: "EventEnvelope \<Rightarrow> bool" where
  "is_marker e \<longleftrightarrow> env_seq e = EVENT_SEQ_RESYNC_NOW"

definition seqs :: "EventEnvelope list \<Rightarrow> nat list" where
  "seqs es = map env_seq (filter (\<lambda>e. \<not> is_marker e) es)"

lemma seqs_simps [simp]: "seqs [] = []" "seqs (es @ fs) = seqs es @ seqs fs"
  "seqs (e # es) = (if is_marker e then seqs es else env_seq e # seqs es)"
  by (simp_all add: seqs_def)

lemma is_marker_resync [simp]: "is_marker resync_marker"
  by (simp add: is_marker_def resync_marker_def)

section \<open>The invariant\<close>

definition core_ok :: "'p world \<Rightarrow> bool" where
  "core_ok w \<longleftrightarrow> dc_seq (w_core w) = length (w_log w) \<and> length (w_log w) < EVENT_SEQ_RESYNC_NOW \<and>
     dc_vpn_state (w_core w) = state_after (w_log w) \<and> w_base w \<le> length (w_log w)"

text \<open>A true event: its content is the log's, and it was emitted after the subscription.\<close>

definition true_event :: "'p world \<Rightarrow> EventEnvelope \<Rightarrow> bool" where
  "true_event w e \<longleftrightarrow> w_base w < env_seq e \<and> env_seq e \<le> length (w_log w) \<and> env_event e = w_log w ! (env_seq e - 1)"

definition stream_ok :: "'p world \<Rightarrow> bool" where
  "stream_ok w \<longleftrightarrow> (\<forall>e\<in>set (stream w). is_marker e \<or> true_event w e) \<and> sorted_wrt (<) (seqs (stream w))"

text \<open>The daemon's threads: only events are queued, and the negotiated version reaches every event.\<close>

definition fwd_version :: "'p forwarder \<Rightarrow> u32 option" where
  "fwd_version f = (case f of FwdGate \<Rightarrow> None | FwdWait v \<Rightarrow> Some v | FwdSend v m \<Rightarrow> Some v | FwdCheck v \<Rightarrow> Some v | FwdMark v \<Rightarrow> Some v)"

definition daemon_ok :: "'p world \<Rightarrow> bool" where
  "daemon_ok w \<longleftrightarrow> ctl (se_queue (w_entry w)) = [] \<and> se_alive (w_entry w) \<and>
     (\<forall>v. fwd_version (w_fwd w) = Some v \<longrightarrow> v = 1) \<and> (\<forall>v m. w_fwd w = FwdSend v m \<longrightarrow> ctl [m] = [])"

text \<open>The snapshot a resynchronising client waits for.\<close>

definition snapshot_ok :: "'p world \<Rightarrow> DaemonState \<Rightarrow> bool" where
  "snapshot_ok w st \<longleftrightarrow> (\<exists>q. ds_latest_event_seq st = Some q \<and> q \<le> length (w_log w) \<and>
     ds_vpn_state st = state_after (take q (w_log w)))"

definition replies :: "'p world \<Rightarrow> 'p ServerMessage list" where
  "replies w = ctl (w_wire w @ w_channel w) @ (case w_reply w of None \<Rightarrow> [] | Some m \<Rightarrow> [m])"

definition handshake_ok :: "'p world \<Rightarrow> bool" where
  "handshake_ok w \<longleftrightarrow>
     (\<exists>info. w_requests w = [Hello PROTOCOL_VERSION info] \<and> w_wire w = [] \<and> w_channel w = [] \<and> w_reply w = None \<and>
        w_fwd w = FwdGate \<and> w_info w = None) \<or>
     w_requests w = [] \<and> w_info w \<noteq> None \<and>
       (\<exists>ack. ack_protocol_version ack = 1 \<and>
         (w_wire w = [] \<and> w_channel w = [] \<and> w_reply w = Some (HelloAckMessage ack) \<and> w_fwd w = FwdGate \<or>
          (\<exists>ms. w_wire w @ w_channel w = HelloAckMessage ack # ms \<and> ctl ms = []) \<and> w_reply w = None \<and> w_fwd w \<noteq> FwdGate))"

definition awaiting_ok :: "u64 \<Rightarrow> purpose \<Rightarrow> 'p world \<Rightarrow> bool" where
  "awaiting_ok i why w \<longleftrightarrow> w_info w \<noteq> None \<and> w_fwd w \<noteq> FwdGate \<and>
     ((\<exists>req. w_requests w = [ClientRequest i req] \<and> replies w = [] \<and> (why \<noteq> ForCaller \<longrightarrow> req = GetState)) \<or>
      w_requests w = [] \<and> (\<exists>r. replies w = [ResponseMessage r] \<and> response_id r = i \<and>
        (why \<noteq> ForCaller \<longrightarrow> (\<exists>st. r = ResponseOk i (State st) \<and> snapshot_ok w st))))"

definition control_ok :: "'p world \<Rightarrow> bool" where
  "control_ok w \<longleftrightarrow>
     (case w_pc w of
        Handshaking \<Rightarrow> handshake_ok w
      | Idle \<Rightarrow> w_info w \<noteq> None \<and> w_fwd w \<noteq> FwdGate \<and> w_requests w = [] \<and> replies w = []
      | Awaiting i why \<Rightarrow> awaiting_ok i why w
      | Stopped \<Rightarrow> ic_poisoned (pw_ipc (w_client w)) \<and> w_info w \<noteq> None \<and> w_fwd w \<noteq> FwdGate \<and>
          (\<forall>m\<in>set (w_requests w). \<exists>i req. m = ClientRequest i req) \<and> (\<forall>m\<in>set (replies w). \<exists>r. m = ResponseMessage r))"

text \<open>The cursor, what the client was given, and the state it believes in.\<close>

definition cursor_of :: "ClientEvent \<Rightarrow> nat" where
  "cursor_of e = (case e of Event env \<Rightarrow> env_seq env | Resynchronized st n \<Rightarrow> n)"

definition out_ok :: "'p world \<Rightarrow> ClientEvent \<Rightarrow> bool" where
  "out_ok w e \<longleftrightarrow>
     (case e of Event env \<Rightarrow> true_event w env
      | Resynchronized st n \<Rightarrow> n \<le> length (w_log w) \<and> ds_vpn_state st = state_after (take n (w_log w)))"

fun contiguous :: "ClientEvent list \<Rightarrow> bool" where
  "contiguous (a # Event env # es) \<longleftrightarrow> env_seq env = cursor_of a + 1 \<and> contiguous (Event env # es)"
| "contiguous (a # Resynchronized st n # es) \<longleftrightarrow> cursor_of a \<le> n \<and> contiguous (Resynchronized st n # es)"
| "contiguous _ \<longleftrightarrow> True"

definition client_ok :: "'p world \<Rightarrow> bool" where
  "client_ok w \<longleftrightarrow>
     pw_last_seq (w_client w) = (if w_out w = [] then None else Some (cursor_of (last (w_out w)))) \<and>
     list_all (out_ok w) (w_out w) \<and> contiguous (w_out w) \<and>
     (\<forall>v. w_view w = Some v \<longrightarrow> (\<exists>c. pw_last_seq (w_client w) = Some c \<and> v = state_after (take c (w_log w))))"

text \<open>How far the client's knowledge reaches, counting a snapshot on its way to it.\<close>

definition resyncing :: "'p world \<Rightarrow> bool" where
  "resyncing w \<longleftrightarrow> (\<exists>i gap. w_pc w = Awaiting i (ForResync gap))"

fun snapshot_in :: "'p ServerMessage list \<Rightarrow> u64 option" where
  "snapshot_in [ResponseMessage (ResponseOk i (State st))] = ds_latest_event_seq st"
| "snapshot_in _ = None"

fun or_default :: "'a option \<Rightarrow> 'a \<Rightarrow> 'a" where
  "or_default (Some x) d = x"
| "or_default None d = d"

definition known :: "'p world \<Rightarrow> nat" where
  "known w =
     (if resyncing w then or_default (snapshot_in (replies w)) (length (w_log w))
      else or_default (pw_last_seq (w_client w)) (w_base w))"

definition announced :: "'p world \<Rightarrow> bool" where
  "announced w \<longleftrightarrow> (\<exists>e\<in>set (stream w). is_marker e \<or> env_seq e = length (w_log w)) \<or>
     se_overflowed (w_entry w) \<or> w_publishing w \<or> w_evicted w"

text \<open>While it resynchronises, the client's old cursor and the gap that started it lie below the snapshot.\<close>

definition resync_ok :: "'p world \<Rightarrow> bool" where
  "resync_ok w \<longleftrightarrow> (\<forall>i gap. w_pc w = Awaiting i (ForResync gap) \<longrightarrow>
     (\<forall>g. gap = Some g \<longrightarrow> g \<le> known w) \<and> (\<forall>c. pw_last_seq (w_client w) = Some c \<longrightarrow> c \<le> known w))"

definition world_ok :: "'p world \<Rightarrow> bool" where
  "world_ok w \<longleftrightarrow> core_ok w \<and> stream_ok w \<and> daemon_ok w \<and> control_ok w \<and> client_ok w \<and> resync_ok w \<and>
     (w_pc w = Stopped \<or> known w = length (w_log w) \<or> announced w)"

lemmas world_defs = core_ok_def stream_ok_def daemon_ok_def control_ok_def client_ok_def resync_ok_def

section \<open>Preservation\<close>

lemma emits_result:
  assumes "emits core env core'" and "dc_seq core + 2 < 2 ^ 64"
  shows "env_seq env = dc_seq core + 1 \<and> dc_seq core' = dc_seq core + 1 \<and>
    dc_vpn_state core' = event_state (dc_vpn_state core) (env_event env)"
  using assms
  by (auto simp: emits_def set_vpn_state_def core_notice_def emit_locked_def event_state_def Let_def split: if_splits)

lemma state_after_snoc [simp]: "state_after (log @ [ev]) = event_state (state_after log) ev"
  by (simp add: state_after_def)

text \<open>A longer log changes nothing that was said about it.\<close>

lemma true_event_mono: "true_event w e \<Longrightarrow> w_base w' = w_base w \<Longrightarrow> w_log w' = w_log w @ xs \<Longrightarrow> true_event w' e"
  by (auto simp: true_event_def nth_append)

lemma out_ok_mono: "out_ok w e \<Longrightarrow> w_base w' = w_base w \<Longrightarrow> w_log w' = w_log w @ xs \<Longrightarrow> out_ok w' e"
  using true_event_mono [of w _ w' xs] by (cases e) (auto simp: out_ok_def)

lemma snapshot_ok_mono: "snapshot_ok w st \<Longrightarrow> w_log w' = w_log w @ xs \<Longrightarrow> snapshot_ok w' st"
  by (auto simp: snapshot_ok_def)

lemma out_ok_cursor: "out_ok w e \<Longrightarrow> cursor_of e \<le> length (w_log w)"
  by (cases e) (auto simp: out_ok_def cursor_of_def true_event_def)

lemma last_seq_le:
  assumes "client_ok w" and "pw_last_seq (w_client w) = Some c"
  shows "c \<le> length (w_log w)"
proof -
  have "w_out w \<noteq> []" "c = cursor_of (last (w_out w))" using assms by (auto simp: client_ok_def split: if_splits)
  with assms(1) out_ok_cursor [of w "last (w_out w)"] show ?thesis by (simp add: client_ok_def list_all_iff)
qed

lemma client_ok_mono:
  assumes "client_ok w" and "w_client w' = w_client w" and "w_out w' = w_out w" and "w_view w' = w_view w"
    and "w_base w' = w_base w" and "w_log w' = w_log w @ xs"
  shows "client_ok w'"
proof -
  have "list_all (out_ok w') (w_out w')"
    using assms out_ok_mono [of w _ w' xs] by (auto simp: client_ok_def list_all_iff)
  moreover have "\<exists>c. pw_last_seq (w_client w') = Some c \<and> v = state_after (take c (w_log w'))" if "w_view w' = Some v" for v
    using that assms last_seq_le [OF assms(1)] by (auto simp: client_ok_def)
  ultimately show ?thesis using assms by (auto simp: client_ok_def)
qed

lemma out_ok_same: "w_log w' = w_log w \<Longrightarrow> w_base w' = w_base w \<Longrightarrow> out_ok w' = out_ok w"
  by (rule ext) (simp add: out_ok_def true_event_def split: ClientEvent.split)

lemma client_ok_same:
  assumes "client_ok w" and "pw_last_seq (w_client w') = pw_last_seq (w_client w)" and "w_out w' = w_out w" and "w_view w' = w_view w"
    and "w_base w' = w_base w" and "w_log w' = w_log w"
  shows "client_ok w'"
  unfolding client_ok_def assms(2-6) out_ok_same [OF assms(6,5)]
  using assms(1) [unfolded client_ok_def] .

text \<open>A step of the daemon's threads that moves messages along: the client's side is untouched.\<close>

lemma daemon_step_ok:
  assumes "world_ok w" and same: "w_core w' = w_core w" "w_log w' = w_log w" "w_base w' = w_base w" "w_client w' = w_client w"
      "w_out w' = w_out w" "w_view w' = w_view w" "w_pc w' = w_pc w" "w_evicted w' = w_evicted w"
    and "stream_ok w'" and "daemon_ok w'" and "control_ok w'" and "replies w' = replies w"
    and "announced w \<Longrightarrow> announced w'"
  shows "world_ok w'"
proof -
  have "known w' = known w" using assms by (simp add: known_def resyncing_def)
  with assms client_ok_mono [of w w' "[]"] show ?thesis
    by (auto simp: world_ok_def core_ok_def resync_ok_def)
qed

lemma emit_ok:
  assumes ok: "world_ok w" and free: "\<not> w_publishing w" and em: "emits (w_core w) env core'" and "dc_seq (w_core w) + 2 < 2 ^ 64"
  shows "world_ok (do_emit env core' w)"
proof -
  let ?w = "do_emit env core' w"
  note e = emits_result [OF em assms(4)]
  have c: "core_ok w" "stream_ok w" "daemon_ok w" "control_ok w" "client_ok w" "resync_ok w" using ok by (simp_all add: world_ok_def)
  have log: "w_log ?w = w_log w @ [env_event env]" "w_base ?w = w_base w"
    by (simp_all add: do_emit_def split: prod.split)
  have n: "env_seq env = length (w_log w) + 1" using e c(1) by (simp add: core_ok_def)
  have alive: "se_alive (w_entry w)" using c(3) by (simp add: daemon_ok_def)
  have same: "w_client ?w = w_client w" "w_out ?w = w_out w" "w_view ?w = w_view w" "w_pc ?w = w_pc w" "w_fwd ?w = w_fwd w"
    "w_channel ?w = w_channel w" "w_wire ?w = w_wire w" "w_requests ?w = w_requests w" "w_reply ?w = w_reply w"
    "w_info ?w = w_info w" "w_evicted ?w = w_evicted w" "w_core ?w = core'"
    by (simp_all add: do_emit_def split: prod.split)
  have "core_ok ?w" using e c(1) assms(4) log same by (simp add: core_ok_def EVENT_SEQ_RESYNC_NOW_def)
  moreover have "stream_ok ?w \<and> daemon_ok ?w \<and> announced ?w"
  proof (cases "SESSION_QUEUE_LEN \<le> length (se_queue (w_entry w))")
    case True
    then have "w_entry ?w = w_entry w" "w_publishing ?w" using alive by (simp_all add: do_emit_def try_send_def)
    with c same log true_event_mono [of w _ ?w "[env_event env]"] show ?thesis
      by (auto simp: stream_ok_def daemon_ok_def announced_def stream_def)
  next
    case False
    then have q: "w_entry ?w = (w_entry w)\<lparr>se_queue := se_queue (w_entry w) @ [EventMessage env]\<rparr>"
      using alive by (simp add: do_emit_def try_send_def)
    then have st: "stream ?w = stream w @ [env]" by (simp add: stream_def same)
    have real: "\<not> is_marker env" using n c(1) assms(4) by (simp add: is_marker_def core_ok_def EVENT_SEQ_RESYNC_NOW_def)
    have "\<forall>e\<in>set (stream w). \<not> is_marker e \<longrightarrow> env_seq e < env_seq env"
      using c(2) n by (auto simp: stream_ok_def true_event_def)
    then have "sorted_wrt (<) (seqs (stream ?w))"
      using c(2) real by (auto simp: st stream_ok_def sorted_wrt_append seqs_def)
    moreover have "true_event ?w env" using n c(1) log by (simp add: true_event_def core_ok_def)
    ultimately have "stream_ok ?w"
      using c(2) log true_event_mono [of w _ ?w "[env_event env]"] by (auto simp: stream_ok_def st)
    moreover have "announced ?w" using n log by (simp add: announced_def st)
    ultimately show ?thesis using c(3) q same by (simp add: daemon_ok_def)
  qed
  moreover have r: "replies ?w = replies w" by (simp add: replies_def same)
  have "control_ok ?w"
    using c(4) same r snapshot_ok_mono [of w _ ?w "[env_event env]"] log
    by (auto simp: control_ok_def handshake_ok_def awaiting_ok_def split: client_pc.splits)
  moreover have "client_ok ?w" using client_ok_mono [OF c(5) same(1-3) log(2,1)] .
  moreover have "known w \<le> known ?w" if "resyncing w"
    using that same log r by (cases "snapshot_in (replies w)") (simp_all add: known_def resyncing_def)
  then have "resync_ok ?w" using c(6) same by (fastforce simp: resync_ok_def resyncing_def)
  ultimately show ?thesis by (simp add: world_ok_def)
qed

lemma ctl_events [simp]: "ctl (map EventMessage es) = []"
  by (simp add: ctl_def)

lemma stream_ok_same:
  "stream_ok w \<Longrightarrow> stream w' = stream w \<Longrightarrow> w_base w' = w_base w \<Longrightarrow> w_log w' = w_log w \<Longrightarrow> stream_ok w'"
  by (simp add: stream_ok_def true_event_def)

lemma control_ok_moved:
  assumes "control_ok w" and same: "w_pc w' = w_pc w" "w_requests w' = w_requests w" "w_info w' = w_info w"
      "w_reply w' = w_reply w" "w_log w' = w_log w" "w_client w' = w_client w"
    and gate: "w_fwd w' = FwdGate \<longleftrightarrow> w_fwd w = FwdGate"
    and moved: "w_wire w' @ w_channel w' = w_wire w @ w_channel w @ map EventMessage es"
    and still: "w_fwd w = FwdGate \<Longrightarrow> w_wire w = [] \<Longrightarrow> w_channel w = [] \<Longrightarrow> w_wire w' = [] \<and> w_channel w' = []"
  shows "control_ok w' \<and> replies w' = replies w"
proof -
  have "ctl (w_wire w' @ w_channel w') = ctl (w_wire w @ w_channel w)" by (simp only: moved ctl_simps ctl_events append_Nil2 append_assoc)
  then have r: "replies w' = replies w" by (simp only: replies_def same)
  have snap: "snapshot_ok w' = snapshot_ok w" by (simp add: fun_eq_iff snapshot_ok_def same)
  show ?thesis
  proof (cases "w_pc w")
    case Handshaking
    then have "handshake_ok w" using assms(1) by (simp add: control_ok_def)
    then consider (early) "w_wire w = []" "w_channel w = []" "w_fwd w = FwdGate"
      | (late) ack ms where "w_requests w = []" "w_info w \<noteq> None" "ack_protocol_version ack = 1"
        "w_wire w @ w_channel w = HelloAckMessage ack # ms" "ctl ms = []" "w_reply w = None" "w_fwd w \<noteq> FwdGate"
      unfolding handshake_ok_def by blast
    then have "handshake_ok w'"
    proof cases
      case early
      with still have "w_wire w' = []" "w_channel w' = []" by simp_all
      with \<open>handshake_ok w\<close> early same gate show ?thesis by (auto simp: handshake_ok_def)
    next
      case late
      then have "w_wire w' @ w_channel w' = HelloAckMessage ack # (ms @ map EventMessage es)" "ctl (ms @ map EventMessage es) = []"
        using moved by simp_all
      moreover have "w_requests w' = []" "w_info w' \<noteq> None" "w_reply w' = None" "w_fwd w' \<noteq> FwdGate"
        using late same gate by simp_all
      ultimately show ?thesis using late(3) unfolding handshake_ok_def by blast
    qed
    with r Handshaking same show ?thesis by (simp add: control_ok_def)
  qed (use assms(1) same gate r snap in \<open>auto simp: control_ok_def awaiting_ok_def\<close>)
qed

lemma mark_ok:
  assumes "world_ok w"
  shows "world_ok (do_mark w)"
proof -
  have c: "stream_ok w" "daemon_ok w" "control_ok w" using assms by (simp_all add: world_ok_def)
  have "stream (do_mark w) = stream w" by (simp add: do_mark_def stream_def)
  moreover have "control_ok (do_mark w) \<and> replies (do_mark w) = replies w"
    using control_ok_moved [OF c(3), of "do_mark w" "[]"] by (simp add: do_mark_def)
  ultimately show ?thesis
    using c by (intro daemon_step_ok [OF assms] stream_ok_same [OF c(1)])
      (simp_all add: do_mark_def daemon_ok_def announced_def)
qed

lemma evs_single: "ctl [m] = [] \<Longrightarrow> \<exists>e. m = EventMessage e"
  by (cases m) simp_all

lemma deliverable_1: "deliverable 1 (EventMessage e)"
  by (cases "env_event e") (simp_all add: deliverable_def m2_events_reach_def M2_EVENTS_INTRODUCED_IN_def)

lemma take_ok:
  assumes "world_ok w" and f: "w_fwd w = FwdWait v" and q: "se_queue (w_entry w) = m # rest"
  shows "world_ok (do_take v m rest w)"
proof -
  let ?w = "do_take v m rest w"
  have c: "stream_ok w" "daemon_ok w" "control_ok w" using assms by (simp_all add: world_ok_def)
  have v: "v = 1" and ctl: "ctl [m] = []" "ctl rest = []" using c(2) f q ctl_simps(3) [of "[m]" rest]
    by (auto simp: daemon_ok_def fwd_version_def simp del: ctl_simps(3))
  then obtain e where e: "m = EventMessage e" using evs_single by blast
  have fw: "w_fwd ?w = FwdSend 1 m" "w_entry ?w = (w_entry w)\<lparr>se_queue := rest\<rparr>"
    using deliverable_1 by (simp_all add: do_take_def forward_take_def v e)
  then have st: "stream ?w = stream w" using q f by (simp add: stream_def e do_take_def)
  moreover have "control_ok ?w \<and> replies ?w = replies w"
    using control_ok_moved [OF c(3), of ?w "[]"] fw f by (simp add: do_take_def)
  moreover have "daemon_ok ?w" using c(2) fw ctl by (auto simp: daemon_ok_def fwd_version_def)
  ultimately show ?thesis
    using c by (intro daemon_step_ok [OF assms(1)] stream_ok_same [OF c(1)])
      (simp_all add: announced_def, simp_all add: do_take_def)
qed

lemma send_ok:
  assumes "world_ok w" and f: "w_fwd w = FwdSend v m"
  shows "world_ok ((send_through m w)\<lparr>w_fwd := FwdCheck v\<rparr>)"
proof -
  let ?w = "(send_through m w)\<lparr>w_fwd := FwdCheck v\<rparr>"
  have c: "stream_ok w" "daemon_ok w" "control_ok w" using assms by (simp_all add: world_ok_def)
  have "ctl [m] = []" using c(2) f by (simp add: daemon_ok_def)
  then obtain e where e: "m = EventMessage e" using evs_single by blast
  have st: "stream ?w = stream w" using f by (simp add: stream_def send_through_def e)
  moreover have "control_ok ?w \<and> replies ?w = replies w"
    using control_ok_moved [OF c(3), of ?w "[e]"] f e by (simp add: send_through_def)
  moreover have "daemon_ok ?w" using c(2) f by (auto simp: daemon_ok_def fwd_version_def send_through_def)
  ultimately show ?thesis
    using c by (intro daemon_step_ok [OF assms(1)] stream_ok_same [OF c(1)])
      (simp_all add: announced_def, simp_all add: send_through_def)
qed

lemma check_ok:
  assumes "world_ok w" and f: "w_fwd w = FwdCheck v"
  shows "world_ok (do_check v w)"
proof -
  let ?w = "do_check v w"
  have c: "stream_ok w" "daemon_ok w" "control_ok w" using assms by (simp_all add: world_ok_def)
  have v: "v = 1" using c(2) f by (simp add: daemon_ok_def fwd_version_def)
  have fw: "w_fwd ?w = (if se_overflowed (w_entry w) then FwdMark 1 else FwdWait 1)"
    "w_entry ?w = (w_entry w)\<lparr>se_overflowed := False\<rparr>"
    by (simp_all add: do_check_def forward_check_def v resync_marker_reaches_def RESYNC_MARKER_INTRODUCED_IN_def)
  have st: "stream ?w = ic_pending_events (pw_ipc (w_client w)) @ evs (w_wire w) @ evs (w_channel w) @
      (if se_overflowed (w_entry w) then [resync_marker] else []) @ evs (se_queue (w_entry w))"
    using f fw by (simp add: stream_def) (simp add: do_check_def forward_check_def)
  then have "stream_ok ?w" using c(1) f by (auto simp: stream_ok_def stream_def true_event_def do_check_def forward_check_def)
  moreover have "control_ok ?w \<and> replies ?w = replies w"
    using control_ok_moved [OF c(3), of ?w "[]"] fw f by (simp add: do_check_def forward_check_def)
  moreover have "daemon_ok ?w" using c(2) fw by (auto simp: daemon_ok_def fwd_version_def)
  moreover have "announced w \<Longrightarrow> announced ?w"
    using f fw st by (auto simp: announced_def stream_def) (simp_all add: do_check_def forward_check_def)
  ultimately show ?thesis
    using c by (intro daemon_step_ok [OF assms(1)]) (simp_all, simp_all add: do_check_def forward_check_def)
qed

lemma forward_mark_ok:
  assumes "world_ok w" and f: "w_fwd w = FwdMark v"
  shows "world_ok ((send_through (EventMessage resync_marker) w)\<lparr>w_fwd := FwdWait v\<rparr>)"
proof -
  let ?w = "(send_through (EventMessage resync_marker) w)\<lparr>w_fwd := FwdWait v\<rparr>"
  have c: "stream_ok w" "daemon_ok w" "control_ok w" using assms by (simp_all add: world_ok_def)
  have st: "stream ?w = stream w" using f by (simp add: stream_def send_through_def)
  moreover have "control_ok ?w \<and> replies ?w = replies w"
    using control_ok_moved [OF c(3), of ?w "[resync_marker]"] f by (simp add: send_through_def)
  moreover have "daemon_ok ?w" using c(2) f by (auto simp: daemon_ok_def fwd_version_def send_through_def)
  ultimately show ?thesis
    using c by (intro daemon_step_ok [OF assms(1)] stream_ok_same [OF c(1)])
      (simp_all add: announced_def, simp_all add: send_through_def)
qed

lemma evs_Cons: "evs (m # ms) = evs [m] @ evs ms"
  by (cases m) simp_all

lemma write_ok:
  assumes "world_ok w" and ch: "w_channel w = m # rest"
  shows "world_ok (do_write m rest w)"
proof -
  let ?w = "do_write m rest w"
  have c: "stream_ok w" "daemon_ok w" "control_ok w" using assms by (simp_all add: world_ok_def)
  have st: "stream ?w = stream w" using evs_Cons [of m rest] by (simp add: stream_def do_write_def ch)
  moreover have "control_ok ?w \<and> replies ?w = replies w"
    using control_ok_moved [OF c(3), of ?w "[]"] ch by (simp add: do_write_def)
  moreover have "daemon_ok ?w" using c(2) by (auto simp: daemon_ok_def do_write_def)
  ultimately show ?thesis
    using c by (intro daemon_step_ok [OF assms(1)] stream_ok_same [OF c(1)])
      (simp_all add: announced_def, simp_all add: do_write_def)
qed

text \<open>The dispatcher changes only requests and replies; what the client will know stays the same.\<close>

lemma dispatcher_step_ok:
  assumes "world_ok w" and "w_core w' = w_core w" "w_log w' = w_log w" "w_base w' = w_base w" "w_client w' = w_client w"
      "w_out w' = w_out w" "w_view w' = w_view w" "w_pc w' = w_pc w" "w_evicted w' = w_evicted w" "w_entry w' = w_entry w"
      "w_publishing w' = w_publishing w"
    and "stream w' = stream w" and "daemon_ok w'" and "control_ok w'" and "known w' = known w"
  shows "world_ok w'"
  using assms stream_ok_same [of w w'] client_ok_mono [of w w' "[]"]
  by (auto simp: world_ok_def core_ok_def resync_ok_def announced_def)

lemma serve_hello:
  "serve_message uid_text peer core None (Hello PROTOCOL_VERSION info) =
     Acked \<lparr>ack_protocol_version = 1, ack_daemon_version = dc_version core, ack_latest_event_seq = dc_seq core\<rparr> (sanitized info)"
  by (simp add: serve_message_def PROTOCOL_VERSION_def latest_event_seq_def)

lemma serve_request:
  assumes "info \<noteq> None"
  shows "\<exists>r :: 'p Response. serve_message uid_text peer core info (ClientRequest i req) = Answered r \<and> response_id r = i \<and>
    (req = GetState \<longrightarrow> r = ResponseOk i (State (core_state core)))"
proof (cases "dispatch uid_text (handle_request core) peer req :: RpcError + 'p RequestResult")
  case (Inl e)
  moreover have "req \<noteq> GetState" using Inl by (auto simp: dispatch_def authorize_def)
  ultimately show ?thesis using assms by (auto simp: serve_message_def)
next
  case (Inr x)
  moreover have "req = GetState \<Longrightarrow> x = State (core_state core)" using Inr by (simp add: dispatch_def authorize_def)
  ultimately show ?thesis using assms by (auto simp: serve_message_def)
qed

lemma serve_ok:
  fixes w :: "'p world"
  assumes "world_ok w" and idle: "w_reply w = None" and req: "w_requests w = m # rest"
  shows "world_ok (do_serve uid_text peer m rest w)"
proof -
  let ?w = "do_serve uid_text peer m rest w"
  have c: "core_ok w" "stream_ok w" "daemon_ok w" "control_ok w" using assms by (simp_all add: world_ok_def)
  have same: "w_core ?w = w_core w" "w_log ?w = w_log w" "w_base ?w = w_base w" "w_client ?w = w_client w"
    "w_out ?w = w_out w" "w_view ?w = w_view w" "w_pc ?w = w_pc w" "w_evicted ?w = w_evicted w" "w_entry ?w = w_entry w"
    "w_publishing ?w = w_publishing w" "w_fwd ?w = w_fwd w" "w_wire ?w = w_wire w" "w_channel ?w = w_channel w" "w_requests ?w = rest"
    by (simp_all add: do_serve_def split: served.split)
  have st: "stream ?w = stream w" "daemon_ok ?w" using c(3) by (simp_all add: stream_def daemon_ok_def same)
  show ?thesis
  proof (cases "w_pc w")
    case Handshaking
    then have h: "handshake_ok w" using c(4) by (simp add: control_ok_def)
    then obtain info where h1: "m = Hello PROTOCOL_VERSION info" "rest = []" "w_wire w = []" "w_channel w = []"
      "w_fwd w = FwdGate" "w_info w = None"
      using req by (auto simp: handshake_ok_def)
    have "control_ok ?w" using h1 Handshaking idle same by (auto simp: control_ok_def handshake_ok_def do_serve_def serve_hello)
    moreover have "known ?w = known w" using Handshaking same by (simp add: known_def resyncing_def)
    ultimately show ?thesis using st same by (intro dispatcher_step_ok [OF assms(1)]) simp_all
  next
    case Idle
    with c(4) req show ?thesis by (simp add: control_ok_def)
  next
    case (Awaiting i why)
    then have a: "awaiting_ok i why w" using c(4) by (simp add: control_ok_def)
    then obtain q where q: "m = ClientRequest i q" "rest = []" "replies w = []" "why \<noteq> ForCaller \<longrightarrow> q = GetState"
      "w_info w \<noteq> None" "w_fwd w \<noteq> FwdGate"
      using req by (auto simp: awaiting_ok_def)
    obtain r :: "'p Response" where r: "serve_message uid_text peer (w_core w) (w_info w) (ClientRequest i q) = Answered r" "response_id r = i"
      "q = GetState \<longrightarrow> r = ResponseOk i (State (core_state (w_core w)))"
      using serve_request [OF q(5)] by blast
    have rep: "replies ?w = [ResponseMessage r]" "w_info ?w = w_info w"
      using q(1,3) r(1) idle by (simp_all add: replies_def do_serve_def)
    have snap: "snapshot_ok w (core_state (w_core w))" "ds_latest_event_seq (core_state (w_core w)) = Some (length (w_log w))"
      using c(1) by (simp_all add: snapshot_ok_def core_ok_def core_state_def)
    have "snapshot_ok ?w (core_state (w_core w))" using snap(1) same by (simp add: snapshot_ok_def)
    then have "control_ok ?w" using Awaiting rep r q same by (auto simp: control_ok_def awaiting_ok_def)
    moreover have "known ?w = known w"
      using Awaiting same rep(1) q(3,4) r(3) snap(2) by (auto simp: known_def resyncing_def)
    ultimately show ?thesis using st same by (intro dispatcher_step_ok [OF assms(1)]) simp_all
  next
    case Stopped
    then obtain i q where q: "m = ClientRequest i q" using c(4) req by (auto simp: control_ok_def)
    obtain r :: "'p Response" where r: "serve_message uid_text peer (w_core w) (w_info w) (ClientRequest i q) = Answered r"
      using serve_request [of "w_info w" uid_text peer "w_core w" i q] c(4) Stopped by (auto simp: control_ok_def)
    have "replies ?w = replies w @ [ResponseMessage r]" "w_info ?w = w_info w"
      using q r idle by (simp_all add: replies_def do_serve_def)
    then have "control_ok ?w" using c(4) Stopped same req by (auto simp: control_ok_def)
    moreover have "known ?w = known w" using Stopped same by (simp add: known_def resyncing_def)
    ultimately show ?thesis using st same by (intro dispatcher_step_ok [OF assms(1)]) simp_all
  qed
qed

lemma reply_ok:
  assumes "world_ok w" and m: "w_reply w = Some m"
  shows "world_ok (do_reply m w)"
proof -
  let ?w = "do_reply m w"
  have c: "stream_ok w" "daemon_ok w" "control_ok w" using assms by (simp_all add: world_ok_def)
  have same: "w_core ?w = w_core w" "w_log ?w = w_log w" "w_base ?w = w_base w" "w_client ?w = w_client w"
    "w_out ?w = w_out w" "w_view ?w = w_view w" "w_pc ?w = w_pc w" "w_evicted ?w = w_evicted w" "w_entry ?w = w_entry w"
    "w_publishing ?w = w_publishing w" "w_wire ?w = w_wire w" "w_requests ?w = w_requests w" "w_info ?w = w_info w"
    "w_channel ?w = w_channel w @ [m]" "w_reply ?w = None"
    by (simp_all add: do_reply_def send_through_def split: ServerMessage.split)
  have mr: "m \<in> set (replies w)" using m by (simp add: replies_def)
  show ?thesis
  proof (cases "w_pc w")
    case Handshaking
    then have h: "handshake_ok w" using c(3) by (simp add: control_ok_def)
    then obtain ack where h1: "m = HelloAckMessage ack" "w_wire w = []" "w_channel w = []" "w_fwd w = FwdGate" "w_info w \<noteq> None"
      "w_requests w = []" "ack_protocol_version ack = 1"
      using m by (auto simp: handshake_ok_def)
    have fw: "w_fwd ?w = FwdWait 1" using h1 by (simp add: do_reply_def)
    have st: "stream ?w = stream w" using h1 same fw by (simp add: stream_def)
    moreover have "daemon_ok ?w" using c(2) same fw by (simp add: daemon_ok_def fwd_version_def)
    moreover have "control_ok ?w" using h1 Handshaking same fw by (auto simp: control_ok_def handshake_ok_def)
    moreover have "known ?w = known w" using Handshaking same by (simp add: known_def resyncing_def)
    ultimately show ?thesis using same by (intro dispatcher_step_ok [OF assms(1)]) simp_all
  next
    case Idle
    with c(3) m show ?thesis by (simp add: control_ok_def replies_def)
  next
    case (Awaiting i why)
    then have a: "awaiting_ok i why w" using c(3) by (simp add: control_ok_def)
    then obtain r where r: "m = ResponseMessage r" using mr by (auto simp: awaiting_ok_def)
    then have fw: "w_fwd ?w = w_fwd w" by (simp add: do_reply_def send_through_def)
    have st: "stream ?w = stream w" using r same fw by (simp add: stream_def)
    moreover have rep: "replies ?w = replies w" using r m same by (simp add: replies_def)
    moreover have "daemon_ok ?w" using c(2) same fw by (simp add: daemon_ok_def)
    moreover have "control_ok ?w"
      using a Awaiting same fw rep by (simp add: control_ok_def awaiting_ok_def snapshot_ok_def)
    moreover have "known ?w = known w" using same rep by (simp add: known_def resyncing_def)
    ultimately show ?thesis using same by (intro dispatcher_step_ok [OF assms(1)]) simp_all
  next
    case Stopped
    then obtain r where r: "m = ResponseMessage r" using mr c(3) by (auto simp: control_ok_def)
    then have fw: "w_fwd ?w = w_fwd w" by (simp add: do_reply_def send_through_def)
    have st: "stream ?w = stream w" using r same fw by (simp add: stream_def)
    moreover have rep: "replies ?w = replies w" using r m same by (simp add: replies_def)
    moreover have "daemon_ok ?w" using c(2) same fw by (simp add: daemon_ok_def)
    moreover have "control_ok ?w" using c(3) Stopped same fw rep by (simp add: control_ok_def)
    moreover have "known ?w = known w" using same rep by (simp add: known_def resyncing_def)
    ultimately show ?thesis using same by (intro dispatcher_step_ok [OF assms(1)]) simp_all
  qed
qed

lemma ack_ok:
  assumes "world_ok w" and pc: "w_pc w = Handshaking" and wire: "w_wire w = m # rest"
  shows "world_ok (do_ack m rest w)"
proof -
  let ?w = "do_ack m rest w"
  have c: "core_ok w" "stream_ok w" "daemon_ok w" "control_ok w" "client_ok w" using assms(1) by (simp_all add: world_ok_def)
  obtain ack ms where h: "m = HelloAckMessage ack" "rest @ w_channel w = ms" "ctl ms = []" "ack_protocol_version ack = 1"
    "w_reply w = None" "w_requests w = []" "w_info w \<noteq> None" "w_fwd w \<noteq> FwdGate"
    using c(4) pc wire by (auto simp: control_ok_def handshake_ok_def)
  have w': "?w = w\<lparr>w_wire := rest, w_pc := Idle, w_client := (w_client w)\<lparr>pw_ipc := (pw_ipc (w_client w))\<lparr>ic_ack := ack\<rparr>,
      pw_hello_seq := ack_latest_event_seq ack\<rparr>\<rparr>"
    using h by (simp add: do_ack_def handshake_accepts_def PROTOCOL_VERSION_def)
  have st: "stream ?w = stream w" unfolding w' stream_def by (simp add: wire h(1))
  have "core_ok ?w" using c(1) by (simp add: core_ok_def w')
  moreover have "stream_ok ?w" using stream_ok_same [OF c(2) st] by (simp add: w')
  moreover have "daemon_ok ?w" using c(3) by (simp add: daemon_ok_def w')
  moreover have "control_ok ?w" unfolding w' using h by (auto simp: control_ok_def replies_def)
  moreover have "client_ok ?w" by (rule client_ok_same [OF c(5)]) (simp_all add: w')
  moreover have "resync_ok ?w" by (simp add: resync_ok_def w')
  moreover have "known ?w = known w" using pc by (simp add: known_def resyncing_def w')
  moreover have "announced ?w = announced w" unfolding announced_def st by (simp add: w')
  ultimately show ?thesis using assms(1) pc by (simp add: world_ok_def) (simp add: w')
qed

lemma contiguous_snoc:
  assumes "contiguous es"
  shows "contiguous (es @ [e]) \<longleftrightarrow> es = [] \<or>
    (case e of Event env \<Rightarrow> env_seq env = cursor_of (last es) + 1 | Resynchronized st n \<Rightarrow> cursor_of (last es) \<le> n)"
  using assms
  by (induction es rule: contiguous.induct) (cases e; auto)+

lemma state_after_take:
  assumes "0 < n" and "n \<le> length log"
  shows "state_after (take n log) = event_state (state_after (take (n - 1) log)) (log ! (n - 1))"
proof -
  have "take n log = take (n - 1) log @ [log ! (n - 1)]"
    using assms take_Suc_conv_app_nth [of "n - 1" log] by simp
  then show ?thesis by simp
qed

text \<open>The client takes the first envelope of the stream.\<close>

lemma envelope_ok:
  assumes ok: "world_ok w" and pc: "w_pc w = Idle" and st: "stream w = env # stream w1"
    and same: "w_core w1 = w_core w" "w_log w1 = w_log w" "w_base w1 = w_base w" "w_out w1 = w_out w" "w_view w1 = w_view w"
      "w_pc w1 = w_pc w" "w_evicted w1 = w_evicted w" "w_entry w1 = w_entry w" "w_publishing w1 = w_publishing w"
      "w_fwd w1 = w_fwd w" "w_requests w1 = w_requests w" "w_info w1 = w_info w" "replies w1 = replies w"
      "pw_last_seq (w_client w1) = pw_last_seq (w_client w)"
  shows "world_ok (do_envelope env w1)"
proof -
  let ?w = "do_envelope env w1" and ?D = "length (w_log w)"
  have c: "core_ok w" "stream_ok w" "daemon_ok w" "control_ok w" "client_ok w" using ok by (simp_all add: world_ok_def)
  have n: "known w = ?D \<or> announced w" using ok pc by (simp add: world_ok_def)
  have s1: "stream_ok w1" using c(2) st same by (auto simp: stream_ok_def true_event_def split: if_splits)
  have k: "known w = or_default (pw_last_seq (w_client w)) (w_base w)" using pc by (simp add: known_def resyncing_def)
  have e: "is_marker env \<or> true_event w env" using c(2) st by (simp add: stream_ok_def)
  have left: "announced w1 \<or> is_marker env \<or> env_seq env = ?D" if "announced w"
    using that st same by (auto simp: announced_def)
  show ?thesis
  proof (cases "classify (w_client w1) env")
    case Deliver
    have real: "\<not> is_marker env" and
      next_seq: "\<And>l. pw_last_seq (w_client w) = Some l \<Longrightarrow> env_seq env = l + 1"
      using Deliver same by (auto simp: classify_def is_marker_def checked_succ_def split: if_splits option.splits)
    then have t: "true_event w env" using e by simp
    have w': "?w = w1\<lparr>w_client := deliver env (w_client w1), w_out := w_out w1 @ [Event env],
        w_view := view_event (env_event env) (w_view w1)\<rparr>" using Deliver by (simp add: do_envelope_def)
    have S: "stream ?w = stream w1" by (simp add: w' stream_def deliver_def)
    have "known w \<noteq> ?D" using t next_seq k by (cases "pw_last_seq (w_client w)") (auto simp: true_event_def)
    then have "announced w1 \<or> env_seq env = ?D" using n left real by auto
    moreover have "known ?w = env_seq env" using pc same by (simp add: known_def resyncing_def w' deliver_def)
    moreover have "announced ?w = announced w1" unfolding announced_def S by (simp add: w')
    ultimately have K: "known ?w = length (w_log ?w) \<or> announced ?w" using same by (auto simp: w')
    have "contiguous (w_out w @ [Event env])"
      using c(5) next_seq by (cases "w_out w = []") (simp_all add: client_ok_def contiguous_snoc)
    moreover have "\<exists>c. pw_last_seq (w_client ?w) = Some c \<and> v = state_after (take c (w_log ?w))" if v: "w_view ?w = Some v" for v
    proof -
      have "state_after (take (env_seq env) (w_log w)) = event_state (state_after (take (env_seq env - 1) (w_log w))) (env_event env)"
        using t state_after_take [of "env_seq env" "w_log w"] by (auto simp: true_event_def)
      moreover have "u = state_after (take (env_seq env - 1) (w_log w))" if u: "w_view w = Some u" for u
      proof -
        obtain l where "pw_last_seq (w_client w) = Some l" "u = state_after (take l (w_log w))"
          using c(5) u unfolding client_ok_def by blast
        with next_seq show ?thesis by force
      qed
      ultimately have "v = state_after (take (env_seq env) (w_log w))"
        using v same by (auto simp: w' view_event_def event_state_def split: Event.splits)
      then show ?thesis using same by (simp add: w' deliver_def)
    qed
    moreover have "list_all (out_ok ?w) (w_out ?w)"
    proof -
      have "out_ok ?w = out_ok w" by (rule out_ok_same) (simp_all add: w' same)
      with c(5) t show ?thesis by (simp add: client_ok_def w' same) (simp add: out_ok_def)
    qed
    ultimately have "client_ok ?w" by (simp add: client_ok_def w' same deliver_def cursor_of_def)
    moreover have "control_ok ?w" using c(4) pc same by (auto simp: control_ok_def w' replies_def)
    moreover have "core_ok ?w" "daemon_ok ?w" "resync_ok ?w"
      using c(1,3) same pc by (simp_all add: core_ok_def daemon_ok_def resync_ok_def w')
    moreover have "stream_ok ?w" using stream_ok_same [OF s1 S] by (simp add: w')
    ultimately show ?thesis using K by (simp add: world_ok_def)
  next
    case SkipStale
    obtain l where l: "pw_last_seq (w_client w) = Some l" "env_seq env \<le> l" and real: "\<not> is_marker env"
      using SkipStale same by (auto simp: classify_def is_marker_def checked_succ_def split: if_splits option.splits)
    have w': "?w = w1" using SkipStale by (simp add: do_envelope_def)
    have "l \<le> ?D" using last_seq_le [OF c(5) l(1)] .
    then have K: "known w1 = ?D \<or> announced w1"
      using n left real l same pc by (auto simp: known_def resyncing_def)
    have "client_ok w1" by (rule client_ok_same [OF c(5)]) (simp_all add: same)
    moreover have "control_ok w1" using c(4) pc same by (auto simp: control_ok_def)
    moreover have "core_ok w1" "daemon_ok w1" "resync_ok w1"
      using c(1,3) same pc by (simp_all add: core_ok_def daemon_ok_def resync_ok_def)
    ultimately show ?thesis using K s1 same by (simp add: world_ok_def w')
  next
    case (Resync gap)
    have g: "\<And>g. gap = Some g \<Longrightarrow> g = env_seq env \<and> \<not> is_marker env"
      using Resync by (auto simp: classify_def is_marker_def split: if_splits option.splits)
    have w': "?w = send_request GetState (ForResync gap) w1" using Resync by (simp add: do_envelope_def)
    have S: "stream ?w = stream w1" by (simp add: w' stream_def send_request_def Let_def)
    have R: "replies ?w = []" "w_requests ?w = [ClientRequest (ic_next_id (pw_ipc (w_client w1))) GetState]"
      "w_pc ?w = Awaiting (ic_next_id (pw_ipc (w_client w1))) (ForResync gap)"
      using c(4) pc same by (simp_all add: control_ok_def w' send_request_def Let_def replies_def)
    have K: "known ?w = ?D" using R same by (simp add: known_def resyncing_def) (simp add: w' send_request_def Let_def same)
    have "control_ok ?w" using c(4) pc same R by (auto simp: control_ok_def awaiting_ok_def) (simp_all add: w' send_request_def Let_def same)
    moreover have "client_ok ?w" by (rule client_ok_same [OF c(5)]) (simp_all add: w' send_request_def Let_def same)
    moreover have "core_ok ?w" "daemon_ok ?w" using c(1,3) same by (simp_all add: core_ok_def daemon_ok_def w' send_request_def Let_def)
    moreover have "resync_ok ?w"
      using g e K last_seq_le [OF c(5)] same
      by (auto simp: resync_ok_def true_event_def w' send_request_def Let_def)
    moreover have "stream_ok ?w" using stream_ok_same [OF s1 S] by (simp add: w' send_request_def Let_def)
    ultimately show ?thesis using K same by (simp add: world_ok_def) (simp add: w' send_request_def Let_def)
  qed
qed

lemma pending_ok:
  assumes "world_ok w" and "w_pc w = Idle" and "pop_pending (pw_ipc (w_client w)) = Some (env, ipc)"
  shows "world_ok (do_envelope env (set_ipc ipc w))"
  using assms(3)
  by (intro envelope_ok [OF assms(1,2)])
    (auto simp: set_ipc_def stream_def pop_pending_def surface_pending_drops_def replies_def split: list.splits)

lemma event_ok:
  assumes "world_ok w" and "w_pc w = Idle" and "pop_pending (pw_ipc (w_client w)) = None" and "w_wire w = EventMessage env # rest"
  shows "world_ok (do_envelope env (set_ipc (surface_pending_drops (pw_ipc (w_client w))) (w\<lparr>w_wire := rest\<rparr>)))"
  using assms(3,4)
  by (intro envelope_ok [OF assms(1,2)])
    (auto simp: set_ipc_def stream_def pop_pending_def surface_pending_drops_def replies_def split: list.splits)

lemma request_ok:
  assumes ok: "world_ok w" and pc: "w_pc w = Idle"
  shows "world_ok (send_request req ForCaller w)"
proof -
  let ?w = "send_request req ForCaller w"
  have c: "core_ok w" "stream_ok w" "daemon_ok w" "control_ok w" "client_ok w" using ok by (simp_all add: world_ok_def)
  have S: "stream ?w = stream w" by (simp add: stream_def send_request_def Let_def)
  have "control_ok ?w" using c(4) pc by (simp add: control_ok_def awaiting_ok_def replies_def send_request_def Let_def)
  moreover have "client_ok ?w" by (rule client_ok_same [OF c(5)]) (simp_all add: send_request_def Let_def)
  moreover have "core_ok ?w" "daemon_ok ?w" "resync_ok ?w"
    using c(1,3) by (simp_all add: core_ok_def daemon_ok_def resync_ok_def send_request_def Let_def)
  moreover have "stream_ok ?w" using stream_ok_same [OF c(2) S] by (simp add: send_request_def Let_def)
  moreover have "known ?w = known w" using pc by (simp add: known_def resyncing_def send_request_def Let_def)
  moreover have "announced ?w = announced w" unfolding announced_def S by (simp add: send_request_def Let_def)
  moreover have "w_log ?w = w_log w" by (simp add: send_request_def Let_def)
  ultimately show ?thesis using ok pc by (simp add: world_ok_def)
qed

lemma timeout_ok:
  assumes ok: "world_ok w" and pc: "w_pc w = Awaiting i why"
  shows "world_ok ((set_ipc ((pw_ipc (w_client w))\<lparr>ic_poisoned := True\<rparr>) w)\<lparr>w_pc := Stopped\<rparr>)" (is "world_ok ?w")
proof -
  have c: "core_ok w" "stream_ok w" "daemon_ok w" "control_ok w" "client_ok w" using ok by (simp_all add: world_ok_def)
  have S: "stream ?w = stream w" by (simp add: stream_def set_ipc_def)
  have "replies ?w = replies w" by (simp add: replies_def set_ipc_def)
  then have "control_ok ?w" using c(4) pc by (auto simp: control_ok_def awaiting_ok_def) (auto simp: set_ipc_def)
  moreover have "client_ok ?w" by (rule client_ok_same [OF c(5)]) (simp_all add: set_ipc_def)
  moreover have "core_ok ?w" "daemon_ok ?w" "resync_ok ?w"
    using c(1,3) by (simp_all add: core_ok_def daemon_ok_def resync_ok_def set_ipc_def)
  moreover have "stream_ok ?w" using stream_ok_same [OF c(2) S] by (simp add: set_ipc_def)
  ultimately show ?thesis by (simp add: world_ok_def)
qed

text \<open>An event that arrives during a request is buffered; a full buffer loses its oldest entry.\<close>

lemma receive_event_ok:
  fixes w :: "'p world"
  assumes ok: "world_ok w" and pc: "w_pc w = Awaiting i why" and wire: "w_wire w = EventMessage env # rest"
  shows "world_ok (do_receive i why (EventMessage env) rest w)"
proof -
  let ?w = "do_receive i why (EventMessage env) rest w"
  let ?ps = "ic_pending_events (pw_ipc (w_client w))"
  have c: "core_ok w" "stream_ok w" "daemon_ok w" "control_ok w" "client_ok w" "resync_ok w" using ok by (simp_all add: world_ok_def)
  have w': "?w = (set_ipc (buffer_event env (pw_ipc (w_client w))) w)\<lparr>w_wire := rest,
      w_evicted := w_evicted w \<or> evicts_marker (EventMessage env :: 'p ServerMessage) (pw_ipc (w_client w))\<rparr>"
    by (simp add: do_receive_def request_receive_def)
  have R: "replies ?w = replies w" by (simp add: w' replies_def set_ipc_def wire)
  have same: "w_core ?w = w_core w" "w_log ?w = w_log w" "w_base ?w = w_base w" "w_out ?w = w_out w" "w_view ?w = w_view w"
    "w_pc ?w = w_pc w" "w_entry ?w = w_entry w" "w_publishing ?w = w_publishing w" "w_fwd ?w = w_fwd w"
    "w_requests ?w = w_requests w" "w_info ?w = w_info w" "pw_last_seq (w_client ?w) = pw_last_seq (w_client w)"
    by (simp_all add: w' set_ipc_def)
  have K: "known ?w = known w" by (simp add: known_def resyncing_def same R)
  have S: "stream ?w = (if PENDING_EVENTS_CAP \<le> length ?ps then tl (stream w) else stream w)"
    by (cases ?ps) (auto simp: w' stream_def set_ipc_def buffer_event_def Let_def wire PENDING_EVENTS_CAP_def)
  have "announced ?w" if a: "announced w"
  proof (cases "PENDING_EVENTS_CAP \<le> length ?ps")
    case True
    then obtain e ps where ps: "?ps = e # ps" by (cases ?ps) (auto simp: PENDING_EVENTS_CAP_def)
    then obtain ss where ss: "stream w = e # ss" "stream ?w = ss" "env \<in> set ss" using S True wire by (simp add: stream_def)
    have "is_marker e \<Longrightarrow> w_evicted ?w" using True ps by (simp add: w' evicts_marker_def is_marker_def)
    moreover have "is_marker env" if "\<not> is_marker e" "env_seq e = length (w_log w)"
    proof (rule ccontr)
      assume "\<not> is_marker env"
      then have "env_seq env \<in> set (seqs ss)" using ss(3) by (auto simp: seqs_def)
      then have "env_seq e < env_seq env" using c(2) ss(1) that(1) by (simp add: stream_ok_def)
      moreover have "env_seq env \<le> length (w_log w)" using c(2) ss \<open>\<not> is_marker env\<close> by (auto simp: stream_ok_def true_event_def)
      ultimately show False using that(2) by simp
    qed
    moreover have "w_evicted w \<Longrightarrow> w_evicted ?w" by (simp add: w')
    ultimately show ?thesis using a ss by (auto simp: announced_def same)
  next
    case False
    have "w_evicted w \<Longrightarrow> w_evicted ?w" by (simp add: w')
    then show ?thesis using a S False by (auto simp: announced_def same)
  qed
  moreover have "stream_ok ?w"
    using c(2) S by (cases "stream w") (auto simp: stream_ok_def true_event_def same split: if_splits)
  moreover have "control_ok ?w" using c(4) pc same R by (simp add: control_ok_def awaiting_ok_def snapshot_ok_def)
  moreover have "client_ok ?w" by (rule client_ok_same [OF c(5)]) (simp_all add: same)
  moreover have "resync_ok ?w" using c(6) same K by (simp add: resync_ok_def)
  moreover have "core_ok ?w" "daemon_ok ?w" using c(1,3) same by (simp_all add: core_ok_def daemon_ok_def)
  ultimately show ?thesis using ok K same by (auto simp: world_ok_def)
qed

text \<open>The answer to a caller's request, and the snapshot of a resynchronisation.\<close>

lemma answered_ok:
  assumes ok: "world_ok w" and pc: "w_pc w = Awaiting i ForCaller" and wire: "w_wire w = ResponseMessage r # rest"
    and w': "w' = w\<lparr>w_wire := rest, w_pc := Idle\<rparr>"
  shows "world_ok w'"
proof -
  have c: "core_ok w" "stream_ok w" "daemon_ok w" "control_ok w" "client_ok w" using ok by (simp_all add: world_ok_def)
  have a: "awaiting_ok i ForCaller w" using c(4) pc by (simp add: control_ok_def)
  have "replies w = ResponseMessage r # replies w'" by (simp add: replies_def w' wire)
  with a have "control_ok w'" by (auto simp: control_ok_def awaiting_ok_def w')
  moreover have S: "stream w' = stream w" by (simp add: stream_def w' wire)
  moreover have "stream_ok w'" using stream_ok_same [OF c(2) S] by (simp add: w')
  moreover have "client_ok w'" by (rule client_ok_same [OF c(5)]) (simp_all add: w')
  moreover have "core_ok w'" "daemon_ok w'" "resync_ok w'" using c(1,3) by (simp_all add: core_ok_def daemon_ok_def resync_ok_def w')
  moreover have "known w' = known w" using pc by (simp add: known_def resyncing_def w')
  moreover have "announced w' = announced w" unfolding announced_def S by (simp add: w')
  ultimately show ?thesis using ok pc by (auto simp: world_ok_def w')
qed

lemma seqs_discard: "seqs (filter (\<lambda>e. q < env_seq e) es) = filter (\<lambda>n. q < n) (seqs es)" if "q < EVENT_SEQ_RESYNC_NOW"
  by (induction es) (use that in \<open>auto simp: is_marker_def\<close>)

lemma resync_cursor_snapshot:
  assumes "ds_latest_event_seq st = Some q" and "\<And>g. gap = Some g \<Longrightarrow> g \<le> q" and "\<And>l. pw_last_seq c = Some l \<Longrightarrow> l \<le> q"
  shows "resync_cursor gap st c = q"
  using assms by (auto simp: resync_cursor_def Let_def max_def split: option.split)

lemma resynchronized_ok:
  assumes ok: "world_ok w" and pc: "w_pc w = Awaiting i (ForResync gap)" and wire: "w_wire w = ResponseMessage r # rest"
  shows "world_ok (do_receive i (ForResync gap) (ResponseMessage r) rest w)" (is "world_ok ?w")
proof -
  have c: "core_ok w" "stream_ok w" "daemon_ok w" "control_ok w" "client_ok w" "resync_ok w" using ok by (simp_all add: world_ok_def)
  have a: "awaiting_ok i (ForResync gap) w" using c(4) pc by (simp add: control_ok_def)
  have rep: "replies w = ResponseMessage r # replies (w\<lparr>w_wire := rest\<rparr>)" by (simp add: replies_def wire)
  with a obtain st where r: "r = ResponseOk i (State st)" "snapshot_ok w st" "replies (w\<lparr>w_wire := rest\<rparr>) = []" "w_requests w = []"
    "w_info w \<noteq> None" "w_fwd w \<noteq> FwdGate"
    by (auto simp: awaiting_ok_def)
  then obtain q where q: "ds_latest_event_seq st = Some q" "q \<le> length (w_log w)" "ds_vpn_state st = state_after (take q (w_log w))"
    by (auto simp: snapshot_ok_def)
  have k: "known w = q" using pc rep r(1,3) q(1) by (simp add: known_def resyncing_def)
  let ?c = "(w_client w)\<lparr>pw_ipc := discard_events_through q (pw_ipc (w_client w)), pw_last_seq := Some q\<rparr>"
  have low: "\<And>g. gap = Some g \<Longrightarrow> g \<le> q" "\<And>l. pw_last_seq (w_client w) = Some l \<Longrightarrow> l \<le> q"
    using c(6) pc k by (simp_all add: resync_ok_def)
  have w': "?w = w\<lparr>w_wire := rest, w_pc := Idle, w_client := ?c, w_out := w_out w @ [Resynchronized st q], w_view := Some (ds_vpn_state st)\<rparr>"
    using resync_cursor_snapshot [OF q(1) low]
    by (simp add: do_receive_def request_receive_def r(1) do_finish_def resynchronize_def set_ipc_def Let_def)
  have big: "q < EVENT_SEQ_RESYNC_NOW" using q(2) c(1) by (simp add: core_ok_def)
  define ps qs where "ps = ic_pending_events (pw_ipc (w_client w))"
    and "qs = evs rest @ evs (w_channel w) @ in_fwd (w_fwd w) @ evs (se_queue (w_entry w))"
  have S: "stream w = ps @ qs" "stream ?w = filter (\<lambda>e. q < env_seq e) ps @ qs"
    unfolding w' by (simp_all add: stream_def wire ps_def qs_def discard_events_through_def)
  have "stream_ok ?w"
    using c(2) unfolding stream_ok_def S
    by (auto simp: w' true_event_def seqs_discard [OF big] sorted_wrt_append sorted_wrt_filter)
  moreover have "known ?w = q" by (simp add: known_def resyncing_def w')
  moreover have "announced ?w" if "announced w" "q \<noteq> length (w_log w)"
    using that q(2) big unfolding announced_def S by (auto simp: w' is_marker_def)
  moreover have "client_ok ?w"
  proof -
    have "list_all (out_ok w) (w_out w @ [Resynchronized st q])" using c(5) q by (simp add: client_ok_def) (simp add: out_ok_def)
    moreover have "contiguous (w_out w @ [Resynchronized st q])"
      using c(5) low(2) by (cases "w_out w = []") (simp_all add: client_ok_def contiguous_snoc)
    moreover have "out_ok ?w = out_ok w" by (rule out_ok_same) (simp_all add: w')
    ultimately show ?thesis using q(3) by (simp add: client_ok_def w' cursor_of_def)
  qed
  moreover have "control_ok ?w" unfolding w' using r(3-6) by (simp add: control_ok_def replies_def)
  moreover have "core_ok ?w" "daemon_ok ?w" "resync_ok ?w" using c(1,3) by (simp_all add: core_ok_def daemon_ok_def resync_ok_def w')
  ultimately show ?thesis using ok pc k by (auto simp: world_ok_def w')
qed

lemma receive_ok:
  assumes ok: "world_ok w" and pc: "w_pc w = Awaiting i why" and wire: "w_wire w = m # rest"
  shows "world_ok (do_receive i why m rest w)"
proof (cases m)
  case (EventMessage env)
  with receive_event_ok [OF ok pc] wire show ?thesis by simp
next
  case (ResponseMessage r)
  have a: "awaiting_ok i why w" using ok pc by (simp add: world_ok_def control_ok_def)
  then have i: "response_id r = i" using wire ResponseMessage by (auto simp: awaiting_ok_def replies_def)
  show ?thesis
  proof (cases why)
    case ForCaller
    then have "do_receive i why m rest w = w\<lparr>w_wire := rest, w_pc := Idle\<rparr>"
      using ResponseMessage i by (cases r) (simp_all add: do_receive_def request_receive_def do_finish_def set_ipc_def)
    from answered_ok [OF ok _ _ this] pc wire ForCaller ResponseMessage show ?thesis by blast
  next
    case (ForResync gap)
    with resynchronized_ok [OF ok] pc wire ResponseMessage show ?thesis by simp
  qed
next
  case (HelloAckMessage ack)
  with ok pc wire show ?thesis by (auto simp: world_ok_def control_ok_def awaiting_ok_def replies_def)
next
  case (HelloErrorMessage h)
  with ok pc wire show ?thesis by (auto simp: world_ok_def control_ok_def awaiting_ok_def replies_def)
qed

section \<open>Every reachable world\<close>

lemma core_after_ok:
  "core_after version integration log core \<Longrightarrow>
   dc_seq core = length log \<and> length log < EVENT_SEQ_RESYNC_NOW \<and> dc_vpn_state core = state_after log"
proof (induction rule: core_after.induct)
  case 1
  show ?case by (simp add: DaemonCore_new_def EVENT_SEQ_RESYNC_NOW_def state_after_def)
next
  case (2 log core env core')
  with emits_result [OF 2(2,3)] show ?case by (simp add: EVENT_SEQ_RESYNC_NOW_def)
qed

lemma start_ok: "core_after version integration log core \<Longrightarrow> world_ok (world_start core log info)"
  using core_after_ok [of version integration log core]
  by (simp add: world_ok_def world_defs world_start_def client_new_def stream_def handshake_ok_def known_def resyncing_def fwd_version_def)

lemma wstep_ok: "wstep uid_text peer w w' \<Longrightarrow> world_ok w \<Longrightarrow> world_ok w'"
  by (induction rule: wstep.induct)
    (blast intro: emit_ok mark_ok take_ok send_ok check_ok forward_mark_ok write_ok serve_ok reply_ok ack_ok pending_ok event_ok
      request_ok receive_ok timeout_ok)+

lemma wreachable_ok: "wreachable uid_text peer w \<Longrightarrow> world_ok w"
  by (induction rule: wreachable.induct) (blast intro: start_ok wstep_ok)+

end
