(* ===== verification/Event_Props.thy ===== *)
theory Event_Props
  imports Event_Order
begin

text \<open>
  What a client of the event stream can rely on, and the runs that mark the boundary: a settled
  session is current unless an overflow mark is pending or the client's buffer lost the marker.
\<close>

section \<open>Settled sessions\<close>

text \<open>Every thread of the session waits for something new: nothing is queued, sent or asked for.\<close>

definition settled :: "'p world \<Rightarrow> bool" where
  "settled w \<longleftrightarrow> \<not> w_publishing w \<and> se_queue (w_entry w) = [] \<and> fwd_version (w_fwd w) \<noteq> None \<and> in_fwd (w_fwd w) = [] \<and>
     w_channel w = [] \<and> w_reply w = None \<and> w_wire w = [] \<and> w_requests w = [] \<and>
     ic_pending_events (pw_ipc (w_client w)) = [] \<and> w_pc w = Idle"

definition current :: "'p world \<Rightarrow> bool" where
  "current w \<longleftrightarrow> or_default (pw_last_seq (w_client w)) (w_base w) = dc_seq (w_core w) \<and>
     (w_view w = None \<or> w_view w = Some (dc_vpn_state (w_core w)))"

lemma settled_current:
  assumes "world_ok w" and "settled w" and "\<not> se_overflowed (w_entry w)" and "\<not> w_evicted w"
  shows "current w"
proof -
  have "\<not> announced w" using assms(2-4) by (simp add: announced_def settled_def stream_def)
  then have k: "or_default (pw_last_seq (w_client w)) (w_base w) = length (w_log w)"
    using assms(1,2) by (auto simp: world_ok_def settled_def known_def resyncing_def)
  have core: "dc_seq (w_core w) = length (w_log w)" "dc_vpn_state (w_core w) = state_after (w_log w)" and cl: "client_ok w"
    using assms(1) by (simp_all add: world_ok_def core_ok_def)
  have "v = state_after (w_log w)" if v: "w_view w = Some v" for v
  proof -
    obtain c where "pw_last_seq (w_client w) = Some c" "v = state_after (take c (w_log w))"
      using cl v unfolding client_ok_def by blast
    then show ?thesis using k by simp
  qed
  then show ?thesis using k core by (cases "w_view w") (simp_all add: current_def)
qed

text \<open>While it waits for an answer, the client reads events and that answer.\<close>

lemma receive_in_sync:
  assumes "world_ok w" and "w_pc w = Awaiting i why" and "w_wire w = m # rest"
  shows "fst (request_receive i m (pw_ipc (w_client w))) \<noteq> Desynchronized"
proof -
  have a: "awaiting_ok i why w" using assms(1,2) by (simp add: world_ok_def control_ok_def)
  show ?thesis
  proof (cases m)
    case (ResponseMessage r)
    with a assms(3) have "response_id r = i" by (auto simp: awaiting_ok_def replies_def)
    with ResponseMessage show ?thesis by (cases r) (simp_all add: request_receive_def)
  qed (use a assms(3) in \<open>auto simp: awaiting_ok_def replies_def request_receive_def\<close>)
qed

section \<open>Runs\<close>

definition runs :: "(u32 \<Rightarrow> string) \<Rightarrow> PeerCredentials \<Rightarrow> 'p world \<Rightarrow> 'p world \<Rightarrow> bool" where
  "runs uid_text peer = (wstep uid_text peer)\<^sup>*\<^sup>*"

lemma runs_refl [simp]: "runs uid_text peer w w"
  by (simp add: runs_def)

lemma runs_step: "runs uid_text peer w w1 \<Longrightarrow> wstep uid_text peer w1 w2 \<Longrightarrow> runs uid_text peer w w2"
  by (simp add: runs_def)

lemma runs_trans: "runs uid_text peer w w1 \<Longrightarrow> runs uid_text peer w1 w2 \<Longrightarrow> runs uid_text peer w w2"
  by (simp add: runs_def)

lemma runs_reachable: "runs uid_text peer w w' \<Longrightarrow> wreachable uid_text peer w \<Longrightarrow> wreachable uid_text peer w'"
  unfolding runs_def by (induction rule: rtranclp_induct) (auto intro: wreachable.go)

text \<open>The forwarder, the writer and a client between calls, with nothing under way on the client's side.\<close>

definition listening :: "'p world \<Rightarrow> bool" where
  "listening w \<longleftrightarrow> w_fwd w = FwdWait 1 \<and> w_channel w = [] \<and> w_reply w = None \<and> w_wire w = [] \<and> w_requests w = [] \<and>
     ic_pending_events (pw_ipc (w_client w)) = [] \<and> w_pc w = Idle \<and> w_info w \<noteq> None \<and> \<not> se_overflowed (w_entry w) \<and>
     se_alive (w_entry w) \<and> \<not> w_evicted w \<and> ww_unwritten (w_window w) = 0"

text \<open>The session right after its handshake.\<close>

definition connected :: "DaemonCore \<Rightarrow> Event list \<Rightarrow> ClientInfo \<Rightarrow> 'p world" where
  "connected core log info =
     (let ack = \<lparr>ack_protocol_version = 1, ack_daemon_version = dc_version core, ack_latest_event_seq = dc_seq core\<rparr> in
      (world_start core log info)\<lparr>w_requests := [], w_info := Some (sanitized info), w_fwd := FwdWait 1, w_pc := Idle,
        w_client := client_new\<lparr>pw_ipc := (pw_ipc client_new)\<lparr>ic_ack := ack\<rparr>, pw_hello_seq := dc_seq core\<rparr>\<rparr>)"

lemma connected_runs: "runs uid_text peer (world_start core log info :: 'p world) (connected core log info)"
proof -
  let ?w0 = "world_start core log info :: 'p world" and ?hello = "Hello PROTOCOL_VERSION info"
  let ?ack = "\<lparr>ack_protocol_version = 1, ack_daemon_version = dc_version core, ack_latest_event_seq = dc_seq core\<rparr>"
  let ?m = "HelloAckMessage ?ack"
  let ?w1 = "?w0\<lparr>w_requests := [], w_reply := Some ?m, w_info := Some (sanitized info)\<rparr>"
  let ?w2 = "do_reply ?m ?w1" and ?w3 = "do_write ?m [] (do_reply ?m ?w1)"
  have "do_serve uid_text peer ?hello [] ?w0 = ?w1"
    by (simp add: do_serve_def serve_message_def world_start_def PROTOCOL_VERSION_def latest_event_seq_def)
  moreover have "wstep uid_text peer ?w0 (do_serve uid_text peer ?hello [] ?w0)"
    by (rule wstep.serve) (simp_all add: world_start_def)
  ultimately have s1: "wstep uid_text peer ?w0 ?w1" by metis
  have s2: "wstep uid_text peer ?w1 ?w2"
    by (rule wstep.reply) (simp_all add: world_start_def channel_free_def SESSION_QUEUE_LEN_def)
  have s3: "wstep uid_text peer ?w2 ?w3"
    by (rule wstep.write_out) (simp_all add: world_start_def do_reply_def send_through_def)
  have s4: "wstep uid_text peer ?w3 (do_ack ?m [] ?w3)"
    by (rule wstep.ack) (simp_all add: world_start_def do_reply_def do_write_def send_through_def)
  have last: "do_ack ?m [] ?w3 = connected core log info"
    by (simp add: do_ack_def handshake_accepts_def PROTOCOL_VERSION_def do_reply_def do_write_def send_through_def
        connected_def world_start_def Let_def window_reserve_def window_release_def WriteWindow_new_def)
  show ?thesis
    using runs_step [OF runs_step [OF runs_step [OF runs_step [OF runs_refl s1] s2] s3] s4] unfolding last .
qed

text \<open>An event moves from the queue to the socket while the forwarder has no overflow to answer.\<close>

lemma window_roundtrip: "ww_unwritten ww = 0 \<Longrightarrow> window_release (window_reserve ww) = ww"
  by (simp add: window_release_def window_reserve_def)

lemma all_events_reach [simp]: "event_reaches (Suc 0) ev"
  by (cases ev) (simp_all add: event_reaches_def m2_events_reach_def M2_EVENTS_INTRODUCED_IN_def)

lemma forward_runs:
  fixes w :: "'p world"
  assumes w: "w_fwd w = FwdWait 1" "w_channel w = []" "\<not> se_overflowed (w_entry w)" "ww_unwritten (w_window w) = 0"
    and q: "se_queue (w_entry w) = EventMessage e # rest"
  shows "runs uid_text peer w (w\<lparr>w_entry := (w_entry w)\<lparr>se_queue := rest\<rparr>, w_wire := w_wire w @ [EventMessage e]\<rparr>)"
    (is "runs _ _ _ ?w'")
proof -
  let ?m = "EventMessage e :: 'p ServerMessage"
  let ?w1 = "do_take 1 ?m rest w"
  let ?w2 = "(send_through ?m ?w1)\<lparr>w_fwd := FwdCheck 1\<rparr>"
  let ?w3 = "do_check 1 ?w2"
  have s1: "wstep uid_text peer w ?w1" by (rule wstep.forward_take) (use w q in simp_all)
  have f1: "w_fwd ?w1 = FwdSend 1 ?m" by (simp add: do_take_def forward_take_def deliverable_def)
  have s2: "wstep uid_text peer ?w1 ?w2"
    by (rule wstep.forward_send [OF f1]) (use w in \<open>simp add: channel_free_def do_take_def SESSION_QUEUE_LEN_def\<close>)
  have s3: "wstep uid_text peer ?w2 ?w3" by (rule wstep.forward_check) simp
  have ch: "w_channel ?w3 = [?m]" using w by (simp add: do_check_def forward_check_def send_through_def do_take_def)
  have s4: "wstep uid_text peer ?w3 (do_write ?m [] ?w3)" by (rule wstep.write_out [OF ch])
  have "do_write ?m [] ?w3 = ?w'"
    using w window_roundtrip [OF w(4)]
    by (simp add: do_write_def do_check_def forward_check_def send_through_def do_take_def)
  then show ?thesis
    using runs_step [OF runs_step [OF runs_step [OF runs_step [OF runs_refl s1] s2] s3] s4] by simp
qed

text \<open>A listening client takes an expected event; a whole queue of them reaches it in order.\<close>

definition expects :: "'p world \<Rightarrow> nat" where
  "expects w = or_default (pw_last_seq (w_client w)) (pw_hello_seq (w_client w)) + 1"

lemma classify_expected: "env_seq e = expects w \<Longrightarrow> expects w < EVENT_SEQ_RESYNC_NOW \<Longrightarrow> classify (w_client w) e = Deliver"
  by (cases "pw_last_seq (w_client w)")
    (simp_all add: classify_def expects_def checked_succ_def EVENT_SEQ_RESYNC_NOW_def)

text \<open>The same session as far as the daemon goes, with an empty queue and nothing under way.\<close>

definition served_up :: "'p world \<Rightarrow> 'p ServerMessage list \<Rightarrow> 'p world \<Rightarrow> bool" where
  "served_up w rest w' \<longleftrightarrow> listening w' \<and> w_core w' = w_core w \<and> w_log w' = w_log w \<and> w_base w' = w_base w \<and>
     w_publishing w' = w_publishing w \<and> se_queue (w_entry w') = rest"

lemma drain_one:
  fixes w :: "'p world"
  assumes w: "listening w" and q: "se_queue (w_entry w) = EventMessage e # rest"
    and e: "env_seq e = expects w" "expects w < EVENT_SEQ_RESYNC_NOW"
  shows "\<exists>w'. runs uid_text peer w w' \<and> served_up w rest w' \<and> expects w' = expects w + 1 \<and> pw_last_seq (w_client w') = Some (expects w) \<and>
    w_view w' = view_event (env_event e) (w_view w)"
proof -
  let ?w1 = "w\<lparr>w_entry := (w_entry w)\<lparr>se_queue := rest\<rparr>, w_wire := w_wire w @ [EventMessage e]\<rparr>"
  let ?w2 = "do_envelope e (set_ipc (surface_pending_drops (pw_ipc (w_client ?w1))) (?w1\<lparr>w_wire := []\<rparr>))"
  have r: "runs uid_text peer w ?w1" by (rule forward_runs) (use w q in \<open>simp_all add: listening_def\<close>)
  have s: "wstep uid_text peer ?w1 ?w2"
    by (rule wstep.event) (use w in \<open>simp_all add: listening_def pop_pending_def\<close>)
  have "classify (w_client (set_ipc (surface_pending_drops (pw_ipc (w_client ?w1))) (?w1\<lparr>w_wire := []\<rparr>))) e = Deliver"
    using e by (intro classify_expected) (simp_all add: expects_def set_ipc_def)
  then have w2: "?w2 = (set_ipc (surface_pending_drops (pw_ipc (w_client w))) (?w1\<lparr>w_wire := []\<rparr>))\<lparr>
      w_client := deliver e ((w_client w)\<lparr>pw_ipc := surface_pending_drops (pw_ipc (w_client w))\<rparr>),
      w_out := w_out w @ [Event e], w_view := view_event (env_event e) (w_view w)\<rparr>"
    unfolding do_envelope_def by (simp add: set_ipc_def)
  have "served_up w rest ?w2" unfolding w2 using w
    by (simp add: served_up_def listening_def set_ipc_def deliver_def surface_pending_drops_def)
  moreover have "expects ?w2 = expects w + 1" "pw_last_seq (w_client ?w2) = Some (expects w)"
    "w_view ?w2 = view_event (env_event e) (w_view w)"
    unfolding w2 using e by (simp_all add: expects_def set_ipc_def deliver_def)
  ultimately show ?thesis using runs_step [OF r s] by blast
qed

text \<open>A queue of consecutive notices.\<close>

definition tick :: "nat \<Rightarrow> EventEnvelope" where
  "tick k = \<lparr>env_seq = k, env_event = Notice InfoNotice []\<rparr>"

definition queued :: "nat \<Rightarrow> nat \<Rightarrow> 'p ServerMessage list" where
  "queued a n = map (EventMessage \<circ> tick) [a..<a + n]"

lemma queued_0 [simp]: "queued a 0 = []"
  by (simp add: queued_def)

lemma queued_Suc: "queued a (Suc n) = EventMessage (tick a) # queued (Suc a) n"
  by (simp add: queued_def upt_conv_Cons del: upt_Suc)

lemma queued_snoc: "queued a n @ [EventMessage (tick (a + n))] = queued a (Suc n)"
  by (simp add: queued_def)

lemma length_queued [simp]: "length (queued a n) = n"
  by (simp add: queued_def)

lemma served_up_trans: "served_up w qs w1 \<Longrightarrow> served_up w1 rest w2 \<Longrightarrow> served_up w rest w2"
  by (simp add: served_up_def)

lemma drain:
  "listening w \<Longrightarrow> se_queue (w_entry w) = queued (expects w) n \<Longrightarrow> expects w + n \<le> EVENT_SEQ_RESYNC_NOW \<Longrightarrow>
   \<exists>w'. runs uid_text peer w w' \<and> served_up w [] w' \<and> expects w' = expects w + n \<and> w_view w' = w_view w \<and>
     pw_last_seq (w_client w') = (if n = 0 then pw_last_seq (w_client w) else Some (expects w + n - 1))"
proof (induction n arbitrary: w)
  case 0
  then show ?case by (intro exI [of _ w]) (simp add: served_up_def)
next
  case (Suc n)
  obtain w1 where w1: "runs uid_text peer w w1" "served_up w (queued (Suc (expects w)) n) w1" "expects w1 = expects w + 1"
    "pw_last_seq (w_client w1) = Some (expects w)" "w_view w1 = w_view w"
    using drain_one [of w "tick (expects w)" "queued (Suc (expects w)) n" uid_text peer] Suc.prems
    by (auto simp: queued_Suc tick_def view_event_def)
  obtain w2 where w2: "runs uid_text peer w1 w2" "served_up w1 [] w2" "expects w2 = expects w1 + n" "w_view w2 = w_view w1"
    "pw_last_seq (w_client w2) = (if n = 0 then pw_last_seq (w_client w1) else Some (expects w1 + n - 1))"
    using Suc.IH [of w1] w1 Suc.prems by (auto simp: served_up_def)
  have "pw_last_seq (w_client w2) = Some (expects w + n)" using w1(3,4) w2(5) by simp
  then show ?case
    using runs_trans [OF w1(1) w2(1)] served_up_trans [OF w1(2) w2(2)] w1 w2 by auto
qed

text \<open>The emitter fills the queue with notices while the session's other threads stand still.\<close>

lemma emits_tick:
  "dc_seq core + 2 < 2 ^ 64 \<Longrightarrow> emits core (tick (dc_seq core + 1)) (core\<lparr>dc_seq := dc_seq core + 1\<rparr>)"
  by (auto simp: emits_def core_notice_def emit_locked_def tick_def Let_def)

lemma fill:
  fixes w :: "'p world"
  shows "\<not> w_publishing w \<Longrightarrow> se_alive (w_entry w) \<Longrightarrow> se_queue (w_entry w) = queued a k \<Longrightarrow> dc_seq (w_core w) + 1 = a + k \<Longrightarrow>
    k + n \<le> SESSION_QUEUE_LEN \<Longrightarrow> a + k + n + 1 < 2 ^ 64 \<Longrightarrow>
    \<exists>log. runs uid_text peer w (w\<lparr>w_core := (w_core w)\<lparr>dc_seq := dc_seq (w_core w) + n\<rparr>, w_log := log,
      w_entry := (w_entry w)\<lparr>se_queue := queued a (k + n)\<rparr>\<rparr>)"
proof (induction n arbitrary: w k)
  case 0
  then show ?case by (intro exI [of _ "w_log w"]) (cases w, cases "w_entry w", simp)
next
  case (Suc n)
  let ?e = "tick (dc_seq (w_core w) + 1)" and ?c = "(w_core w)\<lparr>dc_seq := dc_seq (w_core w) + 1\<rparr>"
  define w1 where "w1 = w\<lparr>w_core := ?c, w_log := w_log w @ [env_event ?e], w_entry := (w_entry w)\<lparr>se_queue := queued a (Suc k)\<rparr>\<rparr>"
  have "do_emit ?e ?c w = w1"
    using Suc.prems by (simp add: w1_def do_emit_def try_send_def queued_snoc [symmetric])
  with wstep.emit [OF Suc.prems(1) emits_tick] Suc.prems(4,6) have s: "wstep uid_text peer w w1" by fastforce
  obtain log where "runs uid_text peer w1 (w1\<lparr>w_core := (w_core w1)\<lparr>dc_seq := dc_seq (w_core w1) + n\<rparr>, w_log := log,
      w_entry := (w_entry w1)\<lparr>se_queue := queued a (Suc k + n)\<rparr>\<rparr>)"
    using Suc.IH [of w1 "Suc k"] Suc.prems by (auto simp: w1_def)
  from runs_trans [OF runs_step [OF runs_refl s] this] show ?case
    by (intro exI [of _ log]) (simp add: w1_def)
qed

text \<open>A change of the VPN state, queued or refused by a full queue.\<close>

lemma emits_change:
  "dc_vpn_state core \<noteq> to \<Longrightarrow> dc_seq core + 2 < 2 ^ 64 \<Longrightarrow>
   emits core \<lparr>env_seq = dc_seq core + 1, env_event = StateChanged (dc_vpn_state core) to\<rparr>
     (core\<lparr>dc_vpn_state := to, dc_seq := dc_seq core + 1\<rparr>)"
  by (auto simp: emits_def set_vpn_state_def emit_locked_def Let_def)

lemma change_refused:
  assumes "\<not> w_publishing w" and "se_alive (w_entry w)" and "length (se_queue (w_entry w)) = SESSION_QUEUE_LEN"
    and "dc_vpn_state (w_core w) \<noteq> to" and "dc_seq (w_core w) + 2 < 2 ^ 64"
  shows "\<exists>log. runs uid_text peer w
    (w\<lparr>w_core := (w_core w)\<lparr>dc_vpn_state := to, dc_seq := dc_seq (w_core w) + 1\<rparr>, w_log := log, w_publishing := True\<rparr>)"
  using runs_step [OF runs_refl wstep.emit [OF assms(1) emits_change [OF assms(4,5)] assms(5)], of uid_text peer] assms(2,3)
  by (auto simp: do_emit_def try_send_def intro: exI [of _ "w_log w @ [StateChanged (dc_vpn_state (w_core w)) to]"])

text \<open>A client that has seen the first change of a new daemon.\<close>

definition informed :: "'p world \<Rightarrow> bool" where
  "informed w \<longleftrightarrow> listening w \<and> \<not> w_publishing w \<and> se_queue (w_entry w) = [] \<and> dc_seq (w_core w) = 1 \<and>
     dc_vpn_state (w_core w) = Connecting \<and> w_base w = 0 \<and> pw_last_seq (w_client w) = Some 1 \<and> w_view w = Some Connecting"

lemma informed_reachable: "\<exists>w :: 'p world. wreachable uid_text peer w \<and> informed w"
proof -
  let ?core = "DaemonCore_new ''1'' NativeIntegration" and ?e = "\<lparr>env_seq = 1, env_event = StateChanged Disconnected Connecting\<rparr>"
  let ?info = "\<lparr>cl_name = ''protonwire'', cl_version = ''1'', cl_surface = CliSurface\<rparr>"
  let ?w = "connected ?core [] ?info :: 'p world"
  let ?w1 = "do_emit ?e (?core\<lparr>dc_vpn_state := Connecting, dc_seq := 1\<rparr>) ?w"
  have r: "wreachable uid_text peer ?w"
    by (rule runs_reachable [OF connected_runs]) (rule wreachable.start [OF core_after.intros(1)])
  have "wstep uid_text peer ?w ?w1"
    using emits_change [of ?core Connecting]
    by (intro wstep.emit) (simp_all add: connected_def world_start_def DaemonCore_new_def Let_def)
  then have r1: "wreachable uid_text peer ?w1" by (rule wreachable.go [OF r])
  have w1: "listening ?w1" "se_queue (w_entry ?w1) = [EventMessage ?e]" "expects ?w1 = 1" "w_core ?w1 = ?core\<lparr>dc_vpn_state := Connecting, dc_seq := 1\<rparr>"
    "\<not> w_publishing ?w1" "w_base ?w1 = 0" "w_view ?w1 = None"
    by (simp_all add: do_emit_def try_send_def connected_def world_start_def Let_def listening_def expects_def client_new_def
        DaemonCore_new_def SESSION_QUEUE_LEN_def WriteWindow_new_def)
  obtain w2 where "runs uid_text peer ?w1 w2" "served_up ?w1 [] w2" "pw_last_seq (w_client w2) = Some 1" "w_view w2 = Some Connecting"
    using drain_one [OF w1(1,2), of uid_text peer] w1 by (auto simp: EVENT_SEQ_RESYNC_NOW_def view_event_def)
  with w1 runs_reachable [OF _ r1] show ?thesis
    by (intro exI [of _ w2]) (auto simp: informed_def served_up_def)
qed

section \<open>Properties\<close>

text \<open>
  C7. A client that has caught up is current: in every reachable state of a session in which
  every thread waits and nothing is queued, sent or asked for, and in which no overflow mark
  awaits the forwarder and the client's buffer never evicted a resync marker, the client's cursor
  is the daemon's event counter and the VPN state it believes in is the daemon's. This holds
  under every interleaving of emitter, forwarder, writer, dispatcher and client, across any
  number of overflows, gaps and resynchronisations.
\<close>

theorem settled_client_is_current:
  assumes "wreachable uid_text peer w" and "settled w" and "\<not> se_overflowed (w_entry w)" and "\<not> w_evicted w"
  shows "current w"
  using settled_current [OF wreachable_ok [OF assms(1)] assms(2-4)] .

theorem settled_client_is_current_witness:
  "\<exists>w :: unit world. wreachable (\<lambda>_. []) \<lparr>pc_uid = 1000, pc_gid = 1000, pc_pid = None\<rparr> w \<and> settled w \<and>
     \<not> se_overflowed (w_entry w) \<and> \<not> w_evicted w \<and> current w \<and> pw_last_seq (w_client w) = Some 1"
proof -
  obtain w :: "unit world" where w: "wreachable (\<lambda>_. []) \<lparr>pc_uid = 1000, pc_gid = 1000, pc_pid = None\<rparr> w" "informed w"
    using informed_reachable by blast
  then have "settled w" "\<not> se_overflowed (w_entry w)" "\<not> w_evicted w" "pw_last_seq (w_client w) = Some 1"
    by (simp_all add: informed_def listening_def settled_def fwd_version_def)
  with w settled_client_is_current [OF w(1)] show ?thesis by blast
qed

text \<open>
  C17. What a client is given is true and without holes: every event delivered to it is the
  daemon's event of that number, every snapshot is the daemon's state after the events up to its
  cursor, each event follows its predecessor's number by one and a snapshot never goes back; and
  no message the client reads while it waits for an answer desynchronises its session.
\<close>

theorem client_is_told_the_truth_in_order:
  assumes "wreachable uid_text peer w"
  shows "list_all (out_ok w) (w_out w) \<and> contiguous (w_out w) \<and>
    (\<forall>i why m rest. w_pc w = Awaiting i why \<longrightarrow> w_wire w = m # rest \<longrightarrow>
      fst (request_receive i m (pw_ipc (w_client w))) \<noteq> Desynchronized)"
proof -
  have ok: "world_ok w" using wreachable_ok [OF assms] .
  then have "list_all (out_ok w) (w_out w)" "contiguous (w_out w)" by (simp_all add: world_ok_def client_ok_def)
  moreover have "fst (request_receive i m (pw_ipc (w_client w))) \<noteq> Desynchronized"
    if "w_pc w = Awaiting i why" "w_wire w = m # rest" for i why m rest
    using receive_in_sync [OF ok that] .
  ultimately show ?thesis by blast
qed

theorem client_is_told_the_truth_in_order_witness:
  "\<exists>w :: unit world. pw_last_seq (w_client w) = Some 1 \<and> list_all (out_ok w) (w_out w) \<and> contiguous (w_out w)"
proof -
  obtain w :: "unit world" where w: "wreachable (\<lambda>_. []) \<lparr>pc_uid = 1000, pc_gid = 1000, pc_pid = None\<rparr> w" "informed w"
    using informed_reachable by blast
  with client_is_told_the_truth_in_order [OF w(1)] show ?thesis by (auto simp: informed_def)
qed

end
