(* ===== verification/Event_Races.thy ===== *)
theory Event_Races
  imports Event_Props
begin

text \<open>
  Two runs that show both conditions of the currency theorem are needed: a session settles with a
  stale client when the overflow mark is stored after the queue was drained, and when the client's
  buffer evicts the resync marker.
\<close>

section \<open>A mark stored too late\<close>

text \<open>
  \<open>publish\<close> stores the mark after its \<open>try_send\<close> failed; the forwarder drains the queue in
  between, so its last look at the mark is before the store.
\<close>

lemma late_mark_leaves_client_stale:
  "\<exists>w :: unit world. wreachable uid_text peer w \<and> settled w \<and> \<not> w_evicted w \<and> w_view w = Some Connecting \<and>
     dc_vpn_state (w_core w) = Connected"
proof -
  obtain w :: "unit world" where w: "wreachable uid_text peer w" "informed w" using informed_reachable by blast
  have i: "listening w" "\<not> w_publishing w" "se_queue (w_entry w) = queued 2 0" "dc_seq (w_core w) = 1" "se_alive (w_entry w)"
    "dc_vpn_state (w_core w) = Connecting" "expects w = 2" "w_view w = Some Connecting"
    using w(2) by (simp_all add: informed_def listening_def expects_def)
  obtain log where r1: "runs uid_text peer w (w\<lparr>w_core := (w_core w)\<lparr>dc_seq := 257\<rparr>, w_log := log,
      w_entry := (w_entry w)\<lparr>se_queue := queued 2 256\<rparr>\<rparr>)" (is "runs _ _ _ ?w1")
    using fill [of w 2 0 256 uid_text peer] i by (auto simp: SESSION_QUEUE_LEN_def)
  obtain log' where r2: "runs uid_text peer ?w1
      (?w1\<lparr>w_core := (w_core ?w1)\<lparr>dc_vpn_state := Connected, dc_seq := dc_seq (w_core ?w1) + 1\<rparr>, w_log := log', w_publishing := True\<rparr>)"
    (is "runs _ _ _ ?w2")
    using change_refused [of ?w1 Connected uid_text peer] i by (auto simp: SESSION_QUEUE_LEN_def)
  have e2: "expects ?w2 = 2" using i(7) by (simp add: expects_def)
  have l2: "listening ?w2" "se_queue (w_entry ?w2) = queued (expects ?w2) 256"
    unfolding e2 using i(1) by (simp_all add: listening_def)
  obtain w3 where r3: "runs uid_text peer ?w2 w3" "served_up ?w2 [] w3" "w_view w3 = w_view ?w2"
    using drain [OF l2(1,2), of uid_text peer] e2 by (auto simp: EVENT_SEQ_RESYNC_NOW_def)
  have "wstep uid_text peer w3 (do_mark w3)" by (rule wstep.mark) (use r3(2) in \<open>simp add: served_up_def\<close>)
  then have "wreachable uid_text peer (do_mark w3)"
    using runs_reachable [OF runs_trans [OF runs_trans [OF r1 r2] r3(1)] w(1)] by (rule wreachable.go [rotated])
  moreover have "settled (do_mark w3)" "\<not> w_evicted (do_mark w3)" "w_view (do_mark w3) = Some Connecting"
    "dc_vpn_state (w_core (do_mark w3)) = Connected"
    using r3(2,3) i by (simp_all add: served_up_def listening_def settled_def do_mark_def fwd_version_def)
  ultimately show ?thesis by blast
qed

section \<open>A marker evicted\<close>

text \<open>The client waits for an answer, and the session's other threads have nothing under way.\<close>

definition held :: "u64 \<Rightarrow> purpose \<Rightarrow> 'p world \<Rightarrow> bool" where
  "held i why w \<longleftrightarrow> w_fwd w = FwdWait 1 \<and> w_channel w = [] \<and> \<not> se_overflowed (w_entry w) \<and> ww_unwritten (w_window w) = 0 \<and>
     w_wire w = [] \<and> w_pc w = Awaiting i why"

lemma buffer_one:
  fixes w :: "'p world"
  assumes w: "held i why w" and q: "se_queue (w_entry w) = EventMessage e # rest"
  shows "runs uid_text peer w (w\<lparr>w_entry := (w_entry w)\<lparr>se_queue := rest\<rparr>,
    w_client := (w_client w)\<lparr>pw_ipc := buffer_event e (pw_ipc (w_client w))\<rparr>,
    w_evicted := w_evicted w \<or> evicts_marker (EventMessage e :: 'p ServerMessage) (pw_ipc (w_client w))\<rparr>)" (is "runs _ _ _ ?w'")
proof -
  let ?w1 = "w\<lparr>w_entry := (w_entry w)\<lparr>se_queue := rest\<rparr>, w_wire := w_wire w @ [EventMessage e]\<rparr>"
  have r: "runs uid_text peer w ?w1" by (rule forward_runs) (use w q in \<open>simp_all add: held_def\<close>)
  have s: "wstep uid_text peer ?w1 (do_receive i why (EventMessage e) [] ?w1)"
    by (rule wstep.receive) (use w in \<open>simp_all add: held_def\<close>)
  have "do_receive i why (EventMessage e) [] ?w1 = ?w'"
    using w by (simp add: do_receive_def request_receive_def set_ipc_def held_def)
  with runs_step [OF r s] show ?thesis by simp
qed

lemma buffer_all:
  fixes w :: "'p world"
  shows "held i why w \<Longrightarrow> se_queue (w_entry w) = queued a n @ rest \<Longrightarrow>
    length (ic_pending_events (pw_ipc (w_client w))) + n \<le> PENDING_EVENTS_CAP \<Longrightarrow>
    runs uid_text peer w (w\<lparr>w_entry := (w_entry w)\<lparr>se_queue := rest\<rparr>,
      w_client := (w_client w)\<lparr>pw_ipc := (pw_ipc (w_client w))\<lparr>
        ic_pending_events := ic_pending_events (pw_ipc (w_client w)) @ map tick [a..<a + n]\<rparr>\<rparr>\<rparr>)"
proof (induction n arbitrary: w a)
  case 0
  then show ?case by (cases w, cases "w_entry w", cases "w_client w", cases "pw_ipc (w_client w)") simp
next
  case (Suc n)
  define w1 where "w1 = w\<lparr>w_entry := (w_entry w)\<lparr>se_queue := queued (Suc a) n @ rest\<rparr>,
    w_client := (w_client w)\<lparr>pw_ipc := (pw_ipc (w_client w))\<lparr>
      ic_pending_events := ic_pending_events (pw_ipc (w_client w)) @ [tick a]\<rparr>\<rparr>\<rparr>"
  have "runs uid_text peer w w1"
    using buffer_one [OF Suc.prems(1), of "tick a" "queued (Suc a) n @ rest" uid_text peer] Suc.prems(2,3)
    by (simp add: queued_Suc w1_def buffer_event_def Let_def evicts_marker_def)
  moreover have "held i why w1" using Suc.prems(1) by (simp add: held_def w1_def)
  ultimately show ?case
    using runs_trans [OF _ Suc.IH [of w1 "Suc a"]] Suc.prems(3) upt_conv_Cons [of a "a + Suc n"]
    by (simp add: w1_def del: upt_Suc)
qed

text \<open>The buffered events are then delivered.\<close>

definition same_session :: "'p world \<Rightarrow> 'p world \<Rightarrow> bool" where
  "same_session w w' \<longleftrightarrow> w_core w' = w_core w \<and> w_publishing w' = w_publishing w \<and> w_entry w' = w_entry w \<and> w_fwd w' = w_fwd w \<and>
     w_channel w' = w_channel w \<and> w_reply w' = w_reply w \<and> w_wire w' = w_wire w \<and> w_requests w' = w_requests w \<and>
     w_pc w' = w_pc w \<and> w_view w' = w_view w"

lemma pending_one:
  fixes w :: "'p world"
  assumes "w_pc w = Idle" and "ic_pending_events (pw_ipc (w_client w)) = tick (expects w) # ps" and "expects w < EVENT_SEQ_RESYNC_NOW"
  shows "\<exists>w'. wstep uid_text peer w w' \<and> same_session w w' \<and> expects w' = expects w + 1 \<and> ic_pending_events (pw_ipc (w_client w')) = ps"
proof -
  let ?e = "tick (expects w)"
  let ?ipc = "(surface_pending_drops (pw_ipc (w_client w)))\<lparr>ic_pending_events := ps\<rparr>"
  let ?w1 = "set_ipc ?ipc w"
  have s: "wstep uid_text peer w (do_envelope ?e ?w1)"
    by (rule wstep.pending) (use assms in \<open>simp_all add: pop_pending_def\<close>)
  have "classify (w_client ?w1) ?e = Deliver"
    using assms(3) by (intro classify_expected) (simp_all add: expects_def set_ipc_def tick_def)
  then have "do_envelope ?e ?w1 = ?w1\<lparr>w_client := deliver ?e (w_client ?w1), w_out := w_out ?w1 @ [Event ?e],
      w_view := view_event (env_event ?e) (w_view ?w1)\<rparr>"
    by (simp add: do_envelope_def)
  then have "same_session w (do_envelope ?e ?w1)" "expects (do_envelope ?e ?w1) = expects w + 1"
    "ic_pending_events (pw_ipc (w_client (do_envelope ?e ?w1))) = ps"
    by (simp_all add: same_session_def set_ipc_def deliver_def view_event_def tick_def) (simp add: expects_def)
  with s show ?thesis by blast
qed

lemma pending_all:
  fixes w :: "'p world"
  shows "w_pc w = Idle \<Longrightarrow> ic_pending_events (pw_ipc (w_client w)) = map tick [expects w..<expects w + n] \<Longrightarrow>
    expects w + n \<le> EVENT_SEQ_RESYNC_NOW \<Longrightarrow>
    \<exists>w'. runs uid_text peer w w' \<and> same_session w w' \<and> ic_pending_events (pw_ipc (w_client w')) = []"
proof (induction n arbitrary: w)
  case 0
  then show ?case by (intro exI [of _ w]) (simp add: same_session_def)
next
  case (Suc n)
  obtain w1 where w1: "wstep uid_text peer w w1" "same_session w w1" "expects w1 = expects w + 1"
    "ic_pending_events (pw_ipc (w_client w1)) = map tick [expects w1..<expects w1 + n]"
    using pending_one [of w "map tick [Suc (expects w)..<expects w + Suc n]" uid_text peer] Suc.prems
    by (auto simp: upt_conv_Cons simp del: upt_Suc)
  obtain w2 where "runs uid_text peer w1 w2" "same_session w1 w2" "ic_pending_events (pw_ipc (w_client w2)) = []"
    using Suc.IH [of w1] w1 Suc.prems by (auto simp: same_session_def)
  with runs_trans [OF runs_step [OF runs_refl w1(1)]] w1(2) show ?case
    by (intro exI [of _ w2]) (auto simp: same_session_def)
qed

text \<open>The forwarder sends the event it holds, finds the mark and announces it; the client takes the event.\<close>

lemma overflow_answered:
  fixes w :: "'p world"
  assumes w: "w_fwd w = FwdSend 1 (EventMessage e)" "w_channel w = []" "ww_unwritten (w_window w) = 0" "se_overflowed (w_entry w)"
    "w_wire w = []"
  shows "runs uid_text peer w (w\<lparr>w_fwd := FwdMark 1, w_entry := (w_entry w)\<lparr>se_overflowed := False\<rparr>, w_wire := [EventMessage e]\<rparr>)"
    (is "runs _ _ _ ?w'")
proof -
  let ?m = "EventMessage e :: 'p ServerMessage"
  let ?w1 = "(send_through ?m w)\<lparr>w_fwd := FwdCheck 1\<rparr>"
  let ?w2 = "do_check 1 ?w1"
  have s1: "wstep uid_text peer w ?w1"
    by (rule wstep.forward_send [OF w(1)]) (use w in \<open>simp add: channel_free_def SESSION_QUEUE_LEN_def\<close>)
  have s2: "wstep uid_text peer ?w1 ?w2" by (rule wstep.forward_check) simp
  have ch: "w_channel ?w2 = [?m]" using w by (simp add: do_check_def forward_check_def send_through_def)
  have s3: "wstep uid_text peer ?w2 (do_write ?m [] ?w2)" by (rule wstep.write_out [OF ch])
  have "do_write ?m [] ?w2 = ?w'"
    using w window_roundtrip [OF w(3)]
    by (simp add: do_write_def do_check_def forward_check_def send_through_def resync_marker_reaches_def RESYNC_MARKER_INTRODUCED_IN_def)
  with runs_step [OF runs_step [OF runs_step [OF runs_refl s1] s2] s3] show ?thesis by simp
qed

lemma marker_sent:
  fixes w :: "'p world"
  assumes w: "w_fwd w = FwdMark 1" "w_channel w = []" "ww_unwritten (w_window w) = 0" "w_wire w = []"
  shows "runs uid_text peer w (w\<lparr>w_fwd := FwdWait 1, w_wire := [EventMessage resync_marker]\<rparr>)" (is "runs _ _ _ ?w'")
proof -
  let ?m = "EventMessage resync_marker :: 'p ServerMessage"
  let ?w1 = "(send_through ?m w)\<lparr>w_fwd := FwdWait 1\<rparr>"
  have s1: "wstep uid_text peer w ?w1"
    by (rule wstep.forward_mark [OF w(1)]) (use w in \<open>simp add: channel_free_def SESSION_QUEUE_LEN_def\<close>)
  have s2: "wstep uid_text peer ?w1 (do_write ?m [] ?w1)"
    by (rule wstep.write_out) (use w in \<open>simp add: send_through_def\<close>)
  have "do_write ?m [] ?w1 = ?w'"
    using w window_roundtrip [OF w(3)] by (simp add: do_write_def send_through_def)
  with runs_step [OF runs_step [OF runs_refl s1] s2] show ?thesis by simp
qed

lemma event_taken:
  fixes w :: "'p world"
  assumes "w_pc w = Idle" and "ic_pending_events (pw_ipc (w_client w)) = []" and "w_wire w = [EventMessage (tick (expects w))]"
    and "expects w < EVENT_SEQ_RESYNC_NOW"
  shows "\<exists>c out. wstep uid_text peer w (w\<lparr>w_wire := [], w_client := c, w_out := out\<rparr>) \<and>
    expects (w\<lparr>w_client := c\<rparr>) = expects w + 1 \<and> ic_pending_events (pw_ipc c) = []"
proof -
  let ?e = "tick (expects w)"
  let ?w1 = "set_ipc (surface_pending_drops (pw_ipc (w_client w))) (w\<lparr>w_wire := []\<rparr>)"
  have s: "wstep uid_text peer w (do_envelope ?e ?w1)"
    by (rule wstep.event) (use assms in \<open>simp_all add: pop_pending_def\<close>)
  have "classify (w_client ?w1) ?e = Deliver"
    using assms(4) by (intro classify_expected) (simp_all add: expects_def set_ipc_def tick_def)
  then have "do_envelope ?e ?w1 = w\<lparr>w_wire := [], w_client := deliver ?e (w_client ?w1), w_out := w_out w @ [Event ?e]\<rparr>"
    by (simp add: do_envelope_def set_ipc_def view_event_def tick_def)
  with s show ?thesis
    using assms(2)
    by (intro exI [of _ "deliver ?e (w_client ?w1)"] exI [of _ "w_out w @ [Event ?e]"])
      (simp add: expects_def deliver_def set_ipc_def surface_pending_drops_def tick_def)
qed

text \<open>The client asks something and reads the marker while it waits.\<close>

lemma marker_buffered:
  fixes w :: "'p world"
  assumes w: "w_pc w = Idle" "ic_pending_events (pw_ipc (w_client w)) = []" "w_wire w = [EventMessage resync_marker]" "w_requests w = []"
    "\<not> w_evicted w"
  shows "\<exists>i ipc. runs uid_text peer w (w\<lparr>w_wire := [], w_requests := [ClientRequest i (Ping [])], w_pc := Awaiting i ForCaller,
    w_client := (w_client w)\<lparr>pw_ipc := ipc\<rparr>\<rparr>) \<and> ic_pending_events ipc = [resync_marker]"
proof -
  let ?i = "ic_next_id (pw_ipc (w_client w))"
  let ?w1 = "send_request (Ping []) ForCaller w"
  let ?w2 = "do_receive ?i ForCaller (EventMessage resync_marker) [] ?w1"
  have s1: "wstep uid_text peer w ?w1" by (rule wstep.request [OF w(1)])
  have s2: "wstep uid_text peer ?w1 ?w2"
    by (rule wstep.receive) (use w in \<open>simp_all add: send_request_def Let_def\<close>)
  have "?w2 = w\<lparr>w_wire := [], w_requests := [ClientRequest ?i (Ping [])], w_pc := Awaiting ?i ForCaller,
      w_client := (w_client w)\<lparr>pw_ipc := buffer_event resync_marker ((pw_ipc (w_client w))\<lparr>ic_next_id := ?i + 1\<rparr>)\<rparr>\<rparr>"
    using w by (simp add: do_receive_def request_receive_def set_ipc_def send_request_def Let_def evicts_marker_def PENDING_EVENTS_CAP_def)
  with runs_step [OF runs_step [OF runs_refl s1] s2] show ?thesis
    using w(2) by (intro exI [of _ ?i] exI [of _ "buffer_event resync_marker ((pw_ipc (w_client w))\<lparr>ic_next_id := ?i + 1\<rparr>)"])
      (simp add: buffer_event_def Let_def PENDING_EVENTS_CAP_def)
qed

text \<open>The request is answered.\<close>

lemma ping_answered:
  fixes w :: "'p world"
  assumes w: "held i ForCaller w" "w_requests w = [ClientRequest i (Ping [])]" "w_reply w = None" "w_info w \<noteq> None"
  shows "runs uid_text peer w (w\<lparr>w_requests := [], w_pc := Idle\<rparr>)" (is "runs _ _ _ ?w'")
proof -
  let ?m = "ResponseMessage (ResponseOk i (Pong [])) :: 'p ServerMessage"
  define w1 where "w1 = w\<lparr>w_requests := [], w_reply := Some ?m\<rparr>"
  have "do_serve uid_text peer (ClientRequest i (Ping [])) [] w = w1"
    using w by (simp add: do_serve_def serve_message_def dispatch_def authorize_def w1_def)
  moreover have "wstep uid_text peer w (do_serve uid_text peer (ClientRequest i (Ping [])) [] w)"
    by (rule wstep.serve) (use w in \<open>simp_all add: held_def is_exhausted_def MAX_UNWRITTEN_MESSAGES_def\<close>)
  ultimately have s1: "wstep uid_text peer w w1" by simp
  have s2: "wstep uid_text peer w1 (do_reply ?m w1)"
    by (rule wstep.reply) (use w in \<open>simp_all add: w1_def held_def channel_free_def SESSION_QUEUE_LEN_def\<close>)
  have s3: "wstep uid_text peer (do_reply ?m w1) (do_write ?m [] (do_reply ?m w1))"
    by (rule wstep.write_out) (use w in \<open>simp add: w1_def held_def do_reply_def send_through_def\<close>)
  have "do_write ?m [] (do_reply ?m w1) = w\<lparr>w_requests := [], w_reply := None, w_wire := [?m]\<rparr>"
    using w window_roundtrip [of "w_window w"] by (simp add: do_write_def do_reply_def send_through_def w1_def held_def)
  then have r: "runs uid_text peer w (w\<lparr>w_requests := [], w_reply := None, w_wire := [?m]\<rparr>)"
    using runs_step [OF runs_step [OF runs_step [OF runs_refl s1] s2] s3] by simp
  have s4: "wstep uid_text peer (w\<lparr>w_requests := [], w_reply := None, w_wire := [?m]\<rparr>)
      (do_receive i ForCaller ?m [] (w\<lparr>w_requests := [], w_reply := None, w_wire := [?m]\<rparr>))"
    by (rule wstep.receive) (use w in \<open>simp_all add: held_def\<close>)
  have "do_receive i ForCaller ?m [] (w\<lparr>w_requests := [], w_reply := None, w_wire := [?m]\<rparr>) = ?w'"
    using w by (simp add: do_receive_def request_receive_def do_finish_def set_ipc_def held_def)
  with runs_step [OF r s4] show ?thesis by simp
qed

definition marker_held :: "u64 \<Rightarrow> 'p world \<Rightarrow> bool" where
  "marker_held i w \<longleftrightarrow> held i ForCaller w \<and> w_requests w = [ClientRequest i (Ping [])] \<and> w_reply w = None \<and> w_info w \<noteq> None \<and>
     ic_pending_events (pw_ipc (w_client w)) = [resync_marker] \<and> se_queue (w_entry w) = queued 3 256 \<and> expects w = 3 \<and>
     \<not> w_publishing w \<and> w_view w = Some Connecting \<and> dc_vpn_state (w_core w) = Connected"

lemma marker_held_after:
  fixes w :: "'p world"
  assumes w: "w_fwd w = FwdSend 1 (EventMessage (tick 2))" "w_channel w = []" "ww_unwritten (w_window w) = 0"
    "se_overflowed (w_entry w)" "w_wire w = []" "w_pc w = Idle" "ic_pending_events (pw_ipc (w_client w)) = []" "expects w = 2"
    "w_requests w = []" "\<not> w_evicted w" "w_reply w = None" "w_info w \<noteq> None" "se_queue (w_entry w) = queued 3 256"
    "\<not> w_publishing w" "w_view w = Some Connecting" "dc_vpn_state (w_core w) = Connected"
  shows "\<exists>i w'. runs uid_text peer w w' \<and> marker_held i w'"
proof -
  define w1 where "w1 = w\<lparr>w_fwd := FwdMark 1, w_entry := (w_entry w)\<lparr>se_overflowed := False\<rparr>, w_wire := [EventMessage (tick 2)]\<rparr>"
  have r1: "runs uid_text peer w w1" unfolding w1_def by (rule overflow_answered [OF w(1-5)])
  have e1: "expects w1 = 2" using w(8) by (simp add: w1_def expects_def)
  obtain c out where s2: "wstep uid_text peer w1 (w1\<lparr>w_wire := [], w_client := c, w_out := out\<rparr>)"
    and c: "expects (w1\<lparr>w_client := c\<rparr>) = 3" "ic_pending_events (pw_ipc c) = []"
    using event_taken [of w1 uid_text peer] w(6,7) e1 by (auto simp: w1_def EVENT_SEQ_RESYNC_NOW_def)
  define w2 where "w2 = w1\<lparr>w_wire := [], w_client := c, w_out := out\<rparr>"
  define w3 where "w3 = w2\<lparr>w_fwd := FwdWait 1, w_wire := [EventMessage resync_marker]\<rparr>"
  have r3: "runs uid_text peer w2 w3"
    unfolding w3_def by (rule marker_sent) (use w in \<open>simp_all add: w2_def w1_def\<close>)
  obtain i ipc where r4: "runs uid_text peer w3 (w3\<lparr>w_wire := [], w_requests := [ClientRequest i (Ping [])], w_pc := Awaiting i ForCaller,
      w_client := (w_client w3)\<lparr>pw_ipc := ipc\<rparr>\<rparr>)" (is "runs _ _ _ ?w4") and ipc: "ic_pending_events ipc = [resync_marker]"
    using marker_buffered [of w3 uid_text peer] w c(2) by (auto simp: w3_def w2_def w1_def)
  have "marker_held i ?w4"
    using w c(1) ipc by (simp add: marker_held_def held_def w3_def w2_def w1_def expects_def)
  with runs_trans [OF runs_trans [OF runs_step [OF r1 s2 [folded w2_def]] r3] r4] show ?thesis by blast
qed

lemma marker_held_runs:
  fixes w :: "'p world"
  assumes w: "informed w"
  shows "\<exists>i w'. runs uid_text peer w w' \<and> marker_held i w'"
proof -
  have i: "listening w" "\<not> w_publishing w" "se_queue (w_entry w) = queued 2 0" "dc_seq (w_core w) = 1" "se_alive (w_entry w)"
    "dc_vpn_state (w_core w) = Connecting" "expects w = 2" "w_view w = Some Connecting"
    using w by (simp_all add: informed_def listening_def expects_def)
  obtain log1 where r1: "runs uid_text peer w (w\<lparr>w_core := (w_core w)\<lparr>dc_seq := dc_seq (w_core w) + 1\<rparr>, w_log := log1,
      w_entry := (w_entry w)\<lparr>se_queue := queued 2 1\<rparr>\<rparr>)" (is "runs _ _ _ ?w1")
    using fill [of w 2 0 1 uid_text peer] i by (auto simp: SESSION_QUEUE_LEN_def)
  define w2 where "w2 = ?w1\<lparr>w_entry := (w_entry w)\<lparr>se_queue := queued 3 0\<rparr>, w_fwd := FwdSend 1 (EventMessage (tick 2))\<rparr>"
  have "wstep uid_text peer ?w1 (do_take 1 (EventMessage (tick 2)) [] ?w1)"
    by (rule wstep.forward_take) (use i in \<open>simp_all add: listening_def queued_def\<close>)
  then have s2: "wstep uid_text peer ?w1 w2" by (simp add: w2_def do_take_def forward_take_def deliverable_def)
  obtain log3 where r3: "runs uid_text peer w2 (w2\<lparr>w_core := (w_core w2)\<lparr>dc_seq := dc_seq (w_core w2) + 256\<rparr>, w_log := log3,
      w_entry := (w_entry w2)\<lparr>se_queue := queued 3 (0 + 256)\<rparr>\<rparr>)" (is "runs _ _ _ ?w3")
    using fill [of w2 3 0 256 uid_text peer] i by (auto simp: SESSION_QUEUE_LEN_def w2_def)
  obtain log4 where r4: "runs uid_text peer ?w3
      (?w3\<lparr>w_core := (w_core ?w3)\<lparr>dc_vpn_state := Connected, dc_seq := dc_seq (w_core ?w3) + 1\<rparr>, w_log := log4, w_publishing := True\<rparr>)"
    (is "runs _ _ _ ?w4")
    using change_refused [of ?w3 Connected uid_text peer] i by (auto simp: SESSION_QUEUE_LEN_def w2_def)
  define w5 where "w5 = do_mark ?w4"
  have s5: "wstep uid_text peer ?w4 w5" unfolding w5_def by (rule wstep.mark) simp
  note to5 = runs_step [OF runs_trans [OF runs_trans [OF runs_step [OF r1 s2] r3] r4] s5]
  have f5: "w_fwd w5 = FwdSend 1 (EventMessage (tick 2))" "w_channel w5 = []" "ww_unwritten (w_window w5) = 0"
    "se_overflowed (w_entry w5)" "w_wire w5 = []" "w_pc w5 = Idle" "ic_pending_events (pw_ipc (w_client w5)) = []" "expects w5 = 2"
    "w_requests w5 = []" "\<not> w_evicted w5" "w_reply w5 = None" "w_info w5 \<noteq> None" "se_queue (w_entry w5) = queued 3 256"
    "\<not> w_publishing w5" "w_view w5 = Some Connecting" "dc_vpn_state (w_core w5) = Connected"
    using i by (simp_all add: w5_def do_mark_def w2_def listening_def expects_def)
  from marker_held_after [OF f5] runs_trans [OF to5] show ?thesis by blast
qed

text \<open>
  With 256 events queued behind the marker, the marker is the oldest buffered entry when the last
  one arrives; the events after it are consecutive, so no gap betrays the dropped one.
\<close>

lemma evicted_marker_leaves_client_stale:
  "\<exists>w :: unit world. wreachable uid_text peer w \<and> settled w \<and> \<not> se_overflowed (w_entry w) \<and> w_view w = Some Connecting \<and>
     dc_vpn_state (w_core w) = Connected"
proof -
  obtain w :: "unit world" where w: "wreachable uid_text peer w" "informed w" using informed_reachable by blast
  obtain i w1 where r1: "runs uid_text peer w w1" and h: "marker_held i w1" using marker_held_runs [OF w(2)] by blast
  define w2 where "w2 = w1\<lparr>w_entry := (w_entry w1)\<lparr>se_queue := [EventMessage (tick 258)]\<rparr>,
    w_client := (w_client w1)\<lparr>pw_ipc := (pw_ipc (w_client w1))\<lparr>ic_pending_events := resync_marker # map tick [3..<258]\<rparr>\<rparr>\<rparr>"
  have "se_queue (w_entry w1) = queued 3 255 @ [EventMessage (tick 258)]" 
    using h by (simp add: marker_held_def queued_snoc [of 3 255, simplified, symmetric])
  with buffer_all [of i ForCaller w1 3 255] h have r2: "runs uid_text peer w1 w2"
    by (simp add: marker_held_def w2_def PENDING_EVENTS_CAP_def)
  define w3 where "w3 = w2\<lparr>w_entry := (w_entry w2)\<lparr>se_queue := []\<rparr>,
    w_client := (w_client w2)\<lparr>pw_ipc := buffer_event (tick 258) (pw_ipc (w_client w2))\<rparr>,
    w_evicted := w_evicted w2 \<or> evicts_marker (EventMessage (tick 258) :: unit ServerMessage) (pw_ipc (w_client w2))\<rparr>"
  have h2: "held i ForCaller w2" using h by (simp add: marker_held_def held_def w2_def)
  have r3: "runs uid_text peer w2 w3"
    unfolding w3_def by (rule buffer_one [OF h2]) (simp add: w2_def)
  have p3: "ic_pending_events (pw_ipc (w_client w3)) = map tick [3..<3 + 256]"
    using upt_Suc_append [of 3 258]
    by (simp add: w3_def w2_def buffer_event_def Let_def PENDING_EVENTS_CAP_def del: upt_Suc)
  define w4 where "w4 = w3\<lparr>w_requests := [], w_pc := Idle\<rparr>"
  have r4: "runs uid_text peer w3 w4"
    unfolding w4_def by (rule ping_answered) (use h in \<open>simp_all add: marker_held_def held_def w3_def w2_def\<close>)
  have e4: "expects w4 = 3"
    using h by (simp add: marker_held_def w4_def w3_def w2_def expects_def)
  obtain w5 where r5: "runs uid_text peer w4 w5" "same_session w4 w5" "ic_pending_events (pw_ipc (w_client w5)) = []"
    using pending_all [of w4 256 uid_text peer] p3 e4 by (auto simp: w4_def EVENT_SEQ_RESYNC_NOW_def)
  have "wreachable uid_text peer w5"
    using runs_reachable [OF runs_trans [OF runs_trans [OF runs_trans [OF runs_trans [OF r1 r2] r3] r4] r5(1)] w(1)] .
  moreover have "settled w5" "\<not> se_overflowed (w_entry w5)" "w_view w5 = Some Connecting" "dc_vpn_state (w_core w5) = Connected"
    using r5(2,3) h by (simp_all add: same_session_def settled_def marker_held_def held_def w4_def w3_def w2_def fwd_version_def)
  ultimately show ?thesis by blast
qed

section \<open>Property\<close>

text \<open>
  Both exceptions of the currency theorem happen. A session can settle with a client that
  believes the daemon is connecting while it is connected (a) when the overflow mark is stored
  after the forwarder drained the 256 queued events, so that the forwarder waits for an event with
  the mark set, and (b) when the client, reading 256 events behind the resync marker during one
  request, drops the marker as its oldest buffered entry, so that nothing is pending anywhere.
\<close>

theorem overflow_signal_can_be_lost:
  "(\<exists>w :: unit world. wreachable uid_text peer w \<and> settled w \<and> \<not> w_evicted w \<and> w_view w = Some Connecting \<and>
      dc_vpn_state (w_core w) = Connected) \<and>
   (\<exists>w :: unit world. wreachable uid_text peer w \<and> settled w \<and> \<not> se_overflowed (w_entry w) \<and> w_view w = Some Connecting \<and>
      dc_vpn_state (w_core w) = Connected)"
  using late_mark_leaves_client_stale evicted_marker_leaves_client_stale by blast

end
