(* ===== verification/Group_Registry.thy ===== *)
theory Group_Registry
  imports Selection
begin

text \<open>
  Connection groups: the vocabulary of \<open>core/src/groups.rs\<close> and the built-in catalog of
  \<open>core/src/groups/registry.rs\<close>, entry by entry.
\<close>

section \<open>Vocabulary\<close>

datatype GroupOrigin = ProtonOrigin | ProtonwireOrigin

primrec group_origin_text :: "GroupOrigin \<Rightarrow> string" where
  "group_origin_text ProtonOrigin = ''proton''"
| "group_origin_text ProtonwireOrigin = ''protonwire''"

datatype DefinitionSource = ProtonApi | OfficialClientCompat | ProtonwireDefined

primrec definition_source_text :: "DefinitionSource \<Rightarrow> string" where
  "definition_source_text ProtonApi = ''proton-api''"
| "definition_source_text OfficialClientCompat = ''official-client-compat''"
| "definition_source_text ProtonwireDefined = ''protonwire''"

datatype GroupEntitlement = PlanDependent | TargetAndFeatureDependent | PaidLocationSelection

primrec group_entitlement_text :: "GroupEntitlement \<Rightarrow> string" where
  "group_entitlement_text PlanDependent = ''plan-dependent''"
| "group_entitlement_text TargetAndFeatureDependent = ''target-and-feature-dependent''"
| "group_entitlement_text PaidLocationSelection = ''paid-location-selection''"

datatype ConnectionType = Standard

primrec connection_type_text :: "ConnectionType \<Rightarrow> string" where
  "connection_type_text Standard = ''standard''"

datatype GroupRankingPolicy = ProtonScore | BalancedRanking | LoadRanking | LatencyRanking | RandomCountryThenServer

primrec group_ranking_text :: "GroupRankingPolicy \<Rightarrow> string" where
  "group_ranking_text ProtonScore = ''proton-score''"
| "group_ranking_text BalancedRanking = ''balanced''"
| "group_ranking_text LoadRanking = ''load''"
| "group_ranking_text LatencyRanking = ''latency''"
| "group_ranking_text RandomCountryThenServer = ''random-country-then-server''"

definition group_ranking_parse :: "string \<Rightarrow> GroupRankingPolicy option" where
  "group_ranking_parse token =
     (if token = ''proton-score'' then Some ProtonScore
      else if token = ''balanced'' then Some BalancedRanking
      else if token = ''load'' then Some LoadRanking
      else if token = ''latency'' then Some LatencyRanking
      else if token = ''random-country-then-server'' then Some RandomCountryThenServer
      else None)"

datatype GroupTarget =
    GroupFastest bool
  | FastestInCountry string
  | FastestInRegion string
  | GroupRandom
  | GroupSecureCore string string

record GroupEntry =
  ge_id :: string
  ge_label :: string
  ge_origin :: GroupOrigin
  ge_definition_source :: DefinitionSource
  ge_entitlement :: GroupEntitlement
  ge_immutable :: bool
  ge_connection_type :: "ConnectionType option"
  ge_target :: GroupTarget
  ge_ranking_policy :: GroupRankingPolicy
  ge_allowed_ranking_overrides :: "GroupRankingPolicy list"
  ge_protocol_override :: "ProtocolConstraint option"
  ge_connection_overrides :: "(string \<times> string) list"
  ge_selection_authority :: "string option"
  ge_sources :: "string list"

record RegionEntry =
  rg_name :: string
  rg_m49_codes :: "string list"

section \<open>The catalog\<close>

definition CATALOG_REVISION :: string where
  "CATALOG_REVISION = ''2026-08-14''"

definition TAXONOMY_REVISION :: string where
  "TAXONOMY_REVISION = ''un-m49-six-continent-view@2026-08-14''"

definition REGISTRY :: "GroupEntry list" where
  "REGISTRY = [
     \<lparr>ge_id = ''proton:fastest-country'', ge_label = ''Fastest country'', ge_origin = ProtonOrigin,
      ge_definition_source = OfficialClientCompat, ge_entitlement = PlanDependent, ge_immutable = True,
      ge_connection_type = Some Standard, ge_target = GroupFastest False, ge_ranking_policy = ProtonScore,
      ge_allowed_ranking_overrides = [], ge_protocol_override = None, ge_connection_overrides = [],
      ge_selection_authority = None, ge_sources = [''proton_default_connection'', ''proton_connection_profiles'']\<rparr>,
     \<lparr>ge_id = ''proton:fastest-excluding-my-country'', ge_label = ''Fastest country (excluding my country)'',
      ge_origin = ProtonOrigin, ge_definition_source = OfficialClientCompat, ge_entitlement = PlanDependent, ge_immutable = True,
      ge_connection_type = Some Standard, ge_target = GroupFastest True, ge_ranking_policy = ProtonScore,
      ge_allowed_ranking_overrides = [], ge_protocol_override = None, ge_connection_overrides = [],
      ge_selection_authority = None, ge_sources = [''android_fastest_exclusion'', ''proton_windows_release_notes'']\<rparr>,
     \<lparr>ge_id = ''proton:random-country'', ge_label = ''Random country'', ge_origin = ProtonOrigin,
      ge_definition_source = OfficialClientCompat, ge_entitlement = PlanDependent, ge_immutable = True,
      ge_connection_type = Some Standard, ge_target = GroupRandom, ge_ranking_policy = RandomCountryThenServer,
      ge_allowed_ranking_overrides = [], ge_protocol_override = None, ge_connection_overrides = [],
      ge_selection_authority = Some ''proton-backend-when-required'',
      ge_sources = [''proton_default_connection'', ''proton_windows_release_notes'']\<rparr>,
     \<lparr>ge_id = ''proton:streaming-us'', ge_label = ''Streaming US'', ge_origin = ProtonOrigin,
      ge_definition_source = OfficialClientCompat, ge_entitlement = TargetAndFeatureDependent, ge_immutable = True,
      ge_connection_type = Some Standard, ge_target = FastestInCountry ''US'', ge_ranking_policy = ProtonScore,
      ge_allowed_ranking_overrides = [], ge_protocol_override = Some WireguardUdp, ge_connection_overrides = [],
      ge_selection_authority = None, ge_sources = [''android_initial_profiles'']\<rparr>,
     \<lparr>ge_id = ''proton:gaming'', ge_label = ''Gaming'', ge_origin = ProtonOrigin,
      ge_definition_source = OfficialClientCompat, ge_entitlement = TargetAndFeatureDependent, ge_immutable = True,
      ge_connection_type = Some Standard, ge_target = GroupFastest False, ge_ranking_policy = ProtonScore,
      ge_allowed_ranking_overrides = [], ge_protocol_override = None, ge_connection_overrides = [(''nat'', ''moderate'')],
      ge_selection_authority = None, ge_sources = [''android_initial_profiles'']\<rparr>,
     \<lparr>ge_id = ''proton:anti-censorship'', ge_label = ''Anti-censorship'', ge_origin = ProtonOrigin,
      ge_definition_source = OfficialClientCompat, ge_entitlement = TargetAndFeatureDependent, ge_immutable = True,
      ge_connection_type = Some Standard, ge_target = GroupFastest True, ge_ranking_policy = ProtonScore,
      ge_allowed_ranking_overrides = [], ge_protocol_override = Some Stealth, ge_connection_overrides = [],
      ge_selection_authority = None, ge_sources = [''android_initial_profiles'', ''android_fastest_exclusion'']\<rparr>,
     \<lparr>ge_id = ''proton:max-security'', ge_label = ''Max security'', ge_origin = ProtonOrigin,
      ge_definition_source = OfficialClientCompat, ge_entitlement = TargetAndFeatureDependent, ge_immutable = True,
      ge_connection_type = None, ge_target = GroupSecureCore ''fastest'' ''fastest'', ge_ranking_policy = ProtonScore,
      ge_allowed_ranking_overrides = [], ge_protocol_override = None, ge_connection_overrides = [(''lan_access'', ''block'')],
      ge_selection_authority = None, ge_sources = [''android_initial_profiles'']\<rparr>,
     \<lparr>ge_id = ''proton:work-school'', ge_label = ''Work/School'', ge_origin = ProtonOrigin,
      ge_definition_source = OfficialClientCompat, ge_entitlement = TargetAndFeatureDependent, ge_immutable = True,
      ge_connection_type = Some Standard, ge_target = GroupFastest False, ge_ranking_policy = ProtonScore,
      ge_allowed_ranking_overrides = [], ge_protocol_override = Some Stealth,
      ge_connection_overrides = [(''lan_access'', ''block'')], ge_selection_authority = None,
      ge_sources = [''android_initial_profiles'']\<rparr>,
     \<lparr>ge_id = ''protonwire:fastest-africa'', ge_label = ''Fastest Africa'', ge_origin = ProtonwireOrigin,
      ge_definition_source = ProtonwireDefined, ge_entitlement = PaidLocationSelection, ge_immutable = True,
      ge_connection_type = None, ge_target = FastestInRegion ''africa'', ge_ranking_policy = ProtonScore,
      ge_allowed_ranking_overrides = [BalancedRanking, LoadRanking, LatencyRanking], ge_protocol_override = None,
      ge_connection_overrides = [], ge_selection_authority = None, ge_sources = [''un_m49'']\<rparr>,
     \<lparr>ge_id = ''protonwire:fastest-asia'', ge_label = ''Fastest Asia'', ge_origin = ProtonwireOrigin,
      ge_definition_source = ProtonwireDefined, ge_entitlement = PaidLocationSelection, ge_immutable = True,
      ge_connection_type = None, ge_target = FastestInRegion ''asia'', ge_ranking_policy = ProtonScore,
      ge_allowed_ranking_overrides = [BalancedRanking, LoadRanking, LatencyRanking], ge_protocol_override = None,
      ge_connection_overrides = [], ge_selection_authority = None, ge_sources = [''un_m49'']\<rparr>,
     \<lparr>ge_id = ''protonwire:fastest-europe'', ge_label = ''Fastest Europe'', ge_origin = ProtonwireOrigin,
      ge_definition_source = ProtonwireDefined, ge_entitlement = PaidLocationSelection, ge_immutable = True,
      ge_connection_type = None, ge_target = FastestInRegion ''europe'', ge_ranking_policy = ProtonScore,
      ge_allowed_ranking_overrides = [BalancedRanking, LoadRanking, LatencyRanking], ge_protocol_override = None,
      ge_connection_overrides = [], ge_selection_authority = None, ge_sources = [''un_m49'']\<rparr>,
     \<lparr>ge_id = ''protonwire:fastest-north-america'', ge_label = ''Fastest North America'', ge_origin = ProtonwireOrigin,
      ge_definition_source = ProtonwireDefined, ge_entitlement = PaidLocationSelection, ge_immutable = True,
      ge_connection_type = None, ge_target = FastestInRegion ''north-america'', ge_ranking_policy = ProtonScore,
      ge_allowed_ranking_overrides = [BalancedRanking, LoadRanking, LatencyRanking], ge_protocol_override = None,
      ge_connection_overrides = [], ge_selection_authority = None, ge_sources = [''un_m49'']\<rparr>,
     \<lparr>ge_id = ''protonwire:fastest-south-america'', ge_label = ''Fastest South America'', ge_origin = ProtonwireOrigin,
      ge_definition_source = ProtonwireDefined, ge_entitlement = PaidLocationSelection, ge_immutable = True,
      ge_connection_type = None, ge_target = FastestInRegion ''south-america'', ge_ranking_policy = ProtonScore,
      ge_allowed_ranking_overrides = [BalancedRanking, LoadRanking, LatencyRanking], ge_protocol_override = None,
      ge_connection_overrides = [], ge_selection_authority = None, ge_sources = [''un_m49'']\<rparr>,
     \<lparr>ge_id = ''protonwire:fastest-oceania'', ge_label = ''Fastest Oceania'', ge_origin = ProtonwireOrigin,
      ge_definition_source = ProtonwireDefined, ge_entitlement = PaidLocationSelection, ge_immutable = True,
      ge_connection_type = None, ge_target = FastestInRegion ''oceania'', ge_ranking_policy = ProtonScore,
      ge_allowed_ranking_overrides = [BalancedRanking, LoadRanking, LatencyRanking], ge_protocol_override = None,
      ge_connection_overrides = [], ge_selection_authority = None, ge_sources = [''un_m49'']\<rparr>]"

definition REGIONS :: "RegionEntry list" where
  "REGIONS = [
     \<lparr>rg_name = ''africa'', rg_m49_codes = [''002'']\<rparr>,
     \<lparr>rg_name = ''asia'', rg_m49_codes = [''142'']\<rparr>,
     \<lparr>rg_name = ''europe'', rg_m49_codes = [''150'']\<rparr>,
     \<lparr>rg_name = ''north-america'', rg_m49_codes = [''021'', ''013'', ''029'']\<rparr>,
     \<lparr>rg_name = ''oceania'', rg_m49_codes = [''009'']\<rparr>,
     \<lparr>rg_name = ''south-america'', rg_m49_codes = [''005'']\<rparr>]"

definition COUNTRY_REGIONS :: "(string \<times> string) list" where
  "COUNTRY_REGIONS = [
     (''AD'', ''europe''), (''AE'', ''asia''), (''AF'', ''asia''), (''AG'', ''north-america''), (''AI'', ''north-america''),
     (''AL'', ''europe''), (''AM'', ''asia''), (''AO'', ''africa''), (''AR'', ''south-america''), (''AS'', ''oceania''),
     (''AT'', ''europe''), (''AU'', ''oceania''), (''AW'', ''north-america''), (''AX'', ''europe''), (''AZ'', ''asia''),
     (''BA'', ''europe''), (''BB'', ''north-america''), (''BD'', ''asia''), (''BE'', ''europe''), (''BF'', ''africa''),
     (''BG'', ''europe''), (''BH'', ''asia''), (''BI'', ''africa''), (''BJ'', ''africa''), (''BL'', ''north-america''),
     (''BM'', ''north-america''), (''BN'', ''asia''), (''BO'', ''south-america''), (''BQ'', ''north-america''),
     (''BR'', ''south-america''), (''BS'', ''north-america''), (''BT'', ''asia''), (''BV'', ''south-america''),
     (''BW'', ''africa''), (''BY'', ''europe''), (''BZ'', ''north-america''), (''CA'', ''north-america''), (''CC'', ''oceania''),
     (''CD'', ''africa''), (''CF'', ''africa''), (''CG'', ''africa''), (''CH'', ''europe''), (''CI'', ''africa''),
     (''CK'', ''oceania''), (''CL'', ''south-america''), (''CM'', ''africa''), (''CN'', ''asia''), (''CO'', ''south-america''),
     (''CR'', ''north-america''), (''CU'', ''north-america''), (''CV'', ''africa''), (''CW'', ''north-america''),
     (''CX'', ''oceania''), (''CY'', ''asia''), (''CZ'', ''europe''), (''DE'', ''europe''), (''DJ'', ''africa''),
     (''DK'', ''europe''), (''DM'', ''north-america''), (''DO'', ''north-america''), (''DZ'', ''africa''),
     (''EC'', ''south-america''), (''EE'', ''europe''), (''EG'', ''africa''), (''EH'', ''africa''), (''ER'', ''africa''),
     (''ES'', ''europe''), (''ET'', ''africa''), (''FI'', ''europe''), (''FJ'', ''oceania''), (''FK'', ''south-america''),
     (''FM'', ''oceania''), (''FO'', ''europe''), (''FR'', ''europe''), (''GA'', ''africa''), (''GB'', ''europe''),
     (''GD'', ''north-america''), (''GE'', ''asia''), (''GF'', ''south-america''), (''GG'', ''europe''), (''GH'', ''africa''),
     (''GI'', ''europe''), (''GL'', ''north-america''), (''GM'', ''africa''), (''GN'', ''africa''), (''GP'', ''north-america''),
     (''GQ'', ''africa''), (''GR'', ''europe''), (''GS'', ''south-america''), (''GT'', ''north-america''), (''GU'', ''oceania''),
     (''GW'', ''africa''), (''GY'', ''south-america''), (''HK'', ''asia''), (''HM'', ''oceania''), (''HN'', ''north-america''),
     (''HR'', ''europe''), (''HT'', ''north-america''), (''HU'', ''europe''), (''ID'', ''asia''), (''IE'', ''europe''),
     (''IL'', ''asia''), (''IM'', ''europe''), (''IN'', ''asia''), (''IO'', ''africa''), (''IQ'', ''asia''), (''IR'', ''asia''),
     (''IS'', ''europe''), (''IT'', ''europe''), (''JE'', ''europe''), (''JM'', ''north-america''), (''JO'', ''asia''),
     (''JP'', ''asia''), (''KE'', ''africa''), (''KG'', ''asia''), (''KH'', ''asia''), (''KI'', ''oceania''),
     (''KM'', ''africa''), (''KN'', ''north-america''), (''KP'', ''asia''), (''KR'', ''asia''), (''KW'', ''asia''),
     (''KY'', ''north-america''), (''KZ'', ''asia''), (''LA'', ''asia''), (''LB'', ''asia''), (''LC'', ''north-america''),
     (''LI'', ''europe''), (''LK'', ''asia''), (''LR'', ''africa''), (''LS'', ''africa''), (''LT'', ''europe''),
     (''LU'', ''europe''), (''LV'', ''europe''), (''LY'', ''africa''), (''MA'', ''africa''), (''MC'', ''europe''),
     (''MD'', ''europe''), (''ME'', ''europe''), (''MF'', ''north-america''), (''MG'', ''africa''), (''MH'', ''oceania''),
     (''MK'', ''europe''), (''ML'', ''africa''), (''MM'', ''asia''), (''MN'', ''asia''), (''MO'', ''asia''),
     (''MP'', ''oceania''), (''MQ'', ''north-america''), (''MR'', ''africa''), (''MS'', ''north-america''), (''MT'', ''europe''),
     (''MU'', ''africa''), (''MV'', ''asia''), (''MW'', ''africa''), (''MX'', ''north-america''), (''MY'', ''asia''),
     (''MZ'', ''africa''), (''NA'', ''africa''), (''NC'', ''oceania''), (''NE'', ''africa''), (''NF'', ''oceania''),
     (''NG'', ''africa''), (''NI'', ''north-america''), (''NL'', ''europe''), (''NO'', ''europe''), (''NP'', ''asia''),
     (''NR'', ''oceania''), (''NU'', ''oceania''), (''NZ'', ''oceania''), (''OM'', ''asia''), (''PA'', ''north-america''),
     (''PE'', ''south-america''), (''PF'', ''oceania''), (''PG'', ''oceania''), (''PH'', ''asia''), (''PK'', ''asia''),
     (''PL'', ''europe''), (''PM'', ''north-america''), (''PN'', ''oceania''), (''PR'', ''north-america''), (''PS'', ''asia''),
     (''PT'', ''europe''), (''PW'', ''oceania''), (''PY'', ''south-america''), (''QA'', ''asia''), (''RE'', ''africa''),
     (''RO'', ''europe''), (''RS'', ''europe''), (''RU'', ''europe''), (''RW'', ''africa''), (''SA'', ''asia''),
     (''SB'', ''oceania''), (''SC'', ''africa''), (''SD'', ''africa''), (''SE'', ''europe''), (''SG'', ''asia''),
     (''SH'', ''africa''), (''SI'', ''europe''), (''SJ'', ''europe''), (''SK'', ''europe''), (''SL'', ''africa''),
     (''SM'', ''europe''), (''SN'', ''africa''), (''SO'', ''africa''), (''SR'', ''south-america''), (''SS'', ''africa''),
     (''ST'', ''africa''), (''SV'', ''north-america''), (''SX'', ''north-america''), (''SY'', ''asia''), (''SZ'', ''africa''),
     (''TC'', ''north-america''), (''TD'', ''africa''), (''TF'', ''africa''), (''TG'', ''africa''), (''TH'', ''asia''),
     (''TJ'', ''asia''), (''TK'', ''oceania''), (''TL'', ''asia''), (''TM'', ''asia''), (''TN'', ''africa''),
     (''TO'', ''oceania''), (''TR'', ''asia''), (''TT'', ''north-america''), (''TV'', ''oceania''), (''TZ'', ''africa''),
     (''UA'', ''europe''), (''UG'', ''africa''), (''UM'', ''oceania''), (''US'', ''north-america''), (''UY'', ''south-america''),
     (''UZ'', ''asia''), (''VA'', ''europe''), (''VC'', ''north-america''), (''VE'', ''south-america''),
     (''VG'', ''north-america''), (''VI'', ''north-america''), (''VN'', ''asia''), (''VU'', ''oceania''), (''WF'', ''oceania''),
     (''WS'', ''oceania''), (''YE'', ''asia''), (''YT'', ''africa''), (''ZA'', ''africa''), (''ZM'', ''africa''),
     (''ZW'', ''africa'')]"

end
