(* ===== verification/Country_Groups.thy ===== *)
theory Country_Groups
  imports Group_Registry
begin

text \<open>
  Connection groups: lookups in the catalog, the resolver that maps a group onto a selection
  request, and the composed selection (\<open>core/src/groups.rs\<close>).
\<close>

section \<open>Lookups\<close>

definition find_group :: "string \<Rightarrow> GroupEntry option" where
  "find_group i = find (\<lambda>entry. ge_id entry = i) REGISTRY"

definition region_countries :: "string \<Rightarrow> string list option" where
  "region_countries region =
     (if list_ex (\<lambda>entry. rg_name entry = region) REGIONS
      then Some (map fst (filter (\<lambda>(cc, member_of). member_of = region) COUNTRY_REGIONS))
      else None)"

definition country_region :: "string \<Rightarrow> string option" where
  "country_region cc = map_option snd (find (\<lambda>(code, region). code = cc) COUNTRY_REGIONS)"

section \<open>Resolution\<close>

record PhysicalCountrySources =
  explicit_request :: "string option"
  pcs_config :: "string option"
  cached_location :: "string option"

definition option_or :: "'a option \<Rightarrow> 'a option \<Rightarrow> 'a option" where
  "option_or a b = (case a of Some x \<Rightarrow> Some x | None \<Rightarrow> b)"

definition physical_resolve :: "PhysicalCountrySources \<Rightarrow> string option" where
  "physical_resolve p = option_or (option_or (explicit_request p) (pcs_config p)) (cached_location p)"

datatype GroupError =
    UnknownGroup string
  | UnsupportedGroupSignal string
  | RankingOverrideForbidden string string
  | RankingOverrideNotDeclared string string string
  | RankingOverrideUnavailable string string

datatype PolicyProvenance = CatalogDefault | DeclaredOverride

record ResolvedGroup =
  rs_group :: GroupEntry
  rs_request :: SelectionRequest
  rs_policy_provenance :: PolicyProvenance

primrec to_selection_policy :: "GroupRankingPolicy \<Rightarrow> WeightedSignals \<Rightarrow> RankingPolicy" where
  "to_selection_policy ProtonScore w = Official"
| "to_selection_policy BalancedRanking w = Balanced w"
| "to_selection_policy LoadRanking w = LowestLoad"
| "to_selection_policy RandomCountryThenServer w = Random"
| "to_selection_policy LatencyRanking w = Latency"

definition routed_side :: "string \<Rightarrow> string option" where
  "routed_side token = (if token \<noteq> ''fastest'' then Some token else None)"

fun join_comma :: "string list \<Rightarrow> string" where
  "join_comma [] = []"
| "join_comma [x] = x"
| "join_comma (x # y # xs) = x @ '', '' @ join_comma (y # xs)"

definition declared_overrides :: "GroupEntry \<Rightarrow> string" where
  "declared_overrides g =
     (if ge_allowed_ranking_overrides g = [] then ''none''
      else join_comma (map group_ranking_text (ge_allowed_ranking_overrides g)))"

text \<open>The ranking policy of a request, and the target with its constraints.\<close>

definition resolve_policy :: "GroupEntry \<Rightarrow> string option \<Rightarrow> WeightedSignals \<Rightarrow> (GroupError, RankingPolicy \<times> PolicyProvenance) res" where
  "resolve_policy g ranking_override w =
     (case ranking_override of
        None \<Rightarrow> Ok (to_selection_policy (ge_ranking_policy g) w, CatalogDefault)
      | Some by_mode \<Rightarrow>
          if ge_origin g = ProtonOrigin then Err (RankingOverrideForbidden (ge_id g) by_mode)
          else case group_ranking_parse by_mode of
              None \<Rightarrow> Err (RankingOverrideNotDeclared (ge_id g) by_mode (declared_overrides g))
            | Some requested \<Rightarrow>
                if requested \<notin> set (ge_allowed_ranking_overrides g)
                then Err (RankingOverrideNotDeclared (ge_id g) by_mode (declared_overrides g))
                else Ok (to_selection_policy requested w, DeclaredOverride))"

definition resolve_target :: "GroupEntry \<Rightarrow> PhysicalCountrySources \<Rightarrow> (GroupError, Target \<times> Constraints) res" where
  "resolve_target g physical =
     (let c = Constraints_default\<lparr>required_protocol := ge_protocol_override g\<rparr> in
      case ge_target g of
        GroupFastest exclude \<Rightarrow>
          Ok (Fastest,
            if exclude then c\<lparr>exclude_physical_country := True, physical_country := physical_resolve physical\<rparr>
            else c\<lparr>exclude_physical_country := False\<rparr>)
      | FastestInCountry cc \<Rightarrow> Ok (Country cc, c)
      | FastestInRegion region \<Rightarrow>
          (case region_countries region of None \<Rightarrow> Panic | Some ccs \<Rightarrow> Ok (Countries ccs, c))
      | GroupRandom \<Rightarrow> Ok (Fastest, c)
      | GroupSecureCore entry exit \<Rightarrow> Ok (SecureCore (routed_side entry) (routed_side exit), c))"

definition resolve_group :: "string \<Rightarrow> string option \<Rightarrow> PhysicalCountrySources \<Rightarrow> WeightedSignals \<Rightarrow> (GroupError, ResolvedGroup) res" where
  "resolve_group i ranking_override physical w =
     (case find_group i of
        None \<Rightarrow> Err (UnknownGroup i)
      | Some g \<Rightarrow>
          if ranking_override \<noteq> None \<and> the ranking_override \<in> set FORBIDDEN_RANKING_SIGNALS
          then Err (UnsupportedGroupSignal (the ranking_override))
          else
            and_then (resolve_policy g ranking_override w) (\<lambda>(policy, provenance).
            and_then (resolve_target g physical) (\<lambda>(target, constraints).
            Ok \<lparr>rs_group = g, rs_request = \<lparr>target = target, policy = policy, constraints = constraints\<rparr>,
                rs_policy_provenance = provenance\<rparr>)))"

datatype GroupSelectionError = GroupRefused GroupError | SelectionRefused SelectionError

definition select_group :: "CatalogDocument \<Rightarrow> string \<Rightarrow> string option \<Rightarrow> PhysicalCountrySources \<Rightarrow> WeightedSignals \<Rightarrow>
    SelectionContext \<Rightarrow> (GroupSelectionError, SelectionOutcome) res" where
  "select_group catalog i ranking_override physical w ctx =
     and_then (map_err GroupRefused (resolve_group i ranking_override physical w)) (\<lambda>resolved.
     map_err SelectionRefused (select catalog (rs_request resolved) ctx))"

section \<open>The catalog's data\<close>

text \<open>The table is in ascending order of the codes, so no country has two entries.\<close>

fun ascending :: "nat list \<Rightarrow> bool" where
  "ascending (x # y # xs) \<longleftrightarrow> x < y \<and> ascending (y # xs)"
| "ascending _ \<longleftrightarrow> True"

lemma ascending_sorted: "ascending xs \<Longrightarrow> sorted_wrt (<) xs"
  by (induction xs rule: ascending.induct) auto

lemma ascending_distinct: "ascending xs \<Longrightarrow> distinct xs"
  using ascending_sorted strict_sorted_iff by blast

definition code_key :: "string \<Rightarrow> nat" where
  "code_key cc = foldl (\<lambda>n c. n * 256 + of_char c) 0 cc"

lemma country_codes_ascending: "ascending (map (code_key \<circ> fst) COUNTRY_REGIONS)"
  by (simp add: COUNTRY_REGIONS_def code_key_def)

lemma country_codes_distinct: "distinct (map fst COUNTRY_REGIONS)"
  using distinct_map [of code_key "map fst COUNTRY_REGIONS"] ascending_distinct [OF country_codes_ascending] by simp

lemma country_region_map_of: "country_region cc = map_of COUNTRY_REGIONS cc"
proof -
  have "map_option snd (find (\<lambda>(code, region). code = cc) xs) = map_of xs cc" for xs :: "(string \<times> string) list"
    by (induction xs) auto
  then show ?thesis by (simp add: country_region_def)
qed

lemma region_member:
  assumes "region_countries region = Some ccs"
  shows "cc \<in> set ccs \<longleftrightarrow> country_region cc = Some region"
  using assms country_codes_distinct
  by (force simp: region_countries_def country_region_map_of map_of_eq_Some_iff split: if_splits)

definition entry_ok :: "GroupEntry \<Rightarrow> bool" where
  "entry_ok g \<longleftrightarrow>
     (ge_origin g = ProtonwireOrigin \<longleftrightarrow> take 11 (ge_id g) = ''protonwire:'') \<and>
     (ge_origin g = ProtonwireOrigin \<longrightarrow> ge_allowed_ranking_overrides g = [BalancedRanking, LoadRanking, LatencyRanking]) \<and>
     (case ge_target g of
        FastestInCountry cc \<Rightarrow> validate_country cc = Ok ()
      | FastestInRegion r \<Rightarrow> list_ex (\<lambda>e. rg_name e = r) REGIONS
      | GroupSecureCore entry exit \<Rightarrow> entry = ''fastest'' \<and> exit = ''fastest''
      | _ \<Rightarrow> True)"

lemma registry_ok: "list_all entry_ok REGISTRY"
  by (simp add: REGISTRY_def entry_ok_def REGIONS_def validate_country_def is_ascii_uppercase_def less_eq_char_def)

lemma find_group_ok:
  assumes "find_group i = Some g"
  shows "g \<in> set REGISTRY \<and> ge_id g = i \<and> entry_ok g"
  using assms registry_ok by (auto simp: find_group_def find_Some_iff list_all_iff)

lemma find_group_known: "find_group i \<noteq> None \<longleftrightarrow> i \<in> ge_id ` set REGISTRY"
  by (auto simp: find_group_def find_None_iff)

lemma country_codes_valid: "list_all (\<lambda>(cc, r). validate_country cc = Ok ()) COUNTRY_REGIONS"
  by (simp add: COUNTRY_REGIONS_def validate_country_def is_ascii_uppercase_def less_eq_char_def)

section \<open>What a group means\<close>

text \<open>The members of a group, stated over servers and without selection's vocabulary of targets and constraints.\<close>

definition standard_server :: "LogicalServer \<Rightarrow> bool" where
  "standard_server s \<longleftrightarrow> gateway_name s = None \<and> entry_country s = exit_country s \<and> \<not> secure_core (features s)"

definition group_admits :: "GroupEntry \<Rightarrow> string option \<Rightarrow> LogicalServer \<Rightarrow> bool" where
  "group_admits g physical s \<longleftrightarrow>
     (case ge_target g of
        GroupFastest exclude \<Rightarrow> standard_server s \<and> (exclude \<longrightarrow> physical \<noteq> Some (exit_country s))
      | FastestInCountry cc \<Rightarrow> standard_server s \<and> exit_country s = cc
      | FastestInRegion region \<Rightarrow> standard_server s \<and> country_region (exit_country s) = Some region
      | GroupRandom \<Rightarrow> standard_server s
      | GroupSecureCore entry exit \<Rightarrow> gateway_name s = None \<and> entry_country s \<noteq> exit_country s) \<and>
     (\<forall>p. ge_protocol_override g = Some p \<longrightarrow> protocol_holds s p)"

definition effective_ranking :: "GroupEntry \<Rightarrow> string option \<Rightarrow> GroupRankingPolicy" where
  "effective_ranking g ranking_override =
     (case ranking_override of None \<Rightarrow> ge_ranking_policy g | Some by_mode \<Rightarrow> the (group_ranking_parse by_mode))"

lemma resolve_target_total: "entry_ok g \<Longrightarrow> \<exists>t c. resolve_target g physical = Ok (t, c)"
  by (auto simp: resolve_target_def entry_ok_def region_countries_def Let_def split: GroupTarget.splits)

lemma resolve_policy_Ok:
  "resolve_policy g ranking_override w = Ok (p, prov) \<Longrightarrow> p = to_selection_policy (effective_ranking g ranking_override) w"
  by (auto simp: resolve_policy_def effective_ranking_def split: option.splits if_splits)

lemma resolve_group_Ok:
  assumes "resolve_group i ranking_override physical w = Ok r"
  obtains g where "find_group i = Some g" "rs_group r = g"
    "policy (rs_request r) = to_selection_policy (effective_ranking g ranking_override) w"
    "resolve_target g physical = Ok (target (rs_request r), constraints (rs_request r))"
  using assms by (auto simp: resolve_group_def res_simps split: option.splits if_splits prod.splits dest: resolve_policy_Ok)

lemma resolved_eligible:
  assumes ok: "entry_ok g" and r: "resolve_target g physical = Ok (t, c)" and req: "target req = t" "constraints req = c"
  shows "eligible s req ctx \<longleftrightarrow> group_admits g (physical_resolve physical) s \<and> connectable s \<and>
    (\<forall>limit. account_tier ctx = Some limit \<longrightarrow> tier s \<le> limit)"
proof -
  have p: "required_protocol c = ge_protocol_override g" "required_features c = []"
    using r by (auto simp: resolve_target_def Let_def Constraints_default_def split: GroupTarget.splits if_splits option.splits)
  have "in_scope t s \<and> not_excluded s c \<longleftrightarrow>
      group_admits (g\<lparr>ge_protocol_override := None\<rparr>) (physical_resolve physical) s"
  proof (cases "ge_target g")
    case (FastestInRegion region)
    then obtain ccs where "region_countries region = Some ccs" "t = Countries ccs"
      "c = Constraints_default\<lparr>required_protocol := ge_protocol_override g\<rparr>"
      using r by (auto simp: resolve_target_def Let_def split: option.splits)
    with region_member [of region ccs "exit_country s"] FastestInRegion show ?thesis
      by (auto simp: in_scope_def not_excluded_def Constraints_default_def group_admits_def standard_server_def)
  next
    case (GroupSecureCore entry exit)
    with ok r show ?thesis
      by (auto simp: resolve_target_def Let_def entry_ok_def routed_side_def in_scope_def not_excluded_def Constraints_default_def
          group_admits_def)
  qed (use r in \<open>auto simp: resolve_target_def Let_def in_scope_def not_excluded_def Constraints_default_def group_admits_def
        standard_server_def split: if_splits\<close>)
  with p req show ?thesis by (auto simp: eligible_def group_admits_def)
qed

text \<open>A resolved request is refused before filtering only for its physical country.\<close>

lemma check_plain:
  assumes "target req = t" and "constraints req = Constraints_default\<lparr>required_protocol := p, exclude_physical_country := x, physical_country := pc\<rparr>"
  shows "check_request req ctx = and_then (validate_target_countries t) (\<lambda>_. and_then (validate_opt_country pc) (\<lambda>_.
    if x \<and> pc = None then Err PhysicalCountryRequired else Ok ()))"
  using assms
  by (cases "validate_target_countries t"; cases "validate_opt_country pc")
    (simp_all add: check_request_def validate_request_countries_def needs_port_forwarding_composition_def Constraints_default_def)

lemma region_codes_valid:
  assumes "region_countries region = Some ccs"
  shows "for_each validate_country ccs = Ok ()"
proof -
  have "list_all (\<lambda>cc. validate_country cc = Ok ()) ccs"
    using assms country_codes_valid by (fastforce simp: region_countries_def list_all_iff split: if_splits)
  then show ?thesis by (induction ccs) auto
qed

definition group_constraints :: "GroupEntry \<Rightarrow> bool \<Rightarrow> string option \<Rightarrow> Constraints" where
  "group_constraints g x pc =
     Constraints_default\<lparr>required_protocol := ge_protocol_override g, exclude_physical_country := x, physical_country := pc\<rparr>"

lemma resolve_target_form:
  assumes ok: "entry_ok g" and r: "resolve_target g physical = Ok (t, c)"
  shows "validate_target_countries t = Ok () \<and>
    c = (if ge_target g = GroupFastest True then group_constraints g True (physical_resolve physical) else group_constraints g False None)"
proof (cases "ge_target g")
  case (FastestInRegion region)
  then obtain ccs where "region_countries region = Some ccs" "t = Countries ccs"
    "c = Constraints_default\<lparr>required_protocol := ge_protocol_override g\<rparr>"
    using r by (auto simp: resolve_target_def Let_def split: option.splits)
  with FastestInRegion region_codes_valid [of region ccs] show ?thesis
    by (simp add: validate_target_countries_def group_constraints_def Constraints_default_def)
qed (use ok r in \<open>auto simp: resolve_target_def Let_def entry_ok_def routed_side_def validate_target_countries_def
    validate_opt_country_def group_constraints_def Constraints_default_def split: if_splits\<close>)

lemma resolved_check:
  assumes "entry_ok g" and "resolve_target g physical = Ok (t, c)" and "target req = t" "constraints req = c"
    and e: "check_request req ctx = Err e"
  shows "ge_target g = GroupFastest True \<and>
    (e = PhysicalCountryRequired \<and> physical_resolve physical = None \<or> (\<exists>cc. e = InvalidCountry cc \<and> physical_resolve physical = Some cc))"
proof (cases "ge_target g = GroupFastest True")
  case True
  then have "constraints req = group_constraints g True (physical_resolve physical)" "validate_target_countries t = Ok ()"
    using resolve_target_form [OF assms(1,2)] assms(4) by simp_all
  from check_plain [OF assms(3) this(1) [unfolded group_constraints_def], of ctx] this(2) e True show ?thesis
    by (cases "physical_resolve physical")
      (auto simp: validate_opt_country_def and_then_Err_iff dest!: sym [of "Err e"] validate_country_Err)
next
  case False
  then have "constraints req = group_constraints g False None" "validate_target_countries t = Ok ()"
    using resolve_target_form [OF assms(1,2)] assms(4) by simp_all
  from check_plain [OF assms(3) this(1) [unfolded group_constraints_def], of ctx] this(2) e show ?thesis
    by (simp add: validate_opt_country_def)
qed

section \<open>Properties\<close>

text \<open>
  C37. A group selects exactly its members: when \<open>select_group\<close> answers, the id is one of the
  catalog's, and the answer is every server of the catalog that the group's definition admits (its
  country, its UN region, its Secure Core route, not the physical country where that is excluded,
  with its protocol), that is online, within the account's tier and rankable by the effective
  policy, each as often as listed; a group that excludes the physical country answers only when
  that country is known.
\<close>

theorem group_selects_its_members:
  assumes "catalog_ok catalog" and "select_group catalog i ranking_override physical w ctx = Ok out"
  shows "\<exists>g\<in>set REGISTRY. ge_id g = i \<and> ranked out \<noteq> [] \<and>
    mset (map server (ranked out)) =
      mset (filter (\<lambda>s. group_admits g (physical_resolve physical) s \<and> connectable s \<and>
          (\<forall>limit. account_tier ctx = Some limit \<longrightarrow> tier s \<le> limit) \<and>
          policy_keeps (to_selection_policy (effective_ranking g ranking_override) w) ctx s) (logical_servers catalog)) \<and>
    (ge_target g = GroupFastest True \<longrightarrow> physical_resolve physical \<noteq> None)"
proof -
  obtain r where r: "resolve_group i ranking_override physical w = Ok r" and s: "select catalog (rs_request r) ctx = Ok out"
    using assms(2) by (auto simp: select_group_def res_simps)
  from resolve_group_Ok [OF r] obtain g where g: "find_group i = Some g"
    and p: "policy (rs_request r) = to_selection_policy (effective_ranking g ranking_override) w"
    and t: "resolve_target g physical = Ok (target (rs_request r), constraints (rs_request r))" by metis
  note k = find_group_ok [OF g]
  note el = resolved_eligible [OF _ t refl refl]
  from select_Ok_cases [OF assms(1) s] have chk: "check_request (rs_request r) ctx = Ok ()" "ranked out \<noteq> []"
    "mset (map server (ranked out)) = mset (answers catalog (rs_request r) ctx)" by metis+
  have "physical_resolve physical \<noteq> None" if "ge_target g = GroupFastest True"
  proof
    assume "physical_resolve physical = None"
    moreover have "constraints (rs_request r) = group_constraints g True (physical_resolve physical)"
      using resolve_target_form [OF _ t] that k by simp
    ultimately show False
      using check_plain [OF refl, of "rs_request r"] chk(1)
      by (auto simp: group_constraints_def validate_opt_country_def res_simps)
  qed
  with k chk(2,3) show ?thesis
    by (intro bexI [of _ g]) (simp_all add: answers_def el p conj_ac)
qed

theorem group_selects_its_members_witness:
  "\<exists>out. select_group demo_catalog ''proton:fastest-country'' None
      \<lparr>explicit_request = None, pcs_config = None, cached_location = None\<rparr> WeightedSignals_DEFAULT SelectionContext_default = Ok out \<and>
     (\<exists>g\<in>set REGISTRY. ge_id g = ''proton:fastest-country'' \<and> ranked out \<noteq> [])"
proof -
  let ?none = "\<lparr>explicit_request = None, pcs_config = None, cached_location = None\<rparr>"
  obtain g where "find_group ''proton:fastest-country'' = Some g" "ge_target g = GroupFastest False" "ge_ranking_policy g = ProtonScore"
    "ge_protocol_override g = None"
    by (simp add: find_group_def REGISTRY_def)
  then have "select_group demo_catalog ''proton:fastest-country'' None ?none WeightedSignals_DEFAULT SelectionContext_default =
      map_err SelectionRefused (select demo_catalog (demo_request Fastest Official) SelectionContext_default)"
    by (simp add: select_group_def resolve_group_def resolve_policy_def resolve_target_def demo_request_def Constraints_default_def)
  then have s: "select_group demo_catalog ''proton:fastest-country'' None ?none WeightedSignals_DEFAULT SelectionContext_default =
      Ok demo_outcome"
    by (simp add: demo_select)
  with group_selects_its_members [OF demo_catalog_ok s] show ?thesis by blast
qed

text \<open>
  C38. Resolution is total and disciplined: it never reaches its \<open>unreachable!\<close> arm; it answers
  exactly for the ids of the catalog, without an override or, on a \<open>protonwire:\<close> group only, with
  \<open>balanced\<close>, \<open>load\<close> or \<open>latency\<close> (so no official preset is re-ranked and no throughput signal gets
  through); and selection refuses the resolved request itself only because of the physical
  country of a group that excludes it, when that is unknown or not a country code.
\<close>

theorem group_resolution_total_and_disciplined:
  "resolve_group i ranking_override physical w \<noteq> Panic \<and>
   ((\<exists>r. resolve_group i ranking_override physical w = Ok r) \<longleftrightarrow>
      i \<in> ge_id ` set REGISTRY \<and>
      (ranking_override = None \<or>
       take 11 i = ''protonwire:'' \<and> ranking_override \<in> {Some ''balanced'', Some ''load'', Some ''latency''})) \<and>
   (\<forall>r ctx e. resolve_group i ranking_override physical w = Ok r \<longrightarrow> check_request (rs_request r) ctx = Err e \<longrightarrow>
      ge_target (rs_group r) = GroupFastest True \<and>
      (e = PhysicalCountryRequired \<and> physical_resolve physical = None \<or>
       (\<exists>cc. e = InvalidCountry cc \<and> physical_resolve physical = Some cc)))"
proof (cases "find_group i")
  case None
  then have "i \<notin> ge_id ` set REGISTRY" using find_group_known by blast
  with None show ?thesis by (simp add: resolve_group_def)
next
  case (Some g)
  note k = find_group_ok [OF Some]
  have i: "i \<in> ge_id ` set REGISTRY" using k by blast
  obtain t c where t: "resolve_target g physical = Ok (t, c)" using resolve_target_total k by blast
  have policy: "resolve_policy g ranking_override w \<noteq> Panic"
    by (simp add: resolve_policy_def split: option.split)
  have "(\<exists>r. resolve_group i ranking_override physical w = Ok r) \<longleftrightarrow>
      (ranking_override = None \<or>
       take 11 i = ''protonwire:'' \<and> ranking_override \<in> {Some ''balanced'', Some ''load'', Some ''latency''})"
  proof (cases ranking_override)
    case None
    with t show ?thesis by (simp add: resolve_group_def Some resolve_policy_def)
  next
    case (Some by_mode)
    have "(\<exists>x. resolve_policy g ranking_override w = Ok x) \<longleftrightarrow>
        ge_origin g = ProtonwireOrigin \<and> by_mode \<in> {''balanced'', ''load'', ''latency''}"
      using k by (cases "ge_origin g") (auto simp: Some resolve_policy_def entry_ok_def group_ranking_parse_def)
    moreover have "by_mode \<in> {''balanced'', ''load'', ''latency''} \<Longrightarrow> by_mode \<notin> set FORBIDDEN_RANKING_SIGNALS"
      by (auto simp: FORBIDDEN_RANKING_SIGNALS_def)
    ultimately show ?thesis
      using k t \<open>find_group i = Some g\<close> by (auto simp: resolve_group_def Some entry_ok_def res_simps)
  qed
  moreover have "resolve_group i ranking_override physical w \<noteq> Panic"
    using t policy by (auto simp: resolve_group_def Some res_simps)
  moreover have "ge_target (rs_group r) = GroupFastest True \<and>
      (e = PhysicalCountryRequired \<and> physical_resolve physical = None \<or>
       (\<exists>cc. e = InvalidCountry cc \<and> physical_resolve physical = Some cc))"
    if "resolve_group i ranking_override physical w = Ok r" "check_request (rs_request r) ctx = Err e" for r ctx e
    using resolve_group_Ok [OF that(1)] resolved_check [OF _ _ refl refl that(2)] k Some by (metis option.sel)
  ultimately show ?thesis using i by blast
qed

theorem group_resolution_total_and_disciplined_witness:
  "(\<exists>r. resolve_group ''protonwire:fastest-europe'' (Some ''load'')
      \<lparr>explicit_request = None, pcs_config = None, cached_location = None\<rparr> WeightedSignals_DEFAULT = Ok r) \<and>
   \<not> (\<exists>r. resolve_group ''proton:gaming'' (Some ''load'')
      \<lparr>explicit_request = None, pcs_config = None, cached_location = None\<rparr> WeightedSignals_DEFAULT = Ok r)"
  using group_resolution_total_and_disciplined [of "''protonwire:fastest-europe''" "Some ''load''"
      "\<lparr>explicit_request = None, pcs_config = None, cached_location = None\<rparr>" WeightedSignals_DEFAULT]
    group_resolution_total_and_disciplined [of "''proton:gaming''" "Some ''load''"
      "\<lparr>explicit_request = None, pcs_config = None, cached_location = None\<rparr>" WeightedSignals_DEFAULT]
  by (simp add: REGISTRY_def)

end
