(* ===== verification/Proto_Cache.thy ===== *)
theory Proto_Cache
  imports Rust_Text
begin

text \<open>
  \<open>crates/protocol/src/cache.rs\<close>: the encrypted three-value cache behind ProTUN's
  \<open>PersistentCache\<close>. A directory is what its names show now and what they have shown since
  the directory was last synced, so that the states a power loss can leave are explicit; a
  file also records whether its bytes were synced. Every system call's failure is an input.
  The AEAD is a parameter; \<open>aead_ok\<close> is what the code relies on of it. The locale
  \<open>durable_store\<close> is the contract the persistence worker relies on, and the cache
  interprets it.
\<close>

section \<open>Keys and constants\<close>

datatype CacheKey = Certificate | PrivateKey | ApiSession

definition MAGIC :: bytes where
  "MAGIC = ''PWCACHE''"

definition CACHE_VERSION :: char where
  "CACHE_VERSION = CHR 0x01"

definition NONCE_LEN :: usize where
  "NONCE_LEN = 24"

definition KEY_LEN :: usize where
  "KEY_LEN = 32"

definition MAX_FILE_LEN :: u64 where
  "MAX_FILE_LEN = 64 * 1024"

definition MAX_PLAINTEXT_LEN :: usize where
  "MAX_PLAINTEXT_LEN = MAX_FILE_LEN - length MAGIC - 1 - NONCE_LEN - 16"

text \<open>\<open>CacheError\<close>.\<close>

datatype CacheError = KeyFile string | Init string | Io string | Crypto string

text \<open>Its \<open>Display\<close>.\<close>

primrec cache_error_text :: "CacheError \<Rightarrow> string" where
  "cache_error_text (KeyFile s) = ''keyfile: '' @ s"
| "cache_error_text (Init s) = ''init: '' @ s"
| "cache_error_text (Io s) = ''io: '' @ s"
| "cache_error_text (Crypto s) = ''crypto: '' @ s"

definition hex_slice :: "bytes \<Rightarrow> string" where
  "hex_slice bs = concat (map (\<lambda>b. [hex_char (of_char b div 16), hex_char (of_char b mod 16)]) bs)"

text \<open>The bytes \<open>getrandom::fill\<close> puts in an array of \<open>n\<close> bytes.\<close>

definition random_fill :: "nat \<Rightarrow> (nat \<Rightarrow> char) \<Rightarrow> bytes" where
  "random_fill n r = map r [0..<n]"

section \<open>Directories\<close>

record priv_file =
  pf_data :: bytes
  pf_synced :: bool

record pdir =
  pd_live :: "string \<Rightarrow> priv_file option"
  pd_past :: "string \<Rightarrow> priv_file option list"

definition dir_set :: "string \<Rightarrow> priv_file option \<Rightarrow> pdir \<Rightarrow> pdir" where
  "dir_set n e d =
     d\<lparr>pd_live := (pd_live d)(n := e), pd_past := (pd_past d)(n := pd_live d n # pd_past d n)\<rparr>"

definition dir_sync :: "pdir \<Rightarrow> pdir" where
  "dir_sync d = d\<lparr>pd_past := \<lambda>_. []\<rparr>"

text \<open>What a name can show after a power loss.\<close>

definition candidates :: "pdir \<Rightarrow> string \<Rightarrow> priv_file option list" where
  "candidates d n = pd_live d n # pd_past d n"

definition survives :: "priv_file option \<Rightarrow> priv_file option \<Rightarrow> bool" where
  "survives e e' =
     (case e of
        None \<Rightarrow> e' = None
      | Some f \<Rightarrow> (case e' of
                    None \<Rightarrow> False
                  | Some f' \<Rightarrow> pf_synced f' \<and> (pf_synced f \<longrightarrow> pf_data f' = pf_data f)))"

definition booted :: "pdir \<Rightarrow> bool" where
  "booted d = (\<forall>n. pd_past d n = [] \<and> (\<forall>f. pd_live d n = Some f \<longrightarrow> pf_synced f))"

definition crash :: "pdir \<Rightarrow> pdir \<Rightarrow> bool" where
  "crash d d' = (booted d' \<and> (\<forall>n. \<exists>e \<in> set (candidates d n). survives e (pd_live d' n)))"

text \<open>\<open>Path::file_with_extension\<close> on a file name.\<close>

definition file_stem :: "string \<Rightarrow> string" where
  "file_stem n =
     (case dropWhile (\<lambda>c. c \<noteq> CHR ''.'') (rev n) of
        [] \<Rightarrow> n
      | [_] \<Rightarrow> n
      | _ # r \<Rightarrow> rev r)"

definition file_with_extension :: "string \<Rightarrow> string \<Rightarrow> string" where
  "file_with_extension n e = file_stem n @ ''.'' @ e"

section \<open>Writing a private file\<close>

text \<open>The outcome of each call that writing an entry makes; \<open>None\<close> is success.\<close>

record put_io =
  pi_randomness :: "string option"
  pi_nonce :: "nat \<Rightarrow> char"
  pi_open :: "string option"
  pi_write :: "string option"
  pi_written :: nat
  pi_sync :: "string option"
  pi_rename :: "string option"
  pi_unlink :: "string option"
  pi_dirsync :: "string option"

text \<open>\<open>fs::remove_file\<close> with its error dropped.\<close>

definition unlink_quietly :: "string option \<Rightarrow> string \<Rightarrow> pdir \<Rightarrow> pdir" where
  "unlink_quietly fault n d =
     (if fault = None \<and> pd_live d n \<noteq> None then dir_set n None d else d)"

definition sync_parent_dir :: "string option \<Rightarrow> pdir \<Rightarrow> (string, unit) res \<times> pdir" where
  "sync_parent_dir fault d = (case fault of Some e \<Rightarrow> (Err e, d) | None \<Rightarrow> (Ok (), dir_sync d))"

text \<open>\<open>create_new(true)\<close>: an existing name refuses.\<close>

definition open_new_private :: "put_io \<Rightarrow> string \<Rightarrow> pdir \<Rightarrow> (CacheError, unit) res \<times> pdir" where
  "open_new_private io n d =
     (case pi_open io of
        Some e \<Rightarrow> (Err (Io e), d)
      | None \<Rightarrow>
        if pd_live d n \<noteq> None then (Err (Io ''File exists (os error 17)''), d)
        else (Ok (), dir_set n (Some \<lparr>pf_data = [], pf_synced = False\<rparr>) d))"

text \<open>The closure \<open>write\<close> of \<open>write_private\<close>: open, write, \<open>sync_all\<close>.\<close>

definition write_temp :: "put_io \<Rightarrow> string \<Rightarrow> bytes \<Rightarrow> pdir \<Rightarrow> (CacheError, unit) res \<times> pdir" where
  "write_temp io n bs d =
     (case open_new_private io n d of
        (Ok _, d1) \<Rightarrow>
          (case pi_write io of
             Some e \<Rightarrow>
               (Err (Io e), dir_set n (Some \<lparr>pf_data = take (pi_written io) bs, pf_synced = False\<rparr>) d1)
           | None \<Rightarrow>
               (case pi_sync io of
                  Some e \<Rightarrow> (Err (Io e), dir_set n (Some \<lparr>pf_data = bs, pf_synced = False\<rparr>) d1)
                | None \<Rightarrow> (Ok (), dir_set n (Some \<lparr>pf_data = bs, pf_synced = True\<rparr>) d1)))
      | (r, d1) \<Rightarrow> (r, d1))"

definition write_private ::
  "put_io \<Rightarrow> string \<Rightarrow> bytes \<Rightarrow> bytes \<Rightarrow> pdir \<Rightarrow> (CacheError, unit) res \<times> pdir" where
  "write_private io path bs nonce d =
     (if length bs > MAX_FILE_LEN then
        (Err (Io (''cache entry '' @ dec_text (length bs) @ '' bytes exceeds the '' @
                  dec_text MAX_FILE_LEN @ '' cap'')), d)
      else let temp = file_with_extension path (''tmp'' @ hex_slice nonce) in
        (case write_temp io temp bs d of
           (Ok _, d1) \<Rightarrow>
             (case pi_rename io of
                Some e \<Rightarrow> (Err (Io e), unlink_quietly (pi_unlink io) temp d1)
              | None \<Rightarrow>
                  let d2 = dir_set temp None (dir_set path (pd_live d1 temp) d1);
                      (r, d3) = sync_parent_dir (pi_dirsync io) d2
                  in (map_err Io r, d3))
         | (r, d1) \<Rightarrow> (r, unlink_quietly (pi_unlink io) temp d1)))"

section \<open>Entries\<close>

text \<open>The AEAD: \<open>encrypt\<close> and \<open>decrypt\<close> take the nonce, the message and the associated data.\<close>

record xcipher =
  encrypt :: "bytes \<Rightarrow> bytes \<Rightarrow> bytes \<Rightarrow> bytes option"
  decrypt :: "bytes \<Rightarrow> bytes \<Rightarrow> bytes \<Rightarrow> bytes option"

text \<open>Decryption inverts encryption, and a ciphertext is the plaintext's length and a tag.\<close>

definition aead_ok :: "xcipher \<Rightarrow> bool" where
  "aead_ok c \<longleftrightarrow>
     (\<forall>n m a ct. encrypt c n m a = Some ct \<longrightarrow> decrypt c n ct a = Some m \<and> length ct = length m + 16)"

definition file_for :: "CacheKey \<Rightarrow> string" where
  "file_for key =
     (case key of Certificate \<Rightarrow> ''certificate'' | PrivateKey \<Rightarrow> ''private-key'' | ApiSession \<Rightarrow> ''api-session'')
       @ ''.bin''"

definition split_entry :: "bytes \<Rightarrow> (bytes \<times> bytes) option" where
  "split_entry bs =
     (if length bs < length MAGIC + 1 + NONCE_LEN then None
      else if take (length MAGIC) bs \<noteq> MAGIC \<or> bs ! length MAGIC \<noteq> CACHE_VERSION then None
      else let s = length MAGIC + 1 in Some (take NONCE_LEN (drop s bs), drop (s + NONCE_LEN) bs))"

text \<open>
  \<open>read_entry\<close>: \<open>fault\<close> is a failure of the open or of the read. The read stops one byte
  past the cap; \<open>decode_entry\<close> is what follows it.
\<close>

definition decode_entry :: "xcipher \<Rightarrow> CacheKey \<Rightarrow> bytes \<Rightarrow> bytes option" where
  "decode_entry c key bs =
     (if length bs > MAX_FILE_LEN then None
      else (case split_entry bs of
              None \<Rightarrow> None
            | Some (nonce, ct) \<Rightarrow> decrypt c nonce ct (file_for key)))"

definition read_entry :: "xcipher \<Rightarrow> bool \<Rightarrow> CacheKey \<Rightarrow> pdir \<Rightarrow> bytes option" where
  "read_entry c fault key d =
     (case pd_live d (file_for key) of
        None \<Rightarrow> None
      | Some f \<Rightarrow>
          if fault then None else decode_entry c key (take (MAX_FILE_LEN + 1) (pf_data f)))"

definition write_entry ::
  "xcipher \<Rightarrow> put_io \<Rightarrow> CacheKey \<Rightarrow> bytes \<Rightarrow> pdir \<Rightarrow> (CacheError, unit) res \<times> pdir" where
  "write_entry c io key plaintext d =
     (if length plaintext > MAX_PLAINTEXT_LEN then
        (Err (Io (''cache entry '' @ dec_text (length plaintext) @
                  '' bytes exceeds the plaintext cap (the file cap '' @ dec_text MAX_FILE_LEN @
                  '' minus the 48-byte serialization overhead)'')), d)
      else (case pi_randomness io of
        Some e \<Rightarrow> (Err (Io (''OS randomness: '' @ e)), d)
      | None \<Rightarrow>
        let nonce = random_fill NONCE_LEN (pi_nonce io); path = file_for key in
        (case encrypt c nonce plaintext path of
           None \<Rightarrow> (Err (Crypto ''encryption failed''), d)
         | Some ct \<Rightarrow> write_private io path (MAGIC @ [CACHE_VERSION] @ nonce @ ct) nonce d)))"

definition try_put ::
  "xcipher \<Rightarrow> put_io \<Rightarrow> CacheKey \<Rightarrow> bytes \<Rightarrow> pdir \<Rightarrow> (CacheError, unit) res \<times> pdir" where
  "try_put c io key bs d = write_entry c io key bs d"

text \<open>
  \<open>try_remove\<close>: an absent file is success, and the directory is synced on both of these
  arms.
\<close>

record remove_io =
  ri_unlink :: "string option"
  ri_dirsync :: "string option"

definition try_remove :: "remove_io \<Rightarrow> CacheKey \<Rightarrow> pdir \<Rightarrow> (CacheError, unit) res \<times> pdir" where
  "try_remove io key d =
     (case ri_unlink io of
        Some e \<Rightarrow> (Err (Io e), d)
      | None \<Rightarrow>
        let path = file_for key;
            d1 = (if pd_live d path = None then d else dir_set path None d);
            (r, d2) = sync_parent_dir (ri_dirsync io) d1
        in (map_err Io r, d2))"

text \<open>\<open>try_clear_all\<close>: every removal is attempted, the first failure is the answer.\<close>

fun clear_keys ::
  "CacheError option \<Rightarrow> (CacheKey \<Rightarrow> remove_io) \<Rightarrow> CacheKey list \<Rightarrow> pdir \<Rightarrow> (CacheError, unit) res \<times> pdir"
where
  "clear_keys first io [] d = (case first of None \<Rightarrow> Ok () | Some e \<Rightarrow> Err e, d)"
| "clear_keys first io (key # keys) d =
     (case try_remove (io key) key d of
        (Err e, d1) \<Rightarrow> clear_keys (if first = None then Some e else first) io keys d1
      | (_, d1) \<Rightarrow> clear_keys first io keys d1)"

definition ALL_KEYS :: "CacheKey list" where
  "ALL_KEYS = [Certificate, PrivateKey, ApiSession]"

definition try_clear_all :: "(CacheKey \<Rightarrow> remove_io) \<Rightarrow> pdir \<Rightarrow> (CacheError, unit) res \<times> pdir" where
  "try_clear_all io d = clear_keys None io ALL_KEYS d"

text \<open>The infallible \<open>PersistentCache\<close> methods of the cache: a failure is only logged.\<close>

definition cache_put :: "xcipher \<Rightarrow> put_io \<Rightarrow> CacheKey \<Rightarrow> bytes \<Rightarrow> pdir \<Rightarrow> pdir" where
  "cache_put c io key bs d = snd (write_entry c io key bs d)"

definition cache_get :: "xcipher \<Rightarrow> bool \<Rightarrow> CacheKey \<Rightarrow> pdir \<Rightarrow> bytes option" where
  "cache_get c fault key d = read_entry c fault key d"

definition cache_remove :: "remove_io \<Rightarrow> CacheKey \<Rightarrow> pdir \<Rightarrow> pdir" where
  "cache_remove io key d = snd (try_remove io key d)"

definition cache_clear_all :: "(CacheKey \<Rightarrow> remove_io) \<Rightarrow> pdir \<Rightarrow> pdir" where
  "cache_clear_all io d = foldl (\<lambda>d key. cache_remove (io key) key d) d ALL_KEYS"

section \<open>What an entry holds\<close>

text \<open>
  An entry is settled on a value when every state that a power loss can leave reads as that
  value.
\<close>

definition entry_settled :: "xcipher \<Rightarrow> CacheKey \<Rightarrow> bytes option \<Rightarrow> priv_file option \<Rightarrow> bool" where
  "entry_settled c key v e =
     (case e of
        None \<Rightarrow> v = None
      | Some f \<Rightarrow> pf_synced f \<and> decode_entry c key (take (MAX_FILE_LEN + 1) (pf_data f)) = v)"

definition settled_on :: "xcipher \<Rightarrow> pdir \<Rightarrow> CacheKey \<Rightarrow> bytes option \<Rightarrow> bool" where
  "settled_on c d key v = list_all (entry_settled c key v) (candidates d (file_for key))"

lemma candidates_set [simp]:
  "candidates (dir_set m e d) n = (if m = n then e # candidates d n else candidates d n)"
  by (simp add: candidates_def dir_set_def)

lemma candidates_sync [simp]: "candidates (dir_sync d) n = [pd_live d n]"
  by (simp add: candidates_def dir_sync_def)

lemma live_set [simp]: "pd_live (dir_set m e d) n = (if m = n then e else pd_live d n)"
  by (simp add: dir_set_def)

lemma live_sync [simp]: "pd_live (dir_sync d) = pd_live d"
  by (simp add: dir_sync_def)

lemma settled_reads: "settled_on c d key v \<Longrightarrow> read_entry c False key d = v"
  by (auto simp: settled_on_def candidates_def entry_settled_def read_entry_def split: option.splits)

lemma settled_survives:
  "entry_settled c key v e \<Longrightarrow> survives e e' \<Longrightarrow> entry_settled c key v e'"
  by (auto simp: entry_settled_def survives_def split: option.splits)

lemma settled_crash:
  assumes "settled_on c d key v" "crash d d'"
  shows "settled_on c d' key v"
proof -
  obtain e where "e \<in> set (candidates d (file_for key))" "survives e (pd_live d' (file_for key))"
    using assms(2) unfolding crash_def by blast
  then have "entry_settled c key v (pd_live d' (file_for key))"
    using assms(1) settled_survives by (auto simp: settled_on_def list_all_iff)
  moreover have "pd_past d' (file_for key) = []"
    using assms(2) by (simp add: crash_def booted_def)
  ultimately show ?thesis by (simp add: settled_on_def candidates_def)
qed

lemma settled_boot: "booted d \<Longrightarrow> settled_on c d key (read_entry c False key d)"
  by (auto simp: settled_on_def booted_def candidates_def entry_settled_def read_entry_def split: option.splits)

section \<open>The store keeps its contract\<close>

lemma file_for_inj [simp]: "file_for j = file_for k \<longleftrightarrow> j = k"
  by (cases j; cases k) (simp_all add: file_for_def)

lemma file_stem_file_for:
  "file_stem (file_for k) =
     (case k of Certificate \<Rightarrow> ''certificate'' | PrivateKey \<Rightarrow> ''private-key'' | ApiSession \<Rightarrow> ''api-session'')"
  by (cases k) (simp_all add: file_stem_def file_for_def)

lemma temp_not_entry [simp]: "file_with_extension (file_for k) (''tmp'' @ x) \<noteq> file_for j"
  by (cases k; cases j; simp add: file_with_extension_def file_stem_file_for file_for_def file_stem_def)

lemmas entry_not_temp [simp] = temp_not_entry [symmetric]

lemma length_random_fill [simp]: "length (random_fill n r) = n"
  by (simp add: random_fill_def)

lemma split_entry_written:
  "length nonce = NONCE_LEN \<Longrightarrow> split_entry (MAGIC @ [CACHE_VERSION] @ nonce @ ct) = Some (nonce, ct)"
  by (simp add: split_entry_def MAGIC_def NONCE_LEN_def)

lemma decode_written:
  assumes "aead_ok c" "encrypt c nonce m (file_for key) = Some ct" "length m \<le> MAX_PLAINTEXT_LEN"
    and "length nonce = NONCE_LEN"
  shows "decode_entry c key (take (MAX_FILE_LEN + 1) (MAGIC @ [CACHE_VERSION] @ nonce @ ct)) = Some m"
proof -
  have len: "length (MAGIC @ [CACHE_VERSION] @ nonce @ ct) \<le> MAX_FILE_LEN"
    using assms by (auto simp: aead_ok_def MAGIC_def NONCE_LEN_def MAX_FILE_LEN_def MAX_PLAINTEXT_LEN_def)
  moreover have "decrypt c nonce ct (file_for key) = Some m"
    using assms by (auto simp: aead_ok_def)
  ultimately show ?thesis
    using split_entry_written [OF assms(4)] by (simp add: decode_entry_def)
qed

text \<open>Writing the temporary touches no other name.\<close>

lemma write_temp_other:
  "n \<noteq> t \<Longrightarrow> candidates (snd (write_temp io t bs d)) n = candidates d n"
  by (auto simp: write_temp_def open_new_private_def split: option.splits res.splits)

lemma write_temp_Ok:
  "fst (write_temp io t bs d) = Ok () \<Longrightarrow>
   pd_live (snd (write_temp io t bs d)) t = Some \<lparr>pf_data = bs, pf_synced = True\<rparr>"
  by (auto simp: write_temp_def open_new_private_def split: option.splits res.splits if_splits)

lemma unlink_other: "n \<noteq> t \<Longrightarrow> candidates (unlink_quietly f t d) n = candidates d n"
  by (simp add: unlink_quietly_def)

lemma sync_parent_cases:
  "sync_parent_dir f d = (Ok (), dir_sync d) \<or> (\<exists>e. sync_parent_dir f d = (Err e, d))"
  by (simp add: sync_parent_dir_def split: option.splits)

text \<open>Settling looks at the candidates alone, and a directory sync only removes some of them.\<close>

lemma settled_sync_parent:
  "settled_on c d key v \<Longrightarrow> settled_on c (snd (sync_parent_dir f d)) key v"
  by (auto simp: settled_on_def sync_parent_dir_def candidates_def dir_sync_def split: option.splits)

lemma settled_same:
  "candidates d' (file_for key) = candidates d (file_for key) \<Longrightarrow> settled_on c d' key v = settled_on c d key v"
  by (simp add: settled_on_def)

lemma sync_moves: "set (candidates (snd (sync_parent_dir f d)) n) \<subseteq> set (candidates d n)"
  by (auto simp: sync_parent_dir_def candidates_def dir_sync_def split: option.splits)

text \<open>
  Whatever fails on the way, an entry is only ever given the whole synced file, and only the
  entry that is written.
\<close>

lemma write_private_moves:
  "set (candidates (snd (write_private io (file_for key) bs nonce d)) (file_for j)) \<subseteq>
     (if j = key then {Some \<lparr>pf_data = bs, pf_synced = True\<rparr>} else {}) \<union> set (candidates d (file_for j))"
proof -
  define t where "t = file_with_extension (file_for key) (''tmp'' @ hex_slice nonce)"
  obtain r d1 where w: "write_temp io t bs d = (r, d1)" by force
  have t: "t \<noteq> file_for j" unfolding t_def by (rule temp_not_entry)
  then have d1: "candidates d1 (file_for j) = candidates d (file_for j)"
    using write_temp_other [of "file_for j" t io bs d] w by simp
  have live: "pd_live d1 t = Some \<lparr>pf_data = bs, pf_synced = True\<rparr>" if "r = Ok ()"
    using write_temp_Ok [of io t bs d] w that by simp
  have u: "candidates (unlink_quietly f t d1) (file_for j) = candidates d (file_for j)" for f
    using unlink_other [of "file_for j" t f d1] t d1 by simp
  have s: "set (candidates (snd (sync_parent_dir f (dir_set t None (dir_set (file_for key) e d1)))) (file_for j))
      \<subseteq> (if j = key then {e} else {}) \<union> set (candidates d (file_for j))" for f e
    using sync_moves [of f "dir_set t None (dir_set (file_for key) e d1)" "file_for j"] t d1
    by (auto split: if_splits)
  show ?thesis
    using w u live s [of "pi_dirsync io" "pd_live d1 t"]
    unfolding write_private_def Let_def t_def [symmetric]
    by (cases r) (auto split: option.splits prod.splits)
qed

lemma write_private_other:
  assumes "j \<noteq> key" "settled_on c d j v"
  shows "settled_on c (snd (write_private io (file_for key) bs nonce d)) j v"
  using assms write_private_moves [of io key bs nonce d j] by (auto simp: settled_on_def list_all_iff)

lemma write_private_Ok:
  assumes "fst (write_private io (file_for key) bs nonce d) = Ok ()"
  shows "candidates (snd (write_private io (file_for key) bs nonce d)) (file_for key) =
           [Some \<lparr>pf_data = bs, pf_synced = True\<rparr>]"
proof -
  define t where "t = file_with_extension (file_for key) (''tmp'' @ hex_slice nonce)"
  obtain r d1 where w: "write_temp io t bs d = (r, d1)" by (cases "write_temp io t bs d")
  have t: "t \<noteq> file_for key" unfolding t_def by (rule temp_not_entry)
  have "r = Ok ()"
    using assms w unfolding write_private_def Let_def t_def [symmetric]
    by (cases r) (auto split: if_splits)
  then have "pd_live d1 t = Some \<lparr>pf_data = bs, pf_synced = True\<rparr>"
    using write_temp_Ok [of io t bs d] w by simp
  with assms w \<open>r = Ok ()\<close> t show ?thesis
    unfolding write_private_def Let_def t_def [symmetric]
    by (auto simp: sync_parent_dir_def split: option.splits if_splits)
qed

lemma try_put_Ok:
  assumes "aead_ok c" "fst (try_put c io key m d) = Ok ()"
  shows "settled_on c (snd (try_put c io key m d)) key (Some m)"
proof -
  define nonce where "nonce = random_fill NONCE_LEN (pi_nonce io)"
  have small: "length m \<le> MAX_PLAINTEXT_LEN" and r: "pi_randomness io = None"
    using assms(2) by (auto simp: try_put_def write_entry_def split: if_splits option.splits)
  obtain ct where ct: "encrypt c nonce m (file_for key) = Some ct"
    using assms(2) small r
    by (auto simp: try_put_def write_entry_def Let_def nonce_def split: option.splits)
  have eq: "try_put c io key m d =
      write_private io (file_for key) (MAGIC @ [CACHE_VERSION] @ nonce @ ct) nonce d"
    using small r ct by (simp add: try_put_def write_entry_def Let_def nonce_def)
  have len: "length nonce = NONCE_LEN" by (simp add: nonce_def)
  show ?thesis
    using write_private_Ok [of io key _ nonce d] assms(2) decode_written [OF assms(1) ct small len]
    unfolding eq by (simp add: settled_on_def entry_settled_def)
qed

lemma try_put_other:
  "j \<noteq> key \<Longrightarrow> settled_on c d j v \<Longrightarrow> settled_on c (snd (try_put c io key m d)) j v"
  by (auto simp: try_put_def write_entry_def Let_def write_private_other split: option.splits)

lemma try_remove_Ok:
  "fst (try_remove io key d) = Ok () \<Longrightarrow> settled_on c (snd (try_remove io key d)) key None"
  by (auto simp: try_remove_def sync_parent_dir_def settled_on_def entry_settled_def Let_def
      split: option.splits)

lemma try_remove_other:
  "j \<noteq> key \<Longrightarrow> settled_on c d j v \<Longrightarrow> settled_on c (snd (try_remove io key d)) j v"
  by (auto simp: try_remove_def sync_parent_dir_def settled_on_def candidates_def dir_set_def dir_sync_def
      Let_def split: option.splits)

lemma sync_parent_not_Panic: "fst (sync_parent_dir f d) \<noteq> Panic"
  by (simp add: sync_parent_dir_def split: option.splits)

lemma try_remove_not_Panic: "fst (try_remove io key d) \<noteq> Panic"
  by (auto simp: try_remove_def sync_parent_dir_def Let_def split: option.splits)

lemma write_temp_not_Panic: "fst (write_temp io n bs d) \<noteq> Panic"
  by (auto simp: write_temp_def open_new_private_def split: option.splits)

lemma try_put_not_Panic: "fst (try_put c io key m d) \<noteq> Panic"
proof -
  have "fst (write_private io p bs n d) \<noteq> Panic" for p bs n
    using write_temp_not_Panic [of io _ bs d]
    by (auto simp: write_private_def sync_parent_dir_def Let_def split: option.splits prod.splits res.splits)
       (metis fst_conv)+
  then show ?thesis by (auto simp: try_put_def write_entry_def Let_def split: option.splits)
qed

text \<open>Whatever a power loss leaves of an entry is one of the given values, whole.\<close>

definition within :: "xcipher \<Rightarrow> pdir \<Rightarrow> CacheKey \<Rightarrow> bytes option set \<Rightarrow> bool" where
  "within c d key vs = list_all (\<lambda>e. \<exists>v \<in> vs. entry_settled c key v e) (candidates d (file_for key))"

lemma within_mono: "within c d key vs \<Longrightarrow> vs \<subseteq> us \<Longrightarrow> within c d key us"
  by (auto simp: within_def list_all_iff)

lemma within_crash:
  assumes "within c d key vs" "crash d d'"
  shows "read_entry c False key d' \<in> vs"
proof -
  obtain e where "e \<in> set (candidates d (file_for key))" "survives e (pd_live d' (file_for key))"
    using assms(2) unfolding crash_def by blast
  then obtain v where "v \<in> vs" "entry_settled c key v (pd_live d' (file_for key))"
    using assms(1) settled_survives by (fastforce simp: within_def list_all_iff)
  then show ?thesis by (auto simp: entry_settled_def read_entry_def split: option.splits)
qed

lemma try_put_within:
  assumes "aead_ok c" "within c d j vs" "j = key \<Longrightarrow> Some m \<in> vs"
  shows "within c (snd (try_put c io key m d)) j vs"
proof (cases "length m > MAX_PLAINTEXT_LEN \<or> pi_randomness io \<noteq> None \<or>
    encrypt c (random_fill NONCE_LEN (pi_nonce io)) m (file_for key) = None")
  case True
  then have "snd (try_put c io key m d) = d"
    by (auto simp: try_put_def write_entry_def Let_def split: option.splits)
  with assms(2) show ?thesis by simp
next
  case False
  define nonce where "nonce = random_fill NONCE_LEN (pi_nonce io)"
  obtain ct where ct: "encrypt c nonce m (file_for key) = Some ct" using False nonce_def by auto
  have small: "length m \<le> MAX_PLAINTEXT_LEN" using False by auto
  have eq: "snd (try_put c io key m d) =
      snd (write_private io (file_for key) (MAGIC @ [CACHE_VERSION] @ nonce @ ct) nonce d)"
    using False ct by (simp add: try_put_def write_entry_def Let_def nonce_def)
  have "entry_settled c key (Some m) (Some \<lparr>pf_data = MAGIC @ [CACHE_VERSION] @ nonce @ ct, pf_synced = True\<rparr>)"
    using decode_written [OF assms(1) ct small] by (simp add: entry_settled_def nonce_def)
  with assms(2,3) write_private_moves [of io key _ nonce d j] show ?thesis
    unfolding eq within_def list_all_iff by (fastforce split: if_splits)
qed

lemma try_remove_moves:
  "set (candidates (snd (try_remove io key d)) (file_for j)) \<subseteq>
     (if j = key then {None} else {}) \<union> set (candidates d (file_for j))"
  by (auto simp: try_remove_def sync_parent_dir_def candidates_def dir_set_def dir_sync_def Let_def
      split: option.splits if_splits)

lemma try_remove_within:
  assumes "within c d j vs" "j = key \<Longrightarrow> None \<in> vs"
  shows "within c (snd (try_remove io key d)) j vs"
proof -
  have "entry_settled c j None None" by (simp add: entry_settled_def)
  with assms try_remove_moves [of io key d j] show ?thesis
    unfolding within_def list_all_iff by (fastforce split: if_splits)
qed

text \<open>
  The contract of a durable three-value store: an acknowledged write or removal is what
  every later power loss leaves, until the next operation on the same key; no operation
  disturbs another key; and whatever fails, what a power loss leaves is the whole of some
  value that was written.
\<close>

locale durable_store =
  fixes put :: "'i \<Rightarrow> CacheKey \<Rightarrow> bytes \<Rightarrow> 'd \<Rightarrow> (CacheError, unit) res \<times> 'd"
    and remove :: "'j \<Rightarrow> CacheKey \<Rightarrow> 'd \<Rightarrow> (CacheError, unit) res \<times> 'd"
    and holds :: "'d \<Rightarrow> CacheKey \<Rightarrow> bytes option \<Rightarrow> bool"
    and whole :: "'d \<Rightarrow> CacheKey \<Rightarrow> bytes option set \<Rightarrow> bool"
  assumes put_holds: "fst (put i k b d) = Ok () \<Longrightarrow> holds (snd (put i k b d)) k (Some b)"
    and put_frame: "j \<noteq> k \<Longrightarrow> holds d j v \<Longrightarrow> holds (snd (put i k b d)) j v"
    and remove_holds: "fst (remove r k d) = Ok () \<Longrightarrow> holds (snd (remove r k d)) k None"
    and remove_frame: "j \<noteq> k \<Longrightarrow> holds d j v \<Longrightarrow> holds (snd (remove r k d)) j v"
    and put_whole: "whole d j vs \<Longrightarrow> (j = k \<Longrightarrow> Some b \<in> vs) \<Longrightarrow> whole (snd (put i k b d)) j vs"
    and remove_whole: "whole d j vs \<Longrightarrow> (j = k \<Longrightarrow> None \<in> vs) \<Longrightarrow> whole (snd (remove r k d)) j vs"
begin

text \<open>Removing every key, whatever fails on the way, settles the keys whose removal succeeded.\<close>

lemma removals_hold:
  "distinct ks \<Longrightarrow> k \<in> set ks \<Longrightarrow>
   (\<And>d'. fst (remove (io k) k d') = Ok ()) \<Longrightarrow>
   holds (foldl (\<lambda>d k. snd (remove (io k) k d)) d ks) k None"
proof (induction ks arbitrary: d rule: rev_induct)
  case (snoc x ks)
  then show ?case by (cases "k = x") (auto intro: remove_holds remove_frame)
qed simp

end

text \<open>The cache keeps it for every cipher that decrypts what it encrypted.\<close>

definition durably :: "xcipher \<Rightarrow> pdir \<Rightarrow> CacheKey \<Rightarrow> bytes option \<Rightarrow> bool" where
  "durably c d key v = (aead_ok c \<longrightarrow> settled_on c d key v)"

definition wholly :: "xcipher \<Rightarrow> pdir \<Rightarrow> CacheKey \<Rightarrow> bytes option set \<Rightarrow> bool" where
  "wholly c d key vs = (aead_ok c \<longrightarrow> within c d key vs)"

interpretation enc: durable_store "try_put c" try_remove "durably c" "wholly c" for c
  by unfold_locales
     (auto simp: durably_def wholly_def try_put_Ok try_put_other try_remove_Ok try_remove_other
        try_put_within try_remove_within)

lemma clear_all_settles:
  assumes "aead_ok c" "ri_unlink (io key) = None" "ri_dirsync (io key) = None"
  shows "settled_on c (cache_clear_all io d) key None"
proof -
  have "fst (try_remove (io key) key d') = Ok ()" for d'
    using assms by (simp add: try_remove_def sync_parent_dir_def Let_def)
  then have "durably c (foldl (\<lambda>d k. snd (try_remove (io k) k d)) d ALL_KEYS) key None"
    by (intro enc.removals_hold) (cases key; simp add: ALL_KEYS_def)+
  with assms(1) show ?thesis by (simp add: durably_def cache_clear_all_def cache_remove_def)
qed

text \<open>\<open>try_clear_all\<close> makes the same removals as \<open>clear_all\<close>, and answers for all of them.\<close>

lemma clear_keys_snd:
  "snd (clear_keys first io keys d) = foldl (\<lambda>d key. cache_remove (io key) key d) d keys"
  by (induction first io keys d rule: clear_keys.induct)
     (auto simp: cache_remove_def split: res.splits prod.splits option.splits)

lemma clear_keys_fst:
  "fst (clear_keys (Some e) io keys d) = Err e"
  by (induction "Some e" io keys d rule: clear_keys.induct) (auto split: res.splits prod.splits)

end
