(* ===== verification/Facade.thy ===== *)
theory Facade
  imports Proto_Cache
begin

text \<open>
  \<open>crates/protocol/src/facade.rs\<close>: the preloaded facade that ProTUN's connection thread
  sees. Reads come from memory; writes, removals and clears go through a bounded queue, an
  overflow lane and a retry lane to one worker thread that owns the disk. This theory holds
  the pieces, each as the code has it; \<open>Facade_Runs\<close> interleaves them. Instants and
  durations are milliseconds.
\<close>

section \<open>Operations\<close>

datatype Op =
    Put string bytes u64
  | Remove string u64
  | ClearAll u64

primrec op_seq :: "Op \<Rightarrow> u64" where
  "op_seq (Put _ _ s) = s"
| "op_seq (Remove _ s) = s"
| "op_seq (ClearAll s) = s"

primrec key_name :: "Op \<Rightarrow> string" where
  "key_name (Put n _ _) = n"
| "key_name (Remove n _) = n"
| "key_name (ClearAll _) = ''''"

primrec name_for :: "CacheKey \<Rightarrow> string" where
  "name_for Certificate = ''Certificate''"
| "name_for PrivateKey = ''PrivateKey''"
| "name_for ApiSession = ''ApiSession''"

definition key_from_name :: "string \<Rightarrow> CacheKey option" where
  "key_from_name n =
     (if n = ''Certificate'' then Some Certificate
      else if n = ''PrivateKey'' then Some PrivateKey
      else if n = ''ApiSession'' then Some ApiSession
      else None)"

definition expand_per_key :: "Op \<Rightarrow> Op list" where
  "expand_per_key op =
     (case op of ClearAll s \<Rightarrow> map (\<lambda>key. Remove (name_for key) s) ALL_KEYS | _ \<Rightarrow> [op])"

text \<open>The arms of the code's matches that read the name of a per-key operation.\<close>

primrec is_clear :: "Op \<Rightarrow> bool" where
  "is_clear (Put _ _ _) = False"
| "is_clear (Remove _ _) = False"
| "is_clear (ClearAll _) = True"

definition names :: "string \<Rightarrow> Op \<Rightarrow> bool" where
  "names n op = (\<not> is_clear op \<and> key_name op = n)"

definition QUEUE_BOUND :: usize where
  "QUEUE_BOUND = 64"

definition OVERFLOW_POLL :: nat where
  "OVERFLOW_POLL = 250"

definition RETRY_BACKOFF_START :: nat where
  "RETRY_BACKOFF_START = 250"

definition RETRY_BACKOFF_MAX :: nat where
  "RETRY_BACKOFF_MAX = 30000"

section \<open>Health\<close>

record HealthSlot =
  hs_alive :: bool
  hs_failure :: "string option"
  hs_applied :: u64

definition HealthSlot_new :: HealthSlot where
  "HealthSlot_new = \<lparr>hs_alive = True, hs_failure = None, hs_applied = 0\<rparr>"

definition record_failure :: "string \<Rightarrow> HealthSlot \<Rightarrow> HealthSlot" where
  "record_failure msg h = h\<lparr>hs_failure := Some msg, hs_applied := 0\<rparr>"

definition note_recovered :: "HealthSlot \<Rightarrow> HealthSlot" where
  "note_recovered h = (if hs_failure h \<noteq> None then h\<lparr>hs_failure := None\<rparr> else h)"

section \<open>The overflow lane\<close>

text \<open>One per-key entry of \<open>overflow\<close>'s loop: newest wins by sequence.\<close>

definition overflow_entry :: "Op list \<Rightarrow> Op \<Rightarrow> Op list" where
  "overflow_entry lane op =
     (if list_ex (\<lambda>existing. names (key_name op) existing \<and> op_seq existing \<ge> op_seq op) lane then lane
      else filter (\<lambda>existing. \<not> names (key_name op) existing) lane @ [op])"

definition overflow :: "Op \<Rightarrow> Op list \<Rightarrow> Op list" where
  "overflow op lane = foldl overflow_entry lane (expand_per_key op)"

section \<open>The retry lane\<close>

record RetryLane =
  pending :: "(string \<times> Op \<times> nat) list"
  backoff :: nat

definition RetryLane_new :: RetryLane where
  "RetryLane_new = \<lparr>pending = [], backoff = RETRY_BACKOFF_START\<rparr>"

definition retain_entry ::
  "nat \<Rightarrow> (string \<times> Op \<times> nat) list \<Rightarrow> Op \<Rightarrow> (string \<times> Op \<times> nat) list" where
  "retain_entry deadline lane op =
     (if list_ex (\<lambda>(existing, existing_op, _). existing = key_name op \<and> op_seq existing_op \<ge> op_seq op) lane
      then lane
      else filter (\<lambda>(existing, _, _). existing \<noteq> key_name op) lane @ [(key_name op, op, deadline)])"

definition retain :: "nat \<Rightarrow> Op \<Rightarrow> RetryLane \<Rightarrow> RetryLane" where
  "retain now op r =
     \<lparr>pending = foldl (retain_entry (now + backoff r)) (pending r) (expand_per_key op),
      backoff = min (backoff r * 2) RETRY_BACKOFF_MAX\<rparr>"

definition retry_deadline :: "RetryLane \<Rightarrow> nat option" where
  "retry_deadline r =
     (case pending r of [] \<Rightarrow> None | p # ps \<Rightarrow> Some (foldl min (snd (snd p)) (map (snd \<circ> snd) ps)))"

text \<open>\<open>take_ready\<close>'s index loop keeps both orders.\<close>

fun take_ready_loop ::
  "nat \<Rightarrow> (string \<times> Op \<times> nat) list \<Rightarrow> Op list \<times> (string \<times> Op \<times> nat) list" where
  "take_ready_loop now [] = ([], [])"
| "take_ready_loop now ((n, op, at) # rest) =
     (let (ready, kept) = take_ready_loop now rest in
      if at \<le> now then (op # ready, kept) else (ready, (n, op, at) # kept))"

definition take_ready :: "nat \<Rightarrow> RetryLane \<Rightarrow> Op list \<times> RetryLane" where
  "take_ready now r = (let (ready, kept) = take_ready_loop now (pending r) in (ready, r\<lparr>pending := kept\<rparr>))"

definition take_all :: "RetryLane \<Rightarrow> Op list \<times> RetryLane" where
  "take_all r = (map (\<lambda>(_, op, _). op) (pending r), r\<lparr>pending := []\<rparr>)"

definition note_success :: "string \<Rightarrow> u64 \<Rightarrow> RetryLane \<Rightarrow> RetryLane" where
  "note_success n applied r =
     (let kept = filter (\<lambda>(existing, op, _). \<not> (existing = n \<and> op_seq op \<le> applied)) (pending r) in
      \<lparr>pending = kept, backoff = (if kept = [] then RETRY_BACKOFF_START else backoff r)\<rparr>)"

section \<open>The apply pass\<close>

definition clear_seq :: "Op list \<Rightarrow> u64 option" where
  "clear_seq batch =
     (case map op_seq (filter is_clear batch) of [] \<Rightarrow> None | s # ss \<Rightarrow> Some (foldl max s ss))"

text \<open>One turn of the coalescing loop; the accumulator is \<open>coalesced\<close> and \<open>saw_clear\<close>.\<close>

definition coalesce_step :: "u64 option \<Rightarrow> Op \<Rightarrow> Op list \<times> bool \<Rightarrow> Op list \<times> bool" where
  "coalesce_step cs op acc =
     (let (coalesced, saw_clear) = acc in
      if is_clear op then
        if list_ex (\<lambda>existing. is_clear existing \<and> op_seq existing \<ge> op_seq op) coalesced
        then (coalesced, saw_clear)
        else (filter (\<lambda>existing. \<not> is_clear existing) coalesced @ [op], True)
      else if saw_clear \<and> op_seq op < (case cs of None \<Rightarrow> 0 | Some s \<Rightarrow> s) then (coalesced, saw_clear)
      else (case position (names (key_name op)) coalesced of
              None \<Rightarrow> (coalesced @ [op], saw_clear)
            | Some i \<Rightarrow>
                if op_seq (coalesced ! i) \<ge> op_seq op then (coalesced, saw_clear)
                else (coalesced[i := op], saw_clear)))"

definition coalesce :: "Op list \<Rightarrow> Op list" where
  "coalesce batch = rev (fst (foldr (coalesce_step (clear_seq batch)) batch ([], False)))"

definition pass_ops :: "Op list \<Rightarrow> Op list" where
  "pass_ops batch = concat (map expand_per_key (coalesce batch))"

text \<open>The outcomes of the file-system calls one attempt makes.\<close>

type_synonym attempt_io = "put_io \<times> remove_io"

definition attempt :: "xcipher \<Rightarrow> attempt_io \<Rightarrow> Op \<Rightarrow> pdir \<Rightarrow> (CacheError, unit) res \<times> pdir" where
  "attempt c io op d =
     (case op of
        Put n bs _ \<Rightarrow> (case key_from_name n of Some key \<Rightarrow> try_put c (fst io) key bs d | None \<Rightarrow> (Ok (), d))
      | Remove n _ \<Rightarrow> (case key_from_name n of Some key \<Rightarrow> try_remove (snd io) key d | None \<Rightarrow> (Ok (), d))
      | ClearAll _ \<Rightarrow> (Ok (), d))"

text \<open>The sequence guard.\<close>

definition stale :: "(string \<rightharpoonup> u64) \<Rightarrow> Op \<Rightarrow> bool" where
  "stale applied op =
     (\<not> is_clear op \<and> (case applied (key_name op) of None \<Rightarrow> False | Some l \<Rightarrow> l \<ge> op_seq op))"

section \<open>What each lane keeps\<close>

definition affects :: "CacheKey \<Rightarrow> Op \<Rightarrow> bool" where
  "affects key op = (is_clear op \<or> key_name op = name_for key)"

definition op_value :: "Op \<Rightarrow> bytes option" where
  "op_value op = (case op of Put _ b _ \<Rightarrow> Some b | _ \<Rightarrow> None)"

definition carries :: "CacheKey \<Rightarrow> u64 \<Rightarrow> Op list \<Rightarrow> bool" where
  "carries key s ops = list_ex (\<lambda>op. affects key op \<and> op_seq op = s) ops"

definition no_newer :: "CacheKey \<Rightarrow> u64 \<Rightarrow> Op list \<Rightarrow> bool" where
  "no_newer key s ops = list_all (\<lambda>op. affects key op \<longrightarrow> op_seq op \<le> s) ops"

named_theorems lane_simps "operations that a lane holds"

lemma carries_simps [lane_simps]:
  "\<not> carries key s []"
  "carries key s (op # ops) \<longleftrightarrow> affects key op \<and> op_seq op = s \<or> carries key s ops"
  "carries key s (xs @ ys) \<longleftrightarrow> carries key s xs \<or> carries key s ys"
  "carries key s (rev xs) = carries key s xs"
  by (auto simp: carries_def)

lemma carries_iff: "carries key s ops \<longleftrightarrow> (\<exists>op \<in> set ops. affects key op \<and> op_seq op = s)"
  by (simp add: carries_def list_ex_iff)

lemma no_newer_iff: "no_newer key s ops \<longleftrightarrow> (\<forall>op \<in> set ops. affects key op \<longrightarrow> op_seq op \<le> s)"
  by (simp add: no_newer_def list_all_iff)

lemma key_from_name_for [simp]: "key_from_name (name_for key) = Some key"
  by (cases key) (simp_all add: key_from_name_def)

lemma name_for_inj [simp]: "name_for j = name_for k \<longleftrightarrow> j = k"
  by (cases j; cases k; simp)

lemma name_for_nonempty [simp]: "name_for key \<noteq> ''''"
  by (cases key) simp_all

lemma all_keys [simp]: "set ALL_KEYS = UNIV"
  by (auto simp: ALL_KEYS_def) (metis CacheKey.exhaust)

lemma expand_seq: "x \<in> set (expand_per_key op) \<Longrightarrow> op_seq x = op_seq op"
  by (auto simp: expand_per_key_def split: Op.splits)

lemma expand_not_clear: "x \<in> set (expand_per_key op) \<Longrightarrow> \<not> is_clear x"
  by (auto simp: expand_per_key_def split: Op.splits)

lemma expand_affects:
  "x \<in> set (expand_per_key op) \<Longrightarrow> affects key x \<Longrightarrow> affects key op \<and> op_value x = op_value op"
  by (auto simp: expand_per_key_def affects_def op_value_def split: Op.splits)

lemma expand_carries: "affects key op \<Longrightarrow> carries key (op_seq op) (expand_per_key op)"
  by (cases op) (auto simp: expand_per_key_def affects_def carries_iff)

subsection \<open>Coalescing\<close>

lemma clear_seq_le:
  assumes "no_newer key s batch"
  shows "(case clear_seq batch of None \<Rightarrow> 0 | Some c \<Rightarrow> c) \<le> s"
proof -
  have foldl_max: "foldl max a xs \<le> s" if "a \<le> s" "\<forall>x \<in> set xs. x \<le> s" for a :: u64 and xs
    using that by (induction xs arbitrary: a) auto
  have "\<forall>x \<in> set (map op_seq (filter is_clear batch)). x \<le> s"
    using assms by (auto simp: no_newer_iff affects_def)
  then show ?thesis
    by (cases "map op_seq (filter is_clear batch)") (auto simp: clear_seq_def intro!: foldl_max)
qed

text \<open>One turn keeps the newest operation on a key, whether it was there or is the one considered.\<close>

lemma coalesce_step_carries:
  assumes "(case cs of None \<Rightarrow> 0 | Some c \<Rightarrow> c) \<le> s" "no_newer key s (op # coalesced)"
    and "affects key op \<and> op_seq op = s \<or> carries key s coalesced"
  shows "carries key s (fst (coalesce_step cs op (coalesced, saw)))"
proof (cases "is_clear op")
  case True
  then show ?thesis
    using assms(2,3) by (auto simp: coalesce_step_def carries_iff no_newer_iff affects_def list_ex_iff)
      (metis le_antisym)+
next
  case False
  show ?thesis
  proof (cases "position (names (key_name op)) coalesced")
    case None
    then show ?thesis
      using False assms by (auto simp: coalesce_step_def carries_iff affects_def split: option.splits)
  next
    case (Some i)
    note i = position_Some [OF Some]
    have "carries key s (coalesced[i := op])" if "op_seq (coalesced ! i) < op_seq op"
    proof (cases "affects key op \<and> op_seq op = s")
      case True
      then show ?thesis using i set_update_memI [of i coalesced op] by (auto simp: carries_iff)
    next
      case new: False
      then obtain j where j: "j < length coalesced" "affects key (coalesced ! j)" "op_seq (coalesced ! j) = s"
        using assms(3) by (auto simp: carries_iff in_set_conv_nth)
      moreover have "j \<noteq> i"
        using that i j assms(2) False new by (fastforce simp: no_newer_iff affects_def names_def)
      ultimately show ?thesis
        unfolding carries_iff by (intro bexI [of _ "coalesced[i := op] ! j"])
          (use nth_mem [of j "coalesced[i := op]"] in simp_all)
    qed
    moreover have "carries key s coalesced" if "op_seq (coalesced ! i) \<ge> op_seq op"
      using that i assms(2,3) False nth_mem [of i coalesced]
      by (fastforce simp: carries_iff no_newer_iff affects_def names_def)
    ultimately show ?thesis
      using Some False assms by (auto simp: coalesce_step_def split: option.splits)
  qed
qed

lemma coalesce_step_subset: "set (fst (coalesce_step cs op acc)) \<subseteq> insert op (set (fst acc))"
proof -
  have "set (xs[i := op]) \<subseteq> insert op (set xs)" for xs :: "Op list" and i
    by (rule set_update_subset_insert)
  then show ?thesis
    by (cases acc) (auto simp: coalesce_step_def Let_def split: option.splits)
qed

lemma coalesce_fold_subset: "set (fst (foldr (coalesce_step cs) ops acc)) \<subseteq> set ops \<union> set (fst acc)"
proof (induction ops)
  case (Cons op ops)
  then show ?case using coalesce_step_subset [of cs op "foldr (coalesce_step cs) ops acc"] by auto
qed simp

lemma coalesce_subset: "set (coalesce batch) \<subseteq> set batch"
  using coalesce_fold_subset [of "clear_seq batch" batch "([], False)"] by (simp add: coalesce_def)

lemma coalesce_fold_carries:
  assumes "(case cs of None \<Rightarrow> 0 | Some c \<Rightarrow> c) \<le> s" "no_newer key s ops" "carries key s ops"
  shows "carries key s (fst (foldr (coalesce_step cs) ops ([], False)))"
  using assms(2,3)
proof (induction ops)
  case (Cons op ops)
  obtain co saw where acc: "foldr (coalesce_step cs) ops ([], False) = (co, saw)" by force
  have "set co \<subseteq> set ops"
    using coalesce_fold_subset [of cs ops "([], False)"] acc by simp
  then have up: "no_newer key s (op # co)" using Cons.prems(1) by (auto simp: no_newer_iff)
  have "affects key op \<and> op_seq op = s \<or> carries key s co"
    using Cons acc by (auto simp: lane_simps no_newer_iff)
  from coalesce_step_carries [OF assms(1) up this] show ?case by (simp add: acc)
qed (simp add: lane_simps)

lemma coalesce_carries:
  "no_newer key s batch \<Longrightarrow> carries key s batch \<Longrightarrow> carries key s (coalesce batch)"
  unfolding coalesce_def lane_simps
  by (intro coalesce_fold_carries clear_seq_le)

lemma pass_ops_from: "op \<in> set (pass_ops batch) \<Longrightarrow> \<exists>o' \<in> set batch. op \<in> set (expand_per_key o')"
  using coalesce_subset [of batch] by (auto simp: pass_ops_def)

lemma pass_ops_carries:
  assumes "no_newer key s batch" "carries key s batch"
  shows "carries key s (pass_ops batch)"
proof -
  obtain op where "op \<in> set (coalesce batch)" "affects key op" "op_seq op = s"
    using coalesce_carries [OF assms] by (auto simp: carries_iff)
  then show ?thesis using expand_carries [of key op] by (auto simp: pass_ops_def carries_iff)
qed

subsection \<open>The overflow and the retry lane\<close>

lemma overflow_entry_subset: "set (overflow_entry lane op) \<subseteq> insert op (set lane)"
  by (auto simp: overflow_entry_def)

lemma overflow_entry_carries:
  assumes "no_newer key s (op # lane)" "affects key op \<and> op_seq op = s \<or> carries key s lane" "\<not> is_clear op"
  shows "carries key s (overflow_entry lane op)"
proof (cases "list_ex (\<lambda>x. names (key_name op) x \<and> op_seq op \<le> op_seq x) lane")
  case True
  then obtain x where x: "x \<in> set lane" "names (key_name op) x" "op_seq op \<le> op_seq x"
    by (auto simp: list_ex_iff)
  then have "affects key op \<Longrightarrow> affects key x"
    using assms(3) by (auto simp: affects_def names_def)
  with x assms have "carries key s lane" by (fastforce simp: carries_iff no_newer_iff)
  with True show ?thesis by (simp add: overflow_entry_def)
next
  case False
  have "affects key op" if "x \<in> set lane" "names (key_name op) x" "affects key x" for x
    using that by (auto simp: affects_def names_def)
  with False assms show ?thesis
    by (fastforce simp: overflow_entry_def carries_iff no_newer_iff list_ex_iff)
qed

text \<open>The per-key entries of one operation, moved one after the other.\<close>

lemma foldl_entries:
  assumes step: "\<And>lane op. \<lbrakk>no_newer key s (op # ops_of lane); \<not> is_clear op;
        affects key op \<and> op_seq op = s \<or> carries key s (ops_of lane)\<rbrakk> \<Longrightarrow> carries key s (ops_of (f lane op))"
    and sub: "\<And>lane op. set (ops_of (f lane op)) \<subseteq> insert op (set (ops_of lane))"
    and "no_newer key s (ops_of lane @ ops)" "carries key s (ops_of lane @ ops)" "\<forall>op \<in> set ops. \<not> is_clear op"
  shows "carries key s (ops_of (foldl f lane ops))"
  using assms(3-5)
proof (induction ops arbitrary: lane)
  case (Cons op ops)
  have "no_newer key s (ops_of (f lane op) @ ops)"
    using Cons.prems(1) sub [of lane op] by (auto simp: no_newer_iff)
  moreover have "carries key s (ops_of (f lane op) @ ops)"
  proof -
    have "no_newer key s (op # ops_of lane)" using Cons.prems(1) by (auto simp: no_newer_iff)
    from step [OF this] Cons.prems show ?thesis by (auto simp: lane_simps)
  qed
  ultimately show ?case using Cons.IH Cons.prems(3) by simp
qed (simp add: lane_simps)

lemma foldl_entries_subset:
  assumes "\<And>lane op. set (ops_of (f lane op)) \<subseteq> insert op (set (ops_of lane))"
  shows "set (ops_of (foldl f lane ops)) \<subseteq> set (ops_of lane) \<union> set ops"
proof (induction ops arbitrary: lane)
  case (Cons op ops)
  show ?case using Cons.IH [of "f lane op"] assms [of lane op] by auto
qed simp

lemma overflow_subset: "set (overflow op lane) \<subseteq> set lane \<union> set (expand_per_key op)"
  unfolding overflow_def by (rule foldl_entries_subset [where ops_of = "\<lambda>x. x", OF overflow_entry_subset])

lemma no_newer_expand: "no_newer key s [op] \<Longrightarrow> no_newer key s (expand_per_key op)"
  using expand_affects expand_seq by (fastforce simp: no_newer_iff)

lemma overflow_carries:
  assumes "no_newer key s (op # lane)" "affects key op \<and> op_seq op = s \<or> carries key s lane"
  shows "carries key s (overflow op lane)"
  unfolding overflow_def
proof (rule foldl_entries [where ops_of = "\<lambda>x. x"])
  show "no_newer key s (lane @ expand_per_key op)"
    using assms(1) no_newer_expand [of key s op] by (auto simp: no_newer_iff)
  show "carries key s (lane @ expand_per_key op)"
    using assms(2) expand_carries by (auto simp: lane_simps)
qed (auto intro: overflow_entry_carries dest: expand_not_clear simp: overflow_entry_subset)

definition retry_ops :: "RetryLane \<Rightarrow> Op list" where
  "retry_ops r = map (\<lambda>(_, op, _). op) (pending r)"

definition lane_named :: "(string \<times> Op \<times> nat) list \<Rightarrow> bool" where
  "lane_named = list_all (\<lambda>(n, op, _). n = key_name op \<and> \<not> is_clear op)"

lemma retain_entry_as_overflow:
  "lane_named lane \<Longrightarrow> \<not> is_clear op \<Longrightarrow>
   map (\<lambda>(_, op, _). op) (retain_entry t lane op) = overflow_entry (map (\<lambda>(_, op, _). op) lane) op"
proof -
  assume n: "lane_named lane" and "\<not> is_clear op"
  have ex: "list_ex (\<lambda>(n, x, _). n = key_name op \<and> op_seq op \<le> op_seq x) lane =
      list_ex (\<lambda>x. names (key_name op) x \<and> op_seq op \<le> op_seq x) (map (\<lambda>(_, op, _). op) lane)"
    using n by (induction lane) (auto simp: lane_named_def names_def)
  have "map (\<lambda>(_, op, _). op) (filter (\<lambda>(n, _, _). n \<noteq> key_name op) lane) =
      filter (\<lambda>x. \<not> names (key_name op) x) (map (\<lambda>(_, op, _). op) lane)"
    using n by (induction lane) (auto simp: lane_named_def names_def)
  with ex show ?thesis by (simp add: retain_entry_def overflow_entry_def)
qed

lemma retain_entry_named: "lane_named lane \<Longrightarrow> \<not> is_clear op \<Longrightarrow> lane_named (retain_entry t lane op)"
  by (auto simp: lane_named_def retain_entry_def list_all_iff)

lemma retain_entries:
  "lane_named lane \<Longrightarrow> \<forall>op \<in> set ops. \<not> is_clear op \<Longrightarrow>
   lane_named (foldl (retain_entry t) lane ops) \<and>
   map (\<lambda>(_, op, _). op) (foldl (retain_entry t) lane ops) =
     foldl overflow_entry (map (\<lambda>(_, op, _). op) lane) ops"
  by (induction ops arbitrary: lane) (auto simp: retain_entry_as_overflow retain_entry_named)

text \<open>Both lanes keep the same operations: the newest on each key.\<close>

lemma retain_as_overflow:
  assumes "lane_named (pending r)"
  shows "lane_named (pending (retain now op r))" "retry_ops (retain now op r) = overflow op (retry_ops r)"
  using retain_entries [OF assms, of "expand_per_key op"] expand_not_clear
  by (auto simp: retain_def retry_ops_def overflow_def)

lemma take_ready_loop_eq:
  "take_ready_loop now lane =
     (map (fst \<circ> snd) (filter (\<lambda>x. snd (snd x) \<le> now) lane), filter (\<lambda>x. \<not> snd (snd x) \<le> now) lane)"
  by (induction now lane rule: take_ready_loop.induct) auto

lemma set_map_filter_split:
  "set (map f (filter P xs)) \<union> set (map f (filter (\<lambda>x. \<not> P x) xs)) = set (map f xs)"
  by auto

lemma retry_ops_eq: "retry_ops r = map (fst \<circ> snd) (pending r)"
  by (simp add: retry_ops_def case_prod_unfold comp_def)

lemma take_ready_ops:
  assumes "lane_named (pending r)"
  shows "lane_named (pending (snd (take_ready now r)))"
    and "set (fst (take_ready now r)) \<union> set (retry_ops (snd (take_ready now r))) = set (retry_ops r)"
proof -
  show "lane_named (pending (snd (take_ready now r)))"
    using assms by (simp add: take_ready_def take_ready_loop_eq lane_named_def list_all_iff)
  show "set (fst (take_ready now r)) \<union> set (retry_ops (snd (take_ready now r))) = set (retry_ops r)"
    unfolding take_ready_def take_ready_loop_eq retry_ops_eq
    using set_map_filter_split [of "fst \<circ> snd" "\<lambda>x. snd (snd x) \<le> now" "pending r"] by simp
qed

lemma note_success_ops:
  assumes "lane_named (pending r)"
  shows "lane_named (pending (note_success n s r))"
    and "set (retry_ops (note_success n s r)) =
           {op \<in> set (retry_ops r). \<not> (key_name op = n \<and> op_seq op \<le> s)}"
  using assms by (force simp: note_success_def retry_ops_def lane_named_def list_all_iff Let_def)+

subsection \<open>Attempts\<close>

lemma attempt_Ok:
  assumes "aead_ok c" "fst (attempt c io op d) = Ok ()" "\<not> is_clear op" "key_name op = name_for key"
  shows "settled_on c (snd (attempt c io op d)) key (op_value op)"
  using assms enc.put_holds [of c "fst io" key _ d] enc.remove_holds [of "snd io" key d c]
  by (cases op) (auto simp: attempt_def op_value_def durably_def)

lemma attempt_other:
  assumes "aead_ok c" "settled_on c d j v" "key_name op \<noteq> name_for j"
  shows "settled_on c (snd (attempt c io op d)) j v"
proof -
  have "key_from_name n = Some key \<Longrightarrow> n = name_for key" for n key
    by (auto simp: key_from_name_def split: if_splits)
  then have "key_from_name (key_name op) = Some key \<Longrightarrow> j \<noteq> key" for key
    using assms(3) by auto
  with assms(1,2) enc.put_frame [of j _ c d v "fst io"] enc.remove_frame [of j _ c d v "snd io"] show ?thesis
    by (cases op) (auto simp: attempt_def durably_def split: option.splits)
qed

lemma attempt_not_Panic: "fst (attempt c io op d) \<noteq> Panic"
  by (auto simp: attempt_def try_put_not_Panic try_remove_not_Panic split: Op.splits option.splits)

end
