(* ===== verification/Facade_Runs.thy ===== *)
theory Facade_Runs
  imports Facade
begin

text \<open>
  The facade and its worker as a step relation. A callback of ProTUN changes memory and
  takes its sequence number under the memory lock, then sends, then (when the queue is full)
  moves to the overflow lane, then reports: four steps, between which any number of other
  callbacks and the worker may run. The worker's steps are the points where it takes a lock,
  touches the disk or waits. \<open>fw_issued\<close>, \<open>fw_stamp\<close> and \<open>fw_ever\<close> are ghosts: how many operations
  were numbered, the number of the last operation that changed a key in memory, and the values
  a key has had.
\<close>

section \<open>The world\<close>

datatype callback = Sending Op | Overflowing Op | Reporting string

datatype resume = ThenReceive | ThenLoop | ThenExit

datatype worker_pc =
    LoopTop
  | Applying "Op list" resume
  | Succeeded "Op list" resume
  | Recovering bool "Op list" resume
  | AtReceive
  | Waiting nat
  | Collecting "Op list"
  | Draining
  | FinalCheck
  | Exiting
  | Stopped

record fworld =
  fw_memory :: "string \<rightharpoonup> bytes"
  fw_seq :: u64
  fw_sender :: bool
  fw_queue :: "Op list"
  fw_overflow :: "Op list"
  fw_health :: HealthSlot
  fw_callers :: "callback list"
  fw_disk :: pdir
  fw_retry :: RetryLane
  fw_last :: "string \<rightharpoonup> u64"
  fw_pc :: worker_pc
  fw_now :: nat
  fw_issued :: nat
  fw_stamp :: "CacheKey \<Rightarrow> nat"
  fw_ever :: "CacheKey \<Rightarrow> bytes option list"

text \<open>\<open>PersistenceFacade::start\<close>: \<open>fault key\<close> is a failed read of the entry.\<close>

fun preload :: "xcipher \<Rightarrow> (CacheKey \<Rightarrow> bool) \<Rightarrow> pdir \<Rightarrow> CacheKey list \<Rightarrow> (string \<rightharpoonup> bytes) \<Rightarrow> (string \<rightharpoonup> bytes)" where
  "preload c fault d [] memory = memory"
| "preload c fault d (key # keys) memory =
     preload c fault d keys
       (case cache_get c (fault key) key d of
          Some bs \<Rightarrow> memory(name_for key \<mapsto> bs)
        | None \<Rightarrow> memory)"

definition facade_start :: "xcipher \<Rightarrow> (CacheKey \<Rightarrow> bool) \<Rightarrow> pdir \<Rightarrow> fworld" where
  "facade_start c fault d =
     \<lparr>fw_memory = preload c fault d [Certificate, PrivateKey, ApiSession] Map.empty,
      fw_seq = 0, fw_sender = True, fw_queue = [], fw_overflow = [], fw_health = HealthSlot_new,
      fw_callers = [], fw_disk = d, fw_retry = RetryLane_new, fw_last = Map.empty, fw_pc = LoopTop,
      fw_now = 0, fw_issued = 0, fw_stamp = (\<lambda>_. 0),
      fw_ever = (\<lambda>key. [cache_get c False key d])\<rparr>"

section \<open>Callbacks\<close>

text \<open>\<open>next_seq\<close>: the counter and the number handed out wrap together.\<close>

definition next_seq :: "u64 \<Rightarrow> u64" where
  "next_seq s = wrapping_incr s"

text \<open>The critical section of each callback, under the memory lock.\<close>

definition put_begin :: "CacheKey \<Rightarrow> bytes \<Rightarrow> fworld \<Rightarrow> fworld" where
  "put_begin key bs w =
     (if length bs > MAX_PLAINTEXT_LEN then
        w\<lparr>fw_health := record_failure
            ''a put exceeded the plaintext cap (the file cap minus the serialization overhead) - refused before the clone''
            (fw_health w)\<rparr>
      else
        let s = next_seq (fw_seq w); n = name_for key in
        w\<lparr>fw_memory := (fw_memory w)(n \<mapsto> bs), fw_seq := s,
          fw_callers := fw_callers w @ [Sending (Put n bs s)],
          fw_issued := fw_issued w + 1, fw_stamp := (fw_stamp w)(key := s),
          fw_ever := (fw_ever w)(key := Some bs # fw_ever w key)\<rparr>)"

definition remove_begin :: "CacheKey \<Rightarrow> fworld \<Rightarrow> fworld" where
  "remove_begin key w =
     (let s = next_seq (fw_seq w); n = name_for key in
      w\<lparr>fw_memory := (fw_memory w)(n := None), fw_seq := s,
        fw_callers := fw_callers w @ [Sending (Remove n s)],
        fw_issued := fw_issued w + 1, fw_stamp := (fw_stamp w)(key := s),
        fw_ever := (fw_ever w)(key := None # fw_ever w key)\<rparr>)"

definition clear_begin :: "fworld \<Rightarrow> fworld" where
  "clear_begin w =
     (let s = next_seq (fw_seq w) in
      w\<lparr>fw_memory := Map.empty, fw_seq := s, fw_callers := fw_callers w @ [Sending (ClearAll s)],
        fw_issued := fw_issued w + 1, fw_stamp := (\<lambda>_. s), fw_ever := (\<lambda>key. None # fw_ever w key)\<rparr>)"

definition GONE_MSG :: string where
  "GONE_MSG = ''the persistence worker is GONE (panicked?) - the in-memory value may not survive restart''"

primrec full_msg :: "Op \<Rightarrow> string" where
  "full_msg (Put _ _ _) = ''the persistence queue is full - a put was moved to the overflow lane (it applies when the disk side drains)''"
| "full_msg (Remove _ _) = ''the persistence queue is full - a REMOVE was moved to the overflow lane (it applies when the disk side drains)''"
| "full_msg (ClearAll _) = ''the persistence queue is full - a CLEAR-ALL was moved to the overflow lane (it applies when the disk side drains)''"

definition remove_at :: "nat \<Rightarrow> 'a list \<Rightarrow> 'a list" where
  "remove_at i xs = take i xs @ drop (Suc i) xs"

text \<open>The rest of a callback: \<open>try_send\<close>, then the overflow lane, then the report.\<close>

definition caller_step :: "nat \<Rightarrow> fworld \<Rightarrow> fworld" where
  "caller_step i w =
     (case fw_callers w ! i of
        Sending op \<Rightarrow>
          if fw_pc w = Stopped then w\<lparr>fw_callers := (fw_callers w)[i := Reporting GONE_MSG]\<rparr>
          else if length (fw_queue w) < QUEUE_BOUND
          then w\<lparr>fw_queue := fw_queue w @ [op], fw_callers := remove_at i (fw_callers w)\<rparr>
          else w\<lparr>fw_callers := (fw_callers w)[i := Overflowing op]\<rparr>
      | Overflowing op \<Rightarrow>
          w\<lparr>fw_overflow := overflow op (fw_overflow w),
            fw_callers := (fw_callers w)[i := Reporting (full_msg op)]\<rparr>
      | Reporting msg \<Rightarrow>
          w\<lparr>fw_health := record_failure msg (fw_health w), fw_callers := remove_at i (fw_callers w)\<rparr>)"

text \<open>A callback that nothing interrupts; the last caller is the one that was begun.\<close>

definition call_through :: "nat \<Rightarrow> fworld \<Rightarrow> fworld" where
  "call_through n w =
     (let step = (\<lambda>w. if n < length (fw_callers w) then caller_step n w else w) in step (step (step w)))"

definition facade_put :: "CacheKey \<Rightarrow> bytes \<Rightarrow> fworld \<Rightarrow> fworld" where
  "facade_put key bs w = call_through (length (fw_callers w)) (put_begin key bs w)"

definition facade_remove :: "CacheKey \<Rightarrow> fworld \<Rightarrow> fworld" where
  "facade_remove key w = call_through (length (fw_callers w)) (remove_begin key w)"

definition facade_clear_all :: "fworld \<Rightarrow> fworld" where
  "facade_clear_all w = call_through (length (fw_callers w)) (clear_begin w)"

definition facade_get :: "CacheKey \<Rightarrow> fworld \<Rightarrow> bytes option" where
  "facade_get key w = fw_memory w (name_for key)"

section \<open>The worker\<close>

text \<open>\<open>apply_pass\<close>, one operation at a time: the guard, the attempt, and its two outcomes.\<close>

definition apply_op :: "xcipher \<Rightarrow> attempt_io \<Rightarrow> Op \<Rightarrow> Op list \<Rightarrow> resume \<Rightarrow> fworld \<Rightarrow> fworld option" where
  "apply_op c io op ops r w =
     (if stale (fw_last w) op then Some (w\<lparr>fw_pc := Applying ops r\<rparr>)
      else (case attempt c io op (fw_disk w) of
        (Ok _, d) \<Rightarrow>
          Some (w\<lparr>fw_disk := d, fw_last := (fw_last w)(key_name op \<mapsto> op_seq op),
                  fw_retry := note_success (key_name op) (op_seq op) (fw_retry w),
                  fw_pc := Succeeded ops r\<rparr>)
      | (Err e, d) \<Rightarrow>
          Some (w\<lparr>fw_disk := d, fw_health := record_failure (cache_error_text e) (fw_health w),
                  fw_retry := retain (fw_now w) op (fw_retry w), fw_pc := Applying ops r\<rparr>)
      | (Panic, _) \<Rightarrow> None))"

text \<open>After a success: the lane was looked at, then the failure is cleared or not.\<close>

definition recover :: "bool \<Rightarrow> Op list \<Rightarrow> resume \<Rightarrow> fworld \<Rightarrow> fworld" where
  "recover overflow_empty ops r w =
     (let h = (if pending (fw_retry w) = [] \<and> overflow_empty then note_recovered (fw_health w) else fw_health w)
      in w\<lparr>fw_health := h\<lparr>hs_applied := wrapping_incr (hs_applied h)\<rparr>, fw_pc := Applying ops r\<rparr>)"

definition loop_top :: "fworld \<Rightarrow> fworld" where
  "loop_top w =
     (let (ready, retry) = take_ready (fw_now w) (fw_retry w); batch = ready @ fw_overflow w in
      w\<lparr>fw_retry := retry, fw_overflow := [],
        fw_pc := (if batch \<noteq> [] then Applying (pass_ops batch) ThenReceive else AtReceive)\<rparr>)"

definition receive_until :: "fworld \<Rightarrow> nat" where
  "receive_until w =
     (case retry_deadline (fw_retry w) of Some deadline \<Rightarrow> deadline | None \<Rightarrow> fw_now w + OVERFLOW_POLL)"

text \<open>\<open>recv_timeout\<close>: an operation, a disconnect of the drained queue, the timeout, or still waiting.\<close>

definition receive :: "nat \<Rightarrow> fworld \<Rightarrow> fworld option" where
  "receive until w =
     (case fw_queue w of
        op # rest \<Rightarrow> Some (w\<lparr>fw_queue := rest, fw_pc := Collecting [op]\<rparr>)
      | [] \<Rightarrow>
        if \<not> fw_sender w then Some (w\<lparr>fw_pc := Draining\<rparr>)
        else if until \<le> fw_now w then Some (w\<lparr>fw_pc := Collecting []\<rparr>)
        else None)"

definition gather :: "Op list \<Rightarrow> fworld \<Rightarrow> fworld" where
  "gather batch w =
     (case fw_queue w of
        op # rest \<Rightarrow>
          if length batch < QUEUE_BOUND then w\<lparr>fw_queue := rest, fw_pc := Collecting (batch @ [op])\<rparr>
          else w\<lparr>fw_pc := Applying (pass_ops batch) ThenLoop\<rparr>
      | [] \<Rightarrow> w\<lparr>fw_pc := Applying (pass_ops batch) ThenLoop\<rparr>)"

text \<open>The shutdown drain and what follows it.\<close>

definition final_drain :: "fworld \<Rightarrow> fworld" where
  "final_drain w =
     (let (ops, retry) = take_all (fw_retry w); final_pass = fw_overflow w @ ops in
      w\<lparr>fw_overflow := [], fw_retry := retry,
        fw_pc := (if final_pass \<noteq> [] then Applying (pass_ops final_pass) ThenExit else Exiting)\<rparr>)"

definition final_check :: "fworld \<Rightarrow> fworld" where
  "final_check w =
     w\<lparr>fw_health :=
         (if pending (fw_retry w) \<noteq> [] then
            record_failure
              ''pending persistence retries could not drain at shutdown - the desired state may not be durable''
              (fw_health w)
          else fw_health w),
       fw_pc := Exiting\<rparr>"

definition resume_pc :: "resume \<Rightarrow> worker_pc" where
  "resume_pc r = (case r of ThenReceive \<Rightarrow> AtReceive | ThenLoop \<Rightarrow> LoopTop | ThenExit \<Rightarrow> FinalCheck)"

text \<open>\<open>worker_loop\<close>.\<close>

definition worker_step :: "xcipher \<Rightarrow> attempt_io \<Rightarrow> fworld \<Rightarrow> fworld option" where
  "worker_step c io w =
     (case fw_pc w of
        LoopTop \<Rightarrow> Some (loop_top w)
      | Applying ops r \<Rightarrow>
          (case ops of [] \<Rightarrow> Some (w\<lparr>fw_pc := resume_pc r\<rparr>) | op # rest \<Rightarrow> apply_op c io op rest r w)
      | Succeeded ops r \<Rightarrow> Some (w\<lparr>fw_pc := Recovering (fw_overflow w = []) ops r\<rparr>)
      | Recovering e ops r \<Rightarrow> Some (recover e ops r w)
      | AtReceive \<Rightarrow> Some (w\<lparr>fw_pc := Waiting (receive_until w)\<rparr>)
      | Waiting until \<Rightarrow> receive until w
      | Collecting batch \<Rightarrow> Some (gather batch w)
      | Draining \<Rightarrow> Some (final_drain w)
      | FinalCheck \<Rightarrow> Some (final_check w)
      | Exiting \<Rightarrow> Some (w\<lparr>fw_health := (fw_health w)\<lparr>hs_alive := False\<rparr>, fw_pc := Stopped\<rparr>)
      | Stopped \<Rightarrow> None)"

text \<open>
  \<open>Drop\<close>: it has the facade to itself, so no callback is under way and none follows.
  \<open>join_worker\<close> drops the sender and waits for the worker, and records a failure when the
  wait times out.
\<close>

definition DRAIN_MSG :: string where
  "DRAIN_MSG = ''the persistence worker did not drain within the shutdown timeout - detaching (queued writes may be lost)''"

definition join_timeout :: "fworld \<Rightarrow> fworld" where
  "join_timeout w = w\<lparr>fw_health := record_failure DRAIN_MSG (fw_health w)\<rparr>"

inductive fstep :: "xcipher \<Rightarrow> fworld \<Rightarrow> fworld \<Rightarrow> bool" for c where
  fs_put: "fw_sender w \<Longrightarrow> fstep c w (put_begin key bs w)"
| fs_remove: "fw_sender w \<Longrightarrow> fstep c w (remove_begin key w)"
| fs_clear: "fw_sender w \<Longrightarrow> fstep c w (clear_begin w)"
| fs_caller: "i < length (fw_callers w) \<Longrightarrow> fstep c w (caller_step i w)"
| fs_worker: "worker_step c io w = Some w' \<Longrightarrow> fstep c w w'"
| fs_time: "fw_now w \<le> t \<Longrightarrow> fstep c w (w\<lparr>fw_now := t\<rparr>)"
| fs_drop: "fw_sender w \<Longrightarrow> fw_callers w = [] \<Longrightarrow> fstep c w (w\<lparr>fw_sender := False\<rparr>)"
| fs_join_timeout: "\<not> fw_sender w \<Longrightarrow> fw_pc w \<noteq> Stopped \<Longrightarrow> fstep c w (join_timeout w)"

text \<open>
  The worlds of a facade that was opened on a directory it could read: a file that cannot be read
  at the start is missing from memory although the disk holds it.
\<close>

inductive freachable :: "xcipher \<Rightarrow> pdir \<Rightarrow> fworld \<Rightarrow> bool" for c d where
  fr_start: "booted d \<Longrightarrow> freachable c d (facade_start c (\<lambda>_. False) d)"
| fr_step: "freachable c d w \<Longrightarrow> fstep c w w' \<Longrightarrow> freachable c d w'"

section \<open>The invariant\<close>

fun caller_ops :: "callback \<Rightarrow> Op list" where
  "caller_ops (Sending op) = [op]"
| "caller_ops (Overflowing op) = [op]"
| "caller_ops (Reporting _) = []"

fun worker_ops :: "worker_pc \<Rightarrow> Op list" where
  "worker_ops (Applying ops _) = ops"
| "worker_ops (Succeeded ops _) = ops"
| "worker_ops (Recovering _ ops _) = ops"
| "worker_ops (Collecting ops) = ops"
| "worker_ops _ = []"

text \<open>Every operation that is on its way to the disk.\<close>

definition in_flight :: "fworld \<Rightarrow> Op list" where
  "in_flight w =
     concat (map caller_ops (fw_callers w)) @ fw_queue w @ fw_overflow w @ retry_ops (fw_retry w) @
     worker_ops (fw_pc w)"

definition mark :: "fworld \<Rightarrow> CacheKey \<Rightarrow> u64" where
  "mark w key = (case fw_last w (name_for key) of None \<Rightarrow> 0 | Some l \<Rightarrow> l)"

text \<open>An operation on a key is no newer than memory, and memory is what the newest one says.\<close>

definition truthful :: "fworld \<Rightarrow> CacheKey \<Rightarrow> Op \<Rightarrow> bool" where
  "truthful w key op \<longleftrightarrow>
     0 < op_seq op \<and> op_seq op \<le> fw_stamp w key \<and>
     (op_seq op = fw_stamp w key \<longrightarrow> op_value op = fw_memory w (name_for key))"

text \<open>
  The disk has a key's newest operation durably, or that operation is still on its way.
\<close>

definition key_ok :: "xcipher \<Rightarrow> fworld \<Rightarrow> CacheKey \<Rightarrow> bool" where
  "key_ok c w key \<longleftrightarrow>
     fw_stamp w key \<le> fw_issued w \<and>
     (\<forall>op \<in> set (in_flight w). affects key op \<longrightarrow> truthful w key op) \<and>
     mark w key \<le> fw_stamp w key \<and>
     (mark w key = fw_stamp w key \<longrightarrow> settled_on c (fw_disk w) key (fw_memory w (name_for key))) \<and>
     (mark w key < fw_stamp w key \<longrightarrow> carries key (fw_stamp w key) (in_flight w))"

definition lanes_ok :: "fworld \<Rightarrow> bool" where
  "lanes_ok w \<longleftrightarrow>
     fw_seq w = fw_issued w \<and> lane_named (pending (fw_retry w)) \<and>
     (case fw_pc w of Applying ops _ \<Rightarrow> \<forall>op \<in> set ops. \<not> is_clear op
      | Succeeded ops _ \<Rightarrow> \<forall>op \<in> set ops. \<not> is_clear op
      | Recovering _ ops _ \<Rightarrow> \<forall>op \<in> set ops. \<not> is_clear op
      | _ \<Rightarrow> True)"

lemma in_flight_no_newer:
  "key_ok c w key \<Longrightarrow> set ops \<subseteq> set (in_flight w) \<Longrightarrow> no_newer key (fw_stamp w key) ops"
  by (auto simp: key_ok_def no_newer_iff truthful_def)

text \<open>Operations that only change lanes.\<close>

definition comes_from :: "CacheKey \<Rightarrow> Op \<Rightarrow> Op \<Rightarrow> bool" where
  "comes_from key op op' \<longleftrightarrow> affects key op' \<and> op_seq op = op_seq op' \<and> op_value op = op_value op'"

lemma comes_from_refl: "affects key op \<Longrightarrow> comes_from key op op"
  by (simp add: comes_from_def)

lemma comes_from_expand: "x \<in> set (expand_per_key op) \<Longrightarrow> affects key x \<Longrightarrow> comes_from key x op"
  using expand_seq expand_affects by (auto simp: comes_from_def)

lemma key_ok_moved:
  assumes "key_ok c w key"
    and "fw_stamp w' key = fw_stamp w key" "fw_memory w' (name_for key) = fw_memory w (name_for key)"
    and "mark w' key = mark w key" "fw_disk w' = fw_disk w" "fw_issued w' = fw_issued w"
    and "\<And>op. op \<in> set (in_flight w') \<Longrightarrow> affects key op \<Longrightarrow> \<exists>op' \<in> set (in_flight w). comes_from key op op'"
    and "carries key (fw_stamp w key) (in_flight w) \<Longrightarrow> carries key (fw_stamp w key) (in_flight w')"
  shows "key_ok c w' key"
proof -
  have "truthful w' key op" if "op \<in> set (in_flight w')" "affects key op" for op
    using assms(7) [OF that] assms(1-3) by (auto simp: key_ok_def truthful_def comes_from_def)
  with assms show ?thesis by (auto simp: key_ok_def)
qed

text \<open>When the operations on their way are the same, nothing else matters.\<close>

lemma key_ok_same:
  assumes "key_ok c w key"
    and "fw_stamp w' = fw_stamp w" "fw_memory w' = fw_memory w" "fw_last w' = fw_last w"
    and "fw_disk w' = fw_disk w" "fw_issued w' = fw_issued w" "set (in_flight w') = set (in_flight w)"
  shows "key_ok c w' key"
  by (rule key_ok_moved [OF assms(1)])
     (use assms in \<open>auto simp: mark_def carries_iff intro: bexI comes_from_refl\<close>)

subsection \<open>Callbacks\<close>

text \<open>A numbered operation is newer than everything under way, and is on its way itself.\<close>

lemma key_ok_numbered:
  assumes "key_ok c w key" "lanes_ok w" "fw_issued w < u64_max"
    and "fw_issued w' = fw_issued w + 1" "fw_last w' = fw_last w" "fw_disk w' = fw_disk w"
    and "set (in_flight w') = insert op (set (in_flight w))" "op_seq op = next_seq (fw_seq w)"
    and "affects key op \<Longrightarrow> fw_stamp w' key = next_seq (fw_seq w) \<and> op_value op = fw_memory w' (name_for key)"
    and "\<not> affects key op \<Longrightarrow>
           fw_stamp w' key = fw_stamp w key \<and> fw_memory w' (name_for key) = fw_memory w (name_for key)"
  shows "key_ok c w' key"
proof -
  have s: "next_seq (fw_seq w) = fw_issued w + 1"
    using assms(2,3) by (simp add: next_seq_def wrapping_incr_def lanes_ok_def)
  have m: "mark w' key = mark w key" by (simp add: mark_def assms(5))
  show ?thesis
  proof (cases "affects key op")
    case True
    have "truthful w' key x" if "x \<in> set (in_flight w)" "affects key x" for x
      using assms(1,9) that s True by (fastforce simp: key_ok_def truthful_def)
    moreover have "truthful w' key op" using assms(8,9) True s by (simp add: truthful_def)
    ultimately show ?thesis
      using True assms(1,4,7,8,9) s m by (auto simp: key_ok_def carries_iff)
  next
    case False
    show ?thesis
      using assms(1,4,5,6,7,10) False m by (auto simp: key_ok_def truthful_def carries_iff)
  qed
qed

lemma put_begin_ok:
  assumes "key_ok c w j" "lanes_ok w" "fw_issued w < u64_max"
  shows "key_ok c (put_begin key bs w) j"
proof (cases "length bs > MAX_PLAINTEXT_LEN")
  case True
  then show ?thesis by (intro key_ok_same [OF assms(1)]) (simp_all add: put_begin_def in_flight_def)
next
  case False
  then show ?thesis
    by (intro key_ok_numbered [OF assms, where op = "Put (name_for key) bs (next_seq (fw_seq w))"])
       (auto simp: put_begin_def in_flight_def affects_def op_value_def Let_def)
qed

lemma remove_begin_ok:
  assumes "key_ok c w j" "lanes_ok w" "fw_issued w < u64_max"
  shows "key_ok c (remove_begin key w) j"
  by (intro key_ok_numbered [OF assms, where op = "Remove (name_for key) (next_seq (fw_seq w))"])
     (auto simp: remove_begin_def in_flight_def affects_def op_value_def Let_def)

lemma clear_begin_ok:
  assumes "key_ok c w j" "lanes_ok w" "fw_issued w < u64_max"
  shows "key_ok c (clear_begin w) j"
  by (intro key_ok_numbered [OF assms, where op = "ClearAll (next_seq (fw_seq w))"])
     (auto simp: clear_begin_def in_flight_def affects_def op_value_def Let_def)

lemma callers_split:
  "i < length xs \<Longrightarrow> xs = take i xs @ xs ! i # drop (Suc i) xs"
  "i < length xs \<Longrightarrow> xs[i := x] = take i xs @ x # drop (Suc i) xs"
  by (simp_all add: id_take_nth_drop upd_conv_take_nth_drop)

text \<open>The operations of the callers apart from one.\<close>

lemma callers_at:
  "i < length cs \<Longrightarrow> set (concat (map caller_ops cs)) =
     set (concat (map caller_ops (remove_at i cs))) \<union> set (caller_ops (cs ! i))"
  unfolding remove_at_def by (subst callers_split(1)) auto

lemma callers_updated:
  "i < length cs \<Longrightarrow> set (concat (map caller_ops (cs[i := x]))) =
     set (concat (map caller_ops (remove_at i cs))) \<union> set (caller_ops x)"
  unfolding remove_at_def by (subst callers_split(2)) auto

lemma caller_step_ok:
  assumes "key_ok c w key" "i < length (fw_callers w)" "fw_pc w \<noteq> Stopped"
  shows "key_ok c (caller_step i w) key"
proof (cases "fw_callers w ! i")
  case (Sending op)
  then show ?thesis
    by (intro key_ok_same [OF assms(1)])
       (use assms callers_at [OF assms(2)] in
          \<open>auto simp: caller_step_def in_flight_def callers_updated simp del: set_concat\<close>)
next
  case (Reporting msg)
  then show ?thesis
    by (intro key_ok_same [OF assms(1)])
       (use assms callers_at [OF assms(2)] in
          \<open>auto simp: caller_step_def in_flight_def simp del: set_concat\<close>)
next
  case (Overflowing op)
  define rest where "rest = concat (map caller_ops (remove_at i (fw_callers w))) @ fw_queue w @
      retry_ops (fw_retry w) @ worker_ops (fw_pc w)"
  have old: "set (in_flight w) = set rest \<union> {op} \<union> set (fw_overflow w)"
    using Overflowing callers_at [OF assms(2)] by (auto simp: in_flight_def rest_def simp del: set_concat)
  have new: "set (in_flight (caller_step i w)) = set rest \<union> set (overflow op (fw_overflow w))"
    using Overflowing assms(2)
    by (auto simp: caller_step_def in_flight_def callers_updated rest_def simp del: set_concat)
  show ?thesis
  proof (rule key_ok_moved [OF assms(1)])
    fix x assume x: "x \<in> set (in_flight (caller_step i w))" "affects key x"
    then consider "x \<in> set (in_flight w)" | "x \<in> set (expand_per_key op)"
      using new old overflow_subset [of op "fw_overflow w"] by blast
    then show "\<exists>op' \<in> set (in_flight w). comes_from key x op'"
      using x(2) old comes_from_refl comes_from_expand by cases blast+
  next
    assume "carries key (fw_stamp w key) (in_flight w)"
    then have "carries key (fw_stamp w key) rest \<or> affects key op \<and> op_seq op = fw_stamp w key \<or>
        carries key (fw_stamp w key) (fw_overflow w)"
      using old by (auto simp: carries_iff)
    moreover have "no_newer key (fw_stamp w key) (op # fw_overflow w)"
      by (rule in_flight_no_newer [OF assms(1)]) (auto simp: old)
    ultimately show "carries key (fw_stamp w key) (in_flight (caller_step i w))"
      using overflow_carries new by (fastforce simp: carries_iff)
  qed (use Overflowing in \<open>simp_all add: caller_step_def mark_def\<close>)
qed

subsection \<open>The worker's lanes\<close>

text \<open>A batch that becomes a pass.\<close>

lemma key_ok_pass:
  assumes "key_ok c w key"
    and "fw_stamp w' = fw_stamp w" "fw_memory w' = fw_memory w" "fw_last w' = fw_last w"
    and "fw_disk w' = fw_disk w" "fw_issued w' = fw_issued w"
    and old: "set (in_flight w) = set rest \<union> set batch" and new: "set (in_flight w') = set rest \<union> set (pass_ops batch)"
  shows "key_ok c w' key"
proof (rule key_ok_moved [OF assms(1)])
  fix x assume x: "x \<in> set (in_flight w')" "affects key x"
  then consider "x \<in> set (in_flight w)" | op where "op \<in> set batch" "x \<in> set (expand_per_key op)"
    using new old pass_ops_from [of x batch] by auto
  then show "\<exists>op' \<in> set (in_flight w). comes_from key x op'"
    using x(2) old comes_from_refl comes_from_expand by cases blast+
next
  assume "carries key (fw_stamp w key) (in_flight w)"
  then have "carries key (fw_stamp w key) rest \<or> carries key (fw_stamp w key) batch"
    using old by (auto simp: carries_iff)
  moreover have "no_newer key (fw_stamp w key) batch"
    by (rule in_flight_no_newer [OF assms(1)]) (auto simp: old)
  ultimately show "carries key (fw_stamp w key) (in_flight w')"
    using pass_ops_carries new by (fastforce simp: carries_iff)
qed (use assms in \<open>simp_all add: mark_def\<close>)

lemma pass_ops_Nil [simp]: "pass_ops [] = []"
  by (simp add: pass_ops_def coalesce_def)

lemma loop_top_ok:
  assumes "key_ok c w key" "lanes_ok w" "fw_pc w = LoopTop"
  shows "key_ok c (loop_top w) key"
proof -
  obtain ready retry where t: "take_ready (fw_now w) (fw_retry w) = (ready, retry)" by force
  have ops: "set (retry_ops (fw_retry w)) = set ready \<union> set (retry_ops retry)"
    using take_ready_ops(2) [of "fw_retry w" "fw_now w"] assms(2) t by (simp add: lanes_ok_def)
  show ?thesis
    by (rule key_ok_pass [OF assms(1), where batch = "ready @ fw_overflow w" and
          rest = "concat (map caller_ops (fw_callers w)) @ fw_queue w @ retry_ops retry"])
       (use assms(3) ops in \<open>auto simp: loop_top_def t in_flight_def Let_def\<close>)
qed

lemma gather_ok:
  assumes "key_ok c w key" "fw_pc w = Collecting batch"
  shows "key_ok c (gather batch w) key"
proof (cases "fw_queue w \<noteq> [] \<and> length batch < QUEUE_BOUND")
  case True
  then show ?thesis
    by (intro key_ok_same [OF assms(1)])
       (use assms(2) in \<open>auto simp: gather_def in_flight_def split: list.splits\<close>)
next
  case False
  then have g: "gather batch w = w\<lparr>fw_pc := Applying (pass_ops batch) ThenLoop\<rparr>"
    by (auto simp: gather_def split: list.splits)
  show ?thesis unfolding g
    by (rule key_ok_pass [OF assms(1), where batch = batch and
          rest = "concat (map caller_ops (fw_callers w)) @ fw_queue w @ fw_overflow w @ retry_ops (fw_retry w)"])
       (use assms(2) in \<open>auto simp: in_flight_def\<close>)
qed

lemma final_drain_ok:
  assumes "key_ok c w key" "fw_pc w = Draining"
  shows "key_ok c (final_drain w) key"
  by (rule key_ok_pass [OF assms(1), where batch = "fw_overflow w @ retry_ops (fw_retry w)" and
        rest = "concat (map caller_ops (fw_callers w)) @ fw_queue w"])
     (use assms(2) in \<open>auto simp: final_drain_def take_all_def retry_ops_def in_flight_def Let_def\<close>)

lemma worker_receive_ok:
  assumes "key_ok c w key" "fw_pc w = Waiting until" "receive until w = Some w'"
  shows "key_ok c w' key"
  by (rule key_ok_same [OF assms(1)])
     (use assms(2,3) in \<open>auto simp: receive_def in_flight_def split: list.splits if_splits\<close>)

subsection \<open>One operation of a pass\<close>

text \<open>The operation is dropped by the guard: something at least as new is on the disk.\<close>

lemma apply_stale_ok:
  assumes "key_ok c w key" "fw_pc w = Applying (op # ops) r" "\<not> is_clear op" "stale (fw_last w) op"
  shows "key_ok c (w\<lparr>fw_pc := Applying ops r\<rparr>) key"
proof -
  define w' where "w' = w\<lparr>fw_pc := Applying ops r\<rparr>"
  have same: "fw_stamp w' = fw_stamp w" "fw_memory w' = fw_memory w" "mark w' key = mark w key"
    "fw_disk w' = fw_disk w" "fw_issued w' = fw_issued w" by (simp_all add: w'_def mark_def)
  have fl: "set (in_flight w) = insert op (set (in_flight w'))"
    using assms(2) by (auto simp: w'_def in_flight_def)
  have "\<not> affects key op" if "mark w key < op_seq op"
    using that assms(3,4) by (auto simp: stale_def mark_def affects_def split: option.splits)
  then have "carries key (fw_stamp w key) (in_flight w')" if "mark w key < fw_stamp w key"
    using that assms(1) fl by (auto simp: key_ok_def carries_iff)
  with same fl assms(1) show ?thesis
    unfolding w'_def [symmetric] by (auto simp: key_ok_def truthful_def)
qed

text \<open>The operation reached the disk.\<close>

lemma apply_success_ok:
  assumes "aead_ok c" "key_ok c w key" "lanes_ok w" "fw_pc w = Applying (op # ops) r"
    and "\<not> stale (fw_last w) op" "attempt c io op (fw_disk w) = (Ok (), d)"
  shows "key_ok c (w\<lparr>fw_disk := d, fw_last := (fw_last w)(key_name op \<mapsto> op_seq op),
            fw_retry := note_success (key_name op) (op_seq op) (fw_retry w), fw_pc := Succeeded ops r\<rparr>) key"
    (is "key_ok c ?w key")
proof -
  have nc: "\<not> is_clear op" and named: "lane_named (pending (fw_retry w))"
    using assms(3,4) by (auto simp: lanes_ok_def)
  have fl: "set (in_flight w) \<subseteq> insert op (set (in_flight ?w) \<union> set (retry_ops (fw_retry w)))"
    "set (in_flight ?w) \<subseteq> set (in_flight w)" "op \<in> set (in_flight w)"
    using assms(4) note_success_ops(2) [OF named, of "key_name op" "op_seq op"] by (auto simp: in_flight_def)
  have truth: "\<forall>x \<in> set (in_flight ?w). affects key x \<longrightarrow> truthful ?w key x"
    using assms(2) fl(2) by (auto simp: key_ok_def truthful_def)
  show ?thesis
  proof (cases "key_name op = name_for key")
    case True
    then have aff: "affects key op" by (simp add: affects_def)
    have t: "truthful w key op" using assms(2) fl(3) aff by (simp add: key_ok_def)
    have m: "mark ?w key = op_seq op" by (simp add: mark_def True)
    have "settled_on c d key (op_value op)"
      using attempt_Ok [OF assms(1) _ nc True, of io "fw_disk w"] assms(6) by simp
    moreover have "carries key (fw_stamp w key) (in_flight ?w)" if lt: "op_seq op < fw_stamp w key"
    proof -
      have "mark w key \<le> op_seq op"
        using assms(5) nc True by (auto simp: stale_def mark_def split: option.splits)
      then have "carries key (fw_stamp w key) (in_flight w)" using assms(2) lt by (simp add: key_ok_def)
      then obtain x where x: "x \<in> set (in_flight w)" "affects key x" "op_seq x = fw_stamp w key"
        by (auto simp: carries_iff)
      with lt have "x \<noteq> op" by auto
      moreover have "x \<in> set (retry_ops (note_success (key_name op) (op_seq op) (fw_retry w)))"
        if "x \<in> set (retry_ops (fw_retry w))"
        using that x lt note_success_ops(2) [OF named, of "key_name op" "op_seq op"] by auto
      ultimately have "x \<in> set (in_flight ?w)"
        using x(1) fl(1) by (auto simp: in_flight_def)
      with x show ?thesis by (auto simp: carries_iff)
    qed
    ultimately show ?thesis
      using truth t m assms(2) by (auto simp: key_ok_def truthful_def)
  next
    case False
    then have m: "mark ?w key = mark w key" by (simp add: mark_def)
    have na: "\<not> affects key op" using False nc by (simp add: affects_def)
    have set: "settled_on c d key v" if "settled_on c (fw_disk w) key v" for v
      using attempt_other [OF assms(1) that False, of io] assms(6) by simp
    have "carries key (fw_stamp w key) (in_flight ?w)" if "carries key (fw_stamp w key) (in_flight w)"
    proof -
      obtain x where x: "x \<in> set (in_flight w)" "affects key x" "op_seq x = fw_stamp w key"
        using \<open>carries key (fw_stamp w key) (in_flight w)\<close> by (auto simp: carries_iff)
      have "x \<noteq> op" using x(2) na by auto
      moreover have "x \<in> set (retry_ops (note_success (key_name op) (op_seq op) (fw_retry w)))"
        if "x \<in> set (retry_ops (fw_retry w))"
      proof -
        have "\<not> is_clear x" using that named by (auto simp: retry_ops_def lane_named_def list_all_iff)
        with that x False note_success_ops(2) [OF named, of "key_name op" "op_seq op"] show ?thesis
          by (auto simp: affects_def)
      qed
      ultimately have "x \<in> set (in_flight ?w)" using x(1) fl(1) by (auto simp: in_flight_def)
      with x show ?thesis by (auto simp: carries_iff)
    qed
    with truth m set assms(2) show ?thesis by (auto simp: key_ok_def)
  qed
qed

text \<open>The attempt failed: the operation, or a newer one, is in the retry lane.\<close>

lemma apply_failure_ok:
  assumes "aead_ok c" "key_ok c w key" "lanes_ok w" "fw_pc w = Applying (op # ops) r"
    and "\<not> stale (fw_last w) op" "attempt c io op (fw_disk w) = (Err e, d)"
  shows "key_ok c (w\<lparr>fw_disk := d, fw_health := record_failure (cache_error_text e) (fw_health w),
            fw_retry := retain (fw_now w) op (fw_retry w), fw_pc := Applying ops r\<rparr>) key"
    (is "key_ok c ?w key")
proof -
  have nc: "\<not> is_clear op" and named: "lane_named (pending (fw_retry w))"
    using assms(3,4) by (auto simp: lanes_ok_def)
  have new: "retry_ops (retain (fw_now w) op (fw_retry w)) = overflow op (retry_ops (fw_retry w))"
    by (rule retain_as_overflow(2) [OF named])
  have m: "mark ?w key = mark w key" by (simp add: mark_def)
  define rest where "rest = concat (map caller_ops (fw_callers w)) @ fw_queue w @ fw_overflow w @ ops"
  have old: "set (in_flight w) = set rest \<union> {op} \<union> set (retry_ops (fw_retry w))"
    and nw: "set (in_flight ?w) = set rest \<union> set (overflow op (retry_ops (fw_retry w)))"
    using assms(4) new by (auto simp: in_flight_def rest_def)
  have "set (expand_per_key op) = {op}" using nc by (cases op) (simp_all add: expand_per_key_def)
  then have sub: "set (in_flight ?w) \<subseteq> set (in_flight w)"
    using overflow_subset [of op "retry_ops (fw_retry w)"] old nw by auto
  have "no_newer key (fw_stamp w key) (op # retry_ops (fw_retry w))"
    by (rule in_flight_no_newer [OF assms(2)]) (auto simp: old)
  then have car: "carries key (fw_stamp w key) (in_flight ?w)" if "carries key (fw_stamp w key) (in_flight w)"
    using that overflow_carries [of key "fw_stamp w key" op "retry_ops (fw_retry w)"] old nw
    by (auto simp: carries_iff)
  have "settled_on c d key (fw_memory w (name_for key))" if eq: "mark w key = fw_stamp w key"
  proof -
    have "key_name op \<noteq> name_for key"
    proof
      assume n: "key_name op = name_for key"
      then have "truthful w key op" using assms(2) old by (auto simp: key_ok_def affects_def)
      then show False using assms(5) n nc eq by (auto simp: truthful_def stale_def mark_def split: option.splits)
    qed
    moreover have "settled_on c (fw_disk w) key (fw_memory w (name_for key))"
      using assms(2) eq by (simp add: key_ok_def)
    ultimately show ?thesis
      using attempt_other [OF assms(1), of "fw_disk w" key _ op io] assms(6) by simp
  qed
  with car sub m assms(2) show ?thesis by (auto simp: key_ok_def truthful_def)
qed

section \<open>Every reachable world\<close>

text \<open>What shutdown relies on: nobody sends after the drop, and the end reports what it leaves.\<close>

definition closing :: "worker_pc \<Rightarrow> bool" where
  "closing pc =
     (case pc of Applying _ r \<Rightarrow> r = ThenExit | Succeeded _ r \<Rightarrow> r = ThenExit | Recovering _ _ r \<Rightarrow> r = ThenExit
      | Draining \<Rightarrow> True | FinalCheck \<Rightarrow> True | Exiting \<Rightarrow> True | Stopped \<Rightarrow> True | _ \<Rightarrow> False)"

definition shutdown_ok :: "fworld \<Rightarrow> bool" where
  "shutdown_ok w \<longleftrightarrow>
     (\<not> fw_sender w \<longrightarrow> fw_callers w = []) \<and>
     (closing (fw_pc w) \<longrightarrow> \<not> fw_sender w \<and> fw_queue w = [] \<and> (fw_pc w \<noteq> Draining \<longrightarrow> fw_overflow w = [])) \<and>
     (fw_pc w \<in> {Exiting, Stopped} \<longrightarrow> pending (fw_retry w) = [] \<or> hs_failure (fw_health w) \<noteq> None)"

definition facade_ok :: "xcipher \<Rightarrow> fworld \<Rightarrow> bool" where
  "facade_ok c w \<longleftrightarrow> lanes_ok w \<and> shutdown_ok w \<and> (\<forall>key. key_ok c w key)"

lemma pass_ops_not_clear: "op \<in> set (pass_ops batch) \<Longrightarrow> \<not> is_clear op"
  using pass_ops_from expand_not_clear by blast

lemma apply_op_cases:
  assumes "apply_op c io op ops r w = Some w'"
  obtains (stale) "stale (fw_last w) op" "w' = w\<lparr>fw_pc := Applying ops r\<rparr>"
  | (success) d where "\<not> stale (fw_last w) op" "attempt c io op (fw_disk w) = (Ok (), d)"
      "w' = w\<lparr>fw_disk := d, fw_last := (fw_last w)(key_name op \<mapsto> op_seq op),
              fw_retry := note_success (key_name op) (op_seq op) (fw_retry w), fw_pc := Succeeded ops r\<rparr>"
  | (failure) e d where "\<not> stale (fw_last w) op" "attempt c io op (fw_disk w) = (Err e, d)"
      "w' = w\<lparr>fw_disk := d, fw_health := record_failure (cache_error_text e) (fw_health w),
              fw_retry := retain (fw_now w) op (fw_retry w), fw_pc := Applying ops r\<rparr>"
  using assms by (auto simp: apply_op_def split: if_splits prod.splits res.splits)

lemma apply_op_lanes:
  assumes "apply_op c io op ops r w = Some w'" "lanes_ok w" "fw_pc w = Applying (op # ops) r"
  shows "lanes_ok w'"
  using assms(1)
proof (cases rule: apply_op_cases)
  case success
  then show ?thesis using assms(2,3) note_success_ops(1) by (auto simp: lanes_ok_def)
next
  case failure
  then show ?thesis using assms(2,3) retain_as_overflow(1) by (auto simp: lanes_ok_def)
qed (use assms(2,3) in \<open>auto simp: lanes_ok_def\<close>)

lemma worker_lanes:
  assumes "worker_step c io w = Some w'" "lanes_ok w"
  shows "lanes_ok w'"
proof (cases "\<exists>op ops r. fw_pc w = Applying (op # ops) r")
  case True
  then obtain op ops r where pc: "fw_pc w = Applying (op # ops) r" by blast
  then have "apply_op c io op ops r w = Some w'" using assms(1) by (simp add: worker_step_def)
  from apply_op_lanes [OF this assms(2) pc] show ?thesis .
next
  case False
  have t: "lane_named (pending (snd (take_ready t (fw_retry w))))" for t
    using assms(2) take_ready_ops(1) by (auto simp: lanes_ok_def)
  obtain ready retry where tr: "take_ready (fw_now w) (fw_retry w) = (ready, retry)" by force
  with t [of "fw_now w"] have retry: "lane_named (pending retry)" by simp
  have nil: "lane_named []" by (simp add: lane_named_def)
  show ?thesis
    using False assms retry nil pass_ops_not_clear tr
    by (auto simp: worker_step_def lanes_ok_def loop_top_def final_drain_def take_all_def resume_pc_def recover_def
        receive_def gather_def final_check_def Let_def split: worker_pc.splits list.splits resume.splits if_splits)
qed

lemma worker_shutdown:
  assumes "worker_step c io w = Some w'" "shutdown_ok w"
  shows "shutdown_ok w'"
proof (cases "\<exists>op ops r. fw_pc w = Applying (op # ops) r")
  case True
  then obtain op ops r where pc: "fw_pc w = Applying (op # ops) r" by blast
  then have "apply_op c io op ops r w = Some w'" using assms(1) by (simp add: worker_step_def)
  then show ?thesis
    by (cases rule: apply_op_cases) (use assms(2) pc in \<open>auto simp: shutdown_ok_def closing_def\<close>)
next
  case False
  show ?thesis
  proof (cases "fw_pc w")
    case (Applying ops r)
    then have "w' = w\<lparr>fw_pc := resume_pc r\<rparr>" "ops = []"
      using False assms(1) by (auto simp: worker_step_def neq_Nil_conv split: list.splits)
    then show ?thesis
      using assms(2) Applying by (cases r) (auto simp: shutdown_ok_def closing_def resume_pc_def)
  next
    case (Waiting until)
    then show ?thesis
      using assms by (auto simp: worker_step_def receive_def shutdown_ok_def closing_def split: list.splits if_splits)
  next
    case LoopTop
    then show ?thesis
      using assms by (auto simp: worker_step_def loop_top_def shutdown_ok_def closing_def Let_def
          split: prod.splits if_splits)
  next
    case (Collecting batch)
    then show ?thesis
      using assms by (auto simp: worker_step_def gather_def shutdown_ok_def closing_def
          split: list.splits if_splits)
  next
    case Draining
    then show ?thesis
      using assms by (auto simp: worker_step_def final_drain_def take_all_def shutdown_ok_def closing_def Let_def
          split: if_splits)
  next
    case FinalCheck
    then show ?thesis
      using assms by (auto simp: worker_step_def final_check_def record_failure_def shutdown_ok_def closing_def)
  next
    case (Recovering e ops r)
    then show ?thesis
      using assms by (auto simp: worker_step_def recover_def shutdown_ok_def closing_def Let_def)
  qed (use assms in \<open>auto simp: worker_step_def shutdown_ok_def closing_def\<close>)
qed

lemma worker_key_ok:
  assumes "aead_ok c" "worker_step c io w = Some w'" "lanes_ok w" "key_ok c w key"
  shows "key_ok c w' key"
proof (cases "fw_pc w")
  case (Applying ops r)
  show ?thesis
  proof (cases ops)
    case Nil
    then show ?thesis
      using Applying assms(2) by (intro key_ok_same [OF assms(4)])
        (auto simp: worker_step_def in_flight_def resume_pc_def split: resume.splits)
  next
    case (Cons op rest)
    then have "apply_op c io op rest r w = Some w'" and nc: "\<not> is_clear op"
      using Applying assms(2,3) by (auto simp: worker_step_def lanes_ok_def)
    then show ?thesis
    proof (cases rule: apply_op_cases)
      case stale
      with apply_stale_ok [OF assms(4)] Applying Cons nc show ?thesis by simp
    next
      case success
      with apply_success_ok [OF assms(1,4,3)] Applying Cons show ?thesis by simp
    next
      case failure
      with apply_failure_ok [OF assms(1,4,3)] Applying Cons show ?thesis by simp
    qed
  qed
next
  case (Waiting until)
  then show ?thesis using assms worker_receive_ok by (auto simp: worker_step_def)
next
  case LoopTop
  then show ?thesis using assms loop_top_ok by (auto simp: worker_step_def)
next
  case (Collecting batch)
  then show ?thesis using assms gather_ok by (auto simp: worker_step_def)
next
  case Draining
  then show ?thesis using assms final_drain_ok by (auto simp: worker_step_def)
qed (use assms(2) in \<open>auto intro!: key_ok_same [OF assms(4)]
       simp: worker_step_def in_flight_def recover_def final_check_def Let_def\<close>)

lemma facade_ok_worker:
  "aead_ok c \<Longrightarrow> worker_step c io w = Some w' \<Longrightarrow> facade_ok c w \<Longrightarrow> facade_ok c w'"
  using worker_lanes worker_shutdown worker_key_ok by (auto simp: facade_ok_def)

lemma begin_frames [simp]:
  "fw_pc (put_begin key bs w) = fw_pc w" "fw_pc (remove_begin key w) = fw_pc w" "fw_pc (clear_begin w) = fw_pc w"
  "fw_retry (put_begin key bs w) = fw_retry w" "fw_retry (remove_begin key w) = fw_retry w"
  "fw_retry (clear_begin w) = fw_retry w"
  by (simp_all add: put_begin_def remove_begin_def clear_begin_def Let_def)

lemma begin_lanes:
  assumes "lanes_ok w" "fw_issued w < u64_max"
  shows "lanes_ok (put_begin key bs w)" "lanes_ok (remove_begin key w)" "lanes_ok (clear_begin w)"
  using assms by (auto simp: lanes_ok_def put_begin_def remove_begin_def clear_begin_def next_seq_def
      wrapping_incr_def Let_def split: worker_pc.splits)

lemma begin_shutdown:
  assumes "shutdown_ok w" "fw_sender w"
  shows "shutdown_ok (put_begin key bs w)" "shutdown_ok (remove_begin key w)" "shutdown_ok (clear_begin w)"
  using assms by (auto simp: shutdown_ok_def closing_def put_begin_def remove_begin_def clear_begin_def
      record_failure_def Let_def)

lemma caller_step_frames [simp]:
  "fw_pc (caller_step i w) = fw_pc w" "fw_retry (caller_step i w) = fw_retry w"
  "fw_seq (caller_step i w) = fw_seq w" "fw_issued (caller_step i w) = fw_issued w"
  "fw_sender (caller_step i w) = fw_sender w"
  by (simp_all add: caller_step_def split: callback.splits)

lemma facade_ok_caller:
  assumes "facade_ok c w" "i < length (fw_callers w)"
  shows "facade_ok c (caller_step i w)"
proof -
  have s: "fw_sender w" and pc: "\<not> closing (fw_pc w)"
    using assms by (auto simp: facade_ok_def shutdown_ok_def)
  then have "fw_pc w \<noteq> Stopped" "fw_pc w \<noteq> Exiting" by (auto simp: closing_def)
  with assms s pc show ?thesis
    by (auto simp: facade_ok_def lanes_ok_def shutdown_ok_def intro!: caller_step_ok)
qed

lemma worker_issued:
  assumes "worker_step c io w = Some w'"
  shows "fw_issued w' = fw_issued w"
proof (cases "\<exists>op ops r. fw_pc w = Applying (op # ops) r")
  case True
  then obtain op ops r where "apply_op c io op ops r w = Some w'" using assms by (auto simp: worker_step_def)
  then show ?thesis by (cases rule: apply_op_cases) auto
qed (use assms in \<open>auto simp: worker_step_def loop_top_def final_drain_def recover_def receive_def gather_def final_check_def
        Let_def split: worker_pc.splits list.splits if_splits prod.splits\<close>)

lemma issued_mono: "fstep c w w' \<Longrightarrow> fw_issued w \<le> fw_issued w'"
proof (induction rule: fstep.induct)
  case (fs_worker io w w')
  then show ?case using worker_issued by simp
qed (auto simp: put_begin_def remove_begin_def clear_begin_def join_timeout_def Let_def)

lemma facade_ok_report:
  assumes "facade_ok c w"
  shows "facade_ok c (w\<lparr>fw_health := record_failure msg (fw_health w)\<rparr>)"
proof -
  have "key_ok c (w\<lparr>fw_health := record_failure msg (fw_health w)\<rparr>) key" for key
    by (rule key_ok_same [of c w]) (use assms in \<open>auto simp: facade_ok_def in_flight_def\<close>)
  with assms show ?thesis
    by (auto simp: facade_ok_def lanes_ok_def shutdown_ok_def record_failure_def)
qed

lemma facade_ok_step:
  assumes "aead_ok c" "fstep c w w'" "facade_ok c w" "fw_issued w' \<le> u64_max"
  shows "facade_ok c w'"
  using assms(2)
proof cases
  case (fs_put key bs)
  show ?thesis
  proof (cases "length bs > MAX_PLAINTEXT_LEN")
    case True
    then show ?thesis using fs_put facade_ok_report [OF assms(3)] by (simp add: put_begin_def)
  next
    case False
    then have "fw_issued w < u64_max" using fs_put assms(4) by (simp add: put_begin_def Let_def)
    then show ?thesis
      using fs_put assms(3) begin_lanes begin_shutdown put_begin_ok by (auto simp: facade_ok_def)
  qed
next
  case (fs_remove key)
  then have "fw_issued w < u64_max" using assms(4) by (simp add: remove_begin_def Let_def)
  then show ?thesis
    using fs_remove assms(3) begin_lanes begin_shutdown remove_begin_ok by (auto simp: facade_ok_def)
next
  case fs_clear
  then have "fw_issued w < u64_max" using assms(4) by (simp add: clear_begin_def Let_def)
  then show ?thesis
    using fs_clear assms(3) begin_lanes begin_shutdown clear_begin_ok by (auto simp: facade_ok_def)
next
  case (fs_caller i)
  then show ?thesis using facade_ok_caller assms(3) by simp
next
  case (fs_worker io)
  then show ?thesis using facade_ok_worker assms(1,3) by blast
next
  case (fs_time t)
  have "key_ok c w' key" for key
    by (rule key_ok_same [of c w]) (use assms(3) fs_time in \<open>auto simp: facade_ok_def in_flight_def\<close>)
  with assms(3) fs_time show ?thesis by (simp add: facade_ok_def lanes_ok_def shutdown_ok_def)
next
  case fs_drop
  have "key_ok c w' key" for key
    by (rule key_ok_same [of c w]) (use assms(3) fs_drop in \<open>auto simp: facade_ok_def in_flight_def\<close>)
  with assms(3) fs_drop show ?thesis by (auto simp: facade_ok_def lanes_ok_def shutdown_ok_def)
next
  case fs_join_timeout
  then show ?thesis using facade_ok_report [OF assms(3)] by (simp add: join_timeout_def)
qed

end
