(* ===== verification/Facade_Props.thy ===== *)
theory Facade_Props
  imports Facade_Runs
begin

text \<open>
  What the facade promises: a quiet facade restarts with what it served, at every moment a
  restart finds whole values, and a worker that stopped says so when it left something
  behind; and the moment at which the health surface speaks too early.
\<close>

section \<open>The start\<close>

lemma preload_memory:
  "preload c fault d keys m (name_for key) =
     (if key \<in> set keys then (case cache_get c (fault key) key d of Some bs \<Rightarrow> Some bs | None \<Rightarrow> m (name_for key))
      else m (name_for key))"
  by (induction keys arbitrary: m) (auto split: option.splits)

lemma start_memory: "fw_memory (facade_start c fault d) (name_for key) = cache_get c (fault key) key d"
  by (cases key) (auto simp: facade_start_def preload_memory split: option.splits)

lemma start_lanes [simp]:
  "in_flight (facade_start c fault d) = []" "fw_disk (facade_start c fault d) = d"
  "fw_stamp (facade_start c fault d) = (\<lambda>_. 0)" "fw_last (facade_start c fault d) = Map.empty"
  "fw_issued (facade_start c fault d) = 0"
  by (simp_all add: facade_start_def in_flight_def RetryLane_new_def retry_ops_def)

lemma facade_start_ok:
  assumes "booted d"
  shows "facade_ok c (facade_start c (\<lambda>_. False) d)"
proof -
  have "key_ok c (facade_start c (\<lambda>_. False) d) key" for key
    using settled_boot [OF assms, of c key] by (simp add: key_ok_def mark_def start_memory cache_get_def)
  then show ?thesis
    by (simp add: facade_ok_def lanes_ok_def shutdown_ok_def closing_def facade_start_def RetryLane_new_def lane_named_def)
qed

lemma reachable_facade_ok:
  assumes "freachable c d w" "aead_ok c"
  shows "fw_issued w \<le> u64_max \<Longrightarrow> facade_ok c w"
  using assms(1)
proof induction
  case fr_start
  then show ?case by (simp add: facade_start_ok)
next
  case (fr_step w w')
  then show ?case using facade_ok_step [OF assms(2)] issued_mono [of c w w'] by simp
qed

section \<open>Whole values\<close>

text \<open>Every step's operations were under way before, or were just numbered.\<close>

definition derived :: "Op \<Rightarrow> Op list \<Rightarrow> bool" where
  "derived x ops \<longleftrightarrow> (\<exists>op \<in> set ops. x = op \<or> x \<in> set (expand_per_key op))"

lemma derived_self: "x \<in> set ops \<Longrightarrow> derived x ops"
  by (auto simp: derived_def)

lemma derived_pass: "x \<in> set ops \<or> x \<in> set (pass_ops batch) \<Longrightarrow> set batch \<subseteq> set ops \<Longrightarrow> derived x ops"
  using pass_ops_from [of x batch] by (auto simp: derived_def)

lemma derived_overflow:
  "x \<in> set ops \<or> x \<in> set (overflow op lane) \<Longrightarrow> op \<in> set ops \<Longrightarrow> set lane \<subseteq> set ops \<Longrightarrow> derived x ops"
  using overflow_subset [of op lane] by (auto simp: derived_def)

lemma caller_derived:
  assumes "i < length (fw_callers w)" "x \<in> set (in_flight (caller_step i w))"
  shows "derived x (in_flight w)"
proof (cases "fw_callers w ! i")
  case (Overflowing op)
  then have "x \<in> set (in_flight w) \<or> x \<in> set (overflow op (fw_overflow w))"
    using assms callers_at [OF assms(1)]
    by (auto simp: caller_step_def in_flight_def callers_updated simp del: set_concat)
  moreover have "op \<in> set (in_flight w)"
    using Overflowing callers_at [OF assms(1)] by (auto simp: in_flight_def simp del: set_concat)
  ultimately show ?thesis by (rule derived_overflow) (auto simp: in_flight_def)
qed (use assms callers_at [OF assms(1)] in
      \<open>auto intro!: derived_self simp: caller_step_def in_flight_def callers_updated simp del: set_concat split: if_splits\<close>)

lemma worker_derived:
  assumes "worker_step c io w = Some w'" "lanes_ok w" "x \<in> set (in_flight w')"
  shows "derived x (in_flight w)"
proof (cases "fw_pc w")
  case (Applying ops r)
  show ?thesis
  proof (cases ops)
    case Nil
    then show ?thesis
      using Applying assms by (intro derived_self)
        (auto simp: worker_step_def in_flight_def resume_pc_def split: resume.splits)
  next
    case (Cons op rest)
    then have "apply_op c io op rest r w = Some w'" using Applying assms(1) by (simp add: worker_step_def)
    then show ?thesis
    proof (cases rule: apply_op_cases)
      case stale
      then show ?thesis using Applying Cons assms(3) by (intro derived_self) (auto simp: in_flight_def)
    next
      case success
      then show ?thesis
        using Applying Cons assms(2,3) note_success_ops(2) [of "fw_retry w" "key_name op" "op_seq op"]
        by (intro derived_self) (auto simp: in_flight_def lanes_ok_def)
    next
      case failure
      then have "x \<in> set (in_flight w) \<or> x \<in> set (overflow op (retry_ops (fw_retry w)))"
        using Applying Cons assms(2,3) retain_as_overflow(2) [of "fw_retry w" "fw_now w" op]
        by (auto simp: in_flight_def lanes_ok_def)
      then show ?thesis by (rule derived_overflow) (use Applying Cons in \<open>auto simp: in_flight_def\<close>)
    qed
  qed
next
  case LoopTop
  obtain ready retry where t: "take_ready (fw_now w) (fw_retry w) = (ready, retry)" by force
  have ops: "set (retry_ops (fw_retry w)) = set ready \<union> set (retry_ops retry)"
    using take_ready_ops(2) [of "fw_retry w" "fw_now w"] assms(2) t by (simp add: lanes_ok_def)
  have "x \<in> set (in_flight w) \<or> x \<in> set (pass_ops (ready @ fw_overflow w))"
    using assms(1,3) LoopTop ops by (auto simp: worker_step_def loop_top_def t in_flight_def Let_def split: if_splits)
  then show ?thesis by (rule derived_pass) (use ops in \<open>auto simp: in_flight_def\<close>)
next
  case (Collecting batch)
  then have "x \<in> set (in_flight w) \<or> x \<in> set (pass_ops batch)"
    using assms(1,3) by (auto simp: worker_step_def gather_def in_flight_def split: list.splits if_splits)
  then show ?thesis by (rule derived_pass) (use Collecting in \<open>auto simp: in_flight_def\<close>)
next
  case Draining
  then have "x \<in> set (in_flight w) \<or> x \<in> set (pass_ops (fw_overflow w @ retry_ops (fw_retry w)))"
    using assms(1,3)
    by (auto simp: worker_step_def final_drain_def take_all_def retry_ops_def in_flight_def Let_def split: if_splits)
  then show ?thesis by (rule derived_pass) (auto simp: in_flight_def)
next
  case (Waiting until)
  then show ?thesis
    using assms(1,3) by (intro derived_self)
      (auto simp: worker_step_def receive_def in_flight_def split: list.splits if_splits)
qed (use assms(1,3) in \<open>auto intro!: derived_self simp: worker_step_def in_flight_def recover_def final_check_def Let_def\<close>)

lemma worker_disk:
  assumes "worker_step c io w = Some w'"
  shows "fw_ever w' = fw_ever w"
    and "fw_disk w' = fw_disk w \<or> (\<exists>op \<in> set (in_flight w). fw_disk w' = snd (attempt c io op (fw_disk w)))"
proof -
  have "fw_ever w' = fw_ever w \<and>
      (fw_disk w' = fw_disk w \<or> (\<exists>op \<in> set (in_flight w). fw_disk w' = snd (attempt c io op (fw_disk w))))"
  proof (cases "\<exists>op ops r. fw_pc w = Applying (op # ops) r")
    case True
    then obtain op ops r where pc: "fw_pc w = Applying (op # ops) r" by blast
    then have "apply_op c io op ops r w = Some w'" "op \<in> set (in_flight w)"
      using assms(1) by (auto simp: worker_step_def in_flight_def)
    then show ?thesis by (cases rule: apply_op_cases) (auto intro: bexI [of _ op])
  next
    case False
    with assms show ?thesis
      by (auto simp: worker_step_def loop_top_def final_drain_def recover_def receive_def gather_def final_check_def
        Let_def split: worker_pc.splits list.splits if_splits prod.splits)
  qed
  then show "fw_ever w' = fw_ever w"
    and "fw_disk w' = fw_disk w \<or> (\<exists>op \<in> set (in_flight w). fw_disk w' = snd (attempt c io op (fw_disk w)))"
    by auto
qed

text \<open>The disk's candidates and the operations under way are values the key has had.\<close>

definition whole_ok :: "xcipher \<Rightarrow> fworld \<Rightarrow> bool" where
  "whole_ok c w \<longleftrightarrow>
     (\<forall>key. within c (fw_disk w) key (set (fw_ever w key)) \<and>
            (\<forall>op \<in> set (in_flight w). affects key op \<longrightarrow> op_value op \<in> set (fw_ever w key)))"

lemma whole_ok_derived:
  assumes "whole_ok c w" "fw_ever w' = fw_ever w" "fw_disk w' = fw_disk w"
    and "\<And>x. x \<in> set (in_flight w') \<Longrightarrow> derived x (in_flight w)"
  shows "whole_ok c w'"
proof -
  have "op_value x \<in> set (fw_ever w key)" if "x \<in> set (in_flight w')" "affects key x" for x key
    using assms(4) [OF that(1)] that(2) assms(1) expand_affects [of x _ key]
    by (fastforce simp: derived_def whole_ok_def)
  with assms(1-3) show ?thesis by (simp add: whole_ok_def)
qed

lemma attempt_within:
  assumes "aead_ok c" "within c d key vs" "affects key op \<Longrightarrow> op_value op \<in> vs"
  shows "within c (snd (attempt c io op d)) key vs"
proof -
  have named: "op_value op \<in> vs" if "key_from_name (key_name op) = Some k" "key = k" for k
    using that assms(3) by (auto simp: affects_def key_from_name_def split: if_splits)
  have w: "wholly c d key vs" using assms(2) by (simp add: wholly_def)
  show ?thesis
  proof (cases op)
    case (Put n bs s)
    then have "key = k \<Longrightarrow> Some bs \<in> vs" if "key_from_name n = Some k" for k
      using that named by (simp add: op_value_def)
    then show ?thesis
      using Put assms(1,2) enc.put_whole [OF w] by (auto simp: attempt_def wholly_def split: option.splits)
  next
    case (Remove n s)
    then have "key = k \<Longrightarrow> None \<in> vs" if "key_from_name n = Some k" for k
      using that named by (simp add: op_value_def)
    then show ?thesis
      using Remove assms(1,2) enc.remove_whole [OF w] by (auto simp: attempt_def wholly_def split: option.splits)
  qed (use assms(2) in \<open>simp add: attempt_def\<close>)
qed

text \<open>A numbered operation joins the values its keys have had.\<close>

lemma whole_ok_begin:
  assumes "whole_ok c w"
  shows "whole_ok c (put_begin key bs w)" "whole_ok c (remove_begin key w)" "whole_ok c (clear_begin w)"
  using assms within_mono [of c "fw_disk w"]
  by (auto simp: whole_ok_def put_begin_def remove_begin_def clear_begin_def in_flight_def affects_def op_value_def
      Let_def intro: within_mono)

lemma whole_ok_worker:
  assumes "aead_ok c" "worker_step c io w = Some w'" "lanes_ok w" "whole_ok c w"
  shows "whole_ok c w'"
proof -
  have "whole_ok c (w'\<lparr>fw_disk := fw_disk w\<rparr>)"
    by (rule whole_ok_derived [OF assms(4)])
       (use worker_disk(1) [OF assms(2)] worker_derived [OF assms(2,3)] in \<open>auto simp: in_flight_def\<close>)
  then have ops: "\<forall>op \<in> set (in_flight w'). affects key op \<longrightarrow> op_value op \<in> set (fw_ever w' key)" for key
    by (simp add: whole_ok_def in_flight_def)
  have "within c (fw_disk w') key (set (fw_ever w key))" for key
    using worker_disk(2) [OF assms(2)] assms(1,4) attempt_within by (fastforce simp: whole_ok_def)
  with ops worker_disk(1) [OF assms(2)] show ?thesis by (simp add: whole_ok_def)
qed

lemma reachable_whole_ok:
  assumes "freachable c d w" "aead_ok c"
  shows "fw_issued w \<le> u64_max \<Longrightarrow> whole_ok c w"
  using assms(1)
proof induction
  case fr_start
  then show ?case
    using settled_boot [OF fr_start(1), of c]
    by (auto simp: whole_ok_def facade_start_def in_flight_def RetryLane_new_def retry_ops_def within_def settled_on_def
        cache_get_def list_all_iff)
next
  case (fr_step w w')
  then have w: "whole_ok c w" and ok: "facade_ok c w"
    using issued_mono [OF fr_step(2)] reachable_facade_ok [OF fr_step(1) assms(2)] by auto
  from fr_step(2) show ?case
  proof cases
    case (fs_worker io)
    then show ?thesis using whole_ok_worker [OF assms(2)] ok w by (auto simp: facade_ok_def)
  next
    case (fs_caller i)
    then show ?thesis
      by (intro whole_ok_derived [OF w])
         (auto intro: caller_derived simp: caller_step_def split: callback.splits)
  next
    case fs_join_timeout
    with w show ?thesis by (simp add: whole_ok_def in_flight_def join_timeout_def)
  next
    case (fs_time t)
    with w show ?thesis by (simp add: whole_ok_def in_flight_def)
  next
    case fs_drop
    with w show ?thesis by (simp add: whole_ok_def in_flight_def)
  qed (simp_all add: whole_ok_begin [OF w])
qed

section \<open>A disk that works\<close>

definition good_put :: "(nat \<Rightarrow> char) \<Rightarrow> put_io" where
  "good_put r =
     \<lparr>pi_randomness = None, pi_nonce = r, pi_open = None, pi_write = None, pi_written = 0, pi_sync = None,
      pi_rename = None, pi_unlink = None, pi_dirsync = None\<rparr>"

definition good_remove :: remove_io where
  "good_remove = \<lparr>ri_unlink = None, ri_dirsync = None\<rparr>"

definition temp_for :: "CacheKey \<Rightarrow> (nat \<Rightarrow> char) \<Rightarrow> string" where
  "temp_for key r = file_with_extension (file_for key) (''tmp'' @ hex_slice (random_fill NONCE_LEN r))"

text \<open>Some temporary name is free for every key.\<close>

definition free_temps :: "pdir \<Rightarrow> bool" where
  "free_temps d \<longleftrightarrow> (\<forall>key. \<exists>r. pd_live d (temp_for key r) = None)"

definition encrypts :: "xcipher \<Rightarrow> bool" where
  "encrypts c \<longleftrightarrow> (\<forall>n m a. encrypt c n m a \<noteq> None)"

lemma temp_for_not_entry [simp]: "temp_for k r \<noteq> file_for j"
  unfolding temp_for_def by (rule temp_not_entry)

lemma write_private_good:
  assumes "pd_live d (temp_for key r) = None" "length bs \<le> MAX_FILE_LEN"
  shows "fst (write_private (good_put r) (file_for key) bs (random_fill NONCE_LEN r) d) = Ok ()"
    and "n \<noteq> file_for key \<Longrightarrow> pd_live d n = None \<Longrightarrow>
         pd_live (snd (write_private (good_put r) (file_for key) bs (random_fill NONCE_LEN r) d)) n = None"
proof -
  have "write_temp (good_put r) (temp_for key r) bs d =
      (Ok (), dir_set (temp_for key r) (Some \<lparr>pf_data = bs, pf_synced = True\<rparr>)
               (dir_set (temp_for key r) (Some \<lparr>pf_data = [], pf_synced = False\<rparr>) d))"
    using assms(1) by (simp add: write_temp_def open_new_private_def good_put_def)
  then show "fst (write_private (good_put r) (file_for key) bs (random_fill NONCE_LEN r) d) = Ok ()"
    and "n \<noteq> file_for key \<Longrightarrow> pd_live d n = None \<Longrightarrow>
         pd_live (snd (write_private (good_put r) (file_for key) bs (random_fill NONCE_LEN r) d)) n = None"
    using assms unfolding write_private_def Let_def temp_for_def [symmetric]
    by (auto simp: good_put_def sync_parent_dir_def)
qed

definition small_op :: "Op \<Rightarrow> bool" where
  "small_op op = (case op of Put _ bs _ \<Rightarrow> length bs \<le> MAX_PLAINTEXT_LEN | _ \<Rightarrow> True)"

lemma attempt_good:
  assumes "aead_ok c" "encrypts c" "free_temps d" "small_op op"
  obtains io where "fst (attempt c io op d) = Ok ()" "free_temps (snd (attempt c io op d))"
proof (cases op)
  case (Put n m s)
  show ?thesis
  proof (cases "key_from_name n")
    case None
    with Put assms(3) that [of undefined] show ?thesis by (simp add: attempt_def)
  next
    case (Some key)
    obtain r where r: "pd_live d (temp_for key r) = None" using assms(3) by (auto simp: free_temps_def)
    define nonce where "nonce = random_fill NONCE_LEN r"
    obtain ct where ct: "encrypt c nonce m (file_for key) = Some ct" using assms(2) by (fastforce simp: encrypts_def)
    define bs where "bs = MAGIC @ [CACHE_VERSION] @ nonce @ ct"
    have small: "length m \<le> MAX_PLAINTEXT_LEN" using assms(4) Put by (simp add: small_op_def)
    then have len: "length bs \<le> MAX_FILE_LEN"
      using assms(1) ct by (auto simp: aead_ok_def bs_def nonce_def MAGIC_def NONCE_LEN_def MAX_FILE_LEN_def MAX_PLAINTEXT_LEN_def)
    have eq: "attempt c (good_put r, good_remove) op d = write_private (good_put r) (file_for key) bs nonce d"
      using Put Some small ct
      by (simp add: attempt_def try_put_def write_entry_def Let_def bs_def nonce_def) (simp add: good_put_def Let_def)
    have "free_temps (snd (write_private (good_put r) (file_for key) bs nonce d))"
      using assms(3) write_private_good(2) [OF r len] unfolding free_temps_def nonce_def
      by (metis temp_for_not_entry)
    with that [of "(good_put r, good_remove)"] write_private_good(1) [OF r len] show ?thesis
      unfolding eq nonce_def by blast
  qed
next
  case (Remove n s)
  have "fst (try_remove good_remove key d) = Ok () \<and> free_temps (snd (try_remove good_remove key d))" for key
    using assms(3) by (auto simp: try_remove_def good_remove_def sync_parent_dir_def free_temps_def Let_def)
  with that [of "(undefined, good_remove)"] Remove assms(3) show ?thesis
    by (cases "key_from_name n") (auto simp: attempt_def)
next
  case (ClearAll s)
  with that [of undefined] assms(3) show ?thesis by (simp add: attempt_def)
qed

section \<open>Concrete runs\<close>

text \<open>A cipher, an empty directory, a disk that fails, and whole runs of the worker.\<close>

definition demo_cipher :: xcipher where
  "demo_cipher =
     \<lparr>encrypt = (\<lambda>n m a. Some (m @ replicate 16 (CHR 0x00))), decrypt = (\<lambda>n ct a. Some (take (length ct - 16) ct))\<rparr>"

definition empty_dir :: pdir where
  "empty_dir = \<lparr>pd_live = (\<lambda>_. None), pd_past = (\<lambda>_. [])\<rparr>"

definition good_io :: attempt_io where
  "good_io = (good_put (\<lambda>_. CHR 0x00), good_remove)"

definition full_io :: attempt_io where
  "full_io = ((good_put (\<lambda>_. CHR 0x00))\<lparr>pi_open := Some ''No space left on device''\<rparr>, good_remove)"

fun run_worker :: "xcipher \<Rightarrow> attempt_io list \<Rightarrow> fworld \<Rightarrow> fworld" where
  "run_worker c [] w = w"
| "run_worker c (io # ios) w = (case worker_step c io w of None \<Rightarrow> w | Some w' \<Rightarrow> run_worker c ios w')"

text \<open>A power loss that keeps what the names show.\<close>

definition power_cut :: "pdir \<Rightarrow> pdir" where
  "power_cut d =
     \<lparr>pd_live = (\<lambda>n. map_option (\<lambda>f. f\<lparr>pf_synced := True\<rparr>) (pd_live d n)), pd_past = (\<lambda>_. [])\<rparr>"

lemma crash_power_cut: "crash d (power_cut d)"
  by (auto simp: crash_def booted_def power_cut_def candidates_def survives_def split: option.splits)

lemma demo_cipher_ok: "aead_ok demo_cipher" "encrypts demo_cipher"
  by (simp_all add: aead_ok_def encrypts_def demo_cipher_def)

lemma empty_dir_ok: "booted empty_dir" "free_temps empty_dir"
  by (simp_all add: booted_def free_temps_def empty_dir_def)

lemma run_worker_steps: "(fstep c)\<^sup>*\<^sup>* w (run_worker c ios w)"
proof (induction c ios w rule: run_worker.induct)
  case (2 c io ios w)
  then show ?case by (auto split: option.splits intro: converse_rtranclp_into_rtranclp fs_worker)
qed simp

lemma reachable_steps: "(fstep c)\<^sup>*\<^sup>* w w' \<Longrightarrow> freachable c d w \<Longrightarrow> freachable c d w'"
  by (induction rule: rtranclp_induct) (auto intro: fr_step)

lemma call_through_steps: "(fstep c)\<^sup>*\<^sup>* w (call_through n w)"
proof -
  have "(fstep c)\<^sup>*\<^sup>* w (if n < length (fw_callers w) then caller_step n w else w)" for w
    by (auto intro: fs_caller)
  then show ?thesis unfolding call_through_def Let_def by (meson rtranclp_trans)
qed

lemma facade_put_steps: "fw_sender w \<Longrightarrow> (fstep c)\<^sup>*\<^sup>* w (facade_put key bs w)"
  unfolding facade_put_def by (meson call_through_steps converse_rtranclp_into_rtranclp fs_put)

text \<open>A put with room in the queue, and one without.\<close>

lemma facade_put_queued:
  assumes "fw_callers w = []" "fw_pc w \<noteq> Stopped" "length (fw_queue w) < QUEUE_BOUND" "length bs \<le> MAX_PLAINTEXT_LEN"
  shows "facade_put key bs w =
     (let s = next_seq (fw_seq w); n = name_for key in
      w\<lparr>fw_memory := (fw_memory w)(n \<mapsto> bs), fw_seq := s, fw_queue := fw_queue w @ [Put n bs s],
        fw_issued := fw_issued w + 1, fw_stamp := (fw_stamp w)(key := s),
        fw_ever := (fw_ever w)(key := Some bs # fw_ever w key)\<rparr>)"
  using assms by (simp add: facade_put_def put_begin_def call_through_def caller_step_def remove_at_def Let_def)

lemma facade_put_overflows:
  assumes "fw_callers w = []" "fw_pc w \<noteq> Stopped" "\<not> length (fw_queue w) < QUEUE_BOUND" "length bs \<le> MAX_PLAINTEXT_LEN"
  shows "facade_put key bs w =
     (let s = next_seq (fw_seq w); n = name_for key in
      w\<lparr>fw_memory := (fw_memory w)(n \<mapsto> bs), fw_seq := s, fw_overflow := overflow (Put n bs s) (fw_overflow w),
        fw_health := record_failure (full_msg (Put n bs s)) (fw_health w),
        fw_issued := fw_issued w + 1, fw_stamp := (fw_stamp w)(key := s),
        fw_ever := (fw_ever w)(key := Some bs # fw_ever w key)\<rparr>)"
  using assms by (simp add: facade_put_def put_begin_def call_through_def caller_step_def remove_at_def Let_def)

lemma attempt_full:
  assumes "pd_live d (temp_for key (\<lambda>_. CHR 0x00)) = None" "length bs + 48 \<le> MAX_FILE_LEN"
  shows "attempt demo_cipher full_io (Put (name_for key) bs s) d = (Err (Io ''No space left on device''), d)"
proof -
  have "write_temp (fst full_io) t x d = (Err (Io ''No space left on device''), d)" for t x
    by (simp add: write_temp_def open_new_private_def full_io_def)
  moreover have "pi_randomness (fst full_io) = None" "pi_nonce (fst full_io) = (\<lambda>_. CHR 0x00)"
    by (simp_all add: full_io_def good_put_def)
  ultimately show ?thesis
    using assms
    by (simp add: attempt_def try_put_def write_entry_def write_private_def unlink_quietly_def temp_for_def demo_cipher_def
        MAX_PLAINTEXT_LEN_def MAGIC_def NONCE_LEN_def Let_def)
qed

lemma attempt_good_io:
  assumes "pd_live d (temp_for key (\<lambda>_. CHR 0x00)) = None" "length bs + 48 \<le> MAX_FILE_LEN"
  shows "fst (attempt demo_cipher good_io (Put (name_for key) bs s) d) = Ok ()"
    and "n \<noteq> file_for key \<Longrightarrow> pd_live d n = None \<Longrightarrow>
         pd_live (snd (attempt demo_cipher good_io (Put (name_for key) bs s) d)) n = None"
proof -
  define f where "f = MAGIC @ [CACHE_VERSION] @ random_fill NONCE_LEN (\<lambda>_. CHR 0x00) @ bs @ replicate 16 (CHR 0x00)"
  have small: "\<not> MAX_PLAINTEXT_LEN < length bs" and len: "length f \<le> MAX_FILE_LEN"
    using assms(2) by (simp_all add: MAX_PLAINTEXT_LEN_def MAGIC_def NONCE_LEN_def f_def)
  have "attempt demo_cipher good_io (Put (name_for key) bs s) d =
      write_private (good_put (\<lambda>_. CHR 0x00)) (file_for key) f (random_fill NONCE_LEN (\<lambda>_. CHR 0x00)) d"
    using small by (simp add: attempt_def try_put_def write_entry_def demo_cipher_def good_io_def f_def)
      (simp add: good_put_def Let_def)
  then show "fst (attempt demo_cipher good_io (Put (name_for key) bs s) d) = Ok ()"
    and "n \<noteq> file_for key \<Longrightarrow> pd_live d n = None \<Longrightarrow>
         pd_live (snd (attempt demo_cipher good_io (Put (name_for key) bs s) d)) n = None"
    using write_private_good [OF assms(1) len] by simp_all
qed

section \<open>Properties\<close>

text \<open>Nothing is on its way to the disk.\<close>

definition quiet :: "fworld \<Rightarrow> bool" where
  "quiet w \<longleftrightarrow>
     fw_callers w = [] \<and> fw_queue w = [] \<and> fw_overflow w = [] \<and> pending (fw_retry w) = [] \<and>
     worker_ops (fw_pc w) = []"

lemma quiet_settled:
  assumes "facade_ok c w" "in_flight w = []"
  shows "settled_on c (fw_disk w) key (fw_memory w (name_for key))"
  using assms by (auto simp: facade_ok_def key_ok_def lane_simps)

lemma restart_reads:
  assumes "settled_on c (fw_disk w) key (fw_memory w (name_for key))" "crash (fw_disk w) d'"
  shows "facade_get key (facade_start c (\<lambda>_. False) d') = facade_get key w"
  using settled_reads [OF settled_crash [OF assms]] by (simp add: facade_get_def start_memory cache_get_def)

text \<open>
  C8. However many callbacks ran, interleaved with the worker and with each other, and
  whatever failed and was retried: once nothing is on its way to the disk, a power loss and a
  restart find for every key exactly what the facade served from memory.
\<close>

theorem quiet_restart_restores_memory:
  assumes "aead_ok c" "freachable c d w" "fw_issued w \<le> u64_max" "quiet w" "crash (fw_disk w) d'"
  shows "facade_get key (facade_start c (\<lambda>_. False) d') = facade_get key w"
proof (rule restart_reads [OF _ assms(5)])
  have "in_flight w = []" using assms(4) by (auto simp: quiet_def in_flight_def retry_ops_def)
  with reachable_facade_ok [OF assms(2,1,3)] show "settled_on c (fw_disk w) key (fw_memory w (name_for key))"
    by (rule quiet_settled)
qed

text \<open>
  C27. At every moment, in the middle of any write or removal and with any of its system calls
  failing, a power loss leaves of every key a value that the key has had, whole: never a torn
  entry, never another key's value.
\<close>

theorem power_loss_leaves_whole_values:
  assumes "aead_ok c" "freachable c d w" "fw_issued w \<le> u64_max" "crash (fw_disk w) d'"
  shows "facade_get key (facade_start c (\<lambda>_. False) d') \<in> set (fw_ever w key)"
proof -
  have "within c (fw_disk w) key (set (fw_ever w key))"
    using reachable_whole_ok [OF assms(2,1,3)] by (simp add: whole_ok_def)
  from within_crash [OF this assms(4)] show ?thesis
    by (simp add: facade_get_def start_memory cache_get_def)
qed

text \<open>
  C33. When the worker has stopped, a failure stands on the health slot or a restart finds for
  every key what the facade served: shutdown never loses an update silently.
\<close>

theorem shutdown_never_silent:
  assumes "aead_ok c" "freachable c d w" "fw_issued w \<le> u64_max" "fw_pc w = Stopped" "crash (fw_disk w) d'"
  shows "hs_failure (fw_health w) \<noteq> None \<or>
         (\<forall>key. facade_get key (facade_start c (\<lambda>_. False) d') = facade_get key w)"
proof (cases "hs_failure (fw_health w) = None")
  case True
  have ok: "facade_ok c w" by (rule reachable_facade_ok [OF assms(2,1,3)])
  then have "in_flight w = []"
    using assms(4) True by (auto simp: facade_ok_def shutdown_ok_def closing_def in_flight_def retry_ops_def)
  with restart_reads [OF quiet_settled [OF ok] assms(5)] show ?thesis by simp
qed simp

section \<open>The runs of the witnesses\<close>

definition facade_demo :: fworld where
  "facade_demo = facade_start demo_cipher (\<lambda>_. False) empty_dir"

text \<open>Two puts.\<close>

definition demo_put :: fworld where
  "demo_put = facade_put PrivateKey ''k'' (facade_put Certificate ''x'' facade_demo)"

lemma facade_demo_eq: "facade_demo = \<lparr>fw_memory = Map.empty, fw_seq = 0, fw_sender = True, fw_queue = [], fw_overflow = [],
    fw_health = HealthSlot_new, fw_callers = [], fw_disk = empty_dir, fw_retry = RetryLane_new, fw_last = Map.empty,
    fw_pc = LoopTop, fw_now = 0, fw_issued = 0, fw_stamp = (\<lambda>_. 0), fw_ever = (\<lambda>_. [None])\<rparr>"
  by (simp add: facade_demo_def facade_start_def cache_get_def read_entry_def empty_dir_def)

lemma small_demo: "Suc 0 \<le> MAX_PLAINTEXT_LEN"
  by (simp add: MAX_PLAINTEXT_LEN_def MAX_FILE_LEN_def MAGIC_def NONCE_LEN_def)

lemma demo_put_eq: "demo_put = facade_demo\<lparr>fw_memory := [''Certificate'' \<mapsto> ''x'', ''PrivateKey'' \<mapsto> ''k''], fw_seq := 2,
    fw_queue := [Put ''Certificate'' ''x'' 1, Put ''PrivateKey'' ''k'' 2], fw_issued := 2,
    fw_stamp := (\<lambda>_. 0)(Certificate := 1, PrivateKey := 2),
    fw_ever := (\<lambda>_. [None])(Certificate := [Some ''x'', None], PrivateKey := [Some ''k'', None])\<rparr>"
  by (simp add: demo_put_def facade_put_queued facade_demo_eq small_demo QUEUE_BOUND_def next_seq_def
      wrapping_incr_def u64_max_def numeral_2_eq_2 [symmetric] Let_def)

lemma demo_put_reachable: "freachable demo_cipher empty_dir demo_put"
proof -
  have "freachable demo_cipher empty_dir facade_demo"
    unfolding facade_demo_def by (rule fr_start) (rule empty_dir_ok)
  moreover have "fw_sender facade_demo" "fw_sender (facade_put Certificate ''x'' facade_demo)"
    by (simp_all add: facade_put_queued facade_demo_eq small_demo QUEUE_BOUND_def Let_def)
  ultimately show ?thesis
    unfolding demo_put_def using facade_put_steps reachable_steps by metis
qed

text \<open>The worker applies both, and is asked to stop.\<close>

definition demo_quiet :: fworld where
  "demo_quiet = run_worker demo_cipher 
       [good_io, good_io, good_io, good_io, good_io, good_io, good_io, good_io, good_io, good_io, good_io, good_io,
        good_io, good_io, good_io] demo_put"

text \<open>Or both attempts fail.\<close>

definition demo_failed :: fworld where
  "demo_failed = run_worker demo_cipher
       [full_io, full_io, full_io, full_io, full_io, full_io, full_io, full_io] demo_put"

lemma demo_pass:
  "pass_ops [Put ''Certificate'' ''x'' 1, Put ''PrivateKey'' ''k'' 2] =
     [Put ''Certificate'' ''x'' 1, Put ''PrivateKey'' ''k'' 2]"
  by (simp add: pass_ops_def coalesce_def coalesce_step_def clear_seq_def names_def expand_per_key_def)

lemmas worker_simps =
  worker_step_def loop_top_def take_ready_def receive_until_def retry_deadline_def receive_def gather_def
  apply_op_def stale_def recover_def resume_pc_def RetryLane_new_def HealthSlot_new_def QUEUE_BOUND_def
  OVERFLOW_POLL_def RETRY_BACKOFF_START_def RETRY_BACKOFF_MAX_def note_success_def note_recovered_def
  retain_def retain_entry_def expand_per_key_def record_failure_def

lemma empty_dir_full:
  "attempt demo_cipher full_io (Put ''Certificate'' ''x'' (Suc 0)) empty_dir = (Err (Io ''No space left on device''), empty_dir)"
  "attempt demo_cipher full_io (Put ''PrivateKey'' ''k'' 2) empty_dir = (Err (Io ''No space left on device''), empty_dir)"
  using attempt_full [of empty_dir Certificate "''x''" 1] attempt_full [of empty_dir PrivateKey "''k''" 2]
  by (simp_all add: empty_dir_def MAX_FILE_LEN_def)

lemma demo_failed_eq:
  "demo_failed = demo_put\<lparr>fw_queue := [],
     fw_health := \<lparr>hs_alive = True, hs_failure = Some ''io: No space left on device'', hs_applied = 0\<rparr>,
     fw_retry := \<lparr>pending = [(''Certificate'', Put ''Certificate'' ''x'' 1, 250), (''PrivateKey'', Put ''PrivateKey'' ''k'' 2, 500)],
                  backoff = 1000\<rparr>, fw_pc := LoopTop\<rparr>"
  using demo_pass
  by (simp add: demo_failed_def demo_put_eq facade_demo_eq worker_simps empty_dir_full)

text \<open>The two attempts on an empty directory that works.\<close>

definition demo_disk1 :: pdir where
  "demo_disk1 = snd (attempt demo_cipher good_io (Put ''Certificate'' ''x'' 1) empty_dir)"

definition demo_disk2 :: pdir where
  "demo_disk2 = snd (attempt demo_cipher good_io (Put ''PrivateKey'' ''k'' 2) demo_disk1)"

lemma demo_attempt1:
  "attempt demo_cipher good_io (Put ''Certificate'' ''x'' (Suc 0)) empty_dir = (Ok (), demo_disk1)"
  using attempt_good_io(1) [of empty_dir Certificate "''x''" 1]
  by (simp add: demo_disk1_def empty_dir_def MAX_FILE_LEN_def prod_eq_iff)

lemma demo_disk1_free: "n \<noteq> file_for Certificate \<Longrightarrow> pd_live demo_disk1 n = None"
  unfolding demo_disk1_def using attempt_good_io(2) [of empty_dir Certificate "''x''" n 1]
  by (simp add: empty_dir_def MAX_FILE_LEN_def)

lemma demo_attempt2:
  "attempt demo_cipher good_io (Put ''PrivateKey'' ''k'' 2) demo_disk1 = (Ok (), demo_disk2)"
  using attempt_good_io(1) [of demo_disk1 PrivateKey "''k''" 2]
  by (simp add: demo_disk2_def demo_disk1_free MAX_FILE_LEN_def prod_eq_iff)

lemma demo_quiet_eq:
  "demo_quiet = demo_put\<lparr>fw_queue := [], fw_disk := demo_disk2,
     fw_health := \<lparr>hs_alive = True, hs_failure = None, hs_applied = 2\<rparr>,
     fw_last := [''Certificate'' \<mapsto> 1, ''PrivateKey'' \<mapsto> 2], fw_pc := Waiting 250\<rparr>"
  using demo_pass
  by (simp add: demo_quiet_def demo_put_eq facade_demo_eq worker_simps demo_attempt1 demo_attempt2 wrapping_incr_def
      u64_max_def)

lemma run_worker_ghosts:
  "fw_issued (run_worker c ios w) = fw_issued w \<and> fw_ever (run_worker c ios w) = fw_ever w"
proof (induction c ios w rule: run_worker.induct)
  case (2 c io ios w)
  show ?case
  proof (cases "worker_step c io w")
    case (Some w')
    with 2 worker_disk(1) [OF Some] worker_issued [OF Some] show ?thesis by simp
  qed simp
qed simp

lemma demo_worker_reachable: "freachable demo_cipher empty_dir (run_worker demo_cipher ios demo_put)"
  by (rule reachable_steps [OF run_worker_steps demo_put_reachable])

theorem quiet_restart_restores_memory_witness:
  "facade_get PrivateKey (facade_start demo_cipher (\<lambda>_. False) (power_cut (fw_disk demo_quiet))) = Some ''k''"
proof -
  have "freachable demo_cipher empty_dir demo_quiet"
    unfolding demo_quiet_def by (rule demo_worker_reachable)
  moreover have "fw_issued demo_quiet \<le> u64_max" "quiet demo_quiet" "facade_get PrivateKey demo_quiet = Some ''k''"
    by (simp_all add: demo_quiet_eq demo_put_eq facade_demo_eq quiet_def u64_max_def RetryLane_new_def facade_get_def)
  ultimately show ?thesis
    using quiet_restart_restores_memory [OF demo_cipher_ok(1), of empty_dir demo_quiet] crash_power_cut by metis
qed

text \<open>The first attempt renames its file and then cannot sync the directory.\<close>

definition demo_unsynced :: fworld where
  "demo_unsynced = run_worker demo_cipher
     [good_io, good_io, good_io, good_io, good_io,
      ((good_put (\<lambda>_. CHR 0x00))\<lparr>pi_dirsync := Some ''Input/output error''\<rparr>, good_remove)] demo_put"

theorem power_loss_leaves_whole_values_witness:
  "facade_get Certificate (facade_start demo_cipher (\<lambda>_. False) (power_cut (fw_disk demo_unsynced))) \<in> {Some ''x'', None}"
proof -
  have "freachable demo_cipher empty_dir demo_unsynced"
    unfolding demo_unsynced_def by (rule demo_worker_reachable)
  moreover have "fw_issued demo_unsynced \<le> u64_max" "fw_ever demo_unsynced Certificate = [Some ''x'', None]"
    by (simp_all only: demo_unsynced_def run_worker_ghosts) (simp_all add: demo_put_eq u64_max_def)
  ultimately show ?thesis
    using power_loss_leaves_whole_values [OF demo_cipher_ok(1), of empty_dir demo_unsynced _ Certificate] crash_power_cut
    by fastforce
qed

text \<open>The facade is dropped and the worker ends.\<close>

definition demo_stopped :: fworld where
  "demo_stopped = run_worker demo_cipher [good_io, good_io, good_io] (demo_quiet\<lparr>fw_sender := False\<rparr>)"

theorem shutdown_never_silent_witness:
  "fw_pc demo_stopped = Stopped \<and>
   facade_get Certificate (facade_start demo_cipher (\<lambda>_. False) (power_cut (fw_disk demo_stopped))) = Some ''x''"
proof -
  have "freachable demo_cipher empty_dir demo_quiet"
    unfolding demo_quiet_def by (rule demo_worker_reachable)
  moreover have "fw_sender demo_quiet" "fw_callers demo_quiet = []"
    by (simp_all add: demo_quiet_eq demo_put_eq facade_demo_eq)
  ultimately have "freachable demo_cipher empty_dir (demo_quiet\<lparr>fw_sender := False\<rparr>)"
    by (intro fr_step [OF _ fs_drop])
  then have "freachable demo_cipher empty_dir demo_stopped"
    unfolding demo_stopped_def by (rule reachable_steps [OF run_worker_steps])
  moreover have "fw_issued demo_stopped \<le> u64_max" "fw_pc demo_stopped = Stopped"
    "hs_failure (fw_health demo_stopped) = None" "facade_get Certificate demo_stopped = Some ''x''"
    by (simp_all add: demo_stopped_def demo_quiet_eq demo_put_eq facade_demo_eq worker_simps final_drain_def take_all_def
        u64_max_def facade_get_def)
  ultimately show ?thesis
    using shutdown_never_silent [OF demo_cipher_ok(1), of empty_dir demo_stopped] crash_power_cut by metis
qed

end
