(* ===== verification/Facade_Live.thy ===== *)
theory Facade_Live
  imports Facade_Props
begin

text \<open>
  The worker can always catch up: from every reachable world of a running facade there is a
  run, with the disk working again, that ends with nothing on its way.
\<close>

section \<open>Catching up\<close>

text \<open>What the runs below keep.\<close>

definition live_ok :: "fworld \<Rightarrow> bool" where
  "live_ok w \<longleftrightarrow>
     lanes_ok w \<and> free_temps (fw_disk w) \<and> fw_sender w \<and> \<not> closing (fw_pc w) \<and> list_all small_op (in_flight w)"

text \<open>
  The steps of catching up: a callback under way goes on, the worker does its next step on a disk
  that works, time passes. No callback begins and the facade is not dropped.
\<close>

definition disk_works :: "xcipher \<Rightarrow> attempt_io \<Rightarrow> fworld \<Rightarrow> bool" where
  "disk_works c io w \<longleftrightarrow>
     (case fw_pc w of
        Applying (op # ops) r \<Rightarrow> stale (fw_last w) op \<or> fst (attempt c io op (fw_disk w)) = Ok ()
      | _ \<Rightarrow> True)"

declare disk_works_def [simp]

inductive drain_step :: "xcipher \<Rightarrow> fworld \<Rightarrow> fworld \<Rightarrow> bool" for c where
  ds_caller: "i < length (fw_callers w) \<Longrightarrow> drain_step c w (caller_step i w)"
| ds_worker: "worker_step c io w = Some w' \<Longrightarrow> disk_works c io w \<Longrightarrow> drain_step c w w'"
| ds_time: "fw_now w \<le> t \<Longrightarrow> drain_step c w (w\<lparr>fw_now := t\<rparr>)"

lemma drain_step_fstep: "drain_step c w w' \<Longrightarrow> fstep c w w'"
  by (induction rule: drain_step.induct) (auto intro: fstep.intros)

definition drives :: "xcipher \<Rightarrow> fworld \<Rightarrow> fworld \<Rightarrow> bool" where
  "drives c w w' \<longleftrightarrow> (drain_step c)\<^sup>*\<^sup>* w w' \<and> live_ok w' \<and> fw_memory w' = fw_memory w"

lemma drives_refl: "live_ok w \<Longrightarrow> drives c w w"
  by (simp add: drives_def)

lemma drives_trans: "drives c u v \<Longrightarrow> drives c v w \<Longrightarrow> drives c u w"
  unfolding drives_def by (metis rtranclp_trans)

lemma drives_step: "drain_step c u v \<Longrightarrow> live_ok v \<Longrightarrow> fw_memory v = fw_memory u \<Longrightarrow> drives c u v"
  by (simp add: drives_def)

lemma small_derived: "list_all small_op ops \<Longrightarrow> derived x ops \<Longrightarrow> small_op x"
proof -
  assume ops: "list_all small_op ops" and "derived x ops"
  then obtain op where op: "op \<in> set ops" "x = op \<or> x \<in> set (expand_per_key op)" by (auto simp: derived_def)
  moreover have "small_op op" using op(1) ops by (simp add: list_all_iff)
  ultimately show ?thesis by (auto simp: expand_per_key_def small_op_def split: Op.splits)
qed

lemma small_flight:
  "list_all small_op (in_flight w) \<Longrightarrow> (\<And>x. x \<in> set (in_flight w') \<Longrightarrow> derived x (in_flight w)) \<Longrightarrow>
   list_all small_op (in_flight w')"
  using small_derived by (auto simp: list_all_iff)

lemma worker_memory: "worker_step c io w = Some w' \<Longrightarrow> fw_memory w' = fw_memory w \<and> fw_sender w' = fw_sender w"
proof (cases "\<exists>op ops r. fw_pc w = Applying (op # ops) r")
  case True
  assume "worker_step c io w = Some w'"
  with True obtain op ops r where "apply_op c io op ops r w = Some w'" by (auto simp: worker_step_def)
  then show ?thesis by (cases rule: apply_op_cases) auto
qed (auto simp: worker_step_def loop_top_def final_drain_def recover_def receive_def gather_def final_check_def
      Let_def split: worker_pc.splits list.splits if_splits prod.splits)

text \<open>A step of the worker that leaves the disk usable and does not leave the loop.\<close>

lemma drives_worker:
  assumes "worker_step c io w = Some w'" "live_ok w" "free_temps (fw_disk w')" "\<not> closing (fw_pc w')" "disk_works c io w"
  shows "drives c w w'"
proof (rule drives_step)
  have "lanes_ok w" using assms(2) by (simp add: live_ok_def)
  then show "live_ok w'"
    using assms worker_lanes [OF assms(1)] worker_memory [OF assms(1)] small_flight [of w w'] worker_derived [OF assms(1)]
    by (auto simp: live_ok_def)
qed (use assms(1,5) worker_memory in \<open>auto intro: ds_worker simp del: disk_works_def\<close>)

lemma drives_time: "live_ok w \<Longrightarrow> fw_now w \<le> t \<Longrightarrow> drives c w (w\<lparr>fw_now := t\<rparr>)"
  by (rule drives_step) (auto intro: ds_time simp: live_ok_def lanes_ok_def in_flight_def)

text \<open>The lanes that a pass of successes leaves alone.\<close>

definition same_lanes :: "fworld \<Rightarrow> fworld \<Rightarrow> bool" where
  "same_lanes w w' \<longleftrightarrow>
     fw_queue w' = fw_queue w \<and> fw_overflow w' = fw_overflow w \<and> fw_callers w' = fw_callers w \<and>
     (pending (fw_retry w) = [] \<longrightarrow> pending (fw_retry w') = [])"

lemma pass_succeeds:
  assumes "aead_ok c" "encrypts c"
  shows "live_ok w \<Longrightarrow> fw_pc w = Applying ops r \<Longrightarrow> \<exists>w'. drives c w w' \<and> fw_pc w' = Applying [] r \<and> same_lanes w w'"
proof (induction ops arbitrary: w)
  case Nil
  then show ?case using drives_refl by (auto simp: same_lanes_def)
next
  case (Cons op ops)
  have r: "r \<noteq> ThenExit" using Cons.prems by (auto simp: live_ok_def closing_def)
  show ?case
  proof (cases "stale (fw_last w) op")
    case True
    define w1 where "w1 = w\<lparr>fw_pc := Applying ops r\<rparr>"
    have "drives c w w1"
      by (rule drives_worker [where io = undefined])
         (use Cons.prems True r in \<open>auto simp: worker_step_def apply_op_def w1_def live_ok_def closing_def\<close>)
    moreover from this obtain w' where "drives c w1 w'" "fw_pc w' = Applying [] r" "same_lanes w1 w'"
      using Cons.IH [of w1] by (auto simp: drives_def w1_def)
    ultimately show ?thesis using drives_trans by (fastforce simp: same_lanes_def w1_def)
  next
    case False
    have "small_op op" "free_temps (fw_disk w)" using Cons.prems by (auto simp: live_ok_def in_flight_def)
    from attempt_good [OF assms this(2,1)] obtain io d where io:
      "attempt c io op (fw_disk w) = (Ok (), d)" "free_temps d" by (metis prod.collapse)
    define w1 where "w1 = w\<lparr>fw_disk := d, fw_last := (fw_last w)(key_name op \<mapsto> op_seq op),
        fw_retry := note_success (key_name op) (op_seq op) (fw_retry w), fw_pc := Succeeded ops r\<rparr>"
    have 1: "drives c w w1"
      by (rule drives_worker [where io = io])
         (use Cons.prems False r io in \<open>auto simp: worker_step_def apply_op_def w1_def live_ok_def closing_def\<close>)
    define w2 where "w2 = w1\<lparr>fw_pc := Recovering (fw_overflow w1 = []) ops r\<rparr>"
    have 2: "drives c w1 w2"
      by (rule drives_worker [where io = io])
         (use 1 r io in \<open>auto simp: worker_step_def w1_def w2_def drives_def closing_def\<close>)
    define w3 where "w3 = recover (fw_overflow w1 = []) ops r w2"
    have 3: "drives c w2 w3"
      by (rule drives_worker [where io = io])
         (use 2 r io in \<open>auto simp: worker_step_def w1_def w2_def w3_def drives_def closing_def recover_def Let_def\<close>)
    have pc: "fw_pc w3 = Applying ops r" and same: "same_lanes w w3"
      by (auto simp: w1_def w2_def w3_def recover_def Let_def same_lanes_def note_success_def)
    from 3 pc obtain w' where "drives c w3 w'" "fw_pc w' = Applying [] r" "same_lanes w3 w'"
      using Cons.IH [of w3] by (auto simp: drives_def)
    with 1 2 3 same show ?thesis using drives_trans by (metis (no_types, lifting) same_lanes_def)
  qed
qed

text \<open>From a batch in hand to the end of its pass.\<close>

lemma batch_succeeds:
  assumes "aead_ok c" "encrypts c" "live_ok w" "fw_pc w = Applying ops r"
  shows "\<exists>w'. drives c w w' \<and> fw_pc w' = resume_pc r \<and> same_lanes w w'"
proof -
  obtain w1 where w1: "drives c w w1" "fw_pc w1 = Applying [] r" "same_lanes w w1"
    using pass_succeeds [OF assms] by blast
  have r: "r \<noteq> ThenExit" using assms(3,4) by (auto simp: live_ok_def closing_def)
  have "drives c w1 (w1\<lparr>fw_pc := resume_pc r\<rparr>)"
    by (rule drives_worker [where io = undefined])
       (use w1 r in \<open>auto simp: worker_step_def drives_def live_ok_def closing_def resume_pc_def split: resume.splits\<close>)
  with w1 drives_trans show ?thesis by (fastforce simp: same_lanes_def)
qed

text \<open>The worker takes what the queue holds, at least its first operation, and applies it.\<close>

lemma gathers:
  assumes "aead_ok c" "encrypts c"
  shows "live_ok w \<Longrightarrow> fw_pc w = Collecting batch \<Longrightarrow>
    \<exists>w'. drives c w w' \<and> fw_pc w' = LoopTop \<and> length (fw_queue w') \<le> length (fw_queue w) \<and>
      fw_overflow w' = fw_overflow w \<and> fw_callers w' = fw_callers w \<and>
      (pending (fw_retry w) = [] \<longrightarrow> pending (fw_retry w') = [])"
proof (induction "fw_queue w" arbitrary: w batch)
  case Nil
  define w1 where "w1 = w\<lparr>fw_pc := Applying (pass_ops batch) ThenLoop\<rparr>"
  have "drives c w w1"
    by (rule drives_worker [where io = undefined])
       (use Nil in \<open>auto simp: worker_step_def gather_def w1_def live_ok_def closing_def split: list.splits\<close>)
  moreover from this obtain w' where "drives c w1 w'" "fw_pc w' = LoopTop" "same_lanes w1 w'"
    using batch_succeeds [OF assms, of w1] by (auto simp: drives_def w1_def resume_pc_def)
  ultimately show ?case using drives_trans by (fastforce simp: same_lanes_def w1_def)
next
  case (Cons op rest)
  show ?case
  proof (cases "length batch < QUEUE_BOUND")
    case True
    define w1 where "w1 = w\<lparr>fw_queue := rest, fw_pc := Collecting (batch @ [op])\<rparr>"
    have "drives c w w1"
      by (rule drives_worker [where io = undefined])
         (use Cons True in \<open>auto simp: worker_step_def gather_def w1_def live_ok_def closing_def split: list.splits\<close>)
    moreover from this Cons obtain w' where "drives c w1 w'" "fw_pc w' = LoopTop"
      "length (fw_queue w') \<le> length (fw_queue w1)" "fw_overflow w' = fw_overflow w1" "fw_callers w' = fw_callers w1"
      "pending (fw_retry w1) = [] \<longrightarrow> pending (fw_retry w') = []"
      using Cons.hyps(1) [of w1 "batch @ [op]"] by (auto simp: drives_def w1_def)
    moreover have "length (fw_queue w1) \<le> length (fw_queue w)" using Cons.hyps(2) [symmetric] by (simp add: w1_def)
    ultimately show ?thesis using drives_trans by (fastforce simp: w1_def)
  next
    case False
    define w1 where "w1 = w\<lparr>fw_pc := Applying (pass_ops batch) ThenLoop\<rparr>"
    have "drives c w w1"
      by (rule drives_worker [where io = undefined])
         (use Cons False in \<open>auto simp: worker_step_def gather_def w1_def live_ok_def closing_def split: list.splits\<close>)
    moreover from this obtain w' where "drives c w1 w'" "fw_pc w' = LoopTop" "same_lanes w1 w'"
      using batch_succeeds [OF assms, of w1] by (auto simp: drives_def w1_def resume_pc_def)
    ultimately show ?thesis using drives_trans by (fastforce simp: same_lanes_def w1_def)
  qed
qed

lemma empties_queue:
  assumes "aead_ok c" "encrypts c"
  shows "live_ok w \<Longrightarrow> fw_pc w = AtReceive \<Longrightarrow> fw_overflow w = [] \<Longrightarrow> pending (fw_retry w) = [] \<Longrightarrow>
    fw_callers w = [] \<Longrightarrow> \<exists>w'. drives c w w' \<and> quiet w'"
proof (induction "length (fw_queue w)" arbitrary: w rule: less_induct)
  case less
  define w1 where "w1 = w\<lparr>fw_pc := Waiting (receive_until w)\<rparr>"
  have 1: "drives c w w1"
    by (rule drives_worker [where io = undefined])
       (use less.prems in \<open>auto simp: worker_step_def w1_def live_ok_def closing_def\<close>)
  show ?case
  proof (cases "fw_queue w")
    case Nil
    with less.prems have "quiet w1" by (simp add: quiet_def w1_def)
    with 1 show ?thesis by blast
  next
    case (Cons op rest)
    define w2 where "w2 = w1\<lparr>fw_queue := rest, fw_pc := Collecting [op]\<rparr>"
    have 2: "drives c w1 w2"
      by (rule drives_worker [where io = undefined])
         (use 1 Cons in \<open>auto simp: worker_step_def receive_def w1_def w2_def drives_def live_ok_def closing_def\<close>)
    obtain w3 where 3: "drives c w2 w3" "fw_pc w3 = LoopTop" "length (fw_queue w3) \<le> length rest"
      "fw_overflow w3 = []" "fw_callers w3 = []" "pending (fw_retry w3) = []"
      using gathers [OF assms, of w2 "[op]"] 2 less.prems by (auto simp: drives_def w1_def w2_def)
    define w4 where "w4 = loop_top w3"
    have w4: "fw_pc w4 = AtReceive" "fw_queue w4 = fw_queue w3" "fw_overflow w4 = []" "fw_callers w4 = []"
      "pending (fw_retry w4) = []"
      using 3 by (simp_all add: w4_def loop_top_def take_ready_def)
    have 4: "drives c w3 w4"
      by (rule drives_worker [where io = undefined])
         (use 3 w4(1) in \<open>auto simp: worker_step_def w4_def drives_def live_ok_def closing_def loop_top_def take_ready_def\<close>)
    then have "\<exists>w'. drives c w4 w' \<and> quiet w'"
      using less.hyps [of w4] w4 3(3) Cons by (auto simp: drives_def)
    with 1 2 3(1) 4 show ?thesis using drives_trans by meson
  qed
qed

lemma all_ready:
  assumes "\<forall>(n, op, at) \<in> set (pending r). at \<le> now"
  shows "pending (snd (take_ready now r)) = []"
  using assms by (auto simp: take_ready_def take_ready_loop_eq filter_empty_conv)

text \<open>At the top of the loop, late enough, every retry is ready.\<close>

lemma settles_from_top:
  assumes "aead_ok c" "encrypts c" "live_ok w" "fw_pc w = LoopTop" "fw_callers w = []"
  shows "\<exists>w'. drives c w w' \<and> quiet w'"
proof -
  define t where "t = fw_now w + sum_list (map (snd \<circ> snd) (pending (fw_retry w)))"
  define w1 where "w1 = w\<lparr>fw_now := t\<rparr>"
  have 1: "drives c w w1" unfolding w1_def by (rule drives_time [OF assms(3)]) (simp add: t_def)
  have "at \<le> t" if "(n, op, at) \<in> set (pending (fw_retry w))" for n op at
    using that member_le_sum_list [of at "map (snd \<circ> snd) (pending (fw_retry w))"] by (force simp: t_def)
  then have ready: "pending (snd (take_ready t (fw_retry w))) = []" by (intro all_ready) auto
  define w2 where "w2 = loop_top w1"
  obtain ops r where tr: "take_ready t (fw_retry w) = (ops, r)" by force
  have w2: "fw_overflow w2 = []" "pending (fw_retry w2) = []" "fw_callers w2 = []"
    "fw_pc w2 = Applying (pass_ops (ops @ fw_overflow w)) ThenReceive \<or> fw_pc w2 = AtReceive"
    using ready assms(5) tr by (auto simp: w2_def w1_def loop_top_def Let_def)
  have 2: "drives c w1 w2"
    by (rule drives_worker [where io = undefined])
       (use 1 w2(4) assms(4) tr in \<open>auto simp: worker_step_def w1_def w2_def drives_def live_ok_def closing_def loop_top_def Let_def\<close>)
  obtain w3 where 3: "drives c w2 w3" "fw_pc w3 = AtReceive" "same_lanes w2 w3"
    using w2(4)
  proof
    assume "fw_pc w2 = Applying (pass_ops (ops @ fw_overflow w)) ThenReceive"
    then show thesis
      using that batch_succeeds [OF assms(1,2), of w2] 2 by (auto simp: drives_def resume_pc_def)
  next
    assume "fw_pc w2 = AtReceive"
    then show thesis using that [of w2] drives_refl 2 by (auto simp: drives_def same_lanes_def)
  qed
  then have "\<exists>w'. drives c w3 w' \<and> quiet w'"
    using w2 by (intro empties_queue [OF assms(1,2)]) (auto simp: drives_def same_lanes_def)
  with 1 2 3(1) show ?thesis using drives_trans by meson
qed

text \<open>Every place in the loop leads back to its top.\<close>

lemma settles_from_collecting:
  assumes "aead_ok c" "encrypts c" "live_ok u" "fw_pc u = Collecting b" "fw_callers u = []"
  shows "\<exists>w'. drives c u w' \<and> quiet w'"
proof -
  obtain v where "drives c u v" "fw_pc v = LoopTop" "fw_callers v = []"
    using gathers [OF assms(1-4)] assms(5) by auto
  with settles_from_top [OF assms(1,2), of v] show ?thesis using drives_trans by (metis drives_def)
qed

lemma settles_from_waiting:
  assumes "aead_ok c" "encrypts c" "live_ok u" "fw_pc u = Waiting t" "fw_callers u = []"
  shows "\<exists>w'. drives c u w' \<and> quiet w'"
proof -
  define v where "v = u\<lparr>fw_now := fw_now u + t\<rparr>"
  have v: "drives c u v" unfolding v_def by (rule drives_time [OF assms(3)]) simp
  obtain v1 b where v1: "receive t v = Some v1" "fw_pc v1 = Collecting b" "fw_callers v1 = []" "fw_disk v1 = fw_disk u"
    using assms that by (cases "fw_queue v") (auto simp: receive_def v_def live_ok_def)
  have "drives c v v1"
    by (rule drives_worker [where io = undefined])
       (use v v1 assms in \<open>auto simp: worker_step_def drives_def live_ok_def closing_def v_def\<close>)
  with v v1 settles_from_collecting [OF assms(1,2), of v1 b] show ?thesis using drives_trans by (metis drives_def)
qed

lemma settles_from_receive:
  assumes "aead_ok c" "encrypts c" "live_ok u" "fw_pc u = AtReceive" "fw_callers u = []"
  shows "\<exists>w'. drives c u w' \<and> quiet w'"
proof -
  define v where "v = u\<lparr>fw_pc := Waiting (receive_until u)\<rparr>"
  have "drives c u v"
    by (rule drives_worker [where io = undefined])
       (use assms in \<open>auto simp: worker_step_def v_def live_ok_def closing_def\<close>)
  with settles_from_waiting [OF assms(1,2), of v "receive_until u"] assms(5) show ?thesis
    using drives_trans by (fastforce simp: drives_def v_def)
qed

lemma settles_from_applying:
  assumes "aead_ok c" "encrypts c" "live_ok u" "fw_pc u = Applying ops r" "fw_callers u = []"
  shows "\<exists>w'. drives c u w' \<and> quiet w'"
proof -
  obtain v where v: "drives c u v" "fw_pc v = resume_pc r" "fw_callers v = []"
    using batch_succeeds [OF assms(1-4)] assms(5) by (auto simp: same_lanes_def)
  have "r \<noteq> ThenExit" using assms by (auto simp: live_ok_def closing_def)
  with v have "\<exists>w'. drives c v w' \<and> quiet w'"
    using settles_from_top [OF assms(1,2), of v] settles_from_receive [OF assms(1,2), of v]
    by (cases r) (auto simp: resume_pc_def drives_def)
  with v(1) show ?thesis using drives_trans by meson
qed

lemma settles_from_recovering:
  assumes "aead_ok c" "encrypts c" "live_ok u" "fw_pc u = Recovering e ops r" "fw_callers u = []"
  shows "\<exists>w'. drives c u w' \<and> quiet w'"
proof -
  have "drives c u (recover e ops r u)"
    by (rule drives_worker [where io = undefined])
       (use assms in \<open>auto simp: worker_step_def recover_def live_ok_def closing_def Let_def\<close>)
  with settles_from_applying [OF assms(1,2), of "recover e ops r u" ops r] assms(5) show ?thesis
    using drives_trans by (fastforce simp: drives_def recover_def Let_def)
qed

lemma settles:
  assumes "aead_ok c" "encrypts c" "live_ok w" "fw_callers w = []"
  shows "\<exists>w'. drives c w w' \<and> quiet w'"
proof (cases "fw_pc w")
  case (Succeeded ops r)
  define v where "v = w\<lparr>fw_pc := Recovering (fw_overflow w = []) ops r\<rparr>"
  have "drives c w v"
    by (rule drives_worker [where io = undefined])
       (use assms(3) Succeeded in \<open>auto simp: worker_step_def v_def live_ok_def closing_def\<close>)
  with settles_from_recovering [OF assms(1,2), of v "fw_overflow w = []" ops r] assms(4) show ?thesis
    using drives_trans by (fastforce simp: drives_def v_def)
qed (use assms(3,4) settles_from_top [OF assms(1-3)] settles_from_waiting [OF assms(1-3)]
      settles_from_collecting [OF assms(1-3)] settles_from_receive [OF assms(1-3)]
      settles_from_applying [OF assms(1-3)] settles_from_recovering [OF assms(1-3)] in
    \<open>auto simp: live_ok_def closing_def\<close>)

text \<open>Callers that are let through finish.\<close>

primrec caller_weight :: "callback \<Rightarrow> nat" where
  "caller_weight (Sending _) = 3"
| "caller_weight (Overflowing _) = 2"
| "caller_weight (Reporting _) = 1"

lemma caller_step_live:
  assumes "live_ok w" "i < length (fw_callers w)"
  shows "live_ok (caller_step i w)" "fw_memory (caller_step i w) = fw_memory w"
proof -
  have "lanes_ok (caller_step i w)" using assms(1) by (simp add: live_ok_def lanes_ok_def)
  moreover have "fw_disk (caller_step i w) = fw_disk w" by (simp add: caller_step_def split: callback.splits)
  moreover have "list_all small_op (in_flight (caller_step i w))"
    using small_flight [of w "caller_step i w"] caller_derived [OF assms(2)] assms(1) by (simp add: live_ok_def)
  ultimately show "live_ok (caller_step i w)" using assms(1) by (simp add: live_ok_def)
  show "fw_memory (caller_step i w) = fw_memory w" by (simp add: caller_step_def split: callback.splits)
qed

lemma caller_step_weight:
  assumes "fw_callers w = x # xs"
  shows "sum_list (map caller_weight (fw_callers (caller_step 0 w))) < sum_list (map caller_weight (fw_callers w))"
  using assms by (cases x) (auto simp: caller_step_def remove_at_def)

lemma callers_finish:
  "live_ok w \<Longrightarrow> \<exists>w'. drives c w w' \<and> fw_callers w' = []"
proof (induction "sum_list (map caller_weight (fw_callers w))" arbitrary: w rule: less_induct)
  case less
  show ?case
  proof (cases "fw_callers w")
    case Nil
    then show ?thesis using drives_refl less.prems by blast
  next
    case (Cons x xs)
    then have d: "drives c w (caller_step 0 w)"
      using caller_step_live [OF less.prems, of 0] by (intro drives_step ds_caller) auto
    then obtain w' where "drives c (caller_step 0 w) w'" "fw_callers w' = []"
      using less.hyps [OF caller_step_weight [OF Cons]] by (auto simp: drives_def)
    with d drives_trans show ?thesis by blast
  qed
qed

text \<open>Every put that is under way fits the cap.\<close>

lemma small_simps:
  "small_op (Put n bs s) \<longleftrightarrow> length bs \<le> MAX_PLAINTEXT_LEN" "small_op (Remove n s)" "small_op (ClearAll s)"
  by (simp_all add: small_op_def)

lemma reachable_small:
  assumes "freachable c d w" "aead_ok c"
  shows "fw_issued w \<le> u64_max \<Longrightarrow> list_all small_op (in_flight w)"
  using assms(1)
proof induction
  case (fr_step w w')
  then have w: "list_all small_op (in_flight w)" and ok: "facade_ok c w"
    using issued_mono [OF fr_step(2)] reachable_facade_ok [OF fr_step(1) assms(2)] by auto
  from fr_step(2) show ?case
  proof cases
    case (fs_worker io)
    then show ?thesis using small_flight [OF w] worker_derived ok by (auto simp: facade_ok_def)
  next
    case (fs_caller i)
    then show ?thesis using small_flight [OF w] caller_derived by blast
  qed (use w in \<open>auto simp: in_flight_def join_timeout_def put_begin_def remove_begin_def clear_begin_def
        small_simps Let_def\<close>)
qed simp

text \<open>
  C34. Whatever the facade went through, as long as it has not been dropped: from there the
  callbacks under way and the worker can end, on a disk that works, with nothing on its way and
  memory unchanged. Every step of that run is one of a callback under way, of the worker with
  the file operations of its attempts succeeding, or of time; none begins a callback or drops the
  facade. So no update is ever stuck in a lane until the shutdown.
\<close>

theorem worker_can_always_catch_up:
  assumes "aead_ok c" "encrypts c" "freachable c d w" "fw_issued w \<le> u64_max" "fw_sender w"
    and "free_temps (fw_disk w)"
  shows "\<exists>w'. (drain_step c)\<^sup>*\<^sup>* w w' \<and> quiet w' \<and> fw_sender w' \<and> fw_memory w' = fw_memory w"
proof -
  have "facade_ok c w" by (rule reachable_facade_ok [OF assms(3,1,4)])
  then have "live_ok w"
    using assms(5,6) reachable_small [OF assms(3,1,4)] by (auto simp: live_ok_def facade_ok_def shutdown_ok_def)
  then obtain w1 where w1: "drives c w w1" "fw_callers w1 = []" using callers_finish by blast
  then obtain w2 where "drives c w1 w2" "quiet w2"
    using settles [OF assms(1,2), of w1] by (auto simp: drives_def)
  with drives_trans [OF w1(1)] have "drives c w w2" "quiet w2" by blast+
  then show ?thesis by (auto simp: drives_def live_ok_def)
qed

theorem worker_can_always_catch_up_witness:
  "\<exists>w'. (drain_step demo_cipher)\<^sup>*\<^sup>* demo_failed w' \<and> quiet w' \<and> fw_memory w' ''PrivateKey'' = Some ''k''"
proof -
  have "freachable demo_cipher empty_dir demo_failed"
    unfolding demo_failed_def by (rule demo_worker_reachable)
  moreover have "fw_issued demo_failed \<le> u64_max" "fw_sender demo_failed" "free_temps (fw_disk demo_failed)"
    and memory: "fw_memory demo_failed ''PrivateKey'' = Some ''k''"
    using empty_dir_ok(2) by (simp_all add: demo_failed_eq demo_put_eq facade_demo_eq u64_max_def)
  ultimately show ?thesis
    using worker_can_always_catch_up [OF demo_cipher_ok, of empty_dir demo_failed] by (metis memory)
qed

end
