(* ===== verification/Facade_Health.thy ===== *)
theory Facade_Health
  imports Facade_Props
begin

text \<open>
  Where the health surface and the disk part. A success clears the last failure when the
  retry lane and the overflow lane are empty; but retries that became ready were moved out of
  the lane into the pass before it began, and the overflow lane is looked at under its lock
  and cleared for after the lock is gone.
\<close>

section \<open>Retries that the pass has taken\<close>

definition demo_later :: fworld where
  "demo_later = demo_failed\<lparr>fw_now := 1000\<rparr>"

definition demo_recovered :: fworld where
  "demo_recovered = run_worker demo_cipher [good_io, good_io, good_io, good_io] demo_later"

lemma demo_recovered_eq:
  "demo_recovered = demo_later\<lparr>fw_disk := demo_disk1,
     fw_health := \<lparr>hs_alive = True, hs_failure = None, hs_applied = 1\<rparr>,
     fw_retry := \<lparr>pending = [], backoff = 250\<rparr>, fw_last := [''Certificate'' \<mapsto> 1],
     fw_pc := Applying [Put ''PrivateKey'' ''k'' 2] ThenReceive\<rparr>"
  using demo_pass
  by (simp add: demo_recovered_def demo_later_def demo_failed_eq demo_put_eq facade_demo_eq worker_simps demo_attempt1
      wrapping_incr_def u64_max_def)

text \<open>
  Two writes fail and are retained; both retries become ready and are taken into one
  pass; the first succeeds. The failure is cleared (and logged as recovered, every retained
  operation durably applied) although the write of the other key has failed and was not
  attempted again: health shows no failure while memory has a private key that the disk does
  not.
\<close>

theorem recovery_reported_before_retries_done:
  "\<exists>c d w w'. aead_ok c \<and> freachable c d w \<and> hs_failure (fw_health w) \<noteq> None \<and>
     carries PrivateKey (fw_stamp w PrivateKey) (retry_ops (fw_retry w)) \<and>
     (fstep c)\<^sup>*\<^sup>* w w' \<and> fw_stamp w' = fw_stamp w \<and> hs_failure (fw_health w') = None \<and>
     cache_get c False PrivateKey (fw_disk w') \<noteq> facade_get PrivateKey w'"
proof -
  have "freachable demo_cipher empty_dir demo_failed"
    unfolding demo_failed_def by (rule demo_worker_reachable)
  moreover have "hs_failure (fw_health demo_failed) \<noteq> None"
    "carries PrivateKey (fw_stamp demo_failed PrivateKey) (retry_ops (fw_retry demo_failed))"
    by (simp_all add: demo_failed_eq demo_put_eq retry_ops_def carries_def affects_def)
  moreover have "(fstep demo_cipher)\<^sup>*\<^sup>* demo_failed demo_later"
    unfolding demo_later_def by (rule r_into_rtranclp, rule fs_time) (simp add: demo_failed_eq demo_put_eq facade_demo_eq)
  then have "(fstep demo_cipher)\<^sup>*\<^sup>* demo_failed demo_recovered"
    unfolding demo_recovered_def using run_worker_steps by (rule rtranclp_trans)
  moreover have "fw_stamp demo_recovered = fw_stamp demo_failed" "hs_failure (fw_health demo_recovered) = None"
    "facade_get PrivateKey demo_recovered = Some ''k''"
    by (simp_all add: demo_recovered_eq demo_later_def demo_failed_eq demo_put_eq facade_get_def)
  moreover have "cache_get demo_cipher False PrivateKey (fw_disk demo_recovered) = None"
    by (simp add: demo_recovered_eq cache_get_def read_entry_def demo_disk1_free)
  ultimately show ?thesis using demo_cipher_ok(1) by (metis option.distinct(1))
qed

section \<open>A producer between the look and the clear\<close>

text \<open>One put is applied, and the worker has seen the overflow lane empty.\<close>

definition race_seen :: fworld where
  "race_seen =
     run_worker demo_cipher [good_io, good_io, good_io, good_io, good_io, good_io]
       (facade_put Certificate ''x'' facade_demo)"

lemma race_pass: "pass_ops [Put ''Certificate'' ''x'' (Suc 0)] = [Put ''Certificate'' ''x'' (Suc 0)]"
  by (simp add: pass_ops_def coalesce_def coalesce_step_def clear_seq_def names_def expand_per_key_def)

lemma race_seen_fields:
  "fw_pc race_seen = Recovering True [] ThenLoop" "fw_callers race_seen = []" "fw_queue race_seen = []"
  "fw_overflow race_seen = []" "fw_sender race_seen" "pending (fw_retry race_seen) = []"
  using race_pass
  by (simp_all add: race_seen_def facade_put_queued facade_demo_eq small_demo next_seq_def wrapping_incr_def u64_max_def
      worker_simps demo_attempt1 Let_def)

lemma race_seen_reachable: "freachable demo_cipher empty_dir race_seen"
proof -
  have "freachable demo_cipher empty_dir facade_demo"
    unfolding facade_demo_def by (rule fr_start) (rule empty_dir_ok)
  moreover have "fw_sender facade_demo" by (simp add: facade_demo_eq)
  ultimately show ?thesis
    unfolding race_seen_def using facade_put_steps run_worker_steps reachable_steps by metis
qed

text \<open>Puts fill_puts the queue; the one after that overflows.\<close>

primrec fill_puts :: "nat \<Rightarrow> fworld \<Rightarrow> fworld" where
  "fill_puts 0 w = w"
| "fill_puts (Suc n) w = facade_put Certificate ''x'' (fill_puts n w)"

lemma fill_queue:
  assumes "fw_callers w = []" "fw_pc w \<noteq> Stopped" "fw_queue w = []" "fw_sender w"
  shows "n \<le> QUEUE_BOUND \<Longrightarrow> length (fw_queue (fill_puts n w)) = n \<and> fw_callers (fill_puts n w) = [] \<and>
    fw_pc (fill_puts n w) = fw_pc w \<and> fw_overflow (fill_puts n w) = fw_overflow w \<and> fw_retry (fill_puts n w) = fw_retry w \<and>
    fw_sender (fill_puts n w) \<and> (fstep c)\<^sup>*\<^sup>* w (fill_puts n w)"
proof (induction n)
  case (Suc n)
  then have IH: "length (fw_queue (fill_puts n w)) = n" "fw_callers (fill_puts n w) = []" "fw_pc (fill_puts n w) = fw_pc w"
    "fw_overflow (fill_puts n w) = fw_overflow w" "fw_retry (fill_puts n w) = fw_retry w" "fw_sender (fill_puts n w)"
    and steps: "(fstep c)\<^sup>*\<^sup>* w (fill_puts n w)" by auto
  have "(fstep c)\<^sup>*\<^sup>* w (fill_puts (Suc n) w)"
    using steps facade_put_steps [OF IH(6)] by (auto intro: rtranclp_trans)
  with IH assms(2) Suc.prems show ?case by (simp add: facade_put_queued small_demo Let_def)
qed (use assms in simp)

text \<open>
  A producer that moves an operation to the overflow lane, and records its failure, after
  the worker saw the lane empty and before the worker clears the failure: every callback has
  returned, health shows no failure, and the newest private key is only in the overflow lane.
\<close>

theorem overflow_failure_erased:
  "\<exists>c d w. aead_ok c \<and> freachable c d w \<and> fw_callers w = [] \<and> hs_failure (fw_health w) = None \<and>
     carries PrivateKey (fw_stamp w PrivateKey) (fw_overflow w)"
proof -
  define full where "full = fill_puts QUEUE_BOUND race_seen"
  define over where "over = facade_put PrivateKey ''k'' full"
  define w where "w = recover True [] ThenLoop over"
  have full: "length (fw_queue full) = QUEUE_BOUND" "fw_callers full = []" "fw_pc full = Recovering True [] ThenLoop"
    "fw_overflow full = []" "pending (fw_retry full) = []" "fw_sender full" "(fstep demo_cipher)\<^sup>*\<^sup>* race_seen full"
    using fill_queue [of race_seen QUEUE_BOUND demo_cipher] race_seen_fields by (auto simp: full_def)
  have over: "fw_callers over = []" "fw_pc over = Recovering True [] ThenLoop" "pending (fw_retry over) = []"
    "carries PrivateKey (fw_stamp over PrivateKey) (fw_overflow over)"
    using full by (simp_all add: over_def facade_put_overflows small_demo overflow_def expand_per_key_def
        overflow_entry_def carries_def affects_def Let_def)
  have "worker_step demo_cipher good_io over = Some w" using over(2) by (simp add: worker_step_def w_def)
  then have "freachable demo_cipher empty_dir w"
    using race_seen_reachable full(6,7) facade_put_steps reachable_steps unfolding over_def by (metis fr_step fs_worker)
  moreover have "fw_callers w = []" "hs_failure (fw_health w) = None"
    "carries PrivateKey (fw_stamp w PrivateKey) (fw_overflow w)"
    using over by (auto simp: w_def recover_def note_recovered_def Let_def)
  ultimately show ?thesis using demo_cipher_ok(1) by blast
qed

end
