(* ===== verification/Proto_Translate.thy ===== *)
theory Proto_Translate
  imports Rust_Text
begin

text \<open>
  \<open>crates/protocol/src/params.rs\<close> and \<open>translate.rs\<close>: the connection request in the daemon's
  vocabulary and its translation into the tunnel engine's configuration. Base64 decoding is
  a parameter; the engine's configuration types are records of the fields the translation
  fills.
\<close>

section \<open>Parameters\<close>

datatype Protocol = Smart | WireGuardUdp | WireGuardTcp | Stealth

record TransportEndpoint =
  entry_ip :: IpAddr
  te_ports :: "u16 list"

record PeerParams =
  pp_id :: string
  public_key_base64 :: string
  pp_udp :: "TransportEndpoint option"
  pp_tcp :: "TransportEndpoint option"
  pp_tls :: "TransportEndpoint option"
  pp_priority :: int
  pp_exit_label :: "string option"

datatype SniStrategy = SniRandom | SniTop

definition sni_parse :: "string \<Rightarrow> SniStrategy option" where
  "sni_parse v = (if v = ''random'' then Some SniRandom else if v = ''top'' then Some SniTop else None)"

record TunnelParams =
  tp_peers :: "PeerParams list"
  tp_protocol :: Protocol
  tp_network_available :: bool
  tp_client_private_key :: "string option"
  tp_sni_strategy :: SniStrategy

definition has_ports :: "TransportEndpoint option \<Rightarrow> bool" where
  "has_ports e = (case e of None \<Rightarrow> False | Some e \<Rightarrow> te_ports e \<noteq> [])"

definition serves_requested_protocol :: "TunnelParams \<Rightarrow> bool" where
  "serves_requested_protocol params =
     list_ex (\<lambda>peer.
       case tp_protocol params of
         Smart \<Rightarrow> has_ports (pp_udp peer) \<or> has_ports (pp_tcp peer) \<or> has_ports (pp_tls peer)
       | WireGuardUdp \<Rightarrow> has_ports (pp_udp peer)
       | WireGuardTcp \<Rightarrow> has_ports (pp_tcp peer)
       | Stealth \<Rightarrow> has_ports (pp_tls peer)) (tp_peers params)"

datatype ProtocolError =
    Unavailable Protocol
  | Tunnel string
  | MissingKey string
  | InvalidKey string
  | InvalidPeer string string

section \<open>The engine's configuration\<close>

record PeerInfo =
  peer_id :: string
  server_ip :: IpAddr
  server_public_key :: bytes
  udp_ports :: "u16 list"
  tcp_ports :: "u16 list"
  tls_ports :: "u16 list"
  priority :: int
  exit_label :: "string option"

record InitialConnectionConfig =
  ic_peers :: "PeerInfo list"
  ic_network_available :: bool
  ic_wg_private_key :: "bytes option"
  ic_sni_strategy :: SniStrategy

datatype KeyPolicy = Required | FromCache

section \<open>Translation\<close>

type_synonym base64 = "string \<Rightarrow> (string, bytes) res"

definition decode_client_key :: "base64 \<Rightarrow> string \<Rightarrow> (ProtocolError, bytes) res" where
  "decode_client_key b64 key =
     and_then (map_err (\<lambda>e. InvalidKey (''client key is not base64: '' @ e)) (b64 key))
       (\<lambda>bs. if length bs = 32 then Ok bs else Err (InvalidKey ''client key is not 32 bytes''))"

datatype transport = Udp | Tcp | Tls

definition install :: "transport \<Rightarrow> u16 list \<Rightarrow> PeerInfo \<Rightarrow> PeerInfo" where
  "install t ports info =
     (case t of
        Udp \<Rightarrow> info\<lparr>udp_ports := ports\<rparr>
      | Tcp \<Rightarrow> info\<lparr>tcp_ports := ports\<rparr>
      | Tls \<Rightarrow> info\<lparr>tls_ports := ports\<rparr>)"

text \<open>One turn of the loop over the transports: the first candidate at the address, or a new one.\<close>

definition blank_candidate :: "PeerParams \<Rightarrow> bytes \<Rightarrow> IpAddr \<Rightarrow> PeerInfo" where
  "blank_candidate peer key ip =
     \<lparr>peer_id = pp_id peer, server_ip = ip, server_public_key = key, udp_ports = [], tcp_ports = [], tls_ports = [],
      priority = pp_priority peer, exit_label = pp_exit_label peer\<rparr>"

definition place :: "PeerParams \<Rightarrow> bytes \<Rightarrow> PeerInfo list \<Rightarrow> transport \<times> TransportEndpoint option \<Rightarrow> PeerInfo list" where
  "place peer key candidates te =
     (case te of
        (t, None) \<Rightarrow> candidates
      | (t, Some e) \<Rightarrow>
          if te_ports e = [] then candidates
          else (case position (\<lambda>c. server_ip c = entry_ip e) candidates of
                  Some i \<Rightarrow> candidates[i := install t (te_ports e) (candidates ! i)]
                | None \<Rightarrow> candidates @ [install t (te_ports e) (blank_candidate peer key (entry_ip e))]))"

definition number_candidates :: "PeerInfo list \<Rightarrow> PeerInfo list" where
  "number_candidates cs =
     (if length cs > 1
      then map (\<lambda>(i, c). c\<lparr>peer_id := peer_id c @ ''/'' @ dec_text i\<rparr>) (zip [0..<length cs] cs)
      else cs)"

definition decode_peer :: "base64 \<Rightarrow> PeerParams \<Rightarrow> (ProtocolError, PeerInfo list) res" where
  "decode_peer b64 peer =
     and_then (map_err (\<lambda>e. InvalidPeer (pp_id peer) (''key is not base64: '' @ e)) (b64 (public_key_base64 peer)))
       (\<lambda>key.
         if length key \<noteq> 32 then Err (InvalidPeer (pp_id peer) ''key is not 32 bytes'')
         else let cs = number_candidates
                    (foldl (place peer key) [] [(Udp, pp_udp peer), (Tcp, pp_tcp peer), (Tls, pp_tls peer)]) in
           if cs = [] then Err (InvalidPeer (pp_id peer) ''the peer serves no transport'') else Ok cs)"

fun translate_loop ::
  "base64 \<Rightarrow> PeerParams list \<Rightarrow> PeerInfo list \<Rightarrow> ProtocolError option \<Rightarrow> (ProtocolError, PeerInfo list) res" where
  "translate_loop b64 [] translated last_error =
     (if translated = []
      then Err (case last_error of Some e \<Rightarrow> e | None \<Rightarrow> InvalidPeer [] ''the peer set is empty'')
      else Ok translated)"
| "translate_loop b64 (peer # peers) translated last_error =
     (case decode_peer b64 peer of
        Ok infos \<Rightarrow> translate_loop b64 peers (translated @ infos) last_error
      | Err e \<Rightarrow> translate_loop b64 peers translated (Some e)
      | Panic \<Rightarrow> Panic)"

definition translate_peers :: "base64 \<Rightarrow> PeerParams list \<Rightarrow> (ProtocolError, PeerInfo list) res" where
  "translate_peers b64 peers = translate_loop b64 peers [] None"

definition serves_translated :: "PeerInfo list \<Rightarrow> Protocol \<Rightarrow> bool" where
  "serves_translated peers protocol =
     list_ex (\<lambda>peer.
       case protocol of
         Smart \<Rightarrow> udp_ports peer \<noteq> [] \<or> tcp_ports peer \<noteq> [] \<or> tls_ports peer \<noteq> []
       | WireGuardUdp \<Rightarrow> udp_ports peer \<noteq> []
       | WireGuardTcp \<Rightarrow> tcp_ports peer \<noteq> []
       | Stealth \<Rightarrow> tls_ports peer \<noteq> []) peers"

text \<open>The loop runs only for a manual request; its \<open>Smart\<close> arm is unreachable.\<close>

fun constrain_loop :: "Protocol \<Rightarrow> PeerInfo list \<Rightarrow> PeerInfo list" where
  "constrain_loop protocol [] = []"
| "constrain_loop protocol (peer # peers) =
     (let rest = constrain_loop protocol peers in
      case protocol of
        WireGuardUdp \<Rightarrow> if udp_ports peer = [] then rest else peer\<lparr>tcp_ports := [], tls_ports := []\<rparr> # rest
      | WireGuardTcp \<Rightarrow> if tcp_ports peer = [] then rest else peer\<lparr>udp_ports := [], tls_ports := []\<rparr> # rest
      | Stealth \<Rightarrow> if tls_ports peer = [] then rest else peer\<lparr>udp_ports := [], tcp_ports := []\<rparr> # rest
      | Smart \<Rightarrow> rest)"

definition constrain_transports :: "PeerInfo list \<Rightarrow> Protocol \<Rightarrow> (ProtocolError, PeerInfo list) res" where
  "constrain_transports peers protocol =
     (if protocol = Smart then Ok peers
      else let constrained = constrain_loop protocol peers in
        if constrained = [] then Err (Unavailable protocol) else Ok constrained)"

definition translate_with_policy ::
  "base64 \<Rightarrow> TunnelParams \<Rightarrow> KeyPolicy \<Rightarrow> (ProtocolError, InitialConnectionConfig) res" where
  "translate_with_policy b64 params policy =
     (if tp_peers params \<noteq> [] \<and> \<not> serves_requested_protocol params then Err (Unavailable (tp_protocol params))
      else and_then (translate_peers b64 (tp_peers params)) (\<lambda>peers.
        if \<not> serves_translated peers (tp_protocol params) then Err (Unavailable (tp_protocol params))
        else and_then (constrain_transports peers (tp_protocol params)) (\<lambda>peers.
          and_then (case tp_client_private_key params of
                      Some key \<Rightarrow> and_then (decode_client_key b64 key) (\<lambda>k. Ok (Some k))
                    | None \<Rightarrow> Ok None) (\<lambda>key.
            if key = None \<and> policy = Required then
              Err (MissingKey ''the client private key is required in agent-less mode (production LocalAgent mode takes it from the persistent cache)'')
            else Ok \<lparr>ic_peers = peers, ic_network_available = tp_network_available params,
                     ic_wg_private_key = key, ic_sni_strategy = tp_sni_strategy params\<rparr>))))"

definition translate :: "base64 \<Rightarrow> TunnelParams \<Rightarrow> (ProtocolError, InitialConnectionConfig) res" where
  "translate b64 params = translate_with_policy b64 params Required"

text \<open>\<open>stable_peer_id\<close> of \<open>engine.rs\<close>: the way back from a candidate's id.\<close>

definition stable_peer_id :: "string \<Rightarrow> string" where
  "stable_peer_id i =
     (case rsplit_once (CHR ''/'') i of
        Some (stem, suffix) \<Rightarrow> if suffix \<noteq> [] \<and> list_all is_ascii_digit suffix then stem else i
      | None \<Rightarrow> i)"

section \<open>What a configuration offers\<close>

definition ports_of :: "transport \<Rightarrow> PeerInfo \<Rightarrow> u16 list" where
  "ports_of t info = (case t of Udp \<Rightarrow> udp_ports info | Tcp \<Rightarrow> tcp_ports info | Tls \<Rightarrow> tls_ports info)"

definition endpoint_of :: "transport \<Rightarrow> PeerParams \<Rightarrow> TransportEndpoint option" where
  "endpoint_of t peer = (case t of Udp \<Rightarrow> pp_udp peer | Tcp \<Rightarrow> pp_tcp peer | Tls \<Rightarrow> pp_tls peer)"

definition allows :: "Protocol \<Rightarrow> transport \<Rightarrow> bool" where
  "allows protocol t =
     (case protocol of Smart \<Rightarrow> True | WireGuardUdp \<Rightarrow> t = Udp | WireGuardTcp \<Rightarrow> t = Tcp | Stealth \<Rightarrow> t = Tls)"

type_synonym offer = "string \<times> IpAddr \<times> bytes \<times> transport \<times> u16 list"

text \<open>The endpoints of a request: of the peers with a good key, the endpoints with ports.\<close>

definition wanted :: "base64 \<Rightarrow> Protocol \<Rightarrow> PeerParams list \<Rightarrow> offer set" where
  "wanted b64 protocol peers =
     {(pp_id p, entry_ip e, k, t, te_ports e) | p e k t.
        p \<in> set peers \<and> b64 (public_key_base64 p) = Ok k \<and> length k = 32 \<and>
        endpoint_of t p = Some e \<and> te_ports e \<noteq> [] \<and> allows protocol t}"

text \<open>What the engine can try, under the ids it reports back with.\<close>

definition candidate_offers :: "PeerInfo \<Rightarrow> offer set" where
  "candidate_offers i =
     {(stable_peer_id (peer_id i), server_ip i, server_public_key i, t, ports_of t i) | t. ports_of t i \<noteq> []}"

definition offers :: "PeerInfo list \<Rightarrow> offer set" where
  "offers infos = (\<Union>i \<in> set infos. candidate_offers i)"

lemma offers_append: "offers (xs @ ys) = offers xs \<union> offers ys"
  by (auto simp: offers_def)

lemma offers_Nil [simp]: "offers [] = {}"
  by (simp add: offers_def)

lemma offers_Cons: "offers (x # xs) = offers [x] \<union> offers xs"
  using offers_append [of "[x]" xs] by simp

lemma ports_of_install: "ports_of t' (install t ports i) = (if t' = t then ports else ports_of t' i)"
  by (cases t; cases t') (simp_all add: ports_of_def install_def)

lemma install_keeps [simp]:
  "peer_id (install t ports i) = peer_id i" "server_ip (install t ports i) = server_ip i"
  "server_public_key (install t ports i) = server_public_key i"
  by (simp_all add: install_def split: transport.splits)

lemma ports_of_blank [simp]: "ports_of t (blank_candidate peer key ip) = []"
  by (cases t) (simp_all add: ports_of_def blank_candidate_def)

text \<open>A placed endpoint changes the first candidate at its address, or adds one.\<close>

lemma place_cases:
  obtains (none) "place peer key cs (t, oe) = cs" "oe = None \<or> te_ports (the oe) = []"
  | (merged) e i where "oe = Some e" "te_ports e \<noteq> []" "i < length cs" "server_ip (cs ! i) = entry_ip e"
      "place peer key cs (t, oe) = cs[i := install t (te_ports e) (cs ! i)]"
  | (added) e where "oe = Some e" "te_ports e \<noteq> []"
      "place peer key cs (t, oe) = cs @ [install t (te_ports e) (blank_candidate peer key (entry_ip e))]"
proof (cases "oe = None \<or> te_ports (the oe) = []")
  case True
  then show thesis by (intro none) (cases oe; auto simp: place_def)
next
  case False
  then obtain e where e: "oe = Some e" "te_ports e \<noteq> []" by auto
  show thesis
  proof (cases "position (\<lambda>c. server_ip c = entry_ip e) cs")
    case None
    then show thesis using e by (intro added) (simp_all add: place_def)
  next
    case (Some i)
    then show thesis using e position_Some [OF Some] by (intro merged) (simp_all add: place_def)
  qed
qed

lemma place_from:
  assumes "c \<in> set (place peer key cs (t, oe))"
  shows "c \<in> set cs \<or> (\<exists>b ports. ports \<noteq> [] \<and> c = install t ports b \<and>
           (b \<in> set cs \<or> (\<exists>ip. b = blank_candidate peer key ip)))"
proof (cases rule: place_cases [of peer key cs t oe])
  case (merged e i)
  then have "c = install t (te_ports e) (cs ! i) \<or> c \<in> set cs"
    using assms set_update_subset_insert [of cs i "install t (te_ports e) (cs ! i)"] by auto
  with merged(2) nth_mem [OF merged(3)] show ?thesis by blast
qed (use assms in auto)

definition endpoints :: "PeerInfo list \<Rightarrow> (IpAddr \<times> transport \<times> u16 list) set" where
  "endpoints cs = {(server_ip c, t, ports_of t c) | c t. c \<in> set cs \<and> ports_of t c \<noteq> []}"

definition served :: "PeerParams \<Rightarrow> transport \<Rightarrow> (IpAddr \<times> transport \<times> u16 list) set" where
  "served peer t =
     (case endpoint_of t peer of None \<Rightarrow> {} | Some e \<Rightarrow> if te_ports e = [] then {} else {(entry_ip e, t, te_ports e)})"

lemma endpoints_simps:
  "endpoints [] = {}" "endpoints (xs @ ys) = endpoints xs \<union> endpoints ys" "endpoints (x # ys) = endpoints [x] \<union> endpoints ys"
  by (auto simp: endpoints_def)

lemma endpoints_install:
  "ports_of t c = [] \<Longrightarrow> ports \<noteq> [] \<Longrightarrow>
   endpoints [install t ports c] = insert (server_ip c, t, ports) (endpoints [c])"
  by (auto simp: endpoints_def ports_of_install split: if_splits)

lemma place_endpoints:
  assumes "\<forall>c \<in> set cs. ports_of t c = []"
  shows "endpoints (place peer key cs (t, endpoint_of t peer)) = endpoints cs \<union> served peer t"
proof (cases rule: place_cases [of peer key cs t "endpoint_of t peer"])
  case none
  then show ?thesis by (auto simp: served_def split: option.splits)
next
  case (added e)
  have "endpoints [blank_candidate peer key (entry_ip e)] = {}" by (simp add: endpoints_def)
  moreover have "server_ip (blank_candidate peer key (entry_ip e)) = entry_ip e" by (simp add: blank_candidate_def)
  ultimately show ?thesis
    using added by (simp add: endpoints_simps(2) endpoints_install served_def)
next
  case (merged e i)
  have "cs = take i cs @ cs ! i # drop (Suc i) cs" using merged(3) by (simp add: id_take_nth_drop)
  then have old: "endpoints cs = endpoints (take i cs) \<union> (endpoints [cs ! i] \<union> endpoints (drop (Suc i) cs))"
    by (metis endpoints_simps(2,3))
  have new: "endpoints (cs[i := x]) = endpoints (take i cs) \<union> (endpoints [x] \<union> endpoints (drop (Suc i) cs))" for x
    using merged(3) by (metis upd_conv_take_nth_drop endpoints_simps(2,3))
  have "ports_of t (cs ! i) = []" using assms merged(3) by simp
  from endpoints_install [OF this merged(2)] merged show ?thesis by (auto simp: served_def new old)
qed

lemma place_other_ports:
  assumes "t' \<noteq> t" "\<forall>c \<in> set cs. ports_of t' c = []"
  shows "\<forall>c \<in> set (place peer key cs (t, oe)). ports_of t' c = []"
proof
  fix c assume "c \<in> set (place peer key cs (t, oe))"
  from place_from [OF this] assms show "ports_of t' c = []" by (auto simp: ports_of_install)
qed

definition candidate_ok :: "PeerParams \<Rightarrow> bytes \<Rightarrow> PeerInfo \<Rightarrow> bool" where
  "candidate_ok peer key c \<longleftrightarrow> peer_id c = pp_id peer \<and> server_public_key c = key \<and> (\<exists>t. ports_of t c \<noteq> [])"

lemma place_candidates:
  assumes "\<forall>c \<in> set cs. candidate_ok peer key c"
  shows "\<forall>c \<in> set (place peer key cs (t, oe)). candidate_ok peer key c"
proof
  fix c assume "c \<in> set (place peer key cs (t, oe))"
  from place_from [OF this] show "candidate_ok peer key c"
  proof
    assume "\<exists>b ports. ports \<noteq> [] \<and> c = install t ports b \<and> (b \<in> set cs \<or> (\<exists>ip. b = blank_candidate peer key ip))"
    then obtain b ports where b: "ports \<noteq> []" "c = install t ports b"
      "b \<in> set cs \<or> (\<exists>ip. b = blank_candidate peer key ip)" by blast
    then have "ports_of t c \<noteq> []" by (simp add: ports_of_install)
    with b assms show ?thesis by (auto simp: candidate_ok_def blank_candidate_def)
  qed (use assms in blast)
qed

lemma UNIV_transport: "UNIV = {Udp, Tcp, Tls}"
proof -
  have "t \<in> {Udp, Tcp, Tls}" for t by (cases t) simp_all
  then show ?thesis by blast
qed

lemma foldl_place:
  fixes peer key
  defines "cs \<equiv> foldl (place peer key) [] [(Udp, pp_udp peer), (Tcp, pp_tcp peer), (Tls, pp_tls peer)]"
  shows "endpoints cs = (\<Union>t. served peer t)" and "\<forall>c \<in> set cs. candidate_ok peer key c"
proof -
  define c1 where "c1 = place peer key [] (Udp, endpoint_of Udp peer)"
  define c2 where "c2 = place peer key c1 (Tcp, endpoint_of Tcp peer)"
  have cs: "cs = place peer key c2 (Tls, endpoint_of Tls peer)"
    by (simp add: cs_def c1_def c2_def endpoint_of_def)
  have "\<forall>c \<in> set c1. ports_of Tcp c = []" "\<forall>c \<in> set c1. ports_of Tls c = []"
    unfolding c1_def by (rule place_other_ports; simp)+
  moreover from this have "\<forall>c \<in> set c2. ports_of Tls c = []"
    unfolding c2_def by (intro place_other_ports) simp
  moreover have "endpoints c1 = served peer Udp"
    unfolding c1_def by (subst place_endpoints) (simp_all add: endpoints_simps(1))
  ultimately show "endpoints cs = (\<Union>t. served peer t)"
    unfolding cs UNIV_transport by (simp add: place_endpoints c2_def Un_assoc)
  show "\<forall>c \<in> set cs. candidate_ok peer key c"
    unfolding cs c2_def c1_def by (intro place_candidates) simp
qed

lemma stable_numbered: "stable_peer_id (i @ ''/'' @ dec_text n) = i"
proof -
  have "CHR ''/'' \<notin> set (dec_text n)"
    using dec_text_digits [of "CHR ''/''" n] by (auto simp: is_ascii_digit_def)
  moreover have "list_all is_ascii_digit (dec_text n)" using dec_text_digits by (auto simp: list_all_iff)
  ultimately show ?thesis using rsplit_once_append [of "CHR ''/''" "dec_text n" i] by (simp add: stable_peer_id_def)
qed

lemma number_candidates_offers:
  assumes "\<forall>c \<in> set cs. candidate_ok p key c" "stable_peer_id (pp_id p) = pp_id p"
  shows "offers (number_candidates cs) = (\<lambda>(ip, t, ps). (pp_id p, ip, key, t, ps)) ` endpoints cs"
proof -
  define h where "h c = {(pp_id p, server_ip c, key, t, ports_of t c) | t. ports_of t c \<noteq> []}" for c
  have img: "(\<lambda>(ip, t, ps). (pp_id p, ip, key, t, ps)) ` endpoints cs = (\<Union>c \<in> set cs. h c)"
    by (auto simp: endpoints_def h_def image_iff)
  show ?thesis
  proof (cases "length cs > 1")
    case False
    have "candidate_offers c = h c" if "c \<in> set cs" for c
      using that assms by (simp add: candidate_offers_def h_def candidate_ok_def)
    with False show ?thesis by (simp add: img offers_def number_candidates_def)
  next
    case True
    define num :: "nat \<times> PeerInfo \<Rightarrow> PeerInfo" where "num = (\<lambda>(n, c). c\<lparr>peer_id := peer_id c @ ''/'' @ dec_text n\<rparr>)"
    have snd: "snd ` set (zip [0..<length cs] cs) = set cs"
      by (metis diff_zero length_upt list.set_map map_snd_zip)
    have "candidate_offers (num x) = h (snd x)" if "x \<in> set (zip [0..<length cs] cs)" for x
    proof -
      have "candidate_ok p key (snd x)" using that snd assms(1) by blast
      moreover obtain n c where x: "x = (n, c)" by force
      moreover have "ports_of t (num x) = ports_of t c" for t
        by (cases t) (simp_all add: x num_def ports_of_def)
      ultimately show ?thesis
        using stable_numbered by (simp add: candidate_offers_def h_def candidate_ok_def) (simp add: num_def)
    qed
    then have "offers (number_candidates cs) = (\<Union>x \<in> set (zip [0..<length cs] cs). h (snd x))"
      using True by (simp add: offers_def number_candidates_def num_def)
    also have "\<dots> = (\<Union>c \<in> set cs. h c)" unfolding snd [symmetric] by simp
    finally show ?thesis unfolding img .
  qed
qed

definition peer_key :: "base64 \<Rightarrow> PeerParams \<Rightarrow> bytes option" where
  "peer_key b64 p = (case b64 (public_key_base64 p) of Ok k \<Rightarrow> if length k = 32 then Some k else None | _ \<Rightarrow> None)"

lemma wanted_peer:
  "wanted b64 Smart [p] =
     (case peer_key b64 p of None \<Rightarrow> {} | Some k \<Rightarrow> (\<lambda>(ip, t, ps). (pp_id p, ip, k, t, ps)) ` (\<Union>t. served p t))"
proof (cases "peer_key b64 p")
  case None
  then have "\<not> (b64 (public_key_base64 p) = Ok k \<and> length k = 32)" for k
    by (auto simp: peer_key_def split: res.splits if_splits)
  with None show ?thesis by (auto simp: wanted_def)
next
  case (Some k)
  then have "b64 (public_key_base64 p) = Ok k' \<and> length k' = 32 \<longleftrightarrow> k' = k" for k'
    by (auto simp: peer_key_def split: res.splits if_splits)
  then have "wanted b64 Smart [p] =
      {(pp_id p, entry_ip e, k, t, te_ports e) | e t. endpoint_of t p = Some e \<and> te_ports e \<noteq> []}"
    by (simp add: wanted_def allows_def) blast
  also have "\<dots> = (\<lambda>(ip, t, ps). (pp_id p, ip, k, t, ps)) ` (\<Union>t. served p t)"
  proof -
    have "served p t = {(entry_ip e, t, te_ports e) | e. endpoint_of t p = Some e \<and> te_ports e \<noteq> []}" for t
      by (auto simp: served_def split: option.splits if_splits)
    then show ?thesis by (auto simp: image_iff)
  qed
  finally show ?thesis by (simp add: Some)
qed

lemma number_candidates_Nil [simp]: "number_candidates cs = [] \<longleftrightarrow> cs = []"
  by (auto simp: number_candidates_def)

lemma number_candidates_ports:
  "\<forall>c \<in> set cs. \<exists>t. ports_of t c \<noteq> [] \<Longrightarrow> i \<in> set (number_candidates cs) \<Longrightarrow> \<exists>t. ports_of t i \<noteq> []"
proof -
  assume cs: "\<forall>c \<in> set cs. \<exists>t. ports_of t c \<noteq> []" and "i \<in> set (number_candidates cs)"
  then obtain c j where "c \<in> set cs" "i = c \<or> i = c\<lparr>peer_id := j\<rparr>"
    by (auto simp: number_candidates_def split: if_splits dest: set_zip_rightD)
  moreover have "ports_of t (c\<lparr>peer_id := j\<rparr>) = ports_of t c" for t
    by (cases t) (simp_all add: ports_of_def)
  ultimately show ?thesis using cs by auto
qed

text \<open>One peer: its offers, all of them, or a refusal when it has none.\<close>

lemma decode_peer_offers:
  assumes "b64 (public_key_base64 p) \<noteq> Panic" "stable_peer_id (pp_id p) = pp_id p"
  shows "case decode_peer b64 p of
      Ok infos \<Rightarrow> offers infos = wanted b64 Smart [p] \<and> infos \<noteq> [] \<and> (\<forall>i \<in> set infos. \<exists>t. ports_of t i \<noteq> [])
    | Err e \<Rightarrow> wanted b64 Smart [p] = {}
    | Panic \<Rightarrow> False"
proof (cases "peer_key b64 p")
  case None
  then have "wanted b64 Smart [p] = {}" by (simp add: wanted_peer)
  with None assms(1) show ?thesis
    by (auto simp: decode_peer_def peer_key_def split: res.splits if_splits)
next
  case (Some key)
  define cs where "cs = foldl (place p key) [] [(Udp, pp_udp p), (Tcp, pp_tcp p), (Tls, pp_tls p)]"
  note fold = foldl_place [of p key, folded cs_def]
  have k: "b64 (public_key_base64 p) = Ok key" "length key = 32"
    using Some by (auto simp: peer_key_def split: res.splits if_splits)
  have dec: "decode_peer b64 p =
      (if cs = [] then Err (InvalidPeer (pp_id p) ''the peer serves no transport'') else Ok (number_candidates cs))"
    using k by (simp add: decode_peer_def cs_def Let_def)
  have w: "wanted b64 Smart [p] = (\<lambda>(ip, t, ps). (pp_id p, ip, key, t, ps)) ` endpoints cs"
    unfolding wanted_peer fold(1) by (simp add: Some)
  have "\<exists>t. ports_of t i \<noteq> []" if "i \<in> set (number_candidates cs)" for i
    using number_candidates_ports [OF _ that] fold(2) by (auto simp: candidate_ok_def)
  moreover have "offers (number_candidates cs) = wanted b64 Smart [p]"
    unfolding w by (rule number_candidates_offers [OF fold(2) assms(2)])
  ultimately show ?thesis using w by (auto simp: dec endpoints_simps(1))
qed

section \<open>The whole translation\<close>

definition offer_transport :: "offer \<Rightarrow> transport" where
  "offer_transport x = fst (snd (snd (snd x)))"

lemma offer_transport_eq [simp]: "offer_transport (i, ip, k, t, ps) = t"
  by (simp add: offer_transport_def)

lemma allows_smart [simp]: "allows Smart t"
  by (simp add: allows_def)

lemma wanted_simps:
  "wanted b64 protocol [] = {}" "wanted b64 protocol (p # ps) = wanted b64 protocol [p] \<union> wanted b64 protocol ps"
  by (auto simp: wanted_def)

lemma wanted_allowed: "wanted b64 protocol ps = {x \<in> wanted b64 Smart ps. allows protocol (offer_transport x)}"
  by (auto simp: wanted_def) blast+

definition ported :: "PeerInfo list \<Rightarrow> bool" where
  "ported infos \<longleftrightarrow> (\<forall>i \<in> set infos. \<exists>t. ports_of t i \<noteq> [])"

lemma ported_offers: "ported infos \<Longrightarrow> offers infos = {} \<longleftrightarrow> infos = []"
  by (auto simp: ported_def offers_def candidate_offers_def)

lemma translate_loop_offers:
  assumes "\<And>s. b64 s \<noteq> Panic" "\<forall>p \<in> set peers. stable_peer_id (pp_id p) = pp_id p" "ported infos"
  shows "case translate_loop b64 peers infos e of
      Ok out \<Rightarrow> offers out = offers infos \<union> wanted b64 Smart peers \<and> out \<noteq> [] \<and> ported out
    | Err _ \<Rightarrow> infos = [] \<and> wanted b64 Smart peers = {}
    | Panic \<Rightarrow> False"
  using assms(2,3)
proof (induction peers arbitrary: infos e)
  case Nil
  then show ?case by (simp add: wanted_simps)
next
  case (Cons p ps)
  have p: "stable_peer_id (pp_id p) = pp_id p" and ps: "\<forall>p \<in> set ps. stable_peer_id (pp_id p) = pp_id p"
    using Cons.prems(1) by simp_all
  note peer = decode_peer_offers [of b64 p, OF assms(1) p] and w = wanted_simps(2) [of b64 Smart p ps]
  show ?case
  proof (cases "decode_peer b64 p")
    case (Ok new)
    then have new: "offers new = wanted b64 Smart [p]" "new \<noteq> []" "ported new" using peer by (auto simp: ported_def)
    then have "ported (infos @ new)" using Cons.prems(2) by (auto simp: ported_def)
    from Cons.IH [OF ps this, of e] new Ok w show ?thesis by (auto simp: offers_append split: res.splits)
  next
    case (Err x)
    with peer Cons.IH [OF ps Cons.prems(2), of "Some x"] w show ?thesis by (auto split: res.splits)
  next
    case Panic
    with peer show ?thesis by simp
  qed
qed

text \<open>Restricting the ports of a candidate restricts its offers.\<close>

definition only :: "transport \<Rightarrow> PeerInfo \<Rightarrow> PeerInfo" where
  "only t i =
     (case t of
        Udp \<Rightarrow> i\<lparr>tcp_ports := [], tls_ports := []\<rparr>
      | Tcp \<Rightarrow> i\<lparr>udp_ports := [], tls_ports := []\<rparr>
      | Tls \<Rightarrow> i\<lparr>udp_ports := [], tcp_ports := []\<rparr>)"

lemma only_simps [simp]:
  "ports_of t (only t0 i) = (if t = t0 then ports_of t i else [])" "peer_id (only t i) = peer_id i"
  "server_ip (only t i) = server_ip i" "server_public_key (only t i) = server_public_key i"
  by (cases t; cases t0; simp add: only_def ports_of_def) (cases t; simp add: only_def)+

lemma constrain_manual:
  assumes "protocol \<noteq> Smart"
  obtains t0 where "\<And>t. allows protocol t \<longleftrightarrow> t = t0"
    "\<And>i infos. constrain_loop protocol (i # infos) =
       (if ports_of t0 i = [] then [] else [only t0 i]) @ constrain_loop protocol infos"
proof (cases protocol)
  case WireGuardUdp
  then show thesis by (intro that [of Udp]) (simp_all add: allows_def only_def ports_of_def Let_def)
next
  case WireGuardTcp
  then show thesis by (intro that [of Tcp]) (simp_all add: allows_def only_def ports_of_def Let_def)
next
  case Stealth
  then show thesis by (intro that [of Tls]) (simp_all add: allows_def only_def ports_of_def Let_def)
qed (use assms in simp)

lemma constrain_offers:
  assumes "protocol \<noteq> Smart"
  shows "offers (constrain_loop protocol infos) = {x \<in> offers infos. allows protocol (offer_transport x)}"
proof -
  obtain t0 where t0: "\<And>t. allows protocol t \<longleftrightarrow> t = t0"
    and step: "\<And>i infos. constrain_loop protocol (i # infos) =
       (if ports_of t0 i = [] then [] else [only t0 i]) @ constrain_loop protocol infos"
    using constrain_manual [OF assms] by blast
  have one: "offers (if ports_of t0 i = [] then [] else [only t0 i]) = {x \<in> offers [i]. allows protocol (offer_transport x)}" for i
    by (auto simp: offers_def candidate_offers_def t0 split: if_splits)
  show ?thesis
  proof (induction infos)
    case (Cons i infos)
    show ?case unfolding step offers_append one Cons.IH offers_Cons [of i infos] by blast
  qed simp
qed

lemma ex_transport: "(\<exists>t. P t) \<longleftrightarrow> P Udp \<or> P Tcp \<or> P Tls"
  by (metis transport.exhaust)

lemma serves_translated_iff:
  "serves_translated infos protocol \<longleftrightarrow> (\<exists>x \<in> offers infos. allows protocol (offer_transport x))"
proof -
  have "serves_translated infos protocol \<longleftrightarrow> (\<exists>i \<in> set infos. \<exists>t. ports_of t i \<noteq> [] \<and> allows protocol t)"
    by (cases protocol) (simp_all add: serves_translated_def list_ex_iff allows_def ports_of_def ex_transport)
  also have "\<dots> \<longleftrightarrow> (\<exists>x \<in> offers infos. allows protocol (offer_transport x))"
    by (auto simp: offers_def candidate_offers_def)
  finally show ?thesis .
qed

lemma unserved_wanted: "\<not> serves_requested_protocol params \<Longrightarrow> wanted b64 (tp_protocol params) (tp_peers params) = {}"
  by (cases "tp_protocol params")
     (auto simp: wanted_def serves_requested_protocol_def list_ex_iff has_ports_def allows_def endpoint_of_def
        split: transport.splits)

lemma constrain_result:
  assumes "ported infos" "offers infos = wanted b64 Smart peers" "serves_translated infos protocol"
  shows "\<exists>out. constrain_transports infos protocol = Ok out \<and> offers out = wanted b64 protocol peers"
proof (cases "protocol = Smart")
  case True
  with assms show ?thesis by (simp add: constrain_transports_def)
next
  case False
  have o: "offers (constrain_loop protocol infos) = wanted b64 protocol peers"
    using constrain_offers [OF False, of infos] assms(2) wanted_allowed [of b64 protocol peers] by simp
  moreover have "wanted b64 protocol peers \<noteq> {}"
    using assms(2,3) wanted_allowed [of b64 protocol peers] unfolding serves_translated_iff by blast
  ultimately have "constrain_loop protocol infos \<noteq> []" by auto
  with o False show ?thesis by (simp add: constrain_transports_def Let_def)
qed

text \<open>The client's key is there when the policy asks for it, and decodes to 32 bytes when it is there.\<close>

definition key_usable :: "base64 \<Rightarrow> string option \<Rightarrow> KeyPolicy \<Rightarrow> bool" where
  "key_usable b64 key policy =
     (case key of Some k \<Rightarrow> (case b64 k of Ok bs \<Rightarrow> length bs = 32 | _ \<Rightarrow> False) | None \<Rightarrow> policy = FromCache)"

text \<open>
  C29. A translated configuration offers the engine exactly what was asked for: every endpoint
  with ports of every peer with a good key, at its own address, under an id that maps back to
  the peer, and of the requested transport only when one was requested. The translation
  succeeds exactly when there is such an endpoint and the client's key is usable, and never
  panics.
\<close>

theorem translation_offers_exactly:
  assumes "\<And>s. b64 s \<noteq> Panic" "\<forall>p \<in> set (tp_peers params). stable_peer_id (pp_id p) = pp_id p"
  shows "case translate_with_policy b64 params policy of
      Ok cfg \<Rightarrow> offers (ic_peers cfg) = wanted b64 (tp_protocol params) (tp_peers params) \<and>
        wanted b64 (tp_protocol params) (tp_peers params) \<noteq> {} \<and>
        key_usable b64 (tp_client_private_key params) policy
    | Err _ \<Rightarrow> wanted b64 (tp_protocol params) (tp_peers params) = {} \<or>
        \<not> key_usable b64 (tp_client_private_key params) policy
    | Panic \<Rightarrow> False"
proof (cases "tp_peers params \<noteq> [] \<and> \<not> serves_requested_protocol params")
  case True
  then show ?thesis using unserved_wanted by (simp add: translate_with_policy_def)
next
  case pre: False
  let ?w = "wanted b64 (tp_protocol params) (tp_peers params)"
  have loop: "case translate_peers b64 (tp_peers params) of
      Ok out \<Rightarrow> offers out = wanted b64 Smart (tp_peers params) \<and> out \<noteq> [] \<and> ported out
    | Err _ \<Rightarrow> wanted b64 Smart (tp_peers params) = {}
    | Panic \<Rightarrow> False"
    using translate_loop_offers [of b64 "tp_peers params" "[]" None, OF assms]
    by (auto simp: translate_peers_def ported_def split: res.splits)
  show ?thesis
  proof (cases "translate_peers b64 (tp_peers params)")
    case (Ok out)
    then have out: "offers out = wanted b64 Smart (tp_peers params)" "ported out" using loop by simp_all
    show ?thesis
    proof (cases "serves_translated out (tp_protocol params)")
      case False
      then have "?w = {}" using out(1) wanted_allowed [of b64 "tp_protocol params"] unfolding serves_translated_iff by blast
      with pre Ok False show ?thesis by (simp add: translate_with_policy_def)
    next
      case True
      then have "?w \<noteq> {}"
        using out(1) wanted_allowed [of b64 "tp_protocol params"] unfolding serves_translated_iff by blast
      moreover obtain peers where "constrain_transports out (tp_protocol params) = Ok peers" "offers peers = ?w"
        using constrain_result [OF out(2,1) True] by blast
      ultimately show ?thesis
        using pre Ok True assms(1)
        by (cases policy)
           (auto simp: translate_with_policy_def decode_client_key_def key_usable_def split: option.splits res.splits)
    qed
  next
    case (Err e)
    then have "?w = {}" using loop wanted_allowed [of b64 "tp_protocol params"] by auto
    with pre Err show ?thesis by (simp add: translate_with_policy_def)
  next
    case Panic
    then show ?thesis using loop by simp
  qed
qed

definition demo_b64 :: base64 where
  "demo_b64 s = (if s = ''bad'' then Err ''Invalid byte'' else Ok (replicate 32 (CHR ''k'')))"

definition demo_peer :: "string \<Rightarrow> PeerParams" where
  "demo_peer key =
     \<lparr>pp_id = ''uk-42'', public_key_base64 = key,
      pp_udp = Some \<lparr>entry_ip = IpV4 [10, 0, 0, 1], te_ports = [51820]\<rparr>,
      pp_tcp = Some \<lparr>entry_ip = IpV4 [10, 0, 0, 2], te_ports = [443]\<rparr>, pp_tls = None, pp_priority = 1, pp_exit_label = None\<rparr>"

definition demo_params :: TunnelParams where
  "demo_params =
     \<lparr>tp_peers = [demo_peer ''bad'', demo_peer ''good''], tp_protocol = WireGuardTcp, tp_network_available = True,
      tp_client_private_key = None, tp_sni_strategy = SniRandom\<rparr>"

theorem translation_offers_exactly_witness:
  "\<exists>cfg. translate_with_policy demo_b64 demo_params FromCache = Ok cfg \<and>
     offers (ic_peers cfg) = {(''uk-42'', IpV4 [10, 0, 0, 2], replicate 32 (CHR ''k''), Tcp, [443])}"
proof -
  have "\<forall>p \<in> set (tp_peers demo_params). stable_peer_id (pp_id p) = pp_id p"
    by (simp add: demo_params_def demo_peer_def stable_peer_id_def rsplit_once_def)
  moreover have "demo_b64 s \<noteq> Panic" for s by (simp add: demo_b64_def)
  ultimately have main: "case translate_with_policy demo_b64 demo_params FromCache of
      Ok cfg \<Rightarrow> offers (ic_peers cfg) = wanted demo_b64 WireGuardTcp (tp_peers demo_params) | _ \<Rightarrow>
        wanted demo_b64 WireGuardTcp (tp_peers demo_params) = {}"
    using translation_offers_exactly [of demo_b64 demo_params FromCache]
    by (auto simp: key_usable_def demo_params_def split: res.splits)
  have "x \<in> wanted demo_b64 WireGuardTcp (tp_peers demo_params) \<longleftrightarrow>
      x = (''uk-42'', IpV4 [10, 0, 0, 2], replicate 32 (CHR ''k''), Tcp, [443])" for x
    unfolding wanted_def
    by (auto simp: demo_params_def demo_peer_def demo_b64_def allows_def endpoint_of_def
        intro!: exI [of _ "demo_peer ''good''"] exI [of _ "\<lparr>entry_ip = IpV4 [10, 0, 0, 2], te_ports = [443]\<rparr>"])
  then have "wanted demo_b64 WireGuardTcp (tp_peers demo_params) =
      {(''uk-42'', IpV4 [10, 0, 0, 2], replicate 32 (CHR ''k''), Tcp, [443])}" by blast
  with main show ?thesis by (auto split: res.splits)
qed

end
