(* ===== verification/Proto_Reconcile.thy ===== *)
theory Proto_Reconcile
  imports Prelude
begin

text \<open>
  \<open>crates/protocol/src/reconcile.rs\<close>: the ledger of requested and applied features, with
  the settings' mirror types of \<open>engine.rs\<close>. The epoch is the 64-bit counter it is in the
  code.
\<close>

section \<open>Settings\<close>

datatype EngineNetshield = NetshieldNone | MalwareFilter | AdsAndMalwareFilter | AdultAndAdsAndMalwareFilter

record EngineAgentSettings =
  split_tcp :: "bool option"
  netshield_level :: "EngineNetshield option"
  soft_jail :: "bool option"
  port_forwarding :: "bool option"
  random_nat :: "bool option"
  circumvention_routing :: "bool option"

datatype EngineSettingType =
  Netshield | Bouncing | PortForwarding | SplitTcp | SafeMode | RandomNat | CircumventionRouting

datatype RequestedValue = Flag bool | NetshieldLevel EngineNetshield

record FeatureDivergence =
  fd_setting :: EngineSettingType
  fd_requested :: RequestedValue
  fd_applied :: "RequestedValue option"

section \<open>The ledger\<close>

record FeatureReconciliation =
  fr_requested :: EngineAgentSettings
  fr_applied :: "EngineAgentSettings option"
  fr_refused :: "EngineSettingType list"
  fr_epoch :: u64

definition FeatureReconciliation_new :: "EngineAgentSettings \<Rightarrow> FeatureReconciliation" where
  "FeatureReconciliation_new s = \<lparr>fr_requested = s, fr_applied = None, fr_refused = [], fr_epoch = 0\<rparr>"

definition note_requested :: "EngineAgentSettings \<Rightarrow> FeatureReconciliation \<Rightarrow> FeatureReconciliation" where
  "note_requested s l = l\<lparr>fr_requested := s, fr_applied := None, fr_refused := [], fr_epoch := wrapping_incr (fr_epoch l)\<rparr>"

definition note_applied :: "EngineAgentSettings \<Rightarrow> u64 \<Rightarrow> FeatureReconciliation \<Rightarrow> FeatureReconciliation" where
  "note_applied a observed_epoch l = (if observed_epoch \<noteq> fr_epoch l then l else l\<lparr>fr_applied := Some a\<rparr>)"

definition note_unconfirmed :: "FeatureReconciliation \<Rightarrow> FeatureReconciliation" where
  "note_unconfirmed l = l\<lparr>fr_applied := None, fr_refused := []\<rparr>"

definition note_refused :: "EngineSettingType \<Rightarrow> u64 \<Rightarrow> FeatureReconciliation \<Rightarrow> FeatureReconciliation \<times> bool" where
  "note_refused s observed_epoch l =
     (if observed_epoch \<noteq> fr_epoch l then (l, False)
      else (if s \<in> set (fr_refused l) then l else l\<lparr>fr_refused := fr_refused l @ [s]\<rparr>, True))"

definition unconfirmed :: "EngineSettingType \<Rightarrow> RequestedValue \<Rightarrow> FeatureDivergence" where
  "unconfirmed s v = \<lparr>fd_setting = s, fd_requested = v, fd_applied = None\<rparr>"

definition unconfirmed_all :: "FeatureReconciliation \<Rightarrow> FeatureDivergence list" where
  "unconfirmed_all l =
     (let r = fr_requested l in
      (case split_tcp r of Some f \<Rightarrow> [unconfirmed SplitTcp (Flag f)] | None \<Rightarrow> []) @
      (case netshield_level r of Some n \<Rightarrow> [unconfirmed Netshield (NetshieldLevel n)] | None \<Rightarrow> []) @
      (case port_forwarding r of Some f \<Rightarrow> [unconfirmed PortForwarding (Flag f)] | None \<Rightarrow> []) @
      (case random_nat r of Some f \<Rightarrow> [unconfirmed RandomNat (Flag f)] | None \<Rightarrow> []) @
      (case soft_jail r of Some f \<Rightarrow> [unconfirmed SafeMode (Flag f)] | None \<Rightarrow> []) @
      (case circumvention_routing r of Some f \<Rightarrow> [unconfirmed CircumventionRouting (Flag f)] | None \<Rightarrow> []))"

definition divergence_of ::
  "EngineSettingType \<times> RequestedValue option \<times> RequestedValue option \<Rightarrow> FeatureDivergence option" where
  "divergence_of x =
     (case x of (s, requested, applied) \<Rightarrow>
       (case requested of
          None \<Rightarrow> None
        | Some v \<Rightarrow> if Some v \<noteq> applied then Some \<lparr>fd_setting = s, fd_requested = v, fd_applied = applied\<rparr> else None))"

definition divergences :: "FeatureReconciliation \<Rightarrow> FeatureDivergence list" where
  "divergences l =
     (case fr_applied l of
        None \<Rightarrow> unconfirmed_all l
      | Some a \<Rightarrow>
          (let r = fr_requested l in
           List.map_filter divergence_of
            [(SplitTcp, map_option Flag (split_tcp r), map_option Flag (split_tcp a)),
             (Netshield, map_option NetshieldLevel (netshield_level r), map_option NetshieldLevel (netshield_level a)),
             (PortForwarding, map_option Flag (port_forwarding r), map_option Flag (port_forwarding a)),
             (RandomNat, map_option Flag (random_nat r), map_option Flag (random_nat a)),
             (SafeMode, map_option Flag (soft_jail r), map_option Flag (soft_jail a)),
             (CircumventionRouting, map_option Flag (circumvention_routing r), map_option Flag (circumvention_routing a))]))"

section \<open>What the table says\<close>

text \<open>The value of a setting in a feature set; \<open>Bouncing\<close> is refused only, never requested.\<close>

primrec value_of :: "EngineSettingType \<Rightarrow> EngineAgentSettings \<Rightarrow> RequestedValue option" where
  "value_of Netshield s = map_option NetshieldLevel (netshield_level s)"
| "value_of Bouncing s = None"
| "value_of PortForwarding s = map_option Flag (port_forwarding s)"
| "value_of SplitTcp s = map_option Flag (split_tcp s)"
| "value_of SafeMode s = map_option Flag (soft_jail s)"
| "value_of RandomNat s = map_option Flag (random_nat s)"
| "value_of CircumventionRouting s = map_option Flag (circumvention_routing s)"

definition applied_value :: "FeatureReconciliation \<Rightarrow> EngineSettingType \<Rightarrow> RequestedValue option" where
  "applied_value l s = (case fr_applied l of None \<Rightarrow> None | Some a \<Rightarrow> value_of s a)"

definition agreed :: "EngineAgentSettings \<Rightarrow> EngineAgentSettings \<Rightarrow> bool" where
  "agreed requested applied \<longleftrightarrow> (\<forall>s v. value_of s requested = Some v \<longrightarrow> value_of s applied = Some v)"

definition row :: "EngineSettingType \<Rightarrow> RequestedValue option \<Rightarrow> RequestedValue option \<Rightarrow> FeatureDivergence list" where
  "row s r a = (case divergence_of (s, r, a) of None \<Rightarrow> [] | Some d \<Rightarrow> [d])"

lemma map_filter_row: "List.map_filter divergence_of ((s, r, a) # xs) = row s r a @ List.map_filter divergence_of xs"
  by (simp add: row_def map_filter_simps split: option.split)

lemma unconfirmed_row: "(case x of Some f \<Rightarrow> [unconfirmed s (g f)] | None \<Rightarrow> []) = row s (map_option g x) None"
  by (simp add: row_def divergence_of_def unconfirmed_def split: option.split)

definition compared :: "EngineSettingType list" where
  "compared = [SplitTcp, Netshield, PortForwarding, RandomNat, SafeMode, CircumventionRouting]"

lemma requested_compared: "value_of s x = Some v \<Longrightarrow> s \<in> set compared"
  by (cases s) (simp_all add: compared_def)

lemma divergences_rows:
  "divergences l = concat (map (\<lambda>s. row s (value_of s (fr_requested l)) (applied_value l s)) compared)"
proof (cases "fr_applied l")
  case None
  then show ?thesis by (simp add: divergences_def unconfirmed_all_def Let_def unconfirmed_row applied_value_def compared_def)
next
  case (Some a)
  then show ?thesis
    unfolding divergences_def Let_def Some option.case map_filter_row applied_value_def
    by (simp add: compared_def)
qed

lemma in_row: "d \<in> set (row s r a) \<longleftrightarrow> r = Some (fd_requested d) \<and> a = fd_applied d \<and> a \<noteq> r \<and> s = fd_setting d"
  by (cases d) (auto simp: row_def divergence_of_def split: option.splits)

text \<open>The table lists exactly the requested settings without the same applied value.\<close>

lemma divergences_iff:
  "d \<in> set (divergences l) \<longleftrightarrow>
     value_of (fd_setting d) (fr_requested l) = Some (fd_requested d) \<and>
     fd_applied d = applied_value l (fd_setting d) \<and> fd_applied d \<noteq> Some (fd_requested d)"
proof -
  have "d \<in> set (divergences l) \<longleftrightarrow>
      (\<exists>s \<in> set compared. d \<in> set (row s (value_of s (fr_requested l)) (applied_value l s)))"
    by (simp add: divergences_rows)
  then show ?thesis unfolding in_row using requested_compared by metis
qed

lemma divergences_Nil_iff:
  "divergences l = [] \<longleftrightarrow> (\<forall>s v. value_of s (fr_requested l) = Some v \<longrightarrow> applied_value l s = Some v)"
proof
  assume nil: "divergences l = []"
  show "\<forall>s v. value_of s (fr_requested l) = Some v \<longrightarrow> applied_value l s = Some v"
  proof (intro allI impI, rule ccontr)
    fix s v assume "value_of s (fr_requested l) = Some v" "applied_value l s \<noteq> Some v"
    then have "\<lparr>fd_setting = s, fd_requested = v, fd_applied = applied_value l s\<rparr> \<in> set (divergences l)"
      by (simp add: divergences_iff)
    with nil show False by simp
  qed
next
  assume "\<forall>s v. value_of s (fr_requested l) = Some v \<longrightarrow> applied_value l s = Some v"
  then have "d \<notin> set (divergences l)" for d by (auto simp: divergences_iff)
  then show "divergences l = []" by (cases "divergences l") auto
qed

end
