(* ===== verification/Proto_Marks.thy ===== *)
theory Proto_Marks
  imports Prelude
begin

unbundle bit_operations_syntax

text \<open>
  \<open>crates/protocol/src/marks.rs\<close>: the bypass mark on the outer sockets and the health word
  that the route commit reads. The word is kept at its width; the callbacks run on any
  number of threads, so a run interleaves their atomic operations. The two system calls are
  a parameter: what each returned is an argument of the step that makes them.
\<close>

section \<open>Marking one descriptor\<close>

type_synonym fd = int
type_synonym errno = int

record kernel =
  getsockopt_type :: "fd \<Rightarrow> (errno, int) res"
  setsockopt_mark :: "fd \<Rightarrow> u32 \<Rightarrow> (errno, unit) res"

record SoMarkApplier =
  so_mark :: u32

definition ensure_socket :: "kernel \<Rightarrow> fd \<Rightarrow> (errno, int) res" where
  "ensure_socket k socket_fd = getsockopt_type k socket_fd"

definition set_mark :: "kernel \<Rightarrow> fd \<Rightarrow> u32 \<Rightarrow> (errno, unit) res" where
  "set_mark k socket_fd m = setsockopt_mark k socket_fd m"

definition apply_mark :: "kernel \<Rightarrow> SoMarkApplier \<Rightarrow> fd \<Rightarrow> (errno, unit) res" where
  "apply_mark k applier socket_fd = and_then (ensure_socket k socket_fd) (\<lambda>_. set_mark k socket_fd (so_mark applier))"

section \<open>The health word\<close>

type_synonym MarkHealth = "64 word"

definition IN_FLIGHT_SHIFT :: nat where
  "IN_FLIGHT_SHIFT = 1"

definition IN_FLIGHT_MASK :: MarkHealth where
  "IN_FLIGHT_MASK = push_bit IN_FLIGHT_SHIFT 0x3FFF"

definition IN_FLIGHT_UNIT :: MarkHealth where
  "IN_FLIGHT_UNIT = push_bit IN_FLIGHT_SHIFT 1"

definition FAILED :: MarkHealth where
  "FAILED = push_bit 0 1"

definition REPORTED_UNIT :: MarkHealth where
  "REPORTED_UNIT = push_bit 15 1"

definition REPORTED_SHIFT :: nat where
  "REPORTED_SHIFT = 15"

definition MarkHealth_new :: MarkHealth where
  "MarkHealth_new = 0"

definition all_marked :: "MarkHealth \<Rightarrow> bool" where
  "all_marked state \<longleftrightarrow> state AND FAILED = 0"

definition reported :: "MarkHealth \<Rightarrow> MarkHealth" where
  "reported state = drop_bit REPORTED_SHIFT state"

definition in_flight :: "MarkHealth \<Rightarrow> MarkHealth" where
  "in_flight state = drop_bit IN_FLIGHT_SHIFT (state AND IN_FLIGHT_MASK)"

definition healthy :: "MarkHealth \<Rightarrow> bool" where
  "healthy state \<longleftrightarrow> drop_bit REPORTED_SHIFT state > 0 \<and> state AND (IN_FLIGHT_MASK OR FAILED) = 0"

definition note_in_flight :: "MarkHealth \<Rightarrow> MarkHealth" where
  "note_in_flight state = state + IN_FLIGHT_UNIT"

definition note_failure :: "MarkHealth \<Rightarrow> MarkHealth" where
  "note_failure state = state OR FAILED"

definition note_reported :: "MarkHealth \<Rightarrow> MarkHealth" where
  "note_reported state = state + REPORTED_UNIT"

definition note_done :: "MarkHealth \<Rightarrow> MarkHealth" where
  "note_done state = state - IN_FLIGHT_UNIT"

section \<open>The callback\<close>

text \<open>Where a \<open>protect_socket\<close> call stands; each arrow of \<open>mark_step\<close> is one atomic operation of it.\<close>

datatype phase =
    Admitted
  | Outcome bool
  | Latched
  | Published bool
  | Returned bool

record MarkWorld =
  cell :: MarkHealth
  calls :: "(fd \<times> phase) list"
  marks_set :: "(fd \<times> u32) list"

definition mark_world_new :: MarkWorld where
  "mark_world_new = \<lparr>cell = MarkHealth_new, calls = [], marks_set = []\<rparr>"

definition enter :: "fd \<Rightarrow> MarkWorld \<Rightarrow> MarkWorld" where
  "enter f w = w\<lparr>cell := note_in_flight (cell w), calls := calls w @ [(f, Admitted)]\<rparr>"

definition protect_socket :: "kernel \<Rightarrow> SoMarkApplier \<Rightarrow> nat \<Rightarrow> MarkWorld \<Rightarrow> MarkWorld" where
  "protect_socket k applier i w =
     (case calls w ! i of (f, ph) \<Rightarrow>
       (case ph of
          Admitted \<Rightarrow>
            (case apply_mark k applier f of
               Ok _ \<Rightarrow> w\<lparr>calls := (calls w)[i := (f, Outcome True)], marks_set := marks_set w @ [(f, so_mark applier)]\<rparr>
             | _ \<Rightarrow> w\<lparr>calls := (calls w)[i := (f, Outcome False)]\<rparr>)
        | Outcome True \<Rightarrow> w\<lparr>cell := note_reported (cell w), calls := (calls w)[i := (f, Published True)]\<rparr>
        | Outcome False \<Rightarrow> w\<lparr>cell := note_failure (cell w), calls := (calls w)[i := (f, Latched)]\<rparr>
        | Latched \<Rightarrow> w\<lparr>cell := note_reported (cell w), calls := (calls w)[i := (f, Published False)]\<rparr>
        | Published b \<Rightarrow> w\<lparr>cell := note_done (cell w), calls := (calls w)[i := (f, Returned b)]\<rparr>
        | Returned b \<Rightarrow> w))"

inductive mark_run :: "SoMarkApplier \<Rightarrow> MarkWorld \<Rightarrow> bool" for applier where
  start: "mark_run applier mark_world_new"
| arrival: "mark_run applier w \<Longrightarrow> mark_run applier (enter f w)"
| advance: "mark_run applier w \<Longrightarrow> i < length (calls w) \<Longrightarrow> mark_run applier (protect_socket k applier i w)"

section \<open>What the word holds\<close>

primrec flying :: "phase \<Rightarrow> bool" where
  "flying Admitted = True"
| "flying (Outcome b) = True"
| "flying Latched = True"
| "flying (Published b) = True"
| "flying (Returned b) = False"

primrec published :: "phase \<Rightarrow> bool" where
  "published Admitted = False"
| "published (Outcome b) = False"
| "published Latched = False"
| "published (Published b) = True"
| "published (Returned b) = True"

primrec latched :: "phase \<Rightarrow> bool" where
  "latched Admitted = False"
| "latched (Outcome b) = False"
| "latched Latched = True"
| "latched (Published b) = (\<not> b)"
| "latched (Returned b) = (\<not> b)"

definition count_of :: "(phase \<Rightarrow> bool) \<Rightarrow> (fd \<times> phase) list \<Rightarrow> nat" where
  "count_of P cs = length (filter (P \<circ> snd) cs)"

definition any_latched :: "(fd \<times> phase) list \<Rightarrow> bool" where
  "any_latched cs = list_ex (latched \<circ> snd) cs"

definition tally :: "(fd \<times> phase) list \<Rightarrow> nat" where
  "tally cs = 2 ^ 15 * count_of published cs + 2 * count_of flying cs + of_bool (any_latched cs)"

lemma filter_update:
  assumes "i < length xs"
  shows "length (filter P (xs[i := x])) + of_bool (P (xs ! i)) = length (filter P xs) + of_bool (P x)"
proof -
  have "length (filter P xs) = length (filter P (take i xs @ xs ! i # drop (Suc i) xs))"
    using assms by (simp add: id_take_nth_drop [symmetric])
  moreover have "length (filter P (xs[i := x])) = length (filter P (take i xs @ x # drop (Suc i) xs))"
    using assms by (simp add: upd_conv_take_nth_drop)
  ultimately show ?thesis by simp
qed

lemma ex_update:
  assumes "i < length xs" "P (xs ! i) \<Longrightarrow> P x"
  shows "(\<exists>c \<in> set (xs[i := x]). P c) \<longleftrightarrow> P x \<or> (\<exists>c \<in> set xs. P c)"
proof -
  have "set (xs[i := x]) = insert x (set (take i xs) \<union> set (drop (Suc i) xs))"
    using assms(1) by (simp add: upd_conv_take_nth_drop)
  moreover have "set xs = insert (xs ! i) (set (take i xs) \<union> set (drop (Suc i) xs))"
    using assms(1) by (metis id_take_nth_drop list.simps(15) set_append Un_insert_right)
  ultimately show ?thesis using assms(2) by auto
qed

lemma or_failed: "(of_nat (2 * n + of_bool b) :: 64 word) OR 1 = of_nat (2 * n + 1)"
  by (cases b) (simp_all add: or_one_eq)

lemma tally_update:
  assumes "i < length cs" "cs ! i = (f, old)" "latched old \<Longrightarrow> latched new"
  shows "tally (cs[i := (f, new)])
      + 2 ^ 15 * of_bool (published old) + 2 * of_bool (flying old) + of_bool (any_latched cs)
    = tally cs + 2 ^ 15 * of_bool (published new) + 2 * of_bool (flying new) + of_bool (latched new \<or> any_latched cs)"
  using filter_update [OF assms(1), of "published \<circ> snd" "(f, new)"] filter_update [OF assms(1), of "flying \<circ> snd" "(f, new)"]
    ex_update [OF assms(1), of "latched \<circ> snd" "(f, new)"] assms(2,3)
  by (simp add: tally_def count_of_def any_latched_def list_ex_iff)

lemma latched_at: "i < length cs \<Longrightarrow> cs ! i = (f, ph) \<Longrightarrow> latched ph \<Longrightarrow> any_latched cs"
  unfolding any_latched_def list_ex_iff comp_def by (metis nth_mem snd_conv)

lemmas cell_ops = note_in_flight_def note_failure_def note_reported_def note_done_def
  IN_FLIGHT_UNIT_def IN_FLIGHT_SHIFT_def REPORTED_UNIT_def FAILED_def

lemma note_failure_tally: "note_failure (of_nat (tally cs)) = of_nat (tally cs + of_bool (\<not> any_latched cs))"
  using or_failed [of "2 ^ 14 * count_of published cs + count_of flying cs" "any_latched cs"]
  by (simp add: tally_def cell_ops)

lemma protect_socket_word:
  assumes "i < length (calls w)" "cell w = of_nat (tally (calls w))"
  shows "cell (protect_socket k applier i w) = of_nat (tally (calls (protect_socket k applier i w)))"
proof -
  obtain f ph where ph: "calls w ! i = (f, ph)" by force
  note up = tally_update [OF assms(1) ph] and at = latched_at [OF assms(1) ph]
  show ?thesis
  proof (cases ph)
    case Admitted
    then have "tally ((calls w)[i := (f, Outcome b)]) = tally (calls w)" for b using up [of "Outcome b"] by simp
    with Admitted show ?thesis by (simp add: protect_socket_def ph assms(2) split: res.splits)
  next
    case (Outcome b)
    show ?thesis
    proof (cases b)
      case True
      then have "tally ((calls w)[i := (f, Published True)]) = tally (calls w) + 2 ^ 15"
        using up [of "Published True"] Outcome by simp
      with Outcome True show ?thesis by (simp add: protect_socket_def ph assms(2) cell_ops)
    next
      case False
      then have "tally ((calls w)[i := (f, Latched)]) = tally (calls w) + of_bool (\<not> any_latched (calls w))"
        using up [of Latched] Outcome by (cases "any_latched (calls w)") simp_all
      with Outcome False show ?thesis by (simp add: protect_socket_def ph assms(2) note_failure_tally)
    qed
  next
    case Latched
    then have "tally ((calls w)[i := (f, Published False)]) = tally (calls w) + 2 ^ 15"
      using up [of "Published False"] at by simp
    with Latched show ?thesis by (simp add: protect_socket_def ph assms(2) cell_ops)
  next
    case (Published b)
    then have "tally (calls w) = tally ((calls w)[i := (f, Returned b)]) + 2"
      using up [of "Returned b"] at by (cases b) simp_all
    with Published show ?thesis by (simp add: protect_socket_def ph assms(2) cell_ops)
  next
    case (Returned b)
    then show ?thesis by (simp add: protect_socket_def ph assms(2))
  qed
qed

text \<open>The word is the tally of the callbacks, modulo its width, whatever the interleaving.\<close>

lemma mark_run_word: "mark_run applier w \<Longrightarrow> cell w = of_nat (tally (calls w))"
proof (induction rule: mark_run.induct)
  case start
  show ?case by (simp add: mark_world_new_def MarkHealth_new_def tally_def count_of_def any_latched_def)
next
  case (arrival w f)
  then show ?case by (simp add: enter_def tally_def count_of_def any_latched_def cell_ops)
qed (rule protect_socket_word)

text \<open>A callback that succeeded has set the mark.\<close>

primrec succeeded :: "phase \<Rightarrow> bool" where
  "succeeded Admitted = False"
| "succeeded (Outcome b) = b"
| "succeeded Latched = False"
| "succeeded (Published b) = b"
| "succeeded (Returned b) = b"

lemma set_update_cases: "x \<in> set (xs[i := y]) \<Longrightarrow> x = y \<or> x \<in> set xs"
  using set_update_subset_insert [of xs i y] by blast

lemma mark_run_marks:
  "mark_run applier w \<Longrightarrow> (f, ph) \<in> set (calls w) \<Longrightarrow> succeeded ph \<Longrightarrow> (f, so_mark applier) \<in> set (marks_set w)"
proof (induction arbitrary: f ph rule: mark_run.induct)
  case (advance w i k)
  obtain g old where old: "calls w ! i = (g, old)" "(g, old) \<in> set (calls w)"
    using advance.hyps(2) by (metis nth_mem surj_pair)
  with advance.prems advance.IH [of g old] advance.IH [of f ph] show ?case
    by (cases old) (auto simp: protect_socket_def dest!: set_update_cases split: res.splits bool.splits)
qed (auto simp: mark_world_new_def enter_def)

section \<open>The gate\<close>

lemma tally_fields:
  assumes "count_of flying cs < 2 ^ 14" "count_of published cs < 2 ^ 49"
  shows "unat (of_nat (tally cs) :: MarkHealth) = tally cs" "tally cs div 2 ^ 15 = count_of published cs"
    "tally cs mod 2 ^ 15 = 2 * count_of flying cs + of_bool (any_latched cs)"
proof -
  have low: "2 * count_of flying cs + of_bool (any_latched cs) < 2 ^ 15" using assms(1) by simp
  then have "tally cs < 2 ^ 64" using assms(2) by (simp add: tally_def)
  then show "unat (of_nat (tally cs) :: MarkHealth) = tally cs" by (simp add: unat_of_nat)
  show "tally cs div 2 ^ 15 = count_of published cs" "tally cs mod 2 ^ 15 = 2 * count_of flying cs + of_bool (any_latched cs)"
    using low by (simp_all add: tally_def add.assoc)
qed

lemma unat_low_bits: "unat (c AND mask n :: 64 word) = unat c mod 2 ^ n"
  unfolding take_bit_eq_mask [symmetric] unsigned_take_bit_eq by (rule take_bit_eq_mod)

lemma unat_high_bits: "unat (drop_bit n c :: 64 word) = unat c div 2 ^ n"
  unfolding unat_drop_bit_eq by (rule drop_bit_eq_div)

lemma unat_zero_iff: "c = (0 :: 64 word) \<longleftrightarrow> unat c = 0"
  by (simp add: unat_eq_zero)

lemma healthy_word: "healthy c \<longleftrightarrow> unat c div 2 ^ 15 > 0 \<and> unat c mod 2 ^ 15 = 0"
proof -
  have m: "IN_FLIGHT_MASK OR FAILED = mask 15"
    by (simp add: IN_FLIGHT_MASK_def FAILED_def IN_FLIGHT_SHIFT_def mask_eq_exp_minus_1)
  show ?thesis
    unfolding healthy_def m REPORTED_SHIFT_def unat_zero_iff [of "c AND mask 15"] unat_low_bits word_less_nat_alt unat_high_bits
    by simp
qed

lemma in_flight_word: "unat (in_flight c) = unat c div 2 mod 2 ^ 14"
proof -
  have "(0x3FFF :: 64 word) = mask 14" by (simp add: mask_eq_exp_minus_1)
  then have "in_flight c = drop_bit 1 c AND mask 14"
    unfolding in_flight_def IN_FLIGHT_MASK_def IN_FLIGHT_SHIFT_def
    by (intro bit_word_eqI) (auto simp: bit_simps)
  then show ?thesis using unat_high_bits [of 1 c] by (simp add: unat_low_bits)
qed

lemma all_marked_word: "all_marked c \<longleftrightarrow> unat c mod 2 = 0"
proof -
  have "FAILED = mask 1" by (simp add: FAILED_def)
  then show ?thesis
    unfolding all_marked_def unat_zero_iff [of "c AND FAILED"] using unat_low_bits [of c 1] by simp
qed

lemma reported_word: "unat (reported c) = unat c div 2 ^ 15"
  unfolding reported_def REPORTED_SHIFT_def by (rule unat_high_bits)

lemma count_of_zero: "count_of P cs = 0 \<longleftrightarrow> (\<forall>c \<in> set cs. \<not> P (snd c))"
  by (simp add: count_of_def filter_empty_conv)

lemma counts_settled:
  "0 < count_of published cs \<and> 2 * count_of flying cs + of_bool (any_latched cs) = 0 \<longleftrightarrow>
   cs \<noteq> [] \<and> (\<forall>c \<in> set cs. snd c = Returned True)"
proof -
  have "\<not> flying p \<and> \<not> latched p \<longleftrightarrow> p = Returned True" for p by (cases p) auto
  then have "2 * count_of flying cs + of_bool (any_latched cs) = 0 \<longleftrightarrow> (\<forall>c \<in> set cs. snd c = Returned True)"
    by (auto simp: count_of_zero any_latched_def list_ex_iff)
  moreover have "(\<forall>c \<in> set cs. snd c = Returned True) \<Longrightarrow> count_of published cs = 0 \<longleftrightarrow> cs = []"
    by (cases cs) (auto simp: count_of_zero)
  ultimately show ?thesis by auto
qed

text \<open>
  C23. The gate of the route commit is exact: with fewer than \<open>2 ^ 14\<close> callbacks in flight and
  fewer than \<open>2 ^ 49\<close> sockets reported, \<open>healthy\<close> holds exactly when a socket has been
  reported and every callback admitted so far has returned with success; and then each of
  those sockets had the bypass mark set on it. The three readers give the counts and the
  failure latch. The bounds are on the present counts, not on the history: the arithmetic of
  the word is exact again as soon as they hold.
\<close>

theorem healthy_exact:
  assumes "mark_run applier w" "count_of flying (calls w) < 2 ^ 14" "count_of published (calls w) < 2 ^ 49"
  shows "(healthy (cell w) \<longleftrightarrow> calls w \<noteq> [] \<and> (\<forall>c \<in> set (calls w). snd c = Returned True)) \<and>
    (healthy (cell w) \<longrightarrow> (\<forall>c \<in> set (calls w). (fst c, so_mark applier) \<in> set (marks_set w))) \<and>
    unat (reported (cell w)) = count_of published (calls w) \<and>
    unat (in_flight (cell w)) = count_of flying (calls w) \<and>
    (all_marked (cell w) \<longleftrightarrow> \<not> any_latched (calls w))"
proof -
  let ?t = "tally (calls w)"
  note fields = tally_fields [OF assms(2,3)]
  have u: "unat (cell w) = ?t" using mark_run_word [OF assms(1)] fields(1) by simp
  have gate: "healthy (cell w) \<longleftrightarrow> calls w \<noteq> [] \<and> (\<forall>c \<in> set (calls w). snd c = Returned True)"
    unfolding healthy_word u fields(2,3) counts_settled by (rule refl)
  moreover have "(f, so_mark applier) \<in> set (marks_set w)" if "healthy (cell w)" "(f, ph) \<in> set (calls w)" for f ph
    using mark_run_marks [OF assms(1) that(2)] gate that by auto
  moreover have "?t = 2 * (2 ^ 14 * count_of published (calls w) + count_of flying (calls w)) + of_bool (any_latched (calls w))"
    by (simp add: tally_def)
  then have "?t div 2 = 2 ^ 14 * count_of published (calls w) + count_of flying (calls w)"
    "?t mod 2 = of_bool (any_latched (calls w))" by (simp_all only: div_mult_self4 mod_mult_self4) simp_all
  ultimately show ?thesis
    using assms(2) fields(2) by (auto simp: reported_word in_flight_word all_marked_word u)
qed

definition demo_kernel :: kernel where
  "demo_kernel = \<lparr>getsockopt_type = (\<lambda>f. if f = 7 then Ok 1 else Err 88), setsockopt_mark = (\<lambda>_ _. Ok ())\<rparr>"

definition demo_marks :: MarkWorld where
  "demo_marks =
     (let a = \<lparr>so_mark = 51820\<rparr>; go = protect_socket demo_kernel a in
      go 0 (go 1 (go 0 (go 0 (enter 9 (enter 7 mark_world_new))))))"

theorem healthy_exact_witness:
  "\<not> healthy (cell demo_marks) \<and> unat (reported (cell demo_marks)) = 1 \<and> unat (in_flight (cell demo_marks)) = 1 \<and>
   all_marked (cell demo_marks)"
proof -
  have c: "calls demo_marks = [(7, Returned True), (9, Outcome False)]"
    by (simp add: demo_marks_def Let_def protect_socket_def enter_def mark_world_new_def apply_mark_def ensure_socket_def
        set_mark_def demo_kernel_def)
  have "mark_run \<lparr>so_mark = 51820\<rparr> demo_marks"
    unfolding demo_marks_def Let_def
    by (intro mark_run.intros)
       (simp_all add: protect_socket_def enter_def mark_world_new_def apply_mark_def ensure_socket_def
        set_mark_def demo_kernel_def)
  from healthy_exact [OF this] show ?thesis by (simp add: c count_of_def any_latched_def)
qed

end
