(* ===== verification/Proto_Engine.thy ===== *)
theory Proto_Engine
  imports Proto_Translate Proto_Reconcile Proto_Marks
begin

text \<open>
  \<open>crates/protocol/src/engine.rs\<close>, first part: the mirror types, the translation of
  ProTUN's states and events into them, and \<open>tun.rs\<close>. ProTUN's own types, which the source
  only matches on, are datatypes with the constructors and fields the matches name. A
  floating-point ratio is the 32-bit pattern the code copies.
\<close>

section \<open>ProTUN's types\<close>

datatype PNetshield = PNone | PMalwareFilter | PAdsAndMalwareFilter | PAdultAndAdsAndMalwareFilter

record LocalAgentSettings =
  p_split_tcp :: "bool option"
  p_netshield_level :: "PNetshield option"
  p_soft_jail :: "bool option"
  p_port_forwarding :: "bool option"
  p_random_nat :: "bool option"
  p_circumvention_routing :: "bool option"

datatype LocalAgentSettingType =
  PNetshieldLevel | PBouncing | PPortForwarding | PSplitTcp | PSafeMode | PRandomNat

datatype MuonEnv =
    MuonProd
  | MuonAtlas "string option"
  | MuonCustom "string list" "string option" "string option"

datatype PProtocol = PWireguardUdp | PWireguardTcp | PStealth

record PeerConnectionInfo =
  pci_peer_id :: string
  pci_entry_ip :: IpAddr
  pci_protocol :: PProtocol
  pci_port :: u16

datatype PRestriction = PStreaming string | PTorrent string | POther string string

record AgentConnectionInfo =
  aci_exit_v4 :: "IpAddr option"
  aci_exit_v6 :: "IpAddr option"
  aci_mtu :: "u16 option"
  aci_groups :: "string list"
  aci_restrictions :: "PRestriction list"
  aci_settings :: LocalAgentSettings

datatype WaitJailReason =
    PBadUserBehavior | PDisabledUser | PLowPlan | PNeed2FA | PPendingInvoice | PSessionOverLimit
  | PWaitingClientChallengeReply | PInternal | POtherJail

datatype AgentConnectionWaitReason = PSoftJailed | PHardJailed "(WaitJailReason \<times> u64 \<times> string) list"

datatype PeerConnectionWaitReason = WaitingForNetwork | OtherWait

datatype InterfaceError = IoError string

datatype InterfaceState = IfUp "InterfaceError option" | IfDown "InterfaceError option"

datatype DisconnectReason = TunEstablishError string

datatype ConnectionState =
    PDisconnected "DisconnectReason option"
  | PConnecting "PeerConnectionInfo list" "PeerConnectionWaitReason list"
  | PConnectingToLocalAgent PeerConnectionInfo "AgentConnectionWaitReason option"
  | PConnected PeerConnectionInfo "AgentConnectionInfo option"

record ProtunState =
  vs_interface :: InterfaceState
  vs_connection :: ConnectionState

datatype ApiEndpoint = PAuth | PCertificateRefresh

datatype ErrorEvent =
    PForkSelectorNeeded
  | PCertificateRefreshFatalError
  | PSettingPolicyRefused LocalAgentSettingType
  | PApiError ApiEndpoint "u16 option" bool

record EngineStats =
  received_bytes :: u64
  sent_bytes :: u64
  time_since_last_handshake :: Duration
  estimated_loss :: "32 word"
  estimated_round_trip_time :: Duration

record EngineAgentStats =
  bytes_received :: "u64 option"
  bytes_sent :: "u64 option"
  malicious_blocked :: "u64 option"
  ads_blocked :: "u64 option"
  trackers_blocked :: "u64 option"
  adult_content_blocked :: "u64 option"
  data_saved :: "u64 option"

datatype ProtunEvent =
    PConnectionStats u64 u64 Duration "32 word" Duration
  | PLocalAgentStats "u64 option" "u64 option" "u64 option" "u64 option" "u64 option" "u64 option" "u64 option"
  | PLocalAgentError ErrorEvent
  | PacketCaptureStarted
  | PacketCaptureStopped

section \<open>The mirror types\<close>

datatype EngineMuonEnv = Prod | Atlas "string option" | CustomServers "string list"

datatype EngineMode = LocalAgent string string EngineMuonEnv EngineAgentSettings | NoLocalAgent

record EngineConfig =
  if_name :: string
  bypass_mark :: u32
  ec_mode :: EngineMode

datatype EngineTransport = EWireGuardUdp | EWireGuardTcp | EStealth

record EnginePeerRef =
  epr_peer_id :: string
  epr_entry_ip :: IpAddr
  epr_protocol :: EngineTransport
  epr_port :: u16

datatype EngineRestriction = Streaming string | Torrent string | OtherRestriction string string

record EngineAgentInfo =
  server_exit_v4 :: "IpAddr option"
  server_exit_v6 :: "IpAddr option"
  server_mtu :: "u16 option"
  info_groups :: "string list"
  restrictions :: "EngineRestriction list"
  applied :: EngineAgentSettings

datatype EngineJailReason =
    BadUserBehavior | DisabledUser | LowPlan | Need2FA | PendingInvoice | SessionOverLimit
  | WaitingClientChallengeReply | Internal | OtherJail

record EngineAgentJail =
  jail_reason :: EngineJailReason
  jail_code :: u64
  jail_message :: string

datatype EngineAgentWait = SoftJailed | HardJailed "EngineAgentJail list"

datatype EngineConnectionState =
    Disconnected "string option"
  | Connecting "string list" bool
  | ConnectingToAgent EnginePeerRef "EngineAgentWait option"
  | Connected EnginePeerRef "EngineAgentInfo option"

record EngineVpnState =
  interface_up :: bool
  interface_error :: "string option"
  connection :: EngineConnectionState

datatype EngineApiEndpoint = Auth | CertificateRefresh

datatype EngineEvent =
    State EngineVpnState
  | Stats EngineStats
  | AgentStats EngineAgentStats
  | SettingRefused EngineSettingType u64
  | ForkSelectorNeeded
  | CertificateFatal
  | ApiError EngineApiEndpoint "u16 option" bool

section \<open>Translation\<close>

primrec netshield_to_protun :: "EngineNetshield \<Rightarrow> PNetshield" where
  "netshield_to_protun NetshieldNone = PNone"
| "netshield_to_protun MalwareFilter = PMalwareFilter"
| "netshield_to_protun AdsAndMalwareFilter = PAdsAndMalwareFilter"
| "netshield_to_protun AdultAndAdsAndMalwareFilter = PAdultAndAdsAndMalwareFilter"

primrec netshield_from_protun :: "PNetshield \<Rightarrow> EngineNetshield" where
  "netshield_from_protun PNone = NetshieldNone"
| "netshield_from_protun PMalwareFilter = MalwareFilter"
| "netshield_from_protun PAdsAndMalwareFilter = AdsAndMalwareFilter"
| "netshield_from_protun PAdultAndAdsAndMalwareFilter = AdultAndAdsAndMalwareFilter"

definition settings_to_protun :: "EngineAgentSettings \<Rightarrow> LocalAgentSettings" where
  "settings_to_protun s =
     \<lparr>p_split_tcp = split_tcp s, p_netshield_level = map_option netshield_to_protun (netshield_level s),
      p_soft_jail = soft_jail s, p_port_forwarding = port_forwarding s, p_random_nat = random_nat s,
      p_circumvention_routing = circumvention_routing s\<rparr>"

definition settings_from_protun :: "LocalAgentSettings \<Rightarrow> EngineAgentSettings" where
  "settings_from_protun s =
     \<lparr>split_tcp = p_split_tcp s, netshield_level = map_option netshield_from_protun (p_netshield_level s),
      soft_jail = p_soft_jail s, port_forwarding = p_port_forwarding s, random_nat = p_random_nat s,
      circumvention_routing = p_circumvention_routing s\<rparr>"

primrec setting_type_from_protun :: "LocalAgentSettingType \<Rightarrow> EngineSettingType" where
  "setting_type_from_protun PNetshieldLevel = Netshield"
| "setting_type_from_protun PBouncing = Bouncing"
| "setting_type_from_protun PPortForwarding = PortForwarding"
| "setting_type_from_protun PSplitTcp = SplitTcp"
| "setting_type_from_protun PSafeMode = SafeMode"
| "setting_type_from_protun PRandomNat = RandomNat"

primrec muon_env_to_protun :: "EngineMuonEnv \<Rightarrow> MuonEnv" where
  "muon_env_to_protun Prod = MuonProd"
| "muon_env_to_protun (Atlas scientist) = MuonAtlas scientist"
| "muon_env_to_protun (CustomServers servers) = MuonCustom servers None None"

primrec transport_from_protun :: "PProtocol \<Rightarrow> EngineTransport" where
  "transport_from_protun PWireguardUdp = EWireGuardUdp"
| "transport_from_protun PWireguardTcp = EWireGuardTcp"
| "transport_from_protun PStealth = EStealth"

definition peer_from_protun :: "PeerConnectionInfo \<Rightarrow> EnginePeerRef" where
  "peer_from_protun peer =
     \<lparr>epr_peer_id = stable_peer_id (pci_peer_id peer), epr_entry_ip = pci_entry_ip peer,
      epr_protocol = transport_from_protun (pci_protocol peer), epr_port = pci_port peer\<rparr>"

primrec restriction_from_protun :: "PRestriction \<Rightarrow> EngineRestriction" where
  "restriction_from_protun (PStreaming reason) = Streaming reason"
| "restriction_from_protun (PTorrent reason) = Torrent reason"
| "restriction_from_protun (POther name reason) = OtherRestriction name reason"

definition agent_info_from_protun :: "AgentConnectionInfo \<Rightarrow> EngineAgentInfo" where
  "agent_info_from_protun info =
     \<lparr>server_exit_v4 = aci_exit_v4 info, server_exit_v6 = aci_exit_v6 info, server_mtu = aci_mtu info,
      info_groups = aci_groups info, restrictions = map restriction_from_protun (aci_restrictions info),
      applied = settings_from_protun (aci_settings info)\<rparr>"

primrec jail_reason_from_protun :: "WaitJailReason \<Rightarrow> EngineJailReason" where
  "jail_reason_from_protun PBadUserBehavior = BadUserBehavior"
| "jail_reason_from_protun PDisabledUser = DisabledUser"
| "jail_reason_from_protun PLowPlan = LowPlan"
| "jail_reason_from_protun PNeed2FA = Need2FA"
| "jail_reason_from_protun PPendingInvoice = PendingInvoice"
| "jail_reason_from_protun PSessionOverLimit = SessionOverLimit"
| "jail_reason_from_protun PWaitingClientChallengeReply = WaitingClientChallengeReply"
| "jail_reason_from_protun PInternal = Internal"
| "jail_reason_from_protun POtherJail = OtherJail"

primrec wait_from_protun :: "AgentConnectionWaitReason \<Rightarrow> EngineAgentWait" where
  "wait_from_protun PSoftJailed = SoftJailed"
| "wait_from_protun (PHardJailed jails) =
     HardJailed (map (\<lambda>(reason, code, message).
       \<lparr>jail_reason = jail_reason_from_protun reason, jail_code = code, jail_message = message\<rparr>) jails)"

primrec error_string :: "InterfaceError \<Rightarrow> string" where
  "error_string (IoError e) = e"

primrec disconnect_reason_string :: "DisconnectReason \<Rightarrow> string" where
  "disconnect_reason_string (TunEstablishError m) = m"

primrec connection_from_protun :: "ConnectionState \<Rightarrow> EngineConnectionState" where
  "connection_from_protun (PDisconnected e) = Disconnected (map_option disconnect_reason_string e)"
| "connection_from_protun (PConnecting peers waits) =
     Connecting (map (\<lambda>p. stable_peer_id (pci_peer_id p)) peers) (list_ex (\<lambda>r. r = WaitingForNetwork) waits)"
| "connection_from_protun (PConnectingToLocalAgent peer wait) =
     ConnectingToAgent (peer_from_protun peer) (map_option wait_from_protun wait)"
| "connection_from_protun (PConnected peer info) =
     Connected (peer_from_protun peer) (map_option agent_info_from_protun info)"

definition translate_state :: "ProtunState \<Rightarrow> EngineVpnState" where
  "translate_state s =
     (let (up, error) = (case vs_interface s of
          IfUp e \<Rightarrow> (True, map_option error_string e) | IfDown e \<Rightarrow> (False, map_option error_string e)) in
      \<lparr>interface_up = up, interface_error = error, connection = connection_from_protun (vs_connection s)\<rparr>)"

primrec endpoint_from_protun :: "ApiEndpoint \<Rightarrow> EngineApiEndpoint" where
  "endpoint_from_protun PAuth = Auth"
| "endpoint_from_protun PCertificateRefresh = CertificateRefresh"

primrec translate_error :: "ErrorEvent \<Rightarrow> EngineEvent list" where
  "translate_error PForkSelectorNeeded = [ForkSelectorNeeded]"
| "translate_error PCertificateRefreshFatalError = [CertificateFatal]"
| "translate_error (PSettingPolicyRefused s) = [SettingRefused (setting_type_from_protun s) 0]"
| "translate_error (PApiError endpoint code invalid) = [ApiError (endpoint_from_protun endpoint) code invalid]"

primrec translate_event :: "ProtunEvent \<Rightarrow> EngineEvent list" where
  "translate_event (PConnectionStats r s h l t) =
     [Stats \<lparr>received_bytes = r, sent_bytes = s, time_since_last_handshake = h, estimated_loss = l,
       estimated_round_trip_time = t\<rparr>]"
| "translate_event (PLocalAgentStats r s m a t c d) =
     [AgentStats \<lparr>bytes_received = r, bytes_sent = s, malicious_blocked = m, ads_blocked = a, trackers_blocked = t,
       adult_content_blocked = c, data_saved = d\<rparr>]"
| "translate_event (PLocalAgentError e) = translate_error e"
| "translate_event PacketCaptureStarted = []"
| "translate_event PacketCaptureStopped = []"

lemma settings_protun_roundtrip [simp]: "settings_from_protun (settings_to_protun s) = s"
proof -
  have "netshield_from_protun (netshield_to_protun n) = n" for n by (cases n) simp_all
  then show ?thesis
    by (simp add: settings_from_protun_def settings_to_protun_def option.map_comp comp_def option.map_ident)
qed

section \<open>The TUN device\<close>

datatype TunError = InvalidName string | DeviceOpen string | Attach string string

record TunHandle =
  th_file :: "fd option"
  th_name :: string

definition IFNAMSIZ :: nat where
  "IFNAMSIZ = 16"

definition IFREQ_LEN :: nat where
  "IFREQ_LEN = IFNAMSIZ + 24"

definition is_ascii_alphanumeric :: "char \<Rightarrow> bool" where
  "is_ascii_alphanumeric c \<longleftrightarrow>
     is_ascii_digit c \<or> CHR ''A'' \<le> c \<and> c \<le> CHR ''Z'' \<or> CHR ''a'' \<le> c \<and> c \<le> CHR ''z''"

definition validate_name :: "string \<Rightarrow> (TunError, unit) res" where
  "validate_name n =
     (if 1 \<le> length n \<and> length n \<le> IFNAMSIZ - 1 \<and> is_ascii_alphanumeric (hd n) \<and>
         list_all (\<lambda>c. is_ascii_alphanumeric c \<or> c \<in> {CHR ''-'', CHR ''_'', CHR ''.''}) n
      then Ok () else Err (InvalidName n))"

text \<open>
  The kernel's side: opening \<open>/dev/net/tun\<close> gives a descriptor, the \<open>ioctl\<close> takes the
  \<open>ifreq\<close> and gives it back filled in. The flags are \<open>IFF_TUN | IFF_NO_PI | IFF_TUN_EXCL\<close>,
  0x9001, in the byte order of a little-endian machine. \<open>from_utf8_lossy\<close> is the identity on
  ASCII and a parameter otherwise.
\<close>

record tun_kernel =
  open_tun :: "(string, fd) res"
  ioctl_tunsetiff :: "fd \<Rightarrow> bytes \<Rightarrow> (string, bytes) res"
  lossy :: "bytes \<Rightarrow> string"

definition NUL :: char where
  "NUL = CHR 0x00"

definition TUN_FLAGS :: bytes where
  "TUN_FLAGS = [CHR 0x01, char_of (0x90 :: nat)]"

definition ifreq_of :: "string \<Rightarrow> bytes" where
  "ifreq_of n =
     (let name_bytes = n @ [NUL];
          ifreq = name_bytes @ drop (length name_bytes) (replicate IFREQ_LEN NUL) in
      take IFNAMSIZ ifreq @ TUN_FLAGS @ drop (IFNAMSIZ + 2) ifreq)"

definition tunsetiff :: "tun_kernel \<Rightarrow> fd \<Rightarrow> string \<Rightarrow> (string, string) res" where
  "tunsetiff k f n =
     (if length n + 1 > IFREQ_LEN then Panic
      else and_then (ioctl_tunsetiff k f (ifreq_of n)) (\<lambda>filled.
        Ok (lossy k (takeWhile (\<lambda>b. b \<noteq> NUL) (take IFNAMSIZ filled)))))"

definition tun_create :: "tun_kernel \<Rightarrow> string \<Rightarrow> (TunError, TunHandle) res" where
  "tun_create k n =
     and_then (validate_name n) (\<lambda>_.
     and_then (map_err DeviceOpen (open_tun k)) (\<lambda>f.
       if NUL \<in> set n then Panic
       else and_then (map_err (Attach n) (tunsetiff k f n)) (\<lambda>assigned.
         Ok \<lparr>th_file = Some f, th_name = assigned\<rparr>)))"

text \<open>
  The descriptors this side has closed. \<open>relinquish\<close> forgets the file, so the drop that
  follows a transfer finds nothing to close.
\<close>

definition tun_close :: "TunHandle \<Rightarrow> fd list \<Rightarrow> TunHandle \<times> fd list" where
  "tun_close h closed = (h\<lparr>th_file := None\<rparr>, case th_file h of Some f \<Rightarrow> closed @ [f] | None \<Rightarrow> closed)"

definition relinquish :: "TunHandle \<Rightarrow> (unit, fd \<times> TunHandle) res" where
  "relinquish h = (case th_file h of Some f \<Rightarrow> Ok (f, h\<lparr>th_file := None\<rparr>) | None \<Rightarrow> Panic)"

definition into_raw_fd :: "TunHandle \<Rightarrow> fd list \<Rightarrow> (unit, fd \<times> fd list) res" where
  "into_raw_fd h closed = and_then (relinquish h) (\<lambda>(f, h). Ok (f, snd (tun_close h closed)))"

lemma into_raw_fd_once: "th_file h = Some f \<Longrightarrow> into_raw_fd h closed = Ok (f, closed)"
  by (simp add: into_raw_fd_def relinquish_def tun_close_def)

lemma valid_name_bytes:
  assumes "validate_name n = Ok ()"
  shows "length n < IFNAMSIZ" "NUL \<notin> set n"
proof -
  from assms show "length n < IFNAMSIZ" by (auto simp: validate_name_def IFNAMSIZ_def split: if_splits)
  have "\<not> is_ascii_alphanumeric NUL" "NUL \<notin> {CHR ''-'', CHR ''_'', CHR ''.''}"
    by (simp_all add: is_ascii_alphanumeric_def is_ascii_digit_def NUL_def less_eq_char_def)
  with assms show "NUL \<notin> set n" by (auto simp: validate_name_def list_all_iff split: if_splits)
qed

text \<open>The name survives the trip through the \<open>ifreq\<close> when the kernel gives it back unchanged.\<close>

lemma ifreq_name:
  assumes "length n < IFNAMSIZ" "NUL \<notin> set n"
  shows "takeWhile (\<lambda>b. b \<noteq> NUL) (take IFNAMSIZ (n @ NUL # rest)) = n"
proof -
  have "take IFNAMSIZ (n @ NUL # rest) = n @ NUL # take (IFNAMSIZ - Suc (length n)) rest"
    using assms(1) by (simp add: take_Cons' Suc_diff_Suc)
  then show ?thesis by (simp only:) (subst takeWhile_append2, use assms(2) in auto)
qed

lemma tun_create_result:
  assumes "open_tun k \<noteq> Panic" "\<And>f b. ioctl_tunsetiff k f b \<noteq> Panic"
    "\<And>f b b'. ioctl_tunsetiff k f b = Ok b' \<Longrightarrow> take IFNAMSIZ b' = take IFNAMSIZ b" "lossy k n = n"
  shows "case tun_create k n of Ok h \<Rightarrow> th_name h = n \<and> open_tun k = Ok (the (th_file h)) \<and> th_file h \<noteq> None
    | Err _ \<Rightarrow> True | Panic \<Rightarrow> False"
proof (cases "validate_name n = Ok ()")
  case True
  note n = valid_name_bytes [OF True]
  define ifreq where "ifreq = n @ NUL # drop (Suc (length n)) (replicate IFREQ_LEN NUL)"
  have "length ifreq \<ge> IFNAMSIZ" using n(1) by (simp add: ifreq_def IFREQ_LEN_def)
  moreover have "ifreq_of n = take IFNAMSIZ ifreq @ TUN_FLAGS @ drop (IFNAMSIZ + 2) ifreq"
    unfolding ifreq_of_def Let_def ifreq_def by simp
  ultimately have "take IFNAMSIZ (ifreq_of n) = take IFNAMSIZ ifreq" by simp
  moreover have "takeWhile (\<lambda>b. b \<noteq> NUL) (take IFNAMSIZ ifreq) = n"
    unfolding ifreq_def by (rule ifreq_name [OF n])
  ultimately have "takeWhile (\<lambda>b. b \<noteq> NUL) (take IFNAMSIZ b) = n" if "ioctl_tunsetiff k f (ifreq_of n) = Ok b" for f b
    using assms(3) [OF that] that by simp
  then have echoed: "tunsetiff k f n = and_then (ioctl_tunsetiff k f (ifreq_of n)) (\<lambda>_. Ok n)" for f
    using n(1) assms(4) by (cases "ioctl_tunsetiff k f (ifreq_of n)") (simp_all add: tunsetiff_def IFREQ_LEN_def)
  show ?thesis
    using assms(1,2) n True
    by (auto simp: tun_create_def echoed res_simps split: res.splits)
next
  case False
  then have "validate_name n = Err (InvalidName n)" by (auto simp: validate_name_def split: if_splits)
  then show ?thesis by (simp add: tun_create_def)
qed

section \<open>Connecting\<close>

datatype EngineError = Tun TunError | Translation ProtocolError

datatype ConnectionMode =
    PLocalAgent string string LocalAgentSettings MuonEnv "u64 option"
  | PNoLocalAgent "bytes option"

definition local_agent_mode :: "EngineMode \<Rightarrow> ConnectionMode option" where
  "local_agent_mode md =
     (case md of
        LocalAgent user_agent app_version muon_env settings \<Rightarrow>
          Some (PLocalAgent user_agent app_version (settings_to_protun settings) (muon_env_to_protun muon_env) None)
      | NoLocalAgent \<Rightarrow> None)"

definition key_policy :: "EngineMode \<Rightarrow> KeyPolicy" where
  "key_policy md = (case md of LocalAgent _ _ _ _ \<Rightarrow> FromCache | NoLocalAgent \<Rightarrow> Required)"

text \<open>What \<open>Connection::unix_connect\<close> is called with, beside the callbacks and the cache.\<close>

record Spawn =
  sp_peers :: "PeerInfo list"
  sp_network_available :: bool
  sp_mode :: ConnectionMode
  sp_sni_strategy :: SniStrategy
  sp_fd :: fd
  sp_mark :: u32

definition EngineAgentSettings_default :: EngineAgentSettings where
  "EngineAgentSettings_default =
     \<lparr>split_tcp = None, netshield_level = None, soft_jail = None, port_forwarding = None, random_nat = None,
      circumvention_routing = None\<rparr>"

definition requested_of :: "EngineMode \<Rightarrow> EngineAgentSettings" where
  "requested_of md = (case md of LocalAgent _ _ _ settings \<Rightarrow> settings | NoLocalAgent \<Rightarrow> EngineAgentSettings_default)"

definition engine_connect ::
  "base64 \<Rightarrow> tun_kernel \<Rightarrow> EngineConfig \<Rightarrow> TunnelParams \<Rightarrow> (EngineError, Spawn \<times> FeatureReconciliation \<times> MarkHealth) res" where
  "engine_connect b64 k config params =
     and_then (map_err Translation (translate_with_policy b64 params (key_policy (ec_mode config)))) (\<lambda>initial.
     and_then (map_err Tun (tun_create k (if_name config))) (\<lambda>tun.
     and_then (map_err (\<lambda>_. Tun (InvalidName [])) (into_raw_fd tun [])) (\<lambda>(f, _).
       Ok (\<lparr>sp_peers = ic_peers initial, sp_network_available = ic_network_available initial,
            sp_mode = (case local_agent_mode (ec_mode config) of
                         Some md \<Rightarrow> md | None \<Rightarrow> PNoLocalAgent (ic_wg_private_key initial)),
            sp_sni_strategy = ic_sni_strategy initial, sp_fd = f, sp_mark = bypass_mark config\<rparr>,
           FeatureReconciliation_new (requested_of (ec_mode config)), MarkHealth_new))))"

text \<open>A rotation of the peers on a live connection translates under the connection's own policy.\<close>

definition update_peers :: "base64 \<Rightarrow> EngineMode \<Rightarrow> TunnelParams \<Rightarrow> (ProtocolError, PeerInfo list) res" where
  "update_peers b64 md params =
     and_then (translate_with_policy b64 params (key_policy md)) (\<lambda>translated. Ok (ic_peers translated))"

text \<open>
  What the agent is asked for is what the ledger opens with, the descriptor is handed over
  open, and the key is on board exactly when no cache will provide it.
\<close>

lemma engine_connect_composes:
  assumes "engine_connect b64 k config params = Ok (sp, ledger, health)"
  shows "case sp_mode sp of
      PLocalAgent ua av settings env dur \<Rightarrow> ledger = FeatureReconciliation_new (settings_from_protun settings)
    | PNoLocalAgent key \<Rightarrow> (\<exists>bs. key = Some bs \<and> length bs = 32)"
    "open_tun k = Ok (sp_fd sp)" "sp_mark sp = bypass_mark config"
proof -
  from assms obtain initial tun closed where
    initial: "translate_with_policy b64 params (key_policy (ec_mode config)) = Ok initial"
    and tun: "tun_create k (if_name config) = Ok tun"
    and raw: "into_raw_fd tun [] = Ok (sp_fd sp, closed)"
    and sp: "sp_mode sp = (case local_agent_mode (ec_mode config) of
        Some md \<Rightarrow> md | None \<Rightarrow> PNoLocalAgent (ic_wg_private_key initial))" "sp_mark sp = bypass_mark config"
    and ledger: "ledger = FeatureReconciliation_new (requested_of (ec_mode config))"
    by (auto simp: engine_connect_def res_simps split: prod.splits)
  show "open_tun k = Ok (sp_fd sp)"
    using tun raw by (auto simp: tun_create_def into_raw_fd_def relinquish_def res_simps split: if_splits)
  show "sp_mark sp = bypass_mark config" by (rule sp)
  show "case sp_mode sp of
      PLocalAgent ua av settings env dur \<Rightarrow> ledger = FeatureReconciliation_new (settings_from_protun settings)
    | PNoLocalAgent key \<Rightarrow> (\<exists>bs. key = Some bs \<and> length bs = 32)"
  proof (cases "ec_mode config")
    case NoLocalAgent
    with initial have "ic_wg_private_key initial \<noteq> None" "ic_wg_private_key initial = Some bs \<Longrightarrow> length bs = 32" for bs
      by (auto simp: key_policy_def translate_with_policy_def decode_client_key_def res_simps split: if_splits option.splits)
    with NoLocalAgent sp(1) show ?thesis by (auto simp: local_agent_mode_def)
  qed (simp add: sp(1) local_agent_mode_def ledger requested_of_def)
qed

end
