(* ===== verification/Proto_Engine_Runs.thy ===== *)
theory Proto_Engine_Runs
  imports Proto_Engine "HOL-Library.Sublist"
begin

text \<open>
  \<open>crates/protocol/src/engine.rs\<close>, second part: the live connection. ProTUN's connection
  thread runs the two callbacks; the daemon's threads read the queue, take the retained
  controls and change the settings. A run interleaves them at the locks and the atomics of
  the code; its labels are what the properties speak of. \<open>received\<close> and \<open>taken\<close> record what the
  consumer got, \<open>posted\<close> what ProTUN was sent.
\<close>

section \<open>Recovery slots\<close>

datatype ControlClass =
    ClassCertificateFatal
  | ClassForkSelector
  | ClassSettingRefused usize
  | ClassApiError
  | ClassApiErrorCredentialInvalid
  | ClassOther

primrec discriminant :: "EngineSettingType \<Rightarrow> usize" where
  "discriminant Netshield = 0"
| "discriminant Bouncing = 1"
| "discriminant PortForwarding = 2"
| "discriminant SplitTcp = 3"
| "discriminant SafeMode = 4"
| "discriminant RandomNat = 5"
| "discriminant CircumventionRouting = 6"

primrec critical_class :: "EngineEvent \<Rightarrow> ControlClass" where
  "critical_class CertificateFatal = ClassCertificateFatal"
| "critical_class ForkSelectorNeeded = ClassForkSelector"
| "critical_class (SettingRefused s _) = ClassSettingRefused (discriminant s)"
| "critical_class (ApiError _ _ invalid) = (if invalid then ClassApiErrorCredentialInvalid else ClassApiError)"
| "critical_class (State _) = ClassOther"
| "critical_class (Stats _) = ClassOther"
| "critical_class (AgentStats _) = ClassOther"

definition retain_critical :: "EngineEvent \<Rightarrow> EngineEvent list \<Rightarrow> EngineEvent list" where
  "retain_critical ev slot =
     (case position (\<lambda>existing. critical_class existing = critical_class ev) slot of
        Some i \<Rightarrow>
          if slot ! i = CertificateFatal then slot
          else if ev \<noteq> CertificateFatal then slot[i := ev]
          else slot
      | None \<Rightarrow> slot @ [ev])"

section \<open>The world\<close>

definition EVENT_CHANNEL_BOUND :: usize where
  "EVENT_CHANNEL_BOUND = 1024"

text \<open>Where the connection thread stands in a callback, with the epoch it loaded on entry.\<close>

datatype Pc =
    Idle
  | StateLedger u64 ProtunState
  | StateLatest EngineVpnState
  | EventLoop u64 "EngineEvent list"
  | ForwardSlot EngineEvent u64 "EngineEvent list"
  | ForwardSend EngineEvent u64 "EngineEvent list"
  | ForwardKeep EngineEvent u64 "EngineEvent list"

text \<open>Where \<open>update_agent_settings\<close> stands; it holds the ledger's lock until it has posted.\<close>

datatype Update = NoUpdate | Clearing EngineAgentSettings | Posting EngineAgentSettings

datatype Post =
    PostSettings LocalAgentSettings
  | PostPeers "PeerInfo list"
  | PostDisconnect
  | PostDisconnectAndWait

record EngineWorld =
  ledger :: FeatureReconciliation
  updating :: Update
  queue :: "EngineEvent list"
  receiver :: bool
  dropped_stats :: u64
  dropped_states :: u64
  controls_retained :: u64
  critical :: "EngineEvent list"
  latest_wg_stats :: "EngineStats option"
  latest_agent_stats :: "EngineAgentStats option"
  latest_state :: "EngineVpnState option"
  pc :: Pc
  posted :: "Post list"
  received :: "EngineEvent list"
  taken :: "EngineEvent list"

definition engine_world_new :: "EngineAgentSettings \<Rightarrow> EngineWorld" where
  "engine_world_new s =
     \<lparr>ledger = FeatureReconciliation_new s, updating = NoUpdate, queue = [], receiver = True, dropped_stats = 0,
      dropped_states = 0, controls_retained = 0, critical = [], latest_wg_stats = None, latest_agent_stats = None,
      latest_state = None, pc = Idle, posted = [], received = [], taken = []\<rparr>"

section \<open>The connection thread\<close>

definition on_state_changed :: "ProtunState \<Rightarrow> EngineWorld \<Rightarrow> EngineWorld" where
  "on_state_changed st w = w\<lparr>pc := StateLedger (fr_epoch (ledger w)) st\<rparr>"

definition on_event :: "ProtunEvent \<Rightarrow> EngineWorld \<Rightarrow> EngineWorld" where
  "on_event ev w = w\<lparr>pc := EventLoop (fr_epoch (ledger w)) (translate_event ev)\<rparr>"

definition state_ledger :: "u64 \<Rightarrow> ProtunState \<Rightarrow> FeatureReconciliation \<Rightarrow> FeatureReconciliation" where
  "state_ledger e st l =
     (case vs_connection st of
        PConnected _ (Some info) \<Rightarrow> note_applied (settings_from_protun (aci_settings info)) e l
      | _ \<Rightarrow> note_unconfirmed l)"

definition forward_slot :: "EngineEvent \<Rightarrow> EngineWorld \<Rightarrow> EngineWorld" where
  "forward_slot ev w =
     (case ev of
        Stats s \<Rightarrow> w\<lparr>latest_wg_stats := Some s\<rparr>
      | AgentStats s \<Rightarrow> w\<lparr>latest_agent_stats := Some s\<rparr>
      | _ \<Rightarrow> w)"

definition forward_send :: "EngineEvent \<Rightarrow> u64 \<Rightarrow> EngineEvent list \<Rightarrow> EngineWorld \<Rightarrow> EngineWorld" where
  "forward_send ev e evs w =
     (if \<not> receiver w then w\<lparr>pc := EventLoop e evs\<rparr>
      else if length (queue w) < EVENT_CHANNEL_BOUND then w\<lparr>queue := queue w @ [ev], pc := EventLoop e evs\<rparr>
      else case ev of
          Stats _ \<Rightarrow> w\<lparr>dropped_stats := wrapping_incr (dropped_stats w), pc := EventLoop e evs\<rparr>
        | AgentStats _ \<Rightarrow> w\<lparr>dropped_stats := wrapping_incr (dropped_stats w), pc := EventLoop e evs\<rparr>
        | State _ \<Rightarrow> w\<lparr>dropped_states := wrapping_incr (dropped_states w), pc := EventLoop e evs\<rparr>
        | _ \<Rightarrow> w\<lparr>pc := ForwardKeep ev e evs\<rparr>)"

definition forward_keep :: "EngineEvent \<Rightarrow> u64 \<Rightarrow> EngineEvent list \<Rightarrow> EngineWorld \<Rightarrow> EngineWorld" where
  "forward_keep ev e evs w =
     w\<lparr>critical := retain_critical ev (critical w), controls_retained := wrapping_incr (controls_retained w),
       pc := EventLoop e evs\<rparr>"

definition event_turn :: "u64 \<Rightarrow> EngineEvent \<Rightarrow> EngineEvent list \<Rightarrow> EngineWorld \<Rightarrow> EngineWorld option" where
  "event_turn e ev evs w =
     (case ev of
        SettingRefused s _ \<Rightarrow>
          if updating w \<noteq> NoUpdate then None
          else (case note_refused s e (ledger w) of (l, accepted) \<Rightarrow>
            Some (w\<lparr>ledger := l, pc := if accepted then ForwardSlot (SettingRefused s e) e evs else EventLoop e evs\<rparr>))
      | _ \<Rightarrow> Some (w\<lparr>pc := ForwardSlot ev e evs\<rparr>))"

text \<open>The next operation of the thread; \<open>None\<close> when it is idle or waits for the ledger's lock.\<close>

definition engine_thread :: "EngineWorld \<Rightarrow> EngineWorld option" where
  "engine_thread w =
     (case pc w of
        Idle \<Rightarrow> None
      | StateLedger e st \<Rightarrow>
          if updating w \<noteq> NoUpdate then None
          else Some (w\<lparr>ledger := state_ledger e st (ledger w), pc := StateLatest (translate_state st)\<rparr>)
      | StateLatest t \<Rightarrow> Some (w\<lparr>latest_state := Some t, pc := ForwardSlot (State t) 0 []\<rparr>)
      | EventLoop e evs \<Rightarrow> (case evs of [] \<Rightarrow> Some (w\<lparr>pc := Idle\<rparr>) | ev # evs \<Rightarrow> event_turn e ev evs w)
      | ForwardSlot ev e evs \<Rightarrow> Some ((forward_slot ev w)\<lparr>pc := ForwardSend ev e evs\<rparr>)
      | ForwardSend ev e evs \<Rightarrow> Some (forward_send ev e evs w)
      | ForwardKeep ev e evs \<Rightarrow> Some (forward_keep ev e evs w))"

section \<open>The handle\<close>

definition update_begin :: "EngineAgentSettings \<Rightarrow> EngineWorld \<Rightarrow> EngineWorld" where
  "update_begin s w = w\<lparr>ledger := note_requested s (ledger w), updating := Clearing s\<rparr>"

primrec is_refused :: "EngineEvent \<Rightarrow> bool" where
  "is_refused (SettingRefused _ _) = True"
| "is_refused (State _) = False"
| "is_refused (Stats _) = False"
| "is_refused (AgentStats _) = False"
| "is_refused ForkSelectorNeeded = False"
| "is_refused CertificateFatal = False"
| "is_refused (ApiError _ _ _) = False"

definition update_clear :: "EngineAgentSettings \<Rightarrow> EngineWorld \<Rightarrow> EngineWorld" where
  "update_clear s w = w\<lparr>critical := filter (\<lambda>ev. \<not> is_refused ev) (critical w), updating := Posting s\<rparr>"

definition update_post :: "EngineAgentSettings \<Rightarrow> EngineWorld \<Rightarrow> EngineWorld" where
  "update_post s w = w\<lparr>posted := posted w @ [PostSettings (settings_to_protun s)], updating := NoUpdate\<rparr>"

definition recv :: "EngineWorld \<Rightarrow> EngineWorld" where
  "recv w = (case queue w of ev # q \<Rightarrow> w\<lparr>queue := q, received := received w @ [ev]\<rparr> | [] \<Rightarrow> w)"

text \<open>A stable sort on \<open>false < true\<close>: the fatal last.\<close>

definition take_critical_events :: "EngineWorld \<Rightarrow> EngineEvent list \<times> EngineWorld" where
  "take_critical_events w =
     (let retained = filter (\<lambda>ev. ev \<noteq> CertificateFatal) (critical w) @ filter (\<lambda>ev. ev = CertificateFatal) (critical w) in
      (retained, w\<lparr>critical := [], taken := taken w @ retained\<rparr>))"

definition drop_connection :: "EngineWorld \<Rightarrow> EngineWorld" where
  "drop_connection w = w\<lparr>receiver := False, queue := [], posted := posted w @ [PostDisconnect]\<rparr>"

definition disconnect :: "EngineWorld \<Rightarrow> EngineWorld" where
  "disconnect w = drop_connection (w\<lparr>posted := posted w @ [PostDisconnectAndWait]\<rparr>)"

definition request_epoch :: "EngineWorld \<Rightarrow> u64" where
  "request_epoch w = fr_epoch (ledger w)"

section \<open>Runs\<close>

datatype run_label =
    Entered ProtunState
  | Judged ProtunState
  | Sent EngineEvent
  | Updated EngineAgentSettings
  | Cleared
  | Silent

definition thread_label :: "EngineWorld \<Rightarrow> run_label" where
  "thread_label w =
     (case pc w of StateLedger _ st \<Rightarrow> Judged st | ForwardSend ev _ _ \<Rightarrow> Sent ev | _ \<Rightarrow> Silent)"

inductive engine_run :: "EngineAgentSettings \<Rightarrow> run_label list \<Rightarrow> EngineWorld \<Rightarrow> bool" for s0 where
  start: "engine_run s0 [] (engine_world_new s0)"
| state_entry: "engine_run s0 tr w \<Longrightarrow> pc w = Idle \<Longrightarrow> engine_run s0 (tr @ [Entered st]) (on_state_changed st w)"
| event_entry: "engine_run s0 tr w \<Longrightarrow> pc w = Idle \<Longrightarrow> engine_run s0 (tr @ [Silent]) (on_event ev w)"
| thread: "engine_run s0 tr w \<Longrightarrow> engine_thread w = Some w' \<Longrightarrow> engine_run s0 (tr @ [thread_label w]) w'"
| begun: "engine_run s0 tr w \<Longrightarrow> updating w = NoUpdate \<Longrightarrow> receiver w \<Longrightarrow>
    engine_run s0 (tr @ [Updated s]) (update_begin s w)"
| cleared: "engine_run s0 tr w \<Longrightarrow> updating w = Clearing s \<Longrightarrow> engine_run s0 (tr @ [Cleared]) (update_clear s w)"
| post: "engine_run s0 tr w \<Longrightarrow> updating w = Posting s \<Longrightarrow> engine_run s0 (tr @ [Silent]) (update_post s w)"
| recv: "engine_run s0 tr w \<Longrightarrow> receiver w \<Longrightarrow> engine_run s0 (tr @ [Silent]) (recv w)"
| take_critical: "engine_run s0 tr w \<Longrightarrow> receiver w \<Longrightarrow> engine_run s0 (tr @ [Silent]) (snd (take_critical_events w))"
| dropped: "engine_run s0 tr w \<Longrightarrow> updating w = NoUpdate \<Longrightarrow> receiver w \<Longrightarrow>
    engine_run s0 (tr @ [Silent]) (drop_connection w)"
| disconnected: "engine_run s0 tr w \<Longrightarrow> updating w = NoUpdate \<Longrightarrow> receiver w \<Longrightarrow>
    engine_run s0 (tr @ [Silent]) (disconnect w)"

lemma engine_thread_elim [consumes 1, case_names judge latest_store loop_end refused forwarded slot send keep]:
  assumes "engine_thread w = Some w'"
  obtains
    e st where "pc w = StateLedger e st" "updating w = NoUpdate"
      "w' = w\<lparr>ledger := state_ledger e st (ledger w), pc := StateLatest (translate_state st)\<rparr>"
  | t where "pc w = StateLatest t" "w' = w\<lparr>latest_state := Some t, pc := ForwardSlot (State t) 0 []\<rparr>"
  | e where "pc w = EventLoop e []" "w' = w\<lparr>pc := Idle\<rparr>"
  | e s x evs where "pc w = EventLoop e (SettingRefused s x # evs)" "updating w = NoUpdate"
      "w' = w\<lparr>ledger := fst (note_refused s e (ledger w)),
        pc := if snd (note_refused s e (ledger w)) then ForwardSlot (SettingRefused s e) e evs else EventLoop e evs\<rparr>"
  | e ev evs where "pc w = EventLoop e (ev # evs)" "\<not> is_refused ev" "w' = w\<lparr>pc := ForwardSlot ev e evs\<rparr>"
  | ev e evs where "pc w = ForwardSlot ev e evs" "w' = (forward_slot ev w)\<lparr>pc := ForwardSend ev e evs\<rparr>"
  | ev e evs where "pc w = ForwardSend ev e evs" "w' = forward_send ev e evs w"
  | ev e evs where "pc w = ForwardKeep ev e evs" "w' = forward_keep ev e evs w"
proof (cases "pc w")
  case (EventLoop e evs)
  show thesis
  proof (cases evs)
    case Nil
    with EventLoop assms show thesis by (intro that(3)) (auto simp: engine_thread_def)
  next
    case (Cons ev rest)
    show thesis
    proof (cases "is_refused ev")
      case True
      then obtain s x where "ev = SettingRefused s x" by (cases ev) auto
      with EventLoop Cons assms show thesis
        by (intro that(4) [of e s x rest])
           (auto simp: engine_thread_def event_turn_def split: if_splits prod.splits)
    next
      case False
      with EventLoop Cons assms show thesis
        by (intro that(5) [of e ev rest]) (auto simp: engine_thread_def event_turn_def split: EngineEvent.splits)
    qed
  qed
next
  case Idle
  with assms show thesis by (simp add: engine_thread_def)
next
  case (StateLedger e st)
  with assms show thesis by (intro that(1) [of e st]) (auto simp: engine_thread_def split: if_splits)
next
  case (StateLatest t)
  with assms show thesis by (intro that(2) [of t]) (auto simp: engine_thread_def)
next
  case (ForwardSlot ev e evs)
  with assms show thesis by (intro that(6) [of ev e evs]) (auto simp: engine_thread_def)
next
  case (ForwardSend ev e evs)
  with assms show thesis by (intro that(7) [of ev e evs]) (auto simp: engine_thread_def)
next
  case (ForwardKeep ev e evs)
  with assms show thesis by (intro that(8) [of ev e evs]) (auto simp: engine_thread_def)
qed

section \<open>The ledger never reads clean on a stale answer\<close>

primrec is_update :: "run_label \<Rightarrow> bool" where
  "is_update (Entered _) = False"
| "is_update (Judged _) = False"
| "is_update (Sent _) = False"
| "is_update (Updated _) = True"
| "is_update Cleared = False"
| "is_update Silent = False"

primrec is_judged :: "run_label \<Rightarrow> bool" where
  "is_judged (Entered _) = False"
| "is_judged (Judged _) = True"
| "is_judged (Sent _) = False"
| "is_judged (Updated _) = False"
| "is_judged Cleared = False"
| "is_judged Silent = False"

definition updates :: "run_label list \<Rightarrow> nat" where
  "updates tr = length (filter is_update tr)"

definition undisturbed :: "run_label list \<Rightarrow> bool" where
  "undisturbed tr = list_all (\<lambda>l. \<not> is_update l \<and> \<not> is_judged l) tr"

fun last_request :: "EngineAgentSettings \<Rightarrow> run_label list \<Rightarrow> EngineAgentSettings" where
  "last_request s [] = s"
| "last_request s (l # tr) = last_request (case l of Updated s' \<Rightarrow> s' | _ \<Rightarrow> s) tr"

lemma last_request_snoc: "last_request s (tr @ [l]) = (case l of Updated s' \<Rightarrow> s' | _ \<Rightarrow> last_request s tr)"
  by (induction tr arbitrary: s) (simp_all split: run_label.split)

lemma trace_simps [simp]:
  "updates [] = 0" "updates (l # tr) = of_bool (is_update l) + updates tr" "updates (xs @ ys) = updates xs + updates ys"
  "undisturbed []" "undisturbed (l # tr) \<longleftrightarrow> \<not> is_update l \<and> \<not> is_judged l \<and> undisturbed tr"
  "undisturbed (xs @ ys) \<longleftrightarrow> undisturbed xs \<and> undisturbed ys"
  by (simp_all add: updates_def undisturbed_def)

text \<open>The applied set is the answer of a state that entered after the last update and was judged last.\<close>

definition answered :: "run_label list \<Rightarrow> EngineAgentSettings \<Rightarrow> bool" where
  "answered tr a \<longleftrightarrow>
     (\<exists>tr1 st tr2 tr3 peer info. tr = tr1 @ Entered st # tr2 @ Judged st # tr3 \<and> undisturbed tr2 \<and> undisturbed tr3 \<and>
        vs_connection st = PConnected peer (Some info) \<and> a = settings_from_protun (aci_settings info))"

definition entered :: "run_label list \<Rightarrow> ProtunState \<Rightarrow> u64 \<Rightarrow> bool" where
  "entered tr st e \<longleftrightarrow>
     (\<exists>tr1 tr2. tr = tr1 @ Entered st # tr2 \<and> e = updates tr1 mod 2 ^ 64 \<and> \<not> list_ex is_judged tr2)"

definition ledger_inv :: "EngineAgentSettings \<Rightarrow> run_label list \<Rightarrow> EngineWorld \<Rightarrow> bool" where
  "ledger_inv s0 tr w \<longleftrightarrow>
     fr_epoch (ledger w) = updates tr mod 2 ^ 64 \<and> fr_requested (ledger w) = last_request s0 tr \<and>
     (\<forall>a. fr_applied (ledger w) = Some a \<longrightarrow> answered tr a) \<and>
     (\<forall>e st. pc w = StateLedger e st \<longrightarrow> entered tr st e \<and> (e \<noteq> fr_epoch (ledger w) \<longrightarrow> fr_applied (ledger w) = None))"

lemma answered_snoc: "answered tr a \<Longrightarrow> \<not> is_update l \<Longrightarrow> \<not> is_judged l \<Longrightarrow> answered (tr @ [l]) a"
proof -
  assume "answered tr a" and l: "\<not> is_update l" "\<not> is_judged l"
  then obtain tr1 st tr2 tr3 peer info where "tr = tr1 @ Entered st # tr2 @ Judged st # tr3" "undisturbed tr2" "undisturbed tr3"
    "vs_connection st = PConnected peer (Some info)" "a = settings_from_protun (aci_settings info)"
    unfolding answered_def by blast
  with l show ?thesis unfolding answered_def
    by (intro exI [of _ tr1] exI [of _ st] exI [of _ tr2] exI [of _ "tr3 @ [l]"] exI [of _ peer] exI [of _ info]) simp
qed

lemma entered_snoc: "entered tr st e \<Longrightarrow> \<not> is_judged l \<Longrightarrow> entered (tr @ [l]) st e"
proof -
  assume "entered tr st e" and l: "\<not> is_judged l"
  then obtain tr1 tr2 where "tr = tr1 @ Entered st # tr2" "e = updates tr1 mod 2 ^ 64" "\<not> list_ex is_judged tr2"
    unfolding entered_def by blast
  with l show ?thesis unfolding entered_def by (intro exI [of _ tr1] exI [of _ "tr2 @ [l]"]) simp
qed

lemma ledger_inv_frame:
  assumes "ledger_inv s0 tr w" "\<not> is_update l" "\<not> is_judged l"
    "fr_epoch (ledger w') = fr_epoch (ledger w)" "fr_requested (ledger w') = fr_requested (ledger w)"
    "fr_applied (ledger w') = fr_applied (ledger w)"
    "pc w' = pc w \<or> (\<forall>e st. pc w' \<noteq> StateLedger e st)"
  shows "ledger_inv s0 (tr @ [l]) w'"
proof -
  have "last_request s0 (tr @ [l]) = last_request s0 tr" using assms(2) by (cases l) (simp_all add: last_request_snoc)
  with assms show ?thesis by (auto simp: ledger_inv_def answered_snoc entered_snoc)
qed

lemma judged_answers:
  assumes "entered tr st (updates tr mod 2 ^ 64)" "updates tr < 2 ^ 64" "vs_connection st = PConnected peer (Some info)"
  shows "answered (tr @ [Judged st]) (settings_from_protun (aci_settings info))"
proof -
  obtain tr1 tr2 where tr: "tr = tr1 @ Entered st # tr2" "updates tr mod 2 ^ 64 = updates tr1 mod 2 ^ 64" "\<not> list_ex is_judged tr2"
    using assms(1) unfolding entered_def by blast
  then have "updates tr2 = 0" using assms(2) by simp
  then have "undisturbed tr2" using tr(3) by (auto simp: undisturbed_def updates_def list_all_iff list_ex_iff filter_empty_conv)
  with tr(1) assms(3) show ?thesis
    unfolding answered_def
    by (intro exI [of _ tr1] exI [of _ st] exI [of _ tr2] exI [of _ "[]"] exI [of _ peer] exI [of _ info]) simp
qed

lemma judge_inv:
  assumes "ledger_inv s0 tr w" "updates tr < 2 ^ 64" "pc w = StateLedger e st"
  shows "ledger_inv s0 (tr @ [Judged st]) (w\<lparr>ledger := state_ledger e st (ledger w), pc := StateLatest t\<rparr>)"
proof (cases "\<exists>peer info. vs_connection st = PConnected peer (Some info)")
  case True
  then obtain peer info where c: "vs_connection st = PConnected peer (Some info)" by blast
  have "entered tr st e" "e \<noteq> fr_epoch (ledger w) \<longrightarrow> fr_applied (ledger w) = None"
    using assms(1,3) by (simp_all add: ledger_inv_def)
  moreover have "fr_epoch (ledger w) = updates tr mod 2 ^ 64" using assms(1) by (simp add: ledger_inv_def)
  ultimately show ?thesis
    using assms(1) judged_answers [OF _ assms(2) c] by (auto simp: ledger_inv_def state_ledger_def c note_applied_def last_request_snoc)
next
  case False
  then have "state_ledger e st (ledger w) = note_unconfirmed (ledger w)"
    by (auto simp: state_ledger_def split: ConnectionState.splits option.splits)
  with assms(1) show ?thesis by (auto simp: ledger_inv_def note_unconfirmed_def last_request_snoc)
qed

lemma forward_slot_keeps [simp]:
  "ledger (forward_slot ev w) = ledger w" "queue (forward_slot ev w) = queue w" "receiver (forward_slot ev w) = receiver w"
  "critical (forward_slot ev w) = critical w" "received (forward_slot ev w) = received w" "taken (forward_slot ev w) = taken w"
  "updating (forward_slot ev w) = updating w" "dropped_stats (forward_slot ev w) = dropped_stats w"
  "dropped_states (forward_slot ev w) = dropped_states w" "controls_retained (forward_slot ev w) = controls_retained w"
  by (simp_all add: forward_slot_def split: EngineEvent.split)

lemma forward_send_keeps [simp]:
  "ledger (forward_send ev e evs w) = ledger w" "critical (forward_send ev e evs w) = critical w"
  "receiver (forward_send ev e evs w) = receiver w" "received (forward_send ev e evs w) = received w"
  "taken (forward_send ev e evs w) = taken w" "updating (forward_send ev e evs w) = updating w"
  by (simp_all add: forward_send_def split: EngineEvent.split)

lemma forward_send_pc: "pc (forward_send ev e evs w) = EventLoop e evs \<or> pc (forward_send ev e evs w) = ForwardKeep ev e evs"
  by (simp add: forward_send_def split: EngineEvent.split)

lemma thread_ledger_inv:
  assumes "ledger_inv s0 tr w" "updates tr < 2 ^ 64" "engine_thread w = Some w'"
  shows "ledger_inv s0 (tr @ [thread_label w]) w'"
  using assms(3)
proof (cases rule: engine_thread_elim)
  case (judge e st)
  then show ?thesis using judge_inv [OF assms(1,2) judge(1)] by (simp add: thread_label_def)
next
  case (refused e s x evs)
  show ?thesis
    by (rule ledger_inv_frame [OF assms(1)]) (simp_all add: refused thread_label_def note_refused_def)
next
  case (send ev e evs)
  then show ?thesis using forward_send_pc [of ev e evs w]
    by (intro ledger_inv_frame [OF assms(1)]) (auto simp: thread_label_def)
qed (rule ledger_inv_frame [OF assms(1)]; simp add: thread_label_def forward_keep_def)+

lemma wrapping_incr_mod: "wrapping_incr (n mod 2 ^ 64) = Suc n mod 2 ^ 64"
  by (simp add: wrapping_incr_def u64_max_def mod_Suc)

lemma engine_run_ledger: "engine_run s0 tr w \<Longrightarrow> updates tr < 2 ^ 64 \<Longrightarrow> ledger_inv s0 tr w"
proof (induction rule: engine_run.induct)
  case start
  show ?case by (simp add: ledger_inv_def engine_world_new_def FeatureReconciliation_new_def)
next
  case (state_entry tr w st)
  then have inv: "ledger_inv s0 tr w" by simp
  have "entered (tr @ [Entered st]) st (updates tr mod 2 ^ 64)"
    unfolding entered_def by (intro exI [of _ tr] exI [of _ "[]"]) simp
  with inv state_entry.prems show ?case
    by (auto simp: ledger_inv_def on_state_changed_def last_request_snoc answered_snoc)
next
  case (thread tr w w')
  then show ?case using thread_ledger_inv by simp
next
  case (begun tr w s)
  then have inv: "ledger_inv s0 tr w" by simp
  have "entered (tr @ [Updated s]) st e" if "pc w = StateLedger e st" for e st
    using inv that by (intro entered_snoc) (simp_all add: ledger_inv_def)
  with inv show ?case using wrapping_incr_mod [of "updates tr"]
    by (simp add: ledger_inv_def update_begin_def note_requested_def last_request_snoc)
qed (simp, erule ledger_inv_frame; simp add: on_event_def update_clear_def update_post_def recv_def take_critical_events_def
    drop_connection_def disconnect_def Let_def split: list.split)+

text \<open>
  C19. The table of features is never clean on the strength of a stale answer. When it has no
  divergence and some setting is requested, then the last state that was judged is a
  confirmed connection whose report gives every requested setting the requested value, its
  callback began after the last change of the request, and the request is that last change,
  whatever the interleaving of callbacks, updates and consumers.
\<close>

theorem never_falsely_clean:
  assumes "engine_run s0 tr w" "updates tr < 2 ^ 64" "divergences (ledger w) = []"
    "value_of s (last_request s0 tr) = Some v"
  shows "\<exists>tr1 st tr2 tr3 peer info. tr = tr1 @ Entered st # tr2 @ Judged st # tr3 \<and> undisturbed tr2 \<and> undisturbed tr3 \<and>
    vs_connection st = PConnected peer (Some info) \<and>
    agreed (last_request s0 tr) (settings_from_protun (aci_settings info))"
proof -
  have inv: "ledger_inv s0 tr w" by (rule engine_run_ledger [OF assms(1,2)])
  then have req: "fr_requested (ledger w) = last_request s0 tr" by (simp add: ledger_inv_def)
  have all: "applied_value (ledger w) s' = Some v'" if "value_of s' (last_request s0 tr) = Some v'" for s' v'
    using assms(3) that req by (simp add: divergences_Nil_iff)
  obtain a where a: "fr_applied (ledger w) = Some a"
    using all [OF assms(4)] by (auto simp: applied_value_def split: option.splits)
  have "agreed (last_request s0 tr) a"
    unfolding agreed_def using all by (simp add: applied_value_def a)
  moreover have "answered tr a" using inv a by (simp add: ledger_inv_def)
  ultimately show ?thesis unfolding answered_def by blast
qed

definition demo_features :: EngineAgentSettings where
  "demo_features = EngineAgentSettings_default\<lparr>split_tcp := Some True\<rparr>"

definition demo_connected :: ProtunState where
  "demo_connected =
     \<lparr>vs_interface = IfUp None,
      vs_connection = PConnected
        \<lparr>pci_peer_id = ''uk-42'', pci_entry_ip = IpV4 [10, 0, 0, 1], pci_protocol = PWireguardUdp, pci_port = 51820\<rparr>
        (Some \<lparr>aci_exit_v4 = None, aci_exit_v6 = None, aci_mtu = None, aci_groups = [], aci_restrictions = [],
               aci_settings = settings_to_protun demo_features\<rparr>)\<rparr>"

definition demo_updated :: EngineWorld where
  "demo_updated = update_post demo_features (update_clear demo_features
     (update_begin demo_features (engine_world_new EngineAgentSettings_default)))"

definition demo_judged :: EngineWorld where
  "demo_judged = (on_state_changed demo_connected demo_updated)
     \<lparr>ledger := state_ledger 1 demo_connected (ledger demo_updated), pc := StateLatest (translate_state demo_connected)\<rparr>"

definition demo_trace :: "run_label list" where
  "demo_trace = [Updated demo_features, Cleared, Silent, Entered demo_connected, Judged demo_connected]"

lemma demo_updated_run:
  "engine_run EngineAgentSettings_default ([] @ [Updated demo_features] @ [Cleared] @ [Silent]) demo_updated"
  unfolding demo_updated_def append_assoc [symmetric]
  by (intro engine_run.post engine_run.cleared engine_run.begun engine_run.start)
     (simp_all add: engine_world_new_def update_begin_def update_clear_def)

lemma demo_updated_fields:
  "pc demo_updated = Idle" "updating demo_updated = NoUpdate"
  "ledger demo_updated = \<lparr>fr_requested = demo_features, fr_applied = None, fr_refused = [], fr_epoch = 1\<rparr>"
  by (simp_all add: demo_updated_def engine_world_new_def update_begin_def update_clear_def update_post_def
      note_requested_def FeatureReconciliation_new_def wrapping_incr_def u64_max_def)

lemma demo_judged_run: "engine_run EngineAgentSettings_default demo_trace demo_judged"
proof -
  let ?w = "on_state_changed demo_connected demo_updated"
  have "engine_run EngineAgentSettings_default (([] @ [Updated demo_features] @ [Cleared] @ [Silent]) @ [Entered demo_connected]) ?w"
    by (rule engine_run.state_entry [OF demo_updated_run]) (simp add: demo_updated_fields)
  moreover have "engine_thread ?w = Some demo_judged"
    by (simp add: engine_thread_def on_state_changed_def demo_updated_fields demo_judged_def)
  ultimately have "engine_run EngineAgentSettings_default
      ((([] @ [Updated demo_features] @ [Cleared] @ [Silent]) @ [Entered demo_connected]) @ [thread_label ?w]) demo_judged"
    by (rule engine_run.thread)
  then show ?thesis by (simp add: demo_trace_def thread_label_def on_state_changed_def)
qed

theorem never_falsely_clean_witness:
  "divergences (ledger demo_judged) = [] \<and>
   (\<exists>tr1 st tr2 tr3 peer info. demo_trace = tr1 @ Entered st # tr2 @ Judged st # tr3 \<and> undisturbed tr2 \<and> undisturbed tr3 \<and>
      vs_connection st = PConnected peer (Some info) \<and>
      agreed demo_features (settings_from_protun (aci_settings info)))"
proof -
  have clean: "divergences (ledger demo_judged) = []"
    by (simp add: divergences_Nil_iff demo_judged_def demo_updated_fields state_ledger_def demo_connected_def note_applied_def
        applied_value_def on_state_changed_def)
  have last: "last_request EngineAgentSettings_default demo_trace = demo_features" by (simp add: demo_trace_def)
  have "value_of SplitTcp (last_request EngineAgentSettings_default demo_trace) = Some (Flag True)"
    by (simp add: last demo_features_def)
  from never_falsely_clean [OF demo_judged_run _ clean this] show ?thesis
    using clean by (simp add: last) (simp add: demo_trace_def)
qed

end
