(* ===== verification/Proto_Engine_Queue.thy ===== *)
theory Proto_Engine_Queue
  imports Proto_Engine_Runs
begin

text \<open>
  What the bounded event queue of \<open>engine.rs\<close> loses and what it does not: the controls are
  delivered or retained, every drop is counted, and the connection thread never waits for
  the consumer.
\<close>

section \<open>Controls\<close>

primrec is_state :: "EngineEvent \<Rightarrow> bool" where
  "is_state (SettingRefused _ _) = False"
| "is_state (State _) = True"
| "is_state (Stats _) = False"
| "is_state (AgentStats _) = False"
| "is_state ForkSelectorNeeded = False"
| "is_state CertificateFatal = False"
| "is_state (ApiError _ _ _) = False"

primrec is_stats :: "EngineEvent \<Rightarrow> bool" where
  "is_stats (SettingRefused _ _) = False"
| "is_stats (State _) = False"
| "is_stats (Stats _) = True"
| "is_stats (AgentStats _) = True"
| "is_stats ForkSelectorNeeded = False"
| "is_stats CertificateFatal = False"
| "is_stats (ApiError _ _ _) = False"

definition is_control_event :: "EngineEvent \<Rightarrow> bool" where
  "is_control_event ev \<longleftrightarrow> \<not> is_state ev \<and> \<not> is_stats ev"

lemma retain_critical_member: "ev \<in> set (retain_critical ev slot)"
proof (cases "position (\<lambda>x. critical_class x = critical_class ev) slot")
  case (Some i)
  then have i: "i < length slot" "critical_class (slot ! i) = critical_class ev" using position_Some by blast+
  have fatal: "critical_class x = ClassCertificateFatal \<longleftrightarrow> x = CertificateFatal" for x by (cases x) simp_all
  then have "slot ! i = CertificateFatal \<longleftrightarrow> ev = CertificateFatal" using i(2) by metis
  then show ?thesis using Some nth_mem [OF i(1)] by (cases "ev = CertificateFatal") (simp_all add: retain_critical_def set_update_memI i(1))
qed (simp add: retain_critical_def)

lemma retain_critical_others:
  assumes "x \<in> set slot" "critical_class x \<noteq> critical_class ev"
  shows "x \<in> set (retain_critical ev slot)"
proof (cases "position (\<lambda>x. critical_class x = critical_class ev) slot")
  case (Some i)
  then have i: "i < length slot" "critical_class (slot ! i) = critical_class ev" using position_Some by blast+
  obtain j where j: "j < length slot" "slot ! j = x" using assms(1) by (auto simp: in_set_conv_nth)
  then have "i \<noteq> j" using i(2) assms(2) by auto
  then have "slot[i := ev] ! j = x" "j < length (slot[i := ev])" using j by simp_all
  then have "x \<in> set (slot[i := ev])" by (metis nth_mem)
  with Some assms(1) show ?thesis by (simp add: retain_critical_def)
qed (use assms in \<open>simp add: retain_critical_def\<close>)

text \<open>Where an event is, once it has been sent.\<close>

definition landed :: "EngineWorld \<Rightarrow> EngineEvent \<Rightarrow> bool" where
  "landed w ev \<longleftrightarrow> ev \<in> set (received w) \<union> set (queue w) \<union> set (critical w) \<union> set (taken w)"

primrec sends_class :: "ControlClass \<Rightarrow> run_label \<Rightarrow> bool" where
  "sends_class c (Entered _) = False"
| "sends_class c (Judged _) = False"
| "sends_class c (Sent ev) = (critical_class ev = c)"
| "sends_class c (Updated _) = False"
| "sends_class c Cleared = False"
| "sends_class c Silent = False"

definition event_settled :: "run_label list \<Rightarrow> EngineWorld \<Rightarrow> EngineEvent \<Rightarrow> bool" where
  "event_settled later w ev \<longleftrightarrow> landed w ev \<or> list_ex (sends_class (critical_class ev)) later \<or> is_refused ev \<and> Cleared \<in> set later"

definition last_sent :: "run_label list \<Rightarrow> EngineEvent \<Rightarrow> bool" where
  "last_sent tr ev \<longleftrightarrow> (\<exists>tr1 tr2. tr = tr1 @ Sent ev # tr2 \<and> (\<forall>ev'. Sent ev' \<notin> set tr2))"

definition controls_inv :: "run_label list \<Rightarrow> EngineWorld \<Rightarrow> bool" where
  "controls_inv tr w \<longleftrightarrow>
     (\<forall>ev e evs. pc w = ForwardKeep ev e evs \<longrightarrow> last_sent tr ev \<and> is_control_event ev) \<and>
     (receiver w \<longrightarrow> (\<forall>tr1 ev tr2. tr = tr1 @ Sent ev # tr2 \<and> is_control_event ev \<longrightarrow>
        event_settled tr2 w ev \<or> (\<exists>e evs. pc w = ForwardKeep ev e evs)))"

lemma settled_snoc:
  assumes "event_settled tr2 w ev" "landed w ev \<Longrightarrow> landed w' ev \<or> sends_class (critical_class ev) l \<or> is_refused ev \<and> l = Cleared"
  shows "event_settled (tr2 @ [l]) w' ev"
  using assms by (auto simp: event_settled_def)

lemma snoc_sent_cases:
  assumes "tr @ [l] = tr1 @ Sent ev # tr2"
  obtains "l = Sent ev" "tr2 = []" | tr2' where "tr = tr1 @ Sent ev # tr2'" "tr2 = tr2' @ [l]"
proof (cases tr2 rule: rev_cases)
  case Nil
  with assms that(1) show thesis by simp
next
  case (snoc ys y)
  with assms that(2) [of ys] show thesis by (simp flip: append_assoc append_Cons)
qed

lemma last_sent_snoc: "last_sent tr ev \<Longrightarrow> (\<And>ev'. l \<noteq> Sent ev') \<Longrightarrow> last_sent (tr @ [l]) ev"
proof -
  assume "last_sent tr ev" and l: "\<And>ev'. l \<noteq> Sent ev'"
  then obtain tr1 tr2 where tr: "tr = tr1 @ Sent ev # tr2" "\<forall>ev'. Sent ev' \<notin> set tr2" unfolding last_sent_def by blast
  then have "Sent ev' \<notin> set (tr2 @ [l])" for ev' using l [of ev'] by auto
  with tr(1) show ?thesis unfolding last_sent_def by (intro exI [of _ tr1] exI [of _ "tr2 @ [l]"]) simp
qed

text \<open>A step that sends nothing keeps the invariant when nothing that landed is lost.\<close>

lemma controls_frame:
  assumes "controls_inv tr w" "\<And>ev. l \<noteq> Sent ev" "receiver w' \<Longrightarrow> receiver w"
    "pc w' = pc w \<or> (\<forall>ev e evs. pc w' \<noteq> ForwardKeep ev e evs \<and> pc w \<noteq> ForwardKeep ev e evs)"
    "\<And>ev. receiver w' \<Longrightarrow> landed w ev \<Longrightarrow> landed w' ev \<or> is_refused ev \<and> l = Cleared"
  shows "controls_inv (tr @ [l]) w'"
  unfolding controls_inv_def
proof (intro conjI allI impI)
  fix ev e evs assume "pc w' = ForwardKeep ev e evs"
  then have "pc w = ForwardKeep ev e evs" using assms(4) by auto
  then show "last_sent (tr @ [l]) ev" "is_control_event ev"
    using assms(1) last_sent_snoc [OF _ assms(2), of tr ev] by (auto simp: controls_inv_def)
next
  fix tr1 ev tr2
  assume r: "receiver w'" and "tr @ [l] = tr1 @ Sent ev # tr2 \<and> is_control_event ev"
  then have eq: "tr @ [l] = tr1 @ Sent ev # tr2" and ctl: "is_control_event ev" by auto
  from eq assms(2) obtain tr2' where tr: "tr = tr1 @ Sent ev # tr2'" "tr2 = tr2' @ [l]" by (metis snoc_sent_cases)
  have "event_settled tr2' w ev \<or> (\<exists>e evs. pc w = ForwardKeep ev e evs)"
    using assms(1,3) r tr(1) ctl by (auto simp: controls_inv_def)
  then show "event_settled tr2 w' ev \<or> (\<exists>e evs. pc w' = ForwardKeep ev e evs)"
    using assms(4) assms(5) [OF r] settled_snoc [of tr2' w ev w' l] unfolding tr(2) by auto
qed

lemma controls_keep:
  assumes "controls_inv tr w" "pc w = ForwardKeep k e evs"
  shows "controls_inv (tr @ [Silent]) (forward_keep k e evs w)"
  unfolding controls_inv_def
proof (intro conjI allI impI)
  fix tr1 ev tr2
  assume r: "receiver (forward_keep k e evs w)" and "tr @ [Silent] = tr1 @ Sent ev # tr2 \<and> is_control_event ev"
  then have eq: "tr @ [Silent] = tr1 @ Sent ev # tr2" and ctl: "is_control_event ev" by auto
  from eq obtain tr2' where tr: "tr = tr1 @ Sent ev # tr2'" "tr2 = tr2' @ [Silent]" by (rule snoc_sent_cases) simp
  have k: "landed (forward_keep k e evs w) k" by (simp add: landed_def forward_keep_def retain_critical_member)
  obtain ta tb where last: "tr = ta @ Sent k # tb" "\<forall>ev'. Sent ev' \<notin> set tb"
    using assms unfolding controls_inv_def last_sent_def by blast
  have "event_settled tr2' w ev \<or> ev = k"
    using assms tr(1) ctl r by (auto simp: controls_inv_def forward_keep_def)
  moreover have "landed (forward_keep k e evs w) ev \<or> sends_class (critical_class ev) (Sent k)" if "landed w ev"
    using that retain_critical_others [of ev "critical w" k] by (auto simp: landed_def forward_keep_def)
  moreover have "ev = k \<or> Sent k \<in> set tr2'"
    using tr(1) last by (auto simp: append_eq_append_conv2 append_eq_Cons_conv Cons_eq_append_conv)
  moreover have "list_ex (sends_class (critical_class ev)) tr2'" if "Sent k \<in> set tr2'" "critical_class k = critical_class ev"
    unfolding list_ex_iff using that by (intro bexI [of _ "Sent k"]) simp_all
  ultimately show "event_settled tr2 (forward_keep k e evs w) ev \<or> (\<exists>e' evs'. pc (forward_keep k e evs w) = ForwardKeep ev e' evs')"
    using k unfolding tr(2) event_settled_def by auto
qed (simp_all add: forward_keep_def)

lemma landed_sent:
  assumes "receiver w" "is_control_event ev"
  shows "landed (forward_send ev e evs w) ev \<or> pc (forward_send ev e evs w) = ForwardKeep ev e evs"
  using assms by (cases ev) (simp_all add: forward_send_def landed_def is_control_event_def)

lemma landed_send_mono: "landed w x \<Longrightarrow> landed (forward_send ev e evs w) x"
  by (auto simp: forward_send_def landed_def split: EngineEvent.split)

lemma controls_send:
  assumes "controls_inv tr w" "pc w = ForwardSend ev e evs"
  shows "controls_inv (tr @ [Sent ev]) (forward_send ev e evs w)"
  unfolding controls_inv_def
proof (intro conjI allI impI)
  fix k e' evs' assume k: "pc (forward_send ev e evs w) = ForwardKeep k e' evs'"
  then have "k = ev" using forward_send_pc [of ev e evs w] by auto
  then show "last_sent (tr @ [Sent ev]) k" unfolding last_sent_def by (intro exI [of _ tr] exI [of _ "[]"]) simp
  show "is_control_event k" using k \<open>k = ev\<close> by (cases ev) (auto simp: forward_send_def is_control_event_def split: if_splits)
next
  fix tr1 x tr2
  assume r: "receiver (forward_send ev e evs w)" and "tr @ [Sent ev] = tr1 @ Sent x # tr2 \<and> is_control_event x"
  then have eq: "tr @ [Sent ev] = tr1 @ Sent x # tr2" and ctl: "is_control_event x" by auto
  from eq show "event_settled tr2 (forward_send ev e evs w) x \<or> (\<exists>e' evs'. pc (forward_send ev e evs w) = ForwardKeep x e' evs')"
  proof (cases rule: snoc_sent_cases)
    case 1
    then show ?thesis using landed_sent [of w x e evs] r ctl by (auto simp: event_settled_def)
  next
    case (2 tr2')
    then have "event_settled tr2' w x" using assms r ctl by (auto simp: controls_inv_def)
    then show ?thesis unfolding 2(2) using settled_snoc landed_send_mono by blast
  qed
qed

lemma landed_simps [simp]:
  "landed (w\<lparr>pc := p\<rparr>) ev = landed w ev" "landed (w\<lparr>ledger := l\<rparr>) ev = landed w ev"
  "landed (w\<lparr>latest_state := s\<rparr>) ev = landed w ev" "landed (w\<lparr>updating := u\<rparr>) ev = landed w ev"
  "landed (w\<lparr>posted := ps\<rparr>) ev = landed w ev" "landed (forward_slot x w) ev = landed w ev"
  by (simp_all add: landed_def)

lemma landed_handle:
  "landed w ev \<Longrightarrow> landed (recv w) ev" "landed w ev \<Longrightarrow> landed (snd (take_critical_events w)) ev"
  "landed w ev \<Longrightarrow> landed (update_clear s w) ev \<or> is_refused ev"
  by (auto simp: landed_def recv_def take_critical_events_def update_clear_def Let_def split: list.splits)

lemma thread_controls_inv:
  assumes "controls_inv tr w" "engine_thread w = Some w'"
  shows "controls_inv (tr @ [thread_label w]) w'"
  using assms(2)
proof (cases rule: engine_thread_elim)
  case (send ev e evs)
  then show ?thesis using controls_send [OF assms(1)] by (simp add: thread_label_def)
next
  case (keep ev e evs)
  then show ?thesis using controls_keep [OF assms(1)] by (simp add: thread_label_def)
qed (rule controls_frame [OF assms(1)]; simp add: thread_label_def)+

lemma engine_run_controls: "engine_run s0 tr w \<Longrightarrow> controls_inv tr w"
proof (induction rule: engine_run.induct)
  case start
  show ?case by (simp add: controls_inv_def engine_world_new_def)
next
  case (thread tr w w')
  then show ?case using thread_controls_inv by simp
next
  case (cleared tr w s)
  then show ?case by (intro controls_frame [OF cleared.IH]) (use landed_handle(3) in \<open>auto simp: update_clear_def\<close>)
next
  case (recv tr w)
  show ?case
    by (rule controls_frame [OF recv.IH]) (use recv landed_handle(1) in \<open>auto simp: recv_def split: list.splits\<close>)
next
  case (take_critical tr w)
  show ?case
    by (rule controls_frame [OF take_critical.IH])
       (use take_critical landed_handle(2) in \<open>auto simp: take_critical_events_def Let_def\<close>)
qed (erule controls_frame; simp add: on_state_changed_def on_event_def update_begin_def update_post_def
    drop_connection_def disconnect_def)+

text \<open>
  C28. No control event is lost to a full queue. Whatever the consumer does, every certificate
  failure, fork request, refusal and API error that was sent is in the queue, in the
  recovery slot, or with the consumer, or is being put into the slot; the only ones that go
  are an older event of a class of which a newer one was sent, and a refusal that a change of
  the settings cleared.
\<close>

theorem controls_never_lost:
  assumes "engine_run s0 (tr1 @ Sent ev # tr2) w" "receiver w" "is_control_event ev"
    "\<And>e evs. pc w \<noteq> ForwardKeep ev e evs"
  shows "ev \<in> set (received w) \<union> set (queue w) \<union> set (critical w) \<union> set (taken w) \<or>
    (\<exists>ev'. Sent ev' \<in> set tr2 \<and> critical_class ev' = critical_class ev) \<or>
    is_refused ev \<and> Cleared \<in> set tr2"
proof -
  have "event_settled tr2 w ev"
    using engine_run_controls [OF assms(1)] assms(2-4) unfolding controls_inv_def by blast
  moreover have "\<exists>ev'. l = Sent ev' \<and> critical_class ev' = c" if "sends_class c l" for c l
    using that by (cases l) simp_all
  ultimately show ?thesis by (auto simp: event_settled_def landed_def list_ex_iff)
qed

section \<open>Accounting\<close>

primrec sent_of :: "run_label \<Rightarrow> EngineEvent list" where
  "sent_of (Entered _) = []"
| "sent_of (Judged _) = []"
| "sent_of (Sent ev) = [ev]"
| "sent_of (Updated _) = []"
| "sent_of Cleared = []"
| "sent_of Silent = []"

definition sent_events :: "run_label list \<Rightarrow> EngineEvent list" where
  "sent_events tr = concat (map sent_of tr)"

definition delivered :: "EngineWorld \<Rightarrow> EngineEvent list" where
  "delivered w = received w @ queue w"

definition number :: "('a \<Rightarrow> bool) \<Rightarrow> 'a list \<Rightarrow> nat" where
  "number P xs = length (filter P xs)"

definition keeping :: "EngineWorld \<Rightarrow> bool" where
  "keeping w = (case pc w of ForwardKeep _ _ _ \<Rightarrow> True | _ \<Rightarrow> False)"

definition counted :: "(EngineEvent \<Rightarrow> bool) \<Rightarrow> u64 \<Rightarrow> nat \<Rightarrow> run_label list \<Rightarrow> EngineWorld \<Rightarrow> bool" where
  "counted P c extra tr w \<longleftrightarrow>
     (\<exists>n. c = n mod 2 ^ 64 \<and> number P (sent_events tr) = number P (delivered w) + n + extra)"

definition queue_inv :: "run_label list \<Rightarrow> EngineWorld \<Rightarrow> bool" where
  "queue_inv tr w \<longleftrightarrow>
     length (queue w) \<le> EVENT_CHANNEL_BOUND \<and>
     (receiver w \<longrightarrow> subseq (delivered w) (sent_events tr) \<and>
        counted is_state (dropped_states w) 0 tr w \<and> counted is_stats (dropped_stats w) 0 tr w \<and>
        counted is_control_event (controls_retained w) (of_bool (keeping w)) tr w)"

lemma sent_events_simps [simp]:
  "sent_events [] = []" "sent_events (xs @ ys) = sent_events xs @ sent_events ys" "sent_events (l # tr) = sent_of l @ sent_events tr"
  by (simp_all add: sent_events_def)

lemma number_simps [simp]:
  "number P [] = 0" "number P (x # xs) = of_bool (P x) + number P xs" "number P (xs @ ys) = number P xs + number P ys"
  by (simp_all add: number_def)

lemma counted_incr: "counted P c m tr w \<Longrightarrow> number P (sent_events tr') + m = number P (sent_events tr) + Suc m' \<Longrightarrow> delivered w' = delivered w \<Longrightarrow>
  counted P (wrapping_incr c) m' tr' w'"
proof -
  assume "counted P c m tr w" and s: "number P (sent_events tr') + m = number P (sent_events tr) + Suc m'" "delivered w' = delivered w"
  then obtain n where "c = n mod 2 ^ 64" "number P (sent_events tr) = number P (delivered w) + n + m"
    by (auto simp: counted_def)
  then have "wrapping_incr c = Suc n mod 2 ^ 64" "number P (sent_events tr') = number P (delivered w') + Suc n + m'"
    using s wrapping_incr_mod [of n] by simp_all
  then show ?thesis unfolding counted_def by blast
qed

lemma counted_frame:
  "counted P c m tr w \<Longrightarrow> number P (sent_events tr') + number P (delivered w) + m = number P (sent_events tr) + number P (delivered w') + m' \<Longrightarrow>
   counted P c m' tr' w'"
  by (auto simp: counted_def)

lemma queue_frame:
  assumes "queue_inv tr w" "sent_of l = []" "delivered w' = delivered w" "length (queue w') \<le> length (queue w)"
    "receiver w' = receiver w" "dropped_states w' = dropped_states w" "dropped_stats w' = dropped_stats w"
    "controls_retained w' = controls_retained w" "keeping w' = keeping w"
  shows "queue_inv (tr @ [l]) w'"
  using assms by (auto simp: queue_inv_def counted_def)

lemma queue_send:
  assumes "queue_inv tr w" "pc w = ForwardSend ev e evs"
  shows "queue_inv (tr @ [Sent ev]) (forward_send ev e evs w)"
proof (cases "receiver w")
  case True
  have inv: "subseq (delivered w) (sent_events tr)" "counted is_state (dropped_states w) 0 tr w"
    "counted is_stats (dropped_stats w) 0 tr w" "counted is_control_event (controls_retained w) 0 tr w"
    "length (queue w) \<le> EVENT_CHANNEL_BOUND"
    using assms True by (simp_all add: queue_inv_def keeping_def)
  show ?thesis
  proof (cases "length (queue w) < EVENT_CHANNEL_BOUND")
    case room: True
    have "subseq (delivered w @ [ev]) (sent_events tr @ [ev])" using inv(1) by simp
    with inv room show ?thesis
      by (simp add: forward_send_def True queue_inv_def delivered_def counted_def keeping_def add.assoc)
  next
    case full: False
    have "subseq (delivered w) (sent_events tr @ [ev])" using inv(1) by (simp add: subseq_order.trans list_emb_prefix)
    with full inv True counted_incr [OF inv(2), of "tr @ [Sent ev]" 0] counted_incr [OF inv(3), of "tr @ [Sent ev]" 0] show ?thesis
      by (cases ev) (auto simp: forward_send_def queue_inv_def delivered_def counted_def keeping_def is_control_event_def)
  qed
next
  case False
  with assms show ?thesis by (simp add: queue_inv_def forward_send_def)
qed

lemma queue_keep:
  assumes "queue_inv tr w" "pc w = ForwardKeep ev e evs"
  shows "queue_inv (tr @ [Silent]) (forward_keep ev e evs w)"
proof (cases "receiver w")
  case True
  have "counted is_control_event (controls_retained w) 1 tr w" using assms True by (simp add: queue_inv_def keeping_def)
  from counted_incr [OF this, of "tr @ [Silent]" 0] assms True show ?thesis
    by (auto simp: queue_inv_def forward_keep_def delivered_def counted_def keeping_def)
qed (use assms in \<open>simp add: queue_inv_def forward_keep_def\<close>)

lemma thread_queue_inv:
  assumes "queue_inv tr w" "engine_thread w = Some w'"
  shows "queue_inv (tr @ [thread_label w]) w'"
  using assms(2)
proof (cases rule: engine_thread_elim)
  case (send ev e evs)
  then show ?thesis using queue_send [OF assms(1)] by (simp add: thread_label_def)
next
  case (keep ev e evs)
  then show ?thesis using queue_keep [OF assms(1)] by (simp add: thread_label_def)
qed (rule queue_frame [OF assms(1)]; simp add: thread_label_def delivered_def keeping_def)+

lemma engine_run_queue: "engine_run s0 tr w \<Longrightarrow> queue_inv tr w"
proof (induction rule: engine_run.induct)
  case start
  show ?case by (simp add: queue_inv_def engine_world_new_def counted_def delivered_def keeping_def)
next
  case (thread tr w w')
  then show ?case using thread_queue_inv by simp
next
  case (dropped tr w)
  then show ?case by (simp add: queue_inv_def drop_connection_def)
next
  case (disconnected tr w)
  then show ?case by (simp add: queue_inv_def drop_connection_def disconnect_def)
next
  case (recv tr w)
  show ?case
    by (rule queue_frame [OF recv.IH]) (simp_all add: recv_def delivered_def keeping_def split: list.split)
qed (erule queue_frame; simp add: on_state_changed_def on_event_def update_begin_def update_post_def update_clear_def
    take_critical_events_def Let_def delivered_def keeping_def)+

text \<open>
  The event lane is bounded and accounts for everything. The queue never holds more than
  its bound; what the consumer got and what waits for it is what was sent, in order and
  without repetition, less the drops; and the three counters say how many states, statistics
  and controls those are, up to the wrap-around of 64 bits, a control counting once its
  retention is complete.
\<close>

theorem event_lane_accounts:
  assumes "engine_run s0 tr w" "receiver w"
  shows "length (queue w) \<le> EVENT_CHANNEL_BOUND \<and> subseq (received w @ queue w) (sent_events tr) \<and>
    dropped_states w = (number is_state (sent_events tr) - number is_state (received w @ queue w)) mod 2 ^ 64 \<and>
    dropped_stats w = (number is_stats (sent_events tr) - number is_stats (received w @ queue w)) mod 2 ^ 64 \<and>
    controls_retained w =
      (number is_control_event (sent_events tr) - number is_control_event (received w @ queue w) - of_bool (keeping w)) mod 2 ^ 64"
proof -
  have "c = (number P (sent_events tr) - number P (received w @ queue w) - m) mod 2 ^ 64" if "counted P c m tr w" for P c m
    using that by (auto simp: counted_def delivered_def)
  from this [of is_state _ 0] this [of is_stats _ 0] this [of is_control_event] engine_run_queue [OF assms(1)] assms(2) show ?thesis
    by (auto simp: queue_inv_def delivered_def)
qed

section \<open>The thread never waits for the consumer\<close>

text \<open>Steps of the connection thread and of an update in progress.\<close>

inductive without_consumer :: "EngineWorld \<Rightarrow> EngineWorld \<Rightarrow> bool" where
  refl: "without_consumer w w"
| thread: "engine_thread w = Some w' \<Longrightarrow> without_consumer w' w'' \<Longrightarrow> without_consumer w w''"
| clear: "updating w = Clearing s \<Longrightarrow> without_consumer (update_clear s w) w'' \<Longrightarrow> without_consumer w w''"
| post: "updating w = Posting s \<Longrightarrow> without_consumer (update_post s w) w'' \<Longrightarrow> without_consumer w w''"

primrec pc_work :: "Pc \<Rightarrow> nat" where
  "pc_work Idle = 0"
| "pc_work (EventLoop e evs) = 4 * length evs + 1"
| "pc_work (ForwardKeep ev e evs) = 4 * length evs + 2"
| "pc_work (ForwardSend ev e evs) = 4 * length evs + 3"
| "pc_work (ForwardSlot ev e evs) = 4 * length evs + 4"
| "pc_work (StateLatest t) = 5"
| "pc_work (StateLedger e st) = 6"

lemma engine_thread_work:
  assumes "engine_thread w = Some w'"
  shows "pc_work (pc w') < pc_work (pc w)" "updating w' = updating w"
proof -
  show "pc_work (pc w') < pc_work (pc w)"
    using assms
  proof (cases rule: engine_thread_elim)
    case (send ev e evs)
    then show ?thesis using forward_send_pc [of ev e evs w] by auto
  qed (auto simp: forward_keep_def)
  show "updating w' = updating w"
    using assms by (cases rule: engine_thread_elim) (auto simp: forward_keep_def)
qed

lemma engine_thread_enabled: "updating w = NoUpdate \<Longrightarrow> pc w \<noteq> Idle \<Longrightarrow> \<exists>w'. engine_thread w = Some w'"
  by (cases "pc w") (auto simp: engine_thread_def event_turn_def split: list.splits EngineEvent.splits prod.splits)

lemma callback_finishes: "updating w = NoUpdate \<Longrightarrow> \<exists>w'. without_consumer w w' \<and> pc w' = Idle"
proof (induction "pc_work (pc w)" arbitrary: w rule: less_induct)
  case less
  show ?case
  proof (cases "pc w = Idle")
    case True
    then show ?thesis using without_consumer.refl by blast
  next
    case False
    then obtain w1 where w1: "engine_thread w = Some w1" using engine_thread_enabled less.prems by blast
    obtain w' where "without_consumer w1 w'" "pc w' = Idle"
      using less.hyps [of w1] engine_thread_work [OF w1] less.prems by auto
    with w1 show ?thesis using without_consumer.thread by blast
  qed
qed

text \<open>
  The connection thread never waits for the consumer: from every state of a run the
  callback it is in comes to its end by steps of the thread itself and of a settings update
  that is under way, with the queue full or empty and the consumer doing nothing.
\<close>

theorem callbacks_finish_without_consumer:
  assumes "engine_run s0 tr w"
  shows "\<exists>w'. without_consumer w w' \<and> pc w' = Idle"
proof (cases "updating w")
  case NoUpdate
  then show ?thesis by (rule callback_finishes)
next
  case (Clearing s)
  let ?w = "update_post s (update_clear s w)"
  obtain w' where "without_consumer ?w w'" "pc w' = Idle" using callback_finishes [of ?w] by (auto simp: update_post_def)
  moreover have "updating (update_clear s w) = Posting s" by (simp add: update_clear_def)
  ultimately show ?thesis using Clearing without_consumer.clear without_consumer.post by blast
next
  case (Posting s)
  let ?w = "update_post s w"
  obtain w' where "without_consumer ?w w'" "pc w' = Idle" using callback_finishes [of ?w] by (auto simp: update_post_def)
  with Posting show ?thesis using without_consumer.post by blast
qed

section \<open>A full queue\<close>

text \<open>A run that fills the queue with statistics and then reports a fatal certificate error.\<close>

definition sending :: "EngineEvent \<Rightarrow> EngineWorld \<Rightarrow> EngineWorld" where
  "sending x w = (forward_slot x w)\<lparr>pc := ForwardSend x (fr_epoch (ledger w)) []\<rparr>"

lemma event_steps:
  assumes "engine_run s0 tr w" "pc w = Idle" "translate_event ev = [x]" "\<not> is_refused x"
  shows "engine_run s0 (tr @ [Silent, Silent, Silent, Sent x]) (forward_send x (fr_epoch (ledger w)) [] (sending x w))"
proof -
  let ?e = "fr_epoch (ledger w)"
  define w1 where "w1 = w\<lparr>pc := EventLoop ?e [x]\<rparr>"
  define w2 where "w2 = w\<lparr>pc := ForwardSlot x ?e []\<rparr>"
  have "engine_run s0 (tr @ [Silent]) w1"
    using engine_run.event_entry [OF assms(1,2), of ev] by (simp add: on_event_def assms(3) w1_def)
  moreover have "engine_thread w1 = Some w2" "thread_label w1 = Silent"
    using assms(4) by (cases x; simp add: w1_def w2_def engine_thread_def event_turn_def)
      (simp add: w1_def thread_label_def)
  ultimately have "engine_run s0 ((tr @ [Silent]) @ [Silent]) w2" using engine_run.thread by metis
  moreover have "forward_slot x w2 = (forward_slot x w)\<lparr>pc := ForwardSlot x ?e []\<rparr>"
    by (cases x) (simp_all add: forward_slot_def w2_def)
  then have "engine_thread w2 = Some (sending x w)" "thread_label w2 = Silent"
    by (simp_all add: engine_thread_def w2_def [THEN arg_cong [where f = pc]] sending_def thread_label_def)
  ultimately have "engine_run s0 (((tr @ [Silent]) @ [Silent]) @ [Silent]) (sending x w)" using engine_run.thread by metis
  moreover have "engine_thread (sending x w) = Some (forward_send x ?e [] (sending x w))" "thread_label (sending x w) = Sent x"
    by (simp_all add: engine_thread_def sending_def thread_label_def)
  ultimately have "engine_run s0 ((((tr @ [Silent]) @ [Silent]) @ [Silent]) @ [Sent x]) (forward_send x ?e [] (sending x w))"
    using engine_run.thread by metis
  then show ?thesis by simp
qed

definition idle_stats :: EngineStats where
  "idle_stats = \<lparr>received_bytes = 0, sent_bytes = 0, time_since_last_handshake = Duration 0 0, estimated_loss = 0,
     estimated_round_trip_time = Duration 0 0\<rparr>"

lemma fill_event_lane:
  "n \<le> EVENT_CHANNEL_BOUND \<Longrightarrow> \<exists>tr w. engine_run s0 tr w \<and> pc w = Idle \<and> receiver w \<and> queue w = replicate n (Stats idle_stats) \<and>
     received w = [] \<and> taken w = [] \<and> critical w = []"
proof (induction n)
  case 0
  show ?case by (rule exI [of _ "[]"], rule exI [of _ "engine_world_new s0"]) (simp add: engine_run.start, simp add: engine_world_new_def)
next
  case (Suc n)
  then obtain tr w where w: "engine_run s0 tr w" "pc w = Idle" "receiver w" "queue w = replicate n (Stats idle_stats)"
    "received w = []" "taken w = []" "critical w = []" by auto
  let ?x = "Stats idle_stats" and ?e = "fr_epoch (ledger w)"
  let ?w = "forward_send ?x ?e [] (sending ?x w)"
  have x: "translate_event (PConnectionStats 0 0 (Duration 0 0) 0 (Duration 0 0)) = [?x]" by (simp add: idle_stats_def)
  have q: "?w = (sending ?x w)\<lparr>queue := queue w @ [?x], pc := EventLoop ?e []\<rparr>"
    using w Suc.prems by (simp add: forward_send_def sending_def)
  have "engine_run s0 (tr @ [Silent, Silent, Silent, Sent ?x]) ?w" by (rule event_steps [OF w(1,2) x]) simp
  moreover have "engine_thread ?w = Some (?w\<lparr>pc := Idle\<rparr>)" by (simp add: q engine_thread_def)
  ultimately have "engine_run s0 ((tr @ [Silent, Silent, Silent, Sent ?x]) @ [thread_label ?w]) (?w\<lparr>pc := Idle\<rparr>)"
    by (rule engine_run.thread)
  moreover have "receiver (?w\<lparr>pc := Idle\<rparr>) \<and> queue (?w\<lparr>pc := Idle\<rparr>) = replicate (Suc n) ?x \<and> received (?w\<lparr>pc := Idle\<rparr>) = [] \<and>
      taken (?w\<lparr>pc := Idle\<rparr>) = [] \<and> critical (?w\<lparr>pc := Idle\<rparr>) = []"
    unfolding q using w by (simp add: sending_def replicate_append_same)
  ultimately show ?case by (intro exI conjI) auto
qed

lemma fatal_on_full_queue:
  "\<exists>tr w. engine_run s0 (tr @ Sent CertificateFatal # [Silent]) w \<and> receiver w \<and> pc w = EventLoop (fr_epoch (ledger w)) [] \<and>
     queue w = replicate EVENT_CHANNEL_BOUND (Stats idle_stats) \<and> received w = [] \<and> taken w = []"
proof -
  obtain tr w where w: "engine_run s0 tr w" "pc w = Idle" "receiver w" "queue w = replicate EVENT_CHANNEL_BOUND (Stats idle_stats)"
    "received w = []" "taken w = []" "critical w = []" using fill_event_lane [OF order.refl, of s0] by auto
  let ?x = CertificateFatal and ?e = "fr_epoch (ledger w)"
  let ?w = "forward_send ?x ?e [] (sending ?x w)"
  have q: "?w = (sending ?x w)\<lparr>pc := ForwardKeep ?x ?e []\<rparr>" using w by (simp add: forward_send_def sending_def)
  have "engine_run s0 (tr @ [Silent, Silent, Silent, Sent ?x]) ?w"
    by (rule event_steps [OF w(1,2), of "PLocalAgentError PCertificateRefreshFatalError"]) simp_all
  moreover have "engine_thread ?w = Some (forward_keep ?x ?e [] ?w)" "thread_label ?w = Silent"
    by (simp_all add: q engine_thread_def thread_label_def)
  ultimately have "engine_run s0 ((tr @ [Silent, Silent, Silent, Sent ?x]) @ [Silent]) (forward_keep ?x ?e [] ?w)"
    using engine_run.thread by metis
  then have "engine_run s0 ((tr @ [Silent, Silent, Silent]) @ Sent ?x # [Silent]) (forward_keep ?x ?e [] ?w)" by simp
  moreover have "receiver (forward_keep ?x ?e [] ?w)" "queue (forward_keep ?x ?e [] ?w) = queue w"
    "received (forward_keep ?x ?e [] ?w) = []" "taken (forward_keep ?x ?e [] ?w) = []"
    "pc (forward_keep ?x ?e [] ?w) = EventLoop (fr_epoch (ledger (forward_keep ?x ?e [] ?w))) []"
    unfolding q using w by (simp_all add: forward_keep_def sending_def)
  ultimately show ?thesis using w(4) by metis
qed

theorem controls_never_lost_witness:
  "\<exists>tr w. engine_run EngineAgentSettings_default (tr @ Sent CertificateFatal # [Silent]) w \<and>
     length (queue w) = 1024 \<and> CertificateFatal \<notin> set (queue w) \<and> CertificateFatal \<in> set (critical w)"
proof -
  obtain tr w where w: "engine_run EngineAgentSettings_default (tr @ Sent CertificateFatal # [Silent]) w" "receiver w"
    "pc w = EventLoop (fr_epoch (ledger w)) []" "queue w = replicate EVENT_CHANNEL_BOUND (Stats idle_stats)"
    "received w = []" "taken w = []" using fatal_on_full_queue by blast
  have "CertificateFatal \<in> set (received w) \<union> set (queue w) \<union> set (critical w) \<union> set (taken w) \<or>
    (\<exists>ev'. Sent ev' \<in> set [Silent] \<and> critical_class ev' = critical_class CertificateFatal) \<or>
    is_refused CertificateFatal \<and> Cleared \<in> set [Silent]"
    by (rule controls_never_lost [OF w(1,2)]) (simp_all add: is_control_event_def w(3))
  with w show ?thesis by (intro exI [of _ tr] exI [of _ w]) (auto simp: EVENT_CHANNEL_BOUND_def)
qed

theorem event_lane_accounts_witness:
  "\<exists>tr w. engine_run EngineAgentSettings_default tr w \<and> length (queue w) = 1024 \<and>
     dropped_stats w = (number is_stats (sent_events tr) - 1024) mod 2 ^ 64"
proof -
  obtain tr w where w: "engine_run EngineAgentSettings_default tr w" "receiver w"
    "queue w = replicate EVENT_CHANNEL_BOUND (Stats idle_stats)" "received w = []"
    using fill_event_lane [OF order.refl] by blast
  have "number is_stats (queue w) = 1024" by (simp add: w(3) number_def EVENT_CHANNEL_BOUND_def)
  with event_lane_accounts [OF w(1,2)] w show ?thesis
    by (intro exI [of _ tr] exI [of _ w]) (simp add: EVENT_CHANNEL_BOUND_def)
qed

theorem callbacks_finish_without_consumer_witness:
  "\<exists>tr w w'. engine_run EngineAgentSettings_default tr w \<and> length (queue w) = 1024 \<and> pc w \<noteq> Idle \<and>
     without_consumer w w' \<and> pc w' = Idle"
proof -
  obtain tr w where w: "engine_run EngineAgentSettings_default (tr @ Sent CertificateFatal # [Silent]) w"
    "pc w = EventLoop (fr_epoch (ledger w)) []" "queue w = replicate EVENT_CHANNEL_BOUND (Stats idle_stats)"
    using fatal_on_full_queue by blast
  obtain w' where "without_consumer w w'" "pc w' = Idle" using callbacks_finish_without_consumer [OF w(1)] by blast
  moreover have "length (queue w) = 1024" "pc w \<noteq> Idle" by (simp_all add: w(2,3) EVENT_CHANNEL_BOUND_def)
  ultimately show ?thesis using w(1) by blast
qed

end
