(* ===== verification/Redact.thy ===== *)
theory Redact
  imports Rust_Text "HOL-Library.Sublist"
begin

text \<open>
  \<open>crates/core/src/redact.rs\<close>: the registry of live secrets, the scrubber, the line-buffering
  writer, and the filter that drops events of named modules before they are formatted. A
  string is its bytes; \<open>from_utf8_lossy\<close> is a parameter. An \<open>Arc\<close> is an index into the list of
  values with their strong counts.
\<close>

section \<open>Strings\<close>

definition REDACTED :: string where
  "REDACTED = ''[redacted]''"

text \<open>\<open>str::contains\<close> and \<open>str::replace\<close>.\<close>

fun str_contains :: "string \<Rightarrow> string \<Rightarrow> bool" where
  "str_contains [] pat = (pat = [])"
| "str_contains (c # cs) pat = (take (length pat) (c # cs) = pat \<or> str_contains cs pat)"

function str_replace :: "string \<Rightarrow> string \<Rightarrow> string \<Rightarrow> string" where
  "str_replace s pat rep =
     (if pat = [] then rep @ concat (map (\<lambda>c. c # rep) s)
      else if s = [] then []
      else if take (length pat) s = pat then rep @ str_replace (drop (length pat) s) pat rep
      else hd s # str_replace (tl s) pat rep)"
  by auto
termination
  by (relation "measure (\<lambda>(s, _, _). length s)") auto

declare str_replace.simps [simp del]

section \<open>The registry\<close>

definition MIN_SECRET_LEN :: usize where
  "MIN_SECRET_LEN = 4"

record LogState =
  arcs :: "(string \<times> nat) list"
  registry :: "nat list"
  sink :: "bytes list"

definition strong_count :: "LogState \<Rightarrow> nat \<Rightarrow> nat" where
  "strong_count st a = (if a < length (arcs st) then snd (arcs st ! a) else 0)"

definition retain_alive :: "LogState \<Rightarrow> LogState" where
  "retain_alive st = st\<lparr>registry := filter (\<lambda>a. strong_count st a > 0) (registry st)\<rparr>"

definition register_owned :: "string \<Rightarrow> LogState \<Rightarrow> nat \<times> LogState" where
  "register_owned v st =
     (let a = length (arcs st); st = st\<lparr>arcs := arcs st @ [(v, 1)]\<rparr> in
      (a, if length v \<ge> MIN_SECRET_LEN
          then let st = retain_alive st in st\<lparr>registry := registry st @ [a]\<rparr>
          else st))"

definition peer_secret :: "string \<Rightarrow> LogState \<Rightarrow> nat \<times> LogState" where
  "peer_secret v st = (length (arcs st), st\<lparr>arcs := arcs st @ [(v, 1)]\<rparr>)"

definition clone_handle :: "nat \<Rightarrow> LogState \<Rightarrow> LogState" where
  "clone_handle a st = (if strong_count st a > 0 then st\<lparr>arcs := (arcs st)[a := (fst (arcs st ! a), strong_count st a + 1)]\<rparr> else st)"

text \<open>The last drop zeroizes the value.\<close>

definition drop_handle :: "nat \<Rightarrow> LogState \<Rightarrow> LogState" where
  "drop_handle a st =
     (if strong_count st a = 0 then st
      else if strong_count st a = 1
      then st\<lparr>arcs := (arcs st)[a := (replicate (length (fst (arcs st ! a))) (CHR 0x00), 0)]\<rparr>
      else st\<lparr>arcs := (arcs st)[a := (fst (arcs st ! a), strong_count st a - 1)]\<rparr>)"

section \<open>Scrubbing\<close>

definition live_secrets :: "LogState \<Rightarrow> string list" where
  "live_secrets st =
     sort_by (\<lambda>x y. ord_reverse (cmp_on length x y)) (map (\<lambda>a. fst (arcs st ! a)) (registry (retain_alive st)))"

definition scrub_step :: "string \<Rightarrow> string option \<Rightarrow> string \<Rightarrow> string option" where
  "scrub_step input output secret =
     (if str_contains input secret
      then Some (str_replace (case output of Some o' \<Rightarrow> o' | None \<Rightarrow> input) secret REDACTED)
      else output)"

definition scrub :: "LogState \<Rightarrow> string \<Rightarrow> string" where
  "scrub st input =
     (case foldl (scrub_step input) None (live_secrets st) of Some o' \<Rightarrow> o' | None \<Rightarrow> input)"

section \<open>The writer\<close>

definition NL :: char where
  "NL = CHR 0x0A"

text \<open>What one \<open>write_all\<close> on the inner writer does: everything, or a part and an error.\<close>

datatype write_outcome = Written | Failed nat

record LineScrubWriter =
  line :: bytes

definition write_all :: "write_outcome \<Rightarrow> bytes \<Rightarrow> LogState \<Rightarrow> bool \<times> LogState" where
  "write_all io bs st =
     (case io of
        Written \<Rightarrow> (True, st\<lparr>sink := sink st @ [bs]\<rparr>)
      | Failed n \<Rightarrow> (False, st\<lparr>sink := sink st @ [take n bs]\<rparr>))"

definition flush_line ::
  "(bytes \<Rightarrow> string) \<Rightarrow> write_outcome \<Rightarrow> LineScrubWriter \<Rightarrow> LogState \<Rightarrow> bool \<times> LineScrubWriter \<times> LogState" where
  "flush_line lossy io w st =
     (if line w = [] then (True, w, st)
      else
        let st = retain_alive st;
            (ok, st) = write_all io (scrub st (lossy (line w))) st in
        (ok, if ok then w\<lparr>line := []\<rparr> else w, st))"

text \<open>The loop over the complete lines of the buffer; \<open>io\<close> has an outcome for each write of it.\<close>

function write_loop ::
  "(bytes \<Rightarrow> string) \<Rightarrow> (nat \<Rightarrow> write_outcome) \<Rightarrow> nat \<Rightarrow> LineScrubWriter \<Rightarrow> LogState \<Rightarrow> bool \<times> LineScrubWriter \<times> LogState" where
  "write_loop lossy io n w st =
     (case position (\<lambda>b. b = NL) (line w) of
        None \<Rightarrow> (True, w, st)
      | Some pos \<Rightarrow>
          (case flush_line lossy (io n) \<lparr>line = take (pos + 1) (line w)\<rparr> st of
             (True, _, st) \<Rightarrow> write_loop lossy io (n + 1) \<lparr>line = drop (pos + 1) (line w)\<rparr> st
           | (False, w, st) \<Rightarrow> (False, w, st)))"
  by auto
termination
proof (relation "measure (\<lambda>(_, _, _, w, _). length (line w))", goal_cases)
  case (2 lossy io n w st pos)
  then show ?case using position_Some [of "\<lambda>b. b = NL" "line w" pos] by auto
qed auto

declare write_loop.simps [simp del]

definition writer_write ::
  "(bytes \<Rightarrow> string) \<Rightarrow> (nat \<Rightarrow> write_outcome) \<Rightarrow> bytes \<Rightarrow> LineScrubWriter \<Rightarrow> LogState \<Rightarrow> bool \<times> LineScrubWriter \<times> LogState" where
  "writer_write lossy io buf w st = write_loop lossy io 0 \<lparr>line = line w @ buf\<rparr> st"

section \<open>The filter\<close>

text \<open>\<open>tracing\<close>'s levels, ordered by verbosity.\<close>

datatype Level = ERROR | WARN | INFO | DEBUG | TRACE

primrec verbosity :: "Level \<Rightarrow> nat" where
  "verbosity ERROR = 0"
| "verbosity WARN = 1"
| "verbosity INFO = 2"
| "verbosity DEBUG = 3"
| "verbosity TRACE = 4"

definition MODULE_CAPS :: "(string \<times> Level) list" where
  "MODULE_CAPS =
     [(''muon::auth::login'', WARN),
      (''muon::auth::from_fork'', WARN),
      (''muon::store'', WARN),
      (''muon::client'', WARN),
      (''muon::transport'', ERROR),
      (''muon::common::retry'', WARN),
      (''muon::doh'', INFO),
      (''pvpnclient'', DEBUG)]"

definition MODULE_DROP_ALL :: "string list" where
  "MODULE_DROP_ALL = [''muon::common::auth'']"

definition OWN_TARGET_PREFIX :: string where
  "OWN_TARGET_PREFIX = ''protonwire''"

definition DEPENDENCY_RELEASE_CAP :: Level where
  "DEPENDENCY_RELEASE_CAP = DEBUG"

definition starts_with :: "string \<Rightarrow> string \<Rightarrow> bool" where
  "starts_with s p \<longleftrightarrow> take (length p) s = p"

definition target_matches :: "string \<Rightarrow> string \<Rightarrow> bool" where
  "target_matches target pre =
     (if starts_with target pre
      then let rest = drop (length pre) target in rest = [] \<or> starts_with rest ''::''
      else False)"

record SecretSuppressFilter =
  release :: bool

definition allows :: "SecretSuppressFilter \<Rightarrow> string \<Rightarrow> Level \<Rightarrow> bool" where
  "allows f target level =
     (if list_ex (\<lambda>m. target_matches target m) MODULE_DROP_ALL then False
      else if list_ex (\<lambda>(m, cap). verbosity level > verbosity cap \<and> target_matches target m) MODULE_CAPS then False
      else if release f \<and> verbosity level > verbosity DEPENDENCY_RELEASE_CAP \<and> \<not> starts_with target OWN_TARGET_PREFIX
      then False
      else True)"

definition suppresses :: "SecretSuppressFilter \<Rightarrow> string \<Rightarrow> Level \<Rightarrow> bool" where
  "suppresses f target level = (\<not> allows f target level)"

section \<open>Logging\<close>

text \<open>
  One event through the installed stack: the level filter of the subscriber (\<open>env\<close>) and the
  suppression filter first, then the formatter, a parameter whose text the layer writes with
  one call to a fresh writer.
\<close>

record LogEvent =
  le_target :: string
  le_level :: Level
  le_text :: bytes

definition log_event ::
  "(bytes \<Rightarrow> string) \<Rightarrow> (LogEvent \<Rightarrow> bool) \<Rightarrow> SecretSuppressFilter \<Rightarrow> (nat \<Rightarrow> write_outcome) \<Rightarrow> LogEvent \<Rightarrow> LogState \<Rightarrow> LogState" where
  "log_event lossy env f io ev st =
     (if env ev \<and> \<not> suppresses f (le_target ev) (le_level ev)
      then snd (snd (writer_write lossy io (le_text ev) \<lparr>line = []\<rparr> st))
      else st)"

datatype action =
    Register string
  | Peer string
  | Clone nat
  | Drop nat
  | Log LogEvent "nat \<Rightarrow> write_outcome"

primrec log_step ::
  "(bytes \<Rightarrow> string) \<Rightarrow> (LogEvent \<Rightarrow> bool) \<Rightarrow> SecretSuppressFilter \<Rightarrow> LogState \<Rightarrow> action \<Rightarrow> LogState" where
  "log_step lossy env f st (Register v) = snd (register_owned v st)"
| "log_step lossy env f st (Peer v) = snd (peer_secret v st)"
| "log_step lossy env f st (Clone a) = clone_handle a st"
| "log_step lossy env f st (Drop a) = drop_handle a st"
| "log_step lossy env f st (Log ev io) = log_event lossy env f io ev st"

section \<open>What replacing does\<close>

lemma str_contains_iff: "str_contains s pat \<longleftrightarrow> sublist pat s"
proof (induction s)
  case (Cons c cs)
  have "take (length pat) (c # cs) = pat \<longleftrightarrow> prefix pat (c # cs)" by (metis append_take_drop_id prefix_def append_eq_conv_conj)
  then show ?case using Cons by (simp add: sublist_Cons_right)
qed simp

lemma sublist_across:
  assumes "c \<notin> set s" "sublist s (xs @ c # ys)"
  shows "sublist s xs \<or> sublist s ys"
proof -
  obtain p q where eq: "xs @ c # ys = p @ s @ q" using assms(2) by (auto simp: sublist_def)
  consider "length (p @ s) \<le> length xs" | "length xs < length p" | "length p \<le> length xs" "length xs < length (p @ s)"
    by linarith
  then show ?thesis
  proof cases
    case 1
    then have "xs = p @ s @ take (length xs - length (p @ s)) q" using arg_cong [OF eq, of "take (length xs)"] by simp
    then show ?thesis by (metis sublist_appendI)
  next
    case 2
    then have "ys = drop (Suc (length xs)) p @ s @ q" using arg_cong [OF eq, of "drop (Suc (length xs))"] by simp
    then show ?thesis by (metis sublist_appendI)
  next
    case 3
    have "(xs @ c # ys) ! length xs = (p @ s @ q) ! length xs" using eq by simp
    moreover have "length xs - length p < length s" using 3 by simp
    ultimately have "c = s ! (length xs - length p)" using 3 by (simp add: nth_append)
    with assms(1) \<open>length xs - length p < length s\<close> show ?thesis by (simp add: nth_mem)
  qed
qed

text \<open>A secret that cannot be confused with the placeholder.\<close>

definition scrubbable :: "string \<Rightarrow> bool" where
  "scrubbable s \<longleftrightarrow> s \<noteq> [] \<and> CHR ''['' \<notin> set s \<and> CHR '']'' \<notin> set s \<and> \<not> sublist s ''redacted''"

lemma sublist_redacted:
  assumes "scrubbable s" "sublist s (a @ REDACTED @ b)"
  shows "sublist s a \<or> sublist s b"
proof -
  have "sublist s a \<or> sublist s (''redacted'' @ CHR '']'' # b)"
    using sublist_across [of "CHR ''[''" s a "''redacted'' @ CHR '']'' # b"] assms by (simp add: scrubbable_def REDACTED_def)
  moreover have "sublist s (''redacted'' @ CHR '']'' # b) \<Longrightarrow> sublist s b"
    using sublist_across [of "CHR '']''" s "''redacted''" b] assms(1) by (simp add: scrubbable_def)
  ultimately show ?thesis by blast
qed

lemma str_replace_eqs:
  "pat \<noteq> [] \<Longrightarrow> str_replace [] pat rep = []"
  "pat \<noteq> [] \<Longrightarrow> x \<noteq> [] \<Longrightarrow> take (length pat) x = pat \<Longrightarrow>
   str_replace x pat rep = rep @ str_replace (drop (length pat) x) pat rep"
  "pat \<noteq> [] \<Longrightarrow> take (length pat) (c # cs) \<noteq> pat \<Longrightarrow> str_replace (c # cs) pat rep = c # str_replace cs pat rep"
  by (subst str_replace.simps, simp)+

lemma replace_adds_nothing:
  assumes "scrubbable s" "pat \<noteq> []" "sublist s (a @ str_replace x pat REDACTED)"
  shows "sublist s (a @ x)"
  using assms(2,3)
proof (induction x pat REDACTED arbitrary: a rule: str_replace.induct)
  case (1 x pat)
  consider "x = []" | "x \<noteq> []" "take (length pat) x = pat" | "x \<noteq> []" "take (length pat) x \<noteq> pat" by blast
  then show ?case
  proof cases
    case 1
    with "1.prems" show ?thesis by (simp add: str_replace_eqs)
  next
    case 2
    then have "sublist s (a @ REDACTED @ str_replace (drop (length pat) x) pat REDACTED)"
      using "1.prems" by (simp add: str_replace_eqs)
    then have "sublist s a \<or> sublist s (drop (length pat) x)"
      using sublist_redacted [OF assms(1)] "1.hyps"(1) [of "[]"] 2 "1.prems"(1) by fastforce
    moreover have "sublist (drop (length pat) x) (a @ x)"
      using suffix_drop [of "length pat" x] by (metis suffix_appendI suffix_imp_sublist)
    moreover have "sublist a (a @ x)" by simp
    ultimately show ?thesis by (meson sublist_order.order.trans)
  next
    case 3
    then obtain c cs where x: "x = c # cs" by (cases x) auto
    with 3 "1.prems" have "sublist s ((a @ [c]) @ str_replace cs pat REDACTED)" by (simp add: str_replace_eqs)
    with "1.hyps"(2) [of "a @ [c]"] 3 "1.prems"(1) x show ?thesis by simp
  qed
qed

text \<open>No occurrence of a pattern starts in the part that was passed over.\<close>

definition no_start :: "string \<Rightarrow> string \<Rightarrow> string \<Rightarrow> bool" where
  "no_start t a x \<longleftrightarrow> (\<forall>i < length a. take (length t) (drop i (a @ x)) \<noteq> t)"

lemma no_start_sublist: "t \<noteq> [] \<Longrightarrow> no_start t a x \<Longrightarrow> \<not> sublist t a"
proof
  assume t: "t \<noteq> []" "no_start t a x" and "sublist t a"
  then obtain p q where a: "a = p @ t @ q" by (auto simp: sublist_def)
  then have "length p < length a" "take (length t) (drop (length p) (a @ x)) = t" using t(1) by auto
  with t(2) show False by (auto simp: no_start_def)
qed

lemma replace_removes:
  assumes "scrubbable t" "no_start t a x"
  shows "\<not> sublist t (a @ str_replace x t REDACTED)"
proof -
  have "t \<noteq> []" using assms(1) by (simp add: scrubbable_def)
  with assms show ?thesis
  proof (induction x t REDACTED arbitrary: a rule: str_replace.induct)
    case (1 x pat)
    consider "x = []" | "x \<noteq> []" "take (length pat) x = pat" | "x \<noteq> []" "take (length pat) x \<noteq> pat" by blast
    then show ?case
    proof cases
      case 1
      with "1.prems" no_start_sublist [of pat a x] show ?thesis by (simp add: str_replace_eqs)
    next
      case 2
      let ?rest = "str_replace (drop (length pat) x) pat REDACTED"
      have "\<not> sublist pat ([] @ ?rest)" using "1.hyps"(1) [of "[]"] 2 "1.prems" by (simp add: no_start_def)
      moreover have "\<not> sublist pat a" using no_start_sublist "1.prems" by blast
      moreover have "str_replace x pat REDACTED = REDACTED @ ?rest" using 2 "1.prems" by (simp add: str_replace_eqs)
      ultimately show ?thesis using sublist_redacted [of pat a ?rest] "1.prems" by auto
    next
      case 3
      then obtain c cs where x: "x = c # cs" by (cases x) auto
      have "no_start pat (a @ [c]) cs"
        unfolding no_start_def
      proof (intro allI impI)
        fix i assume "i < length (a @ [c])"
        then consider "i < length a" | "i = length a" by force
        then show "take (length pat) (drop i ((a @ [c]) @ cs)) \<noteq> pat"
          using "1.prems" 3 by cases (auto simp: no_start_def x)
      qed
      then have "\<not> sublist pat ((a @ [c]) @ str_replace cs pat REDACTED)" using "1.hyps"(2) [of "a @ [c]"] 3 x "1.prems" by simp
      moreover have "str_replace x pat REDACTED = c # str_replace cs pat REDACTED"
        using 3 "1.prems" by (simp add: str_replace_eqs x)
      ultimately show ?thesis by simp
    qed
  qed
qed

section \<open>What scrubbing leaves\<close>

definition knows :: "string \<Rightarrow> LogState \<Rightarrow> bool" where
  "knows s st \<longleftrightarrow> s \<in> set (live_secrets st) \<and> [] \<notin> set (live_secrets st)"

definition shown :: "string \<Rightarrow> string option \<Rightarrow> string" where
  "shown input out = (case out of Some o' \<Rightarrow> o' | None \<Rightarrow> input)"

lemma shown_step:
  "shown input (scrub_step input out t) = (if sublist t input then str_replace (shown input out) t REDACTED else shown input out)"
  by (simp add: scrub_step_def shown_def str_contains_iff split: option.split)

lemma scrub_fold_clean:
  "scrubbable s \<Longrightarrow> [] \<notin> set ts \<Longrightarrow> \<not> sublist s (shown input out) \<Longrightarrow> \<not> sublist s (shown input (foldl (scrub_step input) out ts))"
proof (induction ts arbitrary: out)
  case (Cons t ts)
  have "\<not> sublist s (shown input (scrub_step input out t))"
    using Cons.prems replace_adds_nothing [of s t "[]" "shown input out"] by (auto simp: shown_step)
  with Cons.IH Cons.prems show ?case by simp
qed simp

lemma scrub_clean:
  assumes "knows s st" "scrubbable s"
  shows "\<not> sublist s (scrub st input)"
proof -
  have eq: "scrub st input = shown input (foldl (scrub_step input) None (live_secrets st))"
    by (simp add: scrub_def shown_def)
  show ?thesis
  proof (cases "sublist s input")
    case True
    obtain us vs where ts: "live_secrets st = us @ s # vs" using assms(1) by (auto simp: knows_def dest: split_list)
    let ?out = "scrub_step input (foldl (scrub_step input) None us) s"
    have "\<not> sublist s (shown input ?out)"
      using True replace_removes [OF assms(2), of "[]"] by (simp add: shown_step no_start_def)
    then show ?thesis unfolding eq ts using assms scrub_fold_clean [of s vs input ?out] by (simp add: knows_def ts)
  next
    case False
    then show ?thesis unfolding eq using assms scrub_fold_clean [of s _ input None] by (simp add: knows_def shown_def)
  qed
qed

text \<open>A text without secrets is left as it is.\<close>

lemma scrub_identity:
  assumes "\<forall>t \<in> set (live_secrets st). \<not> sublist t input"
  shows "scrub st input = input"
proof -
  have "(\<forall>t \<in> set ts. \<not> sublist t input) \<Longrightarrow> foldl (scrub_step input) None ts = None" for ts
    by (induction ts) (simp_all add: scrub_step_def str_contains_iff)
  with assms show ?thesis by (simp add: scrub_def)
qed

definition closed_by :: "char set \<Rightarrow> string \<Rightarrow> bool" where
  "closed_by cs x \<longleftrightarrow> x \<noteq> [] \<and> last x \<in> cs"

lemma replace_closed:
  assumes "pat \<noteq> []" "closed_by (insert (CHR '']'') cs) x"
  shows "closed_by (insert (CHR '']'') cs) (str_replace x pat REDACTED)"
  using assms
proof (induction x pat REDACTED rule: str_replace.induct)
  case (1 x pat)
  then have x: "x \<noteq> []" by (simp add: closed_by_def)
  show ?case
  proof (cases "take (length pat) x = pat")
    case True
    let ?rest = "str_replace (drop (length pat) x) pat REDACTED"
    have eq: "str_replace x pat REDACTED = REDACTED @ ?rest" using True x 1 by (simp add: str_replace_eqs)
    show ?thesis
    proof (cases "?rest = []")
      case True
      then show ?thesis unfolding eq by (simp add: closed_by_def REDACTED_def)
    next
      case False
      then have "drop (length pat) x \<noteq> []" using 1(3) by (auto simp: str_replace_eqs)
      then have "closed_by (insert (CHR '']'') cs) ?rest"
        using 1(1) [OF 1(3) x True 1(3)] 1(4) by (simp add: closed_by_def)
      then show ?thesis unfolding eq by (simp add: closed_by_def)
    qed
  next
    case False
    obtain c y where c: "x = c # y" using x by (cases x) auto
    have eq: "str_replace x pat REDACTED = c # str_replace y pat REDACTED" using False 1(3) by (simp add: c str_replace_eqs)
    show ?thesis
    proof (cases "y = []")
      case True
      then show ?thesis unfolding eq using 1(3,4) by (simp add: closed_by_def c str_replace_eqs)
    next
      case False
      then have "closed_by (insert (CHR '']'') cs) (str_replace y pat REDACTED)"
        using 1(2) [OF 1(3) x \<open>take (length pat) x \<noteq> pat\<close> 1(3)] 1(4) by (simp add: closed_by_def c)
      then show ?thesis unfolding eq by (simp add: closed_by_def)
    qed
  qed
qed

lemma scrub_closed:
  assumes "[] \<notin> set (live_secrets st)" "closed_by (insert (CHR '']'') cs) x"
  shows "closed_by (insert (CHR '']'') cs) (scrub st x)"
proof -
  have "[] \<notin> set ts \<Longrightarrow> closed_by (insert (CHR '']'') cs) (shown x out) \<Longrightarrow>
      closed_by (insert (CHR '']'') cs) (shown x (foldl (scrub_step x) out ts))" for ts out
    by (induction ts arbitrary: out) (auto simp: shown_step replace_closed)
  from this [of "live_secrets st" None] assms show ?thesis by (simp add: scrub_def shown_def)
qed

lemma concat_clean:
  assumes "s \<noteq> []" "\<forall>c \<in> set cs. \<not> sublist s c \<and> closed_by X c" "X \<inter> set s = {}"
  shows "\<not> sublist s (concat cs)"
  using assms(2)
proof (induction cs)
  case Nil
  then show ?case using assms(1) by simp
next
  case (Cons c cs)
  then obtain b x where c: "c = b @ [x]" "x \<notin> set s" using assms(3) by (auto simp: closed_by_def) (metis append_butlast_last_id disjoint_iff)
  have "sublist b c" using c(1) by simp
  then have "\<not> sublist s b" using Cons.prems sublist_order.order.trans by fastforce
  moreover have "\<not> sublist s (concat cs)" using Cons by simp
  ultimately show ?case using sublist_across [OF c(2), of b "concat cs"] by (auto simp: c(1))
qed

section \<open>What reaches the log\<close>

lemma strong_count_simps [simp]:
  "strong_count (st\<lparr>sink := x\<rparr>) a = strong_count st a" "strong_count (st\<lparr>registry := r\<rparr>) a = strong_count st a"
  by (simp_all add: strong_count_def)

lemma retain_alive_simps [simp]:
  "arcs (retain_alive st) = arcs st" "sink (retain_alive st) = sink st" "strong_count (retain_alive st) a = strong_count st a"
  "retain_alive (retain_alive st) = retain_alive st"
  by (simp_all add: retain_alive_def)

lemma live_secrets_simps [simp]:
  "live_secrets (retain_alive st) = live_secrets st" "live_secrets (st\<lparr>sink := x\<rparr>) = live_secrets st"
  by (simp_all add: live_secrets_def) (simp add: retain_alive_def)

lemma knows_simps [simp]: "knows s (retain_alive st) = knows s st" "knows s (st\<lparr>sink := x\<rparr>) = knows s st"
  by (simp_all add: knows_def)

definition log_added :: "string \<Rightarrow> bool \<Rightarrow> LogState \<Rightarrow> LogState \<Rightarrow> bool" where
  "log_added s whole st st' \<longleftrightarrow>
     (\<exists>new. sink st' = sink st @ new \<and>
        (\<forall>c \<in> set new. \<not> sublist s c \<and> (whole \<longrightarrow> closed_by {CHR '']'', NL} c)))"

lemma log_added_refl [simp]: "sink st' = sink st \<Longrightarrow> log_added s whole st st'"
  by (simp add: log_added_def)

lemma log_added_trans: "log_added s whole st st' \<Longrightarrow> log_added s whole st' st'' \<Longrightarrow> log_added s whole st st''"
  by (fastforce simp: log_added_def)

text \<open>Decoding a line keeps its end.\<close>

definition keeps_newline :: "(bytes \<Rightarrow> string) \<Rightarrow> bool" where
  "keeps_newline lossy \<longleftrightarrow> (\<forall>l. closed_by {NL} l \<longrightarrow> closed_by {NL} (lossy l))"

lemma flush_line_added:
  assumes "knows s st" "scrubbable s" "keeps_newline lossy" "closed_by {NL} (line w)" "whole \<Longrightarrow> io = Written"
    "flush_line lossy io w st = (ok, w', st')"
  shows "log_added s whole st st'" "knows s st'" "arcs st' = arcs st" "registry st' = registry (retain_alive st)"
proof -
  have clean: "\<not> sublist s (scrub (retain_alive st) (lossy (line w)))" using assms(1,2) by (intro scrub_clean) simp_all
  then have part: "\<not> sublist s (take n (scrub (retain_alive st) (lossy (line w))))" for n
    using sublist_order.order.trans [OF _ sublist_take] by blast
  have "closed_by (insert (CHR '']'') {NL}) (lossy (line w))"
    using assms(3,4) by (auto simp: keeps_newline_def closed_by_def)
  then have closed: "closed_by {CHR '']'', NL} (scrub (retain_alive st) (lossy (line w)))"
    using assms(1) by (intro scrub_closed) (simp_all add: knows_def)
  have line: "line w \<noteq> []" using assms(4) by (simp add: closed_by_def)
  have st': "st' = snd (write_all io (scrub (retain_alive st) (lossy (line w))) (retain_alive st))"
    using assms(6) line by (auto simp: flush_line_def Let_def split: prod.splits)
  show "log_added s whole st st'"
    unfolding st' using assms(5) clean part closed by (cases io) (auto simp: write_all_def log_added_def)
  from assms(6) assms(1) show "knows s st'" "arcs st' = arcs st" "registry st' = registry (retain_alive st)"
    by (auto simp: flush_line_def line write_all_def Let_def split: write_outcome.splits prod.splits)
qed

lemma first_line_closed: "position (\<lambda>b. b = NL) l = Some pos \<Longrightarrow> closed_by {NL} (take (pos + 1) l)"
  using position_Some [of "\<lambda>b. b = NL" l pos] by (auto simp: closed_by_def take_Suc_conv_app_nth)

lemma write_loop_added:
  "scrubbable s \<Longrightarrow> keeps_newline lossy \<Longrightarrow> (whole \<longrightarrow> (\<forall>n. io n = Written)) \<Longrightarrow> knows s st \<Longrightarrow>
   write_loop lossy io n w st = (ok, w', st') \<Longrightarrow>
   log_added s whole st st' \<and> arcs st' = arcs st \<and> registry st' \<in> {registry st, registry (retain_alive st)}"
proof (induction lossy io n w st arbitrary: ok w' st' rule: write_loop.induct [case_names step])
  case (step lossy io n w st)
  show ?case
  proof (cases "position (\<lambda>b. b = NL) (line w)")
    case None
    with step.prems(5) show ?thesis by (simp add: write_loop.simps [of _ _ _ w])
  next
    case (Some pos)
    obtain ok1 w1 st1 where fl: "flush_line lossy (io n) \<lparr>line = take (pos + 1) (line w)\<rparr> st = (ok1, w1, st1)" by (metis prod_cases3)
    have "closed_by {NL} (line \<lparr>line = take (pos + 1) (line w)\<rparr>)" using first_line_closed [OF Some] by simp
    note added = flush_line_added [OF step.prems(4,1,2) this _ fl, of whole]
    then have a1: "log_added s whole st st1" "knows s st1" "arcs st1 = arcs st" "registry st1 = registry (retain_alive st)"
      using step.prems(3) by auto
    then have r1: "registry (retain_alive st1) = registry (retain_alive st)" by (simp add: retain_alive_def strong_count_def)
    show ?thesis
    proof (cases ok1)
      case True
      then have "write_loop lossy io (n + 1) \<lparr>line = drop (pos + 1) (line w)\<rparr> st1 = (ok, w', st')"
        using step.prems(5) Some fl by (simp add: write_loop.simps [of _ _ _ w])
      with step.IH [OF Some fl [symmetric]] True step.prems(1-3) a1(2)
      have "log_added s whole st1 st'" "arcs st' = arcs st1" "registry st' \<in> {registry st1, registry (retain_alive st1)}" by auto
      with a1 r1 show ?thesis using log_added_trans by auto
    next
      case False
      then have "st' = st1" using step.prems(5) Some fl by (simp add: write_loop.simps [of _ _ _ w])
      with a1 show ?thesis by simp
    qed
  qed
qed

definition registry_ok :: "LogState \<Rightarrow> bool" where
  "registry_ok st \<longleftrightarrow>
     (\<forall>b \<in> set (registry st). b < length (arcs st) \<and> (strong_count st b > 0 \<longrightarrow> length (fst (arcs st ! b)) \<ge> MIN_SECRET_LEN))"

definition registered :: "nat \<Rightarrow> string \<Rightarrow> LogState \<Rightarrow> bool" where
  "registered a s st \<longleftrightarrow> registry_ok st \<and> a \<in> set (registry st) \<and> fst (arcs st ! a) = s \<and> strong_count st a > 0"

lemma set_live_secrets: "set (live_secrets st) = {fst (arcs st ! b) | b. b \<in> set (registry st) \<and> strong_count st b > 0}"
  by (auto simp: live_secrets_def retain_alive_def)

lemma registered_knows: "registered a s st \<Longrightarrow> knows s st"
  by (auto simp: knows_def set_live_secrets registered_def registry_ok_def MIN_SECRET_LEN_def)

lemma registry_ok_retain: "registry_ok st \<Longrightarrow> registry_ok (retain_alive st)"
  by (auto simp: registry_ok_def retain_alive_def)

lemma registered_retain: "registered a s st \<Longrightarrow> registered a s (retain_alive st)"
  by (auto simp: registered_def registry_ok_retain) (simp add: retain_alive_def)

lemma registered_new_arc:
  "registry_ok st \<Longrightarrow> registry_ok (st\<lparr>arcs := arcs st @ [x]\<rparr>)"
  "registered a s st \<Longrightarrow> registered a s (st\<lparr>arcs := arcs st @ [x]\<rparr>)"
  by (auto simp: registered_def registry_ok_def strong_count_def nth_append split: if_splits)

lemma register_owned_ok:
  assumes "registry_ok st" "register_owned v st = (a, st')"
  shows "registry_ok st'" "sink st' = sink st" "length v \<ge> MIN_SECRET_LEN \<Longrightarrow> registered a v st'"
    "registered b s st \<Longrightarrow> registered b s st'"
proof -
  let ?st = "st\<lparr>arcs := arcs st @ [(v, 1)]\<rparr>"
  have ok: "registry_ok ?st" by (rule registered_new_arc(1) [OF assms(1)])
  have new: "strong_count ?st (length (arcs st)) = 1" "fst (arcs ?st ! length (arcs st)) = v" by (simp_all add: strong_count_def)
  have st': "a = length (arcs st)" "st' = (if length v \<ge> MIN_SECRET_LEN
      then (retain_alive ?st)\<lparr>registry := registry (retain_alive ?st) @ [length (arcs st)]\<rparr> else ?st)"
    using assms(2) by (auto simp: register_owned_def Let_def)
  show "sink st' = sink st" using st' by simp
  show "registry_ok st'" using ok new registry_ok_retain [OF ok] unfolding st'(2) by (auto simp: registry_ok_def)
  moreover assume "length v \<ge> MIN_SECRET_LEN"
  ultimately show "registered a v st'" using new by (simp add: registered_def st')
next
  assume b: "registered b s st"
  note ok = registered_new_arc(1) [OF assms(1), of "(v, 1)"] and b' = registered_new_arc(2) [OF b, of "(v, 1)"]
  have new: "strong_count (st\<lparr>arcs := arcs st @ [(v, 1)]\<rparr>) (length (arcs st)) = 1" by (simp add: strong_count_def)
  show "registered b s st'"
    using assms(2) b' registered_retain [OF b'] new by (auto simp: register_owned_def Let_def registered_def registry_ok_def split: if_splits)
qed

lemma peer_secret_ok:
  "registry_ok st \<Longrightarrow> registry_ok (snd (peer_secret v st))" "registered b s st \<Longrightarrow> registered b s (snd (peer_secret v st))"
  by (simp_all add: peer_secret_def registered_new_arc)

lemma registered_update:
  assumes "registered a s st" "b < length (arcs st)" "b = a \<Longrightarrow> fst x = s \<and> snd x > 0"
    "snd x > 0 \<Longrightarrow> fst x = fst (arcs st ! b)" "strong_count st b > 0"
  shows "registered a s (st\<lparr>arcs := (arcs st)[b := x]\<rparr>)"
proof -
  have "registry_ok (st\<lparr>arcs := (arcs st)[b := x]\<rparr>)"
    unfolding registry_ok_def
  proof
    fix c assume "c \<in> set (registry (st\<lparr>arcs := (arcs st)[b := x]\<rparr>))"
    with assms show "c < length (arcs (st\<lparr>arcs := (arcs st)[b := x]\<rparr>)) \<and>
        (0 < strong_count (st\<lparr>arcs := (arcs st)[b := x]\<rparr>) c \<longrightarrow> MIN_SECRET_LEN \<le> length (fst (arcs (st\<lparr>arcs := (arcs st)[b := x]\<rparr>) ! c)))"
      by (cases "c = b") (auto simp: registered_def registry_ok_def strong_count_def)
  qed
  with assms show ?thesis by (cases "a = b") (auto simp: registered_def strong_count_def split: if_splits)
qed

lemma clone_handle_ok: "registered a s st \<Longrightarrow> registered a s (clone_handle b st)"
proof (cases "strong_count st b > 0")
  case True
  assume "registered a s st"
  with True show ?thesis
    unfolding clone_handle_def
    by (simp, intro registered_update) (auto simp: registered_def strong_count_def split: if_splits)
qed (simp add: clone_handle_def)

lemma drop_handle_ok:
  assumes "registered a s st" "strong_count (drop_handle b st) a > 0"
  shows "registered a s (drop_handle b st)"
proof (cases "strong_count st b = 0")
  case False
  then have b: "b < length (arcs st)" by (simp add: strong_count_def split: if_splits)
  show ?thesis
  proof (cases "strong_count st b = 1")
    case True
    then have "b \<noteq> a" using assms(2) b by (auto simp: drop_handle_def strong_count_def)
    with True b assms(1) show ?thesis unfolding drop_handle_def by (simp, intro registered_update) auto
  next
    case nolast: False
    with False b assms(1) show ?thesis unfolding drop_handle_def
      by (simp, intro registered_update) (auto simp: registered_def strong_count_def)
  qed
qed (use assms in \<open>simp add: drop_handle_def\<close>)

lemma log_event_ok:
  assumes "registered a s st" "scrubbable s" "keeps_newline lossy" "whole \<longrightarrow> (\<forall>n. io n = Written)"
  shows "registered a s (log_event lossy env f io ev st)" "log_added s whole st (log_event lossy env f io ev st)"
proof -
  obtain ok w' st' where w: "write_loop lossy io 0 \<lparr>line = le_text ev\<rparr> st = (ok, w', st')" by (metis prod_cases3)
  note added = write_loop_added [OF assms(2-4) registered_knows [OF assms(1)] w]
  then have "strong_count st' b = strong_count st b" for b by (simp add: strong_count_def)
  with added registered_retain [OF assms(1)] assms(1) have "registered a s st'"
    by (auto simp: registered_def registry_ok_def)
  with added w assms(1) show "registered a s (log_event lossy env f io ev st)" "log_added s whole st (log_event lossy env f io ev st)"
    by (simp_all add: log_event_def writer_write_def)
qed

text \<open>The handle is held after every action.\<close>

fun held :: "(LogState \<Rightarrow> action \<Rightarrow> LogState) \<Rightarrow> nat \<Rightarrow> LogState \<Rightarrow> action list \<Rightarrow> bool" where
  "held step a st [] \<longleftrightarrow> strong_count st a > 0"
| "held step a st (x # xs) \<longleftrightarrow> strong_count st a > 0 \<and> held step a (step st x) xs"

primrec writes_whole :: "action \<Rightarrow> bool" where
  "writes_whole (Register v) = True"
| "writes_whole (Peer v) = True"
| "writes_whole (Clone a) = True"
| "writes_whole (Drop a) = True"
| "writes_whole (Log ev io) = (\<forall>n. io n = Written)"

lemma log_step_ok:
  assumes "registered a s st" "scrubbable s" "keeps_newline lossy" "whole \<longrightarrow> writes_whole x"
    "strong_count (log_step lossy env f st x) a > 0"
  shows "registered a s (log_step lossy env f st x)" "log_added s whole st (log_step lossy env f st x)"
proof -
  have ok: "registry_ok st" using assms(1) by (simp add: registered_def)
  have "registered a s (log_step lossy env f st x) \<and> log_added s whole st (log_step lossy env f st x)"
  proof (cases x)
    case (Register v)
    obtain b st' where r: "register_owned v st = (b, st')" by fastforce
    from register_owned_ok(2,4) [OF ok r] assms(1) show ?thesis by (simp add: Register r)
  next
    case (Drop b)
    have "sink (drop_handle b st) = sink st" by (simp add: drop_handle_def)
    then show ?thesis using drop_handle_ok [OF assms(1)] assms(5) by (simp add: Drop)
  next
    case (Clone b)
    have "sink (clone_handle b st) = sink st" by (simp add: clone_handle_def)
    then show ?thesis using clone_handle_ok [OF assms(1)] by (simp add: Clone)
  next
    case (Log ev io)
    then show ?thesis using log_event_ok [OF assms(1-3), of whole io env f ev] assms(4) by simp
  next
    case (Peer v)
    then show ?thesis using peer_secret_ok(2) [OF assms(1)] by (simp add: peer_secret_def)
  qed
  then show "registered a s (log_step lossy env f st x)" "log_added s whole st (log_step lossy env f st x)" by simp_all
qed

lemma log_run_added:
  assumes "scrubbable s" "keeps_newline lossy"
  shows "registered a s st \<Longrightarrow> (whole \<longrightarrow> list_all writes_whole acts) \<Longrightarrow> held (log_step lossy env f) a st acts \<Longrightarrow>
    log_added s whole st (foldl (log_step lossy env f) st acts)"
proof (induction acts arbitrary: st)
  case (Cons x acts)
  have "strong_count (log_step lossy env f st x) a > 0" using Cons.prems(3) by (cases acts) auto
  from log_step_ok [OF Cons.prems(1) assms _ this, of whole] Cons.prems
  have "registered a s (log_step lossy env f st x)" "log_added s whole st (log_step lossy env f st x)" by auto
  with Cons log_added_trans show ?case by auto
qed simp

text \<open>
  C30. A secret never reaches the log while a handle to it is held: from its registration on,
  whatever is registered, dropped and logged besides, and whichever writes fail half way, no
  write to the log contains it; and when no write fails the whole log after the registration
  does not contain it either, not even across lines. The secret is to have at least four
  bytes, no line end and no bracket, and must not be a part of the placeholder's own word.
\<close>

theorem held_secret_never_logged:
  assumes "registry_ok st0" "register_owned s st0 = (a, st)" "length s \<ge> MIN_SECRET_LEN" "scrubbable s" "NL \<notin> set s"
    "keeps_newline lossy" "held (log_step lossy env f) a st acts"
  shows "\<exists>new. sink (foldl (log_step lossy env f) st acts) = sink st0 @ new \<and>
    (\<forall>chunk \<in> set new. \<not> sublist s chunk) \<and> (list_all writes_whole acts \<longrightarrow> \<not> sublist s (concat new))"
proof -
  have reg: "registered a s st" "sink st = sink st0" using register_owned_ok(2,3) [OF assms(1,2)] assms(3) by auto
  let ?whole = "list_all writes_whole acts"
  have "log_added s ?whole st (foldl (log_step lossy env f) st acts)"
    using log_run_added [OF assms(4,6) reg(1) _ assms(7), of ?whole] by blast
  then obtain new where new: "sink (foldl (log_step lossy env f) st acts) = sink st0 @ new"
    "\<forall>c \<in> set new. \<not> sublist s c \<and> (?whole \<longrightarrow> closed_by {CHR '']'', NL} c)"
    using reg(2) by (auto simp: log_added_def)
  moreover have "\<not> sublist s (concat new)" if ?whole
    using new(2) that assms(4,5) by (intro concat_clean [of s new "{CHR '']'', NL}"]) (auto simp: scrubbable_def)
  ultimately show ?thesis by blast
qed

definition demo_log :: LogState where
  "demo_log = \<lparr>arcs = [], registry = [], sink = []\<rparr>"

theorem held_secret_never_logged_witness:
  "\<exists>new. sink (foldl (log_step id (\<lambda>_. True) \<lparr>release = True\<rparr>) (snd (register_owned ''hunter2'' demo_log))
       [Log \<lparr>le_target = ''protonwire'', le_level = INFO, le_text = ''password hunter2'' @ [NL]\<rparr> (\<lambda>_. Written)]) = new \<and>
     \<not> sublist ''hunter2'' (concat new)"
proof -
  let ?f = "log_step id (\<lambda>_. True) \<lparr>release = True\<rparr>" and ?st = "snd (register_owned ''hunter2'' demo_log)"
  let ?acts = "[Log \<lparr>le_target = ''protonwire'', le_level = INFO, le_text = ''password hunter2'' @ [NL]\<rparr> (\<lambda>_. Written)]"
  have r: "register_owned ''hunter2'' demo_log = (0, ?st)"
    by (simp add: register_owned_def demo_log_def Let_def)
  have ok: "registry_ok demo_log" by (simp add: registry_ok_def demo_log_def)
  have reg: "registered 0 ''hunter2'' ?st" using register_owned_ok(3) [OF ok r] by (simp add: MIN_SECRET_LEN_def)
  have s: "scrubbable ''hunter2''" "NL \<notin> set ''hunter2''" by (simp_all add: scrubbable_def NL_def sublist_code)
  have n: "keeps_newline id" by (simp add: keeps_newline_def)
  have "registered 0 ''hunter2'' (?f ?st (hd ?acts))" using log_event_ok(1) [OF reg s(1) n, of False] by simp
  then have "held ?f 0 ?st ?acts" using reg by (simp add: registered_def)
  from held_secret_never_logged [OF ok r _ s n this] show ?thesis by (auto simp: MIN_SECRET_LEN_def demo_log_def)
qed

section \<open>What the filter covers\<close>

text \<open>A module path is its segments joined by double colons.\<close>

fun path :: "string list \<Rightarrow> string" where
  "path [] = []"
| "path [x] = x"
| "path (x # y # ys) = x @ ''::'' @ path (y # ys)"

definition segment :: "string \<Rightarrow> bool" where
  "segment x \<longleftrightarrow> x \<noteq> [] \<and> CHR '':'' \<notin> set x"

definition at_boundary :: "string \<Rightarrow> bool" where
  "at_boundary r \<longleftrightarrow> r = [] \<or> (\<exists>q. r = ''::'' @ q)"

lemma starts_with_iff: "starts_with s p \<longleftrightarrow> (\<exists>r. s = p @ r)"
  by (metis append_eq_conv_conj append_take_drop_id starts_with_def)

lemma target_matches_iff: "target_matches x p \<longleftrightarrow> (\<exists>r. x = p @ r \<and> at_boundary r)"
  by (auto simp: target_matches_def starts_with_iff at_boundary_def Let_def)

lemma takeWhile_boundary: "CHR '':'' \<notin> set x \<Longrightarrow> at_boundary r \<Longrightarrow> takeWhile (\<lambda>c. c \<noteq> CHR '':'') (x @ r) = x"
  by (subst takeWhile_append2) (auto simp: at_boundary_def)

lemma path_Cons: "\<exists>r. path (x # xs) = x @ r \<and> at_boundary r \<and> (xs = [] \<longrightarrow> r = []) \<and> (xs \<noteq> [] \<longrightarrow> r = ''::'' @ path xs)"
  by (cases xs) (auto simp: at_boundary_def)

lemma segment_cancel:
  assumes "segment x" "segment y" "at_boundary r" "at_boundary q" "x @ r = y @ q"
  shows "x = y" "r = q"
proof -
  have "x = takeWhile (\<lambda>c. c \<noteq> CHR '':'') (x @ r)" "y = takeWhile (\<lambda>c. c \<noteq> CHR '':'') (y @ q)"
    using takeWhile_boundary [of x r] takeWhile_boundary [of y q] assms(1-4) by (simp_all add: segment_def)
  then show "x = y" using assms(5) by simp
  then show "r = q" using assms(5) by simp
qed

lemma path_append: "xs \<noteq> [] \<Longrightarrow> ys \<noteq> [] \<Longrightarrow> path (xs @ ys) = path xs @ ''::'' @ path ys"
  by (induction xs rule: path.induct) (auto simp: neq_Nil_conv)

lemma target_matches_path:
  "ms \<noteq> [] \<Longrightarrow> list_all segment ms \<Longrightarrow> list_all segment ts \<Longrightarrow> target_matches (path ts) (path ms) \<longleftrightarrow> prefix ms ts"
proof (induction ms arbitrary: ts)
  case (Cons m ms)
  obtain rm where rm: "path (m # ms) = m @ rm" "at_boundary rm" "ms = [] \<longrightarrow> rm = []" "ms \<noteq> [] \<longrightarrow> rm = ''::'' @ path ms"
    using path_Cons [of m ms] by blast
  show ?case
  proof (cases ts)
    case Nil
    then show ?thesis using Cons.prems by (auto simp: target_matches_iff rm(1) segment_def)
  next
    case (Cons t ts')
    obtain rt where rt: "path (t # ts') = t @ rt" "at_boundary rt" "ts' = [] \<longrightarrow> rt = []" "ts' \<noteq> [] \<longrightarrow> rt = ''::'' @ path ts'"
      using path_Cons [of t ts'] by blast
    have seg: "segment m" "segment t" "list_all segment ms" "list_all segment ts'"
      using Cons.prems Cons \<open>list_all segment ts\<close> by auto
    have bound: "at_boundary (rm @ r)" if "at_boundary r" for r using that rm(2) by (auto simp: at_boundary_def)
    have "target_matches (path ts) (path (m # ms)) \<longleftrightarrow> (\<exists>r. t @ rt = m @ rm @ r \<and> at_boundary r)"
      by (simp add: target_matches_iff Cons rt(1) rm(1))
    also have "\<dots> \<longleftrightarrow> t = m \<and> target_matches rt rm"
      using segment_cancel [OF seg(2,1) rt(2) bound] by (auto simp: target_matches_iff)
    also have "target_matches rt rm \<longleftrightarrow> prefix ms ts'"
    proof (cases "ms = [] \<or> ts' = []")
      case True
      then show ?thesis using rm(3,4) rt(2,3) by (auto simp: target_matches_iff at_boundary_def)
    next
      case False
      then show ?thesis using Cons.IH [of ts'] seg rm(4) rt(4) by (simp add: target_matches_iff)
    qed
    finally show ?thesis by (auto simp: Cons)
  qed
qed simp

text \<open>The two tables as module trees.\<close>

definition dropped_trees :: "string list list" where
  "dropped_trees = [[''muon'', ''common'', ''auth'']]"

definition capped_trees :: "(string list \<times> Level) list" where
  "capped_trees =
     [([''muon'', ''auth'', ''login''], WARN), ([''muon'', ''auth'', ''from_fork''], WARN), ([''muon'', ''store''], WARN),
      ([''muon'', ''client''], WARN), ([''muon'', ''transport''], ERROR), ([''muon'', ''common'', ''retry''], WARN),
      ([''muon'', ''doh''], INFO), ([''pvpnclient''], DEBUG)]"

lemma trees_paths:
  "map path dropped_trees = MODULE_DROP_ALL" "map (\<lambda>(m, cap). (path m, cap)) capped_trees = MODULE_CAPS"
  by (simp_all add: dropped_trees_def capped_trees_def MODULE_DROP_ALL_def MODULE_CAPS_def)

lemma trees_segments:
  "\<forall>m \<in> set dropped_trees. m \<noteq> [] \<and> list_all segment m" "\<forall>(m, cap) \<in> set capped_trees. m \<noteq> [] \<and> list_all segment m"
  by (simp_all add: dropped_trees_def capped_trees_def segment_def)

text \<open>
  The suppression works on module trees: an event passes exactly when its module lies in
  no dropped tree, is not more verbose than the cap of any tree it lies in, and, in a release
  build, is not a trace event of a crate whose name does not begin with the project's. A
  module whose name merely begins like a listed one is not affected.
\<close>

theorem suppression_follows_module_trees:
  assumes "ts \<noteq> []" "list_all segment ts"
  shows "allows f (path ts) level \<longleftrightarrow>
    (\<forall>m \<in> set dropped_trees. \<not> prefix m ts) \<and>
    (\<forall>(m, cap) \<in> set capped_trees. prefix m ts \<longrightarrow> verbosity level \<le> verbosity cap) \<and>
    (release f \<and> level = TRACE \<longrightarrow> starts_with (hd ts) OWN_TARGET_PREFIX)"
proof -
  have trace: "verbosity level > verbosity DEPENDENCY_RELEASE_CAP \<longleftrightarrow> level = TRACE"
    by (cases level) (simp_all add: DEPENDENCY_RELEASE_CAP_def)
  have drop: "list_ex (\<lambda>m. target_matches (path ts) m) MODULE_DROP_ALL \<longleftrightarrow> (\<exists>m \<in> set dropped_trees. prefix m ts)"
    unfolding trees_paths(1) [symmetric] using trees_segments(1) target_matches_path [OF _ _ assms(2)]
    by (auto simp: list_ex_iff)
  have caps: "list_ex (\<lambda>(m, cap). verbosity level > verbosity cap \<and> target_matches (path ts) m) MODULE_CAPS \<longleftrightarrow>
      (\<exists>(m, cap) \<in> set capped_trees. verbosity level > verbosity cap \<and> prefix m ts)"
    unfolding trees_paths(2) [symmetric] list_ex_iff set_map bex_simps
    by (rule bex_cong [OF refl]) (use trees_segments(2) target_matches_path [OF _ _ assms(2)] in auto)
  have own: "starts_with (path ts) OWN_TARGET_PREFIX \<longleftrightarrow> starts_with (hd ts) OWN_TARGET_PREFIX"
  proof -
    obtain t r where t: "ts = t # tl ts" "path ts = t @ r" "at_boundary r" "segment t"
      using assms path_Cons [of "hd ts" "tl ts"] by (cases ts) auto
    have colon: "CHR '':'' \<notin> set OWN_TARGET_PREFIX" by (simp add: OWN_TARGET_PREFIX_def)
    have "starts_with t OWN_TARGET_PREFIX" if "t @ r = OWN_TARGET_PREFIX @ q" for q
    proof -
      have "t = takeWhile (\<lambda>c. c \<noteq> CHR '':'') (OWN_TARGET_PREFIX @ q)"
        using takeWhile_boundary [of t r] t(3,4) that by (simp add: segment_def)
      also have "\<dots> = OWN_TARGET_PREFIX @ takeWhile (\<lambda>c. c \<noteq> CHR '':'') q"
        by (rule takeWhile_append2) (use colon in auto)
      finally show ?thesis by (auto simp: starts_with_iff)
    qed
    then show ?thesis using t(1) unfolding t(2) starts_with_iff by (metis append.assoc list.sel(1))
  qed
  have "(\<exists>(m, cap) \<in> set capped_trees. verbosity level > verbosity cap \<and> prefix m ts) \<longleftrightarrow>
      \<not> (\<forall>(m, cap) \<in> set capped_trees. prefix m ts \<longrightarrow> verbosity level \<le> verbosity cap)"
    unfolding Ball_def Bex_def split_def not_all not_imp not_le by blast
  then show ?thesis unfolding allows_def drop caps trace own by auto
qed

theorem suppression_follows_module_trees_witness:
  "\<not> allows \<lparr>release = False\<rparr> ''muon::transport::http::req'' WARN \<and> allows \<lparr>release = True\<rparr> ''muon::transporter'' WARN"
proof -
  have "list_all segment [''muon'', ''transport'', ''http'', ''req'']" "list_all segment [''muon'', ''transporter'']"
    by (simp_all add: segment_def)
  from suppression_follows_module_trees [OF _ this(1), of "\<lparr>release = False\<rparr>" WARN]
    suppression_follows_module_trees [OF _ this(2), of "\<lparr>release = True\<rparr>" WARN]
  show ?thesis by (simp add: dropped_trees_def capped_trees_def)
qed

text \<open>The limit of scrubbing by lines: a secret with a line end inside is logged whole.\<close>

definition two_lines :: string where
  "two_lines = ''abc'' @ NL # ''def''"

lemma two_line_secret_is_logged:
  "concat (sink (log_event id (\<lambda>_. True) \<lparr>release = True\<rparr> (\<lambda>_. Written)
     \<lparr>le_target = ''protonwire'', le_level = INFO, le_text = two_lines @ [NL]\<rparr> (snd (register_owned two_lines demo_log)))) =
   two_lines @ [NL]"
  by code_simp

end
