(* ===== verification/Latency_Probe.thy ===== *)
theory Latency_Probe
  imports Prelude "HOL-Library.Sublist"
begin

text \<open>
  Bounded on-demand latency probing (\<open>crates/core/src/probe.rs\<close>): the pure planner that
  decides per endpoint whether to probe, to reuse a prior observation or to skip, and the
  run that executes a plan in windows of concurrent probes. The executor is the trait the
  caller implements; it is a parameter over a world \<open>'x\<close> in which time passes: what the
  \<open>i\<close>-th worker of a window answers, the world when the window has been joined, and the
  cancellation poll. The lemmas bound a run by its budget and by the two clocks of an
  endpoint, keep the caller's priority order under cancellation, and account for every
  entry of the resulting table.
\<close>

section \<open>Data\<close>

record Observation =
  rtt :: Duration

record ProbeBudget =
  max_probes_per_run :: usize
  min_probe_interval :: Duration
  min_reuse_age :: Duration

definition ProbeBudget_default :: ProbeBudget where
  "ProbeBudget_default = \<lparr>max_probes_per_run = 8, min_probe_interval = from_secs 60, min_reuse_age = from_secs 300\<rparr>"

record EndpointState =
  observation :: "Observation option"
  observed_at_ms :: u64
  last_attempt_ms :: u64

definition EndpointState_default :: EndpointState where
  "EndpointState_default = \<lparr>observation = None, observed_at_ms = 0, last_attempt_ms = 0\<rparr>"

record 'x ProbeExecutor =
  probe :: "'x \<Rightarrow> nat \<Rightarrow> string \<Rightarrow> Duration option"
  joined :: "'x \<Rightarrow> string list \<Rightarrow> 'x"
  cancelled :: "'x \<Rightarrow> bool \<times> 'x"

datatype ProbeDecision = Probe | Reuse Observation | RateLimited

type_synonym ProbeStates = "(string, EndpointState) btree"
type_synonym ProbeDecisions = "(string, ProbeDecision) btree"

section \<open>The planner\<close>

definition age_of :: "u64 \<Rightarrow> u64 \<Rightarrow> Duration" where
  "age_of now_ms then_ms = from_millis (saturating_sub now_ms then_ms)"

definition decide :: "ProbeBudget \<Rightarrow> u64 \<Rightarrow> EndpointState option \<Rightarrow> ProbeDecision" where
  "decide budget now_ms entry =
     (case entry of
        Some st \<Rightarrow>
          (case observation st of
             Some obs \<Rightarrow>
               if duration_less (age_of now_ms (observed_at_ms st)) (min_reuse_age budget) then Reuse obs
               else if duration_less (age_of now_ms (last_attempt_ms st)) (min_probe_interval budget) then RateLimited
               else Probe
           | None \<Rightarrow>
               if duration_less (age_of now_ms (last_attempt_ms st)) (min_probe_interval budget) then RateLimited
               else Probe)
      | None \<Rightarrow> Probe)"

fun plan_loop :: "ProbeStates \<Rightarrow> ProbeBudget \<Rightarrow> u64 \<Rightarrow> string list \<Rightarrow> usize \<Rightarrow> ProbeDecisions \<Rightarrow> ProbeDecisions" where
  "plan_loop state budget now_ms [] probes_budgeted decisions = decisions"
| "plan_loop state budget now_ms (endpoint # shortlist) probes_budgeted decisions =
     (let decision = decide budget now_ms (btree_get state endpoint);
          decision = (if decision = Probe \<and> probes_budgeted \<ge> max_probes_per_run budget then RateLimited else decision)
      in plan_loop state budget now_ms shortlist
           (if decision = Probe then probes_budgeted + 1 else probes_budgeted)
           (btree_insert endpoint decision decisions))"

definition plan_run :: "string list \<Rightarrow> ProbeStates \<Rightarrow> ProbeBudget \<Rightarrow> u64 \<Rightarrow> ProbeDecisions" where
  "plan_run shortlist state budget now_ms = plan_loop state budget now_ms shortlist 0 []"

section \<open>The run\<close>

definition window_answers :: "'x ProbeExecutor \<Rightarrow> 'x \<Rightarrow> string list \<Rightarrow> Observation option list" where
  "window_answers ex x window =
     map (\<lambda>i. map_option (\<lambda>d. \<lparr>rtt = d\<rparr>) (probe ex x i (window ! i))) [0..<length window]"

fun insert_answers :: "string list \<Rightarrow> Observation option list \<Rightarrow> (string, Observation) btree \<Rightarrow> (string, Observation) btree" where
  "insert_answers (endpoint # window) (answer # answers) table =
     insert_answers window answers (case answer of Some obs \<Rightarrow> btree_insert endpoint obs table | None \<Rightarrow> table)"
| "insert_answers _ _ table = table"

definition flush_window :: "'x ProbeExecutor \<Rightarrow> string list \<Rightarrow> (string, Observation) btree \<Rightarrow> string list \<Rightarrow> 'x \<Rightarrow>
    (string, Observation) btree \<times> string list \<times> 'x" where
  "flush_window ex window table attempted x =
     (if window = [] then (table, attempted, x)
      else (insert_answers window (window_answers ex x window) table, attempted @ window, joined ex x window))"

fun run_loop :: "ProbeDecisions \<Rightarrow> ProbeStates \<Rightarrow> 'x ProbeExecutor \<Rightarrow> usize \<Rightarrow> string list \<Rightarrow> string list \<Rightarrow>
    (string, Observation) btree \<Rightarrow> string list \<Rightarrow> 'x \<Rightarrow> string list \<times> (string, Observation) btree \<times> string list \<times> 'x" where
  "run_loop decisions state ex parallelism [] window table attempted x = (window, table, attempted, x)"
| "run_loop decisions state ex parallelism (endpoint # shortlist) window table attempted x =
     (case btree_get decisions endpoint of
        Some (Reuse obs) \<Rightarrow>
          run_loop decisions state ex parallelism shortlist window (btree_insert endpoint obs table) attempted x
      | Some RateLimited \<Rightarrow>
          run_loop decisions state ex parallelism shortlist window
            (case btree_get state endpoint of
               Some st \<Rightarrow> (case observation st of Some obs \<Rightarrow> btree_insert endpoint obs table | None \<Rightarrow> table)
             | None \<Rightarrow> table) attempted x
      | Some Probe \<Rightarrow>
          (let (stop, x) = cancelled ex x in
           if stop then (window, table, attempted, x)
           else if length (window @ [endpoint]) \<ge> parallelism then
             (let (table, attempted, x) = flush_window ex (window @ [endpoint]) table attempted x
              in run_loop decisions state ex parallelism shortlist [] table attempted x)
           else run_loop decisions state ex parallelism shortlist (window @ [endpoint]) table attempted x)
      | None \<Rightarrow> run_loop decisions state ex parallelism shortlist window table attempted x)"

record ProbeRun =
  observations :: "(string, Observation) btree"
  attempted :: "string list"

definition run_planned :: "string list \<Rightarrow> ProbeDecisions \<Rightarrow> ProbeStates \<Rightarrow> 'x ProbeExecutor \<Rightarrow> usize \<Rightarrow> 'x \<Rightarrow> ProbeRun \<times> 'x" where
  "run_planned shortlist decisions state ex parallelism x =
     (let (window, table, started, x) = run_loop decisions state ex (max parallelism 1) shortlist [] [] [] x;
          (table, started, x) = flush_window ex window table started x
      in (\<lparr>observations = table, attempted = started\<rparr>, x))"

section \<open>What a plan decides\<close>

text \<open>An endpoint may be probed: neither of its clocks is inside its window.\<close>

definition probeable :: "ProbeBudget \<Rightarrow> u64 \<Rightarrow> EndpointState option \<Rightarrow> bool" where
  "probeable budget now_ms entry \<longleftrightarrow>
     (\<forall>st. entry = Some st \<longrightarrow>
        \<not> duration_less (age_of now_ms (last_attempt_ms st)) (min_probe_interval budget) \<and>
        (observation st \<noteq> None \<longrightarrow> \<not> duration_less (age_of now_ms (observed_at_ms st)) (min_reuse_age budget)))"

lemma decide_Probe_iff: "decide budget now_ms entry = Probe \<longleftrightarrow> probeable budget now_ms entry"
  by (auto simp: decide_def probeable_def split: option.splits)

lemma decide_Reuse:
  "decide budget now_ms entry = Reuse obs \<longleftrightarrow>
     (\<exists>st. entry = Some st \<and> observation st = Some obs \<and>
        duration_less (age_of now_ms (observed_at_ms st)) (min_reuse_age budget))"
  by (auto simp: decide_def split: option.splits)

lemma plan_loop_other: "e \<notin> set es \<Longrightarrow> btree_get (plan_loop st b now es n d) e = btree_get d e"
  by (induction es arbitrary: n d) (auto simp: Let_def)

lemma plan_loop_decides:
  "e \<in> set es \<Longrightarrow> \<exists>dec. btree_get (plan_loop st b now es n d) e = Some dec \<and>
     (dec = decide b now (btree_get st e) \<or> dec = RateLimited \<and> decide b now (btree_get st e) = Probe)"
proof (induction es arbitrary: n d)
  case (Cons e' es)
  show ?case
  proof (cases "e \<in> set es")
    case True
    with Cons.IH show ?thesis by (simp add: Let_def)
  next
    case False
    with Cons.prems show ?thesis by (auto simp: Let_def plan_loop_other)
  qed
qed simp

lemma plan_loop_exhausted:
  "\<lbrakk>e \<in> set es; max_probes_per_run b \<le> n\<rbrakk> \<Longrightarrow> btree_get (plan_loop st b now es n d) e \<noteq> Some Probe"
proof (induction es arbitrary: n d)
  case (Cons e' es)
  then show ?case by (cases "e \<in> set es") (auto simp: Let_def plan_loop_other)
qed simp

text \<open>However often endpoints repeat in the shortlist, the planned entries fit the budget.\<close>

lemma plan_loop_budget:
  "n \<le> max_probes_per_run b \<Longrightarrow>
   n + length (filter (\<lambda>e. btree_get (plan_loop st b now es n d) e = Some Probe) es) \<le> max_probes_per_run b"
proof (induction es arbitrary: n d)
  case (Cons e es)
  let ?cap = "max_probes_per_run b"
  let ?dec = "if decide b now (btree_get st e) = Probe \<and> ?cap \<le> n then RateLimited else decide b now (btree_get st e)"
  let ?n = "if ?dec = Probe then n + 1 else n"
  let ?fin = "plan_loop st b now es ?n (btree_insert e ?dec d)"
  have fin: "plan_loop st b now (e # es) n d = ?fin" by (simp add: Let_def)
  have n: "?n \<le> ?cap" using Cons.prems by auto
  show ?case
  proof (cases "btree_get ?fin e = Some Probe")
    case True
    have "?dec = Probe"
    proof (cases "e \<in> set es")
      case e: True
      from plan_loop_decides [OF e, of st b now ?n "btree_insert e ?dec d"] True
      have "decide b now (btree_get st e) = Probe" by auto
      moreover have "\<not> ?cap \<le> ?n" using plan_loop_exhausted [OF e] True by blast
      then have "\<not> ?cap \<le> n" by (auto split: if_splits)
      ultimately show ?thesis by simp
    next
      case False
      with True show ?thesis by (simp add: plan_loop_other)
    qed
    with Cons.IH [OF n, of "btree_insert e ?dec d"] True show ?thesis unfolding fin by simp
  next
    case False
    have "n \<le> ?n" by simp
    with Cons.IH [OF n, of "btree_insert e ?dec d"] False show ?thesis unfolding fin by simp
  qed
qed simp

definition planned :: "ProbeDecisions \<Rightarrow> string list \<Rightarrow> string list" where
  "planned decisions shortlist = filter (\<lambda>e. btree_get decisions e = Some Probe) shortlist"

lemma planned_bounded: "length (planned (plan_run es st b now) es) \<le> max_probes_per_run b"
  using plan_loop_budget [of 0 b st now es "[]"] by (simp add: planned_def plan_run_def)

lemma planned_probeable:
  assumes "e \<in> set (planned (plan_run es st b now) es)"
  shows "e \<in> set es \<and> probeable b now (btree_get st e)"
  using assms plan_loop_decides [of e es st b now 0 "[]"]
  by (auto simp: planned_def plan_run_def simp flip: decide_Probe_iff)

lemma plan_run_other: "e \<notin> set es \<Longrightarrow> btree_get (plan_run es st b now) e = None"
  by (simp add: plan_run_def plan_loop_other)

lemma plan_run_Reuse:
  assumes "btree_get (plan_run es st b now) e = Some (Reuse obs)"
  shows "e \<in> set es \<and> decide b now (btree_get st e) = Reuse obs"
proof -
  have "e \<in> set es" using assms plan_run_other by fastforce
  with plan_loop_decides [OF this, of st b now 0 "[]"] assms show ?thesis by (auto simp: plan_run_def)
qed

section \<open>What a run does\<close>

abbreviation uncancelled :: "'x ProbeExecutor \<Rightarrow> bool" where
  "uncancelled ex \<equiv> \<forall>x. \<not> fst (cancelled ex x)"

lemma flush_window_started [simp]: "fst (snd (flush_window ex w t a x)) = a @ w"
  by (simp add: flush_window_def)

lemma run_loop_started:
  assumes "run_loop dec st ex p es w t a x = (w', t', a', x')"
  shows "\<exists>k. a' @ w' = a @ w @ take k (planned dec es) \<and> (uncancelled ex \<longrightarrow> length (planned dec es) \<le> k)"
  using assms
proof (induction es arbitrary: w t a x)
  case Nil
  then show ?case by (auto simp: planned_def)
next
  case (Cons e es)
  show ?case
  proof (cases "btree_get dec e = Some Probe")
    case True
    obtain stop y where c: "cancelled ex x = (stop, y)" by (cases "cancelled ex x")
    obtain t1 a1 y1 where f: "flush_window ex (w @ [e]) t a y = (t1, a1, y1)" by (cases "flush_window ex (w @ [e]) t a y")
    have a1: "a1 = a @ w @ [e]" using flush_window_started [of ex "w @ [e]" t a y] f by simp
    have Suc: "planned dec (e # es) = e # planned dec es" using True by (simp add: planned_def)
    consider "stop" | "\<not> stop" "p \<le> length (w @ [e])" | "\<not> stop" "\<not> p \<le> length (w @ [e])" by blast
    then show ?thesis
    proof cases
      case 1
      with c have "\<not> uncancelled ex" by (auto intro!: exI [of _ x])
      with 1 c True Cons.prems show ?thesis by (auto intro!: exI [of _ 0])
    next
      case s: 2
      from s c True f Cons.prems have "run_loop dec st ex p es [] t1 a1 y1 = (w', t', a', x')" by simp
      from Cons.IH [OF this] obtain k
        where "a' @ w' = a1 @ [] @ take k (planned dec es)" "uncancelled ex \<longrightarrow> length (planned dec es) \<le> k" by auto
      with a1 Suc show ?thesis by (intro exI [of _ "Suc k"]) simp
    next
      case s: 3
      from s c True Cons.prems have "run_loop dec st ex p es (w @ [e]) t a y = (w', t', a', x')" by simp
      from Cons.IH [OF this] obtain k
        where "a' @ w' = a @ (w @ [e]) @ take k (planned dec es)" "uncancelled ex \<longrightarrow> length (planned dec es) \<le> k" by auto
      with Suc show ?thesis by (intro exI [of _ "Suc k"]) simp
    qed
  next
    case False
    then have "planned dec (e # es) = planned dec es" by (simp add: planned_def)
    with False Cons show ?thesis by (auto split: option.splits ProbeDecision.splits)
  qed
qed

text \<open>The value a run takes over for an endpoint it does not probe.\<close>

definition prior_of :: "ProbeDecisions \<Rightarrow> ProbeStates \<Rightarrow> string \<Rightarrow> Observation option" where
  "prior_of dec st e =
     (case btree_get dec e of
        Some (Reuse obs) \<Rightarrow> Some obs
      | Some RateLimited \<Rightarrow> Option.bind (btree_get st e) observation
      | _ \<Rightarrow> None)"

lemma run_loop_step_prior:
  assumes "btree_get dec e \<noteq> Some Probe"
  shows "run_loop dec st ex p (e # es) w t a x =
    run_loop dec st ex p es w (case prior_of dec st e of Some obs \<Rightarrow> btree_insert e obs t | None \<Rightarrow> t) a x"
  using assms by (auto simp: prior_of_def split: option.splits ProbeDecision.splits)

lemma run_loop_step_probe:
  assumes "btree_get dec e = Some Probe"
  shows "run_loop dec st ex p (e # es) w t a x =
    (if fst (cancelled ex x) then (w, t, a, snd (cancelled ex x))
     else if p \<le> length (w @ [e]) then
       run_loop dec st ex p es [] (insert_answers (w @ [e]) (window_answers ex (snd (cancelled ex x)) (w @ [e])) t) (a @ w @ [e])
         (joined ex (snd (cancelled ex x)) (w @ [e]))
     else run_loop dec st ex p es (w @ [e]) t a (snd (cancelled ex x)))"
  using assms by (simp add: flush_window_def split: prod.split)

declare run_loop.simps(2) [simp del]

lemma run_loop_invariant:
  assumes run: "run_loop dec st ex p es w t a x = (w', t', a', x')" and start: "I w t a"
    and prior: "\<And>e obs w t a. prior_of dec st e = Some obs \<Longrightarrow> I w t a \<Longrightarrow> I w (btree_insert e obs t) a"
    and push: "\<And>e w t a. btree_get dec e = Some Probe \<Longrightarrow> I w t a \<Longrightarrow> I (w @ [e]) t a"
    and flush: "\<And>w t a x. I w t a \<Longrightarrow> I [] (insert_answers w (window_answers ex x w) t) (a @ w)"
  shows "I w' t' a'"
  using run start
proof (induction es arbitrary: w t a x)
  case (Cons e es)
  show ?case
  proof (cases "btree_get dec e = Some Probe")
    case True
    have "I (w @ [e]) t a" using push True Cons.prems(2) by blast
    with Cons show ?thesis
      using flush [of "w @ [e]" t a] by (auto simp: run_loop_step_probe [OF True] split: if_splits)
  next
    case False
    with Cons show ?thesis by (auto simp: run_loop_step_prior prior split: option.splits)
  qed
qed simp

lemma insert_answers_get:
  assumes "btree_get (insert_answers w ans t) e = Some obs" and "length ans = length w"
  shows "btree_get t e = Some obs \<or> (\<exists>i < length w. w ! i = e \<and> ans ! i = Some obs)"
  using assms(2,1)
proof (induction ans w arbitrary: t rule: list_induct2)
  case (Cons y ys v vs)
  then have "btree_get (case y of Some obs \<Rightarrow> btree_insert v obs t | None \<Rightarrow> t) e = Some obs \<or>
      (\<exists>i<length vs. vs ! i = e \<and> ys ! i = Some obs)" by simp
  then show ?case
  proof
    assume "btree_get (case y of Some obs \<Rightarrow> btree_insert v obs t | None \<Rightarrow> t) e = Some obs"
    then have "btree_get t e = Some obs \<or> v = e \<and> y = Some obs" by (auto split: option.splits if_splits)
    then show ?thesis by (auto intro!: exI [of _ 0])
  next
    assume "\<exists>i<length vs. vs ! i = e \<and> ys ! i = Some obs"
    then obtain i where "i < length vs" "vs ! i = e" "ys ! i = Some obs" by blast
    then show ?thesis by (intro disjI2 exI [of _ "Suc i"]) simp
  qed
qed simp

lemma insert_answers_other: "e \<notin> set w \<Longrightarrow> btree_get (insert_answers w ans t) e = btree_get t e"
  by (induction w ans t rule: insert_answers.induct) (auto split: option.splits)

lemma window_answer_get:
  assumes "btree_get (insert_answers w (window_answers ex x w) t) e = Some obs"
  shows "btree_get t e = Some obs \<or> e \<in> set w \<and> (\<exists>i. probe ex x i e = Some (rtt obs))"
  using insert_answers_get [OF assms] by (fastforce simp: window_answers_def)

text \<open>Every entry of the table: a prior taken over, or the answer of an attempted probe.\<close>

definition accounted :: "ProbeDecisions \<Rightarrow> ProbeStates \<Rightarrow> 'x ProbeExecutor \<Rightarrow> (string, Observation) btree \<Rightarrow> string list \<Rightarrow> bool" where
  "accounted dec st ex t a \<longleftrightarrow>
     (\<forall>e obs. btree_get t e = Some obs \<longrightarrow>
        prior_of dec st e = Some obs \<or> e \<in> set a \<and> (\<exists>x i. probe ex x i e = Some (rtt obs)))"

lemma accounted_flush: "accounted dec st ex t a \<Longrightarrow> accounted dec st ex (insert_answers w (window_answers ex x w) t) (a @ w)"
  unfolding accounted_def using window_answer_get [of w ex x t] by fastforce

lemma run_planned_cases:
  assumes "run_planned es dec st ex p x = (r, y)"
  obtains w t a z where "run_loop dec st ex (max p 1) es [] [] [] x = (w, t, a, z)" "attempted r = a @ w"
    "observations r = insert_answers w (window_answers ex z w) t"
  using assms by (auto simp: run_planned_def flush_window_def split: prod.splits if_splits)

lemma run_planned_attempts:
  assumes "run_planned es dec st ex p x = (r, y)"
  shows "prefix (attempted r) (planned dec es)" "uncancelled ex \<Longrightarrow> attempted r = planned dec es"
proof -
  from run_planned_cases [OF assms] obtain w t a z
    where r: "run_loop dec st ex (max p 1) es [] [] [] x = (w, t, a, z)" "attempted r = a @ w" by metis
  from run_loop_started [OF r(1)] r(2) obtain k where "attempted r = take k (planned dec es)"
    "uncancelled ex \<longrightarrow> length (planned dec es) \<le> k" by auto
  then show "prefix (attempted r) (planned dec es)" "uncancelled ex \<Longrightarrow> attempted r = planned dec es"
    by (simp_all add: take_is_prefix)
qed

lemma run_planned_accounted:
  assumes "run_planned es dec st ex p x = (r, y)"
  shows "accounted dec st ex (observations r) (attempted r)"
proof -
  from run_planned_cases [OF assms] obtain w t a z
    where r: "run_loop dec st ex (max p 1) es [] [] [] x = (w, t, a, z)" "attempted r = a @ w"
      "observations r = insert_answers w (window_answers ex z w) t" by metis
  have "accounted dec st ex t a"
    by (rule run_loop_invariant [OF r(1), where I = "\<lambda>w t a. accounted dec st ex t a"])
      (simp_all add: accounted_flush, simp_all add: accounted_def)
  then show ?thesis unfolding r(2,3) by (rule accounted_flush)
qed

text \<open>An uncancelled run takes over every prior of an endpoint it does not probe.\<close>

lemma run_loop_priors:
  assumes "uncancelled ex" and "btree_get dec e \<noteq> Some Probe" and "e \<notin> set w"
    and "run_loop dec st ex p es w t a x = (w', t', a', x')"
  shows "e \<notin> set w' \<and> btree_get t' e = (if e \<in> set es \<and> prior_of dec st e \<noteq> None then prior_of dec st e else btree_get t e)"
  using assms(3,4)
proof (induction es arbitrary: w t a x)
  case (Cons f es)
  show ?case
  proof (cases "btree_get dec f = Some Probe")
    case True
    with assms(2) have f: "f \<noteq> e" by auto
    let ?y = "snd (cancelled ex x)"
    show ?thesis
    proof (cases "p \<le> length (w @ [f])")
      case flush: True
      with Cons.prems(2) assms(1) have "run_loop dec st ex p es [] (insert_answers (w @ [f]) (window_answers ex ?y (w @ [f])) t)
          (a @ w @ [f]) (joined ex ?y (w @ [f])) = (w', t', a', x')" by (simp add: run_loop_step_probe [OF True])
      from Cons.IH [OF _ this] f Cons.prems(1) show ?thesis by (auto simp: insert_answers_other)
    next
      case False
      with Cons.prems(2) assms(1) have "run_loop dec st ex p es (w @ [f]) t a ?y = (w', t', a', x')"
        by (simp add: run_loop_step_probe [OF True])
      from Cons.IH [OF _ this] f Cons.prems(1) show ?thesis by auto
    qed
  next
    case False
    from Cons.IH [OF Cons.prems(1) Cons.prems(2) [unfolded run_loop_step_prior [OF False]]] show ?thesis
      by (auto split: option.splits)
  qed
qed auto

lemma run_planned_priors:
  assumes "uncancelled ex" and "run_planned es dec st ex p x = (r, y)" and "e \<in> set es"
    and "prior_of dec st e = Some obs"
  shows "btree_get (observations r) e = Some obs"
proof -
  from run_planned_cases [OF assms(2)] obtain w t a z
    where r: "run_loop dec st ex (max p 1) es [] [] [] x = (w, t, a, z)"
      "observations r = insert_answers w (window_answers ex z w) t" by metis
  have "btree_get dec e \<noteq> Some Probe" using assms(4) by (auto simp: prior_of_def)
  from run_loop_priors [OF assms(1) this _ r(1)] assms(3,4) show ?thesis
    by (simp add: r(2) insert_answers_other)
qed

section \<open>Properties\<close>

lemma prior_of_plan:
  assumes "prior_of (plan_run es st b now) st e = Some obs"
  shows "e \<in> set es \<and> (\<exists>s. btree_get st e = Some s \<and> observation s = Some obs)"
proof -
  have "e \<in> set es" using assms plan_run_other [of e es st b now] by (auto simp: prior_of_def split: option.splits)
  then show ?thesis
    using assms by (auto simp: prior_of_def decide_Reuse dest!: plan_run_Reuse split: option.splits ProbeDecision.splits Option.bind_splits)
qed

text \<open>
  C31. A planned run is bounded and invents nothing: whatever the executor answers, whenever it
  cancels and however endpoints repeat in the shortlist, the run starts at most
  \<open>max_probes_per_run\<close> probes, a prefix in priority order of those planned, each of an endpoint of
  the shortlist whose last attempt is at least \<open>min_probe_interval\<close> old and whose observation, if it
  has one, is at least \<open>min_reuse_age\<close> old; and every round-trip time of the resulting table is the
  prior observation of its endpoint or the answer of one of the probes started for it.
\<close>

theorem probe_run_within_budget:
  assumes "run_planned es (plan_run es st b now) st ex p x = (r, y)"
  shows "length (attempted r) \<le> max_probes_per_run b \<and>
    prefix (attempted r) (planned (plan_run es st b now) es) \<and>
    (\<forall>e \<in> set (attempted r). e \<in> set es \<and> probeable b now (btree_get st e)) \<and>
    (\<forall>e obs. btree_get (observations r) e = Some obs \<longrightarrow>
      (\<exists>s. btree_get st e = Some s \<and> observation s = Some obs) \<or>
      e \<in> set (attempted r) \<and> (\<exists>x i. probe ex x i e = Some (rtt obs)))"
proof (intro conjI)
  note pre = run_planned_attempts(1) [OF assms]
  show "length (attempted r) \<le> max_probes_per_run b"
    using prefix_length_le [OF pre] planned_bounded [of es st b now] by simp
  show "prefix (attempted r) (planned (plan_run es st b now) es)" by (rule pre)
  show "\<forall>e \<in> set (attempted r). e \<in> set es \<and> probeable b now (btree_get st e)"
    using set_mono_prefix [OF pre] planned_probeable by blast
  show "\<forall>e obs. btree_get (observations r) e = Some obs \<longrightarrow>
      (\<exists>s. btree_get st e = Some s \<and> observation s = Some obs) \<or>
      e \<in> set (attempted r) \<and> (\<exists>x i. probe ex x i e = Some (rtt obs))"
    using run_planned_accounted [OF assms] prior_of_plan unfolding accounted_def by blast
qed

text \<open>A world that answers every probe in five milliseconds and is cancelled from its second poll on.\<close>

definition sample_executor :: "nat ProbeExecutor" where
  "sample_executor = \<lparr>probe = (\<lambda>x i e. Some (from_millis 5)), joined = (\<lambda>x w. x), cancelled = (\<lambda>x. (0 < x, x + 1))\<rparr>"

definition sample_state :: ProbeStates where
  "sample_state = [(''b'', \<lparr>observation = Some \<lparr>rtt = from_millis 9\<rparr>, observed_at_ms = 100000, last_attempt_ms = 390000\<rparr>)]"

lemmas probe_run_eval = run_planned_def plan_run_def run_loop.simps flush_window_def window_answers_def decide_def age_of_def
  ProbeBudget_default_def sample_executor_def sample_state_def btree_get_def duration_less_def duration_cmp_def then_with_def
  cmp_on_def from_millis_def from_secs_def saturating_sub_def less_char_def upt_rec Let_def

lemma sample_run:
  "run_planned [''b'', ''a'', ''c''] (plan_run [''b'', ''a'', ''c''] sample_state ProbeBudget_default 400000) sample_state
     sample_executor 4 0 =
   (\<lparr>observations = [(''a'', \<lparr>rtt = from_millis 5\<rparr>), (''b'', \<lparr>rtt = from_millis 9\<rparr>)], attempted = [''a'']\<rparr>, 2)"
  by (simp add: probe_run_eval)

theorem probe_run_within_budget_witness:
  "length (attempted (fst (run_planned [''b'', ''a'', ''c'']
     (plan_run [''b'', ''a'', ''c''] sample_state ProbeBudget_default 400000) sample_state sample_executor 4 0))) \<le> 8"
  using conjunct1 [OF probe_run_within_budget [OF sample_run]] unfolding sample_run by (simp add: ProbeBudget_default_def)

text \<open>
  A run that is not cancelled starts every planned probe and takes over the prior of every other
  endpoint of the shortlist; an endpoint whose probe is not answered has no entry.
\<close>

theorem uncancelled_run_is_complete:
  assumes "run_planned es (plan_run es st b now) st ex p x = (r, y)" and "uncancelled ex"
  shows "attempted r = planned (plan_run es st b now) es"
    and "\<lbrakk>e \<in> set es; btree_get st e = Some s; observation s = Some obs; e \<notin> set (attempted r)\<rbrakk>
      \<Longrightarrow> btree_get (observations r) e = Some obs"
    and "\<lbrakk>e \<in> set (attempted r); \<And>x i. probe ex x i e = None\<rbrakk> \<Longrightarrow> btree_get (observations r) e = None"
proof -
  show all: "attempted r = planned (plan_run es st b now) es" by (rule run_planned_attempts(2) [OF assms])
  show "btree_get (observations r) e = Some obs"
    if "e \<in> set es" "btree_get st e = Some s" "observation s = Some obs" "e \<notin> set (attempted r)"
  proof (rule run_planned_priors [OF assms(2,1) that(1)])
    have "btree_get (plan_run es st b now) e \<noteq> Some Probe" using that(1,4) all by (simp add: planned_def)
    with plan_loop_decides [OF that(1), of st b now 0 "[]"] that(2,3)
    show "prior_of (plan_run es st b now) st e = Some obs"
      by (auto simp: prior_of_def plan_run_def decide_def split: if_splits)
  qed
  show "btree_get (observations r) e = None" if "e \<in> set (attempted r)" "\<And>x i. probe ex x i e = None"
  proof (rule ccontr)
    assume "btree_get (observations r) e \<noteq> None"
    then obtain obs where "btree_get (observations r) e = Some obs" by blast
    then have "prior_of (plan_run es st b now) st e = Some obs"
      using run_planned_accounted [OF assms(1)] that(2) unfolding accounted_def by (metis option.distinct(1))
    with that(1) all show False by (simp add: planned_def prior_of_def)
  qed
qed

text \<open>
  Cancellation does not stop the window being filled: the poll that answers true still lets the
  endpoints collected so far start.
\<close>

lemma cancelled_run_still_starts_a_window:
  "attempted (fst (run_planned [''a'', ''b''] (plan_run [''a'', ''b''] [] ProbeBudget_default 0) [] sample_executor 2 0)) = [''a''] \<and>
   fst (cancelled sample_executor 1)"
  by (simp add: probe_run_eval)

text \<open>A cut run drops the priors of the endpoints behind the cut.\<close>

lemma cut_run_drops_later_priors:
  "btree_get (observations (fst (run_planned [''a'', ''c'', ''b'']
     (plan_run [''a'', ''c'', ''b''] sample_state ProbeBudget_default 400000) sample_state sample_executor 1 0))) ''b'' = None"
  by (simp add: probe_run_eval)

end
