(* ===== verification/Probe_Rounds.thy ===== *)
theory Probe_Rounds
  imports Latency_Probe Catalog
begin

text \<open>
  The daemon's probe rounds (\<open>ProbeTable\<close>, \<open>probe_round\<close>, \<open>TransportExecutor\<close> and
  \<open>probe_endpoint\<close> of \<open>apps/daemon/src/selection.rs\<close>): the table of endpoint states bound to a
  catalog revision, the lock section that reconciles the revision, plans and reserves, the run
  over the TCP connector, and the write-back that records answers and releases reservations.
  \<open>probe_round\<close> composes them for one caller; the step relation below interleaves the same
  sections of any number of rounds, with a clock that advances between them.

  The world of a round is a parameter: the instants its clock reads, the daemon's uptime clock,
  the connector, and \<open>SocketAddr::from_str\<close>.
\<close>

section \<open>The table\<close>

type_synonym RevisionKey = "string \<times> u64"

record ProbeTable =
  pt_active :: "(u64 \<times> RevisionKey) option"
  pt_revision :: "RevisionKey option"
  pt_fetched_unix :: u64
  pt_state :: ProbeStates

definition ProbeTable_default :: ProbeTable where
  "ProbeTable_default = \<lparr>pt_active = None, pt_revision = None, pt_fetched_unix = 0, pt_state = []\<rparr>"

definition note_active :: "u64 \<Rightarrow> RevisionKey \<Rightarrow> ProbeTable \<Rightarrow> ProbeTable" where
  "note_active seq key t =
     (case pt_active t of
        None \<Rightarrow> t\<lparr>pt_active := Some (seq, key)\<rparr>
      | Some (seen, _) \<Rightarrow> if seq \<ge> seen then t\<lparr>pt_active := Some (seq, key)\<rparr> else t)"

definition active_key :: "ProbeTable \<Rightarrow> RevisionKey option" where
  "active_key t = map_option snd (pt_active t)"

definition probe_revision_key :: "string option \<Rightarrow> u64 \<Rightarrow> RevisionKey" where
  "probe_revision_key etag fetched_unix = (case etag of Some tag \<Rightarrow> (tag, 0) | None \<Rightarrow> ([], fetched_unix))"

section \<open>Configuration\<close>

datatype ProbeTransport = TcpUdp | Icmp

record LatencyProbeSection =
  probe_enabled :: bool
  max_candidates :: u32
  timeout_ms :: u32
  round_deadline_ms :: u32
  probe_parallelism :: u32
  result_min_age_minutes :: u32
  background_scan :: bool
  probe_transport :: ProbeTransport

definition LatencyProbeSection_default :: LatencyProbeSection where
  "LatencyProbeSection_default = \<lparr>probe_enabled = True, max_candidates = 20, timeout_ms = 750, round_deadline_ms = 8000,
     probe_parallelism = 4, result_min_age_minutes = 15, background_scan = False, probe_transport = TcpUdp\<rparr>"

definition probe_budget :: "LatencyProbeSection \<Rightarrow> ProbeBudget" where
  "probe_budget cfg = \<lparr>max_probes_per_run = max_candidates cfg, min_probe_interval = from_secs 60,
     min_reuse_age = from_secs (result_min_age_minutes cfg * 60)\<rparr>"

section \<open>The lock sections of a round\<close>

definition or_default :: "EndpointState option \<Rightarrow> EndpointState" where
  "or_default entry = (case entry of Some st \<Rightarrow> st | None \<Rightarrow> EndpointState_default)"

definition btree_remove :: "'k \<Rightarrow> ('k, 'v) btree \<Rightarrow> ('k, 'v) btree" where
  "btree_remove k m = filter (\<lambda>kv. fst kv \<noteq> k) m"

definition reserve_one :: "ProbeDecisions \<Rightarrow> u64 \<Rightarrow> ProbeStates \<Rightarrow> string \<Rightarrow> ProbeStates" where
  "reserve_one decisions now st endpoint =
     (if btree_get decisions endpoint = Some Probe
      then btree_insert endpoint ((or_default (btree_get st endpoint))\<lparr>last_attempt_ms := now\<rparr>) st
      else st)"

definition tie_and_not_active :: "RevisionKey \<Rightarrow> u64 \<Rightarrow> ProbeTable \<Rightarrow> bool" where
  "tie_and_not_active key fetched t \<longleftrightarrow>
     pt_fetched_unix t = fetched \<and> pt_revision t \<noteq> None \<and> pt_revision t \<noteq> Some key \<and> active_key t \<noteq> Some key"

definition stale_for :: "RevisionKey \<Rightarrow> u64 \<Rightarrow> ProbeTable \<Rightarrow> bool" where
  "stale_for key fetched t \<longleftrightarrow> pt_fetched_unix t > fetched \<or> tie_and_not_active key fetched t"

definition reconcile :: "RevisionKey \<Rightarrow> u64 \<Rightarrow> ProbeTable \<Rightarrow> ProbeTable" where
  "reconcile key fetched t =
     (if pt_revision t \<noteq> Some key then t\<lparr>pt_revision := Some key, pt_fetched_unix := fetched, pt_state := []\<rparr> else t)"

definition plan_and_reserve :: "RevisionKey \<Rightarrow> u64 \<Rightarrow> string list \<Rightarrow> ProbeBudget \<Rightarrow> u64 \<Rightarrow> ProbeTable \<Rightarrow>
    ProbeTable \<times> ProbeStates \<times> ProbeDecisions \<times> bool" where
  "plan_and_reserve key fetched shortlist budget now t =
     (if stale_for key fetched t then (t, [], plan_run shortlist [] budget now, True)
      else
        let t = reconcile key fetched t;
            st = pt_state t;
            decisions = plan_run shortlist st budget now
        in (t\<lparr>pt_state := foldl (reserve_one decisions now) st shortlist\<rparr>, st, decisions, False))"

definition write_back_one :: "ProbeStates \<Rightarrow> ProbeDecisions \<Rightarrow> ProbeRun \<Rightarrow> u64 \<Rightarrow> ProbeStates \<Rightarrow> string \<Rightarrow> ProbeStates" where
  "write_back_one prior decisions run answered_at st endpoint =
     (if btree_get decisions endpoint \<noteq> Some Probe then st
      else if endpoint \<notin> set (attempted run) then
        (case btree_get prior endpoint of
           Some p \<Rightarrow>
             (case btree_get st endpoint of
                Some entry \<Rightarrow> btree_insert endpoint (entry\<lparr>last_attempt_ms := last_attempt_ms p\<rparr>) st
              | None \<Rightarrow> st)
         | None \<Rightarrow> btree_remove endpoint st)
      else
        (case btree_get (observations run) endpoint of
           Some obs \<Rightarrow>
             btree_insert endpoint
               ((or_default (btree_get st endpoint))\<lparr>observation := Some obs, observed_at_ms := answered_at\<rparr>) st
         | None \<Rightarrow> st))"

definition write_back :: "RevisionKey \<Rightarrow> string list \<Rightarrow> bool \<Rightarrow> ProbeStates \<Rightarrow> ProbeDecisions \<Rightarrow> ProbeRun \<Rightarrow> u64 \<Rightarrow>
    ProbeTable \<Rightarrow> ProbeTable" where
  "write_back key shortlist stale_round prior decisions run answered_at t =
     (if \<not> stale_round \<and> pt_revision t = Some key
      then t\<lparr>pt_state := foldl (write_back_one prior decisions run answered_at) (pt_state t) shortlist\<rparr>
      else t)"

section \<open>The transport\<close>

text \<open>Instants are nanoseconds of a monotonic clock.\<close>

definition duration_since :: "nat \<Rightarrow> nat \<Rightarrow> Duration" where
  "duration_since later earlier = (let n = later - earlier in Duration (n div 10 ^ 9) (n mod 10 ^ 9))"

definition duration_min :: "Duration \<Rightarrow> Duration \<Rightarrow> Duration" where
  "duration_min a b = (if duration_less b a then b else a)"

record ('x, 'addr) ProbeWorld =
  instant :: "'x \<Rightarrow> nat"
  worker_instant :: "'x \<Rightarrow> nat \<Rightarrow> nat"
  after_poll :: "'x \<Rightarrow> 'x"
  after_join :: "'x \<Rightarrow> string list \<Rightarrow> 'x"
  now_ms :: "'x \<Rightarrow> u64"
  connect :: "'x \<Rightarrow> nat \<Rightarrow> 'addr \<Rightarrow> Duration \<Rightarrow> Duration option"
  socket_addr :: "string \<Rightarrow> u16 \<Rightarrow> 'addr option"

definition transport_executor :: "('x, 'addr) ProbeWorld \<Rightarrow> ProbeTransport \<Rightarrow> Duration \<Rightarrow> (string, 'addr) btree \<Rightarrow> nat \<Rightarrow>
    'x ProbeExecutor" where
  "transport_executor world transport timeout endpoints round_deadline =
     \<lparr>probe = (\<lambda>x i endpoint.
        case transport of
          TcpUdp \<Rightarrow>
            (case btree_get endpoints endpoint of
               None \<Rightarrow> None
             | Some addr \<Rightarrow>
                 connect world x i addr (duration_min timeout (duration_since round_deadline (worker_instant world x i))))
        | Icmp \<Rightarrow> None),
      joined = after_join world,
      cancelled = (\<lambda>x. (instant world x \<ge> round_deadline, after_poll world x))\<rparr>"

text \<open>The address text of a physical server: its first TCP-compatible endpoint with a port, else the legacy entry address.\<close>

fun first_port :: "ProtocolEndpoint option list \<Rightarrow> (string \<times> u16) option" where
  "first_port [] = None"
| "first_port (None # es) = first_port es"
| "first_port (Some e # es) =
     (case ports e of Some (port # _) \<Rightarrow> Some (ipv4 e, port) | _ \<Rightarrow> first_port es)"

definition physical_address :: "PhysicalServer \<Rightarrow> (string \<times> u16) option" where
  "physical_address p =
     (case Option.bind (entry_per_protocol p) (\<lambda>m. first_port [wireguard_tcp m, wireguard_tls m]) of
        Some a \<Rightarrow> Some a
      | None \<Rightarrow> map_option (\<lambda>ip. (ip, 443)) (entry_ip p))"

fun first_address :: "PhysicalServer list \<Rightarrow> (string \<times> u16) option" where
  "first_address [] = None"
| "first_address (p # ps) = (case physical_address p of Some a \<Rightarrow> Some a | None \<Rightarrow> first_address ps)"

definition probe_endpoint :: "('x, 'addr) ProbeWorld \<Rightarrow> CatalogDocument \<Rightarrow> string \<Rightarrow> 'addr option" where
  "probe_endpoint world catalog logical_id =
     Option.bind (find (\<lambda>s. ls_id s = logical_id) (logical_servers catalog)) (\<lambda>s.
     Option.bind (first_address (filter ps_is_online (servers s))) (\<lambda>(host, port). socket_addr world host port))"

fun collect_endpoints :: "(string \<Rightarrow> 'addr option) \<Rightarrow> string list \<Rightarrow> (string, 'addr) btree \<Rightarrow> (string, 'addr) btree" where
  "collect_endpoints f [] m = m"
| "collect_endpoints f (i # is) m = collect_endpoints f is (case f i of Some a \<Rightarrow> btree_insert i a m | None \<Rightarrow> m)"

section \<open>One round\<close>

definition execute_round :: "LatencyProbeSection \<Rightarrow> ('x, 'addr) ProbeWorld \<Rightarrow> CatalogDocument \<Rightarrow> string list \<Rightarrow> ProbeStates \<Rightarrow>
    ProbeDecisions \<Rightarrow> nat \<Rightarrow> 'x \<Rightarrow> ProbeRun \<times> 'x" where
  "execute_round cfg world catalog shortlist st decisions round_deadline x =
     run_planned shortlist decisions st
       (transport_executor world (probe_transport cfg) (from_millis (timeout_ms cfg))
          (collect_endpoints (probe_endpoint world catalog) shortlist []) round_deadline)
       (probe_parallelism cfg) x"

definition probe_round :: "LatencyProbeSection \<Rightarrow> ('x, 'addr) ProbeWorld \<Rightarrow> CatalogDocument \<Rightarrow> string option \<Rightarrow> u64 \<Rightarrow> u64 \<Rightarrow>
    string list \<Rightarrow> nat \<Rightarrow> ProbeTable \<Rightarrow> 'x \<Rightarrow> (string, Duration) btree \<times> ProbeTable \<times> 'x" where
  "probe_round cfg world catalog etag fetched_unix seq shortlist request_deadline t x =
     (if \<not> probe_enabled cfg \<or> shortlist = [] then ([], t, x)
      else
        let key = probe_revision_key etag fetched_unix;
            round_deadline = min (instant world x + round_deadline_ms cfg * 10 ^ 6) request_deadline;
            now = now_ms world x;
            t = note_active seq key t;
            (t, st, decisions, stale_round) = plan_and_reserve key fetched_unix shortlist (probe_budget cfg) now t;
            (run, x) = execute_round cfg world catalog shortlist st decisions round_deadline x;
            t = write_back key shortlist stale_round st decisions run (now_ms world x) t
        in (map (map_prod id rtt) (observations run), t, x))"

section \<open>Interleaved rounds\<close>

text \<open>
  What a round carries from one lock section to the next. \<open>rq_epoch\<close> counts the times the table
  has been cleared for another revision; the code does not have it.
\<close>

record RoundReq =
  rq_key :: RevisionKey
  rq_fetched :: u64
  rq_seq :: u64
  rq_shortlist :: "string list"
  rq_now :: u64

datatype phase =
    Timed
  | Noted
  | Reserved nat ProbeStates ProbeDecisions bool
  | Executed nat ProbeStates ProbeDecisions bool ProbeRun

text \<open>An attempt in the log: the round, the endpoint, the clock reading the round planned with, and the epoch; none for a stale round.\<close>

record Attempt =
  at_round :: nat
  at_endpoint :: string
  at_now :: u64
  at_epoch :: "nat option"

record Rounds =
  rw_clock :: u64
  rw_table :: ProbeTable
  rw_rounds :: "nat \<Rightarrow> (RoundReq \<times> phase) option"
  rw_epoch :: nat
  rw_recurred :: bool
  rw_log :: "Attempt list"

definition Rounds_start :: Rounds where
  "Rounds_start = \<lparr>rw_clock = 0, rw_table = ProbeTable_default, rw_rounds = Map.empty, rw_epoch = 0, rw_recurred = False, rw_log = []\<rparr>"

text \<open>
  A round that has reserved and not yet written back, and was not stale; and the case that a
  revision comes back to the table while such a round of it, less than a minute old, is under way.
\<close>

definition holding :: "Rounds \<Rightarrow> nat \<Rightarrow> RoundReq \<Rightarrow> nat \<Rightarrow> ProbeStates \<Rightarrow> ProbeDecisions \<Rightarrow> bool" where
  "holding w i rq ep st dec \<longleftrightarrow>
     rw_rounds w i = Some (rq, Reserved ep st dec False) \<or> (\<exists>run. rw_rounds w i = Some (rq, Executed ep st dec False run))"

abbreviation prompt :: "Rounds \<Rightarrow> RoundReq \<Rightarrow> bool" where
  "prompt w rq \<equiv> rw_clock w < rq_now rq + 60000"

definition recurs :: "Rounds \<Rightarrow> RoundReq \<Rightarrow> bool" where
  "recurs w rq \<longleftrightarrow> (\<exists>j rq' ep st dec. holding w j rq' ep st dec \<and> rq_key rq' = rq_key rq \<and> prompt w rq')"

definition log_attempts :: "nat \<Rightarrow> RoundReq \<Rightarrow> nat \<Rightarrow> bool \<Rightarrow> ProbeRun \<Rightarrow> Attempt list" where
  "log_attempts i rq ep stale_round run =
     map (\<lambda>e. \<lparr>at_round = i, at_endpoint = e, at_now = rq_now rq, at_epoch = if stale_round then None else Some ep\<rparr>) (attempted run)"

text \<open>
  The sections of \<open>probe_round\<close> in the order of the code, for rounds with arbitrary revisions,
  sequences, shortlists, executors and cancellation. \<open>d\<close> bounds the age of a round, from the
  clock reading it plans with, at which it still probes or writes back; the request deadline of
  the code keeps it near nine seconds. No step is held back by the bookkeeping: \<open>rw_recurred\<close> only
  records that a revision came back to the table over a round of it that was under way.
\<close>

inductive round_step :: "LatencyProbeSection \<Rightarrow> u64 \<Rightarrow> Rounds \<Rightarrow> Rounds \<Rightarrow> bool" for cfg :: LatencyProbeSection and d :: u64 where
  Tick: "rw_clock w \<le> n \<Longrightarrow> round_step cfg d w (w\<lparr>rw_clock := n\<rparr>)"
| Start: "\<lbrakk>rw_rounds w i = None; \<forall>a \<in> set (rw_log w). at_round a \<noteq> i; rq_now rq = rw_clock w\<rbrakk> \<Longrightarrow>
    round_step cfg d w (w\<lparr>rw_rounds := (rw_rounds w)(i \<mapsto> (rq, Timed))\<rparr>)"
| Note: "rw_rounds w i = Some (rq, Timed) \<Longrightarrow>
    round_step cfg d w (w\<lparr>rw_table := note_active (rq_seq rq) (rq_key rq) (rw_table w),
      rw_rounds := (rw_rounds w)(i \<mapsto> (rq, Noted))\<rparr>)"
| Plan: "\<lbrakk>rw_rounds w i = Some (rq, Noted);
     plan_and_reserve (rq_key rq) (rq_fetched rq) (rq_shortlist rq) (probe_budget cfg) (rq_now rq) (rw_table w) =
       (t, st, decisions, stale_round);
     restamped = (\<not> stale_round \<and> pt_revision (rw_table w) \<noteq> Some (rq_key rq));
     ep = (if restamped then rw_epoch w + 1 else rw_epoch w)\<rbrakk> \<Longrightarrow>
    round_step cfg d w (w\<lparr>rw_table := t, rw_rounds := (rw_rounds w)(i \<mapsto> (rq, Reserved ep st decisions stale_round)),
      rw_epoch := ep, rw_recurred := (rw_recurred w \<or> restamped \<and> recurs w rq)\<rparr>)"
| Execute: "\<lbrakk>rw_rounds w i = Some (rq, Reserved ep st decisions stale_round); rw_clock w \<le> rq_now rq + d;
     run_planned (rq_shortlist rq) decisions st (ex :: nat ProbeExecutor) p x = (run, y)\<rbrakk> \<Longrightarrow>
    round_step cfg d w (w\<lparr>rw_rounds := (rw_rounds w)(i \<mapsto> (rq, Executed ep st decisions stale_round run)),
      rw_log := rw_log w @ log_attempts i rq ep stale_round run\<rparr>)"
| Write: "\<lbrakk>rw_rounds w i = Some (rq, Executed ep st decisions stale_round run); rw_clock w \<le> rq_now rq + d\<rbrakk> \<Longrightarrow>
    round_step cfg d w (w\<lparr>rw_table := write_back (rq_key rq) (rq_shortlist rq) stale_round st decisions run (rw_clock w) (rw_table w),
      rw_rounds := (rw_rounds w)(i := None)\<rparr>)"

inductive rounds_reach :: "LatencyProbeSection \<Rightarrow> u64 \<Rightarrow> Rounds \<Rightarrow> bool" for cfg d where
  reach_start: "rounds_reach cfg d Rounds_start"
| reach_step: "rounds_reach cfg d w \<Longrightarrow> round_step cfg d w w' \<Longrightarrow> rounds_reach cfg d w'"

section \<open>What the lock sections do to the clocks\<close>

definition last_of :: "ProbeStates \<Rightarrow> string \<Rightarrow> u64 option" where
  "last_of st e = map_option last_attempt_ms (btree_get st e)"

lemma btree_get_remove [simp]: "btree_get (btree_remove k m) k' = (if k' = k then None else btree_get m k')"
  by (induction m) (auto simp: btree_get_def btree_remove_def)

lemma reserve_all_get:
  "btree_get (foldl (reserve_one dec now) st es) e =
     (if e \<in> set es \<and> btree_get dec e = Some Probe
      then Some ((or_default (btree_get st e))\<lparr>last_attempt_ms := now\<rparr>) else btree_get st e)"
  by (induction es arbitrary: st) (auto simp: reserve_one_def or_default_def)

lemma last_of_reserve:
  "last_of (foldl (reserve_one dec now) st es) e = (if e \<in> set (planned dec es) then Some now else last_of st e)"
  by (simp add: last_of_def reserve_all_get planned_def)

lemma write_back_other:
  "e \<notin> set (planned dec es) \<Longrightarrow> btree_get (foldl (write_back_one st dec run at) t es) e = btree_get t e"
  by (induction es arbitrary: t) (auto simp: write_back_one_def planned_def split: option.splits if_splits)

lemma write_back_step_last:
  "last_of (write_back_one st dec run at t f) e =
     (if f \<noteq> e \<or> btree_get dec e \<noteq> Some Probe then last_of t e
      else if e \<in> set (attempted run) then
        (if btree_get (observations run) e = None then last_of t e else Some (last_attempt_ms (or_default (btree_get t e))))
      else if last_of t e = None then None else last_of st e)"
  by (auto simp: write_back_one_def last_of_def or_default_def split: option.splits)

lemma write_back_last_attempted:
  assumes "e \<in> set (attempted run)" "last_of t e = Some n"
  shows "last_of (foldl (write_back_one st dec run at) t es) e = Some n"
  using assms(2)
proof (induction es arbitrary: t)
  case (Cons f es)
  have "last_of (write_back_one st dec run at t f) e = Some n"
    using Cons.prems assms(1) by (auto simp: write_back_step_last or_default_def) (auto simp: last_of_def)
  with Cons.IH show ?case by simp
qed simp

lemma write_back_last_released:
  assumes "e \<notin> set (attempted run)" "e \<in> set (planned dec es)" "last_of st e = Some n" "last_of t e \<noteq> None"
  shows "last_of (foldl (write_back_one st dec run at) t es) e = Some n"
proof -
  have "last_of (foldl (write_back_one st dec run at) t es) e \<in> {last_of t e, Some n} \<and>
      (e \<in> set (planned dec es) \<longrightarrow> last_of (foldl (write_back_one st dec run at) t es) e = Some n)"
    if "last_of t e \<noteq> None" for t
    using that
  proof (induction es arbitrary: t)
    case (Cons f es)
    let ?t = "write_back_one st dec run at t f"
    have s: "last_of ?t e = (if f \<noteq> e \<or> btree_get dec e \<noteq> Some Probe then last_of t e else Some n)"
      using assms(1,3) Cons.prems by (auto simp: write_back_step_last)
    then have "last_of ?t e \<noteq> None" using Cons.prems by simp
    from Cons.IH [OF this] s show ?case by (auto simp: planned_def split: if_splits)
  qed (simp add: planned_def)
  with assms(2,4) show ?thesis by blast
qed

lemma probeable_interval:
  assumes "probeable (probe_budget cfg) now (btree_get st e)" and "last_of st e = Some n"
  shows "n + 60000 \<le> now"
proof -
  have "\<not> duration_less (age_of now n) (from_secs 60)"
    using assms by (auto simp: probeable_def last_of_def probe_budget_def)
  then have "\<not> duration_nanos (age_of now n) < duration_nanos (from_secs 60)"
    by (subst (asm) duration_less_iff) (simp_all add: age_of_def from_millis_def from_secs_def)
  then show ?thesis by (simp add: age_of_def duration_nanos_from_millis saturating_sub_def) (simp add: duration_nanos_def from_secs_def)
qed

section \<open>The invariant of interleaved rounds\<close>

abbreviation table_last :: "Rounds \<Rightarrow> string \<Rightarrow> u64 option" where
  "table_last w e \<equiv> last_of (pt_state (rw_table w)) e"

text \<open>Bookkeeping: clocks, revisions and epochs, and which rounds have logged what.\<close>

definition frame_inv :: "LatencyProbeSection \<Rightarrow> Rounds \<Rightarrow> bool" where
  "frame_inv cfg w \<longleftrightarrow>
     (\<forall>i rq ph. rw_rounds w i = Some (rq, ph) \<longrightarrow> rq_now rq \<le> rw_clock w) \<and>
     (\<forall>i rq ep st dec. holding w i rq ep st dec \<longrightarrow>
        ep \<le> rw_epoch w \<and> (prompt w rq \<longrightarrow> (pt_revision (rw_table w) = Some (rq_key rq) \<longleftrightarrow> ep = rw_epoch w)) \<and>
        dec = plan_run (rq_shortlist rq) st (probe_budget cfg) (rq_now rq)) \<and>
     (\<forall>a \<in> set (rw_log w). \<forall>ep. at_epoch a = Some ep \<longrightarrow> ep \<le> rw_epoch w) \<and>
     (\<forall>a \<in> set (rw_log w). \<forall>rq ph. rw_rounds w (at_round a) = Some (rq, ph) \<longrightarrow>
        (\<exists>ep st dec stl run. ph = Executed ep st dec stl run \<and> at_endpoint a \<in> set (attempted run)))"

text \<open>Prompt rounds of one epoch hold disjoint reservations, and those of the current one stand in the table.\<close>

definition reserve_inv :: "Rounds \<Rightarrow> bool" where
  "reserve_inv w \<longleftrightarrow>
     (\<forall>i rq st dec e. holding w i rq (rw_epoch w) st dec \<longrightarrow> prompt w rq \<longrightarrow> e \<in> set (planned dec (rq_shortlist rq)) \<longrightarrow>
        table_last w e = Some (rq_now rq)) \<and>
     (\<forall>i rq st dec j rq' st' dec' ep. holding w i rq ep st dec \<longrightarrow> holding w j rq' ep st' dec' \<longrightarrow> i \<noteq> j \<longrightarrow>
        prompt w rq \<longrightarrow> prompt w rq' \<longrightarrow> set (planned dec (rq_shortlist rq)) \<inter> set (planned dec' (rq_shortlist rq')) = {})"

text \<open>The table, and the snapshot of every prompt round, remember the attempts of the other rounds.\<close>

definition log_inv :: "Rounds \<Rightarrow> bool" where
  "log_inv w \<longleftrightarrow>
     (\<forall>a \<in> set (rw_log w). at_epoch a = Some (rw_epoch w) \<longrightarrow> (\<exists>n \<ge> at_now a. table_last w (at_endpoint a) = Some n)) \<and>
     (\<forall>a \<in> set (rw_log w). \<forall>i rq ep st dec. holding w i rq ep st dec \<longrightarrow> prompt w rq \<longrightarrow> at_epoch a = Some ep \<longrightarrow>
        at_round a \<noteq> i \<longrightarrow> at_endpoint a \<in> set (planned dec (rq_shortlist rq)) \<longrightarrow>
        (\<exists>n \<ge> at_now a. last_of st (at_endpoint a) = Some n))"

definition spaced :: "Attempt list \<Rightarrow> bool" where
  "spaced lg \<longleftrightarrow>
     (\<forall>a \<in> set lg. \<forall>b \<in> set lg. at_round a \<noteq> at_round b \<longrightarrow> at_endpoint a = at_endpoint b \<longrightarrow>
        at_epoch a = at_epoch b \<longrightarrow> at_epoch a \<noteq> None \<longrightarrow> at_now a + 60000 \<le> at_now b \<or> at_now b + 60000 \<le> at_now a)"

definition rounds_inv :: "LatencyProbeSection \<Rightarrow> Rounds \<Rightarrow> bool" where
  "rounds_inv cfg w \<longleftrightarrow> frame_inv cfg w \<and> reserve_inv w \<and> log_inv w \<and> spaced (rw_log w)"

lemma frame_invI:
  assumes "\<And>i rq ph. rw_rounds w i = Some (rq, ph) \<Longrightarrow> rq_now rq \<le> rw_clock w"
    and "\<And>i rq ep st dec. holding w i rq ep st dec \<Longrightarrow>
      ep \<le> rw_epoch w \<and> (prompt w rq \<longrightarrow> (pt_revision (rw_table w) = Some (rq_key rq) \<longleftrightarrow> ep = rw_epoch w)) \<and>
      dec = plan_run (rq_shortlist rq) st (probe_budget cfg) (rq_now rq)"
    and "\<And>a ep. a \<in> set (rw_log w) \<Longrightarrow> at_epoch a = Some ep \<Longrightarrow> ep \<le> rw_epoch w"
    and "\<And>a rq ph. a \<in> set (rw_log w) \<Longrightarrow> rw_rounds w (at_round a) = Some (rq, ph) \<Longrightarrow>
      \<exists>ep st dec stl run. ph = Executed ep st dec stl run \<and> at_endpoint a \<in> set (attempted run)"
  shows "frame_inv cfg w"
  unfolding frame_inv_def using assms by (intro conjI) blast+

lemma rounds_inv_start: "rounds_inv cfg Rounds_start"
  by (simp add: rounds_inv_def frame_inv_def reserve_inv_def log_inv_def spaced_def holding_def Rounds_start_def ProbeTable_default_def)

text \<open>A step that adds no reservation, log entry or table entry keeps everything.\<close>

lemma rounds_inv_quiet:
  assumes "rounds_inv cfg w"
    and "rw_clock w \<le> rw_clock w'" "rw_epoch w' = rw_epoch w" "rw_log w' = rw_log w"
      "pt_state (rw_table w') = pt_state (rw_table w)" "pt_revision (rw_table w') = pt_revision (rw_table w)"
    and hold: "\<And>i rq ep st dec. holding w' i rq ep st dec \<Longrightarrow> holding w i rq ep st dec"
    and now: "\<And>i rq ph. rw_rounds w' i = Some (rq, ph) \<Longrightarrow> rq_now rq \<le> rw_clock w'"
    and lg: "\<And>a rq ph. a \<in> set (rw_log w) \<Longrightarrow> rw_rounds w' (at_round a) = Some (rq, ph) \<Longrightarrow>
      rw_rounds w (at_round a) = Some (rq, ph)"
  shows "rounds_inv cfg w'"
proof -
  have f: "frame_inv cfg w" "reserve_inv w" "log_inv w" "spaced (rw_log w)" using assms(1) by (simp_all add: rounds_inv_def)
  have pr: "prompt w rq" if "prompt w' rq" for rq using that assms(2) by simp
  have "frame_inv cfg w'"
  proof (rule frame_invI)
    show "ep \<le> rw_epoch w' \<and> (prompt w' rq \<longrightarrow> (pt_revision (rw_table w') = Some (rq_key rq) \<longleftrightarrow> ep = rw_epoch w')) \<and>
        dec = plan_run (rq_shortlist rq) st (probe_budget cfg) (rq_now rq)" if "holding w' i rq ep st dec" for i rq ep st dec
      using f(1) [unfolded frame_inv_def, THEN conjunct2, THEN conjunct1, rule_format, OF hold [OF that]] pr
      by (simp only: assms(3-6)) blast
    show "ep \<le> rw_epoch w'" if "a \<in> set (rw_log w')" "at_epoch a = Some ep" for a ep
      using f(1) that unfolding frame_inv_def assms(3-6) by blast
    show "\<exists>ep st dec stl run. ph = Executed ep st dec stl run \<and> at_endpoint a \<in> set (attempted run)"
      if "a \<in> set (rw_log w')" "rw_rounds w' (at_round a) = Some (rq, ph)" for a rq ph
      using f(1) lg [OF _ that(2)] that(1) unfolding frame_inv_def assms(3-6) by blast
  qed (fact now)
  moreover have "reserve_inv w'"
    using f(2) hold pr unfolding reserve_inv_def assms(3-6) by (metis (no_types, lifting))
  moreover have "log_inv w'"
    using f(3) hold pr unfolding log_inv_def assms(3-6) by (metis (no_types, lifting))
  ultimately show ?thesis using f(4) by (simp add: rounds_inv_def assms(4))
qed

lemma note_active_keeps [simp]:
  "pt_state (note_active seq key t) = pt_state t" "pt_revision (note_active seq key t) = pt_revision t"
  by (auto simp: note_active_def split: option.splits)

lemma rounds_inv_Tick:
  assumes "rounds_inv cfg w" "rw_clock w \<le> n"
  shows "rounds_inv cfg (w\<lparr>rw_clock := n\<rparr>)"
  using assms(1)
  by (rule rounds_inv_quiet)
    (use assms in \<open>auto simp: holding_def rounds_inv_def frame_inv_def dest: le_trans [OF _ assms(2)]\<close>)

lemma rounds_inv_Start:
  assumes "rounds_inv cfg w" "rw_rounds w i = None" "\<forall>a \<in> set (rw_log w). at_round a \<noteq> i" "rq_now rq = rw_clock w"
  shows "rounds_inv cfg (w\<lparr>rw_rounds := (rw_rounds w)(i \<mapsto> (rq, Timed))\<rparr>)"
  using assms(1)
  by (rule rounds_inv_quiet) (use assms in \<open>auto simp: holding_def rounds_inv_def frame_inv_def split: if_splits\<close>)

lemma rounds_inv_Note:
  assumes "rounds_inv cfg w" "rw_rounds w i = Some (rq, Timed)"
  shows "rounds_inv cfg (w\<lparr>rw_table := note_active (rq_seq rq) (rq_key rq) (rw_table w),
      rw_rounds := (rw_rounds w)(i \<mapsto> (rq, Noted))\<rparr>)"
proof -
  have "at_round a \<noteq> i" if "a \<in> set (rw_log w)" for a
    using assms that unfolding rounds_inv_def frame_inv_def by (metis phase.distinct(5))
  with assms(1) show ?thesis
    by (elim rounds_inv_quiet) (use assms in \<open>auto simp: holding_def rounds_inv_def frame_inv_def split: if_splits\<close>)
qed

lemma rounds_invD:
  assumes "rounds_inv cfg w"
  shows inv_now: "rw_rounds w i = Some (rq, ph) \<Longrightarrow> rq_now rq \<le> rw_clock w"
    and inv_holding: "holding w i rq ep st dec \<Longrightarrow> ep \<le> rw_epoch w \<and>
      (prompt w rq \<longrightarrow> (pt_revision (rw_table w) = Some (rq_key rq) \<longleftrightarrow> ep = rw_epoch w)) \<and>
      dec = plan_run (rq_shortlist rq) st (probe_budget cfg) (rq_now rq)"
    and inv_log_epoch: "a \<in> set (rw_log w) \<Longrightarrow> at_epoch a = Some ep \<Longrightarrow> ep \<le> rw_epoch w"
    and inv_log_round: "a \<in> set (rw_log w) \<Longrightarrow> rw_rounds w (at_round a) = Some (rq, ph) \<Longrightarrow>
      \<exists>ep st dec stl run. ph = Executed ep st dec stl run \<and> at_endpoint a \<in> set (attempted run)"
    and inv_reserved: "holding w i rq (rw_epoch w) st dec \<Longrightarrow> prompt w rq \<Longrightarrow> e \<in> set (planned dec (rq_shortlist rq)) \<Longrightarrow>
      table_last w e = Some (rq_now rq)"
    and inv_disjoint: "holding w i rq ep st dec \<Longrightarrow> holding w j rq' ep st' dec' \<Longrightarrow> i \<noteq> j \<Longrightarrow> prompt w rq \<Longrightarrow> prompt w rq' \<Longrightarrow>
      e \<in> set (planned dec (rq_shortlist rq)) \<Longrightarrow> e \<notin> set (planned dec' (rq_shortlist rq'))"
    and inv_table_log: "a \<in> set (rw_log w) \<Longrightarrow> at_epoch a = Some (rw_epoch w) \<Longrightarrow>
      \<exists>n \<ge> at_now a. table_last w (at_endpoint a) = Some n"
    and inv_snapshot_log: "a \<in> set (rw_log w) \<Longrightarrow> holding w i rq ep st dec \<Longrightarrow> prompt w rq \<Longrightarrow> at_epoch a = Some ep \<Longrightarrow>
      at_round a \<noteq> i \<Longrightarrow> at_endpoint a \<in> set (planned dec (rq_shortlist rq)) \<Longrightarrow>
      \<exists>n \<ge> at_now a. last_of st (at_endpoint a) = Some n"
proof -
  have f: "frame_inv cfg w" and g: "reserve_inv w" and l: "log_inv w" using assms by (simp_all add: rounds_inv_def)
  note f' = f [unfolded frame_inv_def, THEN conjunct1] f [unfolded frame_inv_def, THEN conjunct2, THEN conjunct1]
    f [unfolded frame_inv_def, THEN conjunct2, THEN conjunct2, THEN conjunct1]
    f [unfolded frame_inv_def, THEN conjunct2, THEN conjunct2, THEN conjunct2]
  show "rw_rounds w i = Some (rq, ph) \<Longrightarrow> rq_now rq \<le> rw_clock w" using f'(1) by blast
  show "holding w i rq ep st dec \<Longrightarrow> ep \<le> rw_epoch w \<and>
      (prompt w rq \<longrightarrow> (pt_revision (rw_table w) = Some (rq_key rq) \<longleftrightarrow> ep = rw_epoch w)) \<and>
      dec = plan_run (rq_shortlist rq) st (probe_budget cfg) (rq_now rq)" using f'(2) by blast
  show "a \<in> set (rw_log w) \<Longrightarrow> at_epoch a = Some ep \<Longrightarrow> ep \<le> rw_epoch w" using f'(3) by blast
  show "a \<in> set (rw_log w) \<Longrightarrow> rw_rounds w (at_round a) = Some (rq, ph) \<Longrightarrow>
      \<exists>ep st dec stl run. ph = Executed ep st dec stl run \<and> at_endpoint a \<in> set (attempted run)" using f'(4) by blast
  show "holding w i rq (rw_epoch w) st dec \<Longrightarrow> prompt w rq \<Longrightarrow> e \<in> set (planned dec (rq_shortlist rq)) \<Longrightarrow>
      table_last w e = Some (rq_now rq)" using conjunct1 [OF g [unfolded reserve_inv_def]] by blast
  show "holding w i rq ep st dec \<Longrightarrow> holding w j rq' ep st' dec' \<Longrightarrow> i \<noteq> j \<Longrightarrow> prompt w rq \<Longrightarrow> prompt w rq' \<Longrightarrow>
      e \<in> set (planned dec (rq_shortlist rq)) \<Longrightarrow> e \<notin> set (planned dec' (rq_shortlist rq'))"
    using conjunct2 [OF g [unfolded reserve_inv_def]] by blast
  show "a \<in> set (rw_log w) \<Longrightarrow> at_epoch a = Some (rw_epoch w) \<Longrightarrow>
      \<exists>n \<ge> at_now a. table_last w (at_endpoint a) = Some n" using conjunct1 [OF l [unfolded log_inv_def]] by blast
  show "a \<in> set (rw_log w) \<Longrightarrow> holding w i rq ep st dec \<Longrightarrow> prompt w rq \<Longrightarrow> at_epoch a = Some ep \<Longrightarrow>
      at_round a \<noteq> i \<Longrightarrow> at_endpoint a \<in> set (planned dec (rq_shortlist rq)) \<Longrightarrow>
      \<exists>n \<ge> at_now a. last_of st (at_endpoint a) = Some n" using conjunct2 [OF l [unfolded log_inv_def]] by blast
qed

lemma log_attempts_in:
  "a \<in> set (log_attempts i rq ep stl run) \<longleftrightarrow>
     (\<exists>e \<in> set (attempted run). a = \<lparr>at_round = i, at_endpoint = e, at_now = rq_now rq, at_epoch = if stl then None else Some ep\<rparr>)"
  by (auto simp: log_attempts_def)

lemma rounds_inv_Execute:
  assumes inv: "rounds_inv cfg w" and r: "rw_rounds w i = Some (rq, Reserved ep st dec stl)"
    and pr: "prompt w rq" and run: "run_planned (rq_shortlist rq) dec st (ex :: nat ProbeExecutor) p x = (run, y)"
  shows "rounds_inv cfg (w\<lparr>rw_rounds := (rw_rounds w)(i \<mapsto> (rq, Executed ep st dec stl run)),
      rw_log := rw_log w @ log_attempts i rq ep stl run\<rparr>)" (is "rounds_inv cfg ?w")
proof -
  have h: "holding ?w j rq' ep' st' dec' \<longleftrightarrow> holding w j rq' ep' st' dec'" for j rq' ep' st' dec'
    using r by (auto simp: holding_def)
  have sub: "e \<in> set (planned dec (rq_shortlist rq))" if "e \<in> set (attempted run)" for e
    using that set_mono_prefix [OF run_planned_attempts(1) [OF run]] by blast
  have mine: "holding w i rq ep st dec" if "\<not> stl" using r that by (simp add: holding_def)
  have new: "at_round a = i \<and> at_now a = rq_now rq \<and> at_endpoint a \<in> set (planned dec (rq_shortlist rq)) \<and> \<not> stl \<and> ep' = ep"
    if "a \<in> set (log_attempts i rq ep stl run)" "at_epoch a = Some ep'" for a ep'
    using that sub by (auto simp: log_attempts_in split: if_splits)
  have old: "at_round a \<noteq> i" if "a \<in> set (rw_log w)" for a
    using inv_log_round [OF inv that] r by force
  have "frame_inv cfg ?w"
  proof (rule frame_invI)
    show "ep' \<le> rw_epoch ?w" if "a \<in> set (rw_log ?w)" "at_epoch a = Some ep'" for a ep'
      using that new [of a ep'] inv_log_epoch [OF inv, of a ep'] inv_holding [OF inv mine] by auto
    show "\<exists>ep st dec stl run. ph = Executed ep st dec stl run \<and> at_endpoint a \<in> set (attempted run)"
      if "a \<in> set (rw_log ?w)" "rw_rounds ?w (at_round a) = Some (rq', ph)" for a rq' ph
    proof (cases "a \<in> set (rw_log w)")
      case True
      with that(2) old have "rw_rounds w (at_round a) = Some (rq', ph)" by simp
      from inv_log_round [OF inv True this] show ?thesis .
    next
      case False
      with that(1) have "at_round a = i" "at_endpoint a \<in> set (attempted run)" by (auto simp: log_attempts_in)
      with that(2) show ?thesis by auto
    qed
    show "rq_now rq' \<le> rw_clock ?w" if "rw_rounds ?w j = Some (rq', ph)" for j rq' ph
      using that inv_now [OF inv] r by (simp split: if_splits)
  qed (use inv_holding [OF inv] in \<open>simp_all add: h\<close>)
  moreover have "reserve_inv ?w"
    unfolding reserve_inv_def h using inv unfolding rounds_inv_def reserve_inv_def by simp
  moreover have "log_inv ?w"
    unfolding log_inv_def h
  proof (intro conjI ballI allI impI)
    show "\<exists>n \<ge> at_now a. table_last ?w (at_endpoint a) = Some n"
      if "a \<in> set (rw_log ?w)" "at_epoch a = Some (rw_epoch ?w)" for a
      using that inv_table_log [OF inv] inv_reserved [OF inv _ pr] mine new [of a] by fastforce
    show "\<exists>n \<ge> at_now a. last_of st' (at_endpoint a) = Some n"
      if "a \<in> set (rw_log ?w)" "holding w j rq' ep' st' dec'" "prompt ?w rq'" "at_epoch a = Some ep'" "at_round a \<noteq> j"
        "at_endpoint a \<in> set (planned dec' (rq_shortlist rq'))" for a j rq' ep' st' dec'
    proof (cases "a \<in> set (rw_log w)")
      case True
      from inv_snapshot_log [OF inv True that(2) _ that(4-6)] that(3) show ?thesis by simp
    next
      case False
      with that(1) new [of a ep'] that(4) have a: "at_round a = i" "at_endpoint a \<in> set (planned dec (rq_shortlist rq))" "\<not> stl" "ep' = ep"
        by auto
      have "prompt w rq'" using that(3) by simp
      from inv_disjoint [OF inv mine that(2) [unfolded a(4)] _ pr this a(2)] a(1,3) that(5,6) show ?thesis by simp
    qed
  qed
  moreover have "spaced (rw_log ?w)"
  proof -
    have "at_now b + 60000 \<le> rq_now rq"
      if "a \<in> set (log_attempts i rq ep stl run)" "b \<in> set (rw_log w)" "at_endpoint a = at_endpoint b" "at_epoch a = at_epoch b"
        "at_epoch a \<noteq> None" for a b
    proof -
      from that(5) obtain ep' where e: "at_epoch a = Some ep'" by blast
      note n = new [OF that(1) e]
      from inv_snapshot_log [OF inv that(2) mine pr _ old [OF that(2)]] n e that(3,4) obtain m
        where m: "at_now b \<le> m" "last_of st (at_endpoint b) = Some m" by auto
      have "at_endpoint b \<in> set (planned (plan_run (rq_shortlist rq) st (probe_budget cfg) (rq_now rq)) (rq_shortlist rq))"
        using n inv_holding [OF inv mine] that(3) by auto
      from planned_probeable [OF this] probeable_interval m show ?thesis by fastforce
    qed
    moreover have "at_round a = i \<and> at_now a = rq_now rq" if "a \<in> set (log_attempts i rq ep stl run)" for a
      using that by (auto simp: log_attempts_in)
    moreover have "spaced (rw_log w)" using inv by (simp add: rounds_inv_def)
    ultimately show ?thesis unfolding spaced_def
      by simp (metis (no_types, lifting) Un_iff)
  qed
  ultimately show ?thesis by (simp add: rounds_inv_def)
qed

lemma rounds_inv_Write:
  assumes inv: "rounds_inv cfg w" and r: "rw_rounds w i = Some (rq, Executed ep st dec stl run)" and pr: "prompt w rq"
  shows "rounds_inv cfg (w\<lparr>rw_table := write_back (rq_key rq) (rq_shortlist rq) stl st dec run at (rw_table w),
      rw_rounds := (rw_rounds w)(i := None)\<rparr>)" (is "rounds_inv cfg ?w")
proof -
  have h: "holding w j rq' ep' st' dec' \<and> j \<noteq> i" if "holding ?w j rq' ep' st' dec'" for j rq' ep' st' dec'
    using that by (auto simp: holding_def split: if_splits)
  have rev: "pt_revision (rw_table ?w) = pt_revision (rw_table w)" by (simp add: write_back_def)
  have mine: "holding w i rq ep st dec" if "\<not> stl" using r that by (simp add: holding_def)
  have current: "ep = rw_epoch w" if "\<not> stl" "pt_revision (rw_table w) = Some (rq_key rq)"
    using inv_holding [OF inv mine [OF that(1)]] pr that(2) by simp
  let ?all = "foldl (write_back_one st dec run at) (pt_state (rw_table w)) (rq_shortlist rq)"
  let ?P = "set (planned dec (rq_shortlist rq))"
  have tab: "pt_state (rw_table ?w) = (if \<not> stl \<and> pt_revision (rw_table w) = Some (rq_key rq) then ?all else pt_state (rw_table w))"
    by (simp add: write_back_def)
  have other: "table_last ?w e = table_last w e" if "stl \<or> e \<notin> ?P \<or> ep \<noteq> rw_epoch w" for e
    using that current write_back_other [of e dec "rq_shortlist rq"] unfolding tab by (auto simp: last_of_def)
  have "frame_inv cfg ?w"
  proof (rule frame_invI, unfold rev)
    show "ep' \<le> rw_epoch ?w \<and> (prompt ?w rq' \<longrightarrow> (pt_revision (rw_table w) = Some (rq_key rq') \<longleftrightarrow> ep' = rw_epoch ?w)) \<and>
      dec' = plan_run (rq_shortlist rq') st' (probe_budget cfg) (rq_now rq')" if "holding ?w j rq' ep' st' dec'" for j rq' ep' st' dec'
      using inv_holding [OF inv conjunct1 [OF h [OF that]]] by simp
  qed (use inv_now [OF inv] inv_log_epoch [OF inv] inv_log_round [OF inv] in \<open>auto split: if_splits\<close>)
  moreover have "reserve_inv ?w"
    unfolding reserve_inv_def
  proof (intro conjI allI impI)
    show "table_last ?w e = Some (rq_now rq')"
      if "holding ?w j rq' (rw_epoch ?w) st' dec'" "prompt ?w rq'" "e \<in> set (planned dec' (rq_shortlist rq'))" for j rq' st' dec' e
    proof -
      have j: "holding w j rq' (rw_epoch w) st' dec'" "j \<noteq> i" "prompt w rq'" using h [OF that(1)] that(2) by simp_all
      have "stl \<or> e \<notin> ?P \<or> ep \<noteq> rw_epoch w" using inv_disjoint [OF inv j(1) _ j(2,3) pr that(3)] mine by blast
      from other [OF this] inv_reserved [OF inv j(1,3) that(3)] show ?thesis by simp
    qed
    show "set (planned dec1 (rq_shortlist rq1)) \<inter> set (planned dec2 (rq_shortlist rq2)) = {}"
      if "holding ?w j rq1 ep' st1 dec1" "holding ?w k rq2 ep' st2 dec2" "j \<noteq> k" "prompt ?w rq1" "prompt ?w rq2"
      for j rq1 ep' st1 dec1 k rq2 st2 dec2
      using inv_disjoint [OF inv conjunct1 [OF h [OF that(1)]] conjunct1 [OF h [OF that(2)]] that(3)] that(4,5) by auto
  qed
  moreover have "log_inv ?w"
    unfolding log_inv_def
  proof (intro conjI ballI allI impI)
    show "\<exists>n \<ge> at_now a. table_last ?w (at_endpoint a) = Some n"
      if "a \<in> set (rw_log ?w)" "at_epoch a = Some (rw_epoch ?w)" for a
    proof -
      let ?e = "at_endpoint a"
      have a: "a \<in> set (rw_log w)" "at_epoch a = Some (rw_epoch w)" using that by simp_all
      obtain n where n: "n \<ge> at_now a" "table_last w ?e = Some n" using inv_table_log [OF inv a] by blast
      show ?thesis
      proof (cases "stl \<or> ?e \<notin> ?P \<or> ep \<noteq> rw_epoch w")
        case True
        with other n show ?thesis by auto
      next
        case False
        then have p: "\<not> stl" "?e \<in> ?P" "ep = rw_epoch w" by simp_all
        note m = mine [OF p(1)]
        have t: "pt_state (rw_table ?w) = ?all" using tab p pr inv_holding [OF inv m] by simp
        show ?thesis
        proof (cases "?e \<in> set (attempted run)")
          case True
          with n show ?thesis unfolding t by (blast intro: write_back_last_attempted)
        next
          case False
          then have "at_round a \<noteq> i" using inv_log_round [OF inv a(1)] r by fastforce
          from inv_snapshot_log [OF inv a(1) m pr _ this p(2)] a(2) p(3) obtain k
            where "k \<ge> at_now a" "last_of st ?e = Some k" by auto
          with write_back_last_released [OF False p(2)] n(2) show ?thesis unfolding t by blast
        qed
      qed
    qed
    show "\<exists>n \<ge> at_now a. last_of st' (at_endpoint a) = Some n"
      if "a \<in> set (rw_log ?w)" "holding ?w j rq' ep' st' dec'" "prompt ?w rq'" "at_epoch a = Some ep'" "at_round a \<noteq> j"
        "at_endpoint a \<in> set (planned dec' (rq_shortlist rq'))" for a j rq' ep' st' dec'
      using inv_snapshot_log [OF inv _ conjunct1 [OF h [OF that(2)]] _ that(4-6)] that(1,3) by simp
  qed
  moreover have "spaced (rw_log ?w)" using inv by (simp add: rounds_inv_def)
  ultimately show ?thesis by (simp add: rounds_inv_def)
qed

text \<open>The lock section: a stale round leaves the table alone; another one reserves on the reconciled table.\<close>

lemma plan_stale:
  assumes "plan_and_reserve key fetched es b now t = (t', st, dec, True)"
  shows "t' = t"
  using assms by (auto simp: plan_and_reserve_def Let_def split: if_splits)

lemma plan_fresh:
  assumes "plan_and_reserve key fetched es b now t = (t', st, dec, False)"
  shows "st = (if pt_revision t = Some key then pt_state t else [])" "dec = plan_run es st b now" "pt_revision t' = Some key"
    "last_of (pt_state t') e = (if e \<in> set (planned dec es) then Some now else last_of st e)"
  using assms by (auto simp: plan_and_reserve_def reconcile_def Let_def last_of_reserve split: if_splits)

lemma rounds_inv_Plan_fresh:
  assumes inv: "rounds_inv cfg w" and r: "rw_rounds w i = Some (rq, Noted)"
    and p: "plan_and_reserve (rq_key rq) (rq_fetched rq) (rq_shortlist rq) (probe_budget cfg) (rq_now rq) (rw_table w) = (t, st, dec, False)"
    and rs: "restamped = (pt_revision (rw_table w) \<noteq> Some (rq_key rq))" "\<not> (restamped \<and> recurs w rq)"
    and ep: "ep = (if restamped then rw_epoch w + 1 else rw_epoch w)"
  shows "rounds_inv cfg (w\<lparr>rw_table := t, rw_rounds := (rw_rounds w)(i \<mapsto> (rq, Reserved ep st dec False)), rw_epoch := ep,
      rw_recurred := b\<rparr>)" (is "rounds_inv cfg ?w")
proof -
  note f = plan_fresh [OF p]
  let ?P = "set (planned dec (rq_shortlist rq))"
  have h: "holding ?w j rq' ep' st' dec' \<longleftrightarrow>
      (if j = i then rq' = rq \<and> ep' = ep \<and> st' = st \<and> dec' = dec else holding w j rq' ep' st' dec')" for j rq' ep' st' dec'
    by (auto simp: holding_def)
  have new_key: "rq_key rq' \<noteq> rq_key rq" if "holding w j rq' ep' st' dec'" restamped "prompt w rq'" for j rq' ep' st' dec'
    using rs(2) that unfolding recurs_def by blast
  have "ep' < ep" if "holding w j rq' ep' st' dec'" restamped for j rq' ep' st' dec'
    using inv_holding [OF inv that(1)] that(2) ep by simp
  then have old_ep: "\<not> restamped" "ep = rw_epoch w" if "holding w j rq' ep st' dec'" for j rq' st' dec'
    using that ep by fastforce+
  have mine: "n + 60000 \<le> rq_now rq" if "e \<in> ?P" "\<not> restamped" "table_last w e = Some n" for e n
  proof -
    have "e \<in> set (planned (plan_run (rq_shortlist rq) st (probe_budget cfg) (rq_now rq)) (rq_shortlist rq))" using that(1) f(2) by simp
    from planned_probeable [OF this] probeable_interval [of cfg "rq_now rq" st e n] that(2,3) f(1) rs(1) show ?thesis by simp
  qed
  have now: "rq_now rq \<le> rw_clock w" by (rule inv_now [OF inv r])
  have disj: "e \<notin> ?P"
    if "holding w j rq' ep st' dec'" "prompt w rq'" "e \<in> set (planned dec' (rq_shortlist rq'))" for j rq' st' dec' e
    using mine [OF _ old_ep(1) [OF that(1)], of e "rq_now rq'"] now that(2)
      inv_reserved [OF inv that(1) [unfolded old_ep(2) [OF that(1)]] that(2,3)] by fastforce
  have other: "table_last ?w e = table_last w e" if "e \<notin> ?P" "\<not> restamped" for e
    using that f(1) f(4) [of e] rs(1) by simp
  have unlogged: "at_round a \<noteq> i" if "a \<in> set (rw_log w)" for a using inv_log_round [OF inv that] r by force
  have log_ep: "\<not> restamped \<and> ep = rw_epoch w" if "a \<in> set (rw_log w)" "at_epoch a = Some ep" for a
    using inv_log_epoch [OF inv that] ep by (auto split: if_splits)
  have "frame_inv cfg ?w"
  proof (rule frame_invI)
    show "ep' \<le> rw_epoch ?w \<and> (prompt ?w rq' \<longrightarrow> (pt_revision (rw_table ?w) = Some (rq_key rq') \<longleftrightarrow> ep' = rw_epoch ?w)) \<and>
      dec' = plan_run (rq_shortlist rq') st' (probe_budget cfg) (rq_now rq')" if "holding ?w j rq' ep' st' dec'" for j rq' ep' st' dec'
    proof (cases "j = i")
      case True
      with that have e: "rq' = rq" "ep' = ep" "st' = st" "dec' = dec" by (simp_all add: h)
      show ?thesis unfolding e using f(2,3) by simp
    next
      case False
      with that have hw: "holding w j rq' ep' st' dec'" by (simp add: h)
      from inv_holding [OF inv hw] new_key [OF hw] f(3) rs(1) ep show ?thesis by auto
    qed
  qed (use f(3) inv_now [OF inv] inv_log_epoch [OF inv] inv_log_round [OF inv] rs(1) ep unlogged r now in
      \<open>fastforce split: if_splits\<close>)+
  moreover have "reserve_inv ?w"
    unfolding reserve_inv_def
  proof (intro conjI allI impI)
    show "table_last ?w e = Some (rq_now rq')"
      if "holding ?w j rq' (rw_epoch ?w) st' dec'" "prompt ?w rq'" "e \<in> set (planned dec' (rq_shortlist rq'))" for j rq' st' dec' e
    proof (cases "j = i")
      case True
      with that f(4) show ?thesis by (simp add: h)
    next
      case False
      with that have hw: "holding w j rq' ep st' dec'" and pr: "prompt w rq'" by (simp_all add: h)
      from other [OF disj [OF hw pr that(3)] old_ep(1) [OF hw]] inv_reserved [OF inv hw [unfolded old_ep(2) [OF hw]] pr that(3)]
      show ?thesis by simp
    qed
    show "set (planned dec1 (rq_shortlist rq1)) \<inter> set (planned dec2 (rq_shortlist rq2)) = {}"
      if "holding ?w j rq1 ep' st1 dec1" "holding ?w k rq2 ep' st2 dec2" "j \<noteq> k" "prompt ?w rq1" "prompt ?w rq2"
      for j rq1 ep' st1 dec1 k rq2 st2 dec2
    proof -
      from that(3) consider "j = i" "k \<noteq> i" | "j \<noteq> i" "k = i" | "j \<noteq> i" "k \<noteq> i" by blast
      then show ?thesis
      proof cases
        case 1
        with that have "holding w k rq2 ep st2 dec2" "prompt w rq2" "dec1 = dec" "rq1 = rq" by (simp_all add: h)
        with disj [of k rq2 st2 dec2] show ?thesis by blast
      next
        case 2
        with that have "holding w j rq1 ep st1 dec1" "prompt w rq1" "dec2 = dec" "rq2 = rq" by (simp_all add: h)
        with disj [of j rq1 st1 dec1] show ?thesis by blast
      next
        case 3
        with that have "holding w j rq1 ep' st1 dec1" "holding w k rq2 ep' st2 dec2" "prompt w rq1" "prompt w rq2" by (simp_all add: h)
        with inv_disjoint [OF inv this(1,2) that(3)] show ?thesis by blast
      qed
    qed
  qed
  moreover have "log_inv ?w"
    unfolding log_inv_def
  proof (intro conjI ballI allI impI)
    show "\<exists>n \<ge> at_now a. table_last ?w (at_endpoint a) = Some n"
      if "a \<in> set (rw_log ?w)" "at_epoch a = Some (rw_epoch ?w)" for a
    proof -
      have a: "a \<in> set (rw_log w)" "at_epoch a = Some ep" using that by simp_all
      note le = log_ep [OF a]
      from inv_table_log [OF inv a(1)] a(2) le obtain n where n: "n \<ge> at_now a" "table_last w (at_endpoint a) = Some n" by auto
      show ?thesis
      proof (cases "at_endpoint a \<in> ?P")
        case True
        with mine [OF True _ n(2)] le n(1) f(4) [of "at_endpoint a"] show ?thesis by (intro exI [of _ "rq_now rq"]) simp
      next
        case False
        with other [OF False] le n show ?thesis by auto
      qed
    qed
    show "\<exists>n \<ge> at_now a. last_of st' (at_endpoint a) = Some n"
      if "a \<in> set (rw_log ?w)" "holding ?w j rq' ep' st' dec'" "prompt ?w rq'" "at_epoch a = Some ep'" "at_round a \<noteq> j"
        "at_endpoint a \<in> set (planned dec' (rq_shortlist rq'))" for a j rq' ep' st' dec'
    proof (cases "j = i")
      case True
      with that have a: "a \<in> set (rw_log w)" "at_epoch a = Some ep" "st' = st" by (simp_all add: h)
      from inv_table_log [OF inv a(1)] a(2) log_ep [OF a(1,2)] f(1) rs(1) a(3) show ?thesis by auto
    next
      case False
      with that inv_snapshot_log [OF inv _ _ _ that(4-6)] show ?thesis by (simp add: h)
    qed
  qed
  moreover have "spaced (rw_log ?w)" using inv by (simp add: rounds_inv_def)
  ultimately show ?thesis by (simp add: rounds_inv_def)
qed

lemma rounds_inv_Plan:
  assumes inv: "rounds_inv cfg w" and r: "rw_rounds w i = Some (rq, Noted)"
    and p: "plan_and_reserve (rq_key rq) (rq_fetched rq) (rq_shortlist rq) (probe_budget cfg) (rq_now rq) (rw_table w) = (t, st, dec, stl)"
    and rs: "restamped = (\<not> stl \<and> pt_revision (rw_table w) \<noteq> Some (rq_key rq))" "\<not> (restamped \<and> recurs w rq)"
    and ep: "ep = (if restamped then rw_epoch w + 1 else rw_epoch w)"
  shows "rounds_inv cfg (w\<lparr>rw_table := t, rw_rounds := (rw_rounds w)(i \<mapsto> (rq, Reserved ep st dec stl)), rw_epoch := ep,
      rw_recurred := b\<rparr>)"
proof (cases stl)
  case True
  then have "t = rw_table w" "\<not> restamped" using plan_stale p rs(1) by simp_all
  moreover have "at_round a \<noteq> i" if "a \<in> set (rw_log w)" for a using inv_log_round [OF inv that] r by force
  ultimately show ?thesis
    using inv by (elim rounds_inv_quiet) (use inv_now [OF inv] r True ep in \<open>auto simp: holding_def split: if_splits\<close>)
next
  case False
  then show ?thesis using rounds_inv_Plan_fresh [OF inv r] p rs ep by simp
qed

lemma rounds_reach_inv:
  assumes "rounds_reach cfg d w" "d < 60000" "\<not> rw_recurred w"
  shows "rounds_inv cfg w"
  using assms(1,3)
proof induction
  case reach_start
  show ?case by (rule rounds_inv_start)
next
  case (reach_step w w')
  from reach_step(2,4) have "\<not> rw_recurred w" by cases simp_all
  from reach_step(2,4) reach_step.IH [OF this] assms(2) show ?case
    by cases (simp_all add: rounds_inv_Tick rounds_inv_Start rounds_inv_Note rounds_inv_Plan rounds_inv_Execute rounds_inv_Write)
qed

section \<open>Properties\<close>

text \<open>
  C25. No endpoint is hammered by concurrent rounds: in any interleaving of rounds over any catalogs,
  with any executors, answers and cancellations, in which a round no longer probes or writes back
  once it is a minute old, two rounds that attempt the same endpoint under the same stamp of the
  table planned it with clock readings at least sixty seconds apart. Assumed of the run, besides
  the age of its rounds: no revision came back to the table, after another one, while a round of
  it from before was still under way; what happens then is \<open>returning_revision_is_hammered\<close>.
\<close>

theorem rounds_never_hammer:
  assumes "rounds_reach cfg d w" and "d < 60000" and "\<not> rw_recurred w"
    and "a \<in> set (rw_log w)" "b \<in> set (rw_log w)" "at_round a \<noteq> at_round b" "at_endpoint a = at_endpoint b"
    and "at_epoch a = at_epoch b" "at_epoch a \<noteq> None"
  shows "at_now a + 60000 \<le> at_now b \<or> at_now b + 60000 \<le> at_now a"
  using rounds_reach_inv [OF assms(1-3)] assms(4-9) unfolding rounds_inv_def spaced_def by blast

text \<open>A whole round from its clock reading to its write-back, nothing in between.\<close>

lemma full_round:
  assumes w: "rounds_reach cfg d w" "rw_rounds w i = None" "\<forall>a \<in> set (rw_log w). at_round a \<noteq> i" "rq_now rq = rw_clock w"
    and p: "plan_and_reserve (rq_key rq) (rq_fetched rq) (rq_shortlist rq) (probe_budget cfg) (rq_now rq)
      (note_active (rq_seq rq) (rq_key rq) (rw_table w)) = (t, st, dec, stl)"
    and rs: "restamped = (\<not> stl \<and> pt_revision (rw_table w) \<noteq> Some (rq_key rq))" "c = (rw_recurred w \<or> restamped \<and> recurs w rq)"
    and ep: "ep = (if restamped then rw_epoch w + 1 else rw_epoch w)"
    and x: "run_planned (rq_shortlist rq) dec st (ex :: nat ProbeExecutor) par x = (run, y)"
  shows "rounds_reach cfg d (w\<lparr>rw_epoch := ep,
    rw_recurred := c,
    rw_log := rw_log w @ log_attempts i rq ep stl run,
    rw_table := write_back (rq_key rq) (rq_shortlist rq) stl st dec run (rw_clock w) t,
    rw_rounds := (rw_rounds w)(i := None)\<rparr>)"
proof -
  note start = reach_step [OF w(1) round_step.Start [OF w(2-4)]]
  let ?wB = "w\<lparr>rw_table := note_active (rq_seq rq) (rq_key rq) (rw_table w), rw_rounds := (rw_rounds w)(i \<mapsto> (rq, Noted))\<rparr>"
  let ?wC = "w\<lparr>rw_table := t, rw_rounds := (rw_rounds w)(i \<mapsto> (rq, Reserved ep st dec stl)), rw_epoch := ep, rw_recurred := c\<rparr>"
  have "rounds_reach cfg d ?wB" using reach_step [OF start round_step.Note [of _ i rq]] by simp
  moreover have rec: "recurs ?wB rq = recurs w rq"
    unfolding recurs_def using w(2) by (intro ex_cong1) (auto simp: holding_def)
  have "round_step cfg d ?wB (?wB\<lparr>rw_table := t, rw_rounds := (rw_rounds ?wB)(i \<mapsto> (rq, Reserved ep st dec stl)),
      rw_epoch := ep, rw_recurred := (rw_recurred ?wB \<or> restamped \<and> recurs ?wB rq)\<rparr>)"
    using p rs(1) ep by (intro round_step.Plan) simp_all
  ultimately have "rounds_reach cfg d (?wB\<lparr>rw_table := t, rw_rounds := (rw_rounds ?wB)(i \<mapsto> (rq, Reserved ep st dec stl)),
      rw_epoch := ep, rw_recurred := (rw_recurred ?wB \<or> restamped \<and> recurs ?wB rq)\<rparr>)"
    by (rule reach_step)
  then have "rounds_reach cfg d ?wC" using rec rs(2) by simp
  from reach_step [OF this round_step.Execute [of _ i rq ep st dec stl, OF _ _ x]] w(4)
  have "rounds_reach cfg d (?wC\<lparr>rw_rounds := (rw_rounds w)(i \<mapsto> (rq, Executed ep st dec stl run)),
      rw_log := rw_log w @ log_attempts i rq ep stl run\<rparr>)" by simp
  from reach_step [OF this round_step.Write [of _ i rq ep st dec stl run]] w(4) show ?thesis by simp
qed

lemma full_round_to:
  assumes "rounds_reach cfg d w" "rw_rounds w i = None" "\<forall>a \<in> set (rw_log w). at_round a \<noteq> i" "rq_now rq = rw_clock w"
    and "plan_and_reserve (rq_key rq) (rq_fetched rq) (rq_shortlist rq) (probe_budget cfg) (rq_now rq)
      (note_active (rq_seq rq) (rq_key rq) (rw_table w)) = (t, st, dec, stl)"
    and "restamped = (\<not> stl \<and> pt_revision (rw_table w) \<noteq> Some (rq_key rq))" "c = (rw_recurred w \<or> restamped \<and> recurs w rq)"
    and "ep = (if restamped then rw_epoch w + 1 else rw_epoch w)"
    and "run_planned (rq_shortlist rq) dec st (ex :: nat ProbeExecutor) par x = (run, y)"
    and "w' = w\<lparr>rw_epoch := ep, rw_recurred := c, rw_log := rw_log w @ log_attempts i rq ep stl run,
      rw_table := write_back (rq_key rq) (rq_shortlist rq) stl st dec run (rw_clock w) t,
      rw_rounds := (rw_rounds w)(i := None)\<rparr>"
  shows "rounds_reach cfg d w'"
  unfolding assms(10) by (rule full_round) (fact assms)+

text \<open>Two rounds over one endpoint that answers, the second a minute after the first.\<close>

definition sample_round :: "u64 \<Rightarrow> RoundReq" where
  "sample_round now = \<lparr>rq_key = (''e1'', 0), rq_fetched = 5, rq_seq = 1, rq_shortlist = [''a''], rq_now = now\<rparr>"

definition sample_section :: LatencyProbeSection where
  "sample_section = LatencyProbeSection_default\<lparr>result_min_age_minutes := 1\<rparr>"

lemmas round_eval = sample_round_def sample_section_def LatencyProbeSection_default_def Rounds_start_def ProbeTable_default_def
  probe_budget_def plan_and_reserve_def stale_for_def tie_and_not_active_def reconcile_def note_active_def active_key_def
  reserve_one_def or_default_def EndpointState_default_def write_back_def write_back_one_def log_attempts_def

lemma sample_rounds:
  "\<exists>w. rounds_reach sample_section 9000 w \<and> \<not> rw_recurred w \<and>
     rw_log w = [\<lparr>at_round = 0, at_endpoint = ''a'', at_now = 0, at_epoch = Some 1\<rparr>,
                 \<lparr>at_round = 1, at_endpoint = ''a'', at_now = 60000, at_epoch = Some 1\<rparr>]"
proof -
  let ?st = "[(''a'', \<lparr>observation = Some \<lparr>rtt = from_millis 5\<rparr>, observed_at_ms = 0, last_attempt_ms = 0\<rparr>)]"
  let ?dec = "[(''a'', Probe)]"
  let ?run = "\<lparr>observations = [(''a'', \<lparr>rtt = from_millis 5\<rparr>)], attempted = [''a'']\<rparr>"
  let ?plan = "\<lambda>n t. plan_and_reserve (rq_key (sample_round n)) (rq_fetched (sample_round n)) (rq_shortlist (sample_round n))
      (probe_budget sample_section) (rq_now (sample_round n)) (note_active (rq_seq (sample_round n)) (rq_key (sample_round n)) t)"
  let ?t = "\<lambda>st. \<lparr>pt_active = Some (1, (''e1'', 0)), pt_revision = Some (''e1'', 0), pt_fetched_unix = 5, pt_state = st\<rparr>"
  have x: "run_planned (rq_shortlist (sample_round n)) ?dec st sample_executor 1 0 = (?run, 1)" for n st
    by (simp add: probe_run_eval sample_round_def)
  have p: "?plan 0 (rw_table Rounds_start) = (?t [(''a'', EndpointState_default)], [], ?dec, False)"
    by (simp add: round_eval probe_run_eval)
  have "rounds_reach sample_section 9000 (Rounds_start\<lparr>rw_table := ?t ?st, rw_rounds := Map.empty, rw_epoch := 1,
      rw_recurred := False, rw_log := [\<lparr>at_round = 0, at_endpoint = ''a'', at_now = 0, at_epoch = Some 1\<rparr>]\<rparr>)"
    (is "rounds_reach _ _ ?w")
    using full_round [OF reach_start [of sample_section 9000] _ _ _ p refl refl refl x, of 0]
    by (simp add: round_eval btree_get_def fun_upd_def recurs_def holding_def)
  from reach_step [OF this round_step.Tick [of _ 60000]]
  have w: "rounds_reach sample_section 9000 (?w\<lparr>rw_clock := 60000\<rparr>)" by (simp add: Rounds_start_def)
  have p: "?plan 60000 (rw_table (?w\<lparr>rw_clock := 60000\<rparr>)) =
      (?t [(''a'', \<lparr>observation = Some \<lparr>rtt = from_millis 5\<rparr>, observed_at_ms = 0, last_attempt_ms = 60000\<rparr>)], ?st, ?dec, False)"
    by (simp add: round_eval probe_run_eval)
  show ?thesis
    by (rule exI, rule conjI, rule full_round [OF w _ _ _ p refl refl refl x, of 1])
      (simp_all add: sample_round_def Rounds_start_def log_attempts_def)
qed

theorem rounds_never_hammer_witness:
  "\<exists>w a b. rounds_reach sample_section 9000 w \<and> a \<in> set (rw_log w) \<and> b \<in> set (rw_log w) \<and> at_round a \<noteq> at_round b \<and>
     at_endpoint a = ''a'' \<and> at_endpoint b = ''a'' \<and> (at_now a + 60000 \<le> at_now b \<or> at_now b + 60000 \<le> at_now a)"
proof -
  obtain w where w: "rounds_reach sample_section 9000 w" "\<not> rw_recurred w"
    "rw_log w = [\<lparr>at_round = 0, at_endpoint = ''a'', at_now = 0, at_epoch = Some 1\<rparr>,
                 \<lparr>at_round = 1, at_endpoint = ''a'', at_now = 60000, at_epoch = Some 1\<rparr>]" (is "_ = [?a, ?b]")
    using sample_rounds by blast
  have "at_now ?a + 60000 \<le> at_now ?b \<or> at_now ?b + 60000 \<le> at_now ?a"
    by (rule rounds_never_hammer [OF w(1) _ w(2)]) (simp_all add: w(3))
  with w show ?thesis by (intro exI [of _ w] exI [of _ ?a] exI [of _ ?b]) simp
qed

text \<open>
  What the age bound is for: a round that writes back a minute after it planned takes the
  reservation another round has made meanwhile out of the table.
\<close>

lemma late_release_forgets_another_round:
  "last_of (pt_state (write_back key [''a''] False [] [(''a'', Probe)] \<lparr>observations = [], attempted = []\<rparr> 70000
     \<lparr>pt_active = None, pt_revision = Some key, pt_fetched_unix = 5,
      pt_state = [(''a'', \<lparr>observation = None, observed_at_ms = 0, last_attempt_ms = 60000\<rparr>)]\<rparr>)) ''a'' = None"
  by (simp add: write_back_def write_back_one_def last_of_def btree_get_def btree_remove_def)

text \<open>
  What the assumption on returning revisions is for: a round of revision A reserves the endpoint;
  the catalog changes to B and back to A, and two rounds over B and A probe it; then the first round
  ends without having probed, finds its revision on the table, and takes the reservation out that
  the other round of A has made. The next round probes the endpoint again at once.
\<close>

definition revision_round :: "string \<Rightarrow> u64 \<Rightarrow> RoundReq" where
  "revision_round tag n = \<lparr>rq_key = (tag, 0), rq_fetched = n, rq_seq = n, rq_shortlist = [''a''], rq_now = 0\<rparr>"

theorem returning_revision_is_hammered:
  "\<exists>w a b. rounds_reach sample_section 9000 w \<and> a \<in> set (rw_log w) \<and> b \<in> set (rw_log w) \<and>
     at_round a \<noteq> at_round b \<and> at_endpoint a = at_endpoint b \<and> at_epoch a = at_epoch b \<and> at_epoch a \<noteq> None \<and>
     at_now a = at_now b"
proof -
  let ?dec = "[(''a'', Probe)]" and ?init = "[(''a'', EndpointState_default)]"
  let ?st = "[(''a'', \<lparr>observation = Some \<lparr>rtt = from_millis 5\<rparr>, observed_at_ms = 0, last_attempt_ms = 0\<rparr>)]"
  let ?run = "\<lparr>observations = [(''a'', \<lparr>rtt = from_millis 5\<rparr>)], attempted = [''a'']\<rparr>"
  let ?plan = "\<lambda>rq t. plan_and_reserve (rq_key rq) (rq_fetched rq) (rq_shortlist rq) (probe_budget sample_section) (rq_now rq)
      (note_active (rq_seq rq) (rq_key rq) t)"
  let ?t = "\<lambda>tag n m st. \<lparr>pt_active = Some (n, (tag, 0)), pt_revision = Some (tag, 0), pt_fetched_unix = m, pt_state = st\<rparr>"
  let ?a = "revision_round ''A''" and ?b = "revision_round ''B'' 6"
  note ev = revision_round_def round_eval probe_run_eval
  have x: "run_planned (rq_shortlist (revision_round tag n)) ?dec st sample_executor 1 0 = (?run, 1)" for tag n st
    by (simp add: ev)
  have cut: "run_planned (rq_shortlist (?a 5)) ?dec [] sample_executor 1 1 = (\<lparr>observations = [], attempted = []\<rparr>, 2)"
    by (simp add: ev)
  let ?wA = "Rounds_start\<lparr>rw_table := ?t ''A'' 5 5 ?init, rw_rounds := [0 \<mapsto> (?a 5, Reserved 1 [] ?dec False)], rw_epoch := 1\<rparr>"
  have "rounds_reach sample_section 9000 (Rounds_start\<lparr>rw_rounds := [0 \<mapsto> (?a 5, Timed)]\<rparr>)" (is "rounds_reach _ _ ?uA")
    using reach_step [OF reach_start round_step.Start [of Rounds_start 0 "?a 5"]] by (simp add: ev)
  from reach_step [OF this round_step.Note [of _ 0 "?a 5"]]
  have "rounds_reach sample_section 9000 (?uA\<lparr>rw_table := note_active 5 (''A'', 0) ProbeTable_default,
      rw_rounds := [0 \<mapsto> (?a 5, Noted)]\<rparr>)" (is "rounds_reach _ _ ?uB") by (simp add: ev)
  moreover have norec: "\<not> recurs ?uB (?a 5)" by (auto simp: recurs_def holding_def split: if_splits)
  moreover have "?plan (?a 5) ProbeTable_default = (?t ''A'' 5 5 ?init, [], ?dec, False)" by (simp add: ev)
  ultimately have w0: "rounds_reach sample_section 9000 ?wA"
    using reach_step [OF _ round_step.Plan [of ?uB 0 "?a 5" sample_section "?t ''A'' 5 5 ?init" "[]" ?dec False True 1]] norec
    by (simp add: ev)
  have "?plan ?b (rw_table ?wA) = (?t ''B'' 6 6 ?init, [], ?dec, False)" by (simp add: ev)
  note B = full_round_to [OF w0 _ _ _ this refl refl refl x, of 1]
  have "\<exists>c. rounds_reach sample_section 9000 (?wA\<lparr>rw_table := ?t ''B'' 6 6 ?st, rw_epoch := 2, rw_recurred := c,
      rw_log := [\<lparr>at_round = 1, at_endpoint = ''a'', at_now = 0, at_epoch = Some 2\<rparr>]\<rparr>)"
    by (rule exI [of _ "rw_recurred ?wA \<or> recurs ?wA ?b"], rule B) (simp_all add: ev fun_eq_iff)
  then obtain c1 where w1: "rounds_reach sample_section 9000 (?wA\<lparr>rw_table := ?t ''B'' 6 6 ?st, rw_epoch := 2, rw_recurred := c1,
      rw_log := [\<lparr>at_round = 1, at_endpoint = ''a'', at_now = 0, at_epoch = Some 2\<rparr>]\<rparr>)" (is "rounds_reach _ _ ?wB") ..
  have "?plan (?a 7) (rw_table ?wB) = (?t ''A'' 7 7 ?init, [], ?dec, False)" by (simp add: ev)
  note C = full_round_to [OF w1 _ _ _ this refl refl refl x, of 2]
  have "\<exists>c. rounds_reach sample_section 9000 (?wA\<lparr>rw_table := ?t ''A'' 7 7 ?st, rw_epoch := 3, rw_recurred := c,
      rw_log := [\<lparr>at_round = 1, at_endpoint = ''a'', at_now = 0, at_epoch = Some 2\<rparr>,
        \<lparr>at_round = 2, at_endpoint = ''a'', at_now = 0, at_epoch = Some 3\<rparr>]\<rparr>)"
    by (rule exI [of _ "rw_recurred ?wB \<or> recurs ?wB (?a 7)"], rule C) (simp_all add: ev fun_eq_iff)
  then obtain c2 where w2: "rounds_reach sample_section 9000 (?wA\<lparr>rw_table := ?t ''A'' 7 7 ?st, rw_epoch := 3, rw_recurred := c2,
      rw_log := [\<lparr>at_round = 1, at_endpoint = ''a'', at_now = 0, at_epoch = Some 2\<rparr>,
        \<lparr>at_round = 2, at_endpoint = ''a'', at_now = 0, at_epoch = Some 3\<rparr>]\<rparr>)" (is "rounds_reach _ _ ?wC") ..
  from reach_step [OF w2 round_step.Execute [of _ 0 "?a 5" 1 "[]" ?dec False, OF _ _ cut]]
  have "rounds_reach sample_section 9000 (?wC\<lparr>rw_rounds := [0 \<mapsto> (?a 5, Executed 1 [] ?dec False \<lparr>observations = [], attempted = []\<rparr>)]\<rparr>)"
    by (simp add: ev)
  from reach_step [OF this round_step.Write [of _ 0 "?a 5" 1 "[]" ?dec False "\<lparr>observations = [], attempted = []\<rparr>"]]
  have w3: "rounds_reach sample_section 9000 (?wC\<lparr>rw_table := ?t ''A'' 7 7 [], rw_rounds := Map.empty\<rparr>)" (is "rounds_reach _ _ ?wD")
    by (simp add: ev btree_remove_def)
  have "?plan (?a 7) (rw_table ?wD) = (?t ''A'' 7 7 ?init, [], ?dec, False)" by (simp add: ev)
  note D = full_round [OF w3 _ _ _ this refl refl refl x, of 3]
  have "\<exists>w. rounds_reach sample_section 9000 w \<and> rw_log w = [\<lparr>at_round = 1, at_endpoint = ''a'', at_now = 0, at_epoch = Some 2\<rparr>,
        \<lparr>at_round = 2, at_endpoint = ''a'', at_now = 0, at_epoch = Some 3\<rparr>,
        \<lparr>at_round = 3, at_endpoint = ''a'', at_now = 0, at_epoch = Some 3\<rparr>]"
    by (rule exI, rule conjI, rule D) (simp_all add: ev)
  then obtain w where w: "rounds_reach sample_section 9000 w" "rw_log w = [\<lparr>at_round = 1, at_endpoint = ''a'', at_now = 0, at_epoch = Some 2\<rparr>,
        \<lparr>at_round = 2, at_endpoint = ''a'', at_now = 0, at_epoch = Some 3\<rparr>,
        \<lparr>at_round = 3, at_endpoint = ''a'', at_now = 0, at_epoch = Some 3\<rparr>]" (is "_ = [_, ?p, ?q]") by blast
  then show ?thesis by (intro exI [of _ w] exI [of _ ?p] exI [of _ ?q]) simp
qed

text \<open>
  A stale round is not rate limited. While the table is stamped with a later fetch time than the
  loaded catalog, as after the wall clock was set back between two fetches, every round plans every
  endpoint of its shortlist and leaves no trace that would hold the next one back.
\<close>

lemma plan_empty_view:
  assumes "n + length es \<le> max_probes_per_run b" "e \<in> set es"
  shows "btree_get (plan_loop [] b now es n d) e = Some Probe"
  using assms
proof (induction es arbitrary: n d)
  case (Cons f es)
  show ?case
  proof (cases "e \<in> set es")
    case True
    with Cons show ?thesis by (simp add: decide_def)
  next
    case False
    with Cons.prems have "e = f" by simp
    with False Cons.prems show ?thesis by (simp add: decide_def plan_loop_other)
  qed
qed simp

theorem stale_rounds_are_unlimited:
  assumes "fetched < pt_fetched_unix t" "length es \<le> max_candidates cfg"
  shows "\<exists>dec. plan_and_reserve key fetched es (probe_budget cfg) now t = (t, [], dec, True) \<and> planned dec es = es \<and>
    write_back key es True [] dec run answered_at t = t"
  using assms plan_empty_view [of 0 es "probe_budget cfg" _ now "[]"]
  by (auto simp: plan_and_reserve_def stale_for_def write_back_def planned_def plan_run_def probe_budget_def filter_id_conv)

text \<open>The unwired transport observes nothing: its rounds return priors only.\<close>

lemma icmp_round_returns_priors:
  assumes "run_planned es dec st (transport_executor world Icmp timeout endpoints deadline) p x = (r, y)"
    and "btree_get (observations r) e = Some obs"
  shows "prior_of dec st e = Some obs"
  using run_planned_accounted [OF assms(1)] assms(2) unfolding accounted_def by (auto simp: transport_executor_def)

text \<open>A connection attempt is never given more time than the round has left.\<close>

lemma probe_within_deadline:
  assumes "probe (transport_executor world TcpUdp timeout endpoints deadline) x i e = Some d"
  shows "\<exists>addr limit. connect world x i addr limit = Some d \<and> \<not> duration_less timeout limit \<and>
    \<not> duration_less (duration_since deadline (worker_instant world x i)) limit"
proof -
  let ?rest = "duration_since deadline (worker_instant world x i)"
  obtain addr where "connect world x i addr (duration_min timeout ?rest) = Some d"
    using assms by (auto simp: transport_executor_def split: option.splits)
  moreover have "\<not> duration_less timeout (duration_min timeout ?rest)" "\<not> duration_less ?rest (duration_min timeout ?rest)"
    using duration.flip [of timeout ?rest] duration.flip [of ?rest timeout]
    by (auto simp: duration_min_def duration_less_def duration.refl_equal)
  ultimately show ?thesis by blast
qed

end
