(* ===== verification/Entitlements.thy ===== *)
theory Entitlements
  imports Prelude
begin

text \<open>
  VPN entitlements and the free-plan change-server cooldown (\<open>crates/api/src/entitlements.rs\<close>): the
  classified model, its strict parse from a JSON value, the cooldown policy, and the fetch over the
  transport. JSON values are those of \<open>serde_json\<close>; turning bytes into one, and the transport itself,
  are parameters. Error texts are the data they interpolate.

  The lemmas show that a parsed snapshot is consistent, tier by tier and allowance by allowance, that
  the parse accepts exactly the recorded contract, and what the cooldown answers.
\<close>

section \<open>JSON values\<close>

datatype JsonNumber = PosInt u64 | NegInt i64 | FloatNumber "64 word"

datatype Json =
    JNull
  | JBool bool
  | JNumber JsonNumber
  | JString string
  | JArray "Json list"
  | JObject "(string \<times> Json) list"

type_synonym JsonMap = "(string, Json) btree"

definition i64_max :: i64 where
  "i64_max = 2 ^ 63 - 1"

definition as_i64 :: "Json \<Rightarrow> i64 option" where
  "as_i64 v =
     (case v of
        JNumber (PosInt n) \<Rightarrow> if int n \<le> i64_max then Some (int n) else None
      | JNumber (NegInt i) \<Rightarrow> Some i
      | _ \<Rightarrow> None)"

definition as_str :: "Json \<Rightarrow> string option" where
  "as_str v = (case v of JString s \<Rightarrow> Some s | _ \<Rightarrow> None)"

definition as_bool :: "Json \<Rightarrow> bool option" where
  "as_bool v = (case v of JBool b \<Rightarrow> Some b | _ \<Rightarrow> None)"

definition as_object :: "Json \<Rightarrow> JsonMap option" where
  "as_object v = (case v of JObject m \<Rightarrow> Some m | _ \<Rightarrow> None)"

section \<open>The model\<close>

datatype malformed =
    NotJson string
  | RootNotObject
  | UnknownKey string string
  | MissingField string
  | FieldType string string
  | DetailsShape
  | UnrepresentedStatus i64
  | UnrepresentedTier i64
  | NetShieldShape

datatype EntitlementsError = ApiRefused i64 string | Malformed malformed | Transport string

datatype VpnAccess = NoAccess | Active | Waitlisted

datatype PlanTier = Free | Paid

record NetShieldAllowance =
  malware :: bool
  ads_and_trackers :: bool
  adult_content :: bool

record FeatureAllowances =
  fa_netshield :: "NetShieldAllowance option"
  fa_p2p :: "bool option"
  fa_secure_core :: "bool option"
  fa_tor :: "bool option"
  fa_gateway :: "bool option"

record VpnEntitlements =
  vpn_access :: VpnAccess
  max_tier :: "i64 option"
  plan_tier :: "PlanTier option"
  expiration_time :: "i64 option"
  plan_name :: "string option"
  plan_title :: "string option"
  max_connect :: i64
  vpn_name :: "string option"
  group_id :: "string option"
  is_business :: "bool option"
  subscribed :: i64
  services :: i64
  delinquent :: i64
  credit :: "i64 option"
  has_payment_method :: "i64 option"
  ve_features :: FeatureAllowances

definition ENVELOPE_KEYS :: "string list" where
  "ENVELOPE_KEYS = [''Code'', ''Error'', ''Details'', ''VPN'', ''Subscribed'', ''Services'', ''Delinquent'', ''Credit'',
     ''HasPaymentMethod'']"

definition VPN_KEYS :: "string list" where
  "VPN_KEYS = [''Status'', ''ExpirationTime'', ''PlanName'', ''PlanTitle'', ''MaxTier'', ''MaxConnect'', ''Name'', ''GroupID'',
     ''IsBusiness'', ''NetShield'']"

definition NETSHIELD_KEYS :: "string list" where
  "NETSHIELD_KEYS = [''Malware'', ''AdsAndTrackers'', ''AdultContent'']"

definition PROTON_RESULT_CODE_OK :: i64 where
  "PROTON_RESULT_CODE_OK = 1000"

section \<open>Wire fields\<close>

definition ok_or :: "'e \<Rightarrow> 'a option \<Rightarrow> ('e, 'a) res" where
  "ok_or e x = (case x of Some v \<Rightarrow> Ok v | None \<Rightarrow> Err e)"

definition reject_unknown_keys :: "string \<Rightarrow> JsonMap \<Rightarrow> string list \<Rightarrow> (EntitlementsError, unit) res" where
  "reject_unknown_keys object m known =
     for_each (\<lambda>key. if key \<in> set known then Ok () else Err (Malformed (UnknownKey object key))) (map fst m)"

definition field_type_error :: "string \<Rightarrow> string \<Rightarrow> EntitlementsError" where
  "field_type_error field expected = Malformed (FieldType field expected)"

definition require_i64 :: "JsonMap \<Rightarrow> string \<Rightarrow> (EntitlementsError, i64) res" where
  "require_i64 m field =
     and_then (ok_or (Malformed (MissingField field)) (btree_get m field)) (\<lambda>v.
     ok_or (field_type_error field ''an integer'') (as_i64 v))"

definition optional_field :: "(Json \<Rightarrow> 'a option) \<Rightarrow> string \<Rightarrow> JsonMap \<Rightarrow> string \<Rightarrow> (EntitlementsError, 'a option) res" where
  "optional_field conv expected m field =
     (case btree_get m field of
        None \<Rightarrow> Ok None
      | Some v \<Rightarrow> if v = JNull then Ok None else and_then (ok_or (field_type_error field expected) (conv v)) (\<lambda>x. Ok (Some x)))"

definition optional_i64 :: "JsonMap \<Rightarrow> string \<Rightarrow> (EntitlementsError, i64 option) res" where
  "optional_i64 = optional_field as_i64 ''null or an integer''"

definition optional_string :: "JsonMap \<Rightarrow> string \<Rightarrow> (EntitlementsError, string option) res" where
  "optional_string = optional_field as_str ''null or a string''"

definition optional_bool :: "JsonMap \<Rightarrow> string \<Rightarrow> (EntitlementsError, bool option) res" where
  "optional_bool = optional_field as_bool ''null or a boolean''"

definition require_bool :: "JsonMap \<Rightarrow> string \<Rightarrow> (EntitlementsError, bool) res" where
  "require_bool m field =
     and_then (ok_or (Malformed (MissingField field)) (btree_get m field)) (\<lambda>v.
     ok_or (field_type_error field ''a boolean'') (as_bool v))"

section \<open>The parse\<close>

definition classify_access :: "i64 \<Rightarrow> (EntitlementsError, VpnAccess) res" where
  "classify_access status =
     (if status = 0 then Ok NoAccess else if status = 1 then Ok Active else if status = 2 then Ok Waitlisted
      else Err (Malformed (UnrepresentedStatus status)))"

definition classify_tier :: "i64 option \<Rightarrow> (EntitlementsError, PlanTier option) res" where
  "classify_tier tier =
     (case tier of
        None \<Rightarrow> Ok None
      | Some t \<Rightarrow> if t \<ge> 0 then Ok (Some (if t = 0 then Free else Paid)) else Err (Malformed (UnrepresentedTier t)))"

definition parse_netshield :: "JsonMap \<Rightarrow> (EntitlementsError, NetShieldAllowance option) res" where
  "parse_netshield vpn =
     (case btree_get vpn ''NetShield'' of
        None \<Rightarrow> Ok None
      | Some JNull \<Rightarrow> Ok None
      | Some (JObject m) \<Rightarrow>
          and_then (reject_unknown_keys ''NetShield'' m NETSHIELD_KEYS) (\<lambda>_.
          and_then (require_bool m ''Malware'') (\<lambda>mal.
          and_then (require_bool m ''AdsAndTrackers'') (\<lambda>ads.
          and_then (require_bool m ''AdultContent'') (\<lambda>adult.
          Ok (Some \<lparr>malware = mal, ads_and_trackers = ads, adult_content = adult\<rparr>)))))
      | Some _ \<Rightarrow> Err (Malformed NetShieldShape))"

definition parse_details :: "JsonMap \<Rightarrow> (EntitlementsError, unit) res" where
  "parse_details root =
     (case btree_get root ''Details'' of
        None \<Rightarrow> Ok ()
      | Some JNull \<Rightarrow> Ok ()
      | Some (JObject _) \<Rightarrow> Ok ()
      | Some _ \<Rightarrow> Err (Malformed DetailsShape))"

text \<open>The account-level fields of the envelope, and the VPN object with what the envelope gave.\<close>

record Envelope =
  ev_subscribed :: i64
  ev_services :: i64
  ev_delinquent :: i64
  ev_credit :: "i64 option"
  ev_has_payment_method :: "i64 option"

definition parse_envelope :: "JsonMap \<Rightarrow> (EntitlementsError, Envelope \<times> JsonMap) res" where
  "parse_envelope root =
     and_then (reject_unknown_keys ''envelope'' root ENVELOPE_KEYS) (\<lambda>_.
     and_then (require_i64 root ''Code'') (\<lambda>code.
     if code \<noteq> PROTON_RESULT_CODE_OK then
       and_then (optional_string root ''Error'') (\<lambda>error.
       Err (ApiRefused code (case error of Some e \<Rightarrow> e | None \<Rightarrow> [])))
     else
       and_then (optional_string root ''Error'') (\<lambda>_.
       and_then (parse_details root) (\<lambda>_.
       and_then (require_i64 root ''Subscribed'') (\<lambda>subscribed.
       and_then (require_i64 root ''Services'') (\<lambda>services.
       and_then (require_i64 root ''Delinquent'') (\<lambda>delinquent.
       and_then (optional_i64 root ''Credit'') (\<lambda>credit.
       and_then (optional_i64 root ''HasPaymentMethod'') (\<lambda>pay.
       and_then (ok_or (Malformed (MissingField ''VPN'')) (btree_get root ''VPN'')) (\<lambda>v.
       and_then (ok_or (field_type_error ''VPN'' ''an object'') (as_object v)) (\<lambda>vpn.
       Ok (\<lparr>ev_subscribed = subscribed, ev_services = services, ev_delinquent = delinquent, ev_credit = credit,
            ev_has_payment_method = pay\<rparr>, vpn))))))))))))"

definition parse_vpn :: "Envelope \<Rightarrow> JsonMap \<Rightarrow> (EntitlementsError, VpnEntitlements) res" where
  "parse_vpn env vpn =
     and_then (reject_unknown_keys ''VPN'' vpn VPN_KEYS) (\<lambda>_.
     and_then (require_i64 vpn ''Status'') (\<lambda>status.
     and_then (classify_access status) (\<lambda>access.
     and_then (optional_i64 vpn ''MaxTier'') (\<lambda>tier.
     and_then (classify_tier tier) (\<lambda>plan.
     and_then (parse_netshield vpn) (\<lambda>netshield.
     and_then (optional_bool vpn ''IsBusiness'') (\<lambda>business.
     and_then (optional_i64 vpn ''ExpirationTime'') (\<lambda>expiration.
     and_then (optional_string vpn ''PlanName'') (\<lambda>name.
     and_then (optional_string vpn ''PlanTitle'') (\<lambda>title.
     and_then (require_i64 vpn ''MaxConnect'') (\<lambda>connect.
     and_then (optional_string vpn ''Name'') (\<lambda>vname.
     and_then (optional_string vpn ''GroupID'') (\<lambda>group.
     let paid = map_option (\<lambda>t. t = Paid) plan in
     Ok \<lparr>vpn_access = access, max_tier = tier, plan_tier = plan, expiration_time = expiration, plan_name = name,
         plan_title = title, max_connect = connect, vpn_name = vname, group_id = group, is_business = business,
         subscribed = ev_subscribed env, services = ev_services env, delinquent = ev_delinquent env, credit = ev_credit env,
         has_payment_method = ev_has_payment_method env,
         ve_features = \<lparr>fa_netshield = netshield, fa_p2p = paid, fa_secure_core = paid, fa_tor = paid, fa_gateway = business\<rparr>\<rparr>)))))))))))))"

definition from_wire_bytes :: "(bytes \<Rightarrow> string + Json) \<Rightarrow> bytes \<Rightarrow> (EntitlementsError, VpnEntitlements) res" where
  "from_wire_bytes from_slice body =
     (case from_slice body of
        Inl e \<Rightarrow> Err (Malformed (NotJson e))
      | Inr v \<Rightarrow>
          and_then (ok_or (Malformed RootNotObject) (as_object v)) (\<lambda>root.
          and_then (parse_envelope root) (\<lambda>(env, vpn).
          parse_vpn env vpn)))"

text \<open>
  \<open>MuonEntitlements::fetch\<close>. What the transport gave: its error text, or a response, which its \<open>ok()\<close>
  turns into a refusal text or a body.
\<close>

definition fetch :: "(bytes \<Rightarrow> string + Json) \<Rightarrow> string + (string + bytes) \<Rightarrow> (EntitlementsError, VpnEntitlements) res" where
  "fetch from_slice sent =
     (case sent of
        Inl e \<Rightarrow> Err (Transport e)
      | Inr (Inl refusal) \<Rightarrow> Err (Transport refusal)
      | Inr (Inr body) \<Rightarrow> from_wire_bytes from_slice body)"

section \<open>The change-server cooldown\<close>

definition FREE_CHANGE_SERVER_FIRST_COOLDOWN :: Duration where
  "FREE_CHANGE_SERVER_FIRST_COOLDOWN = from_secs 45"

definition FREE_CHANGE_SERVER_COOLDOWN :: Duration where
  "FREE_CHANGE_SERVER_COOLDOWN = from_secs (10 * 60)"

datatype ChangeServerEligibility = Eligible | Cooldown Duration

text \<open>\<open>SystemTime\<close>: nanoseconds since the epoch, whose seconds are an \<open>i64\<close>.\<close>

type_synonym SystemTime = int

definition checked_add :: "SystemTime \<Rightarrow> Duration \<Rightarrow> SystemTime option" where
  "checked_add t d = (let s = t + int (duration_nanos d) in if s div 10 ^ 9 \<le> i64_max then Some s else None)"

definition nanos_duration :: "nat \<Rightarrow> Duration" where
  "nanos_duration n = Duration (n div 10 ^ 9) (n mod 10 ^ 9)"

definition free_change_cooldown_window :: "u32 \<Rightarrow> Duration" where
  "free_change_cooldown_window changes_made =
     (if changes_made = 1 then FREE_CHANGE_SERVER_FIRST_COOLDOWN else FREE_CHANGE_SERVER_COOLDOWN)"

definition change_server_eligibility :: "PlanTier option \<Rightarrow> SystemTime option \<Rightarrow> SystemTime \<Rightarrow> Duration \<Rightarrow> ChangeServerEligibility" where
  "change_server_eligibility tier last_change now window =
     (if tier \<noteq> Some Free then Eligible
      else case last_change of
          None \<Rightarrow> Eligible
        | Some at \<Rightarrow>
            (case checked_add at window of
               None \<Rightarrow> Eligible
             | Some deadline \<Rightarrow>
                 if deadline \<le> now then Eligible else Cooldown (nanos_duration (nat (deadline - now)))))"


section \<open>Consistency\<close>

text \<open>What the rest of the daemon relies on: the classifications and the allowances are those of the raw fields.\<close>

definition snapshot_ok :: "VpnEntitlements \<Rightarrow> bool" where
  "snapshot_ok e \<longleftrightarrow>
     plan_tier e = map_option (\<lambda>t. if t = 0 then Free else Paid) (max_tier e) \<and>
     (\<forall>t. max_tier e = Some t \<longrightarrow> 0 \<le> t) \<and>
     fa_p2p (ve_features e) = map_option (\<lambda>t. t = Paid) (plan_tier e) \<and>
     fa_secure_core (ve_features e) = fa_p2p (ve_features e) \<and> fa_tor (ve_features e) = fa_p2p (ve_features e) \<and>
     fa_gateway (ve_features e) = is_business e"

lemma ok_or_Ok [res_simps]: "ok_or e x = Ok y \<longleftrightarrow> x = Some y"
  by (simp add: ok_or_def split: option.split)

lemma ok_or_not_Panic [simp]: "ok_or e x \<noteq> Panic"
  by (simp add: ok_or_def split: option.split)

lemma as_object_Some [res_simps]: "as_object v = Some m \<longleftrightarrow> v = JObject m"
  by (cases v) (simp_all add: as_object_def)

lemma classify_tier_Ok:
  "classify_tier tier = Ok plan \<longleftrightarrow>
     plan = map_option (\<lambda>t. if t = 0 then Free else Paid) tier \<and> (\<forall>t. tier = Some t \<longrightarrow> 0 \<le> t)"
  by (auto simp: classify_tier_def split: option.splits)

lemma parse_vpn_Ok:
  assumes "parse_vpn env vpn = Ok e"
  shows "snapshot_ok e" "optional_i64 vpn ''MaxTier'' = Ok (max_tier e)" "optional_bool vpn ''IsBusiness'' = Ok (is_business e)"
    "\<exists>status. require_i64 vpn ''Status'' = Ok status \<and> classify_access status = Ok (vpn_access e)"
    "set (map fst vpn) \<subseteq> set VPN_KEYS"
  using assms
  by (auto simp: parse_vpn_def res_simps Let_def snapshot_ok_def classify_tier_Ok reject_unknown_keys_def split: if_splits)

lemma from_wire_Ok:
  assumes "from_wire_bytes from_slice body = Ok e"
  obtains root env vpn where "from_slice body = Inr (JObject root)" "parse_envelope root = Ok (env, vpn)" "parse_vpn env vpn = Ok e"
  using assms by (auto simp: from_wire_bytes_def res_simps split: sum.splits)

lemma parse_envelope_Ok:
  assumes "parse_envelope root = Ok (env, vpn)"
  shows "require_i64 root ''Code'' = Ok 1000" "btree_get root ''VPN'' = Some (JObject vpn)" "set (map fst root) \<subseteq> set ENVELOPE_KEYS"
  using assms
  by (auto simp: parse_envelope_def PROTON_RESULT_CODE_OK_def res_simps reject_unknown_keys_def split: if_splits)

lemma fetch_Ok:
  assumes "fetch from_slice sent = Ok e"
  obtains body where "sent = Inr (Inr body)" "from_wire_bytes from_slice body = Ok e"
  using assms by (auto simp: fetch_def split: sum.splits)


section \<open>Properties\<close>

text \<open>
  C32. Every snapshot the adapter returns is well formed: it was parsed from a success envelope
  (\<open>Code\<close> 1000) with an object \<open>VPN\<close> and no keys outside the recorded contract; the status is one of
  the three recorded values; the tier is absent exactly when the wire's is absent or null, and then
  neither a plan nor an allowance is made up; a tier is never negative, zero is the free plan and
  anything above the paid one; the allowances for P2P, Secure Core and Tor are those of the plan and
  the gateway allowance is the business flag.
\<close>

theorem fetched_snapshot_well_formed:
  assumes "fetch from_slice sent = Ok e"
  shows "snapshot_ok e \<and>
    (\<exists>body root vpn status. sent = Inr (Inr body) \<and> from_slice body = Inr (JObject root) \<and>
       set (map fst root) \<subseteq> set ENVELOPE_KEYS \<and> require_i64 root ''Code'' = Ok 1000 \<and>
       btree_get root ''VPN'' = Some (JObject vpn) \<and> set (map fst vpn) \<subseteq> set VPN_KEYS \<and>
       require_i64 vpn ''Status'' = Ok status \<and> vpn_access e = [NoAccess, Active, Waitlisted] ! nat status \<and> status \<in> {0, 1, 2} \<and>
       (max_tier e = None \<longleftrightarrow> btree_get vpn ''MaxTier'' \<in> {None, Some JNull}))"
proof -
  obtain body where b: "sent = Inr (Inr body)" "from_wire_bytes from_slice body = Ok e" using fetch_Ok [OF assms] .
  obtain root env vpn where r: "from_slice body = Inr (JObject root)" "parse_envelope root = Ok (env, vpn)" "parse_vpn env vpn = Ok e"
    using from_wire_Ok [OF b(2)] .
  note v = parse_vpn_Ok [OF r(3)]
  note w = parse_envelope_Ok [OF r(2)]
  have tier: "max_tier e = None \<longleftrightarrow> btree_get vpn ''MaxTier'' \<in> {None, Some JNull}"
    using v(2) by (cases "max_tier e") (auto simp: optional_i64_def optional_field_def res_simps split: option.splits if_splits)
  obtain status where status: "require_i64 vpn ''Status'' = Ok status" "vpn_access e = [NoAccess, Active, Waitlisted] ! nat status"
    "status \<in> {0, 1, 2}"
    using v(4) by (auto simp: classify_access_def split: if_splits)
  show ?thesis
    by (intro conjI exI [of _ body] exI [of _ root] exI [of _ vpn] exI [of _ status])
      (rule v(1) b(1) r(1) w(3) w(1) w(2) v(5) status tier)+
qed

definition sample_envelope :: JsonMap where
  "sample_envelope =
    [(''Code'', JNumber (PosInt 1000)), (''Delinquent'', JNumber (PosInt 0)), (''Services'', JNumber (PosInt 1)),
     (''Subscribed'', JNumber (PosInt 0)),
     (''VPN'', JObject [(''MaxConnect'', JNumber (PosInt 10)), (''MaxTier'', JNumber (PosInt 2)), (''Status'', JNumber (PosInt 1))])]"

lemmas entitlements_eval = from_wire_bytes_def parse_envelope_def parse_vpn_def parse_details_def parse_netshield_def classify_access_def
  classify_tier_def require_i64_def optional_i64_def optional_string_def optional_bool_def optional_field_def reject_unknown_keys_def
  ENVELOPE_KEYS_def VPN_KEYS_def PROTON_RESULT_CODE_OK_def as_i64_def i64_max_def as_object_def ok_or_def btree_get_def Let_def

lemma sample_fetch: "\<exists>e. fetch (\<lambda>_. Inr (JObject sample_envelope)) (Inr (Inr [])) = Ok e \<and> max_tier e = Some 2"
  by (simp add: fetch_def sample_envelope_def entitlements_eval)

theorem fetched_snapshot_well_formed_witness:
  "\<exists>e. fetch (\<lambda>_. Inr (JObject sample_envelope)) (Inr (Inr [])) = Ok e \<and> plan_tier e = Some Paid \<and>
     fa_p2p (ve_features e) = Some True \<and> fa_gateway (ve_features e) = is_business e"
proof -
  obtain e where e: "fetch (\<lambda>_. Inr (JObject sample_envelope)) (Inr (Inr [])) = Ok e" "max_tier e = Some 2"
    using sample_fetch by blast
  with conjunct1 [OF fetched_snapshot_well_formed [OF e(1)]] show ?thesis by (auto simp: snapshot_ok_def)
qed

text \<open>
  The cooldown: it binds the free plan only, ends exactly at the last change plus the window, and what
  it reports as remaining is the time to that instant.
\<close>

theorem cooldown_exact:
  assumes "change_server_eligibility tier last_change now window = r"
  shows "(r = Eligible \<longleftrightarrow>
      \<not> (tier = Some Free \<and> (\<exists>at deadline. last_change = Some at \<and> checked_add at window = Some deadline \<and> now < deadline))) \<and>
    (\<forall>d. r = Cooldown d \<longrightarrow> 0 < duration_nanos d \<and>
       (\<exists>at. last_change = Some at \<and> now + int (duration_nanos d) = at + int (duration_nanos window)))"
proof -
  have n: "duration_nanos (nanos_duration k) = k" for k by (simp add: duration_nanos_def nanos_duration_def)
  show ?thesis
    using assms n by (auto simp: change_server_eligibility_def checked_add_def Let_def split: if_splits option.splits)
qed

end
