(* ===== verification/Entitlement_Provider.thy ===== *)
theory Entitlement_Provider
  imports Entitlements Wire
begin

text \<open>
  The entitlement provider cell of the selection engine (\<open>EntitlementProvider\<close> and
  \<open>entitlement_composition\<close> of \<open>apps/daemon/src/selection.rs\<close>): the installed adapter with its
  generation, the single-flight fetch whose outcome every waiter shares, and the cached snapshot of
  the network-free listing. Adapters are told apart by a number; slots live in a heap, so that
  clearing one compares identity as \<open>Arc::ptr_eq\<close> does. The step relation interleaves the critical
  sections of any number of requests with replacements of the adapter, the workers and the timeouts.
\<close>

section \<open>The provider\<close>

type_synonym Outcome = "(RpcError, VpnEntitlements) res"

text \<open>\<open>sl_adapter\<close> is the adapter the slot's worker fetches from.\<close>

record FetchSlot =
  sl_generation :: u64
  sl_result :: "Outcome option"
  sl_adapter :: nat

record Provider =
  ep_inner :: "nat option"
  ep_generation :: u64
  ep_in_flight :: "nat option"
  ep_cached :: "VpnEntitlements option"
  ep_slots :: "nat \<Rightarrow> FetchSlot option"

definition Provider_default :: Provider where
  "Provider_default = \<lparr>ep_inner = None, ep_generation = 0, ep_in_flight = None, ep_cached = None, ep_slots = Map.empty\<rparr>"

definition install :: "nat \<Rightarrow> Provider \<Rightarrow> Provider" where
  "install api p = p\<lparr>ep_inner := Some api, ep_generation := wrapping_incr (ep_generation p), ep_in_flight := None, ep_cached := None\<rparr>"

text \<open>The slot to wait on: the one in flight if it is of the current generation, else a fresh one at \<open>fresh\<close> with a worker.\<close>

definition start_worker :: "nat \<Rightarrow> Provider \<Rightarrow> (RpcError, nat) res \<times> Provider" where
  "start_worker fresh p =
     (case ep_inner p of
        None \<Rightarrow> (Err (RpcError_new InternalCode ''no adapter installed''), p)
      | Some api \<Rightarrow> (Ok fresh, p\<lparr>ep_slots := (ep_slots p)(fresh \<mapsto>
          \<lparr>sl_generation = ep_generation p, sl_result = None, sl_adapter = api\<rparr>), ep_in_flight := Some fresh\<rparr>))"

definition single_flight_slot :: "nat \<Rightarrow> Provider \<Rightarrow> (RpcError, nat) res \<times> Provider" where
  "single_flight_slot fresh p =
     (case ep_in_flight p of
        Some s \<Rightarrow>
          if map_option sl_generation (ep_slots p s) = Some (ep_generation p) then (Ok s, p) else start_worker fresh p
      | None \<Rightarrow> start_worker fresh p)"

text \<open>The worker maps the adapter's error once and stores the outcome.\<close>

definition map_fetch_error :: "EntitlementsError \<Rightarrow> RpcError" where
  "map_fetch_error e =
     (case e of
        Transport detail \<Rightarrow> RpcError_new NetworkUnavailableCode (''entitlements read failed: '' @ detail)
      | _ \<Rightarrow> RpcError_new InternalCode ''entitlements read failed'')"

definition land :: "nat \<Rightarrow> (EntitlementsError, VpnEntitlements) res \<Rightarrow> Provider \<Rightarrow> Provider" where
  "land s outcome p =
     (case ep_slots p s of
        None \<Rightarrow> p
      | Some sl \<Rightarrow> p\<lparr>ep_slots := (ep_slots p)(s \<mapsto> sl\<lparr>sl_result := Some (map_err map_fetch_error outcome)\<rparr>)\<rparr>)"

text \<open>What a waiter finds when it wakes: the outcome, or none when its budget ran out first.\<close>

definition wait_for_outcome :: "nat \<Rightarrow> Provider \<Rightarrow> Outcome option" where
  "wait_for_outcome s p = Option.bind (ep_slots p s) sl_result"

definition clear_single_flight :: "nat \<Rightarrow> Provider \<Rightarrow> Provider" where
  "clear_single_flight consumed p = (if ep_in_flight p = Some consumed then p\<lparr>ep_in_flight := None\<rparr> else p)"

definition store_snapshot :: "VpnEntitlements \<Rightarrow> Provider \<Rightarrow> Provider" where
  "store_snapshot e p = p\<lparr>ep_cached := Some e\<rparr>"

definition invalidate_cached_snapshot :: "Provider \<Rightarrow> Provider" where
  "invalidate_cached_snapshot p = p\<lparr>ep_cached := None\<rparr>"

text \<open>
  The section of \<open>entitlement_composition\<close> under the transition lock: the generation re-check, then the
  answer and the cache.
\<close>

definition compose_outcome :: "nat \<Rightarrow> Outcome \<Rightarrow> Provider \<Rightarrow> (RpcError, VpnEntitlements option) res \<times> Provider" where
  "compose_outcome s outcome p =
     (if map_option sl_generation (ep_slots p s) \<noteq> Some (ep_generation p)
      then (Err (RpcError_new EntitlementMissingCode ''replaced account session''), p)
      else case outcome of
          Ok e \<Rightarrow>
            if vpn_access e \<noteq> Active
            then (Err (RpcError_new EntitlementMissingCode ''no VPN access''), invalidate_cached_snapshot p)
            else if max_tier e = None
            then (Err (RpcError_new EntitlementMissingCode ''no MaxTier''), invalidate_cached_snapshot p)
            else (Ok (Some e), store_snapshot e p)
        | Err rpc \<Rightarrow> (Err rpc, p)
        | Panic \<Rightarrow> (Panic, p))"

section \<open>Interleavings\<close>

datatype request =
    Entered
  | Waiting nat
  | Consumed nat Outcome
  | Cleared nat Outcome
  | Answered "(RpcError, VpnEntitlements option) res"

text \<open>
  \<open>es_answers\<close> lists the snapshots answered, with the adapter that was installed at that moment, and
  \<open>es_installs\<close> counts the replacements. The outcomes an adapter's fetch may have are \<open>replies\<close>.
\<close>

record Entitling =
  es_provider :: Provider
  es_requests :: "nat \<Rightarrow> request option"
  es_installs :: nat
  es_answers :: "(VpnEntitlements \<times> nat option) list"

definition Entitling_start :: Entitling where
  "Entitling_start = \<lparr>es_provider = Provider_default, es_requests = Map.empty, es_installs = 0, es_answers = []\<rparr>"

definition record_answer :: "Provider \<Rightarrow> (RpcError, VpnEntitlements option) res \<Rightarrow> Entitling \<Rightarrow> Entitling" where
  "record_answer p r w =
     (case r of Ok (Some e) \<Rightarrow> w\<lparr>es_answers := (e, ep_inner p) # es_answers w\<rparr> | _ \<Rightarrow> w)"

inductive entitling_step :: "(nat \<Rightarrow> (EntitlementsError, VpnEntitlements) res set) \<Rightarrow> Entitling \<Rightarrow> Entitling \<Rightarrow> bool" for replies where
  Install: "entitling_step replies w (w\<lparr>es_provider := install api (es_provider w), es_installs := es_installs w + 1\<rparr>)"
| EnterEmpty: "es_requests w i = None \<Longrightarrow> ep_inner (es_provider w) = None \<Longrightarrow>
    entitling_step replies w (w\<lparr>es_requests := (es_requests w)(i \<mapsto> Answered (Ok None))\<rparr>)"
| Enter: "es_requests w i = None \<Longrightarrow> ep_inner (es_provider w) \<noteq> None \<Longrightarrow>
    entitling_step replies w (w\<lparr>es_requests := (es_requests w)(i \<mapsto> Entered)\<rparr>)"
| Slot: "es_requests w i = Some Entered \<Longrightarrow> ep_slots (es_provider w) fresh = None \<Longrightarrow>
    single_flight_slot fresh (es_provider w) = (Ok s, p) \<Longrightarrow>
    entitling_step replies w (w\<lparr>es_provider := p, es_requests := (es_requests w)(i \<mapsto> Waiting s)\<rparr>)"
| NoSlot: "es_requests w i = Some Entered \<Longrightarrow> ep_slots (es_provider w) fresh = None \<Longrightarrow>
    single_flight_slot fresh (es_provider w) = (Err e, p) \<Longrightarrow>
    entitling_step replies w (w\<lparr>es_provider := p, es_requests := (es_requests w)(i \<mapsto> Answered (Err e))\<rparr>)"
| Land: "ep_slots (es_provider w) s = Some sl \<Longrightarrow> sl_result sl = None \<Longrightarrow> outcome \<in> replies (sl_adapter sl) \<Longrightarrow>
    entitling_step replies w (w\<lparr>es_provider := land s outcome (es_provider w)\<rparr>)"
| Wake: "es_requests w i = Some (Waiting s) \<Longrightarrow> wait_for_outcome s (es_provider w) = Some outcome \<Longrightarrow>
    entitling_step replies w (w\<lparr>es_requests := (es_requests w)(i \<mapsto> Consumed s outcome)\<rparr>)"
| Timeout: "es_requests w i = Some (Waiting s) \<Longrightarrow> wait_for_outcome s (es_provider w) = None \<Longrightarrow>
    entitling_step replies w (w\<lparr>es_requests := (es_requests w)(i \<mapsto>
      Answered (Err (RpcError_new EntitlementMissingCode ''deadline-clamped wait exceeded'')))\<rparr>)"
| Clear: "es_requests w i = Some (Consumed s outcome) \<Longrightarrow>
    entitling_step replies w (w\<lparr>es_provider := clear_single_flight s (es_provider w),
      es_requests := (es_requests w)(i \<mapsto> Cleared s outcome)\<rparr>)"
| Finish: "es_requests w i = Some (Cleared s outcome) \<Longrightarrow> compose_outcome s outcome (es_provider w) = (r, p) \<Longrightarrow>
    entitling_step replies w (record_answer p r (w\<lparr>es_provider := p, es_requests := (es_requests w)(i \<mapsto> Answered r)\<rparr>))"

inductive entitling_reach :: "(nat \<Rightarrow> (EntitlementsError, VpnEntitlements) res set) \<Rightarrow> Entitling \<Rightarrow> bool" for replies where
  entitling_start: "entitling_reach replies Entitling_start"
| entitling_step: "entitling_reach replies w \<Longrightarrow> entitling_step replies w w' \<Longrightarrow> entitling_reach replies w'"


section \<open>The invariant\<close>

definition usable :: "VpnEntitlements \<Rightarrow> bool" where
  "usable e \<longleftrightarrow> vpn_access e = Active \<and> max_tier e \<noteq> None"

definition slots_inv :: "(nat \<Rightarrow> (EntitlementsError, VpnEntitlements) res set) \<Rightarrow> Provider \<Rightarrow> bool" where
  "slots_inv replies p \<longleftrightarrow>
     (\<forall>s sl. ep_slots p s = Some sl \<longrightarrow>
        sl_generation sl \<le> ep_generation p \<and>
        (sl_generation sl = ep_generation p \<longrightarrow> ep_inner p = Some (sl_adapter sl)) \<and>
        (\<forall>r. sl_result sl = Some r \<longrightarrow> (\<exists>outcome \<in> replies (sl_adapter sl). r = map_err map_fetch_error outcome)) \<and>
        (sl_result sl = None \<longrightarrow> sl_generation sl = ep_generation p \<longrightarrow> ep_in_flight p = Some s)) \<and>
     (\<forall>s. ep_in_flight p = Some s \<longrightarrow> ep_slots p s \<noteq> None) \<and>
     (\<forall>e. ep_cached p = Some e \<longrightarrow> usable e \<and> (\<exists>api. ep_inner p = Some api \<and> Ok e \<in> replies api))"

definition requests_inv :: "Entitling \<Rightarrow> bool" where
  "requests_inv w \<longleftrightarrow>
     (\<forall>i s outcome. es_requests w i \<in> {Some (Consumed s outcome), Some (Cleared s outcome)} \<longrightarrow>
        wait_for_outcome s (es_provider w) = Some outcome)"

definition entitling_inv :: "(nat \<Rightarrow> (EntitlementsError, VpnEntitlements) res set) \<Rightarrow> Entitling \<Rightarrow> bool" where
  "entitling_inv replies w \<longleftrightarrow>
     ep_generation (es_provider w) = es_installs w \<and> slots_inv replies (es_provider w) \<and> requests_inv w \<and>
     (\<forall>(e, inst) \<in> set (es_answers w). usable e \<and> (\<exists>api. inst = Some api \<and> Ok e \<in> replies api))"

lemma slots_inv_install:
  assumes "slots_inv replies p" "ep_generation p < 2 ^ 64 - 1"
  shows "slots_inv replies (install api p) \<and> ep_generation (install api p) = ep_generation p + 1"
proof -
  have "wrapping_incr (ep_generation p) = ep_generation p + 1" using assms(2) by (simp add: wrapping_incr_def u64_max_def)
  then show ?thesis using assms(1) unfolding slots_inv_def install_def by fastforce
qed

lemma slots_inv_start_worker:
  assumes "slots_inv replies p" "ep_slots p fresh = None" "start_worker fresh p = (r, p')"
    and "\<And>s sl. ep_in_flight p = Some s \<Longrightarrow> ep_slots p s = Some sl \<Longrightarrow> sl_generation sl \<noteq> ep_generation p"
  shows "slots_inv replies p'"
proof (cases "ep_inner p")
  case None
  then show ?thesis using assms by (simp add: start_worker_def)
next
  case (Some api)
  have landed: False if "ep_slots p s = Some sl" "sl_generation sl = ep_generation p" "sl_result sl = None" for s sl
    using assms(1,4) that unfolding slots_inv_def by blast
  from Some assms(3) have p': "p' = p\<lparr>ep_slots := (ep_slots p)(fresh \<mapsto>
      \<lparr>sl_generation = ep_generation p, sl_result = None, sl_adapter = api\<rparr>), ep_in_flight := Some fresh\<rparr>"
    by (simp add: start_worker_def)
  show ?thesis using assms(1) Some landed unfolding p' slots_inv_def by (auto split: if_splits)
qed

lemma slots_inv_single_flight:
  assumes "slots_inv replies p" "ep_slots p fresh = None" "single_flight_slot fresh p = (r, p')"
  shows "slots_inv replies p' \<and> ep_generation p' = ep_generation p \<and> (\<forall>s outcome. wait_for_outcome s p = Some outcome \<longrightarrow>
    wait_for_outcome s p' = Some outcome)"
proof -
  have "p' = p \<or> start_worker fresh p = (r, p') \<and>
      (\<forall>s sl. ep_in_flight p = Some s \<longrightarrow> ep_slots p s = Some sl \<longrightarrow> sl_generation sl \<noteq> ep_generation p)"
    using assms(3) by (auto simp: single_flight_slot_def split: option.splits if_splits)
  moreover have "ep_generation p' = ep_generation p \<and> (\<forall>s outcome. wait_for_outcome s p = Some outcome \<longrightarrow>
      wait_for_outcome s p' = Some outcome)" if "start_worker fresh p = (r, p')"
    using that assms(2) by (auto simp: start_worker_def wait_for_outcome_def split: option.splits)
  ultimately show ?thesis using assms(1) slots_inv_start_worker [OF assms(1,2)] by auto
qed

lemma slots_inv_land:
  assumes "slots_inv replies p" "ep_slots p s = Some sl" "sl_result sl = None" "outcome \<in> replies (sl_adapter sl)"
  shows "slots_inv replies (land s outcome p) \<and> ep_generation (land s outcome p) = ep_generation p \<and>
    (\<forall>t r. wait_for_outcome t p = Some r \<longrightarrow> wait_for_outcome t (land s outcome p) = Some r)"
  using assms unfolding slots_inv_def land_def wait_for_outcome_def by (auto split: if_splits)

lemma slots_inv_clear:
  assumes "slots_inv replies p" "wait_for_outcome s p = Some outcome"
  shows "slots_inv replies (clear_single_flight s p)"
  using assms unfolding slots_inv_def clear_single_flight_def wait_for_outcome_def by (auto split: Option.bind_splits)

lemma slots_inv_cached:
  assumes "slots_inv replies p" "\<And>e. c = Some e \<Longrightarrow> usable e \<and> (\<exists>api. ep_inner p = Some api \<and> Ok e \<in> replies api)"
  shows "slots_inv replies (p\<lparr>ep_cached := c\<rparr>)"
  using assms unfolding slots_inv_def by simp

lemma slots_inv_compose:
  assumes "slots_inv replies p" "wait_for_outcome s p = Some outcome" "compose_outcome s outcome p = (r, p')"
  shows "slots_inv replies p' \<and> ep_generation p' = ep_generation p \<and> ep_slots p' = ep_slots p \<and> ep_inner p' = ep_inner p \<and>
    (\<forall>e. r = Ok (Some e) \<longrightarrow> usable e \<and> (\<exists>api. ep_inner p = Some api \<and> Ok e \<in> replies api))"
proof -
  obtain sl where sl: "ep_slots p s = Some sl" "sl_result sl = Some outcome"
    using assms(2) by (auto simp: wait_for_outcome_def split: Option.bind_splits)
  have mine: "\<exists>api. ep_inner p = Some api \<and> Ok e \<in> replies api" if "sl_generation sl = ep_generation p" "outcome = Ok e" for e
  proof -
    from assms(1) sl that obtain o' where "o' \<in> replies (sl_adapter sl)" "Ok e = map_err map_fetch_error o'"
      "ep_inner p = Some (sl_adapter sl)" unfolding slots_inv_def by metis
    then show ?thesis by (cases o') simp_all
  qed
  consider "p' = p" "\<forall>e. r \<noteq> Ok (Some e)" | "p' = p\<lparr>ep_cached := None\<rparr>" "\<forall>e. r \<noteq> Ok (Some e)"
    | e where "p' = p\<lparr>ep_cached := Some e\<rparr>" "r = Ok (Some e)" "usable e" "outcome = Ok e" "sl_generation sl = ep_generation p"
    using assms(3) sl(1)
    by (auto simp: compose_outcome_def usable_def store_snapshot_def invalidate_cached_snapshot_def split: if_splits res.splits)
  then show ?thesis
  proof cases
    case 3
    with slots_inv_cached [OF assms(1), of "Some e"] mine [OF 3(5,4)] show ?thesis by simp
  qed (use assms(1) slots_inv_cached [OF assms(1), of None] in simp_all)
qed


lemma entitling_inv_step:
  assumes inv: "entitling_inv replies w" and "entitling_step replies w w'" and "es_installs w' < 2 ^ 64"
  shows "entitling_inv replies w'"
  using assms(2)
proof cases
  case (Install api)
  with slots_inv_install [of replies "es_provider w" api] inv assms(3) show ?thesis
    by (auto simp: entitling_inv_def requests_inv_def wait_for_outcome_def install_def)
next
  case (Slot i fresh s p)
  with slots_inv_single_flight [of replies "es_provider w" fresh "Ok s" p] inv show ?thesis
    by (auto simp: entitling_inv_def requests_inv_def split: if_splits)
next
  case (NoSlot i fresh e p)
  with slots_inv_single_flight [of replies "es_provider w" fresh "Err e" p] inv show ?thesis
    by (auto simp: entitling_inv_def requests_inv_def split: if_splits)
next
  case (Land s sl outcome)
  with slots_inv_land [of replies "es_provider w" s sl outcome] inv show ?thesis
    by (auto simp: entitling_inv_def requests_inv_def)
next
  case (Clear i s outcome)
  with inv have "wait_for_outcome s (es_provider w) = Some outcome" by (auto simp: entitling_inv_def requests_inv_def)
  with slots_inv_clear [of replies "es_provider w" s outcome] inv Clear show ?thesis
    by (auto simp: entitling_inv_def requests_inv_def clear_single_flight_def wait_for_outcome_def split: if_splits)
next
  case (Finish i s outcome r p)
  with inv have "wait_for_outcome s (es_provider w) = Some outcome" by (auto simp: entitling_inv_def requests_inv_def)
  with slots_inv_compose [of replies "es_provider w" s outcome r p] inv Finish show ?thesis
    by (auto simp: entitling_inv_def requests_inv_def wait_for_outcome_def record_answer_def split: if_splits res.splits option.splits)
qed (use inv in \<open>auto simp: entitling_inv_def requests_inv_def split: if_splits\<close>)

lemma entitling_step_installs: "entitling_step replies w w' \<Longrightarrow> es_installs w \<le> es_installs w'"
  by (induction rule: entitling_step.induct) (auto simp: record_answer_def split: res.splits option.splits)

lemma entitling_reach_inv: "entitling_reach replies w \<Longrightarrow> es_installs w < 2 ^ 64 \<Longrightarrow> entitling_inv replies w"
proof (induction rule: entitling_reach.induct)
  case entitling_start
  then show ?case
    by (simp add: entitling_inv_def slots_inv_def requests_inv_def Entitling_start_def Provider_default_def)
next
  case (entitling_step w w')
  then show ?case using entitling_inv_step entitling_step_installs le_less_trans by blast
qed

section \<open>Properties\<close>

text \<open>
  C24. One account's entitlements never serve another. In any interleaving of requests, fetches that
  answer late, timeouts and fewer than \<open>2^64\<close> replacements of the adapter: a snapshot a request is
  answered with is a reply of the adapter that is installed at that moment, and it is active and
  carries a tier; so is the snapshot cached for the listing, which does not survive a replacement;
  and of the fetches for the current adapter at most one is outstanding.
\<close>

theorem entitlements_stay_with_their_account:
  assumes "entitling_reach replies w" "es_installs w < 2 ^ 64"
  shows "(\<forall>(e, inst) \<in> set (es_answers w). usable e \<and> (\<exists>api. inst = Some api \<and> Ok e \<in> replies api)) \<and>
    (\<forall>e. ep_cached (es_provider w) = Some e \<longrightarrow>
       usable e \<and> (\<exists>api. ep_inner (es_provider w) = Some api \<and> Ok e \<in> replies api)) \<and>
    (\<forall>s sl t tl. ep_slots (es_provider w) s = Some sl \<longrightarrow> ep_slots (es_provider w) t = Some tl \<longrightarrow>
       sl_result sl = None \<longrightarrow> sl_result tl = None \<longrightarrow> sl_generation sl = ep_generation (es_provider w) \<longrightarrow>
       sl_generation tl = ep_generation (es_provider w) \<longrightarrow> s = t)"
proof -
  from entitling_reach_inv [OF assms] have i: "slots_inv replies (es_provider w)"
    "\<forall>(e, inst) \<in> set (es_answers w). usable e \<and> (\<exists>api. inst = Some api \<and> Ok e \<in> replies api)"
    by (simp_all add: entitling_inv_def)
  from i(1) have "\<forall>e. ep_cached (es_provider w) = Some e \<longrightarrow>
       usable e \<and> (\<exists>api. ep_inner (es_provider w) = Some api \<and> Ok e \<in> replies api)" by (simp add: slots_inv_def)
  moreover have "s = t"
    if "ep_slots (es_provider w) s = Some sl" "ep_slots (es_provider w) t = Some tl" "sl_result sl = None" "sl_result tl = None"
      "sl_generation sl = ep_generation (es_provider w)" "sl_generation tl = ep_generation (es_provider w)" for s sl t tl
    using i(1) that unfolding slots_inv_def by (metis option.inject)
  ultimately show ?thesis using i(2) by blast
qed

text \<open>
  A late fetch: the adapter 7 is replaced by 8 while its fetch is out. The request that waited for it is
  refused, and the next one is answered with the reply of 8.
\<close>

definition sample_snapshot :: "i64 \<Rightarrow> VpnEntitlements" where
  "sample_snapshot t = \<lparr>vpn_access = Active, max_tier = Some t, plan_tier = Some (if t = 0 then Free else Paid), expiration_time = None,
     plan_name = None, plan_title = None, max_connect = 1, vpn_name = None, group_id = None, is_business = None, subscribed = 0,
     services = 0, delinquent = 0, credit = None, has_payment_method = None,
     ve_features = \<lparr>fa_netshield = None, fa_p2p = Some (t \<noteq> 0), fa_secure_core = Some (t \<noteq> 0), fa_tor = Some (t \<noteq> 0),
       fa_gateway = None\<rparr>\<rparr>"

definition sample_replies :: "nat \<Rightarrow> (EntitlementsError, VpnEntitlements) res set" where
  "sample_replies api = {Ok (sample_snapshot (int api))}"

lemma entitling_to: "entitling_reach r w \<Longrightarrow> entitling_step r w w'' \<Longrightarrow> w'' = w' \<Longrightarrow> entitling_reach r w'"
  using entitling_reach.entitling_step by blast

text \<open>A request that finds no fetch in flight, alone from its start to its answer.\<close>

lemma lone_request:
  assumes w: "entitling_reach replies w" "es_requests w i = None" "ep_inner (es_provider w) = Some api"
    "ep_in_flight (es_provider w) = None" "ep_slots (es_provider w) f = None"
    and r: "Ok e \<in> replies api" "usable e"
  shows "\<exists>w'. entitling_reach replies w' \<and> es_installs w' = es_installs w \<and> ep_inner (es_provider w') = Some api \<and>
    es_answers w' = (e, Some api) # es_answers w"
proof -
  let ?p = "es_provider w"
  let ?slot = "\<lambda>r. \<lparr>sl_generation = ep_generation ?p, sl_result = r, sl_adapter = api\<rparr>"
  let ?p1 = "?p\<lparr>ep_slots := (ep_slots ?p)(f \<mapsto> ?slot None), ep_in_flight := Some f\<rparr>"
  let ?p2 = "?p1\<lparr>ep_slots := (ep_slots ?p)(f \<mapsto> ?slot (Some (Ok e)))\<rparr>"
  have "entitling_reach replies (w\<lparr>es_requests := (es_requests w)(i \<mapsto> Entered)\<rparr>)"
    by (rule entitling_to [OF w(1) entitling_step.Enter [of w i]]) (simp_all add: w)
  then have "entitling_reach replies (w\<lparr>es_provider := ?p1, es_requests := (es_requests w)(i \<mapsto> Waiting f)\<rparr>)"
    by (rule entitling_to [OF _ entitling_step.Slot [of _ i f f ?p1]]) (simp_all add: single_flight_slot_def start_worker_def w)
  then have "entitling_reach replies (w\<lparr>es_provider := ?p2, es_requests := (es_requests w)(i \<mapsto> Waiting f)\<rparr>)"
    by (rule entitling_to [OF _ entitling_step.Land [of _ f "?slot None" "Ok e"]]) (simp_all add: land_def r)
  then have "entitling_reach replies (w\<lparr>es_provider := ?p2, es_requests := (es_requests w)(i \<mapsto> Consumed f (Ok e))\<rparr>)"
    by (rule entitling_to [OF _ entitling_step.Wake [of _ i f "Ok e"]]) (simp_all add: wait_for_outcome_def)
  then have "entitling_reach replies (w\<lparr>es_provider := ?p2\<lparr>ep_in_flight := None\<rparr>, es_requests := (es_requests w)(i \<mapsto> Cleared f (Ok e))\<rparr>)"
    (is "entitling_reach replies ?w")
    by (rule entitling_to [OF _ entitling_step.Clear [of _ i f "Ok e"]]) (simp_all add: clear_single_flight_def)
  moreover have "entitling_step replies ?w (record_answer (store_snapshot e (es_provider ?w)) (Ok (Some e))
      (?w\<lparr>es_provider := store_snapshot e (es_provider ?w), es_requests := (es_requests ?w)(i \<mapsto> Answered (Ok (Some e)))\<rparr>))"
    by (rule entitling_step.Finish [of _ i f "Ok e"]) (use r(2) in \<open>simp_all add: compose_outcome_def usable_def\<close>)
  ultimately have "entitling_reach replies (record_answer (store_snapshot e (es_provider ?w)) (Ok (Some e))
      (?w\<lparr>es_provider := store_snapshot e (es_provider ?w), es_requests := (es_requests ?w)(i \<mapsto> Answered (Ok (Some e)))\<rparr>))"
    by (rule entitling_reach.entitling_step)
  then show ?thesis by (intro exI conjI, assumption) (simp_all add: record_answer_def store_snapshot_def w)
qed

lemma late_fetch_run:
  "\<exists>w. entitling_reach sample_replies w \<and> es_installs w = 2 \<and> ep_inner (es_provider w) = Some 8 \<and>
     es_answers w = [(sample_snapshot 8, Some 8)]"
proof -
  let ?slot = "\<lambda>r. \<lparr>sl_generation = 1, sl_result = r, sl_adapter = 7\<rparr>"
  let ?w = "\<lambda>inner gen flight slots reqs. \<lparr>es_provider = \<lparr>ep_inner = Some inner, ep_generation = gen, ep_in_flight = flight,
      ep_cached = None, ep_slots = slots\<rparr>, es_requests = reqs, es_installs = gen, es_answers = []\<rparr>"
  note ev = Entitling_start_def Provider_default_def install_def wrapping_incr_def u64_max_def
  have "entitling_reach sample_replies (?w 7 1 None Map.empty Map.empty)"
    by (rule entitling_to [OF entitling_start entitling_step.Install [of _ _ 7]]) (simp add: ev)
  then have "entitling_reach sample_replies (?w 7 1 None Map.empty [0 \<mapsto> Entered])"
    by (rule entitling_to [OF _ entitling_step.Enter [of _ 0]]) simp_all
  then have "entitling_reach sample_replies (?w 7 1 (Some 0) [0 \<mapsto> ?slot None] [0 \<mapsto> Waiting 0])"
    by (rule entitling_to [OF _ entitling_step.Slot [of _ 0 0 0]]) (simp_all add: single_flight_slot_def start_worker_def)
  then have "entitling_reach sample_replies (?w 8 2 None [0 \<mapsto> ?slot None] [0 \<mapsto> Waiting 0])"
    by (rule entitling_to [OF _ entitling_step.Install [of _ _ 8]]) (simp add: ev)
  then have "entitling_reach sample_replies (?w 8 2 None [0 \<mapsto> ?slot (Some (Ok (sample_snapshot 7)))] [0 \<mapsto> Waiting 0])"
    by (rule entitling_to [OF _ entitling_step.Land [of _ 0 "?slot None" "Ok (sample_snapshot 7)"]])
      (simp_all add: land_def sample_replies_def)
  then have "entitling_reach sample_replies (?w 8 2 None [0 \<mapsto> ?slot (Some (Ok (sample_snapshot 7)))] [0 \<mapsto> Consumed 0 (Ok (sample_snapshot 7))])"
    by (rule entitling_to [OF _ entitling_step.Wake [of _ 0 0 "Ok (sample_snapshot 7)"]]) (simp_all add: wait_for_outcome_def)
  then have "entitling_reach sample_replies (?w 8 2 None [0 \<mapsto> ?slot (Some (Ok (sample_snapshot 7)))] [0 \<mapsto> Cleared 0 (Ok (sample_snapshot 7))])"
    by (rule entitling_to [OF _ entitling_step.Clear [of _ 0 0 "Ok (sample_snapshot 7)"]]) (simp_all add: clear_single_flight_def)
  then have "entitling_reach sample_replies (?w 8 2 None [0 \<mapsto> ?slot (Some (Ok (sample_snapshot 7)))]
      [0 \<mapsto> Answered (Err (RpcError_new EntitlementMissingCode ''replaced account session''))])"
    by (rule entitling_to [OF _ entitling_step.Finish [of _ 0 0 "Ok (sample_snapshot 7)" "Err (RpcError_new EntitlementMissingCode ''replaced account session'')"]])
      (simp_all add: compose_outcome_def record_answer_def)
  from lone_request [OF this, of 1 8 1 "sample_snapshot 8"] show ?thesis
    by (simp add: sample_replies_def usable_def sample_snapshot_def)
qed

theorem entitlements_stay_with_their_account_witness:
  "\<exists>w. entitling_reach sample_replies w \<and> es_installs w = 2 \<and> es_answers w = [(sample_snapshot 8, Some 8)] \<and>
     (\<exists>api. Some 8 = Some api \<and> Ok (sample_snapshot 8) \<in> sample_replies api)"
proof -
  obtain w where w: "entitling_reach sample_replies w" "es_installs w = 2" "es_answers w = [(sample_snapshot 8, Some 8)]"
    using late_fetch_run by blast
  have "es_installs w < 2 ^ 64" by (simp add: w(2))
  from conjunct1 [OF entitlements_stay_with_their_account [OF w(1) this]] w show ?thesis by auto
qed

end
