(* ===== verification/Daemon_Select.thy ===== *)
theory Daemon_Select
  imports Country_Groups Probe_Rounds Entitlement_Provider
begin

text \<open>
  The selection engine of the daemon (\<open>SelectionEngine::resolve\<close>, \<open>groups_catalog\<close>,
  \<open>group_availability\<close> and \<open>group_details\<close> of \<open>apps/daemon/src/selection.rs\<close>): what a \<open>select\<close> request
  runs through, from the checks at the boundary over the entitlement gates, the mapping of targets and
  groups onto a core request and the probe round, to the core's \<open>select\<close> and the reported result; and
  the group listing with its availability.

  What a request reads is a record: the strict reads of the two caches, the composed entitlement
  snapshot (\<open>Entitlement_Provider\<close>), and the entropy of the operating system. Error texts are the data
  they interpolate, and each refusal carries the RPC code of the source.
\<close>

section \<open>Configuration and inputs\<close>

datatype RegionalRanking = RegionalProtonScore | RegionalBalanced | RegionalLoad | RegionalLatency

primrec regional_ranking_text :: "RegionalRanking \<Rightarrow> string" where
  "regional_ranking_text RegionalProtonScore = ''proton-score''"
| "regional_ranking_text RegionalBalanced = ''balanced''"
| "regional_ranking_text RegionalLoad = ''load''"
| "regional_ranking_text RegionalLatency = ''latency''"

record BalancedWeights =
  bw_load :: f32
  bw_latency :: f32
  bw_stability :: f32
  bw_feature_match :: f32

record SelectConfig =
  cfg_latency_probe :: LatencyProbeSection
  cfg_balanced_weights :: BalancedWeights
  cfg_excluded_entry_countries :: "string list"
  cfg_excluded_exit_countries :: "string list"
  cfg_physical_country :: "string option"
  cfg_regional_default_ranking :: RegionalRanking

record SelectInputs =
  in_catalog :: "(CatalogCacheError, CachedCatalog option) res"
  in_location :: "(string, string option) res"
  in_composition :: "(RpcError, VpnEntitlements option) res"
  in_entropy :: "64 word option"

datatype reason =
    RandomTakesNoRanking
  | BoundaryCountry string string
  | RouteNeedsTwoCountries string
  | NoCatalogCached
  | CatalogUnreadable CatalogCacheError
  | CatalogUnparseable CatalogError
  | Composition string
  | GatewayNeedsBusiness
  | GroupRefusal GroupError
  | RegionNeedsPaidPlan
  | ProtocolConflict string ProtocolConstraint ProtocolConstraint
  | ProfileNotResolvable string
  | CapabilityNeedsPaidPlan string
  | RandomNeedsBackend
  | LocationNeedsPaidPlan
  | NoEntropy
  | CoreRefusal SelectionError
  | NoWinner
  | GroupUnknown string

datatype Refusal = Refusal (rf_code: RpcErrorCode) (rf_reason: reason)

section \<open>Reading the caches\<close>

definition cached_catalog :: "catalog_codec \<Rightarrow> (CatalogCacheError, CachedCatalog option) res \<Rightarrow>
    (Refusal, (string option \<times> u64 \<times> CatalogDocument) option) res" where
  "cached_catalog codec read =
     (case read of
        Ok (Some cached) \<Rightarrow>
          and_then (map_err (\<lambda>e. Refusal InternalCode (CatalogUnparseable e)) (from_bytes (parse_doc codec) (cc_body cached)))
            (\<lambda>doc. Ok (Some (cc_etag cached, cc_fetched_unix cached, doc)))
      | Ok None \<Rightarrow> Ok None
      | Err e \<Rightarrow> Err (Refusal ConfigInvalidCode (CatalogUnreadable e))
      | Panic \<Rightarrow> Panic)"

definition cached_location_country :: "(string, string option) res \<Rightarrow> string option" where
  "cached_location_country read = (case read of Ok c \<Rightarrow> c | _ \<Rightarrow> None)"

definition balanced_weights :: "SelectConfig \<Rightarrow> WeightedSignals" where
  "balanced_weights cfg =
     (let w = cfg_balanced_weights cfg in
      \<lparr>ws_load = bw_load w, ws_latency = bw_latency w, ws_stability = bw_stability w, ws_feature_match = bw_feature_match w,
       ws_history = f32_zero\<rparr>)"

section \<open>The boundary checks\<close>

definition boundary_country :: "string \<Rightarrow> string \<Rightarrow> (Refusal, unit) res" where
  "boundary_country field cc =
     map_err (\<lambda>_. Refusal InvalidParamsCode (BoundaryCountry field cc)) (validate_country cc)"

definition boundary_opt :: "string \<Rightarrow> string option \<Rightarrow> (Refusal, unit) res" where
  "boundary_opt field c = (case c of Some cc \<Rightarrow> boundary_country field cc | None \<Rightarrow> Ok ())"

definition boundary_target :: "ConnectTarget \<Rightarrow> (Refusal, unit) res" where
  "boundary_target t =
     (case t of
        CountryTarget cc \<Rightarrow> boundary_country ''target country'' cc
      | SecureCoreTarget entry exit \<Rightarrow>
          and_then (boundary_opt ''target entry country'' entry) (\<lambda>_.
          and_then (boundary_opt ''target exit country'' exit) (\<lambda>_.
          if entry \<noteq> None \<and> entry = exit then Err (Refusal InvalidParamsCode (RouteNeedsTwoCountries (the entry))) else Ok ()))
      | _ \<Rightarrow> Ok ())"

definition check_boundary :: "ConnectTarget \<Rightarrow> SelectionModifiers \<Rightarrow> (Refusal, unit) res" where
  "check_boundary t m =
     (if t = RandomTarget \<and> sm_by m \<noteq> None then Err (Refusal InvalidParamsCode RandomTakesNoRanking)
      else
        and_then (boundary_target t) (\<lambda>_.
        and_then (for_each (\<lambda>(field, cc). boundary_country field cc)
          (map (Pair ''--exclude-country'') (sm_excluded_countries m) @
           map (Pair ''--exclude-entry-country'') (sm_excluded_entry_countries m) @
           map (Pair ''--exclude-exit-country'') (sm_excluded_exit_countries m))) (\<lambda>_.
        boundary_opt ''physical-country'' (sm_physical_country m))))"

section \<open>Entitlement facts\<close>

text \<open>
  \<open>tier.min(127) as i8\<close>: a snapshot has no negative tier (\<open>from_wire_bytes\<close> refuses one), so the
  narrowing never wraps; it would below -128.
\<close>

definition account_tier_of :: "VpnEntitlements option \<Rightarrow> i8 option" where
  "account_tier_of e = map_option (\<lambda>t. min t i8_max) (Option.bind e max_tier)"

definition pf_entitlement :: "VpnEntitlements option \<Rightarrow> bool option" where
  "pf_entitlement e = map_option (\<lambda>s. plan_tier s = Some Paid) e"

definition plan_is_paid :: "VpnEntitlements option \<Rightarrow> bool" where
  "plan_is_paid e \<longleftrightarrow> Option.bind e plan_tier = Some Paid"

definition port_forwarding_servers :: "string list" where
  "port_forwarding_servers = []"

definition exact_classification :: "Target \<Rightarrow> CatalogDocument \<Rightarrow> bool \<times> bool \<times> bool" where
  "exact_classification t catalog =
     (case t of
        Server name \<Rightarrow>
          (let named = filter (\<lambda>s. ls_name s = name) (logical_servers catalog) in
           (list_ex (\<lambda>s. is_secure_core_route s \<or> secure_core (features s)) named,
            list_ex (\<lambda>s. p2p (features s)) named, list_ex (\<lambda>s. tor (features s)) named))
      | _ \<Rightarrow> (False, False, False))"

definition names_feature :: "Constraints \<Rightarrow> FeatureConstraint \<Rightarrow> bool" where
  "names_feature c f \<longleftrightarrow> f \<in> set (required_features c) \<or> f \<in> set (optional_features c)"

definition capability_rows :: "VpnEntitlements option \<Rightarrow> SelectionRequest \<Rightarrow> CatalogDocument \<Rightarrow> (bool \<times> string \<times> bool option) list" where
  "capability_rows e req catalog =
     (let allowances = map_option ve_features e;
          (exact_sc, exact_p2p, exact_tor) = exact_classification (target req) catalog;
          c = constraints req
      in [(is_secure_core_target (target req) \<or> names_feature c SecureCoreBit \<or> exact_sc, ''secure-core'',
             Option.bind allowances fa_secure_core),
          (names_feature c P2p \<or> exact_p2p, ''p2p'', Option.bind allowances fa_p2p),
          (names_feature c Tor \<or> exact_tor, ''tor'', Option.bind allowances fa_tor)])"

definition unmet_capability :: "VpnEntitlements option \<Rightarrow> SelectionRequest \<Rightarrow> CatalogDocument \<Rightarrow> (string \<times> bool option) option" where
  "unmet_capability e req catalog =
     map_option snd (find (\<lambda>(named, _, allowance). named \<and> allowance \<noteq> Some True) (capability_rows e req catalog))"

definition random_requires_backend_authority :: "SelectionRequest \<Rightarrow> VpnEntitlements option \<Rightarrow> bool" where
  "random_requires_backend_authority req e \<longleftrightarrow> policy req = Random \<and> \<not> plan_is_paid e"

definition union_into :: "string list \<Rightarrow> string list \<Rightarrow> string list" where
  "union_into configured sink = foldl (\<lambda>acc c. if c \<in> set acc then acc else acc @ [c]) sink configured"

definition union_configured_secure_core_exclusions :: "SelectConfig \<Rightarrow> SelectionRequest \<Rightarrow> SelectionRequest" where
  "union_configured_secure_core_exclusions cfg req =
     (if \<not> is_secure_core_target (target req) then req
      else req\<lparr>constraints := (constraints req)\<lparr>
        excluded_entry_countries := union_into (cfg_excluded_entry_countries cfg) (excluded_entry_countries (constraints req)),
        excluded_exit_countries := union_into (cfg_excluded_exit_countries cfg) (excluded_exit_countries (constraints req))\<rparr>\<rparr>)"

section \<open>Mapping the wire onto the core\<close>

primrec wire_feature :: "SelectionFeature \<Rightarrow> FeatureConstraint" where
  "wire_feature P2pFeature = P2p"
| "wire_feature TorFeature = Tor"
| "wire_feature SecureCoreFeature = SecureCoreBit"
| "wire_feature StreamingFeature = Streaming"
| "wire_feature Ipv6Feature = Ipv6"
| "wire_feature PortForwardingFeature = PortForwarding"

primrec feature_token :: "FeatureConstraint \<Rightarrow> string" where
  "feature_token P2p = ''p2p''"
| "feature_token Tor = ''tor''"
| "feature_token SecureCoreBit = ''secure-core''"
| "feature_token Streaming = ''streaming''"
| "feature_token Ipv6 = ''ipv6''"
| "feature_token PortForwarding = ''port-forwarding''"

primrec wire_protocol :: "SelectionProtocol \<Rightarrow> ProtocolConstraint" where
  "wire_protocol SelectionProtocol.WireguardUdp = ProtocolConstraint.WireguardUdp"
| "wire_protocol SelectionProtocol.WireguardTcp = ProtocolConstraint.WireguardTcp"
| "wire_protocol SelectionProtocol.Stealth = ProtocolConstraint.Stealth"

definition merge_group_modifiers :: "string \<Rightarrow> SelectionRequest \<Rightarrow> SelectionModifiers \<Rightarrow> (Refusal, SelectionRequest) res" where
  "merge_group_modifiers gname req m =
     (let c = constraints req; requested = map_option wire_protocol (sm_required_protocol m) in
      if required_protocol c \<noteq> None \<and> requested \<noteq> None \<and> required_protocol c \<noteq> requested
      then Err (Refusal InvalidParamsCode (ProtocolConflict gname (the (required_protocol c)) (the requested)))
      else Ok (req\<lparr>constraints := c\<lparr>
        excluded_countries := excluded_countries c @ sm_excluded_countries m,
        excluded_states := excluded_states c @ sm_excluded_states m,
        excluded_cities := excluded_cities c @ sm_excluded_cities m,
        excluded_servers := excluded_servers c @ sm_excluded_servers m,
        excluded_entry_countries := excluded_entry_countries c @ sm_excluded_entry_countries m,
        excluded_exit_countries := excluded_exit_countries c @ sm_excluded_exit_countries m,
        required_features := required_features c @ map wire_feature (sm_required_features m),
        optional_features := optional_features c @ map wire_feature (sm_optional_features m),
        required_protocol := option_or (required_protocol c) requested\<rparr>\<rparr>))"

definition direct_policy :: "ConnectTarget \<Rightarrow> SelectionModifiers \<Rightarrow> WeightedSignals \<Rightarrow> (SelectionError, RankingPolicy) res" where
  "direct_policy t m w =
     and_then (case sm_by m of
         Some by_mode \<Rightarrow> ranking_policy_parse by_mode
       | None \<Rightarrow> Ok (if t = RandomTarget then Random else Official)) (\<lambda>p.
     Ok (case p of Balanced _ \<Rightarrow> Balanced w | _ \<Rightarrow> p))"

definition direct_target :: "ConnectTarget \<Rightarrow> (Refusal, Target \<times> FeatureConstraint list) res" where
  "direct_target t =
     (case t of
        FastestTarget \<Rightarrow> Ok (Fastest, [])
      | RandomTarget \<Rightarrow> Ok (Fastest, [])
      | CountryTarget cc \<Rightarrow> Ok (Country cc, [])
      | StateTarget s \<Rightarrow> Ok (Target.State s, [])
      | CityTarget c \<Rightarrow> Ok (City c, [])
      | ServerTarget s \<Rightarrow> Ok (Server s, [])
      | GatewayTarget g \<Rightarrow> Ok (Gateway g, [])
      | SpecialTarget cl \<Rightarrow> Ok (Fastest, [case cl of P2pClass \<Rightarrow> P2p | TorClass \<Rightarrow> Tor])
      | SecureCoreTarget entry exit \<Rightarrow> Ok (SecureCore entry exit, [])
      | GroupTarget _ \<Rightarrow> Panic
      | ProfileTarget p \<Rightarrow> Err (Refusal NotImplementedCode (ProfileNotResolvable p)))"

definition direct_request :: "ConnectTarget \<Rightarrow> SelectionModifiers \<Rightarrow> WeightedSignals \<Rightarrow> (Refusal, SelectionRequest) res" where
  "direct_request t m w =
     and_then (map_err (\<lambda>e. Refusal InvalidParamsCode (CoreRefusal e)) (direct_policy t m w)) (\<lambda>p.
     and_then (direct_target t) (\<lambda>(core, extra).
     Ok \<lparr>target = core, policy = p, constraints = Constraints_default\<lparr>
       excluded_countries := sm_excluded_countries m, excluded_states := sm_excluded_states m,
       excluded_cities := sm_excluded_cities m, excluded_servers := sm_excluded_servers m,
       excluded_entry_countries := sm_excluded_entry_countries m, excluded_exit_countries := sm_excluded_exit_countries m,
       required_features := map wire_feature (sm_required_features m) @ extra,
       optional_features := map wire_feature (sm_optional_features m),
       required_protocol := map_option wire_protocol (sm_required_protocol m)\<rparr>\<rparr>))"

record GroupProvenance =
  gp_group_id :: string
  gp_origin :: string
  gp_policy_provenance :: string

primrec provenance_text :: "PolicyProvenance \<Rightarrow> string" where
  "provenance_text CatalogDefault = ''catalog-default''"
| "provenance_text DeclaredOverride = ''declared-override''"

definition configured_regional_default :: "SelectConfig \<Rightarrow> string \<Rightarrow> string option" where
  "configured_regional_default cfg gname =
     (let ranking = cfg_regional_default_ranking cfg in
      if ranking \<noteq> RegionalProtonScore \<and>
         (case find_group gname of Some g \<Rightarrow> ge_entitlement g = PaidLocationSelection | None \<Rightarrow> False)
      then Some (regional_ranking_text ranking) else None)"

definition group_request :: "SelectConfig \<Rightarrow> VpnEntitlements option \<Rightarrow> string option \<Rightarrow> string \<Rightarrow> SelectionModifiers \<Rightarrow>
    (Refusal, SelectionRequest \<times> GroupProvenance) res" where
  "group_request cfg e here gname m =
     and_then (map_err (\<lambda>err. Refusal InvalidParamsCode (GroupRefusal err))
       (resolve_group gname (option_or (sm_by m) (configured_regional_default cfg gname))
         \<lparr>explicit_request = sm_physical_country m, pcs_config = cfg_physical_country cfg, cached_location = here\<rparr>
         (balanced_weights cfg))) (\<lambda>resolved.
     if ge_entitlement (rs_group resolved) = PaidLocationSelection \<and> \<not> plan_is_paid e
     then Err (Refusal EntitlementMissingCode RegionNeedsPaidPlan)
     else and_then (merge_group_modifiers gname (rs_request resolved) m) (\<lambda>req.
       Ok (req, \<lparr>gp_group_id = gname, gp_origin = group_origin_text (ge_origin (rs_group resolved)),
         gp_policy_provenance = provenance_text (rs_policy_provenance resolved)\<rparr>)))"

section \<open>The gates\<close>

definition target_names_gateway :: "CatalogDocument \<Rightarrow> ConnectTarget \<Rightarrow> bool" where
  "target_names_gateway catalog t =
     (case t of
        GatewayTarget _ \<Rightarrow> True
      | ServerTarget name \<Rightarrow> list_ex (\<lambda>s. ls_name s = name \<and> is_gateway s) (logical_servers catalog)
      | _ \<Rightarrow> False)"

definition names_location :: "ConnectTarget \<Rightarrow> bool" where
  "names_location t =
     (case t of CountryTarget _ \<Rightarrow> True | StateTarget _ \<Rightarrow> True | CityTarget _ \<Rightarrow> True | ServerTarget _ \<Rightarrow> True | _ \<Rightarrow> False)"

definition map_request :: "SelectConfig \<Rightarrow> VpnEntitlements option \<Rightarrow> string option \<Rightarrow> ConnectTarget \<Rightarrow> SelectionModifiers \<Rightarrow>
    (Refusal, SelectionRequest \<times> GroupProvenance option) res" where
  "map_request cfg e here t m =
     (case t of
        GroupTarget gname \<Rightarrow> and_then (group_request cfg e here gname m) (\<lambda>(req, prov). Ok (req, Some prov))
      | _ \<Rightarrow> and_then (direct_request t m (balanced_weights cfg)) (\<lambda>req. Ok (req, None)))"

text \<open>From the composed snapshot to the request the core will run, every gate passed.\<close>

definition gate_request :: "SelectConfig \<Rightarrow> CatalogDocument \<Rightarrow> VpnEntitlements option \<Rightarrow> string option \<Rightarrow> ConnectTarget \<Rightarrow>
    SelectionModifiers \<Rightarrow> (Refusal, SelectionRequest \<times> GroupProvenance option) res" where
  "gate_request cfg catalog e here t m =
     (if target_names_gateway catalog t \<and> Option.bind e is_business \<noteq> Some True
      then Err (Refusal EntitlementMissingCode GatewayNeedsBusiness)
      else and_then (map_request cfg e here t m) (\<lambda>(mapped, prov).
        let req = union_configured_secure_core_exclusions cfg mapped in
        case unmet_capability e req catalog of
          Some (capability, _) \<Rightarrow> Err (Refusal EntitlementMissingCode (CapabilityNeedsPaidPlan capability))
        | None \<Rightarrow>
            if random_requires_backend_authority req e then Err (Refusal NotImplementedCode RandomNeedsBackend)
            else if names_location t \<and> \<not> plan_is_paid e then Err (Refusal EntitlementMissingCode LocationNeedsPaidPlan)
            else Ok (req, prov)))"

section \<open>Ranking and the result\<close>

datatype PhysicalCountrySource = ExplicitRequestSource | ConfigSource | CachedLocationSource

definition physical_country_over :: "string option \<Rightarrow> string option \<Rightarrow> string option \<Rightarrow> (string \<times> PhysicalCountrySource) option" where
  "physical_country_over explicit config cached =
     (case explicit of
        Some c \<Rightarrow> Some (c, ExplicitRequestSource)
      | None \<Rightarrow>
          (case config of Some c \<Rightarrow> Some (c, ConfigSource) | None \<Rightarrow> map_option (\<lambda>c. (c, CachedLocationSource)) cached))"

definition request_context :: "VpnEntitlements option \<Rightarrow> SelectionContext" where
  "request_context e = SelectionContext_default\<lparr>account_tier := account_tier_of e, port_forwarding_entitled := pf_entitlement e,
     port_forwarding_capable := map_option (\<lambda>_. port_forwarding_servers) (pf_entitlement e)\<rparr>"

definition latency_weighted :: "RankingPolicy \<Rightarrow> bool" where
  "latency_weighted p = (case p of Latency \<Rightarrow> True | Balanced w \<Rightarrow> f32_gt (ws_latency w) f32_zero | _ \<Rightarrow> False)"

definition probe_shortlist :: "SelectConfig \<Rightarrow> CatalogDocument \<Rightarrow> SelectionRequest \<Rightarrow> SelectionContext \<Rightarrow> (Refusal, string list) res" where
  "probe_shortlist cfg catalog req ctx =
     (case filter_candidates catalog (req\<lparr>policy := Official\<rparr>) ctx of
        Ok (surviving, _) \<Rightarrow>
          Ok (map ls_id (take (max_candidates (cfg_latency_probe cfg))
            (sort_by (\<lambda>a b. official_cmp (ranked_catalog_only a) (ranked_catalog_only b)) surviving)))
      | Err _ \<Rightarrow> Ok []
      | Panic \<Rightarrow> Panic)"

fun last_eliminating :: "(FilterStage \<times> usize) list \<Rightarrow> FilterStage option" where
  "last_eliminating [] = None"
| "last_eliminating ((st, n) # rest) =
     (case last_eliminating rest of Some s \<Rightarrow> Some s | None \<Rightarrow> if n > 0 then Some st else None)"

definition selection_error_to_rpc :: "SelectionError \<Rightarrow> RpcErrorCode" where
  "selection_error_to_rpc err =
     (case err of
        ConstraintsNotSatisfied _ \<Rightarrow> NoEligibleServerCode
      | ExactServerUnavailable _ _ \<Rightarrow> NoEligibleServerCode
      | OfficialScoreUnavailable _ _ \<Rightarrow> NoEligibleServerCode
      | LatencyDataUnavailable _ \<Rightarrow> NoEligibleServerCode
      | PhysicalCountryRequired \<Rightarrow> InvalidParamsCode
      | RequiresEntitlementComposition \<Rightarrow> EntitlementMissingCode
      | RandomEntropyRequired \<Rightarrow> InternalCode
      | _ \<Rightarrow> InvalidParamsCode)"

definition selection_error_to_rpc_explained :: "SelectionError \<Rightarrow> SelectionRequest \<Rightarrow> Refusal" where
  "selection_error_to_rpc_explained err req =
     (case err of
        ConstraintsNotSatisfied rep \<Rightarrow>
          if last_eliminating (stages rep) = Some ProtocolCompatibility then Refusal ProtocolUnavailableCode (CoreRefusal err)
          else if is_secure_core_target (target req) then Refusal SecureCoreUnavailableCode (CoreRefusal err)
          else Refusal NoEligibleServerCode (CoreRefusal err)
      | _ \<Rightarrow> Refusal (selection_error_to_rpc err) (CoreRefusal err))"

primrec policy_token :: "RankingPolicy \<Rightarrow> string" where
  "policy_token Official = ''official''"
| "policy_token (Balanced w) = ''balanced''"
| "policy_token LowestLoad = ''load''"
| "policy_token Latency = ''latency''"
| "policy_token Random = ''random''"

record ResolvedSelector =
  rsl_target :: string
  rsl_detail :: "string option"
  rsl_policy :: string

definition route_text :: "string option \<Rightarrow> string option \<Rightarrow> string" where
  "route_text entry exit =
     (case entry of Some c \<Rightarrow> c | None \<Rightarrow> ''fastest'') @ ''->'' @ (case exit of Some c \<Rightarrow> c | None \<Rightarrow> ''fastest'')"

definition direct_selector :: "ConnectTarget \<Rightarrow> RankingPolicy \<Rightarrow> ResolvedSelector" where
  "direct_selector t p =
     (let (token, detail) =
        (case t of
           FastestTarget \<Rightarrow> (''fastest'', None)
         | RandomTarget \<Rightarrow> (''random'', None)
         | CountryTarget cc \<Rightarrow> (''country'', Some cc)
         | StateTarget s \<Rightarrow> (''state'', Some s)
         | CityTarget c \<Rightarrow> (''city'', Some c)
         | ServerTarget s \<Rightarrow> (''server'', Some s)
         | GatewayTarget g \<Rightarrow> (''gateway'', Some g)
         | SpecialTarget cl \<Rightarrow> (case cl of P2pClass \<Rightarrow> ''p2p'' | TorClass \<Rightarrow> ''tor'', None)
         | SecureCoreTarget entry exit \<Rightarrow> (''secure-core'', Some (route_text entry exit))
         | GroupTarget g \<Rightarrow> (''group'', Some g)
         | ProfileTarget pr \<Rightarrow> (''profile'', Some pr))
      in \<lparr>rsl_target = token, rsl_detail = detail, rsl_policy = policy_token p\<rparr>)"

definition stage_reports :: "EliminationReport \<Rightarrow> (FilterStage \<times> usize) list" where
  "stage_reports rep = filter (\<lambda>(_, n). n > 0) (stages rep)"

definition signal_provenance :: "ScoringSignals \<Rightarrow> string" where
  "signal_provenance sg =
     (if weighted sg \<noteq> None then ''weighted-breakdown'' else if sig_latency sg \<noteq> None then ''probe-observed'' else ''catalog-only'')"

record SelectionResult =
  sr_etag :: "string option"
  sr_fetched_unix :: u64
  sr_group_revision :: "string option"
  sr_group :: "GroupProvenance option"
  sr_selector :: ResolvedSelector
  sr_considered :: usize
  sr_survivors :: usize
  sr_stages :: "(FilterStage \<times> usize) list"
  sr_physical_country :: "(string \<times> PhysicalCountrySource) option"
  sr_winner :: LogicalServer
  sr_signals :: ScoringSignals
  sr_provenance :: string
  sr_requested_features :: "string list"
  sr_feature_difference :: "SelectionFeature list"

definition dedup_tokens :: "FeatureConstraint list \<Rightarrow> string list" where
  "dedup_tokens fs = foldl (\<lambda>acc f. if feature_token f \<in> set acc then acc else acc @ [feature_token f]) [] fs"

definition build_result :: "string option \<Rightarrow> u64 \<Rightarrow> GroupProvenance option \<Rightarrow> ConnectTarget \<Rightarrow> SelectionModifiers \<Rightarrow>
    (string \<times> PhysicalCountrySource) option \<Rightarrow> SelectionRequest \<Rightarrow> SelectionContext \<Rightarrow> SelectionOutcome \<Rightarrow> RankedCandidate \<Rightarrow> SelectionResult" where
  "build_result etag fetched prov t m physical req ctx out winner =
     \<lparr>sr_etag = etag, sr_fetched_unix = fetched,
      sr_group_revision = map_option (\<lambda>_. CATALOG_REVISION) prov, sr_group = prov,
      sr_selector =
        (case prov of
           Some g \<Rightarrow> \<lparr>rsl_target = ''group'', rsl_detail = Some (gp_group_id g), rsl_policy = policy_token (policy req)\<rparr>
         | None \<Rightarrow> direct_selector t (policy req)),
      sr_considered = considered (report out), sr_survivors = survivors (report out), sr_stages = stage_reports (report out),
      sr_physical_country = physical, sr_winner = server winner, sr_signals = signals winner,
      sr_provenance = signal_provenance (signals winner),
      sr_requested_features = dedup_tokens (required_features (constraints req) @ optional_features (constraints req)),
      sr_feature_difference = filter (\<lambda>f. \<not> feature_holds (server winner) (wire_feature f) ctx) (sm_optional_features m)\<rparr>"

section \<open>resolve\<close>

record 'x Engine =
  en_table :: ProbeTable
  en_seq :: u64
  en_world :: 'x

definition request_deadline_ms :: u64 where
  "request_deadline_ms = 9000"

text \<open>The probe round a latency-dependent ranking runs first, and the entropy a random one draws.\<close>

definition measure_latency :: "SelectConfig \<Rightarrow> ('x, 'addr) ProbeWorld \<Rightarrow> CatalogDocument \<Rightarrow> string option \<Rightarrow> u64 \<Rightarrow> nat \<Rightarrow>
    SelectionRequest \<Rightarrow> SelectionContext \<Rightarrow> 'x Engine \<Rightarrow> (Refusal, SelectionContext) res \<times> 'x Engine" where
  "measure_latency cfg world catalog etag fetched deadline req ctx en =
     (if \<not> latency_weighted (policy req) then (Ok ctx, en)
      else case probe_shortlist cfg catalog req ctx of
          Ok shortlist \<Rightarrow>
            (let (table, t, x) = probe_round (cfg_latency_probe cfg) world catalog etag fetched (en_seq en) shortlist deadline
               (en_table en) (en_world en)
             in (Ok (ctx\<lparr>latency := table\<rparr>), en\<lparr>en_table := t, en_world := x\<rparr>))
        | Err e \<Rightarrow> (Err e, en)
        | Panic \<Rightarrow> (Panic, en))"

definition draw_entropy :: "64 word option \<Rightarrow> SelectionRequest \<Rightarrow> SelectionContext \<Rightarrow> (Refusal, SelectionContext) res" where
  "draw_entropy entropy req ctx =
     (if policy req \<noteq> Random then Ok ctx
      else case entropy of
          Some e \<Rightarrow> Ok (ctx\<lparr>random_entropy := Some e\<rparr>)
        | None \<Rightarrow> Err (Refusal InternalCode NoEntropy))"

definition answer_request :: "SelectInputs \<Rightarrow> string option \<Rightarrow> u64 \<Rightarrow> CatalogDocument \<Rightarrow> GroupProvenance option \<Rightarrow> ConnectTarget \<Rightarrow>
    SelectionModifiers \<Rightarrow> (string \<times> PhysicalCountrySource) option \<Rightarrow> SelectionRequest \<Rightarrow> SelectionContext \<Rightarrow> (Refusal, SelectionResult) res" where
  "answer_request inp etag fetched catalog prov t m physical req measured =
     and_then (draw_entropy (in_entropy inp) req measured) (\<lambda>ctx.
     and_then (map_err (\<lambda>e. selection_error_to_rpc_explained e req) (select catalog req ctx)) (\<lambda>out.
     case ranked out of
       [] \<Rightarrow> Err (Refusal InternalCode NoWinner)
     | winner # _ \<Rightarrow> Ok (build_result etag fetched prov t m physical req ctx out winner)))"

definition resolve :: "SelectConfig \<Rightarrow> catalog_codec \<Rightarrow> ('x, 'addr) ProbeWorld \<Rightarrow> SelectInputs \<Rightarrow> ConnectTarget \<Rightarrow> SelectionModifiers \<Rightarrow>
    'x Engine \<Rightarrow> (Refusal, SelectionResult) res \<times> 'x Engine" where
  "resolve cfg codec world inp t m en =
     (case check_boundary t m of
        Err e \<Rightarrow> (Err e, en)
      | Panic \<Rightarrow> (Panic, en)
      | Ok _ \<Rightarrow>
          let deadline = instant world (en_world en) + request_deadline_ms * 10 ^ 6;
              en = en\<lparr>en_seq := wrapping_incr (en_seq en)\<rparr>
          in case cached_catalog codec (in_catalog inp) of
              Err e \<Rightarrow> (Err e, en)
            | Panic \<Rightarrow> (Panic, en)
            | Ok None \<Rightarrow> (Err (Refusal NoEligibleServerCode NoCatalogCached), en)
            | Ok (Some (etag, fetched, catalog)) \<Rightarrow>
                (case in_composition inp of
                   Err rpc \<Rightarrow> (Err (Refusal (re_code rpc) (Composition (re_message rpc))), en)
                 | Panic \<Rightarrow> (Panic, en)
                 | Ok e \<Rightarrow>
                     let here = cached_location_country (in_location inp) in
                     case gate_request cfg catalog e here t m of
                       Err err \<Rightarrow> (Err err, en)
                     | Panic \<Rightarrow> (Panic, en)
                     | Ok (req, prov) \<Rightarrow>
                         let physical =
                               (if exclude_physical_country (constraints req) \<or> sm_physical_country m \<noteq> None
                                then physical_country_over (sm_physical_country m) (cfg_physical_country cfg) here else None);
                             (measured, en) = measure_latency cfg world catalog etag fetched deadline req (request_context e) en
                         in (and_then measured (answer_request inp etag fetched catalog prov t m physical req), en)))"

section \<open>Group listing\<close>

record GroupAvailability =
  ga_available :: bool
  ga_reason :: "string option"

definition unavailable :: "string \<Rightarrow> GroupAvailability" where
  "unavailable why = \<lparr>ga_available = False, ga_reason = Some why\<rparr>"

definition elimination_reason :: "EliminationReport \<Rightarrow> string" where
  "elimination_reason rep =
     (let st = last_eliminating (stages rep) in
      if st = Some AccountTier then ''account-tier''
      else if st = Some ProtocolCompatibility then ''protocol-unavailable'' else ''no-eligible-server'')"

definition filter_availability :: "CatalogDocument \<Rightarrow> SelectionRequest \<Rightarrow> SelectionContext \<Rightarrow> GroupAvailability option" where
  "filter_availability catalog req ctx =
     (case filter_candidates catalog req ctx of
        Ok (surviving, rep) \<Rightarrow>
          Some (if surviving \<noteq> [] then \<lparr>ga_available = True, ga_reason = None\<rparr> else unavailable (elimination_reason rep))
      | Err e \<Rightarrow> Some (unavailable
          (if e = PhysicalCountryRequired then ''physical-country-required''
           else if e = RequiresEntitlementComposition then ''entitlement-composition-missing'' else ''no-eligible-server''))
      | Panic \<Rightarrow> None)"

text \<open>None stands for a panic.\<close>

definition group_availability :: "SelectConfig \<Rightarrow> CatalogDocument option \<Rightarrow> string option \<Rightarrow> GroupEntry \<Rightarrow> VpnEntitlements option \<Rightarrow>
    GroupAvailability option" where
  "group_availability cfg catalog here g e =
     (case catalog of
        None \<Rightarrow> Some (unavailable ''no-catalog'')
      | Some doc \<Rightarrow>
          if ge_entitlement g = PaidLocationSelection \<and> e = None then Some (unavailable ''entitlement-composition-missing'')
          else if ge_entitlement g = PaidLocationSelection \<and> \<not> plan_is_paid e then Some (unavailable ''entitlement'')
          else
            (case resolve_group (ge_id g) None
                \<lparr>explicit_request = None, pcs_config = cfg_physical_country cfg, cached_location = here\<rparr> (balanced_weights cfg) of
               Err _ \<Rightarrow> Some (unavailable ''no-eligible-server'')
             | Panic \<Rightarrow> None
             | Ok resolved \<Rightarrow>
                 let req = union_configured_secure_core_exclusions cfg (rs_request resolved) in
                 case unmet_capability e req doc of
                   Some (_, allowance) \<Rightarrow>
                     Some (unavailable (if allowance \<noteq> None then ''entitlement'' else ''entitlement-composition-missing''))
                 | None \<Rightarrow>
                     if random_requires_backend_authority req e then Some (unavailable ''backend-selection-required'')
                     else filter_availability doc req (SelectionContext_default\<lparr>account_tier := account_tier_of e\<rparr>)))"

record GroupSummary =
  gs_id :: string
  gs_label :: string
  gs_origin :: string
  gs_definition_source :: string
  gs_entitlement :: string
  gs_ranking_policy :: string
  gs_allowed_ranking_overrides :: "string list"
  gs_availability :: GroupAvailability

definition group_summary :: "GroupEntry \<Rightarrow> GroupAvailability \<Rightarrow> GroupSummary" where
  "group_summary g a =
     \<lparr>gs_id = ge_id g, gs_label = ge_label g, gs_origin = group_origin_text (ge_origin g),
      gs_definition_source = definition_source_text (ge_definition_source g),
      gs_entitlement = group_entitlement_text (ge_entitlement g), gs_ranking_policy = group_ranking_text (ge_ranking_policy g),
      gs_allowed_ranking_overrides = map group_ranking_text (ge_allowed_ranking_overrides g), gs_availability = a\<rparr>"

record GroupsCatalog =
  gc_catalog_revision :: string
  gc_taxonomy_revision :: string
  gc_groups :: "GroupSummary list"

text \<open>
  Rows in registry order, all from one snapshot. The location cache, which the source reads for each
  row, is taken to be the same for the rows of one listing.
\<close>

definition list_row :: "SelectConfig \<Rightarrow> CatalogDocument option \<Rightarrow> string option \<Rightarrow> VpnEntitlements option \<Rightarrow> GroupEntry \<Rightarrow>
    (Refusal, GroupSummary) res" where
  "list_row cfg catalog here e g =
     (case group_availability cfg catalog here g e of Some a \<Rightarrow> Ok (group_summary g a) | None \<Rightarrow> Panic)"

definition groups_catalog :: "SelectConfig \<Rightarrow> catalog_codec \<Rightarrow> SelectInputs \<Rightarrow> VpnEntitlements option \<Rightarrow> (Refusal, GroupsCatalog) res" where
  "groups_catalog cfg codec inp snapshot =
     and_then (cached_catalog codec (in_catalog inp)) (\<lambda>cached.
     and_then (collect_res (list_row cfg (map_option (\<lambda>(_, _, doc). doc) cached) (cached_location_country (in_location inp)) snapshot)
       REGISTRY) (\<lambda>rows.
     Ok \<lparr>gc_catalog_revision = CATALOG_REVISION, gc_taxonomy_revision = TAXONOMY_REVISION, gc_groups = rows\<rparr>))"

definition group_target_render :: "GroupTarget \<Rightarrow> string \<times> string option" where
  "group_target_render t =
     (case t of
        GroupFastest exclude \<Rightarrow> (''fastest'', if exclude then Some ''excluding-physical-country'' else None)
      | FastestInCountry cc \<Rightarrow> (''fastest-in-country'', Some cc)
      | FastestInRegion r \<Rightarrow> (''fastest-in-region'', Some r)
      | GroupRandom \<Rightarrow> (''random'', None)
      | GroupSecureCore entry exit \<Rightarrow> (''secure-core'', Some (entry @ ''->'' @ exit)))"

primrec protocol_token :: "ProtocolConstraint \<Rightarrow> string" where
  "protocol_token ProtocolConstraint.WireguardUdp = ''wireguard-udp''"
| "protocol_token ProtocolConstraint.WireguardTcp = ''wireguard-tcp''"
| "protocol_token ProtocolConstraint.Stealth = ''stealth''"

record GroupDetails =
  gd_summary :: GroupSummary
  gd_immutable :: bool
  gd_connection_type :: "string option"
  gd_target :: string
  gd_target_detail :: "string option"
  gd_protocol_override :: "string option"
  gd_connection_overrides :: "(string \<times> string) list"
  gd_selection_authority :: "string option"
  gd_sources :: "string list"

definition group_details :: "SelectConfig \<Rightarrow> catalog_codec \<Rightarrow> SelectInputs \<Rightarrow> VpnEntitlements option \<Rightarrow> string \<Rightarrow> (Refusal, GroupDetails) res" where
  "group_details cfg codec inp snapshot i =
     (case find_group i of
        None \<Rightarrow> Err (Refusal InvalidParamsCode (GroupUnknown i))
      | Some g \<Rightarrow>
          and_then (cached_catalog codec (in_catalog inp)) (\<lambda>cached.
          and_then (list_row cfg (map_option (\<lambda>(_, _, doc). doc) cached) (cached_location_country (in_location inp)) snapshot g) (\<lambda>row.
          let (t, detail) = group_target_render (ge_target g) in
          Ok \<lparr>gd_summary = row, gd_immutable = ge_immutable g, gd_connection_type = map_option connection_type_text (ge_connection_type g),
              gd_target = t, gd_target_detail = detail, gd_protocol_override = map_option protocol_token (ge_protocol_override g),
              gd_connection_overrides = ge_connection_overrides g, gd_selection_authority = ge_selection_authority g,
              gd_sources = ge_sources g\<rparr>)))"

section \<open>What an answer went through\<close>

lemma cached_catalog_Ok:
  assumes "cached_catalog codec read = Ok (Some (etag, fetched, doc))"
  shows "catalog_ok doc"
  using assms by (auto simp: cached_catalog_def res_simps from_bytes_Ok_conv split: res.splits option.splits)

lemma measure_latency_Ok:
  assumes "measure_latency cfg world catalog etag fetched deadline req ctx en = (Ok ctx', en')"
  shows "\<exists>table. ctx' = ctx\<lparr>latency := table\<rparr>"
  using assms by (auto simp: measure_latency_def intro: exI [of _ "latency ctx'"] split: if_splits res.splits prod.splits)

lemma draw_entropy_Ok: "draw_entropy entropy req ctx = Ok ctx' \<Longrightarrow> \<exists>ent. ctx' = ctx\<lparr>random_entropy := ent\<rparr>"
  by (auto simp: draw_entropy_def intro: exI [of _ "random_entropy ctx'"] split: if_splits option.splits)

text \<open>The context the core ranks with: the snapshot's facts, some latencies and some entropy.\<close>

definition core_context :: "VpnEntitlements option \<Rightarrow> SelectionContext \<Rightarrow> bool" where
  "core_context e ctx \<longleftrightarrow> (\<exists>table ent. ctx = (request_context e)\<lparr>latency := table, random_entropy := ent\<rparr>)"

lemma resolve_Ok:
  assumes "resolve cfg codec world inp t m en = (Ok r, en')"
  obtains etag fetched catalog e req prov ctx out winner rest where
    "check_boundary t m = Ok ()" "cached_catalog codec (in_catalog inp) = Ok (Some (etag, fetched, catalog))" "catalog_ok catalog"
    "in_composition inp = Ok e" "gate_request cfg catalog e (cached_location_country (in_location inp)) t m = Ok (req, prov)"
    "core_context e ctx" "select catalog req ctx = Ok out" "ranked out = winner # rest" "sr_winner r = server winner"
    "sr_signals r = signals winner" "sr_etag r = etag" "sr_fetched_unix r = fetched" "sr_group r = prov"
proof -
  obtain etag fetched catalog e req prov measured en1 physical where
    b: "check_boundary t m = Ok ()" and c: "cached_catalog codec (in_catalog inp) = Ok (Some (etag, fetched, catalog))"
    and e: "in_composition inp = Ok e"
    and g: "gate_request cfg catalog e (cached_location_country (in_location inp)) t m = Ok (req, prov)"
    and l: "\<exists>dl en2 en3. measure_latency cfg world catalog etag fetched dl req (request_context e) en2 = (measured, en3)"
    and a: "and_then measured (answer_request inp etag fetched catalog prov t m physical req) = Ok r"
    using assms by (fastforce simp: resolve_def Let_def split: res.splits option.splits prod.splits)
  from a obtain ctx1 where m: "measured = Ok ctx1" and a: "answer_request inp etag fetched catalog prov t m physical req ctx1 = Ok r"
    by (auto simp: res_simps)
  from a obtain ctx out where d: "draw_entropy (in_entropy inp) req ctx1 = Ok ctx" and s: "select catalog req ctx = Ok out"
    and k: "(case ranked out of [] \<Rightarrow> Err (Refusal InternalCode NoWinner)
      | winner # _ \<Rightarrow> Ok (build_result etag fetched prov t m physical req ctx out winner)) = Ok r"
    by (auto simp: answer_request_def res_simps)
  from k obtain winner rest where w: "ranked out = winner # rest"
    and r: "r = build_result etag fetched prov t m physical req ctx out winner" by (cases "ranked out") auto
  from l m measure_latency_Ok draw_entropy_Ok [OF d] have "core_context e ctx" unfolding core_context_def by blast
  from that [OF b c cached_catalog_Ok [OF c] e g this s w] show thesis by (simp add: r build_result_def)
qed

end
