(* ===== verification/Daemon_Select_Props.thy ===== *)
theory Daemon_Select_Props
  imports Daemon_Select
begin

text \<open>
  What an answer of \<open>resolve\<close> guarantees: the plan includes everything the request names and the
  winner is within it; every constraint of the caller and of the configuration holds for the winner;
  and the group listing agrees with \<open>resolve\<close> about what can be selected.
\<close>

section \<open>From the wire request to the core request\<close>

text \<open>What the caller asked for, in the core's vocabulary, is part of the mapped request.\<close>

definition carries :: "SelectionModifiers \<Rightarrow> Constraints \<Rightarrow> bool" where
  "carries m c \<longleftrightarrow>
     set (sm_excluded_countries m) \<subseteq> set (excluded_countries c) \<and> set (sm_excluded_states m) \<subseteq> set (excluded_states c) \<and>
     set (sm_excluded_cities m) \<subseteq> set (excluded_cities c) \<and> set (sm_excluded_servers m) \<subseteq> set (excluded_servers c) \<and>
     set (sm_excluded_entry_countries m) \<subseteq> set (excluded_entry_countries c) \<and>
     set (sm_excluded_exit_countries m) \<subseteq> set (excluded_exit_countries c) \<and>
     wire_feature ` set (sm_required_features m) \<subseteq> set (required_features c) \<and>
     wire_feature ` set (sm_optional_features m) \<subseteq> set (optional_features c) \<and>
     (\<forall>p. sm_required_protocol m = Some p \<longrightarrow> required_protocol c = Some (wire_protocol p))"

lemma set_union_into: "set (union_into configured sink) = set configured \<union> set sink"
proof -
  have "set (foldl (\<lambda>acc c. if c \<in> set acc then acc else acc @ [c]) sink xs) = set xs \<union> set sink" for xs sink
    by (induction xs arbitrary: sink) auto
  then show ?thesis by (simp add: union_into_def)
qed

lemma union_target [simp]:
  "target (union_configured_secure_core_exclusions cfg req) = target req"
  "policy (union_configured_secure_core_exclusions cfg req) = policy req"
  by (simp_all add: union_configured_secure_core_exclusions_def)

lemma union_keeps [simp]:
  "required_features (constraints (union_configured_secure_core_exclusions cfg req)) = required_features (constraints req)"
  "optional_features (constraints (union_configured_secure_core_exclusions cfg req)) = optional_features (constraints req)"
  "physical_country (constraints (union_configured_secure_core_exclusions cfg req)) = physical_country (constraints req)"
  "exclude_physical_country (constraints (union_configured_secure_core_exclusions cfg req)) = exclude_physical_country (constraints req)"
  "required_protocol (constraints (union_configured_secure_core_exclusions cfg req)) = required_protocol (constraints req)"
  by (simp_all add: union_configured_secure_core_exclusions_def)

lemma union_carries: "carries m (constraints req) \<Longrightarrow> carries m (constraints (union_configured_secure_core_exclusions cfg req))"
  by (auto simp: carries_def union_configured_secure_core_exclusions_def set_union_into)

lemma merge_Ok:
  assumes "merge_group_modifiers gname req m = Ok req'"
  shows "carries m (constraints req')" "target req' = target req" "policy req' = policy req"
    "exclude_physical_country (constraints req') = exclude_physical_country (constraints req)"
    "physical_country (constraints req') = physical_country (constraints req)"
    "required_protocol (constraints req) = Some p \<Longrightarrow> required_protocol (constraints req') = Some p"
  using assms by (auto simp: merge_group_modifiers_def carries_def option_or_def Let_def split: if_splits option.splits)

lemma direct_Ok:
  assumes "direct_request t m w = Ok req"
  shows "carries m (constraints req)" "direct_policy t m w = Ok (policy req)"
    "\<exists>extra. direct_target t = Ok (target req, extra) \<and>
       required_features (constraints req) = map wire_feature (sm_required_features m) @ extra"
    "\<not> exclude_physical_country (constraints req)"
  using assms by (auto simp: direct_request_def carries_def res_simps Constraints_default_def)

lemma direct_policy_Ok:
  assumes "direct_policy t m w = Ok p" and "t = RandomTarget \<Longrightarrow> sm_by m = None"
  shows "p = Random \<longleftrightarrow> t = RandomTarget"
  using assms by (auto simp: direct_policy_def ranking_policy_parse_def res_simps split: option.splits if_splits)

lemma group_request_Ok:
  assumes "group_request cfg e here gname m = Ok (req, prov)"
  obtains r where
    "resolve_group gname (option_or (sm_by m) (configured_regional_default cfg gname))
       \<lparr>explicit_request = sm_physical_country m, pcs_config = cfg_physical_country cfg, cached_location = here\<rparr> (balanced_weights cfg) = Ok r"
    "ge_entitlement (rs_group r) = PaidLocationSelection \<Longrightarrow> plan_is_paid e" "merge_group_modifiers gname (rs_request r) m = Ok req"
  using assms by (auto simp: group_request_def res_simps split: if_splits)

lemma gate_request_Ok:
  assumes "gate_request cfg catalog e here t m = Ok (req, prov)"
  obtains mapped where "target_names_gateway catalog t \<Longrightarrow> Option.bind e is_business = Some True"
    "map_request cfg e here t m = Ok (mapped, prov)" "req = union_configured_secure_core_exclusions cfg mapped"
    "unmet_capability e req catalog = None" "policy req = Random \<Longrightarrow> plan_is_paid e" "names_location t \<Longrightarrow> plan_is_paid e"
  using assms
  by (auto simp: gate_request_def res_simps Let_def random_requires_backend_authority_def split: if_splits option.splits)

lemma map_request_Ok:
  assumes "map_request cfg e here t m = Ok (req, prov)"
  obtains (group) gname p where "t = GroupTarget gname" "group_request cfg e here gname m = Ok (req, p)" "prov = Some p"
  | (direct) "\<And>gname. t \<noteq> GroupTarget gname" "direct_request t m (balanced_weights cfg) = Ok req" "prov = None"
  using assms by (cases t) (auto simp: map_request_def res_simps)

lemma map_request_carries:
  assumes "map_request cfg e here t m = Ok (req, prov)"
  shows "carries m (constraints req)"
  using assms by (cases rule: map_request_Ok) (blast elim: group_request_Ok dest: merge_Ok(1) direct_Ok(1))+

section \<open>The winner\<close>

lemma winner_eligible:
  assumes "catalog_ok catalog" "select catalog req ctx = Ok out" "ranked out = winner # rest"
  shows "server winner \<in> set (logical_servers catalog)" "eligible (server winner) req ctx"
proof -
  have "server winner \<in> server ` set (ranked out)" using assms(3) by simp
  then have "server winner \<in> set (answers catalog req ctx)" using ranked_set [OF assms(1,2)] by simp
  then show "server winner \<in> set (logical_servers catalog)" "eligible (server winner) req ctx" by (simp_all add: answers_def)
qed

lemma core_context_tier [simp]: "core_context e ctx \<Longrightarrow> account_tier ctx = account_tier_of e"
  by (auto simp: core_context_def request_context_def)

lemma find_none_holds: "find P xs = None \<Longrightarrow> x \<in> set xs \<Longrightarrow> \<not> P x"
  by (simp add: find_None_iff)

lemma capabilities_met:
  assumes "unmet_capability e req catalog = None"
  shows "is_secure_core_target (target req) \<or> names_feature (constraints req) SecureCoreBit \<or> fst (exact_classification (target req) catalog)
      \<Longrightarrow> Option.bind (map_option ve_features e) fa_secure_core = Some True"
    and "names_feature (constraints req) P2p \<or> fst (snd (exact_classification (target req) catalog))
      \<Longrightarrow> Option.bind (map_option ve_features e) fa_p2p = Some True"
    and "names_feature (constraints req) Tor \<or> snd (snd (exact_classification (target req) catalog))
      \<Longrightarrow> Option.bind (map_option ve_features e) fa_tor = Some True"
  using assms unfolding unmet_capability_def capability_rows_def
  by (auto simp: Let_def split: prod.splits if_splits)

abbreviation allows_capability :: "VpnEntitlements option \<Rightarrow> (FeatureAllowances \<Rightarrow> bool option) \<Rightarrow> bool" where
  "allows_capability e f \<equiv> Option.bind (map_option ve_features e) f = Some True"

definition row_ok :: "GroupEntry \<Rightarrow> bool" where
  "row_ok g \<longleftrightarrow>
     (ge_entitlement g = PaidLocationSelection \<longrightarrow> ge_origin g = ProtonwireOrigin \<and> ge_ranking_policy g = ProtonScore) \<and>
     (ge_target g = GroupRandom \<longrightarrow> ge_origin g = ProtonOrigin \<and> ge_ranking_policy g = RandomCountryThenServer) \<and>
     (ge_ranking_policy g = ProtonScore \<or> ge_ranking_policy g = RandomCountryThenServer \<and> ge_target g = GroupRandom)"

lemma registry_rows: "list_all row_ok REGISTRY"
  by (simp add: REGISTRY_def row_ok_def)

lemma registry_ids: "distinct (map ge_id REGISTRY)"
  by (simp add: REGISTRY_def)

lemma find_group_entry: "g \<in> set REGISTRY \<Longrightarrow> find_group (ge_id g) = Some g"
proof -
  have "find (\<lambda>x. ge_id x = ge_id g) xs = Some g" if "g \<in> set xs" "distinct (map ge_id xs)" for xs
    using that by (induction xs) auto
  then show "g \<in> set REGISTRY \<Longrightarrow> ?thesis" using registry_ids by (simp add: find_group_def)
qed

lemma resolve_target_scope:
  "resolve_target g physical = Ok (t, c) \<Longrightarrow> (\<forall>n. t \<noteq> Server n \<and> t \<noteq> Gateway n) \<and>
     (ge_target g = GroupRandom \<longrightarrow> t = Fastest) \<and> (is_secure_core_target t \<longleftrightarrow> (\<exists>a b. ge_target g = GroupSecureCore a b))"
  by (auto simp: resolve_target_def Let_def is_secure_core_target_def split: GroupTarget.splits option.splits if_splits)

lemma group_request_facts:
  assumes "group_request cfg e here gname m = Ok (req, prov)"
  obtains g c where "find_group gname = Some g"
    "resolve_target g \<lparr>explicit_request = sm_physical_country m, pcs_config = cfg_physical_country cfg, cached_location = here\<rparr> =
       Ok (target req, c)"
    "policy req = to_selection_policy (effective_ranking g (option_or (sm_by m) (configured_regional_default cfg gname))) (balanced_weights cfg)"
    "ge_entitlement g = PaidLocationSelection \<Longrightarrow> plan_is_paid e" "carries m (constraints req)"
    "exclude_physical_country (constraints req) = exclude_physical_country c" "physical_country (constraints req) = physical_country c"
    "\<And>p. required_protocol c = Some p \<Longrightarrow> required_protocol (constraints req) = Some p"
proof -
  from group_request_Ok [OF assms] obtain r where
    r: "resolve_group gname (option_or (sm_by m) (configured_regional_default cfg gname))
       \<lparr>explicit_request = sm_physical_country m, pcs_config = cfg_physical_country cfg, cached_location = here\<rparr> (balanced_weights cfg) = Ok r"
    and paid: "ge_entitlement (rs_group r) = PaidLocationSelection \<Longrightarrow> plan_is_paid e"
    and mg: "merge_group_modifiers gname (rs_request r) m = Ok req" by metis
  from resolve_group_Ok [OF r] obtain g where g: "find_group gname = Some g" "rs_group r = g"
    "policy (rs_request r) = to_selection_policy (effective_ranking g (option_or (sm_by m) (configured_regional_default cfg gname))) (balanced_weights cfg)"
    "resolve_target g \<lparr>explicit_request = sm_physical_country m, pcs_config = cfg_physical_country cfg, cached_location = here\<rparr> =
       Ok (target (rs_request r), constraints (rs_request r))" by metis
  note f = merge_Ok [OF mg]
  show thesis
    by (rule that [of g "constraints (rs_request r)"]) (use g paid f in simp_all)
qed

lemma mapped_target:
  assumes "map_request cfg e here t m = Ok (req, prov)"
  shows "target req = Server n \<Longrightarrow> t = ServerTarget n" "target req = Gateway n \<Longrightarrow> t = GatewayTarget n"
    "t = SpecialTarget P2pClass \<Longrightarrow> P2p \<in> set (required_features (constraints req))"
    "t = SpecialTarget TorClass \<Longrightarrow> Tor \<in> set (required_features (constraints req))"
proof -
  have g: "target req \<noteq> Server n \<and> target req \<noteq> Gateway n" if "group_request cfg e here gname m = Ok (req, p)" for gname p n
    by (rule group_request_facts [OF that]) (auto dest!: resolve_target_scope)
  show "target req = Server n \<Longrightarrow> t = ServerTarget n" "target req = Gateway n \<Longrightarrow> t = GatewayTarget n"
    "t = SpecialTarget P2pClass \<Longrightarrow> P2p \<in> set (required_features (constraints req))"
    "t = SpecialTarget TorClass \<Longrightarrow> Tor \<in> set (required_features (constraints req))"
    using assms g
    by (cases rule: map_request_Ok; auto simp: direct_target_def dest!: direct_Ok(3) split: ConnectTarget.splits SpecialClass.splits)+
qed

lemma winner_gateway:
  assumes "map_request cfg e here t m = Ok (mapped, prov)" "s \<in> set (logical_servers catalog)" "in_scope (target mapped) s"
    and "gateway_name s \<noteq> None"
  shows "target_names_gateway catalog t"
proof -
  from assms(3,4) consider n where "target mapped = Server n" "ls_name s = n" | n where "target mapped = Gateway n"
    by (auto simp: in_scope_def split: Target.splits)
  then show ?thesis
    using mapped_target(1,2) [OF assms(1)] assms(2,4)
    by cases (auto simp: target_names_gateway_def list_ex_iff is_gateway_def)
qed

lemma winner_routed:
  assumes "s \<in> set (logical_servers catalog)" "in_scope tg s" "entry_country s \<noteq> exit_country s" "gateway_name s = None"
  shows "is_secure_core_target tg \<or> fst (exact_classification tg catalog)"
  using assms
  by (auto simp: in_scope_def is_secure_core_target_def exact_classification_def Let_def list_ex_iff is_secure_core_route_def
      split: Target.splits)

lemma random_policy_paid:
  assumes g: "gate_request cfg catalog e here t m = Ok (req, prov)" and b: "check_boundary t m = Ok ()" and "t = RandomTarget"
  shows "plan_is_paid e"
proof -
  from gate_request_Ok [OF g] obtain mapped where mp: "map_request cfg e here t m = Ok (mapped, prov)"
    "req = union_configured_secure_core_exclusions cfg mapped" "policy req = Random \<Longrightarrow> plan_is_paid e" by metis
  from mp(1) assms(3) have d: "direct_request t m (balanced_weights cfg) = Ok mapped" by (auto simp: map_request_def res_simps)
  have "sm_by m = None" using b assms(3) by (auto simp: check_boundary_def split: if_splits)
  with direct_policy_Ok [OF direct_Ok(2) [OF d]] assms(3) have "policy mapped = Random" by simp
  with mp show ?thesis by simp
qed

section \<open>The plan\<close>

lemma plan_facts:
  assumes "resolve cfg codec world inp t m en = (Ok r, en')" and "in_composition inp = Ok e"
  shows "(names_location t \<or> t = RandomTarget \<longrightarrow> plan_is_paid e) \<and>
    (\<forall>gname g. t = GroupTarget gname \<longrightarrow> find_group gname = Some g \<longrightarrow> ge_entitlement g = PaidLocationSelection \<longrightarrow> plan_is_paid e) \<and>
    (gateway_name (sr_winner r) \<noteq> None \<longrightarrow> Option.bind e is_business = Some True) \<and>
    (entry_country (sr_winner r) \<noteq> exit_country (sr_winner r) \<and> gateway_name (sr_winner r) = None \<longrightarrow>
       allows_capability e fa_secure_core) \<and>
    (t = SpecialTarget P2pClass \<or> P2pFeature \<in> set (sm_required_features m) \<union> set (sm_optional_features m) \<longrightarrow>
       allows_capability e fa_p2p) \<and>
    (t = SpecialTarget TorClass \<or> TorFeature \<in> set (sm_required_features m) \<union> set (sm_optional_features m) \<longrightarrow>
       allows_capability e fa_tor) \<and>
    (\<forall>limit. Option.bind e max_tier = Some limit \<longrightarrow> tier (sr_winner r) \<le> limit)"
proof -
  let ?here = "cached_location_country (in_location inp)"
  from resolve_Ok [OF assms(1)] assms(2) obtain catalog req prov ctx out winner rest where
    b: "check_boundary t m = Ok ()" and c: "catalog_ok catalog" and g: "gate_request cfg catalog e ?here t m = Ok (req, prov)"
    and x: "core_context e ctx" and s: "select catalog req ctx = Ok out" "ranked out = winner # rest" and w: "sr_winner r = server winner"
    by (metis res.inject(1))
  from gate_request_Ok [OF g] obtain mapped where gw: "target_names_gateway catalog t \<Longrightarrow> Option.bind e is_business = Some True"
    and mp: "map_request cfg e ?here t m = Ok (mapped, prov)" "req = union_configured_secure_core_exclusions cfg mapped"
    and u: "unmet_capability e req catalog = None" and loc: "names_location t \<Longrightarrow> plan_is_paid e" by metis
  note el = winner_eligible [OF c s, folded w]
  have scope: "in_scope (target mapped) (sr_winner r)" using el(2) mp(2) by (simp add: eligible_def)
  have carried: "carries m (constraints req)" using union_carries [OF map_request_carries [OF mp(1)]] mp(2) by simp
  have named: "names_feature (constraints req) (wire_feature f)"
    if "f \<in> set (sm_required_features m) \<union> set (sm_optional_features m)" for f
    using that carried by (auto simp: carries_def names_feature_def)
  have "plan_is_paid e" if "t = GroupTarget gname" "find_group gname = Some gr" "ge_entitlement gr = PaidLocationSelection" for gname gr
  proof -
    from mp(1) that(1) obtain p where "group_request cfg e ?here gname m = Ok (mapped, p)" by (auto simp: map_request_def res_simps)
    from group_request_facts [OF this] that(2,3) show ?thesis by (metis option.inject)
  qed
  moreover have "Option.bind e is_business = Some True" if "gateway_name (sr_winner r) \<noteq> None"
    using gw winner_gateway [OF mp(1) el(1) scope that] by blast
  moreover have "allows_capability e fa_secure_core"
    if "entry_country (sr_winner r) \<noteq> exit_country (sr_winner r)" "gateway_name (sr_winner r) = None"
    using capabilities_met(1) [OF u] winner_routed [OF el(1) scope that] mp(2) by auto
  moreover have "allows_capability e fa_p2p"
    if "t = SpecialTarget P2pClass \<or> P2pFeature \<in> set (sm_required_features m) \<union> set (sm_optional_features m)"
    using capabilities_met(2) [OF u] named [of P2pFeature] mapped_target(3) [OF mp(1)] that mp(2) by (auto simp: names_feature_def)
  moreover have "allows_capability e fa_tor"
    if "t = SpecialTarget TorClass \<or> TorFeature \<in> set (sm_required_features m) \<union> set (sm_optional_features m)"
    using capabilities_met(3) [OF u] named [of TorFeature] mapped_target(4) [OF mp(1)] that mp(2) by (auto simp: names_feature_def)
  moreover have "tier (sr_winner r) \<le> limit" if "Option.bind e max_tier = Some limit" for limit
    using that el(2) x by (auto simp: eligible_def account_tier_of_def)
  ultimately show ?thesis using loc random_policy_paid [OF g b] by blast
qed

text \<open>
  C9. An answer stays within the account's plan: when \<open>resolve\<close> selects a server, then naming a
  location (a country, state, city, server, or a regional group) or asking for random was covered by a
  paid plan; a dedicated gateway, however it was named, by the business entitlement; a routed Secure Core
  server by the Secure Core allowance; P2P and Tor, named by target or by a required or preferred
  feature, by theirs; and the winner's tier is at most the account's. Without a composed snapshot
  none of these is answered.
\<close>

theorem answers_stay_within_the_plan:
  assumes "resolve cfg codec world inp t m en = (Ok r, en')" and "in_composition inp = Ok e"
  shows "((\<exists>cc. t = CountryTarget cc) \<or> (\<exists>st. t = StateTarget st) \<or> (\<exists>city. t = CityTarget city) \<or>
      (\<exists>sv. t = ServerTarget sv) \<or> t = RandomTarget \<longrightarrow> Option.bind e plan_tier = Some Paid) \<and>
    (\<forall>gname g. t = GroupTarget gname \<longrightarrow> find_group gname = Some g \<longrightarrow> ge_entitlement g = PaidLocationSelection \<longrightarrow>
      Option.bind e plan_tier = Some Paid) \<and>
    (gateway_name (sr_winner r) \<noteq> None \<longrightarrow> Option.bind e is_business = Some True) \<and>
    (entry_country (sr_winner r) \<noteq> exit_country (sr_winner r) \<and> gateway_name (sr_winner r) = None \<longrightarrow>
       allows_capability e fa_secure_core) \<and>
    (t = SpecialTarget P2pClass \<or> P2pFeature \<in> set (sm_required_features m) \<union> set (sm_optional_features m) \<longrightarrow>
       allows_capability e fa_p2p) \<and>
    (t = SpecialTarget TorClass \<or> TorFeature \<in> set (sm_required_features m) \<union> set (sm_optional_features m) \<longrightarrow>
       allows_capability e fa_tor) \<and>
    (\<forall>limit. Option.bind e max_tier = Some limit \<longrightarrow> tier (sr_winner r) \<le> limit)"
proof -
  have "names_location t" if "(\<exists>cc. t = CountryTarget cc) \<or> (\<exists>st. t = StateTarget st) \<or> (\<exists>city. t = CityTarget city) \<or>
      (\<exists>sv. t = ServerTarget sv)"
    using that by (auto simp: names_location_def)
  then show ?thesis using plan_facts [OF assms] unfolding plan_is_paid_def by blast
qed

text \<open>
  A free plan selects the fastest server, or a group that is neither regional nor routed, and gets a
  tier-0 server of the standard fleet, unless it is a business account and asks for a gateway.
\<close>

theorem free_plan_answers:
  assumes "resolve cfg codec world inp t m en = (Ok r, en')" "in_composition inp = Ok (Some e)" "snapshot_ok e" "plan_tier e = Some Free"
    and "is_business e \<noteq> Some True"
  shows "(t = FastestTarget \<or> (\<exists>gname. t = GroupTarget gname)) \<and> tier (sr_winner r) \<le> 0 \<and> gateway_name (sr_winner r) = None \<and>
    entry_country (sr_winner r) = exit_country (sr_winner r)"
proof -
  note a = plan_facts [OF assms(1,2)]
  have e: "\<not> plan_is_paid (Some e)" "max_tier e = Some 0" "\<not> allows_capability (Some e) fa_secure_core"
    "\<not> allows_capability (Some e) fa_p2p" "\<not> allows_capability (Some e) fa_tor"
    using assms(3,4) by (cases "max_tier e"; auto simp: plan_is_paid_def snapshot_ok_def split: if_splits)+
  have gw: "gateway_name (sr_winner r) = None" using a assms(5) by auto
  have "t = FastestTarget \<or> (\<exists>gname. t = GroupTarget gname)"
  proof (cases t)
    case (SpecialTarget cl)
    with a e show ?thesis by (cases cl) auto
  next
    case (GatewayTarget gn)
    from resolve_Ok [OF assms(1)] assms(2) obtain catalog req prov where
      "gate_request cfg catalog (Some e) (cached_location_country (in_location inp)) t m = Ok (req, prov)" by (metis res.inject(1))
    with GatewayTarget assms(5) show ?thesis by (auto simp: gate_request_def target_names_gateway_def split: if_splits)
  next
    case (SecureCoreTarget en ex)
    from resolve_Ok [OF assms(1)] assms(2) obtain catalog req prov where
      g: "gate_request cfg catalog (Some e) (cached_location_country (in_location inp)) t m = Ok (req, prov)" by (metis res.inject(1))
    from gate_request_Ok [OF g] obtain mapped where mp: "map_request cfg (Some e) (cached_location_country (in_location inp)) t m = Ok (mapped, prov)"
      "req = union_configured_secure_core_exclusions cfg mapped" "unmet_capability (Some e) req catalog = None" by metis
    from mp(1) SecureCoreTarget have "direct_request t m (balanced_weights cfg) = Ok mapped" by (auto simp: map_request_def res_simps)
    from direct_Ok(3) [OF this] SecureCoreTarget have "is_secure_core_target (target req)"
      by (auto simp: mp(2) direct_target_def is_secure_core_target_def dest: sym)
    with capabilities_met(1) [OF mp(3)] e(3) show ?thesis by blast
  next
    case (ProfileTarget p)
    from resolve_Ok [OF assms(1)] assms(2) obtain catalog req prov where
      g: "gate_request cfg catalog (Some e) (cached_location_country (in_location inp)) t m = Ok (req, prov)" by (metis res.inject(1))
    from gate_request_Ok [OF g] obtain mapped where mp: "map_request cfg (Some e) (cached_location_country (in_location inp)) t m = Ok (mapped, prov)" by metis
    with ProfileTarget show ?thesis by (auto simp: map_request_def direct_request_def direct_target_def res_simps)
  qed (use a e in \<open>auto simp: names_location_def\<close>)
  with gw a e show ?thesis by auto
qed

section \<open>The constraints\<close>

text \<open>Constraints that ask for less.\<close>

definition weaker :: "Constraints \<Rightarrow> Constraints \<Rightarrow> bool" where
  "weaker c d \<longleftrightarrow>
     set (excluded_countries c) \<subseteq> set (excluded_countries d) \<and> set (excluded_states c) \<subseteq> set (excluded_states d) \<and>
     set (excluded_cities c) \<subseteq> set (excluded_cities d) \<and> set (excluded_servers c) \<subseteq> set (excluded_servers d) \<and>
     set (excluded_entry_countries c) \<subseteq> set (excluded_entry_countries d) \<and>
     set (excluded_exit_countries c) \<subseteq> set (excluded_exit_countries d) \<and>
     set (required_features c) \<subseteq> set (required_features d) \<and>
     exclude_physical_country c = exclude_physical_country d \<and> physical_country c = physical_country d \<and>
     (required_protocol c = None \<or> required_protocol c = required_protocol d)"

lemma eligible_weaker:
  assumes "eligible s req ctx" "weaker c (constraints req)" "target req' = target req" "constraints req' = c"
  shows "eligible s req' ctx"
proof -
  have n: "not_excluded s (constraints req)" and f: "\<forall>f \<in> set (required_features (constraints req)). feature_holds s f ctx"
    and p: "\<forall>r. required_protocol (constraints req) = Some r \<longrightarrow> protocol_holds s r"
    using assms(1) by (simp_all add: eligible_def)
  have "not_excluded s c" using n assms(2) unfolding not_excluded_def weaker_def by (simp add: subset_iff) metis
  moreover have "\<forall>f \<in> set (required_features c). feature_holds s f ctx" using f assms(2) by (simp add: weaker_def subset_iff)
  moreover have "\<forall>r. required_protocol c = Some r \<longrightarrow> protocol_holds s r" using p assms(2) by (auto simp: weaker_def)
  ultimately show ?thesis using assms(1,3,4) by (simp add: eligible_def)
qed

lemma union_weaker: "weaker (constraints req) (constraints (union_configured_secure_core_exclusions cfg req))"
  by (auto simp: weaker_def union_configured_secure_core_exclusions_def set_union_into)

lemma merge_weaker: "merge_group_modifiers gname req m = Ok req' \<Longrightarrow> weaker (constraints req) (constraints req')"
  by (auto simp: weaker_def merge_group_modifiers_def option_or_def Let_def split: if_splits option.splits)

definition physical_sources :: "SelectConfig \<Rightarrow> SelectionModifiers \<Rightarrow> string option \<Rightarrow> PhysicalCountrySources" where
  "physical_sources cfg m here = \<lparr>explicit_request = sm_physical_country m, pcs_config = cfg_physical_country cfg, cached_location = here\<rparr>"

text \<open>What a target means, over servers.\<close>

definition target_admits :: "SelectConfig \<Rightarrow> SelectionModifiers \<Rightarrow> string option \<Rightarrow> ConnectTarget \<Rightarrow> LogicalServer \<Rightarrow> bool" where
  "target_admits cfg m here t s \<longleftrightarrow>
     (case t of
        FastestTarget \<Rightarrow> standard_server s
      | RandomTarget \<Rightarrow> standard_server s
      | CountryTarget cc \<Rightarrow> standard_server s \<and> exit_country s = cc
      | StateTarget n \<Rightarrow> standard_server s \<and> (\<exists>x. state s = Some x \<and> eq_ignore_ascii_case x n)
      | CityTarget n \<Rightarrow> standard_server s \<and> (\<exists>x. city s = Some x \<and> eq_ignore_ascii_case x n)
      | ServerTarget n \<Rightarrow> ls_name s = n
      | GatewayTarget n \<Rightarrow> gateway_name s = Some n
      | SpecialTarget cl \<Rightarrow> standard_server s \<and> (case cl of P2pClass \<Rightarrow> p2p (features s) | TorClass \<Rightarrow> tor (features s))
      | SecureCoreTarget en ex \<Rightarrow>
          gateway_name s = None \<and> entry_country s \<noteq> exit_country s \<and> en \<in> {None, Some (entry_country s)} \<and>
          ex \<in> {None, Some (exit_country s)} \<and> entry_country s \<notin> set (cfg_excluded_entry_countries cfg) \<and>
          exit_country s \<notin> set (cfg_excluded_exit_countries cfg)
      | GroupTarget gname \<Rightarrow>
          (\<exists>g. find_group gname = Some g \<and> group_admits g (physical_resolve (physical_sources cfg m here)) s \<and>
             (\<forall>a b. ge_target g = GroupSecureCore a b \<longrightarrow> entry_country s \<notin> set (cfg_excluded_entry_countries cfg) \<and>
                exit_country s \<notin> set (cfg_excluded_exit_countries cfg)))
      | ProfileTarget _ \<Rightarrow> False)"

lemma union_excludes:
  assumes "eligible s (union_configured_secure_core_exclusions cfg req) ctx" "is_secure_core_target (target req)"
  shows "entry_country s \<notin> set (cfg_excluded_entry_countries cfg)" "exit_country s \<notin> set (cfg_excluded_exit_countries cfg)"
  using assms by (auto simp: eligible_def not_excluded_def union_configured_secure_core_exclusions_def set_union_into)

lemma direct_admits:
  assumes d: "direct_request t m w = Ok mapped" and el: "eligible s mapped ctx"
    and ex: "is_secure_core_target (target mapped) \<Longrightarrow>
      entry_country s \<notin> set (cfg_excluded_entry_countries cfg) \<and> exit_country s \<notin> set (cfg_excluded_exit_countries cfg)"
  shows "target_admits cfg m here t s"
proof -
  from direct_Ok(3) [OF d] obtain extra where x: "direct_target t = Ok (target mapped, extra)"
    "required_features (constraints mapped) = map wire_feature (sm_required_features m) @ extra" by blast
  have scope: "in_scope (target mapped) s" and req: "\<forall>f \<in> set extra. feature_holds s f ctx" using el x(2) by (auto simp: eligible_def)
  show ?thesis
    using x(1) scope req ex
    by (cases t; cases "target mapped";
        auto simp: direct_target_def target_admits_def in_scope_def standard_server_def feature_holds_def catalog_feature_holds_def
          is_secure_core_target_def split: SpecialClass.splits)
qed

lemma group_admits_winner:
  assumes g: "group_request cfg e here gname m = Ok (mapped, p)" and el: "eligible s mapped ctx"
    and ex: "is_secure_core_target (target mapped) \<Longrightarrow>
      entry_country s \<notin> set (cfg_excluded_entry_countries cfg) \<and> exit_country s \<notin> set (cfg_excluded_exit_countries cfg)"
  shows "target_admits cfg m here (GroupTarget gname) s"
proof -
  from group_request_Ok [OF g] obtain r where
    r: "resolve_group gname (option_or (sm_by m) (configured_regional_default cfg gname)) (physical_sources cfg m here) (balanced_weights cfg) = Ok r"
    and mg: "merge_group_modifiers gname (rs_request r) m = Ok mapped" unfolding physical_sources_def by metis
  from resolve_group_Ok [OF r] obtain gr where gr: "find_group gname = Some gr"
    "resolve_target gr (physical_sources cfg m here) = Ok (target (rs_request r), constraints (rs_request r))" by metis
  have "eligible s (rs_request r) ctx"
    by (rule eligible_weaker [OF el merge_weaker [OF mg]]) (simp_all add: merge_Ok(2) [OF mg])
  then have "group_admits gr (physical_resolve (physical_sources cfg m here)) s"
    using resolved_eligible [OF _ gr(2) refl refl] find_group_ok [OF gr(1)] by blast
  moreover have "is_secure_core_target (target mapped)" if "ge_target gr = GroupSecureCore a b" for a b
    using resolve_target_scope [OF gr(2)] that merge_Ok(2) [OF mg] by simp
  ultimately show ?thesis using gr(1) ex by (auto simp: target_admits_def)
qed

lemma carried_holds:
  assumes "eligible s req ctx" "carries m (constraints req)" "core_context e ctx"
  shows "exit_country s \<notin> set (sm_excluded_countries m) \<union> set (sm_excluded_exit_countries m)"
    "entry_country s \<notin> set (sm_excluded_entry_countries m)" "ls_name s \<notin> set (sm_excluded_servers m)"
    "state s = Some x \<Longrightarrow> n \<in> set (sm_excluded_states m) \<Longrightarrow> \<not> eq_ignore_ascii_case x n"
    "city s = Some x \<Longrightarrow> n \<in> set (sm_excluded_cities m) \<Longrightarrow> \<not> eq_ignore_ascii_case x n"
    "sm_required_protocol m = Some p \<Longrightarrow> protocol_holds s (wire_protocol p)"
    "f \<in> set (sm_required_features m) \<Longrightarrow> f \<noteq> PortForwardingFeature \<and> catalog_feature_holds s (wire_feature f)"
proof -
  show "f \<noteq> PortForwardingFeature \<and> catalog_feature_holds s (wire_feature f)" if "f \<in> set (sm_required_features m)"
  proof -
    have "feature_holds s (wire_feature f) ctx" using that assms(1,2) by (auto simp: eligible_def carries_def)
    moreover have "port_forwarding_capable ctx \<in> {None, Some []}"
      using assms(3) by (auto simp: core_context_def request_context_def port_forwarding_servers_def)
    ultimately show ?thesis by (cases f) (auto simp: feature_holds_def pf_holds_for_def)
  qed
qed (use assms in \<open>auto simp: eligible_def carries_def not_excluded_def\<close>)

text \<open>
  C10. No constraint is dropped on the way to the core: the server \<open>resolve\<close> answers with is listed in
  the cached catalog and connectable; it is what the target names, for a group what the registry defines;
  it is in none of the countries, states, cities or servers the caller excludes, does not enter or leave
  a routed request through a country the caller or the configuration excludes, has every required
  feature and speaks the required protocol. A request that requires port forwarding is not answered.
\<close>

theorem winner_meets_every_constraint:
  assumes "resolve cfg codec world inp t m en = (Ok r, en')"
  shows "\<exists>etag fetched catalog. cached_catalog codec (in_catalog inp) = Ok (Some (etag, fetched, catalog)) \<and>
    sr_winner r \<in> set (logical_servers catalog) \<and> connectable (sr_winner r) \<and>
    target_admits cfg m (cached_location_country (in_location inp)) t (sr_winner r) \<and>
    exit_country (sr_winner r) \<notin> set (sm_excluded_countries m) \<union> set (sm_excluded_exit_countries m) \<and>
    entry_country (sr_winner r) \<notin> set (sm_excluded_entry_countries m) \<and> ls_name (sr_winner r) \<notin> set (sm_excluded_servers m) \<and>
    (\<forall>x n. state (sr_winner r) = Some x \<longrightarrow> n \<in> set (sm_excluded_states m) \<longrightarrow> \<not> eq_ignore_ascii_case x n) \<and>
    (\<forall>x n. city (sr_winner r) = Some x \<longrightarrow> n \<in> set (sm_excluded_cities m) \<longrightarrow> \<not> eq_ignore_ascii_case x n) \<and>
    (\<forall>p. sm_required_protocol m = Some p \<longrightarrow> protocol_holds (sr_winner r) (wire_protocol p)) \<and>
    (\<forall>f \<in> set (sm_required_features m). f \<noteq> PortForwardingFeature \<and> catalog_feature_holds (sr_winner r) (wire_feature f))"
proof -
  let ?here = "cached_location_country (in_location inp)"
  from resolve_Ok [OF assms] obtain etag fetched catalog e req prov ctx out winner rest where
    cc: "cached_catalog codec (in_catalog inp) = Ok (Some (etag, fetched, catalog))" and c: "catalog_ok catalog"
    and g: "gate_request cfg catalog e ?here t m = Ok (req, prov)"
    and x: "core_context e ctx" and s: "select catalog req ctx = Ok out" "ranked out = winner # rest" and w: "sr_winner r = server winner"
    by metis
  from gate_request_Ok [OF g] obtain mapped where mp: "map_request cfg e ?here t m = Ok (mapped, prov)"
    and req: "req = union_configured_secure_core_exclusions cfg mapped" by metis
  note el = winner_eligible [OF c s, folded w]
  have carried: "carries m (constraints req)" using union_carries [OF map_request_carries [OF mp]] req by simp
  have elm: "eligible (sr_winner r) mapped ctx"
    by (rule eligible_weaker [OF el(2) [unfolded req] union_weaker]) simp_all
  note ex = union_excludes [OF el(2) [unfolded req]]
  have "target_admits cfg m ?here t (sr_winner r)"
    using mp
  proof (cases rule: map_request_Ok)
    case (group gname p)
    with group_admits_winner [OF group(2) elm] ex show ?thesis by blast
  next
    case direct
    with direct_admits [OF direct(2) elm] ex show ?thesis by blast
  qed
  moreover have "connectable (sr_winner r)" using el(2) by (simp add: eligible_def)
  ultimately show ?thesis using cc el(1) carried_holds [OF el(2) carried x] by blast
qed

section \<open>The listing\<close>

definition no_modifiers :: SelectionModifiers where
  "no_modifiers = \<lparr>sm_by = None, sm_physical_country = None, sm_excluded_countries = [], sm_excluded_states = [], sm_excluded_cities = [],
     sm_excluded_servers = [], sm_excluded_entry_countries = [], sm_excluded_exit_countries = [], sm_required_features = [],
     sm_optional_features = [], sm_required_protocol = None\<rparr>"

text \<open>
  Under the registry's own rankings, with entropy and a score for every server, the ranking refuses
  nothing: \<open>select\<close> answers whenever a candidate passes the filter.
\<close>

lemma plain_select_iff:
  assumes "catalog_ok catalog" "\<not> is_exact (target req)" "policy req = Official \<or> policy req = Random \<and> random_entropy ctx \<noteq> None"
    and "list_all (\<lambda>s. score s \<noteq> None) (logical_servers catalog)"
  shows "(\<exists>out. select catalog req ctx = Ok out) \<longleftrightarrow> (\<exists>cs rep. filter_candidates catalog req ctx = Ok (cs, rep) \<and> cs \<noteq> [])"
proof
  assume "\<exists>out. select catalog req ctx = Ok out"
  then obtain out where s: "select catalog req ctx = Ok out" by blast
  from select_Ok_cases [OF assms(1) s] obtain
    "check_request req ctx = Ok ()" "ranked out \<noteq> []" "mset (map server (ranked out)) = mset (answers catalog req ctx)" by metis
  then have "check_request req ctx = Ok ()" "answers catalog req ctx \<noteq> []" by auto
  then show "\<exists>cs rep. filter_candidates catalog req ctx = Ok (cs, rep) \<and> cs \<noteq> []"
    using filter_candidates_eq [OF assms(1), of req ctx] assms(2) by (auto simp: Let_def answers_def filter_empty_conv)
next
  assume "\<exists>cs rep. filter_candidates catalog req ctx = Ok (cs, rep) \<and> cs \<noteq> []"
  then obtain cs rep where f: "filter_candidates catalog req ctx = Ok (cs, rep)" "cs \<noteq> []" by blast
  note fc = filter_candidates_Ok [OF assms(1) f(1)]
  have len: "length cs < 2 ^ 64" using fc catalog_length [OF assms(1)] by auto
  have keep: "policy_keeps (policy req) ctx s" for s using assms(3) by (auto simp: policy_keeps_def)
  have "rank_step req ctx cs rep \<noteq> Panic" using fc by (intro step.never_panics [OF len]) (auto simp: filter_report_def)
  moreover have "rank_step req ctx cs rep \<noteq> Err x" for x
    using assms(2,3,4) fc
    by (auto simp: rank_step_def rank_by_policy_def rank_official_def res_simps rank_random_not_Err Let_def list_all_iff filter_empty_conv
        split: if_splits)
  ultimately obtain rk rep' where r: "rank_step req ctx cs rep = Ok (rk, rep')" by (cases "rank_step req ctx cs rep") auto
  have "rk \<noteq> []" using step.empty_iff [OF len r] f(2) keep by (auto simp: neq_Nil_conv)
  then show "\<exists>out. select catalog req ctx = Ok out" by (auto simp: select_rank_step f(1) r)
qed

text \<open>A request without feature constraints is filtered the same in every context of the same tier.\<close>

lemma filter_context:
  assumes "catalog_ok catalog" "required_features (constraints req) = []" "optional_features (constraints req) = []"
    "account_tier ctx' = account_tier ctx" "\<not> is_exact (target req)"
  shows "(\<exists>cs rep. filter_candidates catalog req ctx' = Ok (cs, rep) \<and> cs \<noteq> []) \<longleftrightarrow>
    (\<exists>cs rep. filter_candidates catalog req ctx = Ok (cs, rep) \<and> cs \<noteq> [])"
proof -
  have "check_request req ctx' = check_request req ctx"
    using assms(2,3) by (simp add: check_request_def needs_port_forwarding_composition_def)
  moreover have "eligible s req ctx' \<longleftrightarrow> eligible s req ctx" for s using assms(2,4) by (simp add: eligible_def)
  ultimately show ?thesis using assms(5) by (simp add: filter_candidates_eq [OF assms(1)] Let_def res_simps)
qed

lemma merge_no_modifiers: "merge_group_modifiers gname req no_modifiers = Ok req"
  by (simp add: merge_group_modifiers_def no_modifiers_def option_or_def Let_def split: option.split)

lemma boundary_no_modifiers: "check_boundary (GroupTarget gname) no_modifiers = Ok ()"
  by (simp add: check_boundary_def boundary_target_def boundary_opt_def no_modifiers_def)

lemma resolve_target_plain:
  "resolve_target g physical = Ok (t, c) \<Longrightarrow> required_features c = [] \<and> optional_features c = [] \<and> \<not> is_exact t"
  by (auto simp: resolve_target_def Let_def Constraints_default_def is_exact_def split: GroupTarget.splits option.splits if_splits)

text \<open>The request both sides build for a registry entry.\<close>

lemma entry_resolves:
  assumes g: "g \<in> set REGISTRY"
  obtains r where "resolve_group (ge_id g) None physical w = Ok r" "rs_group r = g"
    "required_features (constraints (rs_request r)) = []" "optional_features (constraints (rs_request r)) = []"
    "\<not> is_exact (target (rs_request r))" "policy (rs_request r) = Official \<or> policy (rs_request r) = Random"
proof -
  note k = find_group_entry [OF g]
  from resolve_target_total find_group_ok [OF k] obtain t c where t: "resolve_target g physical = Ok (t, c)" by blast
  have p: "to_selection_policy (ge_ranking_policy g) w = Official \<or> to_selection_policy (ge_ranking_policy g) w = Random"
    using registry_rows g by (auto simp: list_all_iff row_ok_def)
  show thesis
    by (rule that [of "\<lparr>rs_group = g, rs_request = \<lparr>target = t, policy = to_selection_policy (ge_ranking_policy g) w, constraints = c\<rparr>,
        rs_policy_provenance = CatalogDefault\<rparr>"])
      (use k t p resolve_target_plain [OF t] in \<open>simp_all add: resolve_group_def resolve_policy_def\<close>)
qed

text \<open>Both sides gate the same request.\<close>

definition default_ranking :: "SelectConfig \<Rightarrow> bool" where
  "default_ranking cfg \<longleftrightarrow> cfg_regional_default_ranking cfg = RegionalProtonScore"

lemma gate_entry:
  assumes "default_ranking cfg"
    and "resolve_group (ge_id g) None \<lparr>explicit_request = None, pcs_config = cfg_physical_country cfg, cached_location = here\<rparr> (balanced_weights cfg) = Ok r"
    and "rs_group r = g"
  shows "(\<exists>prov. gate_request cfg catalog e here (GroupTarget (ge_id g)) no_modifiers = Ok (req, prov)) \<longleftrightarrow>
    req = union_configured_secure_core_exclusions cfg (rs_request r) \<and> (ge_entitlement g = PaidLocationSelection \<longrightarrow> plan_is_paid e) \<and>
    unmet_capability e req catalog = None \<and> \<not> random_requires_backend_authority req e"
proof -
  have d: "option_or (sm_by no_modifiers) (configured_regional_default cfg (ge_id g)) = None" "sm_physical_country no_modifiers = None"
    using assms(1) by (simp_all add: default_ranking_def configured_regional_default_def no_modifiers_def option_or_def)
  show ?thesis
    by (auto simp: gate_request_def target_names_gateway_def names_location_def map_request_def group_request_def d assms(2,3)
        merge_no_modifiers res_simps Let_def split: option.splits if_splits)
qed

lemma availability_entry:
  assumes "resolve_group (ge_id g) None \<lparr>explicit_request = None, pcs_config = cfg_physical_country cfg, cached_location = here\<rparr> (balanced_weights cfg) = Ok r"
    and "group_availability cfg (Some catalog) here g e = Some a"
  shows "ga_available a \<longleftrightarrow> (ge_entitlement g = PaidLocationSelection \<longrightarrow> plan_is_paid e) \<and>
    (let req = union_configured_secure_core_exclusions cfg (rs_request r) in
      unmet_capability e req catalog = None \<and> \<not> random_requires_backend_authority req e \<and>
      (\<exists>cs rep. filter_candidates catalog req (SelectionContext_default\<lparr>account_tier := account_tier_of e\<rparr>) = Ok (cs, rep) \<and> cs \<noteq> []))"
  using assms
  by (auto simp: group_availability_def unavailable_def filter_availability_def plan_is_paid_def Let_def
      split: option.splits if_splits res.splits prod.splits)

lemma resolve_plain:
  assumes "check_boundary t m = Ok ()" "cached_catalog codec (in_catalog inp) = Ok (Some (etag, fetched, catalog))" "in_composition inp = Ok e"
    and "gate_request cfg catalog e (cached_location_country (in_location inp)) t m = Ok (req, prov)" "\<not> latency_weighted (policy req)"
  obtains physical en' where "resolve cfg codec world inp t m en =
    (answer_request inp etag fetched catalog prov t m physical req (request_context e), en')"
  using assms by (auto simp: resolve_def measure_latency_def Let_def)

lemma resolve_gated:
  assumes "resolve cfg codec world inp t m en = (Ok r, en')" "cached_catalog codec (in_catalog inp) = Ok (Some (etag, fetched, catalog))"
    "in_composition inp = Ok e"
  shows "\<exists>req prov. gate_request cfg catalog e (cached_location_country (in_location inp)) t m = Ok (req, prov)"
proof (cases "gate_request cfg catalog e (cached_location_country (in_location inp)) t m")
  case (Ok x)
  then show ?thesis by (cases x) simp
qed (use assms in \<open>auto simp: resolve_def Let_def split: res.splits\<close>)

lemma answer_plain:
  assumes "catalog_ok catalog" "in_entropy inp \<noteq> None" "list_all (\<lambda>s. score s \<noteq> None) (logical_servers catalog)"
    and "policy req = Official \<or> policy req = Random" "\<not> is_exact (target req)"
    and "required_features (constraints req) = []" "optional_features (constraints req) = []"
  shows "(\<exists>r. answer_request inp etag fetched catalog prov t m physical req (request_context e) = Ok r) \<longleftrightarrow>
    (\<exists>cs rep. filter_candidates catalog req (SelectionContext_default\<lparr>account_tier := account_tier_of e\<rparr>) = Ok (cs, rep) \<and> cs \<noteq> [])"
proof -
  obtain ctx where ctx: "draw_entropy (in_entropy inp) req (request_context e) = Ok ctx" "account_tier ctx = account_tier_of e"
    "policy req = Random \<Longrightarrow> random_entropy ctx \<noteq> None"
  proof (cases "policy req = Random")
    case True
    with assms(2) that [of "(request_context e)\<lparr>random_entropy := in_entropy inp\<rparr>"] show thesis
      by (auto simp: draw_entropy_def request_context_def)
  next
    case False
    with that [of "request_context e"] show thesis by (simp add: draw_entropy_def request_context_def)
  qed
  have "(\<exists>r. answer_request inp etag fetched catalog prov t m physical req (request_context e) = Ok r) \<longleftrightarrow>
      (\<exists>out. select catalog req ctx = Ok out)"
  proof (cases "select catalog req ctx")
    case (Ok out)
    have "ranked out \<noteq> []" by (rule select_Ok_cases [OF assms(1) Ok])
    with Ok show ?thesis by (simp add: answer_request_def ctx(1) split: list.split)
  qed (simp_all add: answer_request_def ctx(1))
  also have "\<dots> \<longleftrightarrow> (\<exists>cs rep. filter_candidates catalog req ctx = Ok (cs, rep) \<and> cs \<noteq> [])"
    by (rule plain_select_iff [OF assms(1,5) _ assms(3)]) (use assms(4) ctx(3) in auto)
  also have "\<dots> \<longleftrightarrow> (\<exists>cs rep. filter_candidates catalog req (SelectionContext_default\<lparr>account_tier := account_tier_of e\<rparr>) = Ok (cs, rep) \<and> cs \<noteq> [])"
    by (rule filter_context [OF assms(1,6,7) _ assms(5)]) (simp add: ctx(2))
  finally show ?thesis .
qed

text \<open>
  C26. The group listing agrees with \<open>resolve\<close>, on five conditions: both see the same cached catalog,
  the same entitlement snapshot and the same location; the regional groups are ranked by Proton's
  score, the default; the system's entropy can be read; and every server of the catalog has a score.
  Then a group is listed as available exactly when selecting it without modifiers is answered. With
  a latency ranking configured, or a score missing, a group that is listed may be refused.
\<close>

theorem listing_agrees_with_resolve:
  assumes "g \<in> set REGISTRY" "default_ranking cfg" "in_entropy inp \<noteq> None" "in_composition inp = Ok e"
    and "cached_catalog codec (in_catalog inp) = Ok (Some (etag, fetched, catalog))"
    and "list_all (\<lambda>s. score s \<noteq> None) (logical_servers catalog)"
    and "group_availability cfg (Some catalog) (cached_location_country (in_location inp)) g e = Some a"
  shows "ga_available a \<longleftrightarrow> (\<exists>r en'. resolve cfg codec world inp (GroupTarget (ge_id g)) no_modifiers en = (Ok r, en'))"
proof -
  let ?here = "cached_location_country (in_location inp)" and ?t = "GroupTarget (ge_id g)"
  let ?physical = "\<lparr>explicit_request = None, pcs_config = cfg_physical_country cfg, cached_location = ?here\<rparr>"
  obtain r where r: "resolve_group (ge_id g) None ?physical (balanced_weights cfg) = Ok r" "rs_group r = g"
    and plain: "required_features (constraints (rs_request r)) = []" "optional_features (constraints (rs_request r)) = []"
    "\<not> is_exact (target (rs_request r))" "policy (rs_request r) = Official \<or> policy (rs_request r) = Random"
    by (rule entry_resolves [OF assms(1), of ?physical "balanced_weights cfg"])
  let ?req = "union_configured_secure_core_exclusions cfg (rs_request r)"
  note gate = gate_entry [OF assms(2) r(1,2), of catalog e] and av = availability_entry [OF r(1) assms(7)]
  show ?thesis
  proof (cases "\<exists>prov. gate_request cfg catalog e ?here ?t no_modifiers = Ok (?req, prov)")
    case True
    then obtain prov where p: "gate_request cfg catalog e ?here ?t no_modifiers = Ok (?req, prov)" by blast
    have "\<not> latency_weighted (policy ?req)" using plain(4) by (auto simp: latency_weighted_def)
    from resolve_plain [where world = world and en = en, OF boundary_no_modifiers assms(5,4) p this] obtain physical en' where
      s: "resolve cfg codec world inp ?t no_modifiers en =
        (answer_request inp etag fetched catalog prov ?t no_modifiers physical ?req (request_context e), en')" by metis
    have "(\<exists>x en'. resolve cfg codec world inp ?t no_modifiers en = (Ok x, en')) \<longleftrightarrow>
        (\<exists>cs rep. filter_candidates catalog ?req (SelectionContext_default\<lparr>account_tier := account_tier_of e\<rparr>) = Ok (cs, rep) \<and> cs \<noteq> [])"
      unfolding s using answer_plain [OF cached_catalog_Ok [OF assms(5)] assms(3,6), of ?req] plain by simp
    with av True gate [of ?req] show ?thesis by (simp add: Let_def)
  next
    case False
    have "resolve cfg codec world inp ?t no_modifiers en \<noteq> (Ok x, en')" for x en'
    proof
      assume "resolve cfg codec world inp ?t no_modifiers en = (Ok x, en')"
      from resolve_gated [OF this assms(5,4)] obtain req prov where
        p: "gate_request cfg catalog e ?here ?t no_modifiers = Ok (req, prov)" by (elim exE)
      have "req = ?req" using iffD1 [OF gate, of req] p by (metis (no_types))
      with False p show False by (metis (no_types))
    qed
    with av False gate [of ?req] show ?thesis by (auto simp: Let_def)
  qed
qed

section \<open>Concrete requests\<close>

definition sample_config :: SelectConfig where
  "sample_config = \<lparr>cfg_latency_probe = LatencyProbeSection_default,
     cfg_balanced_weights = \<lparr>bw_load = ws_load WeightedSignals_DEFAULT, bw_latency = ws_latency WeightedSignals_DEFAULT,
       bw_stability = ws_stability WeightedSignals_DEFAULT, bw_feature_match = ws_feature_match WeightedSignals_DEFAULT\<rparr>,
     cfg_excluded_entry_countries = [], cfg_excluded_exit_countries = [''RU''], cfg_physical_country = None,
     cfg_regional_default_ranking = RegionalProtonScore\<rparr>"

definition daemon_codec :: catalog_codec where
  "daemon_codec = \<lparr>parse_doc = (\<lambda>_. Inr demo_catalog), parse_cached = (\<lambda>_. Inl []), render_cached = (\<lambda>_. Inl [])\<rparr>"

definition sample_inputs :: "VpnEntitlements option \<Rightarrow> SelectInputs" where
  "sample_inputs e = \<lparr>in_catalog = Ok (Some \<lparr>cc_schema_version = 1, cc_etag = None, cc_fetched_unix = 5, cc_body = []\<rparr>),
     in_location = Ok None, in_composition = Ok e, in_entropy = Some 7\<rparr>"

definition sample_world :: "(nat, nat) ProbeWorld" where
  "sample_world = \<lparr>instant = id, worker_instant = (\<lambda>x _. x), after_poll = Suc, after_join = (\<lambda>x _. x), now_ms = id,
     connect = (\<lambda>_ _ _ d. Some d), socket_addr = (\<lambda>_ p. Some 1)\<rparr>"

definition sample_engine :: "nat Engine" where
  "sample_engine = \<lparr>en_table = ProbeTable_default, en_seq = 0, en_world = 0\<rparr>"

definition without_first :: SelectionModifiers where
  "without_first = no_modifiers\<lparr>sm_excluded_servers := [''CH#2'']\<rparr>"

lemma daemon_cached: "cached_catalog daemon_codec (in_catalog (sample_inputs e)) = Ok (Some (None, 5, demo_catalog))"
proof -
  have "from_bytes (parse_doc daemon_codec) [] = Ok demo_catalog"
    by (simp add: from_bytes_Ok_conv demo_catalog_ok daemon_codec_def)
  then show ?thesis by (simp add: cached_catalog_def sample_inputs_def)
qed

lemma demo_scored: "list_all (\<lambda>s. score s \<noteq> None) (logical_servers demo_catalog)"
  by (simp add: demo_catalog_def demo_server_def)

lemma sample_answer:
  "\<exists>r en'. resolve sample_config daemon_codec sample_world (sample_inputs (Some (sample_snapshot 2))) (CountryTarget ''CH'') without_first
     sample_engine = (Ok r, en')"
proof -
  let ?e = "Some (sample_snapshot 2)" and ?t = "CountryTarget ''CH''"
  let ?req = "\<lparr>target = Country ''CH'', policy = Official, constraints = Constraints_default\<lparr>excluded_servers := [''CH#2'']\<rparr>\<rparr>"
  have b: "check_boundary ?t without_first = Ok ()"
    by (simp add: check_boundary_def boundary_target_def boundary_country_def boundary_opt_def without_first_def no_modifiers_def
        validate_country_def is_ascii_uppercase_def less_eq_char_def)
  have g: "gate_request sample_config demo_catalog ?e (cached_location_country (in_location (sample_inputs ?e))) ?t without_first = Ok (?req, None)"
    by (simp add: gate_request_def target_names_gateway_def map_request_def direct_request_def direct_policy_def direct_target_def
        without_first_def no_modifiers_def union_configured_secure_core_exclusions_def is_secure_core_target_def unmet_capability_def
        capability_rows_def exact_classification_def names_feature_def random_requires_backend_authority_def names_location_def
        plan_is_paid_def sample_snapshot_def Constraints_default_def Let_def)
  obtain physical en' where s: "resolve sample_config daemon_codec sample_world (sample_inputs ?e) ?t without_first sample_engine =
      (answer_request (sample_inputs ?e) None 5 demo_catalog None ?t without_first physical ?req (request_context ?e), en')"
    by (rule resolve_plain [where world = sample_world and en = sample_engine, OF b daemon_cached _ g])
      (simp_all add: sample_inputs_def latency_weighted_def)
  have "\<exists>cs rep. filter_candidates demo_catalog ?req (SelectionContext_default\<lparr>account_tier := account_tier_of ?e\<rparr>) = Ok (cs, rep) \<and> cs \<noteq> []"
    unfolding filter_candidates_eq [OF demo_catalog_ok]
    by (simp add: check_defs demo_defs Constraints_default_def validate_country_def is_ascii_uppercase_def less_eq_char_def Let_def
        eligible_def connectable_def in_scope_def secure_core_def has_def not_excluded_def account_tier_of_def sample_snapshot_def i8_max_def)
  then show ?thesis
    unfolding s using answer_plain [OF demo_catalog_ok _ demo_scored, of "sample_inputs ?e" ?req None 5 None ?t without_first physical ?e]
    by (simp add: sample_inputs_def Constraints_default_def is_exact_def)
qed

theorem answers_stay_within_the_plan_witness:
  "\<exists>r en'. resolve sample_config daemon_codec sample_world (sample_inputs (Some (sample_snapshot 2))) (CountryTarget ''CH'') without_first
     sample_engine = (Ok r, en') \<and> plan_is_paid (Some (sample_snapshot 2)) \<and> tier (sr_winner r) \<le> 2 \<and> gateway_name (sr_winner r) = None"
proof -
  obtain r en' where r: "resolve sample_config daemon_codec sample_world (sample_inputs (Some (sample_snapshot 2))) (CountryTarget ''CH'')
    without_first sample_engine = (Ok r, en')" using sample_answer by blast
  have "in_composition (sample_inputs (Some (sample_snapshot 2))) = Ok (Some (sample_snapshot 2))" by (simp add: sample_inputs_def)
  from answers_stay_within_the_plan [OF r this] have "plan_is_paid (Some (sample_snapshot 2))" "tier (sr_winner r) \<le> 2"
    "gateway_name (sr_winner r) = None"
    by (simp_all add: plan_is_paid_def sample_snapshot_def)
  with r show ?thesis by blast
qed

theorem winner_meets_every_constraint_witness:
  "\<exists>r en'. resolve sample_config daemon_codec sample_world (sample_inputs (Some (sample_snapshot 2))) (CountryTarget ''CH'') without_first
     sample_engine = (Ok r, en') \<and> sr_winner r \<in> set (logical_servers demo_catalog) \<and> exit_country (sr_winner r) = ''CH'' \<and>
     ls_name (sr_winner r) \<noteq> ''CH#2''"
proof -
  obtain r en' where r: "resolve sample_config daemon_codec sample_world (sample_inputs (Some (sample_snapshot 2))) (CountryTarget ''CH'')
    without_first sample_engine = (Ok r, en')" using sample_answer by blast
  from winner_meets_every_constraint [OF r] daemon_cached have "sr_winner r \<in> set (logical_servers demo_catalog)"
    "exit_country (sr_winner r) = ''CH''" "ls_name (sr_winner r) \<noteq> ''CH#2''"
    by (simp_all add: target_admits_def without_first_def)
  with r show ?thesis by blast
qed

lemma sample_listed:
  "group_availability sample_config (Some demo_catalog) None (hd REGISTRY) None = Some \<lparr>ga_available = True, ga_reason = None\<rparr>"
proof -
  have r: "resolve_group (ge_id (hd REGISTRY)) None \<lparr>explicit_request = None, pcs_config = None, cached_location = None\<rparr> w =
    Ok \<lparr>rs_group = hd REGISTRY, rs_request = demo_request Fastest Official, rs_policy_provenance = CatalogDefault\<rparr>" for w
    by (simp add: resolve_group_def find_group_def REGISTRY_def resolve_policy_def resolve_target_def demo_request_def Constraints_default_def Let_def)
  have p: "union_configured_secure_core_exclusions sample_config (demo_request Fastest Official) = demo_request Fastest Official"
    "unmet_capability None (demo_request Fastest Official) demo_catalog = None"
    "\<not> random_requires_backend_authority (demo_request Fastest Official) None"
    "SelectionContext_default\<lparr>account_tier := account_tier_of None\<rparr> = SelectionContext_default"
    by (simp_all add: union_configured_secure_core_exclusions_def is_secure_core_target_def unmet_capability_def capability_rows_def
        exact_classification_def names_feature_def random_requires_backend_authority_def demo_request_def Constraints_default_def
        account_tier_of_def SelectionContext_default_def)
  have "cfg_physical_country sample_config = None" "ge_entitlement (hd REGISTRY) \<noteq> PaidLocationSelection"
    by (simp_all add: sample_config_def REGISTRY_def)
  then show ?thesis by (simp add: group_availability_def r p filter_availability_def demo_filter Let_def)
qed

theorem listing_agrees_with_resolve_witness:
  "\<exists>r en'. resolve sample_config daemon_codec sample_world (sample_inputs None) (GroupTarget ''proton:fastest-country'') no_modifiers
     sample_engine = (Ok r, en')"
proof -
  have "hd REGISTRY \<in> set REGISTRY" "ge_id (hd REGISTRY) = ''proton:fastest-country''" by (simp_all add: REGISTRY_def)
  moreover have "default_ranking sample_config" "in_entropy (sample_inputs None) \<noteq> None" "in_composition (sample_inputs None) = Ok None"
    "cached_location_country (in_location (sample_inputs None)) = None"
    by (simp_all add: default_ranking_def sample_config_def sample_inputs_def cached_location_country_def)
  ultimately show ?thesis
    using listing_agrees_with_resolve [of "hd REGISTRY" sample_config "sample_inputs None" None daemon_codec None 5 demo_catalog
        "\<lparr>ga_available = True, ga_reason = None\<rparr>" sample_world sample_engine] daemon_cached sample_listed demo_scored by simp
qed

end
