(* ===== verification/Connection_Lane.thy ===== *)
theory Connection_Lane
  imports Daemon_Core Proto_Engine
begin

text \<open>
  The daemon's connection lane (\<open>apps/daemon/src/connect.rs\<close>): \<open>connect\<close>, \<open>disconnect\<close> and \<open>drain\<close>
  of \<open>ConnectionLane\<close> and the event pump of each connection, over the lane's mutex, the slot that
  holds a connection and the core's published state.

  A connection, its slot (an \<open>Arc\<close>) and its pump thread carry one number. A step is what a thread does
  inside one critical section, or one call that blocks outside of them: taking a connection out of its
  slot, closing it, joining a pump, an attempt of the engine. What the engine answers is arbitrary. The
  lane outlives its calls, so the pump's check for a dropped lane always finds it.
\<close>

section \<open>Refusals and the pure decisions\<close>

datatype LaneRefusal = NotOwner u32 | NoActiveConnection | Draining | Reconnecting | Disconnecting

datatype LaneError = Refused LaneRefusal | EngineFailure EngineError

definition BYPASS_MARK :: nat where
  "BYPASS_MARK = 0x51820"

definition gate_owner :: "u32 option \<Rightarrow> u32 \<Rightarrow> (LaneRefusal, unit) res" where
  "gate_owner current requester =
     (case current of Some owner \<Rightarrow> if owner \<noteq> requester then Err (NotOwner owner) else Ok () | None \<Rightarrow> Ok ())"

definition map_vpn_state :: "EngineVpnState \<Rightarrow> VpnState" where
  "map_vpn_state s =
     (case connection s of
        EngineConnectionState.Disconnected _ \<Rightarrow> VpnState.Disconnected
      | EngineConnectionState.Connecting _ _ \<Rightarrow> VpnState.Connecting
      | ConnectingToAgent _ _ \<Rightarrow> VpnState.Connecting
      | EngineConnectionState.Connected _ _ \<Rightarrow> VpnState.Connected)"

record LaneState =
  ls_active :: "nat option"
  ls_owner :: "u32 option"
  ls_reconnecting :: bool
  ls_disconnecting :: bool
  ls_drain_in_progress :: bool

definition LaneState_default :: LaneState where
  "LaneState_default = \<lparr>ls_active = None, ls_owner = None, ls_reconnecting = False, ls_disconnecting = False,
     ls_drain_in_progress = False\<rparr>"

definition drain_waits :: "LaneState \<Rightarrow> bool" where
  "drain_waits lane \<longleftrightarrow> ls_drain_in_progress lane \<or> ls_reconnecting lane \<or> ls_disconnecting lane"

definition disconnect_refusal :: "LaneState \<Rightarrow> bool \<Rightarrow> LaneRefusal option" where
  "disconnect_refusal lane draining =
     (if draining then Some Draining
      else if ls_reconnecting lane then Some Reconnecting
      else if ls_disconnecting lane then Some Disconnecting
      else None)"

section \<open>The critical sections of the lane\<close>

text \<open>The first section of \<open>connect\<close>: the gates, then the window is armed and the lane emptied.\<close>

definition connect_begin :: "u32 \<Rightarrow> bool \<Rightarrow> LaneState \<Rightarrow> (LaneRefusal, nat option) res \<times> LaneState" where
  "connect_begin uid draining lane =
     (case gate_owner (ls_owner lane) uid of
        Err r \<Rightarrow> (Err r, lane)
      | Panic \<Rightarrow> (Panic, lane)
      | Ok _ \<Rightarrow>
          if draining then (Err Draining, lane)
          else if ls_reconnecting lane then (Err Reconnecting, lane)
          else if ls_disconnecting lane then (Err Disconnecting, lane)
          else (Ok (ls_active lane), lane\<lparr>ls_reconnecting := True, ls_active := None, ls_owner := None\<rparr>))"

definition connect_resume :: "bool \<Rightarrow> LaneState \<Rightarrow> (LaneRefusal, unit) res \<times> LaneState" where
  "connect_resume draining lane =
     (if draining then (Err Draining, lane\<lparr>ls_reconnecting := False\<rparr>) else (Ok (), lane\<lparr>ls_owner := None\<rparr>))"

definition connect_install :: "u32 \<Rightarrow> nat \<Rightarrow> LaneState \<Rightarrow> LaneState" where
  "connect_install uid k lane = lane\<lparr>ls_active := Some k, ls_owner := Some uid, ls_reconnecting := False\<rparr>"

definition disconnect_begin :: "u32 \<Rightarrow> bool \<Rightarrow> LaneState \<Rightarrow> (LaneRefusal, nat option) res \<times> LaneState" where
  "disconnect_begin uid draining lane =
     (case disconnect_refusal lane draining of
        Some r \<Rightarrow> (Err r, lane)
      | None \<Rightarrow>
          case gate_owner (ls_owner lane) uid of
            Err r \<Rightarrow> (Err r, lane)
          | Panic \<Rightarrow> (Panic, lane)
          | Ok _ \<Rightarrow>
              let active = ls_active lane;
                  lane = lane\<lparr>ls_active := None, ls_owner := None\<rparr>
              in (Ok active, if active \<noteq> None then lane\<lparr>ls_disconnecting := True\<rparr> else lane))"

text \<open>One turn of the wait loop of \<open>drain\<close>; None while it has to wait.\<close>

definition drain_turn :: "LaneState \<Rightarrow> (nat option \<times> LaneState) option" where
  "drain_turn lane =
     (if drain_waits lane then None
      else
        let active = ls_active lane;
            lane = (if active \<noteq> None then lane\<lparr>ls_drain_in_progress := True\<rparr> else lane)
        in Some (active, lane\<lparr>ls_owner := None, ls_active := None\<rparr>))"

definition retire_lane :: "nat \<Rightarrow> LaneState \<Rightarrow> LaneState" where
  "retire_lane k lane = (if ls_active lane = Some k then lane\<lparr>ls_active := None, ls_owner := None\<rparr> else lane)"

section \<open>The pump\<close>

record Pump =
  pm_last :: "VpnState option"
  pm_watermark :: u64
  pm_backlog :: bool
  pm_pending :: "EngineEvent option"

definition Pump_start :: Pump where
  "Pump_start = \<lparr>pm_last = None, pm_watermark = 0, pm_backlog = False, pm_pending = None\<rparr>"

text \<open>What a connection answers to \<open>take_critical_events\<close>, \<open>dropped_states\<close> and \<open>latest_state\<close>.\<close>

record Surfaces =
  cs_critical :: "EngineEvent list"
  cs_dropped :: u64
  cs_latest :: "EngineVpnState option"

definition publish_state :: "VpnState \<Rightarrow> DaemonCore \<Rightarrow> DaemonCore" where
  "publish_state v core = snd (set_vpn_state v core)"

definition publish_mapped :: "EngineVpnState \<Rightarrow> DaemonCore \<Rightarrow> Pump \<Rightarrow> DaemonCore \<times> Pump" where
  "publish_mapped s core p =
     (let mapped = map_vpn_state s in
      if pm_last p \<noteq> Some mapped then (publish_state mapped core, p\<lparr>pm_last := Some mapped\<rparr>) else (core, p))"

text \<open>No surfaces stand for an empty slot.\<close>

definition reconcile_drops :: "Surfaces option \<Rightarrow> DaemonCore \<Rightarrow> Pump \<Rightarrow> bool \<times> DaemonCore \<times> Pump" where
  "reconcile_drops held core p =
     (case held of
        None \<Rightarrow> (False, core, p)
      | Some c \<Rightarrow>
          if CertificateFatal \<in> set (cs_critical c) then (True, core, p)
          else
            let p = (if cs_dropped c > pm_watermark p then p\<lparr>pm_watermark := cs_dropped c, pm_backlog := True\<rparr> else p) in
            if \<not> pm_backlog p then (False, core, p)
            else case cs_latest c of Some s \<Rightarrow> (False, publish_mapped s core p) | None \<Rightarrow> (False, core, p))"

text \<open>
  Where a pump is. \<open>Terminating\<close> is the claim both of \<open>terminate_on_fatal\<close> and of the arm for a dead
  engine, which do the same; \<open>Tearing\<close>, \<open>Announcing\<close> and \<open>Retiring\<close> follow a successful claim.
\<close>

datatype pump_pc =
    Receiving Pump
  | Reconciling EngineEvent Pump
  | Handling EngineEvent Pump
  | Concluding Pump
  | Quiet Pump
  | Probing Pump
  | Terminating
  | Tearing
  | Announcing
  | Retiring

datatype receipt = Received EngineEvent | TimedOut | ChannelClosed

record Answers =
  an_receipt :: receipt
  an_probe :: "EngineEvent option option"
  an_surfaces :: Surfaces

text \<open>Each arm of the loop: where it continues, and the core. None ends the thread.\<close>

definition receive_arm :: "bool \<Rightarrow> receipt \<Rightarrow> Pump \<Rightarrow> pump_pc option" where
  "receive_arm held r p =
     (case pm_pending p of
        Some ev \<Rightarrow> Some (Reconciling ev (p\<lparr>pm_pending := None\<rparr>))
      | None \<Rightarrow>
          if \<not> held then None
          else case r of Received ev \<Rightarrow> Some (Reconciling ev p) | TimedOut \<Rightarrow> Some (Quiet p) | ChannelClosed \<Rightarrow> Some Terminating)"

definition reconcile_arm :: "bool \<Rightarrow> Surfaces \<Rightarrow> DaemonCore \<Rightarrow> Pump \<Rightarrow> (Pump \<Rightarrow> pump_pc) \<Rightarrow> pump_pc \<times> DaemonCore" where
  "reconcile_arm held c core p continue =
     (let (fatal, core, p) = reconcile_drops (if held then Some c else None) core p in
      (if fatal then Terminating else continue p, core))"

definition handle_event :: "bool \<Rightarrow> EngineEvent \<Rightarrow> DaemonCore \<Rightarrow> Pump \<Rightarrow> pump_pc \<times> DaemonCore" where
  "handle_event held ev core p =
     (case ev of
        State s \<Rightarrow>
          if pm_backlog p \<or> \<not> held then (Receiving p, core)
          else let (core, p) = publish_mapped s core p in (Concluding p, core)
      | CertificateFatal \<Rightarrow> (Terminating, core)
      | _ \<Rightarrow> (Concluding p, core))"

text \<open>The zero-time probe: an answer is an event, or that the queue is empty; none is a closed channel.\<close>

definition probe_arm :: "bool \<Rightarrow> EngineEvent option option \<Rightarrow> Pump \<Rightarrow> Pump" where
  "probe_arm held answer p =
     (if \<not> held then p
      else case answer of
          Some None \<Rightarrow> p\<lparr>pm_backlog := False\<rparr>
        | Some (Some ev) \<Rightarrow> p\<lparr>pm_pending := Some ev\<rparr>
        | None \<Rightarrow> p)"

section \<open>Calls and pumps interleaved\<close>

text \<open>The flag of a retired connection says whether its slot still held it.\<close>

datatype call =
    ConnectCall u32
  | ConnectRetire u32 nat
  | ConnectPublish u32 nat bool
  | ConnectTear u32 nat bool
  | ConnectJoin u32 nat
  | ConnectResume u32
  | ConnectEngine u32
  | ConnectInstall u32 nat
  | ConnectFailed EngineError
  | ConnectFailClear EngineError
  | ConnectReturned "(LaneError, unit) res"
  | DisconnectCall u32
  | DisconnectRetire u32 nat
  | DisconnectPublish u32 nat bool
  | DisconnectTear u32 nat bool
  | DisconnectJoin u32 nat
  | DisconnectTerminal
  | DisconnectClear
  | DisconnectReturned "(LaneRefusal, unit) res"
  | DrainCall
  | DrainLoop
  | DrainTake nat
  | DrainTear nat
  | DrainJoin nat
  | DrainClear
  | DrainReturned

text \<open>\<open>lw_live\<close> are the sessions of the engine that are not closed, \<open>lw_started\<close> who started each.\<close>

record LaneWorld =
  lw_lane :: LaneState
  lw_draining :: bool
  lw_core :: DaemonCore
  lw_slots :: "nat \<Rightarrow> bool"
  lw_pumps :: "nat \<Rightarrow> pump_pc option"
  lw_calls :: "nat \<Rightarrow> call option"
  lw_live :: "nat set"
  lw_started :: "nat \<Rightarrow> u32 option"
  lw_next :: nat

definition LaneWorld_start :: "DaemonCore \<Rightarrow> LaneWorld" where
  "LaneWorld_start core = \<lparr>lw_lane = LaneState_default, lw_draining = False, lw_core = core, lw_slots = (\<lambda>_. False),
     lw_pumps = (\<lambda>_. None), lw_calls = (\<lambda>_. None), lw_live = {}, lw_started = (\<lambda>_. None), lw_next = 0\<rparr>"

definition take_slot :: "nat \<Rightarrow> LaneWorld \<Rightarrow> bool \<times> LaneWorld" where
  "take_slot k w = (lw_slots w k, w\<lparr>lw_slots := (lw_slots w)(k := False)\<rparr>)"

definition close_session :: "nat \<Rightarrow> LaneWorld \<Rightarrow> LaneWorld" where
  "close_session k w = w\<lparr>lw_live := lw_live w - {k}\<rparr>"

definition announce :: "VpnState \<Rightarrow> LaneWorld \<Rightarrow> LaneWorld" where
  "announce v w = w\<lparr>lw_core := publish_state v (lw_core w)\<rparr>"

definition start_engine :: "EngineError option \<Rightarrow> u32 \<Rightarrow> LaneWorld \<Rightarrow> call \<times> LaneWorld" where
  "start_engine failure uid w =
     (case failure of
        Some e \<Rightarrow> (ConnectFailed e, w)
      | None \<Rightarrow>
          (ConnectInstall uid (lw_next w),
           w\<lparr>lw_live := insert (lw_next w) (lw_live w), lw_started := (lw_started w)(lw_next w \<mapsto> uid), lw_next := Suc (lw_next w)\<rparr>))"

definition install_connection :: "u32 \<Rightarrow> nat \<Rightarrow> LaneWorld \<Rightarrow> LaneWorld" where
  "install_connection uid k w = w\<lparr>lw_lane := connect_install uid k (lw_lane w), lw_slots := (lw_slots w)(k := True),
     lw_pumps := (lw_pumps w)(k \<mapsto> Receiving Pump_start)\<rparr>"

text \<open>The next step of a call; none while it has to wait, and after it returned.\<close>

fun connect_step :: "EngineError option \<Rightarrow> call \<Rightarrow> LaneWorld \<Rightarrow> (call \<times> LaneWorld) option" where
  "connect_step failure (ConnectCall uid) w =
     (case connect_begin uid (lw_draining w) (lw_lane w) of
        (Ok (Some k), lane) \<Rightarrow> Some (ConnectRetire uid k, w\<lparr>lw_lane := lane\<rparr>)
      | (Ok None, lane) \<Rightarrow> Some (ConnectResume uid, w\<lparr>lw_lane := lane\<rparr>)
      | (Err r, lane) \<Rightarrow> Some (ConnectReturned (Err (Refused r)), w\<lparr>lw_lane := lane\<rparr>)
      | (Panic, lane) \<Rightarrow> None)"
| "connect_step failure (ConnectRetire uid k) w = (let (taken, w) = take_slot k w in Some (ConnectPublish uid k taken, w))"
| "connect_step failure (ConnectPublish uid k taken) w = Some (ConnectTear uid k taken, announce VpnState.Disconnecting w)"
| "connect_step failure (ConnectTear uid k taken) w = Some (ConnectJoin uid k, if taken then close_session k w else w)"
| "connect_step failure (ConnectJoin uid k) w = (if lw_pumps w k = None then Some (ConnectResume uid, w) else None)"
| "connect_step failure (ConnectResume uid) w =
     (case connect_resume (lw_draining w) (lw_lane w) of
        (Ok _, lane) \<Rightarrow> Some (ConnectEngine uid, w\<lparr>lw_lane := lane\<rparr>)
      | (Err r, lane) \<Rightarrow> Some (ConnectReturned (Err (Refused r)), w\<lparr>lw_lane := lane\<rparr>)
      | (Panic, lane) \<Rightarrow> None)"
| "connect_step failure (ConnectEngine uid) w = Some (start_engine failure uid w)"
| "connect_step failure (ConnectInstall uid k) w = Some (ConnectReturned (Ok ()), install_connection uid k w)"
| "connect_step failure (ConnectFailed e) w = Some (ConnectFailClear e, announce VpnState.Disconnected w)"
| "connect_step failure (ConnectFailClear e) w =
     Some (ConnectReturned (Err (EngineFailure e)), w\<lparr>lw_lane := (lw_lane w)\<lparr>ls_reconnecting := False\<rparr>\<rparr>)"
| "connect_step failure _ w = None"

fun disconnect_step :: "call \<Rightarrow> LaneWorld \<Rightarrow> (call \<times> LaneWorld) option" where
  "disconnect_step (DisconnectCall uid) w =
     (case disconnect_begin uid (lw_draining w) (lw_lane w) of
        (Ok (Some k), lane) \<Rightarrow> Some (DisconnectRetire uid k, w\<lparr>lw_lane := lane\<rparr>)
      | (Ok None, lane) \<Rightarrow> Some (DisconnectReturned (Ok ()), w\<lparr>lw_lane := lane\<rparr>)
      | (Err r, lane) \<Rightarrow> Some (DisconnectReturned (Err r), w\<lparr>lw_lane := lane\<rparr>)
      | (Panic, lane) \<Rightarrow> None)"
| "disconnect_step (DisconnectRetire uid k) w = (let (taken, w) = take_slot k w in Some (DisconnectPublish uid k taken, w))"
| "disconnect_step (DisconnectPublish uid k taken) w = Some (DisconnectTear uid k taken, announce VpnState.Disconnecting w)"
| "disconnect_step (DisconnectTear uid k taken) w = Some (DisconnectJoin uid k, if taken then close_session k w else w)"
| "disconnect_step (DisconnectJoin uid k) w = (if lw_pumps w k = None then Some (DisconnectTerminal, w) else None)"
| "disconnect_step DisconnectTerminal w = Some (DisconnectClear, announce VpnState.Disconnected w)"
| "disconnect_step DisconnectClear w = Some (DisconnectReturned (Ok ()), w\<lparr>lw_lane := (lw_lane w)\<lparr>ls_disconnecting := False\<rparr>\<rparr>)"
| "disconnect_step _ w = None"

fun drain_step :: "call \<Rightarrow> LaneWorld \<Rightarrow> (call \<times> LaneWorld) option" where
  "drain_step DrainCall w = Some (DrainLoop, w\<lparr>lw_draining := True\<rparr>)"
| "drain_step DrainLoop w =
     (case drain_turn (lw_lane w) of
        None \<Rightarrow> None
      | Some (Some k, lane) \<Rightarrow> Some (DrainTake k, w\<lparr>lw_lane := lane\<rparr>)
      | Some (None, lane) \<Rightarrow> Some (DrainReturned, w\<lparr>lw_lane := lane\<rparr>))"
| "drain_step (DrainTake k) w = (let (taken, w) = take_slot k w in Some (if taken then DrainTear k else DrainJoin k, w))"
| "drain_step (DrainTear k) w = Some (DrainJoin k, close_session k w)"
| "drain_step (DrainJoin k) w = (if lw_pumps w k = None then Some (DrainClear, w) else None)"
| "drain_step DrainClear w = Some (DrainReturned, w\<lparr>lw_lane := (lw_lane w)\<lparr>ls_drain_in_progress := False\<rparr>\<rparr>)"
| "drain_step _ w = None"

text \<open>The next step of the pump of connection \<open>k\<close>.\<close>

fun pump_step :: "Answers \<Rightarrow> nat \<Rightarrow> pump_pc \<Rightarrow> LaneWorld \<Rightarrow> pump_pc option \<times> LaneWorld" where
  "pump_step a k (Receiving p) w = (receive_arm (lw_slots w k) (an_receipt a) p, w)"
| "pump_step a k (Reconciling ev p) w =
     (let (pc, core) = reconcile_arm (lw_slots w k) (an_surfaces a) (lw_core w) p (Handling ev) in (Some pc, w\<lparr>lw_core := core\<rparr>))"
| "pump_step a k (Handling ev p) w =
     (let (pc, core) = handle_event (lw_slots w k) ev (lw_core w) p in (Some pc, w\<lparr>lw_core := core\<rparr>))"
| "pump_step a k (Concluding p) w =
     (let (pc, core) = reconcile_arm (lw_slots w k) (an_surfaces a) (lw_core w) p Receiving in (Some pc, w\<lparr>lw_core := core\<rparr>))"
| "pump_step a k (Quiet p) w =
     (let (pc, core) = reconcile_arm (lw_slots w k) (an_surfaces a) (lw_core w) p Probing in (Some pc, w\<lparr>lw_core := core\<rparr>))"
| "pump_step a k (Probing p) w = (Some (Receiving (probe_arm (lw_slots w k) (an_probe a) p)), w)"
| "pump_step a k Terminating w = (let (taken, w) = take_slot k w in (if taken then Some Tearing else None, w))"
| "pump_step a k Tearing w = (Some Announcing, close_session k w)"
| "pump_step a k Announcing w = (Some Retiring, announce VpnState.Disconnected w)"
| "pump_step a k Retiring w = (None, w\<lparr>lw_lane := retire_lane k (lw_lane w)\<rparr>)"

definition call_step :: "EngineError option \<Rightarrow> call \<Rightarrow> LaneWorld \<Rightarrow> (call \<times> LaneWorld) option" where
  "call_step failure c w =
     (case connect_step failure c w of
        Some r \<Rightarrow> Some r
      | None \<Rightarrow> (case disconnect_step c w of Some r \<Rightarrow> Some r | None \<Rightarrow> drain_step c w))"

inductive lane_step :: "LaneWorld \<Rightarrow> LaneWorld \<Rightarrow> bool" where
  called: "lane_step w (w\<lparr>lw_calls := (lw_calls w)(c \<mapsto> pc)\<rparr>)"
    if "lw_calls w c = None" "pc \<in> {ConnectCall uid, DisconnectCall uid, DrainCall}"
| advanced: "lane_step w (w'\<lparr>lw_calls := (lw_calls w')(c \<mapsto> pc')\<rparr>)"
    if "lw_calls w c = Some pc" "call_step failure pc w = Some (pc', w')"
| pumped: "lane_step w (w'\<lparr>lw_pumps := (lw_pumps w')(k := pc')\<rparr>)"
    if "lw_pumps w k = Some pc" "pump_step a k pc w = (pc', w')"

inductive lane_reach :: "LaneWorld \<Rightarrow> bool" where
  lane_init: "lane_reach (LaneWorld_start core)" if "dc_vpn_state core = VpnState.Disconnected"
| lane_more: "lane_reach w \<Longrightarrow> lane_step w w' \<Longrightarrow> lane_reach w'"

end
