(* ===== verification/Connection_Lane_Props.thy ===== *)
theory Connection_Lane_Props
  imports Connection_Lane
begin

text \<open>
  What the interleavings of \<open>connect\<close>, \<open>disconnect\<close>, \<open>drain\<close> and the pumps preserve: the windows
  exclude each other, every live session is somewhere, and the published state is not stale.
\<close>

section \<open>Where a call is\<close>

fun in_connect :: "call \<Rightarrow> bool" where
  "in_connect (ConnectRetire uid k) = True"
| "in_connect (ConnectPublish uid k t) = True"
| "in_connect (ConnectTear uid k t) = True"
| "in_connect (ConnectJoin uid k) = True"
| "in_connect (ConnectResume uid) = True"
| "in_connect (ConnectEngine uid) = True"
| "in_connect (ConnectInstall uid k) = True"
| "in_connect (ConnectFailed e) = True"
| "in_connect (ConnectFailClear e) = True"
| "in_connect _ = False"

fun in_disconnect :: "call \<Rightarrow> bool" where
  "in_disconnect (DisconnectRetire uid k) = True"
| "in_disconnect (DisconnectPublish uid k t) = True"
| "in_disconnect (DisconnectTear uid k t) = True"
| "in_disconnect (DisconnectJoin uid k) = True"
| "in_disconnect DisconnectTerminal = True"
| "in_disconnect DisconnectClear = True"
| "in_disconnect _ = False"

fun in_drain :: "call \<Rightarrow> bool" where
  "in_drain (DrainTake k) = True"
| "in_drain (DrainTear k) = True"
| "in_drain (DrainJoin k) = True"
| "in_drain DrainClear = True"
| "in_drain _ = False"

definition in_window :: "call \<Rightarrow> bool" where
  "in_window pc \<longleftrightarrow> in_connect pc \<or> in_disconnect pc \<or> in_drain pc"

text \<open>The connection a call deals with, the one it has taken out, and the one whose slot it emptied.\<close>

fun concerns :: "call \<Rightarrow> nat option" where
  "concerns (ConnectRetire uid k) = Some k"
| "concerns (ConnectPublish uid k t) = Some k"
| "concerns (ConnectTear uid k t) = Some k"
| "concerns (ConnectJoin uid k) = Some k"
| "concerns (ConnectInstall uid k) = Some k"
| "concerns (DisconnectRetire uid k) = Some k"
| "concerns (DisconnectPublish uid k t) = Some k"
| "concerns (DisconnectTear uid k t) = Some k"
| "concerns (DisconnectJoin uid k) = Some k"
| "concerns (DrainTake k) = Some k"
| "concerns (DrainTear k) = Some k"
| "concerns (DrainJoin k) = Some k"
| "concerns _ = None"

fun in_hand :: "call \<Rightarrow> nat option" where
  "in_hand (ConnectPublish uid k t) = (if t then Some k else None)"
| "in_hand (ConnectTear uid k t) = (if t then Some k else None)"
| "in_hand (ConnectInstall uid k) = Some k"
| "in_hand (DisconnectPublish uid k t) = (if t then Some k else None)"
| "in_hand (DisconnectTear uid k t) = (if t then Some k else None)"
| "in_hand (DrainTear k) = Some k"
| "in_hand _ = None"

fun emptied :: "call \<Rightarrow> nat option" where
  "emptied (ConnectRetire uid k) = None"
| "emptied (DisconnectRetire uid k) = None"
| "emptied (DrainTake k) = None"
| "emptied pc = concerns pc"

fun acts_for :: "call \<Rightarrow> u32 option" where
  "acts_for (ConnectRetire uid k) = Some uid"
| "acts_for (ConnectPublish uid k t) = Some uid"
| "acts_for (ConnectTear uid k t) = Some uid"
| "acts_for (ConnectJoin uid k) = Some uid"
| "acts_for (ConnectInstall uid k) = Some uid"
| "acts_for (DisconnectRetire uid k) = Some uid"
| "acts_for (DisconnectPublish uid k t) = Some uid"
| "acts_for (DisconnectTear uid k t) = Some uid"
| "acts_for (DisconnectJoin uid k) = Some uid"
| "acts_for _ = None"

definition drain_begun :: "call \<Rightarrow> bool" where
  "drain_begun pc \<longleftrightarrow> pc = DrainLoop \<or> pc = DrainReturned \<or> in_drain pc"

definition claimed :: "pump_pc \<Rightarrow> bool" where
  "claimed pc \<longleftrightarrow> pc = Tearing \<or> pc = Announcing \<or> pc = Retiring"

lemma concerns_in_window: "concerns pc = Some k \<Longrightarrow> in_window pc"
  by (cases pc) (simp_all add: in_window_def)

lemma in_hand_concerns: "in_hand pc = Some k \<Longrightarrow> concerns pc = Some k"
  by (cases pc) (simp_all split: if_splits)

lemma emptied_concerns: "emptied pc = Some k \<Longrightarrow> concerns pc = Some k"
  by (cases pc) simp_all

lemma in_hand_emptied: "in_hand pc = Some k \<Longrightarrow> emptied pc = Some k"
  by (cases pc) (simp_all split: if_splits)

lemmas lane_sections = connect_begin_def connect_resume_def connect_install_def disconnect_begin_def disconnect_refusal_def
  drain_turn_def drain_waits_def gate_owner_def retire_lane_def take_slot_def close_session_def announce_def
  start_engine_def install_connection_def

lemmas lane_splits = res.splits option.splits prod.splits if_splits

section \<open>Windows exclude each other\<close>

definition flags_ok :: "LaneWorld \<Rightarrow> call \<Rightarrow> bool" where
  "flags_ok w pc \<longleftrightarrow>
     (in_connect pc \<longrightarrow> ls_reconnecting (lw_lane w)) \<and> (in_disconnect pc \<longrightarrow> ls_disconnecting (lw_lane w)) \<and>
     (in_drain pc \<longrightarrow> ls_drain_in_progress (lw_lane w)) \<and> (drain_begun pc \<longrightarrow> lw_draining w) \<and>
     (in_window pc \<longrightarrow> ls_active (lw_lane w) = None)"

definition one_window :: "(nat \<Rightarrow> call option) \<Rightarrow> bool" where
  "one_window cs \<longleftrightarrow>
     (\<forall>c pc d qc. cs c = Some pc \<longrightarrow> cs d = Some qc \<longrightarrow> in_window pc \<longrightarrow> in_window qc \<longrightarrow> c = d)"

definition windows_inv :: "LaneWorld \<Rightarrow> bool" where
  "windows_inv w \<longleftrightarrow> (\<forall>c pc. lw_calls w c = Some pc \<longrightarrow> flags_ok w pc) \<and> one_window (lw_calls w) \<and>
     (ls_active (lw_lane w) = None \<longleftrightarrow> ls_owner (lw_lane w) = None)"

lemma windows_invD:
  assumes "windows_inv w"
  shows "lw_calls w c = Some pc \<Longrightarrow> flags_ok w pc"
    "lw_calls w c = Some pc \<Longrightarrow> lw_calls w d = Some qc \<Longrightarrow> in_window pc \<Longrightarrow> in_window qc \<Longrightarrow> c = d"
    "ls_active (lw_lane w) = None \<longleftrightarrow> ls_owner (lw_lane w) = None"
  using assms by (auto simp: windows_inv_def one_window_def)

definition others_idle :: "nat \<Rightarrow> LaneWorld \<Rightarrow> bool" where
  "others_idle c w \<longleftrightarrow> (\<forall>d qc. d \<noteq> c \<longrightarrow> lw_calls w d = Some qc \<longrightarrow> \<not> in_window qc)"

text \<open>A step inside a window, into one or out of one finds no other call in a window.\<close>

lemma opening_clear:
  assumes "call_step failure pc w = Some (pc', w')" "\<not> in_window pc" "in_window pc'"
  shows "\<not> ls_reconnecting (lw_lane w) \<and> \<not> ls_disconnecting (lw_lane w) \<and> (lw_draining w \<longrightarrow> \<not> ls_drain_in_progress (lw_lane w))"
  using assms by (cases pc) (auto simp: call_step_def lane_sections in_window_def Let_def split: lane_splits)

lemma step_alone:
  assumes i: "windows_inv w" and c: "lw_calls w c = Some pc" and s: "call_step failure pc w = Some (pc', w')"
    and "in_window pc \<or> in_window pc'"
  shows "others_idle c w"
proof (cases "in_window pc")
  case True
  with windows_invD(2) [OF i] c show ?thesis unfolding others_idle_def by metis
next
  case False
  with assms(4) have clear: "\<not> ls_reconnecting (lw_lane w) \<and> \<not> ls_disconnecting (lw_lane w) \<and> (lw_draining w \<longrightarrow> \<not> ls_drain_in_progress (lw_lane w))"
    using opening_clear [OF s] by blast
  have "\<not> in_window qc" if "lw_calls w d = Some qc" for d qc
    using windows_invD(1) [OF i that] clear by (auto simp: flags_ok_def in_window_def drain_begun_def)
  then show ?thesis by (simp add: others_idle_def)
qed

lemma call_step_frame:
  "call_step failure pc w = Some (pc', w') \<Longrightarrow> lw_calls w' = lw_calls w \<and> lw_pumps w' k \<in> {lw_pumps w k, Some (Receiving Pump_start)}"
  by (cases pc) (auto simp: call_step_def lane_sections Let_def split: lane_splits)

lemma flags_ok_others:
  assumes i: "windows_inv w" and c: "lw_calls w c = Some pc" and s: "call_step failure pc w = Some (pc', w')"
    and d: "lw_calls w d = Some qc" "d \<noteq> c"
  shows "flags_ok w' qc"
proof -
  have "lw_draining w \<longrightarrow> lw_draining w'"
    using s by (cases pc) (auto simp: call_step_def lane_sections Let_def split: lane_splits)
  with windows_invD(1) [OF i d(1)] have drained: "drain_begun qc \<longrightarrow> lw_draining w'" by (simp add: flags_ok_def)
  show ?thesis
  proof (cases "in_window pc \<or> in_window pc'")
    case True
    then have "\<not> in_window qc" using step_alone [OF i c s] d by (auto simp: others_idle_def)
    with drained show ?thesis by (simp add: flags_ok_def in_window_def)
  next
    case False
    have "ls_reconnecting (lw_lane w') = ls_reconnecting (lw_lane w)" "ls_disconnecting (lw_lane w') = ls_disconnecting (lw_lane w)"
      "ls_drain_in_progress (lw_lane w') = ls_drain_in_progress (lw_lane w)" "ls_active (lw_lane w') = ls_active (lw_lane w)"
      using s False by (cases pc; auto simp: call_step_def lane_sections in_window_def Let_def split: lane_splits)+
    with windows_invD(1) [OF i d(1)] drained show ?thesis by (simp add: flags_ok_def)
  qed
qed

lemma flags_ok_own:
  assumes "flags_ok w pc" and s: "call_step failure pc w = Some (pc', w')"
  shows "flags_ok w' pc'"
  using assms
  by (cases pc) (auto simp: flags_ok_def call_step_def lane_sections in_window_def drain_begun_def Let_def split: lane_splits)

lemma one_window_upd:
  assumes "one_window cs" "in_window pc' \<Longrightarrow> (\<forall>d qc. d \<noteq> c \<longrightarrow> cs d = Some qc \<longrightarrow> \<not> in_window qc)"
  shows "one_window (cs(c \<mapsto> pc'))"
  using assms unfolding one_window_def by (metis fun_upd_apply option.inject)

lemma windows_inv_call:
  assumes i: "windows_inv w" and c: "lw_calls w c = Some pc" and s: "call_step failure pc w = Some (pc', w')"
  shows "windows_inv (w'\<lparr>lw_calls := (lw_calls w')(c \<mapsto> pc')\<rparr>)"
proof -
  have same: "lw_calls w' = lw_calls w" using call_step_frame [OF s] by blast
  have "(ls_active (lw_lane w) = None \<longleftrightarrow> ls_owner (lw_lane w) = None) \<and> (in_window pc \<longrightarrow> ls_active (lw_lane w) = None)"
    using windows_invD(1,3) [OF i] c by (simp add: flags_ok_def)
  then have "ls_active (lw_lane w') = None \<longleftrightarrow> ls_owner (lw_lane w') = None"
    using s by (cases pc) (auto simp: call_step_def lane_sections in_window_def Let_def split: lane_splits)
  moreover have "one_window ((lw_calls w)(c \<mapsto> pc'))"
    using i step_alone [OF i c s] by (intro one_window_upd) (auto simp: windows_inv_def others_idle_def)
  moreover have "flags_ok (w'\<lparr>lw_calls := q\<rparr>) p" if "((lw_calls w)(c \<mapsto> pc')) d = Some p" for d p q
  proof -
    have "flags_ok w' p"
      using that flags_ok_own [OF windows_invD(1) [OF i c] s] flags_ok_others [OF i c s, of d p] by (cases "d = c") simp_all
    then show ?thesis by (simp add: flags_ok_def)
  qed
  ultimately show ?thesis by (simp add: windows_inv_def same)
qed

lemma pump_step_frame:
  "pump_step a k pc w = (pc', w') \<Longrightarrow> lw_calls w' = lw_calls w \<and> lw_pumps w' = lw_pumps w \<and> lw_draining w' = lw_draining w \<and>
     lw_started w' = lw_started w \<and> lw_next w' = lw_next w \<and>
     lw_lane w' = (if pc = Retiring then retire_lane k (lw_lane w) else lw_lane w) \<and>
     lw_slots w' = (if pc = Terminating then (lw_slots w)(k := False) else lw_slots w) \<and>
     lw_live w' = (if pc = Tearing then lw_live w - {k} else lw_live w)"
  by (cases pc) (auto simp: take_slot_def close_session_def announce_def Let_def split: prod.splits)

lemma windows_inv_pump:
  assumes "windows_inv w" "pump_step a k pc w = (pc', w')"
  shows "windows_inv (w'\<lparr>lw_pumps := q\<rparr>)"
  using assms(1) pump_step_frame [OF assms(2)] by (auto simp: windows_inv_def flags_ok_def retire_lane_def split: if_splits)

lemma windows_inv_called:
  assumes "windows_inv w" "lw_calls w c = None" "pc \<in> {ConnectCall uid, DisconnectCall uid, DrainCall}"
  shows "windows_inv (w\<lparr>lw_calls := (lw_calls w)(c \<mapsto> pc)\<rparr>)"
proof -
  have "\<not> in_window pc" "\<not> drain_begun pc" using assms(3) by (auto simp: in_window_def drain_begun_def)
  then have "flags_ok w pc" "one_window ((lw_calls w)(c \<mapsto> pc))"
    using assms(1) by (auto simp: flags_ok_def in_window_def windows_inv_def intro: one_window_upd)
  with assms(1) show ?thesis by (auto simp: windows_inv_def flags_ok_def split: if_splits)
qed

section \<open>Where a session is\<close>

definition current :: "LaneWorld \<Rightarrow> nat \<Rightarrow> bool" where
  "current w k \<longleftrightarrow> ls_active (lw_lane w) = Some k \<or> (\<exists>c pc. lw_calls w c = Some pc \<and> concerns pc = Some k)"

definition active_inv :: "LaneWorld \<Rightarrow> bool" where
  "active_inv w \<longleftrightarrow> (\<forall>k. ls_active (lw_lane w) = Some k \<longrightarrow>
     (\<exists>pc. lw_pumps w k = Some pc \<and> (lw_slots w k \<longleftrightarrow> \<not> claimed pc)) \<and> lw_started w k = ls_owner (lw_lane w))"

definition place_ok :: "LaneWorld \<Rightarrow> call \<Rightarrow> bool" where
  "place_ok w pc \<longleftrightarrow>
     (\<forall>k. emptied pc = Some k \<longrightarrow> \<not> lw_slots w k) \<and>
     (\<forall>k uid. concerns pc = Some k \<longrightarrow> acts_for pc = Some uid \<longrightarrow> lw_started w k = Some uid) \<and>
     (\<forall>uid k. pc = ConnectInstall uid k \<longrightarrow> lw_pumps w k = None)"

lemma place_ok_idle: "\<not> in_window pc \<Longrightarrow> place_ok w pc"
  using concerns_in_window emptied_concerns by (fastforce simp: place_ok_def in_window_def)

definition place_inv :: "LaneWorld \<Rightarrow> bool" where
  "place_inv w \<longleftrightarrow>
     (\<forall>k \<in> lw_live w. lw_slots w k \<or> lw_pumps w k = Some Tearing \<or> (\<exists>c pc. lw_calls w c = Some pc \<and> in_hand pc = Some k)) \<and>
     (\<forall>k. lw_slots w k \<or> lw_pumps w k \<noteq> None \<longrightarrow> current w k) \<and>
     (\<forall>k pc. lw_pumps w k = Some pc \<longrightarrow> claimed pc \<longrightarrow> \<not> lw_slots w k) \<and>
     (\<forall>k. current w k \<longrightarrow> k < lw_next w) \<and>
     (\<forall>c pc. lw_calls w c = Some pc \<longrightarrow> place_ok w pc)"

text \<open>For a call that is alone, the quantifiers reduce to its own place.\<close>

lemma current_alone:
  assumes "others_idle c w" "lw_calls w c = Some pc"
  shows "current w k \<longleftrightarrow> ls_active (lw_lane w) = Some k \<or> concerns pc = Some k"
  using assms unfolding current_def others_idle_def by (metis concerns_in_window option.inject)

lemma others_idle_upd:
  "others_idle c w \<Longrightarrow> lw_calls w' = (lw_calls w)(c \<mapsto> pc') \<Longrightarrow> others_idle c w'"
  by (simp add: others_idle_def)

lemma in_hand_alone:
  assumes "others_idle c w" "lw_calls w c = Some pc"
  shows "(\<exists>d q. lw_calls w d = Some q \<and> in_hand q = Some k) \<longleftrightarrow> in_hand pc = Some k"
  using assms unfolding others_idle_def by (metis concerns_in_window in_hand_concerns option.inject)

definition place_alone :: "LaneWorld \<Rightarrow> call \<Rightarrow> bool" where
  "place_alone w pc \<longleftrightarrow>
     (\<forall>k \<in> lw_live w. lw_slots w k \<or> lw_pumps w k = Some Tearing \<or> in_hand pc = Some k) \<and>
     (\<forall>k. lw_slots w k \<or> lw_pumps w k \<noteq> None \<longrightarrow> ls_active (lw_lane w) = Some k \<or> concerns pc = Some k) \<and>
     (\<forall>k q. lw_pumps w k = Some q \<longrightarrow> claimed q \<longrightarrow> \<not> lw_slots w k) \<and>
     (\<forall>k. ls_active (lw_lane w) = Some k \<or> concerns pc = Some k \<longrightarrow> k < lw_next w) \<and> place_ok w pc"

lemma place_alone_iff:
  assumes "others_idle c w" "lw_calls w c = Some pc"
  shows "place_inv w \<longleftrightarrow> place_alone w pc"
proof -
  have "(\<forall>d q. lw_calls w d = Some q \<longrightarrow> place_ok w q) \<longleftrightarrow> place_ok w pc"
    using assms place_ok_idle unfolding others_idle_def by (metis option.inject)
  then show ?thesis
    unfolding place_inv_def place_alone_def current_alone [OF assms] in_hand_alone [OF assms] by simp
qed

text \<open>How a window opens.\<close>

lemma connect_opens:
  assumes "call_step failure (ConnectCall uid) w = Some (pc', w')" "in_window pc'"
  shows "\<not> lw_draining w \<and> (ls_owner (lw_lane w) = None \<or> ls_owner (lw_lane w) = Some uid) \<and>
    w' = w\<lparr>lw_lane := (lw_lane w)\<lparr>ls_reconnecting := True, ls_active := None, ls_owner := None\<rparr>\<rparr> \<and>
    pc' = (case ls_active (lw_lane w) of Some k \<Rightarrow> ConnectRetire uid k | None \<Rightarrow> ConnectResume uid)"
  using assms by (auto simp: call_step_def connect_begin_def gate_owner_def in_window_def split: lane_splits)

lemma disconnect_opens:
  assumes "call_step failure (DisconnectCall uid) w = Some (pc', w')" "in_window pc'"
  shows "\<not> lw_draining w \<and> (ls_owner (lw_lane w) = None \<or> ls_owner (lw_lane w) = Some uid) \<and>
    (\<exists>k. ls_active (lw_lane w) = Some k \<and> pc' = DisconnectRetire uid k \<and>
      w' = w\<lparr>lw_lane := (lw_lane w)\<lparr>ls_active := None, ls_owner := None, ls_disconnecting := True\<rparr>\<rparr>)"
  using assms by (auto simp: call_step_def disconnect_begin_def disconnect_refusal_def gate_owner_def in_window_def Let_def split: lane_splits)

lemma drain_opens:
  assumes "call_step failure DrainLoop w = Some (pc', w')" "in_window pc'"
  shows "\<exists>k. ls_active (lw_lane w) = Some k \<and> pc' = DrainTake k \<and>
    w' = w\<lparr>lw_lane := (lw_lane w)\<lparr>ls_drain_in_progress := True, ls_owner := None, ls_active := None\<rparr>\<rparr>"
  using assms by (auto simp: call_step_def drain_turn_def in_window_def Let_def split: lane_splits)

lemma opening_calls:
  assumes "call_step failure pc w = Some (pc', w')" "\<not> in_window pc" "in_window pc'"
  shows "(\<exists>uid. pc = ConnectCall uid) \<or> (\<exists>uid. pc = DisconnectCall uid) \<or> pc = DrainLoop"
  using assms by (cases pc) (auto simp: call_step_def in_window_def)

lemma call_opens:
  assumes "call_step failure pc w = Some (pc', w')" "\<not> in_window pc" "in_window pc'"
  obtains (connect) uid k where "pc = ConnectCall uid" "pc' = ConnectRetire uid k" "ls_active (lw_lane w) = Some k"
      "ls_owner (lw_lane w) = None \<or> ls_owner (lw_lane w) = Some uid"
      "w' = w\<lparr>lw_lane := (lw_lane w)\<lparr>ls_reconnecting := True, ls_active := None, ls_owner := None\<rparr>\<rparr>" "\<not> lw_draining w"
  | (fresh) uid where "pc = ConnectCall uid" "pc' = ConnectResume uid" "ls_active (lw_lane w) = None"
      "w' = w\<lparr>lw_lane := (lw_lane w)\<lparr>ls_reconnecting := True, ls_active := None, ls_owner := None\<rparr>\<rparr>" "\<not> lw_draining w"
  | (disconnect) uid k where "pc = DisconnectCall uid" "pc' = DisconnectRetire uid k" "ls_active (lw_lane w) = Some k"
      "ls_owner (lw_lane w) = None \<or> ls_owner (lw_lane w) = Some uid"
      "w' = w\<lparr>lw_lane := (lw_lane w)\<lparr>ls_active := None, ls_owner := None, ls_disconnecting := True\<rparr>\<rparr>" "\<not> lw_draining w"
  | (drain) k where "pc = DrainLoop" "pc' = DrainTake k" "ls_active (lw_lane w) = Some k"
      "w' = w\<lparr>lw_lane := (lw_lane w)\<lparr>ls_drain_in_progress := True, ls_owner := None, ls_active := None\<rparr>\<rparr>"
proof -
  note o = opening_calls [OF assms]
  show thesis
  proof (cases "ls_active (lw_lane w)")
    case None
    with o assms connect_opens disconnect_opens drain_opens fresh show thesis by fastforce
  next
    case (Some k)
    from o consider uid where "pc = ConnectCall uid" | uid where "pc = DisconnectCall uid" | "pc = DrainLoop" by blast
    then show thesis
    proof cases
      case 1
      with connect_opens [of failure uid w pc' w'] assms Some show thesis by (intro connect) auto
    next
      case 2
      with disconnect_opens [of failure uid w pc' w'] assms Some show thesis by (intro disconnect) auto
    next
      case 3
      with drain_opens [of failure w pc' w'] assms Some show thesis by (intro drain) auto
    qed
  qed
qed

lemma place_alone_opens:
  assumes p: "place_alone w pc" and a: "active_inv w" and s: "call_step failure pc w = Some (pc', w')" "\<not> in_window pc" "in_window pc'"
    and own: "ls_active (lw_lane w) = None \<longleftrightarrow> ls_owner (lw_lane w) = None"
  shows "place_alone w' pc'"
proof -
  have none: "concerns pc = None" "in_hand pc = None" using s(2) concerns_in_window in_hand_concerns by (metis not_None_eq)+
  from s show ?thesis
  proof (cases rule: call_opens)
    case (connect uid k)
    with a own have "lw_started w k = Some uid" by (auto simp: active_inv_def)
    with p connect none show ?thesis by (auto simp: place_alone_def place_ok_def)
  next
    case (fresh uid)
    with p none show ?thesis by (auto simp: place_alone_def place_ok_def)
  next
    case (disconnect uid k)
    with a own have "lw_started w k = Some uid" by (auto simp: active_inv_def)
    with p disconnect none show ?thesis by (auto simp: place_alone_def place_ok_def)
  next
    case (drain k)
    with p none show ?thesis by (auto simp: place_alone_def place_ok_def)
  qed
qed

definition lane_empty :: "LaneWorld \<Rightarrow> bool" where
  "lane_empty w \<longleftrightarrow> (\<forall>k. \<not> lw_slots w k) \<and> (\<forall>k. lw_pumps w k = None) \<and> lw_live w = {} \<and> ls_active (lw_lane w) = None"

lemma place_alone_empty: "lane_empty w \<Longrightarrow> concerns pc = None \<Longrightarrow> place_alone w pc"
  using in_hand_concerns [of pc] emptied_concerns [of pc] by (fastforce simp: lane_empty_def place_alone_def place_ok_def)

lemma place_aloneD:
  assumes "place_alone w pc"
  shows "k \<in> lw_live w \<Longrightarrow> lw_slots w k \<or> lw_pumps w k = Some Tearing \<or> in_hand pc = Some k"
    "lw_slots w k \<Longrightarrow> ls_active (lw_lane w) = Some k \<or> concerns pc = Some k"
    "lw_pumps w k \<noteq> None \<Longrightarrow> ls_active (lw_lane w) = Some k \<or> concerns pc = Some k"
    "lw_pumps w k = Some q \<Longrightarrow> claimed q \<Longrightarrow> \<not> lw_slots w k"
    "ls_active (lw_lane w) = Some k \<or> concerns pc = Some k \<Longrightarrow> k < lw_next w" "place_ok w pc"
    "emptied pc = Some k \<Longrightarrow> \<not> lw_slots w k"
  using assms unfolding place_alone_def place_ok_def by blast+

lemma place_aloneI:
  assumes "\<And>k. k \<in> lw_live w \<Longrightarrow> lw_slots w k \<or> lw_pumps w k = Some Tearing \<or> in_hand pc = Some k"
    "\<And>k. lw_slots w k \<or> lw_pumps w k \<noteq> None \<Longrightarrow> ls_active (lw_lane w) = Some k \<or> concerns pc = Some k"
    "\<And>k q. lw_pumps w k = Some q \<Longrightarrow> claimed q \<Longrightarrow> \<not> lw_slots w k"
    "\<And>k. ls_active (lw_lane w) = Some k \<or> concerns pc = Some k \<Longrightarrow> k < lw_next w" "place_ok w pc"
  shows "place_alone w pc"
  using assms unfolding place_alone_def by blast

lemma lane_emptyI:
  assumes p: "place_alone w pc" and "ls_active (lw_lane w) = None" "in_hand pc = None"
    and "\<And>k. concerns pc = Some k \<Longrightarrow> lw_pumps w k = None \<and> emptied pc = Some k"
  shows "lane_empty w"
proof -
  have slots: "\<not> lw_slots w k" for k
    using place_aloneD(2,7) [OF p, of k] assms(2,4) by auto
  have pumps: "lw_pumps w k = None" for k
  proof (rule ccontr)
    assume "lw_pumps w k \<noteq> None"
    with place_aloneD(3) [OF p, of k] assms(2) assms(4) [of k] show False by simp
  qed
  have "k \<notin> lw_live w" for k using place_aloneD(1) [OF p, of k] assms(3) slots pumps by auto
  with slots pumps assms(2) show ?thesis by (auto simp: lane_empty_def)
qed

text \<open>Taking the connection out of its slot, and closing it.\<close>

lemma place_alone_take:
  assumes p: "place_alone w pc" and "ls_active (lw_lane w) = None" "concerns pc = Some k" "concerns pc' = Some k" "in_hand pc = None"
    and "in_hand pc' = (if lw_slots w k then Some k else None)" "acts_for pc' = acts_for pc" "\<And>uid. pc' \<noteq> ConnectInstall uid k"
  shows "place_alone (w\<lparr>lw_slots := (lw_slots w)(k := False)\<rparr>) pc'"
proof (rule place_aloneI)
  show "place_ok (w\<lparr>lw_slots := (lw_slots w)(k := False)\<rparr>) pc'"
    using place_aloneD(6) [OF p] assms(3,4,7,8) emptied_concerns [of pc'] by (fastforce simp: place_ok_def)
  fix j
  show "j \<in> lw_live (w\<lparr>lw_slots := (lw_slots w)(k := False)\<rparr>) \<Longrightarrow>
      lw_slots (w\<lparr>lw_slots := (lw_slots w)(k := False)\<rparr>) j \<or> lw_pumps (w\<lparr>lw_slots := (lw_slots w)(k := False)\<rparr>) j = Some Tearing \<or>
      in_hand pc' = Some j"
    using place_aloneD(1) [OF p, of j] assms(5,6) by auto
qed (use place_aloneD(2,3,4,5) [OF p] assms(3,4) in \<open>auto split: if_splits\<close>)

lemma place_alone_close:
  assumes p: "place_alone w pc" and "concerns pc = Some k" "concerns pc' = Some k" "in_hand pc \<noteq> None \<longrightarrow> live = lw_live w - {k}"
    "in_hand pc = None \<longrightarrow> live = lw_live w" and "in_hand pc' = None" "emptied pc = Some k" "acts_for pc' = acts_for pc" "\<And>uid. pc' \<noteq> ConnectInstall uid k"
  shows "place_alone (w\<lparr>lw_live := live\<rparr>) pc'"
proof (rule place_aloneI)
  show "place_ok (w\<lparr>lw_live := live\<rparr>) pc'"
    using place_aloneD(6,7) [OF p] assms(2,3,7,8,9) emptied_concerns [of pc'] by (fastforce simp: place_ok_def)
  fix j
  show "j \<in> lw_live (w\<lparr>lw_live := live\<rparr>) \<Longrightarrow>
      lw_slots (w\<lparr>lw_live := live\<rparr>) j \<or> lw_pumps (w\<lparr>lw_live := live\<rparr>) j = Some Tearing \<or> in_hand pc' = Some j"
    using place_aloneD(1) [OF p, of j] assms(2,4,5) in_hand_concerns [of pc j] by (cases "in_hand pc") auto
qed (use place_aloneD(2,3,4,5) [OF p] assms(2,3) in auto)

lemma place_alone_same:
  assumes "place_alone w pc" "lw_live w' = lw_live w" "lw_slots w' = lw_slots w" "lw_pumps w' = lw_pumps w" "lw_started w' = lw_started w"
    "lw_next w' = lw_next w" "ls_active (lw_lane w') = ls_active (lw_lane w)" "concerns pc' = concerns pc" "in_hand pc' = in_hand pc"
    "emptied pc' = emptied pc" "acts_for pc' = acts_for pc" "\<And>uid k. pc' \<noteq> ConnectInstall uid k"
  shows "place_alone w' pc'"
  using assms(1) by (simp add: place_alone_def place_ok_def assms(2-12))

lemma place_alone_within:
  assumes p: "place_alone w pc" and f: "ls_active (lw_lane w) = None" and s: "call_step failure pc w = Some (pc', w')" "in_window pc"
  shows "place_alone w' pc'"
proof (cases pc)
  case (ConnectInstall uid k)
  have "lw_pumps w j = None \<and> \<not> lw_slots w j \<and> (j \<in> lw_live w \<longrightarrow> j = k)" for j
    using place_aloneD(1,2,3) [OF p, of j] place_aloneD(6) [OF p] place_aloneD(7) [OF p, of k] f ConnectInstall
    by (cases "lw_pumps w j") (auto simp: place_ok_def)
  moreover from s ConnectInstall have "pc' = ConnectReturned (Ok ())" "w' = install_connection uid k w" by (simp_all add: call_step_def)
  ultimately show ?thesis
    using place_aloneD(5) [OF p, of k] ConnectInstall
    by (auto simp: place_alone_def place_ok_def install_connection_def connect_install_def claimed_def)
next
  case (ConnectEngine uid)
  with s have w: "(pc', w') = start_engine failure uid w" by (simp add: call_step_def)
  have empty: "lane_empty w" by (rule lane_emptyI [OF p f]) (simp_all add: ConnectEngine)
  show ?thesis
  proof (cases failure)
    case None
    with w have "pc' = ConnectInstall uid (lw_next w)" "w' = w\<lparr>lw_live := insert (lw_next w) (lw_live w),
        lw_started := (lw_started w)(lw_next w \<mapsto> uid), lw_next := Suc (lw_next w)\<rparr>" by (simp_all add: start_engine_def)
    with empty show ?thesis by (simp add: place_alone_def place_ok_def lane_empty_def)
  next
    case (Some e)
    with w have "pc' = ConnectFailed e" "w' = w" by (simp_all add: start_engine_def)
    with place_alone_empty [OF empty] show ?thesis by simp
  qed
next
  case (ConnectResume uid)
  have "lane_empty w" by (rule lane_emptyI [OF p f]) (simp_all add: ConnectResume)
  then have "lane_empty w'" "concerns pc' = None"
    using s ConnectResume by (auto simp: call_step_def connect_resume_def lane_empty_def split: if_splits)
  then show ?thesis by (rule place_alone_empty)
next
  case (ConnectJoin uid k)
  with s have "lw_pumps w k = None" "w' = w" "pc' = ConnectResume uid" by (simp_all add: call_step_def split: if_splits)
  with place_alone_empty [OF lane_emptyI [OF p f]] ConnectJoin show ?thesis by simp
next
  case (DisconnectJoin uid k)
  with s have "lw_pumps w k = None" "w' = w" "pc' = DisconnectTerminal" by (simp_all add: call_step_def split: if_splits)
  with place_alone_empty [OF lane_emptyI [OF p f]] DisconnectJoin show ?thesis by simp
next
  case (DrainJoin k)
  with s have "lw_pumps w k = None" "w' = w" "pc' = DrainClear" by (simp_all add: call_step_def split: if_splits)
  with place_alone_empty [OF lane_emptyI [OF p f]] DrainJoin show ?thesis by simp
next
  case (ConnectRetire uid k)
  with s have "w' = w\<lparr>lw_slots := (lw_slots w)(k := False)\<rparr>" "pc' = ConnectPublish uid k (lw_slots w k)"
    by (simp_all add: call_step_def take_slot_def)
  with place_alone_take [OF p f] ConnectRetire show ?thesis by simp
next
  case (DisconnectRetire uid k)
  with s have "w' = w\<lparr>lw_slots := (lw_slots w)(k := False)\<rparr>" "pc' = DisconnectPublish uid k (lw_slots w k)"
    by (simp_all add: call_step_def take_slot_def)
  with place_alone_take [OF p f] DisconnectRetire show ?thesis by simp
next
  case (DrainTake k)
  with s have "w' = w\<lparr>lw_slots := (lw_slots w)(k := False)\<rparr>" "pc' = (if lw_slots w k then DrainTear k else DrainJoin k)"
    by (simp_all add: call_step_def take_slot_def)
  with place_alone_take [OF p f, of k pc'] DrainTake show ?thesis by simp
next
  case (ConnectTear uid k t)
  with s have "w' = w\<lparr>lw_live := if t then lw_live w - {k} else lw_live w\<rparr>" "pc' = ConnectJoin uid k"
    by (auto simp: call_step_def close_session_def split: if_splits)
  with place_alone_close [OF p, of k pc'] ConnectTear show ?thesis by simp
next
  case (DisconnectTear uid k t)
  with s have "w' = w\<lparr>lw_live := if t then lw_live w - {k} else lw_live w\<rparr>" "pc' = DisconnectJoin uid k"
    by (auto simp: call_step_def close_session_def split: if_splits)
  with place_alone_close [OF p, of k pc'] DisconnectTear show ?thesis by simp
next
  case (DrainTear k)
  with s have "w' = w\<lparr>lw_live := lw_live w - {k}\<rparr>" "pc' = DrainJoin k" by (simp_all add: call_step_def close_session_def)
  with place_alone_close [OF p, of k pc'] DrainTear show ?thesis by simp
qed (use s in \<open>auto simp: call_step_def announce_def in_window_def intro!: place_alone_same [OF p]\<close>)

lemma active_inv_within:
  assumes "place_alone w pc" "ls_active (lw_lane w) = None" "call_step failure pc w = Some (pc', w')" "in_window pc"
  shows "active_inv w'"
proof (cases pc)
  case (ConnectInstall uid k)
  with assms(3) have w: "w' = install_connection uid k w" by (simp add: call_step_def)
  from assms(1) ConnectInstall show ?thesis
    by (auto simp: w active_inv_def place_alone_def place_ok_def install_connection_def connect_install_def claimed_def)
qed (use assms(2,3,4) in \<open>auto simp: active_inv_def call_step_def take_slot_def close_session_def announce_def connect_resume_def
  start_engine_def in_window_def Let_def split: if_splits option.splits\<close>)

text \<open>A step outside of every window leaves the places as they are.\<close>

lemma call_outside:
  assumes "call_step failure pc w = Some (pc', w')" "\<not> in_window pc" "\<not> in_window pc'"
    and "ls_active (lw_lane w) = None \<longleftrightarrow> ls_owner (lw_lane w) = None"
  shows "ls_active (lw_lane w') = ls_active (lw_lane w) \<and> ls_owner (lw_lane w') = ls_owner (lw_lane w) \<and> lw_slots w' = lw_slots w \<and>
    lw_pumps w' = lw_pumps w \<and> lw_live w' = lw_live w \<and> lw_started w' = lw_started w \<and> lw_next w' = lw_next w \<and> lw_core w' = lw_core w"
  using assms by (cases pc) (auto simp: call_step_def connect_begin_def disconnect_begin_def disconnect_refusal_def gate_owner_def
      drain_turn_def in_window_def Let_def split: lane_splits)

lemma idle_places: "\<not> in_window pc \<Longrightarrow> concerns pc = None \<and> in_hand pc = None"
  using concerns_in_window in_hand_concerns by (metis not_None_eq)

lemma place_inv_idle:
  assumes p: "place_inv w" and idle: "\<And>pc. lw_calls w c = Some pc \<Longrightarrow> \<not> in_window pc" "\<not> in_window pc'"
    and calls: "lw_calls w' = (lw_calls w)(c \<mapsto> pc')"
    and "ls_active (lw_lane w') = ls_active (lw_lane w)" "lw_slots w' = lw_slots w" "lw_pumps w' = lw_pumps w" "lw_live w' = lw_live w"
      "lw_started w' = lw_started w" "lw_next w' = lw_next w"
  shows "place_inv w'"
proof -
  have "(\<exists>d q. lw_calls w' d = Some q \<and> concerns q = Some k) \<longleftrightarrow> (\<exists>d q. lw_calls w d = Some q \<and> concerns q = Some k)"
    "(\<exists>d q. lw_calls w' d = Some q \<and> in_hand q = Some k) \<longleftrightarrow> (\<exists>d q. lw_calls w d = Some q \<and> in_hand q = Some k)" for k
    using idle idle_places unfolding calls by (metis fun_upd_apply option.distinct(1) option.inject)+
  moreover from this have "current w' k \<longleftrightarrow> current w k" for k unfolding current_def assms(5) by blast
  moreover have "place_ok w' q" if "lw_calls w' d = Some q" for d q
  proof (cases "d = c")
    case True
    with that calls idle(2) place_ok_idle show ?thesis by simp
  next
    case False
    with that calls p have "place_ok w q" by (simp add: place_inv_def)
    then show ?thesis by (simp add: place_ok_def assms(6,7,9))
  qed
  ultimately show ?thesis using p unfolding place_inv_def by (simp add: assms(6,7,8,10))
qed

definition lane_inv :: "LaneWorld \<Rightarrow> bool" where
  "lane_inv w \<longleftrightarrow> windows_inv w \<and> active_inv w \<and> place_inv w"

lemma lane_inv_called:
  assumes "lane_inv w" "lw_calls w c = None" "pc \<in> {ConnectCall uid, DisconnectCall uid, DrainCall}"
  shows "lane_inv (w\<lparr>lw_calls := (lw_calls w)(c \<mapsto> pc)\<rparr>)"
proof -
  have "place_inv (w\<lparr>lw_calls := (lw_calls w)(c \<mapsto> pc)\<rparr>)"
    by (rule place_inv_idle [where c = c and pc' = pc and w = w]) (use assms in \<open>auto simp: lane_inv_def in_window_def\<close>)
  with windows_inv_called [OF _ assms(2,3)] assms(1) show ?thesis by (simp add: lane_inv_def active_inv_def)
qed

lemma lane_inv_call:
  assumes i: "lane_inv w" and c: "lw_calls w c = Some pc" and s: "call_step failure pc w = Some (pc', w')"
  shows "lane_inv (w'\<lparr>lw_calls := (lw_calls w')(c \<mapsto> pc')\<rparr>)"
proof -
  from i have win: "windows_inv w" and act: "active_inv w" and place: "place_inv w" by (simp_all add: lane_inv_def)
  have same: "lw_calls w' = lw_calls w" using call_step_frame [OF s] by blast
  let ?w = "w'\<lparr>lw_calls := (lw_calls w')(c \<mapsto> pc')\<rparr>"
  note own = windows_invD(3) [OF win]
  have "active_inv ?w \<and> place_inv ?w"
  proof (cases "in_window pc \<or> in_window pc'")
    case True
    note alone = step_alone [OF win c s True]
    from place place_alone_iff [OF alone c] have p: "place_alone w pc" by simp
    have "place_alone w' pc' \<and> active_inv w'"
    proof (cases "in_window pc")
      case True
      then have "ls_active (lw_lane w) = None" using windows_invD(1) [OF win c] by (simp add: flags_ok_def)
      with place_alone_within [OF p _ s True] active_inv_within [OF p _ s True] show ?thesis by blast
    next
      case False
      with True have o: "in_window pc'" by blast
      from s False o have "active_inv w'" by (cases rule: call_opens) (simp_all add: active_inv_def)
      with place_alone_opens [OF p act s False o own] show ?thesis by blast
    qed
    moreover have "others_idle c ?w" by (rule others_idle_upd [OF alone]) (simp add: same)
    ultimately show ?thesis using place_alone_iff [of c ?w pc'] by (simp add: active_inv_def place_alone_def place_ok_def)
  next
    case False
    then have o: "\<not> in_window pc" "\<not> in_window pc'" by auto
    note out = call_outside [OF s o own]
    have "place_inv ?w"
      by (rule place_inv_idle [OF place, where c = c and pc' = pc']) (use out o c same in simp_all)
    with act out show ?thesis by (simp add: active_inv_def)
  qed
  with windows_inv_call [OF win c s] show ?thesis by (simp add: lane_inv_def)
qed

section \<open>Steps of a pump\<close>

lemma reconcile_arm_pc: "reconcile_arm held c core p continue = (pc, core') \<Longrightarrow> pc = Terminating \<or> (\<exists>q. pc = continue q)"
  by (auto simp: reconcile_arm_def split: prod.splits if_splits)

lemma handle_event_pc: "handle_event held ev core p = (pc, core') \<Longrightarrow> \<not> claimed pc"
  by (auto simp: handle_event_def claimed_def Let_def split: EngineEvent.splits if_splits prod.splits)

lemma pump_stays:
  assumes "pump_step a k pc w = (Some q, w')" "\<not> claimed pc" "pc \<noteq> Terminating"
  shows "\<not> claimed q"
  using assms by (cases pc)
    (auto simp: claimed_def receive_arm_def split: prod.splits option.splits if_splits receipt.splits
      dest!: reconcile_arm_pc handle_event_pc)

lemma pump_claims:
  assumes "pump_step a k pc w = (pc', w')" "pc = Terminating"
  shows "pc' = (if lw_slots w k then Some Tearing else None)"
  using assms by (auto simp: take_slot_def Let_def)

lemma pump_ends:
  assumes "pump_step a k pc w = (None, w')" "\<not> claimed pc"
  shows "\<not> lw_slots w k"
  using assms by (cases pc)
    (auto simp: claimed_def receive_arm_def take_slot_def Let_def split: prod.splits option.splits if_splits receipt.splits)

lemma place_invD:
  assumes "place_inv w"
  shows "k \<in> lw_live w \<Longrightarrow> lw_slots w k \<or> lw_pumps w k = Some Tearing \<or> (\<exists>c pc. lw_calls w c = Some pc \<and> in_hand pc = Some k)"
    "lw_slots w k \<Longrightarrow> current w k" "lw_pumps w k \<noteq> None \<Longrightarrow> current w k"
    "lw_pumps w k = Some q \<Longrightarrow> claimed q \<Longrightarrow> \<not> lw_slots w k" "current w k \<Longrightarrow> k < lw_next w" "lw_calls w c = Some pc \<Longrightarrow> place_ok w pc"
  using assms unfolding place_inv_def by blast+

lemma place_invI:
  assumes "\<And>k. k \<in> lw_live w \<Longrightarrow> lw_slots w k \<or> lw_pumps w k = Some Tearing \<or> (\<exists>c pc. lw_calls w c = Some pc \<and> in_hand pc = Some k)"
    "\<And>k. lw_slots w k \<or> lw_pumps w k \<noteq> None \<Longrightarrow> current w k"
    "\<And>k q. lw_pumps w k = Some q \<Longrightarrow> claimed q \<Longrightarrow> \<not> lw_slots w k" "\<And>k. current w k \<Longrightarrow> k < lw_next w"
    "\<And>c pc. lw_calls w c = Some pc \<Longrightarrow> place_ok w pc"
  shows "place_inv w"
  using assms unfolding place_inv_def by blast

lemma current_pump:
  assumes f: "lw_calls w' = lw_calls w" "lw_lane w' = (if pc = Retiring then retire_lane k (lw_lane w) else lw_lane w)"
  shows "current w' j \<Longrightarrow> current w j" "current w j \<Longrightarrow> j \<noteq> k \<or> pc \<noteq> Retiring \<Longrightarrow> current w' j"
  using f by (auto simp: current_def retire_lane_def split: if_splits)

lemma place_inv_pump:
  assumes p: "place_inv w" and k: "lw_pumps w k = Some pc" and s: "pump_step a k pc w = (pc', w')"
  shows "place_inv (w'\<lparr>lw_pumps := (lw_pumps w')(k := pc')\<rparr>)"
proof -
  let ?w = "w'\<lparr>lw_pumps := (lw_pumps w')(k := pc')\<rparr>"
  note f = pump_step_frame [OF s]
  have calls: "lw_calls ?w = lw_calls w" and lane: "lw_lane ?w = (if pc = Retiring then retire_lane k (lw_lane w) else lw_lane w)"
    using f by simp_all
  note cur = current_pump [OF calls lane]
  have retired: "pc' = None \<and> \<not> lw_slots w k" if "pc = Retiring"
    using that s place_invD(4) [OF p k] by (auto simp: claimed_def)
  show ?thesis
  proof (rule place_invI)
    fix j assume "j \<in> lw_live ?w"
    then have l: "j \<in> lw_live w" "pc = Tearing \<longrightarrow> j \<noteq> k" using f by (auto split: if_splits)
    show "lw_slots ?w j \<or> lw_pumps ?w j = Some Tearing \<or> (\<exists>c pc. lw_calls ?w c = Some pc \<and> in_hand pc = Some j)"
      using place_invD(1) [OF p l(1)] l(2) k f pump_claims [OF s] by (auto split: if_splits)
  next
    fix j assume "lw_slots ?w j \<or> lw_pumps ?w j \<noteq> None"
    then have "(lw_slots w j \<or> lw_pumps w j \<noteq> None) \<and> (j \<noteq> k \<or> pc \<noteq> Retiring)"
      using f k retired by (auto split: if_splits)
    with place_invD(2,3) [OF p, of j] cur(2) [of j] show "current ?w j" by blast
  next
    fix j q assume "lw_pumps ?w j = Some q" "claimed q"
    then show "\<not> lw_slots ?w j"
      using place_invD(4) [OF p, of j] k f pump_stays [of a k pc w _ w'] s by (auto split: if_splits)
  next
    fix j assume "current ?w j"
    with cur(1) [of j] place_invD(5) [OF p, of j] f show "j < lw_next ?w" by simp
  next
    fix c q assume "lw_calls ?w c = Some q"
    with calls place_invD(6) [OF p, of c q] have "place_ok w q" by simp
    moreover have "lw_pumps w j = None \<longrightarrow> lw_pumps ?w j = None" "lw_slots ?w j \<longrightarrow> lw_slots w j" for j using f k by auto
    ultimately show "place_ok ?w q" using f by (auto simp: place_ok_def split: if_splits)
  qed
qed

lemma active_inv_pump:
  assumes i: "active_inv w" and k: "lw_pumps w k = Some pc" and s: "pump_step a k pc w = (pc', w')"
  shows "active_inv (w'\<lparr>lw_pumps := (lw_pumps w')(k := pc')\<rparr>)"
  unfolding active_inv_def
proof (intro allI impI conjI)
  let ?w = "w'\<lparr>lw_pumps := (lw_pumps w')(k := pc')\<rparr>"
  note f = pump_step_frame [OF s]
  fix j assume "ls_active (lw_lane ?w) = Some j"
  then have a: "ls_active (lw_lane w) = Some j" "pc = Retiring \<longrightarrow> j \<noteq> k" "ls_owner (lw_lane w') = ls_owner (lw_lane w)"
    using f by (auto simp: retire_lane_def split: if_splits)
  with i obtain q where q: "lw_pumps w j = Some q" "lw_slots w j \<longleftrightarrow> \<not> claimed q" "lw_started w j = ls_owner (lw_lane w)"
    by (auto simp: active_inv_def)
  show "lw_started ?w j = ls_owner (lw_lane ?w)" using q(3) a(3) f by simp
  show "\<exists>pc. lw_pumps ?w j = Some pc \<and> (lw_slots ?w j \<longleftrightarrow> \<not> claimed pc)"
  proof (cases "j = k")
    case True
    with q k have h: "lw_slots w k \<longleftrightarrow> \<not> claimed pc" by simp
    obtain q' where q': "pc' = Some q'" "lw_slots w' k \<longleftrightarrow> \<not> claimed q'"
    proof (cases "claimed pc")
      case True
      with a(2) \<open>j = k\<close> have "pc = Tearing \<or> pc = Announcing" by (auto simp: claimed_def)
      with s f h True that show thesis by (auto simp: claimed_def)
    next
      case False
      with h have l: "lw_slots w k" by simp
      then obtain r where r: "pc' = Some r" using pump_ends [of a k pc w w'] s False by (cases pc') auto
      show thesis
      proof (cases "pc = Terminating")
        case True
        with pump_claims [OF s] l f r that show thesis by (simp add: claimed_def)
      next
        case nt: False
        with pump_stays [of a k pc w r w'] s r False f l that show thesis by simp
      qed
    qed
    with True q' show ?thesis by simp
  next
    case False
    with q f show ?thesis by auto
  qed
qed

lemma lane_inv_pump:
  "lane_inv w \<Longrightarrow> lw_pumps w k = Some pc \<Longrightarrow> pump_step a k pc w = (pc', w') \<Longrightarrow> lane_inv (w'\<lparr>lw_pumps := (lw_pumps w')(k := pc')\<rparr>)"
  using windows_inv_pump place_inv_pump active_inv_pump unfolding lane_inv_def by blast

lemma lane_inv_reach: "lane_reach w \<Longrightarrow> lane_inv w"
proof (induction rule: lane_reach.induct)
  case (lane_init core)
  show ?case
    by (simp add: lane_inv_def windows_inv_def one_window_def active_inv_def place_inv_def current_def LaneWorld_start_def LaneState_default_def)
next
  case (lane_more w w')
  from lane_more(2) lane_more(3) show ?case
    by (cases rule: lane_step.cases) (simp_all add: lane_inv_called lane_inv_call lane_inv_pump)
qed

section \<open>The published state\<close>

abbreviation shown :: "LaneWorld \<Rightarrow> VpnState" where
  "shown w \<equiv> dc_vpn_state (lw_core w)"

lemma shown_publish [simp]: "dc_vpn_state (publish_state v core) = v"
  by (simp add: publish_state_def set_vpn_state_def emit_locked_def Let_def)

text \<open>Past the announcement of a teardown, and past its end.\<close>

fun announced :: "call \<Rightarrow> bool" where
  "announced (ConnectRetire uid k) = False"
| "announced (ConnectPublish uid k t) = False"
| "announced (DisconnectRetire uid k) = False"
| "announced (DisconnectPublish uid k t) = False"
| "announced pc = (in_connect pc \<or> in_disconnect pc)"

fun concluded :: "call \<Rightarrow> bool" where
  "concluded (ConnectFailClear e) = True"
| "concluded DisconnectClear = True"
| "concluded _ = False"

definition shown_ok :: "LaneWorld \<Rightarrow> call \<Rightarrow> bool" where
  "shown_ok w pc \<longleftrightarrow> (announced pc \<longrightarrow> shown w \<in> {VpnState.Disconnecting, VpnState.Disconnected}) \<and>
     (concluded pc \<longrightarrow> shown w = VpnState.Disconnected)"

definition idle :: "LaneWorld \<Rightarrow> bool" where
  "idle w \<longleftrightarrow> ls_active (lw_lane w) = None \<and> (\<forall>c pc. lw_calls w c = Some pc \<longrightarrow> \<not> in_window pc)"

definition shown_inv :: "LaneWorld \<Rightarrow> bool" where
  "shown_inv w \<longleftrightarrow> (\<forall>c pc. lw_calls w c = Some pc \<longrightarrow> shown_ok w pc) \<and>
     (\<not> lw_draining w \<longrightarrow> idle w \<longrightarrow> shown w = VpnState.Disconnected) \<and>
     (\<forall>k. lw_pumps w k = Some Retiring \<longrightarrow> ls_active (lw_lane w) = Some k \<longrightarrow> shown w = VpnState.Disconnected)"

lemma idleD: "idle w \<Longrightarrow> ls_active (lw_lane w) = None" "idle w \<Longrightarrow> lw_calls w c = Some pc \<Longrightarrow> \<not> in_window pc"
  by (simp_all add: idle_def)

lemma shown_ok_idle: "\<not> in_window pc \<Longrightarrow> shown_ok w pc"
  by (cases pc) (simp_all add: shown_ok_def in_window_def)

lemma shown_ok_within:
  assumes "shown_ok w pc" "call_step failure pc w = Some (pc', w')" "in_window pc"
  shows "shown_ok w' pc'"
  using assms by (cases pc)
    (auto simp: shown_ok_def call_step_def take_slot_def close_session_def announce_def connect_resume_def start_engine_def
      install_connection_def in_window_def Let_def split: if_splits option.splits)

text \<open>Leaving a window without a connection, the state is at its end, or the daemon is draining.\<close>

lemma shown_closing:
  assumes "shown_ok w pc" "flags_ok w pc" "call_step failure pc w = Some (pc', w')" "in_window pc" "\<not> in_window pc'"
  shows "ls_active (lw_lane w') \<noteq> None \<or> lw_draining w' \<or> shown w' = VpnState.Disconnected"
  using assms by (cases pc)
    (auto simp: shown_ok_def flags_ok_def drain_begun_def call_step_def take_slot_def close_session_def announce_def connect_resume_def
      start_engine_def install_connection_def connect_install_def in_window_def Let_def split: if_splits option.splits)

lemma retiring_call:
  assumes "lane_inv w" "lw_calls w c = Some pc" "call_step failure pc w = Some (pc', w')" "in_window pc"
    and "lw_pumps w' k = Some Retiring" "ls_active (lw_lane w') = Some k"
  shows False
proof -
  have f: "ls_active (lw_lane w) = None" using assms(1,2,4) windows_invD(1) by (auto simp: lane_inv_def flags_ok_def)
  show False
    using f assms(3-6) by (cases pc)
      (auto simp: call_step_def take_slot_def close_session_def announce_def connect_resume_def start_engine_def
        install_connection_def connect_install_def in_window_def Let_def split: if_splits option.splits)
qed

lemma shown_inv_call:
  assumes i: "lane_inv w" and v: "shown_inv w" and c: "lw_calls w c = Some pc" and s: "call_step failure pc w = Some (pc', w')"
  shows "shown_inv (w'\<lparr>lw_calls := (lw_calls w')(c \<mapsto> pc')\<rparr>)"
proof -
  let ?w = "w'\<lparr>lw_calls := (lw_calls w')(c \<mapsto> pc')\<rparr>"
  have win: "windows_inv w" using i by (simp add: lane_inv_def)
  have same: "lw_calls w' = lw_calls w" using call_step_frame [OF s] by blast
  have ok: "shown_ok w pc" using v c by (simp add: shown_inv_def)
  have fl: "flags_ok w pc" using windows_invD(1) [OF win c] .
  have goal: "shown_inv ?w" if own: "shown_ok w' pc'" and others: "\<And>d q. d \<noteq> c \<Longrightarrow> lw_calls w d = Some q \<Longrightarrow> shown_ok w' q"
    and "\<not> lw_draining w' \<Longrightarrow> idle ?w \<Longrightarrow> shown w' = VpnState.Disconnected"
    and "\<And>k. lw_pumps w' k = Some Retiring \<Longrightarrow> ls_active (lw_lane w') = Some k \<Longrightarrow> shown w' = VpnState.Disconnected"
    using that same by (auto simp: shown_inv_def shown_ok_def split: if_splits)
  show ?thesis
  proof (cases "in_window pc \<or> in_window pc'")
    case True
    note alone = step_alone [OF win c s True]
    have others: "shown_ok w' q" if "d \<noteq> c" "lw_calls w d = Some q" for d q
      using alone that shown_ok_idle by (simp add: others_idle_def)
    show ?thesis
    proof (cases "in_window pc")
      case True
      show ?thesis
      proof (rule goal [OF shown_ok_within [OF ok s True] others])
        show "shown w' = VpnState.Disconnected" if "\<not> lw_draining w'" "idle ?w"
        proof -
          have "\<not> in_window pc'" "ls_active (lw_lane w') = None" using idleD(2) [OF that(2), of c] idleD(1) [OF that(2)] by simp_all
          with shown_closing [OF ok fl s True] that(1) show ?thesis by blast
        qed
        show "shown w' = VpnState.Disconnected" if "lw_pumps w' k = Some Retiring" "ls_active (lw_lane w') = Some k" for k
          using retiring_call [OF i c s True that] ..
      qed
    next
      case False
      with True have o: "in_window pc'" by blast
      from alone False c have none: "\<not> in_window q" if "lw_calls w d = Some q" for d q
        using that by (cases "d = c") (auto simp: others_idle_def)
      have start: "shown w = VpnState.Disconnected" if "ls_active (lw_lane w) = None" "\<not> lw_draining w"
        using v none that by (auto simp: shown_inv_def idle_def)
      have "shown_ok w' pc' \<and> ls_active (lw_lane w') = None"
        using s False o by (cases rule: call_opens) (use start in \<open>auto simp: shown_ok_def\<close>)
      moreover have "\<not> idle ?w" using idleD(2) [of ?w c pc'] o by auto
      ultimately show ?thesis using others by (intro goal) auto
    qed
  next
    case False
    then have o: "\<not> in_window pc" "\<not> in_window pc'" by auto
    note out = call_outside [OF s o windows_invD(3) [OF win]]
    have "(\<forall>d q. ((lw_calls w)(c \<mapsto> pc')) d = Some q \<longrightarrow> \<not> in_window q) \<longleftrightarrow> (\<forall>d q. lw_calls w d = Some q \<longrightarrow> \<not> in_window q)"
      using o c by (metis fun_upd_apply option.inject)
    then have "idle ?w \<longleftrightarrow> idle w" using same out by (simp add: idle_def)
    moreover have "lw_draining w \<longrightarrow> lw_draining w'"
      using s by (cases pc) (auto simp: call_step_def lane_sections Let_def split: lane_splits)
    ultimately show ?thesis
      using v out shown_ok_idle [OF o(2)] by (intro goal) (auto simp: shown_inv_def shown_ok_def)
  qed
qed

text \<open>A pump changes the published state while its slot holds the connection, or announces the end.\<close>

lemma reconcile_arm_core: "reconcile_arm held c core p continue = (pc, core') \<Longrightarrow> core' = core \<or> held"
  by (auto simp: reconcile_arm_def reconcile_drops_def split: if_splits)

lemma handle_event_core: "handle_event held ev core p = (pc, core') \<Longrightarrow> core' = core \<or> held"
  by (auto simp: handle_event_def split: EngineEvent.splits if_splits prod.splits)

lemma pump_core:
  assumes "pump_step a k pc w = (pc', w')"
  shows "lw_core w' = lw_core w \<or> lw_slots w k \<and> \<not> claimed pc \<and> pc \<noteq> Terminating \<or> pc = Announcing \<and> shown w' = VpnState.Disconnected"
  using assms by (cases pc)
    (auto simp: claimed_def take_slot_def close_session_def announce_def Let_def split: prod.splits
      dest: reconcile_arm_core handle_event_core)

text \<open>While a slot holds its connection, no teardown has been announced.\<close>

lemma held_unannounced:
  assumes i: "lane_inv w" and h: "lw_slots w k" and c: "lw_calls w c = Some pc"
  shows "\<not> announced pc \<and> \<not> concluded pc \<and> (ls_active (lw_lane w) \<noteq> Some k \<longrightarrow> \<not> idle w)"
proof -
  have win: "windows_inv w" and place: "place_inv w" using i by (simp_all add: lane_inv_def)
  from place_invD(2) [OF place h] consider "ls_active (lw_lane w) = Some k" | d q where "lw_calls w d = Some q" "concerns q = Some k"
    by (auto simp: current_def)
  then show ?thesis
  proof cases
    case 1
    with windows_invD(1) [OF win c] have "\<not> in_window pc" by (auto simp: flags_ok_def)
    with 1 show ?thesis by (cases pc) (simp_all add: in_window_def)
  next
    case (2 d q)
    have q: "\<not> announced q" "\<not> concluded q" "in_window q"
      using place_invD(6) [OF place 2(1)] h 2(2) concerns_in_window [OF 2(2)] by (cases q; simp add: place_ok_def)+
    have "\<not> in_window pc \<or> pc = q" using windows_invD(2) [OF win c 2(1)] q(3) c 2(1) by auto
    then have "\<not> announced pc \<and> \<not> concluded pc" using q by (cases pc) (simp_all add: in_window_def)
    with q(3) idleD(2) [of w d q] 2(1) show ?thesis by blast
  qed
qed

lemma held_not_idle: "lane_inv w \<Longrightarrow> lw_slots w k \<Longrightarrow> \<not> idle w"
  using place_invD(2) [of w k] concerns_in_window by (fastforce simp: lane_inv_def idle_def current_def)

lemma shown_inv_pump:
  assumes i: "lane_inv w" and v: "shown_inv w" and k: "lw_pumps w k = Some pc" and s: "pump_step a k pc w = (pc', w')"
  shows "shown_inv (w'\<lparr>lw_pumps := (lw_pumps w')(k := pc')\<rparr>)"
proof -
  note f = pump_step_frame [OF s]
  let ?w = "w'\<lparr>lw_pumps := (lw_pumps w')(k := pc')\<rparr>"
  from pump_core [OF s] consider "lw_core w' = lw_core w" "\<not> (lw_slots w k \<and> \<not> claimed pc \<and> pc \<noteq> Terminating)"
    | "lw_slots w k" "\<not> claimed pc" "pc \<noteq> Terminating" | "pc = Announcing" "shown w' = VpnState.Disconnected" by blast
  then show ?thesis
  proof cases
    case 2
    then have lane: "lw_lane ?w = lw_lane w" "lw_calls ?w = lw_calls w" using f by (auto simp: claimed_def)
    have "shown_ok ?w q" if "lw_calls w c = Some q" for c q
      using held_unannounced [OF i 2(1) that] by (simp add: shown_ok_def)
    moreover have "\<not> idle ?w" using held_not_idle [OF i 2(1)] lane by (simp add: idle_def)
    moreover have "lw_pumps ?w j \<noteq> Some Retiring" if "ls_active (lw_lane w) = Some j" for j
    proof (cases "j = k")
      case True
      with pump_stays [of a k pc w _ w'] s 2 show ?thesis by (auto simp: claimed_def)
    next
      case False
      with place_invD(2) [of w k] 2(1) i that windows_invD(1) concerns_in_window show ?thesis
        by (fastforce simp: lane_inv_def current_def flags_ok_def)
    qed
    ultimately show ?thesis using lane by (auto simp: shown_inv_def)
  next
    case 3
    then show ?thesis by (simp add: shown_inv_def shown_ok_def)
  next
    case 1
    have retire: "shown w = VpnState.Disconnected" if "ls_active (lw_lane w') \<noteq> ls_active (lw_lane w)"
      using that v k f by (auto simp: shown_inv_def retire_lane_def split: if_splits)
    have idle: "shown w = VpnState.Disconnected" if "idle ?w" "\<not> lw_draining w"
    proof (cases "ls_active (lw_lane w') = ls_active (lw_lane w)")
      case True
      with that f have "idle w" by (simp add: idle_def)
      with v that(2) show ?thesis by (simp add: shown_inv_def)
    qed (rule retire)
    have "lw_pumps w j = Some Retiring \<or> pc = Announcing" if "lw_pumps ?w j = Some Retiring" for j
      using that f pump_stays [of a k pc w Retiring w'] pump_claims [OF s] s by (cases "pc = Terminating"; cases "claimed pc") (auto simp: claimed_def split: if_splits)
    moreover have "pc = Announcing \<Longrightarrow> shown w' = VpnState.Disconnected" using s by (auto simp: announce_def)
    moreover have "ls_active (lw_lane w') = Some j \<Longrightarrow> ls_active (lw_lane w) = Some j" for j
      using f by (auto simp: retire_lane_def split: if_splits)
    ultimately have third: "shown w' = VpnState.Disconnected" if "lw_pumps ?w j = Some Retiring" "ls_active (lw_lane w') = Some j" for j
      using v that 1(1) unfolding shown_inv_def by metis
    have "shown_ok ?w q" if "lw_calls w c = Some q" for c q
      using v that 1(1) by (auto simp: shown_inv_def shown_ok_def)
    with idle third 1(1) f show ?thesis unfolding shown_inv_def by simp
  qed
qed

section \<open>Draining\<close>

definition drained_inv :: "LaneWorld \<Rightarrow> bool" where
  "drained_inv w \<longleftrightarrow> (\<forall>c. lw_calls w c = Some DrainReturned \<longrightarrow> idle w)"

lemma drain_returns:
  assumes i: "windows_inv w" and c: "lw_calls w c = Some pc" and s: "call_step failure pc w = Some (DrainReturned, w')"
  shows "ls_active (lw_lane w') = None \<and> others_idle c w"
proof -
  have "pc = DrainLoop \<or> pc = DrainClear" using s by (cases pc) (auto simp: call_step_def take_slot_def start_engine_def Let_def split: lane_splits)
  then show ?thesis
  proof
    assume p: "pc = DrainClear"
    then have "others_idle c w" by (intro step_alone [OF i c s]) (simp add: in_window_def)
    moreover have "ls_active (lw_lane w) = None" using windows_invD(1) [OF i c] p by (simp add: flags_ok_def in_window_def)
    ultimately show ?thesis using s p by (auto simp: call_step_def)
  next
    assume p: "pc = DrainLoop"
    with s have d: "\<not> drain_waits (lw_lane w)" "ls_active (lw_lane w') = None" by (auto simp: call_step_def drain_turn_def Let_def split: lane_splits)
    have "\<not> in_window q" if "lw_calls w e = Some q" for e q
      using windows_invD(1) [OF i that] d(1) by (auto simp: flags_ok_def drain_waits_def in_window_def)
    with d(2) show ?thesis by (simp add: others_idle_def)
  qed
qed

lemma drained_inv_call:
  assumes i: "lane_inv w" and v: "drained_inv w" and c: "lw_calls w c = Some pc" and s: "call_step failure pc w = Some (pc', w')"
  shows "drained_inv (w'\<lparr>lw_calls := (lw_calls w')(c \<mapsto> pc')\<rparr>)"
proof -
  let ?w = "w'\<lparr>lw_calls := (lw_calls w')(c \<mapsto> pc')\<rparr>"
  have win: "windows_inv w" using i by (simp add: lane_inv_def)
  have same: "lw_calls w' = lw_calls w" using call_step_frame [OF s] by blast
  have "idle ?w" if d: "lw_calls ?w d = Some DrainReturned" for d
  proof (cases "d = c")
    case True
    with d s have r: "call_step failure pc w = Some (DrainReturned, w')" "pc' = DrainReturned" by simp_all
    from drain_returns [OF win c r(1)] r(2) same show ?thesis by (auto simp: idle_def others_idle_def in_window_def)
  next
    case False
    with d same have r: "lw_calls w d = Some DrainReturned" by simp
    with v have idle: "idle w" by (auto simp: drained_inv_def)
    have g: "lw_draining w" using windows_invD(1) [OF win r] by (simp add: flags_ok_def drain_begun_def)
    have o: "\<not> in_window pc" using idleD(2) [OF idle c] .
    have "\<not> in_window pc'"
    proof
      assume o': "in_window pc'"
      from s o o' show False by (cases rule: call_opens) (use g idleD(1) [OF idle] in auto)
    qed
    moreover from call_outside [OF s o this windows_invD(3) [OF win]] idleD(1) [OF idle] have "ls_active (lw_lane w') = None" by simp
    ultimately show ?thesis using idleD(2) [OF idle] same by (simp add: idle_def)
  qed
  then show ?thesis by (simp add: drained_inv_def)
qed

lemma lane_reach_invs: "lane_reach w \<Longrightarrow> lane_inv w \<and> shown_inv w \<and> drained_inv w"
proof (induction rule: lane_reach.induct)
  case (lane_init core)
  have "lane_inv (LaneWorld_start core)" by (rule lane_inv_reach) (rule lane_reach.lane_init [OF lane_init])
  with lane_init show ?case by (simp add: shown_inv_def drained_inv_def LaneWorld_start_def)
next
  case (lane_more w w')
  then have i: "lane_inv w" "shown_inv w" "drained_inv w" by simp_all
  have "lane_inv w'" using lane_inv_reach [OF lane_reach.lane_more [OF lane_more(1,2)]] .
  moreover from lane_more(2) have "shown_inv w' \<and> drained_inv w'"
  proof (cases rule: lane_step.cases)
    case (called c pc uid)
    then have o: "\<not> in_window pc" "pc \<noteq> DrainReturned" by (auto simp: in_window_def)
    have "(\<forall>d q. lw_calls w' d = Some q \<longrightarrow> \<not> in_window q) \<longleftrightarrow> (\<forall>d q. lw_calls w d = Some q \<longrightarrow> \<not> in_window q)"
      using called(2) o(1) unfolding called(1) by simp (metis option.distinct(1) option.inject)
    then have "idle w' \<longleftrightarrow> idle w" using called(1) by (simp add: idle_def)
    with called i o shown_ok_idle show ?thesis by (auto simp: shown_inv_def shown_ok_def drained_inv_def split: if_splits)
  next
    case (advanced c pc failure pc' v)
    with i shown_inv_call drained_inv_call show ?thesis by blast
  next
    case (pumped k pc a pc' v)
    note f = pump_step_frame [OF pumped(3)]
    have "idle w \<longrightarrow> idle w'" using f pumped(1) by (auto simp: idle_def retire_lane_def split: if_splits)
    with i(3) f pumped(1) have "drained_inv w'" by (auto simp: drained_inv_def)
    with shown_inv_pump [OF i(1,2) pumped(2,3)] pumped(1) show ?thesis by simp
  qed
  ultimately show ?case by blast
qed

section \<open>What the lane guarantees\<close>

lemma current_unique:
  assumes i: "lane_inv w" and j: "current w j" and k: "current w k"
  shows "j = k"
proof -
  have win: "windows_inv w" using i by (simp add: lane_inv_def)
  have held: "ls_active (lw_lane w) = None" if "lw_calls w c = Some pc" "concerns pc = Some n" for c pc n
    using windows_invD(1) [OF win that(1)] concerns_in_window [OF that(2)] by (simp add: flags_ok_def)
  show ?thesis
  proof (cases "ls_active (lw_lane w)")
    case (Some n)
    have "m = n" if "current w m" for m using that held Some by (auto simp: current_def)
    with j k show ?thesis by metis
  next
    case None
    with j k obtain c pc d qc where "lw_calls w c = Some pc" "concerns pc = Some j" "lw_calls w d = Some qc" "concerns qc = Some k"
      by (auto simp: current_def)
    then show ?thesis using windows_invD(2) [OF win, of c pc d qc] concerns_in_window by auto
  qed
qed

lemma live_current:
  assumes "lane_inv w" "k \<in> lw_live w"
  shows "current w k"
proof -
  have place: "place_inv w" using assms(1) by (simp add: lane_inv_def)
  from place_invD(1) [OF place assms(2)] consider "lw_slots w k" | "lw_pumps w k = Some Tearing"
    | c pc where "lw_calls w c = Some pc" "in_hand pc = Some k" by blast
  then show ?thesis
  proof cases
    case 3
    with in_hand_concerns [OF 3(2)] show ?thesis by (auto simp: current_def)
  qed (use place_invD(2,3) [OF place] in auto)
qed

text \<open>
  C20. One tunnel, one owner. However \<open>connect\<close>, \<open>disconnect\<close> and \<open>drain\<close> calls, the engine's answers
  and the pumps interleave, at most one session of the engine is open at any time; an installed
  connection has a running pump and the recorded owner is the user who started it; and a call on behalf of
  a user retires, closes or replaces only a connection which that user started.
\<close>

theorem one_tunnel_one_owner:
  assumes "lane_reach w"
  shows "(\<forall>j k. j \<in> lw_live w \<longrightarrow> k \<in> lw_live w \<longrightarrow> j = k) \<and>
    (\<forall>k. ls_active (lw_lane w) = Some k \<longrightarrow>
       lw_pumps w k \<noteq> None \<and> (\<exists>uid. ls_owner (lw_lane w) = Some uid \<and> lw_started w k = Some uid)) \<and>
    (\<forall>c pc k uid. lw_calls w c = Some pc \<longrightarrow> concerns pc = Some k \<longrightarrow> acts_for pc = Some uid \<longrightarrow> lw_started w k = Some uid)"
proof (intro conjI allI impI)
  have i: "lane_inv w" using lane_inv_reach [OF assms] .
  then have win: "windows_inv w" and act: "active_inv w" and place: "place_inv w" by (simp_all add: lane_inv_def)
  show "j = k" if "j \<in> lw_live w" "k \<in> lw_live w" for j k
    using current_unique [OF i] live_current [OF i] that by blast
  show "lw_pumps w k \<noteq> None" if "ls_active (lw_lane w) = Some k" for k
    using act that by (auto simp: active_inv_def)
  show "\<exists>uid. ls_owner (lw_lane w) = Some uid \<and> lw_started w k = Some uid" if "ls_active (lw_lane w) = Some k" for k
    using act that windows_invD(3) [OF win] by (cases "ls_owner (lw_lane w)") (auto simp: active_inv_def)
  show "lw_started w k = Some uid" if "lw_calls w c = Some pc" "concerns pc = Some k" "acts_for pc = Some uid" for c pc k uid
    using place_invD(6) [OF place that(1)] that(2,3) by (simp add: place_ok_def)
qed

text \<open>
  C21. A drained lane stays empty: once any \<open>drain\<close> call has returned, in every later state no session
  of the engine is open, none is being started or closed, no pump runs and nothing is installed, whatever
  calls were under way when it began.
\<close>

theorem drained_for_good:
  assumes "lane_reach w" "lw_calls w c = Some DrainReturned"
  shows "lw_live w = {} \<and> ls_active (lw_lane w) = None \<and> (\<forall>k. lw_pumps w k = None \<and> \<not> lw_slots w k) \<and>
    (\<forall>d pc. lw_calls w d = Some pc \<longrightarrow> \<not> in_window pc)"
proof -
  have i: "lane_inv w" and "drained_inv w" using lane_reach_invs [OF assms(1)] by simp_all
  with assms(2) have idle: "idle w" by (auto simp: drained_inv_def)
  have none: "\<not> current w k" for k
    using idle concerns_in_window by (fastforce simp: idle_def current_def)
  then have "lw_live w = {}" using live_current [OF i] by auto
  moreover have "lw_pumps w k = None \<and> \<not> lw_slots w k" for k
    using none [of k] place_invD(2,3) [of w k] i by (cases "lw_pumps w k") (auto simp: lane_inv_def)
  ultimately show ?thesis using idle by (simp add: idle_def)
qed

text \<open>
  C22. The published state is not stale. From the announcement of a teardown until the call ends, the core
  shows \<open>Disconnecting\<close>, or \<open>Disconnected\<close> when the engine died first or the end was reached; no state
  the pump had received before reverts it. And whenever nothing is installed and no call is in a window,
  unless a drain has been requested, it shows \<open>Disconnected\<close>.
\<close>

theorem published_state_never_stale:
  assumes "lane_reach w"
  shows "(\<forall>c pc. lw_calls w c = Some pc \<longrightarrow> announced pc \<longrightarrow> shown w \<in> {VpnState.Disconnecting, VpnState.Disconnected}) \<and>
    (\<not> lw_draining w \<longrightarrow> ls_active (lw_lane w) = None \<longrightarrow> (\<forall>c pc. lw_calls w c = Some pc \<longrightarrow> \<not> in_window pc) \<longrightarrow>
       shown w = VpnState.Disconnected)"
  using lane_reach_invs [OF assms] by (auto simp: shown_inv_def shown_ok_def idle_def)

section \<open>Concrete runs\<close>

datatype move = Begin nat call | Advance nat "EngineError option" | Turn nat Answers

fun play :: "move \<Rightarrow> LaneWorld \<Rightarrow> LaneWorld option" where
  "play (Begin c pc) w =
     (if lw_calls w c = None then Some (w\<lparr>lw_calls := (lw_calls w)(c \<mapsto> pc)\<rparr>) else None)"
| "play (Advance c failure) w =
     (case lw_calls w c of
        Some pc \<Rightarrow> map_option (\<lambda>(pc', w'). w'\<lparr>lw_calls := (lw_calls w')(c \<mapsto> pc')\<rparr>) (call_step failure pc w)
      | None \<Rightarrow> None)"
| "play (Turn k a) w =
     (case lw_pumps w k of
        Some pc \<Rightarrow> (let (pc', w') = pump_step a k pc w in Some (w'\<lparr>lw_pumps := (lw_pumps w')(k := pc')\<rparr>))
      | None \<Rightarrow> None)"

fun plays :: "move list \<Rightarrow> LaneWorld \<Rightarrow> LaneWorld option" where
  "plays [] w = Some w"
| "plays (m # ms) w = Option.bind (play m w) (plays ms)"

definition proper :: "move \<Rightarrow> bool" where
  "proper m \<longleftrightarrow> (case m of Begin c pc \<Rightarrow> (\<exists>uid. pc \<in> {ConnectCall uid, DisconnectCall uid, DrainCall}) | _ \<Rightarrow> True)"

lemma play_reach: "lane_reach w \<Longrightarrow> proper m \<Longrightarrow> play m w = Some w' \<Longrightarrow> lane_reach w'"
  by (cases m) (auto simp: proper_def Let_def split: option.splits if_splits prod.splits intro: lane_reach.lane_more lane_step.intros)

lemma plays_reach: "lane_reach w \<Longrightarrow> list_all proper ms \<Longrightarrow> plays ms w = Some w' \<Longrightarrow> lane_reach w'"
  by (induction ms arbitrary: w) (auto simp: bind_eq_Some_conv dest: play_reach)

definition quiet_answers :: "receipt \<Rightarrow> Answers" where
  "quiet_answers r = \<lparr>an_receipt = r, an_probe = None, an_surfaces = \<lparr>cs_critical = [], cs_dropped = 0, cs_latest = None\<rparr>\<rparr>"

definition up_state :: EngineVpnState where
  "up_state = \<lparr>interface_up = True, interface_error = None,
     connection = EngineConnectionState.Connected
       \<lparr>epr_peer_id = ''p'', epr_entry_ip = IpV4 [10, 2, 0, 2], epr_protocol = EWireGuardUdp, epr_port = 51820\<rparr> None\<rparr>"

definition sample_core :: DaemonCore where
  "sample_core = DaemonCore_new ''1'' AutoIntegration"

text \<open>User 1000 connects and the pump publishes that the tunnel is up.\<close>

definition come_up :: "move list" where
  "come_up = [Begin 0 (ConnectCall 1000), Advance 0 None, Advance 0 None, Advance 0 None, Advance 0 None,
     Turn 0 (quiet_answers (Received (State up_state))), Turn 0 (quiet_answers TimedOut), Turn 0 (quiet_answers TimedOut)]"

lemmas lane_eval = come_up_def sample_core_def DaemonCore_new_def quiet_answers_def up_state_def LaneWorld_start_def LaneState_default_def
  call_step_def lane_sections receive_arm_def reconcile_arm_def reconcile_drops_def handle_event_def publish_mapped_def map_vpn_state_def
  Pump_start_def Let_def

lemma sample_init: "lane_reach (LaneWorld_start sample_core)"
  by (rule lane_init) (simp add: sample_core_def DaemonCore_new_def)

lemma come_up_world:
  "\<exists>w. plays come_up (LaneWorld_start sample_core) = Some w \<and> lane_reach w \<and> lw_live w = {0} \<and> ls_active (lw_lane w) = Some 0 \<and>
     ls_owner (lw_lane w) = Some 1000 \<and> shown w = VpnState.Connected"
proof -
  have "\<exists>w. plays come_up (LaneWorld_start sample_core) = Some w \<and> lw_live w = {0} \<and> ls_active (lw_lane w) = Some 0 \<and>
     ls_owner (lw_lane w) = Some 1000 \<and> shown w = VpnState.Connected"
    by (simp add: lane_eval)
  moreover have "list_all proper come_up" by (simp add: come_up_def proper_def)
  ultimately show ?thesis using plays_reach [OF sample_init] by blast
qed

theorem one_tunnel_one_owner_witness:
  "\<exists>w. lane_reach w \<and> lw_live w = {0} \<and> ls_active (lw_lane w) = Some 0 \<and> lw_pumps w 0 \<noteq> None \<and> lw_started w 0 = Some 1000"
proof -
  obtain w where w: "lane_reach w" "lw_live w = {0}" "ls_active (lw_lane w) = Some 0" "ls_owner (lw_lane w) = Some 1000"
    using come_up_world by blast
  with one_tunnel_one_owner [OF w(1)] have "lw_pumps w 0 \<noteq> None" "lw_started w 0 = Some 1000" by auto
  with w show ?thesis by blast
qed

text \<open>
  The drain of a connected lane. It publishes nothing, and neither does the pump that finds its slot
  empty, so the core goes on showing the tunnel as connected.
\<close>

definition drain_all :: "move list" where
  "drain_all = [Begin 1 DrainCall, Advance 1 None, Advance 1 None, Advance 1 None, Advance 1 None,
     Turn 0 (quiet_answers TimedOut), Turn 0 (quiet_answers TimedOut), Advance 1 None, Advance 1 None]"

lemma drained_lane_still_shows_connected:
  "\<exists>w. lane_reach w \<and> lw_calls w 1 = Some DrainReturned \<and> shown w = VpnState.Connected"
proof -
  have "\<exists>w. plays (come_up @ drain_all) (LaneWorld_start sample_core) = Some w \<and> lw_calls w 1 = Some DrainReturned \<and> shown w = VpnState.Connected"
    by (simp add: lane_eval drain_all_def)
  moreover have "list_all proper (come_up @ drain_all)" by (simp add: come_up_def drain_all_def proper_def)
  ultimately show ?thesis using plays_reach [OF sample_init] by blast
qed

theorem drained_for_good_witness:
  "\<exists>w. lane_reach w \<and> lw_calls w 1 = Some DrainReturned \<and> lw_live w = {} \<and> lw_pumps w 0 = None"
proof -
  obtain w where w: "lane_reach w" "lw_calls w 1 = Some DrainReturned" using drained_lane_still_shows_connected by blast
  with drained_for_good [OF w] show ?thesis by blast
qed

text \<open>The owner disconnects while the pump holds a state it has received: the teardown's announcement stands.\<close>

definition go_down :: "move list" where
  "go_down = [Turn 0 (quiet_answers (Received (State up_state))), Turn 0 (quiet_answers TimedOut),
     Begin 1 (DisconnectCall 1000), Advance 1 None, Advance 1 None, Advance 1 None, Turn 0 (quiet_answers TimedOut)]"

theorem published_state_never_stale_witness:
  "\<exists>w. lane_reach w \<and> lw_calls w 1 = Some (DisconnectTear 1000 0 True) \<and> shown w \<in> {VpnState.Disconnecting, VpnState.Disconnected}"
proof -
  have "\<exists>w. plays (come_up @ go_down) (LaneWorld_start sample_core) = Some w \<and> lw_calls w 1 = Some (DisconnectTear 1000 0 True)"
    by (simp add: lane_eval go_down_def)
  moreover have "list_all proper (come_up @ go_down)" by (simp add: come_up_def go_down_def proper_def)
  ultimately obtain w where w: "lane_reach w" "lw_calls w 1 = Some (DisconnectTear 1000 0 True)" using plays_reach [OF sample_init] by blast
  with published_state_never_stale [OF w(1)] have "shown w \<in> {VpnState.Disconnecting, VpnState.Disconnected}" by fastforce
  with w show ?thesis by blast
qed

end
