(* ===== verification/Spec2Isabelle.thy ===== *)
theory Spec2Isabelle
  imports Selection_Order Scheduler_Props Net_Session Ipc_Frame Event_Races Country_Groups Facade_Live Facade_Health
    Proto_Engine_Queue Redact Daemon_Select_Props Connection_Lane_Props
begin

text \<open>
  Verification of the ProtonWire daemon's core.

  \<^bold>\<open>The program.\<close> ProtonWire is a Linux VPN daemon in Rust. Its product logic is
  \<open>crates/core\<close>: it keeps a server catalog fresh under strict pacing rules (\<open>scheduler.rs\<close>) and
  picks a server from it for a connection request (\<open>selection.rs\<close>) or for one of the built-in
  connection groups (\<open>groups.rs\<close>). Both rest on
  \<open>crates/store\<close>: the catalog document and its cache (\<open>catalog.rs\<close>), the persisted scheduler
  deadlines (\<open>deadlines.rs\<close>) and the check that a root-owned path cannot have been tampered with
  (\<open>fs_trust.rs\<close>). A fetched body goes through \<open>from_bytes\<close>, is stored by the scheduler, read
  back at the next start, and ranked by \<open>select\<close>. \<open>crates/net\<close> then makes the connection safe on
  the host: it allocates routing tables (\<open>tables.rs\<close>), arms an nftables kill switch
  (\<open>kill_switch.rs\<close>, \<open>permanent.rs\<close>), commits rules and routes as one transaction (\<open>route_txn.rs\<close>,
  \<open>route_drift.rs\<close>), points the resolver at the tunnel (\<open>dns.rs\<close>), and undoes it all on
  disconnect (\<open>session.rs\<close>). Front ends talk to the daemon over a Unix socket: \<open>crates/ipc\<close> frames
  the messages of \<open>crates/frontend-api\<close>, authorises requests and fans the events of
  \<open>core/src/state.rs\<close> out to bounded session queues; \<open>crates/client\<close> follows them with a cursor and
  resynchronises when it missed some. \<open>crates/protocol\<close> drives the third-party tunnel engine: it
  translates connection parameters (\<open>translate.rs\<close>), marks the engine's sockets so that they bypass
  the tunnel (\<open>marks.rs\<close>), compares requested with applied features (\<open>reconcile.rs\<close>) and turns engine
  callbacks into ordered events (\<open>engine.rs\<close>, \<open>tun.rs\<close>); the
  engine's credentials pass through a facade that answers from memory (\<open>facade.rs\<close>) and a worker
  that keeps an encrypted cache on disk (\<open>cache.rs\<close>). The daemon's selection engine
  (\<open>apps/daemon/src/selection.rs\<close>) composes the account's entitlements (\<open>crates/api/src/entitlements.rs\<close>),
  the cached catalog, probe rounds (\<open>core/src/probe.rs\<close>) and the groups into an answer to a \<open>select\<close>
  request, and its connection lane (\<open>apps/daemon/src/connect.rs\<close>) owns the one tunnel: it starts, replaces
  and tears down connections for their owner while a pump thread publishes the engine's states.
  What the processes log passes the scrubber of \<open>core/src/redact.rs\<close>.

  \<^bold>\<open>Theories.\<close>
  \<^item> \<open>Prelude\<close>: the result type (\<open>Ok\<close>, \<open>Err\<close>, \<open>Panic\<close>) and its monadic operations, \<open>Ordering\<close>
    with \<open>then_with\<close>, the stable \<open>sort_by\<close>, \<open>BTreeMap\<close>, \<open>Duration\<close>, saturating 64-bit arithmetic.
  \<^item> \<open>Float32\<close>: IEEE binary32 (bit patterns, round to nearest even, \<open>total_cmp\<close>) as \<open>f32\<close> has it,
    with monotonicity of the operations.
  \<^item> \<open>Fs_Trust\<close>: \<open>verify_trusted_path\<close> over path components; the kernel's \<open>lstat\<close> is a parameter.
  \<^item> \<open>Atomic_Store\<close>: write to a temporary file, sync, rename, with each system call able to fail;
    an interface of crash-safe documents.
  \<^item> \<open>Catalog\<close>: the document, its value domains and caps, the on-disk cache.
  \<^item> \<open>Selection_Types\<close>, \<open>Selection_Filter\<close>, \<open>Selection_Rank\<close>, \<open>Selection\<close>, \<open>Selection_Order\<close>: the
    vocabulary, the eight-stage filter and its declarative specification, the five rankings
    (each an instance of one interface), \<open>select\<close>, and the order it returns.
  \<^item> \<open>Group_Registry\<close>, \<open>Country_Groups\<close>: the built-in connection groups entry by entry, their resolver onto
    selection requests, and what a group selects.
  \<^item> \<open>Deadlines\<close>: the persisted document with its load and save.
  \<^item> \<open>Scheduler_Policy\<close>: configuration, \<open>next_deadline\<close>, \<open>draw_jitter\<close>, token minting.
  \<^item> \<open>Scheduler\<close>: the state behind the mutex and every operation on it; \<open>lead_refresh\<close> is two
    definitions, \<open>lead_begin\<close> up to the point where the lock is dropped for the fetch and
    \<open>lead_finish\<close> from the point where it is taken again.
  \<^item> \<open>Scheduler_Runs\<close>: the step relation. A step is what one thread does while it holds the lock;
    any number of callers interleave, each clock reading, fetch result and failing system call is
    arbitrary, and the process may crash and restart at any time. Pacing and single flight are
    invariants of it.
  \<^item> \<open>Scheduler_Safety\<close>: the durable anchor, the durable suppression, the token ledger and the
    soundness of the cache as further invariants.
  \<^item> \<open>Scheduler_Props\<close>: the scheduler's properties and a concrete run for their witnesses.
  \<^item> \<open>Rust_Text\<close>: the string functions of the standard library the parsers below use.
  \<^item> \<open>Net_Tables\<close>: the \<open>rt_tables\<close> parser and the table allocator with its properties.
  \<^item> \<open>Net_Routes\<close>: route transactions, the netlink executor and the desired routes, as code;
    \<open>Net_Txn\<close>: the executor contract as a locale, the kernel's contract as another, the first
    derived from the second for the live executor, and a concrete host; \<open>Net_Txn_Props\<close>: its properties.
  \<^item> \<open>Kill_Switch\<close>: markers, the rendered ruleset, the semantics of a chain on a packet, and apply,
    validate, probe and remove; \<open>Kill_Switch_Props\<close>: its properties.
  \<^item> \<open>Net_Dns\<close>: the resolver file over a file system with inodes, the \<open>resolvectl\<close> backend.
  \<^item> \<open>Net_Session\<close>: connect and disconnect over all three surfaces, with the properties that
    compose the components of \<open>net\<close>.
  \<^item> \<open>Ipc_Frame\<close>: length-prefixed frames, read across partial reads, failures and deadlines, and
    written under a deadline, with their properties.
  \<^item> \<open>Wire\<close>: the messages, requests, events and state of the protocol; \<open>Daemon_Core\<close>: the core's
    state machine, authorisation and the event bus; \<open>Event_Session\<close>: the threads of a session, the
    client transport and the client's cursor, as code.
  \<^item> \<open>Event_Runs\<close>: one session as a step relation over emitter, forwarder, writer, dispatcher and
    client; \<open>Event_Order\<close>: its invariant; \<open>Event_Props\<close>: what the client can rely on;
    \<open>Event_Races\<close>: the two runs in which it cannot.
  \<^item> \<open>Proto_Cache\<close>: the encrypted cache over a directory with its unsynced states, and the contract of
    a durable store as a locale that the cache interprets; \<open>Facade\<close>: the operations, lanes, the
    coalescing pass and the health slot, as code; \<open>Facade_Runs\<close>: callbacks, worker, time and drop
    as a step relation, with its invariant; \<open>Facade_Props\<close>, \<open>Facade_Live\<close>: what a restart finds, and
    that the worker can always catch up; \<open>Facade_Health\<close>: two runs on which health speaks too early.
  \<^item> \<open>Proto_Translate\<close>: connection parameters to engine configuration, peer by peer; \<open>Proto_Marks\<close>: the
    packed health word of the socket marks, at its 64 bits, under interleaved callbacks;
    \<open>Proto_Reconcile\<close>: the ledger of requested and applied features; \<open>Proto_Engine\<close>: the engine's
    events and callbacks as code; \<open>Proto_Engine_Runs\<close>, \<open>Proto_Engine_Queue\<close>: callbacks, controls and
    the reader as a step relation, what the ledger says and what the two event lanes keep.
  \<^item> \<open>Redact\<close>: the registry of secrets, the scrubber, the line writer and the suppression filter.
  \<^item> \<open>Latency_Probe\<close>: the planner and the windowed run; \<open>Probe_Rounds\<close>: the daemon's rounds over the
    shared table, one lock section at a time, and their interleavings.
  \<^item> \<open>Entitlements\<close>: the strict reading of the entitlement document and the free-plan cooldown;
    \<open>Entitlement_Provider\<close>: the single-flight fetch behind an adapter that may be replaced, as a step
    relation over requests, workers and installs.
  \<^item> \<open>Daemon_Select\<close>: \<open>resolve\<close> with its gates, mappings and reports, and the group listing;
    \<open>Daemon_Select_Props\<close>: what an answer guarantees, and that the listing agrees with it.
  \<^item> \<open>Connection_Lane\<close>: \<open>connect\<close>, \<open>disconnect\<close>, \<open>drain\<close> and the pump as code, each critical section
    and each blocking call a step; \<open>Connection_Lane_Props\<close>: their invariants under all interleavings.

  \<^bold>\<open>What is shown.\<close> Selection returns exactly the eligible and rankable servers, each as often as
  the catalog lists it, in the order the requested policy promises, without ever panicking, with a
  report that accounts for every server; the answer does not depend on the order of the catalog
  and, under the weighted policy, a server at least as good in every signal never scores worse in
  binary32 arithmetic. A connection group selects exactly the servers its definition admits. The scheduler never contacts the upstream within three hours of an earlier
  contact unless a freshly minted confirmation was redeemed, never during a durable rate-limit
  suppression, has at most one request in flight, and can always end it. Stored documents survive
  failed writes and crashes at any point. The kill switch accepts exactly its documented allow
  list, port 67 over another transport than UDP apart, is
  replaced in one batch and only when its marker proves ownership, and changes nothing else in
  any outcome; a table plan never takes a
  foreign table and survives a restart; a route transaction is all or nothing up to residue that
  its error names, where no foreign rule shadows one of its own, and a repair adds exactly what is
  missing; connecting arms the switch before it routes, and a session that disconnects
  leaves of rules and routes exactly what others put there (not the resolver file: see
  \<open>Net_Dns\<close>). Frames come back as they were written however
  the bytes arrive. A client is only told what happened, in order and without holes, and whenever
  its session has settled it is current, unless one of two races lost the overflow signal. The
  facade's worker, whatever fails and however callbacks interleave, leaves on disk only whole
  values a key has had, can always catch up with memory, has then stored exactly what memory
  served, and never stops silently with less. A translation offers the engine exactly the endpoints the
  parameters allow; the mark health is exact while at most 16383 callbacks overlap; the feature ledger never
  reads clean while the engine runs something else; a control event is never lost and every other event is
  delivered or counted. A registered secret of one line, without brackets and not a part of the placeholder,
  never reaches the log while a handle to it is held. Probe runs stay
  within budget, and rounds of concurrent requests do not probe an endpoint again within the interval, as long
  as no revision returns to the table while a round of it is under way.
  An account's entitlements are never served to another; an answer of the selection engine stays within
  the account's plan and satisfies every constraint of the caller and the configuration; under the default
  ranking, with entropy and all scores, a group is listed as available exactly when selecting it is
  answered. At most one tunnel is up and only its
  owner's calls touch it; a drained lane stays empty; and a stale state never reverts the announcement of a
  teardown.

  \<^bold>\<open>Parameters.\<close> The JSON codecs (\<open>serde_json\<close>) are records of functions; where a round trip
  matters the hypothesis is that parsing a rendered document gives it back. \<open>lstat\<close>, the clock,
  the random source, the fetch bridge and the outcome of every file-system call are arguments.
  So are the netlink requests and dumps, the nftables calls and the \<open>resolvectl\<close> command; the locale \<open>netlink_kernel\<close> states what the route properties rely on (a dump without
  errors shows every object of its family once, a granted request adds or removes exactly the
  object it shows, as an ideal of what the kernel does) and is interpreted on a concrete host. A socket is the sequence of its arrivals
  and failures; payloads of results that only pass through the transport are a type parameter. The
  AEAD of the cache is a record of two functions, of which it is assumed that decryption inverts
  encryption and that a ciphertext is sixteen bytes longer than its plaintext. Base64, the engine's own
  types and replies, the socket-option and TUN calls, the lossy text decoding and the formatter of the
  log, the JSON value parser and the transport of the entitlement read, the probe connector with the
  address parser and the clocks of its threads, and the operating system's entropy are arguments likewise.

  \<^bold>\<open>Bounds and fuel.\<close> Machine integers of the scheduler are naturals with saturating or wrapping
  operations written out at 64 bits; bit operations (feature flags, the seeded generator) are on
  64-bit words. Rejection sampling in \<open>draw_jitter\<close> consumes a list of samples and returns no value
  only when that list ends; a failing source ends it with zero, as in the code, so one sample is
  enough for it to return in that case and the property quantifies over all lists otherwise. No other
  loop needs fuel. The generation counter wraps at 64 bits as in a release build. The facade's
  sequence number wraps too; its properties assume that fewer than two to the 64 operations were
  numbered, and those of the feature ledger and the entitlement provider the same of updates and
  installs. The mark health packs its counters into one word: fourteen bits of overlapping callbacks and
  forty-nine of sockets, and its properties carry these bounds. The spacing of probe rounds is stated
  for rounds that last less than the interval of sixty seconds.

  \<^bold>\<open>Not modelled.\<close> Log lines, \<open>Debug\<close> output, error texts beyond the data they interpolate, real
  clocks and file descriptors; of \<open>ipc\<close> the accept loop, the socket set-up, the timers and the
  teardown of a session; of \<open>store\<close> the configuration documents with their YAML guard and overlays
  (only the sections the modelled components read are), the writable store, sessions, credentials
  and locations, which are mostly descriptor-relative file-system calls; of \<open>api\<close> authentication and the
  catalog and location adapters, which wrap a third-party client; of the daemon the services and the process; the command line, terminal and graphical front ends, the
  credential agent and the build tooling. The port-forwarding and policy crates are skeletons
  without behaviour.
\<close>

section \<open>Properties that span components\<close>

text \<open>
  C15. The whole path from the upstream to a connection is safe: in every run of the scheduler,
  whatever was fetched and whichever stores failed or crashed, the durable cache loads, the body
  in it is an accepted catalog, and \<open>select\<close> answers any request on that catalog without
  panicking.
\<close>

theorem cached_catalog_is_selectable:
  assumes "reachable cfg cs s" and "codec_faithful (deadlines_codec cs)" and "cache_codec_faithful (cache_codec cs)"
  shows "\<exists>c. cache_load_validated (cache_codec cs) None (cache_file (disk s)) = Ok c \<and>
    (case c of None \<Rightarrow> True
     | Some doc \<Rightarrow> \<exists>catalog. from_bytes (parse_doc (cache_codec cs)) (cc_body doc) = Ok catalog \<and>
         select catalog req ctx \<noteq> Panic)"
proof -
  obtain c where c: "cache_load_validated (cache_codec cs) None (cache_file (disk s)) = Ok c"
    using reachable_cache_sound [OF assms] by (auto simp: cache_sound_def)
  have "\<exists>catalog. from_bytes (parse_doc (cache_codec cs)) (cc_body doc) = Ok catalog \<and>
      select catalog req ctx \<noteq> Panic" if d: "c = Some doc" for doc
  proof -
    obtain catalog where k: "from_bytes (parse_doc (cache_codec cs)) (cc_body doc) = Ok catalog"
      using cache_load_ok_doc [of "cache_codec cs" None "cache_file (disk s)" doc] c d
      by (auto simp: cached_ok_def)
    then have "catalog_ok catalog" by (simp add: from_bytes_Ok_conv)
    from select_not_Panic [OF this] k show ?thesis by blast
  qed
  with c show ?thesis by (cases c) auto
qed

theorem cached_catalog_is_selectable_witness:
  "\<exists>catalog. from_bytes (parse_doc (cache_codec demo_cs)) (cc_body demo_cached) = Ok catalog \<and>
     select catalog (demo_request Fastest Official) SelectionContext_default \<noteq> Panic"
proof -
  have "cache_load_validated (cache_codec demo_cs) None (cache_file (disk demo_s6)) = Ok (Some demo_cached)"
    by (simp add: demo_s6_def demo_sys_def cache_load_validated_def fs_read_def demo_cs_def demo_cached_def
        sample_cached_def MAX_CATALOG_BYTES_def CATALOG_CACHE_SCHEMA_VERSION_def from_bytes_def empty_catalog_def
        MAX_LOGICAL_SERVERS_def MAX_PHYSICAL_SERVERS_TOTAL_def physical_count_def validate_value_domains_def)
  with cached_catalog_is_selectable [OF demo_adopted_reachable demo_codecs_faithful,
      of "demo_request Fastest Official" SelectionContext_default]
  show ?thesis by auto
qed

end
